(* ===== verification/Tvm_Prelude.thy ===== *)
theory Tvm_Prelude
  imports Main "HOL-Library.Word"
begin

text \<open>
  What the components of the virtual machine share: the machine types of
  \<^verbatim>\<open>runtime/libtvm/tvm_types.h\<close> for a word length of four bytes, the collections of
  rewrite rules the component theories add to, and the lemmas on machine words (signed
  overflow, distances between addresses) that their proofs rest on.
\<close>

unbundle bit_operations_syntax

section \<open>Machine types\<close>

type_synonym BYTE = "8 word"
type_synonym WORD = "32 word"
type_synonym UDWORD = "64 word"

abbreviation (input) MIN_INT :: WORD where
  "MIN_INT \<equiv> 0x80000000"

abbreviation (input) WORD_BITS :: nat where
  "WORD_BITS \<equiv> 32"

abbreviation (input) WSH :: nat where
  "WSH \<equiv> 2"

named_theorems tvm_defs \<open>definitions of the virtual machine that a proof unfolds\<close>
named_theorems tvm_frame \<open>what an operation leaves unchanged\<close>

section \<open>Comparing word literals\<close>

lemma word_literal_le_one [simp]:
  "(numeral n :: WORD) \<le> 1 \<longleftrightarrow> unat (numeral n :: WORD) \<le> 1"
  "1 \<le> (numeral n :: WORD) \<longleftrightarrow> 1 \<le> unat (numeral n :: WORD)"
  "(numeral n :: WORD) < 1 \<longleftrightarrow> unat (numeral n :: WORD) < 1"
  "1 < (numeral n :: WORD) \<longleftrightarrow> 1 < unat (numeral n :: WORD)"
  by (simp_all only: word_le_nat_alt word_less_nat_alt unat_1)

section \<open>Signed arithmetic on words\<close>

lemma sign_bit_iff: "drop_bit 31 (w :: WORD) \<noteq> 0 \<longleftrightarrow> sint w < 0"
  using drop_bit_eq_zero_iff_not_bit_last [of w] bit_last_iff [of w] by simp

lemma bit31_iff: "bit (w :: WORD) 31 \<longleftrightarrow> sint w < 0"
  using bit_last_iff [of w] by simp

lemma sint_xor_neg_iff: "sint (x XOR y :: WORD) < 0 \<longleftrightarrow> (sint x < 0) \<noteq> (sint y < 0)"
  by (simp add: bit31_iff [symmetric] bit_xor_iff)

lemma sint_and_neg_iff: "sint (x AND y :: WORD) < 0 \<longleftrightarrow> sint x < 0 \<and> sint y < 0"
  by (simp add: bit31_iff [symmetric] bit_and_iff)

lemma sint_eq_iff: "v = w \<longleftrightarrow> sint (v :: WORD) = sint w"
  by (auto intro: signed_word_eqI)

lemma sint_range32: "- 2147483648 \<le> sint (w :: WORD)" "sint (w :: WORD) < 2147483648"
  using sint_greater_eq [of w] sint_lt [of w] by simp_all

lemma uint_range32: "0 \<le> uint (w :: WORD)" "uint (w :: WORD) < 4294967296"
  using unsigned_greater_eq [of w, where 'a = int] uint_lt2p [of w] by simp_all

lemma multiple_of_range:
  fixes x a b :: int
  assumes "4294967296 * x = a - b" "0 \<le> a" "a < 4294967296" "0 \<le> b" "b < 4294967296"
  shows "x = 0 \<and> a = b"
proof -
  have "x < 1" "- 1 < x" using assms by linarith+
  then have "x = 0" by linarith
  with assms(1) show ?thesis by simp
qed

lemma signed_take_bit_31:
  "signed_take_bit 31 (k :: int) = (k + 2147483648) mod 4294967296 - 2147483648"
  by (simp add: signed_take_bit_eq_take_bit_shift take_bit_eq_mod)

lemma sint_add32:
  "sint (a + b :: WORD) = (sint a + sint b + 2147483648) mod 4294967296 - 2147483648"
  by (simp add: sint_word_ariths signed_take_bit_31)

lemma sint_sub32:
  "sint (a - b :: WORD) = (sint a - sint b + 2147483648) mod 4294967296 - 2147483648"
  by (simp add: sint_word_ariths signed_take_bit_31)

definition in_range :: "int \<Rightarrow> bool" where
  "in_range k \<longleftrightarrow> - 2147483648 \<le> k \<and> k < 2147483648"

lemma in_range_sint [simp]: "in_range (sint (w :: WORD))"
  using sint_range32 [of w] by (simp add: in_range_def)

lemma sint_add_exact:
  "in_range (sint a + sint b) \<Longrightarrow> sint (a + b :: WORD) = sint a + sint b"
  by (simp add: sint_add32 in_range_def)

lemma sint_sub_exact:
  "in_range (sint a - sint b) \<Longrightarrow> sint (a - b :: WORD) = sint a - sint b"
  by (simp add: sint_sub32 in_range_def)

text \<open>The value of a word made from an integer that may not fit it.\<close>

lemma sint_of_int: "sint (word_of_int k :: WORD) = (k + 2147483648) mod 4294967296 - 2147483648"
  by (simp add: sint_sbintrunc' signed_take_bit_31)

lemma sint_of_int_exact: "in_range k \<Longrightarrow> sint (word_of_int k :: WORD) = k"
  by (simp add: sint_of_int in_range_def)

lemma sint_of_int_over:
  assumes "2147483648 \<le> k" "k < 6442450944"
  shows "sint (word_of_int k :: WORD) = k - 4294967296"
proof -
  have "(k + 2147483648) mod 4294967296 = (k - 2147483648) mod 4294967296"
    using minus_mod_self2 [of "k + 2147483648" 4294967296] by simp
  then show ?thesis using assms by (simp add: sint_of_int)
qed

lemma sint_of_int_under:
  assumes "k < - 2147483648" "- 6442450944 \<le> k"
  shows "sint (word_of_int k :: WORD) = k + 4294967296"
proof -
  have "(k + 2147483648) mod 4294967296 = (k + 6442450944) mod 4294967296"
    using mod_add_self2 [of "k + 2147483648" 4294967296] by (simp add: ac_simps)
  then show ?thesis using assms by (simp add: sint_of_int)
qed

lemmas sint_of_int_cases = sint_of_int_exact sint_of_int_over sint_of_int_under

lemma sint_uint_diff: "sint (w :: WORD) = (if sint w < 0 then uint w - 4294967296 else uint w)"
proof -
  have "sint w = sint (word_of_int (uint w) :: WORD)" by simp
  also have "\<dots> = (if sint w < 0 then uint w - 4294967296 else uint w)"
    using sint_of_int_cases [of "uint w"] sint_range32 [of w] uint_range32 [of w]
    unfolding in_range_def by (simp, linarith)
  finally show ?thesis .
qed


lemma bit31_uint: "bit (w :: WORD) 31 \<longleftrightarrow> 2147483648 \<le> uint w"
  using sint_uint_diff [of w] sint_range32 [of w] by (auto simp: bit31_iff split: if_splits)

lemma uint_drop_bit: "uint (drop_bit n w) = uint w div 2 ^ n"
proof -
  have "uint (drop_bit n w) = drop_bit n (uint w)"
    by (rule bit_eqI) (simp add: bit_unsigned_iff bit_drop_bit_eq)
  then show ?thesis by (simp add: drop_bit_eq_div)
qed

lemma uint_push_bit: "uint (push_bit n (w :: WORD)) = uint w * 2 ^ n mod 4294967296"
  by (simp only: unsigned_push_bit_eq) (simp add: take_bit_eq_mod push_bit_eq_mult)

lemma unat_less32: "unat (w :: WORD) < 4294967296"
proof -
  have "unat w < 2 ^ LENGTH(32)" by (rule unsigned_less)
  then show ?thesis by simp
qed

lemma unat_word_of_nat: "k < 4294967296 \<Longrightarrow> unat (word_of_nat k :: WORD) = k"
  by (simp add: unat_of_nat)

lemma offset_iff:
  assumes "k < 4294967296"
  shows "q = d + word_of_nat k \<longleftrightarrow> unat (q - d :: WORD) = k"
proof -
  have "q = d + word_of_nat k \<longleftrightarrow> q - d = word_of_nat k"
    by (simp add: diff_eq_eq add.commute)
  then show ?thesis
    using assms by (simp add: word_unat_eq_iff unat_of_nat)
qed

section \<open>Distances between addresses\<close>

text \<open>
  Addresses are machine words and their differences wrap round, so two blocks of \<open>n\<close> bytes at
  \<open>a\<close> and \<open>b\<close> do not overlap when neither difference is below \<open>n\<close>.
\<close>

definition apart :: "WORD \<Rightarrow> WORD \<Rightarrow> WORD \<Rightarrow> bool" where
  "apart n a b \<longleftrightarrow> n \<le> a - b \<and> n \<le> b - a"

lemma apart_commute: "apart n a b \<longleftrightarrow> apart n b a"
  by (auto simp: apart_def)

lemma apart_neq: "apart n a b \<Longrightarrow> 0 < n \<Longrightarrow> a \<noteq> b"
  by (auto simp: apart_def)

lemma apart_offsets:
  assumes n: "apart n a b" "i < n" "j < n"
  shows "a + i \<noteq> b + j"
proof
  assume eq: "a + i = b + j"
  show False
  proof (cases "i \<le> j")
    case True
    have "a - b = j - i" using eq by (simp add: algebra_simps)
    also have "\<dots> \<le> j" using True by (rule word_sub_le)
    finally show False using n by (auto simp: apart_def dest: leD le_less_trans)
  next
    case False
    have "b - a = i - j" using eq by (simp add: algebra_simps)
    also have "\<dots> \<le> i" using False by (intro word_sub_le) simp
    finally show False using n by (auto simp: apart_def dest: leD le_less_trans)
  qed
qed

text \<open>Two blocks that are far apart stay apart when each base moves a little.\<close>

lemma unat_diff_add:
  fixes x k l :: WORD
  assumes "k \<le> x" "unat x + unat l < 4294967296 + unat k"
  shows "unat (x - k + l) = unat x - unat k + unat l"
proof -
  have "unat (x - k) = unat x - unat k" using assms(1) by (rule unat_sub)
  with assms show ?thesis
    by (simp add: unat_word_ariths word_le_nat_alt)
qed

lemma apart_shift:
  assumes a: "apart 28 a b" and i: "i \<le> 24" and j: "j \<le> 24"
  shows "apart 4 (a - i) (b - j)"
proof -
  have *: "4 \<le> x - k + l" if "28 \<le> x" "28 \<le> - x" "k \<le> 24" "l \<le> 24" for x k l :: WORD
  proof -
    have "unat (- x) = 4294967296 - unat x"
      using that(1) unat_sub_if' [of 0 x] by (auto simp: word_le_nat_alt)
    with that have "unat x \<le> 4294967268" "28 \<le> unat x" "unat k \<le> 24" "unat l \<le> 24"
      by (auto simp: word_le_nat_alt)
    then show ?thesis
      by (subst word_le_nat_alt, subst unat_diff_add) (auto simp: word_le_nat_alt)
  qed
  have "28 \<le> a - b" "28 \<le> b - a" "28 \<le> - (a - b)" "28 \<le> - (b - a)"
    using a by (simp_all add: apart_def)
  with i j have "4 \<le> (a - b) - i + j" "4 \<le> (b - a) - j + i"
    by (auto intro!: * simp del: minus_diff_eq)
  then show ?thesis by (simp add: apart_def algebra_simps)
qed

text \<open>Distinct aligned words do not overlap.\<close>

definition aligned :: "WORD \<Rightarrow> bool" where
  "aligned p \<longleftrightarrow> p AND 3 = 0"

lemma aligned_iff_mod: "aligned p \<longleftrightarrow> unat p mod 4 = 0"
proof -
  have "p AND 3 = p mod 4"
    using take_bit_eq_mask [of 2 p] take_bit_eq_mod [of 2 p] by (simp add: mask_eq_exp_minus_1)
  moreover have "unat (p mod 4) = unat p mod 4"
    by (simp add: unat_mod_distrib)
  ultimately show ?thesis
    by (metis aligned_def unat_eq_zero)
qed

lemma mod_2_32_mod_4: "n mod 4294967296 mod 4 = (n :: nat) mod 4"
  by (rule mod_mod_cancel) simp

lemma aligned_add: "aligned p \<Longrightarrow> aligned q \<Longrightarrow> aligned (p + q)"
  by (auto simp: aligned_iff_mod unat_word_ariths mod_2_32_mod_4 simp flip: dvd_eq_mod_eq_0)

lemma aligned_mult4: "aligned (4 * k)"
  by (simp add: aligned_iff_mod unat_word_ariths mod_2_32_mod_4)

lemma aligned_uminus: "aligned q \<Longrightarrow> aligned (- q)"
  using unat_sub_if' [of 0 q] by (auto simp: aligned_iff_mod elim!: dvdE simp flip: dvd_eq_mod_eq_0)

lemma aligned_diff: "aligned p \<Longrightarrow> aligned q \<Longrightarrow> aligned (p - q)"
  using aligned_add [of p "- q"] aligned_uminus [of q] by simp

lemma aligned_apart:
  assumes "aligned a" "aligned b" "a \<noteq> b"
  shows "apart 4 a b"
proof -
  have "4 \<le> x" if "aligned x" "x \<noteq> 0" for x :: WORD
  proof -
    have "unat x mod 4 = 0" "unat x \<noteq> 0"
      using that by (simp_all add: aligned_iff_mod unat_eq_zero)
    then have "4 \<le> unat x" by presburger
    then show ?thesis by (simp add: word_le_nat_alt)
  qed
  then show ?thesis
    using assms by (simp add: apart_def aligned_diff)
qed

end
