(* ===== verification/Tvm_Memory.thy ===== *)
theory Tvm_Memory
  imports Tvm_Prelude
begin

text \<open>
  The memory of the virtual machine and the interface the instructions reach it through
  (\<^verbatim>\<open>tvm_mem_intf.h\<close>), the big-endian variant of that interface
  (\<^verbatim>\<open>mem_bigendian.c\<close>), and the block operations of \<^verbatim>\<open>mem.c\<close>, which are written
  against the interface and hold for every implementation of it.
\<close>

section \<open>The native memory interface\<close>

type_synonym memory = "WORD \<Rightarrow> BYTE"

definition read_byte :: "memory \<Rightarrow> WORD \<Rightarrow> BYTE" where
  "read_byte m p = m p"

definition write_byte :: "memory \<Rightarrow> WORD \<Rightarrow> BYTE \<Rightarrow> memory" where
  "write_byte m p b = m(p := b)"

definition read_word :: "memory \<Rightarrow> WORD \<Rightarrow> WORD" where
  "read_word m p =
     ucast (m p) OR push_bit 8 (ucast (m (p + 1))) OR
     push_bit 16 (ucast (m (p + 2))) OR push_bit 24 (ucast (m (p + 3)))"

definition write_word :: "memory \<Rightarrow> WORD \<Rightarrow> WORD \<Rightarrow> memory" where
  "write_word m p v =
     m(p := ucast v, p + 1 := ucast (drop_bit 8 v),
       p + 2 := ucast (drop_bit 16 v), p + 3 := ucast (drop_bit 24 v))"

definition wordptr_plus :: "WORD \<Rightarrow> WORD \<Rightarrow> WORD" where
  "wordptr_plus p inc = p + 4 * inc"

definition wordptr_minus :: "WORD \<Rightarrow> WORD \<Rightarrow> WORD" where
  "wordptr_minus p inc = p - 4 * inc"

definition byteptr_plus :: "WORD \<Rightarrow> WORD \<Rightarrow> WORD" where
  "byteptr_plus p inc = p + inc"

definition byteptr_minus :: "WORD \<Rightarrow> WORD \<Rightarrow> WORD" where
  "byteptr_minus p inc = p - inc"

text \<open>The four bytes of a word, and reading them back.\<close>

lemma word_bytes:
  fixes v :: WORD
  shows "ucast (ucast v :: BYTE) OR push_bit 8 (ucast (ucast (drop_bit 8 v) :: BYTE)) OR
     push_bit 16 (ucast (ucast (drop_bit 16 v) :: BYTE)) OR
     push_bit 24 (ucast (ucast (drop_bit 24 v) :: BYTE)) = v"
proof (rule bit_word_eqI)
  fix n assume n: "n < LENGTH(32)"
  then consider "n < 8" | "8 \<le> n \<and> n < 16" | "16 \<le> n \<and> n < 24" | "24 \<le> n \<and> n < 32"
    by fastforce
  then show "bit (ucast (ucast v :: BYTE) OR push_bit 8 (ucast (ucast (drop_bit 8 v) :: BYTE)) OR
     push_bit 16 (ucast (ucast (drop_bit 16 v) :: BYTE)) OR
     push_bit 24 (ucast (ucast (drop_bit 24 v) :: BYTE)) :: WORD) n = bit v n"
    by cases (auto simp: bit_simps)
qed

lemma byte_of_word:
  fixes a b c d :: BYTE
  defines "w \<equiv> ucast a OR push_bit 8 (ucast b) OR push_bit 16 (ucast c) OR push_bit 24 (ucast d) :: WORD"
  shows "ucast w = a" "ucast (drop_bit 8 w) = b" "ucast (drop_bit 16 w) = c"
    "ucast (drop_bit 24 w) = d"
  unfolding w_def by (rule bit_word_eqI, auto simp: bit_simps dest: bit_imp_le_length)+

lemma read_write_word_same [simp]: "read_word (write_word m p v) p = v"
  by (simp add: read_word_def write_word_def word_bytes)

lemma write_word_outside: "4 \<le> q - p \<Longrightarrow> write_word m p v q = m q"
  by (auto simp: write_word_def)

lemma word_offset_cases: "(i :: WORD) < 4 \<Longrightarrow> i = 0 \<or> i = 1 \<or> i = 2 \<or> i = 3"
  by unat_arith

lemma read_word_cong:
  assumes "\<And>i. i < 4 \<Longrightarrow> m (p + i) = m' (p + i)"
  shows "read_word m p = read_word m' p"
  using assms [of 0] assms [of 1] assms [of 2] assms [of 3] by (simp add: read_word_def)

lemma apart_bytes:
  assumes "apart 4 p q" "i < 4"
  shows "4 \<le> (q + i) - p"
proof (rule ccontr)
  assume "\<not> 4 \<le> (q + i) - p"
  then have "(q + i) - p < 4" by simp
  then have "p + ((q + i) - p) \<noteq> q + i"
    using assms by (intro apart_offsets)
  then show False by simp
qed

lemma read_write_word_other: "apart 4 p q \<Longrightarrow> read_word (write_word m p v) q = read_word m q"
  by (rule read_word_cong) (simp add: write_word_outside apart_bytes)

lemma write_word_read_word_byte:
  assumes "i < 4"
  shows "write_word m p (read_word m q) (p + i) = m (q + i)"
  using word_offset_cases [OF assms] by (elim disjE) (simp_all add: write_word_def read_word_def byte_of_word del: drop_bit_or)

section \<open>The interface and its laws\<close>

text \<open>
  \<^verbatim>\<open>tvm_mem_intf.h\<close> selects one of several implementations of four accessors; the rest of
  the machine reaches memory through them only. The record holds one implementation.
\<close>

record mem_ops =
  rd_word :: "memory \<Rightarrow> WORD \<Rightarrow> WORD"
  wr_word :: "memory \<Rightarrow> WORD \<Rightarrow> WORD \<Rightarrow> memory"
  rd_byte :: "memory \<Rightarrow> WORD \<Rightarrow> BYTE"
  wr_byte :: "memory \<Rightarrow> WORD \<Rightarrow> BYTE \<Rightarrow> memory"

definition native_ops :: mem_ops where
  "native_ops = \<lparr>rd_word = read_word, wr_word = write_word,
     rd_byte = read_byte, wr_byte = write_byte\<rparr>"

definition SwapFourBytes :: "WORD \<Rightarrow> WORD" where
  "SwapFourBytes d =
     (drop_bit 24 d AND 0x000000FF) OR (drop_bit 8 d AND 0x0000FF00) OR
     (push_bit 8 d AND 0x00FF0000) OR (push_bit 24 d AND 0xFF000000)"

definition be_write_word :: "memory \<Rightarrow> WORD \<Rightarrow> WORD \<Rightarrow> memory" where
  "be_write_word m p v = write_word m p (SwapFourBytes v)"

definition be_read_word :: "memory \<Rightarrow> WORD \<Rightarrow> WORD" where
  "be_read_word m p = SwapFourBytes (read_word m p)"

definition be_write_byte :: "memory \<Rightarrow> WORD \<Rightarrow> BYTE \<Rightarrow> memory" where
  "be_write_byte m p b = m(p := b)"

definition be_read_byte :: "memory \<Rightarrow> WORD \<Rightarrow> BYTE" where
  "be_read_byte m p = m p"

definition bigendian_ops :: mem_ops where
  "bigendian_ops = \<lparr>rd_word = be_read_word, wr_word = be_write_word,
     rd_byte = be_read_byte, wr_byte = be_write_byte\<rparr>"

definition byte_of :: "WORD \<Rightarrow> nat \<Rightarrow> BYTE" where
  "byte_of v j = ucast (drop_bit (8 * j) v)"

lemma word_of_bytes:
  "ucast (byte_of v 0) OR push_bit 8 (ucast (byte_of v 1)) OR
     push_bit 16 (ucast (byte_of v 2)) OR push_bit 24 (ucast (byte_of v 3)) = v"
  unfolding byte_of_def mult_0_right mult_1_right drop_bit_0 id_apply
  by (subst (2) word_bytes [of v, symmetric]) simp

lemma word_eq_bytes:
  assumes "\<And>j. j < 4 \<Longrightarrow> byte_of v j = byte_of w j"
  shows "v = w"
proof -
  have "byte_of v 0 = byte_of w 0" "byte_of v 1 = byte_of w 1"
    "byte_of v 2 = byte_of w 2" "byte_of v 3 = byte_of w 3"
    by (simp_all add: assms)
  then show ?thesis
    using word_of_bytes [of v] word_of_bytes [of w] by simp
qed

text \<open>
  What the clients of the interface rely on. \<open>lane i\<close> is the byte of a word that is stored at
  offset \<open>i\<close>: implementations differ in the order of the bytes and in nothing else.
\<close>

locale memory_interface =
  fixes M :: mem_ops and lane :: "WORD \<Rightarrow> nat"
  assumes rd_wr_byte: "rd_byte M (wr_byte M m p b) q = (if q = p then b else rd_byte M m q)"
    and wr_word_in: "i < 4 \<Longrightarrow> rd_byte M (wr_word M m p v) (p + i) = byte_of v (lane i)"
    and wr_word_out: "4 \<le> q - p \<Longrightarrow> rd_byte M (wr_word M m p v) q = rd_byte M m q"
    and rd_word_byte: "i < 4 \<Longrightarrow> byte_of (rd_word M m p) (lane i) = rd_byte M m (p + i)"
    and lane_bound: "i < 4 \<Longrightarrow> lane i < 4"
    and lane_onto: "j < 4 \<Longrightarrow> \<exists>i<4. lane i = j"
    and mem_eqI: "(\<And>p. rd_byte M m p = rd_byte M m' p) \<Longrightarrow> m = m'"
begin

lemma rd_word_cong:
  assumes "\<And>i. i < 4 \<Longrightarrow> rd_byte M m (p + i) = rd_byte M m' (q + i)"
  shows "rd_word M m p = rd_word M m' q"
proof (rule word_eq_bytes)
  fix j :: nat assume "j < 4"
  then obtain i where i: "i < 4" "lane i = j" using lane_onto by blast
  show "byte_of (rd_word M m p) j = byte_of (rd_word M m' q) j"
    using rd_word_byte [OF i(1), of m p] rd_word_byte [OF i(1), of m' q] assms [OF i(1)] i(2)
    by simp
qed

lemma rd_wr_word_same: "rd_word M (wr_word M m p v) p = v"
proof (rule word_eq_bytes)
  fix j :: nat assume "j < 4"
  then obtain i where i: "i < 4" "lane i = j" using lane_onto by blast
  show "byte_of (rd_word M (wr_word M m p v) p) j = byte_of v j"
    using rd_word_byte [OF i(1), of "wr_word M m p v" p] wr_word_in [OF i(1), of m p v] i(2)
    by simp
qed

lemma rd_wr_word_other: "apart 4 p q \<Longrightarrow> rd_word M (wr_word M m p v) q = rd_word M m q"
  by (rule rd_word_cong) (simp add: wr_word_out apart_bytes)

end

interpretation native: memory_interface native_ops "unat"
proof
  fix i m p v assume "(i :: WORD) < 4"
  then show "rd_byte native_ops (wr_word native_ops m p v) (p + i) = byte_of v (unat i)"
    using word_offset_cases
    by (fastforce simp: native_ops_def read_byte_def write_word_def byte_of_def)
next
  fix i m p assume "(i :: WORD) < 4"
  then show "byte_of (rd_word native_ops m p) (unat i) = rd_byte native_ops m (p + i)"
    using word_offset_cases
    by (fastforce simp: native_ops_def read_byte_def read_word_def byte_of_def byte_of_word
      simp del: drop_bit_or)
next
  fix j :: nat assume "j < 4"
  then show "\<exists>i<4. unat (i :: WORD) = j"
    by (intro exI [of _ "of_nat j"]) (simp add: word_less_nat_alt unat_of_nat)
qed (auto simp: word_less_nat_alt native_ops_def read_byte_def write_byte_def write_word_outside)

lemma lane_cases:
  "(j :: nat) < 4 \<Longrightarrow> (j = 0 \<Longrightarrow> P) \<Longrightarrow> (j = 1 \<Longrightarrow> P) \<Longrightarrow> (j = 2 \<Longrightarrow> P) \<Longrightarrow> (j = 3 \<Longrightarrow> P) \<Longrightarrow> P"
  by linarith

lemma quarter_cases:
  "((n :: nat) < 8 \<Longrightarrow> P) \<Longrightarrow> (8 \<le> n \<and> n < 16 \<Longrightarrow> P) \<Longrightarrow> (16 \<le> n \<and> n < 24 \<Longrightarrow> P) \<Longrightarrow>
     (24 \<le> n \<and> n < 32 \<Longrightarrow> P) \<Longrightarrow> (32 \<le> n \<Longrightarrow> P) \<Longrightarrow> P"
  by linarith

text \<open>The masks of the byte operations, as masks the bit lemmas know.\<close>

lemma byte_masks:
  "(0xFF :: WORD) = mask 8" "(0xFF00 :: WORD) = push_bit 8 (mask 8)"
  "(0xFF0000 :: WORD) = push_bit 16 (mask 8)" "(0xFF000000 :: WORD) = push_bit 24 (mask 8)"
  "(0xFFFF0000 :: WORD) = push_bit 16 (mask 16)"
  by (simp_all add: mask_eq_exp_minus_1)

lemma bit_byte_of: "bit (byte_of v j) n \<longleftrightarrow> n < 8 \<and> bit v (8 * j + n)"
  by (auto simp: byte_of_def bit_simps)

lemma bit_SwapFourBytes:
  "bit (SwapFourBytes v) n \<longleftrightarrow>
     n < 8 \<and> bit v (24 + n) \<or> 8 \<le> n \<and> n < 16 \<and> bit v (8 + n) \<or>
     16 \<le> n \<and> n < 24 \<and> bit v (n - 8) \<or> 24 \<le> n \<and> n < 32 \<and> bit v (n - 24)"
  unfolding SwapFourBytes_def byte_masks
  by (rule quarter_cases [of n]; simp add: bit_simps; auto)

lemma byte_of_SwapFourBytes: "j < 4 \<Longrightarrow> byte_of (SwapFourBytes v) j = byte_of v (3 - j)"
  by (rule bit_word_eqI, erule lane_cases) (auto simp: bit_byte_of bit_SwapFourBytes)

interpretation bigendian: memory_interface bigendian_ops "\<lambda>i. 3 - unat i"
proof
  fix i m p v assume i: "(i :: WORD) < 4"
  have "unat i < 4" using i by (simp add: word_less_nat_alt)
  then show "rd_byte bigendian_ops (wr_word bigendian_ops m p v) (p + i) = byte_of v (3 - unat i)"
    using native.wr_word_in [OF i, of m p "SwapFourBytes v"]
    by (simp add: bigendian_ops_def native_ops_def be_read_byte_def read_byte_def be_write_word_def
      byte_of_SwapFourBytes)
next
  fix i m p assume i: "(i :: WORD) < 4"
  have "unat i < 4" using i by (simp add: word_less_nat_alt)
  then show "byte_of (rd_word bigendian_ops m p) (3 - unat i) = rd_byte bigendian_ops m (p + i)"
    using native.rd_word_byte [OF i, of m p]
    by (simp add: bigendian_ops_def native_ops_def be_read_byte_def read_byte_def be_read_word_def
      byte_of_SwapFourBytes)
next
  fix j :: nat assume "j < 4"
  then show "\<exists>i<4. 3 - unat (i :: WORD) = j"
    by (intro exI [of _ "word_of_nat (3 - j)"]) (auto simp: word_less_nat_alt elim: lane_cases)
qed (auto simp: bigendian_ops_def be_read_byte_def be_write_byte_def be_write_word_def write_word_outside)

section \<open>Block operations: mem.c\<close>

text \<open>
  \<^verbatim>\<open>_tvm_memcpy\<close> and \<^verbatim>\<open>_tvm_memset\<close> return a pointer as well as changing memory: where
  they copied words it is the destination they were given, where they copied bytes it is the
  address past the last byte. The counts are unsigned words, so the loops run to zero.
\<close>

fun copy_words :: "mem_ops \<Rightarrow> nat \<Rightarrow> WORD \<Rightarrow> WORD \<Rightarrow> memory \<Rightarrow> memory" where
  "copy_words M 0 dst src m = m"
| "copy_words M (Suc n) dst src m =
     copy_words M n (wordptr_plus dst 1) (wordptr_plus src 1) (wr_word M m dst (rd_word M m src))"

fun copy_bytes :: "mem_ops \<Rightarrow> nat \<Rightarrow> WORD \<Rightarrow> WORD \<Rightarrow> memory \<Rightarrow> memory" where
  "copy_bytes M 0 dst src m = m"
| "copy_bytes M (Suc n) dst src m =
     copy_bytes M n (byteptr_plus dst 1) (byteptr_plus src 1) (wr_byte M m dst (rd_byte M m src))"

definition tvm_memcpy :: "mem_ops \<Rightarrow> WORD \<Rightarrow> WORD \<Rightarrow> WORD \<Rightarrow> memory \<Rightarrow> WORD \<times> memory" where
  "tvm_memcpy M dst src n m =
     (if (n OR dst OR src) AND 3 = 0
      then (dst, copy_words M (unat (drop_bit WSH n)) dst src m)
      else (byteptr_plus dst n, copy_bytes M (unat n) dst src m))"

fun set_words :: "mem_ops \<Rightarrow> nat \<Rightarrow> WORD \<Rightarrow> WORD \<Rightarrow> memory \<Rightarrow> memory" where
  "set_words M 0 s c m = m"
| "set_words M (Suc n) s c m = set_words M n (wordptr_plus s 1) c (wr_word M m s c)"

fun set_bytes :: "mem_ops \<Rightarrow> nat \<Rightarrow> WORD \<Rightarrow> BYTE \<Rightarrow> memory \<Rightarrow> memory" where
  "set_bytes M 0 s c m = m"
| "set_bytes M (Suc n) s c m = set_bytes M n (byteptr_plus s 1) c (wr_byte M m s c)"

text \<open>The three assignments that expand the byte in \<open>c\<close> to a word.\<close>

definition expand_byte :: "WORD \<Rightarrow> WORD" where
  "expand_byte c =
     (let c = c AND 0xff;
          c = c OR (push_bit 8 c AND 0xff00);
          c = c OR (push_bit 16 c AND 0xffff0000)
      in c)"

definition tvm_memset :: "mem_ops \<Rightarrow> WORD \<Rightarrow> WORD \<Rightarrow> WORD \<Rightarrow> memory \<Rightarrow> WORD \<times> memory" where
  "tvm_memset M s c n m =
     (if (n OR s) AND 3 = 0 \<and> drop_bit (WSH + 2) n \<noteq> 0
      then (s, set_words M (unat (drop_bit WSH n)) s (expand_byte c) m)
      else (byteptr_plus s n, set_bytes M (unat n) s (ucast c) m))"

lemma byte_of_expand_byte: "j < 4 \<Longrightarrow> byte_of (expand_byte c) j = ucast c"
  by (rule bit_word_eqI, erule lane_cases)
    (simp_all add: bit_byte_of expand_byte_def Let_def byte_masks bit_simps)

lemma aligned_or: "aligned (a OR b) \<longleftrightarrow> aligned a \<and> aligned b"
  by (simp add: aligned_def bit.conj_disj_distrib2 or_eq_0_iff)

lemma aligned_words: "aligned n \<Longrightarrow> 4 * unat (drop_bit WSH n) = unat n"
  by (auto simp: aligned_iff_mod drop_bit_eq_div unat_div_distrib)

context memory_interface begin

text \<open>One word is copied, or set, as its four bytes one after the other would be.\<close>

lemma rd_byte_wr_word:
  "rd_byte M (wr_word M m p v) q =
     (if q - p < 4 then byte_of v (lane (q - p)) else rd_byte M m q)"
  using wr_word_in [of "q - p" m p v] wr_word_out [of q p m v] by auto


lemma rd_byte_copy_bytes_4:
  assumes "d = s \<or> apart 4 d s"
  shows "rd_byte M (copy_bytes M 4 d s m) q =
    (if q = d + 3 then rd_byte M m (s + 3) else if q = d + 2 then rd_byte M m (s + 2)
     else if q = d + 1 then rd_byte M m (s + 1) else if q = d then rd_byte M m s
     else rd_byte M m q)"
proof -
  have ne: "s + i \<noteq> d + j" if "i < 4" "j < 4" "i \<noteq> j" for i j
    using assms apart_offsets [of 4 d s j i] that by auto
  have "s + 1 \<noteq> d" "s + 2 \<noteq> d" "s + 3 \<noteq> d" "s + 2 \<noteq> d + 1" "s + 3 \<noteq> d + 1" "s + 3 \<noteq> d + 2"
    using ne [of 1 0] ne [of 2 0] ne [of 3 0] ne [of 2 1] ne [of 3 1] ne [of 3 2] by simp_all
  moreover have "copy_bytes M 4 d s m =
      wr_byte M (wr_byte M (wr_byte M (wr_byte M m d (rd_byte M m s))
        (d + 1) (rd_byte M (wr_byte M m d (rd_byte M m s)) (s + 1)))
        (d + 2) (rd_byte M (wr_byte M (wr_byte M m d (rd_byte M m s))
          (d + 1) (rd_byte M (wr_byte M m d (rd_byte M m s)) (s + 1))) (s + 2)))
        (d + 3) (rd_byte M (wr_byte M (wr_byte M (wr_byte M m d (rd_byte M m s))
          (d + 1) (rd_byte M (wr_byte M m d (rd_byte M m s)) (s + 1)))
          (d + 2) (rd_byte M (wr_byte M (wr_byte M m d (rd_byte M m s))
            (d + 1) (rd_byte M (wr_byte M m d (rd_byte M m s)) (s + 1))) (s + 2))) (s + 3))"
    by (simp add: numeral_eq_Suc byteptr_plus_def add.commute)
  ultimately show ?thesis by (simp add: rd_wr_byte)
qed

lemma near_cases:
  "(q - d :: WORD) < 4 \<Longrightarrow> q = d \<or> q = d + 1 \<or> q = d + 2 \<or> q = d + 3"
  by (drule word_offset_cases) (auto simp: diff_eq_eq add.commute)

lemma copy_word_as_bytes:
  assumes "d = s \<or> apart 4 d s"
  shows "wr_word M m d (rd_word M m s) = copy_bytes M 4 d s m"
proof (rule mem_eqI)
  fix q
  show "rd_byte M (wr_word M m d (rd_word M m s)) q = rd_byte M (copy_bytes M 4 d s m) q"
  proof (cases "q - d < 4")
    case True
    then have "rd_byte M (wr_word M m d (rd_word M m s)) q = rd_byte M m (s + (q - d))"
      by (simp add: rd_byte_wr_word rd_word_byte)
    with near_cases [OF True] show ?thesis
      by (auto simp: rd_byte_copy_bytes_4 [OF assms])
  next
    case False
    then have "q \<noteq> d" "q \<noteq> d + 1" "q \<noteq> d + 2" "q \<noteq> d + 3" by auto
    with False show ?thesis
      by (simp add: rd_byte_copy_bytes_4 [OF assms] rd_byte_wr_word)
  qed
qed


lemma copy_bytes_add:
  "copy_bytes M (a + b) d s m =
     copy_bytes M b (d + word_of_nat a) (s + word_of_nat a) (copy_bytes M a d s m)"
  by (induction a arbitrary: d s m) (simp_all add: byteptr_plus_def algebra_simps)

lemma copy_words_as_bytes:
  "aligned d \<Longrightarrow> aligned s \<Longrightarrow> copy_words M n d s m = copy_bytes M (4 * n) d s m"
proof (induction n arbitrary: d s m)
  case 0
  show ?case by simp
next
  case (Suc n)
  have al: "aligned (d + 4)" "aligned (s + 4)"
    using Suc.prems aligned_add aligned_mult4 [of 1] by auto
  have "d = s \<or> apart 4 d s"
    using Suc.prems aligned_apart [of d s] by blast
  then have "copy_words M (Suc n) d s m = copy_bytes M (4 * n) (d + 4) (s + 4) (copy_bytes M 4 d s m)"
    using al by (simp add: wordptr_plus_def Suc.IH copy_word_as_bytes)
  also have "\<dots> = copy_bytes M (4 + 4 * n) d s m"
    by (simp add: copy_bytes_add)
  finally show ?case by simp
qed

lemma memcpy_as_bytes: "snd (tvm_memcpy M dst src n m) = copy_bytes M (unat n) dst src m"
  by (simp add: tvm_memcpy_def aligned_def [symmetric] aligned_or copy_words_as_bytes aligned_words)

lemma rd_byte_copy_bytes:
  assumes "apart n d s" "k \<le> unat n"
  shows "rd_byte M (copy_bytes M k d s m) q =
     (if unat (q - d) < k then rd_byte M m (s + (q - d)) else rd_byte M m q)"
  using assms(2)
proof (induction k arbitrary: q)
  case 0
  show ?case by simp
next
  case (Suc k)
  have k: "unat (word_of_nat k :: WORD) = k" "word_of_nat k < n"
    using Suc.prems unat_less32 [of n] by (simp_all add: unat_word_of_nat word_less_nat_alt)
  have "\<not> unat (s + word_of_nat k - d) < k"
  proof
    assume *: "unat (s + word_of_nat k - d) < k"
    then have "s + word_of_nat k - d < n"
      using Suc.prems by (simp add: word_less_nat_alt)
    then have "d + (s + word_of_nat k - d) \<noteq> s + word_of_nat k"
      using apart_offsets [OF assms(1)] k(2) by blast
    then show False by simp
  qed
  then have src: "rd_byte M (copy_bytes M k d s m) (s + word_of_nat k) = rd_byte M m (s + word_of_nat k)"
    using Suc by simp
  have at: "q = d + word_of_nat k \<longleftrightarrow> unat (q - d) = k"
    using Suc.prems unat_less32 [of n] by (intro offset_iff) simp
  have "copy_bytes M (Suc k) d s m = wr_byte M (copy_bytes M k d s m) (d + word_of_nat k)
      (rd_byte M (copy_bytes M k d s m) (s + word_of_nat k))"
    using copy_bytes_add [of k 1 d s m] by simp
  then show ?case
    using Suc at by (auto simp: rd_wr_byte src less_Suc_eq)
qed

text \<open>The block that is copied, and everything else.\<close>

lemma memcpy_inside:
  "apart n dst src \<Longrightarrow> i < n \<Longrightarrow>
     rd_byte M (snd (tvm_memcpy M dst src n m)) (dst + i) = rd_byte M m (src + i)"
  by (simp add: memcpy_as_bytes rd_byte_copy_bytes word_less_nat_alt)

lemma memcpy_outside:
  "apart n dst src \<Longrightarrow> n \<le> q - dst \<Longrightarrow>
     rd_byte M (snd (tvm_memcpy M dst src n m)) q = rd_byte M m q"
  by (simp add: memcpy_as_bytes rd_byte_copy_bytes word_le_nat_alt)


lemma set_word_as_bytes:
  assumes "\<And>j. j < 4 \<Longrightarrow> byte_of v j = c"
  shows "wr_word M m s v = set_bytes M 4 s c m"
proof (rule mem_eqI)
  fix q
  have lane: "lane i < 4 \<Longrightarrow> byte_of v (lane i) = c" for i by (rule assms)
  have "rd_byte M (set_bytes M 4 s c m) q =
      (if q = s \<or> q = s + 1 \<or> q = s + 2 \<or> q = s + 3 then c else rd_byte M m q)"
    by (simp add: numeral_eq_Suc byteptr_plus_def rd_wr_byte add.commute)
  then show "rd_byte M (wr_word M m s v) q = rd_byte M (set_bytes M 4 s c m) q"
    using near_cases [of q s] lane_bound [of "q - s"] by (auto simp: rd_byte_wr_word lane)
qed

lemma set_bytes_add:
  "set_bytes M (a + b) s c m = set_bytes M b (s + word_of_nat a) c (set_bytes M a s c m)"
  by (induction a arbitrary: s m) (simp_all add: byteptr_plus_def algebra_simps)

lemma set_words_as_bytes:
  assumes "\<And>j. j < 4 \<Longrightarrow> byte_of v j = c"
  shows "set_words M n s v m = set_bytes M (4 * n) s c m"
proof (induction n arbitrary: s m)
  case (Suc n)
  have "set_words M (Suc n) s v m = set_bytes M (4 * n) (s + 4) c (set_bytes M 4 s c m)"
    by (simp add: wordptr_plus_def Suc.IH set_word_as_bytes [OF assms])
  also have "\<dots> = set_bytes M (4 + 4 * n) s c m"
    by (simp add: set_bytes_add)
  finally show ?case by simp
qed simp

lemma memset_as_bytes: "snd (tvm_memset M s c n m) = set_bytes M (unat n) s (ucast c) m"
  using set_words_as_bytes [OF byte_of_expand_byte, of _ s c m]
  by (simp add: tvm_memset_def aligned_def [symmetric] aligned_or aligned_words)

lemma rd_byte_set_bytes:
  "k \<le> 4294967296 \<Longrightarrow> rd_byte M (set_bytes M k s c m) q = (if unat (q - s) < k then c else rd_byte M m q)"
proof (induction k)
  case (Suc k)
  have "q = s + word_of_nat k \<longleftrightarrow> unat (q - s) = k"
    using Suc.prems by (intro offset_iff) simp
  moreover have "set_bytes M (Suc k) s c m = wr_byte M (set_bytes M k s c m) (s + word_of_nat k) c"
    using set_bytes_add [of k 1 s c m] by simp
  ultimately show ?case
    using Suc by (auto simp: rd_wr_byte less_Suc_eq)
qed simp

lemma memset_byte:
  "rd_byte M (snd (tvm_memset M s c n m)) q = (if q - s < n then ucast c else rd_byte M m q)"
  using unat_less32 [of n] by (simp add: memset_as_bytes rd_byte_set_bytes word_less_nat_alt)

end

text \<open>C29: the two memory interfaces. A word read back after it was written is the word written, a
  word that does not overlap it is unchanged, and the byte stored at offset \<open>i\<close> of the word is its
  byte number \<open>i\<close> in the little endian interface and number \<open>3 - i\<close> in the big endian one.\<close>

theorem memory_interfaces:
  assumes "apart 4 p q" "i < 4"
  shows "rd_word native_ops (wr_word native_ops m p v) p = v \<and>
    rd_word bigendian_ops (wr_word bigendian_ops m p v) p = v \<and>
    rd_word native_ops (wr_word native_ops m p v) q = rd_word native_ops m q \<and>
    rd_word bigendian_ops (wr_word bigendian_ops m p v) q = rd_word bigendian_ops m q \<and>
    rd_byte native_ops (wr_word native_ops m p v) (p + i) = byte_of v (unat i) \<and>
    rd_byte bigendian_ops (wr_word bigendian_ops m p v) (p + i) = byte_of v (3 - unat i)"
  using assms native.rd_wr_word_same bigendian.rd_wr_word_same native.rd_wr_word_other bigendian.rd_wr_word_other
    native.wr_word_in bigendian.wr_word_in by auto

text \<open>\<^verbatim>\<open>_tvm_memcpy\<close>, through either interface: whether it copies words or bytes, when the
  blocks do not overlap every byte of the destination block becomes the corresponding byte of the
  source block and every other byte of memory keeps its value.\<close>

lemma memcpy_moves_block:
  assumes "apart n dst src"
  shows "rd_byte native_ops (snd (tvm_memcpy native_ops dst src n m)) q =
      rd_byte native_ops m (if q - dst < n then src + (q - dst) else q) \<and>
    rd_byte bigendian_ops (snd (tvm_memcpy bigendian_ops dst src n m)) q =
      rd_byte bigendian_ops m (if q - dst < n then src + (q - dst) else q)"
  using native.memcpy_inside [OF assms, of "q - dst" m] native.memcpy_outside [OF assms, of q m]
    bigendian.memcpy_inside [OF assms, of "q - dst" m] bigendian.memcpy_outside [OF assms, of q m]
  by (cases "q - dst < n") simp_all

text \<open>\<^verbatim>\<open>_tvm_memset\<close>, through either interface: whether it stores words that repeat the
  byte four times or bytes, it fills the block with the low byte of its argument and leaves every
  other byte alone.\<close>

lemma memset_fills_block:
  "rd_byte native_ops (snd (tvm_memset native_ops s c n m)) q =
     (if q - s < n then ucast c else rd_byte native_ops m q) \<and>
   rd_byte bigendian_ops (snd (tvm_memset bigendian_ops s c n m)) q =
     (if q - s < n then ucast c else rd_byte bigendian_ops m q)"
  by (intro conjI native.memset_byte bigendian.memset_byte)

theorem memory_interfaces_witness:
  "rd_word native_ops (wr_word native_ops (\<lambda>_. 7) 16 0x01020304) 16 = 0x01020304 \<and>
   rd_byte bigendian_ops (wr_word bigendian_ops (\<lambda>_. 7) 16 0x01020304) (16 + 1) = byte_of 0x01020304 2"
  using memory_interfaces [of 16 20 1 "\<lambda>_. 7" "0x01020304"] by (simp add: apart_def)

lemma memcpy_moves_block_witness:
  "rd_byte native_ops (snd (tvm_memcpy native_ops 64 16 12 ucast)) (64 + 5) = 21 \<and>
   rd_byte native_ops (snd (tvm_memcpy native_ops 64 16 12 ucast)) (64 + 12) = 76"
  using memcpy_moves_block [of 12 64 16 ucast "64 + 5"] memcpy_moves_block [of 12 64 16 ucast "64 + 12"]
  by (simp add: apart_def native_ops_def read_byte_def)

end
