(* ===== verification/Tvm_State.thy ===== *)
theory Tvm_State
  imports Tvm_Memory
begin

text \<open>
  The state of the virtual machine: the execution context of \<^verbatim>\<open>transputer.h\<close>, the memory
  all contexts share, the clock, and the list of contexts of a \<^verbatim>\<open>tvm_t\<close>; then the macros
  the instructions are written with (\<^verbatim>\<open>transputer.h\<close>, \<^verbatim>\<open>instructions.h\<close>,
  \<^verbatim>\<open>tvm_time.h\<close>).
\<close>

section \<open>Constants\<close>

subsection \<open>Workspace slots, counted in words below the workspace pointer\<close>

abbreviation (input) WS_TEMP :: WORD where "WS_TEMP \<equiv> 0"
abbreviation (input) WS_IPTR :: WORD where "WS_IPTR \<equiv> 1"
abbreviation (input) WS_LINK :: WORD where "WS_LINK \<equiv> 2"
abbreviation (input) WS_PENDING :: WORD where "WS_PENDING \<equiv> 2"
abbreviation (input) WS_ECTX :: WORD where "WS_ECTX \<equiv> 3"
abbreviation (input) WS_POINTER :: WORD where "WS_POINTER \<equiv> 4"
abbreviation (input) WS_STATE :: WORD where "WS_STATE \<equiv> 4"
abbreviation (input) WS_TLINK :: WORD where "WS_TLINK \<equiv> 5"
abbreviation (input) WS_TIME :: WORD where "WS_TIME \<equiv> 6"

subsection \<open>Process words\<close>

abbreviation (input) NOT_PROCESS_P :: WORD where "NOT_PROCESS_P \<equiv> 0"
abbreviation (input) NULL_P :: WORD where "NULL_P \<equiv> 0"
abbreviation (input) ENABLING_P :: WORD where "ENABLING_P \<equiv> 0x80000001"
abbreviation (input) WAITING_P :: WORD where "WAITING_P \<equiv> 0x80000002"
abbreviation (input) DISABLING_P :: WORD where "DISABLING_P \<equiv> 0x80000003"
abbreviation (input) READY_P :: WORD where "READY_P \<equiv> 0x80000003"
abbreviation (input) TIME_SET_P :: WORD where "TIME_SET_P \<equiv> 0x80000001"
abbreviation (input) TIME_NOT_SET_P :: WORD where "TIME_NOT_SET_P \<equiv> 0x80000002"
abbreviation (input) NONE_SELECTED_O :: WORD where "NONE_SELECTED_O \<equiv> 0xFFFFFFFF"

subsection \<open>Error flags and synchronisation flags\<close>

abbreviation (input) EFLAG_SETERR :: WORD where "EFLAG_SETERR \<equiv> 1"
abbreviation (input) EFLAG_INTERR :: WORD where "EFLAG_INTERR \<equiv> 2"
abbreviation (input) EFLAG_INTOV :: WORD where "EFLAG_INTOV \<equiv> 4"
abbreviation (input) EFLAG_ALT :: WORD where "EFLAG_ALT \<equiv> 16"
abbreviation (input) EFLAG_FFI :: WORD where "EFLAG_FFI \<equiv> 32"
abbreviation (input) EFLAG_CHAN :: WORD where "EFLAG_CHAN \<equiv> 64"
abbreviation (input) EFLAG_EXTCHAN :: WORD where "EFLAG_EXTCHAN \<equiv> 128"
abbreviation (input) EFLAG_BAR :: WORD where "EFLAG_BAR \<equiv> 256"
abbreviation (input) EFLAG_DMEM :: WORD where "EFLAG_DMEM \<equiv> 512"
abbreviation (input) EFLAG_MT :: WORD where "EFLAG_MT \<equiv> 1024"
abbreviation (input) EFLAG_PROC :: WORD where "EFLAG_PROC \<equiv> 2048"
abbreviation (input) SFLAG_TQ :: WORD where "SFLAG_TQ \<equiv> 1"
abbreviation (input) SFLAG_INTR :: WORD where "SFLAG_INTR \<equiv> 2"

subsection \<open>What an instruction returns\<close>

abbreviation (input) ECTX_CONTINUE :: int where "ECTX_CONTINUE \<equiv> 0"
abbreviation (input) ECTX_INIT :: int where "ECTX_INIT \<equiv> 105"
abbreviation (input) ECTX_INS_INVALID :: int where "ECTX_INS_INVALID \<equiv> 73"
abbreviation (input) ECTX_INS_UNSUPPORTED :: int where "ECTX_INS_UNSUPPORTED \<equiv> 85"
abbreviation (input) ECTX_INTERRUPT :: int where "ECTX_INTERRUPT \<equiv> 120"
abbreviation (input) ECTX_EMPTY :: int where "ECTX_EMPTY \<equiv> 101"
abbreviation (input) ECTX_ERROR :: int where "ECTX_ERROR \<equiv> 69"
abbreviation (input) ECTX_PREEMPT :: int where "ECTX_PREEMPT \<equiv> 112"
abbreviation (input) ECTX_RUNNING :: int where "ECTX_RUNNING \<equiv> 114"
abbreviation (input) ECTX_SHUTDOWN :: int where "ECTX_SHUTDOWN \<equiv> 83"
abbreviation (input) ECTX_SLEEP :: int where "ECTX_SLEEP \<equiv> 115"
abbreviation (input) ECTX_TIME_SLICE :: int where "ECTX_TIME_SLICE \<equiv> 116"
abbreviation (input) ECTX_DESCHEDULE :: int where "ECTX_DESCHEDULE \<equiv> - 1"
abbreviation (input) ECTX_BYPASS :: int where "ECTX_BYPASS \<equiv> - 2"

section \<open>State\<close>

text \<open>
  One execution context, \<^verbatim>\<open>struct _tvm_ectx_t\<close>. The field \<^verbatim>\<open>_creg\<close> is \<open>creg_saved\<close>.
  The function pointers of the scheduler are not fields: \<^verbatim>\<open>_tvm_install_scheduler\<close> always
  sets them to the functions of \<^verbatim>\<open>scheduler.c\<close>. \<open>NULL\<close> is the address 0.
\<close>

record ectx =
  iptr :: WORD
  oreg :: WORD
  areg :: WORD
  breg :: WORD
  creg :: WORD
  creg_saved :: WORD
  pri :: WORD
  wptr :: WORD
  fptr :: WORD
  bptr :: WORD
  tptr :: WORD
  tnext :: WORD
  eflags :: WORD
  state :: int
  sflags :: WORD
  tlp_fmt :: string
  tlp_argc :: int
  tlp_argv :: "WORD list"
  next_ectx :: WORD

text \<open>
  The machine: shared memory, the contexts by address, the first and last context of the
  \<^verbatim>\<open>tvm_t\<close> list, and the values the host's clock will return: \<open>clock n\<close> is what the call
  number \<open>n\<close> of \<^verbatim>\<open>get_time\<close> reads.
\<close>

record tvm =
  mem :: memory
  ectxs :: "WORD \<Rightarrow> ectx"
  head :: WORD
  tail :: WORD
  clock :: "nat \<Rightarrow> WORD"
  ticks :: nat

text \<open>
  A step returns the C result code and the next state. \<open>None\<close> stands for an execution the C
  code gives no result to: a loop that does not end, or a division the hardware traps.
\<close>

type_synonym result = "(int \<times> tvm) option"

definition upd_ectx :: "WORD \<Rightarrow> (ectx \<Rightarrow> ectx) \<Rightarrow> tvm \<Rightarrow> tvm" where
  "upd_ectx e f s = s\<lparr>ectxs := (ectxs s)(e := f (ectxs s e))\<rparr>"

lemma upd_ectx_simps [simp]:
  "ectxs (upd_ectx e f s) e' = (if e' = e then f (ectxs s e) else ectxs s e')"
  "mem (upd_ectx e f s) = mem s"
  "head (upd_ectx e f s) = head s"
  "tail (upd_ectx e f s) = tail s"
  "clock (upd_ectx e f s) = clock s"
  "ticks (upd_ectx e f s) = ticks s"
  by (simp_all add: upd_ectx_def)

abbreviation AREG :: "WORD \<Rightarrow> tvm \<Rightarrow> WORD" where "AREG e s \<equiv> areg (ectxs s e)"
abbreviation BREG :: "WORD \<Rightarrow> tvm \<Rightarrow> WORD" where "BREG e s \<equiv> breg (ectxs s e)"
abbreviation CREG :: "WORD \<Rightarrow> tvm \<Rightarrow> WORD" where "CREG e s \<equiv> creg (ectxs s e)"
abbreviation OREG :: "WORD \<Rightarrow> tvm \<Rightarrow> WORD" where "OREG e s \<equiv> oreg (ectxs s e)"
abbreviation IPTR :: "WORD \<Rightarrow> tvm \<Rightarrow> WORD" where "IPTR e s \<equiv> iptr (ectxs s e)"
abbreviation WPTR :: "WORD \<Rightarrow> tvm \<Rightarrow> WORD" where "WPTR e s \<equiv> wptr (ectxs s e)"
abbreviation FPTR :: "WORD \<Rightarrow> tvm \<Rightarrow> WORD" where "FPTR e s \<equiv> fptr (ectxs s e)"
abbreviation BPTR :: "WORD \<Rightarrow> tvm \<Rightarrow> WORD" where "BPTR e s \<equiv> bptr (ectxs s e)"
abbreviation TPTR :: "WORD \<Rightarrow> tvm \<Rightarrow> WORD" where "TPTR e s \<equiv> tptr (ectxs s e)"
abbreviation TNEXT :: "WORD \<Rightarrow> tvm \<Rightarrow> WORD" where "TNEXT e s \<equiv> tnext (ectxs s e)"

text \<open>Assignments to one register.\<close>

abbreviation set_AREG :: "WORD \<Rightarrow> WORD \<Rightarrow> tvm \<Rightarrow> tvm" where
  "set_AREG e v \<equiv> upd_ectx e (\<lambda>c. c\<lparr>areg := v\<rparr>)"
abbreviation set_BREG :: "WORD \<Rightarrow> WORD \<Rightarrow> tvm \<Rightarrow> tvm" where
  "set_BREG e v \<equiv> upd_ectx e (\<lambda>c. c\<lparr>breg := v\<rparr>)"
abbreviation set_CREG :: "WORD \<Rightarrow> WORD \<Rightarrow> tvm \<Rightarrow> tvm" where
  "set_CREG e v \<equiv> upd_ectx e (\<lambda>c. c\<lparr>creg := v\<rparr>)"
abbreviation set_OREG :: "WORD \<Rightarrow> WORD \<Rightarrow> tvm \<Rightarrow> tvm" where
  "set_OREG e v \<equiv> upd_ectx e (\<lambda>c. c\<lparr>oreg := v\<rparr>)"
abbreviation set_IPTR :: "WORD \<Rightarrow> WORD \<Rightarrow> tvm \<Rightarrow> tvm" where
  "set_IPTR e v \<equiv> upd_ectx e (\<lambda>c. c\<lparr>iptr := v\<rparr>)"
abbreviation set_WPTR :: "WORD \<Rightarrow> WORD \<Rightarrow> tvm \<Rightarrow> tvm" where
  "set_WPTR e v \<equiv> upd_ectx e (\<lambda>c. c\<lparr>wptr := v\<rparr>)"
abbreviation set_FPTR :: "WORD \<Rightarrow> WORD \<Rightarrow> tvm \<Rightarrow> tvm" where
  "set_FPTR e v \<equiv> upd_ectx e (\<lambda>c. c\<lparr>fptr := v\<rparr>)"
abbreviation set_BPTR :: "WORD \<Rightarrow> WORD \<Rightarrow> tvm \<Rightarrow> tvm" where
  "set_BPTR e v \<equiv> upd_ectx e (\<lambda>c. c\<lparr>bptr := v\<rparr>)"
abbreviation set_TPTR :: "WORD \<Rightarrow> WORD \<Rightarrow> tvm \<Rightarrow> tvm" where
  "set_TPTR e v \<equiv> upd_ectx e (\<lambda>c. c\<lparr>tptr := v\<rparr>)"
abbreviation set_TNEXT :: "WORD \<Rightarrow> WORD \<Rightarrow> tvm \<Rightarrow> tvm" where
  "set_TNEXT e v \<equiv> upd_ectx e (\<lambda>c. c\<lparr>tnext := v\<rparr>)"

section \<open>Macros\<close>

text \<open>Reads and writes of the machine's memory, and of the slots below a workspace.\<close>

definition put_word :: "WORD \<Rightarrow> WORD \<Rightarrow> tvm \<Rightarrow> tvm" where
  "put_word p v s = s\<lparr>mem := write_word (mem s) p v\<rparr>"

definition put_byte :: "WORD \<Rightarrow> BYTE \<Rightarrow> tvm \<Rightarrow> tvm" where
  "put_byte p b s = s\<lparr>mem := write_byte (mem s) p b\<rparr>"

abbreviation get_word :: "tvm \<Rightarrow> WORD \<Rightarrow> WORD" where
  "get_word s p \<equiv> read_word (mem s) p"

definition WORKSPACE_GET :: "tvm \<Rightarrow> WORD \<Rightarrow> WORD \<Rightarrow> WORD" where
  "WORKSPACE_GET s ws loc = get_word s (wordptr_minus ws loc)"

definition WORKSPACE_SET :: "WORD \<Rightarrow> WORD \<Rightarrow> WORD \<Rightarrow> tvm \<Rightarrow> tvm" where
  "WORKSPACE_SET ws loc v s = put_word (wordptr_minus ws loc) v s"

text \<open>\<^verbatim>\<open>STACK\<close>, \<^verbatim>\<open>STACK2\<close> and \<^verbatim>\<open>STACK1\<close>: without type shadows
  the last two leave the lower registers as they are, and \<^verbatim>\<open>UNDEFINE_STACK\<close> does nothing.\<close>

definition STACK :: "WORD \<Rightarrow> WORD \<Rightarrow> WORD \<Rightarrow> WORD \<Rightarrow> tvm \<Rightarrow> tvm" where
  "STACK e a b c = upd_ectx e (\<lambda>x. x\<lparr>areg := a, breg := b, creg := c\<rparr>)"

definition STACK2 :: "WORD \<Rightarrow> WORD \<Rightarrow> WORD \<Rightarrow> tvm \<Rightarrow> tvm" where
  "STACK2 e a b = upd_ectx e (\<lambda>x. x\<lparr>areg := a, breg := b\<rparr>)"

definition STACK1 :: "WORD \<Rightarrow> WORD \<Rightarrow> tvm \<Rightarrow> tvm" where
  "STACK1 e a = upd_ectx e (\<lambda>x. x\<lparr>areg := a\<rparr>)"

definition UNDEFINE_STACK :: "WORD \<Rightarrow> tvm \<Rightarrow> tvm" where
  "UNDEFINE_STACK e s = s"

definition continue :: "tvm \<Rightarrow> result" where
  "continue s = Some (ECTX_CONTINUE, s)"

abbreviation STACK_RET :: "WORD \<Rightarrow> WORD \<Rightarrow> WORD \<Rightarrow> WORD \<Rightarrow> tvm \<Rightarrow> result" where
  "STACK_RET e a b c s \<equiv> continue (STACK e a b c s)"
abbreviation STACK2_RET :: "WORD \<Rightarrow> WORD \<Rightarrow> WORD \<Rightarrow> tvm \<Rightarrow> result" where
  "STACK2_RET e a b s \<equiv> continue (STACK2 e a b s)"
abbreviation STACK1_RET :: "WORD \<Rightarrow> WORD \<Rightarrow> tvm \<Rightarrow> result" where
  "STACK1_RET e a s \<equiv> continue (STACK1 e a s)"
abbreviation UNDEFINE_STACK_RET :: "WORD \<Rightarrow> tvm \<Rightarrow> result" where
  "UNDEFINE_STACK_RET e s \<equiv> continue (UNDEFINE_STACK e s)"

text \<open>
  \<^verbatim>\<open>SET_ERROR_FLAG\<close> calls \<^verbatim>\<open>set_error_flag\<close> of \<^verbatim>\<open>scheduler.c\<close> and returns what
  that returns unless it is zero. \<open>error_if c e flag s k\<close> is the statement
  \<^verbatim>\<open>if (c) SET_ERROR_FLAG (flag)\<close> with \<open>k\<close> the code after it.
\<close>

definition set_error_flag :: "WORD \<Rightarrow> WORD \<Rightarrow> tvm \<Rightarrow> int \<times> tvm" where
  "set_error_flag e flag s = (ECTX_ERROR, upd_ectx e (\<lambda>c. c\<lparr>eflags := eflags c OR flag\<rparr>) s)"

definition SET_ERROR_FLAG_RET :: "WORD \<Rightarrow> WORD \<Rightarrow> tvm \<Rightarrow> result" where
  "SET_ERROR_FLAG_RET e flag s = Some (set_error_flag e flag s)"

definition error_if :: "bool \<Rightarrow> WORD \<Rightarrow> WORD \<Rightarrow> tvm \<Rightarrow> (tvm \<Rightarrow> result) \<Rightarrow> result" where
  "error_if c e flag s k =
     (if c then (case set_error_flag e flag s of (ret, s') \<Rightarrow>
        if ret \<noteq> 0 then Some (ret, s') else k s') else k s)"

definition TIME_AFTER :: "WORD \<Rightarrow> WORD \<Rightarrow> bool" where
  "TIME_AFTER t1 t2 \<longleftrightarrow> 0 < sint (t1 - t2)"

definition get_time :: "WORD \<Rightarrow> tvm \<Rightarrow> WORD \<times> tvm" where
  "get_time e s = (clock s (ticks s), s\<lparr>ticks := Suc (ticks s)\<rparr>)"

lemma put_word_simps [simp]:
  "ectxs (put_word p v s) = ectxs s" "head (put_word p v s) = head s"
  "tail (put_word p v s) = tail s" "clock (put_word p v s) = clock s"
  "ticks (put_word p v s) = ticks s" "mem (put_word p v s) = write_word (mem s) p v"
  by (simp_all add: put_word_def)

lemma put_byte_simps [simp]:
  "ectxs (put_byte p b s) = ectxs s" "head (put_byte p b s) = head s"
  "tail (put_byte p b s) = tail s" "clock (put_byte p b s) = clock s"
  "ticks (put_byte p b s) = ticks s" "mem (put_byte p b s) = write_byte (mem s) p b"
  by (simp_all add: put_byte_def)

lemma error_if_simps [simp]:
  "error_if True e flag s k = SET_ERROR_FLAG_RET e flag s"
  "error_if False e flag s k = k s"
  by (simp_all add: error_if_def SET_ERROR_FLAG_RET_def set_error_flag_def)

lemmas step_defs [tvm_defs] = continue_def SET_ERROR_FLAG_RET_def set_error_flag_def
  STACK_def STACK2_def STACK1_def UNDEFINE_STACK_def

section \<open>A machine to start from\<close>

text \<open>Memory and registers hold zero; the examples of the other theories set up their states from
  it.\<close>

definition blank_ectx :: ectx where
  "blank_ectx = \<lparr>iptr = 0, oreg = 0, areg = 0, breg = 0, creg = 0, creg_saved = 0, pri = 0, wptr = 0,
     fptr = 0, bptr = 0, tptr = 0, tnext = 0, eflags = 0, state = 0, sflags = 0, tlp_fmt = [],
     tlp_argc = 0, tlp_argv = [], next_ectx = 0\<rparr>"

definition blank :: tvm where
  "blank = \<lparr>mem = (\<lambda>_. 0), ectxs = (\<lambda>_. blank_ectx), head = 0, tail = 0, clock = (\<lambda>_. 0), ticks = 0\<rparr>"

lemma blank_simps [simp]:
  "mem blank = (\<lambda>_. 0)" "ectxs blank e = blank_ectx" "head blank = 0" "tail blank = 0"
  "clock blank n = 0" "ticks blank = 0"
  "fptr blank_ectx = 0" "bptr blank_ectx = 0" "tptr blank_ectx = 0" "wptr blank_ectx = 0"
  "sflags blank_ectx = 0" "eflags blank_ectx = 0" "areg blank_ectx = 0" "breg blank_ectx = 0"
  "creg blank_ectx = 0" "oreg blank_ectx = 0" "iptr blank_ectx = 0" "next_ectx blank_ectx = 0"
  by (simp_all add: blank_def blank_ectx_def)

lemma read_word_zero [simp]: "read_word (\<lambda>_. 0) p = 0"
  by (simp add: read_word_def)

end
