(* ===== verification/Tvm_Queue.thy ===== *)
theory Tvm_Queue
  imports Tvm_State
begin

text \<open>
  Lists of processes linked through workspace slots. The run queue, the timer queue and the
  queues of barriers and semaphores all have this form; this theory holds what their proofs
  share: when workspaces do not overlap, what a write to one slot leaves unchanged, and how
  linked lists grow and shrink. The locale states what a first-in first-out queue promises.
\<close>

section \<open>Workspace slots\<close>

lemma WORKSPACE_SET_simps [simp]:
  "ectxs (WORKSPACE_SET ws k v s) = ectxs s" "head (WORKSPACE_SET ws k v s) = head s"
  "tail (WORKSPACE_SET ws k v s) = tail s" "clock (WORKSPACE_SET ws k v s) = clock s"
  "ticks (WORKSPACE_SET ws k v s) = ticks s"
  by (simp_all add: WORKSPACE_SET_def)

lemma WORKSPACE_GET_upd_ectx [simp]: "WORKSPACE_GET (upd_ectx e f s) ws k = WORKSPACE_GET s ws k"
  by (simp add: WORKSPACE_GET_def)

lemma WORKSPACE_GET_ticks [simp]: "WORKSPACE_GET (s\<lparr>ticks := n\<rparr>) ws k = WORKSPACE_GET s ws k"
  by (simp add: WORKSPACE_GET_def)

lemma WORKSPACE_SET_upd_ectx [simp]:
  "WORKSPACE_SET p k v (upd_ectx e f s) = upd_ectx e f (WORKSPACE_SET p k v s)"
  by (simp add: WORKSPACE_SET_def put_word_def upd_ectx_def)

text \<open>The slots in use are numbers 0 to 6: seven words, 28 bytes.\<close>

lemma slot_cases: "(i :: WORD) \<le> 6 \<Longrightarrow> i = 0 \<or> i = 1 \<or> i = 2 \<or> i = 3 \<or> i = 4 \<or> i = 5 \<or> i = 6"
  by unat_arith

lemma slots_apart:
  assumes "i \<le> 6" "j \<le> 6" "p = q \<and> i \<noteq> j \<or> apart 28 p q"
  shows "apart 4 (wordptr_minus p i) (wordptr_minus q j)"
proof (cases "apart 28 p q")
  case True
  have "4 * i \<le> 24" "4 * j \<le> 24"
    using slot_cases [OF assms(1)] slot_cases [OF assms(2)] by auto
  with True show ?thesis by (simp add: wordptr_minus_def apart_shift)
next
  case False
  with assms have "p = q" "i \<noteq> j" by auto
  with slot_cases [OF assms(1)] slot_cases [OF assms(2)] show ?thesis
    by (auto simp: wordptr_minus_def apart_def)
qed

lemma WORKSPACE_GET_SET_same [simp]: "WORKSPACE_GET (WORKSPACE_SET ws k v s) ws k = v"
  by (simp add: WORKSPACE_GET_def WORKSPACE_SET_def)

lemma WORKSPACE_GET_SET_other [simp]:
  "i \<noteq> j \<Longrightarrow> i \<le> 6 \<Longrightarrow> j \<le> 6 \<Longrightarrow> WORKSPACE_GET (WORKSPACE_SET ws i v s) ws j = WORKSPACE_GET s ws j"
  by (simp add: WORKSPACE_GET_def WORKSPACE_SET_def read_write_word_other slots_apart)

lemma WORKSPACE_GET_SET_apart:
  "apart 28 p q \<Longrightarrow> i \<le> 6 \<Longrightarrow> j \<le> 6 \<Longrightarrow>
     WORKSPACE_GET (WORKSPACE_SET p i v s) q j = WORKSPACE_GET s q j"
  by (simp add: WORKSPACE_GET_def WORKSPACE_SET_def read_write_word_other slots_apart)

section \<open>Linked lists of workspaces\<close>

text \<open>A set, and a list, of workspaces that do not overlap, none of them the null process.\<close>

definition ws_set :: "WORD set \<Rightarrow> bool" where
  "ws_set A \<longleftrightarrow> 0 \<notin> A \<and> (\<forall>p \<in> A. \<forall>q \<in> A. p \<noteq> q \<longrightarrow> apart 28 p q)"

definition ws_list :: "WORD list \<Rightarrow> bool" where
  "ws_list ps \<longleftrightarrow> distinct ps \<and> 0 \<notin> set ps \<and>
     (\<forall>p \<in> set ps. \<forall>q \<in> set ps. p \<noteq> q \<longrightarrow> apart 28 p q)"

lemma ws_list_iff: "ws_list ps \<longleftrightarrow> distinct ps \<and> ws_set (set ps)"
  by (auto simp: ws_list_def ws_set_def)

lemma ws_set_mono: "ws_set A \<Longrightarrow> B \<subseteq> A \<Longrightarrow> ws_set B"
  unfolding ws_set_def by blast

lemma ws_setD: "ws_set A \<Longrightarrow> p \<in> A \<Longrightarrow> q \<in> A \<Longrightarrow> p = q \<or> apart 28 p q"
  unfolding ws_set_def by blast

lemma WORKSPACE_GET_SET:
  "ws_set A \<Longrightarrow> p \<in> A \<Longrightarrow> q \<in> A \<Longrightarrow> i \<le> 6 \<Longrightarrow> j \<le> 6 \<Longrightarrow>
     WORKSPACE_GET (WORKSPACE_SET p i v s) q j = (if p = q \<and> i = j then v else WORKSPACE_GET s q j)"
  by (auto dest: ws_setD simp: WORKSPACE_GET_SET_apart)

text \<open>Slot \<open>k\<close> of each element but the last holds the next one.\<close>

fun linked :: "tvm \<Rightarrow> WORD \<Rightarrow> WORD list \<Rightarrow> bool" where
  "linked s k (p # q # ps) \<longleftrightarrow> WORKSPACE_GET s p k = q \<and> linked s k (q # ps)"
| "linked s k _ \<longleftrightarrow> True"

lemma ws_list_Nil [simp]: "ws_list []"
  by (simp add: ws_list_def)

lemma ws_list_append1:
  "ws_list (ps @ [p]) \<longleftrightarrow> ws_list ps \<and> p \<noteq> 0 \<and> p \<notin> set ps \<and> (\<forall>q \<in> set ps. apart 28 p q)"
  by (auto simp: ws_list_def apart_commute)

lemma ws_list_Cons:
  "ws_list (p # ps) \<longleftrightarrow> ws_list ps \<and> p \<noteq> 0 \<and> p \<notin> set ps \<and> (\<forall>q \<in> set ps. apart 28 p q)"
  by (auto simp: ws_list_def apart_commute)

lemma ws_list_appendD: "ws_list (ps @ qs) \<Longrightarrow> ws_list ps \<and> ws_list qs"
  by (auto simp: ws_list_def)

lemma ws_list_append_apart:
  assumes "ws_list (ps @ qs)" "p \<in> set ps" "q \<in> set qs"
  shows "apart 28 p q \<and> apart 28 q p"
proof -
  have "p \<noteq> q" using assms by (auto simp: ws_list_def)
  with assms show ?thesis by (auto simp: ws_list_def)
qed

lemma ws_list_apart: "ws_list ps \<Longrightarrow> p \<in> set ps \<Longrightarrow> q \<in> set ps \<Longrightarrow> p \<noteq> q \<Longrightarrow> apart 28 p q"
  by (auto simp: ws_list_def)

lemma ws_list_nonzero: "ws_list ps \<Longrightarrow> p \<in> set ps \<Longrightarrow> p \<noteq> 0"
  by (auto simp: ws_list_def)

lemma linked_cong:
  "(\<And>p. p \<in> set ps \<Longrightarrow> WORKSPACE_GET s p k = WORKSPACE_GET s' p k) \<Longrightarrow> linked s k ps = linked s' k ps"
  by (induction s k ps rule: linked.induct) auto

lemma linked_Cons:
  "linked s k (p # ps) \<longleftrightarrow> (ps \<noteq> [] \<longrightarrow> WORKSPACE_GET s p k = hd ps) \<and> linked s k ps"
  by (cases ps) auto

lemma linked_append:
  "linked s k (ps @ qs) \<longleftrightarrow> linked s k ps \<and> linked s k qs \<and>
     (ps \<noteq> [] \<and> qs \<noteq> [] \<longrightarrow> WORKSPACE_GET s (last ps) k = hd qs)"
  by (induction ps) (auto simp: linked_Cons)

lemma linked_upd_ectx [simp]: "linked (upd_ectx e f s) k ps = linked s k ps"
  by (rule linked_cong) simp

lemma linked_ticks [simp]: "linked (s\<lparr>ticks := n\<rparr>) k ps = linked s k ps"
  by (rule linked_cong) simp

text \<open>A write outside the links of the list.\<close>

lemma linked_SET_other:
  "(\<And>q. q \<in> set ps \<Longrightarrow> p = q \<and> i \<noteq> k \<or> apart 28 p q) \<Longrightarrow> i \<le> 6 \<Longrightarrow> k \<le> 6 \<Longrightarrow>
     linked (WORKSPACE_SET p i v s) k ps = linked s k ps"
  by (rule linked_cong) (metis WORKSPACE_GET_SET_apart WORKSPACE_GET_SET_other)

text \<open>A write to the link of the last element.\<close>

lemma linked_SET_last:
  assumes "ws_list ps" "k \<le> 6" "ps \<noteq> []"
  shows "linked (WORKSPACE_SET (last ps) k v s) k ps = linked s k ps"
proof -
  obtain qs p where ps: "ps = qs @ [p]" using assms(3) by (cases ps rule: rev_cases) auto
  have "linked (WORKSPACE_SET p k v s) k qs = linked s k qs"
    using assms ps by (intro linked_SET_other) (auto simp: ws_list_append1)
  moreover have "qs \<noteq> [] \<Longrightarrow> apart 28 p (last qs)"
    using assms(1) ps by (auto simp: ws_list_append1)
  ultimately show ?thesis
    using assms(2) ps by (auto simp: linked_append WORKSPACE_GET_SET_apart)
qed

section \<open>First in, first out\<close>

text \<open>
  The contract between the queues and their users: \<open>holds s q\<close> says that the queue in state
  \<open>s\<close> holds the processes \<open>q\<close>, \<open>valid q\<close> that they can be on a queue together.
\<close>

locale process_queue =
  fixes enq :: "WORD \<Rightarrow> 's \<Rightarrow> 's"
    and deq :: "'s \<Rightarrow> (WORD \<times> 's) option"
    and holds :: "'s \<Rightarrow> WORD list \<Rightarrow> bool"
    and valid :: "WORD list \<Rightarrow> bool"
  assumes enq_holds: "holds s q \<Longrightarrow> valid (q @ [p]) \<Longrightarrow> holds (enq p s) (q @ [p])"
    and deq_empty: "holds s [] \<Longrightarrow> deq s = None"
    and deq_first: "holds s (p # q) \<Longrightarrow> \<exists>s'. deq s = Some (p, s') \<and> holds s' q"
    and valid_front: "valid (q @ r) \<Longrightarrow> valid q"
begin

lemma enq_all_holds:
  "holds s q \<Longrightarrow> valid (q @ ps) \<Longrightarrow> holds (fold enq ps s) (q @ ps)"
proof (induction ps arbitrary: s q)
  case (Cons p ps)
  have "valid (q @ [p])"
    using Cons.prems(2) valid_front [of "q @ [p]" ps] by simp
  then have "holds (enq p s) (q @ [p])"
    using Cons.prems(1) by (rule enq_holds [rotated])
  then show ?case
    using Cons.IH [of "enq p s" "q @ [p]"] Cons.prems(2) by simp
qed simp

fun deq_many :: "nat \<Rightarrow> 's \<Rightarrow> (WORD list \<times> 's) option" where
  "deq_many 0 s = Some ([], s)"
| "deq_many (Suc n) s =
     (case deq s of None \<Rightarrow> None
      | Some (p, s) \<Rightarrow> map_option (\<lambda>(ps, s). (p # ps, s)) (deq_many n s))"

lemma deq_many_holds:
  "holds s (ps @ q) \<Longrightarrow> \<exists>s'. deq_many (length ps) s = Some (ps, s') \<and> holds s' q"
proof (induction ps arbitrary: s)
  case (Cons p ps)
  then obtain s' where "deq s = Some (p, s')" "holds s' (ps @ q)"
    using deq_first [of s p "ps @ q"] by auto
  with Cons.IH [of s'] show ?case by auto
qed simp

text \<open>Processes leave in the order in which they came, behind those already there.\<close>

lemma fifo:
  assumes "holds s q" "valid (q @ ps)"
  shows "\<exists>s'. deq_many (length q + length ps) (fold enq ps s) = Some (q @ ps, s') \<and> holds s' []"
  using deq_many_holds [of "fold enq ps s" "q @ ps" "[]"] enq_all_holds [OF assms] by simp

end

end
