(* ===== verification/Tvm_Scheduler.thy ===== *)
theory Tvm_Scheduler
  imports Tvm_Queue "HOL-Library.Monad_Syntax"
begin

text \<open>
  The scheduler, \<^verbatim>\<open>scheduler.c\<close>, and the macros of \<^verbatim>\<open>scheduler.h\<close> through which the
  instructions reach it: the run queue, the timer queue, and the step that gives a context its
  next process. The queues are lists linked through slots of the workspaces in memory.
\<close>

section \<open>The run queue\<close>

definition add_to_queue :: "WORD \<Rightarrow> WORD \<Rightarrow> tvm \<Rightarrow> tvm" where
  "add_to_queue e ws s =
     (let s = WORKSPACE_SET ws WS_LINK NOT_PROCESS_P s in
      if FPTR e s = NOT_PROCESS_P then set_BPTR e ws (set_FPTR e ws s)
      else set_BPTR e ws (WORKSPACE_SET (BPTR e s) WS_LINK ws s))"

definition add_to_queue_external :: "WORD \<Rightarrow> WORD \<Rightarrow> WORD \<Rightarrow> tvm \<Rightarrow> int \<times> tvm" where
  "add_to_queue_external e src_ctx ws s =
     (let s = add_to_queue e ws s in
      if src_ctx \<noteq> 0 then
        if pri (ectxs s e) <s pri (ectxs s src_ctx) then (ECTX_PREEMPT, s) else (ECTX_CONTINUE, s)
      else (ECTX_CONTINUE, s))"

definition add_queue_to_queue :: "WORD \<Rightarrow> WORD \<Rightarrow> WORD \<Rightarrow> tvm \<Rightarrow> tvm" where
  "add_queue_to_queue e front back s =
     (let s = WORKSPACE_SET back WS_LINK NOT_PROCESS_P s in
      if FPTR e s = NOT_PROCESS_P then set_BPTR e back (set_FPTR e front s)
      else set_BPTR e back (WORKSPACE_SET (BPTR e s) WS_LINK front s))"

definition modify_sync_flags :: "WORD \<Rightarrow> WORD \<Rightarrow> WORD \<Rightarrow> tvm \<Rightarrow> tvm" where
  "modify_sync_flags e set_flags clear_flags =
     upd_ectx e (\<lambda>c. c\<lparr>sflags := (sflags c AND NOT clear_flags) OR set_flags\<rparr>)"

definition busy_wait_set_alarm :: "WORD \<Rightarrow> tvm \<Rightarrow> tvm" where
  "busy_wait_set_alarm e s = modify_sync_flags e SFLAG_TQ 0 s"

section \<open>The timer queue\<close>

text \<open>
  The loops follow links through memory, so on a corrupted queue they need not end:
  \<open>None\<close> is a loop that does not.
\<close>

partial_function (option) timer_insert_loop ::
    "WORD \<Rightarrow> WORD \<Rightarrow> WORD \<Rightarrow> WORD \<Rightarrow> tvm \<Rightarrow> tvm option" where
  "timer_insert_loop this_ws next_ws ws reschedule_time s =
     (if next_ws = NOT_PROCESS_P then
        Some (WORKSPACE_SET ws WS_TLINK NOT_PROCESS_P (WORKSPACE_SET this_ws WS_TLINK ws s))
      else if TIME_AFTER (WORKSPACE_GET s next_ws WS_TIME) reschedule_time then
        Some (WORKSPACE_SET this_ws WS_TLINK ws (WORKSPACE_SET ws WS_TLINK next_ws s))
      else timer_insert_loop next_ws (WORKSPACE_GET s next_ws WS_TLINK) ws reschedule_time s)"

definition timer_queue_insert :: "WORD \<Rightarrow> WORD \<Rightarrow> WORD \<Rightarrow> WORD \<Rightarrow> tvm \<Rightarrow> tvm option" where
  "timer_queue_insert e ws current_time reschedule_time s =
     (if TPTR e s = NOT_PROCESS_P then
        Some (busy_wait_set_alarm e
          (WORKSPACE_SET ws WS_TLINK NOT_PROCESS_P
            (WORKSPACE_SET ws WS_IPTR (IPTR e s)
              (set_TNEXT e reschedule_time (set_TPTR e ws s)))))
      else if TIME_AFTER (TNEXT e s) reschedule_time then
        Some (busy_wait_set_alarm e
          (set_TNEXT e reschedule_time (set_TPTR e ws
            (WORKSPACE_SET ws WS_TLINK (TPTR e s) s))))
      else timer_insert_loop (TPTR e s) (WORKSPACE_GET s (TPTR e s) WS_TLINK) ws reschedule_time s)"

partial_function (option) timer_remove_loop ::
    "WORD \<Rightarrow> WORD \<Rightarrow> WORD \<Rightarrow> tvm \<Rightarrow> tvm option" where
  "timer_remove_loop previous current ws s =
     (if current \<noteq> NOT_PROCESS_P then
        if current = ws then
          Some (WORKSPACE_SET previous WS_TLINK (WORKSPACE_GET s ws WS_TLINK) s)
        else timer_remove_loop current (WORKSPACE_GET s current WS_TLINK) ws s
      else Some s)"

definition timer_queue_remove :: "WORD \<Rightarrow> WORD \<Rightarrow> tvm \<Rightarrow> tvm option" where
  "timer_queue_remove e ws s = do {
     s \<leftarrow> (if TPTR e s = ws then
            let s = set_TPTR e (WORKSPACE_GET s (TPTR e s) WS_TLINK) s in
            if TPTR e s \<noteq> NOT_PROCESS_P then
              Some (busy_wait_set_alarm e (set_TNEXT e (WORKSPACE_GET s (TPTR e s) WS_TIME) s))
            else Some s
          else if TPTR e s \<noteq> NOT_PROCESS_P then
            timer_remove_loop (TPTR e s) (WORKSPACE_GET s (TPTR e s) WS_TLINK) ws s
          else Some s);
     Some (WORKSPACE_SET ws WS_TLINK TIME_NOT_SET_P s)
   }"

text \<open>The body of the \<^verbatim>\<open>do\<close> loop of \<^verbatim>\<open>walk_timer_queue\<close>, up to its first test.\<close>

definition expire_timer :: "WORD \<Rightarrow> WORD \<Rightarrow> WORD \<Rightarrow> tvm \<Rightarrow> tvm" where
  "expire_timer e tp now s =
     (let s = WORKSPACE_SET tp WS_TLINK TIME_SET_P s;
          s = WORKSPACE_SET tp WS_TIME now s
      in if WORKSPACE_GET s tp WS_STATE \<noteq> READY_P
         then add_to_queue e tp (WORKSPACE_SET tp WS_STATE READY_P s)
         else s)"

partial_function (option) walk_timer_loop :: "WORD \<Rightarrow> WORD \<Rightarrow> WORD \<Rightarrow> tvm \<Rightarrow> tvm option" where
  "walk_timer_loop e tp now s =
     (let nxt = WORKSPACE_GET s tp WS_TLINK;
          s = expire_timer e tp now s
      in if nxt = NOT_PROCESS_P then Some (set_TPTR e NOT_PROCESS_P s)
         else let tnxt = WORKSPACE_GET s nxt WS_TIME in
           if \<not> TIME_AFTER tnxt now then walk_timer_loop e nxt now s
           else Some (busy_wait_set_alarm e (set_TNEXT e tnxt (set_TPTR e nxt s))))"

definition walk_timer_queue :: "WORD \<Rightarrow> WORD \<Rightarrow> tvm \<Rightarrow> tvm option" where
  "walk_timer_queue e now s =
     (if TPTR e s = NOT_PROCESS_P \<or> TIME_AFTER (TNEXT e s) now then Some s
      else walk_timer_loop e (TPTR e s) now s)"

section \<open>Synchronisation and the next process\<close>

definition busy_wait_synchronise :: "WORD \<Rightarrow> tvm \<Rightarrow> result" where
  "busy_wait_synchronise e s =
     (if sflags (ectxs s e) AND SFLAG_INTR \<noteq> 0 then Some (ECTX_INTERRUPT, s)
      else if sflags (ectxs s e) AND SFLAG_TQ \<noteq> 0 then
        (let (now, s) = get_time e s in
         do {
           s \<leftarrow> walk_timer_queue e now s;
           Some (ECTX_CONTINUE,
             if TPTR e s = NOT_PROCESS_P then modify_sync_flags e 0 SFLAG_TQ s else s)
         })
      else Some (ECTX_ERROR, s))"

text \<open>The part of \<^verbatim>\<open>run_next_on_queue\<close> after the synchronisation.\<close>

definition take_next :: "WORD \<Rightarrow> tvm \<Rightarrow> int \<times> tvm" where
  "take_next e s =
     (if FPTR e s \<noteq> NOT_PROCESS_P then
        let s = set_WPTR e (FPTR e s) s;
            s = (if FPTR e s = BPTR e s
                 then set_BPTR e NOT_PROCESS_P (set_FPTR e NOT_PROCESS_P s)
                 else set_FPTR e (WORKSPACE_GET s (FPTR e s) WS_LINK) s)
        in (ECTX_CONTINUE, set_IPTR e (WORKSPACE_GET s (WPTR e s) WS_IPTR) s)
      else
        let s = set_WPTR e NOT_PROCESS_P s
        in if TPTR e s \<noteq> NOT_PROCESS_P then (ECTX_SLEEP, s) else (ECTX_EMPTY, s))"

definition run_next_on_queue :: "WORD \<Rightarrow> tvm \<Rightarrow> result" where
  "run_next_on_queue e s =
     (if sflags (ectxs s e) \<noteq> 0 then do {
        (ret, s) \<leftarrow> busy_wait_synchronise e s;
        if ret \<noteq> 0 then Some (ret, set_WPTR e NOT_PROCESS_P s)
        else Some (take_next e s)
      }
      else Some (take_next e s))"

section \<open>The macros of scheduler.h\<close>

definition ADD_TO_QUEUE_IPTR :: "WORD \<Rightarrow> WORD \<Rightarrow> WORD \<Rightarrow> tvm \<Rightarrow> tvm" where
  "ADD_TO_QUEUE_IPTR e ws ip s = add_to_queue e ws (WORKSPACE_SET ws WS_IPTR ip s)"

definition ADD_TO_QUEUE_ECTX :: "WORD \<Rightarrow> WORD \<Rightarrow> tvm \<Rightarrow> int \<times> tvm" where
  "ADD_TO_QUEUE_ECTX e ws s =
     (let dst = WORKSPACE_GET s ws WS_ECTX in
      if dst \<noteq> e then add_to_queue_external dst e ws s
      else (ECTX_CONTINUE, add_to_queue e ws s))"

definition ADD_TO_QUEUE_ECTX_RET :: "WORD \<Rightarrow> WORD \<Rightarrow> tvm \<Rightarrow> result" where
  "ADD_TO_QUEUE_ECTX_RET e ws s = Some (ADD_TO_QUEUE_ECTX e ws s)"

definition DESCHEDULE_CURRENT :: "WORD \<Rightarrow> tvm \<Rightarrow> tvm" where
  "DESCHEDULE_CURRENT e s =
     set_WPTR e NOT_PROCESS_P (ADD_TO_QUEUE_IPTR e (WPTR e s) (IPTR e s) s)"

definition LOAD_PROCESS_RET :: "WORD \<Rightarrow> WORD \<Rightarrow> tvm \<Rightarrow> result" where
  "LOAD_PROCESS_RET e ws s =
     (let dst = WORKSPACE_GET s ws WS_ECTX in
      if dst \<noteq> e then
        (case add_to_queue_external dst e ws s of
           (ret, s) \<Rightarrow> if ret \<noteq> 0 then Some (ret, s) else run_next_on_queue e s)
      else
        let s = set_WPTR e ws s
        in Some (ECTX_CONTINUE, set_IPTR e (WORKSPACE_GET s (WPTR e s) WS_IPTR) s))"

section \<open>The run queue as a list\<close>

definition run_queue :: "WORD \<Rightarrow> tvm \<Rightarrow> WORD list \<Rightarrow> bool" where
  "run_queue e s ps \<longleftrightarrow> ws_list ps \<and> linked s WS_LINK ps \<and>
     (if ps = [] then FPTR e s = NOT_PROCESS_P else FPTR e s = hd ps \<and> BPTR e s = last ps)"

lemma run_queue_empty: "run_queue e s [] \<longleftrightarrow> FPTR e s = NOT_PROCESS_P"
  by (simp add: run_queue_def)

lemma run_queue_front: "run_queue e s ps \<Longrightarrow> FPTR e s = NOT_PROCESS_P \<longleftrightarrow> ps = []"
  by (cases ps) (auto simp: run_queue_def ws_list_Cons)

lemma add_queue_to_queue_run_queue:
  assumes "run_queue e s q" "ws_list (q @ ps)" "ps \<noteq> []" "linked s WS_LINK ps"
  shows "run_queue e (add_queue_to_queue e (hd ps) (last ps) s) (q @ ps)"
proof -
  define s1 where "s1 = WORKSPACE_SET (last ps) WS_LINK NOT_PROCESS_P s"
  have ps1: "linked s1 WS_LINK ps"
    using assms unfolding s1_def by (subst linked_SET_last) (auto dest: ws_list_appendD)
  have q1: "linked s1 WS_LINK q"
    using assms unfolding s1_def run_queue_def
    by (subst linked_SET_other) (auto dest: ws_list_append_apart [of q ps _ "last ps"])
  show ?thesis
  proof (cases "q = []")
    case True
    with assms ps1 show ?thesis
      by (simp add: add_queue_to_queue_def run_queue_def s1_def)
  next
    case False
    define s2 where "s2 = WORKSPACE_SET (last q) WS_LINK (hd ps) s1"
    have "FPTR e s \<noteq> NOT_PROCESS_P" "BPTR e s = last q" "FPTR e s = hd q"
      using assms(1) False run_queue_front [OF assms(1)] by (auto simp: run_queue_def)
    then have eq: "add_queue_to_queue e (hd ps) (last ps) s = set_BPTR e (last ps) s2"
      by (simp add: add_queue_to_queue_def s1_def s2_def)
    have "linked s2 WS_LINK q"
      using q1 False assms unfolding s2_def by (subst linked_SET_last) (auto dest: ws_list_appendD)
    moreover have "linked s2 WS_LINK ps"
      using ps1 False assms(2) unfolding s2_def
      by (subst linked_SET_other) (auto dest: ws_list_append_apart [of q ps "last q"])
    ultimately show ?thesis
      using assms False \<open>FPTR e s = hd q\<close>
      by (auto simp: eq run_queue_def linked_append s2_def s1_def)
  qed
qed

text \<open>Adding one process is adding the queue that holds it alone.\<close>

lemma add_to_queue_as_queue: "add_to_queue e ws s = add_queue_to_queue e ws ws s"
  by (simp add: add_to_queue_def add_queue_to_queue_def)

lemma add_to_queue_run_queue:
  "run_queue e s q \<Longrightarrow> ws_list (q @ [ws]) \<Longrightarrow> run_queue e (add_to_queue e ws s) (q @ [ws])"
  using add_queue_to_queue_run_queue [of e s q "[ws]"] by (simp add: add_to_queue_as_queue)

lemma take_next_run_queue:
  assumes "run_queue e s (p # q)"
  obtains s' where "take_next e s = (ECTX_CONTINUE, s')" "run_queue e s' q" "WPTR e s' = p"
    "IPTR e s' = WORKSPACE_GET s p WS_IPTR" "mem s' = mem s"
proof -
  have p: "p \<noteq> 0" "p \<notin> set q" "FPTR e s = p" "BPTR e s = last (p # q)"
    using assms by (auto simp: run_queue_def ws_list_Cons)
  then have "p = BPTR e s \<longleftrightarrow> q = []"
    by (cases q rule: rev_cases) auto
  with p assms show ?thesis
    by (cases "q = []")
      (auto simp: take_next_def run_queue_def linked_Cons ws_list_Cons Let_def intro!: that)
qed

lemma take_next_empty:
  "run_queue e s [] \<Longrightarrow> take_next e s =
     (if TPTR e s \<noteq> NOT_PROCESS_P then ECTX_SLEEP else ECTX_EMPTY, set_WPTR e NOT_PROCESS_P s)"
  by (simp add: take_next_def run_queue_def)

text \<open>The run queue keeps the contract; dequeuing is \<open>take_next\<close>.\<close>

definition deq_process :: "WORD \<Rightarrow> tvm \<Rightarrow> (WORD \<times> tvm) option" where
  "deq_process e s =
     (case take_next e s of (ret, s') \<Rightarrow> if ret = ECTX_CONTINUE then Some (WPTR e s', s') else None)"

interpretation run_q: process_queue "add_to_queue e" "deq_process e" "run_queue e" ws_list for e
proof
  fix s q p
  assume "run_queue e s (p # q)"
  then obtain s' where "take_next e s = (ECTX_CONTINUE, s')" "run_queue e s' q" "WPTR e s' = p"
    by (rule take_next_run_queue)
  then show "\<exists>s'. deq_process e s = Some (p, s') \<and> run_queue e s' q"
    by (auto simp: deq_process_def)
qed (auto simp: deq_process_def take_next_empty intro: add_to_queue_run_queue dest: ws_list_appendD)

section \<open>What the run queue's operations leave alone\<close>

lemma run_queue_SET:
  assumes "ws_set A" "p \<in> A" "set q \<subseteq> A" "k \<noteq> WS_LINK" "k \<le> 6"
  shows "run_queue e (WORKSPACE_SET p k v s) q = run_queue e s q"
proof -
  have "linked (WORKSPACE_SET p k v s) WS_LINK q = linked s WS_LINK q"
    using assms by (intro linked_cong) (auto simp: WORKSPACE_GET_SET [OF assms(1)])
  then show ?thesis by (simp add: run_queue_def)
qed

lemma run_queue_upd_ectx:
  "(\<And>c. fptr (f c) = fptr c) \<Longrightarrow> (\<And>c. bptr (f c) = bptr c) \<Longrightarrow>
     run_queue e (upd_ectx e' f s) q = run_queue e s q"
  by (auto simp: run_queue_def)

lemma run_queue_ticks [simp]: "run_queue e (s\<lparr>ticks := n\<rparr>) q = run_queue e s q"
  by (simp add: run_queue_def)

lemma add_to_queue_frame:
  assumes "run_queue e s rq" "ws_set A" "ws \<in> A" "set rq \<subseteq> A" "q \<in> A" "k \<noteq> WS_LINK" "k \<le> 6"
  shows "WORKSPACE_GET (add_to_queue e ws s) q k = WORKSPACE_GET s q k"
proof (cases "rq = []")
  case True
  with assms show ?thesis
    by (simp add: add_to_queue_def run_queue_def Let_def WORKSPACE_GET_SET [OF assms(2)])
next
  case False
  then have "last rq \<in> A" "BPTR e s = last rq" "FPTR e s \<noteq> 0"
    using assms run_queue_front [OF assms(1)] by (auto simp: run_queue_def)
  with assms show ?thesis
    by (simp add: add_to_queue_def Let_def WORKSPACE_GET_SET [OF assms(2)])
qed

lemma add_to_queue_registers [simp]:
  "TPTR e' (add_to_queue e ws s) = TPTR e' s"
  "TNEXT e' (add_to_queue e ws s) = TNEXT e' s"
  "sflags (ectxs (add_to_queue e ws s) e') = sflags (ectxs s e')"
  "IPTR e' (add_to_queue e ws s) = IPTR e' s"
  "WPTR e' (add_to_queue e ws s) = WPTR e' s"
  by (simp_all add: add_to_queue_def Let_def)

section \<open>The timer queue as a list\<close>

text \<open>\<open>timer_list s x ps\<close>: following the timer links from \<open>x\<close> visits \<open>ps\<close> and ends.\<close>

primrec timer_list :: "tvm \<Rightarrow> WORD \<Rightarrow> WORD list \<Rightarrow> bool" where
  "timer_list s x [] \<longleftrightarrow> x = NOT_PROCESS_P"
| "timer_list s x (p # ps) \<longleftrightarrow> x = p \<and> timer_list s (WORKSPACE_GET s p WS_TLINK) ps"

definition timer_of :: "tvm \<Rightarrow> WORD \<Rightarrow> WORD" where
  "timer_of s p = WORKSPACE_GET s p WS_TIME"

definition timer_queue :: "WORD \<Rightarrow> tvm \<Rightarrow> WORD list \<Rightarrow> bool" where
  "timer_queue e s ps \<longleftrightarrow> ws_list ps \<and> timer_list s (TPTR e s) ps \<and>
     (ps \<noteq> [] \<longrightarrow> TNEXT e s = timer_of s (hd ps))"

text \<open>Where a new timeout goes: before the first one that is after it.\<close>

fun tq_insert :: "(WORD \<Rightarrow> WORD) \<Rightarrow> WORD \<Rightarrow> WORD \<Rightarrow> WORD list \<Rightarrow> WORD list" where
  "tq_insert tm t ws [] = [ws]"
| "tq_insert tm t ws (p # ps) =
     (if TIME_AFTER (tm p) t then ws # p # ps else p # tq_insert tm t ws ps)"

lemma set_tq_insert [simp]: "set (tq_insert tm t ws ps) = insert ws (set ps)"
  by (induction ps) auto

lemma distinct_tq_insert: "distinct ps \<Longrightarrow> ws \<notin> set ps \<Longrightarrow> distinct (tq_insert tm t ws ps)"
  by (induction ps) auto

lemma timer_list_cong:
  "(\<And>p. p \<in> set ps \<Longrightarrow> WORKSPACE_GET s p WS_TLINK = WORKSPACE_GET s' p WS_TLINK) \<Longrightarrow>
     timer_list s x ps = timer_list s' x ps"
  by (induction ps arbitrary: x) auto

lemma timer_list_upd_ectx [simp]: "timer_list (upd_ectx e f s) x ps = timer_list s x ps"
  by (rule timer_list_cong) simp

lemma timer_list_SET:
  assumes "ws_set A" "p \<in> A" "set ps \<subseteq> A" "k = WS_TLINK \<longrightarrow> p \<notin> set ps" "k \<le> 6"
  shows "timer_list (WORKSPACE_SET p k v s) x ps = timer_list s x ps"
  using assms by (intro timer_list_cong) (auto simp: WORKSPACE_GET_SET [OF assms(1)])

lemma timer_insert_loop_list:
  assumes "ws_set A" "set (ws # this # rest) \<subseteq> A" "distinct (ws # this # rest)"
    and "WORKSPACE_GET s this WS_TLINK = nxt" "timer_list s nxt rest"
  shows "\<exists>s'. timer_insert_loop this nxt ws t s = Some s' \<and>
    timer_list s' this (this # tq_insert (timer_of s) t ws rest) \<and> ectxs s' = ectxs s \<and>
    (\<forall>q \<in> A. \<forall>k \<le> 6. k \<noteq> WS_TLINK \<or> q \<notin> set (ws # this # rest) \<longrightarrow>
       WORKSPACE_GET s' q k = WORKSPACE_GET s q k)"
  using assms(2-)
proof (induction rest arbitrary: this nxt)
  case Nil
  then have "nxt = 0" by simp
  with Nil show ?case
    by (simp add: timer_insert_loop.simps WORKSPACE_GET_SET [OF assms(1)])
next
  case (Cons n rest)
  have n: "nxt = n" "n \<noteq> 0" "n \<in> A" "this \<in> A" "ws \<in> A"
    using Cons.prems assms(1) by (auto simp: ws_set_def)
  show ?case
  proof (cases "TIME_AFTER (timer_of s n) t")
    case True
    let ?s = "WORKSPACE_SET this WS_TLINK ws (WORKSPACE_SET ws WS_TLINK n s)"
    have "timer_list (WORKSPACE_SET ws WS_TLINK n s) n (n # rest)"
      using timer_list_SET [OF assms(1), of ws "n # rest" WS_TLINK n s n] Cons.prems n by auto
    then have "timer_list ?s n (n # rest)"
      using timer_list_SET [OF assms(1), of this "n # rest" WS_TLINK ws _ n] Cons.prems n by auto
    then have "timer_list ?s this (this # ws # n # rest)"
      using Cons.prems n by (auto simp: WORKSPACE_GET_SET [OF assms(1)])
    moreover have "timer_insert_loop this nxt ws t s = Some ?s"
      using True n by (simp add: timer_insert_loop.simps timer_of_def)
    ultimately show ?thesis
      using True n Cons.prems by (auto simp: WORKSPACE_GET_SET [OF assms(1)])
  next
    case False
    obtain s' where s': "timer_insert_loop n (WORKSPACE_GET s n WS_TLINK) ws t s = Some s'"
      "timer_list s' n (n # tq_insert (timer_of s) t ws rest)" "ectxs s' = ectxs s"
      "\<forall>q \<in> A. \<forall>k \<le> 6. k \<noteq> WS_TLINK \<or> q \<notin> set (ws # n # rest) \<longrightarrow>
         WORKSPACE_GET s' q k = WORKSPACE_GET s q k"
      using Cons.IH [of n "WORKSPACE_GET s n WS_TLINK"] Cons.prems by auto
    moreover have "timer_insert_loop this nxt ws t s =
        timer_insert_loop n (WORKSPACE_GET s n WS_TLINK) ws t s"
      using False n by (subst timer_insert_loop.simps) (simp add: timer_of_def)
    moreover have "WORKSPACE_GET s' this WS_TLINK = n"
      using s'(4) [rule_format, of this WS_TLINK] Cons.prems n by auto
    ultimately show ?thesis
      using False by simp
  qed
qed

lemma timer_list_frame:
  "\<lbrakk>timer_list s x ps; set ps \<subseteq> A; \<And>q. q \<in> A \<Longrightarrow> q \<in> set ps \<Longrightarrow> WORKSPACE_GET s' q WS_TLINK = WORKSPACE_GET s q WS_TLINK\<rbrakk>
     \<Longrightarrow> timer_list s' x ps"
  by (subst timer_list_cong [of _ s' s]) auto

lemma timer_queue_insert_list:
  assumes "timer_queue e s ps" "ws_set A" "set (ws # ps) \<subseteq> A" "ws \<notin> set ps" "timer_of s ws = t"
    and "WORKSPACE_GET s ws WS_IPTR = IPTR e s"
  shows "\<exists>s'. timer_queue_insert e ws now t s = Some s' \<and>
    timer_queue e s' (tq_insert (timer_of s) t ws ps) \<and>
    (\<forall>q \<in> A. \<forall>k \<le> 6. k \<noteq> WS_TLINK \<longrightarrow> WORKSPACE_GET s' q k = WORKSPACE_GET s q k) \<and>
    FPTR e s' = FPTR e s \<and> BPTR e s' = BPTR e s \<and> WPTR e s' = WPTR e s \<and> IPTR e s' = IPTR e s"
proof -
  note A = assms(2)
  have ws: "ws \<in> A" "set ps \<subseteq> A" using assms(3) by auto
  have d: "distinct (ws # ps)" using assms(1,4) by (simp add: timer_queue_def ws_list_iff)
  have wl: "ws_list (tq_insert (timer_of s) t ws ps)"
    using A d assms(3) by (auto simp: ws_list_iff intro: distinct_tq_insert ws_set_mono)
  show ?thesis
  proof (cases ps)
    case Nil
    with assms have "TPTR e s = 0" by (simp add: timer_queue_def)
    with Nil wl ws show ?thesis
      using assms(5,6)
      by (auto simp: timer_queue_insert_def timer_queue_def busy_wait_set_alarm_def
          modify_sync_flags_def timer_of_def WORKSPACE_GET_SET [OF A])
  next
    case (Cons p rest)
    have "p \<noteq> 0" using A ws Cons by (auto simp: ws_set_def)
    then have p: "TPTR e s = p" "p \<noteq> 0" "TNEXT e s = timer_of s p"
      using Cons assms(1) by (auto simp: timer_queue_def)
    show ?thesis
    proof (cases "TIME_AFTER (timer_of s p) t")
      case True
      have "timer_list (WORKSPACE_SET ws WS_TLINK p s) p (p # rest)"
        using timer_list_SET [OF A, of ws "p # rest" WS_TLINK p s p] Cons d assms(1) p ws
        by (auto simp: timer_queue_def)
      with True p Cons wl assms(5) ws show ?thesis
        by (auto simp: timer_queue_insert_def timer_queue_def busy_wait_set_alarm_def
            modify_sync_flags_def timer_of_def WORKSPACE_GET_SET [OF A])
    next
      case False
      obtain s' where s': "timer_insert_loop p (WORKSPACE_GET s p WS_TLINK) ws t s = Some s'"
        "timer_list s' p (p # tq_insert (timer_of s) t ws rest)" "ectxs s' = ectxs s"
        "\<forall>q \<in> A. \<forall>k \<le> 6. k \<noteq> WS_TLINK \<or> q \<notin> set (ws # p # rest) \<longrightarrow>
          WORKSPACE_GET s' q k = WORKSPACE_GET s q k"
        using timer_insert_loop_list [OF A, of ws p rest s "WORKSPACE_GET s p WS_TLINK" t]
          Cons d assms(1) ws by (auto simp: timer_queue_def)
      have "timer_of s' p = timer_of s p"
        using s'(4) Cons ws by (simp add: timer_of_def)
      with s' False p Cons wl show ?thesis
        by (intro exI [of _ s']) (auto simp: timer_queue_insert_def timer_queue_def)
    qed
  qed
qed

lemma timer_remove_loop_list:
  assumes "ws_set A" "set (prev # cs) \<subseteq> A" "distinct (prev # cs)" "ws \<noteq> prev"
    and "WORKSPACE_GET s prev WS_TLINK = cur" "timer_list s cur cs"
  shows "\<exists>s'. timer_remove_loop prev cur ws s = Some s' \<and>
    timer_list s' prev (prev # remove1 ws cs) \<and> ectxs s' = ectxs s \<and>
    (\<forall>q \<in> A. \<forall>k \<le> 6. k \<noteq> WS_TLINK \<or> q \<notin> set (prev # cs) \<longrightarrow>
       WORKSPACE_GET s' q k = WORKSPACE_GET s q k)"
  using assms(2-)
proof (induction cs arbitrary: prev cur)
  case Nil
  then show ?case by (simp add: timer_remove_loop.simps)
next
  case (Cons c cs)
  have c: "cur = c" "c \<noteq> 0" "c \<in> A" "prev \<in> A"
    using Cons.prems assms(1) by (auto simp: ws_set_def)
  show ?case
  proof (cases "c = ws")
    case True
    let ?s = "WORKSPACE_SET prev WS_TLINK (WORKSPACE_GET s ws WS_TLINK) s"
    have "timer_list ?s (WORKSPACE_GET s ws WS_TLINK) cs"
      using timer_list_SET [OF assms(1), of prev cs WS_TLINK _ s] Cons.prems True by auto
    with True c Cons.prems show ?thesis
      by (auto simp: timer_remove_loop.simps WORKSPACE_GET_SET [OF assms(1)])
  next
    case False
    obtain s' where s': "timer_remove_loop c (WORKSPACE_GET s c WS_TLINK) ws s = Some s'"
      "timer_list s' c (c # remove1 ws cs)" "ectxs s' = ectxs s"
      "\<forall>q \<in> A. \<forall>k \<le> 6. k \<noteq> WS_TLINK \<or> q \<notin> set (c # cs) \<longrightarrow>
         WORKSPACE_GET s' q k = WORKSPACE_GET s q k"
      using Cons.IH [of c "WORKSPACE_GET s c WS_TLINK"] Cons.prems False by auto
    moreover have "timer_remove_loop prev cur ws s = timer_remove_loop c (WORKSPACE_GET s c WS_TLINK) ws s"
      using False c by (subst timer_remove_loop.simps) simp
    moreover have "WORKSPACE_GET s' prev WS_TLINK = c"
      using s'(4) [rule_format, of prev WS_TLINK] Cons.prems c by simp
    ultimately show ?thesis
      using False by simp
  qed
qed

lemma timer_queue_remove_list:
  assumes "timer_queue e s ps" "ws_set (insert ws (set ps))"
  shows "\<exists>s'. timer_queue_remove e ws s = Some s' \<and> timer_queue e s' (remove1 ws ps) \<and>
    WORKSPACE_GET s' ws WS_TLINK = TIME_NOT_SET_P \<and>
    (\<forall>q \<in> insert ws (set ps). \<forall>k \<le> 6. k \<noteq> WS_TLINK \<longrightarrow> WORKSPACE_GET s' q k = WORKSPACE_GET s q k)"
proof -
  have d: "distinct ps" and ws: "ws \<noteq> 0" and wl: "ws_list (remove1 ws ps)"
    using assms by (auto simp: timer_queue_def ws_list_iff ws_set_def dest: notin_set_remove1)
  note GS = WORKSPACE_GET_SET [OF assms(2)]
  note LS = timer_list_SET [OF assms(2), of ws "remove1 ws ps" WS_TLINK TIME_NOT_SET_P]
  have sub: "set (remove1 ws ps) \<subseteq> insert ws (set ps)" "ws \<notin> set (remove1 ws ps)"
    using d by auto
  show ?thesis
  proof (cases ps)
    case Nil
    with assms ws show ?thesis
      by (simp add: timer_queue_remove_def timer_queue_def GS)
  next
    case (Cons p rest)
    with assms have p: "TPTR e s = p" "p \<noteq> 0" "TNEXT e s = timer_of s p"
      "timer_list s (WORKSPACE_GET s p WS_TLINK) rest"
      by (auto simp: timer_queue_def ws_set_def)
    show ?thesis
    proof (cases "p = ws")
      case True
      then show ?thesis
        using p Cons wl sub LS [of s] assms(2) d
        by (cases rest) (auto simp: timer_queue_remove_def timer_queue_def Let_def timer_of_def
            busy_wait_set_alarm_def modify_sync_flags_def GS ws_set_def)
    next
      case False
      obtain s' where s': "timer_remove_loop p (WORKSPACE_GET s p WS_TLINK) ws s = Some s'"
        "timer_list s' p (p # remove1 ws rest)" "ectxs s' = ectxs s"
        "\<forall>q \<in> insert ws (set ps). \<forall>k \<le> 6. k \<noteq> WS_TLINK \<or> q \<notin> set (p # rest) \<longrightarrow>
          WORKSPACE_GET s' q k = WORKSPACE_GET s q k"
        using timer_remove_loop_list [OF assms(2) _ _ not_sym [OF False] refl p(4)] Cons d
        by (auto simp: subset_iff)
      then have "timer_of s' p = timer_of s p"
        using Cons by (simp add: timer_of_def)
      with s' False p Cons wl sub LS [of s'] show ?thesis
        by (auto simp: timer_queue_remove_def timer_queue_def timer_of_def GS)
    qed
  qed
qed

lemma expire_timer_run_queue:
  assumes "run_queue e s rq" "ws_set A" "tp \<in> A" "set rq \<subseteq> A"
    and "WORKSPACE_GET s tp WS_STATE \<noteq> READY_P \<longrightarrow> tp \<notin> set rq"
  shows "run_queue e (expire_timer e tp now s)
     (rq @ (if WORKSPACE_GET s tp WS_STATE \<noteq> READY_P then [tp] else []))"
proof -
  let ?s = "WORKSPACE_SET tp WS_TIME now (WORKSPACE_SET tp WS_TLINK TIME_SET_P s)"
  have "run_queue e ?s rq" "run_queue e (WORKSPACE_SET tp WS_STATE READY_P ?s) rq"
    using assms by (simp_all add: run_queue_SET [OF assms(2)])
  moreover have "tp \<notin> set rq \<Longrightarrow> ws_list (rq @ [tp])"
    using assms by (auto simp: ws_list_iff run_queue_def intro: ws_set_mono)
  ultimately show ?thesis
    using assms by (auto simp: expire_timer_def Let_def intro: add_to_queue_run_queue)
qed

lemma expire_timer_frame:
  assumes "run_queue e s rq" "ws_set A" "tp \<in> A" "set rq \<subseteq> A" "q \<in> A" "k \<noteq> WS_LINK" "k \<le> 6"
  shows "WORKSPACE_GET (expire_timer e tp now s) q k =
     (if q = tp \<and> k = WS_TLINK then TIME_SET_P else if q = tp \<and> k = WS_TIME then now
      else if q = tp \<and> k = WS_STATE then READY_P else WORKSPACE_GET s q k)"
proof -
  let ?s = "WORKSPACE_SET tp WS_TIME now (WORKSPACE_SET tp WS_TLINK TIME_SET_P s)"
  have "run_queue e (WORKSPACE_SET tp WS_STATE READY_P ?s) rq"
    using assms by (simp_all add: run_queue_SET [OF assms(2)])
  from add_to_queue_frame [OF this assms(2-7)] show ?thesis
    using assms by (auto simp: expire_timer_def Let_def WORKSPACE_GET_SET [OF assms(2)])
qed

lemma expire_timer_registers [simp]:
  "TPTR e' (expire_timer e tp now s) = TPTR e' s"
  "TNEXT e' (expire_timer e tp now s) = TNEXT e' s"
  by (simp_all add: expire_timer_def Let_def)

text \<open>
  The expired timers are the longest prefix of the queue that is due; those of its processes
  that are not yet ready join the run queue, in order.
\<close>

definition due :: "tvm \<Rightarrow> WORD \<Rightarrow> WORD list \<Rightarrow> WORD list" where
  "due s now ps = takeWhile (\<lambda>p. \<not> TIME_AFTER (timer_of s p) now) ps"

definition pending :: "tvm \<Rightarrow> WORD list \<Rightarrow> WORD list" where
  "pending s ps = filter (\<lambda>p. WORKSPACE_GET s p WS_STATE \<noteq> READY_P) ps"

definition after_expiry :: "WORD \<Rightarrow> WORD \<Rightarrow> WORD list \<Rightarrow> WORD list \<Rightarrow> WORD list \<Rightarrow> WORD set \<Rightarrow>
    tvm \<Rightarrow> tvm \<Rightarrow> bool" where
  "after_expiry e now rq ex rest A s s' \<longleftrightarrow>
     timer_queue e s' rest \<and> run_queue e s' (rq @ pending s ex) \<and>
     (\<forall>q \<in> A. \<forall>k \<le> 6. k \<noteq> WS_LINK \<longrightarrow> WORKSPACE_GET s' q k =
       (if q \<in> set ex \<and> k = WS_TLINK then TIME_SET_P else if q \<in> set ex \<and> k = WS_TIME then now
        else if q \<in> set ex \<and> k = WS_STATE then READY_P else WORKSPACE_GET s q k))"

lemma walk_timer_loop_queue:
  assumes "ws_set A" "set (p # ps) \<union> set rq \<subseteq> A" "distinct (p # ps)"
    and "timer_list s p (p # ps)" "run_queue e s rq" "set (pending s (p # ps)) \<inter> set rq = {}"
  shows "\<exists>s'. walk_timer_loop e p now s = Some s' \<and>
    after_expiry e now rq (p # due s now ps) (drop (length (due s now ps)) ps) A s s'"
  using assms(2-)
proof (induction ps arbitrary: p s rq)
  case Nil
  let ?s = "expire_timer e p now s"
  have link: "WORKSPACE_GET s p WS_TLINK = 0" using Nil by simp
  have "run_queue e ?s (rq @ pending s [p])"
    using expire_timer_run_queue [OF Nil(4) assms(1), of p now] Nil by (auto simp: pending_def)
  then show ?case
    using link expire_timer_frame [OF Nil(4) assms(1), of p] Nil
    by (subst walk_timer_loop.simps)
      (simp add: Let_def after_expiry_def timer_queue_def due_def run_queue_upd_ectx)
next
  case (Cons n ps)
  let ?s = "expire_timer e p now s"
  let ?rq = "rq @ pending s [p]"
  have link: "WORKSPACE_GET s p WS_TLINK = n" and n: "n \<noteq> 0" "n \<noteq> p"
    using Cons.prems assms(1) by (auto simp: ws_set_def)
  have frame: "q \<in> A \<Longrightarrow> k \<noteq> WS_LINK \<Longrightarrow> k \<le> 6 \<Longrightarrow> WORKSPACE_GET ?s q k =
     (if q = p \<and> k = WS_TLINK then TIME_SET_P else if q = p \<and> k = WS_TIME then now
      else if q = p \<and> k = WS_STATE then READY_P else WORKSPACE_GET s q k)" for q k
    by (rule expire_timer_frame [OF Cons(5) assms(1)]) (use Cons.prems in auto)
  have rq: "run_queue e ?s ?rq"
    using expire_timer_run_queue [OF Cons(5) assms(1), of p now] Cons.prems
    by (auto simp: pending_def)
  have in_A: "q \<in> set (n # ps) \<Longrightarrow> q \<in> A \<and> q \<noteq> p" for q
    using Cons.prems by auto
  have tl: "timer_list ?s n (n # ps)"
  proof (rule timer_list_frame [of s n "n # ps" A])
    show "timer_list s n (n # ps)" using Cons.prems(3) link by simp
  qed (use in_A frame in \<open>auto simp: subset_iff\<close>)
  have tm: "timer_of ?s q = timer_of s q" if "q \<in> set (n # ps)" for q
    using in_A [OF that] frame [of q WS_TIME] by (simp add: timer_of_def)
  have pend: "pending ?s qs = pending s qs" if "set qs \<subseteq> set (n # ps)" for qs
    unfolding pending_def
  proof (rule filter_cong)
    fix q assume "q \<in> set qs"
    with that in_A [of q] frame [of q WS_STATE]
    show "(WORKSPACE_GET ?s q WS_STATE \<noteq> READY_P) = (WORKSPACE_GET s q WS_STATE \<noteq> READY_P)" by auto
  qed simp
  show ?case
  proof (cases "TIME_AFTER (timer_of s n) now")
    case True
    have "ws_list (n # ps)"
      using Cons.prems assms(1) by (auto simp: ws_list_iff intro: ws_set_mono)
    moreover have "walk_timer_loop e p now s =
        Some (busy_wait_set_alarm e (set_TNEXT e (timer_of s n) (set_TPTR e n ?s)))"
      using True link n tm [of n]
      by (subst walk_timer_loop.simps) (simp add: Let_def timer_of_def)
    ultimately show ?thesis
      using True rq tl frame tm [of n]
      by (simp add: after_expiry_def timer_queue_def due_def busy_wait_set_alarm_def
          modify_sync_flags_def run_queue_upd_ectx timer_of_def)
  next
    case False
    have due: "due ?s now ps = due s now ps"
      unfolding due_def using tm by (intro takeWhile_cong) auto
    have "set (pending ?s (n # ps)) \<inter> set ?rq = {}"
      using Cons.prems pend [of "n # ps"] by (auto simp: pending_def)
    moreover have "set (n # ps) \<union> set ?rq \<subseteq> A"
      using Cons.prems by (auto simp: pending_def)
    ultimately obtain s' where s': "walk_timer_loop e n now ?s = Some s'"
      "after_expiry e now ?rq (n # due s now ps) (drop (length (due s now ps)) ps) A ?s s'"
      using Cons.IH [of n ?rq ?s] Cons.prems rq tl due by auto
    have sub: "set (n # due s now ps) \<subseteq> set (n # ps)"
      unfolding due_def by (auto dest: set_takeWhileD)
    then have "pending ?s (n # due s now ps) = pending s (n # due s now ps)"
      by (rule pend)
    moreover have "walk_timer_loop e p now s = walk_timer_loop e n now ?s"
      using False link n tm [of n]
      by (subst walk_timer_loop.simps) (simp add: Let_def timer_of_def)
    moreover have "p \<notin> set (n # due s now ps)"
      using sub Cons.prems by auto
    ultimately show ?thesis
      using s' False frame by (auto simp: after_expiry_def due_def pending_def)
  qed
qed

lemma walk_timer_queue_expires:
  assumes "timer_queue e s ps" "run_queue e s rq" "ws_set (set rq \<union> set ps)"
    and "set (pending s ps) \<inter> set rq = {}"
  shows "\<exists>s'. walk_timer_queue e now s = Some s' \<and>
    after_expiry e now rq (due s now ps) (drop (length (due s now ps)) ps) (set rq \<union> set ps) s s'"
proof (cases ps)
  case Nil
  with assms show ?thesis
    by (simp add: walk_timer_queue_def timer_queue_def after_expiry_def due_def pending_def)
next
  case (Cons p rest)
  then have p: "TPTR e s = p" "p \<noteq> 0" "TNEXT e s = timer_of s p"
    using assms by (auto simp: timer_queue_def ws_set_def)
  show ?thesis
  proof (cases "TIME_AFTER (timer_of s p) now")
    case True
    with Cons p assms show ?thesis
      by (auto simp: walk_timer_queue_def after_expiry_def due_def pending_def)
  next
    case False
    with Cons p assms walk_timer_loop_queue [OF assms(3), of p rest rq s e now] show ?thesis
      by (auto simp: walk_timer_queue_def due_def timer_queue_def ws_list_iff)
  qed
qed

section \<open>The order of the timer queue\<close>

text \<open>
  \<^verbatim>\<open>TIME_AFTER\<close> compares modulo the width of the clock, which is no order. It is one on
  times less than a quarter of the clock's range away from some base.
\<close>

definition near_time :: "WORD \<Rightarrow> WORD \<Rightarrow> bool" where
  "near_time b t \<longleftrightarrow> - (2 ^ 30) \<le> sint (t - b) \<and> sint (t - b) < 2 ^ 30"

definition time_sorted :: "(WORD \<Rightarrow> WORD) \<Rightarrow> WORD list \<Rightarrow> bool" where
  "time_sorted tm ps \<longleftrightarrow> sorted_wrt (\<lambda>p q. \<not> TIME_AFTER (tm p) (tm q)) ps"

lemma TIME_AFTER_near:
  assumes "near_time b x" "near_time b y"
  shows "TIME_AFTER x y \<longleftrightarrow> sint (y - b) < sint (x - b)"
proof -
  have "sint (x - y) = sint ((x - b) - (y - b))" by simp
  also have "\<dots> = sint (x - b) - sint (y - b)"
    using assms by (intro sint_sub_exact) (auto simp: near_time_def in_range_def)
  finally show ?thesis by (simp add: TIME_AFTER_def)
qed

lemma tq_insert_sorted:
  assumes "time_sorted tm ps" "\<forall>p \<in> set (ws # ps). near_time b (tm p)"
  shows "time_sorted tm (tq_insert tm (tm ws) ws ps)"
  using assms by (induction ps) (auto simp: time_sorted_def TIME_AFTER_near [of b])

end
