(* ===== verification/Tvm_Primary.thy ===== *)
theory Tvm_Primary
  imports Tvm_Queue
begin

text \<open>
  The primary instructions, \<^verbatim>\<open>ins_pri.c\<close>: those whose operand is in the byte code and
  reaches them in the operand register. Each takes the address of the running context and the
  state, and returns the C result code with the next state.
\<close>

section \<open>Instructions\<close>

abbreviation (input) CLEAR :: "WORD \<Rightarrow> tvm \<Rightarrow> tvm" where
  "CLEAR e \<equiv> set_OREG e 0"

text \<open>The tests for signed overflow of a sum and of a difference \<open>a - b\<close>.\<close>

definition add_overflows :: "WORD \<Rightarrow> WORD \<Rightarrow> WORD \<Rightarrow> bool" where
  "add_overflows res a b \<longleftrightarrow> drop_bit 31 ((res XOR a) AND (res XOR b)) \<noteq> 0"

definition sub_overflows :: "WORD \<Rightarrow> WORD \<Rightarrow> WORD \<Rightarrow> bool" where
  "sub_overflows res a b \<longleftrightarrow> drop_bit 31 ((a XOR b) AND (res XOR a)) \<noteq> 0"

definition ins_adc :: "WORD \<Rightarrow> tvm \<Rightarrow> result" where
  "ins_adc e s =
     (let res = AREG e s + OREG e s in
      error_if (add_overflows res (AREG e s) (OREG e s)) e EFLAG_INTOV s
        (\<lambda>s. continue (CLEAR e (set_AREG e res s))))"

definition ins_ajw :: "WORD \<Rightarrow> tvm \<Rightarrow> result" where
  "ins_ajw e s = continue (CLEAR e (set_WPTR e (wordptr_plus (WPTR e s) (OREG e s)) s))"

definition ins_call :: "WORD \<Rightarrow> tvm \<Rightarrow> result" where
  "ins_call e s =
     (let s = put_word (wordptr_minus (WPTR e s) (4 - 0)) (IPTR e s) s;
          s = put_word (wordptr_minus (WPTR e s) (4 - 1)) (AREG e s) s;
          s = put_word (wordptr_minus (WPTR e s) (4 - 2)) (BREG e s) s;
          s = put_word (wordptr_minus (WPTR e s) (4 - 3)) (CREG e s) s;
          s = set_WPTR e (wordptr_minus (WPTR e s) 4) s;
          s = STACK1 e (IPTR e s) s;
          s = set_IPTR e (byteptr_plus (IPTR e s) (OREG e s)) s
      in continue (CLEAR e s))"

definition ins_cj :: "WORD \<Rightarrow> tvm \<Rightarrow> result" where
  "ins_cj e s =
     (let s = (if AREG e s = 0 then set_IPTR e (byteptr_plus (IPTR e s) (OREG e s)) s
               else STACK2 e (BREG e s) (CREG e s) s)
      in continue (CLEAR e s))"

definition ins_eqc :: "WORD \<Rightarrow> tvm \<Rightarrow> result" where
  "ins_eqc e s =
     (let s = (if AREG e s = OREG e s then set_AREG e 1 s else set_AREG e 0 s)
      in continue (CLEAR e s))"

definition ins_j :: "WORD \<Rightarrow> tvm \<Rightarrow> result" where
  "ins_j e s = continue (CLEAR e (set_IPTR e (byteptr_plus (IPTR e s) (OREG e s)) s))"

definition ins_ldc :: "WORD \<Rightarrow> tvm \<Rightarrow> result" where
  "ins_ldc e s = continue (CLEAR e (STACK e (OREG e s) (AREG e s) (BREG e s) s))"

definition ins_ldl :: "WORD \<Rightarrow> tvm \<Rightarrow> result" where
  "ins_ldl e s =
     (let offset = wordptr_plus (WPTR e s) (OREG e s)
      in continue (CLEAR e (STACK e (get_word s offset) (AREG e s) (BREG e s) s)))"

definition ins_ldlp :: "WORD \<Rightarrow> tvm \<Rightarrow> result" where
  "ins_ldlp e s =
     continue (CLEAR e (STACK e (wordptr_plus (WPTR e s) (OREG e s)) (AREG e s) (BREG e s) s))"

definition ins_ldnl :: "WORD \<Rightarrow> tvm \<Rightarrow> result" where
  "ins_ldnl e s =
     (let offset = wordptr_plus (AREG e s) (OREG e s)
      in continue (CLEAR e (set_AREG e (get_word s offset) s)))"

definition ins_ldnlp :: "WORD \<Rightarrow> tvm \<Rightarrow> result" where
  "ins_ldnlp e s = continue (CLEAR e (set_AREG e (wordptr_plus (AREG e s) (OREG e s)) s))"

definition ins_stl :: "WORD \<Rightarrow> tvm \<Rightarrow> result" where
  "ins_stl e s =
     (let s = put_word (wordptr_plus (WPTR e s) (OREG e s)) (AREG e s) s;
          s = CLEAR e s
      in STACK2_RET e (BREG e s) (CREG e s) s)"

definition ins_stnl :: "WORD \<Rightarrow> tvm \<Rightarrow> result" where
  "ins_stnl e s =
     (let s = put_word (wordptr_plus (AREG e s) (OREG e s)) (BREG e s) s;
          s = CLEAR e s
      in STACK1_RET e (CREG e s) s)"

definition ins_pfix :: "WORD \<Rightarrow> tvm \<Rightarrow> result" where
  "ins_pfix e s = continue (set_OREG e (push_bit 4 (OREG e s)) s)"

definition ins_nfix :: "WORD \<Rightarrow> tvm \<Rightarrow> result" where
  "ins_nfix e s = continue (set_OREG e (push_bit 4 (NOT (OREG e s))) s)"

text \<open>
  The builds without a dispatch switch reach the secondary instructions through two tables the
  build generates, here lists. Their bounds are unsigned, so the operand is compared as an
  unsigned word.
\<close>

definition ins_opr :: "(WORD \<Rightarrow> tvm \<Rightarrow> result) list \<Rightarrow> nat \<Rightarrow> (WORD \<Rightarrow> tvm \<Rightarrow> result) list \<Rightarrow>
    WORD \<Rightarrow> tvm \<Rightarrow> result" where
  "ins_opr secondaries extended_secondaries_min extended_secondaries e s =
     (let ins = OREG e s in
      if unat ins < length secondaries then (secondaries ! unat ins) e (CLEAR e s)
      else if extended_secondaries_min \<le> unat ins \<and>
        unat ins < extended_secondaries_min + length extended_secondaries
      then (extended_secondaries ! (unat ins - extended_secondaries_min)) e (CLEAR e s)
      else Some (ECTX_INS_INVALID, s))"

lemmas primary_defs [tvm_defs] = ins_ajw_def ins_call_def ins_cj_def ins_eqc_def ins_j_def
  ins_ldc_def ins_ldl_def ins_ldlp_def ins_ldnl_def ins_ldnlp_def ins_stl_def ins_stnl_def
  ins_pfix_def ins_nfix_def

section \<open>Arithmetic overflow\<close>

text \<open>
  The tests of \<^verbatim>\<open>adc\<close>, \<^verbatim>\<open>add\<close>, \<^verbatim>\<open>sub\<close>, \<^verbatim>\<open>ladd\<close> and \<^verbatim>\<open>lsub\<close>, from the signs of the
  operands and of the wrapped result, are true exactly when the result on the signed values,
  with a carry or borrow of at most one, does not fit a word.
\<close>

lemma add_overflows_iff:
  assumes "0 \<le> c" "c \<le> 1"
  shows "add_overflows (word_of_int (sint a + sint b + c)) a b \<longleftrightarrow> \<not> in_range (sint a + sint b + c)"
proof -
  let ?k = "sint a + sint b + c"
  let ?r = "sint (word_of_int ?k :: WORD)"
  have "(?r < 0) \<noteq> (sint a < 0) \<and> (?r < 0) \<noteq> (sint b < 0) \<longleftrightarrow> \<not> in_range ?k"
    using sint_of_int_cases [of ?k] sint_range32 [of a] sint_range32 [of b] assms
    unfolding in_range_def by linarith
  then show ?thesis
    unfolding add_overflows_def sign_bit_iff sint_and_neg_iff sint_xor_neg_iff by simp
qed

lemma sub_overflows_iff:
  assumes "0 \<le> c" "c \<le> 1"
  shows "sub_overflows (word_of_int (sint a - sint b - c)) a b \<longleftrightarrow> \<not> in_range (sint a - sint b - c)"
proof -
  let ?k = "sint a - sint b - c"
  let ?r = "sint (word_of_int ?k :: WORD)"
  have "(sint a < 0) \<noteq> (sint b < 0) \<and> (?r < 0) \<noteq> (sint a < 0) \<longleftrightarrow> \<not> in_range ?k"
    using sint_of_int_cases [of ?k] sint_range32 [of a] sint_range32 [of b] assms
    unfolding in_range_def by linarith
  then show ?thesis
    unfolding sub_overflows_def sign_bit_iff sint_and_neg_iff sint_xor_neg_iff by simp
qed

lemmas add_overflow = add_overflows_iff [of 0, simplified]
lemmas sub_overflow = sub_overflows_iff [of 0, simplified]

section \<open>What the instructions compute\<close>

text \<open>\<^verbatim>\<open>adc\<close> adds the operand to the top of the stack when the sum of the signed
  values fits a word, and otherwise changes nothing but the error flags and stops with an error.\<close>

lemma ins_adc_sum:
  "if in_range (sint (AREG e s) + sint (OREG e s))
   then \<exists>s'. ins_adc e s = Some (ECTX_CONTINUE, s') \<and>
     ectxs s' = (ectxs s)(e := ectxs s e\<lparr>areg := AREG e s', oreg := 0\<rparr>) \<and> mem s' = mem s \<and>
     sint (AREG e s') = sint (AREG e s) + sint (OREG e s)
   else ins_adc e s = Some (ECTX_ERROR,
     upd_ectx e (\<lambda>c. c\<lparr>eflags := eflags c OR EFLAG_INTOV\<rparr>) s)"
proof (cases "in_range (sint (AREG e s) + sint (OREG e s))")
  case True
  then show ?thesis
    by (simp add: ins_adc_def Let_def add_overflow continue_def sint_add_exact upd_ectx_def)
next
  case False
  then show ?thesis
    by (simp add: ins_adc_def Let_def add_overflow SET_ERROR_FLAG_RET_def set_error_flag_def)
qed

text \<open>A local stored with \<^verbatim>\<open>stl\<close> is what \<^verbatim>\<open>ldl\<close> of the same operand loads, and the
  pair leaves the other locals as they were.\<close>

lemma stl_ldl_roundtrip:
  "\<exists>s1 s2. ins_stl e s = Some (ECTX_CONTINUE, s1) \<and>
     ins_ldl e (set_OREG e (OREG e s) s1) = Some (ECTX_CONTINUE, s2) \<and>
     AREG e s2 = AREG e s \<and> BREG e s2 = BREG e s \<and> CREG e s2 = CREG e s \<and> WPTR e s2 = WPTR e s \<and>
     (\<forall>p. 4 \<le> p - wordptr_plus (WPTR e s) (OREG e s) \<longrightarrow> mem s2 p = mem s p)"
  by (simp add: ins_stl_def ins_ldl_def Let_def step_defs write_word_outside)

text \<open>Running one instruction after another.\<close>

definition then_ins :: "result \<Rightarrow> (tvm \<Rightarrow> result) \<Rightarrow> result" where
  "then_ins r k = (case r of None \<Rightarrow> None
     | Some (ret, s) \<Rightarrow> if ret = ECTX_CONTINUE then k s else Some (ret, s))"

lemma then_ins_simps [simp]:
  "then_ins (continue s) k = k s"
  "then_ins (Some (ECTX_CONTINUE, s)) k = k s"
  "then_ins (Some (ECTX_ERROR, s)) k = Some (ECTX_ERROR, s)"
  "then_ins None k = None"
  by (simp_all add: then_ins_def continue_def)

end
