(* ===== verification/Tvm_Secondary.thy ===== *)
theory Tvm_Secondary
  imports Tvm_Primary Tvm_Scheduler "HOL-Library.Signed_Division"
begin

text \<open>
  The secondary instructions of \<^verbatim>\<open>ins_sec.c\<close> on single words: arithmetic with its checks,
  logic, subscripts, calls and loops, and the instructions that start and end processes. The
  instructions on double words are in \<^verbatim>\<open>Tvm_Long\<close>.
\<close>

section \<open>Instructions\<close>

definition ins_rev :: "WORD \<Rightarrow> tvm \<Rightarrow> result" where
  "ins_rev e s = STACK_RET e (BREG e s) (AREG e s) (CREG e s) s"

definition ins_lb :: "WORD \<Rightarrow> tvm \<Rightarrow> result" where
  "ins_lb e s = STACK_RET e (ucast (read_byte (mem s) (AREG e s))) (BREG e s) (CREG e s) s"

definition ins_bsub :: "WORD \<Rightarrow> tvm \<Rightarrow> result" where
  "ins_bsub e s = STACK2_RET e (byteptr_plus (AREG e s) (BREG e s)) (CREG e s) s"

definition ins_endp :: "WORD \<Rightarrow> tvm \<Rightarrow> result" where
  "ins_endp e s =
     (if get_word s (wordptr_plus (AREG e s) 1) = 1 then
        let s = put_word (wordptr_plus (AREG e s) 1) 0 s;
            s = set_IPTR e (get_word s (AREG e s)) s;
            s = set_WPTR e (AREG e s) s
        in UNDEFINE_STACK_RET e s
      else
        let s = put_word (wordptr_plus (AREG e s) 1) (get_word s (wordptr_plus (AREG e s) 1) - 1) s;
            s = UNDEFINE_STACK e s
        in run_next_on_queue e s)"

definition ins_diff :: "WORD \<Rightarrow> tvm \<Rightarrow> result" where
  "ins_diff e s = STACK2_RET e (BREG e s - AREG e s) (CREG e s) s"

definition ins_add :: "WORD \<Rightarrow> tvm \<Rightarrow> result" where
  "ins_add e s =
     (let res = BREG e s + AREG e s in
      error_if (add_overflows res (BREG e s) (AREG e s)) e EFLAG_INTOV s
        (\<lambda>s. STACK2_RET e res (CREG e s) s))"

definition ins_gcall :: "WORD \<Rightarrow> tvm \<Rightarrow> result" where
  "ins_gcall e s =
     (let temp = AREG e s;
          s = set_AREG e (IPTR e s) s;
          s = set_IPTR e temp s
      in continue (WORKSPACE_SET (WPTR e s) WS_TEMP (AREG e s) s))"

definition ins_prod :: "WORD \<Rightarrow> tvm \<Rightarrow> result" where
  "ins_prod e s = STACK2_RET e (AREG e s * BREG e s) (CREG e s) s"

definition ins_gt :: "WORD \<Rightarrow> tvm \<Rightarrow> result" where
  "ins_gt e s =
     (if AREG e s <s BREG e s then STACK2_RET e 1 (CREG e s) s else STACK2_RET e 0 (CREG e s) s)"

definition ins_wsub :: "WORD \<Rightarrow> tvm \<Rightarrow> result" where
  "ins_wsub e s = STACK2_RET e (wordptr_plus (AREG e s) (BREG e s)) (CREG e s) s"

definition ins_sub :: "WORD \<Rightarrow> tvm \<Rightarrow> result" where
  "ins_sub e s =
     (let res = BREG e s - AREG e s in
      error_if (sub_overflows res (BREG e s) (AREG e s)) e EFLAG_INTOV s
        (\<lambda>s. STACK2_RET e (BREG e s - AREG e s) (CREG e s) s))"

definition ins_startp :: "WORD \<Rightarrow> tvm \<Rightarrow> result" where
  "ins_startp e s =
     (let s = ADD_TO_QUEUE_IPTR e (AREG e s) (byteptr_plus (IPTR e s) (BREG e s)) s
      in UNDEFINE_STACK_RET e s)"

definition ins_seterr :: "WORD \<Rightarrow> tvm \<Rightarrow> result" where
  "ins_seterr e s = SET_ERROR_FLAG_RET e EFLAG_SETERR s"

definition ins_csub0 :: "WORD \<Rightarrow> tvm \<Rightarrow> result" where
  "ins_csub0 e s =
     error_if (BREG e s \<ge> AREG e s) e EFLAG_INTERR s (\<lambda>s. STACK2_RET e (BREG e s) (CREG e s) s)"

definition ins_stopp :: "WORD \<Rightarrow> tvm \<Rightarrow> result" where
  "ins_stopp e s = run_next_on_queue e (WORKSPACE_SET (WPTR e s) WS_IPTR (IPTR e s) s)"

definition ins_ladd :: "WORD \<Rightarrow> tvm \<Rightarrow> result" where
  "ins_ladd e s =
     (let res = BREG e s + AREG e s + (CREG e s AND 1) in
      error_if (add_overflows res (BREG e s) (AREG e s)) e EFLAG_INTOV s
        (\<lambda>s. STACK1_RET e res s))"

definition ins_ldpi :: "WORD \<Rightarrow> tvm \<Rightarrow> result" where
  "ins_ldpi e s = STACK_RET e (byteptr_plus (IPTR e s) (AREG e s)) (BREG e s) (CREG e s) s"

definition ins_xdble :: "WORD \<Rightarrow> tvm \<Rightarrow> result" where
  "ins_xdble e s =
     (if AREG e s <s 0 then STACK_RET e (AREG e s) (- 1) (BREG e s) s
      else STACK_RET e (AREG e s) 0 (BREG e s) s)"

text \<open>Signed division and remainder round towards zero, as C's do.\<close>

definition ins_rem :: "WORD \<Rightarrow> tvm \<Rightarrow> result" where
  "ins_rem e s =
     error_if (AREG e s = 0 \<or> AREG e s = - 1 \<and> BREG e s = MIN_INT) e EFLAG_INTOV s
       (\<lambda>s. STACK2_RET e (word_of_int (sint (BREG e s) smod sint (AREG e s))) (CREG e s) s)"

definition ins_ret :: "WORD \<Rightarrow> tvm \<Rightarrow> result" where
  "ins_ret e s =
     (let ret_addr = get_word s (WPTR e s);
          s = set_IPTR e ret_addr s;
          s = set_WPTR e (wordptr_plus (WPTR e s) 4) s
      in continue s)"

definition ins_lend :: "WORD \<Rightarrow> tvm \<Rightarrow> result" where
  "ins_lend e s =
     (let count = wordptr_plus (BREG e s) 1;
          s = (if 1 <s get_word s count then
                 let s = put_word (BREG e s) (get_word s (BREG e s) + 1) s;
                     s = put_word count (get_word s count - 1) s
                 in set_IPTR e (byteptr_minus (IPTR e s) (AREG e s)) s
               else put_word count (get_word s count - 1) s)
      in STACK2_RET e (AREG e s) (BREG e s) s)"

definition ins_div :: "WORD \<Rightarrow> tvm \<Rightarrow> result" where
  "ins_div e s =
     error_if (AREG e s = 0 \<or> AREG e s = - 1 \<and> BREG e s = MIN_INT) e EFLAG_INTOV s
       (\<lambda>s. STACK2_RET e (word_of_int (sint (BREG e s) sdiv sint (AREG e s))) (CREG e s) s)"

definition ins_not :: "WORD \<Rightarrow> tvm \<Rightarrow> result" where
  "ins_not e s = STACK_RET e (NOT (AREG e s)) (BREG e s) (CREG e s) s"

definition ins_xor :: "WORD \<Rightarrow> tvm \<Rightarrow> result" where
  "ins_xor e s = STACK2_RET e (AREG e s XOR BREG e s) (CREG e s) s"

definition ins_lsub :: "WORD \<Rightarrow> tvm \<Rightarrow> result" where
  "ins_lsub e s =
     (let res = BREG e s - AREG e s - (CREG e s AND 1) in
      error_if (sub_overflows res (BREG e s) (AREG e s)) e EFLAG_INTOV s
        (\<lambda>s. STACK1_RET e res s))"

definition ins_runp :: "WORD \<Rightarrow> tvm \<Rightarrow> result" where
  "ins_runp e s = ADD_TO_QUEUE_ECTX_RET e (AREG e s) s"

definition ins_sb :: "WORD \<Rightarrow> tvm \<Rightarrow> result" where
  "ins_sb e s =
     (let s = put_byte (AREG e s) (ucast (BREG e s)) s in STACK1_RET e (CREG e s) s)"

definition ins_gajw :: "WORD \<Rightarrow> tvm \<Rightarrow> result" where
  "ins_gajw e s =
     (let tmp = WPTR e s;
          s = set_WPTR e (AREG e s) s
      in continue (set_AREG e tmp s))"

definition ins_shr :: "WORD \<Rightarrow> tvm \<Rightarrow> result" where
  "ins_shr e s =
     STACK2_RET e (if AREG e s \<ge> 32 then 0 else drop_bit (unat (AREG e s)) (BREG e s)) (CREG e s) s"

definition ins_shl :: "WORD \<Rightarrow> tvm \<Rightarrow> result" where
  "ins_shl e s =
     STACK2_RET e (if AREG e s \<ge> 32 then 0 else push_bit (unat (AREG e s)) (BREG e s)) (CREG e s) s"

definition ins_mint :: "WORD \<Rightarrow> tvm \<Rightarrow> result" where
  "ins_mint e s = STACK_RET e MIN_INT (AREG e s) (BREG e s) s"

definition ins_and :: "WORD \<Rightarrow> tvm \<Rightarrow> result" where
  "ins_and e s = STACK2_RET e (AREG e s AND BREG e s) (CREG e s) s"

definition ins_move :: "WORD \<Rightarrow> tvm \<Rightarrow> result" where
  "ins_move e s =
     (let s = s\<lparr>mem := snd (tvm_memcpy native_ops (BREG e s) (CREG e s) (AREG e s) (mem s))\<rparr>
      in UNDEFINE_STACK_RET e s)"

definition ins_or :: "WORD \<Rightarrow> tvm \<Rightarrow> result" where
  "ins_or e s = STACK2_RET e (AREG e s OR BREG e s) (CREG e s) s"

definition ins_csngl :: "WORD \<Rightarrow> tvm \<Rightarrow> result" where
  "ins_csngl e s =
     error_if (AREG e s <s 0 \<and> BREG e s \<noteq> - 1 \<or> 0 \<le>s AREG e s \<and> BREG e s \<noteq> 0) e EFLAG_INTERR s
       (\<lambda>s. STACK2_RET e (AREG e s) (CREG e s) s)"

definition ins_ccnt1 :: "WORD \<Rightarrow> tvm \<Rightarrow> result" where
  "ins_ccnt1 e s =
     error_if (BREG e s = 0 \<or> BREG e s > AREG e s) e EFLAG_INTERR s
       (\<lambda>s. STACK2_RET e (BREG e s) (CREG e s) s)"

definition ins_sum :: "WORD \<Rightarrow> tvm \<Rightarrow> result" where
  "ins_sum e s = STACK2_RET e (AREG e s + BREG e s) (CREG e s) s"

definition ins_mul :: "WORD \<Rightarrow> tvm \<Rightarrow> result" where
  "ins_mul e s = STACK2_RET e (BREG e s * AREG e s) (CREG e s) s"

definition ins_stoperr :: "WORD \<Rightarrow> tvm \<Rightarrow> result" where
  "ins_stoperr e s =
     (if eflags (ectxs s e) \<noteq> 0 then
        let s = UNDEFINE_STACK e s;
            s = put_word (wordptr_minus (WPTR e s) 1) (IPTR e s) s
        in run_next_on_queue e s
      else continue s)"

definition ins_cword :: "WORD \<Rightarrow> tvm \<Rightarrow> result" where
  "ins_cword e s =
     error_if (AREG e s \<le>s BREG e s \<or> BREG e s <s - AREG e s) e EFLAG_INTERR s
       (\<lambda>s. STACK2_RET e (BREG e s) (CREG e s) s)"

definition ins_pop :: "WORD \<Rightarrow> tvm \<Rightarrow> result" where
  "ins_pop e s = STACK2_RET e (BREG e s) (CREG e s) s"

definition ins_shutdown :: "WORD \<Rightarrow> tvm \<Rightarrow> result" where
  "ins_shutdown e s = Some (ECTX_SHUTDOWN, s)"

lemmas secondary_defs [tvm_defs] = ins_rev_def ins_lb_def ins_bsub_def ins_diff_def ins_prod_def
  ins_gt_def ins_wsub_def ins_ldpi_def ins_xdble_def ins_ret_def ins_not_def ins_xor_def
  ins_sb_def ins_gajw_def ins_shr_def ins_shl_def ins_mint_def ins_and_def ins_or_def
  ins_csngl_def ins_ccnt1_def ins_sum_def ins_mul_def ins_pop_def

section \<open>What the instructions compute\<close>

text \<open>Succeeding with a new top of stack, and stopping with an error flag raised.\<close>

definition returns_top :: "WORD \<Rightarrow> WORD \<Rightarrow> WORD \<Rightarrow> tvm \<Rightarrow> result \<Rightarrow> bool" where
  "returns_top e a b s r \<longleftrightarrow> r = Some (ECTX_CONTINUE, upd_ectx e (\<lambda>c. c\<lparr>areg := a, breg := b\<rparr>) s)"

definition raises :: "WORD \<Rightarrow> WORD \<Rightarrow> tvm \<Rightarrow> result \<Rightarrow> bool" where
  "raises e flag s r \<longleftrightarrow> r = Some (ECTX_ERROR, upd_ectx e (\<lambda>c. c\<lparr>eflags := eflags c OR flag\<rparr>) s)"

lemma returns_top_STACK2 [simp]: "returns_top e a b s (STACK2_RET e a b s)"
  by (simp add: returns_top_def step_defs)

lemma raises_SET_ERROR_FLAG_RET [simp]: "raises e flag s (SET_ERROR_FLAG_RET e flag s)"
  by (simp add: raises_def step_defs)

text \<open>\<^verbatim>\<open>add\<close> and \<^verbatim>\<open>sub\<close> return the exact sum and difference of the signed values
  when it fits a word, and otherwise raise the overflow flag and leave the stack as it was.\<close>

lemma ins_add_sub_exact:
  "(if in_range (sint (BREG e s) + sint (AREG e s))
    then \<exists>r. returns_top e r (CREG e s) s (ins_add e s) \<and> sint r = sint (BREG e s) + sint (AREG e s)
    else raises e EFLAG_INTOV s (ins_add e s)) \<and>
   (if in_range (sint (BREG e s) - sint (AREG e s))
    then \<exists>r. returns_top e r (CREG e s) s (ins_sub e s) \<and> sint r = sint (BREG e s) - sint (AREG e s)
    else raises e EFLAG_INTOV s (ins_sub e s))"
proof -
  have "in_range (sint (BREG e s) + sint (AREG e s)) \<Longrightarrow>
      returns_top e (BREG e s + AREG e s) (CREG e s) s (ins_add e s)"
    "in_range (sint (BREG e s) - sint (AREG e s)) \<Longrightarrow>
      returns_top e (BREG e s - AREG e s) (CREG e s) s (ins_sub e s)"
    by (simp_all add: ins_add_def ins_sub_def Let_def add_overflow sub_overflow)
  moreover have "\<not> in_range (sint (BREG e s) + sint (AREG e s)) \<Longrightarrow> raises e EFLAG_INTOV s (ins_add e s)"
    "\<not> in_range (sint (BREG e s) - sint (AREG e s)) \<Longrightarrow> raises e EFLAG_INTOV s (ins_sub e s)"
    by (simp_all add: ins_add_def ins_sub_def Let_def add_overflow sub_overflow)
  ultimately show ?thesis
    by (auto intro: sint_add_exact sint_sub_exact)
qed

text \<open>The carry of the long instructions: the low bit of \<open>CREG\<close>.\<close>

definition carry_in :: "WORD \<Rightarrow> int" where
  "carry_in c = of_bool (bit c 0)"

lemma carry_in_range: "0 \<le> carry_in c" "carry_in c \<le> 1"
  by (simp_all add: carry_in_def)

lemma and_one_carry: "c AND 1 = (word_of_int (carry_in c) :: WORD)"
  by (rule bit_word_eqI, cases "bit c 0") (auto simp: carry_in_def bit_simps bit_1_iff intro: gr0I simp del: and_one_eq)

text \<open>\<^verbatim>\<open>ladd\<close> and \<^verbatim>\<open>lsub\<close> add and subtract with the carry or borrow in \<open>CREG\<close>:
  exact when the result fits a word, the overflow flag otherwise.\<close>

lemma ins_ladd_lsub_exact:
  "(let k = sint (BREG e s) + sint (AREG e s) + carry_in (CREG e s) in
    if in_range k then \<exists>r. returns_top e r (BREG e s) s (ins_ladd e s) \<and> sint r = k
    else raises e EFLAG_INTOV s (ins_ladd e s)) \<and>
   (let k = sint (BREG e s) - sint (AREG e s) - carry_in (CREG e s) in
    if in_range k then \<exists>r. returns_top e r (BREG e s) s (ins_lsub e s) \<and> sint r = k
    else raises e EFLAG_INTOV s (ins_lsub e s))"
proof -
  let ?a = "AREG e s" and ?b = "BREG e s" and ?c = "carry_in (CREG e s)"
  have sum: "?b + ?a + (CREG e s AND 1) = word_of_int (sint ?b + sint ?a + ?c)"
    and diff: "?b - ?a - (CREG e s AND 1) = word_of_int (sint ?b - sint ?a - ?c)"
    by (simp_all add: and_one_carry)
  have "if in_range (sint ?b + sint ?a + ?c)
    then returns_top e (word_of_int (sint ?b + sint ?a + ?c)) ?b s (ins_ladd e s)
    else raises e EFLAG_INTOV s (ins_ladd e s)"
    using add_overflows_iff [OF carry_in_range]
    by (simp add: ins_ladd_def sum Let_def returns_top_def raises_def step_defs upd_ectx_def del: of_int_add)
  moreover have "if in_range (sint ?b - sint ?a - ?c)
    then returns_top e (word_of_int (sint ?b - sint ?a - ?c)) ?b s (ins_lsub e s)
    else raises e EFLAG_INTOV s (ins_lsub e s)"
    using sub_overflows_iff [OF carry_in_range]
    by (simp add: ins_lsub_def diff Let_def returns_top_def raises_def step_defs upd_ectx_def del: of_int_diff)
  ultimately show ?thesis
    by (simp only: Let_def) (metis sint_of_int_exact)
qed

text \<open>\<^verbatim>\<open>div\<close> and \<^verbatim>\<open>rem\<close> raise the overflow flag when the divisor is zero or the
  quotient does not fit a word; otherwise they return the quotient rounded towards zero and the
  remainder with the sign of the dividend, so that quotient times divisor plus remainder is the
  dividend and the remainder is smaller than the divisor.\<close>

lemma ins_div_rem_exact:
  "let a = sint (AREG e s); b = sint (BREG e s) in
   if a \<noteq> 0 \<and> in_range (b sdiv a)
   then \<exists>q r. returns_top e q (CREG e s) s (ins_div e s) \<and> returns_top e r (CREG e s) s (ins_rem e s) \<and>
     sint q = sgn a * sgn b * (\<bar>b\<bar> div \<bar>a\<bar>) \<and> sint q * a + sint r = b \<and> \<bar>sint r\<bar> < \<bar>a\<bar>
   else raises e EFLAG_INTOV s (ins_div e s) \<and> raises e EFLAG_INTOV s (ins_rem e s)"
proof -
  let ?a = "sint (AREG e s)" and ?b = "sint (BREG e s)"
  have zero: "AREG e s = 0 \<longleftrightarrow> ?a = 0" and one: "AREG e s = - 1 \<longleftrightarrow> ?a = - 1"
    and min: "BREG e s = MIN_INT \<longleftrightarrow> ?b = - 2147483648"
    by (simp_all add: sint_eq_iff)
  have range: "in_range (?b sdiv ?a) \<longleftrightarrow> \<not> (?a = - 1 \<and> ?b = - 2147483648)"
  proof -
    have "in_range (?b sdiv ?a) \<or> ?b sdiv ?a = - ?b \<and> ?b = - 2147483648"
      using sdiv_int_range [of ?b ?a] sint_range32 [of "BREG e s"] unfolding in_range_def
      by (auto simp: abs_if simp del: int_sdiv_negated_is_minus1 split: if_splits)
    moreover have "?b sdiv ?a = - ?b \<and> ?b = - 2147483648 \<longrightarrow> ?a = - 1"
      using int_sdiv_negated_is_minus1 [of ?b ?a] by linarith
    moreover have "?a = - 1 \<and> ?b = - 2147483648 \<longrightarrow> \<not> in_range (?b sdiv ?a)"
      by (auto simp: in_range_def)
    ultimately show ?thesis by blast
  qed
  show ?thesis
  proof (cases "?a \<noteq> 0 \<and> in_range (?b sdiv ?a)")
    case False
    then have "AREG e s = 0 \<or> AREG e s = - 1 \<and> BREG e s = MIN_INT"
      using zero one min range by blast
    then show ?thesis unfolding Let_def if_not_P [OF False] by (simp add: ins_div_def ins_rem_def)
  next
    case True
    then have nz: "(AREG e s = 0 \<or> AREG e s = - 1 \<and> BREG e s = MIN_INT) = False"
      using zero one min range by blast
    have "returns_top e (word_of_int (?b sdiv ?a)) (CREG e s) s (ins_div e s)"
      "returns_top e (word_of_int (?b smod ?a)) (CREG e s) s (ins_rem e s)"
      by (simp_all only: ins_div_def ins_rem_def nz error_if_simps returns_top_STACK2)
    moreover have r: "in_range (?b smod ?a)" "\<bar>?b smod ?a\<bar> < \<bar>?a\<bar>"
      using smod_int_range [of ?a ?b] sint_range32 [of "AREG e s"] True by (auto simp: in_range_def)
    moreover have "sint (word_of_int (?b sdiv ?a) :: WORD) = ?b sdiv ?a"
      "sint (word_of_int (?b smod ?a) :: WORD) = ?b smod ?a"
      using True r by (blast intro: sint_of_int_exact)+
    moreover have "?b sdiv ?a = sgn ?a * sgn ?b * (\<bar>?b\<bar> div \<bar>?a\<bar>)"
      by (simp add: signed_divide_int_def)
    ultimately show ?thesis
      unfolding Let_def if_P [OF True] using sdiv_mult_smod_eq [of ?b ?a] by metis
  qed
qed

text \<open>The checks. \<^verbatim>\<open>csub0\<close> accepts a subscript from 0 up to the bound in \<open>AREG\<close>,
  \<^verbatim>\<open>ccnt1\<close> a count from 1 up to and including it, \<^verbatim>\<open>cword\<close> a signed value that fits the
  range whose half size is in \<open>AREG\<close>; all three otherwise raise the error flag.\<close>

lemma checks_accept_iff:
  "let a = AREG e s; b = BREG e s in
   (if uint b < uint a then returns_top e b (CREG e s) s (ins_csub0 e s)
    else raises e EFLAG_INTERR s (ins_csub0 e s)) \<and>
   (if 1 \<le> uint b \<and> uint b \<le> uint a then returns_top e b (CREG e s) s (ins_ccnt1 e s)
    else raises e EFLAG_INTERR s (ins_ccnt1 e s)) \<and>
   (a = MIN_INT \<or> (if - sint a \<le> sint b \<and> sint b < sint a then returns_top e b (CREG e s) s (ins_cword e s)
    else raises e EFLAG_INTERR s (ins_cword e s)))"
proof -
  have neg: "sint (- a) = - sint a" if "a \<noteq> MIN_INT" for a :: WORD
  proof -
    have "in_range (- sint a)"
      using that sint_range32 [of a] by (auto simp: in_range_def sint_eq_iff)
    then have "sint (word_of_int (- sint a) :: WORD) = - sint a" by (rule sint_of_int_exact)
    then show ?thesis by simp
  qed
  have one: "1 \<le> uint b \<longleftrightarrow> b \<noteq> 0" for b :: WORD
    using word_uint_eq_iff [of b 0] uint_ge_0 [of b] by (simp, linarith)
  show ?thesis
    unfolding Let_def
    by (intro conjI)
      (auto simp: ins_csub0_def ins_ccnt1_def ins_cword_def one neg word_sle_eq word_sless_alt
        word_le_def word_less_def not_le not_less disj_imp)
qed

text \<open>The signed value of a double word with high half \<open>hi\<close>.\<close>

definition double_value :: "WORD \<Rightarrow> WORD \<Rightarrow> int" where
  "double_value hi lo = sint hi * 2 ^ 32 + uint lo"

text \<open>\<^verbatim>\<open>xdble\<close> extends a word to the double word of the same signed value, and
  \<^verbatim>\<open>csngl\<close> reduces a double word to a word of the same value exactly when there is one, and
  raises the error flag otherwise.\<close>

lemma csngl_xdble_values:
  "(\<exists>s'. ins_xdble e s = Some (ECTX_CONTINUE, s') \<and> CREG e s' = BREG e s \<and>
     double_value (BREG e s') (AREG e s') = sint (AREG e s)) \<and>
   (if \<exists>w :: WORD. double_value (BREG e s) (AREG e s) = sint w
    then \<exists>r. returns_top e r (CREG e s) s (ins_csngl e s) \<and>
      sint r = double_value (BREG e s) (AREG e s)
    else raises e EFLAG_INTERR s (ins_csngl e s))"
proof
  let ?a = "AREG e s" and ?b = "BREG e s"
  have neg: "?a <s 0 \<longleftrightarrow> sint ?a < 0" and pos: "0 \<le>s ?a \<longleftrightarrow> 0 \<le> sint ?a"
    by (simp_all add: word_sless_alt word_sle_eq)
  show "\<exists>s'. ins_xdble e s = Some (ECTX_CONTINUE, s') \<and> CREG e s' = ?b \<and>
     double_value (BREG e s') (AREG e s') = sint ?a"
    using sint_uint_diff [of ?a]
    by (cases "sint ?a < 0") (simp_all add: ins_xdble_def neg step_defs double_value_def)
  have val: "double_value ?b ?a = sint w \<longleftrightarrow> w = ?a \<and> sint ?b = (if sint ?a < 0 then - 1 else 0)" for w
  proof
    assume eq: "double_value ?b ?a = sint w"
    define d :: int where "d = of_bool (sint w < 0)"
    have "sint w = uint w - 4294967296 * d"
      using sint_uint_diff [of w] by (auto simp: d_def)
    with eq have "4294967296 * (sint ?b + d) = uint w - uint ?a"
      by (simp add: double_value_def algebra_simps)
    then have "sint ?b + d = 0 \<and> uint w = uint ?a"
      by (intro multiple_of_range) (simp_all add: uint_range32)
    then show "w = ?a \<and> sint ?b = (if sint ?a < 0 then - 1 else 0)"
      by (auto simp: d_def word_uint_eq_iff [symmetric])
  next
    assume "w = ?a \<and> sint ?b = (if sint ?a < 0 then - 1 else 0)"
    then show "double_value ?b ?a = sint w"
      using sint_uint_diff [of ?a] by (auto simp: double_value_def split: if_splits)
  qed
  show "if \<exists>w :: WORD. double_value ?b ?a = sint w
    then \<exists>r. returns_top e r (CREG e s) s (ins_csngl e s) \<and> sint r = double_value ?b ?a
    else raises e EFLAG_INTERR s (ins_csngl e s)"
  proof (cases "sint ?b = (if sint ?a < 0 then - 1 else 0)")
    case True
    then have "returns_top e ?a (CREG e s) s (ins_csngl e s)"
      by (auto simp: ins_csngl_def neg pos sint_eq_iff)
    moreover have "double_value ?b ?a = sint ?a" using val [of ?a] True by simp
    ultimately show ?thesis by auto
  next
    case False
    then have "raises e EFLAG_INTERR s (ins_csngl e s)"
      by (cases "sint ?a < 0") (auto simp: ins_csngl_def neg pos sint_eq_iff)
    then show ?thesis using val False by simp
  qed
qed

text \<open>\<^verbatim>\<open>shr\<close> divides and \<^verbatim>\<open>shl\<close> multiplies the unsigned value of \<open>BREG\<close> by the power of
  two in \<open>AREG\<close>, also when the shift is longer than a word.\<close>

lemma shifts_scale:
  "\<exists>q r. returns_top e q (CREG e s) s (ins_shr e s) \<and> returns_top e r (CREG e s) s (ins_shl e s) \<and>
     uint q = uint (BREG e s) div 2 ^ unat (AREG e s) \<and>
     uint r = (uint (BREG e s) * 2 ^ unat (AREG e s)) mod 2 ^ 32"
proof -
  let ?n = "unat (AREG e s)" and ?b = "BREG e s"
  define q where "q = (if AREG e s \<ge> 32 then 0 else drop_bit ?n ?b)"
  define r where "r = (if AREG e s \<ge> 32 then 0 else push_bit ?n ?b)"
  have long: "AREG e s \<ge> 32 \<longleftrightarrow> 32 \<le> ?n" by (simp add: word_le_nat_alt)
  have "uint ?b div 2 ^ ?n = uint q"
  proof (cases "32 \<le> ?n")
    case True
    then have "(2 :: int) ^ 32 \<le> 2 ^ ?n" by (intro power_increasing) auto
    then have "uint ?b < 2 ^ ?n" using uint_range32 [of ?b] by simp
    with True show ?thesis by (simp add: q_def long)
  next
    case False
    then show ?thesis by (simp only: q_def long if_False uint_drop_bit)
  qed
  moreover have "(uint ?b * 2 ^ ?n) mod 2 ^ 32 = uint r"
  proof (cases "32 \<le> ?n")
    case True
    then have "(2 :: int) ^ 32 dvd uint ?b * 2 ^ ?n" by (intro dvd_mult le_imp_power_dvd)
    with True show ?thesis by (simp add: r_def long)
  next
    case False
    then show ?thesis by (simp only: r_def long if_False uint_push_bit) simp
  qed
  ultimately show ?thesis
    using returns_top_STACK2 unfolding ins_shr_def ins_shl_def q_def r_def by metis
qed

text \<open>\<^verbatim>\<open>call\<close> followed by \<^verbatim>\<open>ret\<close> continues after the call with the workspace as it was,
  and the called procedure finds its three register arguments in its first locals.\<close>

lemma call_ret_roundtrip:
  "\<exists>s1 s2. ins_call e s = Some (ECTX_CONTINUE, s1) \<and>
     IPTR e s1 = byteptr_plus (IPTR e s) (OREG e s) \<and> AREG e s1 = IPTR e s \<and>
     get_word s1 (wordptr_plus (WPTR e s1) 1) = AREG e s \<and>
     get_word s1 (wordptr_plus (WPTR e s1) 2) = BREG e s \<and>
     get_word s1 (wordptr_plus (WPTR e s1) 3) = CREG e s \<and>
     ins_ret e s1 = Some (ECTX_CONTINUE, s2) \<and> IPTR e s2 = IPTR e s \<and> WPTR e s2 = WPTR e s"
proof -
  let ?w = "WPTR e s"
  have "apart 4 (wordptr_minus ?w i) (wordptr_minus ?w j)" if "i \<noteq> j" "i \<le> 6" "j \<le> 6" for i j
    using that by (simp add: slots_apart)
  moreover have "wordptr_plus (wordptr_minus ?w 4) 1 = wordptr_minus ?w 3"
    "wordptr_plus (wordptr_minus ?w 4) 2 = wordptr_minus ?w 2"
    "wordptr_plus (wordptr_minus ?w 4) 3 = wordptr_minus ?w 1"
    "wordptr_plus (wordptr_minus ?w 4) 4 = ?w"
    by (simp_all add: wordptr_plus_def wordptr_minus_def)
  ultimately show ?thesis
    by (simp add: ins_call_def ins_ret_def Let_def step_defs read_write_word_other)
qed

text \<open>One \<^verbatim>\<open>lend\<close>: with at least two iterations left in the (signed) count word it advances
  the index, counts down and jumps back; otherwise it counts down and leaves the loop. The rest
  of memory is unchanged.\<close>

lemma ins_lend_step:
  "\<exists>s'. ins_lend e s = Some (ECTX_CONTINUE, s') \<and>
     (let i = BREG e s; c = wordptr_plus (BREG e s) 1; again = 1 < sint (get_word s c) in
      get_word s' i = (if again then get_word s i + 1 else get_word s i) \<and>
      get_word s' c = get_word s c - 1 \<and>
      IPTR e s' = (if again then byteptr_minus (IPTR e s) (AREG e s) else IPTR e s) \<and>
      (\<forall>p. p - i < 8 \<or> mem s' p = mem s p))"
proof -
  let ?i = "BREG e s"
  have "apart 4 ?i (wordptr_plus ?i 1)" "apart 4 (wordptr_plus ?i 1) ?i"
    by (simp_all add: apart_def wordptr_plus_def)
  moreover have "4 \<le> p - ?i \<and> 4 \<le> p - wordptr_plus ?i 1" if "8 \<le> p - ?i" for p
  proof -
    have "unat (p - ?i - 4) = unat (p - ?i) - 4" and "8 \<le> unat (p - ?i)"
      using that by (simp_all add: word_le_nat_alt unat_sub)
    then show ?thesis by (simp add: word_le_nat_alt wordptr_plus_def diff_diff_eq)
  qed
  ultimately show ?thesis
    by (simp add: ins_lend_def Let_def step_defs read_write_word_other write_word_outside
        word_sless_alt disj_imp not_less)
qed

end
