(* ===== verification/Tvm_Long.thy ===== *)
theory Tvm_Long
  imports Tvm_Secondary
begin

text \<open>
  The instructions of \<^verbatim>\<open>ins_sec.c\<close> on double words: normalisation, long division,
  multiplication, shifts, sum and difference. Where the code has two versions, with a 64-bit
  type (\<^verbatim>\<open>TVM_HAVE_DWORD\<close>) and without, both are here, the second with the suffix
  \<^verbatim>\<open>_portable\<close>, and the theorems say when they agree.
\<close>

section \<open>Instructions\<close>

definition dword :: "WORD \<Rightarrow> WORD \<Rightarrow> UDWORD" where
  "dword hi lo = push_bit 32 (ucast hi) OR ucast lo"

partial_function (option) norm_loop :: "WORD \<Rightarrow> WORD \<Rightarrow> WORD \<Rightarrow> (WORD \<times> WORD \<times> WORD) option" where
  "norm_loop a b c =
     (if b AND MIN_INT = 0 then
        let b = push_bit 1 b;
            b = (if a AND MIN_INT \<noteq> 0 then b OR 1 else b);
            a = push_bit 1 a
        in norm_loop a b (c + 1)
      else Some (a, b, c))"

definition ins_norm :: "WORD \<Rightarrow> tvm \<Rightarrow> result" where
  "ins_norm e s =
     (let s = set_CREG e 0 s in
      if AREG e s = 0 \<and> BREG e s = 0 then continue (STACK e (AREG e s) (BREG e s) (2 * 32) s)
      else do {
        (a, b, c) \<leftarrow> norm_loop (AREG e s) (BREG e s) (CREG e s);
        continue (set_CREG e c (set_AREG e a (set_BREG e b s)))
      })"

definition ins_ldiv :: "WORD \<Rightarrow> tvm \<Rightarrow> result" where
  "ins_ldiv e s =
     (let val = dword (CREG e s) (BREG e s) in
      if AREG e s = 0 then None
      else
        let s = set_BREG e (ucast (val mod ucast (AREG e s))) s;
            s = set_AREG e (ucast (val div ucast (AREG e s))) s
        in STACK2_RET e (AREG e s) (BREG e s) s)"

text \<open>
  The version without a 64-bit type divides by two digits of 16 bits. \<open>correct_digit\<close> is the
  code from a label \<^verbatim>\<open>again\<close> to the end of its test: it lowers the estimated digit \<open>q\<close>.
\<close>

definition nlz :: "WORD \<Rightarrow> nat" where
  "nlz x =
     (if x = 0 then 32 else
      let n = 0;
          (n, x) = (if x \<le> 0x0000FFFF then (n + 16, push_bit 16 x) else (n, x));
          (n, x) = (if x \<le> 0x00FFFFFF then (n + 8, push_bit 8 x) else (n, x));
          (n, x) = (if x \<le> 0x0FFFFFFF then (n + 4, push_bit 4 x) else (n, x));
          (n, x) = (if x \<le> 0x3FFFFFFF then (n + 2, push_bit 2 x) else (n, x));
          n = (if x \<le> 0x7FFFFFFF then n + 1 else n)
      in n)"

partial_function (option) correct_digit ::
    "WORD \<Rightarrow> WORD \<Rightarrow> WORD \<Rightarrow> WORD \<Rightarrow> WORD \<Rightarrow> (WORD \<times> WORD) option" where
  "correct_digit q rhat vn1 vn0 un =
     (if q \<ge> 65536 \<or> q * vn0 > 65536 * rhat + un then
        let q = q - 1; rhat = rhat + vn1
        in if rhat < 65536 then correct_digit q rhat vn1 vn0 un else Some (q, rhat)
      else Some (q, rhat))"

definition ins_ldiv_portable :: "WORD \<Rightarrow> tvm \<Rightarrow> result" where
  "ins_ldiv_portable e s =
     (let u1 = CREG e s; u0 = BREG e s; v = AREG e s in
      error_if (u1 \<ge> v) e EFLAG_INTOV s (\<lambda>s.
        let sh = nlz v;
            v = push_bit sh v;
            vn1 = drop_bit 16 v;
            vn0 = v AND 0xFFFF;
            un32 = push_bit sh u1 OR (drop_bit (32 - sh) u0 AND signed_drop_bit 31 (- of_nat sh));
            un10 = push_bit sh u0;
            un1 = drop_bit 16 un10;
            un0 = un10 AND 0xFFFF;
            q1 = un32 div vn1;
            rhat = un32 - q1 * vn1
        in do {
          (q1, rhat) \<leftarrow> correct_digit q1 rhat vn1 vn0 un1;
          let un21 = un32 * 65536 + un1 - q1 * v;
          let q0 = un21 div vn1;
          let rhat = un21 - q0 * vn1;
          (q0, rhat) \<leftarrow> correct_digit q0 rhat vn1 vn0 un0;
          let s = set_BREG e (drop_bit sh (un21 * 65536 + un0 - q0 * v)) s;
          let s = set_AREG e (q1 * 65536 + q0) s;
          STACK2_RET e (AREG e s) (BREG e s) s
        }))"

definition ins_lmul :: "WORD \<Rightarrow> tvm \<Rightarrow> result" where
  "ins_lmul e s =
     (let val = ucast (BREG e s) * ucast (AREG e s) + ucast (CREG e s) :: UDWORD;
          s = set_AREG e (ucast (val AND 0xFFFFFFFF)) s;
          s = set_BREG e (ucast (drop_bit 32 val)) s
      in STACK2_RET e (AREG e s) (BREG e s) s)"

definition ins_lmul_portable :: "WORD \<Rightarrow> tvm \<Rightarrow> result" where
  "ins_lmul_portable e s =
     (let u = BREG e s;
          v = AREG e s;
          u0 = drop_bit 16 u; u1 = u AND 0xFFFF;
          v0 = drop_bit 16 v; v1 = v AND 0xFFFF;
          t = u1 * v1;
          w3 = t AND 0xFFFF;
          k = drop_bit 16 t;
          t = u0 * v1 + k;
          w2 = t AND 0xFFFF;
          w1 = drop_bit 16 t;
          t = u1 * v0 + w2;
          k = drop_bit 16 t;
          s = set_BREG e (u0 * v0 + w1 + k) s;
          s = set_AREG e (push_bit 16 t + w3) s;
          res = AREG e s + CREG e s;
          carry = drop_bit 31 ((AREG e s AND CREG e s) OR ((AREG e s OR CREG e s) AND NOT res));
          s = set_AREG e res s;
          s = set_BREG e (BREG e s + carry) s
      in STACK2_RET e (AREG e s) (BREG e s) s)"

definition ins_lshr :: "WORD \<Rightarrow> tvm \<Rightarrow> result" where
  "ins_lshr e s =
     (let val = dword (CREG e s) (BREG e s);
          s = (if AREG e s < 64 then
                 let val = drop_bit (unat (AREG e s)) val;
                     s = set_AREG e (ucast (val AND 0xFFFFFFFF)) s
                 in set_BREG e (ucast (drop_bit 32 val)) s
               else set_BREG e 0 (set_AREG e 0 s))
      in STACK2_RET e (AREG e s) (BREG e s) s)"

definition ins_lshl :: "WORD \<Rightarrow> tvm \<Rightarrow> result" where
  "ins_lshl e s =
     (let val = dword (CREG e s) (BREG e s);
          s = (if AREG e s < 64 then
                 let val = push_bit (unat (AREG e s)) val;
                     s = set_AREG e (ucast (val AND 0xFFFFFFFF)) s
                 in set_BREG e (ucast (drop_bit 32 val)) s
               else set_BREG e 0 (set_AREG e 0 s))
      in STACK2_RET e (AREG e s) (BREG e s) s)"

text \<open>The loops of the versions without a 64-bit type, on \<open>(BREG, CREG)\<close>; a negative length
  in \<open>AREG\<close> gives no iteration.\<close>

fun lshr_loop :: "nat \<Rightarrow> WORD \<times> WORD \<Rightarrow> WORD \<times> WORD" where
  "lshr_loop 0 bc = bc"
| "lshr_loop (Suc n) (b, c) =
     (let bit_in = (if c AND 1 = 0 then 0 else 0x80000000);
          c = drop_bit 1 c;
          b = drop_bit 1 b
      in lshr_loop n (b OR bit_in, c))"

fun lshl_loop :: "nat \<Rightarrow> WORD \<times> WORD \<Rightarrow> WORD \<times> WORD" where
  "lshl_loop 0 bc = bc"
| "lshl_loop (Suc n) (b, c) =
     (let bit_in = (if b AND 0x80000000 = 0 then 0 else 1);
          b = push_bit 1 b;
          c = push_bit 1 c
      in lshl_loop n (b, c OR bit_in))"

definition ins_lshr_portable :: "WORD \<Rightarrow> tvm \<Rightarrow> result" where
  "ins_lshr_portable e s =
     (let s = (if 64 <s AREG e s then set_AREG e 64 s else s);
          (b, c) = lshr_loop (nat (sint (AREG e s))) (BREG e s, CREG e s);
          s = set_CREG e c (set_BREG e b s)
      in STACK2_RET e (BREG e s) (CREG e s) s)"

definition ins_lshl_portable :: "WORD \<Rightarrow> tvm \<Rightarrow> result" where
  "ins_lshl_portable e s =
     (let s = (if 64 <s AREG e s then set_AREG e 64 s else s);
          (b, c) = lshl_loop (nat (sint (AREG e s))) (BREG e s, CREG e s);
          s = set_CREG e c (set_BREG e b s)
      in STACK2_RET e (BREG e s) (CREG e s) s)"

definition ins_lsum :: "WORD \<Rightarrow> tvm \<Rightarrow> result" where
  "ins_lsum e s =
     (let resnocarry = BREG e s + AREG e s;
          res = resnocarry + (CREG e s AND 1);
          carry = drop_bit 31 ((BREG e s AND AREG e s) OR ((BREG e s OR AREG e s) AND NOT resnocarry))
      in STACK2_RET e res carry s)"

definition ins_ldiff :: "WORD \<Rightarrow> tvm \<Rightarrow> result" where
  "ins_ldiff e s =
     (let resnocarry = BREG e s - AREG e s;
          res = resnocarry - (CREG e s AND 1);
          equiv = (BREG e s AND AREG e s) - (BREG e s OR AREG e s) - 1;
          carry = drop_bit 31 ((NOT (BREG e s) AND AREG e s) OR (equiv AND res))
      in STACK2_RET e res carry s)"

section \<open>Sign bits and double words\<close>

lemma mod_once: "m \<le> k \<Longrightarrow> k < 2 * m \<Longrightarrow> k mod m = k - m" for k m :: int
  using minus_mod_self2 [of k m] mod_pos_pos_trivial [of "k - m" m] by linarith

lemma drop31: "uint (drop_bit 31 (w :: WORD)) = of_bool (bit w 31)"
proof -
  have "bit w (31 + n) \<longleftrightarrow> n = 0 \<and> bit w 31" for n
    by (cases n) (auto dest: bit_imp_le_length)
  then have "drop_bit 31 w = of_bool (bit w 31)"
    by (intro bit_word_eqI) (auto simp: bit_simps bit_1_iff)
  then show ?thesis by simp
qed

lemma bit_min_int: "bit (0x80000000 :: WORD) n \<longleftrightarrow> n = 31"
proof -
  have "(0x80000000 :: WORD) = push_bit 31 1" by simp
  then show ?thesis by (simp only: bit_push_bit_iff) (auto simp: bit_1_iff)
qed

lemma and_min_int: "w AND 0x80000000 = 0 \<longleftrightarrow> \<not> bit (w :: WORD) 31"
  unfolding bit_eq_iff [of _ "0 :: WORD"] bit_and_iff bit_min_int by (auto dest!: spec [of _ "31 :: nat"])

definition dword_value :: "WORD \<Rightarrow> WORD \<Rightarrow> int" where
  "dword_value hi lo = uint hi * 2 ^ 32 + uint lo"

lemma dword_value_range: "0 \<le> dword_value hi lo" "dword_value hi lo < 2 ^ 64"
  using uint_range32 [of hi] uint_range32 [of lo] by (auto simp: dword_value_def)

lemma uint_dword: "uint (dword hi lo) = dword_value hi lo"
proof -
  have "dword hi lo = push_bit 32 (ucast hi) + ucast lo"
    unfolding dword_def
    by (rule disjunctive_add [symmetric]) (auto simp: bit_simps dest: bit_imp_le_length)
  also have "\<dots> = word_of_int (dword_value hi lo)"
    by (simp add: dword_value_def push_bit_eq_mult unsigned_ucast_eq flip: ucast_eq)
  finally show ?thesis
    using dword_value_range [of hi lo] by (simp add: take_bit_int_eq_self unsigned_of_int)
qed

lemma ucast_of_dword:
  "uint (ucast (x :: UDWORD) :: WORD) = uint x mod 2 ^ 32"
  "uint (ucast (drop_bit 32 x) :: WORD) = uint x div 2 ^ 32"
proof -
  show "uint (ucast x :: WORD) = uint x mod 2 ^ 32"
    by (simp add: unsigned_ucast_eq take_bit_eq_mod)
  have "uint (drop_bit 32 x) = uint x div 2 ^ 32" by (rule uint_drop_bit)
  moreover have "uint x div 2 ^ 32 < 2 ^ 32"
    using uint_lt2p [of x] by (simp add: div_less_iff_less_mult)
  ultimately show "uint (ucast (drop_bit 32 x) :: WORD) = uint x div 2 ^ 32"
    by (simp add: unsigned_ucast_eq take_bit_int_eq_self pos_imp_zdiv_nonneg_iff)
qed

lemma uint_mod_dword: "uint (x AND 0xFFFFFFFF :: UDWORD) = uint x mod 2 ^ 32"
proof -
  have "(0xFFFFFFFF :: UDWORD) = mask 32" by (simp add: mask_eq_exp_minus_1)
  then have "x AND 0xFFFFFFFF = take_bit 32 x" by (simp only: take_bit_eq_mask)
  then show ?thesis by (simp only: unsigned_take_bit_eq) (simp add: take_bit_eq_mod)
qed

section \<open>Normalisation\<close>

lemma norm_step:
  assumes "b AND MIN_INT = 0"
  shows "dword_value (if a AND MIN_INT \<noteq> 0 then push_bit 1 b OR 1 else push_bit 1 b) (push_bit 1 a)
     = 2 * dword_value b a"
proof -
  have b: "uint b < 2147483648" using assms bit31_uint [of b] by (simp add: and_min_int)
  have "uint (push_bit 1 b) = 2 * uint b"
    using b by (simp only: uint_push_bit) simp
  moreover have "uint (push_bit 1 b OR 1) = 2 * uint b + 1"
  proof -
    have "push_bit 1 b OR 1 = push_bit 1 b + 1"
      by (rule disjunctive_add [symmetric]) (auto simp only: bit_push_bit_iff bit_1_iff)
    then show ?thesis using b calculation by (simp add: uint_word_ariths)
  qed
  moreover have "uint (push_bit 1 a) = 2 * uint a - 4294967296 * of_bool (bit a 31)"
  proof -
    have "uint (push_bit 1 a) = 2 * uint a mod 4294967296"
      by (simp only: uint_push_bit power_one_right mult.commute)
    then show ?thesis
      using uint_range32 [of a] by (cases "bit a 31") (simp_all add: bit31_uint mod_once)
  qed
  ultimately show ?thesis
    by (simp add: dword_value_def and_min_int)
qed

lemma normalised_iff: "b AND MIN_INT = 0 \<longleftrightarrow> dword_value b a < 2 ^ 63"
proof -
  have "uint b < 2147483648 \<longleftrightarrow> uint b * 4294967296 + uint a < 9223372036854775808"
    using uint_range32 [of a] by (intro iffI) linarith+
  then show ?thesis by (simp add: and_min_int bit31_uint dword_value_def not_le)
qed

lemma norm_loop_normalises:
  assumes "2 ^ 63 \<le> dword_value b a * 2 ^ m"
  shows "\<exists>a' b' k. norm_loop a b c = Some (a', b', c + of_nat k) \<and> k \<le> m \<and>
    2 ^ 63 \<le> dword_value b' a' \<and> dword_value b' a' = dword_value b a * 2 ^ k"
  using assms
proof (induction m arbitrary: a b c)
  case 0
  then have "b AND MIN_INT \<noteq> 0" by (simp add: normalised_iff [of b a])
  with 0 show ?case
    by (intro exI [of _ a] exI [of _ b] exI [of _ 0]) (simp add: norm_loop.simps)
next
  case (Suc m)
  show ?case
  proof (cases "b AND MIN_INT = 0")
    case False
    then have "norm_loop a b c = Some (a, b, c)" by (simp add: norm_loop.simps)
    with False show ?thesis
      by (intro exI [of _ a] exI [of _ b] exI [of _ 0]) (simp add: normalised_iff [of b a])
  next
    case True
    let ?b = "if a AND MIN_INT \<noteq> 0 then push_bit 1 b OR 1 else push_bit 1 b"
    have step: "dword_value ?b (push_bit 1 a) = 2 * dword_value b a" by (rule norm_step [OF True])
    have "norm_loop a b c = norm_loop (push_bit 1 a) ?b (c + 1)"
      using True by (subst norm_loop.simps) (simp only: Let_def True simp_thms if_True)
    moreover obtain a' b' k where "norm_loop (push_bit 1 a) ?b (c + 1) = Some (a', b', c + 1 + of_nat k)"
      "k \<le> m" "2 ^ 63 \<le> dword_value b' a'" "dword_value b' a' = 2 * dword_value b a * 2 ^ k"
      using Suc.IH [of ?b "push_bit 1 a" "c + 1"] Suc.prems unfolding step by (auto simp: ac_simps)
    ultimately show ?thesis
      by (intro exI [of _ a'] exI [of _ b'] exI [of _ "Suc k"]) (simp add: ac_simps)
  qed
qed

text \<open>\<^verbatim>\<open>norm\<close> always returns. A zero double word gives the count 64; any other is shifted
  left until its top bit is set, with no bit lost, and the count is the number of places.\<close>

lemma ins_norm_normalises:
  "\<exists>s'. ins_norm e s = Some (ECTX_CONTINUE, s') \<and> mem s' = mem s \<and>
     (let v = dword_value (BREG e s) (AREG e s); v' = dword_value (BREG e s') (AREG e s') in
      if v = 0 then CREG e s' = 64 \<and> v' = 0
      else 2 ^ 63 \<le> v' \<and> v' < 2 ^ 64 \<and> v' = v * 2 ^ unat (CREG e s') \<and> CREG e s' < 64)"
proof (cases "AREG e s = 0 \<and> BREG e s = 0")
  case True
  then show ?thesis by (simp add: ins_norm_def Let_def step_defs dword_value_def)
next
  case False
  let ?v = "dword_value (BREG e s) (AREG e s)"
  have "0 < ?v"
    using False dword_value_range [of "BREG e s" "AREG e s"] uint_range32 [of "AREG e s"] uint_range32 [of "BREG e s"]
    by (auto simp: dword_value_def word_uint_eq_iff [of _ 0] order_less_le add_nonneg_eq_0_iff)
  then have "2 ^ 63 \<le> ?v * 2 ^ 63" by simp
  then obtain a b k where ab: "norm_loop (AREG e s) (BREG e s) 0 = Some (a, b, of_nat k)" "k \<le> 63"
    "2 ^ 63 \<le> dword_value b a" "dword_value b a = ?v * 2 ^ k"
    using norm_loop_normalises [of "BREG e s" "AREG e s" 63 0] by auto
  moreover have "unat (of_nat k :: WORD) = k" using ab(2) by (simp add: unat_of_nat)
  ultimately show ?thesis
    using False \<open>0 < ?v\<close> dword_value_range [of b a]
    by (simp add: ins_norm_def Let_def step_defs word_less_nat_alt)
qed

section \<open>Sums and differences with carry\<close>

lemma uint_add: "uint (b + a :: WORD) = uint b + uint a - 2 ^ 32 * of_bool (2 ^ 32 \<le> uint b + uint a)"
  using uint_range32 [of a] uint_range32 [of b]
  by (cases "2 ^ 32 \<le> uint b + uint a") (simp_all add: uint_word_ariths mod_once)

lemma uint_diff: "uint (b - a :: WORD) = uint b - uint a + 2 ^ 32 * of_bool (uint b < uint a)"
proof (cases "uint b < uint a")
  case True
  have "(uint b - uint a) mod 4294967296 = (uint b - uint a + 4294967296) mod 4294967296"
    by (rule mod_add_self2 [symmetric])
  also have "\<dots> = uint b - uint a + 4294967296"
    using True uint_range32 [of a] uint_range32 [of b] by (intro mod_pos_pos_trivial) linarith+
  finally show ?thesis using True by (simp add: uint_word_ariths)
next
  case False
  then have "(uint b - uint a) mod 4294967296 = uint b - uint a"
    using uint_range32 [of a] uint_range32 [of b] by (intro mod_pos_pos_trivial) linarith+
  with False show ?thesis by (simp add: uint_word_ariths)
qed

lemma carry_int:
  fixes a b r :: int
  assumes "0 \<le> a" "a < 4294967296" "0 \<le> b" "b < 4294967296"
    and "r = b + a - 2 ^ 32 * of_bool (2 ^ 32 \<le> b + a)"
  shows "2147483648 \<le> b \<and> 2147483648 \<le> a \<or> (2147483648 \<le> b \<or> 2147483648 \<le> a) \<and> \<not> 2147483648 \<le> r
     \<longleftrightarrow> 2 ^ 32 \<le> b + a"
  using assms by (cases "2 ^ 32 \<le> b + a") auto

lemma borrow_int:
  fixes a b i r :: int
  assumes "0 \<le> a" "a < 4294967296" "0 \<le> b" "b < 4294967296" "i = 0 \<or> i = 1"
    and "r = b - a - i + 2 ^ 32 * of_bool (b < a + i)"
  shows "\<not> 2147483648 \<le> b \<and> 2147483648 \<le> a \<or>
     \<not> (2147483648 \<le> b \<longleftrightarrow> \<not> 2147483648 \<le> a) \<and> 2147483648 \<le> r \<longleftrightarrow> b < a + i"
  using assms by (cases "b < a + i") auto

lemma borrow_twice_int:
  fixes a b i :: int
  assumes "0 \<le> a" "a < 4294967296" "0 \<le> b" "b < 4294967296" "i = 0 \<or> i = 1"
  shows "b - a + 2 ^ 32 * of_bool (b < a) - i + 2 ^ 32 * of_bool (b - a + 2 ^ 32 * of_bool (b < a) < i) =
     b - a - i + 2 ^ 32 * of_bool (b < a + i)"
  using assms by (cases "b < a") auto

lemma carry_bit:
  "uint (drop_bit 31 ((b AND a) OR ((b OR a) AND NOT (b + a :: WORD)))) =
     of_bool (2 ^ 32 \<le> uint b + uint a)"
proof -
  have "bit ((b AND a) OR ((b OR a) AND NOT (b + a))) 31 \<longleftrightarrow> 2 ^ 32 \<le> uint b + uint a"
    using carry_int [OF uint_range32 uint_range32 uint_add, of b a]
    unfolding bit31_uint [symmetric] bit_or_iff bit_and_iff bit_not_iff by simp
  then show ?thesis by (simp only: drop31)
qed

lemma uint_carry: "uint (c AND 1 :: WORD) = carry_in c"
  using carry_in_range [of c] by (simp only: and_one_carry) (simp add: unsigned_of_int take_bit_int_eq_self)

text \<open>\<^verbatim>\<open>lsum\<close> adds two words and the carry in \<open>CREG\<close>; result and carry are the 33-bit sum,
  except that the carry is computed before the incoming one is added: when the operands alone
  sum to the largest word and a carry comes in, it is lost.\<close>

lemma ins_lsum_carry:
  "\<exists>r c. returns_top e r c s (ins_lsum e s) \<and>
     (let k = uint (BREG e s) + uint (AREG e s) + carry_in (CREG e s) in
      uint r + 2 ^ 32 * uint c =
        (if uint (BREG e s) + uint (AREG e s) = 2 ^ 32 - 1 \<and> carry_in (CREG e s) = 1 then k - 2 ^ 32 else k))"
proof -
  let ?a = "AREG e s" and ?b = "BREG e s" and ?i = "CREG e s AND 1"
  let ?r = "?b + ?a + ?i"
  let ?c = "drop_bit 31 ((?b AND ?a) OR ((?b OR ?a) AND NOT (?b + ?a)))"
  have i: "uint ?i = 0 \<or> uint ?i = 1"
    using carry_in_range [of "CREG e s"] unfolding uint_carry by linarith
  have "uint ?r + 2 ^ 32 * uint ?c =
      uint ?b + uint ?a + uint ?i - (if uint ?b + uint ?a = 2 ^ 32 - 1 \<and> uint ?i = 1 then 2 ^ 32 else 0)"
    using i uint_range32 [of ?a] uint_range32 [of ?b]
    unfolding carry_bit uint_add [of "?b + ?a"] uint_add [of ?b ?a]
    by (cases "2 ^ 32 \<le> uint ?b + uint ?a") auto
  moreover have "returns_top e ?r ?c s (ins_lsum e s)"
    by (simp only: ins_lsum_def Let_def returns_top_STACK2)
  ultimately show ?thesis
    unfolding Let_def uint_carry [symmetric] by (intro exI [of _ ?r] exI [of _ ?c]) auto
qed

lemma equiv_not_xor: "(b AND a) - (b OR a) - 1 = NOT (b XOR a :: WORD)"
proof -
  have "b OR a = (b XOR a) OR (b AND a)" by (rule bit_word_eqI) (auto simp: bit_simps)
  also have "\<dots> = (b XOR a) + (b AND a)"
    by (rule disjunctive_add [symmetric]) (auto simp: bit_simps)
  finally show ?thesis by (simp add: not_eq_complement)
qed

text \<open>\<^verbatim>\<open>ldiff\<close> subtracts with the borrow in \<open>CREG\<close>: result and borrow are exactly those
  of the unsigned difference.\<close>

lemma ins_ldiff_borrow:
  "\<exists>r c. returns_top e r c s (ins_ldiff e s) \<and>
     uint r - 2 ^ 32 * uint c = uint (BREG e s) - uint (AREG e s) - carry_in (CREG e s)"
proof -
  let ?a = "AREG e s" and ?b = "BREG e s" and ?i = "CREG e s AND 1"
  let ?r = "?b - ?a - ?i"
  let ?m = "(NOT ?b AND ?a) OR (((?b AND ?a) - (?b OR ?a) - 1) AND ?r)"
  have i: "uint ?i = 0 \<or> uint ?i = 1"
    using carry_in_range [of "CREG e s"] unfolding uint_carry by linarith
  have r: "uint ?r = uint ?b - uint ?a - uint ?i + 2 ^ 32 * of_bool (uint ?b < uint ?a + uint ?i)"
    unfolding uint_diff [of "?b - ?a"] uint_diff [of ?b ?a]
    by (rule borrow_twice_int [OF uint_range32 uint_range32 i])
  have "bit ?m 31 \<longleftrightarrow> uint ?b < uint ?a + uint ?i"
    using borrow_int [OF uint_range32 uint_range32 i r]
    unfolding bit31_uint [symmetric] equiv_not_xor bit_or_iff bit_and_iff bit_not_iff bit_xor_iff
    by simp
  then have "uint ?r - 2 ^ 32 * uint (drop_bit 31 ?m) = uint ?b - uint ?a - carry_in (CREG e s)"
    unfolding drop31 r uint_carry by simp
  moreover have "returns_top e ?r (drop_bit 31 ?m) s (ins_ldiff e s)"
    by (simp only: ins_ldiff_def Let_def returns_top_STACK2)
  ultimately show ?thesis by blast
qed

section \<open>Multiplication\<close>

lemma uint_digits: "uint (drop_bit 16 w :: WORD) = uint w div 65536" "uint (w AND 0xFFFF :: WORD) = uint w mod 65536"
proof -
  show "uint (drop_bit 16 w) = uint w div 65536" using uint_drop_bit [of 16 w] by simp
  have "(0xFFFF :: WORD) = mask 16" by (simp add: mask_eq_exp_minus_1)
  then have "w AND 0xFFFF = take_bit 16 w" by (simp only: take_bit_eq_mask)
  then show "uint (w AND 0xFFFF) = uint w mod 65536"
    by (simp only: unsigned_take_bit_eq) (simp add: take_bit_eq_mod)
qed

lemma uint_mult_small: "uint a * uint b < 4294967296 \<Longrightarrow> uint (a * b :: WORD) = uint a * uint b"
  by (simp add: uint_word_ariths)

lemma uint_plus_small: "uint a + uint b < 4294967296 \<Longrightarrow> uint (a + b :: WORD) = uint a + uint b"
  by (simp add: uint_word_ariths)

lemma product_bound: "0 \<le> x \<Longrightarrow> x \<le> m \<Longrightarrow> 0 \<le> y \<Longrightarrow> y \<le> n \<Longrightarrow> 0 \<le> x * y \<and> x * y \<le> m * n" for x y m n :: int
  by (auto intro: mult_mono)

lemma high_digit: "0 \<le> x \<Longrightarrow> x < n * 65536 \<Longrightarrow> 0 \<le> x div 65536 \<and> x div 65536 < n" for x n :: int
  by (simp add: div_less_iff_less_mult pos_imp_zdiv_nonneg_iff)

lemma low_digit: "0 \<le> x mod 65536 \<and> x mod 65536 < 65536" for x :: int
  by simp

lemma digits_sum:
  fixes t1 t2 t3 k1 w1 w2 w3 w4 k3 m00 m01 m10 p :: int
  assumes "t1 = k1 * 65536 + w3" "t2 = w1 * 65536 + w2" "t3 = k3 * 65536 + w4"
    and "t2 = m01 + k1" "t3 = m10 + w2" "p = m00 * 4294967296 + m01 * 65536 + m10 * 65536 + t1"
  shows "(m00 + w1 + k3) * 4294967296 + (w4 * 65536 + w3) = p"
proof -
  have "m01 = w1 * 65536 + w2 - k1" "m10 = k3 * 65536 + w4 - w2"
    using assms by linarith+
  then show ?thesis unfolding assms(6) assms(1) by (simp add: algebra_simps)
qed

lemma product_digits:
  fixes u0 u1 v0 v1 :: int
  defines "t1 \<equiv> u1 * v1"
  defines "t2 \<equiv> u0 * v1 + t1 div 65536"
  defines "t3 \<equiv> u1 * v0 + t2 mod 65536"
  assumes "0 \<le> u0" "u0 \<le> 65535" "0 \<le> u1" "u1 \<le> 65535" "0 \<le> v0" "v0 \<le> 65535" "0 \<le> v1" "v1 \<le> 65535"
  shows "t1 \<le> 65535 * 65535" "u0 * v1 \<le> 65535 * 65535" "t2 \<le> 65535 * 65536"
    "u1 * v0 \<le> 65535 * 65535" "t3 \<le> 65535 * 65536" "u0 * v0 + t2 div 65536 \<le> 65535 * 65536"
    "u0 * v0 + t2 div 65536 + t3 div 65536 < 4294967296"
    "(u0 * v0 + t2 div 65536 + t3 div 65536) * 4294967296 + (t3 mod 65536 * 65536 + t1 mod 65536) =
       (u0 * 65536 + u1) * (v0 * 65536 + v1)"
    "u0 * v0 \<le> 65535 * 65535"
proof -
  have p: "0 \<le> u1 * v1 \<and> u1 * v1 \<le> 65535 * 65535" "0 \<le> u0 * v1 \<and> u0 * v1 \<le> 65535 * 65535"
    "0 \<le> u1 * v0 \<and> u1 * v0 \<le> 65535 * 65535" "0 \<le> u0 * v0 \<and> u0 * v0 \<le> 65535 * 65535"
    by (rule product_bound; fact)+
  then show "t1 \<le> 65535 * 65535" "u0 * v1 \<le> 65535 * 65535" "u1 * v0 \<le> 65535 * 65535"
    "u0 * v0 \<le> 65535 * 65535"
    unfolding t1_def by blast+
  have "0 \<le> t1" "t1 \<le> 65535 * 65535" using p unfolding t1_def by blast+
  then have k1: "0 \<le> t1 div 65536" "t1 div 65536 \<le> 65534"
    using high_digit [of t1 65535] by auto
  have t2: "0 \<le> t2" and "t2 \<le> 65535 * 65536"
    using p k1 unfolding t2_def by (auto intro: order_trans [OF add_mono])
  then show "t2 \<le> 65535 * 65536" by simp
  have w1: "0 \<le> t2 div 65536" "t2 div 65536 \<le> 65535"
    using t2 \<open>t2 \<le> 65535 * 65536\<close> high_digit [of t2 65536] by auto
  define w2 where "w2 = t2 mod 65536"
  have "0 \<le> w2" "w2 \<le> 65535" using low_digit [of t2] by (auto simp: w2_def)
  then have t3: "0 \<le> t3" and "t3 \<le> 65535 * 65536"
    using p unfolding t3_def w2_def [symmetric] by linarith+
  then show "t3 \<le> 65535 * 65536" by simp
  from t3 \<open>t3 \<le> 65535 * 65536\<close> have k3: "0 \<le> t3 div 65536" "t3 div 65536 \<le> 65535"
    using high_digit [of t3 65536] by auto
  show "u0 * v0 + t2 div 65536 \<le> 65535 * 65536" "u0 * v0 + t2 div 65536 + t3 div 65536 < 4294967296"
    using p w1 k3 by (auto intro: order_trans [OF add_mono] le_less_trans [OF add_mono])
  have "t1 = t1 div 65536 * 65536 + t1 mod 65536" "t2 = t2 div 65536 * 65536 + t2 mod 65536"
    "t3 = t3 div 65536 * 65536 + t3 mod 65536"
    by simp_all
  moreover have "(u0 * 65536 + u1) * (v0 * 65536 + v1) =
      u0 * v0 * 4294967296 + u0 * v1 * 65536 + u1 * v0 * 65536 + t1"
    by (simp add: t1_def algebra_simps)
  ultimately show "(u0 * v0 + t2 div 65536 + t3 div 65536) * 4294967296 + (t3 mod 65536 * 65536 + t1 mod 65536) =
       (u0 * 65536 + u1) * (v0 * 65536 + v1)"
    by (rule digits_sum [OF _ _ _ t2_def [THEN meta_eq_to_obj_eq] t3_def [THEN meta_eq_to_obj_eq]])
qed

text \<open>The product of the version without a 64-bit type, before \<open>CREG\<close> is added.\<close>

lemma portable_product:
  fixes u v :: WORD
  defines "u0 \<equiv> drop_bit 16 u" and "u1 \<equiv> u AND 0xFFFF" and "v0 \<equiv> drop_bit 16 v" and "v1 \<equiv> v AND 0xFFFF"
  defines "t1 \<equiv> u1 * v1"
  defines "t2 \<equiv> u0 * v1 + drop_bit 16 t1"
  defines "t3 \<equiv> u1 * v0 + (t2 AND 0xFFFF)"
  shows "dword_value (u0 * v0 + drop_bit 16 t2 + drop_bit 16 t3) (push_bit 16 t3 + (t1 AND 0xFFFF)) =
     uint u * uint v"
proof -
  have "0 \<le> uint w div 65536 \<and> uint w div 65536 \<le> 65535 \<and> 0 \<le> uint w mod 65536 \<and> uint w mod 65536 \<le> 65535"
    for w :: WORD using high_digit [of "uint w" 65536] low_digit [of "uint w"] uint_range32 [of w] by auto
  then have dig: "0 \<le> uint u0" "uint u0 \<le> 65535" "0 \<le> uint u1" "uint u1 \<le> 65535"
    "0 \<le> uint v0" "uint v0 \<le> 65535" "0 \<le> uint v1" "uint v1 \<le> 65535"
    unfolding u0_def u1_def v0_def v1_def uint_digits by blast+
  note D = product_digits [OF dig]
  have t1: "uint t1 = uint u1 * uint v1"
    unfolding t1_def by (rule uint_mult_small, rule le_less_trans [OF D(1)]) simp
  have m: "uint (u0 * v1) = uint u0 * uint v1" "uint (u1 * v0) = uint u1 * uint v0" "uint (u0 * v0) = uint u0 * uint v0"
    by (rule uint_mult_small, rule le_less_trans [OF D(2)], simp,
        rule uint_mult_small, rule le_less_trans [OF D(4)], simp,
        rule uint_mult_small, rule le_less_trans [OF D(9)], simp)
  note D1 = D [folded t1]
  have t2: "uint t2 = uint u0 * uint v1 + uint t1 div 65536"
    unfolding t2_def by (subst uint_plus_small; simp only: uint_digits m)
      (rule le_less_trans [OF D1(3)], simp)
  note D2 = D1 [folded t2]
  have t3: "uint t3 = uint u1 * uint v0 + uint t2 mod 65536"
    unfolding t3_def by (subst uint_plus_small; simp only: uint_digits m)
      (rule le_less_trans [OF D2(5)], simp)
  note D3 = D2 [folded t3]
  have hi1: "uint (u0 * v0 + drop_bit 16 t2) = uint u0 * uint v0 + uint t2 div 65536"
    by (subst uint_plus_small; simp only: uint_digits m) (rule le_less_trans [OF D3(6)], simp)
  have hi: "uint (u0 * v0 + drop_bit 16 t2 + drop_bit 16 t3) =
      uint u0 * uint v0 + uint t2 div 65536 + uint t3 div 65536"
    by (subst uint_plus_small; simp only: uint_digits m hi1) (rule D3(7))
  have sh: "uint (push_bit 16 t3) = uint t3 mod 65536 * 65536"
    using mod_mult_mult2 [of "uint t3" 65536 65536] by (simp only: uint_push_bit) simp
  have lo: "uint (push_bit 16 t3 + (t1 AND 0xFFFF)) = uint t3 mod 65536 * 65536 + uint t1 mod 65536"
  proof (subst uint_plus_small)
    have "uint t3 mod 65536 * 65536 + uint t1 mod 65536 < 4294967296"
      using low_digit [of "uint t3"] low_digit [of "uint t1"] by auto
    then show "uint (push_bit 16 t3) + uint (t1 AND 0xFFFF) < 4294967296"
      unfolding sh uint_digits .
  qed (simp add: sh uint_digits)
  have "uint u = uint u0 * 65536 + uint u1" "uint v = uint v0 * 65536 + uint v1"
    unfolding u0_def u1_def v0_def v1_def uint_digits by simp_all
  then show ?thesis
    unfolding dword_value_def hi lo using D3(8) by simp
qed

lemma dword_value_inj: "dword_value h l = dword_value h' l' \<longleftrightarrow> h = h' \<and> l = l'"
proof
  assume eq: "dword_value h l = dword_value h' l'"
  then have "uint h - uint h' = 0 \<and> uint l' = uint l"
    by (intro multiple_of_range) (auto simp: dword_value_def uint_range32 algebra_simps)
  then show "h = h' \<and> l = l'" by (simp add: word_uint_eq_iff)
qed simp

lemma dword_value_split: "dword_value (ucast (drop_bit 32 x)) (ucast (x AND 0xFFFFFFFF :: UDWORD)) = uint x"
  unfolding dword_value_def ucast_of_dword(2) ucast_of_dword(1) [of "x AND 0xFFFFFFFF"] uint_mod_dword
  by simp

lemma uint_to_dword: "uint (ucast (w :: WORD) :: UDWORD) = uint w"
proof -
  have "take_bit 64 (uint w) = uint w"
    using uint_range32 [of w] by (intro take_bit_int_eq_self) auto
  then show ?thesis by (simp add: unsigned_ucast_eq)
qed

lemma uint_mul_add:
  fixes a b c :: WORD
  shows "uint (ucast b * ucast a + ucast c :: UDWORD) = uint b * uint a + uint c"
proof -
  have "0 \<le> uint b * uint a \<and> uint b * uint a \<le> 4294967295 * 4294967295"
    using uint_range32 [of a] uint_range32 [of b] by (intro product_bound) linarith+
  then have "uint b * uint a + uint c < 2 ^ 64" "0 \<le> uint b * uint a + uint c"
    using uint_range32 [of c] by auto
  then show ?thesis by (simp add: uint_word_ariths uint_to_dword mod_add_left_eq)
qed

lemma add_to_dword:
  fixes lo hi c :: WORD
  assumes "dword_value hi lo + uint c < 2 ^ 64"
  shows "dword_value (hi + drop_bit 31 ((lo AND c) OR ((lo OR c) AND NOT (lo + c)))) (lo + c) =
     dword_value hi lo + uint c"
proof -
  define k where "k = drop_bit 31 ((lo AND c) OR ((lo OR c) AND NOT (lo + c)))"
  have k: "uint k = of_bool (2 ^ 32 \<le> uint lo + uint c)"
    using carry_bit [of lo c] by (simp add: k_def)
  have "uint hi + uint k < 4294967296"
    using assms uint_range32 [of lo] uint_range32 [of c] uint_range32 [of hi]
    by (cases "2 ^ 32 \<le> uint lo + uint c") (auto simp: dword_value_def k)
  then have "uint (hi + k) = uint hi + uint k" by (rule uint_plus_small)
  then show ?thesis
    unfolding k_def [symmetric] by (simp add: dword_value_def uint_add k)
qed

lemma returns_top_regs:
  "returns_top e a b s (STACK2_RET e a b (set_BREG e b (set_AREG e a s)))"
  "returns_top e a b s (STACK2_RET e a b (set_AREG e a (set_BREG e b s)))"
  by (simp_all add: returns_top_def step_defs upd_ectx_def)

text \<open>C28: \<^verbatim>\<open>lmul\<close> leaves the full double-word value of the product plus \<open>CREG\<close>, and the
  version without a 64-bit type computes the same.\<close>

theorem ins_lmul_exact:
  "\<exists>lo hi. returns_top e lo hi s (ins_lmul e s) \<and> returns_top e lo hi s (ins_lmul_portable e s) \<and>
     dword_value hi lo = uint (BREG e s) * uint (AREG e s) + uint (CREG e s)"
proof -
  let ?a = "AREG e s" and ?b = "BREG e s" and ?c = "CREG e s"
  let ?val = "ucast ?b * ucast ?a + ucast ?c :: UDWORD"
  define lo hi :: WORD where "lo = ucast (?val AND 0xFFFFFFFF)" and "hi = ucast (drop_bit 32 ?val)"
  have val: "dword_value hi lo = uint ?b * uint ?a + uint ?c"
    unfolding lo_def hi_def by (simp only: dword_value_split uint_mul_add)
  have "returns_top e lo hi s (ins_lmul e s)"
    by (simp add: ins_lmul_def Let_def lo_def hi_def returns_top_def step_defs upd_ectx_def)
  moreover have "returns_top e lo hi s (ins_lmul_portable e s)"
  proof -
    obtain h l k where hl: "dword_value h l = uint ?b * uint ?a"
      and k: "k = drop_bit 31 ((l AND ?c) OR ((l OR ?c) AND NOT (l + ?c)))"
      and r: "returns_top e (l + ?c) (h + k) s (ins_lmul_portable e s)"
      using portable_product [of ?b ?a]
      by (simp add: ins_lmul_portable_def Let_def returns_top_def step_defs upd_ectx_def)
    have "dword_value (h + k) (l + ?c) = dword_value hi lo"
      unfolding k val using hl dword_value_range [of hi lo] val by (subst add_to_dword) auto
    with r show ?thesis by (simp add: dword_value_inj)
  qed
  ultimately show ?thesis using val by blast
qed

section \<open>Shifts\<close>

lemma uint_low_bit: "uint w mod 2 = of_bool (bit (w :: WORD) 0)"
proof -
  have "bit (uint w) 0 = bit w 0" by (simp add: bit_unsigned_iff del: bit_0)
  then show ?thesis by (simp add: mod_2_eq_odd bit_0)
qed

lemma and_one_zero: "w AND 1 = 0 \<longleftrightarrow> \<not> bit (w :: WORD) 0"
  unfolding and_one_carry carry_in_def by simp

lemma uint_double: "uint (push_bit 1 (w :: WORD)) = 2 * uint w - 4294967296 * of_bool (bit w 31)"
proof -
  have "uint (push_bit 1 w) = 2 * uint w mod 4294967296"
    by (simp only: uint_push_bit power_one_right mult.commute)
  then show ?thesis
    using uint_range32 [of w] by (cases "bit w 31") (simp_all add: bit31_uint mod_once)
qed

lemma lshr_step:
  "dword_value (drop_bit 1 c) (drop_bit 1 b OR (if c AND 1 = 0 then 0 else 0x80000000)) =
     dword_value c b div 2"
proof -
  have half: "uint (drop_bit 1 w) = uint w div 2" for w :: WORD
    using uint_drop_bit [of 1 w] by simp
  have "uint (drop_bit 1 b OR 0x80000000) = uint (drop_bit 1 b) + 0x80000000"
  proof -
    have "drop_bit 1 b OR 0x80000000 = drop_bit 1 b + 0x80000000"
      by (rule disjunctive_add [symmetric])
        (simp only: bit_drop_bit_eq bit_min_int o_def, auto dest: bit_imp_le_length)
    moreover have "uint (drop_bit 1 b) + uint (0x80000000 :: WORD) < 4294967296"
      using uint_range32 [of b] unfolding half by simp
    ultimately show ?thesis using uint_plus_small by simp
  qed
  moreover have "uint (drop_bit 1 b OR 0) = uint b div 2" by (simp only: half or.right_neutral)
  ultimately have lo: "uint (drop_bit 1 b OR (if c AND 1 = 0 then 0 else 0x80000000)) =
      uint b div 2 + 2147483648 * (uint c mod 2)"
    by (cases "bit c 0") (simp_all only: and_one_zero uint_low_bit half simp_thms if_True if_False
        of_bool_eq mult_zero_right mult_1_right add_0_right)
  have "q * 4294967296 + x div 2 + 2147483648 * r = ((2 * q + r) * 4294967296 + x) div 2" for q r x :: int
  proof -
    have "(2 * q + r) * 4294967296 + x = x + 2 * (q * 4294967296 + 2147483648 * r)" by simp
    also have "\<dots> div 2 = (q * 4294967296 + 2147483648 * r) + x div 2" by (rule div_mult_self2) simp
    finally show ?thesis by simp
  qed
  from this [of "uint c div 2" "uint b" "uint c mod 2"] show ?thesis
    unfolding dword_value_def lo half by (simp add: mult_div_mod_eq)
qed

lemma lshr_loop_value:
  "lshr_loop n (b, c) = (b', c') \<Longrightarrow> dword_value c' b' = dword_value c b div 2 ^ n"
proof (induction n arbitrary: b c)
  case (Suc n)
  then have "dword_value c' b' = dword_value c b div 2 div 2 ^ n"
    using lshr_step [of c b] by (simp add: Let_def del: drop_bit_Suc)
  then show ?case by (simp add: div_mult2_eq [symmetric] zdiv_zmult2_eq)
qed simp

lemma lshl_step:
  "dword_value (push_bit 1 c OR (if b AND 0x80000000 = 0 then 0 else 1)) (push_bit 1 b) =
     dword_value c b * 2 mod 2 ^ 64"
proof -
  have "push_bit 1 c OR 1 = push_bit 1 c + 1"
    by (rule disjunctive_add [symmetric]) (auto simp only: bit_push_bit_iff bit_1_iff)
  moreover have "uint (push_bit 1 c) + uint (1 :: WORD) < 4294967296"
    using uint_range32 [of c] unfolding uint_double by (cases "bit c 31") (auto simp: bit31_uint)
  ultimately have "uint (push_bit 1 c OR 1) = uint (push_bit 1 c) + 1"
    using uint_plus_small by simp
  then have hi: "uint (push_bit 1 c OR (if b AND 0x80000000 = 0 then 0 else 1)) =
      uint (push_bit 1 c) + of_bool (bit b 31)"
    unfolding and_min_int by simp
  have "dword_value (push_bit 1 c OR (if b AND 0x80000000 = 0 then 0 else 1)) (push_bit 1 b) =
      dword_value c b * 2 - 2 ^ 64 * of_bool (bit c 31)"
    unfolding dword_value_def hi uint_double by (simp add: algebra_simps)
  moreover have "dword_value c b * 2 mod 2 ^ 64 = dword_value c b * 2 - 2 ^ 64 * of_bool (bit c 31)"
    using normalised_iff [of c b] dword_value_range [of c b] mod_once [of "2 ^ 64" "dword_value c b * 2"]
    by (cases "bit c 31") (simp_all add: and_min_int)
  ultimately show ?thesis by simp
qed

lemma lshl_loop_value:
  "lshl_loop n (b, c) = (b', c') \<Longrightarrow> dword_value c' b' = dword_value c b * 2 ^ n mod 2 ^ 64"
proof (induction n arbitrary: b c)
  case 0
  then show ?case using dword_value_range [of c b] by simp
next
  case (Suc n)
  then have "dword_value c' b' = (dword_value c b * 2 mod 2 ^ 64) * 2 ^ n mod 2 ^ 64"
    using lshl_step [of c b] by (simp add: Let_def del: push_bit_Suc)
  also have "\<dots> = dword_value c b * 2 * 2 ^ n mod 2 ^ 64" by (rule mod_mult_left_eq)
  finally show ?case by (simp add: ac_simps)
qed

lemma uint_dword_shifts:
  "uint (drop_bit n (dword hi lo)) = dword_value hi lo div 2 ^ n"
  "uint (push_bit n (dword hi lo)) = dword_value hi lo * 2 ^ n mod 2 ^ 64"
proof -
  show "uint (drop_bit n (dword hi lo)) = dword_value hi lo div 2 ^ n"
    by (simp only: uint_drop_bit uint_dword)
  have "uint (push_bit n (dword hi lo)) = uint (dword hi lo) * 2 ^ n mod 2 ^ 64"
    by (simp only: unsigned_push_bit_eq) (simp add: take_bit_eq_mod push_bit_eq_mult)
  then show "uint (push_bit n (dword hi lo)) = dword_value hi lo * 2 ^ n mod 2 ^ 64"
    by (simp only: uint_dword)
qed

lemma long_shifts:
  assumes "64 \<le> n" "0 \<le> v" "v < 2 ^ 64"
  shows "v div 2 ^ n = (0 :: int)" "v * 2 ^ n mod 2 ^ 64 = 0"
proof -
  have "(2 :: int) ^ 64 \<le> 2 ^ n" using assms(1) by (intro power_increasing) auto
  with assms show "v div 2 ^ n = 0" by (intro div_pos_pos_trivial) auto
  have "(2 :: int) ^ 64 dvd v * 2 ^ n" using assms(1) by (intro dvd_mult le_imp_power_dvd)
  then show "v * 2 ^ n mod 2 ^ 64 = 0" by simp
qed

lemma ins_lshr_value:
  "\<exists>hi lo. returns_top e lo hi s (ins_lshr e s) \<and>
     dword_value hi lo = dword_value (CREG e s) (BREG e s) div 2 ^ unat (AREG e s)"
proof (cases "AREG e s < 64")
  case True
  let ?val = "drop_bit (unat (AREG e s)) (dword (CREG e s) (BREG e s))"
  have "returns_top e (ucast (?val AND 0xFFFFFFFF)) (ucast (drop_bit 32 ?val)) s (ins_lshr e s)"
    using True by (simp add: ins_lshr_def Let_def returns_top_def step_defs upd_ectx_def)
  then show ?thesis
    using dword_value_split [of ?val] unfolding uint_dword_shifts by blast
next
  case False
  then have "returns_top e 0 0 s (ins_lshr e s)"
    by (simp add: ins_lshr_def Let_def returns_top_def step_defs upd_ectx_def)
  moreover have "dword_value (CREG e s) (BREG e s) div 2 ^ unat (AREG e s) = 0"
    using False dword_value_range by (intro long_shifts(1)) (auto simp: word_less_nat_alt)
  ultimately show ?thesis by (metis dword_value_def add_0 mult_zero_left unsigned_0)
qed

lemma ins_lshl_value:
  "\<exists>hi lo. returns_top e lo hi s (ins_lshl e s) \<and>
     dword_value hi lo = dword_value (CREG e s) (BREG e s) * 2 ^ unat (AREG e s) mod 2 ^ 64"
proof (cases "AREG e s < 64")
  case True
  let ?val = "push_bit (unat (AREG e s)) (dword (CREG e s) (BREG e s))"
  have "returns_top e (ucast (?val AND 0xFFFFFFFF)) (ucast (drop_bit 32 ?val)) s (ins_lshl e s)"
    using True by (simp add: ins_lshl_def Let_def returns_top_def step_defs upd_ectx_def)
  then show ?thesis
    using dword_value_split [of ?val] unfolding uint_dword_shifts by blast
next
  case False
  then have "returns_top e 0 0 s (ins_lshl e s)"
    by (simp add: ins_lshl_def Let_def returns_top_def step_defs upd_ectx_def)
  moreover have "dword_value (CREG e s) (BREG e s) * 2 ^ unat (AREG e s) mod 2 ^ 64 = 0"
    using False dword_value_range by (intro long_shifts(2)) (auto simp: word_less_nat_alt)
  ultimately show ?thesis by (metis dword_value_def add_0 mult_zero_left unsigned_0)
qed

text \<open>\<^verbatim>\<open>lshr\<close> divides and \<^verbatim>\<open>lshl\<close> multiplies the double word in \<open>CREG\<close> and \<open>BREG\<close> by the
  power of two in \<open>AREG\<close>, for every length.\<close>

lemma long_shifts_exact:
  "\<exists>hi lo hi' lo'. returns_top e lo hi s (ins_lshr e s) \<and> returns_top e lo' hi' s (ins_lshl e s) \<and>
     (let v = dword_value (CREG e s) (BREG e s); n = unat (AREG e s) in
      dword_value hi lo = v div 2 ^ n \<and> dword_value hi' lo' = v * 2 ^ n mod 2 ^ 64)"
  using ins_lshr_value [of e s] ins_lshl_value [of e s] unfolding Let_def by blast

text \<open>The loops stop at 64 places, which shift everything out.\<close>

definition returns_pair :: "WORD \<Rightarrow> WORD \<Rightarrow> WORD \<Rightarrow> result \<Rightarrow> bool" where
  "returns_pair e lo hi r \<longleftrightarrow>
     (\<exists>s'. r = Some (ECTX_CONTINUE, s') \<and> AREG e s' = lo \<and> BREG e s' = hi)"

definition portable_length :: "WORD \<Rightarrow> nat" where
  "portable_length a = nat (min 64 (sint a))"

lemma portable_length_eq:
  assumes "0 \<le> sint a" "0 \<le> v" "v < 2 ^ 64"
  shows "v div 2 ^ portable_length a = v div 2 ^ unat a"
    "v * 2 ^ portable_length a mod 2 ^ 64 = v * 2 ^ unat a mod (2 ^ 64 :: int)"
proof -
  have "unat a = nat (sint a)"
  proof (cases "sint a < 0")
    case False
    with sint_uint_diff [of a] have "sint a = uint a" by (simp only: if_False)
    then show ?thesis by simp
  qed (use assms(1) in simp)
  then have *: "portable_length a = unat a \<or> portable_length a = 64 \<and> 64 \<le> unat a"
    unfolding portable_length_def min_def by (cases "64 \<le> sint a") (simp_all add: le_nat_iff)
  show "v div 2 ^ portable_length a = v div 2 ^ unat a"
    using * long_shifts(1) [OF _ assms(2,3)] by (metis order_refl)
  show "v * 2 ^ portable_length a mod 2 ^ 64 = v * 2 ^ unat a mod (2 ^ 64 :: int)"
    using * long_shifts(2) [OF _ assms(2,3)] by (metis order_refl)
qed

lemma portable_clamp:
  "nat (sint (AREG e (if 64 <s AREG e s then set_AREG e 64 s else s))) = portable_length (AREG e s)"
  "BREG e (if 64 <s AREG e s then set_AREG e 64 s else s) = BREG e s"
  "CREG e (if 64 <s AREG e s then set_AREG e 64 s else s) = CREG e s"
  by (simp_all add: portable_length_def word_sless_alt min_def)

lemma portable_shift_loops:
  "\<exists>lo hi. lshr_loop (portable_length (AREG e s)) (BREG e s, CREG e s) = (lo, hi) \<and>
     returns_pair e lo hi (ins_lshr_portable e s)"
  "\<exists>lo hi. lshl_loop (portable_length (AREG e s)) (BREG e s, CREG e s) = (lo, hi) \<and>
     returns_pair e lo hi (ins_lshl_portable e s)"
proof -
  obtain lo hi where r: "lshr_loop (portable_length (AREG e s)) (BREG e s, CREG e s) = (lo, hi)"
    using prod.exhaust by blast
  then have "returns_pair e lo hi (ins_lshr_portable e s)"
    unfolding ins_lshr_portable_def Let_def portable_clamp r by (simp add: returns_pair_def step_defs)
  with r show "\<exists>lo hi. lshr_loop (portable_length (AREG e s)) (BREG e s, CREG e s) = (lo, hi) \<and>
     returns_pair e lo hi (ins_lshr_portable e s)" by blast
  obtain lo hi where l: "lshl_loop (portable_length (AREG e s)) (BREG e s, CREG e s) = (lo, hi)"
    using prod.exhaust by blast
  then have "returns_pair e lo hi (ins_lshl_portable e s)"
    unfolding ins_lshl_portable_def Let_def portable_clamp l by (simp add: returns_pair_def step_defs)
  with l show "\<exists>lo hi. lshl_loop (portable_length (AREG e s)) (BREG e s, CREG e s) = (lo, hi) \<and>
     returns_pair e lo hi (ins_lshl_portable e s)" by blast
qed

lemma returns_top_pair: "returns_top e a b s r \<Longrightarrow> returns_pair e a b r"
  by (simp add: returns_top_def returns_pair_def)

text \<open>Without a 64-bit type the shifts give the same two words for a length that is not
  negative as a signed word; a negative length leaves the double word as it is, where the other
  version gives zero.\<close>

lemma portable_shifts_agree:
  "\<exists>lo hi lo' hi'. returns_pair e lo hi (ins_lshr_portable e s) \<and>
     returns_pair e lo' hi' (ins_lshl_portable e s) \<and>
     (if 0 \<le> sint (AREG e s)
      then returns_pair e lo hi (ins_lshr e s) \<and> returns_pair e lo' hi' (ins_lshl e s)
      else lo = BREG e s \<and> hi = CREG e s \<and> lo' = BREG e s \<and> hi' = CREG e s \<and>
        returns_pair e 0 0 (ins_lshr e s) \<and> returns_pair e 0 0 (ins_lshl e s))"
proof -
  let ?n = "portable_length (AREG e s)" and ?v = "dword_value (CREG e s) (BREG e s)"
  obtain lo hi where r: "lshr_loop ?n (BREG e s, CREG e s) = (lo, hi)" "returns_pair e lo hi (ins_lshr_portable e s)"
    using portable_shift_loops(1) by blast
  obtain lo' hi' where l: "lshl_loop ?n (BREG e s, CREG e s) = (lo', hi')" "returns_pair e lo' hi' (ins_lshl_portable e s)"
    using portable_shift_loops(2) by blast
  show ?thesis
  proof (cases "0 \<le> sint (AREG e s)")
    case True
    have "dword_value hi lo = ?v div 2 ^ unat (AREG e s)" "dword_value hi' lo' = ?v * 2 ^ unat (AREG e s) mod 2 ^ 64"
      using lshr_loop_value [OF r(1)] lshl_loop_value [OF l(1)]
        portable_length_eq [OF True dword_value_range, of "CREG e s" "BREG e s"] by simp_all
    then have "returns_pair e lo hi (ins_lshr e s)" "returns_pair e lo' hi' (ins_lshl e s)"
      using ins_lshr_value [of e s] ins_lshl_value [of e s]
      by (metis dword_value_inj returns_top_pair)+
    with True r l show ?thesis by auto
  next
    case False
    then have "?n = 0" by (simp add: portable_length_def)
    moreover have "\<not> AREG e s < 64"
      using False sint_uint_diff [of "AREG e s"] sint_range32 [of "AREG e s"] by (auto simp: word_less_def)
    then have "returns_pair e 0 0 (ins_lshr e s)" "returns_pair e 0 0 (ins_lshl e s)"
      by (simp_all add: ins_lshr_def ins_lshl_def Let_def returns_pair_def step_defs)
    ultimately show ?thesis using False r l by auto
  qed
qed

end
