(* ===== verification/Tvm_Divide.thy ===== *)
theory Tvm_Divide
  imports Tvm_Long
begin

text \<open>
  Long division. The version of \<^verbatim>\<open>ins_ldiv\<close> without a 64-bit type is a division by two
  digits of 16 bits, each estimated and then corrected; it computes the same quotient and
  remainder as the division of 64-bit numbers.
\<close>

section \<open>Leading zeros\<close>

lemma push_step:
  assumes "uint y = uint x * 2 ^ n" "n + k \<le> 32" "y \<le> m" "uint m = 2 ^ (32 - k) - 1" "k \<le> 32"
  shows "uint (push_bit k y :: WORD) = uint x * 2 ^ (n + k)"
proof -
  have "uint y < 2 ^ (32 - k)" using assms(3,4) by (simp add: word_le_def)
  then have "uint y * 2 ^ k < 2 ^ (32 - k) * 2 ^ k" by simp
  also have "(2 :: int) ^ (32 - k) * 2 ^ k = 4294967296"
    using assms(5) by (simp flip: power_add)
  finally show ?thesis
    using assms(1) by (simp add: uint_push_bit power_add ac_simps del: push_bit_Suc)
qed

lemma nlz_step:
  fixes x y m :: WORD
  assumes "uint y = uint x * 2 ^ n" "2 ^ (32 - 2 * k) \<le> uint y" "n + k \<le> 32"
    and "uint m = 2 ^ (32 - k) - 1" "2 * k \<le> 32"
  shows "uint (if y \<le> m then push_bit k y else y) = uint x * 2 ^ (if y \<le> m then n + k else n) \<and>
    2 ^ (32 - k) \<le> uint (if y \<le> m then push_bit k y else y)"
proof (cases "y \<le> m")
  case True
  have "uint (push_bit k y) = uint x * 2 ^ (n + k)"
    using assms True by (intro push_step [of y x n k m]) auto
  moreover have "(2 :: int) ^ (32 - k) = 2 ^ (32 - 2 * k) * 2 ^ k"
    using assms(5) by (simp flip: power_add)
  ultimately show ?thesis
    using assms(1,2) True by (simp add: power_add ac_simps)
next
  case False
  with assms show ?thesis by (simp add: word_le_def)
qed

lemma nlz_normalises:
  assumes "x \<noteq> (0 :: WORD)"
  shows "nlz x < 32 \<and> 2 ^ 31 \<le> uint x * 2 ^ nlz x \<and> uint x * 2 ^ nlz x < 2 ^ 32"
proof -
  let ?ok = "\<lambda>n y. uint y = uint x * 2 ^ n"
  define n1 y1 where "n1 = (if x \<le> 0x0000FFFF then 16 else 0 :: nat)"
    and "y1 = (if x \<le> 0x0000FFFF then push_bit 16 x else x)"
  define n2 y2 where "n2 = (if y1 \<le> 0x00FFFFFF then n1 + 8 else n1)"
    and "y2 = (if y1 \<le> 0x00FFFFFF then push_bit 8 y1 else y1)"
  define n3 y3 where "n3 = (if y2 \<le> 0x0FFFFFFF then n2 + 4 else n2)"
    and "y3 = (if y2 \<le> 0x0FFFFFFF then push_bit 4 y2 else y2)"
  define n4 y4 where "n4 = (if y3 \<le> 0x3FFFFFFF then n3 + 2 else n3)"
    and "y4 = (if y3 \<le> 0x3FFFFFFF then push_bit 2 y3 else y3)"
  have nlz: "nlz x = (if y4 \<le> 0x7FFFFFFF then n4 + 1 else n4)"
    using assms unfolding n4_def y4_def n3_def y3_def n2_def y2_def n1_def y1_def nlz_def
    by (simp del: push_bit_Suc split: prod.splits)
  have "1 \<le> uint x"
    using assms word_uint_eq_iff [of x 0] uint_ge_0 [of x] by (simp, linarith)
  then have 1: "uint y1 = uint x * 2 ^ n1 \<and> 2 ^ 16 \<le> uint y1"
    using nlz_step [of x x 0 16 "0x0000FFFF"] by (simp add: y1_def n1_def)
  have n1: "n1 \<le> 16" by (simp add: n1_def)
  with 1 have 2: "uint y2 = uint x * 2 ^ n2 \<and> 2 ^ 24 \<le> uint y2"
    using nlz_step [of y1 x n1 8 "0x00FFFFFF"] by (simp add: y2_def n2_def)
  have n2: "n2 \<le> 24" using n1 by (simp add: n2_def)
  with 2 have 3: "uint y3 = uint x * 2 ^ n3 \<and> 2 ^ 28 \<le> uint y3"
    using nlz_step [of y2 x n2 4 "0x0FFFFFFF"] by (simp add: y3_def n3_def)
  have n3: "n3 \<le> 28" using n2 by (simp add: n3_def)
  with 3 have 4: "uint y4 = uint x * 2 ^ n4 \<and> 2 ^ 30 \<le> uint y4"
    using nlz_step [of y3 x n3 2 "0x3FFFFFFF"] by (simp add: y4_def n4_def)
  have n4: "n4 \<le> 30" using n3 by (simp add: n4_def)
  define y5 where "y5 = (if y4 \<le> 0x7FFFFFFF then push_bit 1 y4 else y4)"
  have "uint y5 = uint x * 2 ^ nlz x \<and> 2 ^ 31 \<le> uint y5"
    using 4 n4 nlz_step [of y4 x n4 1 "0x7FFFFFFF"] by (simp add: y5_def nlz)
  then show ?thesis
    using n4 uint_range32 [of y5] by (simp add: nlz)
qed

section \<open>One digit\<close>

text \<open>
  The integer argument: the digit \<open>q\<close> is estimated from the high digit \<open>h\<close> of the divisor
  alone, with remainder \<open>r\<close>; \<open>l\<close> is the low digit and \<open>u\<close> the next digit of the dividend.
\<close>

lemma digit_low_enough:
  fixes q r h l u n :: int
  assumes "q * h + r = n" "q * l \<le> 65536 * r + u"
  shows "q * (h * 65536 + l) \<le> n * 65536 + u"
proof -
  have "q * (h * 65536 + l) = (n - r) * 65536 + q * l"
    using assms(1) by (auto simp: algebra_simps)
  with assms(2) show ?thesis by simp
qed

lemma digit_too_high:
  fixes q r h l u n :: int
  assumes "q * h + r = n" "65536 * r + u < q * l"
  shows "n * 65536 + u < q * (h * 65536 + l)"
proof -
  have "q * (h * 65536 + l) = (n - r) * 65536 + q * l"
    using assms(1) by (auto simp: algebra_simps)
  with assms(2) show ?thesis by simp
qed

lemma digit_done:
  fixes q r h l u n :: int
  assumes "q * h + r = n" "65536 \<le> r" "0 \<le> q" "q \<le> 65536" "0 \<le> l" "l < 65536" "0 \<le> u"
  shows "q * (h * 65536 + l) \<le> n * 65536 + u"
proof (rule digit_low_enough [OF assms(1)])
  have "q * l \<le> 65536 * 65536" using assms product_bound [of q 65536 l 65536] by simp
  with assms show "q * l \<le> 65536 * r + u" by simp
qed

lemma quotient_eq: "0 < v \<Longrightarrow> q * v \<le> n \<Longrightarrow> n div v \<le> q \<Longrightarrow> n div v = q" for q v n :: int
  using zdiv_mono1 [of "q * v" n v] by simp

lemma quotient_less:
  fixes q v n :: int
  assumes "0 < v" "n < q * v"
  shows "n div v < q"
proof (rule ccontr)
  assume "\<not> n div v < q"
  then have "q * v \<le> n div v * v" using assms(1) by (intro mult_right_mono) auto
  also have "\<dots> \<le> n" using assms(1) by (simp add: minus_mod_eq_div_mult [symmetric])
  finally show False using assms(2) by simp
qed

lemma digit_test:
  fixes q rhat vn0 un :: WORD
  assumes "uint vn0 < 65536" "uint un < 65536" "uint rhat < 65536"
  shows "q \<ge> 65536 \<or> q * vn0 > 65536 * rhat + un \<longleftrightarrow>
     65536 \<le> uint q \<or> 65536 * uint rhat + uint un < uint q * uint vn0"
proof (cases "65536 \<le> uint q")
  case False
  then have "uint q * uint vn0 \<le> 65535 * 65535"
    using assms product_bound [of "uint q" 65535 "uint vn0" 65535] by simp
  then have "uint (q * vn0) = uint q * uint vn0" by (intro uint_mult_small) simp
  moreover have "uint (65536 * rhat) = 65536 * uint rhat"
    using uint_mult_small [of 65536 rhat] assms by simp
  then have "uint (65536 * rhat + un) = 65536 * uint rhat + uint un"
    using uint_plus_small [of "65536 * rhat" un] assms by simp
  ultimately show ?thesis using False by (simp add: word_le_def word_less_def)
qed (simp add: word_le_def)

lemma correct_digit_finds:
  fixes q rhat vn1 vn0 un :: WORD and n :: int
  assumes v: "v = uint vn1 * 65536 + uint vn0" "0 < v" and d: "uint vn1 < 65536" "uint vn0 < 65536" "uint un < 65536"
    and n: "n < v"
    and "uint q * uint vn1 + uint rhat = n" "uint rhat < 65536" "uint q \<le> 65537"
      "(n * 65536 + uint un) div v \<le> uint q"
  shows "\<exists>q' r'. correct_digit q rhat vn1 vn0 un = Some (q', r') \<and> uint q' = (n * 65536 + uint un) div v"
  using assms(7-)
proof (induction "nat (uint q)" arbitrary: q rhat rule: less_induct)
  case less
  let ?N = "n * 65536 + uint un"
  note test = digit_test [OF d(2,3) less.prems(2)]
  show ?case
  proof (cases "65536 \<le> uint q \<or> 65536 * uint rhat + uint un < uint q * uint vn0")
    case False
    then have "uint q * v \<le> ?N"
      unfolding v(1) by (intro digit_low_enough [OF less.prems(1)]) simp
    then have "?N div v = uint q" by (rule quotient_eq [OF v(2) _ less.prems(4)])
    moreover have "correct_digit q rhat vn1 vn0 un = Some (q, rhat)"
      using False by (subst correct_digit.simps) (simp only: test if_False)
    ultimately show ?thesis by simp
  next
    case True
    have "?N < uint q * v"
    proof (cases "65536 \<le> uint q")
      case True
      then have "65536 * v \<le> uint q * v" using v(2) by (intro mult_right_mono) auto
      then show ?thesis using n d by simp
    next
      case False
      then show ?thesis
        using \<open>65536 \<le> uint q \<or> _\<close> unfolding v(1) by (intro digit_too_high [OF less.prems(1)]) simp
    qed
    then have lt: "?N div v < uint q"
      by (rule quotient_less [OF v(2)])
    have "0 \<le> n" using less.prems(1) by (metis add_nonneg_nonneg mult_nonneg_nonneg uint_ge_0)
    then have "0 \<le> ?N div v" using v(2) by (simp add: pos_imp_zdiv_nonneg_iff)
    with lt have "0 < uint q" by linarith
    then have q1: "uint (q - 1) = uint q - 1"
      using uint_diff [of q 1] by simp
    have r1: "uint (rhat + vn1) = uint rhat + uint vn1"
      using less.prems(2) d(1) by (intro uint_plus_small) simp
    have inv: "uint (q - 1) * uint vn1 + uint (rhat + vn1) = n"
      unfolding q1 r1 using less.prems(1) by (simp add: algebra_simps)
    have le: "?N div v \<le> uint (q - 1)" "uint (q - 1) \<le> 65537" "uint (q - 1) \<le> 65536"
      using lt less.prems(3) unfolding q1 by simp_all
    have step: "correct_digit q rhat vn1 vn0 un = (if rhat + vn1 < 65536
        then correct_digit (q - 1) (rhat + vn1) vn1 vn0 un else Some (q - 1, rhat + vn1))"
      using True by (subst correct_digit.simps) (simp only: test if_True Let_def simp_thms)
    show ?thesis
    proof (cases "rhat + vn1 < 65536")
      case True
      then have "uint (rhat + vn1) < 65536" by (simp add: word_less_def)
      moreover have "nat (uint (q - 1)) < nat (uint q)"
        using \<open>0 < uint q\<close> by (subst nat_mono_iff) (simp_all add: q1)
      ultimately obtain q' r' where "correct_digit (q - 1) (rhat + vn1) vn1 vn0 un = Some (q', r')"
        "uint q' = ?N div v"
        using less.hyps [OF _ inv _ le(2,1)] by blast
      then show ?thesis using step True by simp
    next
      case False
      then have "65536 \<le> uint (rhat + vn1)" by (simp add: word_less_def)
      then have "uint (q - 1) * v \<le> ?N"
        unfolding v(1) by (intro digit_done [OF inv]) (use le d in simp_all)
      then have "?N div v = uint (q - 1)" by (rule quotient_eq [OF v(2) _ le(1)])
      with step False show ?thesis by simp
    qed
  qed
qed

section \<open>Both digits\<close>

lemma sign_mask: "n < 32 \<Longrightarrow> signed_drop_bit 31 (- of_nat n :: WORD) = (if n = 0 then 0 else - 1)"
proof -
  assume n: "n < 32"
  have "sint (word_of_int (- int n) :: WORD) = - int n"
    using n by (intro sint_of_int_exact) (simp add: in_range_def)
  then have "bit (- of_nat n :: WORD) 31 \<longleftrightarrow> 0 < n"
    unfolding bit31_iff by simp
  then have "bit (signed_drop_bit 31 (- of_nat n :: WORD)) k = (0 < n)" if "k < 32" for k
    using that by (cases "k = 0") (simp_all add: bit_signed_drop_bit_iff)
  then show ?thesis by (intro bit_word_eqI) auto
qed

text \<open>The dividend shifted left, whose high word the code assembles from two.\<close>

lemma shifted_high:
  fixes u1 u0 :: WORD
  assumes "n < 32" "uint u1 * 2 ^ n < 2 ^ 32"
  shows "uint (push_bit n u1 OR (drop_bit (32 - n) u0 AND signed_drop_bit 31 (- of_nat n))) =
     uint u1 * 2 ^ n + uint u0 * 2 ^ n div 2 ^ 32"
proof -
  have d: "drop_bit (32 - n) u0 AND signed_drop_bit 31 (- of_nat n) = drop_bit (32 - n) u0"
    using assms(1) uint_range32 [of u0]
    by (cases "n = 0") (simp_all add: sign_mask word_uint_eq_iff [of "drop_bit 32 u0"] uint_drop_bit)
  have pow: "(2 :: int) ^ 32 = 2 ^ (32 - n) * 2 ^ n"
    using assms(1) by (simp flip: power_add)
  have lo: "uint (drop_bit (32 - n) u0) = uint u0 * 2 ^ n div 2 ^ 32"
    unfolding uint_drop_bit pow by simp
  have hi: "uint (push_bit n u1) = uint u1 * 2 ^ n"
    using assms(2) by (simp add: uint_push_bit)
  have "push_bit n u1 OR drop_bit (32 - n) u0 = push_bit n u1 + drop_bit (32 - n) u0"
    by (rule disjunctive_add [symmetric]) (auto simp: bit_simps dest: bit_imp_le_length)
  moreover have "uint (push_bit n u1) + uint (drop_bit (32 - n) u0) < 4294967296"
  proof -
    have "uint u1 < 2 ^ (32 - n)" using assms(2) unfolding pow by simp
    then have "(uint u1 + 1) * 2 ^ n \<le> 2 ^ (32 - n) * 2 ^ n" by (intro mult_right_mono) auto
    moreover have "uint u0 * 2 ^ n div 2 ^ 32 < 2 ^ n"
      using uint_range32 [of u0] by (intro quotient_less) simp_all
    ultimately show ?thesis
      unfolding hi lo pow [symmetric] by (simp add: algebra_simps)
  qed
  ultimately show ?thesis
    unfolding d using uint_plus_small [of "push_bit n u1" "drop_bit (32 - n) u0"] hi lo by simp
qed

text \<open>
  The whole division in integers: \<open>m\<close> is the power of two that normalises the divisor \<open>v\<close>,
  and the two digits divide in turn.
\<close>

lemma two_digits:
  fixes m v d n1 n2 q1 q0 :: int
  assumes "0 < m" "0 < v" "n1 = d * m div 65536" "n2 = d * m mod 65536"
    and "q1 = n1 div (v * m)" "q0 = (n1 mod (v * m) * 65536 + n2) div (v * m)"
  shows "q1 * 65536 + q0 = d div v" "((n1 mod (v * m)) * 65536 + n2 - q0 * (v * m)) div m = d mod v"
proof -
  let ?w = "v * m" and ?r = "n1 mod (v * m) * 65536 + n2"
  have w: "0 < ?w" using assms by simp
  have "d * m = n1 * 65536 + n2" using assms by simp
  also have "n1 = q1 * ?w + n1 mod ?w" unfolding assms(5) by (simp only: div_mult_mod_eq)
  finally have dm: "d * m = q1 * ?w * 65536 + ?r" by (simp add: algebra_simps)
  have "?r = q0 * ?w + ?r mod ?w" unfolding assms(6) by (simp only: div_mult_mod_eq)
  with dm have "d * m = (q1 * 65536 + q0) * v * m + ?r mod ?w" by (simp add: algebra_simps)
  moreover define r where "r = d - (q1 * 65536 + q0) * v"
  then have "r * m = d * m - (q1 * 65536 + q0) * v * m" by (simp only: left_diff_distrib)
  ultimately have r: "?r mod ?w = r * m" by simp
  have "0 \<le> ?r mod ?w" "?r mod ?w < ?w" using w by simp_all
  then have "0 \<le> r" "r < v" unfolding r using assms(1) by (simp_all add: zero_le_mult_iff)
  moreover have "d = (q1 * 65536 + q0) * v + r" by (simp add: r_def)
  ultimately show "q1 * 65536 + q0 = d div v" using assms(2)
    by (metis add.right_neutral div_mult_self3 div_pos_pos_trivial add.commute less_irrefl)
  have "d mod v = r" using \<open>0 \<le> r\<close> \<open>r < v\<close> \<open>d = _\<close> by simp
  moreover have "?r - q0 * ?w = ?r mod ?w" using assms(6) by (simp add: minus_div_mult_eq_mod)
  ultimately show "(?r - q0 * ?w) div m = d mod v" using r assms(1) by simp
qed

section \<open>The instruction\<close>

text \<open>The multiply and subtract after a digit, exact although its parts wrap round.\<close>

lemma subtract_digit:
  fixes n u q v :: WORD
  assumes "uint q = (uint n * 65536 + uint u) div uint v" "0 < uint v"
  shows "uint (n * 65536 + u - q * v) = (uint n * 65536 + uint u) mod uint v"
proof -
  let ?k = "uint n * 65536 + uint u"
  have "n * 65536 + u - q * v = word_of_int (?k - uint q * uint v)" by simp
  also have "?k - uint q * uint v = ?k mod uint v"
    unfolding assms(1) by (rule minus_div_mult_eq_mod)
  finally have "uint (n * 65536 + u - q * v) = ?k mod uint v mod 4294967296"
    by (simp add: unsigned_of_int take_bit_eq_mod)
  moreover have "?k mod uint v < 4294967296" "0 \<le> ?k mod uint v"
    using assms(2) uint_range32 [of v] by (auto intro: less_trans [OF pos_mod_bound])
  ultimately show ?thesis by simp
qed

text \<open>An estimated digit meets the conditions of the correction.\<close>

lemma uint_div_rem:
  fixes n h :: WORD
  shows "uint (n div h) = uint n div uint h" "uint (n - n div h * h) = uint n mod uint h"
proof -
  show "uint (n div h) = uint n div uint h" by (rule uint_div_distrib)
  have "n - n div h * h = n mod h" by (rule minus_div_mult_eq_mod)
  then show "uint (n - n div h * h) = uint n mod uint h" by (simp add: uint_mod_distrib)
qed

lemma estimated_digit:
  fixes n u w :: WORD
  assumes w: "2 ^ 31 \<le> uint w" and n: "uint n < uint w" and u: "uint u < 65536"
  defines "h \<equiv> drop_bit 16 w"
  shows "\<exists>q r. correct_digit (n div h) (n - n div h * h) h (w AND 0xFFFF) u = Some (q, r) \<and>
    uint q = (uint n * 65536 + uint u) div uint w"
proof (rule correct_digit_finds)
  have h: "uint h = uint w div 65536" "uint (w AND 0xFFFF) = uint w mod 65536"
    unfolding h_def by (rule uint_digits)+
  show split: "uint w = uint h * 65536 + uint (w AND 0xFFFF)" unfolding h by simp
  have h_big: "32768 \<le> uint h" using zdiv_mono1 [OF w, of 65536] unfolding h by simp
  show "0 < uint w" using w by simp
  show "uint h < 65536" using high_digit [of "uint w" 65536] uint_range32 [of w] unfolding h by simp
  then show "uint (n - n div h * h) < 65536"
    unfolding uint_div_rem using h_big by (intro less_trans [OF pos_mod_bound]) auto
  show l: "uint (w AND 0xFFFF) < 65536" unfolding h by simp
  show "uint n < uint w" "uint u < 65536" by fact+
  show sum: "uint (n div h) * uint h + uint (n - n div h * h) = uint n"
    unfolding uint_div_rem by simp
  have "uint n < 65538 * uint h" using n l h_big unfolding split by simp
  then show "uint (n div h) \<le> 65537"
    unfolding uint_div_rem using quotient_less [of "uint h" "uint n" 65538] h_big by simp
  have "uint n < (uint (n div h) + 1) * uint h"
  proof -
    have "uint n mod uint h < uint h" using h_big by (intro pos_mod_bound) simp
    then show ?thesis using sum unfolding uint_div_rem(2) by (simp add: distrib_right)
  qed
  then have "(uint n + 1) * 65536 \<le> (uint (n div h) + 1) * uint h * 65536"
    by (intro mult_right_mono) auto
  also have "\<dots> \<le> (uint (n div h) + 1) * uint w"
    unfolding split mult.assoc using uint_ge_0 by (intro mult_left_mono) auto
  finally have "uint n * 65536 + uint u < (uint (n div h) + 1) * uint w"
    using u by (simp add: distrib_right)
  then show "(uint n * 65536 + uint u) div uint w \<le> uint (n div h)"
    using quotient_less [OF \<open>0 < uint w\<close>] by fastforce
qed

lemma middle_digits:
  fixes x :: int
  shows "x div 2 ^ 32 * 65536 + (x mod 2 ^ 32) div 65536 = x div 65536"
    "(x mod 2 ^ 32) mod 65536 = x mod 65536"
proof -
  have "x = x mod 2 ^ 32 + 65536 * (x div 2 ^ 32 * 65536)"
    using mult_div_mod_eq [of "2 ^ 32" x] by simp
  then have "x div 65536 = (x mod 2 ^ 32 + 65536 * (x div 2 ^ 32 * 65536)) div 65536" by presburger
  also have "\<dots> = x div 2 ^ 32 * 65536 + (x mod 2 ^ 32) div 65536"
    by (rule div_mult_self2) simp
  finally show "x div 2 ^ 32 * 65536 + (x mod 2 ^ 32) div 65536 = x div 65536" ..
  show "(x mod 2 ^ 32) mod 65536 = x mod 65536" by (rule mod_mod_cancel) simp
qed

lemma portable_division:
  fixes u1 u0 v :: WORD
  assumes "u1 < v"
  defines "sh \<equiv> nlz v"
  defines "w \<equiv> push_bit sh v"
  defines "un32 \<equiv> push_bit sh u1 OR (drop_bit (32 - sh) u0 AND signed_drop_bit 31 (- of_nat sh))"
  defines "un10 \<equiv> push_bit sh u0"
  shows "\<exists>q1 r1 q0 r0. correct_digit (un32 div drop_bit 16 w) (un32 - un32 div drop_bit 16 w * drop_bit 16 w)
      (drop_bit 16 w) (w AND 0xFFFF) (drop_bit 16 un10) = Some (q1, r1) \<and>
    (let un21 = un32 * 65536 + drop_bit 16 un10 - q1 * w in
     correct_digit (un21 div drop_bit 16 w) (un21 - un21 div drop_bit 16 w * drop_bit 16 w)
       (drop_bit 16 w) (w AND 0xFFFF) (un10 AND 0xFFFF) = Some (q0, r0) \<and>
     uint (q1 * 65536 + q0) = dword_value u1 u0 div uint v \<and>
     uint (drop_bit sh (un21 * 65536 + (un10 AND 0xFFFF) - q0 * w)) = dword_value u1 u0 mod uint v)"
proof -
  define m :: int where "m = 2 ^ sh"
  let ?d = "dword_value u1 u0"
  have lt: "uint u1 < uint v" using assms(1) by (simp add: word_less_def)
  then have v: "0 < uint v" using uint_ge_0 [of u1] by linarith
  then have "v \<noteq> 0" by auto
  from nlz_normalises [OF this] have sh: "sh < 32" "2 ^ 31 \<le> uint v * m" "uint v * m < 2 ^ 32"
    by (simp_all add: sh_def m_def)
  have m: "0 < m" by (simp add: m_def)
  have w: "uint w = uint v * m"
    using sh(3) v m unfolding w_def uint_push_bit m_def [symmetric] by (intro mod_pos_pos_trivial) auto
  have "uint u1 * m \<le> uint v * m" using lt m by (intro mult_right_mono) auto
  then have "uint u1 * 2 ^ sh < 2 ^ 32" using sh(3) unfolding m_def by (rule le_less_trans)
  from shifted_high [OF sh(1) this, of u0]
  have "uint un32 = uint u1 * m + uint u0 * m div 2 ^ 32" by (simp add: un32_def m_def)
  also have "\<dots> = (uint u1 * m * 2 ^ 32 + uint u0 * m) div 2 ^ 32" by simp
  finally have un32: "uint un32 = ?d * m div 2 ^ 32" by (simp add: dword_value_def algebra_simps)
  have un10: "uint un10 = ?d * m mod 2 ^ 32"
  proof -
    have "?d * m = uint u0 * m + uint u1 * m * 4294967296" by (simp add: dword_value_def algebra_simps)
    then show ?thesis unfolding un10_def uint_push_bit m_def [symmetric] by simp
  qed
  let ?un1 = "drop_bit 16 un10" and ?un0 = "un10 AND 0xFFFF"
  have n1: "uint un32 * 65536 + uint ?un1 = ?d * m div 65536" and n2: "uint ?un0 = ?d * m mod 65536"
    unfolding uint_digits un10 un32 by (rule middle_digits)+
  have digit: "uint ?un1 < 65536" "uint ?un0 < 65536"
    using high_digit [of "uint un10" 65536] uint_range32 [of un10] low_digit [of "uint un10"]
    unfolding uint_digits by auto
  have "?d < uint v * 2 ^ 32"
    using lt uint_range32 [of u0] by (simp add: dword_value_def) 
  then have "?d * m < uint w * 2 ^ 32" using m unfolding w by simp
  then have un32_w: "uint un32 < uint w"
    unfolding un32 by (intro quotient_less) simp_all
  have w31: "2 ^ 31 \<le> uint w" using sh(2) unfolding w .
  then have w0: "0 < uint w" by simp
  obtain q1 r1 where q1: "correct_digit (un32 div drop_bit 16 w) (un32 - un32 div drop_bit 16 w * drop_bit 16 w)
      (drop_bit 16 w) (w AND 0xFFFF) ?un1 = Some (q1, r1)"
    "uint q1 = (uint un32 * 65536 + uint ?un1) div uint w"
    using estimated_digit [OF w31 un32_w digit(1)] by blast
  define un21 where "un21 = un32 * 65536 + ?un1 - q1 * w"
  have un21: "uint un21 = (uint un32 * 65536 + uint ?un1) mod uint w"
    unfolding un21_def by (rule subtract_digit [OF q1(2) w0])
  then have un21_w: "uint un21 < uint w" using w0 by simp
  obtain q0 r0 where q0: "correct_digit (un21 div drop_bit 16 w) (un21 - un21 div drop_bit 16 w * drop_bit 16 w)
      (drop_bit 16 w) (w AND 0xFFFF) ?un0 = Some (q0, r0)"
    "uint q0 = (uint un21 * 65536 + uint ?un0) div uint w"
    using estimated_digit [OF w31 un21_w digit(2)] by blast
  have rem: "uint (un21 * 65536 + ?un0 - q0 * w) = (uint un21 * 65536 + uint ?un0) mod uint w"
    by (rule subtract_digit [OF q0(2) w0])
  have "uint q1 < 65536" "uint q0 < 65536"
    unfolding q1(2) q0(2) using w0 un32_w un21_w digit by (auto intro!: quotient_less)
  then have q: "uint (q1 * 65536 + q0) = uint q1 * 65536 + uint q0"
    using uint_mult_small [of q1 65536] uint_plus_small [of "q1 * 65536" q0] by simp
  note digits = two_digits [OF m v refl refl refl refl, of ?d, folded w n1 n2]
  have "uint (q1 * 65536 + q0) = ?d div uint v"
    unfolding q q1(2) q0(2) un21 by (rule digits(1))
  moreover have "uint (drop_bit sh (un21 * 65536 + ?un0 - q0 * w)) = ?d mod uint v"
    unfolding uint_drop_bit [of sh] rem m_def [symmetric] un21
    using digits(2) unfolding minus_div_mult_eq_mod .
  ultimately show ?thesis
    using q1(1) q0(1) unfolding Let_def un21_def by blast
qed

lemma returns_top_assigned:
  "returns_top e a b s (STACK2_RET e (AREG e (set_AREG e a (set_BREG e b s)))
     (BREG e (set_AREG e a (set_BREG e b s))) (set_AREG e a (set_BREG e b s)))"
  using returns_top_regs(2) by simp

lemma ins_ldiv_portable_returns:
  assumes "CREG e s < AREG e s"
  shows "\<exists>q r. returns_top e q r s (ins_ldiv_portable e s) \<and>
    uint q = dword_value (CREG e s) (BREG e s) div uint (AREG e s) \<and>
    uint r = dword_value (CREG e s) (BREG e s) mod uint (AREG e s)"
proof -
  have no_error: "(AREG e s \<le> CREG e s) = False" using assms by simp
  note division = portable_division [OF assms, of "BREG e s", unfolded Let_def]
  show ?thesis
    by (insert division, elim exE conjE, intro exI conjI)
      (simp only: ins_ldiv_portable_def no_error Let_def error_if_simps Option.bind.simps prod.case,
        rule returns_top_assigned, assumption+)
qed

lemma ins_ldiv_returns:
  assumes "AREG e s \<noteq> 0"
  shows "\<exists>q r. returns_top e q r s (ins_ldiv e s) \<and>
    uint q = dword_value (CREG e s) (BREG e s) div uint (AREG e s) mod 2 ^ 32 \<and>
    uint r = dword_value (CREG e s) (BREG e s) mod uint (AREG e s)"
proof -
  let ?d = "dword (CREG e s) (BREG e s)" and ?a = "ucast (AREG e s) :: UDWORD"
  have "returns_top e (ucast (?d div ?a)) (ucast (?d mod ?a)) s (ins_ldiv e s)"
    using assms returns_top_assigned [of e "ucast (?d div ?a)" "ucast (?d mod ?a)" s]
    by (simp add: ins_ldiv_def Let_def)
  moreover have "uint (ucast (?d div ?a) :: WORD) = dword_value (CREG e s) (BREG e s) div uint (AREG e s) mod 2 ^ 32"
    unfolding ucast_of_dword uint_div_distrib uint_dword uint_to_dword ..
  moreover have "uint (ucast (?d mod ?a) :: WORD) = dword_value (CREG e s) (BREG e s) mod uint (AREG e s)"
  proof -
    let ?r = "dword_value (CREG e s) (BREG e s) mod uint (AREG e s)"
    have "0 < uint (AREG e s)" using assms word_uint_eq_iff [of "AREG e s" 0] uint_ge_0 [of "AREG e s"]
      by (simp, linarith)
    then have "0 \<le> ?r" "?r < 2 ^ 32"
      using uint_range32 [of "AREG e s"] by (auto intro: less_trans [OF pos_mod_bound])
    then show ?thesis
      unfolding ucast_of_dword uint_mod_distrib uint_dword uint_to_dword by simp
  qed
  ultimately show ?thesis by blast
qed

text \<open>C27: \<^verbatim>\<open>ldiv\<close>. With a quotient that fits a word both versions return the quotient and
  remainder of the double word in \<open>CREG\<close> and \<open>BREG\<close> by \<open>AREG\<close>. Otherwise the version without a
  64-bit type raises the overflow flag; the other traps on a zero divisor and else returns the low
  word of the quotient.\<close>

theorem ins_ldiv_exact:
  "let d = dword_value (CREG e s) (BREG e s); v = uint (AREG e s) in
   if uint (CREG e s) < v
   then \<exists>q r. returns_top e q r s (ins_ldiv e s) \<and> returns_top e q r s (ins_ldiv_portable e s) \<and>
     uint q = d div v \<and> uint r = d mod v
   else raises e EFLAG_INTOV s (ins_ldiv_portable e s) \<and>
     (if v = 0 then ins_ldiv e s = None
      else \<exists>q r. returns_top e q r s (ins_ldiv e s) \<and> uint q = d div v mod 2 ^ 32 \<and> uint r = d mod v)"
proof (cases "uint (CREG e s) < uint (AREG e s)")
  case True
  let ?d = "dword_value (CREG e s) (BREG e s)" and ?v = "uint (AREG e s)"
  have lt: "CREG e s < AREG e s" using True by (simp add: word_less_def)
  obtain q r where p: "returns_top e q r s (ins_ldiv_portable e s)" "uint q = ?d div ?v" "uint r = ?d mod ?v"
    using ins_ldiv_portable_returns [OF lt] by blast
  have "AREG e s \<noteq> 0" using lt by auto
  then obtain q' r' where d: "returns_top e q' r' s (ins_ldiv e s)" "uint q' = ?d div ?v mod 2 ^ 32" "uint r' = ?d mod ?v"
    using ins_ldiv_returns by blast
  have "uint q mod 2 ^ 32 = uint q" using uint_range32 [of q] by simp
  then have "q' = q" "r' = r" using p d by (simp_all add: word_uint_eq_iff)
  with True p d show ?thesis unfolding Let_def by auto
next
  case False
  then have "(AREG e s \<le> CREG e s) = True" by (simp only: word_le_def not_less simp_thms)
  then have "raises e EFLAG_INTOV s (ins_ldiv_portable e s)"
    by (simp only: ins_ldiv_portable_def Let_def error_if_simps raises_SET_ERROR_FLAG_RET)
  moreover have "uint (AREG e s) = 0 \<longleftrightarrow> AREG e s = 0" by (simp add: word_uint_eq_iff)
  moreover have "AREG e s = 0 \<Longrightarrow> ins_ldiv e s = None" by (simp add: ins_ldiv_def)
  ultimately show ?thesis
    unfolding Let_def if_not_P [OF False]
    by (cases "AREG e s = 0") (simp_all only: simp_thms if_True if_False ins_ldiv_returns)
qed

end
