(* ===== verification/Tvm_Footprint.thy ===== *)
theory Tvm_Footprint
  imports Tvm_Scheduler
begin

text \<open>
  Which bytes an operation on workspaces may change. The slots of a process are the 28 bytes
  that end with its workspace word; channel words, barriers, semaphores and message buffers are
  clear of them, so scheduling leaves them alone and they leave the queues alone.
\<close>

section \<open>Disjoint blocks\<close>

definition disjoint_blocks :: "WORD \<Rightarrow> WORD \<Rightarrow> WORD \<Rightarrow> WORD \<Rightarrow> bool" where
  "disjoint_blocks p n q m \<longleftrightarrow> n \<le> q - p \<and> m \<le> p - q"

lemma disjoint_blocks_neq:
  assumes "disjoint_blocks p n q m" "i < n" "j < m"
  shows "p + i \<noteq> q + j"
proof
  assume eq: "p + i = q + j"
  show False
  proof (cases "i \<le> j")
    case True
    have "p - q = j - i" using eq by (simp add: algebra_simps)
    also have "\<dots> \<le> j" using True by (rule word_sub_le)
    finally show False using assms by (auto simp: disjoint_blocks_def dest: leD le_less_trans)
  next
    case False
    have "q - p = i - j" using eq by (simp add: algebra_simps)
    also have "\<dots> \<le> i" using False by (intro word_sub_le) simp
    finally show False using assms by (auto simp: disjoint_blocks_def dest: leD le_less_trans)
  qed
qed

lemma disjoint_blocks_outside:
  assumes "disjoint_blocks p n q m" "j < m"
  shows "n \<le> q + j - p"
proof (rule ccontr)
  assume "\<not> n \<le> q + j - p"
  then have "q + j - p < n" by simp
  then have "p + (q + j - p) \<noteq> q + j" by (rule disjoint_blocks_neq [OF assms(1) _ assms(2)])
  then show False by simp
qed

text \<open>Outside the slots of all processes of a set.\<close>

definition outside :: "WORD set \<Rightarrow> WORD \<Rightarrow> bool" where
  "outside A x \<longleftrightarrow> (\<forall>q \<in> A. 28 \<le> x - (q - 24))"

definition clear_of :: "WORD set \<Rightarrow> WORD \<Rightarrow> WORD \<Rightarrow> bool" where
  "clear_of A p n \<longleftrightarrow> (\<forall>q \<in> A. disjoint_blocks (q - 24) 28 p n)"

lemma clear_of_outside: "clear_of A p n \<Longrightarrow> i < n \<Longrightarrow> outside A (p + i)"
  by (auto simp: clear_of_def outside_def dest: disjoint_blocks_outside)

lemma outside_mono: "outside A x \<Longrightarrow> B \<subseteq> A \<Longrightarrow> outside B x"
  by (auto simp: outside_def)

lemma clear_of_mono: "clear_of A p n \<Longrightarrow> B \<subseteq> A \<Longrightarrow> clear_of B p n"
  by (auto simp: clear_of_def)

lemma slot_inside:
  assumes "k \<le> 6" "j < 4"
  shows "wordptr_minus q k + j - (q - 24) < 28"
proof -
  have "wordptr_minus q k + j - (q - 24) = 24 - 4 * k + j" by (simp add: wordptr_minus_def)
  also have "\<dots> < 28"
    using slot_cases [OF assms(1)] word_offset_cases [OF assms(2)] by auto
  finally show ?thesis .
qed

lemma slot_far:
  assumes "28 \<le> x - (q - 24)" "k \<le> 6"
  shows "4 \<le> x - wordptr_minus q k"
proof (rule ccontr)
  assume "\<not> 4 \<le> x - wordptr_minus q k"
  then have "x - wordptr_minus q k < 4" by simp
  from slot_inside [OF assms(2) this, of q] assms(1) show False by (simp add: not_le [symmetric])
qed

lemma mem_WORKSPACE_SET_outside:
  "outside A x \<Longrightarrow> q \<in> A \<Longrightarrow> k \<le> 6 \<Longrightarrow> mem (WORKSPACE_SET q k v s) x = mem s x"
  by (simp add: WORKSPACE_SET_def outside_def slot_far write_word_outside)

lemma WORKSPACE_GET_cong:
  assumes "\<And>x. \<not> outside {q} x \<Longrightarrow> mem s' x = mem s x" "k \<le> 6"
  shows "WORKSPACE_GET s' q k = WORKSPACE_GET s q k"
  unfolding WORKSPACE_GET_def
proof (rule read_word_cong)
  fix i :: WORD assume "i < 4"
  with slot_inside [OF assms(2) this, of q] show "mem s' (wordptr_minus q k + i) = mem s (wordptr_minus q k + i)"
    by (intro assms(1)) (simp add: outside_def not_le)
qed

lemma get_word_cong:
  "(\<And>i. i < 4 \<Longrightarrow> mem s' (p + i) = mem s (p + i)) \<Longrightarrow> get_word s' p = get_word s p"
  by (rule read_word_cong) simp

text \<open>A word clear of the slots.\<close>

lemma put_word_clear_GET:
  assumes "clear_of A p 4" "q \<in> A" "k \<le> 6"
  shows "WORKSPACE_GET (put_word p v s) q k = WORKSPACE_GET s q k"
proof (rule WORKSPACE_GET_cong)
  fix x assume "\<not> outside {q} x"
  moreover have "outside {q} (p + (x - p))" if "x - p < 4"
    using outside_mono [OF clear_of_outside [OF assms(1) that], of "{q}"] assms(2) by simp
  ultimately have "4 \<le> x - p" by (auto simp: not_le [symmetric])
  then show "mem (put_word p v s) x = mem s x" by (simp add: write_word_outside)
qed fact

lemma WORKSPACE_SET_clear_word:
  "clear_of A p 4 \<Longrightarrow> q \<in> A \<Longrightarrow> k \<le> 6 \<Longrightarrow> get_word (WORKSPACE_SET q k v s) p = get_word s p"
  by (rule get_word_cong) (auto intro: mem_WORKSPACE_SET_outside clear_of_outside)

section \<open>Scheduling\<close>

lemma run_queue_cong:
  assumes "run_queue e s rq" "\<And>q. q \<in> set rq \<Longrightarrow> WORKSPACE_GET s' q WS_LINK = WORKSPACE_GET s q WS_LINK"
    and "FPTR e s' = FPTR e s" "BPTR e s' = BPTR e s"
  shows "run_queue e s' rq"
proof -
  have "linked s' WS_LINK rq = linked s WS_LINK rq" using assms(2) by (rule linked_cong)
  with assms show ?thesis by (simp add: run_queue_def)
qed

lemma mem_add_to_queue_outside:
  assumes "run_queue e s rq" "outside (insert ws (set rq)) x"
  shows "mem (add_to_queue e ws s) x = mem s x"
proof (cases "rq = []")
  case True
  with assms show ?thesis
    by (simp add: add_to_queue_def run_queue_def Let_def mem_WORKSPACE_SET_outside [OF assms(2)])
next
  case False
  then have "BPTR e s \<in> set rq" "FPTR e s \<noteq> 0"
    using assms(1) run_queue_front [OF assms(1)] by (auto simp: run_queue_def)
  with assms show ?thesis
    by (simp add: add_to_queue_def Let_def mem_WORKSPACE_SET_outside [OF assms(2)])
qed

text \<open>The current process joins the back of the run queue and \<open>w\<close> runs in its place.\<close>

lemma deschedule_load:
  assumes "run_queue e s rq" "ws_set (insert w (insert (WPTR e s) (set rq)))" "WPTR e s \<notin> set rq"
    and "w \<noteq> WPTR e s" "WORKSPACE_GET s w WS_ECTX = e"
  shows "\<exists>s'. LOAD_PROCESS_RET e w (DESCHEDULE_CURRENT e s) = Some (ECTX_CONTINUE, s') \<and>
    WPTR e s' = w \<and> IPTR e s' = WORKSPACE_GET s w WS_IPTR \<and> run_queue e s' (rq @ [WPTR e s]) \<and>
    WORKSPACE_GET s' (WPTR e s) WS_IPTR = IPTR e s \<and>
    (\<forall>x. outside (insert (WPTR e s) (set rq)) x \<longrightarrow> mem s' x = mem s x)"
proof -
  let ?p = "WPTR e s" and ?A = "insert w (insert (WPTR e s) (set rq))"
  let ?s1 = "WORKSPACE_SET ?p WS_IPTR (IPTR e s) s"
  let ?s2 = "add_to_queue e ?p ?s1"
  have rq1: "run_queue e ?s1 rq"
    using assms by (subst run_queue_SET [OF assms(2)]) auto
  have "ws_list (rq @ [?p])"
    using assms(1-3) by (auto simp: ws_list_iff run_queue_def intro: ws_set_mono)
  then have rq2: "run_queue e ?s2 (rq @ [?p])" using rq1 by (rule add_to_queue_run_queue [rotated])
  have sub: "?p \<in> ?A" "set rq \<subseteq> ?A" by auto
  have slots: "WORKSPACE_GET ?s2 q k = (if q = ?p \<and> k = WS_IPTR then IPTR e s else WORKSPACE_GET s q k)"
    if "q \<in> ?A" "k \<noteq> WS_LINK" "k \<le> 6" for q k
    using add_to_queue_frame [OF rq1 assms(2) sub that]
      WORKSPACE_GET_SET [OF assms(2) sub(1) that(1) _ that(3), of WS_IPTR "IPTR e s" s] by auto
  have mem: "mem ?s2 x = mem s x" if "outside (insert ?p (set rq)) x" for x
    using mem_add_to_queue_outside [OF rq1 that] mem_WORKSPACE_SET_outside [OF that, of ?p] by simp
  have load: "LOAD_PROCESS_RET e w (DESCHEDULE_CURRENT e s) =
      Some (ECTX_CONTINUE, set_IPTR e (WORKSPACE_GET s w WS_IPTR) (set_WPTR e w (set_WPTR e NOT_PROCESS_P ?s2)))"
    using assms(4,5) slots [of w WS_ECTX] slots [of w WS_IPTR]
    by (simp add: LOAD_PROCESS_RET_def DESCHEDULE_CURRENT_def ADD_TO_QUEUE_IPTR_def Let_def)
  show ?thesis
    unfolding load using rq2 slots [of ?p WS_IPTR] mem
    by (simp add: run_queue_upd_ectx)
qed

text \<open>Running the next process of a run queue that is not empty, when no synchronisation is due.\<close>

lemma run_next_of_queue:
  assumes "run_queue e s (p # rq)" "sflags (ectxs s e) = 0"
  shows "\<exists>s'. run_next_on_queue e s = Some (ECTX_CONTINUE, s') \<and> WPTR e s' = p \<and>
    IPTR e s' = WORKSPACE_GET s p WS_IPTR \<and> run_queue e s' rq \<and> mem s' = mem s"
proof -
  obtain s' where "take_next e s = (ECTX_CONTINUE, s')" "run_queue e s' rq" "WPTR e s' = p"
    "IPTR e s' = WORKSPACE_GET s p WS_IPTR" "mem s' = mem s"
    using take_next_run_queue [OF assms(1)] .
  then show ?thesis using assms(2) by (simp add: run_next_on_queue_def)
qed

end
