(* ===== verification/Tvm_Channel.thy ===== *)
theory Tvm_Channel
  imports Tvm_Secondary Tvm_Footprint
begin

text \<open>
  Channel communication, \<^verbatim>\<open>ins_chan.c\<close>, in the three layers the code has: data movement,
  channel word manipulation, and scheduling. A channel is a word of memory: zero when nobody
  waits, else the workspace of the waiting process, with bit 0 set while that process is in an
  alternation. The build has no external channel bundles.
\<close>

section \<open>Data movement\<close>

type_synonym io_data = "WORD \<Rightarrow> WORD \<Rightarrow> WORD \<Rightarrow> WORD \<Rightarrow> tvm \<Rightarrow> result"
type_synonym io_disconnected = "WORD \<Rightarrow> WORD \<Rightarrow> WORD \<Rightarrow> tvm \<Rightarrow> result"

definition swap_data_word :: "WORD \<Rightarrow> WORD \<Rightarrow> WORD \<Rightarrow> tvm \<Rightarrow> tvm" where
  "swap_data_word e a_ptr b_ptr s =
     (let a_data = get_word s a_ptr;
          b_data = get_word s b_ptr
      in put_word a_ptr b_data (put_word b_ptr a_data s))"

definition channel_input :: io_data where
  "channel_input e dst_ptr len src_wptr s =
     (let src_ptr = WORKSPACE_GET s src_wptr WS_POINTER
      in Some (ECTX_CONTINUE, s\<lparr>mem := snd (tvm_memcpy native_ops dst_ptr src_ptr len (mem s))\<rparr>))"

definition channel_output :: io_data where
  "channel_output e src_ptr len dst_wptr s =
     (let dst_ptr = WORKSPACE_GET s dst_wptr WS_POINTER
      in Some (ECTX_CONTINUE, s\<lparr>mem := snd (tvm_memcpy native_ops dst_ptr src_ptr (- len) (mem s))\<rparr>))"

definition channel_swap :: io_data where
  "channel_swap e src_ptr len dst_wptr s =
     (let dst_ptr = WORKSPACE_GET s dst_wptr WS_POINTER
      in Some (ECTX_CONTINUE, swap_data_word e dst_ptr src_ptr s))"

text \<open>The loop counts \<open>len\<close> down to zero, through the whole range when it is negative.\<close>

fun zero_bytes :: "nat \<Rightarrow> WORD \<Rightarrow> tvm \<Rightarrow> tvm" where
  "zero_bytes 0 dst_ptr s = s"
| "zero_bytes (Suc n) dst_ptr s = zero_bytes n (byteptr_plus dst_ptr 1) (put_byte dst_ptr 0 s)"

definition channel_dc_input :: io_disconnected where
  "channel_dc_input e dst_ptr len s = Some (ECTX_CONTINUE, zero_bytes (unat len) dst_ptr s)"

definition channel_dc_nop :: io_disconnected where
  "channel_dc_nop e ptr len s = Some (ECTX_CONTINUE, s)"

section \<open>Channel word manipulation\<close>

text \<open>The end of \<^verbatim>\<open>chan_io\<close>: the process stores its state and waits in the channel.\<close>

definition chan_wait :: "WORD \<Rightarrow> WORD \<Rightarrow> WORD \<Rightarrow> WORD \<Rightarrow> tvm \<Rightarrow> tvm" where
  "chan_wait e chan_ptr data_ptr data_len s =
     (let s = WORKSPACE_SET (WPTR e s) WS_POINTER data_ptr s;
          s = WORKSPACE_SET (WPTR e s) WS_ECTX e s;
          s = WORKSPACE_SET (WPTR e s) WS_PENDING data_len s;
          s = WORKSPACE_SET (WPTR e s) WS_IPTR (IPTR e s) s
      in put_word chan_ptr (WPTR e s) s)"

text \<open>The result, the word to requeue, and the state.\<close>

definition chan_io :: "WORD \<Rightarrow> WORD \<Rightarrow> WORD \<Rightarrow> WORD \<Rightarrow> io_data \<Rightarrow> io_disconnected \<Rightarrow> tvm \<Rightarrow>
    (int \<times> WORD \<times> tvm) option" where
  "chan_io e chan_ptr data_ptr data_len data dc s =
     (let chan_value = get_word s chan_ptr;
          other_WPTR = chan_value AND NOT 1;
          requeue = chan_value
      in
      if chan_value \<noteq> NOT_PROCESS_P then
        if chan_value AND 1 = 0 then
          do {
            (ret, s) \<leftarrow> data e data_ptr data_len other_WPTR (put_word chan_ptr NOT_PROCESS_P s);
            Some (ret, requeue, s)
          }
        else if other_WPTR \<noteq> NOT_PROCESS_P then
          let alt_state = WORKSPACE_GET s other_WPTR WS_STATE;
              requeue = (if alt_state \<noteq> WAITING_P then NOT_PROCESS_P else requeue)
          in if alt_state = WAITING_P \<or> alt_state = ENABLING_P then
               Some (ECTX_DESCHEDULE, requeue,
                chan_wait e chan_ptr data_ptr data_len
                  (WORKSPACE_SET other_WPTR WS_STATE DISABLING_P s))
             else if alt_state = DISABLING_P then
               Some (ECTX_DESCHEDULE, requeue, chan_wait e chan_ptr data_ptr data_len s)
             else
               (case set_error_flag e EFLAG_CHAN s of (ret, s) \<Rightarrow> Some (ret, requeue, s))
        else
          do { (ret, s) \<leftarrow> dc e data_ptr data_len s; Some (ret, requeue, s) }
      else
        Some (ECTX_DESCHEDULE, requeue, chan_wait e chan_ptr data_ptr data_len s))"

section \<open>Scheduling\<close>

definition chan_std_io :: "WORD \<Rightarrow> WORD \<Rightarrow> WORD \<Rightarrow> WORD \<Rightarrow> io_data \<Rightarrow> io_disconnected \<Rightarrow> tvm \<Rightarrow>
    result" where
  "chan_std_io e chan_ptr data_ptr data_len data dc s = do {
     (ret, requeue, s) \<leftarrow> chan_io e chan_ptr data_ptr data_len data dc (UNDEFINE_STACK e s);
     (let proceed = (\<lambda>s.
            let requeue = requeue AND NOT 1
            in if requeue \<noteq> NOT_PROCESS_P then LOAD_PROCESS_RET e requeue s
               else run_next_on_queue e s)
      in if ret = ECTX_CONTINUE \<and> requeue \<noteq> NOT_PROCESS_P then proceed (DESCHEDULE_CURRENT e s)
         else if 0 < ret then Some (ret, s)
         else if ret = ECTX_BYPASS then Some (ECTX_CONTINUE, s)
         else proceed s)}"

definition chan_in :: "WORD \<Rightarrow> WORD \<Rightarrow> WORD \<Rightarrow> WORD \<Rightarrow> tvm \<Rightarrow> result" where
  "chan_in e num_bytes chan_ptr write_start s =
     chan_std_io e chan_ptr write_start num_bytes channel_input channel_dc_input s"

definition chan_out :: "WORD \<Rightarrow> WORD \<Rightarrow> WORD \<Rightarrow> WORD \<Rightarrow> tvm \<Rightarrow> result" where
  "chan_out e num_bytes chan_ptr read_start s =
     chan_std_io e chan_ptr read_start (- num_bytes) channel_output channel_dc_nop s"

definition chan_swap :: "WORD \<Rightarrow> WORD \<Rightarrow> WORD \<Rightarrow> tvm \<Rightarrow> result" where
  "chan_swap e chan_ptr data_ptr s =
     chan_std_io e chan_ptr data_ptr 0 channel_swap channel_dc_nop s"

section \<open>Instructions\<close>

definition ins_in :: "WORD \<Rightarrow> tvm \<Rightarrow> result" where
  "ins_in e s =
     (let data_ptr = CREG e s; chan_ptr = BREG e s; bytes = AREG e s
      in chan_in e bytes chan_ptr data_ptr s)"

definition ins_out :: "WORD \<Rightarrow> tvm \<Rightarrow> result" where
  "ins_out e s =
     (let data_ptr = CREG e s; chan_ptr = BREG e s; bytes = AREG e s
      in chan_out e bytes chan_ptr data_ptr s)"

definition ins_outbyte :: "WORD \<Rightarrow> tvm \<Rightarrow> result" where
  "ins_outbyte e s =
     (let data_ptr = WPTR e s; chan_ptr = BREG e s; data = ucast (AREG e s)
      in chan_out e 1 chan_ptr data_ptr (put_byte data_ptr data s))"

definition ins_outword :: "WORD \<Rightarrow> tvm \<Rightarrow> result" where
  "ins_outword e s =
     (let data_ptr = WPTR e s; chan_ptr = BREG e s; data = AREG e s
      in chan_out e 4 chan_ptr data_ptr (put_word data_ptr data s))"

section \<open>The first process waits\<close>

lemma clear_low_bit: "w AND 1 = 0 \<Longrightarrow> w AND NOT 1 = (w :: WORD)"
proof -
  assume "w AND 1 = 0"
  moreover have "w = (w AND 1) OR (w AND NOT 1)"
    by (rule bit_word_eqI) (auto simp: bit_simps simp del: and_one_eq)
  ultimately show "w AND NOT 1 = w" by simp
qed

text \<open>What a waiting process leaves in its workspace and in the channel.\<close>

definition waits_in :: "WORD \<Rightarrow> WORD \<Rightarrow> WORD \<Rightarrow> WORD \<Rightarrow> tvm \<Rightarrow> tvm \<Rightarrow> bool" where
  "waits_in e chan ptr len s s' \<longleftrightarrow>
     get_word s' chan = WPTR e s \<and> WORKSPACE_GET s' (WPTR e s) WS_POINTER = ptr \<and>
     WORKSPACE_GET s' (WPTR e s) WS_ECTX = e \<and> WORKSPACE_GET s' (WPTR e s) WS_PENDING = len \<and>
     WORKSPACE_GET s' (WPTR e s) WS_IPTR = IPTR e s"

lemma chan_wait_waits:
  assumes "clear_of {WPTR e s} chan 4"
  shows "waits_in e chan ptr len s (chan_wait e chan ptr len s)"
  using put_word_clear_GET [OF assms, of "WPTR e s"]
  by (simp add: chan_wait_def waits_in_def Let_def)

lemma chan_wait_run_queue:
  assumes "run_queue e s rq" "ws_set A" "WPTR e s \<in> A" "set rq \<subseteq> A" "WPTR e s \<notin> set rq" "clear_of A chan 4"
  shows "run_queue e (chan_wait e chan ptr len s) rq"
proof (rule run_queue_cong [OF assms(1)])
  fix q assume q: "q \<in> set rq"
  then have "q \<noteq> WPTR e s" "q \<in> A" using assms by auto
  then show "WORKSPACE_GET (chan_wait e chan ptr len s) q WS_LINK = WORKSPACE_GET s q WS_LINK"
    by (simp add: chan_wait_def Let_def put_word_clear_GET [OF assms(6)] WORKSPACE_GET_SET [OF assms(2,3)])
qed (simp_all add: chan_wait_def Let_def)

lemma chan_std_io_empty:
  assumes "get_word s chan = 0"
  shows "chan_std_io e chan ptr len data dc s = run_next_on_queue e (chan_wait e chan ptr len s)"
  using assms by (simp add: chan_std_io_def chan_io_def Let_def UNDEFINE_STACK_def)

lemma sflags_chan_wait [simp]: "ectxs (chan_wait e chan ptr len s) = ectxs s"
  by (simp add: chan_wait_def Let_def)

text \<open>Input or output on an empty channel. The process stores its instruction pointer, its
  context, its buffer and its length (negative for output) in its workspace, leaves its workspace
  in the channel word, and the front of the run queue runs next.\<close>

lemma chan_first_waits:
  assumes "run_queue e s (p # rq)" "ws_set (insert (WPTR e s) (set (p # rq)))" "WPTR e s \<notin> set (p # rq)"
    and "get_word s (BREG e s) = 0" "clear_of (insert (WPTR e s) (set (p # rq))) (BREG e s) 4"
    and "sflags (ectxs s e) = 0"
  shows "(\<exists>s'. ins_in e s = Some (ECTX_CONTINUE, s') \<and> waits_in e (BREG e s) (CREG e s) (AREG e s) s s' \<and>
      WPTR e s' = p \<and> IPTR e s' = WORKSPACE_GET s p WS_IPTR \<and> run_queue e s' rq) \<and>
    (\<exists>s'. ins_out e s = Some (ECTX_CONTINUE, s') \<and> waits_in e (BREG e s) (CREG e s) (- AREG e s) s s' \<and>
      WPTR e s' = p \<and> IPTR e s' = WORKSPACE_GET s p WS_IPTR \<and> run_queue e s' rq)"
proof -
  let ?A = "insert (WPTR e s) (set (p # rq))"
  have "\<exists>s'. run_next_on_queue e (chan_wait e (BREG e s) ptr len s) = Some (ECTX_CONTINUE, s') \<and>
      waits_in e (BREG e s) ptr len s s' \<and>
      WPTR e s' = p \<and> IPTR e s' = WORKSPACE_GET s p WS_IPTR \<and> run_queue e s' rq" for ptr len
  proof -
    let ?s = "chan_wait e (BREG e s) ptr len s"
    have "run_queue e ?s (p # rq)"
      using assms by (intro chan_wait_run_queue [of _ _ _ ?A]) auto
    moreover have "WORKSPACE_GET ?s p WS_IPTR = WORKSPACE_GET s p WS_IPTR"
      using assms by (simp add: chan_wait_def Let_def put_word_clear_GET [OF assms(5)]
          WORKSPACE_GET_SET [OF assms(2)])
    moreover have "waits_in e (BREG e s) ptr len s ?s"
      using assms(5) by (intro chan_wait_waits) (auto elim: clear_of_mono)
    ultimately show ?thesis
      using run_next_of_queue [of e ?s p rq] assms(6) by (auto simp: waits_in_def WORKSPACE_GET_def)
  qed
  then show ?thesis
    by (simp add: ins_in_def ins_out_def chan_in_def chan_out_def chan_std_io_empty [OF assms(4)])
qed

section \<open>The second process communicates\<close>

lemma chan_std_io_ready:
  assumes "get_word s chan = w" "w \<noteq> 0" "w AND 1 = 0"
    and "data e ptr len w (put_word chan NOT_PROCESS_P s) = Some (ECTX_CONTINUE, s2)"
  shows "chan_std_io e chan ptr len data dc s = LOAD_PROCESS_RET e w (DESCHEDULE_CURRENT e s2)"
  using assms clear_low_bit [OF assms(3)]
  by (simp add: chan_std_io_def chan_io_def Let_def UNDEFINE_STACK_def del: and_one_eq)

text \<open>
  The conditions of a communication: the process \<open>w\<close> waits in the channel, and neither the
  channel word nor the message overlap the slots of a process concerned.
\<close>

definition can_communicate :: "WORD \<Rightarrow> tvm \<Rightarrow> WORD list \<Rightarrow> WORD \<Rightarrow> WORD \<Rightarrow> WORD \<Rightarrow> WORD \<Rightarrow> WORD \<Rightarrow> bool" where
  "can_communicate e s rq w chan dst src len \<longleftrightarrow>
     run_queue e s rq \<and> ws_set (insert w (insert (WPTR e s) (set rq))) \<and>
     WPTR e s \<notin> set rq \<and> w \<noteq> WPTR e s \<and> WORKSPACE_GET s w WS_ECTX = e \<and> w AND 1 = 0 \<and>
     get_word s chan = w \<and> clear_of (insert w (insert (WPTR e s) (set rq))) chan 4 \<and>
     clear_of (insert w (insert (WPTR e s) (set rq))) dst len \<and> disjoint_blocks dst len chan 4 \<and>
     disjoint_blocks chan 4 src len \<and> apart len dst src"

definition communicated :: "WORD \<Rightarrow> tvm \<Rightarrow> WORD list \<Rightarrow> WORD \<Rightarrow> WORD \<Rightarrow> WORD \<Rightarrow> WORD \<Rightarrow> WORD \<Rightarrow> result \<Rightarrow> bool" where
  "communicated e s rq w chan dst src len r \<longleftrightarrow>
     (\<exists>s'. r = Some (ECTX_CONTINUE, s') \<and> WPTR e s' = w \<and> IPTR e s' = WORKSPACE_GET s w WS_IPTR \<and>
       run_queue e s' (rq @ [WPTR e s]) \<and> WORKSPACE_GET s' (WPTR e s) WS_IPTR = IPTR e s \<and>
       get_word s' chan = NOT_PROCESS_P \<and> (\<forall>i < len. mem s' (dst + i) = mem s (src + i)))"

lemma memcpy_native:
  assumes "apart n dst src"
  shows "i < n \<Longrightarrow> snd (tvm_memcpy native_ops dst src n m) (dst + i) = m (src + i)"
    "n \<le> x - dst \<Longrightarrow> snd (tvm_memcpy native_ops dst src n m) x = m x"
  using native.memcpy_inside [OF assms, of i m] native.memcpy_outside [OF assms, of x m]
  by (simp_all add: native_ops_def read_byte_def)

lemma communication:
  assumes "can_communicate e s rq w chan dst src len"
  shows "communicated e s rq w chan dst src len
    (LOAD_PROCESS_RET e w (DESCHEDULE_CURRENT e
      ((put_word chan NOT_PROCESS_P s)\<lparr>mem := snd (tvm_memcpy native_ops dst src len
         (mem (put_word chan NOT_PROCESS_P s)))\<rparr>)))"
proof -
  let ?A = "insert w (insert (WPTR e s) (set rq))"
  let ?s1 = "put_word chan NOT_PROCESS_P s"
  define s2 where "s2 = ?s1\<lparr>mem := snd (tvm_memcpy native_ops dst src len (mem ?s1))\<rparr>"
  note c = assms [unfolded can_communicate_def]
  have regs: "ectxs s2 = ectxs s" by (simp add: s2_def)
  have same: "mem s2 x = mem s x" if "4 \<le> x - chan" "len \<le> x - dst" for x
    using memcpy_native(2) [of len dst src x "mem ?s1"] c that
    by (simp add: s2_def write_word_outside)
  have slots: "WORKSPACE_GET s2 q k = WORKSPACE_GET s q k" if "q \<in> ?A" "k \<le> 6" for q k
  proof (rule WORKSPACE_GET_cong)
    fix x assume x: "\<not> outside {q} x"
    have "4 \<le> x - chan" if "clear_of ?A chan 4"
      using clear_of_outside [OF that, of "x - chan"] outside_mono [of ?A x "{q}"] x \<open>q \<in> ?A\<close>
      by (auto simp: not_le [symmetric])
    moreover have "len \<le> x - dst" if "clear_of ?A dst len"
      using clear_of_outside [OF that, of "x - dst"] outside_mono [of ?A x "{q}"] x \<open>q \<in> ?A\<close>
      by (auto simp: not_le [symmetric])
    ultimately show "mem s2 x = mem s x" using c by (intro same) auto
  qed fact
  have "run_queue e s2 rq"
  proof (rule run_queue_cong)
    show "run_queue e s rq" using c by blast
    show "WORKSPACE_GET s2 q WS_LINK = WORKSPACE_GET s q WS_LINK" if "q \<in> set rq" for q
      using that by (intro slots) auto
  qed (simp_all add: regs)
  then obtain s' where s': "LOAD_PROCESS_RET e w (DESCHEDULE_CURRENT e s2) = Some (ECTX_CONTINUE, s')"
    "WPTR e s' = w" "IPTR e s' = WORKSPACE_GET s2 w WS_IPTR" "run_queue e s' (rq @ [WPTR e s])"
    "WORKSPACE_GET s' (WPTR e s) WS_IPTR = IPTR e s"
    "\<forall>x. outside (insert (WPTR e s) (set rq)) x \<longrightarrow> mem s' x = mem s2 x"
    using deschedule_load [of e s2 rq w] c slots [of w WS_ECTX] by (auto simp: regs)
  have "mem s' (dst + i) = mem s (src + i)" if "i < len" for i
  proof -
    have "outside (insert (WPTR e s) (set rq)) (dst + i)"
      using c that by (intro outside_mono [OF clear_of_outside [of ?A dst len]]) auto
    then have "mem s' (dst + i) = mem s2 (dst + i)" using s'(6) by blast
    also have "\<dots> = mem ?s1 (src + i)"
      using memcpy_native(1) [of len dst src i] c that by (simp add: s2_def)
    also have "\<dots> = mem s (src + i)"
      using disjoint_blocks_outside [of chan 4 src len i] c that by (simp add: write_word_outside)
    finally show ?thesis .
  qed
  moreover have "get_word s' chan = NOT_PROCESS_P"
  proof -
    have "get_word s' chan = get_word ?s1 chan"
    proof (rule get_word_cong)
      fix i :: WORD assume i: "i < 4"
      have "outside (insert (WPTR e s) (set rq)) (chan + i)"
        using c i by (intro outside_mono [OF clear_of_outside [of ?A chan 4]]) auto
      then have "mem s' (chan + i) = mem s2 (chan + i)" using s'(6) by blast
      also have "\<dots> = mem ?s1 (chan + i)"
        using memcpy_native(2) [of len dst src "chan + i"] c i
          disjoint_blocks_outside [of dst len chan 4 i] by (simp add: s2_def)
      finally show "mem s' (chan + i) = mem ?s1 (chan + i)" .
    qed
    then show ?thesis by simp
  qed
  ultimately show ?thesis
    using s' slots [of w WS_IPTR] unfolding communicated_def s2_def [symmetric] by auto
qed

text \<open>C14: output to a process that waits for input on the channel. The message is copied from
  the buffer of the outputting process to that of the waiting one, the channel is empty again, the
  outputting process goes to the back of the run queue and the waiting one runs.\<close>

theorem ins_out_communicates:
  assumes "can_communicate e s rq w (BREG e s) dst (CREG e s) (AREG e s)"
    and "WORKSPACE_GET s w WS_POINTER = dst"
  shows "communicated e s rq w (BREG e s) dst (CREG e s) (AREG e s) (ins_out e s)"
proof -
  have "WORKSPACE_GET (put_word (BREG e s) NOT_PROCESS_P s) w WS_POINTER = dst"
    using assms by (subst put_word_clear_GET) (auto simp: can_communicate_def)
  then show ?thesis
    using assms communication [OF assms(1)] unfolding ins_out_def Let_def chan_out_def
    by (subst chan_std_io_ready) (auto simp: can_communicate_def channel_output_def ws_set_def)
qed

text \<open>C15: input from a process that waits to output, the other way round.\<close>

theorem ins_in_communicates:
  assumes "can_communicate e s rq w (BREG e s) (CREG e s) src (AREG e s)"
    and "WORKSPACE_GET s w WS_POINTER = src"
  shows "communicated e s rq w (BREG e s) (CREG e s) src (AREG e s) (ins_in e s)"
proof -
  have "WORKSPACE_GET (put_word (BREG e s) NOT_PROCESS_P s) w WS_POINTER = src"
    using assms by (subst put_word_clear_GET) (auto simp: can_communicate_def)
  then show ?thesis
    using assms communication [OF assms(1)] unfolding ins_in_def Let_def chan_in_def
    by (subst chan_std_io_ready) (auto simp: can_communicate_def channel_input_def ws_set_def)
qed

section \<open>Examples\<close>

text \<open>
  Two processes at 4096 and 8192 and a channel at 100. In the first state the process at 4096 runs
  and the other one is on the run queue; in the second the process at 8192 waits in the channel, to
  input to 512 or to output from there.
\<close>

lemmas example_defs = ws_set_def ws_list_def apart_def clear_of_def disjoint_blocks_def run_queue_def

definition regs_of_example :: "WORD \<Rightarrow> WORD \<Rightarrow> WORD \<Rightarrow> tvm \<Rightarrow> tvm" where
  "regs_of_example a b c = upd_ectx 1 (\<lambda>x. x\<lparr>wptr := 4096, areg := a, breg := b, creg := c\<rparr>)"

definition first_example :: tvm where
  "first_example = set_BPTR 1 8192 (set_FPTR 1 8192 (regs_of_example 4 100 200 blank))"

definition second_example :: tvm where
  "second_example = regs_of_example 4 100 200
     (WORKSPACE_SET 8192 WS_POINTER 512 (WORKSPACE_SET 8192 WS_ECTX 1 (put_word 100 8192 blank)))"

lemma second_example_slots:
  "get_word second_example 100 = 8192" "WORKSPACE_GET second_example 8192 WS_ECTX = 1"
  "WORKSPACE_GET second_example 8192 WS_POINTER = 512" "WPTR 1 second_example = 4096"
  "AREG 1 second_example = 4" "BREG 1 second_example = 100" "CREG 1 second_example = 200"
  "FPTR 1 second_example = 0"
  by (simp_all add: second_example_def regs_of_example_def WORKSPACE_GET_def WORKSPACE_SET_def put_word_def
      read_write_word_other apart_def wordptr_minus_def)

lemma chan_first_waits_witness:
  "\<exists>s'. ins_in 1 first_example = Some (ECTX_CONTINUE, s') \<and> WPTR 1 s' = 8192 \<and> run_queue 1 s' []"
  using chan_first_waits [of 1 first_example 8192 "[]"]
  by (auto simp: first_example_def regs_of_example_def example_defs)

theorem ins_out_communicates_witness:
  "communicated 1 second_example [] 8192 100 512 200 4 (ins_out 1 second_example)"
  using ins_out_communicates [of 1 second_example "[]" 8192 512]
  by (simp add: can_communicate_def example_defs second_example_slots)

theorem ins_in_communicates_witness:
  "communicated 1 second_example [] 8192 100 200 512 4 (ins_in 1 second_example)"
  using ins_in_communicates [of 1 second_example "[]" 8192 512]
  by (simp add: can_communicate_def example_defs second_example_slots)

end
