(* ===== verification/Tvm_Alt.thy ===== *)
theory Tvm_Alt
  imports Tvm_Channel
begin

text \<open>
  Alternation, \<^verbatim>\<open>ins_alt.c\<close>, and the timer instructions, \<^verbatim>\<open>ins_timer.c\<close>. An alternating
  process enables its guards, waits, and disables them again; slot \<open>WS_STATE\<close> says where it is
  (\<open>ENABLING_P\<close>, \<open>WAITING_P\<close>, \<open>READY_P\<close>) and slot \<open>WS_TEMP\<close> holds the branch selected while
  disabling.
\<close>

section \<open>Alternation\<close>

definition ins_dist :: "WORD \<Rightarrow> tvm \<Rightarrow> result" where
  "ins_dist e s =
     (let process = AREG e s; guard = BREG e s; timeout = CREG e s in
      if guard \<noteq> 0 then
        let tlink = WORKSPACE_GET s (WPTR e s) WS_TLINK in
        if tlink = TIME_SET_P then
          let time = WORKSPACE_GET s (WPTR e s) WS_TIME in
          if \<not> TIME_AFTER timeout time then
            let selection = WORKSPACE_GET s (WPTR e s) WS_TEMP in
            if selection = NONE_SELECTED_O
            then STACK1_RET e 1 (WORKSPACE_SET (WPTR e s) WS_TEMP process s)
            else STACK1_RET e 0 s
          else STACK1_RET e 0 s
        else if tlink \<noteq> TIME_NOT_SET_P then do {
          s \<leftarrow> timer_queue_remove e (WPTR e s) s;
          STACK1_RET e 0 s
        }
        else STACK1_RET e 0 s
      else STACK1_RET e 0 s)"

definition ins_disc :: "WORD \<Rightarrow> tvm \<Rightarrow> result" where
  "ins_disc e s =
     (let chan_ptr = CREG e s; guard = BREG e s; process = AREG e s in
      if guard \<noteq> 0 then
        let chan_proc = get_word s chan_ptr in
        if chan_proc = WPTR e s OR 1 then STACK1_RET e 0 (put_word chan_ptr NOT_PROCESS_P s)
        else if chan_proc \<noteq> NOT_PROCESS_P then
          let selection = WORKSPACE_GET s (WPTR e s) WS_TEMP in
          if selection = NONE_SELECTED_O
          then STACK1_RET e 1 (WORKSPACE_SET (WPTR e s) WS_TEMP process s)
          else STACK1_RET e 0 s
        else STACK1_RET e 0 s
      else STACK1_RET e 0 s)"

definition ins_diss :: "WORD \<Rightarrow> tvm \<Rightarrow> result" where
  "ins_diss e s =
     (let guard = BREG e s; process = AREG e s; cr = CREG e s in
      if guard \<noteq> 0 then
        let selection = WORKSPACE_GET s (WPTR e s) WS_TEMP in
        if selection = NONE_SELECTED_O
        then STACK2_RET e 1 cr (WORKSPACE_SET (WPTR e s) WS_TEMP process s)
        else STACK2_RET e 0 cr s
      else STACK2_RET e 0 cr s)"

definition ins_alt :: "WORD \<Rightarrow> tvm \<Rightarrow> result" where
  "ins_alt e s = continue (WORKSPACE_SET (WPTR e s) WS_STATE ENABLING_P s)"

definition ins_altwt :: "WORD \<Rightarrow> tvm \<Rightarrow> result" where
  "ins_altwt e s =
     (let s = WORKSPACE_SET (WPTR e s) WS_TEMP NONE_SELECTED_O s in
      if WORKSPACE_GET s (WPTR e s) WS_STATE = READY_P then UNDEFINE_STACK_RET e s
      else
        let s = WORKSPACE_SET (WPTR e s) WS_STATE WAITING_P s;
            s = WORKSPACE_SET (WPTR e s) WS_ECTX e s;
            s = WORKSPACE_SET (WPTR e s) WS_IPTR (IPTR e s) s
        in run_next_on_queue e s)"

definition ins_altend :: "WORD \<Rightarrow> tvm \<Rightarrow> result" where
  "ins_altend e s =
     (let selection = WORKSPACE_GET s (WPTR e s) WS_TEMP in
      if selection \<noteq> NONE_SELECTED_O
      then continue (set_IPTR e (byteptr_plus (IPTR e s) selection) s)
      else SET_ERROR_FLAG_RET e EFLAG_ALT s)"

definition ins_enbt :: "WORD \<Rightarrow> tvm \<Rightarrow> result" where
  "ins_enbt e s =
     (let guard = AREG e s; timeout = BREG e s;
          s = (if guard \<noteq> 0 then
                 if WORKSPACE_GET s (WPTR e s) WS_TLINK = TIME_NOT_SET_P then
                   WORKSPACE_SET (WPTR e s) WS_TIME timeout
                     (WORKSPACE_SET (WPTR e s) WS_TLINK TIME_SET_P s)
                 else if TIME_AFTER (WORKSPACE_GET s (WPTR e s) WS_TIME) timeout then
                   WORKSPACE_SET (WPTR e s) WS_TIME timeout s
                 else s
               else s)
      in STACK2_RET e guard (CREG e s) s)"

definition ins_enbc :: "WORD \<Rightarrow> tvm \<Rightarrow> result" where
  "ins_enbc e s =
     (let chan_ptr = BREG e s; guard = AREG e s;
          s = (if guard \<noteq> 0 then
                 let chan_value = get_word s chan_ptr; this_ws = WPTR e s OR 1 in
                 if chan_value = NOT_PROCESS_P then put_word chan_ptr this_ws s
                 else if chan_value \<noteq> this_ws then WORKSPACE_SET (WPTR e s) WS_STATE READY_P s
                 else s
               else s)
      in STACK2_RET e guard (CREG e s) s)"

definition ins_enbs :: "WORD \<Rightarrow> tvm \<Rightarrow> result" where
  "ins_enbs e s =
     (let guard = AREG e s
      in continue (if guard \<noteq> 0 then WORKSPACE_SET (WPTR e s) WS_STATE READY_P s else s))"

definition ins_talt :: "WORD \<Rightarrow> tvm \<Rightarrow> result" where
  "ins_talt e s =
     continue (WORKSPACE_SET (WPTR e s) WS_TLINK TIME_NOT_SET_P
       (WORKSPACE_SET (WPTR e s) WS_STATE ENABLING_P s))"

text \<open>The end of \<^verbatim>\<open>ins_taltwt\<close>, reached when no timeout has passed.\<close>

definition taltwt_wait :: "WORD \<Rightarrow> tvm \<Rightarrow> result" where
  "taltwt_wait e s =
     (let s = WORKSPACE_SET (WPTR e s) WS_STATE WAITING_P s;
          s = WORKSPACE_SET (WPTR e s) WS_ECTX e s;
          s = WORKSPACE_SET (WPTR e s) WS_IPTR (IPTR e s) s
      in run_next_on_queue e s)"

definition ins_taltwt :: "WORD \<Rightarrow> tvm \<Rightarrow> result" where
  "ins_taltwt e s =
     (let (now, s) = get_time e s;
          s = WORKSPACE_SET (WPTR e s) WS_TEMP NONE_SELECTED_O s
      in
      if WORKSPACE_GET s (WPTR e s) WS_STATE = READY_P then
        UNDEFINE_STACK_RET e (WORKSPACE_SET (WPTR e s) WS_TIME now s)
      else if WORKSPACE_GET s (WPTR e s) WS_TLINK \<noteq> TIME_NOT_SET_P then
        let timeout = WORKSPACE_GET s (WPTR e s) WS_TIME in
        if TIME_AFTER now timeout then
          let s = WORKSPACE_SET (WPTR e s) WS_STATE READY_P s;
              s = WORKSPACE_SET (WPTR e s) WS_TIME now s
          in UNDEFINE_STACK_RET e s
        else
          let timeout = timeout + 1;
              s = WORKSPACE_SET (WPTR e s) WS_TIME timeout s
          in do {
            s \<leftarrow> timer_queue_insert e (WPTR e s) now timeout s;
            taltwt_wait e s
          }
      else taltwt_wait e s)"

section \<open>Timers\<close>

definition ins_ldtimer :: "WORD \<Rightarrow> tvm \<Rightarrow> result" where
  "ins_ldtimer e s =
     (let (now, s) = get_time e s in STACK_RET e now (AREG e s) (BREG e s) s)"

definition ins_tin :: "WORD \<Rightarrow> tvm \<Rightarrow> result" where
  "ins_tin e s =
     (let (current_time, s) = get_time e s; reschedule_time = AREG e s in
      if TIME_AFTER current_time reschedule_time then UNDEFINE_STACK_RET e s
      else
        let s = WORKSPACE_SET (WPTR e s) WS_TIME reschedule_time s;
            s = WORKSPACE_SET (WPTR e s) WS_IPTR (IPTR e s) s
        in do {
          s \<leftarrow> timer_queue_insert e (WPTR e s) current_time reschedule_time s;
          let s = WORKSPACE_SET (WPTR e s) WS_STATE NOT_PROCESS_P s;
          run_next_on_queue e s
        })"

section \<open>Output to an alternating process\<close>

lemma low_bit_word:
  assumes "w AND 1 = (0 :: WORD)"
  shows "(w OR 1) AND NOT 1 = w" "(w OR 1) AND 1 = 1" "w OR 1 \<noteq> 0"
proof -
  have "(w OR 1) AND NOT 1 = w AND NOT 1" by (rule bit_word_eqI) (auto simp: bit_simps)
  then show "(w OR 1) AND NOT 1 = w" using clear_low_bit [OF assms] by simp
  have "bit (w OR 1) 0" by (simp add: bit_simps)
  then show "w OR 1 \<noteq> 0" by (auto simp del: bit_or_iff)
  show "(w OR 1) AND 1 = 1" by (rule bit_word_eqI) (auto simp: bit_simps)
qed

text \<open>
  An alternating process \<open>w\<close> has left its workspace, with the low bit set, in a channel it
  enabled. \<open>alt_partner\<close> collects what a process that comes to communicate relies on.
\<close>

definition alt_partner :: "WORD \<Rightarrow> tvm \<Rightarrow> WORD list \<Rightarrow> WORD \<Rightarrow> WORD \<Rightarrow> bool" where
  "alt_partner e s rq w chan \<longleftrightarrow>
     run_queue e s rq \<and> ws_set (insert w (insert (WPTR e s) (set rq))) \<and>
     WPTR e s \<notin> set rq \<and> w \<noteq> WPTR e s \<and> w \<notin> set rq \<and> w AND 1 = 0 \<and>
     get_word s chan = w OR 1 \<and> clear_of (insert w (insert (WPTR e s) (set rq))) chan 4"

lemma alt_partner_wait:
  fixes ptr len v :: WORD
  assumes "alt_partner e s rq w chan"
  defines "s' \<equiv> chan_wait e chan ptr len (WORKSPACE_SET w WS_STATE v s)"
  shows "waits_in e chan ptr len s s'" "run_queue e s' rq" "WORKSPACE_GET s' w WS_STATE = v"
    "k \<le> 6 \<Longrightarrow> k \<noteq> WS_STATE \<Longrightarrow> WORKSPACE_GET s' w k = WORKSPACE_GET s w k"
    "q \<in> set rq \<Longrightarrow> k \<le> 6 \<Longrightarrow> WORKSPACE_GET s' q k = WORKSPACE_GET s q k"
proof -
  let ?A = "insert w (insert (WPTR e s) (set rq))" and ?s = "WORKSPACE_SET w WS_STATE v s"
  note a = assms(1) [unfolded alt_partner_def]
  have A: "ws_set ?A" and c: "clear_of ?A chan 4" and ne: "WPTR e s \<noteq> w" "w \<noteq> WPTR e s" using a by blast+
  note G = WORKSPACE_GET_SET [OF A] put_word_clear_GET [OF c]
  have "clear_of {WPTR e ?s} chan 4" using c by (auto elim: clear_of_mono)
  then have "waits_in e chan ptr len ?s s'" unfolding s'_def by (rule chan_wait_waits)
  then show "waits_in e chan ptr len s s'" by (simp add: waits_in_def)
  have rest: "WORKSPACE_GET s' q k = WORKSPACE_GET s q k" if "q \<in> set rq" "k \<le> 6" for q k
  proof -
    have "q \<noteq> w" "q \<noteq> WPTR e s" "q \<in> ?A" using that(1) a by auto
    then show ?thesis using that(2) by (simp add: s'_def chan_wait_def Let_def G)
  qed
  then show "q \<in> set rq \<Longrightarrow> k \<le> 6 \<Longrightarrow> WORKSPACE_GET s' q k = WORKSPACE_GET s q k" .
  show "run_queue e s' rq"
  proof (rule run_queue_cong)
    show "run_queue e s rq" using a by blast
    show "WORKSPACE_GET s' q WS_LINK = WORKSPACE_GET s q WS_LINK" if "q \<in> set rq" for q
      using that by (rule rest) simp
  qed (simp_all add: s'_def)
  show "WORKSPACE_GET s' w WS_STATE = v" "k \<le> 6 \<Longrightarrow> k \<noteq> WS_STATE \<Longrightarrow> WORKSPACE_GET s' w k = WORKSPACE_GET s w k"
    using ne by (simp_all add: s'_def chan_wait_def Let_def G)
qed

text \<open>C17: communication with a process that waits in an alternation, or is still enabling its
  guards. The channel passes to the process that came, which waits in it with its buffer and
  length; the alternation is marked ready. If it was waiting it runs at once, with its saved
  instruction pointer; if it was enabling it is running already, in another context, and
  the next process of the run queue runs.\<close>

theorem alt_is_woken:
  assumes "alt_partner e s (p # rq) w (BREG e s)" "sflags (ectxs s e) = 0"
    and "WORKSPACE_GET s w WS_STATE = WAITING_P \<and> WORKSPACE_GET s w WS_ECTX = e \<or>
      WORKSPACE_GET s w WS_STATE = ENABLING_P"
  shows "\<exists>s'. ins_out e s = Some (ECTX_CONTINUE, s') \<and>
    waits_in e (BREG e s) (CREG e s) (- AREG e s) s s' \<and> WORKSPACE_GET s' w WS_STATE = READY_P \<and>
    (if WORKSPACE_GET s w WS_STATE = WAITING_P
     then WPTR e s' = w \<and> IPTR e s' = WORKSPACE_GET s w WS_IPTR \<and> run_queue e s' (p # rq)
     else WPTR e s' = p \<and> IPTR e s' = WORKSPACE_GET s p WS_IPTR \<and> run_queue e s' rq)"
proof -
  let ?s = "chan_wait e (BREG e s) (CREG e s) (- AREG e s) (WORKSPACE_SET w WS_STATE READY_P s)"
  note a = assms(1) [unfolded alt_partner_def]
  note w = low_bit_word [of w]
  note r = alt_partner_wait [OF assms(1), where ptr = "CREG e s" and len = "- AREG e s" and v = READY_P]
  have ch: "get_word s (BREG e s) = w OR 1" "w \<noteq> 0" "w AND 1 = 0" using a by (auto simp: ws_set_def)
  show ?thesis
  proof (cases "WORKSPACE_GET s w WS_STATE = WAITING_P")
    case True
    then have "ins_out e s = LOAD_PROCESS_RET e w ?s"
      using ch w by (simp add: ins_out_def chan_out_def chan_std_io_def chan_io_def Let_def UNDEFINE_STACK_def
          del: and_one_eq)
    also have "\<dots> = Some (ECTX_CONTINUE, set_IPTR e (WORKSPACE_GET s w WS_IPTR) (set_WPTR e w ?s))"
      using r(4) [where k = WS_ECTX] r(4) [where k = WS_IPTR] assms(3) True by (simp add: LOAD_PROCESS_RET_def)
    finally show ?thesis
      using r True by (simp add: waits_in_def run_queue_upd_ectx)
  next
    case False
    then have "ins_out e s = run_next_on_queue e ?s"
      using assms(3) ch w
      by (simp add: ins_out_def chan_out_def chan_std_io_def chan_io_def Let_def UNDEFINE_STACK_def
          del: and_one_eq)
    moreover have "sflags (ectxs ?s e) = 0" using assms(2) by simp
    ultimately show ?thesis
      using run_next_of_queue [OF r(2)] r False by (auto simp: waits_in_def WORKSPACE_GET_def)
  qed
qed

section \<open>A whole alternation over channels\<close>

text \<open>
  What a compiled alternation runs: \<^verbatim>\<open>alt\<close>, one \<^verbatim>\<open>enbc\<close> for each guard, \<^verbatim>\<open>altwt\<close>,
  one \<^verbatim>\<open>disc\<close> for each guard, \<^verbatim>\<open>altend\<close>. A guard is a channel, a condition and the offset
  of its branch; the instructions that load them are summed up in \<open>load\<close>.
\<close>

definition load :: "WORD \<Rightarrow> WORD \<Rightarrow> WORD \<Rightarrow> WORD \<Rightarrow> tvm \<Rightarrow> tvm" where
  "load e a b c = upd_ectx e (\<lambda>x. x\<lparr>areg := a, breg := b, creg := c\<rparr>)"

fun enable_all :: "WORD \<Rightarrow> (WORD \<times> WORD \<times> WORD) list \<Rightarrow> tvm \<Rightarrow> result" where
  "enable_all e [] s = continue s"
| "enable_all e ((chan, guard, process) # gs) s =
     then_ins (ins_enbc e (load e guard chan (CREG e s) s)) (enable_all e gs)"

fun disable_all :: "WORD \<Rightarrow> (WORD \<times> WORD \<times> WORD) list \<Rightarrow> tvm \<Rightarrow> result" where
  "disable_all e [] s = continue s"
| "disable_all e ((chan, guard, process) # gs) s =
     then_ins (ins_disc e (load e process guard chan s)) (disable_all e gs)"

definition alternation :: "WORD \<Rightarrow> (WORD \<times> WORD \<times> WORD) list \<Rightarrow> tvm \<Rightarrow> result" where
  "alternation e gs s =
     then_ins (ins_alt e s) (\<lambda>s. then_ins (enable_all e gs s) (\<lambda>s. then_ins (ins_altwt e s)
       (\<lambda>s. then_ins (disable_all e gs s) (ins_altend e))))"

text \<open>Nobody waits in a channel word that is empty or holds the alternation's own mark.\<close>

definition idle :: "WORD \<Rightarrow> WORD \<Rightarrow> bool" where
  "idle w v \<longleftrightarrow> v = NOT_PROCESS_P \<or> v = w OR 1"

definition guard_ready :: "WORD \<Rightarrow> tvm \<Rightarrow> WORD \<times> WORD \<times> WORD \<Rightarrow> bool" where
  "guard_ready e s = (\<lambda>(chan, guard, process). guard \<noteq> 0 \<and> \<not> idle (WPTR e s) (get_word s chan))"

definition guards_ok :: "WORD \<Rightarrow> (WORD \<times> WORD \<times> WORD) list \<Rightarrow> bool" where
  "guards_ok w gs \<longleftrightarrow> (\<forall>(c, _, p) \<in> set gs. clear_of {w} c 4 \<and> p \<noteq> NONE_SELECTED_O \<and>
     (\<forall>(c', _) \<in> set gs. c = c' \<or> apart 4 c c'))"

text \<open>A channel keeps the process that waits in it, and an idle one stays idle; disabling only ever
  empties a channel.\<close>

definition kept :: "WORD \<Rightarrow> WORD \<Rightarrow> WORD \<Rightarrow> bool" where
  "kept w v v' \<longleftrightarrow> (if idle w v then idle w v' else v' = v)"

definition only_emptied :: "(WORD \<times> WORD \<times> WORD) list \<Rightarrow> tvm \<Rightarrow> tvm \<Rightarrow> bool" where
  "only_emptied gs s s' \<longleftrightarrow> (\<forall>(c, _) \<in> set gs. get_word s' c = get_word s c \<or> get_word s' c = NOT_PROCESS_P)"

definition same_guards :: "WORD \<Rightarrow> (WORD \<times> WORD \<times> WORD) list \<Rightarrow> tvm \<Rightarrow> tvm \<Rightarrow> bool" where
  "same_guards e gs s s' \<longleftrightarrow> WPTR e s' = WPTR e s \<and> IPTR e s' = IPTR e s \<and>
     (\<forall>(c, _) \<in> set gs. kept (WPTR e s) (get_word s c) (get_word s' c))"

lemma kept_refl [simp]: "kept w v v"
  by (simp add: kept_def)

lemma kept_trans: "kept w a b \<Longrightarrow> kept w b c \<Longrightarrow> kept w a c"
  by (auto simp: kept_def split: if_splits)

lemma kept_idle: "kept w v v' \<Longrightarrow> idle w v' = idle w v"
  by (auto simp: kept_def split: if_splits)

lemma same_guards_refl [simp]: "same_guards e gs s s"
  by (simp add: same_guards_def split_beta)

lemma only_emptied_refl [simp]: "only_emptied gs s s"
  by (simp add: only_emptied_def split_beta)

lemma only_emptied_trans: "only_emptied gs s s' \<Longrightarrow> only_emptied gs s' s'' \<Longrightarrow> only_emptied gs s s''"
  by (fastforce simp: only_emptied_def)

lemma same_guards_trans: "same_guards e gs s s' \<Longrightarrow> same_guards e gs s' s'' \<Longrightarrow> same_guards e gs s s''"
  by (fastforce simp: same_guards_def intro: kept_trans)

lemma same_guards_ready: "same_guards e gs s s' \<Longrightarrow> g \<in> set gs \<Longrightarrow> guard_ready e s' g = guard_ready e s g"
  by (fastforce simp: same_guards_def guard_ready_def dest: kept_idle)

lemma same_guards_load [simp]: "same_guards e gs s (load e a b c s)"
  by (simp add: same_guards_def load_def split_beta)

lemma load_simps [simp]:
  "AREG e (load e a b c s) = a" "BREG e (load e a b c s) = b" "CREG e (load e a b c s) = c"
  "WPTR e (load e a b c s) = WPTR e s" "IPTR e (load e a b c s) = IPTR e s" "mem (load e a b c s) = mem s"
  "sflags (ectxs (load e a b c s) e) = sflags (ectxs s e)"
  "WORKSPACE_GET (load e a b c s) p k = WORKSPACE_GET s p k"
  by (simp_all add: load_def)

text \<open>Writes to the process's own slots, and to a channel that is idle before and after.\<close>

lemma same_guards_slot:
  assumes "guards_ok (WPTR e s) gs" "k \<le> 6"
  shows "same_guards e gs s (WORKSPACE_SET (WPTR e s) k v s)"
  using assms by (auto simp: same_guards_def guards_ok_def WORKSPACE_SET_clear_word)

lemma same_guards_chan:
  assumes "guards_ok (WPTR e s) gs" "(c, g, p) \<in> set gs" "idle (WPTR e s) (get_word s c)" "idle (WPTR e s) v"
  shows "same_guards e gs s (put_word c v s)"
proof -
  have "kept (WPTR e s) (get_word s c') (get_word (put_word c v s) c')"
    if "(c', x) \<in> set gs" for c' x
    using assms that by (cases "c = c'") (fastforce simp: kept_def guards_ok_def read_write_word_other)+
  then show ?thesis by (auto simp: same_guards_def)
qed

lemma chan_clear:
  assumes "guards_ok w gs" "(c, g, p) \<in> set gs"
  shows "clear_of {w} c 4" "p \<noteq> NONE_SELECTED_O"
  using assms by (auto simp: guards_ok_def)

lemma same_guards_regs:
  "same_guards e gs s s' \<Longrightarrow> same_guards e gs s (upd_ectx e (\<lambda>x. x\<lparr>areg := a, breg := b\<rparr>) s')"
  "same_guards e gs s s' \<Longrightarrow> same_guards e gs s (upd_ectx e (\<lambda>x. x\<lparr>areg := a\<rparr>) s')"
  by (simp_all add: same_guards_def)

lemma enbc_step:
  assumes ok: "guards_ok (WPTR e s) gs" and g: "(c, g, p) \<in> set gs"
  shows "\<exists>s'. ins_enbc e (load e g c x s) = Some (ECTX_CONTINUE, s') \<and> same_guards e gs s s' \<and>
    WORKSPACE_GET s' (WPTR e s) WS_STATE =
      (if guard_ready e s (c, g, p) then READY_P else WORKSPACE_GET s (WPTR e s) WS_STATE)"
proof -
  let ?w = "WPTR e s" and ?s = "load e g c x s"
  have regs: "ins_enbc e ?s = Some (ECTX_CONTINUE, upd_ectx e (\<lambda>y. y\<lparr>areg := g, breg := x\<rparr>) t)"
    if "t = (if g \<noteq> 0 then if get_word s c = NOT_PROCESS_P then put_word c (?w OR 1) ?s
       else if get_word s c \<noteq> ?w OR 1 then WORKSPACE_SET ?w WS_STATE READY_P ?s else ?s else ?s)" for t
    using that by (simp add: ins_enbc_def Let_def step_defs)
  have "same_guards e gs ?s (WORKSPACE_SET ?w WS_STATE READY_P ?s)"
    using same_guards_slot [of ?s e gs WS_STATE READY_P] ok by simp
  moreover have "same_guards e gs ?s (put_word c (?w OR 1) ?s)" if "get_word s c = NOT_PROCESS_P"
    using same_guards_chan [of ?s e gs c g p "?w OR 1"] ok g that by (simp add: idle_def)
  ultimately show ?thesis
    using same_guards_trans [OF same_guards_load [of e gs s g c x]] chan_clear [OF ok g]
    by (subst regs [OF refl]) (auto intro!: same_guards_regs simp: guard_ready_def idle_def put_word_clear_GET)
qed

lemma only_emptied_slot:
  assumes "guards_ok (WPTR e s) gs" "k \<le> 6"
  shows "only_emptied gs s (WORKSPACE_SET (WPTR e s) k v s)"
  using assms by (auto simp: only_emptied_def guards_ok_def WORKSPACE_SET_clear_word)

lemma only_emptied_chan:
  assumes "guards_ok w gs" "(c, g, p) \<in> set gs"
  shows "only_emptied gs s (put_word c NOT_PROCESS_P s)"
proof -
  have "get_word (put_word c NOT_PROCESS_P s) c' = get_word s c' \<or> get_word (put_word c NOT_PROCESS_P s) c' = NOT_PROCESS_P"
    if "(c', x) \<in> set gs" for c' x
    using assms that by (cases "c = c'") (fastforce simp: guards_ok_def read_write_word_other)+
  then show ?thesis by (auto simp: only_emptied_def)
qed

lemma only_emptied_regs [simp]:
  "only_emptied gs s (upd_ectx e f s') = only_emptied gs s s'" "only_emptied gs (load e a b c s) s' = only_emptied gs s s'"
  "only_emptied gs s (load e a b c s') = only_emptied gs s s'"
  by (simp_all add: only_emptied_def load_def)

lemma mark_not_null: "w OR 1 \<noteq> (0 :: WORD)"
proof -
  have "bit (w OR 1) 0" by (simp add: bit_simps)
  then show ?thesis by (auto simp del: bit_or_iff)
qed

lemma disc_step:
  assumes ok: "guards_ok (WPTR e s) gs" and g: "(c, g, p) \<in> set gs"
  shows "\<exists>s'. ins_disc e (load e p g c s) = Some (ECTX_CONTINUE, s') \<and> same_guards e gs s s' \<and>
    WORKSPACE_GET s' (WPTR e s) WS_TEMP =
      (if guard_ready e s (c, g, p) \<and> WORKSPACE_GET s (WPTR e s) WS_TEMP = NONE_SELECTED_O then p
       else WORKSPACE_GET s (WPTR e s) WS_TEMP) \<and>
    only_emptied gs s s' \<and> (g \<noteq> 0 \<longrightarrow> get_word s' c \<noteq> WPTR e s OR 1)"
proof -
  let ?w = "WPTR e s" and ?s = "load e p g c s"
  have slot: "same_guards e gs s (WORKSPACE_SET ?w WS_TEMP p ?s)"
    using same_guards_trans [OF same_guards_load same_guards_slot [of ?s e gs WS_TEMP p]] ok by simp
  have chan: "same_guards e gs s (put_word c NOT_PROCESS_P ?s)" if "get_word s c = ?w OR 1"
    using same_guards_trans [OF same_guards_load same_guards_chan [of ?s e gs c g p NOT_PROCESS_P]] ok g that
    by (simp add: idle_def)
  have GET: "WORKSPACE_GET (put_word c NOT_PROCESS_P ?s) ?w WS_TEMP = WORKSPACE_GET s ?w WS_TEMP"
    using put_word_clear_GET [OF chan_clear(1) [OF ok g], of ?w WS_TEMP] by simp
  have emptied: "only_emptied gs s (WORKSPACE_SET ?w WS_TEMP p ?s)" "only_emptied gs s (put_word c NOT_PROCESS_P ?s)"
    using only_emptied_slot [of ?s e gs WS_TEMP p] only_emptied_chan [OF ok g, of ?s] ok by simp_all
  have word: "get_word (WORKSPACE_SET ?w WS_TEMP p ?s) c = get_word s c"
    using WORKSPACE_SET_clear_word [OF chan_clear(1) [OF ok g], of ?w WS_TEMP p ?s] by simp
  note facts = same_guards_regs(2) [OF slot] same_guards_regs(2) [OF chan] same_guards_regs(2) [OF same_guards_load]
  consider "g = 0" | "g \<noteq> 0" "get_word s c = ?w OR 1" | "g \<noteq> 0" "get_word s c \<noteq> ?w OR 1" "get_word s c = 0"
    | "g \<noteq> 0" "get_word s c \<noteq> ?w OR 1" "get_word s c \<noteq> 0" "WORKSPACE_GET s ?w WS_TEMP = NONE_SELECTED_O"
    | "g \<noteq> 0" "get_word s c \<noteq> ?w OR 1" "get_word s c \<noteq> 0" "WORKSPACE_GET s ?w WS_TEMP \<noteq> NONE_SELECTED_O"
    by blast
  then show ?thesis
    using facts GET emptied word mark_not_null [of ?w]
    by cases (simp_all add: ins_disc_def Let_def step_defs guard_ready_def idle_def)
qed

lemma enable_all_state:
  assumes "guards_ok (WPTR e s) gs" "set hs \<subseteq> set gs"
  shows "\<exists>s'. enable_all e hs s = Some (ECTX_CONTINUE, s') \<and> same_guards e gs s s' \<and>
    WORKSPACE_GET s' (WPTR e s) WS_STATE =
      (if \<exists>h \<in> set hs. guard_ready e s h then READY_P else WORKSPACE_GET s (WPTR e s) WS_STATE)"
  using assms
proof (induction hs arbitrary: s)
  case Nil
  show ?case by (simp add: continue_def)
next
  case (Cons h hs)
  obtain c g p where h: "h = (c, g, p)" by (cases h)
  obtain s1 where s1: "ins_enbc e (load e g c (CREG e s) s) = Some (ECTX_CONTINUE, s1)" "same_guards e gs s s1"
    "WORKSPACE_GET s1 (WPTR e s) WS_STATE =
      (if guard_ready e s h then READY_P else WORKSPACE_GET s (WPTR e s) WS_STATE)"
    using enbc_step [OF Cons.prems(1), of c g p "CREG e s"] Cons.prems(2) h by auto
  have w: "WPTR e s1 = WPTR e s" using s1(2) by (simp add: same_guards_def)
  have r: "guard_ready e s1 k = guard_ready e s k" if "k \<in> set hs" for k
    using same_guards_ready [OF s1(2), of k] that Cons.prems(2) by auto
  obtain s2 where "enable_all e hs s1 = Some (ECTX_CONTINUE, s2)" "same_guards e gs s1 s2"
    "WORKSPACE_GET s2 (WPTR e s) WS_STATE =
      (if \<exists>h \<in> set hs. guard_ready e s1 h then READY_P else WORKSPACE_GET s1 (WPTR e s) WS_STATE)"
    using Cons.IH [of s1] Cons.prems w by auto
  then show ?case
    using s1 r same_guards_trans [OF s1(2)] by (auto simp: h)
qed

lemma disable_all_selected:
  assumes "guards_ok (WPTR e s) gs" "set hs \<subseteq> set gs"
  shows "\<exists>s'. disable_all e hs s = Some (ECTX_CONTINUE, s') \<and> same_guards e gs s s' \<and>
    WORKSPACE_GET s' (WPTR e s) WS_TEMP =
      (if WORKSPACE_GET s (WPTR e s) WS_TEMP = NONE_SELECTED_O
       then case find (guard_ready e s) hs of None \<Rightarrow> NONE_SELECTED_O | Some (_, _, p) \<Rightarrow> p
       else WORKSPACE_GET s (WPTR e s) WS_TEMP) \<and>
    only_emptied gs s s' \<and> (\<forall>(c, g, p) \<in> set hs. g \<noteq> 0 \<longrightarrow> get_word s' c \<noteq> WPTR e s OR 1)"
  using assms
proof (induction hs arbitrary: s)
  case Nil
  show ?case by (simp add: continue_def)
next
  case (Cons h hs)
  obtain c g p where h: "h = (c, g, p)" by (cases h)
  have p: "p \<noteq> NONE_SELECTED_O" using chan_clear(2) [OF Cons.prems(1), of c g p] Cons.prems(2) h by auto
  obtain s1 where s1: "ins_disc e (load e p g c s) = Some (ECTX_CONTINUE, s1)" "same_guards e gs s s1"
    "WORKSPACE_GET s1 (WPTR e s) WS_TEMP =
      (if guard_ready e s h \<and> WORKSPACE_GET s (WPTR e s) WS_TEMP = NONE_SELECTED_O then p
       else WORKSPACE_GET s (WPTR e s) WS_TEMP)"
    "only_emptied gs s s1" "g \<noteq> 0 \<Longrightarrow> get_word s1 c \<noteq> WPTR e s OR 1"
    using disc_step [OF Cons.prems(1), of c g p] Cons.prems(2) h by auto
  have w: "WPTR e s1 = WPTR e s" using s1(2) by (simp add: same_guards_def)
  have "guard_ready e s1 k = guard_ready e s k" if "k \<in> set hs" for k
    using same_guards_ready [OF s1(2), of k] that Cons.prems(2) by auto
  then have r: "find (guard_ready e s1) hs = find (guard_ready e s) hs"
    by (intro find_cong) auto
  obtain s2 where s2: "disable_all e hs s1 = Some (ECTX_CONTINUE, s2)" "same_guards e gs s1 s2"
    "WORKSPACE_GET s2 (WPTR e s) WS_TEMP =
      (if WORKSPACE_GET s1 (WPTR e s) WS_TEMP = NONE_SELECTED_O
       then case find (guard_ready e s) hs of None \<Rightarrow> NONE_SELECTED_O | Some (_, _, p) \<Rightarrow> p
       else WORKSPACE_GET s1 (WPTR e s) WS_TEMP)"
    "only_emptied gs s1 s2" "\<forall>(c, g, p) \<in> set hs. g \<noteq> 0 \<longrightarrow> get_word s2 c \<noteq> WPTR e s OR 1"
    using Cons.IH [of s1] Cons.prems w r by auto
  have "g \<noteq> 0 \<longrightarrow> get_word s2 c \<noteq> WPTR e s OR 1"
    using s1(5) s2(4) Cons.prems(2) h mark_not_null [of "WPTR e s"]
    by (auto simp: only_emptied_def simp del: and_one_eq)
  then show ?case
    using s1(1,3) s2(1,3,5) p same_guards_trans [OF s1(2) s2(2)] only_emptied_trans [OF s1(4) s2(4)]
    by (auto simp: h)
qed

text \<open>C16: an alternation over channels with at least one ready guard. It does not wait, and
  control goes to the branch of the first guard, in the order in which they are disabled, whose
  condition holds and in whose channel a process waits. A process that waits in
  a channel is still there for the input that follows, and the mark the alternation left in an
  enabled channel where nobody waits is gone.\<close>

theorem alternation_takes_first_ready:
  assumes "guards_ok (WPTR e s) gs" "find (guard_ready e s) gs = Some (chan, guard, process)"
  shows "\<exists>s'. alternation e gs s = Some (ECTX_CONTINUE, s') \<and> WPTR e s' = WPTR e s \<and>
    IPTR e s' = IPTR e s + process \<and>
    (\<forall>(c, g, _) \<in> set gs. if idle (WPTR e s) (get_word s c) then g \<noteq> 0 \<longrightarrow> get_word s' c = NOT_PROCESS_P
       else get_word s' c = get_word s c)"
proof -
  let ?w = "WPTR e s"
  have g: "(chan, guard, process) \<in> set gs" and r: "guard_ready e s (chan, guard, process)"
    using assms(2) by (auto simp: find_Some_iff in_set_conv_nth)
  have p: "process \<noteq> NONE_SELECTED_O" by (rule chan_clear(2) [OF assms(1) g])
  let ?s1 = "WORKSPACE_SET ?w WS_STATE ENABLING_P s"
  have s1: "same_guards e gs s ?s1" using same_guards_slot [OF assms(1)] by simp
  have ready: "\<exists>h \<in> set gs. guard_ready e ?s1 h"
    using same_guards_ready [OF s1 g] g r by blast
  obtain s2 where s2: "enable_all e gs ?s1 = Some (ECTX_CONTINUE, s2)" "same_guards e gs ?s1 s2"
    "WORKSPACE_GET s2 ?w WS_STATE = READY_P"
    using enable_all_state [of ?s1 e gs gs] assms(1) ready by auto
  then have w2: "WPTR e s2 = ?w" by (simp add: same_guards_def)
  let ?s3 = "WORKSPACE_SET ?w WS_TEMP NONE_SELECTED_O s2"
  have s3: "same_guards e gs s ?s3"
    using same_guards_trans [OF same_guards_trans [OF s1 s2(2)] same_guards_slot [of s2 e gs WS_TEMP]] assms(1) w2
    by simp
  have altwt: "ins_altwt e s2 = Some (ECTX_CONTINUE, ?s3)"
    using s2(3) w2 by (simp add: ins_altwt_def Let_def step_defs)
  have "find (guard_ready e ?s3) gs = Some (chan, guard, process)"
    using same_guards_ready [OF s3] assms(2) find_cong [of gs gs "guard_ready e ?s3" "guard_ready e s"] by simp
  then obtain s4 where s4: "disable_all e gs ?s3 = Some (ECTX_CONTINUE, s4)" "same_guards e gs ?s3 s4"
    "WORKSPACE_GET s4 ?w WS_TEMP = process" "\<forall>(c, g, p) \<in> set gs. g \<noteq> 0 \<longrightarrow> get_word s4 c \<noteq> ?w OR 1"
    using disable_all_selected [of ?s3 e gs gs] assms(1) w2 by auto
  have s: "same_guards e gs s s4" by (rule same_guards_trans [OF s3 s4(2)])
  then have "ins_altend e s4 = Some (ECTX_CONTINUE, set_IPTR e (IPTR e s + process) s4)"
    using s4(3) p by (simp add: ins_altend_def same_guards_def step_defs byteptr_plus_def)
  moreover have "alternation e gs s = ins_altend e s4"
    using s2(1) altwt s4(1) by (simp add: alternation_def ins_alt_def step_defs)
  moreover have "if idle ?w (get_word s c) then g \<noteq> 0 \<longrightarrow> get_word s4 c = NOT_PROCESS_P else get_word s4 c = get_word s c"
    if "(c, g, x) \<in> set gs" for c g x
    using s s4(4) that by (fastforce simp: same_guards_def kept_def idle_def)
  ultimately show ?thesis using s by (auto simp: same_guards_def split_beta)
qed

section \<open>Examples\<close>

text \<open>
  The process at 4096 has two guards, on the channels at 100 and 200; a process waits in the
  second. Then a process at 8192 that waits in an alternation and has enabled the channel at 100.
\<close>

definition two_guards :: tvm where
  "two_guards = regs_of_example 0 0 0 (put_word 200 8192 blank)"

lemma two_guards_ready:
  "find (guard_ready 1 two_guards) [(100, 1, 12), (200, 1, 34)] = Some (200, 1, 34)"
  by (simp add: guard_ready_def idle_def two_guards_def regs_of_example_def read_write_word_other apart_def)

theorem alternation_takes_first_ready_witness:
  "\<exists>s'. alternation 1 [(100, 1, 12), (200, 1, 34)] two_guards = Some (ECTX_CONTINUE, s') \<and> IPTR 1 s' = 34"
proof -
  have "guards_ok (WPTR 1 two_guards) [(100, 1, 12), (200, 1, 34)]" "IPTR 1 two_guards = 0"
    by (simp_all add: guards_ok_def two_guards_def regs_of_example_def clear_of_def disjoint_blocks_def apart_def)
  with alternation_takes_first_ready [OF _ two_guards_ready] show ?thesis by auto
qed

definition waiting_alt :: tvm where
  "waiting_alt = set_BPTR 1 12288 (set_FPTR 1 12288 (regs_of_example 4 100 200
     (WORKSPACE_SET 8192 WS_STATE WAITING_P (WORKSPACE_SET 8192 WS_ECTX 1 (put_word 100 8193 blank)))))"

theorem alt_is_woken_witness:
  "\<exists>s'. ins_out 1 waiting_alt = Some (ECTX_CONTINUE, s') \<and> WPTR 1 s' = 8192 \<and> run_queue 1 s' [12288]"
proof -
  have slots: "get_word waiting_alt 100 = 8193" "WORKSPACE_GET waiting_alt 8192 WS_STATE = WAITING_P"
    "WORKSPACE_GET waiting_alt 8192 WS_ECTX = 1" "WPTR 1 waiting_alt = 4096" "BREG 1 waiting_alt = 100"
    "FPTR 1 waiting_alt = 12288" "BPTR 1 waiting_alt = 12288" "sflags (ectxs waiting_alt 1) = 0"
    by (simp_all add: waiting_alt_def regs_of_example_def WORKSPACE_GET_def WORKSPACE_SET_def put_word_def
        read_write_word_other apart_def wordptr_minus_def)
  have "alt_partner 1 waiting_alt [12288] 8192 (BREG 1 waiting_alt)"
    by (simp add: alt_partner_def slots example_defs)
  with alt_is_woken [of 1 waiting_alt 12288 "[]" 8192] slots show ?thesis by auto
qed

end
