(* ===== verification/Tvm_Timer.thy ===== *)
theory Tvm_Timer
  imports Tvm_Alt
begin

text \<open>
  What the timer queue of \<^verbatim>\<open>scheduler.c\<close> and the timer instructions promise: waiting
  processes are kept in the order of their times, those whose time has come are woken in that
  order, and a process that leaves an alternation takes its timeout out of the queue.
\<close>

section \<open>The queue keeps its order\<close>

lemma remove1_tq_insert: "ws \<notin> set ps \<Longrightarrow> remove1 ws (tq_insert tm t ws ps) = ps"
  by (induction ps) auto

lemma time_sorted_cong:
  "(\<And>p. p \<in> set ps \<Longrightarrow> f p = g p) \<Longrightarrow> time_sorted f ps = time_sorted g ps"
  by (induction ps) (auto simp: time_sorted_def)

lemma timer_queue_ws_list: "timer_queue e s ps \<Longrightarrow> ws_list ps"
  by (simp add: timer_queue_def)

text \<open>C20: inserting a timeout keeps the timer queue ordered by time, given that the times are
  less than a quarter of the clock's range apart from a common base, and keeps the other
  processes in it, in the same order.\<close>

theorem timer_insert_sorted:
  assumes "timer_queue e s ps" "ws_list (ws # ps)" "timer_of s ws = t"
    and "WORKSPACE_GET s ws WS_IPTR = IPTR e s"
    and "time_sorted (timer_of s) ps" "\<forall>p \<in> set (ws # ps). near_time b (timer_of s p)"
  shows "\<exists>s' qs. timer_queue_insert e ws now t s = Some s' \<and> timer_queue e s' qs \<and>
    remove1 ws qs = ps \<and> set qs = set (ws # ps) \<and> time_sorted (timer_of s') qs"
proof -
  let ?q = "tq_insert (timer_of s) t ws ps"
  have ws: "ws_set (set (ws # ps))" "ws \<notin> set ps" using assms(2) by (auto simp: ws_list_iff)
  obtain s' where s': "timer_queue_insert e ws now t s = Some s'" "timer_queue e s' ?q"
    "\<forall>q \<in> set (ws # ps). \<forall>k \<le> 6. k \<noteq> WS_TLINK \<longrightarrow> WORKSPACE_GET s' q k = WORKSPACE_GET s q k"
    using timer_queue_insert_list [OF assms(1) ws(1) subset_refl ws(2) assms(3,4)] by blast
  have "time_sorted (timer_of s) ?q"
    using tq_insert_sorted [OF assms(5,6)] assms(3) by simp
  moreover have "timer_of s' q = timer_of s q" if "q \<in> set ?q" for q
    using s'(3) that by (auto simp: timer_of_def)
  ultimately have "time_sorted (timer_of s') ?q" by (subst time_sorted_cong [of ?q _ "timer_of s"])
  then show ?thesis using s' remove1_tq_insert [OF ws(2)] by (intro exI [of _ s'] exI [of _ ?q]) simp
qed

section \<open>Expiry\<close>

lemma time_sorted_due:
  assumes "time_sorted (timer_of s) ps" "\<forall>p \<in> set ps. near_time b (timer_of s p)" "near_time b now"
  shows "due s now ps = filter (\<lambda>p. \<not> TIME_AFTER (timer_of s p) now) ps"
    and "drop (length (due s now ps)) ps = filter (\<lambda>p. TIME_AFTER (timer_of s p) now) ps"
proof -
  have "due s now ps = filter (\<lambda>p. \<not> TIME_AFTER (timer_of s p) now) ps \<and>
      dropWhile (\<lambda>p. \<not> TIME_AFTER (timer_of s p) now) ps = filter (\<lambda>p. TIME_AFTER (timer_of s p) now) ps"
    using assms
  proof (induction ps)
    case (Cons p ps)
    show ?case
    proof (cases "TIME_AFTER (timer_of s p) now")
      case True
      have "TIME_AFTER (timer_of s q) now" if "q \<in> set ps" for q
      proof -
        have "\<not> TIME_AFTER (timer_of s p) (timer_of s q)" "near_time b (timer_of s q)" "near_time b (timer_of s p)"
          using that Cons.prems by (auto simp: time_sorted_def)
        then show ?thesis using True Cons.prems(3) by (simp add: TIME_AFTER_near [of b])
      qed
      then show ?thesis using True by (simp add: due_def)
    next
      case False
      then show ?thesis using Cons by (simp add: due_def time_sorted_def)
    qed
  qed (simp add: due_def)
  then show "due s now ps = filter (\<lambda>p. \<not> TIME_AFTER (timer_of s p) now) ps"
    "drop (length (due s now ps)) ps = filter (\<lambda>p. TIME_AFTER (timer_of s p) now) ps"
    by (auto simp: due_def dropWhile_eq_drop)
qed

text \<open>C21: walking the timer queue. With the queue in order, exactly the processes whose time is
  not after the present one leave it; those that are not ready yet are marked ready and join the
  run queue, in order, and the others stay.\<close>

theorem timers_expire:
  assumes "timer_queue e s ps" "run_queue e s rq" "ws_set (set rq \<union> set ps)"
    and "\<forall>p \<in> set ps \<inter> set rq. WORKSPACE_GET s p WS_STATE = READY_P"
    and "time_sorted (timer_of s) ps" "\<forall>p \<in> set ps. near_time b (timer_of s p)" "near_time b now"
  shows "\<exists>s'. walk_timer_queue e now s = Some s' \<and>
    timer_queue e s' (filter (\<lambda>p. TIME_AFTER (timer_of s p) now) ps) \<and>
    run_queue e s' (rq @ filter (\<lambda>p. \<not> TIME_AFTER (timer_of s p) now \<and> WORKSPACE_GET s p WS_STATE \<noteq> READY_P) ps) \<and>
    (\<forall>p \<in> set ps. \<not> TIME_AFTER (timer_of s p) now \<longrightarrow> WORKSPACE_GET s' p WS_STATE = READY_P \<and>
       WORKSPACE_GET s' p WS_TLINK = TIME_SET_P \<and> WORKSPACE_GET s' p WS_TIME = now)"
proof -
  note d = time_sorted_due [OF assms(5-7)]
  have "set (pending s ps) \<inter> set rq = {}" using assms(4) by (auto simp: pending_def)
  from walk_timer_queue_expires [OF assms(1-3) this, of now] obtain s' where
    s': "walk_timer_queue e now s = Some s'"
    "after_expiry e now rq (due s now ps) (drop (length (due s now ps)) ps) (set rq \<union> set ps) s s'" by blast
  have f: "filter (\<lambda>p. WORKSPACE_GET s p WS_STATE \<noteq> READY_P) (filter (\<lambda>p. \<not> TIME_AFTER (timer_of s p) now) ps) =
      filter (\<lambda>p. \<not> TIME_AFTER (timer_of s p) now \<and> WORKSPACE_GET s p WS_STATE \<noteq> READY_P) ps"
    by simp
  have g: "WORKSPACE_GET s' p k = (if k = WS_TLINK then TIME_SET_P else if k = WS_TIME then now
      else if k = WS_STATE then READY_P else WORKSPACE_GET s p k)"
    if "p \<in> set ps" "\<not> TIME_AFTER (timer_of s p) now" "k \<le> 6" "k \<noteq> WS_LINK" for p k
    using s'(2) that unfolding after_expiry_def d(1) by auto
  show ?thesis
    using s' g unfolding after_expiry_def d(2) unfolding d(1) pending_def f by (intro exI [of _ s']) auto
qed

section \<open>Instructions\<close>

lemma timer_list_next:
  "timer_list s x ps \<Longrightarrow> w \<in> set ps \<Longrightarrow> WORKSPACE_GET s w WS_TLINK \<in> insert NOT_PROCESS_P (set ps)"
  by (induction ps arbitrary: x) (auto, metis list.set_intros(1) list.set_sel(1) neq_Nil_conv timer_list.simps)

text \<open>Disabling a timeout that has not fired. The process leaves the timer queue, which keeps
  the others in order, and the branch is not selected.\<close>

lemma dist_cancels_timeout:
  assumes "timer_queue e s ps" "WPTR e s \<in> set ps" "BREG e s \<noteq> 0" "TIME_SET_P \<notin> set ps" "TIME_NOT_SET_P \<notin> set ps"
  shows "\<exists>s'. ins_dist e s = Some (ECTX_CONTINUE, s') \<and> AREG e s' = 0 \<and>
    timer_queue e s' (remove1 (WPTR e s) ps) \<and> WPTR e s \<notin> set (remove1 (WPTR e s) ps) \<and>
    WORKSPACE_GET s' (WPTR e s) WS_TLINK = TIME_NOT_SET_P"
proof -
  let ?w = "WPTR e s"
  have wl: "ws_list ps" using assms(1) by (rule timer_queue_ws_list)
  then have "ws_set (insert ?w (set ps))" using assms(2) by (simp add: ws_list_iff insert_absorb)
  from timer_queue_remove_list [OF assms(1) this] obtain s' where
    s': "timer_queue_remove e ?w s = Some s'" "timer_queue e s' (remove1 ?w ps)"
    "WORKSPACE_GET s' ?w WS_TLINK = TIME_NOT_SET_P" by blast
  have "WORKSPACE_GET s ?w WS_TLINK \<in> insert 0 (set ps)"
    using timer_list_next assms(1,2) by (auto simp: timer_queue_def)
  then have t: "WORKSPACE_GET s ?w WS_TLINK \<noteq> TIME_SET_P" "WORKSPACE_GET s ?w WS_TLINK \<noteq> TIME_NOT_SET_P"
    using assms(4,5) by auto
  have "timer_queue e (upd_ectx e (\<lambda>x. x\<lparr>areg := 0\<rparr>) s') (remove1 ?w ps)"
    using s'(2) by (simp add: timer_queue_def timer_of_def)
  then show ?thesis
    using s' t assms(3) wl by (simp add: ins_dist_def Let_def step_defs ws_list_def)
qed

lemma timer_queue_SET:
  assumes "ws_set A" "p \<in> A" "timer_queue e s ps" "set ps \<subseteq> A" "k \<noteq> WS_TLINK" "k \<noteq> WS_TIME" "k \<le> 6"
  shows "timer_queue e (WORKSPACE_SET p k v s) ps"
proof -
  have "timer_of (WORKSPACE_SET p k v s) q = timer_of s q" if "q \<in> set ps" for q
    using assms that by (auto simp: timer_of_def WORKSPACE_GET_SET [OF assms(1)])
  then show ?thesis
    using assms timer_list_SET [OF assms(1,2,4)] by (auto simp: timer_queue_def)
qed

text \<open>\<^verbatim>\<open>tin\<close>. When the clock is already past the time asked for, the process carries
  on and nothing changes but that the clock has been read. Otherwise its time and instruction
  pointer are saved, it takes its place in the timer queue, marked as not ready, and the context
  looks for another process to run; the run queue is as it was.\<close>

lemma ins_tin_waits:
  assumes "timer_queue e s ps" "ws_list (WPTR e s # ps)" "run_queue e s rq" "ws_set (insert (WPTR e s) (set ps \<union> set rq))"
    and "WPTR e s \<notin> set rq"
  shows "if TIME_AFTER (clock s (ticks s)) (AREG e s)
    then ins_tin e s = Some (ECTX_CONTINUE, s\<lparr>ticks := Suc (ticks s)\<rparr>)
    else \<exists>s'. ins_tin e s = run_next_on_queue e s' \<and>
      timer_queue e s' (tq_insert (timer_of s) (AREG e s) (WPTR e s) ps) \<and> run_queue e s' rq \<and>
      WORKSPACE_GET s' (WPTR e s) WS_TIME = AREG e s \<and> WORKSPACE_GET s' (WPTR e s) WS_IPTR = IPTR e s \<and>
      WORKSPACE_GET s' (WPTR e s) WS_STATE = NOT_PROCESS_P"
proof (cases "TIME_AFTER (clock s (ticks s)) (AREG e s)")
  case True
  then show ?thesis by (simp add: ins_tin_def get_time_def UNDEFINE_STACK_def continue_def)
next
  case False
  let ?w = "WPTR e s" and ?t = "AREG e s" and ?A = "insert (WPTR e s) (set ps \<union> set rq)"
  let ?s1 = "WORKSPACE_SET ?w WS_IPTR (IPTR e s) (WORKSPACE_SET ?w WS_TIME ?t (s\<lparr>ticks := Suc (ticks s)\<rparr>))"
  note A = assms(4)
  have w: "?w \<in> ?A" "?w \<notin> set ps" "?w \<notin> set rq" using assms(2,5) by (auto simp: ws_list_def)
  have G: "WORKSPACE_GET ?s1 q k = (if q = ?w \<and> k = WS_IPTR then IPTR e s else if q = ?w \<and> k = WS_TIME then ?t
      else WORKSPACE_GET s q k)" if "q \<in> ?A" "k \<le> 6" for q k
    using that w(1) by (auto simp: WORKSPACE_GET_SET [OF A])
  have tm: "timer_of ?s1 q = timer_of s q" if "q \<in> set ps" for q
    using that w G [of q WS_TIME] by (auto simp: timer_of_def)
  have tl: "timer_list ?s1 x ps = timer_list s x ps" for x
  proof (rule timer_list_cong)
    fix q assume "q \<in> set ps"
    then show "WORKSPACE_GET ?s1 q WS_TLINK = WORKSPACE_GET s q WS_TLINK" using w G [of q WS_TLINK] by auto
  qed
  have t1: "timer_queue e ?s1 ps" using assms(1) tl tm by (auto simp: timer_queue_def)
  have sub: "set (?w # ps) \<subseteq> ?A" by auto
  have own: "timer_of ?s1 ?w = ?t" "WORKSPACE_GET ?s1 ?w WS_IPTR = IPTR e ?s1"
    using G [of ?w] by (simp_all add: timer_of_def)
  obtain s2 where s2: "timer_queue_insert e ?w (clock s (ticks s)) ?t ?s1 = Some s2"
    "timer_queue e s2 (tq_insert (timer_of ?s1) ?t ?w ps)"
    "\<forall>q \<in> ?A. \<forall>k \<le> 6. k \<noteq> WS_TLINK \<longrightarrow> WORKSPACE_GET s2 q k = WORKSPACE_GET ?s1 q k"
    "FPTR e s2 = FPTR e ?s1" "BPTR e s2 = BPTR e ?s1" "WPTR e s2 = WPTR e ?s1"
    using timer_queue_insert_list [OF t1 A sub w(2) own] by blast
  let ?s3 = "WORKSPACE_SET ?w WS_STATE NOT_PROCESS_P s2"
  have same: "WORKSPACE_GET ?s3 q k = (if q = ?w \<and> k = WS_STATE then 0 else WORKSPACE_GET ?s1 q k)"
    if "q \<in> ?A" "k \<le> 6" "k \<noteq> WS_TLINK" for q k
    using that s2(3) w(1) by (auto simp: WORKSPACE_GET_SET [OF A])
  have tq: "tq_insert (timer_of ?s1) ?t ?w ps = tq_insert (timer_of s) ?t ?w ps"
    using tm by (induction ps) auto
  have "timer_queue e ?s3 (tq_insert (timer_of s) ?t ?w ps)"
    using s2(2) unfolding tq by (rule timer_queue_SET [OF A w(1)]) auto
  moreover have "run_queue e ?s3 rq"
  proof (rule run_queue_cong [OF assms(3)])
    fix q assume q: "q \<in> set rq"
    then show "WORKSPACE_GET ?s3 q WS_LINK = WORKSPACE_GET s q WS_LINK"
      using same [of q WS_LINK] G [of q WS_LINK] w by auto
  qed (use s2 in simp_all)
  moreover have "ins_tin e s = run_next_on_queue e ?s3"
    using False s2(1,6) by (simp add: ins_tin_def get_time_def Let_def)
  moreover have "WORKSPACE_GET s2 ?w WS_TIME = ?t" "WORKSPACE_GET s2 ?w WS_IPTR = IPTR e s"
    using s2(3) w(1) by simp_all
  ultimately show ?thesis
    using False by (auto intro!: exI [of _ ?s3])
qed

section \<open>Examples\<close>

text \<open>The process at 8192 waits for time 50; the one at 4096 runs and asks for time 20.\<close>

definition one_timer :: tvm where
  "one_timer = set_TNEXT 1 50 (set_TPTR 1 8192 (regs_of_example 20 1 0
     (WORKSPACE_SET 8192 WS_TIME 50 (WORKSPACE_SET 4096 WS_TIME 20 blank))))"

lemma one_timer_slots:
  "WORKSPACE_GET one_timer 8192 WS_TIME = 50" "WORKSPACE_GET one_timer 4096 WS_TIME = 20"
  "WORKSPACE_GET one_timer 8192 WS_TLINK = 0" "WORKSPACE_GET one_timer 4096 WS_IPTR = 0"
  "TPTR 1 one_timer = 8192" "TNEXT 1 one_timer = 50" "WPTR 1 one_timer = 4096" "AREG 1 one_timer = 20"
  "BREG 1 one_timer = 1" "IPTR 1 one_timer = 0" "FPTR 1 one_timer = 0" "clock one_timer n = 0"
  "WORKSPACE_GET one_timer 8192 WS_STATE = 0"
  by (simp_all add: one_timer_def regs_of_example_def WORKSPACE_GET_def WORKSPACE_SET_def put_word_def
      read_write_word_other apart_def wordptr_minus_def)

lemma one_timer_queue: "timer_queue 1 one_timer [8192]"
  by (simp add: timer_queue_def timer_of_def ws_list_def one_timer_slots)

theorem timer_insert_sorted_witness:
  "\<exists>s' qs. timer_queue_insert 1 4096 0 20 one_timer = Some s' \<and> timer_queue 1 s' qs \<and> set qs = {4096, 8192}"
  using timer_insert_sorted [OF one_timer_queue, of 4096 20 0 0]
  by (auto simp: ws_list_def timer_of_def one_timer_slots time_sorted_def apart_def near_time_def)

theorem timers_expire_witness:
  "\<exists>s'. walk_timer_queue 1 60 one_timer = Some s' \<and> timer_queue 1 s' [] \<and> run_queue 1 s' [8192]"
  using timers_expire [OF one_timer_queue, of "[]" 0 60]
  by (auto simp: example_defs timer_of_def one_timer_slots time_sorted_def near_time_def TIME_AFTER_def)

theorem ins_tin_waits_witness:
  "\<exists>s'. ins_tin 1 one_timer = run_next_on_queue 1 s' \<and> timer_queue 1 s' [4096, 8192]"
  using ins_tin_waits [OF one_timer_queue, of "[]"]
  by (auto simp: example_defs timer_of_def one_timer_slots TIME_AFTER_def)

text \<open>The process at 8192 runs and takes back its own timeout.\<close>

definition own_timer :: tvm where
  "own_timer = set_WPTR 1 8192 one_timer"

lemma dist_cancels_timeout_witness:
  "\<exists>s'. ins_dist 1 own_timer = Some (ECTX_CONTINUE, s') \<and> AREG 1 s' = 0 \<and> timer_queue 1 s' []"
proof -
  have "timer_queue 1 own_timer [8192]"
    using one_timer_queue by (simp add: own_timer_def timer_queue_def timer_of_def)
  then show ?thesis
    using dist_cancels_timeout [of 1 own_timer "[8192]"] by (auto simp: own_timer_def one_timer_slots)
qed

end
