(* ===== verification/Tvm_Barrier.thy ===== *)
theory Tvm_Barrier
  imports Tvm_Secondary Tvm_Footprint
begin

text \<open>
  Barriers, \<^verbatim>\<open>ins_barrier.c\<close>: four words of memory that count the processes enrolled and
  those still to synchronise, and the queue of those that have.
\<close>

section \<open>Operations\<close>

abbreviation (input) BAR_ENROLLED :: WORD where "BAR_ENROLLED \<equiv> 0"
abbreviation (input) BAR_COUNT :: WORD where "BAR_COUNT \<equiv> 1"
abbreviation (input) BAR_FPTR :: WORD where "BAR_FPTR \<equiv> 2"
abbreviation (input) BAR_BPTR :: WORD where "BAR_BPTR \<equiv> 3"

definition tvm_bar_complete :: "WORD \<Rightarrow> WORD \<Rightarrow> tvm \<Rightarrow> tvm" where
  "tvm_bar_complete e bar s =
     (let enrolled = get_word s (wordptr_plus bar BAR_ENROLLED);
          bar_fptr = get_word s (wordptr_plus bar BAR_FPTR);
          bar_bptr = get_word s (wordptr_plus bar BAR_BPTR);
          s = put_word (wordptr_plus bar BAR_COUNT) enrolled s;
          s = put_word (wordptr_plus bar BAR_FPTR) NOT_PROCESS_P s;
          s = put_word (wordptr_plus bar BAR_BPTR) NOT_PROCESS_P s
      in if bar_fptr \<noteq> NOT_PROCESS_P then add_queue_to_queue e bar_fptr bar_bptr s else s)"

definition tvm_bar_init :: "WORD \<Rightarrow> WORD \<Rightarrow> tvm \<Rightarrow> tvm" where
  "tvm_bar_init bar initial_count s =
     (let s = put_word (wordptr_plus bar BAR_ENROLLED) initial_count s;
          s = put_word (wordptr_plus bar BAR_COUNT) initial_count s;
          s = put_word (wordptr_plus bar BAR_FPTR) NOT_PROCESS_P s
      in put_word (wordptr_plus bar BAR_BPTR) NOT_PROCESS_P s)"

text \<open>The part of \<^verbatim>\<open>tvm_bar_sync\<close> that queues the process, up to scheduling another.\<close>

definition bar_wait :: "WORD \<Rightarrow> WORD \<Rightarrow> WORD \<Rightarrow> tvm \<Rightarrow> tvm" where
  "bar_wait e bar count s =
     (let bar_bptr = get_word s (wordptr_plus bar BAR_BPTR);
          s = put_word (wordptr_plus bar BAR_COUNT) (count - 1) s;
          s = WORKSPACE_SET (WPTR e s) WS_LINK bar_bptr s;
          s = WORKSPACE_SET (WPTR e s) WS_ECTX e s;
          s = WORKSPACE_SET (WPTR e s) WS_IPTR (IPTR e s) s;
          s = (if bar_bptr = NOT_PROCESS_P
               then put_word (wordptr_plus bar BAR_FPTR) (WPTR e s) s
               else WORKSPACE_SET bar_bptr WS_LINK (WPTR e s) s)
      in put_word (wordptr_plus bar BAR_BPTR) (WPTR e s) s)"

definition tvm_bar_sync :: "WORD \<Rightarrow> WORD \<Rightarrow> tvm \<Rightarrow> result" where
  "tvm_bar_sync e bar s =
     (let count = get_word s (wordptr_plus bar BAR_COUNT) in
      if count > 1 then run_next_on_queue e (bar_wait e bar count s)
      else continue (tvm_bar_complete e bar s))"

definition tvm_bar_enroll :: "WORD \<Rightarrow> WORD \<Rightarrow> WORD \<Rightarrow> tvm \<Rightarrow> result" where
  "tvm_bar_enroll e bar enroll_count s =
     (let enrolled = get_word s (wordptr_plus bar BAR_ENROLLED);
          count = get_word s (wordptr_plus bar BAR_COUNT)
      in error_if (enrolled + enroll_count < enrolled) e EFLAG_BAR s (\<lambda>s.
           let s = put_word (wordptr_plus bar BAR_ENROLLED) (enrolled + enroll_count) s;
               s = put_word (wordptr_plus bar BAR_COUNT) (count + enroll_count) s
           in continue s))"

definition tvm_bar_resign :: "WORD \<Rightarrow> WORD \<Rightarrow> WORD \<Rightarrow> tvm \<Rightarrow> result" where
  "tvm_bar_resign e bar resign_count s =
     (let enrolled = get_word s (wordptr_plus bar BAR_ENROLLED);
          count = get_word s (wordptr_plus bar BAR_COUNT)
      in error_if (resign_count > enrolled \<or> resign_count > count) e EFLAG_BAR s (\<lambda>s.
           let s = put_word (wordptr_plus bar BAR_ENROLLED) (enrolled - resign_count) s;
               count = count - resign_count;
               s = (if count \<ge> 1 then put_word (wordptr_plus bar BAR_COUNT) count s
                    else tvm_bar_complete e bar s)
           in continue s))"

end
