(* ===== verification/Tvm_Pi.thy ===== *)
theory Tvm_Pi
  imports Tvm_Channel
begin

text \<open>
  The instructions of \<^verbatim>\<open>ins_pi.c\<close>: loops, semaphores, extended input, and calls out of the
  virtual machine. Functions of the host reach the interpreter through tables of pointers; they
  are not part of the source and a parameter of the model, the record \<open>host\<close>.
\<close>

section \<open>The host\<close>

record ext_chan =
  ec_typehash :: WORD
  ec_in :: "(WORD \<Rightarrow> WORD \<Rightarrow> WORD \<Rightarrow> tvm \<Rightarrow> result) option"
  ec_out :: "(WORD \<Rightarrow> WORD \<Rightarrow> WORD \<Rightarrow> tvm \<Rightarrow> result) option"
  ec_mt_in :: "(WORD \<Rightarrow> WORD \<Rightarrow> tvm \<Rightarrow> result) option"
  ec_mt_out :: "(WORD \<Rightarrow> WORD \<Rightarrow> tvm \<Rightarrow> result) option"

text \<open>A table that is \<open>NULL\<close> is an empty list, an entry that is \<open>NULL\<close> is \<open>None\<close>.\<close>

record host =
  ffi_table :: "(WORD \<Rightarrow> tvm \<Rightarrow> tvm) option list"
  sffi_table :: "(WORD \<Rightarrow> WORD \<Rightarrow> tvm \<Rightarrow> int \<times> tvm) option list"
  ext_chan_table :: "ext_chan list"

abbreviation (input) SFFI_BYPASS :: int where "SFFI_BYPASS \<equiv> 98"
abbreviation (input) SFFI_RESCHEDULE :: int where "SFFI_RESCHEDULE \<equiv> 114"

section \<open>Instructions\<close>

definition ins_boolinvert :: "WORD \<Rightarrow> tvm \<Rightarrow> result" where
  "ins_boolinvert e s = STACK_RET e (if AREG e s = 0 then 1 else 0) (BREG e s) (CREG e s) s"

definition ins_reschedule :: "WORD \<Rightarrow> tvm \<Rightarrow> result" where
  "ins_reschedule e s = run_next_on_queue e (DESCHEDULE_CURRENT e s)"

definition ins_widenshort :: "WORD \<Rightarrow> tvm \<Rightarrow> result" where
  "ins_widenshort e s = STACK_RET e (scast (ucast (AREG e s) :: 16 word)) (BREG e s) (CREG e s) s"

definition ins_fficall :: "host \<Rightarrow> WORD \<Rightarrow> tvm \<Rightarrow> result" where
  "ins_fficall h e s =
     (let args = wordptr_plus (WPTR e s) 1 in
      if 0 \<le>s AREG e s then
        (case (if unat (AREG e s) < length (ffi_table h) then ffi_table h ! unat (AREG e s) else None) of
           Some func \<Rightarrow> ins_ret e (func args s)
         | None \<Rightarrow> SET_ERROR_FLAG_RET e EFLAG_FFI s)
      else
        let index = unat (- (AREG e s + 1)) in
        (case (if index < length (sffi_table h) then sffi_table h ! index else None) of
           Some func \<Rightarrow>
             (let (ret, s) = func e args s in
              if ret = ECTX_CONTINUE then ins_ret e s
              else if ret = SFFI_BYPASS then Some (ECTX_CONTINUE, s)
              else if ret = SFFI_RESCHEDULE then run_next_on_queue e s
              else Some (ret, s))
         | None \<Rightarrow> SET_ERROR_FLAG_RET e EFLAG_FFI s))"

definition ins_lend3 :: "WORD \<Rightarrow> tvm \<Rightarrow> result" where
  "ins_lend3 e s =
     (let loopcount_ptr = wordptr_plus (BREG e s) 1;
          loopindex_ptr = BREG e s;
          loopcount = get_word s loopcount_ptr - 1;
          s = put_word loopcount_ptr loopcount s
      in continue
        (if loopcount = 0 then s
         else
           let loopstep_ptr = wordptr_plus (BREG e s) 2;
               loopindex = get_word s loopindex_ptr;
               step = get_word s loopstep_ptr;
               s = put_word loopindex_ptr (loopindex + step) s
           in set_IPTR e (byteptr_minus (IPTR e s) (AREG e s)) s))"

definition ins_lendb :: "WORD \<Rightarrow> tvm \<Rightarrow> result" where
  "ins_lendb e s =
     (let loopcount_ptr = wordptr_plus (BREG e s) 1;
          loopindex_ptr = BREG e s;
          loopcount = get_word s loopcount_ptr - 1;
          s = put_word loopcount_ptr loopcount s
      in continue
        (if loopcount = 0 then s
         else
           let loopindex = get_word s loopindex_ptr - 1;
               s = put_word loopindex_ptr loopindex s
           in set_IPTR e (byteptr_minus (IPTR e s) (AREG e s)) s))"

definition ins_extvrfy :: "host \<Rightarrow> WORD \<Rightarrow> tvm \<Rightarrow> result" where
  "ins_extvrfy h e s =
     (let hash = AREG e s; index = unat (drop_bit 1 (BREG e s)) in
      if index \<ge> length (ext_chan_table h) then SET_ERROR_FLAG_RET e EFLAG_EXTCHAN s
      else if ec_typehash (ext_chan_table h ! index) = 0 then UNDEFINE_STACK_RET e s
      else error_if (ec_typehash (ext_chan_table h ! index) \<noteq> hash) e EFLAG_EXTCHAN s
        (\<lambda>s. UNDEFINE_STACK_RET e s))"

definition ins_extin :: "host \<Rightarrow> WORD \<Rightarrow> tvm \<Rightarrow> result" where
  "ins_extin h e s =
     (let index = unat (drop_bit 1 (BREG e s)) in
      case (if index < length (ext_chan_table h) then ec_in (ext_chan_table h ! index) else None) of
        Some func \<Rightarrow> func e (AREG e s) (CREG e s) s
      | None \<Rightarrow> SET_ERROR_FLAG_RET e EFLAG_EXTCHAN s)"

definition ins_extout :: "host \<Rightarrow> WORD \<Rightarrow> tvm \<Rightarrow> result" where
  "ins_extout h e s =
     (let index = unat (drop_bit 1 (BREG e s)) in
      case (if index < length (ext_chan_table h) then ec_out (ext_chan_table h ! index) else None) of
        Some func \<Rightarrow> func e (AREG e s) (CREG e s) s
      | None \<Rightarrow> SET_ERROR_FLAG_RET e EFLAG_EXTCHAN s)"

definition ins_ext_mt_in :: "host \<Rightarrow> WORD \<Rightarrow> tvm \<Rightarrow> result" where
  "ins_ext_mt_in h e s =
     (let index = unat (drop_bit 1 (AREG e s)) in
      case (if index < length (ext_chan_table h) then ec_mt_in (ext_chan_table h ! index) else None) of
        Some func \<Rightarrow> func e (BREG e s) s
      | None \<Rightarrow> SET_ERROR_FLAG_RET e EFLAG_EXTCHAN s)"

definition ins_ext_mt_out :: "host \<Rightarrow> WORD \<Rightarrow> tvm \<Rightarrow> result" where
  "ins_ext_mt_out h e s =
     (let index = unat (drop_bit 1 (AREG e s)) in
      case (if index < length (ext_chan_table h) then ec_mt_out (ext_chan_table h ! index) else None) of
        Some func \<Rightarrow> func e (BREG e s) s
      | None \<Rightarrow> SET_ERROR_FLAG_RET e EFLAG_EXTCHAN s)"

definition ins_getpri :: "WORD \<Rightarrow> tvm \<Rightarrow> result" where
  "ins_getpri e s = STACK_RET e 0 (AREG e s) (BREG e s) s"

definition ins_setpri :: "WORD \<Rightarrow> tvm \<Rightarrow> result" where
  "ins_setpri e s = STACK2_RET e (BREG e s) (CREG e s) s"

definition ins_savecreg :: "WORD \<Rightarrow> tvm \<Rightarrow> result" where
  "ins_savecreg e s = continue (upd_ectx e (\<lambda>c. c\<lparr>creg_saved := creg c\<rparr>) s)"

definition ins_restorecreg :: "WORD \<Rightarrow> tvm \<Rightarrow> result" where
  "ins_restorecreg e s = continue (set_CREG e (creg_saved (ectxs s e)) s)"

section \<open>Semaphores\<close>

abbreviation (input) SEM_FPTR :: WORD where "SEM_FPTR \<equiv> 0"
abbreviation (input) SEM_BPTR :: WORD where "SEM_BPTR \<equiv> 1"

definition tvm_sem_init :: "WORD \<Rightarrow> tvm \<Rightarrow> tvm" where
  "tvm_sem_init sem s = put_word (wordptr_plus sem 1) NOT_PROCESS_P (put_word sem (NOT_PROCESS_P OR 1) s)"

text \<open>The part of \<^verbatim>\<open>tvm_sem_claim\<close> that joins the queue, up to scheduling another process.\<close>

definition sem_join :: "WORD \<Rightarrow> WORD \<Rightarrow> tvm \<Rightarrow> tvm" where
  "sem_join e sem s =
     (let sem_fptr = get_word s (wordptr_plus sem SEM_FPTR);
          s = WORKSPACE_SET (WPTR e s) WS_LINK NOT_PROCESS_P s;
          s = WORKSPACE_SET (WPTR e s) WS_ECTX e s;
          s = WORKSPACE_SET (WPTR e s) WS_IPTR (IPTR e s) s
      in if sem_fptr = NOT_PROCESS_P then
           put_word (wordptr_plus sem SEM_BPTR) (WPTR e s)
             (put_word (wordptr_plus sem SEM_FPTR) (WPTR e s) s)
         else
           let sem_bptr_ptr = wordptr_plus sem SEM_BPTR;
               sem_bptr = get_word s sem_bptr_ptr;
               s = WORKSPACE_SET sem_bptr WS_LINK (WPTR e s) s
           in put_word sem_bptr_ptr (WPTR e s) s)"

definition tvm_sem_claim :: "WORD \<Rightarrow> WORD \<Rightarrow> tvm \<Rightarrow> result" where
  "tvm_sem_claim e sem s =
     (let sem_fptr = get_word s (wordptr_plus sem SEM_FPTR) in
      if sem_fptr = NOT_PROCESS_P OR 1 then
        UNDEFINE_STACK_RET e (put_word (wordptr_plus sem SEM_FPTR) NOT_PROCESS_P s)
      else run_next_on_queue e (sem_join e sem s))"

text \<open>The first half of the \<^verbatim>\<open>else\<close> of \<^verbatim>\<open>tvm_sem_release\<close>: the front leaves the queue.\<close>

definition sem_leave :: "WORD \<Rightarrow> tvm \<Rightarrow> tvm" where
  "sem_leave sem s =
     (let sem_fptr_ptr = wordptr_plus sem SEM_FPTR;
          sem_fptr = get_word s sem_fptr_ptr
      in put_word sem_fptr_ptr (WORKSPACE_GET s sem_fptr WS_LINK) s)"

definition tvm_sem_release :: "WORD \<Rightarrow> WORD \<Rightarrow> tvm \<Rightarrow> result" where
  "tvm_sem_release e sem s =
     (let sem_fptr_ptr = wordptr_plus sem SEM_FPTR;
          sem_fptr = get_word s sem_fptr_ptr
      in if sem_fptr = NOT_PROCESS_P then
           UNDEFINE_STACK_RET e (put_word sem_fptr_ptr (NOT_PROCESS_P OR 1) s)
         else ADD_TO_QUEUE_ECTX_RET e sem_fptr (sem_leave sem s))"

definition ins_sem_init :: "WORD \<Rightarrow> tvm \<Rightarrow> result" where
  "ins_sem_init e s = UNDEFINE_STACK_RET e (tvm_sem_init (AREG e s) s)"

definition ins_sem_claim :: "WORD \<Rightarrow> tvm \<Rightarrow> result" where
  "ins_sem_claim e s = tvm_sem_claim e (AREG e s) s"

definition ins_sem_release :: "WORD \<Rightarrow> tvm \<Rightarrow> result" where
  "ins_sem_release e s = tvm_sem_release e (AREG e s) s"

section \<open>Extended input\<close>

definition ins_checknotnull :: "WORD \<Rightarrow> tvm \<Rightarrow> result" where
  "ins_checknotnull e s =
     (if AREG e s \<noteq> NULL_P then continue s else SET_ERROR_FLAG_RET e EFLAG_SETERR s)"

definition ins_xable :: "WORD \<Rightarrow> tvm \<Rightarrow> result" where
  "ins_xable e s =
     (let chan_ptr = AREG e s;
          chan_value = get_word s chan_ptr
      in if chan_value = NOT_PROCESS_P then
           let s = WORKSPACE_SET (WPTR e s) WS_STATE WAITING_P s;
               s = WORKSPACE_SET (WPTR e s) WS_ECTX e s;
               s = WORKSPACE_SET (WPTR e s) WS_PENDING chan_ptr s;
               s = WORKSPACE_SET (WPTR e s) WS_IPTR (IPTR e s) s;
               s = put_word chan_ptr (WPTR e s OR 1) s
           in run_next_on_queue e s
         else UNDEFINE_STACK_RET e s)"

definition ins_xin :: "WORD \<Rightarrow> tvm \<Rightarrow> result" where
  "ins_xin e s =
     (let data_ptr = CREG e s; chan_ptr = BREG e s; data_len = AREG e s;
          s = UNDEFINE_STACK e s
      in do {
        (ret, requeue, s) \<leftarrow> chan_io e chan_ptr data_ptr data_len channel_input channel_dc_input s;
        (if 0 < ret then Some (ret, s)
         else if ret \<noteq> 0 then SET_ERROR_FLAG_RET e EFLAG_CHAN s
         else if requeue = NOT_PROCESS_P OR 1 then run_next_on_queue e (DESCHEDULE_CURRENT e s)
         else continue (put_word chan_ptr requeue s))})"

definition ins_xend :: "WORD \<Rightarrow> tvm \<Rightarrow> result" where
  "ins_xend e s =
     (let chan_ptr = AREG e s;
          chan_value = get_word s chan_ptr;
          s = UNDEFINE_STACK e s
      in if chan_value \<noteq> NOT_PROCESS_P OR 1 then
           ADD_TO_QUEUE_ECTX_RET e (chan_value AND NOT 1) (put_word chan_ptr NOT_PROCESS_P s)
         else continue s)"

definition ins_null :: "WORD \<Rightarrow> tvm \<Rightarrow> result" where
  "ins_null e s = STACK_RET e NULL_P (AREG e s) (BREG e s) s"

end
