(* ===== verification/Tvm_Semaphore.thy ===== *)
theory Tvm_Semaphore
  imports Tvm_Pi Tvm_Barrier
begin

text \<open>
  What semaphores (\<^verbatim>\<open>ins_pi.c\<close>) and barriers (\<^verbatim>\<open>ins_barrier.c\<close>) promise: a semaphore serves its
  waiting processes first come, first served, and a barrier releases its processes together when
  the last one synchronises.
\<close>

section \<open>Objects of several words\<close>

definition clear_words :: "WORD set \<Rightarrow> WORD \<Rightarrow> nat \<Rightarrow> bool" where
  "clear_words A obj n \<longleftrightarrow> (\<forall>i < n. clear_of A (wordptr_plus obj (of_nat i)) 4)"

lemma clear_words_mono: "clear_words A obj n \<Longrightarrow> B \<subseteq> A \<Longrightarrow> clear_words B obj n"
  by (auto simp: clear_words_def elim: clear_of_mono)

lemma clear_wordsD:
  assumes "clear_words A obj n"
  shows "0 < n \<Longrightarrow> clear_of A obj 4" "1 < n \<Longrightarrow> clear_of A (wordptr_plus obj 1) 4"
    "2 < n \<Longrightarrow> clear_of A (wordptr_plus obj 2) 4" "3 < n \<Longrightarrow> clear_of A (wordptr_plus obj 3) 4"
  using assms by (auto simp: clear_words_def wordptr_plus_def dest: spec [of _ 0] spec [of _ "1 :: nat"]
      spec [of _ "2 :: nat"] spec [of _ "3 :: nat"])

lemma object_words [simp]:
  "apart 4 p (wordptr_plus p 1)" "apart 4 (wordptr_plus p 1) p"
  "apart 4 p (wordptr_plus p 2)" "apart 4 (wordptr_plus p 2) p"
  "apart 4 p (wordptr_plus p 3)" "apart 4 (wordptr_plus p 3) p"
  "apart 4 (wordptr_plus p 1) (wordptr_plus p 2)" "apart 4 (wordptr_plus p 2) (wordptr_plus p 1)"
  "apart 4 (wordptr_plus p 1) (wordptr_plus p 3)" "apart 4 (wordptr_plus p 3) (wordptr_plus p 1)"
  "apart 4 (wordptr_plus p 2) (wordptr_plus p 3)" "apart 4 (wordptr_plus p 3) (wordptr_plus p 2)"
  by (simp_all add: apart_def wordptr_plus_def)

lemma wordptr_plus_0 [simp]: "wordptr_plus p 0 = p"
  by (simp add: wordptr_plus_def)

lemma linked_put_word:
  "clear_of A p 4 \<Longrightarrow> set ps \<subseteq> A \<Longrightarrow> k \<le> 6 \<Longrightarrow> linked (put_word p v s) k ps = linked s k ps"
  by (rule linked_cong) (auto intro: put_word_clear_GET)

section \<open>The queue of a semaphore\<close>

definition sem_valid :: "WORD \<Rightarrow> WORD list \<Rightarrow> bool" where
  "sem_valid sem q \<longleftrightarrow> ws_list q \<and> clear_words (set q) sem 2"

definition sem_queue :: "WORD \<Rightarrow> tvm \<Rightarrow> WORD list \<Rightarrow> bool" where
  "sem_queue sem s q \<longleftrightarrow> sem_valid sem q \<and> linked s WS_LINK q \<and>
     (if q = [] then get_word s sem = NOT_PROCESS_P
      else get_word s sem = hd q \<and> get_word s (wordptr_plus sem 1) = last q \<and>
        WORKSPACE_GET s (last q) WS_LINK = NOT_PROCESS_P)"

text \<open>Process \<open>p\<close> joins when it runs and finds the semaphore claimed.\<close>

definition sem_enq :: "WORD \<Rightarrow> WORD \<Rightarrow> WORD \<Rightarrow> tvm \<Rightarrow> tvm" where
  "sem_enq e sem p s = sem_join e sem (set_WPTR e p s)"

definition sem_deq :: "WORD \<Rightarrow> tvm \<Rightarrow> (WORD \<times> tvm) option" where
  "sem_deq sem s =
     (if get_word s sem = NOT_PROCESS_P then None else Some (get_word s sem, sem_leave sem s))"

lemma sem_enq_queue:
  assumes q: "sem_queue sem s q" and v: "sem_valid sem (q @ [p])"
  shows "sem_queue sem (sem_enq e sem p s) (q @ [p])"
proof -
  let ?A = "set (q @ [p])"
  let ?s = "set_WPTR e p s"
  let ?s1 = "WORKSPACE_SET p WS_IPTR (IPTR e s) (WORKSPACE_SET p WS_ECTX e (WORKSPACE_SET p WS_LINK NOT_PROCESS_P ?s))"
  have A: "ws_set ?A" and p: "p \<notin> set q" "p \<noteq> 0" "p \<in> ?A"
    using v by (auto simp: sem_valid_def ws_list_iff ws_set_def)
  have c: "clear_of ?A sem 4" "clear_of ?A (wordptr_plus sem 1) 4"
    using v clear_wordsD [of ?A sem 2] by (auto simp: sem_valid_def)
  note GS = WORKSPACE_GET_SET [OF A] and PG = put_word_clear_GET [OF c(1)] put_word_clear_GET [OF c(2)]
  note SC = WORKSPACE_SET_clear_word [OF c(1)] WORKSPACE_SET_clear_word [OF c(2)]
  have link1: "WORKSPACE_GET ?s1 r WS_LINK = (if r = p then 0 else WORKSPACE_GET s r WS_LINK)" if "r \<in> ?A" for r
    using that p(3) by (simp add: GS)
  have words1: "get_word ?s1 sem = get_word s sem" "get_word ?s1 (wordptr_plus sem 1) = get_word s (wordptr_plus sem 1)"
    using p(3) by (simp_all add: SC)
  show ?thesis
  proof (cases "q = []")
    case True
    then have "sem_enq e sem p s = put_word (wordptr_plus sem 1) p (put_word sem p ?s1)"
      using q by (simp add: sem_enq_def sem_join_def sem_queue_def Let_def)
    then show ?thesis
      using True v link1 [of p] p by (simp add: sem_queue_def PG read_write_word_other)
  next
    case False
    let ?l = "last q"
    have "ws_list q" using v by (auto simp: sem_valid_def dest: ws_list_appendD)
    then have "hd q \<noteq> 0" by (rule ws_list_nonzero) (rule hd_in_set [OF False])
    then have l: "?l \<in> ?A" "?l \<noteq> p" "hd q \<noteq> 0" using False p by auto
    have eq: "sem_enq e sem p s = put_word (wordptr_plus sem 1) p (WORKSPACE_SET ?l WS_LINK p ?s1)"
      using q False l words1 by (simp add: sem_enq_def sem_join_def sem_queue_def Let_def)
    have link: "WORKSPACE_GET (sem_enq e sem p s) r WS_LINK =
        (if r = ?l then p else if r = p then 0 else WORKSPACE_GET s r WS_LINK)" if "r \<in> ?A" for r
      unfolding eq using that l p(3) by (simp add: PG GS)
    have "linked (sem_enq e sem p s) WS_LINK (q @ [p])"
    proof -
      have ws: "ws_list q" using v by (auto simp: sem_valid_def dest: ws_list_appendD)
      have "linked s WS_LINK q" using q by (simp add: sem_queue_def)
      then have "linked ?s1 WS_LINK q"
        using link1 p by (subst linked_cong [of q ?s1 _ s]) auto
      then have "linked (WORKSPACE_SET ?l WS_LINK p ?s1) WS_LINK q"
        using linked_SET_last [OF ws _ False, of WS_LINK p ?s1] by simp
      then show ?thesis
        using False unfolding eq by (subst linked_put_word [OF c(2)]) (auto simp: linked_append)
    qed
    then show ?thesis
      using v l link [of p] p False words1 q unfolding sem_queue_def
      by (simp add: eq SC read_write_word_other)
  qed
qed

lemma sem_deq_queue:
  assumes "sem_queue sem s (p # q)"
  shows "\<exists>s'. sem_deq sem s = Some (p, s') \<and> sem_queue sem s' q"
proof -
  have v: "sem_valid sem (p # q)" and f: "get_word s sem = p" and p: "p \<noteq> 0" "p \<notin> set q"
    using assms by (auto simp: sem_queue_def sem_valid_def ws_list_Cons)
  have c: "clear_of (set (p # q)) sem 4"
    using v clear_wordsD(1) [of "set (p # q)" sem 2] by (simp add: sem_valid_def)
  have q: "sem_valid sem q"
    using v by (auto simp: sem_valid_def ws_list_Cons intro: clear_words_mono)
  have "linked (sem_leave sem s) WS_LINK q"
    using assms unfolding sem_leave_def Let_def
    by (subst linked_put_word [of "set (p # q)"]) (use c in \<open>auto simp: sem_queue_def linked_Cons\<close>)
  then have "sem_queue sem (sem_leave sem s) q"
    using assms q f put_word_clear_GET [OF c]
    by (cases "q = []") (auto simp: sem_queue_def sem_leave_def Let_def linked_Cons read_write_word_other)
  then show ?thesis using f p by (simp add: sem_deq_def)
qed

interpretation sem_q: process_queue "sem_enq e sem" "sem_deq sem" "sem_queue sem" "sem_valid sem" for e sem
proof
  fix s q p assume "sem_queue sem s q" "sem_valid sem (q @ [p])"
  then show "sem_queue sem (sem_enq e sem p s) (q @ [p])" by (rule sem_enq_queue)
next
  fix s p q assume "sem_queue sem s (p # q)"
  then show "\<exists>s'. sem_deq sem s = Some (p, s') \<and> sem_queue sem s' q" by (rule sem_deq_queue)
next
  fix s assume "sem_queue sem s []"
  then show "sem_deq sem s = None" by (simp add: sem_queue_def sem_deq_def)
next
  fix q r assume "sem_valid sem (q @ r)"
  then show "sem_valid sem q"
    by (auto simp: sem_valid_def dest: ws_list_appendD intro: clear_words_mono)
qed

text \<open>C19: a semaphore serves its processes first come, first served: whatever processes join a
  queue, releases take out those that waited first and then the others in the order in which they
  came, until the queue is empty.\<close>

theorem semaphore_fifo:
  assumes "sem_queue sem s q" "sem_valid sem (q @ ps)"
  shows "\<exists>s'. sem_q.deq_many sem (length q + length ps) (fold (sem_enq e sem) ps s) = Some (q @ ps, s') \<and>
    sem_queue sem s' []"
  using assms by (rule sem_q.fifo)

text \<open>The run queue of a context is first in, first out: adding processes and then taking the
  next one as often returns those that were there and the new ones, in order.\<close>

lemma run_queue_fifo:
  assumes "run_queue e s q" "ws_list (q @ ps)"
  shows "\<exists>s'. run_q.deq_many e (length q + length ps) (fold (add_to_queue e) ps s) = Some (q @ ps, s') \<and>
    run_queue e s' []"
  using assms by (rule run_q.fifo)

section \<open>Release\<close>

lemma add_to_queue_link:
  assumes "run_queue e s rq" "ws_set A" "ws \<in> A" "set rq \<subseteq> A" "q \<in> A" "q \<noteq> ws" "q \<notin> set rq"
  shows "WORKSPACE_GET (add_to_queue e ws s) q WS_LINK = WORKSPACE_GET s q WS_LINK"
proof (cases "rq = []")
  case True
  with assms show ?thesis
    by (simp add: add_to_queue_def run_queue_def Let_def WORKSPACE_GET_SET [OF assms(2)])
next
  case False
  then have "last rq \<in> A" "last rq \<noteq> q" "BPTR e s = last rq" "FPTR e s \<noteq> 0"
    using assms run_queue_front [OF assms(1)] by (auto simp: run_queue_def)
  with assms show ?thesis
    by (simp add: add_to_queue_def Let_def WORKSPACE_GET_SET [OF assms(2)])
qed

lemma get_word_add_to_queue:
  assumes "run_queue e s rq" "clear_of (insert ws (set rq)) p 4"
  shows "get_word (add_to_queue e ws s) p = get_word s p"
  by (rule get_word_cong) (rule mem_add_to_queue_outside [OF assms(1)], rule clear_of_outside [OF assms(2)])

lemma sem_queue_cong:
  assumes "sem_queue sem s q" "get_word s' sem = get_word s sem"
    "get_word s' (wordptr_plus sem 1) = get_word s (wordptr_plus sem 1)"
    "\<And>p. p \<in> set q \<Longrightarrow> WORKSPACE_GET s' p WS_LINK = WORKSPACE_GET s p WS_LINK"
  shows "sem_queue sem s' q"
proof -
  have "linked s' WS_LINK q = linked s WS_LINK q" using assms(4) by (rule linked_cong)
  with assms show ?thesis by (auto simp: sem_queue_def)
qed

text \<open>Releasing a semaphore. With nobody waiting it becomes free; otherwise it stays claimed
  for the process that waited longest, which leaves the queue and joins the run queue.\<close>

lemma sem_release_wakes_first:
  assumes "sem_queue sem s q" "run_queue e s rq" "ws_list (rq @ q)" "clear_words (set (rq @ q)) sem 2"
    and "q \<noteq> [] \<longrightarrow> WORKSPACE_GET s (hd q) WS_ECTX = e"
  shows "\<exists>s'. tvm_sem_release e sem s = Some (ECTX_CONTINUE, s') \<and>
    (if q = [] then get_word s' sem = 1 \<and> run_queue e s' rq
     else sem_queue sem s' (tl q) \<and> run_queue e s' (rq @ [hd q]))"
proof -
  let ?A = "set (rq @ q)"
  have A: "ws_set ?A" and d: "set rq \<inter> set q = {}" using assms(3) by (auto simp: ws_list_iff)
  have c: "clear_of ?A sem 4" "clear_of ?A (wordptr_plus sem 1) 4"
    using clear_wordsD [OF assms(4)] by auto
  have rq_put: "run_queue e (put_word sem v s) rq" for v
    by (rule run_queue_cong [OF assms(2)]) (auto intro: put_word_clear_GET [OF c(1)])
  show ?thesis
  proof (cases q)
    case Nil
    then show ?thesis
      using assms(1) rq_put by (simp add: tvm_sem_release_def sem_queue_def step_defs)
  next
    case (Cons p q')
    have f: "get_word s sem = p" "p \<noteq> 0"
      using assms(1) Cons by (auto simp: sem_queue_def sem_valid_def ws_list_Cons)
    let ?s1 = "sem_leave sem s"
    have s1: "sem_queue sem ?s1 q'"
      using sem_deq_queue [of sem s p q'] assms(1) Cons f by (simp add: sem_deq_def)
    have rq1: "run_queue e ?s1 rq" by (simp add: sem_leave_def Let_def rq_put)
    have "ws_list (rq @ [p])" using assms(3) Cons ws_list_appendD [of "rq @ [p]" q'] by simp
    then have rq2: "run_queue e (add_to_queue e p ?s1) (rq @ [p])"
      using rq1 by (rule add_to_queue_run_queue [rotated])
    have sub: "insert p (set rq) \<subseteq> ?A" using Cons by auto
    have "sem_queue sem (add_to_queue e p ?s1) q'"
    proof (rule sem_queue_cong [OF s1])
      show "get_word (add_to_queue e p ?s1) sem = get_word ?s1 sem"
        by (rule get_word_add_to_queue [OF rq1 clear_of_mono [OF c(1) sub]])
      show "get_word (add_to_queue e p ?s1) (wordptr_plus sem 1) = get_word ?s1 (wordptr_plus sem 1)"
        by (rule get_word_add_to_queue [OF rq1 clear_of_mono [OF c(2) sub]])
      fix r assume "r \<in> set q'"
      moreover have "p \<notin> set q'" using s1 assms(3) Cons by (auto simp: ws_list_def)
      ultimately show "WORKSPACE_GET (add_to_queue e p ?s1) r WS_LINK = WORKSPACE_GET ?s1 r WS_LINK"
        using sub d Cons by (intro add_to_queue_link [OF rq1 A]) auto
    qed
    moreover have "WORKSPACE_GET ?s1 p WS_ECTX = e"
      using assms(5) Cons put_word_clear_GET [OF c(1), of p] by (simp add: sem_leave_def Let_def)
    ultimately show ?thesis
      using rq2 Cons f
      by (simp add: tvm_sem_release_def Let_def ADD_TO_QUEUE_ECTX_RET_def ADD_TO_QUEUE_ECTX_def)
  qed
qed

section \<open>Barriers\<close>

definition bar_state :: "WORD \<Rightarrow> tvm \<Rightarrow> WORD \<Rightarrow> WORD \<Rightarrow> WORD list \<Rightarrow> bool" where
  "bar_state bar s enrolled count q \<longleftrightarrow>
     get_word s bar = enrolled \<and> get_word s (wordptr_plus bar 1) = count \<and>
     ws_list q \<and> linked s WS_LINK q \<and>
     (if q = [] then get_word s (wordptr_plus bar 2) = NOT_PROCESS_P \<and> get_word s (wordptr_plus bar 3) = NOT_PROCESS_P
      else get_word s (wordptr_plus bar 2) = hd q \<and> get_word s (wordptr_plus bar 3) = last q)"

lemma bar_wait_state:
  assumes b: "bar_state bar s n c q" and ws: "ws_list (q @ [p])" and cl: "clear_words (set (q @ [p])) bar 4"
    and p: "WPTR e s = p"
  shows "bar_state bar (bar_wait e bar c s) n (c - 1) (q @ [p])"
proof -
  let ?A = "set (q @ [p])"
  let ?b = "get_word s (wordptr_plus bar 3)"
  let ?s1 = "WORKSPACE_SET p WS_IPTR (IPTR e s) (WORKSPACE_SET p WS_ECTX e (WORKSPACE_SET p WS_LINK ?b
    (put_word (wordptr_plus bar 1) (c - 1) s)))"
  have A: "ws_set ?A" and pA: "p \<notin> set q" "p \<noteq> 0" "p \<in> ?A" "ws_list q"
    using ws by (auto simp: ws_list_iff ws_set_def)
  note c = clear_wordsD [OF cl, simplified]
  note GS = WORKSPACE_GET_SET [OF A] and PG = c [THEN put_word_clear_GET]
  note SC = c [THEN WORKSPACE_SET_clear_word]
  have words1: "get_word ?s1 bar = n" "get_word ?s1 (wordptr_plus bar 1) = c - 1"
    "get_word ?s1 (wordptr_plus bar 2) = get_word s (wordptr_plus bar 2)"
    using b by (simp_all add: SC read_write_word_other bar_state_def)
  have link1: "WORKSPACE_GET ?s1 r WS_LINK = WORKSPACE_GET s r WS_LINK" if "r \<in> set q" for r
    using that pA by (auto simp: GS PG)
  have q1: "linked ?s1 WS_LINK q"
    using b link1 by (subst linked_cong [of q ?s1 _ s]) (auto simp: bar_state_def)
  show ?thesis
  proof (cases "q = []")
    case True
    then have "bar_wait e bar c s = put_word (wordptr_plus bar 3) p (put_word (wordptr_plus bar 2) p ?s1)"
      using b p by (simp add: bar_wait_def bar_state_def Let_def)
    then show ?thesis
      using True ws words1 by (simp add: bar_state_def read_write_word_other)
  next
    case False
    have l: "?b = last q" "last q \<noteq> 0" "last q \<in> ?A" "last q \<noteq> p"
      using b False pA ws_list_nonzero [OF pA(4), of "last q"] by (auto simp: bar_state_def)
    then have eq: "bar_wait e bar c s = put_word (wordptr_plus bar 3) p (WORKSPACE_SET (last q) WS_LINK p ?s1)"
      using p by (simp add: bar_wait_def Let_def)
    have "linked (WORKSPACE_SET (last q) WS_LINK p ?s1) WS_LINK q"
      using linked_SET_last [OF pA(4) _ False, of WS_LINK p ?s1] q1 by simp
    then have "linked (WORKSPACE_SET (last q) WS_LINK p ?s1) WS_LINK (q @ [p])"
      using False by (auto simp: linked_append)
    then have "linked (bar_wait e bar c s) WS_LINK (q @ [p])"
      unfolding eq by (subst linked_put_word [OF c(4)]) auto
    then show ?thesis
      using False ws words1 l b unfolding eq bar_state_def
      by (simp add: SC read_write_word_other)
  qed
qed

lemma bar_wait_GET:
  assumes b: "bar_state bar s n c q" and A: "ws_set A" "set (q @ [WPTR e s]) \<subseteq> A" and cl: "clear_words A bar 4"
    and r: "r \<in> A" "r \<notin> set q" "r \<noteq> WPTR e s" "k \<le> 6"
  shows "WORKSPACE_GET (bar_wait e bar m s) r k = WORKSPACE_GET s r k"
proof -
  note c = clear_wordsD [OF cl, simplified]
  note GS = WORKSPACE_GET_SET [OF A(1)] and PG = c [THEN put_word_clear_GET]
  have p: "WPTR e s \<in> A" using A(2) by simp
  show ?thesis
  proof (cases "q = []")
    case True
    then show ?thesis
      using b r p by (simp add: bar_wait_def bar_state_def Let_def GS PG)
  next
    case False
    then have "get_word s (wordptr_plus bar 3) = last q" "last q \<in> A" "last q \<noteq> r"
      using b A(2) r by (auto simp: bar_state_def)
    then show ?thesis
      using r p by (auto simp: bar_wait_def Let_def GS PG)
  qed
qed

lemma bar_wait_run_queue:
  assumes b: "bar_state bar s n c q" and rq: "run_queue e s rq"
    and ws: "ws_list (q @ [WPTR e s] @ rq)" "clear_words (set (q @ [WPTR e s] @ rq)) bar 4"
  shows "run_queue e (bar_wait e bar m s) rq"
proof (rule run_queue_cong [OF rq])
  fix r assume r: "r \<in> set rq"
  then have "r \<notin> set q" "r \<noteq> WPTR e s" using ws(1) by (auto simp: ws_list_def)
  then show "WORKSPACE_GET (bar_wait e bar m s) r WS_LINK = WORKSPACE_GET s r WS_LINK"
    using ws r by (intro bar_wait_GET [OF b _ _ ws(2)]) (auto simp: ws_list_iff)
qed (simp_all add: bar_wait_def Let_def)

lemma mem_add_queue_to_queue_outside:
  assumes "run_queue e s rq" "outside (insert back (set rq)) x"
  shows "mem (add_queue_to_queue e front back s) x = mem s x"
proof (cases "rq = []")
  case True
  with assms show ?thesis
    by (simp add: add_queue_to_queue_def run_queue_def Let_def mem_WORKSPACE_SET_outside [OF assms(2)])
next
  case False
  then have "BPTR e s \<in> set rq" "FPTR e s \<noteq> 0"
    using assms(1) run_queue_front [OF assms(1)] by (auto simp: run_queue_def)
  with assms show ?thesis
    by (simp add: add_queue_to_queue_def Let_def mem_WORKSPACE_SET_outside [OF assms(2)])
qed

lemma bar_complete_state:
  assumes b: "bar_state bar s n c q" and rq: "run_queue e s rq"
    and ws: "ws_list (rq @ q)" and cl: "clear_words (set (rq @ q)) bar 4"
  shows "bar_state bar (tvm_bar_complete e bar s) n n [] \<and> run_queue e (tvm_bar_complete e bar s) (rq @ q)"
proof -
  note c = clear_wordsD [OF cl, simplified]
  note PG = c [THEN put_word_clear_GET]
  let ?s1 = "put_word (wordptr_plus bar 3) 0 (put_word (wordptr_plus bar 2) 0 (put_word (wordptr_plus bar 1) n s))"
  have words: "get_word ?s1 bar = n" "get_word ?s1 (wordptr_plus bar 1) = n"
    "get_word ?s1 (wordptr_plus bar 2) = 0" "get_word ?s1 (wordptr_plus bar 3) = 0"
    using b by (simp_all add: bar_state_def read_write_word_other)
  have rq1: "run_queue e ?s1 rq" by (rule run_queue_cong [OF rq]) (simp_all add: PG)
  show ?thesis
  proof (cases "q = []")
    case True
    then have "tvm_bar_complete e bar s = ?s1"
      using b by (simp add: tvm_bar_complete_def bar_state_def Let_def)
    then show ?thesis using True words rq1 by (simp add: bar_state_def)
  next
    case False
    have "hd q \<noteq> 0" using ws hd_in_set [OF False] by (auto simp: ws_list_def)
    then have eq: "tvm_bar_complete e bar s = add_queue_to_queue e (hd q) (last q) ?s1"
      using b False by (simp add: tvm_bar_complete_def bar_state_def Let_def)
    have "linked ?s1 WS_LINK q"
      using b by (subst linked_cong [of q ?s1 _ s]) (auto simp: PG bar_state_def)
    then have 1: "run_queue e (tvm_bar_complete e bar s) (rq @ q)"
      unfolding eq by (intro add_queue_to_queue_run_queue rq1 ws False)
    have "insert (last q) (set rq) \<subseteq> set (rq @ q)" using False by auto
    then have "get_word (tvm_bar_complete e bar s) w = get_word ?s1 w" if "clear_of (set (rq @ q)) w 4" for w
      unfolding eq using that
      by (intro get_word_cong mem_add_queue_to_queue_outside [OF rq1])
        (auto intro: outside_mono clear_of_outside)
    then show ?thesis using 1 words c by (simp add: bar_state_def)
  qed
qed

text \<open>Every process of a round synchronises when its turn comes, until one is told to stop.\<close>

fun sync_steps :: "nat \<Rightarrow> WORD \<Rightarrow> WORD \<Rightarrow> tvm \<Rightarrow> result" where
  "sync_steps 0 e bar s = continue s"
| "sync_steps (Suc k) e bar s =
     (case tvm_bar_sync e bar s of None \<Rightarrow> None
      | Some (ret, s) \<Rightarrow> if ret = ECTX_CONTINUE then sync_steps k e bar s else Some (ret, s))"

definition bar_round :: "WORD \<Rightarrow> WORD \<Rightarrow> tvm \<Rightarrow> WORD list \<Rightarrow> WORD list \<Rightarrow> bool" where
  "bar_round e bar s q ps \<longleftrightarrow>
     bar_state bar s (of_nat (length q + length ps)) (of_nat (length ps)) q \<and>
     ps \<noteq> [] \<and> WPTR e s = hd ps \<and> run_queue e s (tl ps) \<and> sflags (ectxs s e) = 0"

lemma bar_state_mem: "mem s' = mem s \<Longrightarrow> bar_state bar s' n c q = bar_state bar s n c q"
proof -
  assume "mem s' = mem s"
  then have "linked s' WS_LINK q = linked s WS_LINK q" "get_word s' = get_word s"
    by (auto intro!: linked_cong simp: WORKSPACE_GET_def)
  then show ?thesis by (simp add: bar_state_def)
qed

lemma sflags_run_next:
  assumes "sflags (ectxs s e) = 0" "run_next_on_queue e s = Some (r, s')"
  shows "sflags (ectxs s' e) = 0"
proof -
  have "s' = snd (take_next e s)" using assms by (simp add: run_next_on_queue_def)
  then show ?thesis using assms(1) by (simp add: take_next_def Let_def)
qed

lemma bar_round_step:
  assumes r: "bar_round e bar s q (p # p' # ps)" and len: "length q + length (p # p' # ps) < 4294967296"
    and ws: "ws_list (q @ p # p' # ps)" "clear_words (set (q @ p # p' # ps)) bar 4"
  shows "\<exists>s'. tvm_bar_sync e bar s = Some (ECTX_CONTINUE, s') \<and> bar_round e bar s' (q @ [p]) (p' # ps)"
proof -
  let ?n = "of_nat (length q + length (p # p' # ps)) :: WORD" and ?c = "of_nat (length (p # p' # ps)) :: WORD"
  let ?w = "bar_wait e bar ?c s"
  note b = r [unfolded bar_round_def]
  have c: "get_word s (wordptr_plus bar 1) = ?c" using b by (simp add: bar_state_def)
  have "unat ?c = length (p # p' # ps)" using len by (intro unat_word_of_nat) simp
  then have gt: "?c > 1" by (simp add: word_less_nat_alt)
  have "ws_list (q @ [p])" using ws_list_appendD [of "q @ [p]" "p' # ps"] ws by simp
  then have st: "bar_state bar ?w ?n (?c - 1) (q @ [p])"
    using b ws by (intro bar_wait_state) (auto intro: clear_words_mono)
  have "ws_list (q @ [WPTR e s] @ p' # ps)" "clear_words (set (q @ [WPTR e s] @ p' # ps)) bar 4"
    using b ws by auto
  then have rq: "run_queue e ?w (p' # ps)"
    using b bar_wait_run_queue [of bar s ?n ?c q e "p' # ps" ?c] by auto
  have sf: "sflags (ectxs ?w e) = 0" using b by (simp add: bar_wait_def Let_def)
  obtain s' where s': "run_next_on_queue e ?w = Some (ECTX_CONTINUE, s')" "WPTR e s' = p'" "run_queue e s' ps"
    "mem s' = mem ?w"
    using run_next_of_queue [OF rq sf] by auto
  have nc: "of_nat (length (q @ [p]) + length (p' # ps)) = ?n" "of_nat (length (p' # ps)) = ?c - 1" by simp_all
  have "bar_state bar s' ?n (?c - 1) (q @ [p])"
    using st by (rule bar_state_mem [OF s'(4), THEN iffD2])
  then have "bar_round e bar s' (q @ [p]) (p' # ps)"
    unfolding bar_round_def nc using s'(2,3) sflags_run_next [OF sf s'(1)] by simp
  moreover have "tvm_bar_sync e bar s = run_next_on_queue e ?w"
    unfolding tvm_bar_sync_def c Let_def using gt by (simp only: if_True)
  ultimately show ?thesis using s'(1) by auto
qed

lemma bar_round_last:
  assumes r: "bar_round e bar s q [p]"
    and ws: "ws_list (q @ [p])" "clear_words (set (q @ [p])) bar 4"
  shows "\<exists>s'. tvm_bar_sync e bar s = Some (ECTX_CONTINUE, s') \<and> WPTR e s' = p \<and>
    bar_state bar s' (of_nat (length q + 1)) (of_nat (length q + 1)) [] \<and> run_queue e s' q"
proof -
  note b = r [unfolded bar_round_def]
  have st: "bar_state bar s (of_nat (length q + 1)) 1 q" "run_queue e s []" using b by auto
  then have c: "get_word s (wordptr_plus bar 1) = 1" by (simp add: bar_state_def)
  have "ws_list ([] @ q)" "clear_words (set ([] @ q)) bar 4"
    using ws by (auto dest: ws_list_appendD intro: clear_words_mono)
  from bar_complete_state [OF st this] c b show ?thesis
    by (simp add: tvm_bar_sync_def continue_def tvm_bar_complete_def add_queue_to_queue_def Let_def)
qed

lemma bar_round_all:
  assumes "bar_round e bar s q ps" "length q + length ps < 4294967296"
    and "ws_list (q @ ps)" "clear_words (set (q @ ps)) bar 4"
  shows "\<exists>s'. sync_steps (length ps) e bar s = Some (ECTX_CONTINUE, s') \<and> WPTR e s' = last ps \<and>
    bar_state bar s' (of_nat (length q + length ps)) (of_nat (length q + length ps)) [] \<and>
    run_queue e s' (q @ butlast ps)"
  using assms
proof (induction ps arbitrary: q s)
  case Nil
  then show ?case by (simp add: bar_round_def)
next
  case (Cons p ps)
  show ?case
  proof (cases ps)
    case Nil
    then show ?thesis
      using bar_round_last [of e bar s q p] Cons.prems by (auto simp: continue_def)
  next
    case (Cons p' ps')
    then obtain s' where s': "tvm_bar_sync e bar s = Some (ECTX_CONTINUE, s')" "bar_round e bar s' (q @ [p]) ps"
      using bar_round_step [of e bar s q p p' ps'] Cons.prems by auto
    show ?thesis
      using Cons.IH [OF s'(2)] Cons.prems s'(1) Cons by simp
  qed
qed

text \<open>C18: a round of a barrier. When as many processes as are enrolled synchronise, the first
  running and the others queued behind it, every process but the last waits and gives way to the
  next, and the last carries on; the waiting processes are then all on the run queue, in the order
  in which they arrived, and the barrier is ready for the next round.\<close>

theorem barrier_round:
  assumes "bar_state bar s (of_nat (length ps)) (of_nat (length ps)) []" "length ps < 4294967296"
    and "WPTR e s = hd ps" "run_queue e s (tl ps)" "ps \<noteq> []" "sflags (ectxs s e) = 0"
    and "ws_list ps" "clear_words (set ps) bar 4"
  shows "\<exists>s'. sync_steps (length ps) e bar s = Some (ECTX_CONTINUE, s') \<and> WPTR e s' = last ps \<and>
    run_queue e s' (butlast ps) \<and> bar_state bar s' (of_nat (length ps)) (of_nat (length ps)) []"
  using bar_round_all [of e bar s "[]" ps] assms by (auto simp: bar_round_def)

lemma word_plus_wraps: "n + k < n \<longleftrightarrow> 4294967296 \<le> unat n + unat (k :: WORD)"
  using unat_less32 [of n] unat_less32 [of k]
  by (simp add: word_less_nat_alt unat_word_ariths) (auto simp: mod_if le_mod_geq)

lemma resign_positive: "k < c \<Longrightarrow> 1 \<le> c - (k :: WORD)"
  by unat_arith

lemma bar_state_put_enrolled:
  assumes "bar_state bar s n c q" "clear_words (set q) bar 4"
  shows "bar_state bar (put_word bar x s) x c q"
  using assms clear_wordsD(1) [OF assms(2)]
  by (auto simp: bar_state_def read_write_word_other linked_put_word)

lemma bar_state_put:
  assumes "bar_state bar s n c q" "clear_words (set q) bar 4"
  shows "bar_state bar (put_word (wordptr_plus bar 1) y (put_word bar x s)) x y q"
  using assms clear_wordsD(1,2) [OF assms(2)]
  by (auto simp: bar_state_def read_write_word_other linked_put_word)

text \<open>Enrolling and resigning. Enrolling adds to both counts and is an error when the number
  enrolled would wrap round. Resigning takes from both and is an error when there are not so many;
  when the processes that resign are the only ones still awaited, the barrier completes: those
  that wait are released and the count starts again from the number that stay enrolled.\<close>

lemma barrier_enroll_resign:
  assumes "bar_state bar s n c q" "run_queue e s rq" "ws_list (rq @ q)" "clear_words (set (rq @ q)) bar 4"
    and "c \<le> n"
  shows "(if unat n + unat k < 2 ^ 32
      then \<exists>s'. tvm_bar_enroll e bar k s = Some (ECTX_CONTINUE, s') \<and> bar_state bar s' (n + k) (c + k) q
      else raises e EFLAG_BAR s (tvm_bar_enroll e bar k s)) \<and>
    (if k \<le> c
     then \<exists>s'. tvm_bar_resign e bar k s = Some (ECTX_CONTINUE, s') \<and>
       (if k = c then bar_state bar s' (n - k) (n - k) [] \<and> run_queue e s' (rq @ q)
        else bar_state bar s' (n - k) (c - k) q)
     else raises e EFLAG_BAR s (tvm_bar_resign e bar k s))"
proof -
  have w: "get_word s bar = n" "get_word s (wordptr_plus bar 1) = c"
    using assms(1) by (simp_all add: bar_state_def)
  have q: "clear_words (set q) bar 4" using assms(4) by (auto intro: clear_words_mono)
  have wrap: "n + k < n \<longleftrightarrow> \<not> unat n + unat k < 2 ^ 32" by (simp add: word_plus_wraps not_less)
  have 1: "tvm_bar_enroll e bar k s =
      Some (ECTX_CONTINUE, put_word (wordptr_plus bar 1) (c + k) (put_word bar (n + k) s))" if "\<not> n + k < n"
    using that w by (simp add: tvm_bar_enroll_def Let_def continue_def)
  have 2: "raises e EFLAG_BAR s (tvm_bar_enroll e bar k s)" if "n + k < n"
    using that w by (simp add: tvm_bar_enroll_def Let_def)
  have 3: "tvm_bar_resign e bar k s =
      Some (ECTX_CONTINUE, put_word (wordptr_plus bar 1) (c - k) (put_word bar (n - k) s))" if "k < c"
    using that assms(5) w by (simp add: tvm_bar_resign_def Let_def continue_def resign_positive leD less_imp_le)
  have 4: "tvm_bar_resign e bar c s = Some (ECTX_CONTINUE, tvm_bar_complete e bar (put_word bar (n - c) s))"
    using assms(5) w by (simp add: tvm_bar_resign_def Let_def continue_def leD not_le)
  have 5: "raises e EFLAG_BAR s (tvm_bar_resign e bar k s)" if "\<not> k \<le> c"
    using that w by (simp add: tvm_bar_resign_def Let_def not_le)
  have bs: "bar_state bar (put_word (wordptr_plus bar 1) y (put_word bar x s)) x y q" for x y
    using bar_state_put [OF assms(1) q] .
  have "run_queue e (put_word bar x s) rq" for x
    using clear_wordsD(1) [OF assms(4)] by (intro run_queue_cong [OF assms(2)]) (auto simp: put_word_clear_GET)
  moreover have "bar_state bar (put_word bar x s) x c q" for x
    using bar_state_put_enrolled [OF assms(1) q] .
  ultimately have 6: "bar_state bar (tvm_bar_complete e bar (put_word bar x s)) x x [] \<and>
      run_queue e (tvm_bar_complete e bar (put_word bar x s)) (rq @ q)" for x
    using bar_complete_state assms(3,4) by blast
  show ?thesis
    using 1 2 3 4 5 6 bs wrap by (cases "k = c") auto
qed

section \<open>Examples\<close>

text \<open>
  A semaphore at 100 that the process at 4096 holds, with the process at 8192 waiting for it; then
  a barrier at 100 with two processes enrolled, of which one runs and the other is on the run
  queue.
\<close>

definition held_semaphore :: tvm where
  "held_semaphore = set_WPTR 1 4096 (WORKSPACE_SET 8192 WS_ECTX 1
     (put_word 104 8192 (put_word 100 8192 blank)))"

lemma held_semaphore_slots:
  "get_word held_semaphore 100 = 8192" "get_word held_semaphore 104 = 8192"
  "WORKSPACE_GET held_semaphore 8192 WS_ECTX = 1" "WORKSPACE_GET held_semaphore 8192 WS_LINK = 0"
  "FPTR 1 held_semaphore = 0"
  by (simp_all add: held_semaphore_def WORKSPACE_GET_def WORKSPACE_SET_def put_word_def
      read_write_word_other apart_def wordptr_minus_def)

lemma clear_words_Suc:
  "clear_words A obj (Suc n) \<longleftrightarrow> clear_words A obj n \<and> clear_of A (wordptr_plus obj (of_nat n)) 4"
  by (auto simp: clear_words_def less_Suc_eq)

lemma clear_words_numeral:
  "clear_words A obj 2 \<longleftrightarrow> clear_of A obj 4 \<and> clear_of A (wordptr_plus obj 1) 4"
  "clear_words A obj 4 \<longleftrightarrow> clear_words A obj 2 \<and> clear_of A (wordptr_plus obj 2) 4 \<and> clear_of A (wordptr_plus obj 3) 4"
  using clear_words_Suc [of A obj 0] clear_words_Suc [of A obj 1] clear_words_Suc [of A obj 2] clear_words_Suc [of A obj 3]
  by (simp_all add: clear_words_def [of A obj 0] numeral_2_eq_2 [symmetric])

lemma clear_words_example:
  "clear_words {} 100 2" "clear_words {8192} 100 2" "clear_words {8192, 12288} 100 2" "clear_words {8192, 12288} 100 4"
  by (simp_all add: clear_words_numeral clear_of_def disjoint_blocks_def wordptr_plus_def)

lemma held_semaphore_queue: "sem_queue 100 held_semaphore [8192]"
  by (simp add: sem_queue_def sem_valid_def ws_list_def clear_words_example held_semaphore_slots wordptr_plus_def)

theorem semaphore_fifo_witness:
  "\<exists>s'. sem_q.deq_many 100 (Suc (Suc 0)) (sem_enq 1 100 12288 held_semaphore) = Some ([8192, 12288], s')"
  using semaphore_fifo [OF held_semaphore_queue, of "[12288]" 1]
  by (auto simp: sem_valid_def ws_list_def apart_def clear_words_example)

lemma sem_release_wakes_first_witness:
  "\<exists>s'. tvm_sem_release 1 100 held_semaphore = Some (ECTX_CONTINUE, s') \<and> run_queue 1 s' [8192]"
  using sem_release_wakes_first [OF held_semaphore_queue, of 1 "[]"]
  by (auto simp: run_queue_empty held_semaphore_slots clear_words_example ws_list_def)

definition two_at_barrier :: tvm where
  "two_at_barrier = set_WPTR 1 8192 (set_BPTR 1 12288 (set_FPTR 1 12288 (tvm_bar_init 100 2 blank)))"

lemma two_at_barrier_state: "bar_state 100 two_at_barrier 2 2 []"
  by (simp add: bar_state_def two_at_barrier_def tvm_bar_init_def Let_def read_write_word_other apart_def
      wordptr_plus_def)

theorem barrier_round_witness:
  "\<exists>s'. sync_steps (Suc (Suc 0)) 1 100 two_at_barrier = Some (ECTX_CONTINUE, s') \<and> WPTR 1 s' = 12288 \<and> run_queue 1 s' [8192]"
  using barrier_round [of 100 two_at_barrier "[8192, 12288]" 1] two_at_barrier_state
  by (auto simp: two_at_barrier_def tvm_bar_init_def Let_def run_queue_def ws_list_def apart_def
      clear_words_example)

lemma barrier_enroll_resign_witness:
  "\<exists>s'. tvm_bar_enroll 1 100 3 blank = Some (ECTX_CONTINUE, s') \<and> bar_state 100 s' 3 3 []"
  using barrier_enroll_resign [of 100 blank 0 0 "[]" 1 "[]" 3]
  by (auto simp: bar_state_def run_queue_def clear_words_def clear_of_def)

end
