(* ===== verification/Tvm_Short.thy ===== *)
theory Tvm_Short
  imports Tvm_Secondary
begin

text \<open>
  Bytes and sixteen bit quantities, \<^verbatim>\<open>ins_t9000.c\<close>, and the two integer instructions of
  \<^verbatim>\<open>ins_t800.c\<close>. A sixteen bit object is two bytes of memory, the less significant first.
\<close>

section \<open>Sixteen bit objects in memory\<close>

type_synonym HWORD = "16 word"

definition read_int16 :: "memory \<Rightarrow> WORD \<Rightarrow> HWORD" where
  "read_int16 m p = ucast (m p) OR push_bit 8 (ucast (m (p + 1)))"

definition write_int16 :: "memory \<Rightarrow> WORD \<Rightarrow> HWORD \<Rightarrow> memory" where
  "write_int16 m p v = m(p := ucast v, p + 1 := ucast (drop_bit 8 v))"

definition int16ptr_plus :: "WORD \<Rightarrow> WORD \<Rightarrow> WORD" where
  "int16ptr_plus p inc = p + 2 * inc"

section \<open>Instructions\<close>

definition ins_xbword :: "WORD \<Rightarrow> tvm \<Rightarrow> result" where
  "ins_xbword e s = STACK_RET e (scast (ucast (AREG e s AND 0xff) :: BYTE)) (BREG e s) (CREG e s) s"

definition ins_lbx :: "WORD \<Rightarrow> tvm \<Rightarrow> result" where
  "ins_lbx e s =
     (let s = set_AREG e (scast (read_byte (mem s) (AREG e s))) s
      in STACK_RET e (AREG e s) (BREG e s) (CREG e s) s)"

definition ins_cb :: "WORD \<Rightarrow> tvm \<Rightarrow> result" where
  "ins_cb e s =
     error_if (sint (AREG e s) < - 128 \<or> sint (AREG e s) \<ge> 128) e EFLAG_INTERR s (\<lambda>s.
       STACK_RET e (AREG e s) (BREG e s) (CREG e s) s)"

definition ins_cbu :: "WORD \<Rightarrow> tvm \<Rightarrow> result" where
  "ins_cbu e s =
     error_if (AREG e s AND NOT 0xff \<noteq> 0) e EFLAG_INTERR s (\<lambda>s.
       STACK_RET e (AREG e s) (BREG e s) (CREG e s) s)"

definition ins_ssub :: "WORD \<Rightarrow> tvm \<Rightarrow> result" where
  "ins_ssub e s =
     (let ptr = int16ptr_plus (AREG e s) (BREG e s) in STACK2_RET e ptr (CREG e s) s)"

definition ins_cir :: "WORD \<Rightarrow> tvm \<Rightarrow> result" where
  "ins_cir e s =
     error_if (CREG e s <s AREG e s \<or> BREG e s <s CREG e s) e EFLAG_INTERR s (\<lambda>s.
       STACK1_RET e (CREG e s) s)"

definition ins_ss :: "WORD \<Rightarrow> tvm \<Rightarrow> result" where
  "ins_ss e s =
     (let s = s\<lparr>mem := write_int16 (mem s) (AREG e s) (ucast (BREG e s AND 0xffff))\<rparr>
      in STACK1_RET e (CREG e s) s)"

definition ins_ls :: "WORD \<Rightarrow> tvm \<Rightarrow> result" where
  "ins_ls e s =
     (let v = read_int16 (mem s) (AREG e s)
      in STACK_RET e (scast v AND 0xffff) (BREG e s) (CREG e s) s)"

definition ins_ciru :: "WORD \<Rightarrow> tvm \<Rightarrow> result" where
  "ins_ciru e s =
     (let a = AREG e s; b = BREG e s; c = CREG e s
      in error_if (c < a \<or> c > b) e EFLAG_INTERR s (\<lambda>s. STACK1_RET e (CREG e s) s))"

definition ins_xsword :: "WORD \<Rightarrow> tvm \<Rightarrow> result" where
  "ins_xsword e s = STACK_RET e (scast (ucast (AREG e s AND 0xffff) :: HWORD)) (BREG e s) (CREG e s) s"

definition ins_lsx :: "WORD \<Rightarrow> tvm \<Rightarrow> result" where
  "ins_lsx e s =
     (let v = read_int16 (mem s) (AREG e s) in STACK_RET e (scast v) (BREG e s) (CREG e s) s)"

definition ins_cs :: "WORD \<Rightarrow> tvm \<Rightarrow> result" where
  "ins_cs e s =
     error_if (sint (AREG e s) < - 32768 \<or> sint (AREG e s) \<ge> 32768) e EFLAG_INTERR s (\<lambda>s.
       STACK_RET e (AREG e s) (BREG e s) (CREG e s) s)"

definition ins_csu :: "WORD \<Rightarrow> tvm \<Rightarrow> result" where
  "ins_csu e s =
     error_if (AREG e s AND NOT 0xffff \<noteq> 0) e EFLAG_INTERR s (\<lambda>s.
       STACK_RET e (AREG e s) (BREG e s) (CREG e s) s)"

definition ins_dup :: "WORD \<Rightarrow> tvm \<Rightarrow> result" where
  "ins_dup e s = STACK_RET e (AREG e s) (AREG e s) (BREG e s) s"

definition ins_wsubdb :: "WORD \<Rightarrow> tvm \<Rightarrow> result" where
  "ins_wsubdb e s = STACK2_RET e (wordptr_plus (AREG e s) (BREG e s * 2)) (CREG e s) s"

section \<open>Narrow values\<close>

lemma read_write_int16 [simp]: "read_int16 (write_int16 m p v) p = v"
proof -
  have "ucast (ucast v :: BYTE) OR push_bit 8 (ucast (ucast (drop_bit 8 v) :: BYTE)) = v"
    by (rule bit_word_eqI) (auto simp: bit_simps)
  then show ?thesis by (simp add: read_int16_def write_int16_def)
qed

lemma ucast_mask16 [simp]: "ucast (w AND 0xffff :: WORD) = (ucast w :: HWORD)"
proof -
  have m: "0xffff = (mask 16 :: WORD)" by (simp add: mask_eq_exp_minus_1)
  show ?thesis unfolding m by (rule bit_word_eqI) (auto simp: bit_simps)
qed

lemma ucast_mask8 [simp]: "ucast (w AND 0xff :: WORD) = (ucast w :: BYTE)"
proof -
  have m: "0xff = (mask 8 :: WORD)" by (simp add: mask_eq_exp_minus_1)
  show ?thesis unfolding m by (rule bit_word_eqI) (auto simp: bit_simps)
qed

lemma sint_scast16 [simp]: "sint (scast (v :: HWORD) :: WORD) = sint v"
  by (rule sint_up_scast) (simp add: is_up)

lemma sint_scast8 [simp]: "sint (scast (v :: BYTE) :: WORD) = sint v"
  by (rule sint_up_scast) (simp add: is_up)

lemma narrow_wrap:
  fixes x :: int
  assumes "0 < h" "- h \<le> x" "x < h"
  shows "(x + h) mod (2 * h) - h = x"
  using assms by simp

lemma sint_ucast16: "sint (ucast (w :: WORD) :: HWORD) = (sint w + 32768) mod 65536 - 32768"
proof -
  have "(ucast w :: HWORD) = word_of_int (sint w)" by (rule bit_word_eqI) (simp add: bit_simps)
  then have "sint (ucast w :: HWORD) = sint (word_of_int (sint w) :: HWORD)" by (rule arg_cong)
  also have "\<dots> = (sint w + 32768) mod 65536 - 32768"
    by (simp only: sint_sbintrunc') (simp add: signed_take_bit_eq_take_bit_shift take_bit_eq_mod)
  finally show ?thesis .
qed

lemma sint_ucast8: "sint (ucast (w :: WORD) :: BYTE) = (sint w + 128) mod 256 - 128"
proof -
  have "(ucast w :: BYTE) = word_of_int (sint w)" by (rule bit_word_eqI) (simp add: bit_simps)
  then have "sint (ucast w :: BYTE) = sint (word_of_int (sint w) :: BYTE)" by (rule arg_cong)
  also have "\<dots> = (sint w + 128) mod 256 - 128"
    by (simp only: sint_sbintrunc') (simp add: signed_take_bit_eq_take_bit_shift take_bit_eq_mod)
  finally show ?thesis .
qed

lemma and_not_mask_eq_0: "w AND NOT (mask n) = 0 \<longleftrightarrow> uint (w :: WORD) < 2 ^ n"
proof -
  have "w AND NOT (mask n) = 0 \<longleftrightarrow> take_bit n w = w"
    by (auto simp: bit_eq_iff bit_simps not_le)
  also have "\<dots> \<longleftrightarrow> take_bit n (uint w) = uint w"
    by (metis unsigned_take_bit_eq word_uint_eq_iff)
  also have "\<dots> \<longleftrightarrow> uint w < 2 ^ n" by (simp add: take_bit_int_eq_self_iff)
  finally show ?thesis .
qed

lemma unsigned_narrow:
  "w AND NOT 0xff = 0 \<longleftrightarrow> uint (w :: WORD) < 256" "w AND NOT 0xffff = 0 \<longleftrightarrow> uint (w :: WORD) < 65536"
  using and_not_mask_eq_0 [of w 8] and_not_mask_eq_0 [of w 16] by (simp_all add: mask_eq_exp_minus_1)

lemma returns_same: "returns_top e (AREG e s) (BREG e s) s (STACK_RET e (AREG e s) (BREG e s) (CREG e s) s)"
  by (simp add: returns_top_def step_defs upd_ectx_def)

lemma returns_STACK1: "returns_top e a (BREG e s) s (STACK1_RET e a s)"
  by (simp add: returns_top_def step_defs upd_ectx_def)

text \<open>Sign extension and the range checks. \<^verbatim>\<open>xbword\<close> and \<^verbatim>\<open>xsword\<close> read the low
  byte or sixteen bits of \<open>AREG\<close> as a signed number; \<^verbatim>\<open>cb\<close>, \<^verbatim>\<open>cs\<close>, \<^verbatim>\<open>cbu\<close> and
  \<^verbatim>\<open>csu\<close> accept exactly the signed and unsigned values that fit the narrow type and raise
  the error flag on all others.\<close>

lemma narrow_checks:
  "let a = AREG e s; b = BREG e s in
   (\<exists>x. returns_top e x b s (ins_xbword e s) \<and> sint x = (sint a + 128) mod 256 - 128) \<and>
   (\<exists>x. returns_top e x b s (ins_xsword e s) \<and> sint x = (sint a + 32768) mod 65536 - 32768) \<and>
   (if - 128 \<le> sint a \<and> sint a < 128 then returns_top e a b s (ins_cb e s)
    else raises e EFLAG_INTERR s (ins_cb e s)) \<and>
   (if - 32768 \<le> sint a \<and> sint a < 32768 then returns_top e a b s (ins_cs e s)
    else raises e EFLAG_INTERR s (ins_cs e s)) \<and>
   (if uint a < 256 then returns_top e a b s (ins_cbu e s) else raises e EFLAG_INTERR s (ins_cbu e s)) \<and>
   (if uint a < 65536 then returns_top e a b s (ins_csu e s) else raises e EFLAG_INTERR s (ins_csu e s))"
  unfolding Let_def
proof (intro conjI)
  show "\<exists>x. returns_top e x (BREG e s) s (ins_xbword e s) \<and> sint x = (sint (AREG e s) + 128) mod 256 - 128"
    by (rule exI [of _ "scast (ucast (AREG e s) :: BYTE)"])
      (simp add: ins_xbword_def returns_top_def step_defs upd_ectx_def sint_ucast8)
  show "\<exists>x. returns_top e x (BREG e s) s (ins_xsword e s) \<and> sint x = (sint (AREG e s) + 32768) mod 65536 - 32768"
    by (rule exI [of _ "scast (ucast (AREG e s) :: HWORD)"])
      (simp add: ins_xsword_def returns_top_def step_defs upd_ectx_def sint_ucast16)
qed (auto simp: ins_cb_def ins_cs_def ins_cbu_def ins_csu_def unsigned_narrow [simplified] returns_same not_le not_less)

text \<open>The checks against bounds on the stack. \<^verbatim>\<open>cir\<close> accepts the value in \<open>CREG\<close> when
  it lies, as a signed number, between \<open>AREG\<close> and \<open>BREG\<close>, both included, \<^verbatim>\<open>ciru\<close> when
  it does so as an unsigned number; the value is then on top of the stack.\<close>

lemma range_checks:
  "let a = AREG e s; b = BREG e s; c = CREG e s in
   (if sint a \<le> sint c \<and> sint c \<le> sint b then returns_top e c b s (ins_cir e s)
    else raises e EFLAG_INTERR s (ins_cir e s)) \<and>
   (if uint a \<le> uint c \<and> uint c \<le> uint b then returns_top e c b s (ins_ciru e s)
    else raises e EFLAG_INTERR s (ins_ciru e s))"
  by (auto simp: ins_cir_def ins_ciru_def Let_def word_sless_alt word_le_def word_less_def not_le not_less
      returns_STACK1)

text \<open>Storing sixteen bits and loading them again. \<^verbatim>\<open>ss\<close> stores the low half of the
  value; \<^verbatim>\<open>lsx\<close> at the same address returns it sign extended and \<^verbatim>\<open>ls\<close> zero extended,
  so that a value that passed \<^verbatim>\<open>cs\<close> or \<^verbatim>\<open>csu\<close> comes back unchanged. The bytes
  elsewhere keep their values.\<close>

lemma sixteen_store_load:
  "\<exists>s'. ins_ss e s = Some (ECTX_CONTINUE, s') \<and> AREG e s' = CREG e s \<and>
    (let t = set_AREG e (AREG e s) s' in
      (\<exists>x. returns_top e x (BREG e t) t (ins_lsx e t) \<and> sint x = (sint (BREG e s) + 32768) mod 65536 - 32768) \<and>
      (\<exists>x. returns_top e x (BREG e t) t (ins_ls e t) \<and> uint x = uint (BREG e s) mod 65536)) \<and>
    mem s' = (mem s)(AREG e s := mem s' (AREG e s), AREG e s + 1 := mem s' (AREG e s + 1))"
proof -
  let ?a = "AREG e s" and ?v = "ucast (BREG e s) :: HWORD"
  let ?s = "set_AREG e (CREG e s) (s\<lparr>mem := write_int16 (mem s) ?a ?v\<rparr>)"
  let ?t = "set_AREG e ?a ?s"
  have ss: "ins_ss e s = Some (ECTX_CONTINUE, ?s)"
    by (simp add: ins_ss_def step_defs upd_ectx_def)
  have "returns_top e (scast ?v) (BREG e ?t) ?t (ins_lsx e ?t)"
    by (simp add: ins_lsx_def returns_top_def step_defs upd_ectx_def)
  moreover have "returns_top e (scast ?v AND 0xffff) (BREG e ?t) ?t (ins_ls e ?t)"
    by (simp add: ins_ls_def returns_top_def step_defs upd_ectx_def)
  moreover have "uint (scast ?v AND 0xffff :: WORD) = uint (BREG e s) mod 65536"
  proof -
    have m: "0xffff = (mask 16 :: WORD)" by (simp add: mask_eq_exp_minus_1)
    have "(scast ?v AND 0xffff :: WORD) = take_bit 16 (BREG e s)"
      unfolding m by (rule bit_word_eqI) (auto simp: bit_simps)
    then have "uint (scast ?v AND 0xffff :: WORD) = take_bit 16 (uint (BREG e s))"
      by (simp only: unsigned_take_bit_eq)
    then show ?thesis by (simp add: take_bit_eq_mod)
  qed
  moreover have "sint (scast ?v :: WORD) = (sint (BREG e s) + 32768) mod 65536 - 32768"
    by (simp add: sint_ucast16)
  ultimately show ?thesis
    using ss by (intro exI [of _ ?s]) (auto simp: Let_def write_int16_def)
qed

end
