(* ===== verification/Tvm_Interp.thy ===== *)
theory Tvm_Interp
  imports Tvm_Channel
begin

text \<open>
  The interpreter, \<^verbatim>\<open>interpreter.c\<close>: the list of execution contexts of a \<^verbatim>\<open>tvm_t\<close>, the
  fetch and dispatch loop, and the functions that run a context. The jump table the build
  generates and the host's \<^verbatim>\<open>run_hook\<close> are arguments.
\<close>

section \<open>Contexts\<close>

definition tvm_init :: "tvm \<Rightarrow> int \<times> tvm" where
  "tvm_init s = (0, s\<lparr>head := 0, tail := 0\<rparr>)"

definition tvm_ectx_reset :: "WORD \<Rightarrow> tvm \<Rightarrow> tvm" where
  "tvm_ectx_reset e s =
     (let s = upd_ectx e (\<lambda>c. c\<lparr>state := ECTX_INIT, eflags := 0, sflags := 0\<rparr>) s;
          s = set_CREG e 0 (set_BREG e 0 (set_AREG e 0 (set_OREG e 0 s)));
          s = set_WPTR e NOT_PROCESS_P s;
          s = set_FPTR e NOT_PROCESS_P s;
          s = set_BPTR e NOT_PROCESS_P s
      in set_TPTR e NOT_PROCESS_P s)"

definition tvm_ectx_init :: "WORD \<Rightarrow> tvm \<Rightarrow> tvm" where
  "tvm_ectx_init e s =
     (let s = tvm_ectx_reset e s;
          s = upd_ectx e (\<lambda>c. c\<lparr>pri := 0\<rparr>) s;
          s = (if head s = 0 then s\<lparr>head := e\<rparr> else upd_ectx (tail s) (\<lambda>c. c\<lparr>next_ectx := e\<rparr>) s);
          s = s\<lparr>tail := e\<rparr>
      in upd_ectx e (\<lambda>c. c\<lparr>next_ectx := 0\<rparr>) s)"

text \<open>\<open>None\<close>: the context is not on the list, so the loop follows a null pointer.\<close>

partial_function (option) find_previous :: "WORD \<Rightarrow> WORD \<Rightarrow> tvm \<Rightarrow> WORD option" where
  "find_previous e p s =
     (if p = 0 then None
      else if next_ectx (ectxs s p) \<noteq> e then find_previous e (next_ectx (ectxs s p)) s
      else Some p)"

definition tvm_ectx_release :: "WORD \<Rightarrow> tvm \<Rightarrow> tvm option" where
  "tvm_ectx_release e s =
     map_option (upd_ectx e (\<lambda>c. c\<lparr>next_ectx := 0\<rparr>))
       (if e = head s then Some (s\<lparr>head := next_ectx (ectxs s e)\<rparr>)
        else map_option (\<lambda>p. upd_ectx p (\<lambda>c. c\<lparr>next_ectx := next_ectx (ectxs s e)\<rparr>) s)
          (find_previous e (head s) s))"

section \<open>Memory for a context\<close>

abbreviation (input) WS_PAD :: WORD where "WS_PAD \<equiv> 4"
abbreviation (input) VS_PAD :: WORD where "VS_PAD \<equiv> 1"

definition calc_frame_size :: "WORD \<Rightarrow> WORD \<Rightarrow> bool \<Rightarrow> WORD" where
  "calc_frame_size argc vs pad =
     (let frame_size = 1 + argc;
          frame_size = frame_size + (if vs \<noteq> 0 then 1 else 0)
      in if pad \<and> frame_size <s 4 then 4 else frame_size)"

definition tvm_ectx_memory_size :: "WORD \<Rightarrow> WORD \<Rightarrow> WORD \<Rightarrow> WORD" where
  "tvm_ectx_memory_size argc ws_size vs_size =
     (let frame_size = calc_frame_size argc vs_size True
      in frame_size + 1 + ws_size + vs_size + WS_PAD + VS_PAD)"

text \<open>The distance of two word pointers, in words: the C difference of pointers.\<close>

definition wordptr_diff :: "WORD \<Rightarrow> WORD \<Rightarrow> WORD" where
  "wordptr_diff p q = word_of_int (sint (p - q) div 4)"

text \<open>The size, and the workspace and vectorspace pointers.\<close>

definition tvm_ectx_layout :: "WORD \<Rightarrow> WORD \<Rightarrow> WORD \<Rightarrow> WORD \<Rightarrow> WORD \<times> WORD \<times> WORD" where
  "tvm_ectx_layout base argc ws_size vs_size =
     (let frame_size = calc_frame_size argc vs_size True;
          ws = wordptr_plus base (frame_size + ws_size + 1 + WS_PAD);
          vs = (if vs_size \<noteq> 0 then ws else 0)
      in (wordptr_diff ws base + vs_size, ws, vs))"

section \<open>Fetch and dispatch\<close>

type_synonym jump_table = "(WORD \<Rightarrow> tvm \<Rightarrow> result) list"

definition ins_not_implemented :: "WORD \<Rightarrow> tvm \<Rightarrow> result" where
  "ins_not_implemented e s = Some (ECTX_INS_UNSUPPORTED, s)"

definition decode_next :: "WORD \<Rightarrow> tvm \<Rightarrow> BYTE \<times> tvm" where
  "decode_next e s =
     (let instr = read_byte (mem s) (IPTR e s);
          s = set_IPTR e (byteptr_plus (IPTR e s) 1) s;
          s = set_OREG e (OREG e s OR ucast (instr AND 0x0f)) s
      in (instr, s))"

definition do_dispatch :: "jump_table \<Rightarrow> WORD \<Rightarrow> BYTE \<Rightarrow> tvm \<Rightarrow> result" where
  "do_dispatch primaries e instr s = (primaries ! unat (drop_bit 4 instr)) e s"

definition tvm_decode_instruction :: "WORD \<Rightarrow> tvm \<Rightarrow> BYTE \<times> tvm" where
  "tvm_decode_instruction e s = decode_next e s"

definition tvm_dispatch_instruction :: "jump_table \<Rightarrow> WORD \<Rightarrow> BYTE \<Rightarrow> tvm \<Rightarrow> result" where
  "tvm_dispatch_instruction primaries e instr s = do_dispatch primaries e instr s"

text \<open>One turn of the loop of \<^verbatim>\<open>tvm_dispatch\<close>.\<close>

definition step :: "jump_table \<Rightarrow> WORD \<Rightarrow> tvm \<Rightarrow> result" where
  "step primaries e s = (let (instr, s) = decode_next e s in do_dispatch primaries e instr s)"

partial_function (option) dispatch_loop :: "jump_table \<Rightarrow> WORD \<Rightarrow> WORD \<Rightarrow> tvm \<Rightarrow> result" where
  "dispatch_loop primaries e cycles s = do {
     (ret, s) \<leftarrow> step primaries e s;
     let cycles = cycles - 2;
     if cycles \<noteq> 0 \<and> ret = 0 then dispatch_loop primaries e cycles s else Some (ret, s)
   }"

definition set_state :: "WORD \<Rightarrow> int \<Rightarrow> tvm \<Rightarrow> tvm" where
  "set_state e r = upd_ectx e (\<lambda>c. c\<lparr>state := r\<rparr>)"

definition tvm_dispatch :: "jump_table \<Rightarrow> WORD \<Rightarrow> WORD \<Rightarrow> tvm \<Rightarrow> result" where
  "tvm_dispatch primaries e cycles s =
     map_option (\<lambda>(ret, s). (ret, set_state e ret s)) (dispatch_loop primaries e cycles s)"

section \<open>Running a context\<close>

type_synonym hook = "WORD \<Rightarrow> tvm \<Rightarrow> int \<times> tvm"

definition run_pre_init :: "hook option \<Rightarrow> WORD \<Rightarrow> tvm \<Rightarrow> result" where
  "run_pre_init run_hook e s =
     (let s = set_state e ECTX_RUNNING s;
          (ret, s) = (case run_hook of Some h \<Rightarrow> h e s | None \<Rightarrow> (0, s))
      in if ret \<noteq> 0 then Some (ret, set_state e ret s)
         else if WPTR e s = NOT_PROCESS_P then do {
           (ret, s) \<leftarrow> run_next_on_queue e s;
           if ret \<noteq> 0 then Some (ret, set_state e ret s) else Some (ECTX_CONTINUE, s)
         }
         else Some (ECTX_CONTINUE, s))"

definition tvm_run :: "jump_table \<Rightarrow> hook option \<Rightarrow> WORD \<Rightarrow> tvm \<Rightarrow> result" where
  "tvm_run primaries run_hook e s = do {
     (ret, s) \<leftarrow> run_pre_init run_hook e s;
     if ret \<noteq> 0 then Some (ret, s) else tvm_dispatch primaries e 1 s
   }"

definition tvm_run_count :: "jump_table \<Rightarrow> hook option \<Rightarrow> WORD \<Rightarrow> WORD \<Rightarrow> tvm \<Rightarrow> result" where
  "tvm_run_count primaries run_hook e count s = do {
     (ret, s) \<leftarrow> run_pre_init run_hook e s;
     if ret \<noteq> 0 then Some (ret, s)
     else do {
       (ret, s) \<leftarrow> tvm_dispatch primaries e (push_bit 1 count) s;
       if ret \<noteq> 0 then Some (ret, s) else Some (ECTX_TIME_SLICE, s)
     }
   }"

section \<open>The list of contexts\<close>

primrec ctx_list :: "tvm \<Rightarrow> WORD \<Rightarrow> WORD list \<Rightarrow> bool" where
  "ctx_list s x [] \<longleftrightarrow> x = 0"
| "ctx_list s x (e # es) \<longleftrightarrow> x = e \<and> ctx_list s (next_ectx (ectxs s e)) es"

definition contexts :: "tvm \<Rightarrow> WORD list \<Rightarrow> bool" where
  "contexts s es \<longleftrightarrow> ctx_list s (head s) es \<and> distinct es \<and> 0 \<notin> set es \<and> (es \<noteq> [] \<longrightarrow> tail s = last es)"

lemma ctx_list_cong:
  "(\<And>e. e \<in> set es \<Longrightarrow> next_ectx (ectxs s e) = next_ectx (ectxs s' e)) \<Longrightarrow> ctx_list s x es = ctx_list s' x es"
  by (induction es arbitrary: x) auto

lemma ctx_list_append:
  assumes "ctx_list s x es" "es \<noteq> []" "distinct es" "e \<notin> set es" "\<And>c. c \<in> set es \<Longrightarrow> next_ectx (ectxs s' c) =
     (if c = last es then e else next_ectx (ectxs s c))" "next_ectx (ectxs s' e) = 0"
  shows "ctx_list s' x (es @ [e])"
  using assms
proof (induction es arbitrary: x)
  case (Cons c es)
  show ?case
  proof (cases "es = []")
    case True
    then show ?thesis using Cons.prems by simp
  next
    case False
    then have "c \<noteq> last es" using Cons.prems(3) last_in_set [of es] by auto
    then have "next_ectx (ectxs s' c) = next_ectx (ectxs s c)" using Cons.prems(5) [of c] False by simp
    moreover have "ctx_list s' (next_ectx (ectxs s c)) (es @ [e])"
      using Cons.prems False by (intro Cons.IH) auto
    ultimately show ?thesis using Cons.prems by simp
  qed
qed simp

lemma tvm_ectx_reset_simps [simp]:
  "next_ectx (ectxs (tvm_ectx_reset e s) c) = next_ectx (ectxs s c)"
  "head (tvm_ectx_reset e s) = head s" "tail (tvm_ectx_reset e s) = tail s"
  "FPTR e (tvm_ectx_reset e s) = 0" "BPTR e (tvm_ectx_reset e s) = 0" "WPTR e (tvm_ectx_reset e s) = 0"
  "TPTR e (tvm_ectx_reset e s) = 0" "state (ectxs (tvm_ectx_reset e s) e) = ECTX_INIT"
  "sflags (ectxs (tvm_ectx_reset e s) e) = 0" "eflags (ectxs (tvm_ectx_reset e s) e) = 0"
  by (simp_all add: tvm_ectx_reset_def Let_def)

lemma tvm_ectx_init_simps [simp]:
  "FPTR e (tvm_ectx_init e s) = 0" "TPTR e (tvm_ectx_init e s) = 0" "WPTR e (tvm_ectx_init e s) = 0"
  "sflags (ectxs (tvm_ectx_init e s) e) = 0" "tail (tvm_ectx_init e s) = e" "mem (tvm_ectx_init e s) = mem s"
  by (simp_all add: tvm_ectx_init_def tvm_ectx_reset_def Let_def)

lemma contexts_init:
  assumes "contexts s es" "e \<notin> set es" "e \<noteq> 0"
  shows "contexts (tvm_ectx_init e s) (es @ [e])"
proof (cases "es = []")
  case True
  then show ?thesis
    using assms by (simp add: contexts_def tvm_ectx_init_def Let_def)
next
  case False
  let ?t = "tvm_ectx_init e s"
  have h: "head s \<noteq> 0" "tail s = last es" "tail s \<noteq> e" "head ?t = head s"
    using assms False last_in_set [of es] by (cases es; auto simp: contexts_def tvm_ectx_init_def Let_def)+
  have "ctx_list ?t (head s) (es @ [e])"
    using assms False h by (intro ctx_list_append [of s]) (auto simp: contexts_def tvm_ectx_init_def Let_def)
  then show ?thesis using assms h by (simp add: contexts_def)
qed

text \<open>Initialising a context. It becomes the last one of the machine's list, behind those
  already there; it has no process, empty run and timer queues and clear flags, so that running
  it reports that it is empty.\<close>

lemma ectx_init_appends:
  assumes "contexts s es" "e \<notin> set es" "e \<noteq> 0"
  shows "contexts (tvm_ectx_init e s) (es @ [e]) \<and> run_queue e (tvm_ectx_init e s) [] \<and>
    timer_queue e (tvm_ectx_init e s) [] \<and>
    (\<exists>s'. tvm_run primaries None e (tvm_ectx_init e s) = Some (ECTX_EMPTY, s') \<and> contexts s' (es @ [e]))"
proof -
  let ?t = "tvm_ectx_init e s"
  have list: "contexts ?t (es @ [e])" using assms by (rule contexts_init)
  have "tvm_run primaries None e ?t = Some (ECTX_EMPTY, set_state e ECTX_EMPTY (set_WPTR e 0 (set_state e ECTX_RUNNING ?t)))"
    by (simp add: tvm_run_def run_pre_init_def Let_def run_next_on_queue_def take_next_def set_state_def)
  moreover have "contexts (set_state e ECTX_EMPTY (set_WPTR e 0 (set_state e ECTX_RUNNING ?t))) (es @ [e])"
    using list ctx_list_cong [of "es @ [e]" ?t "set_state e ECTX_EMPTY (set_WPTR e 0 (set_state e ECTX_RUNNING ?t))"]
    by (simp add: contexts_def set_state_def)
  ultimately show ?thesis using list by (simp add: run_queue_def timer_queue_def)
qed

lemma find_previous_split:
  assumes "ctx_list s x (as @ p # e # bs)" "distinct (as @ p # e # bs)" "0 \<notin> set (as @ p # e # bs)"
  shows "find_previous e x s = Some p"
  using assms
proof (induction as arbitrary: x)
  case Nil
  then show ?case by (subst find_previous.simps) simp
next
  case (Cons a as)
  have "next_ectx (ectxs s a) \<noteq> e" using Cons.prems by (cases as) auto
  then show ?case using Cons by (subst find_previous.simps) simp
qed

lemma ctx_list_remove:
  assumes "ctx_list s x (as @ p # e # bs)" "distinct (as @ p # e # bs)"
    and "\<And>c. c \<in> set (as @ p # bs) \<Longrightarrow> next_ectx (ectxs s' c) =
      (if c = p then next_ectx (ectxs s e) else next_ectx (ectxs s c))"
  shows "ctx_list s' x (as @ p # bs)"
  using assms
proof (induction as arbitrary: x)
  case Nil
  then have "ctx_list s' (next_ectx (ectxs s e)) bs = ctx_list s (next_ectx (ectxs s e)) bs"
    by (intro ctx_list_cong) auto
  then show ?case using Nil by simp
qed simp

text \<open>Releasing a context takes it out of the list; the machine's tail pointer stays right
  unless it was the last one.\<close>

lemma ectx_release_removes:
  assumes "contexts s es" "e \<in> set es"
  shows "\<exists>s'. tvm_ectx_release e s = Some s' \<and> ctx_list s' (head s') (remove1 e es) \<and> tail s' = tail s \<and>
    (e \<noteq> last es \<longrightarrow> contexts s' (remove1 e es))"
proof (cases "e = head s")
  case True
  then obtain bs where es: "es = e # bs" using assms by (cases es) (auto simp: contexts_def)
  let ?s = "upd_ectx e (\<lambda>c. c\<lparr>next_ectx := 0\<rparr>) (s\<lparr>head := next_ectx (ectxs s e)\<rparr>)"
  have "ctx_list ?s (next_ectx (ectxs s e)) bs = ctx_list s (next_ectx (ectxs s e)) bs"
    using assms es by (intro ctx_list_cong) (auto simp: contexts_def)
  then show ?thesis
    using assms es True by (auto simp: contexts_def tvm_ectx_release_def)
next
  case False
  obtain as' bs where "es = as' @ e # bs" using assms(2) by (auto dest: split_list)
  moreover from this have "as' \<noteq> []" using False assms(1) by (auto simp: contexts_def)
  ultimately obtain as p where es: "es = as @ p # e # bs" by (cases as' rule: rev_cases) auto
  let ?s = "upd_ectx e (\<lambda>c. c\<lparr>next_ectx := 0\<rparr>) (upd_ectx p (\<lambda>c. c\<lparr>next_ectx := next_ectx (ectxs s e)\<rparr>) s)"
  have rel: "tvm_ectx_release e s = Some ?s"
    using find_previous_split [of s "head s" as p e bs] assms(1) es False
    by (simp add: tvm_ectx_release_def contexts_def)
  have "ctx_list ?s (head s) (as @ p # bs)"
    using assms(1) es by (intro ctx_list_remove [of s _ as p e bs]) (auto simp: contexts_def)
  moreover have "remove1 e es = as @ p # bs" using assms(1) es by (auto simp: contexts_def remove1_append)
  ultimately show ?thesis using rel assms(1) es by (auto simp: contexts_def)
qed

text \<open>A list ends where it ends.\<close>

lemma ctx_list_longer: "ctx_list s x es \<Longrightarrow> ctx_list s x (es @ [c]) \<Longrightarrow> c = 0"
  by (induction es arbitrary: x) auto

text \<open>C26: releasing the last context of the machine's list, whatever the length of the list, leaves the tail pointer at it. When other
  contexts remain, the next context to be initialised (a new one, or the released one again) is linked behind the released one and
  the list stays as it is without it, although the tail pointer is now right. When none remain, the next context starts the list anew.\<close>

theorem ectx_release_last_loses_next:
  assumes "contexts s (es @ [b])" "c \<noteq> 0" "c \<notin> set es"
  shows "\<exists>s'. tvm_ectx_release b s = Some s' \<and> tail s' = b \<and> ctx_list s' (head s') es \<and>
    (let t = tvm_ectx_init c s' in
      if es = [] then contexts t [c]
      else ctx_list t (head t) es \<and> \<not> contexts t (es @ [c]) \<and> tail t = c \<and> (c \<noteq> b \<longrightarrow> next_ectx (ectxs t b) = c))"
proof -
  have d: "distinct (es @ [b])" "0 \<notin> set (es @ [b])" "tail s = b" using assms(1) by (auto simp: contexts_def)
  obtain s' where 1: "tvm_ectx_release b s = Some s'" "ctx_list s' (head s') es" "tail s' = b"
    using ectx_release_removes [OF assms(1), of b] d by (auto simp: remove1_append)
  let ?t = "tvm_ectx_init c s'"
  show ?thesis
  proof (cases "es = []")
    case True
    then have "contexts s' []" using 1(2) by (simp add: contexts_def)
    from contexts_init [OF this _ assms(2)] show ?thesis using 1 True by (simp add: Let_def)
  next
    case False
    then have h: "head s' \<noteq> 0" "head s' \<in> set es" using 1(2) d(2) by (cases es; auto)+
    have "ctx_list ?t (head s') es = ctx_list s' (head s') es"
      using h d(1) assms(3) 1(3) by (intro ctx_list_cong) (auto simp: tvm_ectx_init_def Let_def)
    moreover have "head ?t = head s'" using h by (simp add: tvm_ectx_init_def Let_def)
    ultimately have list: "ctx_list ?t (head ?t) es" using 1(2) by simp
    then have "\<not> contexts ?t (es @ [c])" using assms(2) by (auto simp: contexts_def dest: ctx_list_longer)
    moreover have "c \<noteq> b \<longrightarrow> next_ectx (ectxs ?t b) = c" using h 1(3) by (simp add: tvm_ectx_init_def Let_def)
    ultimately show ?thesis using 1 False list by (simp add: Let_def)
  qed
qed

section \<open>Running for a number of instructions\<close>

text \<open>At most \<open>n\<close> instructions, stopping after the first that does not return \<open>ECTX_CONTINUE\<close>.\<close>

fun steps :: "jump_table \<Rightarrow> WORD \<Rightarrow> nat \<Rightarrow> tvm \<Rightarrow> result" where
  "steps primaries e 0 s = continue s"
| "steps primaries e (Suc n) s = then_ins (step primaries e s) (steps primaries e n)"

lemma dispatch_loop_steps:
  assumes "c = of_nat (2 * Suc n)" "2 * Suc n \<le> 4294967296"
  shows "dispatch_loop primaries e c s = steps primaries e (Suc n) s"
  using assms
proof (induction n arbitrary: c s)
  case 0
  then show ?case
    by (subst dispatch_loop.simps)
      (auto simp: then_ins_def continue_def split: option.splits prod.splits bind_splits)
next
  case (Suc n)
  have c: "c - 2 = of_nat (2 * Suc n)" using Suc.prems(1) by simp
  have "c - 2 \<noteq> 0"
  proof
    assume "c - 2 = 0"
    then have "unat (of_nat (2 * Suc n) :: WORD) = 0" using c by simp
    then show False using unat_word_of_nat [of "2 * Suc n"] Suc.prems(2) by simp
  qed
  then show ?case
    using Suc.IH [OF c] Suc.prems(2)
    by (subst dispatch_loop.simps)
      (auto simp: then_ins_def Let_def split: option.splits prod.splits bind_splits)
qed

lemma dispatch_loop_odd_steps:
  assumes "dispatch_loop primaries e c s = Some r"
  shows "odd c \<longrightarrow> (\<exists>n. steps primaries e n s = Some r \<and> fst r \<noteq> 0)"
proof (rule dispatch_loop.raw_induct [OF _ assms,
    where P = "\<lambda>primaries e c s r. odd c \<longrightarrow> (\<exists>n. steps primaries e n s = Some r \<and> fst r \<noteq> 0)"])
  fix loop primaries e and c :: WORD and s r
  assume IH: "\<And>primaries e c s r. loop primaries e c s = Some r \<Longrightarrow>
      odd c \<longrightarrow> (\<exists>n. steps primaries e n s = Some r \<and> fst r \<noteq> 0)"
    and body: "do { (ret, s) \<leftarrow> step primaries e s;
      let cycles = c - 2;
      if cycles \<noteq> 0 \<and> ret = 0 then loop primaries e cycles s else Some (ret, s) } = Some r"
  then obtain ret t where st: "step primaries e s = Some (ret, t)"
    by (cases "step primaries e s") auto
  show "odd c \<longrightarrow> (\<exists>n. steps primaries e n s = Some r \<and> fst r \<noteq> 0)"
  proof
    assume odd: "odd c"
    then have c: "c - 2 \<noteq> 0" "odd (c - 2)" by auto
    show "\<exists>n. steps primaries e n s = Some r \<and> fst r \<noteq> 0"
    proof (cases "ret = 0")
      case True
      then have "loop primaries e (c - 2) t = Some r" using body st c(1) by simp
      then obtain n where "steps primaries e n t = Some r" "fst r \<noteq> 0" using IH c(2) by blast
      then show ?thesis using st True by (intro exI [of _ "Suc n"]) simp
    next
      case False
      then show ?thesis using body st by (intro exI [of _ "Suc 0"]) (auto simp: then_ins_def)
    qed
  qed
qed

lemma steps_dispatch_loop_odd:
  "steps primaries e n s = Some r \<Longrightarrow> fst r \<noteq> 0 \<Longrightarrow> odd c \<Longrightarrow> dispatch_loop primaries e c s = Some r"
proof (induction n arbitrary: c s)
  case (Suc n)
  have c: "c - 2 \<noteq> 0" "odd (c - 2)" using Suc.prems(3) by auto
  obtain ret t where st: "step primaries e s = Some (ret, t)"
    using Suc.prems(1) by (cases "step primaries e s") (auto simp: then_ins_def)
  show ?case
  proof (cases "ret = 0")
    case True
    then have "dispatch_loop primaries e (c - 2) t = Some r"
      using Suc.IH [of t "c - 2"] Suc.prems st c by simp
    then show ?thesis using st True c by (subst dispatch_loop.simps) simp
  next
    case False
    then show ?thesis using Suc.prems(1) st by (subst dispatch_loop.simps) (auto simp: then_ins_def)
  qed
qed (auto simp: continue_def)

text \<open>C25: running a context until it stops. \<^verbatim>\<open>tvm_run\<close> on a context that has a process returns
  exactly when some number of instructions leads to one that does not return \<open>ECTX_CONTINUE\<close>, and
  then returns what that one does, with the context's state set to it.\<close>

theorem run_until_stop:
  assumes "WPTR e s \<noteq> NOT_PROCESS_P"
  shows "tvm_run primaries None e s = Some (ret, s') \<longleftrightarrow>
    ret \<noteq> ECTX_CONTINUE \<and>
    (\<exists>n t. steps primaries e n (set_state e ECTX_RUNNING s) = Some (ret, t) \<and> s' = set_state e ret t)"
proof -
  let ?s = "set_state e ECTX_RUNNING s"
  have "tvm_run primaries None e s = tvm_dispatch primaries e 1 ?s"
    using assms by (simp add: tvm_run_def run_pre_init_def set_state_def)
  moreover have "dispatch_loop primaries e 1 ?s = Some (ret, t) \<longleftrightarrow>
      ret \<noteq> 0 \<and> (\<exists>n. steps primaries e n ?s = Some (ret, t))" for t
    using dispatch_loop_odd_steps [of primaries e 1 ?s "(ret, t)"]
      steps_dispatch_loop_odd [of primaries e _ ?s "(ret, t)" 1] by auto
  ultimately show ?thesis by (auto simp: tvm_dispatch_def)
qed

definition run_length :: "WORD \<Rightarrow> nat" where
  "run_length count = (let k = unat count mod 2147483648 in if k = 0 then 2147483648 else k)"

lemma push_bit_run_length:
  "push_bit 1 count = of_nat (2 * run_length count)" "2 * run_length count \<le> 4294967296" "0 < run_length count"
proof -
  have "unat count * 2 mod 4294967296 = 2 * (unat count mod 2147483648)"
    using mult_mod_left [of "unat count" 2147483648 2] by simp
  then have "unat (push_bit 1 count) = unat (of_nat (2 * run_length count) :: WORD)"
    by (simp add: unat_of_nat run_length_def Let_def push_bit_eq_mult unat_word_ariths mult.commute)
  then show "push_bit 1 count = of_nat (2 * run_length count)" by (simp add: word_unat_eq_iff)
  have "unat count mod 2147483648 < 2147483648" by simp
  then have "run_length count \<le> 2147483648" by (simp add: run_length_def Let_def)
  then show "2 * run_length count \<le> 4294967296" by simp
  show "0 < run_length count" by (simp add: run_length_def Let_def)
qed

text \<open>Running a context for a number of instructions. \<^verbatim>\<open>tvm_run_count\<close> on a context that
  has a process performs at most that many instructions, and reports the result of the first one
  that stopped it, or that its time slice is over; it always returns if the instructions do. The
  count is taken modulo half the range of a word, and zero stands for that half range.\<close>

lemma run_count_steps:
  assumes "WPTR e s \<noteq> NOT_PROCESS_P"
  shows "tvm_run_count primaries None e count s =
    map_option (\<lambda>(ret, t). (if ret = 0 then ECTX_TIME_SLICE else ret, set_state e ret t))
      (steps primaries e (if uint count mod 2 ^ 31 = 0 then 2 ^ 31 else nat (uint count mod 2 ^ 31))
        (set_state e ECTX_RUNNING s))"
proof -
  have n: "(if uint count mod 2 ^ 31 = 0 then 2 ^ 31 else nat (uint count mod 2 ^ 31)) = run_length count"
  proof -
    have "uint count mod 2 ^ 31 = int (unat count mod 2147483648)" by (simp add: zmod_int)
    then show ?thesis by (simp add: run_length_def Let_def)
  qed
  obtain m where m: "run_length count = Suc m"
    using push_bit_run_length(3) [of count] by (cases "run_length count") auto
  have "dispatch_loop primaries e (push_bit 1 count) t = steps primaries e (run_length count) t" for t
    using dispatch_loop_steps [of "push_bit 1 count" m primaries e t] push_bit_run_length [of count] m by metis
  then show ?thesis
    unfolding n using assms
    by (auto simp: tvm_run_count_def run_pre_init_def set_state_def tvm_dispatch_def
        split: option.splits prod.splits bind_splits)
qed

section \<open>Operands\<close>

text \<open>
  An instruction byte holds a function in its high half and four bits of operand in its low half;
  longer and negative operands are built by \<^verbatim>\<open>pfix\<close> (function 2) and \<^verbatim>\<open>nfix\<close> (function
  6) in front of it. \<open>prefixes k\<close> are those that the operand \<open>k\<close> needs.
\<close>

function prefixes :: "int \<Rightarrow> BYTE list" where
  "prefixes k =
     (if 0 \<le> k \<and> k < 16 then []
      else if 16 \<le> k then prefixes (k div 16) @ [word_of_int (0x20 + k div 16 mod 16)]
      else prefixes ((- k - 1) div 16) @ [word_of_int (0x60 + (- k - 1) div 16 mod 16)])"
  by pat_completeness auto
termination by (relation "measure (\<lambda>k. nat \<bar>k\<bar>)") auto

declare prefixes.simps [simp del]

primrec code_at :: "memory \<Rightarrow> WORD \<Rightarrow> BYTE list \<Rightarrow> bool" where
  "code_at m p [] \<longleftrightarrow> True"
| "code_at m p (b # bs) \<longleftrightarrow> m p = b \<and> code_at m (p + 1) bs"

lemma code_at_append: "code_at m p (bs @ cs) \<longleftrightarrow> code_at m p bs \<and> code_at m (p + of_nat (length bs)) cs"
  by (induction bs arbitrary: p) (auto simp: algebra_simps)

lemma then_ins_continue [simp]: "then_ins r continue = r"
  by (auto simp: then_ins_def continue_def split: option.splits)

lemma then_ins_assoc: "then_ins (then_ins r f) g = then_ins r (\<lambda>s. then_ins (f s) g)"
  by (auto simp: then_ins_def split: option.splits prod.splits)

lemma steps_0: "steps primaries e 0 = continue"
  by (rule ext) simp

lemma set_OREG_same: "OREG e s = v \<Longrightarrow> set_OREG e v s = s"
  by (auto simp: upd_ectx_def)

lemma set_IPTR_same: "IPTR e s = v \<Longrightarrow> set_IPTR e v s = s"
  by (auto simp: upd_ectx_def)

lemma steps_add: "steps primaries e (m + n) s = then_ins (steps primaries e m s) (steps primaries e n)"
proof (induction m arbitrary: s)
  case (Suc m)
  have "steps primaries e (m + n) = (\<lambda>s. then_ins (steps primaries e m s) (steps primaries e n))"
    by (rule ext) (rule Suc.IH)
  then show ?case by (simp add: then_ins_assoc)
qed simp

lemma steps_Suc_end: "steps primaries e (Suc n) s = then_ins (steps primaries e n s) (step primaries e)"
proof -
  have "steps primaries e (Suc 0) = step primaries e"
    by (rule ext) (simp only: steps.simps(2) steps_0 then_ins_continue)
  then show ?thesis using steps_add [of primaries e n "Suc 0" s] by simp
qed

text \<open>The byte of function \<open>f\<close> with the low operand bits \<open>d\<close>.\<close>

lemma int_or_low_digit:
  fixes k d :: int
  assumes "0 \<le> d" "d < 16"
  shows "16 * k + d = 16 * k OR d"
proof -
  have d: "take_bit 4 d = d" using assms by (simp add: take_bit_eq_mod)
  have k: "16 * k = push_bit 4 k" by (simp add: push_bit_eq_mult)
  have "push_bit 4 k + take_bit 4 d = push_bit 4 k OR take_bit 4 d"
    by (rule disjunctive_add) (auto simp: bit_simps)
  then show ?thesis using d k by simp
qed

lemma word_of_int_or: "word_of_int (a OR b) = (word_of_int a OR word_of_int b :: 'a::len word)"
  by (rule bit_word_eqI) (simp add: bit_simps)

lemma or_low_digit:
  assumes "0 \<le> d" "d < 16"
  shows "word_of_int (16 * k) OR word_of_int d = (word_of_int (16 * k + d) :: 'a::len word)"
  by (simp only: int_or_low_digit [OF assms] word_of_int_or)

lemma instruction_byte:
  assumes "0 \<le> f" "f < 16" "0 \<le> d" "d < 16"
  shows "unat (drop_bit 4 (word_of_int (16 * f + d) :: BYTE)) = nat f"
    "ucast ((word_of_int (16 * f + d) :: BYTE) AND 0x0f) = (word_of_int d :: WORD)"
proof -
  have u: "uint (word_of_int (16 * f + d) :: BYTE) = 16 * f + d"
  proof -
    have "0 \<le> 16 * f + d" "16 * f + d < 256" using assms by auto
    then show ?thesis by (simp only: uint_word_of_int_eq) (simp add: take_bit_eq_mod)
  qed
  have "uint (drop_bit 4 (word_of_int (16 * f + d) :: BYTE)) = f"
    unfolding uint_drop_bit u using assms by simp
  then show "unat (drop_bit 4 (word_of_int (16 * f + d) :: BYTE)) = nat f"
    by (simp only: unat_eq_nat_uint)
  have m: "0x0f = (mask 4 :: BYTE)" by (simp add: mask_eq_exp_minus_1)
  have "uint ((word_of_int (16 * f + d) :: BYTE) AND 0x0f) = take_bit 4 (16 * f + d)"
    unfolding m by (simp only: take_bit_eq_mask [symmetric] unsigned_take_bit_eq u)
  also have "\<dots> = d" using assms by (simp add: take_bit_eq_mod)
  finally have "uint (ucast ((word_of_int (16 * f + d) :: BYTE) AND 0x0f) :: WORD) = d"
    using assms by (simp add: unsigned_ucast_eq take_bit_int_eq_self_iff)
  moreover have "uint (word_of_int d :: WORD) = d"
    using assms by (simp add: uint_word_of_int_eq take_bit_int_eq_self_iff)
  ultimately show "ucast ((word_of_int (16 * f + d) :: BYTE) AND 0x0f) = (word_of_int d :: WORD)"
    by (simp only: word_uint_eq_iff)
qed

definition operand_state :: "WORD \<Rightarrow> nat \<Rightarrow> int \<Rightarrow> tvm \<Rightarrow> tvm" where
  "operand_state e n k s = set_OREG e (word_of_int k) (set_IPTR e (IPTR e s + of_nat n) s)"

lemma step_digit:
  assumes "code_at (mem s) (IPTR e s) (bs @ [word_of_int (16 * f + d)])" "0 \<le> f" "f < 16" "0 \<le> d" "d < 16"
  shows "step primaries e (operand_state e (length bs) (16 * k) s) =
    (primaries ! nat f) e (operand_state e (Suc (length bs)) (16 * k + d) s)"
proof -
  have b: "mem s (IPTR e s + of_nat (length bs)) = word_of_int (16 * f + d)"
    using assms(1) by (simp add: code_at_append)
  have "operand_state e (Suc (length bs)) (16 * k + d) s =
      set_OREG e (word_of_int (16 * k) OR word_of_int d) (set_IPTR e (IPTR e s + of_nat (length bs) + 1)
        (operand_state e (length bs) (16 * k) s))"
    by (simp only: operand_state_def or_low_digit [OF assms(4,5)]) (simp add: upd_ectx_def algebra_simps)
  then show ?thesis
    using b instruction_byte [OF assms(2-5)]
    by (simp add: step_def decode_next_def do_dispatch_def operand_state_def read_byte_def byteptr_plus_def Let_def)
qed

lemma steps_prefixes:
  assumes "primaries ! 2 = ins_pfix" "primaries ! 6 = ins_nfix" "OREG e s = 0"
    and "code_at (mem s) (IPTR e s) (prefixes k)"
  shows "steps primaries e (length (prefixes k)) s =
    continue (operand_state e (length (prefixes k)) (16 * (k div 16)) s)"
  using assms(4)
proof (induction k rule: prefixes.induct)
  case (1 k)
  consider "0 \<le> k \<and> k < 16" | "16 \<le> k" | "k < 0" by linarith
  then show ?case
  proof cases
    case 1
    then have "k div 16 = 0" "prefixes k = []" by (auto simp: prefixes.simps [of k])
    then show ?thesis using assms(3) by (simp add: operand_state_def set_OREG_same set_IPTR_same)
  next
    case 2
    let ?j = "k div 16"
    have p: "prefixes k = prefixes ?j @ [word_of_int (16 * 2 + ?j mod 16)]"
      using 2 by (simp add: prefixes.simps [of k])
    have "steps primaries e (length (prefixes ?j)) s =
        continue (operand_state e (length (prefixes ?j)) (16 * (?j div 16)) s)"
      using 1 2 p by (simp add: code_at_append)
    then have "steps primaries e (length (prefixes k)) s =
        step primaries e (operand_state e (length (prefixes ?j)) (16 * (?j div 16)) s)"
      unfolding p by (simp only: length_append list.size steps_Suc_end add_Suc_right add_0_right) simp
    also have "\<dots> = ins_pfix e (operand_state e (Suc (length (prefixes ?j))) (16 * (?j div 16) + ?j mod 16) s)"
      using step_digit [of s e "prefixes ?j" 2 "?j mod 16" primaries] 1(3) p assms(1) by simp
    also have "\<dots> = continue (operand_state e (length (prefixes k)) (16 * ?j) s)"
      unfolding p by (simp add: ins_pfix_def operand_state_def upd_ectx_def push_bit_eq_mult mult.commute)
    finally show ?thesis .
  next
    case 3
    let ?j = "(- k - 1) div 16"
    have p: "prefixes k = prefixes ?j @ [word_of_int (16 * 6 + ?j mod 16)]"
      using 3 by (simp add: prefixes.simps [of k])
    have "steps primaries e (length (prefixes ?j)) s =
        continue (operand_state e (length (prefixes ?j)) (16 * (?j div 16)) s)"
      using 1 3 p by (simp add: code_at_append)
    then have "steps primaries e (length (prefixes k)) s =
        step primaries e (operand_state e (length (prefixes ?j)) (16 * (?j div 16)) s)"
      unfolding p by (simp only: length_append list.size steps_Suc_end add_Suc_right add_0_right) simp
    also have "\<dots> = ins_nfix e (operand_state e (Suc (length (prefixes ?j))) (16 * (?j div 16) + ?j mod 16) s)"
      using step_digit [of s e "prefixes ?j" 6 "?j mod 16" primaries] 1(3) p assms(2) by simp
    also have "\<dots> = continue (operand_state e (length (prefixes k)) (16 * (k div 16)) s)"
    proof -
      have "push_bit 4 (NOT (word_of_int ?j)) = (word_of_int (16 * (- ?j - 1)) :: WORD)"
        by (simp add: push_bit_eq_mult not_eq_complement wi_hom_syms)
      moreover have "- ?j - 1 = k div 16" by linarith
      ultimately show ?thesis
        unfolding p by (simp add: ins_nfix_def operand_state_def upd_ectx_def)
    qed
    finally show ?thesis .
  qed
qed

text \<open>Operands. Executing the prefixes of any operand, positive or negative, and then the byte
  of a function with the operand's lowest four bits runs that function with exactly that operand
  in \<open>OREG\<close> and the instruction pointer after the sequence; nothing else has changed.\<close>

lemma prefixes_build_operand:
  assumes "primaries ! 2 = ins_pfix" "primaries ! 6 = ins_nfix" "OREG e s = 0" "0 \<le> f" "f < 16"
    and "code_at (mem s) (IPTR e s) (prefixes k @ [word_of_int (16 * f + k mod 16)])"
  shows "steps primaries e (Suc (length (prefixes k))) s =
    (primaries ! nat f) e
      (set_OREG e (word_of_int k) (set_IPTR e (IPTR e s + of_nat (Suc (length (prefixes k)))) s))"
proof -
  have "steps primaries e (Suc (length (prefixes k))) s =
      step primaries e (operand_state e (length (prefixes k)) (16 * (k div 16)) s)"
    using steps_prefixes [OF assms(1-3), of k] assms(6) by (simp add: steps_Suc_end code_at_append del: steps.simps)
  also have "\<dots> = (primaries ! nat f) e (operand_state e (Suc (length (prefixes k))) (16 * (k div 16) + k mod 16) s)"
    using assms by (intro step_digit) auto
  finally show ?thesis by (simp add: operand_state_def)
qed

section \<open>Examples\<close>

text \<open>Two contexts, at 1 and 2; and a context with a process whose only instruction stops it.\<close>

definition two_contexts :: tvm where
  "two_contexts = (upd_ectx 1 (\<lambda>c. c\<lparr>next_ectx := 2\<rparr>) blank)\<lparr>head := 1, tail := 2\<rparr>"

lemma two_contexts_list: "contexts two_contexts [1, 2]"
  by (simp add: contexts_def two_contexts_def)

lemma ectx_init_appends_witness: "contexts (tvm_ectx_init 3 two_contexts) [1, 2, 3]"
  using ectx_init_appends [OF two_contexts_list, of 3 "[]"] by simp

lemma ectx_release_removes_witness:
  "\<exists>s'. tvm_ectx_release 1 two_contexts = Some s' \<and> contexts s' [2]"
  using ectx_release_removes [OF two_contexts_list, of 1] by auto

theorem ectx_release_last_loses_next_witness:
  "\<exists>s'. tvm_ectx_release 2 two_contexts = Some s' \<and>
     (let t = tvm_ectx_init 3 s' in ctx_list t (head t) [1] \<and> tail t = 3 \<and> next_ectx (ectxs t 2) = 3)"
  using ectx_release_last_loses_next [of two_contexts "[1]" 2 3] two_contexts_list by (auto simp: Let_def)

definition stopping :: tvm where
  "stopping = set_WPTR 1 4096 blank"

definition all_unsupported :: jump_table where
  "all_unsupported = replicate 16 ins_not_implemented"

lemma stopping_steps:
  "steps all_unsupported 1 1 (set_state 1 ECTX_RUNNING stopping) =
     Some (ECTX_INS_UNSUPPORTED, set_OREG 1 0 (set_IPTR 1 1 (set_state 1 ECTX_RUNNING stopping)))"
  by (simp add: step_def decode_next_def do_dispatch_def all_unsupported_def ins_not_implemented_def
      stopping_def set_state_def read_byte_def byteptr_plus_def then_ins_def upd_ectx_def)

theorem run_until_stop_witness:
  "\<exists>s'. tvm_run all_unsupported None 1 stopping = Some (ECTX_INS_UNSUPPORTED, s')"
proof -
  have "WPTR 1 stopping \<noteq> NOT_PROCESS_P" by (simp add: stopping_def)
  from run_until_stop [OF this, of all_unsupported ECTX_INS_UNSUPPORTED] stopping_steps
  show ?thesis by (metis zero_neq_numeral)
qed

lemma run_count_steps_witness:
  "\<exists>s'. tvm_run_count all_unsupported None 1 1 stopping = Some (ECTX_INS_UNSUPPORTED, s')"
  using run_count_steps [of stopping 1 all_unsupported 1] stopping_steps by (simp add: stopping_def)

text \<open>\<^verbatim>\<open>ldc 300\<close> and \<^verbatim>\<open>ldc -3\<close>, one after the other.\<close>

definition constants_table :: jump_table where
  "constants_table = (replicate 16 ins_not_implemented)[2 := ins_pfix, 4 := ins_ldc, 6 := ins_nfix]"

definition constants_program :: tvm where
  "constants_program = blank\<lparr>mem := (\<lambda>_. 0)(0 := 0x21, 1 := 0x22, 2 := 0x4C, 3 := 0x60, 4 := 0x4D)\<rparr>"

lemma constants_prefixes: "prefixes 300 = [0x21, 0x22]"
  by (simp add: prefixes.simps [of 300] prefixes.simps [of 18] prefixes.simps [of 1])

lemma prefixes_build_operand_witness:
  "\<exists>s'. steps constants_table 1 3 constants_program = Some (ECTX_CONTINUE, s') \<and> AREG 1 s' = 300 \<and> IPTR 1 s' = 3"
proof -
  have "steps constants_table 1 (Suc (length (prefixes 300))) constants_program =
      (constants_table ! nat 4) 1 (set_OREG 1 (word_of_int 300)
        (set_IPTR 1 (IPTR 1 constants_program + of_nat (Suc (length (prefixes 300)))) constants_program))"
    by (rule prefixes_build_operand)
      (simp_all add: constants_table_def constants_program_def constants_prefixes)
  then show ?thesis
    by (simp add: constants_prefixes constants_table_def constants_program_def ins_ldc_def step_defs
        eval_nat_numeral)
qed

end
