(* ===== verification/Tvm_Mobile.thy ===== *)
theory Tvm_Mobile
  imports Tvm_Barrier Tvm_Pi
begin

text \<open>
  Mobile types, \<^verbatim>\<open>ins_mobile.c\<close> and \<^verbatim>\<open>mobile_types.h\<close>: arrays, channel
  bundles, barriers and data that live on the heap, are described by a type word below the address
  of the mobile, and move or are shared when they are communicated. The allocator behind
  \<^verbatim>\<open>tvm_malloc\<close> and \<^verbatim>\<open>tvm_free\<close> is chosen at build time; it is a parameter of the
  model, the record \<open>heap\<close>, together with the \<^verbatim>\<open>free\<close> functions of external channel
  bundles.
\<close>

section \<open>The heap\<close>

record heap =
  heap_malloc :: "WORD \<Rightarrow> WORD \<Rightarrow> tvm \<Rightarrow> WORD \<times> tvm"
  heap_free :: "WORD \<Rightarrow> WORD \<Rightarrow> tvm \<Rightarrow> tvm"
  ext_cb_free :: "WORD \<Rightarrow> (WORD \<Rightarrow> WORD \<Rightarrow> tvm \<Rightarrow> tvm) option"

section \<open>Type words\<close>

abbreviation (input) MT_SIMPLE :: WORD where "MT_SIMPLE \<equiv> 1"
abbreviation (input) MT_NUM :: WORD where "MT_NUM \<equiv> 0"
abbreviation (input) MT_ARRAY :: WORD where "MT_ARRAY \<equiv> 1"
abbreviation (input) MT_CB :: WORD where "MT_CB \<equiv> 2"
abbreviation (input) MT_BARRIER :: WORD where "MT_BARRIER \<equiv> 3"
abbreviation (input) MT_MT :: WORD where "MT_MT \<equiv> 5"
abbreviation (input) MT_DATA :: WORD where "MT_DATA \<equiv> 7"
abbreviation (input) MT_ARRAY_OPTS :: WORD where "MT_ARRAY_OPTS \<equiv> 9"
abbreviation (input) MT_CB_SHARED :: WORD where "MT_CB_SHARED \<equiv> 0x20"
abbreviation (input) MT_CB_EXTERNAL :: WORD where "MT_CB_EXTERNAL \<equiv> 0x80"
abbreviation (input) MT_CB_CLIENT :: WORD where "MT_CB_CLIENT \<equiv> 0"
abbreviation (input) MT_CB_SERVER :: WORD where "MT_CB_SERVER \<equiv> 1"
abbreviation (input) MT_BARRIER_FULL :: WORD where "MT_BARRIER_FULL \<equiv> 0"
abbreviation (input) MT_BARRIER_FORKING :: WORD where "MT_BARRIER_FORKING \<equiv> 1"
abbreviation (input) MT_ARRAY_OPTS_DMA :: WORD where "MT_ARRAY_OPTS_DMA \<equiv> 1"
abbreviation (input) MT_ARRAY_OPTS_SEPARATED :: WORD where "MT_ARRAY_OPTS_SEPARATED \<equiv> 2"
abbreviation (input) MT_BIND_VIRTUAL :: WORD where "MT_BIND_VIRTUAL \<equiv> 1"
abbreviation (input) MT_BIND_PHYSICAL :: WORD where "MT_BIND_PHYSICAL \<equiv> 2"
abbreviation (input) MT_BIND_DMA :: WORD where "MT_BIND_DMA \<equiv> 3"
abbreviation (input) MT_RESIZE_DATA :: WORD where "MT_RESIZE_DATA \<equiv> 1"
abbreviation (input) MT_FALSE :: WORD where "MT_FALSE \<equiv> 0"
abbreviation (input) MT_TRUE :: WORD where "MT_TRUE \<equiv> 1"

abbreviation (input) MT_ARRAY_PTR_OFFSET :: WORD where "MT_ARRAY_PTR_OFFSET \<equiv> 2"
abbreviation (input) MT_CB_PTR_OFFSET :: WORD where "MT_CB_PTR_OFFSET \<equiv> 2"
abbreviation (input) MT_BARRIER_PTR_OFFSET :: WORD where "MT_BARRIER_PTR_OFFSET \<equiv> 2"
abbreviation (input) MT_DATA_PTR_OFFSET :: WORD where "MT_DATA_PTR_OFFSET \<equiv> 2"

definition MT_TYPE :: "WORD \<Rightarrow> WORD" where
  "MT_TYPE x = drop_bit 1 x AND 0xf"

definition MT_MAKE_TYPE :: "WORD \<Rightarrow> WORD" where
  "MT_MAKE_TYPE x = push_bit 1 x"

definition MT_FLAGS :: "WORD \<Rightarrow> WORD" where
  "MT_FLAGS x = drop_bit 5 x"

definition mt_num_type :: "WORD \<Rightarrow> WORD" where
  "mt_num_type flags =
     (if flags AND 7 < 7 then flags AND 7 else signed_drop_bit 3 flags AND 0xff)"

definition mt_num_size_shift :: "WORD \<Rightarrow> WORD" where
  "mt_num_size_shift type = signed_drop_bit 2 type + (type AND 3)"

definition MT_ARRAY_DIM :: "WORD \<Rightarrow> WORD" where
  "MT_ARRAY_DIM x = 1 + (MT_FLAGS x AND 7)"

definition MT_ARRAY_INNER_TYPE :: "WORD \<Rightarrow> WORD" where
  "MT_ARRAY_INNER_TYPE x = drop_bit 8 x"

definition MT_MAKE_ARRAY_TYPE :: "WORD \<Rightarrow> WORD \<Rightarrow> WORD" where
  "MT_MAKE_ARRAY_TYPE d i = MT_SIMPLE OR MT_MAKE_TYPE MT_ARRAY OR push_bit 5 (d - 1) OR push_bit 8 i"

definition MT_ARRAY_OPTS_ALIGN :: "WORD \<Rightarrow> WORD" where
  "MT_ARRAY_OPTS_ALIGN x = drop_bit 8 x AND 0xf"

definition MT_ARRAY_OPTS_INNER :: "WORD \<Rightarrow> WORD" where
  "MT_ARRAY_OPTS_INNER x = drop_bit 12 x"

definition MT_MAKE_ARRAY_OPTS :: "WORD \<Rightarrow> WORD \<Rightarrow> WORD \<Rightarrow> WORD" where
  "MT_MAKE_ARRAY_OPTS f a i =
     MT_SIMPLE OR MT_MAKE_TYPE MT_ARRAY_OPTS OR push_bit 5 f OR push_bit 8 (a AND 0xf) OR push_bit 12 i"

definition MT_MAKE_BARRIER :: "WORD \<Rightarrow> WORD" where
  "MT_MAKE_BARRIER t = MT_SIMPLE OR MT_MAKE_TYPE MT_BARRIER OR push_bit 5 t"

definition MT_CB_LOCK_PTR :: "WORD \<Rightarrow> WORD \<Rightarrow> WORD" where
  "MT_CB_LOCK_PTR mt lock = wordptr_minus mt (2 * (lock + 1))"

definition read_mt_type :: "tvm \<Rightarrow> WORD \<Rightarrow> WORD" where
  "read_mt_type s ptr = get_word s (wordptr_minus ptr 1)"

text \<open>The type of the elements, past the options of the array.\<close>

definition element_type :: "WORD \<Rightarrow> WORD" where
  "element_type inner = (if MT_TYPE inner = MT_ARRAY_OPTS then MT_ARRAY_OPTS_INNER inner else inner)"

text \<open>
  The words of each structure: the reference count or the size, the type, and from the second word
  on what the rest of the program sees. \<^verbatim>\<open>sizeof\<close> of a lock and of the external
  state are two words each.
\<close>

abbreviation (input) mt_ref_count :: "WORD \<Rightarrow> WORD" where "mt_ref_count p \<equiv> wordptr_plus p 0"
abbreviation (input) mt_size :: "WORD \<Rightarrow> WORD" where "mt_size p \<equiv> wordptr_plus p 0"
abbreviation (input) mt_type :: "WORD \<Rightarrow> WORD" where "mt_type p \<equiv> wordptr_plus p 1"
abbreviation (input) mt_array_data :: "WORD \<Rightarrow> WORD" where "mt_array_data p \<equiv> wordptr_plus p 2"
abbreviation (input) mt_array_dimensions :: "WORD \<Rightarrow> WORD \<Rightarrow> WORD" where
  "mt_array_dimensions p i \<equiv> wordptr_plus p (3 + i)"
abbreviation (input) mt_barrier :: "WORD \<Rightarrow> WORD" where "mt_barrier p \<equiv> wordptr_plus p 2"

section \<open>Loops over elements\<close>

text \<open>Element \<open>i\<close> and the \<open>n - 1\<close> after it, up to the first result that is not zero.\<close>

fun for_elements :: "nat \<Rightarrow> WORD \<Rightarrow> (WORD \<Rightarrow> tvm \<Rightarrow> result) \<Rightarrow> tvm \<Rightarrow> result" where
  "for_elements 0 i f s = Some (ECTX_CONTINUE, s)"
| "for_elements (Suc n) i f s =
     do { (ret, s) \<leftarrow> f i s;
          (if ret \<noteq> 0 then Some (ret, s) else for_elements n (i + 1) f s) }"

lemma for_elements_mono [partial_function_mono]:
  assumes "\<And>i s. mono_option (\<lambda>g. F g i s)"
  shows "mono_option (\<lambda>g. for_elements n i (F g) s)"
proof (induction n arbitrary: i s)
  case 0 show ?case by (simp add: option.const_mono)
next
  case (Suc n)
  show ?case
    unfolding for_elements.simps case_prod_beta
    by (intro bind_mono assms if_mono option.const_mono Suc.IH)
qed

section \<open>Allocation\<close>

definition mt_cb_words :: "WORD \<Rightarrow> WORD" where
  "mt_cb_words type =
     (let flags = MT_FLAGS type
      in MT_CB_PTR_OFFSET + (drop_bit 0 flags AND 1) * (2 * 2) + (drop_bit 2 flags AND 1) * 2)"

definition MT_CB_BASE_PTR :: "WORD \<Rightarrow> WORD \<Rightarrow> WORD" where
  "MT_CB_BASE_PTR mt type = wordptr_minus mt (mt_cb_words type)"

text \<open>
  What \<^verbatim>\<open>mt_alloc_array_int\<close> computes before it allocates: the index of the word for the
  hardware address (zero when there is none), the number of words before the data, the alignment
  mask, the type of the elements and the logarithm of their size. Shift counts of 32 and more,
  which C leaves undefined, give zero.
\<close>

definition array_layout :: "WORD \<Rightarrow> WORD \<times> WORD \<times> WORD \<times> WORD \<times> WORD" where
  "array_layout type =
     (let dimensions = MT_ARRAY_DIM type;
          inner_type = MT_ARRAY_INNER_TYPE type;
          meta_words = dimensions + MT_ARRAY_PTR_OFFSET + 1;
          (dma, meta_words, alignment, inner_type) =
            (if MT_TYPE inner_type = MT_ARRAY_OPTS then
               let has_dma = MT_FLAGS inner_type AND MT_ARRAY_OPTS_DMA \<noteq> 0
               in (if has_dma then dimensions else 0,
                   if has_dma then meta_words + 1 else meta_words,
                   push_bit (unat (MT_ARRAY_OPTS_ALIGN inner_type)) 1 - 1,
                   MT_ARRAY_OPTS_INNER inner_type)
             else (0, meta_words, 0, inner_type));
          (size_shift, alignment) =
            (if MT_TYPE inner_type = MT_NUM then
               let size_shift = mt_num_size_shift (mt_num_type (MT_FLAGS inner_type))
               in (size_shift,
                   if size_shift > of_nat WSH \<and> alignment = 0
                   then push_bit (unat size_shift) 1 - 1 else alignment)
             else (of_nat WSH, alignment))
      in (dma, meta_words, alignment, inner_type, size_shift))"

fun null_words :: "nat \<Rightarrow> WORD \<Rightarrow> tvm \<Rightarrow> tvm" where
  "null_words 0 data s = s"
| "null_words (Suc n) data s = null_words n (wordptr_plus data 1) (put_word data NULL_P s)"

text \<open>The array, the logarithm of the element size, and the state.\<close>

definition mt_alloc_array_int :: "heap \<Rightarrow> WORD \<Rightarrow> WORD \<Rightarrow> WORD \<Rightarrow> bool \<Rightarrow> tvm \<Rightarrow> WORD \<times> WORD \<times> tvm" where
  "mt_alloc_array_int h e type sz init s =
     (let (dma, meta_words, alignment, inner_type, size_shift) = array_layout type;
          bytes = push_bit (unat size_shift) sz + alignment + push_bit WSH meta_words;
          (ma, s) = heap_malloc h e bytes s;
          data = (if sz \<noteq> 0
                  then byteptr_plus (wordptr_plus ma meta_words) alignment AND NOT alignment
                  else NULL_P);
          s = put_word (mt_size ma) sz s;
          s = put_word (mt_type ma) type s;
          s = put_word (mt_array_data ma) data s;
          s = (if dma \<noteq> 0 then put_word (mt_array_dimensions ma dma) data s else s);
          s = (if init \<and> MT_TYPE inner_type \<noteq> MT_NUM then null_words (unat sz) data s else s)
      in (ma, size_shift, s))"

definition mt_alloc_array :: "heap \<Rightarrow> WORD \<Rightarrow> WORD \<Rightarrow> WORD \<Rightarrow> tvm \<Rightarrow> WORD \<times> tvm" where
  "mt_alloc_array h e type sz s =
     (let (ma, size_shift, s) = mt_alloc_array_int h e type sz True s
      in (wordptr_plus ma MT_ARRAY_PTR_OFFSET, s))"

fun set_channels :: "nat \<Rightarrow> WORD \<Rightarrow> WORD \<Rightarrow> WORD \<Rightarrow> tvm \<Rightarrow> tvm" where
  "set_channels 0 i cb cw s = s"
| "set_channels (Suc n) i cb cw s = set_channels n (i + 1) cb cw (put_word (wordptr_plus cb i) cw s)"

definition mt_alloc_cb :: "heap \<Rightarrow> WORD \<Rightarrow> WORD \<Rightarrow> WORD \<Rightarrow> tvm \<Rightarrow> WORD \<times> tvm" where
  "mt_alloc_cb h e type channels s =
     (let type_words = mt_cb_words type;
          type = type OR push_bit 8 channels;
          (cb_base, s) = heap_malloc h e (push_bit WSH (type_words + channels)) s;
          cb = wordptr_plus cb_base type_words;
          cb_int = wordptr_minus cb MT_CB_PTR_OFFSET;
          s = (if type AND MT_CB_SHARED \<noteq> 0
               then tvm_sem_init (MT_CB_LOCK_PTR cb_int MT_CB_CLIENT)
                      (tvm_sem_init (MT_CB_LOCK_PTR cb_int MT_CB_SERVER) s)
               else s);
          (cw, s) =
            (if type AND MT_CB_EXTERNAL \<noteq> 0
             then (cb_base OR 2,
                   put_word (wordptr_plus cb_base 1) NULL_P (put_word (wordptr_plus cb_base 0) NULL_P s))
             else (NOT_PROCESS_P, s));
          s = put_word (mt_ref_count cb_int) 2 s;
          s = put_word (mt_type cb_int) type s
      in (cb, set_channels (unat channels) 0 cb cw s))"

definition mt_alloc_barrier :: "heap \<Rightarrow> WORD \<Rightarrow> WORD \<Rightarrow> tvm \<Rightarrow> WORD \<times> tvm" where
  "mt_alloc_barrier h e type s =
     (let (mb, s) = heap_malloc h e (6 * 4) s;
          bar = mt_barrier mb;
          s = put_word (mt_ref_count mb) 1 s;
          s = put_word (mt_type mb) type s;
          s = (if MT_FLAGS type = MT_BARRIER_FULL then tvm_bar_init bar 1 s
               else if MT_FLAGS type = MT_BARRIER_FORKING then
                 put_word (wordptr_plus bar 1) 0 (put_word (wordptr_plus bar 0) NOT_PROCESS_P s)
               else s)
      in (wordptr_plus mb MT_BARRIER_PTR_OFFSET, s))"

definition mt_alloc_data :: "heap \<Rightarrow> WORD \<Rightarrow> WORD \<Rightarrow> WORD \<Rightarrow> tvm \<Rightarrow> WORD \<times> tvm" where
  "mt_alloc_data h e type sz s =
     (let bytes = ((sz + (4 - 1)) AND NOT (4 - 1)) + push_bit WSH MT_DATA_PTR_OFFSET;
          (md, s) = heap_malloc h e bytes s;
          s = put_word (mt_size md) sz s;
          s = put_word (mt_type md) type s
      in (wordptr_plus md MT_DATA_PTR_OFFSET, s))"

text \<open>The result, the pointer and the state.\<close>

definition mt_alloc :: "heap \<Rightarrow> WORD \<Rightarrow> WORD \<Rightarrow> WORD \<Rightarrow> tvm \<Rightarrow> int \<times> WORD \<times> tvm" where
  "mt_alloc h e type sz s =
     (if type AND MT_SIMPLE \<noteq> 0 \<and> MT_TYPE type = MT_ARRAY then
        (ECTX_CONTINUE, mt_alloc_array h e type sz s)
      else if type AND MT_SIMPLE \<noteq> 0 \<and> MT_TYPE type = MT_CB then
        (ECTX_CONTINUE, mt_alloc_cb h e type sz s)
      else if type AND MT_SIMPLE \<noteq> 0 \<and> MT_TYPE type = MT_BARRIER then
        (ECTX_CONTINUE, mt_alloc_barrier h e type s)
      else if type AND MT_SIMPLE \<noteq> 0 \<and> MT_TYPE type = MT_DATA then
        (ECTX_CONTINUE, mt_alloc_data h e type sz s)
      else (case set_error_flag e EFLAG_MT s of (ret, s) \<Rightarrow> (ret, NULL_P, s)))"

section \<open>Release\<close>

definition release_cb :: "heap \<Rightarrow> WORD \<Rightarrow> WORD \<Rightarrow> WORD \<Rightarrow> tvm \<Rightarrow> result" where
  "release_cb h e ptr type s =
     (let cb = wordptr_minus ptr MT_CB_PTR_OFFSET;
          refs = get_word s (mt_ref_count cb)
      in if refs \<le> 1 then
           let base = MT_CB_BASE_PTR ptr type
           in do {
             s \<leftarrow> (if type AND MT_CB_EXTERNAL \<noteq> 0 then
                     let intf = get_word s (wordptr_plus base 0);
                         data = get_word s (wordptr_plus base 1)
                     in if intf = NULL_P then None
                        else (case ext_cb_free h intf of
                            Some func \<Rightarrow> Some (if data \<noteq> NULL_P then func e data s else s)
                          | None \<Rightarrow> Some s)
                   else Some s);
             Some (ECTX_CONTINUE, heap_free h e base s)
           }
         else continue (put_word (mt_ref_count cb) (refs - 1) s))"

definition release_barrier :: "heap \<Rightarrow> WORD \<Rightarrow> WORD \<Rightarrow> WORD \<Rightarrow> tvm \<Rightarrow> result" where
  "release_barrier h e ptr type s =
     (let mb = wordptr_minus ptr MT_BARRIER_PTR_OFFSET;
          refs = get_word s (mt_ref_count mb)
      in if refs > 1 then
           let s = put_word (mt_ref_count mb) (refs - 1) s
           in if MT_FLAGS type = MT_BARRIER_FULL then tvm_bar_resign e ptr 1 s else continue s
         else
           let (ret, s) =
             (if MT_FLAGS type = MT_BARRIER_FORKING then
                let process = get_word s ptr
                in if process \<noteq> NOT_PROCESS_P then ADD_TO_QUEUE_ECTX e process s
                   else (ECTX_CONTINUE, s)
              else (ECTX_CONTINUE, s))
           in Some (ret, heap_free h e mb s))"

text \<open>\<^verbatim>\<open>mt_release\<close> on top of a function for simple types, and for simple types on top of
  \<^verbatim>\<open>mt_release\<close> for the elements of an array: its results are not looked at.\<close>

definition mt_release_with :: "(WORD \<Rightarrow> WORD \<Rightarrow> tvm \<Rightarrow> result) \<Rightarrow> WORD \<Rightarrow> WORD \<Rightarrow> tvm \<Rightarrow> result" where
  "mt_release_with release_simple e ptr s =
     (let type = read_mt_type s ptr
      in if type AND MT_SIMPLE \<noteq> 0 then release_simple ptr type s
         else SET_ERROR_FLAG_RET e EFLAG_MT s)"

lemma mt_release_with_mono [partial_function_mono]:
  assumes "\<And>ptr type s. mono_option (\<lambda>g. F g ptr type s)"
  shows "mono_option (\<lambda>g. mt_release_with (F g) e ptr s)"
  unfolding mt_release_with_def Let_def
  by (intro if_mono assms option.const_mono)

partial_function (option) mt_release_simple :: "heap \<Rightarrow> WORD \<Rightarrow> WORD \<Rightarrow> WORD \<Rightarrow> tvm \<Rightarrow> result" where
  "mt_release_simple h e ptr type s =
     (if MT_TYPE type = MT_ARRAY then
        (let ma = wordptr_minus ptr MT_ARRAY_PTR_OFFSET in do {
           (ret, s) \<leftarrow>
             (if MT_TYPE (element_type (MT_ARRAY_INNER_TYPE type)) \<noteq> MT_NUM then
                let sz = get_word s (mt_size ma); data = get_word s (mt_array_data ma)
                in for_elements (unat sz) 0
                     (\<lambda>i s. let inner_ptr = get_word s (wordptr_plus data i) in
                        if inner_ptr \<noteq> NULL_P
                        then do { (ret, s) \<leftarrow> mt_release_with (\<lambda>p t s. mt_release_simple h e p t s) e inner_ptr s;
                                  Some (ECTX_CONTINUE, s) }
                        else Some (ECTX_CONTINUE, s)) s
              else Some (ECTX_CONTINUE, s));
           Some (ECTX_CONTINUE, heap_free h e ma s)
         })
      else if MT_TYPE type = MT_CB then release_cb h e ptr type s
      else if MT_TYPE type = MT_BARRIER then release_barrier h e ptr type s
      else if MT_TYPE type = MT_DATA then
        Some (ECTX_CONTINUE, heap_free h e (wordptr_minus ptr MT_DATA_PTR_OFFSET) s)
      else SET_ERROR_FLAG_RET e EFLAG_MT s)"

definition mt_release :: "heap \<Rightarrow> WORD \<Rightarrow> WORD \<Rightarrow> tvm \<Rightarrow> result" where
  "mt_release h e ptr s = mt_release_with (mt_release_simple h e) e ptr s"

section \<open>Cloning\<close>

text \<open>
  The variable the clone is returned in is an argument and a result: on some paths it is not
  assigned. As for release, \<open>mt_clone_with\<close> is \<^verbatim>\<open>mt_clone\<close> over a function for simple
  types.
\<close>

type_synonym clone_result = "(int \<times> WORD \<times> tvm) option"

definition mt_clone_with ::
    "(WORD \<Rightarrow> WORD \<Rightarrow> WORD \<Rightarrow> tvm \<Rightarrow> clone_result) \<Rightarrow> WORD \<Rightarrow> WORD \<Rightarrow> WORD \<Rightarrow> tvm \<Rightarrow> clone_result" where
  "mt_clone_with clone_simple e ptr ret s =
     (let type = read_mt_type s ptr
      in if type AND MT_SIMPLE \<noteq> 0 then clone_simple ptr type ret s
         else (case set_error_flag e EFLAG_MT s of (eret, s) \<Rightarrow> Some (eret, NULL_P, s)))"

lemma mt_clone_with_mono [partial_function_mono]:
  assumes "\<And>ptr type ret s. mono_option (\<lambda>g. F g ptr type ret s)"
  shows "mono_option (\<lambda>g. mt_clone_with (F g) e ptr ret s)"
  unfolding mt_clone_with_def Let_def
  by (intro if_mono assms option.const_mono)

text \<open>The loop that clones the elements, with \<^verbatim>\<open>mt_clone\<close> as a parameter.\<close>

definition clone_elements ::
    "(WORD \<Rightarrow> WORD \<Rightarrow> tvm \<Rightarrow> clone_result) \<Rightarrow> WORD \<Rightarrow> WORD \<Rightarrow> WORD \<Rightarrow> tvm \<Rightarrow> result" where
  "clone_elements clone dst_data src_data sz s =
     for_elements (unat sz) 0
       (\<lambda>i s. let inner_ptr = get_word s (wordptr_plus src_data i) in
          do { (eret, inner_ptr, s) \<leftarrow>
                 (if inner_ptr \<noteq> NULL_P then clone inner_ptr inner_ptr s
                  else Some (ECTX_CONTINUE, inner_ptr, s));
               (if eret \<noteq> 0 then Some (eret, s)
                else continue (put_word (wordptr_plus dst_data i) inner_ptr s)) }) s"

lemma clone_elements_mono [partial_function_mono]:
  assumes "\<And>ptr ret s. mono_option (\<lambda>g. F g ptr ret s)"
  shows "mono_option (\<lambda>g. clone_elements (F g) dst_data src_data sz s)"
  unfolding clone_elements_def Let_def
  by (intro for_elements_mono bind_mono if_mono assms option.const_mono)

definition mt_clone_array ::
    "(WORD \<Rightarrow> WORD \<Rightarrow> tvm \<Rightarrow> clone_result) \<Rightarrow> heap \<Rightarrow> WORD \<Rightarrow> WORD \<Rightarrow> WORD \<Rightarrow> WORD \<Rightarrow> tvm \<Rightarrow> clone_result" where
  "mt_clone_array clone h e ptr type ret s =
     (let src = wordptr_minus ptr MT_ARRAY_PTR_OFFSET;
          dimensions = MT_ARRAY_DIM type;
          sz = get_word s (mt_size src);
          (dst, size_shift, s) = mt_alloc_array_int h e type sz False s;
          s = s\<lparr>mem := copy_words native_ops (unat dimensions)
                (mt_array_dimensions dst 0) (mt_array_dimensions src 0) (mem s)\<rparr>;
          dst_data = get_word s (mt_array_data dst);
          src_data = get_word s (mt_array_data src)
      in do {
        (eret, s) \<leftarrow>
          (if MT_TYPE (element_type (MT_ARRAY_INNER_TYPE type)) = MT_NUM then
             continue (s\<lparr>mem := snd (tvm_memcpy native_ops dst_data src_data
                                    (push_bit (unat size_shift) sz) (mem s))\<rparr>)
           else clone_elements clone dst_data src_data sz s);
        (if eret \<noteq> 0 then Some (eret, ret, s)
         else Some (ECTX_CONTINUE, wordptr_plus dst MT_ARRAY_PTR_OFFSET, s))
      })"

lemma mt_clone_array_mono [partial_function_mono]:
  assumes "\<And>ptr ret s. mono_option (\<lambda>g. F g ptr ret s)"
  shows "mono_option (\<lambda>g. mt_clone_array (F g) h e ptr type ret s)"
  unfolding mt_clone_array_def Let_def case_prod_beta
  by (intro bind_mono if_mono clone_elements_mono assms option.const_mono)

definition clone_barrier :: "WORD \<Rightarrow> WORD \<Rightarrow> WORD \<Rightarrow> WORD \<Rightarrow> tvm \<Rightarrow> clone_result" where
  "clone_barrier e ptr type ret s =
     (let mb = wordptr_minus ptr MT_BARRIER_PTR_OFFSET;
          refs = get_word s (mt_ref_count mb);
          s = put_word (mt_ref_count mb) (refs + 1) s
      in if MT_FLAGS type = MT_BARRIER_FULL
         then do { (eret, s) \<leftarrow> tvm_bar_enroll e ptr 1 s; Some (eret, ret, s) }
         else Some (ECTX_CONTINUE, ptr, s))"

definition clone_data :: "heap \<Rightarrow> WORD \<Rightarrow> WORD \<Rightarrow> WORD \<Rightarrow> tvm \<Rightarrow> clone_result" where
  "clone_data h e ptr type s =
     (let src = wordptr_minus ptr MT_DATA_PTR_OFFSET;
          sz = get_word s (mt_size src);
          (dst, s) = mt_alloc_data h e type sz s
      in Some (ECTX_CONTINUE, dst, s\<lparr>mem := snd (tvm_memcpy native_ops dst ptr sz (mem s))\<rparr>))"

partial_function (option) mt_clone_simple ::
    "heap \<Rightarrow> WORD \<Rightarrow> WORD \<Rightarrow> WORD \<Rightarrow> WORD \<Rightarrow> tvm \<Rightarrow> clone_result" where
  "mt_clone_simple h e ptr type ret s =
     (if MT_TYPE type = MT_ARRAY then
        mt_clone_array (\<lambda>p r s. mt_clone_with (\<lambda>p t r s. mt_clone_simple h e p t r s) e p r s) h e ptr type ret s
      else if MT_TYPE type = MT_CB then
        (let cb = wordptr_minus ptr MT_CB_PTR_OFFSET;
             refs = get_word s (mt_ref_count cb)
         in Some (ECTX_CONTINUE, ptr, put_word (mt_ref_count cb) (refs + 1) s))
      else if MT_TYPE type = MT_BARRIER then clone_barrier e ptr type ret s
      else if MT_TYPE type = MT_DATA then clone_data h e ptr type s
      else (case set_error_flag e EFLAG_MT s of (eret, s) \<Rightarrow> Some (eret, NULL_P, s)))"

definition mt_clone :: "heap \<Rightarrow> WORD \<Rightarrow> WORD \<Rightarrow> WORD \<Rightarrow> tvm \<Rightarrow> clone_result" where
  "mt_clone h e ptr ret s = mt_clone_with (mt_clone_simple h e) e ptr ret s"

section \<open>Communication\<close>

text \<open>
  The functions that adjust a mobile when it is communicated take the address of the variable that
  refers to it, \<open>ptr\<close>; the mobile is at \<open>get_word s ptr\<close>.
\<close>

definition mt_io_update_shared_cb :: "WORD \<Rightarrow> tvm \<Rightarrow> tvm" where
  "mt_io_update_shared_cb ptr s =
     (let cb = wordptr_minus (get_word s ptr) MT_CB_PTR_OFFSET;
          refs = get_word s (mt_ref_count cb)
      in put_word (mt_ref_count cb) (refs + 1) s)"

definition mt_io_update_barrier :: "WORD \<Rightarrow> WORD \<Rightarrow> tvm \<Rightarrow> result" where
  "mt_io_update_barrier e ptr s =
     (let bar = get_word s ptr;
          mb = wordptr_minus bar MT_BARRIER_PTR_OFFSET;
          refs = get_word s (mt_ref_count mb);
          type = read_mt_type s bar;
          s = put_word (mt_ref_count mb) (refs + 1) s
      in if MT_FLAGS type = MT_BARRIER_FULL then tvm_bar_enroll e (get_word s ptr) 1 s
         else continue s)"

text \<open>The \<^verbatim>\<open>do\<close> loop of \<^verbatim>\<open>mt_io_update\<close>: do the elements of an array, at whatever
  depth, turn out to be numbers?\<close>

lemma MT_TYPE_zero [simp]: "MT_TYPE 0 = 0"
  by (simp add: MT_TYPE_def)

lemma element_type_le: "unat (element_type (drop_bit 8 t)) \<le> unat t div 256"
  by (simp add: element_type_def MT_ARRAY_OPTS_INNER_def drop_bit_eq_div unat_div_distrib)

function only_numbers :: "WORD \<Rightarrow> bool" where
  "only_numbers temp =
     (let temp = element_type (MT_ARRAY_INNER_TYPE temp)
      in if MT_TYPE temp = MT_NUM then True
         else if MT_TYPE temp = MT_ARRAY then only_numbers temp
         else False)"
  by auto
termination
proof (relation "measure unat")
  fix temp x :: WORD
  assume x: "x = element_type (MT_ARRAY_INNER_TYPE temp)" "MT_TYPE x \<noteq> MT_NUM"
  then have "x \<noteq> 0" by auto
  then have "0 < unat x" by (simp add: unat_gt_0)
  moreover have "unat x \<le> unat temp div 256"
    using element_type_le [of temp] x by (simp add: MT_ARRAY_INNER_TYPE_def)
  ultimately show "(x, temp) \<in> measure unat" by simp
qed simp

declare only_numbers.simps [simp del]

text \<open>The result, whether the reference moves, and the state. \<open>update_array\<close> stands for
  \<^verbatim>\<open>mt_io_update_array\<close>.\<close>

definition mt_io_update_with ::
    "(WORD \<Rightarrow> WORD \<Rightarrow> tvm \<Rightarrow> result) \<Rightarrow> WORD \<Rightarrow> WORD \<Rightarrow> tvm \<Rightarrow> clone_result" where
  "mt_io_update_with update_array e ptr s =
     (let type = read_mt_type s (get_word s ptr)
      in if type AND MT_SIMPLE \<noteq> 0 then
           if MT_TYPE type = MT_ARRAY then
             if only_numbers type then Some (ECTX_CONTINUE, MT_TRUE, s)
             else do { (ret, s) \<leftarrow> update_array ptr (MT_ARRAY_INNER_TYPE type) s; Some (ret, MT_TRUE, s) }
           else if MT_TYPE type = MT_CB then
             if type AND MT_CB_SHARED \<noteq> 0
             then Some (ECTX_CONTINUE, MT_FALSE, mt_io_update_shared_cb ptr s)
             else Some (ECTX_CONTINUE, MT_TRUE, s)
           else if MT_TYPE type = MT_BARRIER then
             do { (ret, s) \<leftarrow> mt_io_update_barrier e ptr s; Some (ret, MT_FALSE, s) }
           else if MT_TYPE type = MT_DATA then Some (ECTX_CONTINUE, MT_TRUE, s)
           else Some (ECTX_CONTINUE, MT_FALSE, s)
         else (case set_error_flag e EFLAG_MT s of (ret, s) \<Rightarrow> Some (ret, MT_TRUE, s)))"

lemma mt_io_update_with_mono [partial_function_mono]:
  assumes "\<And>ptr inner s. mono_option (\<lambda>g. F g ptr inner s)"
  shows "mono_option (\<lambda>g. mt_io_update_with (F g) e ptr s)"
  unfolding mt_io_update_with_def Let_def case_prod_beta
  by (intro if_mono bind_mono assms option.const_mono)

text \<open>The array whose elements are walked is the one below the address of the variable, as in the
  code: \<^verbatim>\<open>wordptr_minus (ptr, MT_ARRAY_PTR_OFFSET)\<close> and not \<^verbatim>\<open>*ptr\<close>.\<close>

partial_function (option) mt_io_update_array :: "WORD \<Rightarrow> WORD \<Rightarrow> WORD \<Rightarrow> tvm \<Rightarrow> result" where
  "mt_io_update_array e ptr inner s =
     (let ma = wordptr_minus ptr MT_ARRAY_PTR_OFFSET;
          data = get_word s (mt_array_data ma);
          sz = get_word s (mt_size ma)
      in
      if MT_TYPE inner = MT_ARRAY then
        for_elements (unat sz) 0
          (\<lambda>i s. if get_word s (wordptr_plus data i) \<noteq> NULL_P
             then mt_io_update_array e (wordptr_plus data i) (MT_ARRAY_INNER_TYPE inner) s
             else Some (ECTX_CONTINUE, s)) s
      else if MT_TYPE inner = MT_CB then
        (if inner AND MT_CB_SHARED = 0 then Some (ECTX_CONTINUE, s)
         else for_elements (unat sz) 0
          (\<lambda>i s. if get_word s (wordptr_plus data i) \<noteq> NULL_P
             then continue (mt_io_update_shared_cb (wordptr_plus data i) s)
             else Some (ECTX_CONTINUE, s)) s)
      else if MT_TYPE inner = MT_BARRIER then
        for_elements (unat sz) 0
          (\<lambda>i s. if get_word s (wordptr_plus data i) \<noteq> NULL_P
             then mt_io_update_barrier e (wordptr_plus data i) s
             else Some (ECTX_CONTINUE, s)) s
      else if MT_TYPE inner = MT_MT then
        for_elements (unat sz) 0
          (\<lambda>i s. if get_word s (wordptr_plus data i) \<noteq> NULL_P
             then do { (ret, move, s) \<leftarrow>
                         mt_io_update_with (\<lambda>p t s. mt_io_update_array e p t s) e (wordptr_plus data i) s;
                       Some (ret, s) }
             else Some (ECTX_CONTINUE, s)) s
      else if MT_TYPE inner = MT_DATA then Some (ECTX_CONTINUE, s)
      else SET_ERROR_FLAG_RET e EFLAG_MT s)"

definition mt_io_update :: "WORD \<Rightarrow> WORD \<Rightarrow> tvm \<Rightarrow> clone_result" where
  "mt_io_update e ptr s = mt_io_update_with (mt_io_update_array e) e ptr s"

text \<open>
  In \<^verbatim>\<open>mt_chan_io\<close> and \<^verbatim>\<open>mt_chan_dc_out\<close> that variable is a local one: it lives at
  \<open>frame\<close>, an address on the stack of the host.
\<close>

definition mt_chan_io :: "WORD \<Rightarrow> WORD \<Rightarrow> WORD \<Rightarrow> WORD \<Rightarrow> tvm \<Rightarrow> result" where
  "mt_chan_io frame e dst src s =
     (let s = put_word frame (get_word s src) s in do {
        (ret, s) \<leftarrow>
          (if get_word s frame \<noteq> NULL_P then do {
             (ret, move, s) \<leftarrow> mt_io_update e frame s;
             Some (ret, if ret = 0 \<and> move = MT_TRUE then put_word src NULL_P s else s)
           } else continue s);
        (if ret \<noteq> 0 then Some (ret, s)
         else continue (put_word dst (get_word s frame) s))
      })"

definition mt_chan_in :: "WORD \<Rightarrow> io_data" where
  "mt_chan_in frame e dst_ptr len src_wptr s =
     (let src = WORKSPACE_GET s src_wptr WS_POINTER in mt_chan_io frame e dst_ptr src s)"

definition mt_chan_out :: "WORD \<Rightarrow> io_data" where
  "mt_chan_out frame e src_ptr len dst_wptr s =
     (let dst = WORKSPACE_GET s dst_wptr WS_POINTER in mt_chan_io frame e dst src_ptr s)"

definition mt_chan_dc_in :: io_disconnected where
  "mt_chan_dc_in e dst_ptr len s = continue (put_word dst_ptr NULL_P s)"

definition mt_chan_dc_out :: "heap \<Rightarrow> WORD \<Rightarrow> io_disconnected" where
  "mt_chan_dc_out h frame e src len s =
     (let s = put_word frame (get_word s src) s in
      if get_word s frame \<noteq> NULL_P then do {
        (ret, move, s) \<leftarrow> mt_io_update e frame s;
        (if ret \<noteq> 0 then Some (ret, s)
         else mt_release h e (get_word s frame) (if move = MT_TRUE then put_word src NULL_P s else s))
      } else continue s)"

section \<open>Instructions\<close>

definition ins_mreleasep :: "heap \<Rightarrow> WORD \<Rightarrow> tvm \<Rightarrow> result" where
  "ins_mreleasep h e s =
     (let adjust = AREG e s;
          ptr = byteptr_plus (WPTR e s) (adjust * 4)
      in do {
        (ret, s) \<leftarrow> mt_release_simple h e ptr (MT_MAKE_TYPE MT_DATA) s;
        (if ret \<noteq> 0 then Some (ret, s) else run_next_on_queue e s)
      })"

definition ins_malloc :: "heap \<Rightarrow> WORD \<Rightarrow> tvm \<Rightarrow> result" where
  "ins_malloc h e s =
     (let sz = AREG e s;
          (ptr, s) = (if sz \<noteq> 0 then mt_alloc_data h e (MT_SIMPLE OR MT_MAKE_TYPE MT_DATA) sz s
                      else (NULL_P, s))
      in STACK1_RET e ptr s)"

definition ins_mrelease :: "heap \<Rightarrow> WORD \<Rightarrow> tvm \<Rightarrow> result" where
  "ins_mrelease h e s =
     (let ptr = AREG e s
      in if ptr \<noteq> NULL_P then mt_release_simple h e ptr (MT_MAKE_TYPE MT_DATA) s
         else SET_ERROR_FLAG_RET e EFLAG_DMEM s)"

definition ins_mt_alloc :: "heap \<Rightarrow> WORD \<Rightarrow> tvm \<Rightarrow> result" where
  "ins_mt_alloc h e s =
     (let (ret, ptr, s) = mt_alloc h e (AREG e s) (BREG e s) s
      in if ret \<noteq> 0 then Some (ret, s) else STACK1_RET e ptr s)"

definition ins_mt_release :: "heap \<Rightarrow> WORD \<Rightarrow> tvm \<Rightarrow> result" where
  "ins_mt_release h e s = mt_release h e (AREG e s) s"

text \<open>\<open>undef\<close> is the value of the uninitialised local variable the clone is returned in.\<close>

definition ins_mt_clone :: "heap \<Rightarrow> WORD \<Rightarrow> WORD \<Rightarrow> tvm \<Rightarrow> result" where
  "ins_mt_clone h undef e s = do {
     (ret, ptr, s) \<leftarrow> mt_clone h e (AREG e s) undef s;
     (if ret \<noteq> 0 then Some (ret, s) else STACK1_RET e ptr s)
   }"

definition ins_mt_in :: "WORD \<Rightarrow> WORD \<Rightarrow> tvm \<Rightarrow> result" where
  "ins_mt_in frame e s =
     (let chan_ptr = AREG e s; dst = BREG e s
      in chan_std_io e chan_ptr dst MIN_INT (mt_chan_in frame) mt_chan_dc_in s)"

definition ins_mt_out :: "heap \<Rightarrow> WORD \<Rightarrow> WORD \<Rightarrow> tvm \<Rightarrow> result" where
  "ins_mt_out h frame e s =
     (let chan_ptr = AREG e s; src = BREG e s
      in chan_std_io e chan_ptr src (MIN_INT + 1) (mt_chan_out frame) (mt_chan_dc_out h frame) s)"

definition ins_mt_xchg :: "WORD \<Rightarrow> tvm \<Rightarrow> result" where
  "ins_mt_xchg e s =
     (let chan_ptr = AREG e s; data_ptr = BREG e s in chan_swap e chan_ptr data_ptr s)"

definition ins_mt_lock :: "WORD \<Rightarrow> tvm \<Rightarrow> result" where
  "ins_mt_lock e s =
     (let mt = wordptr_minus (BREG e s) MT_CB_PTR_OFFSET;
          lock = AREG e s;
          ptr = MT_CB_LOCK_PTR mt lock
      in tvm_sem_claim e ptr s)"

definition ins_mt_unlock :: "WORD \<Rightarrow> tvm \<Rightarrow> result" where
  "ins_mt_unlock e s =
     (let mt = wordptr_minus (BREG e s) MT_CB_PTR_OFFSET;
          lock = AREG e s;
          ptr = MT_CB_LOCK_PTR mt lock
      in tvm_sem_release e ptr s)"

definition ins_mt_enroll :: "WORD \<Rightarrow> tvm \<Rightarrow> result" where
  "ins_mt_enroll e s =
     (let mt = BREG e s; count = AREG e s; type = read_mt_type s mt
      in if MT_FLAGS type = MT_BARRIER_FULL then tvm_bar_enroll e mt count s
         else SET_ERROR_FLAG_RET e EFLAG_MT s)"

definition ins_mt_resign :: "WORD \<Rightarrow> tvm \<Rightarrow> result" where
  "ins_mt_resign e s =
     (let mt = BREG e s; count = AREG e s; type = read_mt_type s mt
      in if MT_FLAGS type = MT_BARRIER_FULL then tvm_bar_resign e mt count s
         else SET_ERROR_FLAG_RET e EFLAG_MT s)"

definition ins_mt_sync :: "heap \<Rightarrow> WORD \<Rightarrow> tvm \<Rightarrow> result" where
  "ins_mt_sync h e s =
     (let mt = AREG e s; type = read_mt_type s mt
      in if MT_FLAGS type = MT_BARRIER_FULL then tvm_bar_sync e mt s
         else if MT_FLAGS type = MT_BARRIER_FORKING then
           let mb = wordptr_minus mt MT_BARRIER_PTR_OFFSET;
               refs = get_word s (mt_ref_count mb)
           in if refs \<le> 1 then UNDEFINE_STACK_RET e (heap_free h e mb s)
              else
                let s = WORKSPACE_SET (WPTR e s) WS_ECTX e s;
                    s = WORKSPACE_SET (WPTR e s) WS_IPTR (IPTR e s) s;
                    s = put_word (mt_ref_count mb) (refs - 1) s;
                    s = put_word mt (WPTR e s) s
                in run_next_on_queue e s
         else SET_ERROR_FLAG_RET e EFLAG_MT s)"

definition ins_mt_xin :: "WORD \<Rightarrow> WORD \<Rightarrow> tvm \<Rightarrow> result" where
  "ins_mt_xin frame e s =
     (let chan_ptr = AREG e s; data_ptr = BREG e s; s = UNDEFINE_STACK e s
      in do {
        (ret, requeue, s) \<leftarrow> chan_io e chan_ptr data_ptr MIN_INT (mt_chan_in frame) mt_chan_dc_in s;
        (if ret > 0 then Some (ret, s)
         else if ret \<noteq> 0 then SET_ERROR_FLAG_RET e EFLAG_CHAN s
         else if requeue = NOT_PROCESS_P OR 1 then run_next_on_queue e (DESCHEDULE_CURRENT e s)
         else continue (put_word chan_ptr requeue s))
      })"

definition ins_mt_xout :: "WORD \<Rightarrow> tvm \<Rightarrow> result" where
  "ins_mt_xout e s = Some (ECTX_INS_UNSUPPORTED, s)"

definition ins_mt_xxchg :: "WORD \<Rightarrow> tvm \<Rightarrow> result" where
  "ins_mt_xxchg e s =
     (let chan_ptr = AREG e s;
          data_ptr = BREG e s;
          other_WPTR = get_word s chan_ptr;
          other_ptr = WORKSPACE_GET s other_WPTR WS_POINTER
      in UNDEFINE_STACK_RET e (swap_data_word e data_ptr other_ptr s))"

definition ins_mt_dclone :: "heap \<Rightarrow> WORD \<Rightarrow> tvm \<Rightarrow> result" where
  "ins_mt_dclone h e s =
     (let src = CREG e s; bytes = BREG e s; type = AREG e s
      in if type = MT_SIMPLE OR MT_MAKE_TYPE MT_DATA then
           if bytes \<noteq> 0 then
             let (dst, s) = mt_alloc_data h e type bytes s;
                 s = s\<lparr>mem := snd (tvm_memcpy native_ops dst src bytes (mem s))\<rparr>
             in STACK1_RET e dst s
           else STACK1_RET e NULL_P s
         else SET_ERROR_FLAG_RET e EFLAG_MT (STACK1 e NULL_P s))"

text \<open>Binding an array to memory at an address, and making the memory of an array fit for DMA. Both
  give the result and the reference to leave on the stack.\<close>

definition bind_address :: "heap \<Rightarrow> WORD \<Rightarrow> WORD \<Rightarrow> WORD \<Rightarrow> WORD \<Rightarrow> tvm \<Rightarrow> clone_result" where
  "bind_address h e ptr type data s =
     (let dimensions = MT_ARRAY_DIM type;
          phys_addr = data;
          virt_addr = data;
          inner = MT_ARRAY_INNER_TYPE type;
          flags = MT_FLAGS inner
      in do {
        (ret, s) \<leftarrow>
          (if MT_TYPE inner = MT_ARRAY_OPTS \<and> flags AND MT_ARRAY_OPTS_SEPARATED \<noteq> 0
              \<and> get_word s (wordptr_plus ptr 0) \<noteq> NULL_P
           then mt_release h e (get_word s (wordptr_plus ptr 0)) s
           else continue s);
        (if ret \<noteq> 0 then Some (ret, ptr, s)
         else
           let s = (if MT_TYPE inner = MT_ARRAY_OPTS \<and> flags AND MT_ARRAY_OPTS_DMA \<noteq> 0
                    then put_word (wordptr_plus ptr (1 + dimensions)) phys_addr s else s)
           in Some (ECTX_CONTINUE, ptr, put_word (wordptr_plus ptr 0) virt_addr s))
      })"

definition bind_dma :: "heap \<Rightarrow> WORD \<Rightarrow> WORD \<Rightarrow> WORD \<Rightarrow> WORD \<Rightarrow> tvm \<Rightarrow> clone_result" where
  "bind_dma h undef e ptr type s =
     (let dimensions = MT_ARRAY_DIM type;
          ma = wordptr_minus ptr MT_ARRAY_PTR_OFFSET;
          inner = MT_ARRAY_INNER_TYPE type;
          opts = (MT_TYPE inner = MT_ARRAY_OPTS);
          dma_ready = (opts \<and> MT_FLAGS inner AND MT_ARRAY_OPTS_DMA \<noteq> 0);
          (align, flags, inner) =
            (if opts \<and> \<not> dma_ready
             then (MT_ARRAY_OPTS_ALIGN inner, MT_FLAGS inner, MT_ARRAY_OPTS_INNER inner)
             else (0, 0, inner));
          dma_type = MT_MAKE_ARRAY_TYPE dimensions
                       (MT_MAKE_ARRAY_OPTS (flags OR MT_ARRAY_OPTS_DMA) align inner)
      in if dma_ready then
           let data = get_word s (mt_array_data ma);
               s = put_word (mt_type ma) dma_type s
           in Some (ECTX_CONTINUE, ptr, put_word (mt_array_dimensions ma dimensions) data s)
         else
           let old_type = read_mt_type s ptr in do {
             (ret, new_ptr, s) \<leftarrow> mt_clone h e ptr undef (put_word (mt_type ma) dma_type s);
             (if ret \<noteq> 0 then Some (ret, ptr, s)
              else do {
                (ret, s) \<leftarrow> mt_release h e ptr (put_word (mt_type ma) old_type s);
                Some (ret, if ret \<noteq> 0 then ptr else new_ptr, s)
              })
           })"

definition ins_mt_bind :: "heap \<Rightarrow> WORD \<Rightarrow> WORD \<Rightarrow> tvm \<Rightarrow> result" where
  "ins_mt_bind h undef e s =
     (let data = CREG e s;
          ptr = BREG e s;
          bind_type = AREG e s;
          type = read_mt_type s ptr
      in if type AND MT_SIMPLE \<noteq> 0 \<and> MT_TYPE type = MT_ARRAY \<and>
            bind_type \<in> {MT_BIND_VIRTUAL, MT_BIND_PHYSICAL, MT_BIND_DMA}
         then do {
           (ret, ptr, s) \<leftarrow>
             (if bind_type = MT_BIND_VIRTUAL \<or> bind_type = MT_BIND_PHYSICAL
              then bind_address h e ptr type data s
              else bind_dma h undef e ptr type s);
           (if ret \<noteq> 0 then Some (ret, s) else STACK1_RET e ptr s)
         }
         else SET_ERROR_FLAG_RET e EFLAG_MT (STACK1 e NULL_P s))"

text \<open>The loops of \<^verbatim>\<open>mt_resize\<close> over arrays whose elements are references: moving the first
  ones to the new array, and releasing some when the array keeps its place.\<close>

fun move_words :: "nat \<Rightarrow> WORD \<Rightarrow> WORD \<Rightarrow> tvm \<Rightarrow> tvm" where
  "move_words 0 dst_data src_data s = s"
| "move_words (Suc n) dst_data src_data s =
     (let inner_ptr = get_word s src_data
      in move_words n (wordptr_plus dst_data 1) (wordptr_plus src_data 1)
           (put_word src_data NULL_P (put_word dst_data inner_ptr s)))"

definition resize_move :: "heap \<Rightarrow> WORD \<Rightarrow> WORD \<Rightarrow> WORD \<Rightarrow> WORD \<Rightarrow> tvm \<Rightarrow> clone_result" where
  "resize_move h e ptr type new_size s =
     (let src = wordptr_minus ptr MT_ARRAY_PTR_OFFSET;
          inner_type = element_type (MT_ARRAY_INNER_TYPE type);
          old_size = get_word s (mt_size src);
          count = (if old_size < new_size then old_size else new_size);
          dimensions = MT_ARRAY_DIM type;
          (dst, size_shift, s) = mt_alloc_array_int h e type new_size False s;
          s = s\<lparr>mem := copy_words native_ops (unat dimensions)
                (mt_array_dimensions dst 0) (mt_array_dimensions src 0) (mem s)\<rparr>;
          dst_data = get_word s (mt_array_data dst);
          src_data = get_word s (mt_array_data src);
          s = (if MT_TYPE inner_type = MT_NUM then
                 s\<lparr>mem := snd (tvm_memcpy native_ops dst_data src_data
                             (push_bit (unat size_shift) count) (mem s))\<rparr>
               else
                 let s = move_words (unat count) dst_data src_data s
                 in if new_size > old_size
                    then null_words (unat (new_size - old_size)) (wordptr_plus dst_data count) s
                    else s)
      in do {
        (ret, s) \<leftarrow> mt_release_simple h e ptr type s;
        Some (ECTX_CONTINUE, wordptr_plus dst MT_ARRAY_PTR_OFFSET, s)
      })"

definition resize_in_place :: "heap \<Rightarrow> WORD \<Rightarrow> WORD \<Rightarrow> WORD \<Rightarrow> WORD \<Rightarrow> tvm \<Rightarrow> clone_result" where
  "resize_in_place h e ptr type new_size s =
     (let ma = wordptr_minus ptr MT_ARRAY_PTR_OFFSET;
          old_size = get_word s (mt_size ma)
      in if old_size > new_size \<and> MT_TYPE (element_type (MT_ARRAY_INNER_TYPE type)) \<noteq> MT_NUM then
           let data = get_word s (mt_array_data ma); count = old_size - new_size
           in do {
             (ret, s) \<leftarrow> for_elements (unat count) 0
               (\<lambda>i s. let p = get_word s (wordptr_plus data i)
                  in if p \<noteq> NULL_P
                     then do { (ret, s) \<leftarrow> mt_release h e p s; continue (put_word (wordptr_plus data i) NULL_P s) }
                     else continue s) s;
             Some (ECTX_CONTINUE, ptr, s)
           }
         else Some (ECTX_CONTINUE, ptr, s))"

definition ins_mt_resize :: "heap \<Rightarrow> WORD \<Rightarrow> tvm \<Rightarrow> result" where
  "ins_mt_resize h e s =
     (let resize_type = AREG e s;
          ptr = BREG e s;
          new_size = CREG e s;
          type = read_mt_type s ptr;
          old_size = get_word s (mt_size (wordptr_minus ptr MT_ARRAY_PTR_OFFSET))
      in if resize_type = MT_RESIZE_DATA \<and> ptr \<noteq> NULL_P \<and>
            type AND MT_SIMPLE \<noteq> 0 \<and> MT_TYPE type = MT_ARRAY
         then do {
           (ret, ptr, s) \<leftarrow>
             (if old_size < new_size \<or> new_size < drop_bit 1 old_size
              then resize_move h e ptr type new_size s
              else resize_in_place h e ptr type new_size s);
           STACK1_RET e ptr s
         }
         else SET_ERROR_FLAG_RET e EFLAG_MT (STACK1 e NULL_P s))"

section \<open>Entry points of the host\<close>

definition tvm_mt_alloc :: "heap \<Rightarrow> WORD \<Rightarrow> WORD \<Rightarrow> WORD \<Rightarrow> tvm \<Rightarrow> WORD \<times> tvm" where
  "tvm_mt_alloc h e type sz s =
     (let (ret, ptr, s) = mt_alloc h e type sz s in (if ret = 0 then ptr else NULL_P, s))"

definition tvm_mt_release :: "heap \<Rightarrow> WORD \<Rightarrow> WORD \<Rightarrow> tvm \<Rightarrow> tvm option" where
  "tvm_mt_release h e ptr s = do { (ret, s) \<leftarrow> mt_release h e ptr s; Some s }"

end
