(* ===== verification/Tvm_Mobile_Laws.thy ===== *)
theory Tvm_Mobile_Laws
  imports Tvm_Mobile
begin

text \<open>
  What the operations of \<^verbatim>\<open>ins_mobile.c\<close> promise: cloning and releasing are balanced,
  the copy of a data mobile has the bytes of the original, communication moves what is not shared,
  a forking barrier wakes its process when the last clone is released, and the data of an array
  lies aligned inside its block.
\<close>

section \<open>Words of a mobile\<close>

lemmas mobile_words [simp] = wordptr_plus_def wordptr_minus_def

lemma write_word_twice: "write_word (write_word m p v) p w = write_word m p w"
  by (rule ext) (simp add: write_word_def)

lemma write_word_commute:
  "apart 4 p q \<Longrightarrow> write_word (write_word m p v) q w = write_word (write_word m q w) p v"
proof (rule ext)
  fix x assume a: "apart 4 p q"
  show "write_word (write_word m p v) q w x = write_word (write_word m q w) p v x"
  proof (cases "x - q < 4")
    case True
    then have "4 \<le> q + (x - q) - p" by (rule apart_bytes [OF a])
    then have "4 \<le> x - p" by simp
    then show ?thesis using True
      by (simp add: write_word_outside)
        (auto simp: write_word_def diff_eq_eq add.commute dest!: word_offset_cases)
  next
    case False
    then show ?thesis
      by (cases "x - p < 4")
        (auto simp: write_word_outside not_less, auto simp: write_word_def diff_eq_eq add.commute dest!: word_offset_cases)
  qed
qed

lemma write_word_same: "write_word m p (read_word m p) = m"
proof (rule ext)
  fix x
  show "write_word m p (read_word m p) x = m x"
  proof (cases "x - p < 4")
    case True
    then show ?thesis using write_word_read_word_byte [of "x - p" m p p] by simp
  qed (simp add: write_word_outside)
qed

lemma put_word_twice [simp]: "put_word p v (put_word p w s) = put_word p v s"
  by (simp add: put_word_def write_word_twice)

lemma put_word_same: "get_word s p = v \<Longrightarrow> put_word p v s = s"
  by (auto simp: put_word_def write_word_same)

lemma put_word_commute: "apart 4 p q \<Longrightarrow> put_word p v (put_word q w s) = put_word q w (put_word p v s)"
  by (simp add: put_word_def write_word_commute apart_commute)

text \<open>Words at different offsets of one structure.\<close>

lemma get_put_other [simp]: "apart 4 p q \<Longrightarrow> read_word (write_word m p v) q = read_word m q"
  by (rule read_write_word_other)

lemma offsets_apart [simp]:
  fixes p :: WORD
  shows "apart 4 (p + i) (p + j) \<longleftrightarrow> apart 4 i j" "apart 4 p (p + j) \<longleftrightarrow> apart 4 0 j"
    "apart 4 (p + i) p \<longleftrightarrow> apart 4 i 0" "apart 4 (p - i) (p - j) \<longleftrightarrow> apart 4 j i"
    "apart 4 (p - i) p \<longleftrightarrow> apart 4 (- i) 0" "apart 4 p (p - j) \<longleftrightarrow> apart 4 0 (- j)"
    "apart 4 (p - i) (p + j) \<longleftrightarrow> apart 4 0 (j + i)" "apart 4 (p + i) (p - j) \<longleftrightarrow> apart 4 (i + j) 0"
  by (auto simp: apart_def algebra_simps)

section \<open>Cloning and releasing\<close>

lemma mt_clone_cb:
  assumes "read_mt_type s ptr = type" "type AND MT_SIMPLE \<noteq> 0" "MT_TYPE type = MT_CB"
  shows "mt_clone h e ptr ret s = Some (ECTX_CONTINUE, ptr, put_word (ptr - 8) (get_word s (ptr - 8) + 1) s)"
  using assms by (simp add: mt_clone_def mt_clone_with_def mt_clone_simple.simps Let_def del: and_one_eq)

lemma unat_add_one: "w \<noteq> - 1 \<Longrightarrow> unat (w + 1 :: WORD) = unat w + 1"
proof -
  assume "w \<noteq> - 1"
  moreover have "unat (- 1 :: WORD) = 4294967295" by (simp add: unsigned_minus_1_eq_mask mask_eq_exp_minus_1)
  ultimately have "unat w \<noteq> 4294967295" by (metis word_unat_eq_iff)
  then show ?thesis using unat_less32 [of w] by (simp add: unat_word_ariths)
qed

lemma word_add_one_cases:
  fixes w :: WORD
  assumes "w \<noteq> - 1"
  shows "\<not> w + 1 < w" "w \<noteq> 0 \<Longrightarrow> 1 < w + 1"
proof -
  show "\<not> w + 1 < w" using unat_add_one [OF assms] by (simp add: word_less_nat_alt)
  assume "w \<noteq> 0"
  then have "unat w \<noteq> 0" by (simp add: unat_eq_zero)
  then show "1 < w + 1" using unat_add_one [OF assms] by (simp add: word_less_nat_alt)
qed

lemma word_sub_one_cases:
  fixes w :: WORD
  assumes "1 < w"
  shows "1 \<le> w - 1" "\<not> w < 1" "\<not> w \<le> 1"
  using assms unat_sub [of 1 w] by (simp_all add: word_less_nat_alt word_le_nat_alt not_le)

lemma mt_release_cb:
  assumes "read_mt_type s ptr = type" "type AND MT_SIMPLE \<noteq> 0" "MT_TYPE type = MT_CB"
    and "1 < get_word s (ptr - 8)"
  shows "mt_release h e ptr s = Some (ECTX_CONTINUE, put_word (ptr - 8) (get_word s (ptr - 8) - 1) s)"
  using assms(1-3) word_sub_one_cases(3) [OF assms(4)]
  by (simp add: mt_release_def mt_release_with_def mt_release_simple.simps release_cb_def Let_def continue_def
      del: and_one_eq)

lemma mt_clone_barrier:
  assumes "read_mt_type s ptr = type" "type AND MT_SIMPLE \<noteq> 0" "MT_TYPE type = MT_BARRIER"
    and "MT_FLAGS type = MT_BARRIER_FULL" "get_word s ptr \<noteq> - 1"
  shows "mt_clone h e ptr ret s = Some (ECTX_CONTINUE, ret,
     put_word (ptr + 4) (get_word s (ptr + 4) + 1) (put_word ptr (get_word s ptr + 1)
       (put_word (ptr - 8) (get_word s (ptr - 8) + 1) s)))"
  using assms(1-4) word_add_one_cases(1) [OF assms(5)]
  by (simp add: mt_clone_def mt_clone_with_def mt_clone_simple.simps clone_barrier_def tvm_bar_enroll_def
      Let_def continue_def apart_def del: and_one_eq)

lemma mt_release_barrier:
  assumes "read_mt_type s ptr = type" "type AND MT_SIMPLE \<noteq> 0" "MT_TYPE type = MT_BARRIER"
    and "MT_FLAGS type = MT_BARRIER_FULL" "1 < get_word s (ptr - 8)" "1 < get_word s ptr" "1 < get_word s (ptr + 4)"
  shows "mt_release h e ptr s = Some (ECTX_CONTINUE,
     put_word (ptr + 4) (get_word s (ptr + 4) - 1) (put_word ptr (get_word s ptr - 1)
       (put_word (ptr - 8) (get_word s (ptr - 8) - 1) s)))"
  using assms(1-5) word_sub_one_cases [OF assms(6)] word_sub_one_cases [OF assms(7)]
  by (simp add: mt_release_def mt_release_with_def mt_release_simple.simps release_barrier_def tvm_bar_resign_def
      Let_def continue_def apart_def del: and_one_eq)

text \<open>C22: to clone a channel bundle or a full barrier with \<^verbatim>\<open>mt_clone\<close> adds one reference (and enrolls one process on the
  barrier), and to release one afterwards leaves the machine as it was, when no count wraps. For a bundle the instruction
  pushes the reference. For a full barrier it pushes the value of its uninitialised local variable, \<open>undef\<close>:
  \<^verbatim>\<open>mt_clone_simple\<close> does not store the reference there, and the reference that was counted is lost to the program unless it
  still has the original.\<close>

theorem clone_release_balanced:
  assumes "AREG e s = ptr" "read_mt_type s ptr = type" "type AND MT_SIMPLE \<noteq> 0"
    and "get_word s (ptr - 8) \<noteq> 0" "get_word s (ptr - 8) \<noteq> - 1"
    and "MT_TYPE type = MT_CB \<or> MT_TYPE type = MT_BARRIER \<and> MT_FLAGS type = MT_BARRIER_FULL \<and>
      get_word s ptr \<noteq> 0 \<and> get_word s ptr \<noteq> - 1 \<and> get_word s (ptr + 4) \<noteq> 0 \<and> get_word s (ptr + 4) \<noteq> - 1"
  shows "\<exists>s'. ins_mt_clone h undef e s = STACK1_RET e (if MT_TYPE type = MT_CB then ptr else undef) s' \<and>
    get_word s' (ptr - 8) = get_word s (ptr - 8) + 1 \<and>
    (MT_TYPE type = MT_BARRIER \<longrightarrow> get_word s' ptr = get_word s ptr + 1) \<and>
    mt_release h e ptr s' = Some (ECTX_CONTINUE, s)"
proof -
  let ?s = "put_word (ptr - 8) (get_word s (ptr - 8) + 1) s"
  show ?thesis
    using assms(6)
  proof (elim disjE conjE)
    assume cb: "MT_TYPE type = MT_CB"
    have "read_mt_type ?s ptr = type" using assms(2) by (simp add: read_mt_type_def apart_def)
    from mt_release_cb [OF this assms(3) cb, of h e]
    have "mt_release h e ptr ?s = Some (ECTX_CONTINUE, s)"
      using word_add_one_cases(2) [OF assms(5,4)] by (simp add: put_word_same)
    then show ?thesis using cb by (intro exI [of _ ?s]) (simp add: ins_mt_clone_def assms(1) mt_clone_cb [OF assms(2,3) cb])
  next
    assume b: "MT_TYPE type = MT_BARRIER" "MT_FLAGS type = MT_BARRIER_FULL"
      and c: "get_word s ptr \<noteq> 0" "get_word s ptr \<noteq> - 1" "get_word s (ptr + 4) \<noteq> 0" "get_word s (ptr + 4) \<noteq> - 1"
    let ?t = "put_word (ptr + 4) (get_word s (ptr + 4) + 1) (put_word ptr (get_word s ptr + 1) ?s)"
    have t: "read_mt_type ?t ptr = type" using assms(2) by (simp add: read_mt_type_def apart_def)
    have g: "get_word ?t (ptr - 8) = get_word s (ptr - 8) + 1" "get_word ?t ptr = get_word s ptr + 1"
      "get_word ?t (ptr + 4) = get_word s (ptr + 4) + 1"
      by (simp_all add: apart_def)
    have "mt_release h e ptr ?t = Some (ECTX_CONTINUE, put_word (ptr + 4) (get_word s (ptr + 4))
        (put_word ptr (get_word s ptr) (put_word (ptr - 8) (get_word s (ptr - 8)) ?t)))"
      using mt_release_barrier [OF t assms(3) b, of h e] unfolding g
      using word_add_one_cases(2) [OF assms(5,4)] word_add_one_cases(2) [OF c(2,1)]
        word_add_one_cases(2) [OF c(4,3)] by simp
    also have "\<dots> = Some (ECTX_CONTINUE, s)"
      by (simp add: put_word_commute [of "ptr - 8" "ptr + 4"] put_word_commute [of "ptr - 8" ptr]
          put_word_commute [of ptr "ptr + 4"] apart_def put_word_same)
    finally show ?thesis
      using b g by (intro exI [of _ ?t]) (simp add: ins_mt_clone_def assms(1) mt_clone_barrier [OF assms(2,3) b c(2)])
  qed
qed

section \<open>Copying data\<close>

lemma words_before_block:
  assumes "len \<le> - 8" "j < 8"
  shows "(x :: WORD) + j - (x + 8) \<ge> len"
proof -
  have "x + j - (x + 8) = j - 8" by simp
  moreover have "unat (j - 8) = 4294967296 - 8 + unat j"
    using assms(2) unat_sub_if' [of j 8] by (simp add: word_less_nat_alt)
  moreover have "unat len \<le> 4294967288"
    using assms(1) by (simp add: word_le_nat_alt)
  ultimately show ?thesis by (simp add: word_le_nat_alt)
qed

text \<open>To clone untyped data allocates a block of its size rounded up to words, and the clone
  has the size, the type and the bytes of the original. The allocator returns a block that does not
  overlap the original and leaves the bytes of the original alone.\<close>

lemma clone_data_copies:
  assumes "read_mt_type s ptr = type" "type AND MT_SIMPLE \<noteq> 0" "MT_TYPE type = MT_DATA"
    and "get_word s (ptr - 8) = len" "len \<le> - 8"
    and "heap_malloc h e (((len + 3) AND NOT 3) + 8) s = (p, s1)"
    and "\<forall>i < len. mem s1 (ptr + i) = mem s (ptr + i)"
    and "disjoint_blocks p 8 ptr len" "apart len (p + 8) ptr"
  shows "\<exists>s'. mt_clone h e ptr ret s = Some (ECTX_CONTINUE, p + 8, s') \<and>
    get_word s' p = len \<and> read_mt_type s' (p + 8) = type \<and> ectxs s' = ectxs s1 \<and>
    (\<forall>i < len. mem s' (p + 8 + i) = mem s (ptr + i)) \<and>
    (\<forall>x. 8 \<le> x - p \<and> len \<le> x - (p + 8) \<longrightarrow> mem s' x = mem s1 x)"
proof -
  let ?s2 = "put_word (p + 4) type (put_word p len s1)"
  let ?s3 = "?s2\<lparr>mem := snd (tvm_memcpy native_ops (p + 8) ptr len (mem ?s2))\<rparr>"
  have clone: "mt_clone h e ptr ret s = Some (ECTX_CONTINUE, p + 8, ?s3)"
    using assms(1-4,6)
    by (simp add: mt_clone_def mt_clone_with_def mt_clone_simple.simps clone_data_def mt_alloc_data_def Let_def
        del: and_one_eq)
  note copy = memcpy_native [OF assms(9), where m = "mem ?s2"]
  have header: "mem ?s3 (p + j) = mem ?s2 (p + j)" if "j < 8" for j
    using copy(2) [OF words_before_block [OF assms(5) that]] by simp
  have "mem ?s2 x = mem s1 x" if "8 \<le> x - p" for x
  proof -
    have "4 \<le> x - p" "4 \<le> x - (p + 4)"
      using that unat_sub [of 4 "x - p"]
      by (simp_all add: word_le_nat_alt diff_diff_eq [symmetric] del: diff_diff_eq)
    then show ?thesis by (simp add: write_word_outside)
  qed
  note before = this
  have "get_word ?s3 p = get_word ?s2 p" "get_word ?s3 (p + 4) = get_word ?s2 (p + 4)"
  proof -
    show "get_word ?s3 p = get_word ?s2 p"
      by (rule get_word_cong, rule header) (erule order.strict_trans, simp)
    show "get_word ?s3 (p + 4) = get_word ?s2 (p + 4)"
    proof (rule get_word_cong)
      fix i :: WORD assume "i < 4"
      then have "4 + i < 8" using word_offset_cases [of i] by auto
      from header [OF this] show "mem ?s3 (p + 4 + i) = mem ?s2 (p + 4 + i)"
        by (simp only: add.assoc)
    qed
  qed
  then have words: "get_word ?s3 p = len" "get_word ?s3 (p + 4) = type" by (simp_all add: apart_def)
  have bytes: "mem ?s3 (p + 8 + i) = mem s (ptr + i)" if "i < len" for i
  proof -
    have "8 \<le> ptr + i - p" using assms(8) that by (rule disjoint_blocks_outside)
    with that show ?thesis using copy(1) [OF that] before assms(7) by simp
  qed
  have rest: "mem ?s3 x = mem s1 x" if "8 \<le> x - p" "len \<le> x - (p + 8)" for x
    using copy(2) [OF that(2)] before [OF that(1)] by simp
  show ?thesis
    by (rule exI [of _ ?s3], intro conjI clone)
      (use words bytes rest in \<open>auto simp: read_mt_type_def add.commute [of 4 p]\<close>)
qed

section \<open>Communication\<close>

text \<open>C23: communicating a mobile. Data, arrays of numbers and unshared channel bundles move: the
  destination refers to them and the source to nothing. A shared channel bundle keeps both
  references and counts one more.\<close>

theorem mobile_moves_or_is_shared:
  assumes "get_word s src = p" "p \<noteq> NULL_P" "read_mt_type s p = type" "type AND MT_SIMPLE \<noteq> 0"
    and "MT_TYPE type = MT_DATA \<or> MT_TYPE type = MT_CB \<or> MT_TYPE type = MT_ARRAY \<and> only_numbers type"
    and "apart 4 frame src" "apart 4 frame dst" "apart 4 frame (p - 4)" "apart 4 frame (p - 8)"
    and "apart 4 src dst" "apart 4 src (p - 8)" "apart 4 dst (p - 8)"
  shows "\<exists>s'. mt_chan_io frame e dst src s = Some (ECTX_CONTINUE, s') \<and> get_word s' dst = p \<and> ectxs s' = ectxs s \<and>
    (if MT_TYPE type = MT_CB \<and> type AND MT_CB_SHARED \<noteq> 0
     then get_word s' src = p \<and> get_word s' (p - 8) = get_word s (p - 8) + 1
     else get_word s' src = NULL_P \<and> get_word s' (p - 8) = get_word s (p - 8))"
proof -
  let ?s = "put_word frame p s"
  have type: "read_mt_type ?s p = type" using assms(3,8) by (simp add: read_mt_type_def)
  have comm: "apart 4 src frame" "apart 4 dst frame" "apart 4 (p - 8) frame" "apart 4 dst src"
    "apart 4 (p - 8) src" "apart 4 (p - 8) dst"
    using assms(6-12) by (simp_all only: apart_commute)
  note words = assms(1,2,6-12) comm type
  show ?thesis
  proof (cases "MT_TYPE type = MT_CB \<and> type AND MT_CB_SHARED \<noteq> 0")
    case True
    then have "mt_io_update e frame ?s = Some (ECTX_CONTINUE, MT_FALSE, put_word (p - 8) (get_word s (p - 8) + 1) ?s)"
      using assms(4) words
      by (simp add: mt_io_update_def mt_io_update_with_def mt_io_update_shared_cb_def Let_def del: and_one_eq)
    then show ?thesis
      using True words by (simp add: mt_chan_io_def Let_def continue_def)
  next
    case False
    then have "mt_io_update e frame ?s = Some (ECTX_CONTINUE, MT_TRUE, ?s)"
      using assms(4,5) words
      by (auto simp: mt_io_update_def mt_io_update_with_def Let_def simp del: and_one_eq)
    then show ?thesis
      using False words by (simp add: mt_chan_io_def Let_def continue_def)
  qed
qed

section \<open>Forking barriers\<close>

text \<open>\<open>n\<close> releases of the same mobile.\<close>

fun releases :: "nat \<Rightarrow> heap \<Rightarrow> WORD \<Rightarrow> WORD \<Rightarrow> tvm \<Rightarrow> result" where
  "releases 0 h e ptr s = continue s"
| "releases (Suc n) h e ptr s =
     do { (ret, s) \<leftarrow> mt_release h e ptr s;
          (if ret \<noteq> 0 then Some (ret, s) else releases n h e ptr s) }"

lemma mt_release_forking:
  assumes "read_mt_type s ptr = type" "type AND MT_SIMPLE \<noteq> 0" "MT_TYPE type = MT_BARRIER"
    and "MT_FLAGS type = MT_BARRIER_FORKING"
  shows "1 < get_word s (ptr - 8) \<Longrightarrow>
      mt_release h e ptr s = Some (ECTX_CONTINUE, put_word (ptr - 8) (get_word s (ptr - 8) - 1) s)"
    and "get_word s (ptr - 8) \<le> 1 \<Longrightarrow> get_word s ptr = w \<Longrightarrow> w \<noteq> 0 \<Longrightarrow> WORKSPACE_GET s w WS_ECTX = e \<Longrightarrow>
      mt_release h e ptr s = Some (ECTX_CONTINUE, heap_free h e (ptr - 8) (add_to_queue e w s))"
  using assms
  by (simp_all add: mt_release_def mt_release_with_def mt_release_simple.simps release_barrier_def
      ADD_TO_QUEUE_ECTX_def Let_def continue_def not_less del: and_one_eq)

lemma releases_count:
  assumes "MT_TYPE type = MT_BARRIER" "MT_FLAGS type = MT_BARRIER_FORKING" "type AND MT_SIMPLE \<noteq> 0"
  shows "read_mt_type s ptr = type \<Longrightarrow> unat (get_word s (ptr - 8)) = Suc n \<Longrightarrow>
    releases n h e ptr s = Some (ECTX_CONTINUE, put_word (ptr - 8) 1 s)"
proof (induction n arbitrary: s)
  case 0
  then have "get_word s (ptr - 8) = 1" by (simp add: word_unat_eq_iff)
  then show ?case by (simp add: continue_def put_word_same)
next
  case (Suc n)
  have many: "1 < get_word s (ptr - 8)" using Suc.prems(2) by (simp add: word_less_nat_alt)
  let ?s = "put_word (ptr - 8) (get_word s (ptr - 8) - 1) s"
  have "unat (get_word ?s (ptr - 8)) = Suc n"
    using Suc.prems(2) many by (simp add: unat_sub word_le_nat_alt)
  moreover have "read_mt_type ?s ptr = type"
    using Suc.prems(1) by (simp add: read_mt_type_def apart_def)
  ultimately have "releases n h e ptr ?s = Some (ECTX_CONTINUE, put_word (ptr - 8) 1 ?s)"
    by (intro Suc.IH)
  then show ?case
    using mt_release_forking(1) [OF Suc.prems(1) assms(3,1,2) many] by simp
qed

lemma clear_of_part:
  assumes "clear_of A p m" "i < m" "k \<le> m - i"
  shows "clear_of A (p + i) k"
  unfolding clear_of_def
proof
  fix q assume "q \<in> A"
  then have d: "disjoint_blocks (q - 24) 28 p m" using assms(1) by (simp add: clear_of_def)
  let ?x = "q - 24 - p"
  have "m \<le> ?x" using d by (simp add: disjoint_blocks_def)
  moreover have "unat (?x - i) = unat ?x - unat i" "unat (m - i) = unat m - unat i"
    using assms(2) \<open>m \<le> ?x\<close> by (auto intro!: unat_sub)
  ultimately have "k \<le> ?x - i"
    using assms(3) by (simp add: word_le_nat_alt)
  then show "disjoint_blocks (q - 24) 28 (p + i) k"
    using disjoint_blocks_outside [OF d assms(2)] by (simp add: disjoint_blocks_def algebra_simps)
qed

text \<open>A process \<open>w\<close> of context \<open>e\<close> waits in the forking barrier \<open>ptr\<close> for \<open>n\<close> clones.\<close>

definition waits_for_forks :: "WORD \<Rightarrow> tvm \<Rightarrow> WORD \<Rightarrow> WORD \<Rightarrow> nat \<Rightarrow> bool" where
  "waits_for_forks e s ptr w n \<longleftrightarrow>
     read_mt_type s ptr = MT_MAKE_BARRIER MT_BARRIER_FORKING \<and>
     unat (get_word s (ptr - 8)) = n \<and> get_word s ptr = w \<and> WORKSPACE_GET s w WS_ECTX = e"

lemma forking_type:
  "MT_MAKE_BARRIER MT_BARRIER_FORKING = 0x27"
  "0x27 AND MT_SIMPLE \<noteq> 0" "MT_TYPE 0x27 = MT_BARRIER" "MT_FLAGS 0x27 = MT_BARRIER_FORKING"
  by (simp_all add: MT_MAKE_BARRIER_def MT_MAKE_TYPE_def MT_TYPE_def MT_FLAGS_def)

text \<open>A process that synchronises on a forking barrier while clones of it are out gives up its
  own clone, leaves its workspace in the barrier and stops running; nothing is put on the run queue.\<close>

lemma forking_barrier_waits:
  assumes "AREG e s = ptr" "clear_of {WPTR e s} (ptr - 8) 12"
    and "read_mt_type s ptr = MT_MAKE_BARRIER MT_BARRIER_FORKING"
    and "unat (get_word s (ptr - 8)) = Suc (Suc n)"
  shows "\<exists>s1. ins_mt_sync h e s = run_next_on_queue e s1 \<and> ectxs s1 = ectxs s \<and>
    WORKSPACE_GET s1 (WPTR e s) WS_IPTR = IPTR e s \<and> waits_for_forks e s1 ptr (WPTR e s) (Suc n)"
proof -
  have clear: "clear_of {WPTR e s} (ptr - 8) 4" "clear_of {WPTR e s} (ptr - 4) 4" "clear_of {WPTR e s} ptr 4"
    using clear_of_part [OF assms(2), of 0 4] clear_of_part [OF assms(2), of 4 4]
      clear_of_part [OF assms(2), of 8 4] by simp_all
  have many: "1 < get_word s (ptr - 8)" using assms(4) by (simp add: word_less_nat_alt)
  define s0 where "s0 = WORKSPACE_SET (WPTR e s) WS_IPTR (IPTR e s) (WORKSPACE_SET (WPTR e s) WS_ECTX e s)"
  define s1 where "s1 = put_word ptr (WPTR e s) (put_word (ptr - 8) (get_word s (ptr - 8) - 1) s0)"
  have "ins_mt_sync h e s = run_next_on_queue e s1"
    using assms(1,3) word_sub_one_cases(3) [OF many]
    by (simp add: ins_mt_sync_def Let_def forking_type s1_def s0_def)
  moreover have regs: "ectxs s1 = ectxs s" by (simp add: s1_def s0_def WORKSPACE_SET_def)
  moreover have slots: "WORKSPACE_GET s1 (WPTR e s) k = WORKSPACE_GET s0 (WPTR e s) k" if "k \<le> 6" for k
    using that by (simp add: s1_def put_word_clear_GET [OF clear(1)] put_word_clear_GET [OF clear(3)] del: mobile_words)
  have "WORKSPACE_GET s1 (WPTR e s) WS_IPTR = IPTR e s" "WORKSPACE_GET s1 (WPTR e s) WS_ECTX = e"
    by (simp_all add: slots) (simp_all add: s0_def WORKSPACE_GET_def WORKSPACE_SET_def apart_def)
  moreover have "get_word s0 (ptr - 4) = get_word s (ptr - 4)"
    unfolding s0_def
    by (simp add: WORKSPACE_SET_clear_word [OF clear(2)])
  then have "read_mt_type s1 ptr = read_mt_type s ptr" "get_word s1 ptr = WPTR e s"
    "get_word s1 (ptr - 8) = get_word s (ptr - 8) - 1"
    by (simp_all add: s1_def read_mt_type_def apart_def)
  moreover have "unat (get_word s (ptr - 8) - 1) = Suc n"
    using assms(4) many by (simp add: unat_sub word_le_nat_alt)
  ultimately show ?thesis
    using assms(3) by (auto simp: waits_for_forks_def)
qed

lemma releases_snoc:
  "releases n h e ptr s = Some (ECTX_CONTINUE, s') \<Longrightarrow> releases (Suc n) h e ptr s = mt_release h e ptr s'"
proof (induction n arbitrary: s)
  case 0
  then show ?case by (cases "mt_release h e ptr s'") (auto simp: continue_def)
next
  case (Suc n)
  then obtain s1 where "mt_release h e ptr s = Some (0, s1)" "releases n h e ptr s1 = Some (0, s')"
    by (auto simp: bind_eq_Some_conv split: if_splits)
  then show ?case using Suc.IH [of s1] by simp
qed

text \<open>C24: the releases of all clones of a forking barrier but the last count down and leave the
  process waiting; the release of the last puts it at the back of the run queue and frees the
  barrier.\<close>

theorem forking_barrier_joins:
  assumes "waits_for_forks e s ptr w (Suc n)"
    and "run_queue e s rq" "ws_list (rq @ [w])" "clear_of (set (rq @ [w])) (ptr - 8) 12"
  shows "\<exists>s1 s2. releases n h e ptr s = Some (ECTX_CONTINUE, s1) \<and> run_queue e s1 rq \<and>
    waits_for_forks e s1 ptr w 1 \<and>
    releases (Suc n) h e ptr s = Some (ECTX_CONTINUE, heap_free h e (ptr - 8) s2) \<and> run_queue e s2 (rq @ [w])"
proof -
  have w: "read_mt_type s ptr = 0x27" "unat (get_word s (ptr - 8)) = Suc n" "get_word s ptr = w"
    "WORKSPACE_GET s w WS_ECTX = e" "w \<noteq> 0"
    using assms(1,3) by (simp_all add: waits_for_forks_def forking_type ws_list_append1)
  have clear: "clear_of (set (rq @ [w])) (ptr - 8) 4"
    using clear_of_part [OF assms(4), of 0 4] by simp
  let ?s = "put_word (ptr - 8) 1 s"
  have n: "releases n h e ptr s = Some (ECTX_CONTINUE, ?s)"
    by (rule releases_count [OF forking_type(3,4,2) w(1,2)])
  have type: "read_mt_type ?s ptr = 0x27" and same: "get_word ?s ptr = w"
    using w by (simp_all add: read_mt_type_def apart_def)
  have slots: "WORKSPACE_GET ?s q k = WORKSPACE_GET s q k" if "q \<in> set (rq @ [w])" "k \<le> 6" for q k
    by (rule put_word_clear_GET [OF clear that])
  have rq: "run_queue e ?s rq"
    by (rule run_queue_cong [OF assms(2)]) (auto simp: slots)
  have "mt_release h e ptr ?s = Some (ECTX_CONTINUE, heap_free h e (ptr - 8) (add_to_queue e w ?s))"
    using w slots [of w WS_ECTX] same
    by (intro mt_release_forking(2) [OF type forking_type(2,3,4)]) simp_all
  with releases_snoc [OF n] have "releases (Suc n) h e ptr s =
      Some (ECTX_CONTINUE, heap_free h e (ptr - 8) (add_to_queue e w ?s))" by simp
  moreover have "waits_for_forks e ?s ptr w 1"
    using w type same slots [of w WS_ECTX] by (simp add: waits_for_forks_def forking_type)
  ultimately show ?thesis
    using n rq add_to_queue_run_queue [OF rq assms(3)] by blast
qed

section \<open>Arrays\<close>

lemma exp_minus_one_mask: "push_bit n 1 - 1 = (mask n :: WORD)"
  by (simp add: mask_eq_exp_minus_1 push_bit_eq_mult)

lemma array_layout_facts:
  assumes "array_layout type = (dma, meta, align, inner, shift)"
  shows "\<exists>k. align = mask k" "dma \<noteq> 0 \<Longrightarrow> dma = MT_ARRAY_DIM type"
proof -
  have "(0 :: WORD) = mask 0" by simp
  then show "\<exists>k. align = mask k" "dma \<noteq> 0 \<Longrightarrow> dma = MT_ARRAY_DIM type"
    using assms unfolding array_layout_def Let_def exp_minus_one_mask
    by (auto split: if_splits)
qed

lemma round_up:
  fixes x :: WORD
  assumes "unat x + unat (mask k :: WORD) < 4294967296"
  defines "d \<equiv> (x + mask k) AND NOT (mask k)"
  shows "d AND mask k = 0" "unat x \<le> unat d" "unat d \<le> unat x + unat (mask k :: WORD)"
proof -
  let ?y = "x + mask k"
  have y: "unat ?y = unat x + unat (mask k :: WORD)"
    using assms(1) by (simp add: unat_word_ariths)
  show "d AND mask k = 0" by (simp add: d_def and.assoc)
  have split: "?y = (?y AND mask k) + d"
  proof -
    have "?y = (?y AND mask k) OR d" unfolding d_def by (rule bit_word_eqI) (auto simp: bit_simps)
    also have "\<dots> = (?y AND mask k) + d"
      by (rule disjunctive_add [symmetric]) (auto simp: d_def bit_simps)
    finally show ?thesis .
  qed
  have le: "d \<le> ?y" by (simp add: d_def word_and_le2)
  then show "unat d \<le> unat x + unat (mask k :: WORD)" using y by (simp add: word_le_nat_alt)
  have "unat (?y - d) = unat ?y - unat d" using le by (rule unat_sub)
  moreover have "?y - d = ?y AND mask k" using split by (metis add_diff_cancel_right')
  moreover have "unat (?y AND mask k) \<le> unat (mask k :: WORD)"
    using word_and_le1 [of ?y "mask k"] by (simp add: word_le_nat_alt)
  ultimately show "unat x \<le> unat d" using y by simp
qed

lemma unat_push_bit_less:
  fixes w :: WORD
  assumes "unat w * 2 ^ n < 4294967296"
  shows "unat (push_bit n w) = unat w * 2 ^ n"
proof -
  have "int (unat (push_bit n w)) = int (unat w * 2 ^ n)"
    using assms uint_push_bit [of n w] by (simp flip: of_nat_less_iff [where 'a = int])
  then show ?thesis by (rule of_nat_eq_iff [THEN iffD1])
qed

lemma word_below_8: "(i :: WORD) < 8 \<Longrightarrow> i \<in> {0, 1, 2, 3, 4, 5, 6, 7}"
  by simp unat_arith

lemma array_dim_apart: "i \<in> {0, 4, 8} \<Longrightarrow> apart 4 (4 * (3 + MT_ARRAY_DIM type)) i"
proof -
  let ?y = "MT_FLAGS type AND 7"
  have "?y \<le> 7" by (rule word_and_le1)
  then have "?y < 8" by (rule order.strict_trans1) simp
  moreover assume "i \<in> {0, 4, 8}"
  ultimately show ?thesis
    using word_below_8 [of ?y] by (auto simp: MT_ARRAY_DIM_def apart_def)
qed

text \<open>The memory of a mobile array that is not empty. The block has room for its header and its
  elements; the word for the data refers to an address aligned as the type of the array asks for,
  after the header, from which on all elements fit in the block.\<close>

lemma array_data_in_block:
  assumes "array_layout type = (dma, meta, align, inner, shift)" "sz \<noteq> 0"
    and "bytes = push_bit (unat shift) sz + align + push_bit WSH meta"
    and "heap_malloc h e bytes s = (ma, s1)"
    and "unat ma + unat sz * 2 ^ unat shift + unat align + 4 * unat meta < 4294967296"
  shows "\<exists>s' data. mt_alloc_array_int h e type sz False s = (ma, shift, s') \<and>
    get_word s' ma = sz \<and> get_word s' (ma + 4) = type \<and> get_word s' (ma + 8) = data \<and>
    data AND align = 0 \<and> unat ma + 4 * unat meta \<le> unat data \<and>
    unat data + unat sz * 2 ^ unat shift \<le> unat ma + unat bytes"
proof -
  obtain k where k: "align = mask k" using array_layout_facts(1) [OF assms(1)] by blast
  let ?x = "wordptr_plus ma meta"
  define data where "data = (?x + align) AND NOT align"
  define s2 where "s2 = put_word (ma + 8) data (put_word (ma + 4) type (put_word ma sz s1))"
  define s3 where "s3 = (if dma \<noteq> 0 then put_word (ma + 4 * (3 + dma)) data s2 else s2)"
  have alloc: "mt_alloc_array_int h e type sz False s = (ma, shift, s3)"
    using assms(1,2,4) unfolding assms(3)
    by (simp add: mt_alloc_array_int_def s3_def s2_def data_def byteptr_plus_def Let_def)
  have dma: "apart 4 (4 * (3 + dma)) i" if "dma \<noteq> 0" "i \<in> {0, 4, 8}" for i
    using array_layout_facts(2) [OF assms(1) that(1)] array_dim_apart that(2) by simp
  have words: "get_word s3 (ma + i) = get_word s2 (ma + i)" if "i \<in> {0, 4, 8}" for i
    using dma [of i] that by (simp add: s3_def)
  have header: "get_word s3 ma = sz" "get_word s3 (ma + 4) = type" "get_word s3 (ma + 8) = data"
    using words [of 0] words [of 4] words [of 8] by (simp_all add: s2_def apart_def)
  have x: "unat ?x = unat ma + 4 * unat meta"
    using assms(5) by (simp add: unat_word_ariths)
  have room: "unat bytes = unat sz * 2 ^ unat shift + unat align + 4 * unat meta"
    using assms(5) unat_push_bit_less [of sz "unat shift"] unat_push_bit_less [of meta 2] unfolding assms(3)
    by (simp add: unat_word_ariths)
  have "unat ?x + unat (mask k :: WORD) < 4294967296" using assms(5) x k by simp
  from round_up [OF this] show ?thesis
    using alloc header x room unfolding data_def k
    by (intro exI [of _ s3] exI [of _ data] conjI) (simp_all add: data_def k)
qed

section \<open>Resizing\<close>

text \<open>To make an array of numbers smaller, but not to less than half, changes nothing but the
  stack: the word for the size of the array keeps the old size.\<close>

lemma resize_shrink_keeps_size:
  assumes "AREG e s = MT_RESIZE_DATA" "BREG e s = ptr" "ptr \<noteq> NULL_P"
    and "read_mt_type s ptr = type" "type AND MT_SIMPLE \<noteq> 0" "MT_TYPE type = MT_ARRAY"
    and "MT_TYPE (element_type (MT_ARRAY_INNER_TYPE type)) = MT_NUM"
    and "CREG e s < get_word s (ptr - 8)" "drop_bit 1 (get_word s (ptr - 8)) \<le> CREG e s"
  shows "ins_mt_resize h e s = STACK1_RET e ptr s"
proof -
  have "\<not> get_word s (ptr - 8) < CREG e s" "\<not> CREG e s < drop_bit 1 (get_word s (ptr - 8))"
    using assms(8,9) by simp_all
  with assms(1-7) show ?thesis
    by (simp add: ins_mt_resize_def resize_in_place_def Let_def del: and_one_eq)
qed

section \<open>Examples\<close>

text \<open>A channel bundle, data of three bytes and a forking barrier at 4096, and an allocator that
  has a block at 8192.\<close>

definition mobile_example :: "WORD \<Rightarrow> WORD \<Rightarrow> WORD \<Rightarrow> tvm" where
  "mobile_example type refs content = put_word 4096 content (put_word 4092 type (put_word 4088 refs blank))"

definition block_example :: heap where
  "block_example = \<lparr>heap_malloc = \<lambda>e n s. (8192, s), heap_free = \<lambda>e p s. s, ext_cb_free = \<lambda>_. None\<rparr>"

lemma mobile_example_words [simp]:
  "get_word (mobile_example type refs content) 4088 = refs"
  "get_word (mobile_example type refs content) 4096 = content"
  "read_mt_type (mobile_example type refs content) 4096 = type"
  "ectxs (mobile_example type refs content) = ectxs blank"
  by (simp_all add: mobile_example_def read_mt_type_def apart_def)

theorem clone_release_balanced_witness:
  "\<exists>s'. ins_mt_clone block_example 5 1 (set_AREG 1 4096 (put_word 4100 1 (mobile_example 7 1 2))) = STACK1_RET 1 5 s' \<and>
     get_word s' 4088 = 2 \<and> get_word s' 4096 = 3 \<and>
     mt_release block_example 1 4096 s' = Some (ECTX_CONTINUE, set_AREG 1 4096 (put_word 4100 1 (mobile_example 7 1 2)))"
  using clone_release_balanced [where e = 1 and s = "set_AREG 1 4096 (put_word 4100 1 (mobile_example 7 1 2))" and ptr = 4096 and
    type = 7 and h = block_example and undef = 5]
  by (simp add: MT_TYPE_def MT_FLAGS_def read_mt_type_def mobile_example_def apart_def)

lemma clone_data_copies_witness:
  "\<exists>s'. mt_clone block_example 1 4096 0 (mobile_example 15 3 0x030201) = Some (ECTX_CONTINUE, 8200, s') \<and>
     get_word s' 8192 = 3 \<and> mem s' 8201 = mem (mobile_example 15 3 0x030201) 4097"
proof -
  let ?s = "mobile_example 15 3 0x030201"
  have "heap_malloc block_example 1 (((3 + 3) AND NOT 3) + 8) ?s = (8192, ?s)"
    by (simp add: block_example_def)
  note clone_data_copies [where ptr = 4096 and type = 15 and len = 3 and ret = 0, OF _ _ _ _ _ this]
  then
  obtain s' where s': "mt_clone block_example 1 4096 0 ?s = Some (ECTX_CONTINUE, 8200, s')" "get_word s' 8192 = 3"
    "\<forall>i < 3. mem s' (8200 + i) = mem ?s (4096 + i)"
    by (auto simp: MT_TYPE_def disjoint_blocks_def apart_def)
  from s'(3) [rule_format, of 1] have "mem s' 8201 = mem ?s 4097" by simp
  with s' show ?thesis by blast
qed

theorem mobile_moves_or_is_shared_witness:
  "\<exists>s'. mt_chan_io 64 1 512 256 (put_word 256 4096 (mobile_example 37 1 0)) = Some (ECTX_CONTINUE, s') \<and>
     get_word s' 512 = 4096 \<and> get_word s' 256 = 4096 \<and> get_word s' 4088 = 2"
  using mobile_moves_or_is_shared [of "put_word 256 4096 (mobile_example 37 1 0)" 256 4096 37 64 512 1]
  by (auto simp: MT_TYPE_def apart_def read_mt_type_def mobile_example_def)

lemma forking_barrier_waits_witness:
  "\<exists>s1. ins_mt_sync block_example 1 (set_AREG 1 4096 (set_WPTR 1 8192 (mobile_example 0x27 2 0))) = run_next_on_queue 1 s1 \<and>
     waits_for_forks 1 s1 4096 8192 1"
  using forking_barrier_waits [where e = 1 and s = "set_AREG 1 4096 (set_WPTR 1 8192 (mobile_example 0x27 2 0))"
    and ptr = 4096 and n = 0 and h = block_example]
  by (auto simp: clear_of_def disjoint_blocks_def forking_type read_mt_type_def mobile_example_def apart_def)

theorem forking_barrier_joins_witness:
  "\<exists>s2. releases (Suc (Suc 0)) block_example 1 4096 (WORKSPACE_SET 8192 WS_ECTX 1 (mobile_example 0x27 2 8192)) =
     Some (ECTX_CONTINUE, s2) \<and> run_queue 1 s2 [8192]"
proof -
  let ?s = "WORKSPACE_SET 8192 WS_ECTX 1 (mobile_example 0x27 2 8192)"
  have "waits_for_forks 1 ?s 4096 8192 (Suc (Suc 0))"
    by (simp add: waits_for_forks_def forking_type read_mt_type_def mobile_example_def WORKSPACE_SET_def
        WORKSPACE_GET_def apart_def)
  moreover have "run_queue 1 ?s []" by (simp add: run_queue_def WORKSPACE_SET_def)
  moreover have "ws_list ([] @ [8192])" "clear_of (set ([] @ [8192])) (4096 - 8) 12"
    by (simp_all add: ws_list_def clear_of_def disjoint_blocks_def)
  ultimately show ?thesis
    using forking_barrier_joins [of 1 ?s 4096 8192 "Suc 0" "[]" block_example]
    by (auto simp: block_example_def simp del: releases.simps)
qed

lemma array_data_in_block_witness:
  "\<exists>s' data. mt_alloc_array_int block_example 1 (MT_MAKE_ARRAY_TYPE 1 (MT_MAKE_ARRAY_OPTS 0 4 0x41)) 5 False blank =
     (8192, 2, s') \<and> get_word s' 8200 = data \<and> data AND 15 = 0"
  using array_data_in_block [where type = "MT_MAKE_ARRAY_TYPE 1 (MT_MAKE_ARRAY_OPTS 0 4 0x41)" and dma = 0 and meta = 4 and
    align = 15 and inner = "0x41" and shift = 2 and sz = 5 and bytes = 51 and h = block_example and e = 1 and s = blank and
    ma = 8192 and ?s1.0 = blank]
  by (auto simp: array_layout_def MT_MAKE_ARRAY_TYPE_def MT_MAKE_ARRAY_OPTS_def MT_MAKE_TYPE_def MT_TYPE_def MT_FLAGS_def
      MT_ARRAY_DIM_def MT_ARRAY_INNER_TYPE_def MT_ARRAY_OPTS_ALIGN_def MT_ARRAY_OPTS_INNER_def mt_num_type_def
      mt_num_size_shift_def block_example_def)

end
