(* ===== verification/Tvm_Proc.thy ===== *)
theory Tvm_Proc
  imports Tvm_Mobile Tvm_Interp
begin

text \<open>
  Processes made at run time (\<^verbatim>\<open>ins_proc.c\<close>), and the top-level process of a context
  (\<^verbatim>\<open>interpreter.c\<close>): its first stack frame, and the channels it shares with the host.
\<close>

section \<open>Instructions\<close>

definition ins_proc_alloc :: "heap \<Rightarrow> WORD \<Rightarrow> tvm \<Rightarrow> result" where
  "ins_proc_alloc h e s =
     (let flags = AREG e s; words = BREG e s
      in error_if (flags \<noteq> 0) e EFLAG_PROC s (\<lambda>s.
           let (ws, s) = mt_alloc_data h e (MT_SIMPLE OR MT_MAKE_TYPE MT_DATA) (push_bit WSH words) s
           in STACK1_RET e ws s))"

definition ins_proc_param :: "WORD \<Rightarrow> tvm \<Rightarrow> result" where
  "ins_proc_param e s =
     (let ws = BREG e s; offset = AREG e s; param = CREG e s
      in UNDEFINE_STACK_RET e (put_word (wordptr_plus ws offset) param s))"

definition ins_proc_mt_copy :: "heap \<Rightarrow> WORD \<Rightarrow> tvm \<Rightarrow> result" where
  "ins_proc_mt_copy h e s =
     (let ptr = CREG e s; ws = BREG e s; offset = AREG e s
      in do {
        (ret, ptr, s) \<leftarrow> (if ptr \<noteq> NULL_P then mt_clone h e ptr ptr s else Some (ECTX_CONTINUE, ptr, s));
        (if ret \<noteq> 0 then Some (ret, s)
         else UNDEFINE_STACK_RET e (put_word (wordptr_plus ws offset) ptr s))
      })"

text \<open>The local variable \<^verbatim>\<open>ptr\<close> lives at \<open>frame\<close>, on the stack of the host.\<close>

definition ins_proc_mt_move :: "WORD \<Rightarrow> WORD \<Rightarrow> tvm \<Rightarrow> result" where
  "ins_proc_mt_move frame e s =
     (let pptr = CREG e s; ws = BREG e s; offset = AREG e s
      in error_if (pptr = NULL_P) e EFLAG_PROC s (\<lambda>s.
           let s = put_word frame (get_word s pptr) s in do {
             (ret, s) \<leftarrow>
               (if get_word s frame \<noteq> NULL_P then do {
                  (ret, move, s) \<leftarrow> mt_io_update e frame s;
                  Some (ret, if ret = 0 \<and> move = MT_TRUE then put_word pptr NULL_P s else s)
                } else continue s);
             (if ret \<noteq> 0 then Some (ret, s)
              else UNDEFINE_STACK_RET e (put_word (wordptr_plus ws offset) (get_word s frame) s))
           }))"

definition ins_proc_start :: "WORD \<Rightarrow> tvm \<Rightarrow> result" where
  "ins_proc_start e s =
     (let code = CREG e s; ws = BREG e s; offset = AREG e s;
          ws = wordptr_plus ws offset
      in UNDEFINE_STACK_RET e (ADD_TO_QUEUE_IPTR e ws code s))"

definition ins_proc_end :: "heap \<Rightarrow> WORD \<Rightarrow> tvm \<Rightarrow> result" where
  "ins_proc_end h e s =
     (let ws = AREG e s
      in do {
        (ret, s) \<leftarrow> mt_release_simple h e ws (MT_MAKE_TYPE MT_DATA) s;
        run_next_on_queue e s
      })"

definition ins_getaff :: "WORD \<Rightarrow> tvm \<Rightarrow> result" where
  "ins_getaff e s = STACK_RET e 0 (AREG e s) (BREG e s) s"

definition ins_setaff :: "WORD \<Rightarrow> tvm \<Rightarrow> result" where
  "ins_setaff e s = STACK2_RET e (BREG e s) (CREG e s) s"

definition ins_getpas :: "WORD \<Rightarrow> tvm \<Rightarrow> result" where
  "ins_getpas e s = STACK_RET e 0 (AREG e s) (BREG e s) s"

section \<open>The first stack frame\<close>

text \<open>
  The arrays \<^verbatim>\<open>tlp_fmt\<close> and \<^verbatim>\<open>tlp_argv\<close> of a context have eight elements; the
  lists of the model hold those assigned so far.
\<close>

abbreviation (input) TVM_ECTX_TLP_ARGS :: int where "TVM_ECTX_TLP_ARGS \<equiv> 8"

definition set_tlp_fmt :: "WORD \<Rightarrow> nat \<Rightarrow> char \<Rightarrow> tvm \<Rightarrow> tvm" where
  "set_tlp_fmt e i arg =
     upd_ectx e (\<lambda>c. c\<lparr>tlp_fmt := take i (tlp_fmt c) @ [arg] @ drop (Suc i) (tlp_fmt c)\<rparr>)"

definition set_tlp_argv :: "WORD \<Rightarrow> nat \<Rightarrow> WORD \<Rightarrow> tvm \<Rightarrow> tvm" where
  "set_tlp_argv e i v =
     upd_ectx e (\<lambda>c. c\<lparr>tlp_argv := take i (tlp_argv c) @ [v] @ drop (Suc i) (tlp_argv c)\<rparr>)"

text \<open>The loop over the arguments from number \<open>i\<close> on: the result, the forking barrier, and the
  state.\<close>

fun copy_args :: "heap \<Rightarrow> WORD \<Rightarrow> nat \<Rightarrow> (char \<times> WORD) list \<Rightarrow> WORD \<Rightarrow> tvm \<Rightarrow> int \<times> WORD \<times> tvm" where
  "copy_args h e i [] fb s = (0, fb, s)"
| "copy_args h e i ((arg, v) # args) fb s =
     (let s = set_tlp_fmt e i arg s in
      if arg = CHR ''F'' then
        let (ret, fb, s) = mt_alloc h e (MT_MAKE_BARRIER MT_BARRIER_FORKING) 0 s
        in if ret \<noteq> 0 then (ret, fb, s)
           else copy_args h e (Suc i) args fb (set_tlp_argv e i fb s)
      else copy_args h e (Suc i) args fb (set_tlp_argv e i v s))"

definition push_word :: "WORD \<Rightarrow> WORD \<Rightarrow> tvm \<Rightarrow> tvm" where
  "push_word e v s =
     (let s = set_WPTR e (wordptr_minus (WPTR e s) 1) s in put_word (WPTR e s) v s)"

text \<open>The arguments are pushed from the last to the first.\<close>

definition push_args :: "WORD \<Rightarrow> (char \<times> WORD) list \<Rightarrow> tvm \<Rightarrow> tvm" where
  "push_args e args s =
     foldr (\<lambda>(arg, v) s. if arg \<noteq> CHR ''F'' then push_word e v s else s) args s"

definition tlp_args :: "WORD \<Rightarrow> tvm \<Rightarrow> (char \<times> WORD) list" where
  "tlp_args e s = take (nat (tlp_argc (ectxs s e))) (zip (tlp_fmt (ectxs s e)) (tlp_argv (ectxs s e)))"

definition tvm_ectx_install_tlp ::
    "heap \<Rightarrow> WORD \<Rightarrow> WORD \<Rightarrow> WORD \<Rightarrow> WORD \<Rightarrow> string \<Rightarrow> int \<Rightarrow> WORD list \<Rightarrow> tvm \<Rightarrow> int \<times> tvm" where
  "tvm_ectx_install_tlp h e code ws vs fmt argc argv s =
     (if argc > TVM_ECTX_TLP_ARGS then (-1, s)
      else
        let s = upd_ectx e (\<lambda>c. c\<lparr>tlp_argc := argc\<rparr>) s;
            (ret, fb, s) = copy_args h e 0 (take (nat argc) (zip fmt argv)) 0 s
        in if ret \<noteq> 0 then (ret, s)
           else
             let s = set_WPTR e ws s;
                 s = set_IPTR e code s;
                 s = set_WPTR e (wordptr_minus (WPTR e s) 1) s;
                 s = put_byte (byteptr_plus (WPTR e s) 0) 0x2F s;
                 s = put_byte (byteptr_plus (WPTR e s) 1) 0xFE s;
                 frame_size = calc_frame_size (word_of_int argc) vs False;
                 s = (if frame_size <s 4 then set_WPTR e (wordptr_minus (WPTR e s) (4 - frame_size)) s else s);
                 frame_size = (if frame_size <s 4 then 4 else frame_size);
                 s = (if fb \<noteq> 0 then push_word e fb s else s);
                 s = (if vs \<noteq> 0 then push_word e vs s else s);
                 s = push_args e (tlp_args e s) s;
                 s = set_WPTR e (wordptr_minus (WPTR e s) 1) s;
                 s = put_word (WPTR e s) (wordptr_plus (WPTR e s) frame_size) s
             in (0, s))"

section \<open>Disconnecting the top-level channels\<close>

text \<open>A mobile output. The local variable lives at \<open>frame\<close>, and what the update and the release
  return is not looked at.\<close>

definition disconnect_mobile_output :: "heap \<Rightarrow> WORD \<Rightarrow> WORD \<Rightarrow> WORD \<Rightarrow> tvm \<Rightarrow> tvm option" where
  "disconnect_mobile_output h frame e src s =
     (let s = put_word frame (get_word s src) s in
      if get_word s frame \<noteq> NULL_P then do {
        (ret, move, s) \<leftarrow> mt_io_update e frame s;
        (let s = (if move = MT_TRUE then put_word src NULL_P s else s) in do {
           (ret, s) \<leftarrow> mt_release h e (get_word s frame) s;
           Some s
         })
      } else Some s)"

definition disconnect_channel :: "heap \<Rightarrow> WORD \<Rightarrow> WORD \<Rightarrow> tvm \<Rightarrow> tvm option" where
  "disconnect_channel h frame ptr s =
     (let chan_value = get_word s ptr in do {
        s \<leftarrow>
          (if chan_value AND NOT 1 \<noteq> NOT_PROCESS_P then
             let ws = chan_value AND NOT 1;
                 e = WORKSPACE_GET s ws WS_ECTX
             in if chan_value AND 1 \<noteq> 0 then
                  let alt_state = WORKSPACE_GET s ws WS_STATE;
                      s = (if alt_state = WAITING_P then snd (add_to_queue_external e 0 ws s) else s)
                  in Some (if alt_state = WAITING_P \<or> alt_state = ENABLING_P
                           then WORKSPACE_SET ws WS_STATE DISABLING_P s else s)
                else
                  let data_ptr = WORKSPACE_GET s ws WS_POINTER;
                      data_len = WORKSPACE_GET s ws WS_PENDING
                  in do {
                    s \<leftarrow>
                      (if 0 <s data_len then Some (zero_bytes (unat data_len) data_ptr s)
                       else if data_len = MIN_INT then Some (put_word data_ptr NULL_P s)
                       else if data_len = MIN_INT + 1 then disconnect_mobile_output h frame e data_ptr s
                       else Some s);
                    Some (snd (add_to_queue_external e 0 ws s))
                  }
           else Some s);
        Some (put_word ptr (NOT_PROCESS_P OR 1) s)
      })"

definition MT_CB_CHANNELS :: "WORD \<Rightarrow> WORD" where
  "MT_CB_CHANNELS x = drop_bit 8 x AND 0xFF"

fun disconnect_channels :: "nat \<Rightarrow> WORD \<Rightarrow> heap \<Rightarrow> WORD \<Rightarrow> WORD \<Rightarrow> tvm \<Rightarrow> tvm option" where
  "disconnect_channels 0 j h frame ptr s = Some s"
| "disconnect_channels (Suc n) j h frame ptr s =
     do { s \<leftarrow> disconnect_channel h frame (wordptr_plus ptr j) s;
          disconnect_channels n (j + 1) h frame ptr s }"

fun disconnect_args :: "heap \<Rightarrow> WORD \<Rightarrow> (char \<times> WORD) list \<Rightarrow> tvm \<Rightarrow> tvm option" where
  "disconnect_args h frame [] s = Some s"
| "disconnect_args h frame ((arg, v) # args) s = do {
     s \<leftarrow>
       (if arg = CHR ''?'' \<or> arg = CHR ''!'' then disconnect_channel h frame v s
        else if (arg = CHR ''C'' \<or> arg = CHR ''S'') \<and> v \<noteq> NULL_P then
          disconnect_channels (unat (MT_CB_CHANNELS (read_mt_type s v))) 0 h frame v s
        else Some s);
     disconnect_args h frame args s
   }"

definition tvm_ectx_disconnect :: "heap \<Rightarrow> WORD \<Rightarrow> WORD \<Rightarrow> tvm \<Rightarrow> tvm option" where
  "tvm_ectx_disconnect h frame e s = disconnect_args h frame (tlp_args e s) s"

text \<open>Does a channel of the list hold an address from \<open>lo\<close> to \<open>hi\<close>?\<close>

fun waits_in_range :: "WORD \<Rightarrow> WORD \<Rightarrow> tvm \<Rightarrow> (char \<times> WORD) list \<Rightarrow> bool" where
  "waits_in_range lo hi s [] = False"
| "waits_in_range lo hi s ((arg, v) # args) =
     (if arg = CHR ''?'' \<or> arg = CHR ''!'' then
        let ptr = get_word s v
        in if lo \<le> ptr \<and> ptr \<le> hi then True else waits_in_range lo hi s args
      else if (arg = CHR ''C'' \<or> arg = CHR ''S'') \<and> v \<noteq> NULL_P then
        if list_ex (\<lambda>j. let val = get_word s (wordptr_plus v (word_of_nat j)) in lo \<le> val \<and> val \<le> hi)
             [0..<unat (MT_CB_CHANNELS (read_mt_type s v))]
        then True else waits_in_range lo hi s args
      else waits_in_range lo hi s args)"

definition tvm_ectx_waiting_on :: "WORD \<Rightarrow> WORD \<Rightarrow> WORD \<Rightarrow> tvm \<Rightarrow> int" where
  "tvm_ectx_waiting_on e ws_base ws_len s =
     (let ws_end = wordptr_plus ws_base ws_len;
          (lo, hi) = (if ws_base > ws_end then (ws_end, ws_base) else (ws_base, ws_end))
      in if waits_in_range lo hi s (tlp_args e s) then 1 else 0)"

section \<open>What the first stack frame holds\<close>

lemma apart_far:
  assumes "4 \<le> k" "k \<le> 4294967292"
  shows "apart 4 a (a + word_of_nat k)" "apart 4 (a + word_of_nat k) a"
proof -
  have k: "unat (word_of_nat k :: WORD) = k" using assms by (simp add: unat_of_nat)
  then have "unat (- word_of_nat k :: WORD) = 4294967296 - k"
    using unat_sub_if' [of 0 "word_of_nat k :: WORD"] assms by simp
  with k assms show "apart 4 a (a + word_of_nat k)" by (simp add: apart_def word_le_nat_alt)
  then show "apart 4 (a + word_of_nat k) a" by (simp add: apart_commute)
qed

lemma push_word_simps [simp]:
  "WPTR e (push_word e v s) = WPTR e s - 4"
  "get_word (push_word e v s) (WPTR e s - 4) = v"
  "IPTR e (push_word e v s) = IPTR e s"
  "tlp_args e (push_word e v s) = tlp_args e s"
  "next_ectx (ectxs (push_word e v s) d) = next_ectx (ectxs s d)"
  "head (push_word e v s) = head s" "tail (push_word e v s) = tail s"
  by (simp_all add: push_word_def Let_def wordptr_minus_def tlp_args_def)

lemma mem_push_word: "4 \<le> x - (WPTR e s - 4) \<Longrightarrow> mem (push_word e v s) x = mem s x"
  by (simp add: push_word_def Let_def wordptr_minus_def write_word_outside)

text \<open>What pushing a list of words does: the stack pointer goes down, to the words in order, and
  nothing else changes.\<close>

definition push_words :: "WORD \<Rightarrow> WORD list \<Rightarrow> tvm \<Rightarrow> tvm" where
  "push_words e vs = foldr (push_word e) vs"

lemma push_words_simps [simp]:
  "push_words e [] s = s" "push_words e (v # vs) s = push_word e v (push_words e vs s)"
  "push_words e (us @ vs) s = push_words e us (push_words e vs s)"
  by (simp_all add: push_words_def)

lemma push_words_keeps [simp]:
  "IPTR e (push_words e vs s) = IPTR e s" "tlp_args e (push_words e vs s) = tlp_args e s"
  "next_ectx (ectxs (push_words e vs s) d) = next_ectx (ectxs s d)"
  "head (push_words e vs s) = head s" "tail (push_words e vs s) = tail s"
  "WPTR e (push_words e vs s) = WPTR e s - word_of_nat (4 * length vs)"
  by (induction vs) (simp_all del: push_word_simps(2))

lemma push_args_words:
  "\<forall>(arg, v) \<in> set args. arg \<noteq> CHR ''F'' \<Longrightarrow> push_args e args s = push_words e (map snd args) s"
  by (induction args) (auto simp: push_args_def)

lemma push_words_frame:
  fixes e :: WORD and s :: tvm and vs :: "WORD list"
  assumes "length vs \<le> 1000"
  defines "w \<equiv> WPTR e s - word_of_nat (4 * length vs)"
  shows "(\<forall>i < length vs. get_word (push_words e vs s) (w + word_of_nat (4 * i)) = vs ! i) \<and>
    (\<forall>x. word_of_nat (4 * length vs) \<le> x - w \<longrightarrow> mem (push_words e vs s) x = mem s x)"
  using assms(1) unfolding w_def
proof (induction vs)
  case (Cons v vs)
  let ?s = "push_words e vs s"
  let ?n = "length vs" and ?w = "WPTR e s - word_of_nat (4 * length vs)"
  have IH: "\<And>i. i < ?n \<Longrightarrow> get_word ?s (?w + word_of_nat (4 * i)) = vs ! i"
    "\<And>x. word_of_nat (4 * ?n) \<le> x - ?w \<Longrightarrow> mem ?s x = mem s x"
    using Cons by auto
  have W: "WPTR e ?s = ?w" by simp
  have base: "WPTR e s - word_of_nat (4 * length (v # vs)) = ?w - 4" by (simp add: algebra_simps)
  have "get_word (push_word e v ?s) (?w - 4 + word_of_nat (4 * i)) = (v # vs) ! i" if "i < length (v # vs)" for i
  proof (cases i)
    case 0
    then show ?thesis using push_word_simps(2) [of e v ?s] unfolding W by simp
  next
    case (Suc j)
    have addr: "?w - 4 + word_of_nat (4 * i) = ?w + word_of_nat (4 * j)" using Suc by simp
    have "get_word (push_word e v ?s) (?w - 4 + word_of_nat (4 * i)) = get_word ?s (?w - 4 + word_of_nat (4 * i))"
      using apart_far(1) [of "4 * i" "?w - 4"] Suc that Cons.prems W
      by (simp add: push_word_def Let_def wordptr_minus_def read_write_word_other)
    moreover have "get_word ?s (?w + word_of_nat (4 * j)) = vs ! j" using Suc that by (intro IH(1)) simp
    ultimately show ?thesis unfolding addr by (simp only: Suc nth_Cons_Suc)
  qed
  moreover have "mem (push_word e v ?s) x = mem s x" if x: "word_of_nat (4 * length (v # vs)) \<le> x - (?w - 4)" for x
  proof -
    let ?y = "x - (?w - 4)"
    have y: "4 + 4 * ?n \<le> unat ?y"
      using x Cons.prems by (simp add: word_le_nat_alt unat_of_nat del: of_nat_add of_nat_mult of_nat_Suc)
    then have "4 \<le> ?y" by (simp add: word_le_nat_alt)
    moreover have "unat (?y - 4) = unat ?y - 4" using calculation unat_sub [of 4 ?y] by simp
    then have "word_of_nat (4 * ?n) \<le> ?y - 4"
      using y Cons.prems by (simp add: word_le_nat_alt unat_of_nat del: of_nat_add of_nat_mult)
    moreover have "?y - 4 = x - ?w" by (simp add: algebra_simps)
    ultimately have "word_of_nat (4 * ?n) \<le> x - ?w" "4 \<le> ?y" by (simp_all only:)
    then show ?thesis using mem_push_word [of x ?s e v] W IH(2) [of x] by simp
  qed
  ultimately show ?case unfolding base by simp
qed simp

lemma copy_args_plain:
  assumes "\<forall>(arg, v) \<in> set args. arg \<noteq> CHR ''F''"
    and "i \<le> length (tlp_fmt (ectxs s e))" "i \<le> length (tlp_argv (ectxs s e))"
  shows "\<exists>f a. copy_args h e i args fb s = (0, fb, upd_ectx e (\<lambda>c. c\<lparr>tlp_fmt := f, tlp_argv := a\<rparr>) s) \<and>
    take (i + length args) f = take i (tlp_fmt (ectxs s e)) @ map fst args \<and>
    take (i + length args) a = take i (tlp_argv (ectxs s e)) @ map snd args"
  using assms
proof (induction args arbitrary: i s)
  case Nil
  have same: "upd_ectx e (\<lambda>c. c\<lparr>tlp_fmt := tlp_fmt (ectxs s e), tlp_argv := tlp_argv (ectxs s e)\<rparr>) s = s"
    by (simp add: upd_ectx_def)
  then show ?case
    by (intro exI [of _ "tlp_fmt (ectxs s e)"] exI [of _ "tlp_argv (ectxs s e)"]) (simp add: same)
next
  case (Cons x args)
  obtain arg v where x: "x = (arg, v)" by (cases x)
  let ?s = "set_tlp_argv e i v (set_tlp_fmt e i arg s)"
  have "take (Suc i) (tlp_fmt (ectxs ?s e)) = take i (tlp_fmt (ectxs s e)) @ [arg]"
    "take (Suc i) (tlp_argv (ectxs ?s e)) = take i (tlp_argv (ectxs s e)) @ [v]"
    "Suc i \<le> length (tlp_fmt (ectxs ?s e))" "Suc i \<le> length (tlp_argv (ectxs ?s e))"
    using Cons.prems(2,3) by (auto simp: set_tlp_fmt_def set_tlp_argv_def min_def)
  moreover obtain f a where
    "copy_args h e (Suc i) args fb ?s = (0, fb, upd_ectx e (\<lambda>c. c\<lparr>tlp_fmt := f, tlp_argv := a\<rparr>) ?s)"
    "take (Suc i + length args) f = take (Suc i) (tlp_fmt (ectxs ?s e)) @ map fst args"
    "take (Suc i + length args) a = take (Suc i) (tlp_argv (ectxs ?s e)) @ map snd args"
    using Cons.IH [of "Suc i" ?s] Cons.prems(1) calculation(3,4) by auto
  moreover have "upd_ectx e (\<lambda>c. c\<lparr>tlp_fmt := f, tlp_argv := a\<rparr>) ?s = upd_ectx e (\<lambda>c. c\<lparr>tlp_fmt := f, tlp_argv := a\<rparr>) s"
    for f a
    by (simp add: set_tlp_fmt_def set_tlp_argv_def upd_ectx_def)
  ultimately show ?case
    using Cons.prems(1) by (intro exI [of _ f] exI [of _ a]) (simp add: x Let_def)
qed

lemma tlp_args_simps [simp]:
  "tlp_args e (set_WPTR e v s) = tlp_args e s" "tlp_args e (set_IPTR e v s) = tlp_args e s"
  "tlp_args e (put_byte p b s) = tlp_args e s" "tlp_args e (put_word p x s) = tlp_args e s"
  by (simp_all add: tlp_args_def)

text \<open>The state before the frame is pushed: the shutdown instruction at the top, and the words that pad a
  frame of \<open>k\<close> words to four.\<close>

definition tlp_top :: "WORD \<Rightarrow> WORD \<Rightarrow> WORD \<Rightarrow> nat \<Rightarrow> tvm \<Rightarrow> tvm" where
  "tlp_top e code ws k s =
     (let s = put_byte (ws - 3) 0xFE (put_byte (ws - 4) 0x2F (set_WPTR e (ws - 4) (set_IPTR e code (set_WPTR e ws s))))
      in if k < 4 then set_WPTR e (ws - 4 - 4 * (4 - word_of_nat k)) s else s)"

lemma tlp_top_simps [simp]:
  "IPTR e (tlp_top e code ws k s) = code" "tlp_args e (tlp_top e code ws k s) = tlp_args e s"
  "next_ectx (ectxs (tlp_top e code ws k s) d) = next_ectx (ectxs s d)"
  "head (tlp_top e code ws k s) = head s" "tail (tlp_top e code ws k s) = tail s"
  "WPTR e (tlp_top e code ws k s) = ws - 4 - 4 * word_of_nat (4 - k)"
  "mem (tlp_top e code ws k s) = (mem s)(ws - 4 := 0x2F, ws - 3 := 0xFE)"
  by (simp_all add: tlp_top_def Let_def tlp_args_def write_byte_def of_nat_diff)

text \<open>Installing a top-level process without a forking barrier pushes the return address, the
  arguments and the vectorspace pointer, when there is one.\<close>

definition tlp_words :: "WORD \<Rightarrow> WORD list \<Rightarrow> WORD \<Rightarrow> WORD list" where
  "tlp_words ws argv vs = (ws - 4) # argv @ (if vs \<noteq> 0 then [vs] else [])"

lemma install_tlp_pushes:
  assumes "length fmt = length argv" "length argv \<le> 8" "CHR ''F'' \<notin> set fmt"
  shows "\<exists>f a. tvm_ectx_install_tlp h e code ws vs fmt (int (length argv)) argv s = (0,
      push_words e (tlp_words ws argv vs) (tlp_top e code ws (length (tlp_words ws argv vs))
        (upd_ectx e (\<lambda>c. c\<lparr>tlp_argc := int (length argv), tlp_fmt := f, tlp_argv := a\<rparr>) s))) \<and>
    take (length argv) f = fmt \<and> take (length argv) a = argv"
proof -
  let ?n = "length argv" and ?args = "zip fmt argv"
  define c where "c = upd_ectx e (\<lambda>c. c\<lparr>tlp_argc := int ?n\<rparr>) s"
  have plain: "\<forall>(arg, v) \<in> set ?args. arg \<noteq> CHR ''F''" using assms(3) by (auto dest: set_zip_leftD)
  obtain f a where copy: "copy_args h e 0 ?args 0 c = (0, 0, upd_ectx e (\<lambda>c. c\<lparr>tlp_fmt := f, tlp_argv := a\<rparr>) c)"
    "take ?n f = fmt" "take ?n a = argv"
    using copy_args_plain [OF plain, of 0 c e h 0] assms(1) by auto
  define c1 where "c1 = upd_ectx e (\<lambda>c. c\<lparr>tlp_fmt := f, tlp_argv := a\<rparr>) c"
  have args: "tlp_args e c1 = ?args" by (simp add: c1_def c_def tlp_args_def take_zip copy)
  define k where "k = length (tlp_words ws argv vs)"
  have k: "k = ?n + (if vs \<noteq> 0 then 2 else 1)" "k \<le> 10" using assms(2) by (simp_all add: k_def tlp_words_def)
  have fw: "calc_frame_size (word_of_nat ?n) vs False = word_of_nat k"
    using k(1) by (simp add: calc_frame_size_def)
  have less: "(word_of_nat k :: WORD) <s 4 \<longleftrightarrow> k < 4"
    using k(2) sint_of_int_exact [of "int k"] by (simp add: word_sless_alt in_range_def)
  define top where "top = tlp_top e code ws k c1"
  let ?top = "let s = put_byte (byteptr_plus (wordptr_minus ws 1) 1) 0xFE (put_byte (byteptr_plus (wordptr_minus ws 1) 0) 0x2F
        (set_WPTR e (wordptr_minus ws 1) (set_IPTR e code (set_WPTR e ws c1))))
      in if k < 4 then set_WPTR e (wordptr_minus (wordptr_minus ws 1) (4 - word_of_nat k)) s else s"
  let ?v = "if vs \<noteq> 0 then push_word e vs ?top else ?top"
  let ?u = "push_args e (tlp_args e ?v) ?v"
  have "tvm_ectx_install_tlp h e code ws vs fmt (int ?n) argv s =
      (let s = set_WPTR e (wordptr_minus (WPTR e ?u) 1) ?u
       in (0, put_word (WPTR e s) (wordptr_plus (WPTR e s) (if k < 4 then 4 else word_of_nat k)) s))"
    using assms(1,2) copy(1)
    by (simp add: tvm_ectx_install_tlp_def c_def [symmetric] c1_def [symmetric] fw less Let_def cong: if_cong split del: if_split)
  also have "?top = top" by (simp add: top_def tlp_top_def Let_def wordptr_minus_def byteptr_plus_def)
  also have "(if vs \<noteq> 0 then push_word e vs top else top) = push_words e (if vs \<noteq> 0 then [vs] else []) top" by simp
  also have "push_args e (tlp_args e \<dots>) \<dots> = push_words e (argv @ (if vs \<noteq> 0 then [vs] else [])) top"
    using args push_args_words [OF plain] assms(1) by (simp add: top_def)
  finally have "tvm_ectx_install_tlp h e code ws vs fmt (int ?n) argv s =
      (0, push_words e (tlp_words ws argv vs) top)"
    using k(1) by (simp add: tlp_words_def push_word_def [of _ "ws - 4"] Let_def top_def wordptr_plus_def wordptr_minus_def
        of_nat_diff algebra_simps)
  then show ?thesis using copy(2,3) by (intro exI [of _ f] exI [of _ a]) (simp add: top_def c1_def c_def k_def upd_ectx_def)
qed

text \<open>The first stack frame of a top-level process without a forking barrier. It lies below the
  workspace it is given: the return address, then the arguments in order, then the vectorspace
  pointer when there is one, at least four words in all; the return address is that of the word
  above the frame, which holds the shutdown instruction. Other memory stays as it was.\<close>

lemma install_tlp_frame:
  assumes "length fmt = length argv" "length argv \<le> 8" "CHR ''F'' \<notin> set fmt"
    and "fs = max 4 (1 + length argv + (if vs \<noteq> 0 then 1 else 0))"
    and "w = ws - word_of_nat (4 * (fs + 1))"
  shows "\<exists>s'. tvm_ectx_install_tlp h e code ws vs fmt (int (length argv)) argv s = (0, s') \<and>
    WPTR e s' = w \<and> IPTR e s' = code \<and> tlp_args e s' = zip fmt argv \<and> get_word s' w = ws - 4 \<and>
    mem s' (ws - 4) = 0x2F \<and> mem s' (ws - 3) = 0xFE \<and>
    (\<forall>i < length argv. get_word s' (w + word_of_nat (4 * (i + 1))) = argv ! i) \<and>
    (vs \<noteq> 0 \<longrightarrow> get_word s' (w + word_of_nat (4 * (length argv + 1))) = vs) \<and>
    (\<forall>x. word_of_nat (4 * (fs + 1)) \<le> x - w \<longrightarrow> mem s' x = mem s x) \<and>
    (\<forall>d. next_ectx (ectxs s' d) = next_ectx (ectxs s d)) \<and> head s' = head s \<and> tail s' = tail s"
proof -
  define L where "L = tlp_words ws argv vs"
  define k where "k = length L"
  obtain f a where f: "tvm_ectx_install_tlp h e code ws vs fmt (int (length argv)) argv s = (0,
      push_words e L (tlp_top e code ws k
        (upd_ectx e (\<lambda>c. c\<lparr>tlp_argc := int (length argv), tlp_fmt := f, tlp_argv := a\<rparr>) s)))"
    "take (length argv) f = fmt" "take (length argv) a = argv"
    using install_tlp_pushes [OF assms(1-3), of h e code ws vs s] unfolding L_def k_def by blast
  define c where "c = upd_ectx e (\<lambda>c. c\<lparr>tlp_argc := int (length argv), tlp_fmt := f, tlp_argv := a\<rparr>) s"
  let ?t = "tlp_top e code ws k c" and ?s = "push_words e L (tlp_top e code ws k c)"
  have k: "k \<le> 10" "fs = (4 - k) + k" "k = 1 + length argv + (if vs \<noteq> 0 then 1 else 0)"
    using assms(2,4) by (simp_all add: k_def L_def tlp_words_def max_def)
  have w: "WPTR e ?t - word_of_nat (4 * length L) = w"
  proof -
    obtain m where "fs = m + k" "WPTR e ?t = ws - 4 - 4 * word_of_nat m" using k(2) by simp
    then show ?thesis by (simp add: assms(5) k_def [symmetric] algebra_simps)
  qed
  have words: "i < length L \<Longrightarrow> get_word ?s (w + word_of_nat (4 * i)) = L ! i"
    and other: "word_of_nat (4 * k) \<le> x - w \<Longrightarrow> mem ?s x = mem ?t x" for i x
  proof -
    have "length L \<le> 1000" using k(1) by (simp add: k_def)
    from push_words_frame [OF this, of e ?t] show "i < length L \<Longrightarrow> get_word ?s (w + word_of_nat (4 * i)) = L ! i"
      "word_of_nat (4 * k) \<le> x - w \<Longrightarrow> mem ?s x = mem ?t x"
      unfolding w unfolding k_def [symmetric] by blast+
  qed
  have near: "(word_of_nat (4 * k) :: WORD) \<le> word_of_nat (4 * fs + j)" if "j \<le> 1" for j :: nat
    using k(1,2) that by (simp add: word_le_nat_alt unat_of_nat del: of_nat_add of_nat_mult)
  have addr: "ws - 4 - w = word_of_nat (4 * fs + 0)" "ws - 3 - w = word_of_nat (4 * fs + 1)" by (simp_all add: assms(5))
  have "mem ?s (ws - 4) = mem ?t (ws - 4)" "mem ?s (ws - 3) = mem ?t (ws - 3)"
    by (rule other, unfold addr, rule near, simp)+
  then have top: "mem ?s (ws - 4) = 0x2F" "mem ?s (ws - 3) = 0xFE" by simp_all
  have "mem ?s x = mem s x" if x: "word_of_nat (4 * (fs + 1)) \<le> x - w" for x
  proof -
    have "4 * fs + 4 \<le> unat (x - w)" using x k(1,2) by (simp add: word_le_nat_alt unat_of_nat del: of_nat_add of_nat_mult)
    then have far: "word_of_nat (4 * k) \<le> x - w"
      using k(1,2) by (simp add: word_le_nat_alt unat_of_nat del: of_nat_add of_nat_mult)
    have "x - w \<noteq> word_of_nat (4 * fs + j)" if "j \<le> 1" for j
    proof
      assume "x - w = word_of_nat (4 * fs + j)"
      then have "unat (x - w) = 4 * fs + j" using k(1,2) that by (simp add: unat_of_nat del: of_nat_add of_nat_mult)
      then show False using \<open>4 * fs + 4 \<le> unat (x - w)\<close> that by simp
    qed
    then have "x \<noteq> ws - 4" "x \<noteq> ws - 3" using addr by force+
    then show ?thesis using other [OF far] by (simp add: c_def)
  qed
  moreover have "get_word ?s w = ws - 4" using words [of 0] k(3) by (simp add: k_def [symmetric]) (simp add: L_def tlp_words_def)
  moreover have "get_word ?s (w + word_of_nat (4 * (i + 1))) = argv ! i" if "i < length argv" for i
    using words [of "i + 1"] that k(3) by (simp add: k_def L_def tlp_words_def nth_append)
  moreover have "get_word ?s (w + word_of_nat (4 * (length argv + 1))) = vs" if "vs \<noteq> 0"
    using words [of "length argv + 1"] that k(3) by (simp add: k_def L_def tlp_words_def nth_append)
  moreover have "WPTR e ?s = w" using w by (simp only: push_words_keeps)
  moreover have "tlp_args e c = zip fmt argv" using f(2,3) assms(1) by (simp add: c_def tlp_args_def take_zip)
  ultimately show ?thesis using f(1) top unfolding c_def [symmetric]
    by (intro exI [of _ ?s] conjI) (simp_all del: push_words_keeps(6) add: c_def)
qed

section \<open>What disconnecting does to a waiting process\<close>

lemma zero_bytes_mem:
  "n \<le> 4294967295 \<Longrightarrow> mem (zero_bytes n p s) x = (if x - p < word_of_nat n then 0 else mem s x)"
proof (induction n arbitrary: p s)
  case 0
  then show ?case by simp
next
  case (Suc n)
  have n: "unat (word_of_nat n :: WORD) = n" "unat (word_of_nat (Suc n) :: WORD) = Suc n"
    using Suc.prems by (simp_all add: unat_of_nat del: of_nat_Suc)
  have "unat (x - (p + 1)) = (if x = p then 4294967295 else unat (x - p) - 1)"
  proof (cases "x = p")
    case False
    then have "1 \<le> x - p" by (simp add: word_le_nat_alt Suc_le_eq unat_gt_0)
    from unat_sub [OF this] False show ?thesis by (simp add: diff_diff_eq)
  qed (simp add: unsigned_minus_1_eq_mask mask_eq_exp_minus_1)
  moreover have "x \<noteq> p \<Longrightarrow> unat (x - p) \<noteq> 0" by (simp add: unat_eq_zero)
  ultimately have "x - (p + 1) < word_of_nat n \<longleftrightarrow> x - p < word_of_nat (Suc n) \<and> x \<noteq> p"
    using n Suc.prems by (auto simp: word_less_nat_alt simp del: of_nat_Suc)
  moreover have "x = p \<Longrightarrow> x - p < word_of_nat (Suc n)" using n by (simp add: word_less_nat_alt del: of_nat_Suc)
  ultimately show ?case
    using Suc.IH [of "p + 1" "put_byte p 0 s"] Suc.prems
    by (auto simp: byteptr_plus_def write_byte_def simp del: of_nat_Suc)
qed

lemma ectxs_zero_bytes [simp]: "ectxs (zero_bytes n p s) = ectxs s"
  by (induction n arbitrary: p s) simp_all

text \<open>Disconnecting a channel on which a process waits for input. The message the process gets is
  all zeros, it goes to the back of the run queue of its context, and the channel is marked as
  disconnected.\<close>

lemma disconnect_ends_input:
  assumes "get_word s ptr = w" "w \<noteq> 0" "w AND 1 = 0" "WORKSPACE_GET s w WS_ECTX = e"
    and "WORKSPACE_GET s w WS_POINTER = dst" "WORKSPACE_GET s w WS_PENDING = len" "0 <s len"
    and "run_queue e s rq" "ws_list (rq @ [w])"
    and "clear_of (set (rq @ [w])) dst len" "clear_of (set (rq @ [w])) ptr 4" "disjoint_blocks ptr 4 dst len"
  shows "\<exists>s'. disconnect_channel h frame ptr s = Some s' \<and> get_word s' ptr = NOT_PROCESS_P OR 1 \<and>
    run_queue e s' (rq @ [w]) \<and> (\<forall>i < len. mem s' (dst + i) = 0)"
proof -
  let ?A = "set (rq @ [w])"
  define s1 where "s1 = zero_bytes (unat len) dst s"
  define s2 where "s2 = add_to_queue e w s1"
  have mem1: "mem s1 x = (if x - dst < len then 0 else mem s x)" for x
    using zero_bytes_mem [of "unat len" dst s x] unat_less32 [of len] by (simp add: s1_def)
  have slots: "WORKSPACE_GET s1 q k = WORKSPACE_GET s q k" if "q \<in> ?A" "k \<le> 6" for q k
  proof (rule WORKSPACE_GET_cong)
    fix x assume x: "\<not> outside {q} x"
    have "\<not> x - dst < len"
      using clear_of_outside [OF assms(10), of "x - dst"] outside_mono [of ?A x "{q}"] x \<open>q \<in> ?A\<close> by auto
    then show "mem s1 x = mem s x" by (simp add: mem1)
  qed fact
  have rq1: "run_queue e s1 rq"
    by (rule run_queue_cong [OF assms(8)]) (use slots [of _ WS_LINK] in \<open>auto simp: s1_def\<close>)
  then have rq2: "run_queue e s2 (rq @ [w])"
    unfolding s2_def by (rule add_to_queue_run_queue [OF _ assms(9)])
  have "run_queue e (put_word ptr (NOT_PROCESS_P OR 1) s2) (rq @ [w])"
    by (rule run_queue_cong [OF rq2]) (auto simp: put_word_clear_GET [OF assms(11)])
  moreover have "mem (put_word ptr (NOT_PROCESS_P OR 1) s2) (dst + i) = 0" if "i < len" for i
  proof -
    have "outside (insert w (set rq)) (dst + i)"
      using clear_of_outside [OF assms(10) that] by simp
    then have "mem s2 (dst + i) = mem s1 (dst + i)"
      unfolding s2_def by (rule mem_add_to_queue_outside [OF rq1])
    then show ?thesis
      using disjoint_blocks_outside [OF assms(12) that] that by (simp add: write_word_outside mem1)
  qed
  moreover have "disconnect_channel h frame ptr s = Some (put_word ptr (NOT_PROCESS_P OR 1) s2)"
    using clear_low_bit [OF assms(3)] assms(1-7)
    by (simp add: disconnect_channel_def Let_def add_to_queue_external_def s2_def s1_def del: and_one_eq)
  ultimately show ?thesis by (intro exI conjI) auto
qed

section \<open>Examples\<close>

text \<open>Two arguments and a vectorspace; and a process at 8192 that waits on the channel at 100 for
  four bytes at 512.\<close>

definition no_heap :: heap where
  "no_heap = \<lparr>heap_malloc = \<lambda>e n s. (0, s), heap_free = \<lambda>e p s. s, ext_cb_free = \<lambda>_. None\<rparr>"

lemma install_tlp_frame_witness:
  "\<exists>s'. tvm_ectx_install_tlp no_heap 1 64 4096 8192 ''??'' 2 [100, 104] blank = (0, s') \<and> WPTR 1 s' = 4076 \<and>
     get_word s' 4076 = 4092 \<and> get_word s' 4080 = 100 \<and> get_word s' 4084 = 104 \<and> get_word s' 4088 = 8192"
proof -
  have "length ''??'' = length [100, 104 :: WORD]" "length [100, 104 :: WORD] \<le> 8" "CHR ''F'' \<notin> set ''??''"
    "4 = max 4 (1 + length [100, 104 :: WORD] + (if (8192 :: WORD) \<noteq> 0 then 1 else 0))"
    "4076 = (4096 :: WORD) - word_of_nat (4 * (4 + 1))"
    by simp_all
  from install_tlp_frame [OF this, of no_heap 1 64 blank]
  obtain s' where "tvm_ectx_install_tlp no_heap 1 64 4096 8192 ''??'' (int (length [100, 104 :: WORD])) [100, 104] blank = (0, s')"
    "WPTR 1 s' = 4076" "get_word s' 4076 = 4096 - 4"
    and args: "\<And>i. i < 2 \<Longrightarrow> get_word s' (4076 + word_of_nat (4 * (i + 1))) = [100, 104] ! i"
    and vs: "get_word s' (4076 + word_of_nat (4 * (length [100, 104 :: WORD] + 1))) = 8192"
    by auto
  moreover note args [of 0] args [of 1] vs
  ultimately show ?thesis by (intro exI [of _ s']) simp
qed

lemma disconnect_ends_input_witness:
  "\<exists>s'. disconnect_channel no_heap 64 100 (WORKSPACE_SET 8192 WS_PENDING 4 second_example) = Some s' \<and>
     run_queue 1 s' [8192] \<and> mem s' 512 = 0"
proof -
  let ?s = "WORKSPACE_SET 8192 WS_PENDING 4 second_example"
  have "get_word ?s 100 = 8192" "WORKSPACE_GET ?s 8192 WS_ECTX = 1" "WORKSPACE_GET ?s 8192 WS_POINTER = 512"
    "WORKSPACE_GET ?s 8192 WS_PENDING = 4" "run_queue 1 ?s []"
    by (simp_all add: second_example_def regs_of_example_def WORKSPACE_GET_def WORKSPACE_SET_def put_word_def
        read_write_word_other apart_def wordptr_minus_def run_queue_def)
  moreover have "(8192 :: WORD) \<noteq> 0" "(8192 :: WORD) AND 1 = 0" "(0 :: WORD) <s 4"
    by (simp_all add: word_sless_alt)
  moreover have "ws_list ([] @ [8192])" "clear_of (set ([] @ [8192])) 512 4" "clear_of (set ([] @ [8192])) 100 4"
    "disjoint_blocks 100 4 512 4"
    by (simp_all add: example_defs)
  ultimately have "\<exists>s'. disconnect_channel no_heap 64 100 ?s = Some s' \<and> get_word s' 100 = NOT_PROCESS_P OR 1 \<and>
      run_queue 1 s' ([] @ [8192]) \<and> (\<forall>i < 4. mem s' (512 + i) = 0)"
    by (intro disconnect_ends_input)
  then obtain s' where "disconnect_channel no_heap 64 100 ?s = Some s'" "run_queue 1 s' [8192]"
    and zero: "\<forall>i < 4. mem s' (512 + i) = 0" by auto
  moreover have "mem s' 512 = 0" using zero [rule_format, of 0] by simp
  ultimately show ?thesis by blast
qed

end
