(* ===== verification/Tvm_Tencode.thy ===== *)
theory Tvm_Tencode
  imports Tvm_Memory "HOL-Library.Monad_Syntax"
begin

text \<open>
  The decoder of bytecode files, \<^verbatim>\<open>tencode.c\<close>: a file is a sequence of elements, each a name of
  four bytes, a length in big-endian order, and data padded to words; names that end in \<open>I\<close> or
  \<open>U\<close> are of integers, which take the place of the length. Decoding may happen in place, with the
  structures written over the names and lengths just read, so the functions return the memory.
  Pointers and \<^verbatim>\<open>unsigned int\<close> are words. \<open>None\<close> is a loop that does not end.
\<close>

section \<open>Elements\<close>

record tenc_element =
  el_id :: "BYTE list"
  el_length :: WORD
  el_data :: WORD
  el_next :: WORD

definition tenc_decode_int :: "memory \<Rightarrow> WORD \<Rightarrow> WORD" where
  "tenc_decode_int m src = SwapFourBytes (read_word m src)"

definition byte :: "char \<Rightarrow> BYTE" where
  "byte c = word_of_nat (of_char c)"

text \<open>The result, what is left of the length, and the element.\<close>

definition tenc_decode_element :: "memory \<Rightarrow> WORD \<Rightarrow> WORD \<Rightarrow> tenc_element \<Rightarrow> int \<times> WORD \<times> tenc_element" where
  "tenc_decode_element m src len element =
     (if len < 4 + 4 then (-1, len, element)
      else
        let name = [m src, m (src + 1), m (src + 2), m (src + 3)];
            el_len = tenc_decode_int m (src + 4);
            element = element\<lparr>el_id := name, el_length := el_len, el_next := src + (4 + 4)\<rparr>;
            len = len - (4 + 4)
        in if name ! 3 = byte CHR ''I'' \<or> name ! 3 = byte CHR ''U'' then
             (0, len, element\<lparr>el_data := el_len, el_length := 0\<rparr>)
           else if len < el_len then (-1, len, element)
           else
             let align_mask = 4 - 1;
                 bytes = el_len;
                 bytes = (if bytes AND align_mask \<noteq> 0 then bytes + (4 - (bytes AND align_mask)) else bytes)
             in (0, len - bytes, element\<lparr>el_data := src + (4 + 4), el_next := src + (4 + 4) + bytes\<rparr>))"

definition ids_match :: "BYTE list \<Rightarrow> string \<Rightarrow> bool" where
  "ids_match a b \<longleftrightarrow>
     a ! 0 = byte (b ! 0) \<and> a ! 1 = byte (b ! 1) \<and> a ! 2 = byte (b ! 2) \<and> a ! 3 = byte (b ! 3)"

partial_function (option) tenc_walk_to_element ::
    "memory \<Rightarrow> WORD \<Rightarrow> WORD \<Rightarrow> string \<Rightarrow> tenc_element \<Rightarrow> (int \<times> WORD \<times> tenc_element) option" where
  "tenc_walk_to_element m data len name element =
     (if len > 0 then
        case tenc_decode_element m data len element of
          (ret, len, element) \<Rightarrow>
            if ret < 0 then Some (ret, len, element)
            else if ids_match (el_id element) name then Some (0, len, element)
            else tenc_walk_to_element m (el_next element) len name element
      else Some (-1, len, element))"

definition no_element :: tenc_element where
  "no_element = \<lparr>el_id = [], el_length = 0, el_data = 0, el_next = 0\<rparr>"

text \<open>The loaders return the result, the data and length to go on with, and the value for
  \<^verbatim>\<open>*dst\<close>, which counts only when the result is not negative.\<close>

definition load_uint :: "memory \<Rightarrow> WORD \<Rightarrow> WORD \<Rightarrow> string \<Rightarrow> (int \<times> WORD \<times> WORD \<times> WORD) option" where
  "load_uint m data len name = do {
     (ret, len, element) \<leftarrow> tenc_walk_to_element m data len name no_element;
     Some (if ret < 0 then (ret, data, len, 0) else (0, el_next element, len, el_data element))
   }"

definition load_int :: "memory \<Rightarrow> WORD \<Rightarrow> WORD \<Rightarrow> string \<Rightarrow> (int \<times> WORD \<times> WORD \<times> WORD) option" where
  "load_int m data len name = load_uint m data len name"

definition load_str :: "memory \<Rightarrow> WORD \<Rightarrow> WORD \<Rightarrow> string \<Rightarrow> (int \<times> WORD \<times> WORD \<times> WORD) option" where
  "load_str m data len name = do {
     (ret, len, element) \<leftarrow> tenc_walk_to_element m data len name no_element;
     Some (if ret < 0 then (ret, data, len, 0)
           else if el_length element < 1 then (-1, data, len, 0)
           else (0, el_next element, len, el_data element))
   }"

section \<open>Parts of a bytecode file\<close>

text \<open>A string list: \<^verbatim>\<open>next\<close> and \<^verbatim>\<open>str\<close>, in the place of the name and length.\<close>

partial_function (option) decode_strs_loop ::
    "WORD \<Rightarrow> WORD \<Rightarrow> string \<Rightarrow> WORD \<Rightarrow> WORD \<Rightarrow> memory \<Rightarrow> (WORD \<times> memory) option" where
  "decode_strs_loop data len name head tail m =
     (if len > 0 then do {
        (ret, data', len, str) \<leftarrow> load_str m data len name;
        (if ret < 0 then Some (head, m)
         else
           let curr = data;
               m = write_word m curr 0;
               m = write_word m (curr + 4) str
           in if tail = 0 then decode_strs_loop data' len name curr curr m
              else decode_strs_loop data' len name head curr (write_word m tail curr))
      } else Some (head, m))"

definition decode_strs :: "WORD \<Rightarrow> WORD \<Rightarrow> string \<Rightarrow> memory \<Rightarrow> (WORD \<times> memory) option" where
  "decode_strs data len name m = decode_strs_loop data len name 0 0 m"

definition decode_tlp :: "WORD \<Rightarrow> WORD \<Rightarrow> tenc_element \<Rightarrow> memory \<Rightarrow> (WORD \<times> memory) option" where
  "decode_tlp head tlp tlp_element m =
     (let data = el_data tlp_element;
          len = el_length tlp_element;
          tlp = (if tlp = 0 then head else tlp)
      in do {
        (ret, data, len, fmt) \<leftarrow> load_str m data len ''fmtS'';
        (if ret < 0 then Some (0, m)
         else let m = write_word m tlp fmt in do {
           (ret, data, len, symbol) \<leftarrow> load_str m data len ''symS'';
           Some (if ret < 0 then (0, m) else (tlp, write_word m (tlp + 4) symbol))
         })
      })"

text \<open>The map of the foreign functions: from each symbol to the index of its library.\<close>

partial_function (option) decode_ffi_map ::
    "WORD \<Rightarrow> WORD \<Rightarrow> WORD \<Rightarrow> WORD \<Rightarrow> memory \<Rightarrow> (WORD \<times> memory) option" where
  "decode_ffi_map ffi symb data len m =
     (if symb \<noteq> 0 \<and> len > 0 then do {
        (ret, data, len, lib_idx) \<leftarrow> load_int m data len ''idxI'';
        (if ret < 0 then Some (0, m)
         else
           let entry = read_word m (ffi + 12) + 8 * read_word m (ffi + 4);
               m = write_word m entry (read_word m (symb + 4));
               entry = read_word m (ffi + 12) + 8 * read_word m (ffi + 4);
               m = write_word m (entry + 4) lib_idx;
               m = write_word m (ffi + 4) (read_word m (ffi + 4) + 1);
               symb = read_word m symb
           in decode_ffi_map ffi symb data len m)
      } else Some (if symb \<noteq> 0 then 0 else ffi, m))"

definition decode_ffi :: "WORD \<Rightarrow> tenc_element \<Rightarrow> memory \<Rightarrow> (WORD \<times> memory) option" where
  "decode_ffi ffi ffi_element m = do {
     (ret, len, element) \<leftarrow> tenc_walk_to_element m (el_data ffi_element) (el_length ffi_element) ''libL'' no_element;
     (if ret < 0 then Some (0, m) else do {
        (libraries, m) \<leftarrow> decode_strs (el_data element) (el_length element) ''libS'' m;
        let m = write_word m ffi libraries;
        (ret, len, element) \<leftarrow> tenc_walk_to_element m (el_next element) len ''symL'' element;
        (if ret < 0 then Some (0, m) else do {
           (symbols, m) \<leftarrow> decode_strs (el_data element) (el_length element) ''symS'' m;
           let m = write_word m (ffi + 8) symbols;
           (ret, len, element) \<leftarrow> tenc_walk_to_element m (el_next element) len ''mapL'' element;
           (if ret < 0 then Some (0, m)
            else
              let m = write_word m (ffi + 4) 0;
                  m = write_word m (ffi + 12) (el_data element - (4 + 4))
              in decode_ffi_map ffi (read_word m (ffi + 8)) (el_data element) (el_length element) m)
        })
     })
   }"

text \<open>The line numbers, decoded in place.\<close>

fun decode_words :: "nat \<Rightarrow> WORD \<Rightarrow> memory \<Rightarrow> memory" where
  "decode_words 0 data m = m"
| "decode_words (Suc n) data m = decode_words n (data + 4) (write_word m data (tenc_decode_int m data))"

definition decode_debug :: "WORD \<Rightarrow> tenc_element \<Rightarrow> memory \<Rightarrow> (WORD \<times> memory) option" where
  "decode_debug dbg dbg_element m = do {
     (ret, len, element) \<leftarrow> tenc_walk_to_element m (el_data dbg_element) (el_length dbg_element) ''fn L'' no_element;
     (if ret < 0 then Some (0, m) else do {
        (files, m) \<leftarrow> decode_strs (el_data element) (el_length element) ''fn S'' m;
        let m = write_word m dbg files;
        (ret, len, element) \<leftarrow> tenc_walk_to_element m (el_next element) len ''lndB'' element;
        Some (if ret < 0 then (0, m)
              else
                let m = write_word m (dbg + 8) (el_data element);
                    m = write_word m (dbg + 4) (el_length element div (4 * 3))
                in (dbg, decode_words (unat (el_length element div 4)) (el_data element) m))
     })
   }"

text \<open>The symbol table. One turn of the loop reads the fields of the symbol at \<open>symb\<close>; the optional
  ones end at the first that is missing.\<close>

definition decode_symbol_options :: "WORD \<Rightarrow> WORD \<Rightarrow> WORD \<Rightarrow> memory \<Rightarrow> memory option" where
  "decode_symbol_options symb s_data s_length m =
     (if s_length > 0 then do {
        (ret, s_data, s_length, defn) \<leftarrow> load_str m s_data s_length ''defS'';
        (if ret < 0 then Some m
         else let m = write_word m (symb + 16) defn in do {
           (ret, s_data, s_length, ws) \<leftarrow> load_uint m s_data s_length ''ws U'';
           (if ret < 0 then Some m
            else let m = write_word m (symb + 4) ws in do {
              (ret, s_data, s_length, vs) \<leftarrow> load_uint m s_data s_length ''vs U'';
              Some (if ret < 0 then m else write_word m (symb + 8) vs)
            })
         })
      } else Some m)"

definition decode_symbol :: "WORD \<Rightarrow> WORD \<Rightarrow> WORD \<Rightarrow> memory \<Rightarrow> (int \<times> memory) option" where
  "decode_symbol symb s_data s_length m = do {
     (ret, s_data, s_length, offset) \<leftarrow> load_uint m s_data s_length ''offU'';
     (if ret < 0 then Some (-1, m)
      else let m = write_word m symb offset in do {
        (ret, s_data, s_length, name) \<leftarrow> load_str m s_data s_length ''symS'';
        (if ret < 0 then Some (-1, m)
         else
           let m = write_word m (symb + 12) name;
               m = write_word m (symb + 4) 0;
               m = write_word m (symb + 8) 0;
               m = write_word m (symb + 16) 0;
               m = write_word m (symb + 20) 0
           in do { m \<leftarrow> decode_symbol_options symb s_data s_length m; Some (0, m) })
      })
   }"

partial_function (option) decode_symbols_loop ::
    "WORD \<Rightarrow> WORD \<Rightarrow> WORD \<Rightarrow> WORD \<Rightarrow> memory \<Rightarrow> (WORD \<times> memory) option" where
  "decode_symbols_loop data len head symb m =
     (if len > 0 then do {
        (ret, len, element) \<leftarrow> tenc_walk_to_element m data len ''symL'' no_element;
        (if ret < 0 then Some (0, m)
         else
           let m = (if head = 0 then m else write_word m (symb + 20) data);
               head = (if head = 0 then data else head);
               symb = data
           in do {
             (ret, m) \<leftarrow> decode_symbol symb (el_data element) (el_length element) m;
             (if ret < 0 then Some (0, m) else decode_symbols_loop (el_next element) len head symb m)
           })
      } else Some (head, m))"

definition decode_symbols :: "tenc_element \<Rightarrow> memory \<Rightarrow> (WORD \<times> memory) option" where
  "decode_symbols stb_element m =
     decode_symbols_loop (el_data stb_element) (el_length stb_element) 0 0 m"

section \<open>Looking up a line\<close>

text \<open>The line table up to the entry past \<open>offset\<close>; the last file and line read, at first the
  values of the uninitialised variables.\<close>

function find_line :: "memory \<Rightarrow> WORD \<Rightarrow> WORD \<Rightarrow> WORD \<Rightarrow> WORD \<Rightarrow> WORD \<Rightarrow> WORD \<times> WORD" where
  "find_line m data len offset file_off line_off =
     (if len \<ge> 12 then
        if tenc_decode_int m data > offset then (file_off, line_off)
        else find_line m (data + 12) (len - 12) offset (tenc_decode_int m (data + 4)) (tenc_decode_int m (data + 8))
      else (file_off, line_off))"
  by auto
termination
  by (relation "measure (\<lambda>(m, data, len, _). unat len)")
    (auto simp: word_le_nat_alt unat_sub word_less_nat_alt)

declare find_line.simps [simp del]

text \<open>The loop over the file names. \<^verbatim>\<open>file_off\<close> is unsigned, so its condition always holds.\<close>

partial_function (option) find_file :: "memory \<Rightarrow> WORD \<Rightarrow> WORD \<Rightarrow> WORD \<Rightarrow> WORD \<Rightarrow> (int \<times> WORD) option" where
  "find_file m data len file_off str =
     (if file_off \<ge> 0 then do {
        (ret, data, len, str') \<leftarrow> load_str m data len ''fn S'';
        (if ret < 0 then Some (ret, str) else find_file m data len (file_off - 1) str')
      } else Some (0, str))"

text \<open>The result, the file name and the line; \<open>undef\<close> are the values of the uninitialised
  variables \<^verbatim>\<open>file_off\<close>, \<^verbatim>\<open>line_off\<close> and \<^verbatim>\<open>str\<close>.\<close>

definition tbc_debug_file_and_line ::
    "memory \<Rightarrow> WORD \<times> WORD \<times> WORD \<Rightarrow> WORD \<Rightarrow> WORD \<Rightarrow> WORD \<Rightarrow> (int \<times> WORD \<times> WORD) option" where
  "tbc_debug_file_and_line m undef data len offset = do {
     (ret, len, element) \<leftarrow> tenc_walk_to_element m data len ''dbgL'' no_element;
     (if ret < 0 then Some (ret, 0, 0) else do {
        (ret, len, files) \<leftarrow> tenc_walk_to_element m (el_data element) len ''fn L'' no_element;
        (if ret < 0 then Some (-1, 0, 0) else do {
           (ret, len, element) \<leftarrow> tenc_walk_to_element m (el_next files) len ''lndB'' element;
           (if ret < 0 then Some (-1, 0, 0)
            else
              let (u_file, u_line, u_str) = undef;
                  (file_off, line_off) = find_line m (el_data element) (el_length element) offset u_file u_line
              in do {
                (ret, str) \<leftarrow> find_file m (el_data files) (el_length files) file_off u_str;
                Some (if ret < 0 then (ret, 0, 0) else (0, str, line_off))
              })
        })
     })
   }"

section \<open>A bytecode file\<close>

text \<open>The words of a \<^verbatim>\<open>tbc_t\<close>.\<close>

abbreviation (input) tbc_endian :: "WORD \<Rightarrow> WORD" where "tbc_endian tbc \<equiv> tbc"
abbreviation (input) tbc_ws :: "WORD \<Rightarrow> WORD" where "tbc_ws tbc \<equiv> tbc + 4"
abbreviation (input) tbc_vs :: "WORD \<Rightarrow> WORD" where "tbc_vs tbc \<equiv> tbc + 8"
abbreviation (input) tbc_bytecode_len :: "WORD \<Rightarrow> WORD" where "tbc_bytecode_len tbc \<equiv> tbc + 12"
abbreviation (input) tbc_bytecode :: "WORD \<Rightarrow> WORD" where "tbc_bytecode tbc \<equiv> tbc + 16"
abbreviation (input) tbc_tlp :: "WORD \<Rightarrow> WORD" where "tbc_tlp tbc \<equiv> tbc + 20"
abbreviation (input) tbc_ffi :: "WORD \<Rightarrow> WORD" where "tbc_ffi tbc \<equiv> tbc + 24"
abbreviation (input) tbc_symbols :: "WORD \<Rightarrow> WORD" where "tbc_symbols tbc \<equiv> tbc + 28"
abbreviation (input) tbc_debug :: "WORD \<Rightarrow> WORD" where "tbc_debug tbc \<equiv> tbc + 32"

text \<open>The last loop of \<^verbatim>\<open>tbc_decode\<close>, over the optional elements.\<close>

partial_function (option) decode_optional ::
    "bool \<Rightarrow> WORD \<Rightarrow> WORD \<Rightarrow> WORD \<Rightarrow> tenc_element \<Rightarrow> memory \<Rightarrow> memory option" where
  "decode_optional in_place tbc data len element m =
     (if len > 0 then
        case tenc_decode_element m data len element of
          (ret, len, element) \<Rightarrow>
            if ret < 0 then Some m
            else do {
              m \<leftarrow>
                (if ids_match (el_id element) ''tlpL'' then
                   map_option (\<lambda>(p, m). write_word m (tbc_tlp tbc) p)
                     (decode_tlp data (read_word m (tbc_tlp tbc)) element m)
                 else if in_place \<and> ids_match (el_id element) ''ffiL'' then
                   map_option (\<lambda>(p, m). write_word m (tbc_ffi tbc) p) (decode_ffi data element m)
                 else if in_place \<and> ids_match (el_id element) ''stbL'' then
                   map_option (\<lambda>(p, m). write_word m (tbc_symbols tbc) p) (decode_symbols element m)
                 else if in_place \<and> ids_match (el_id element) ''dbgL'' then
                   map_option (\<lambda>(p, m). write_word m (tbc_debug tbc) p) (decode_debug data element m)
                 else Some m);
              decode_optional in_place tbc (el_next element) len element m
            }
      else Some m)"

text \<open>What follows the required elements: resetting the optional parts, and decoding them.\<close>

definition reset_optional :: "bool \<Rightarrow> WORD \<Rightarrow> memory \<Rightarrow> memory" where
  "reset_optional in_place tbc m =
     (if in_place then
        write_word (write_word (write_word (write_word m (tbc_tlp tbc) 0) (tbc_symbols tbc) 0) (tbc_ffi tbc) 0) (tbc_debug tbc) 0
      else
        let tlp = read_word m (tbc_tlp tbc)
        in if tlp \<noteq> 0 then write_word (write_word m tlp 0) (read_word (write_word m tlp 0) (tbc_tlp tbc) + 4) 0 else m)"

text \<open>The result, \<^verbatim>\<open>*ptr\<close> and the memory.\<close>

definition tbc_decode :: "WORD \<Rightarrow> WORD \<Rightarrow> WORD \<Rightarrow> memory \<Rightarrow> (int \<times> WORD \<times> memory) option" where
  "tbc_decode data len ptr m =
     (let tbc = (if ptr \<noteq> 0 then ptr else data);
          in_place = (ptr = 0)
      in do {
        (ret, data, len, endian) \<leftarrow> load_uint m data len ''endU'';
        (if ret < 0 then Some (ret, ptr, m) else let m = write_word m (tbc_endian tbc) endian in do {
        (ret, data, len, ws) \<leftarrow> load_uint m data len ''ws U'';
        (if ret < 0 then Some (ret, ptr, m) else let m = write_word m (tbc_ws tbc) ws in do {
        (ret, data, len, vs) \<leftarrow> load_uint m data len ''vs U'';
        (if ret < 0 then Some (ret, ptr, m) else let m = write_word m (tbc_vs tbc) vs in do {
        (ret, len, element) \<leftarrow> tenc_walk_to_element m data len ''bc B'' no_element;
        (if ret < 0 then Some (ret, ptr, m)
         else
           let m = write_word m (tbc_bytecode_len tbc) (el_length element);
               m = write_word m (tbc_bytecode tbc) (el_data element);
               m = reset_optional in_place tbc m
           in do { m \<leftarrow> decode_optional in_place tbc (el_next element) len element m; Some (0, tbc, m) })
        }) }) })
      })"

end
