(* ===== verification/Tvm_Tencode_Laws.thy ===== *)
theory Tvm_Tencode_Laws
  imports Tvm_Tencode
begin

text \<open>
  The decoder of \<^verbatim>\<open>tencode.c\<close> against the format it decodes, as the text \<^verbatim>\<open>TEncode\<close>
  beside it defines it: an encoder written from that definition, and what decoding gives on what
  it encodes.
\<close>

section \<open>The format\<close>

datatype item = Number string WORD | Bytes string "BYTE list"

fun item_name :: "item \<Rightarrow> string" where
  "item_name (Number name v) = name"
| "item_name (Bytes name bytes) = name"

definition enc_int :: "WORD \<Rightarrow> BYTE list" where
  "enc_int v = [byte_of v 3, byte_of v 2, byte_of v 1, byte_of v 0]"

definition padding :: "nat \<Rightarrow> nat" where
  "padding n = (if n mod 4 = 0 then 0 else 4 - n mod 4)"

fun enc_item :: "item \<Rightarrow> BYTE list" where
  "enc_item (Number name v) = map byte name @ enc_int v"
| "enc_item (Bytes name bytes) =
     map byte name @ enc_int (word_of_nat (length bytes)) @ bytes @ replicate (padding (length bytes)) 0"

definition enc_items :: "item list \<Rightarrow> BYTE list" where
  "enc_items its = concat (map enc_item its)"

text \<open>The last letter of a name tells an integer from data.\<close>

fun valid_item :: "item \<Rightarrow> bool" where
  "valid_item (Number name v) \<longleftrightarrow> length name = 4 \<and> name ! 3 \<in> {CHR ''I'', CHR ''U''}"
| "valid_item (Bytes name bytes) \<longleftrightarrow>
     length name = 4 \<and> name ! 3 \<notin> {CHR ''I'', CHR ''U''} \<and> length bytes < 2147483648"

definition stored :: "memory \<Rightarrow> WORD \<Rightarrow> BYTE list \<Rightarrow> bool" where
  "stored m p bs \<longleftrightarrow> (\<forall>i < length bs. m (p + word_of_nat i) = bs ! i)"

lemma stored_append: "stored m p (a @ b) \<longleftrightarrow> stored m p a \<and> stored m (p + word_of_nat (length a)) b"
proof (intro iffI conjI)
  assume s: "stored m p (a @ b)"
  show "stored m p a" using s by (auto simp: stored_def nth_append)
  show "stored m (p + word_of_nat (length a)) b"
    unfolding stored_def
  proof (intro allI impI)
    fix i assume "i < length b"
    with s have "m (p + word_of_nat (length a + i)) = (a @ b) ! (length a + i)"
      unfolding stored_def by (metis length_append nat_add_left_cancel_less)
    then show "m (p + word_of_nat (length a) + word_of_nat i) = b ! i" by (simp add: add.assoc)
  qed
next
  assume s: "stored m p a \<and> stored m (p + word_of_nat (length a)) b"
  show "stored m p (a @ b)"
    unfolding stored_def
  proof (intro allI impI)
    fix i assume i: "i < length (a @ b)"
    show "m (p + word_of_nat i) = (a @ b) ! i"
    proof (cases "i < length a")
      case False
      then have addr: "p + word_of_nat i = p + word_of_nat (length a) + word_of_nat (i - length a)"
        by (simp add: of_nat_diff)
      have "m (p + word_of_nat (length a) + word_of_nat (i - length a)) = b ! (i - length a)"
        using s i False unfolding stored_def by (auto simp del: of_nat_diff)
      then show ?thesis using False unfolding addr by (simp add: nth_append)
    qed (use s in \<open>simp add: stored_def nth_append\<close>)
  qed
qed

lemma byte_inj: "byte c = byte d \<longleftrightarrow> c = d"
proof -
  have "unat (byte c) = of_char c" for c
    using unat_of_nat [where 'a = 8, of "of_char c"] nat_of_char_less_256 [of c] by (simp add: byte_def)
  then show ?thesis by (metis of_char_eq_iff)
qed

lemma length_enc_int [simp]: "length (enc_int v) = 4"
  by (simp add: enc_int_def)

lemma length_enc_item: "valid_item it \<Longrightarrow> 8 \<le> length (enc_item it)"
  by (cases it) auto

lemma byte_of_read_word: "j < 4 \<Longrightarrow> byte_of (read_word m p) j = m (p + word_of_nat j)"
  unfolding byte_of_def read_word_def
  by (erule lane_cases) (simp_all only: byte_of_word mult_0_right drop_bit_0 id_apply of_nat_0 add_0_right
      mult_1_right mult.right_neutral of_nat_1 of_nat_numeral, simp_all add: byte_of_word del: drop_bit_or)

lemma decode_int: "stored m p (enc_int v) \<Longrightarrow> tenc_decode_int m p = v"
proof -
  assume s: "stored m p (enc_int v)"
  have "byte_of (SwapFourBytes (read_word m p)) j = byte_of v j" if "j < 4" for j
  proof -
    have "byte_of (SwapFourBytes (read_word m p)) j = m (p + word_of_nat (3 - j))"
      using that by (simp add: byte_of_SwapFourBytes byte_of_read_word)
    also have "\<dots> = enc_int v ! (3 - j)" using s by (simp add: stored_def)
    also have "\<dots> = byte_of v j" using that by (elim lane_cases) (simp_all add: enc_int_def)
    finally show ?thesis .
  qed
  then show ?thesis unfolding tenc_decode_int_def by (rule word_eq_bytes)
qed

section \<open>One element\<close>

fun element_of :: "item \<Rightarrow> WORD \<Rightarrow> tenc_element" where
  "element_of (Number name v) p = \<lparr>el_id = map byte name, el_length = 0, el_data = v, el_next = p + 8\<rparr>"
| "element_of (Bytes name bytes) p =
     \<lparr>el_id = map byte name, el_length = word_of_nat (length bytes), el_data = p + 8,
      el_next = p + word_of_nat (length (enc_item (Bytes name bytes)))\<rparr>"

lemma el_next_element_of: "valid_item it \<Longrightarrow> el_next (element_of it p) = p + word_of_nat (length (enc_item it))"
  by (cases it) simp_all

lemma length_4_list: "length xs = 4 \<Longrightarrow> xs = [xs ! 0, xs ! 1, xs ! 2, xs ! 3]"
  by (auto simp: length_Suc_conv eval_nat_numeral)

lemma stored_name:
  assumes "stored m p (map byte name)" "length name = 4"
  shows "[m p, m (p + 1), m (p + 2), m (p + 3)] = map byte name"
proof -
  have "m (p + word_of_nat i) = byte (name ! i)" if "i < 4" for i
    using assms that by (simp add: stored_def)
  from this [of 0] this [of 1] this [of 2] this [of 3] show ?thesis
    by (subst length_4_list [OF assms(2)]) simp
qed

lemma word_and_3: "n < 4294967296 \<Longrightarrow> unat (word_of_nat n AND 3 :: WORD) = n mod 4"
proof -
  assume n: "n < 4294967296"
  have "(word_of_nat n :: WORD) AND 3 = word_of_nat n mod 4"
    using take_bit_eq_mask [of 2 "word_of_nat n :: WORD"] take_bit_eq_mod [of 2 "word_of_nat n :: WORD"]
    by (simp add: mask_eq_exp_minus_1)
  with n show ?thesis by (simp add: unat_mod_distrib unat_of_nat)
qed

lemma padded_length:
  assumes "n < 2147483648"
  shows "(if (word_of_nat n :: WORD) AND 3 \<noteq> 0 then word_of_nat n + (4 - (word_of_nat n AND 3)) else word_of_nat n) =
    (word_of_nat (n + padding n) :: WORD)"
proof -
  let ?w = "word_of_nat n AND 3 :: WORD"
  have w: "unat ?w = n mod 4" using assms by (intro word_and_3) simp
  then have "?w = word_of_nat (n mod 4)" by (simp flip: w)
  moreover have "(4 :: WORD) - word_of_nat (n mod 4) = word_of_nat (4 - n mod 4)" by (simp add: of_nat_diff)
  moreover have "?w = 0 \<longleftrightarrow> n mod 4 = 0" using w by (metis unat_eq_zero)
  ultimately show ?thesis by (simp add: padding_def)
qed

text \<open>Decoding one element of a file gives its name, its number, or the address and the length of
  its data; the next element begins after the padding, and the length counts down by as much as the
  element takes.\<close>

lemma decode_element_correct:
  assumes "stored m p (enc_item it)" "valid_item it" "length (enc_item it) \<le> unat len"
  shows "tenc_decode_element m p len el = (0, len - word_of_nat (length (enc_item it)), element_of it p)"
proof (cases it)
  case (Number name v)
  then have s: "stored m p (map byte name)" "stored m (p + 4) (enc_int v)" "length name = 4"
    "name ! 3 \<in> {CHR ''I'', CHR ''U''}"
    using assms by (auto simp: stored_append)
  moreover have "\<not> len < 8" using assms(3) s(3) Number by (simp add: word_less_nat_alt)
  ultimately show ?thesis
    using stored_name [OF s(1,3)] decode_int [OF s(2)]
    by (auto simp: tenc_decode_element_def Number Let_def)
next
  case (Bytes name bytes)
  let ?n = "length bytes"
  have s: "stored m p (map byte name)" "stored m (p + 4) (enc_int (word_of_nat ?n))" "length name = 4"
    "name ! 3 \<notin> {CHR ''I'', CHR ''U''}" "?n < 2147483648"
    using assms Bytes by (auto simp: stored_append)
  have room: "8 + ?n + padding ?n \<le> unat len" using assms(3) Bytes s(3) by simp
  then have len: "\<not> len < 8" "unat (len - 8) = unat len - 8"
    by (simp_all add: word_less_nat_alt unat_sub word_le_nat_alt)
  then have "\<not> len - 8 < word_of_nat ?n"
    using room s(5) by (simp add: word_less_nat_alt unat_of_nat)
  moreover have "map byte name ! 3 \<noteq> byte CHR ''I''" "map byte name ! 3 \<noteq> byte CHR ''U''"
    using s(3,4) by (simp_all add: byte_inj)
  ultimately show ?thesis
    using stored_name [OF s(1,3)] decode_int [OF s(2)] len(1) padded_length [OF s(5)] s(3)
    by (simp add: tenc_decode_element_def Bytes Let_def algebra_simps)
qed

section \<open>Finding an element\<close>

lemma enc_items_simps [simp]:
  "enc_items [] = []" "enc_items (it # its) = enc_item it @ enc_items its"
  "enc_items (as @ bs) = enc_items as @ enc_items bs"
  by (simp_all add: enc_items_def)

lemma ids_match_iff:
  assumes "valid_item it" "length name = 4"
  shows "ids_match (el_id (element_of it p)) name \<longleftrightarrow> item_name it = name"
proof -
  have l: "length (item_name it) = 4" and i: "el_id (element_of it p) = map byte (item_name it)"
    using assms(1) by (cases it; simp)+
  have "item_name it = name \<longleftrightarrow> (\<forall>j < 4. item_name it ! j = name ! j)"
    using l assms(2) by (simp add: list_eq_iff_nth_eq)
  also have "\<dots> \<longleftrightarrow> ids_match (el_id (element_of it p)) name"
    using l by (auto simp: ids_match_def i byte_inj numeral_eq_Suc All_less_Suc)
  finally show ?thesis by simp
qed

lemma walk_first:
  assumes "stored m p (enc_items its)" "\<forall>it \<in> set its. valid_item it" "length name = 4"
    and "length (enc_items its) < 4294967296"
  shows "case dropWhile (\<lambda>it. item_name it \<noteq> name) its of
      [] \<Rightarrow> \<exists>el'. tenc_walk_to_element m p (word_of_nat (length (enc_items its))) name el = Some (-1, 0, el')
    | it # rest \<Rightarrow> tenc_walk_to_element m p (word_of_nat (length (enc_items its))) name el =
        Some (0, word_of_nat (length (enc_items rest)),
          element_of it (p + word_of_nat (length (enc_items (takeWhile (\<lambda>it. item_name it \<noteq> name) its)))))"
  using assms(1,2,4)
proof (induction its arbitrary: p el)
  case Nil
  show ?case by (subst tenc_walk_to_element.simps) simp
next
  case (Cons it its)
  let ?len = "word_of_nat (length (enc_items (it # its))) :: WORD"
  have it: "stored m p (enc_item it)" "valid_item it" "stored m (p + word_of_nat (length (enc_item it))) (enc_items its)"
    using Cons.prems by (simp_all add: stored_append)
  have len: "unat ?len = length (enc_item it) + length (enc_items its)"
    using Cons.prems(3) by (simp add: unat_of_nat del: of_nat_add)
  then have "?len \<noteq> 0" using length_enc_item [OF it(2)] by (metis add_is_0 not_numeral_le_zero unat_0)
  then have pos: "0 < ?len" by (simp add: word_gt_0)
  have dec: "tenc_decode_element m p ?len el = (0, word_of_nat (length (enc_items its)), element_of it p)"
    using decode_element_correct [OF it(1,2), of ?len el] len by simp
  show ?case
  proof (cases "item_name it = name")
    case True
    then show ?thesis
      by (subst tenc_walk_to_element.simps) (simp add: pos dec ids_match_iff [OF it(2) assms(3)] del: enc_items_simps(2))
  next
    case False
    then have "tenc_walk_to_element m p ?len name el =
        tenc_walk_to_element m (p + word_of_nat (length (enc_item it))) (word_of_nat (length (enc_items its))) name (element_of it p)"
      by (subst tenc_walk_to_element.simps)
        (simp add: pos dec ids_match_iff [OF it(2) assms(3)] el_next_element_of [OF it(2)] del: enc_items_simps(2))
    with Cons.IH [OF it(3), of "element_of it p"] Cons.prems False show ?thesis
      by (cases "dropWhile (\<lambda>it. item_name it \<noteq> name) its")
        (simp_all add: add.assoc del: dropWhile_eq_Nil_conv dropWhile_eq_Cons_conv)
  qed
qed

text \<open>Looking for an element in a sequence of them ends, and gives the first with the name, what
  follows it as the data and length to go on with; when there is none the result is negative.\<close>

lemma walk_finds_first:
  assumes "stored m p (enc_items its)" "\<forall>it \<in> set its. valid_item it" "length name = 4"
    and "length (enc_items its) < 4294967296"
  shows "case dropWhile (\<lambda>it. item_name it \<noteq> name) its of
      [] \<Rightarrow> \<exists>el'. tenc_walk_to_element m p (word_of_nat (length (enc_items its))) name el = Some (-1, 0, el')
    | it # rest \<Rightarrow> tenc_walk_to_element m p (word_of_nat (length (enc_items its))) name el =
        Some (0, word_of_nat (length (enc_items rest)),
          element_of it (p + word_of_nat (length (enc_items (takeWhile (\<lambda>it. item_name it \<noteq> name) its)))))"
  using assms by (rule walk_first)

section \<open>A bytecode file\<close>

lemma load_uint_front:
  assumes "stored m p (enc_items (Number name v # its))" "\<forall>it \<in> set (Number name v # its). valid_item it"
    and "length (enc_items (Number name v # its)) < 4294967296"
  shows "load_uint m p (word_of_nat (length (enc_items (Number name v # its)))) name =
    Some (0, p + 8, word_of_nat (length (enc_items its)), v)"
  using walk_first [OF assms(1,2) _ assms(3), of name no_element] assms(2)
  by (simp add: load_uint_def del: enc_items_simps(2))

lemma four_le_word_of_nat: "4 \<le> k \<Longrightarrow> k < 4294967296 \<Longrightarrow> (4 :: WORD) \<le> word_of_nat k"
  by (simp add: word_le_nat_alt unat_of_nat)

lemma stored_write_before:
  assumes "b + 4 \<le> a" "a + length bs \<le> 4294967296" "stored m (p + word_of_nat a) bs"
  shows "stored (write_word m (p + word_of_nat b) v) (p + word_of_nat a) bs"
  unfolding stored_def
proof (intro allI impI)
  fix i assume i: "i < length bs"
  have far: "p + word_of_nat a + word_of_nat i - (p + word_of_nat b) = word_of_nat (a - b + i)"
    using assms(1) by (simp add: of_nat_diff)
  have "(4 :: WORD) \<le> p + word_of_nat a + word_of_nat i - (p + word_of_nat b)"
    unfolding far using assms(1,2) i by (intro four_le_word_of_nat) simp_all
  then show "write_word m (p + word_of_nat b) v (p + word_of_nat a + word_of_nat i) = bs ! i"
    using assms(3) i by (simp only: write_word_outside stored_def)
qed

lemma stored_Number:
  "stored m p (enc_items (Number name v # its)) \<Longrightarrow> length name = 4 \<Longrightarrow> stored m (p + 8) (enc_items its)"
  by (simp add: stored_append add.assoc)

lemma stored_Bytes:
  "stored m p (enc_item (Bytes name bytes)) \<Longrightarrow> length name = 4 \<Longrightarrow> stored m (p + 8) bytes"
  by (simp add: stored_append add.assoc)

lemma decode_optional_skips:
  assumes "stored m p (enc_items its)" "\<forall>it \<in> set its. valid_item it" "length (enc_items its) < 4294967296"
    and "\<forall>it \<in> set its. item_name it \<notin> {''tlpL'', ''ffiL'', ''stbL'', ''dbgL''}"
  shows "decode_optional in_place tbc p (word_of_nat (length (enc_items its))) el m = Some m"
  using assms
proof (induction its arbitrary: p el)
  case Nil
  show ?case by (subst decode_optional.simps) simp
next
  case (Cons it its)
  let ?len = "word_of_nat (length (enc_items (it # its))) :: WORD"
  have it: "stored m p (enc_item it)" "valid_item it" "stored m (p + word_of_nat (length (enc_item it))) (enc_items its)"
    using Cons.prems by (simp_all add: stored_append)
  have len: "unat ?len = length (enc_item it) + length (enc_items its)"
    using Cons.prems(3) by (simp add: unat_of_nat del: of_nat_add)
  then have "?len \<noteq> 0" using length_enc_item [OF it(2)] by (metis add_is_0 not_numeral_le_zero unat_0)
  then have pos: "0 < ?len" by (simp add: word_gt_0)
  have dec: "tenc_decode_element m p ?len el = (0, word_of_nat (length (enc_items its)), element_of it p)"
    using decode_element_correct [OF it(1,2), of ?len el] len by simp
  have "decode_optional in_place tbc p ?len el m =
      decode_optional in_place tbc (p + word_of_nat (length (enc_item it))) (word_of_nat (length (enc_items its))) (element_of it p) m"
    using Cons.prems(4)
    by (subst decode_optional.simps)
      (simp add: pos dec ids_match_iff [OF it(2)] el_next_element_of [OF it(2)] del: enc_items_simps(2))
  then show ?case using Cons.IH [OF it(3)] Cons.prems by simp
qed

text \<open>Decoding a bytecode file in place. The words of the decoded structure, written over the
  start of the file, hold the byte order, the sizes of workspace and vectorspace, the length of the
  bytecode and its address; the bytecode and all that follows it are still there, and parts the file
  does not have are null. The padding before the bytecode makes this safe.\<close>

lemma tbc_decode_in_place:
  assumes "file = Number ''endU'' e # Number ''ws U'' w # Number ''vs U'' v # pads @ Bytes ''bc B'' code # rest"
    and "stored m p (enc_items file)" "\<forall>it \<in> set file. valid_item it" "length (enc_items file) < 4294967296"
    and "\<forall>it \<in> set pads. item_name it \<noteq> ''bc B''" "12 \<le> length (enc_items pads)"
    and "\<forall>it \<in> set rest. item_name it \<notin> {''tlpL'', ''ffiL'', ''stbL'', ''dbgL''}" "p \<noteq> 0"
  shows "\<exists>m'. tbc_decode p (word_of_nat (length (enc_items file))) 0 m = Some (0, p, m') \<and>
    read_word m' (tbc_endian p) = e \<and> read_word m' (tbc_ws p) = w \<and> read_word m' (tbc_vs p) = v \<and>
    read_word m' (tbc_bytecode_len p) = word_of_nat (length code) \<and> stored m' (read_word m' (tbc_bytecode p)) code \<and>
    read_word m' (tbc_tlp p) = 0 \<and> read_word m' (tbc_ffi p) = 0 \<and> read_word m' (tbc_symbols p) = 0 \<and>
    read_word m' (tbc_debug p) = 0"
proof -
  let ?body = "pads @ Bytes ''bc B'' code # rest"
  let ?a = "24 + length (enc_items pads)"
  let ?bc = "p + word_of_nat ?a"
  define m1 where "m1 = write_word m p e"
  define m2 where "m2 = write_word m1 (p + 4) w"
  define m3 where "m3 = write_word m2 (p + 8) v"
  define m4 where "m4 = write_word (write_word m3 (p + 12) (word_of_nat (length code))) (p + 16) (?bc + 8)"
  define m5 where "m5 = reset_optional True p m4"
  let ?its2 = "Number ''vs U'' v # ?body"
  let ?its1 = "Number ''ws U'' w # ?its2"
  have total: "length (enc_items ?body) + 24 < 4294967296"
    "length (enc_items ?its2) + 16 < 4294967296" "length (enc_items ?its1) + 8 < 4294967296"
    using assms(4) unfolding assms(1) by simp_all
  have valid: "\<forall>it \<in> set ?its1. valid_item it" "\<forall>it \<in> set ?its2. valid_item it" "\<forall>it \<in> set ?body. valid_item it"
    using assms(3) unfolding assms(1) by simp_all
  have st: "stored m (p + 8) (enc_items ?its1)" "stored m (p + 16) (enc_items ?its2)" "stored m (p + 24) (enc_items ?body)"
  proof -
    show 1: "stored m (p + 8) (enc_items ?its1)"
      using assms(2) unfolding assms(1) by (rule stored_Number) simp
    from stored_Number [OF this] show 2: "stored m (p + 16) (enc_items ?its2)" by (simp add: add.assoc del: enc_items_simps)
    from stored_Number [OF this] show "stored m (p + 24) (enc_items ?body)" by (simp add: add.assoc del: enc_items_simps)
  qed
  have st1: "stored m1 (p + 8) (enc_items ?its1)" "stored m1 (p + 16) (enc_items ?its2)" "stored m1 (p + 24) (enc_items ?body)"
    using stored_write_before [of 0 8 "enc_items ?its1" m p e] stored_write_before [of 0 16 "enc_items ?its2" m p e]
      stored_write_before [of 0 24 "enc_items ?body" m p e] st total
    unfolding m1_def by (simp_all del: enc_items_simps)
  have st2: "stored m2 (p + 16) (enc_items ?its2)" "stored m2 (p + 24) (enc_items ?body)"
    using stored_write_before [of 4 16 "enc_items ?its2" m1 p w] stored_write_before [of 4 24 "enc_items ?body" m1 p w]
      st1 total unfolding m2_def by (simp_all del: enc_items_simps)
  have st3: "stored m3 (p + 24) (enc_items ?body)"
    using stored_write_before [of 8 24 "enc_items ?body" m2 p v] st2 total unfolding m3_def by (simp del: enc_items_simps)
  have l1: "load_uint m p (word_of_nat (length (enc_items file))) ''endU'' = Some (0, p + 8, word_of_nat (length (enc_items ?its1)), e)"
    using load_uint_front [of m p "''endU''" e ?its1] assms(2-4) unfolding assms(1) by blast
  have l2: "load_uint m1 (p + 8) (word_of_nat (length (enc_items ?its1))) ''ws U'' = Some (0, p + 16, word_of_nat (length (enc_items ?its2)), w)"
    using load_uint_front [OF st1(1) valid(1)] total(3) by (simp add: add.assoc del: enc_items_simps)
  have l3: "load_uint m2 (p + 16) (word_of_nat (length (enc_items ?its2))) ''vs U'' = Some (0, p + 24, word_of_nat (length (enc_items ?body)), v)"
    using load_uint_front [OF st2(1) valid(2)] total(2) by (simp add: add.assoc del: enc_items_simps)
  have pads: "dropWhile (\<lambda>it. item_name it \<noteq> ''bc B'') ?body = Bytes ''bc B'' code # rest"
    "takeWhile (\<lambda>it. item_name it \<noteq> ''bc B'') ?body = pads"
    using assms(5) by (simp_all add: dropWhile_append2 takeWhile_append2)
  let ?item = "Bytes ''bc B'' code"
  let ?n = "word_of_nat (length (enc_items rest)) :: WORD"
  define bc where "bc = ?bc"
  have walk: "tenc_walk_to_element m3 (p + 24) (word_of_nat (length (enc_items ?body))) ''bc B'' no_element =
      Some (0, ?n, element_of ?item bc)"
    using walk_first [OF st3 valid(3), of "''bc B''" no_element] total(1)
    unfolding pads by (simp add: bc_def add.assoc del: enc_items_simps element_of.simps)
  have m4: "write_word (write_word m3 (p + 12) (el_length (element_of ?item bc))) (p + 16) (el_data (element_of ?item bc)) = m4"
    by (simp add: m4_def bc_def)
  let ?r = "24 + length (enc_items pads) + length (enc_item ?item)"
  have code: "stored m3 (p + word_of_nat (?a + 8)) code" "stored m3 (p + word_of_nat ?r) (enc_items rest)"
  proof -
    have "stored m3 ?bc (enc_item ?item)" and r: "stored m3 (?bc + word_of_nat (length (enc_item ?item))) (enc_items rest)"
      using st3 by (simp_all add: stored_append add.assoc del: enc_item.simps)
    then show "stored m3 (p + word_of_nat (?a + 8)) code"
      using stored_Bytes [of m3 ?bc "''bc B''" code] by (simp add: algebra_simps del: enc_item.simps)
    show "stored m3 (p + word_of_nat ?r) (enc_items rest)"
      using r by (simp add: algebra_simps del: enc_item.simps)
  qed
  have keep: "stored m5 (p + word_of_nat k) bs" if "stored m3 (p + word_of_nat k) bs" "36 \<le> k" "k + length bs \<le> 4294967296" for k bs
    using that unfolding m5_def reset_optional_def m4_def
    by (simp add: stored_write_before [where b = 12, simplified] stored_write_before [where b = 16, simplified]
        stored_write_before [where b = 20, simplified] stored_write_before [where b = 24, simplified]
        stored_write_before [where b = 28, simplified] stored_write_before [where b = 32, simplified])
  have bounds: "?r + length (enc_items rest) < 4294967296" "?a + 8 + length code < 4294967296"
    using total(1) by simp_all
  have "decode_optional True p (el_next (element_of ?item bc)) ?n (element_of ?item bc) m5 = Some m5"
    using decode_optional_skips [of m5 "p + word_of_nat ?r" rest True p "element_of ?item bc"] keep [OF code(2)] bounds(1)
      assms(6,7) valid(3) by (simp add: bc_def add.assoc)
  then have "tbc_decode p (word_of_nat (length (enc_items file))) 0 m = Some (0, p, m5)"
    by (simp add: tbc_decode_def l1 l2 l3 walk m4 m1_def [symmetric] m2_def [symmetric] m3_def [symmetric] m5_def [symmetric]
        del: enc_items_simps element_of.simps)
  moreover have "stored m5 (?bc + 8) code"
    using keep [OF code(1)] bounds(2) assms(6) by (simp add: add.assoc)
  moreover have "read_word m5 (p + 16) = ?bc + 8"
    by (simp add: m5_def reset_optional_def m4_def read_write_word_other apart_def)
  moreover have "read_word m5 p = e" "read_word m5 (p + 4) = w" "read_word m5 (p + 8) = v"
    "read_word m5 (p + 12) = word_of_nat (length code)" "read_word m5 (p + 20) = 0" "read_word m5 (p + 24) = 0"
    "read_word m5 (p + 28) = 0" "read_word m5 (p + 32) = 0"
    by (simp_all add: m5_def reset_optional_def m4_def m3_def m2_def m1_def read_write_word_other apart_def)
  ultimately show ?thesis by auto
qed

section \<open>Where the decoder departs from the format\<close>

text \<open>The length is checked against the data of an element but counts down by the padded size: data
  that ends a file without its padding leaves a length near \<open>2 ^ 32\<close>.\<close>

lemma decode_element_underflow:
  assumes "stored m p (map byte name @ enc_int (word_of_nat n))" "length name = 4"
    and "name ! 3 \<notin> {CHR ''I'', CHR ''U''}" "n < 2147483648" "n mod 4 \<noteq> 0"
  shows "\<exists>el'. tenc_decode_element m p (word_of_nat (8 + n)) el = (0, - word_of_nat (padding n), el')"
proof -
  have s: "stored m p (map byte name)" "stored m (p + 4) (enc_int (word_of_nat n))"
    using assms(1,2) by (simp_all add: stored_append)
  have len: "\<not> (word_of_nat (8 + n) :: WORD) < 8" "(word_of_nat (8 + n) :: WORD) - 8 = word_of_nat n"
    using assms(4) by (simp_all add: word_less_nat_alt unat_of_nat del: of_nat_add) simp
  have "map byte name ! 3 \<noteq> byte CHR ''I''" "map byte name ! 3 \<noteq> byte CHR ''U''"
    using assms(2,3) by (simp_all add: byte_inj)
  then show ?thesis
    using stored_name [OF s(1) assms(2)] decode_int [OF s(2)] len padded_length [OF assms(4)]
    by (simp add: tenc_decode_element_def Let_def del: of_nat_add) simp
qed

lemma find_file_negative:
  fixes len file_off :: WORD
  assumes "find_file m data len file_off str = Some r"
  shows "fst r < 0"
proof (rule find_file.raw_induct [OF _ assms, where P = "\<lambda>m data len file_off str r. fst r < 0"])
  fix find_file :: "memory \<Rightarrow> WORD \<Rightarrow> WORD \<Rightarrow> WORD \<Rightarrow> WORD \<Rightarrow> (int \<times> WORD) option"
  fix m and data len file_off str :: WORD and r
  assume IH: "\<And>m data len file_off str r. find_file m data len file_off str = Some r \<Longrightarrow> fst r < 0"
    and "(if file_off \<ge> 0 then do {
        (ret, data, len, str') \<leftarrow> load_str m data len ''fn S'';
        (if ret < 0 then Some (ret, str) else find_file m data len (file_off - 1) str')
      } else Some (0, str)) = Some r"
  then show "fst r < 0"
    by (auto simp: bind_eq_Some_conv split: if_splits dest: IH)
qed

text \<open>Looking up the source line of an instruction never succeeds: the result is negative
  whenever the function returns, because the loop that counts down to the name of the file compares
  an unsigned number with zero.\<close>

lemma debug_lookup_never_succeeds:
  "case tbc_debug_file_and_line m undef data len offset of
     None \<Rightarrow> True | Some (ret, file, line) \<Rightarrow> ret < 0 \<and> file = 0 \<and> line = 0"
proof -
  have "fst r < 0 \<and> snd r = (0, 0)" if "tbc_debug_file_and_line m undef data len offset = Some r" for r
    using that unfolding tbc_debug_file_and_line_def case_prod_beta Let_def
    by (auto simp: bind_eq_Some_conv split: if_splits dest: find_file_negative)
  then show ?thesis by (auto split: option.splits)
qed

section \<open>Examples\<close>

definition memory_of :: "WORD \<Rightarrow> BYTE list \<Rightarrow> memory" where
  "memory_of p bs x = (if unat (x - p) < length bs then bs ! unat (x - p) else 0)"

lemma stored_memory_of: "length bs < 4294967296 \<Longrightarrow> stored (memory_of p bs) p bs"
  by (simp add: stored_def memory_of_def unat_of_nat)

definition file_example :: "item list" where
  "file_example = [Number ''endU'' 0, Number ''ws U'' 16, Number ''vs U'' 32, Bytes ''padB'' [0, 0, 0, 0],
     Bytes ''bc B'' [0x2F, 0xFE]]"

lemma file_example_valid: "\<forall>it \<in> set file_example. valid_item it" "length (enc_items file_example) = 48"
  by (simp_all add: file_example_def padding_def)

theorem decode_element_correct_witness:
  "tenc_decode_element (memory_of 4096 (enc_item (Number ''ws U'' 16))) 4096 8 no_element =
     (0, 0, \<lparr>el_id = map byte ''ws U'', el_length = 0, el_data = 16, el_next = 4104\<rparr>)"
  using decode_element_correct [OF stored_memory_of, of "Number ''ws U'' 16" 8 4096 no_element] by simp

lemma walk_finds_first_witness:
  "tenc_walk_to_element (memory_of 4096 (enc_items file_example)) 4096 48 ''vs U'' no_element =
     Some (0, 24, \<lparr>el_id = map byte ''vs U'', el_length = 0, el_data = 32, el_next = 4120\<rparr>)"
  using walk_finds_first [OF stored_memory_of [of _ 4096] file_example_valid(1), of "''vs U''" no_element]
  by (simp add: file_example_valid(2)) (simp add: file_example_def padding_def)

lemma tbc_decode_in_place_witness:
  "\<exists>m'. tbc_decode 4096 48 0 (memory_of 4096 (enc_items file_example)) = Some (0, 4096, m') \<and>
     read_word m' 4100 = 16 \<and> read_word m' 4104 = 32 \<and> read_word m' 4108 = 2 \<and>
     stored m' (read_word m' 4112) [0x2F, 0xFE]"
proof -
  have "file_example = Number ''endU'' 0 # Number ''ws U'' 16 # Number ''vs U'' 32 # [Bytes ''padB'' [0, 0, 0, 0]] @
      Bytes ''bc B'' [0x2F, 0xFE] # []"
    by (simp add: file_example_def)
  from tbc_decode_in_place [OF this stored_memory_of [of _ 4096] file_example_valid(1)]
  show ?thesis by (auto simp: file_example_valid(2) padding_def)
qed

end
