(* ===== verification/Tvm_Ieee.thy ===== *)
theory Tvm_Ieee
  imports Complex_Main Tvm_Prelude
begin

text \<open>
  The C types \<^verbatim>\<open>float\<close> and \<^verbatim>\<open>double\<close> of a machine with IEEE 754 arithmetic, as far
  as \<^verbatim>\<open>ins_float.c\<close> uses them: the values, their bit patterns, rounding, the four
  operations, square root, remainder, \<^verbatim>\<open>rint\<close>, comparison and conversion. Everything is
  computed exactly on integers and rounded once, so the definitions can be evaluated; the
  theorems say that rounding gives a nearest value of the format.
\<close>

section \<open>Rounding a fraction to an integer\<close>

datatype round_mode = FE_TONEAREST | FE_TOWARDZERO

definition round_half_even :: "int \<Rightarrow> int \<Rightarrow> int" where
  "round_half_even n d =
     (let q = n div d; r = n mod d in if 2 * r < d \<or> 2 * r = d \<and> even q then q else q + 1)"

definition round_div :: "round_mode \<Rightarrow> int \<Rightarrow> int \<Rightarrow> int" where
  "round_div mode n d = (case mode of FE_TONEAREST \<Rightarrow> round_half_even n d | FE_TOWARDZERO \<Rightarrow> n div d)"

lemma round_half_even_cases:
  assumes "0 < d"
  shows "round_half_even n d = n div d \<and> 2 * (n mod d) \<le> d \<or> round_half_even n d = n div d + 1 \<and> d \<le> 2 * (n mod d)"
  by (auto simp: round_half_even_def Let_def)

lemma nearest_multiple:
  fixes p r d x y :: int
  assumes "0 \<le> r" "r < d" "x = p \<and> 2 * r \<le> d \<or> x = p + d \<and> d \<le> 2 * r" "y \<le> p \<or> p + d \<le> y"
  shows "\<bar>x - (p + r)\<bar> \<le> \<bar>y - (p + r)\<bar>"
  using assms by linarith

lemma round_half_even_nearest:
  assumes "0 < d"
  shows "\<bar>d * round_half_even n d - n\<bar> \<le> \<bar>d * k - n\<bar>"
proof -
  let ?p = "d * (n div d)" and ?r = "n mod d"
  consider "k \<le> n div d" | "n div d + 1 \<le> k" by linarith
  then have "d * k \<le> ?p \<or> ?p + d \<le> d * k"
  proof cases
    case 1
    then show ?thesis using assms by (simp add: mult_left_mono)
  next
    case 2
    then have "d * (n div d + 1) \<le> d * k" using assms by (intro mult_left_mono) simp_all
    then show ?thesis by (simp add: distrib_left)
  qed
  moreover have "d * round_half_even n d = ?p \<and> 2 * ?r \<le> d \<or> d * round_half_even n d = ?p + d \<and> d \<le> 2 * ?r"
    using round_half_even_cases [OF assms, of n] by (auto simp: distrib_left)
  ultimately have "\<bar>d * round_half_even n d - (?p + ?r)\<bar> \<le> \<bar>d * k - (?p + ?r)\<bar>"
    using assms by (intro nearest_multiple) simp_all
  then show ?thesis by simp
qed

lemma round_half_even_mult:
  assumes "0 < d" "0 < k"
  shows "round_half_even (k * n) (k * d) = round_half_even n d"
proof -
  have *: "k * n div (k * d) = n div d" "k * n mod (k * d) = k * (n mod d)"
    using assms(2) by simp_all
  have "2 * (k * x) < k * y \<longleftrightarrow> 2 * x < y" "2 * (k * x) = k * y \<longleftrightarrow> 2 * x = y" for x y
    using assms(2) by (simp_all add: mult.left_commute [of 2 k])
  then show ?thesis by (simp only: round_half_even_def Let_def *)
qed

lemma round_half_even_of_mult [simp]: "0 < d \<Longrightarrow> round_half_even (d * n) d = n"
  by (simp add: round_half_even_def)

lemma round_half_even_one [simp]: "round_half_even n 1 = n"
  by (simp add: round_half_even_def)

lemma round_half_even_nonneg: "0 < d \<Longrightarrow> 0 \<le> n \<Longrightarrow> 0 \<le> round_half_even n d"
  by (auto simp: round_half_even_def Let_def pos_imp_zdiv_nonneg_iff)

text \<open>Rounding lands between the bounds the fraction lies between, when these are integers.\<close>

lemma round_half_even_bounds:
  assumes "0 < d" "a * d \<le> n" "n \<le> b * d"
  shows "a \<le> round_half_even n d" "round_half_even n d \<le> b"
proof -
  have "a * d div d \<le> n div d" using assms by (intro zdiv_mono1) simp_all
  then show "a \<le> round_half_even n d"
    using round_half_even_cases [OF assms(1), of n] assms(1) by auto
  have "n div d \<le> b * d div d" using assms by (intro zdiv_mono1) simp_all
  then have b: "n div d \<le> b" using assms(1) by simp
  show "round_half_even n d \<le> b"
  proof (cases "n div d = b")
    case True
    then have "n mod d = n - b * d" by (metis minus_div_mult_eq_mod)
    then have "n mod d = 0" using assms pos_mod_sign [of d n] by linarith
    then show ?thesis using True assms(1) by (simp add: round_half_even_def)
  next
    case False
    then show ?thesis using round_half_even_cases [OF assms(1), of n] b by auto
  qed
qed

lemma round_div_bounds:
  assumes "0 < d" "a * d \<le> n" "n \<le> b * d"
  shows "a \<le> round_div mode n d" "round_div mode n d \<le> b"
  using round_half_even_bounds [OF assms] zdiv_mono1 [OF assms(2,1)] zdiv_mono1 [OF assms(3,1)] assms(1)
  by (simp_all add: round_div_def split: round_mode.split)

lemma round_half_even_lower:
  assumes "0 < d"
  shows "(2 * round_half_even n d - 1) * d \<le> 2 * n"
proof -
  have "2 * n = 2 * (n div d * d) + 2 * (n mod d)"
    by (metis distrib_left div_mult_mod_eq)
  moreover have "(2 * (q + 1) - 1) * d = 2 * (q * d) + d" "(2 * q - 1) * d = 2 * (q * d) - d" for q
    by (simp_all add: algebra_simps)
  moreover have "- d \<le> 2 * (n mod d)" using assms pos_mod_sign [OF assms, of n] by linarith
  ultimately show ?thesis
    using round_half_even_cases [OF assms, of n] by (elim disjE conjE) simp_all
qed

section \<open>Values and formats\<close>

text \<open>\<open>Fin s m e\<close> is \<open>m * 2 ^ e\<close>, negative when \<open>s\<close> holds.\<close>

datatype fp = NaN | Infinity bool | Fin bool nat int

record fp_format =
  prec :: nat
  exp_bits :: nat
  emin :: int

definition emax :: "fp_format \<Rightarrow> int" where
  "emax f = emin f + 2 ^ exp_bits f - 3"

definition single :: fp_format where
  "single = \<lparr>prec = 24, exp_bits = 8, emin = - 149\<rparr>"

definition double :: fp_format where
  "double = \<lparr>prec = 53, exp_bits = 11, emin = - 1074\<rparr>"

fun representable :: "fp_format \<Rightarrow> fp \<Rightarrow> bool" where
  "representable f (Fin s m e) \<longleftrightarrow> m < 2 ^ prec f \<and> emin f \<le> e \<and> e \<le> emax f \<and> (2 ^ (prec f - 1) \<le> m \<or> e = emin f)"
| "representable f v \<longleftrightarrow> True"

fun fp_value :: "fp \<Rightarrow> rat" where
  "fp_value (Fin s m e) = (if s then - 1 else 1) * of_nat m * 2 powi e"
| "fp_value v = 0"

fun finite_fp :: "fp \<Rightarrow> bool" where
  "finite_fp (Fin s m e) \<longleftrightarrow> True"
| "finite_fp v \<longleftrightarrow> False"

subsection \<open>Bit patterns\<close>

text \<open>The pattern is a number here; \<open>nan\<close> is the pattern the machine gives to a NaN, which C
  leaves open.\<close>

definition fp_of_bits :: "fp_format \<Rightarrow> nat \<Rightarrow> fp" where
  "fp_of_bits f bits =
     (let frac = bits mod 2 ^ (prec f - 1);
          ex = bits div 2 ^ (prec f - 1) mod 2 ^ exp_bits f;
          s = odd (bits div 2 ^ (prec f - 1 + exp_bits f))
      in if ex = 0 then Fin s frac (emin f)
         else if ex = 2 ^ exp_bits f - 1 then (if frac = 0 then Infinity s else NaN)
         else Fin s (2 ^ (prec f - 1) + frac) (emin f + int ex - 1))"

fun bits_of_fp :: "fp_format \<Rightarrow> nat \<Rightarrow> fp \<Rightarrow> nat" where
  "bits_of_fp f nan NaN = nan"
| "bits_of_fp f nan (Infinity s) =
     (if s then 2 ^ (prec f - 1 + exp_bits f) else 0) + (2 ^ exp_bits f - 1) * 2 ^ (prec f - 1)"
| "bits_of_fp f nan (Fin s m e) =
     (if s then 2 ^ (prec f - 1 + exp_bits f) else 0) +
     (if m < 2 ^ (prec f - 1) then m else nat (e - emin f) * 2 ^ (prec f - 1) + m)"

section \<open>Rounding to a format\<close>

fun bitlen :: "nat \<Rightarrow> nat" where
  "bitlen n = (if n = 0 then 0 else Suc (bitlen (n div 2)))"

declare bitlen.simps [simp del]

text \<open>
  The number \<open>n / d * 2 ^ e\<close>, for \<open>d\<close> not above \<open>n\<close>, has its last place at
  \<open>2 ^ q\<close> where \<open>q\<close> is \<open>fp_quantum\<close>; \<open>fp_significand\<close> is the number rounded to a
  multiple of that. Rounding up may carry to one place more than the format has.
\<close>

definition fp_quantum :: "fp_format \<Rightarrow> nat \<Rightarrow> nat \<Rightarrow> int \<Rightarrow> int" where
  "fp_quantum f n d e = max (emin f) (e + int (bitlen (n div d)) - int (prec f))"

definition fp_significand :: "round_mode \<Rightarrow> nat \<Rightarrow> nat \<Rightarrow> int \<Rightarrow> int \<Rightarrow> nat" where
  "fp_significand mode n d e q = nat (round_div mode (int n * 2 ^ nat (e - q)) (int d * 2 ^ nat (q - e)))"

definition fp_carry :: "fp_format \<Rightarrow> nat \<Rightarrow> int \<Rightarrow> nat \<times> int" where
  "fp_carry f m q = (if m = 2 ^ prec f then (2 ^ (prec f - 1), q + 1) else (m, q))"

definition fp_round :: "fp_format \<Rightarrow> round_mode \<Rightarrow> bool \<Rightarrow> nat \<Rightarrow> nat \<Rightarrow> int \<Rightarrow> fp" where
  "fp_round f mode s n d e =
     (if n = 0 then Fin s 0 (emin f)
      else
        let n = n * 2 ^ bitlen d;
            e = e - int (bitlen d);
            q = fp_quantum f n d e;
            (m, q) = fp_carry f (fp_significand mode n d e q) q
        in if emax f < q
           then (case mode of FE_TONEAREST \<Rightarrow> Infinity s | FE_TOWARDZERO \<Rightarrow> Fin s (2 ^ prec f - 1) (emax f))
           else Fin s m q)"

section \<open>Operations\<close>

text \<open>A finite value as an integer multiple of \<open>2 ^ e\<close>, for \<open>e\<close> not above its exponent.\<close>

definition scaled :: "bool \<Rightarrow> nat \<Rightarrow> int \<Rightarrow> int" where
  "scaled s m k = (if s then - 1 else 1) * int m * 2 ^ nat k"

fun fp_neg :: "fp \<Rightarrow> fp" where
  "fp_neg NaN = NaN"
| "fp_neg (Infinity s) = Infinity (\<not> s)"
| "fp_neg (Fin s m e) = Fin (\<not> s) m e"

fun fp_abs :: "fp \<Rightarrow> fp" where
  "fp_abs NaN = NaN"
| "fp_abs (Infinity s) = Infinity False"
| "fp_abs (Fin s m e) = Fin False m e"

fun fp_add :: "fp_format \<Rightarrow> round_mode \<Rightarrow> fp \<Rightarrow> fp \<Rightarrow> fp" where
  "fp_add f mode NaN b = NaN"
| "fp_add f mode a NaN = NaN"
| "fp_add f mode (Infinity s) (Infinity t) = (if s = t then Infinity s else NaN)"
| "fp_add f mode (Infinity s) b = Infinity s"
| "fp_add f mode a (Infinity t) = Infinity t"
| "fp_add f mode (Fin s m e) (Fin t n k) =
     (let b = min e k;
          x = scaled s m (e - b) + scaled t n (k - b)
      in if x = 0 then Fin (s \<and> t) 0 (emin f)
         else fp_round f mode (x < 0) (nat \<bar>x\<bar>) 1 b)"

definition fp_sub :: "fp_format \<Rightarrow> round_mode \<Rightarrow> fp \<Rightarrow> fp \<Rightarrow> fp" where
  "fp_sub f mode a b = fp_add f mode a (fp_neg b)"

fun fp_mul :: "fp_format \<Rightarrow> round_mode \<Rightarrow> fp \<Rightarrow> fp \<Rightarrow> fp" where
  "fp_mul f mode NaN b = NaN"
| "fp_mul f mode a NaN = NaN"
| "fp_mul f mode (Infinity s) (Infinity t) = Infinity (s \<noteq> t)"
| "fp_mul f mode (Infinity s) (Fin t n k) = (if n = 0 then NaN else Infinity (s \<noteq> t))"
| "fp_mul f mode (Fin s m e) (Infinity t) = (if m = 0 then NaN else Infinity (s \<noteq> t))"
| "fp_mul f mode (Fin s m e) (Fin t n k) = fp_round f mode (s \<noteq> t) (m * n) 1 (e + k)"

fun fp_div :: "fp_format \<Rightarrow> round_mode \<Rightarrow> fp \<Rightarrow> fp \<Rightarrow> fp" where
  "fp_div f mode NaN b = NaN"
| "fp_div f mode a NaN = NaN"
| "fp_div f mode (Infinity s) (Infinity t) = NaN"
| "fp_div f mode (Infinity s) (Fin t n k) = Infinity (s \<noteq> t)"
| "fp_div f mode (Fin s m e) (Infinity t) = Fin (s \<noteq> t) 0 (emin f)"
| "fp_div f mode (Fin s m e) (Fin t n k) =
     (if n = 0 then (if m = 0 then NaN else Infinity (s \<noteq> t))
      else fp_round f mode (s \<noteq> t) m n (e - k))"

text \<open>The root is taken with enough bits that one more, set when it is not exact, decides the
  rounding.\<close>

fun isqrt :: "nat \<Rightarrow> nat" where
  "isqrt n = (if n = 0 then 0
     else let r = 2 * isqrt (n div 4) in if (r + 1) * (r + 1) \<le> n then r + 1 else r)"

declare isqrt.simps [simp del]

fun fp_sqrt :: "fp_format \<Rightarrow> round_mode \<Rightarrow> fp \<Rightarrow> fp" where
  "fp_sqrt f mode NaN = NaN"
| "fp_sqrt f mode (Infinity s) = (if s then NaN else Infinity False)"
| "fp_sqrt f mode (Fin s m e) =
     (if m = 0 then Fin s 0 (emin f)
      else if s then NaN
      else
        let k = (if even e then 0 else 1);
            n = m * 2 ^ (k + 2 * (prec f + 2));
            r = isqrt n
        in fp_round f mode False (2 * r + (if r * r = n then 0 else 1)) 1
             ((e - int k) div 2 - int (prec f) - 3))"

text \<open>The remainder is \<open>x - n * y\<close> for the integer \<open>n\<close> nearest to \<open>x / y\<close>.\<close>

fun fp_remainder :: "fp_format \<Rightarrow> round_mode \<Rightarrow> fp \<Rightarrow> fp \<Rightarrow> fp" where
  "fp_remainder f mode NaN b = NaN"
| "fp_remainder f mode a NaN = NaN"
| "fp_remainder f mode (Infinity s) b = NaN"
| "fp_remainder f mode (Fin s m e) (Infinity t) = Fin s m e"
| "fp_remainder f mode (Fin s m e) (Fin t n k) =
     (if n = 0 then NaN
      else
        let b = min e k;
            x = int m * 2 ^ nat (e - b);
            y = int n * 2 ^ nat (k - b);
            r = x - round_half_even x y * y
        in if r = 0 then Fin s 0 (emin f)
           else fp_round f mode (s \<noteq> (r < 0)) (nat \<bar>r\<bar>) 1 b)"

fun fp_rint :: "fp_format \<Rightarrow> round_mode \<Rightarrow> fp \<Rightarrow> fp" where
  "fp_rint f mode (Fin s m e) =
     fp_round f mode s (nat (round_div mode (int m * 2 ^ nat e) (2 ^ nat (- e)))) 1 0"
| "fp_rint f mode v = v"

fun fp_convert :: "fp_format \<Rightarrow> round_mode \<Rightarrow> fp \<Rightarrow> fp" where
  "fp_convert f mode (Fin s m e) = fp_round f mode s m 1 e"
| "fp_convert f mode v = v"

definition fp_of_int :: "fp_format \<Rightarrow> round_mode \<Rightarrow> int \<Rightarrow> fp" where
  "fp_of_int f mode x = fp_round f mode (x < 0) (nat \<bar>x\<bar>) 1 0"

text \<open>The cast to a 32 bit integer drops the fraction; C leaves it undefined when the result does
  not fit, \<open>undef\<close> is what the machine gives then.\<close>

fun fp_to_int :: "WORD \<Rightarrow> fp \<Rightarrow> WORD" where
  "fp_to_int undef (Fin s m e) =
     (let t = int m * 2 ^ nat e div 2 ^ nat (- e);
          x = (if s then - t else t)
      in if in_range x then word_of_int x else undef)"
| "fp_to_int undef v = undef"

text \<open>Comparison is of values; nothing compares with a NaN.\<close>

instantiation fp :: ord
begin

fun less_fp :: "fp \<Rightarrow> fp \<Rightarrow> bool" where
  "less_fp NaN b \<longleftrightarrow> False"
| "less_fp a NaN \<longleftrightarrow> False"
| "less_fp (Infinity s) (Infinity t) \<longleftrightarrow> s \<and> \<not> t"
| "less_fp (Infinity s) (Fin t n k) \<longleftrightarrow> s"
| "less_fp (Fin s m e) (Infinity t) \<longleftrightarrow> \<not> t"
| "less_fp (Fin s m e) (Fin t n k) \<longleftrightarrow> scaled s m (e - min e k) < scaled t n (k - min e k)"

definition less_eq_fp :: "fp \<Rightarrow> fp \<Rightarrow> bool" where
  "less_eq_fp a b \<longleftrightarrow> a \<noteq> NaN \<and> b \<noteq> NaN \<and> \<not> b < a"

instance by standard

end

definition fp_eq :: "fp \<Rightarrow> fp \<Rightarrow> bool" where
  "fp_eq a b \<longleftrightarrow> a \<le> b \<and> b \<le> a"

section \<open>Rounding is correct\<close>

lemma bitlen_bounds: "n < 2 ^ bitlen n" "0 < n \<Longrightarrow> 2 ^ (bitlen n - 1) \<le> n" "0 < n \<Longrightarrow> 0 < bitlen n"
proof (induction n rule: bitlen.induct)
  case (1 n)
  show "n < 2 ^ bitlen n"
    using 1(1) by (cases "n = 0") (auto simp: bitlen.simps [of n])
  show "2 ^ (bitlen n - 1) \<le> n" if "0 < n"
  proof (cases "n div 2 = 0")
    case True
    then show ?thesis using that by (auto simp: bitlen.simps [of n] bitlen.simps [of 0])
  next
    case False
    then have "2 ^ (bitlen (n div 2) - 1) \<le> n div 2" "0 < bitlen (n div 2)" using 1(2,3) that by auto
    then obtain k where "bitlen (n div 2) = Suc k" "2 ^ k \<le> n div 2" by (cases "bitlen (n div 2)") auto
    then show ?thesis using that by (simp add: bitlen.simps [of n])
  qed
  show "0 < bitlen n" if "0 < n" using that by (simp add: bitlen.simps [of n])
qed

text \<open>The number rounded, in units of the last place, is \<open>A / D\<close>.\<close>

definition exact :: "nat \<Rightarrow> nat \<Rightarrow> int \<Rightarrow> rat" where
  "exact n d e = of_nat n / of_nat d * 2 powi e"

lemma exact_pos: "0 < n \<Longrightarrow> 0 < d \<Longrightarrow> 0 < exact n d e"
  by (simp add: exact_def)

lemma exact_shift: "exact (n * 2 ^ l) d (e - int l) = exact n d e"
  by (simp add: exact_def power_int_diff)

lemma powi_split: "q \<le> e \<Longrightarrow> (2 :: rat) powi e = 2 ^ nat (e - q) * 2 powi q"
  using power_int_add [of "2 :: rat" "e - q" q] by (simp add: power_int_def)

lemma exact_units:
  assumes "0 < d"
  shows "exact n d e = of_int (int n * 2 ^ nat (e - q)) / of_int (int d * 2 ^ nat (q - e)) * 2 powi q"
proof (cases "q \<le> e")
  case True
  then show ?thesis by (simp add: exact_def powi_split [OF True])
next
  case False
  then show ?thesis by (simp add: exact_def powi_split [of e q])
qed

lemma quantum_bounds:
  assumes "0 < d" "d \<le> n" "0 < prec f"
  shows "int n * 2 ^ nat (e - fp_quantum f n d e) < 2 ^ prec f * (int d * 2 ^ nat (fp_quantum f n d e - e))"
    "emin f < fp_quantum f n d e \<Longrightarrow>
      2 ^ (prec f - 1) * (int d * 2 ^ nat (fp_quantum f n d e - e)) \<le> int n * 2 ^ nat (e - fp_quantum f n d e)"
proof -
  let ?q = "fp_quantum f n d e" and ?k = "bitlen (n div d)"
  have k: "0 < ?k" using assms bitlen_bounds(3) [of "n div d"] by (simp add: div_greater_zero_iff)
  have "n < 2 ^ ?k * d" using bitlen_bounds(1) [of "n div d"] assms(1) by (simp add: div_less_iff_less_mult)
  then have "(of_nat n :: rat) < of_nat (2 ^ ?k * d)" by (simp only: of_nat_less_iff)
  then have upper: "(of_nat n :: rat) < 2 ^ ?k * of_nat d" by simp
  have "2 ^ (?k - 1) * d \<le> n" using bitlen_bounds(2) [of "n div d"] assms
    by (simp add: div_greater_zero_iff less_eq_div_iff_mult_less_eq)
  then have "of_nat (2 ^ (?k - 1) * d) \<le> (of_nat n :: rat)" by (simp only: of_nat_le_iff)
  then have lower: "2 ^ (?k - 1) * of_nat d \<le> (of_nat n :: rat)" by simp
  have *: "(of_nat n :: rat) * 2 powi (e - ?q) =
      of_int (int n * 2 ^ nat (e - ?q)) / of_int (2 ^ nat (?q - e))"
    using exact_units [of 1 n e ?q] by (simp add: exact_def power_int_diff field_simps)
  show "int n * 2 ^ nat (e - ?q) < 2 ^ prec f * (int d * 2 ^ nat (?q - e))"
  proof -
    have "(of_nat n :: rat) * 2 powi (e - ?q) < 2 ^ ?k * of_nat d * 2 powi (e - ?q)"
      using upper by simp
    also have "\<dots> = of_nat d * 2 powi (int ?k + (e - ?q))" by (simp add: power_int_add)
    also have "\<dots> \<le> of_nat d * 2 powi int (prec f)"
      by (intro mult_left_mono power_int_increasing) (auto simp: fp_quantum_def)
    finally have "(of_int (int n * 2 ^ nat (e - ?q)) :: rat) < of_int (2 ^ prec f * (int d * 2 ^ nat (?q - e)))"
      unfolding * by (simp add: divide_less_eq mult_ac)
    then show ?thesis by (simp only: of_int_less_iff)
  qed
  show "2 ^ (prec f - 1) * (int d * 2 ^ nat (?q - e)) \<le> int n * 2 ^ nat (e - ?q)" if "emin f < ?q"
  proof -
    have q: "?q = e + int ?k - int (prec f)" using that by (auto simp: fp_quantum_def max_def split: if_splits)
    have "of_nat d * 2 powi int (prec f - 1) = of_nat d * (2 :: rat) powi (int (?k - 1) + (e - ?q))"
      using assms(3) k by (simp add: q of_nat_diff)
    also have "\<dots> = 2 ^ (?k - 1) * of_nat d * 2 powi (e - ?q)" by (simp add: power_int_add)
    also have "\<dots> \<le> of_nat n * 2 powi (e - ?q)" using lower by simp
    finally have "(of_int (2 ^ (prec f - 1) * (int d * 2 ^ nat (?q - e))) :: rat) \<le> of_int (int n * 2 ^ nat (e - ?q))"
      unfolding * by (simp add: le_divide_eq mult_ac)
    then show ?thesis by (simp only: of_int_le_iff)
  qed
qed

lemma exact_lower:
  assumes "0 < d" "d \<le> n" "0 < prec f" "q = fp_quantum f n d e" "emin f < q"
  shows "of_int (2 ^ (prec f - 1)) * 2 powi q \<le> exact n d e"
proof -
  let ?D = "int d * 2 ^ nat (q - e)" and ?A = "int n * 2 ^ nat (e - q)"
  have "2 ^ (prec f - 1) * ?D \<le> ?A" using quantum_bounds(2) [OF assms(1-3)] assms(4,5) by simp
  then have "of_int (2 ^ (prec f - 1)) * of_int ?D \<le> (of_int ?A :: rat)"
    by (simp only: of_int_le_iff flip: of_int_mult)
  then show ?thesis
    unfolding exact_units [OF assms(1), of n e q] using assms(1)
    by (intro mult_right_mono) (simp_all add: le_divide_eq)
qed

lemma carry_value:
  "fp_carry f m q = (m', q') \<Longrightarrow> 0 < prec f \<Longrightarrow> of_nat m' * (2 :: rat) powi q' = of_nat m * 2 powi q"
  by (cases "prec f") (auto simp: fp_carry_def power_int_add split: if_splits)

lemma unit_distance:
  assumes "0 < d"
  shows "\<bar>of_int k * 2 powi q - exact n d e\<bar> =
    of_int \<bar>int d * 2 ^ nat (q - e) * k - int n * 2 ^ nat (e - q)\<bar> / of_int (int d * 2 ^ nat (q - e)) * 2 powi q"
proof -
  let ?D = "int d * 2 ^ nat (q - e)" and ?A = "int n * 2 ^ nat (e - q)"
  have D: "(0 :: rat) < of_int ?D" using assms by simp
  have "of_int k * 2 powi q - exact n d e = (of_int k - of_int ?A / of_int ?D) * (2 :: rat) powi q"
    unfolding exact_units [OF assms, of n e q] by (simp add: left_diff_distrib)
  also have "of_int k - of_int ?A / of_int ?D = (of_int (?D * k - ?A) / of_int ?D :: rat)"
    using assms by (simp add: field_simps)
  finally show ?thesis
    using D by (simp only: abs_mult abs_divide of_int_abs) simp
qed

lemma nearer_below: "\<bar>a - x\<bar> \<le> \<bar>b - x\<bar> \<Longrightarrow> b \<le> x \<Longrightarrow> c \<le> b \<Longrightarrow> \<bar>a - x\<bar> \<le> \<bar>c - x\<bar>"
  for a b c x :: rat
  by linarith

lemma significand_nearest:
  assumes d: "0 < d" "d \<le> n" and p: "0 < prec f" and k: "\<bar>k\<bar> < 2 ^ prec f" and q2: "emin f \<le> q2"
    and q: "q = fp_quantum f n d e"
  shows "\<bar>of_nat (fp_significand FE_TONEAREST n d e q) * 2 powi q - exact n d e\<bar> \<le> \<bar>of_int k * 2 powi q2 - exact n d e\<bar>"
proof -
  let ?D = "int d * 2 ^ nat (q - e)" and ?A = "int n * 2 ^ nat (e - q)"
  let ?r = "round_half_even ?A ?D" and ?x = "exact n d e"
  have r: "(of_nat (fp_significand FE_TONEAREST n d e q) :: rat) = of_int ?r"
    using d round_half_even_nonneg [of ?D ?A] by (simp add: fp_significand_def round_div_def)
  have near: "\<bar>of_int ?r * 2 powi q - ?x\<bar> \<le> \<bar>of_int j * 2 powi q - ?x\<bar>" for j
    unfolding unit_distance [OF d(1)] using round_half_even_nearest [of ?D ?A j] d
    by (intro mult_right_mono divide_right_mono) (simp_all only: of_int_le_iff, simp_all)
  show ?thesis
  proof (cases "q \<le> q2")
    case True
    then show ?thesis
      using near [of "k * 2 ^ nat (q2 - q)"] by (simp add: r powi_split [OF True] mult.assoc)
  next
    case False
    then have below: "of_int (2 ^ (prec f - 1)) * 2 powi q \<le> ?x"
      using exact_lower [OF d p q] q2 by simp
    have "of_int k * (2 :: rat) powi q2 \<le> of_int (2 ^ prec f) * 2 powi (q - 1)"
      using k False by (intro mult_mono power_int_increasing) (simp_all only: of_int_le_iff, simp_all)
    also have "\<dots> = of_int (2 ^ (prec f - 1)) * 2 powi q"
      using p by (cases "prec f") (simp_all add: power_int_diff)
    finally show ?thesis unfolding r by (rule nearer_below [OF near below])
  qed
qed

lemma denominator_le: "0 < n \<Longrightarrow> 0 < d \<Longrightarrow> d \<le> n * 2 ^ bitlen d"
  using mult_le_mono [of 1 n d "2 ^ bitlen d"] bitlen_bounds(1) [of d] by simp

lemma fp_round_nearest:
  assumes "0 < n" "0 < d" "0 < prec f" "fp_round f FE_TONEAREST s n d e = Fin t m q"
    and "y = Fin u k q2" "k < 2 ^ prec f" "emin f \<le> q2"
  defines "x \<equiv> (if s then - 1 else 1) * exact n d e"
  shows "\<bar>fp_value (Fin t m q) - x\<bar> \<le> \<bar>fp_value y - x\<bar>"
proof -
  let ?n = "n * 2 ^ bitlen d" and ?e = "e - int (bitlen d)"
  let ?q = "fp_quantum f ?n d ?e"
  obtain m' q' where c: "fp_carry f (fp_significand FE_TONEAREST ?n d ?e ?q) ?q = (m', q')"
    by fastforce
  have t: "t = s" "m = m'" "q = q'"
    using assms(1,4) c by (auto simp: fp_round_def Let_def split: if_splits)
  have dn: "d \<le> ?n"
    using mult_le_mono [of 1 n d "2 ^ bitlen d"] bitlen_bounds(1) [of d] assms(1) by simp
  define j where "j = (if u = s then int k else - int k)"
  have "\<bar>j\<bar> < 2 ^ prec f" using assms(6) by (simp add: j_def)
  note near = significand_nearest [OF assms(2) dn assms(3) this assms(7) refl, of ?e]
  have "of_nat m * (2 :: rat) powi q = of_nat (fp_significand FE_TONEAREST ?n d ?e ?q) * 2 powi ?q"
    using carry_value [OF c assms(3)] t by simp
  then have "\<bar>of_nat m * 2 powi q - exact n d e\<bar> \<le> \<bar>of_int j * 2 powi q2 - exact n d e\<bar>"
    using near by (simp only: exact_shift)
  then show ?thesis
    by (auto simp: x_def t(1) assms(5) j_def split: if_splits)
qed

subsection \<open>The result is a value of the format, and overflow\<close>

lemma significand_bounds:
  assumes d: "0 < d" "d \<le> n" and p: "0 < prec f" and q: "q = fp_quantum f n d e"
  shows "fp_significand mode n d e q \<le> 2 ^ prec f"
    "emin f < q \<Longrightarrow> 2 ^ (prec f - 1) \<le> fp_significand mode n d e q"
proof -
  let ?D = "int d * 2 ^ nat (q - e)" and ?A = "int n * 2 ^ nat (e - q)"
  have D: "0 < ?D" using d by simp
  have up: "?A \<le> 2 ^ prec f * ?D" using quantum_bounds(1) [OF d p] unfolding q by (rule less_imp_le)
  have "round_div mode ?A ?D \<le> int (2 ^ prec f)"
    using round_div_bounds(2) [OF D _ up, of 0] by simp
  then show "fp_significand mode n d e q \<le> 2 ^ prec f"
    unfolding fp_significand_def by (simp only: nat_le_iff)
  assume "emin f < q"
  then have low: "2 ^ (prec f - 1) * ?D \<le> ?A" using quantum_bounds(2) [OF d p] q by simp
  have "int (2 ^ (prec f - 1)) \<le> round_div mode ?A ?D"
    using round_div_bounds(1) [OF D low up] by simp
  then show "2 ^ (prec f - 1) \<le> fp_significand mode n d e q"
    unfolding fp_significand_def by linarith
qed

lemma fp_round_representable:
  assumes "0 < d" "0 < prec f" "emin f \<le> emax f"
  shows "representable f (fp_round f mode s n d e)"
proof (cases "n = 0")
  case True
  then show ?thesis using assms by (simp add: fp_round_def)
next
  case False
  let ?n = "n * 2 ^ bitlen d" and ?e = "e - int (bitlen d)"
  let ?q = "fp_quantum f ?n d ?e"
  let ?m = "fp_significand mode ?n d ?e ?q"
  have *: "?m \<le> 2 ^ prec f" "emin f < ?q \<Longrightarrow> 2 ^ (prec f - 1) \<le> ?m"
    using significand_bounds [OF assms(1) denominator_le [of n d] assms(2) refl] False assms(1) by auto
  have e: "emin f \<le> ?q" by (simp add: fp_quantum_def)
  obtain m q where c: "fp_carry f ?m ?q = (m, q)" by fastforce
  have "m < 2 ^ prec f \<and> emin f \<le> q \<and> (2 ^ (prec f - 1) \<le> m \<or> q = emin f)"
    using c * e assms(2) by (cases "?q = emin f") (auto simp: fp_carry_def split: if_splits)
  moreover have "(2 :: nat) ^ (prec f - 1) \<le> 2 ^ prec f - 1"
    using assms(2) by (cases "prec f") simp_all
  ultimately show ?thesis
    using False c assms(3) by (auto simp: fp_round_def Let_def split: round_mode.split)
qed

lemma half_unit:
  assumes "0 < D" "k * D \<le> 2 * A"
  shows "of_int k * 2 powi (E - 1) \<le> of_int A / of_int D * (2 :: rat) powi E"
proof -
  have "of_int (k * D) \<le> (of_int (2 * A) :: rat)" using assms(2) by (simp only: of_int_le_iff)
  then have "of_int k / 2 \<le> (of_int A / of_int D :: rat)" using assms(1) by (simp add: field_simps)
  then have "of_int k / 2 * 2 powi E \<le> of_int A / of_int D * (2 :: rat) powi E" by (intro mult_right_mono) simp_all
  then show ?thesis by (simp add: power_int_diff)
qed

lemma fp_round_overflow:
  assumes "0 < n" "0 < d" "0 < prec f" "emin f \<le> emax f"
    "fp_round f FE_TONEAREST s n d e = Infinity t"
  shows "t = s" "of_int (2 * 2 ^ prec f - 1) * 2 powi (emax f - 1) \<le> exact n d e"
proof -
  let ?n = "n * 2 ^ bitlen d" and ?e = "e - int (bitlen d)"
  let ?q = "fp_quantum f ?n d ?e"
  let ?m = "fp_significand FE_TONEAREST ?n d ?e ?q"
  let ?D = "int d * 2 ^ nat (?q - ?e)" and ?A = "int ?n * 2 ^ nat (?e - ?q)"
  obtain m q where c: "fp_carry f ?m ?q = (m, q)" by fastforce
  have o: "t = s" "emax f < q"
    using assms(1,5) c by (auto simp: fp_round_def Let_def split: if_splits)
  show "t = s" by (rule o(1))
  have D: "0 < ?D" using assms by simp
  have dn: "d \<le> ?n" by (rule denominator_le [OF assms(1,2)])
  have p2: "of_int (2 * 2 ^ prec f) * (2 :: rat) powi (emax f - 1) = of_int (2 ^ (prec f - 1)) * 2 powi (emax f + 1)"
    using assms(3) by (cases "prec f") (simp_all add: power_int_add power_int_diff)
  show "of_int (2 * 2 ^ prec f - 1) * 2 powi (emax f - 1) \<le> exact n d e"
  proof (cases "emax f < ?q")
    case True
    have "of_int (2 * 2 ^ prec f - 1) * (2 :: rat) powi (emax f - 1) \<le> of_int (2 * 2 ^ prec f) * 2 powi (emax f - 1)"
      by (intro mult_right_mono) simp_all
    also have "\<dots> \<le> of_int (2 ^ (prec f - 1)) * 2 powi ?q"
      unfolding p2 using True by (intro mult_left_mono power_int_increasing) simp_all
    also have "\<dots> \<le> exact n d e"
      using exact_lower [OF assms(2) dn assms(3) refl, of ?e] True assms(4) by (simp add: exact_shift)
    finally show ?thesis .
  next
    case False
    then have q: "?q = emax f" and m: "?m = 2 ^ prec f"
      using c o(2) by (auto simp: fp_carry_def split: if_splits)
    have "round_half_even ?A ?D = 2 ^ prec f"
      using m round_half_even_nonneg [OF D, of ?A] by (simp add: fp_significand_def round_div_def nat_eq_iff2)
    then have "(2 * 2 ^ prec f - 1) * ?D \<le> 2 * ?A" using round_half_even_lower [OF D, of ?A] by simp
    then have "of_int (2 * 2 ^ prec f - 1) * 2 powi (emax f - 1) \<le> of_int ?A / of_int ?D * (2 :: rat) powi emax f"
      by (rule half_unit [OF D])
    also have "\<dots> = exact n d e"
      using exact_units [OF assms(2), of ?n ?e ?q] q by (simp only: exact_shift)
    finally show ?thesis .
  qed
qed

section \<open>The operations are correctly rounded\<close>

text \<open>
  A correctly rounded result is a value of the format such that no other is nearer to the exact
  number, also among those with a larger exponent than the format has; it is infinite only from
  half a unit above the largest finite value on.
\<close>

definition correctly_rounded :: "fp_format \<Rightarrow> rat \<Rightarrow> fp \<Rightarrow> bool" where
  "correctly_rounded f x r \<longleftrightarrow>
     (case r of
        NaN \<Rightarrow> False
      | Infinity s \<Rightarrow> of_int (2 * 2 ^ prec f - 1) * 2 powi (emax f - 1) \<le> (if s then - x else x)
      | Fin s m q \<Rightarrow> representable f r \<and>
          (\<forall>u k j. k < 2 ^ prec f \<longrightarrow> emin f \<le> j \<longrightarrow> \<bar>fp_value r - x\<bar> \<le> \<bar>fp_value (Fin u k j) - x\<bar>))"

definition format_ok :: "fp_format \<Rightarrow> bool" where
  "format_ok f \<longleftrightarrow> 0 < prec f \<and> emin f \<le> emax f"

lemma formats [simp]: "format_ok single" "format_ok double"
  by (simp_all add: format_ok_def emax_def single_def double_def)

lemma correctly_rounded_zero: "format_ok f \<Longrightarrow> correctly_rounded f 0 (Fin s 0 (emin f))"
  by (simp add: correctly_rounded_def format_ok_def)

lemma fp_round_correct:
  assumes "format_ok f" "0 < d" "x = (if s then - 1 else 1) * exact n d e"
  shows "correctly_rounded f x (fp_round f FE_TONEAREST s n d e)"
proof (cases "n = 0")
  case True
  then show ?thesis using assms correctly_rounded_zero by (simp add: fp_round_def exact_def)
next
  case False
  have f: "0 < prec f" "emin f \<le> emax f" using assms(1) by (simp_all add: format_ok_def)
  show ?thesis
  proof (cases "fp_round f FE_TONEAREST s n d e")
    case NaN
    then show ?thesis using False by (simp add: fp_round_def Let_def split: if_splits prod.splits)
  next
    case (Infinity t)
    then show ?thesis
      using fp_round_overflow [OF _ assms(2) f Infinity] False assms(3) by (simp add: correctly_rounded_def)
  next
    case (Fin t m q)
    then show ?thesis
      using fp_round_nearest [OF _ assms(2) f(1) Fin refl] False assms(3)
        fp_round_representable [OF assms(2) f, of FE_TONEAREST s n e]
      by (simp add: correctly_rounded_def)
  qed
qed

lemma exact_int: "(if x < 0 then - 1 else 1) * exact (nat \<bar>x\<bar>) 1 e = of_int x * 2 powi e"
  by (simp add: exact_def)

lemma fp_value_scaled:
  assumes "b \<le> e"
  shows "fp_value (Fin s m e) = of_int (scaled s m (e - b)) * 2 powi b"
  by (simp add: scaled_def powi_split [OF assms])

lemma fp_add_correct:
  assumes "format_ok f" "finite_fp a" "finite_fp b"
  shows "correctly_rounded f (fp_value a + fp_value b) (fp_add f FE_TONEAREST a b)"
proof -
  obtain s m e t n k where ab: "a = Fin s m e" "b = Fin t n k"
    using assms(2,3) by (cases a; cases b) simp_all
  let ?b = "min e k"
  let ?x = "scaled s m (e - ?b) + scaled t n (k - ?b)"
  have v: "fp_value a + fp_value b = of_int ?x * 2 powi ?b"
    unfolding ab by (simp only: fp_value_scaled [of ?b] min.cobounded1 min.cobounded2 of_int_add distrib_right)
  show ?thesis
  proof (cases "?x = 0")
    case True
    then show ?thesis
      using v correctly_rounded_zero [OF assms(1)] by (simp add: ab Let_def)
  next
    case False
    have "correctly_rounded f (of_int ?x * 2 powi ?b) (fp_round f FE_TONEAREST (?x < 0) (nat \<bar>?x\<bar>) 1 ?b)"
      by (rule fp_round_correct [OF assms(1) _ exact_int [symmetric]]) simp
    then show ?thesis unfolding v using False by (simp add: ab Let_def)
  qed
qed

lemma fp_neg_value: "fp_value (fp_neg a) = - fp_value a" "finite_fp (fp_neg a) = finite_fp a"
  by (cases a; simp)+

lemma fp_sub_correct:
  assumes "format_ok f" "finite_fp a" "finite_fp b"
  shows "correctly_rounded f (fp_value a - fp_value b) (fp_sub f FE_TONEAREST a b)"
  using fp_add_correct [of f a "fp_neg b"] assms by (simp add: fp_sub_def fp_neg_value)

lemma fp_mul_correct:
  assumes "format_ok f" "finite_fp a" "finite_fp b"
  shows "correctly_rounded f (fp_value a * fp_value b) (fp_mul f FE_TONEAREST a b)"
  using assms by (cases a; cases b) (auto intro!: fp_round_correct simp: exact_def power_int_add)

lemma fp_div_correct:
  assumes "format_ok f" "finite_fp a" "finite_fp b" "fp_value b \<noteq> 0"
  shows "correctly_rounded f (fp_value a / fp_value b) (fp_div f FE_TONEAREST a b)"
  using assms by (cases a; cases b) (auto intro!: fp_round_correct simp: exact_def power_int_diff)

lemma fp_convert_correct:
  assumes "format_ok f" "finite_fp a"
  shows "correctly_rounded f (fp_value a) (fp_convert f FE_TONEAREST a)"
  using assms by (cases a) (auto intro!: fp_round_correct simp: exact_def)

section \<open>Values of the format stay as they are\<close>

lemma exact_upper:
  assumes "0 < d" "d \<le> n" "0 < prec f" "q = fp_quantum f n d e"
  shows "exact n d e < of_int (2 ^ prec f) * 2 powi q"
proof -
  let ?D = "int d * 2 ^ nat (q - e)" and ?A = "int n * 2 ^ nat (e - q)"
  have "?A < 2 ^ prec f * ?D" using quantum_bounds(1) [OF assms(1-3)] unfolding assms(4) .
  then have "(of_int ?A :: rat) < of_int (2 ^ prec f) * of_int ?D"
    by (simp only: of_int_less_iff flip: of_int_mult)
  then show ?thesis
    unfolding exact_units [OF assms(1), of n e q] using assms(1)
    by (intro mult_strict_right_mono) (simp_all add: divide_less_eq)
qed

lemma whole_units:
  assumes "0 < D" "of_int A / of_int D * (2 :: rat) powi q = of_nat m * 2 powi q"
  shows "A = D * int m"
proof -
  have "(of_int A :: rat) = of_int (D * int m)" using assms by (simp add: field_simps)
  then show ?thesis by (simp only: of_int_eq_iff)
qed

lemma fp_round_same:
  assumes f: "0 < prec f" "emin f \<le> emax f" and "0 < d" and v: "representable f (Fin s m k)"
    and x: "exact n d e = of_nat m * 2 powi k"
  shows "fp_round f mode s n d e = Fin s m k"
proof (cases "n = 0")
  case True
  then have "m = 0" using x by (simp add: exact_def)
  then show ?thesis using True v by (simp add: fp_round_def)
next
  case False
  let ?n = "n * 2 ^ bitlen d" and ?e = "e - int (bitlen d)"
  define q where "q = fp_quantum f ?n d ?e"
  let ?D = "int d * 2 ^ nat (q - ?e)" and ?A = "int ?n * 2 ^ nat (?e - q)"
  have dn: "d \<le> ?n" using denominator_le [of n d] False assms(3) by simp
  have up: "of_nat m * 2 powi k < of_int (2 ^ prec f) * (2 :: rat) powi q"
    using exact_upper [OF assms(3) dn f(1) q_def] x by (simp add: exact_shift)
  have low: "of_int (2 ^ (prec f - 1)) * (2 :: rat) powi q \<le> of_nat m * 2 powi k" if "emin f < q"
    using exact_lower [OF assms(3) dn f(1) q_def that] x by (simp add: exact_shift)
  have q: "q = k"
  proof (rule ccontr)
    assume "q \<noteq> k"
    then consider "k < q" | "q < k" by linarith
    then show False
    proof cases
      case 1
      have "of_nat m * (2 :: rat) powi k < of_int (2 ^ prec f) * 2 powi k"
        using v by (intro mult_strict_right_mono) (simp_all add: of_nat_less_numeral_power_cancel_iff)
      also have "\<dots> \<le> of_int (2 ^ prec f) * 2 powi (q - 1)"
        using 1 by (intro mult_left_mono power_int_increasing) simp_all
      also have "\<dots> = of_int (2 ^ (prec f - 1)) * 2 powi q"
        using f(1) by (cases "prec f") (simp_all add: power_int_diff)
      finally show False using low 1 v by simp
    next
      case 2
      have "of_int (2 ^ prec f) * (2 :: rat) powi q \<le> of_int (2 ^ prec f) * 2 powi (k - 1)"
        using 2 by (intro mult_left_mono power_int_increasing) simp_all
      also have "\<dots> = of_int (2 ^ (prec f - 1)) * 2 powi k"
        using f(1) by (cases "prec f") (simp_all add: power_int_diff)
      also have "\<dots> \<le> of_nat m * 2 powi k"
        using 2 v by (intro mult_right_mono) (auto simp: fp_quantum_def q_def)
      finally show False using up by simp
    qed
  qed
  have D: "0 < ?D" using assms(3) by simp
  have "of_int ?A / of_int ?D * (2 :: rat) powi q = of_nat m * 2 powi q"
    using exact_units [OF assms(3), of ?n ?e q] x q by (simp only: exact_shift)
  then have "?A = ?D * int m" by (rule whole_units [OF D])
  then have "fp_significand mode ?n d ?e q = m"
    using D assms(3) by (simp add: fp_significand_def round_div_def split: round_mode.split)
  then show ?thesis
    using False v q by (simp add: fp_round_def Let_def fp_carry_def flip: q_def)
qed

lemma fp_convert_same:
  assumes "format_ok f" "representable f v"
  shows "fp_convert f mode v = v"
  using assms fp_round_same [of f 1] by (cases v) (auto simp: format_ok_def exact_def)

text \<open>A value that needs no more bits than the format has, with an exponent in its range, is kept
  exactly, though perhaps with another exponent.\<close>

lemma fp_round_keeps:
  assumes f: "format_ok f" and m: "m < 2 ^ prec f" and k: "emin f \<le> k" "k \<le> emax f"
  shows "\<exists>m' k'. fp_round f FE_TONEAREST s m 1 k = Fin s m' k' \<and> of_nat m' * (2 :: rat) powi k' = of_nat m * 2 powi k"
proof (cases "m = 0")
  case True
  then show ?thesis by (simp add: fp_round_def)
next
  case False
  have f': "0 < prec f" "emin f \<le> emax f" using f by (simp_all add: format_ok_def)
  have "fp_round f FE_TONEAREST s m 1 k \<noteq> Infinity s"
  proof
    assume "fp_round f FE_TONEAREST s m 1 k = Infinity s"
    then have "of_int (2 * 2 ^ prec f - 1) * 2 powi (emax f - 1) \<le> exact m 1 k"
      using fp_round_overflow(2) [OF _ _ f'] False by simp
    also have "\<dots> \<le> of_int (2 ^ prec f - 1) * 2 powi emax f"
    proof -
      have "int m \<le> 2 ^ prec f - 1" using of_nat_less_iff [of m "2 ^ prec f", where 'a = int] m by simp
      then have "of_int (int m) \<le> (of_int (2 ^ prec f - 1) :: rat)" by (simp only: of_int_le_iff)
      then have "of_nat m * (2 :: rat) powi k \<le> of_int (2 ^ prec f - 1) * 2 powi emax f"
        using k(2) by (intro mult_mono power_int_increasing) simp_all
      then show ?thesis by (simp add: exact_def)
    qed
    also have "(2 :: rat) powi emax f = 2 * 2 powi (emax f - 1)" by (simp add: power_int_diff)
    finally show False by (simp add: mult.assoc [symmetric])
  qed
  then obtain m' k' where r: "fp_round f FE_TONEAREST s m 1 k = Fin s m' k'"
    using False by (auto simp: fp_round_def Let_def split: if_splits prod.splits)
  have "fp_value (Fin s m' k') = (if s then - 1 else 1) * exact m 1 k"
    using fp_round_nearest [OF _ _ f'(1) r refl m k(1), of s] False by (simp add: exact_def)
  then show ?thesis using r by (simp add: exact_def split: if_splits)
qed

text \<open>Every \<^verbatim>\<open>float\<close> is a \<^verbatim>\<open>double\<close>, and comes back from it.\<close>

lemma widen_narrow:
  assumes "representable single v"
  shows "fp_convert single mode (fp_convert double FE_TONEAREST v) = v"
proof (cases v)
  case (Fin s m e)
  have "m < 2 ^ prec double" "emin double \<le> e" "e \<le> emax double"
    using assms Fin by (simp_all add: single_def double_def emax_def)
  then obtain m' k' where r: "fp_round double FE_TONEAREST s m 1 e = Fin s m' k'"
    "of_nat m' * (2 :: rat) powi k' = of_nat m * 2 powi e"
    using fp_round_keeps [of double m e s] by auto
  then have "fp_round single mode s m' 1 k' = Fin s m e"
    using assms Fin by (intro fp_round_same) (simp_all add: exact_def single_def emax_def)
  then show ?thesis using r(1) Fin by simp
qed simp_all

section \<open>Bit patterns\<close>

lemma bits_split:
  fixes w :: nat
  assumes "w < 2 ^ Suc (a + b)"
  shows "w = w div 2 ^ (a + b) * 2 ^ (a + b) + w div 2 ^ a mod 2 ^ b * 2 ^ a + w mod 2 ^ a" "w div 2 ^ (a + b) < 2"
proof -
  have scale: "x * k = q * (k * l) + r * k" if "x = q * l + r" for x q k l r :: nat
    using that by (simp add: algebra_simps)
  have "w div 2 ^ (a + b) = w div 2 ^ a div 2 ^ b" by (simp add: power_add div_mult2_eq)
  then have "w div 2 ^ a = w div 2 ^ (a + b) * 2 ^ b + w div 2 ^ a mod 2 ^ b"
    using div_mult_mod_eq [of "w div 2 ^ a" "2 ^ b"] by presburger
  then have "w div 2 ^ a * 2 ^ a = w div 2 ^ (a + b) * 2 ^ (a + b) + w div 2 ^ a mod 2 ^ b * 2 ^ a"
    unfolding power_add by (rule scale)
  then show "w = w div 2 ^ (a + b) * 2 ^ (a + b) + w div 2 ^ a mod 2 ^ b * 2 ^ a + w mod 2 ^ a"
    using div_mult_mod_eq [of w "2 ^ a"] by linarith
  show "w div 2 ^ (a + b) < 2" using assms by (simp add: less_mult_imp_div_less)
qed

lemma bits_of_fp_of_bits:
  assumes "w < 2 ^ Suc (prec f - 1 + exp_bits f)" "fp_of_bits f w \<noteq> NaN" "0 < exp_bits f"
  shows "bits_of_fp f nan (fp_of_bits f w) = w"
proof -
  let ?a = "prec f - 1" and ?b = "exp_bits f"
  define fr ex sg where d: "fr = w mod 2 ^ ?a" "ex = w div 2 ^ ?a mod 2 ^ ?b" "sg = w div 2 ^ (?a + ?b)"
  have w: "w = sg * 2 ^ (?a + ?b) + ex * 2 ^ ?a + fr" and s: "sg < 2"
    using bits_split [OF assms(1)] by (simp_all add: d)
  have sign: "(if odd sg then 2 ^ (?a + ?b) else 0) = sg * 2 ^ (?a + ?b)"
    using s by (auto simp: numeral_2_eq_2 less_Suc_eq)
  have fr: "fr < 2 ^ ?a" by (simp add: d)
  have v: "fp_of_bits f w = (if ex = 0 then Fin (odd sg) fr (emin f)
      else if ex = 2 ^ ?b - 1 then (if fr = 0 then Infinity (odd sg) else NaN)
      else Fin (odd sg) (2 ^ ?a + fr) (emin f + int ex - 1))"
    by (simp add: fp_of_bits_def Let_def d)
  consider "ex = 0" | "ex = 2 ^ ?b - 1" "ex \<noteq> 0" "fr = 0" | "ex \<noteq> 0" "ex \<noteq> 2 ^ ?b - 1"
    using assms(2) v by (auto split: if_splits)
  then show ?thesis
  proof cases
    case 3
    then have ex: "nat (int ex - 1) * 2 ^ ?a + 2 ^ ?a = ex * 2 ^ ?a" by (cases ex) simp_all
    have "fp_of_bits f w = Fin (odd sg) (2 ^ ?a + fr) (emin f + int ex - 1)"
      using 3 v by simp
    then have "bits_of_fp f nan (fp_of_bits f w) =
        (if odd sg then 2 ^ (?a + ?b) else 0) + (nat (int ex - 1) * 2 ^ ?a + (2 ^ ?a + fr))"
      by simp
    then show ?thesis using sign ex w by linarith
  qed (use sign fr w v in simp)+
qed

lemma fp_of_bits_representable:
  assumes "0 < prec f" "1 < exp_bits f"
  shows "representable f (fp_of_bits f w)"
proof -
  let ?a = "prec f - 1" and ?b = "exp_bits f"
  define fr ex sg where d: "fr = w mod 2 ^ ?a" "ex = w div 2 ^ ?a mod 2 ^ ?b" "sg = w div 2 ^ (?a + ?b)"
  define B :: nat where "B = 2 ^ ?b"
  have fr: "fr < 2 ^ ?a" and ex: "ex < B" by (simp_all add: d B_def)
  have p: "(2 :: nat) ^ prec f = 2 ^ ?a + 2 ^ ?a" using assms(1) by (cases "prec f") simp_all
  have "(4 :: nat) \<le> B" unfolding B_def using assms(2) power_increasing [of 2 ?b "2 :: nat"] by simp
  moreover have "emax f = emin f + int B - 3" by (simp add: emax_def B_def)
  moreover have "fp_of_bits f w = (if ex = 0 then Fin (odd sg) fr (emin f)
      else if ex = B - 1 then (if fr = 0 then Infinity (odd sg) else NaN)
      else Fin (odd sg) (2 ^ ?a + fr) (emin f + int ex - 1))"
    by (simp add: fp_of_bits_def Let_def d B_def)
  ultimately show ?thesis using fr p ex by (auto simp del: One_nat_def)
qed

end
