(* ===== verification/Tvm_Fpu.thy ===== *)
theory Tvm_Fpu
  imports Tvm_Ieee Tvm_State
begin

text \<open>
  The floating point unit of the T8, \<^verbatim>\<open>ins_float.c\<close>: three registers of type
  \<^verbatim>\<open>double\<close> that remember whether they hold a single or a double length number, and the
  rounding mode of the host's C library. The registers are global variables of the program, shared
  by all contexts, so an instruction takes them beside the state of the machine.
\<close>

section \<open>State and macros\<close>

abbreviation (input) DOUBLE :: int where "DOUBLE \<equiv> 1"
abbreviation (input) SINGLE :: int where "SINGLE \<equiv> 0"
abbreviation (input) EFLAG_FP :: WORD where "EFLAG_FP \<equiv> 8"

record fpu =
  fareg :: fp
  fbreg :: fp
  fcreg :: fp
  fareg_length :: int
  fbreg_length :: int
  fcreg_length :: int
  fround :: round_mode

type_synonym fp_result = "(int \<times> fpu \<times> tvm) option"

definition PUSH_FPREG :: "fp \<Rightarrow> int \<Rightarrow> fpu \<Rightarrow> fpu" where
  "PUSH_FPREG x y f =
     f\<lparr>fcreg := fbreg f, fcreg_length := fbreg_length f, fbreg := fareg f, fbreg_length := fareg_length f,
       fareg := x, fareg_length := y\<rparr>"

definition POP_FPREG :: "fp \<Rightarrow> int \<Rightarrow> fpu \<Rightarrow> fpu" where
  "POP_FPREG x y f =
     f\<lparr>fareg := x, fareg_length := y, fbreg := fcreg f, fbreg_length := fcreg_length f\<rparr>"

definition SET_ROUNDMODE_RET :: "round_mode \<Rightarrow> fpu \<Rightarrow> tvm \<Rightarrow> fp_result" where
  "SET_ROUNDMODE_RET mode f s = Some (ECTX_CONTINUE, f\<lparr>fround := mode\<rparr>, s)"

definition fp_error :: "WORD \<Rightarrow> fpu \<Rightarrow> tvm \<Rightarrow> fp_result" where
  "fp_error e f s = (case set_error_flag e EFLAG_FP s of (ret, s') \<Rightarrow> Some (ret, f, s'))"

text \<open>The casts between the two types, and arithmetic on \<^verbatim>\<open>float\<close> whose result is assigned to
  a register.\<close>

definition to_float :: "fpu \<Rightarrow> fp \<Rightarrow> fp" where
  "to_float f = fp_convert single (fround f)"

definition to_double :: "fpu \<Rightarrow> fp \<Rightarrow> fp" where
  "to_double f = fp_convert double (fround f)"

definition both :: "fpu \<Rightarrow> int \<Rightarrow> bool" where
  "both f len \<longleftrightarrow> fareg_length f = fbreg_length f \<and> fareg_length f = len"

section \<open>Memory\<close>

definition read_wordf :: "memory \<Rightarrow> WORD \<Rightarrow> fp" where
  "read_wordf m p = fp_of_bits single (unat (read_word m p))"

definition write_wordf :: "nat \<Rightarrow> memory \<Rightarrow> WORD \<Rightarrow> fp \<Rightarrow> memory" where
  "write_wordf nan m p v = write_word m p (word_of_nat (bits_of_fp single nan v))"

definition read_wordd :: "memory \<Rightarrow> WORD \<Rightarrow> fp" where
  "read_wordd m p = fp_of_bits double (unat (read_word m p) + 2 ^ 32 * unat (read_word m (p + 4)))"

definition write_wordd :: "nat \<Rightarrow> memory \<Rightarrow> WORD \<Rightarrow> fp \<Rightarrow> memory" where
  "write_wordd nan m p v =
     (let bits = bits_of_fp double nan v
      in write_word (write_word m p (word_of_nat bits)) (p + 4) (word_of_nat (bits div 2 ^ 32)))"

section \<open>Loads and stores\<close>

definition ins_fpldnldbi :: "WORD \<Rightarrow> fpu \<Rightarrow> tvm \<Rightarrow> fp_result" where
  "ins_fpldnldbi e f s =
     (let f = PUSH_FPREG (read_wordd (mem s) (wordptr_plus (AREG e s) (BREG e s * 2))) DOUBLE f;
          s = STACK1 e (CREG e s) s
      in SET_ROUNDMODE_RET FE_TONEAREST f s)"

definition ins_fpchkerr :: "WORD \<Rightarrow> fpu \<Rightarrow> tvm \<Rightarrow> fp_result" where
  "ins_fpchkerr e f s = SET_ROUNDMODE_RET FE_TONEAREST f s"

definition ins_fpstnldb :: "nat \<Rightarrow> WORD \<Rightarrow> fpu \<Rightarrow> tvm \<Rightarrow> fp_result" where
  "ins_fpstnldb nan e f s =
     (let s = s\<lparr>mem := write_wordd nan (mem s) (AREG e s) (fareg f)\<rparr>;
          f = POP_FPREG (fbreg f) (fbreg_length f) f
      in Some (ECTX_CONTINUE, f, STACK2 e (BREG e s) (CREG e s) s))"

definition ins_fpldnlsni :: "WORD \<Rightarrow> fpu \<Rightarrow> tvm \<Rightarrow> fp_result" where
  "ins_fpldnlsni e f s =
     (let f = PUSH_FPREG (to_double f (read_wordf (mem s) (wordptr_plus (AREG e s) (BREG e s)))) SINGLE f;
          s = STACK1 e (CREG e s) s
      in SET_ROUNDMODE_RET FE_TONEAREST f s)"

definition ins_fpstnlsn :: "nat \<Rightarrow> WORD \<Rightarrow> fpu \<Rightarrow> tvm \<Rightarrow> fp_result" where
  "ins_fpstnlsn nan e f s =
     (let s = s\<lparr>mem := write_wordf nan (mem s) (AREG e s) (to_float f (fareg f))\<rparr>;
          s = STACK2 e (BREG e s) (CREG e s) s;
          f = POP_FPREG (fbreg f) (fbreg_length f) f
      in SET_ROUNDMODE_RET FE_TONEAREST f s)"

definition ins_fpldnldb :: "WORD \<Rightarrow> fpu \<Rightarrow> tvm \<Rightarrow> fp_result" where
  "ins_fpldnldb e f s =
     (let f = PUSH_FPREG (read_wordd (mem s) (AREG e s)) DOUBLE f
      in Some (ECTX_CONTINUE, f, STACK2 e (BREG e s) (CREG e s) s))"

definition ins_fpldnlsn :: "WORD \<Rightarrow> fpu \<Rightarrow> tvm \<Rightarrow> fp_result" where
  "ins_fpldnlsn e f s =
     (let f = PUSH_FPREG (to_double f (read_wordf (mem s) (AREG e s))) SINGLE f;
          s = STACK2 e (BREG e s) (CREG e s) s
      in SET_ROUNDMODE_RET FE_TONEAREST f s)"

definition ins_fpldzerosn :: "WORD \<Rightarrow> fpu \<Rightarrow> tvm \<Rightarrow> fp_result" where
  "ins_fpldzerosn e f s =
     SET_ROUNDMODE_RET FE_TONEAREST (PUSH_FPREG (to_double f (fp_of_int single (fround f) 0)) SINGLE f) s"

definition ins_fpldzerodb :: "WORD \<Rightarrow> fpu \<Rightarrow> tvm \<Rightarrow> fp_result" where
  "ins_fpldzerodb e f s =
     SET_ROUNDMODE_RET FE_TONEAREST (PUSH_FPREG (fp_of_int double (fround f) 0) DOUBLE f) s"

definition ins_fpdup :: "WORD \<Rightarrow> fpu \<Rightarrow> tvm \<Rightarrow> fp_result" where
  "ins_fpdup e f s = SET_ROUNDMODE_RET FE_TONEAREST (PUSH_FPREG (fareg f) (fareg_length f) f) s"

definition ins_fprev :: "WORD \<Rightarrow> fpu \<Rightarrow> tvm \<Rightarrow> fp_result" where
  "ins_fprev e f s =
     (let tmp = fareg f; tmp_length = fareg_length f;
          f = f\<lparr>fareg := fbreg f, fareg_length := fbreg_length f\<rparr>;
          f = f\<lparr>fbreg := tmp, fbreg_length := tmp_length\<rparr>
      in SET_ROUNDMODE_RET FE_TONEAREST f s)"

section \<open>Arithmetic\<close>

definition ins_fpadd :: "WORD \<Rightarrow> fpu \<Rightarrow> tvm \<Rightarrow> fp_result" where
  "ins_fpadd e f s =
     (if both f SINGLE then
        SET_ROUNDMODE_RET FE_TONEAREST (POP_FPREG (to_double f
          (fp_add single (fround f) (to_float f (fbreg f)) (to_float f (fareg f)))) (fareg_length f) f) s
      else if both f DOUBLE then
        SET_ROUNDMODE_RET FE_TONEAREST
          (POP_FPREG (fp_add double (fround f) (fbreg f) (fareg f)) (fareg_length f) f) s
      else fp_error e f s)"

definition ins_fpsub :: "WORD \<Rightarrow> fpu \<Rightarrow> tvm \<Rightarrow> fp_result" where
  "ins_fpsub e f s =
     (if both f SINGLE then
        SET_ROUNDMODE_RET FE_TONEAREST (POP_FPREG (to_double f
          (fp_sub single (fround f) (to_float f (fbreg f)) (to_float f (fareg f)))) (fareg_length f) f) s
      else if both f DOUBLE then
        SET_ROUNDMODE_RET FE_TONEAREST
          (POP_FPREG (fp_sub double (fround f) (fbreg f) (fareg f)) (fareg_length f) f) s
      else fp_error e f s)"

definition ins_fpmul :: "WORD \<Rightarrow> fpu \<Rightarrow> tvm \<Rightarrow> fp_result" where
  "ins_fpmul e f s =
     (if both f SINGLE then
        SET_ROUNDMODE_RET FE_TONEAREST (POP_FPREG (to_double f
          (fp_mul single (fround f) (to_float f (fbreg f)) (to_float f (fareg f)))) (fareg_length f) f) s
      else if both f DOUBLE then
        SET_ROUNDMODE_RET FE_TONEAREST
          (POP_FPREG (fp_mul double (fround f) (fbreg f) (fareg f)) (fareg_length f) f) s
      else fp_error e f s)"

definition ins_fpdiv :: "WORD \<Rightarrow> fpu \<Rightarrow> tvm \<Rightarrow> fp_result" where
  "ins_fpdiv e f s =
     (if both f SINGLE then
        SET_ROUNDMODE_RET FE_TONEAREST (POP_FPREG (to_double f
          (fp_div single (fround f) (to_float f (fbreg f)) (to_float f (fareg f)))) (fareg_length f) f) s
      else if both f DOUBLE then
        SET_ROUNDMODE_RET FE_TONEAREST
          (POP_FPREG (fp_div double (fround f) (fbreg f) (fareg f)) (fareg_length f) f) s
      else fp_error e f s)"

definition ins_fprem :: "WORD \<Rightarrow> fpu \<Rightarrow> tvm \<Rightarrow> fp_result" where
  "ins_fprem e f s =
     (if both f SINGLE then
        SET_ROUNDMODE_RET FE_TONEAREST (f\<lparr>fareg := to_double f
          (fp_remainder single (fround f) (to_float f (fbreg f)) (to_float f (fareg f)))\<rparr>) s
      else if both f DOUBLE then
        SET_ROUNDMODE_RET FE_TONEAREST (f\<lparr>fareg := fp_remainder double (fround f) (fbreg f) (fareg f)\<rparr>) s
      else fp_error e f s)"

definition ins_fpldnladddb :: "WORD \<Rightarrow> fpu \<Rightarrow> tvm \<Rightarrow> fp_result" where
  "ins_fpldnladddb e f s =
     (let f = f\<lparr>fareg := fp_add double (fround f) (fareg f) (read_wordd (mem s) (AREG e s)),
                fareg_length := DOUBLE\<rparr>
      in SET_ROUNDMODE_RET FE_TONEAREST f (STACK2 e (BREG e s) (CREG e s) s))"

definition ins_fpldnlmuldb :: "WORD \<Rightarrow> fpu \<Rightarrow> tvm \<Rightarrow> fp_result" where
  "ins_fpldnlmuldb e f s =
     (let f = f\<lparr>fareg := fp_mul double (fround f) (fareg f) (read_wordd (mem s) (AREG e s)),
                fareg_length := DOUBLE\<rparr>
      in SET_ROUNDMODE_RET FE_TONEAREST f (STACK2 e (BREG e s) (CREG e s) s))"

definition ins_fpldnladdsn :: "WORD \<Rightarrow> fpu \<Rightarrow> tvm \<Rightarrow> fp_result" where
  "ins_fpldnladdsn e f s =
     (let f = f\<lparr>fareg := to_double f (fp_add single (fround f) (to_float f (fareg f)) (read_wordf (mem s) (AREG e s))),
                fareg_length := SINGLE\<rparr>
      in SET_ROUNDMODE_RET FE_TONEAREST f (STACK2 e (BREG e s) (CREG e s) s))"

definition ins_fpldnlmulsn :: "WORD \<Rightarrow> fpu \<Rightarrow> tvm \<Rightarrow> fp_result" where
  "ins_fpldnlmulsn e f s =
     (let f = f\<lparr>fareg := to_double f (fp_mul single (fround f) (to_float f (fareg f)) (read_wordf (mem s) (AREG e s))),
                fareg_length := SINGLE\<rparr>
      in SET_ROUNDMODE_RET FE_TONEAREST f (STACK2 e (BREG e s) (CREG e s) s))"

definition ins_fpdivby2 :: "WORD \<Rightarrow> fpu \<Rightarrow> tvm \<Rightarrow> fp_result" where
  "ins_fpdivby2 e f s =
     SET_ROUNDMODE_RET FE_TONEAREST (f\<lparr>fareg :=
       if fareg_length f = SINGLE
       then to_double f (fp_div single (fround f) (to_float f (fareg f)) (fp_of_int single (fround f) 2))
       else fp_div double (fround f) (fareg f) (fp_of_int double (fround f) 2)\<rparr>) s"

definition ins_fpmulby2 :: "WORD \<Rightarrow> fpu \<Rightarrow> tvm \<Rightarrow> fp_result" where
  "ins_fpmulby2 e f s =
     SET_ROUNDMODE_RET FE_TONEAREST (f\<lparr>fareg :=
       if fareg_length f = SINGLE
       then to_double f (fp_mul single (fround f) (to_float f (fareg f)) (fp_of_int single (fround f) 2))
       else fp_mul double (fround f) (fareg f) (fp_of_int double (fround f) 2)\<rparr>) s"

definition ins_fpsqrt :: "WORD \<Rightarrow> fpu \<Rightarrow> tvm \<Rightarrow> fp_result" where
  "ins_fpsqrt e f s =
     SET_ROUNDMODE_RET FE_TONEAREST (f\<lparr>fareg :=
       if fareg_length f = SINGLE
       then to_double f (fp_sqrt single (fround f) (to_float f (fareg f)))
       else fp_sqrt double (fround f) (fareg f)\<rparr>) s"

definition ins_fpexpdec32 :: "WORD \<Rightarrow> fpu \<Rightarrow> tvm \<Rightarrow> fp_result" where
  "ins_fpexpdec32 e f s =
     SET_ROUNDMODE_RET FE_TONEAREST
       (f\<lparr>fareg := fp_div double (fround f) (fareg f) (fp_of_int double (fround f) (2 ^ 32))\<rparr>) s"

definition ins_fpabs :: "WORD \<Rightarrow> fpu \<Rightarrow> tvm \<Rightarrow> fp_result" where
  "ins_fpabs e f s =
     SET_ROUNDMODE_RET FE_TONEAREST (f\<lparr>fareg :=
       if fareg_length f = SINGLE then to_double f (fp_abs (to_float f (fareg f))) else fp_abs (fareg f)\<rparr>) s"

section \<open>Tests and comparisons\<close>

text \<open>The classification macros \<^verbatim>\<open>isnan\<close> and \<^verbatim>\<open>isinf\<close> return one for true.\<close>

definition isnan :: "fp \<Rightarrow> bool" where
  "isnan v \<longleftrightarrow> v = NaN"

definition isinf :: "fp \<Rightarrow> bool" where
  "isinf v \<longleftrightarrow> (case v of Infinity s \<Rightarrow> True | _ \<Rightarrow> False)"

definition push_result :: "bool \<Rightarrow> WORD \<Rightarrow> fpu \<Rightarrow> tvm \<Rightarrow> fp_result" where
  "push_result result e f s =
     SET_ROUNDMODE_RET FE_TONEAREST f (STACK e (if result then 1 else 0) (AREG e s) (BREG e s) s)"

definition ins_fpnan :: "WORD \<Rightarrow> fpu \<Rightarrow> tvm \<Rightarrow> fp_result" where
  "ins_fpnan e f s = push_result (isnan (fareg f)) e f s"

definition ins_fpordered :: "WORD \<Rightarrow> fpu \<Rightarrow> tvm \<Rightarrow> fp_result" where
  "ins_fpordered e f s = push_result (\<not> (isnan (fareg f) \<or> isnan (fbreg f))) e f s"

definition ins_fpnotfinite :: "WORD \<Rightarrow> fpu \<Rightarrow> tvm \<Rightarrow> fp_result" where
  "ins_fpnotfinite e f s = push_result (isnan (fareg f) \<or> isinf (fareg f)) e f s"

text \<open>Both comparisons drop their operands by moving the third register to the first.\<close>

definition compared :: "bool \<Rightarrow> WORD \<Rightarrow> fpu \<Rightarrow> tvm \<Rightarrow> fp_result" where
  "compared result e f s = push_result result e (f\<lparr>fareg := fcreg f, fareg_length := fcreg_length f\<rparr>) s"

definition ins_fpgt :: "WORD \<Rightarrow> fpu \<Rightarrow> tvm \<Rightarrow> fp_result" where
  "ins_fpgt e f s =
     (if isnan (fareg f) \<or> isnan (fbreg f) then compared False e f s
      else if both f SINGLE then compared (to_float f (fareg f) < to_float f (fbreg f)) e f s
      else if both f DOUBLE then compared (fareg f < fbreg f) e f s
      else fp_error e f s)"

definition ins_fpeq :: "WORD \<Rightarrow> fpu \<Rightarrow> tvm \<Rightarrow> fp_result" where
  "ins_fpeq e f s =
     (if isnan (fareg f) \<or> isnan (fbreg f) then compared False e f s
      else if both f SINGLE then compared (fp_eq (to_float f (fareg f)) (to_float f (fbreg f))) e f s
      else if both f DOUBLE then compared (fp_eq (fareg f) (fbreg f)) e f s
      else fp_error e f s)"

section \<open>Conversions\<close>

definition ins_fpi32tor32 :: "WORD \<Rightarrow> fpu \<Rightarrow> tvm \<Rightarrow> fp_result" where
  "ins_fpi32tor32 e f s =
     (let f = PUSH_FPREG (to_double f (fp_of_int single (fround f) (sint (get_word s (AREG e s))))) SINGLE f
      in SET_ROUNDMODE_RET FE_TONEAREST f (STACK2 e (BREG e s) (CREG e s) s))"

definition ins_fpi32tor64 :: "WORD \<Rightarrow> fpu \<Rightarrow> tvm \<Rightarrow> fp_result" where
  "ins_fpi32tor64 e f s =
     (let f = PUSH_FPREG (fp_of_int double (fround f) (sint (get_word s (AREG e s)))) DOUBLE f
      in SET_ROUNDMODE_RET FE_TONEAREST f (STACK2 e (BREG e s) (CREG e s) s))"

definition ins_fpb32tor64 :: "WORD \<Rightarrow> fpu \<Rightarrow> tvm \<Rightarrow> fp_result" where
  "ins_fpb32tor64 e f s =
     (let f = PUSH_FPREG (fp_of_int double (fround f) (uint (get_word s (AREG e s)))) DOUBLE f
      in SET_ROUNDMODE_RET FE_TONEAREST f (STACK2 e (BREG e s) (CREG e s) s))"

definition rounded :: "fpu \<Rightarrow> fp" where
  "rounded f =
     (if fareg_length f = SINGLE then to_double f (fp_rint single (fround f) (to_float f (fareg f)))
      else fp_rint double (fround f) (fareg f))"

definition ins_fprtoi32 :: "WORD \<Rightarrow> fpu \<Rightarrow> tvm \<Rightarrow> fp_result" where
  "ins_fprtoi32 e f s = SET_ROUNDMODE_RET FE_TONEAREST (f\<lparr>fareg := rounded f\<rparr>) s"

definition ins_fpint :: "WORD \<Rightarrow> fpu \<Rightarrow> tvm \<Rightarrow> fp_result" where
  "ins_fpint e f s = SET_ROUNDMODE_RET FE_TONEAREST (f\<lparr>fareg := rounded f\<rparr>) s"

definition ins_fpstnli32 :: "WORD \<Rightarrow> WORD \<Rightarrow> fpu \<Rightarrow> tvm \<Rightarrow> fp_result" where
  "ins_fpstnli32 undef e f s =
     (let s = put_word (AREG e s) (fp_to_int undef (fareg f)) s;
          s = STACK2 e (BREG e s) (CREG e s) s
      in SET_ROUNDMODE_RET FE_TONEAREST (POP_FPREG (fbreg f) (fbreg_length f) f) s)"

definition ins_i64toreal :: "WORD \<Rightarrow> fpu \<Rightarrow> tvm \<Rightarrow> fp_result" where
  "ins_i64toreal e f s =
     SET_ROUNDMODE_RET FE_TONEAREST
       (f\<lparr>fareg := fp_of_int double (fround f) (sint (get_word s (AREG e s))), fareg_length := DOUBLE\<rparr>) s"

definition ins_fprz :: "WORD \<Rightarrow> fpu \<Rightarrow> tvm \<Rightarrow> fp_result" where
  "ins_fprz e f s = SET_ROUNDMODE_RET FE_TOWARDZERO f s"

definition ins_fpr32to64 :: "WORD \<Rightarrow> fpu \<Rightarrow> tvm \<Rightarrow> fp_result" where
  "ins_fpr32to64 e f s = SET_ROUNDMODE_RET FE_TONEAREST (f\<lparr>fareg_length := DOUBLE\<rparr>) s"

definition ins_fpr64to32 :: "WORD \<Rightarrow> fpu \<Rightarrow> tvm \<Rightarrow> fp_result" where
  "ins_fpr64to32 e f s =
     SET_ROUNDMODE_RET FE_TONEAREST (f\<lparr>fareg := to_double f (to_float f (fareg f)), fareg_length := SINGLE\<rparr>) s"

definition ins_fpchki64 :: "WORD \<Rightarrow> fpu \<Rightarrow> tvm \<Rightarrow> fp_result" where
  "ins_fpchki64 e f s = Some (ECTX_CONTINUE, f, s)"

section \<open>Arithmetic is correctly rounded\<close>

lemmas fpu_defs = SET_ROUNDMODE_RET_def PUSH_FPREG_def POP_FPREG_def Let_def both_def

text \<open>An instruction takes its operands off the stack and leaves \<open>x\<close> rounded, in a register of
  the same length.\<close>

definition pops :: "fpu \<Rightarrow> fpu \<Rightarrow> bool" where
  "pops f f' \<longleftrightarrow> fbreg f' = fcreg f \<and> fbreg_length f' = fcreg_length f \<and>
     fareg_length f' = fareg_length f \<and> fround f' = FE_TONEAREST"

definition rounds_double :: "fpu \<Rightarrow> tvm \<Rightarrow> rat \<Rightarrow> fp_result \<Rightarrow> bool" where
  "rounds_double f s x r \<longleftrightarrow>
     (\<exists>f'. r = Some (ECTX_CONTINUE, f', s) \<and> correctly_rounded double x (fareg f') \<and> pops f f')"

definition rounds_single :: "fpu \<Rightarrow> tvm \<Rightarrow> rat \<Rightarrow> fp_result \<Rightarrow> bool" where
  "rounds_single f s x r \<longleftrightarrow>
     (\<exists>f' v. r = Some (ECTX_CONTINUE, f', s) \<and> fareg f' = fp_convert double FE_TONEAREST v \<and>
        correctly_rounded single x v \<and> pops f f')"

text \<open>C39: addition, subtraction, multiplication and division of finite double length numbers give a
  double length number nearest to the exact result, and take both operands off the stack.\<close>

theorem fp_double_arithmetic:
  assumes "both f DOUBLE" "fround f = FE_TONEAREST" "finite_fp (fareg f)" "finite_fp (fbreg f)"
  shows "rounds_double f s (fp_value (fbreg f) + fp_value (fareg f)) (ins_fpadd e f s) \<and>
    rounds_double f s (fp_value (fbreg f) - fp_value (fareg f)) (ins_fpsub e f s) \<and>
    rounds_double f s (fp_value (fbreg f) * fp_value (fareg f)) (ins_fpmul e f s) \<and>
    (fp_value (fareg f) \<noteq> 0 \<longrightarrow> rounds_double f s (fp_value (fbreg f) / fp_value (fareg f)) (ins_fpdiv e f s))"
  using assms
  by (simp_all add: rounds_double_def pops_def ins_fpadd_def ins_fpsub_def ins_fpmul_def ins_fpdiv_def fpu_defs
      fp_add_correct fp_sub_correct fp_mul_correct fp_div_correct)

text \<open>The same for single length numbers, which the registers hold as \<^verbatim>\<open>double\<close>: the
  result is rounded once, to single length.\<close>

lemma fp_single_arithmetic:
  assumes "both f SINGLE" "fround f = FE_TONEAREST"
    "fareg f = fp_convert double FE_TONEAREST a" "representable single a" "finite_fp a"
    "fbreg f = fp_convert double FE_TONEAREST b" "representable single b" "finite_fp b"
  shows "rounds_single f s (fp_value b + fp_value a) (ins_fpadd e f s) \<and>
    rounds_single f s (fp_value b - fp_value a) (ins_fpsub e f s) \<and>
    rounds_single f s (fp_value b * fp_value a) (ins_fpmul e f s) \<and>
    (fp_value a \<noteq> 0 \<longrightarrow> rounds_single f s (fp_value b / fp_value a) (ins_fpdiv e f s))"
proof -
  have *: "rounds_single f s x (SET_ROUNDMODE_RET FE_TONEAREST (POP_FPREG (to_double f v) (fareg_length f) f) s)"
    if "correctly_rounded single x v" for x v
    using that assms(2) by (auto simp: rounds_single_def pops_def to_double_def fpu_defs)
  have args: "to_float f (fareg f) = a" "to_float f (fbreg f) = b"
    using assms by (simp_all add: to_float_def widen_narrow)
  show ?thesis
    using assms(1,2,5,8) by (simp add: * args ins_fpadd_def ins_fpsub_def ins_fpmul_def ins_fpdiv_def
        fp_add_correct fp_sub_correct fp_mul_correct fp_div_correct)
qed

lemma less_fp_value:
  assumes "finite_fp a" "finite_fp b"
  shows "a < b \<longleftrightarrow> fp_value a < fp_value b"
proof -
  obtain s m e t n k where ab: "a = Fin s m e" "b = Fin t n k"
    using assms by (cases a; cases b) simp_all
  show ?thesis
    unfolding ab by (simp only: fp_value_scaled [of "min e k"] less_fp.simps min.cobounded1 min.cobounded2) simp
qed

text \<open>Comparison of finite double length numbers. The result on the integer stack is that of
  comparing the values, so the two zeros are equal.\<close>

theorem fp_double_comparison:
  assumes "both f DOUBLE" "finite_fp (fareg f)" "finite_fp (fbreg f)"
  shows "(\<exists>f' s'. ins_fpgt e f s = Some (ECTX_CONTINUE, f', s') \<and> fareg f' = fcreg f \<and> BREG e s' = AREG e s \<and>
      CREG e s' = BREG e s \<and> AREG e s' = (if fp_value (fareg f) < fp_value (fbreg f) then 1 else 0)) \<and>
    (\<exists>f' s'. ins_fpeq e f s = Some (ECTX_CONTINUE, f', s') \<and> fareg f' = fcreg f \<and> BREG e s' = AREG e s \<and>
      CREG e s' = BREG e s \<and> AREG e s' = (if fp_value (fareg f) = fp_value (fbreg f) then 1 else 0))"
proof -
  have n: "fareg f \<noteq> NaN" "fbreg f \<noteq> NaN" using assms by auto
  have eq: "fp_eq (fareg f) (fbreg f) \<longleftrightarrow> fp_value (fareg f) = fp_value (fbreg f)"
    using n assms by (auto simp: fp_eq_def less_eq_fp_def less_fp_value)
  show ?thesis
    using assms n eq
    by (simp add: ins_fpgt_def ins_fpeq_def compared_def push_result_def isnan_def fpu_defs step_defs less_fp_value)
qed

section \<open>Loads and stores copy numbers\<close>

lemma word_of_bits:
  fixes w v :: WORD
  shows "word_of_nat (unat w + 2 ^ 32 * unat v) = w" "word_of_nat ((unat w + 2 ^ 32 * unat v) div 2 ^ 32) = v"
proof -
  have zero32: "(4294967296 :: WORD) = 0" by (simp add: word_uint_eq_iff)
  have "unat w < 2 ^ 32" using unat_less32 [of w] by simp
  then have "(unat w + 2 ^ 32 * unat v) div 2 ^ 32 = unat v" by simp
  then show "word_of_nat ((unat w + 2 ^ 32 * unat v) div 2 ^ 32) = v" by simp
  have "(word_of_nat (2 ^ 32 * unat v) :: WORD) = 0"
    by (simp add: zero32)
  then show "word_of_nat (unat w + 2 ^ 32 * unat v) = w" by simp
qed

lemma write_read_double:
  assumes "read_wordd m p \<noteq> NaN"
  shows "write_wordd nan m' q (read_wordd m p) = write_word (write_word m' q (read_word m p)) (q + 4) (read_word m (p + 4))"
proof -
  let ?w = "read_word m p" and ?v = "read_word m (p + 4)"
  have "unat ?w + 2 ^ 32 * unat ?v < 2 ^ 64" using unat_less32 [of ?w] unat_less32 [of ?v] by simp
  then have "bits_of_fp double nan (read_wordd m p) = unat ?w + 2 ^ 32 * unat ?v"
    using assms unfolding read_wordd_def by (intro bits_of_fp_of_bits) (simp_all add: double_def)
  then show ?thesis using word_of_bits [of ?w ?v] by (simp only: write_wordd_def Let_def)
qed

lemma write_read_single:
  assumes "read_wordf m p \<noteq> NaN"
  shows "write_wordf nan m' q (read_wordf m p) = write_word m' q (read_word m p)"
proof -
  have "bits_of_fp single nan (read_wordf m p) = unat (read_word m p)"
    using assms unat_less32 [of "read_word m p"] unfolding read_wordf_def
    by (intro bits_of_fp_of_bits) (simp_all add: single_def)
  then show ?thesis by (simp add: write_wordf_def)
qed

lemma single_load: "representable single (read_wordf m p)"
  unfolding read_wordf_def by (rule fp_of_bits_representable) (simp_all add: single_def)

text \<open>A load of a double length number followed by a store copies the eight bytes of its pattern,
  unless it is a NaN; the other numbers on the stack move down and up again.\<close>

lemma fp_load_store_copies:
  assumes "read_wordd (mem s) (AREG e s) \<noteq> NaN"
  shows "\<exists>f1 s1 f2 s2. ins_fpldnldb e f s = Some (ECTX_CONTINUE, f1, s1) \<and>
    ins_fpstnldb nan e f1 s1 = Some (ECTX_CONTINUE, f2, s2) \<and> fareg f2 = fareg f \<and> fbreg f2 = fbreg f \<and>
    mem s2 = write_word (write_word (mem s) (BREG e s) (get_word s (AREG e s)))
      (BREG e s + 4) (get_word s (AREG e s + 4))"
  using write_read_double [OF assms] by (simp add: ins_fpldnldb_def ins_fpstnldb_def fpu_defs step_defs)

text \<open>The same for a single length number, through the conversions to \<^verbatim>\<open>double\<close> and back.\<close>

theorem fp_single_load_store_copies:
  assumes "read_wordf (mem s) (AREG e s) \<noteq> NaN" "fround f = FE_TONEAREST"
  shows "\<exists>f1 s1 f2 s2. ins_fpldnlsn e f s = Some (ECTX_CONTINUE, f1, s1) \<and>
    ins_fpstnlsn nan e f1 s1 = Some (ECTX_CONTINUE, f2, s2) \<and> fareg f2 = fareg f \<and> fbreg f2 = fbreg f \<and>
    mem s2 = write_word (mem s) (BREG e s) (get_word s (AREG e s))"
  using write_read_single [OF assms(1)] assms(2) widen_narrow [OF single_load]
  by (simp add: ins_fpldnlsn_def ins_fpstnlsn_def to_float_def to_double_def fpu_defs step_defs)

section \<open>Conversion to integers\<close>

lemma rint_nearest:
  fixes e :: int and m :: nat
  defines "A \<equiv> int m * 2 ^ nat e" and "D \<equiv> (2 :: int) ^ nat (- e)"
  shows "\<bar>of_int (round_half_even A D) - exact m 1 e\<bar> \<le> \<bar>of_int k - exact m 1 e\<bar>"
    "exact m 1 e \<le> of_int b \<Longrightarrow> round_half_even A D \<le> b" "0 \<le> round_half_even A D"
proof -
  have D: "0 < D" by (simp add: D_def)
  have x: "exact m 1 e = of_int A / of_int D" using exact_units [of 1 m e 0] by (simp add: A_def D_def)
  have dist: "\<bar>of_int j - exact m 1 e\<bar> = of_int \<bar>D * j - A\<bar> / of_int D" for j
    using unit_distance [of 1 j 0 m e] by (simp add: A_def D_def)
  show "\<bar>of_int (round_half_even A D) - exact m 1 e\<bar> \<le> \<bar>of_int k - exact m 1 e\<bar>"
    unfolding dist using round_half_even_nearest [OF D, of A k] D
    by (intro divide_right_mono) (simp_all only: of_int_le_iff of_int_0_le_iff less_imp_le)
  show "0 \<le> round_half_even A D" by (rule round_half_even_nonneg [OF D]) (simp add: A_def)
  assume "exact m 1 e \<le> of_int b"
  then have "(of_int A :: rat) \<le> of_int (b * D)" using D unfolding x by (simp add: divide_le_eq)
  then have "A \<le> b * D" by (simp only: of_int_le_iff)
  then show "round_half_even A D \<le> b"
    using round_half_even_bounds(2) [OF D, of 0 A b] by (simp add: A_def)
qed

lemma signed_nearest:
  fixes x :: rat
  assumes "\<bar>of_int a - x\<bar> \<le> \<bar>of_int (if t then - j else j) - x\<bar>"
  shows "\<bar>of_int (if t then - a else a) - (if t then - x else x)\<bar> \<le> \<bar>of_int j - (if t then - x else x)\<bar>"
  using assms abs_minus_cancel [of "of_int a - x"] abs_minus_cancel [of "of_int (- j) - x"]
  by (cases t) (simp_all add: add.commute)

lemma double_range: "prec double = 53" "emin double = - 1074" "emax double = 971"
  by (simp_all add: double_def emax_def)

lemma fp_to_int_whole:
  assumes "of_nat m * (2 :: rat) powi k = of_int R" "0 \<le> R" "R < 2147483648"
  shows "sint (fp_to_int undef (Fin s m k)) = (if s then - R else R)"
proof -
  let ?A = "int m * 2 ^ nat k" and ?D = "(2 :: int) ^ nat (- k)"
  have "of_int ?A / of_int ?D * (2 :: rat) powi 0 = of_nat (nat R) * 2 powi 0"
    using exact_units [of 1 m k 0] assms(1,2) by (simp add: exact_def)
  then have "?A = ?D * int (nat R)" by (rule whole_units [rotated]) simp
  then have "?A div ?D = R" using assms(2) by simp
  then show ?thesis
    using assms(2,3) sint_of_int_exact [of R] sint_of_int_exact [of "- R"] by (simp add: Let_def in_range_def)
qed

text \<open>Rounding to an integer and storing it as one, of a double length number in the range of
  the machine's integers, stores the nearest integer.\<close>

lemma fp_stores_nearest_integer:
  assumes "fareg_length f = DOUBLE" "fround f = FE_TONEAREST" "finite_fp (fareg f)"
    "\<bar>fp_value (fareg f)\<bar> \<le> 2147483647"
  shows "\<exists>f1 s1 f2 s2. ins_fprtoi32 e f s = Some (ECTX_CONTINUE, f1, s1) \<and>
    ins_fpstnli32 undef e f1 s1 = Some (ECTX_CONTINUE, f2, s2) \<and>
    (\<forall>k. \<bar>of_int (sint (get_word s2 (AREG e s))) - fp_value (fareg f)\<bar> \<le> \<bar>of_int k - fp_value (fareg f)\<bar>)"
proof -
  obtain t m k where v: "fareg f = Fin t m k" using assms(3) by (cases "fareg f") simp_all
  let ?R = "round_half_even (int m * 2 ^ nat k) (2 ^ nat (- k))" and ?x = "exact m 1 k"
  have x: "fp_value (fareg f) = (if t then - ?x else ?x)" "?x \<le> of_int 2147483647"
    using assms(4) by (auto simp: v exact_def abs_mult split: if_splits)
  have R: "0 \<le> ?R" "?R \<le> 2147483647" using rint_nearest(2,3) x(2) by blast+
  then obtain m' k' where r: "fp_round double FE_TONEAREST t (nat ?R) 1 0 = Fin t m' k'"
    "of_nat m' * (2 :: rat) powi k' = of_int ?R"
    using fp_round_keeps [of double "nat ?R" 0 t] nat_less_iff [OF R(1), of 9007199254740992]
    by (auto simp: double_range)
  let ?f = "f\<lparr>fareg := Fin t m' k', fround := FE_TONEAREST\<rparr>"
  have "ins_fprtoi32 e f s = Some (ECTX_CONTINUE, ?f, s)"
    using r(1) assms(1,2) v by (simp add: ins_fprtoi32_def rounded_def fpu_defs round_div_def)
  moreover obtain f2 s2 where "ins_fpstnli32 undef e ?f s = Some (ECTX_CONTINUE, f2, s2)"
      "get_word s2 (AREG e s) = fp_to_int undef (Fin t m' k')"
    by (auto simp: ins_fpstnli32_def fpu_defs step_defs del: fp_to_int.simps)
  moreover have "\<bar>of_int (sint (fp_to_int undef (Fin t m' k'))) - fp_value (fareg f)\<bar> \<le> \<bar>of_int j - fp_value (fareg f)\<bar>" for j
    using signed_nearest [OF rint_nearest(1) [of m k "if t then - j else j"]] R
    unfolding x(1) by (subst fp_to_int_whole [OF r(2)]) simp_all
  ultimately show ?thesis by (metis (no_types))
qed

section \<open>Examples\<close>

text \<open>Three halves and one, in both lengths; memory that holds the pattern of one.\<close>

definition fpu_example :: "int \<Rightarrow> fp \<Rightarrow> fp \<Rightarrow> fpu" where
  "fpu_example len a b = \<lparr>fareg = a, fbreg = b, fcreg = Fin False 0 (- 1074), fareg_length = len, fbreg_length = len,
     fcreg_length = len, fround = FE_TONEAREST\<rparr>"

lemma fpu_example_simps [simp]:
  "fareg (fpu_example len a b) = a" "fbreg (fpu_example len a b) = b" "fcreg (fpu_example len a b) = Fin False 0 (- 1074)"
  "fareg_length (fpu_example len a b) = len" "fbreg_length (fpu_example len a b) = len"
  "fcreg_length (fpu_example len a b) = len" "fround (fpu_example len a b) = FE_TONEAREST"
  by (simp_all add: fpu_example_def)

theorem fp_double_arithmetic_witness:
  "rounds_double (fpu_example DOUBLE (Fin False (2 ^ 52) (- 52)) (Fin True (3 * 2 ^ 51) (- 52))) blank (- (5 / 2))
     (ins_fpsub 1 (fpu_example DOUBLE (Fin False (2 ^ 52) (- 52)) (Fin True (3 * 2 ^ 51) (- 52))) blank)"
  using fp_double_arithmetic [of "fpu_example DOUBLE (Fin False (2 ^ 52) (- 52)) (Fin True (3 * 2 ^ 51) (- 52))" blank 1]
  by (simp add: both_def power_int_def power_divide)

lemma fp_single_arithmetic_witness:
  "rounds_single (fpu_example SINGLE (fp_convert double FE_TONEAREST (Fin False (2 ^ 23) (- 23)))
      (fp_convert double FE_TONEAREST (Fin True (3 * 2 ^ 22) (- 23)))) blank (- (5 / 2))
     (ins_fpsub 1 (fpu_example SINGLE (fp_convert double FE_TONEAREST (Fin False (2 ^ 23) (- 23)))
      (fp_convert double FE_TONEAREST (Fin True (3 * 2 ^ 22) (- 23)))) blank)"
proof -
  let ?a = "Fin False (2 ^ 23) (- 23)" and ?b = "Fin True (3 * 2 ^ 22) (- 23)"
  have "representable single ?a" "representable single ?b" by (simp_all add: single_def emax_def)
  then show ?thesis
    using fp_single_arithmetic [of "fpu_example SINGLE (fp_convert double FE_TONEAREST ?a) (fp_convert double FE_TONEAREST ?b)"
        ?a ?b blank 1]
    by (simp add: both_def power_int_def power_divide del: fp_convert.simps)
qed

theorem fp_double_comparison_witness:
  "\<exists>f' s'. ins_fpgt 1 (fpu_example DOUBLE (Fin False (2 ^ 52) (- 52)) (Fin False (3 * 2 ^ 51) (- 52))) blank =
     Some (ECTX_CONTINUE, f', s') \<and> AREG 1 s' = 1"
  using fp_double_comparison [of "fpu_example DOUBLE (Fin False (2 ^ 52) (- 52)) (Fin False (3 * 2 ^ 51) (- 52))" 1 blank]
  by (auto simp: both_def power_int_def power_divide)

lemma fp_stores_nearest_integer_witness:
  "\<exists>f1 s1 f2 s2. ins_fprtoi32 1 (fpu_example DOUBLE (Fin True (3 * 2 ^ 51) (- 52)) (Fin False 0 (- 1074))) blank =
     Some (ECTX_CONTINUE, f1, s1) \<and> ins_fpstnli32 7 1 f1 s1 = Some (ECTX_CONTINUE, f2, s2) \<and>
     \<bar>of_int (sint (get_word s2 0)) - (- (3 / 2) :: rat)\<bar> \<le> 1 / 2"
proof -
  let ?f = "fpu_example DOUBLE (Fin True (3 * 2 ^ 51) (- 52)) (Fin False 0 (- 1074))"
  have v: "fp_value (fareg ?f) = - (3 / 2)" by (simp add: power_int_def power_divide)
  obtain f1 s1 f2 s2 where *: "ins_fprtoi32 1 ?f blank = Some (ECTX_CONTINUE, f1, s1)"
    "ins_fpstnli32 7 1 f1 s1 = Some (ECTX_CONTINUE, f2, s2)"
    "\<bar>of_int (sint (get_word s2 (AREG 1 blank))) - fp_value (fareg ?f)\<bar> \<le> \<bar>of_int (- 1) - fp_value (fareg ?f)\<bar>"
    using fp_stores_nearest_integer [of ?f 1 blank 7] v by fastforce
  then have "\<bar>of_int (sint (get_word s2 0)) - (- (3 / 2) :: rat)\<bar> \<le> 1 / 2" unfolding v by simp
  with * show ?thesis by blast
qed

definition ones :: tvm where
  "ones = upd_ectx 1 (\<lambda>x. x\<lparr>areg := 256, breg := 512\<rparr>) (put_word 256 0x3F800000 blank)"

lemma ones_pattern: "read_wordf (mem ones) 256 \<noteq> NaN" "read_wordd (mem ones) 256 \<noteq> NaN" "AREG 1 ones = 256" "BREG 1 ones = 512"
proof -
  have "get_word ones 256 = 0x3F800000" "get_word ones 260 = 0"
    by (simp_all add: ones_def read_write_word_other apart_def)
  then show "read_wordf (mem ones) 256 \<noteq> NaN" "read_wordd (mem ones) 256 \<noteq> NaN"
    by (simp_all add: read_wordf_def read_wordd_def fp_of_bits_def single_def double_def)
  show "AREG 1 ones = 256" "BREG 1 ones = 512" by (simp_all add: ones_def)
qed

lemma fp_load_store_copies_witness:
  "\<exists>f1 s1 f2 s2. ins_fpldnldb 1 (fpu_example DOUBLE NaN NaN) ones = Some (ECTX_CONTINUE, f1, s1) \<and>
     ins_fpstnldb 0 1 f1 s1 = Some (ECTX_CONTINUE, f2, s2) \<and> fareg f2 = NaN"
  using fp_load_store_copies [of ones 1 "fpu_example DOUBLE NaN NaN" 0] ones_pattern by fastforce

theorem fp_single_load_store_copies_witness:
  "\<exists>f1 s1 f2 s2. ins_fpldnlsn 1 (fpu_example SINGLE NaN NaN) ones = Some (ECTX_CONTINUE, f1, s1) \<and>
     ins_fpstnlsn 0 1 f1 s1 = Some (ECTX_CONTINUE, f2, s2) \<and> fareg f2 = NaN"
  using fp_single_load_store_copies [of ones 1 "fpu_example SINGLE NaN NaN" 0] ones_pattern by fastforce

end
