(* ===== verification/Tvm_Float.thy ===== *)
theory Tvm_Float
  imports Tvm_Ieee Tvm_Long
begin

text \<open>
  The instructions of the T4 for single length floating point numbers without a floating point
  unit, the first part of \<^verbatim>\<open>ins_float.c\<close>: unpacking, the steps of a rounding, and the
  multiplication of fractions. A program unpacks a number into a fraction and an exponent, computes
  on these, normalises the result and rounds it back.
\<close>

section \<open>Instructions\<close>

abbreviation (input) FP_INFINITY :: WORD where "FP_INFINITY \<equiv> 0x7F800000"

definition ins_unpacksn :: "WORD \<Rightarrow> tvm \<Rightarrow> result" where
  "ins_unpacksn e s =
     (let exponent = signed_drop_bit 23 (AREG e s) AND 0xFF;
          mantissa = push_bit 8 (AREG e s AND 0x7FFFFF);
          (type, exponent, mantissa) =
            (if exponent = 0 then
               if mantissa = 0 then (0, exponent, mantissa) else (1, 1, mantissa)
             else if exponent = 0xFF then
               if mantissa = 0 then (2, exponent, mantissa) else (3, exponent, mantissa)
             else (1, exponent, mantissa OR 0x80000000))
      in STACK_RET e mantissa exponent (4 * BREG e s + type) s)"

definition ins_postnormsn :: "WORD \<Rightarrow> tvm \<Rightarrow> result" where
  "ins_postnormsn e s =
     (let guard = AREG e s;
          exponent = WORKSPACE_GET s (WPTR e s) WS_TEMP - CREG e s;
          mantissa = BREG e s;
          (guard, mantissa, exponent) =
            (if exponent \<le>s - 32 then (0, 0, 0)
             else if exponent \<le>s 0 then
               let x = (scast mantissa :: UDWORD);
                   x = drop_bit (nat (sint (1 - exponent))) (push_bit 32 x OR scast guard)
               in (ucast (x AND 0xFFFFFFFF), ucast (drop_bit 32 x), 0)
             else (guard, mantissa, exponent))
      in STACK_RET e guard mantissa exponent s)"

definition ins_roundsn :: "WORD \<Rightarrow> tvm \<Rightarrow> result" where
  "ins_roundsn e s =
     (let f = (if 0xFF \<le>s CREG e s then FP_INFINITY
          else
            let f = push_bit 23 (CREG e s AND 0xFF) OR (signed_drop_bit 8 (BREG e s) AND 0x7FFFFF)
            in if BREG e s AND 0x80 = 0 then f
               else if AREG e s OR (BREG e s AND 0x7F) OR (f AND 1) = 0 then f
               else f + 1)
      in STACK1_RET e f s)"

definition ins_ldinf :: "WORD \<Rightarrow> tvm \<Rightarrow> result" where
  "ins_ldinf e s = STACK_RET e FP_INFINITY (AREG e s) (BREG e s) s"

definition ins_fmul :: "WORD \<Rightarrow> tvm \<Rightarrow> result" where
  "ins_fmul e s =
     (let tmp_long = (scast (AREG e s) :: UDWORD) * scast (BREG e s);
          hi_word = (ucast (drop_bit 32 tmp_long AND 0xFFFFFFFF) :: WORD);
          lo_word = (ucast (tmp_long AND 0xFFFFFFFF) :: WORD);
          hi_word = push_bit 1 hi_word;
          hi_word = (if lo_word AND 0x80000000 \<noteq> 0 then hi_word OR 1 else hi_word);
          lo_word = push_bit 1 lo_word;
          tmpint_c = (if 0 \<le>s lo_word then hi_word
            else if lo_word \<noteq> 0x80000000 then hi_word + 1
            else if hi_word AND 1 \<noteq> 0 then hi_word + 1
            else hi_word)
      in STACK2_RET e tmpint_c (CREG e s) s)"

section \<open>Multiplication of fractions\<close>

text \<open>The product shifted left by one place, in two words.\<close>

lemma and_bit31: "w AND 0x80000000 \<noteq> 0 \<longleftrightarrow> bit (w :: WORD) 31"
  by (simp only: and_min_int not_not)

lemma low_word: "ucast (x AND 0xFFFFFFFF :: UDWORD) = (ucast x :: WORD)"
proof -
  have "(0xFFFFFFFF :: UDWORD) = mask 32" by (simp add: mask_eq_exp_minus_1)
  then have "x AND 0xFFFFFFFF = take_bit 32 x" by (simp only: take_bit_eq_mask)
  then show ?thesis by (simp only:) (intro bit_word_eqI, simp add: bit_simps)
qed

lemma product_high:
  fixes P :: int
  defines "tmp \<equiv> (word_of_int P :: UDWORD)"
  shows "(if (ucast tmp :: WORD) AND 0x80000000 \<noteq> 0 then push_bit 1 (ucast (drop_bit 32 tmp) :: WORD) OR 1
     else push_bit 1 (ucast (drop_bit 32 tmp))) = (word_of_int (P div 2 ^ 31) :: WORD)"
proof (rule bit_word_eqI)
  fix n assume n: "n < LENGTH(32)"
  have r: "bit (word_of_int (P div 2 ^ 31) :: WORD) n \<longleftrightarrow> bit P (n + 31)"
    unfolding drop_bit_eq_div [symmetric] using n by (simp add: bit_simps add.commute)
  show "bit (if (ucast tmp :: WORD) AND 0x80000000 \<noteq> 0 then push_bit 1 (ucast (drop_bit 32 tmp) :: WORD) OR 1
     else push_bit 1 (ucast (drop_bit 32 tmp))) n = bit (word_of_int (P div 2 ^ 31) :: WORD) n"
    unfolding r and_bit31 using n
    by (cases n) (simp_all add: bit_simps tmp_def del: push_bit_Suc)
qed

lemma product_low:
  fixes P :: int
  defines "lo \<equiv> push_bit 1 (ucast (word_of_int P :: UDWORD) :: WORD)"
  shows "0 \<le>s lo \<longleftrightarrow> 2 * (P mod 2 ^ 31) < 2 ^ 31" "lo = 0x80000000 \<longleftrightarrow> 2 * (P mod 2 ^ 31) = 2 ^ 31"
proof -
  have "uint (ucast (word_of_int P :: UDWORD) :: WORD) = P mod 2 ^ 32"
    by (simp add: unsigned_ucast_eq unsigned_of_int take_bit_eq_mod mod_mod_cancel)
  then have "uint lo = P mod 2 ^ 32 * 2 mod 4294967296" unfolding lo_def by (simp only: uint_push_bit power_one_right)
  also have "\<dots> = 2 * (P mod 2 ^ 31)"
    using mult_mod_right [of 2 P "2 ^ 31"] by (simp add: mod_mult_left_eq mod_mult_right_eq mult.commute)
  finally have u: "uint lo = 2 * (P mod 2 ^ 31)" .
  show "lo = 0x80000000 \<longleftrightarrow> 2 * (P mod 2 ^ 31) = 2 ^ 31" by (simp add: word_uint_eq_iff u)
  have "sint lo < 0 \<longleftrightarrow> 2147483648 \<le> uint lo" using bit31_iff [of lo] bit31_uint [of lo] by simp
  then show "0 \<le>s lo \<longleftrightarrow> 2 * (P mod 2 ^ 31) < 2 ^ 31" by (simp add: word_sle_eq u) linarith
qed

lemma word_odd: "(word_of_int q :: WORD) AND 1 \<noteq> 0 \<longleftrightarrow> odd q"
  using bit_unsigned_iff [of "word_of_int q :: WORD" 0, where 'a = int]
  by (simp add: and_one_eq mod_2_eq_odd flip: bit_0) (simp add: bit_simps)

lemma product_rounds:
  fixes P :: int
  defines "tmp \<equiv> (word_of_int P :: UDWORD)"
  shows "(let hi_word = (ucast (drop_bit 32 tmp AND 0xFFFFFFFF) :: WORD);
          lo_word = (ucast (tmp AND 0xFFFFFFFF) :: WORD);
          hi_word = push_bit 1 hi_word;
          hi_word = (if lo_word AND 0x80000000 \<noteq> 0 then hi_word OR 1 else hi_word);
          lo_word = push_bit 1 lo_word
      in if 0 \<le>s lo_word then hi_word
         else if lo_word \<noteq> 0x80000000 then hi_word + 1
         else if hi_word AND 1 \<noteq> 0 then hi_word + 1
         else hi_word) = word_of_int (round_half_even P (2 ^ 31))"
  unfolding Let_def low_word tmp_def product_high product_low word_odd
  by (auto simp: round_half_even_def Let_def)

text \<open>\<^verbatim>\<open>fmul\<close> multiplies two words as fractions of 2^31 and rounds to the nearest fraction,
  halves to the even one. Only minus one times minus one, which is not a fraction, is not covered.\<close>

lemma ins_fmul_rounds:
  assumes "\<not> (AREG e s = MIN_INT \<and> BREG e s = MIN_INT)"
  shows "\<exists>s'. ins_fmul e s = Some (ECTX_CONTINUE, s') \<and> BREG e s' = CREG e s \<and>
    sint (AREG e s') = round_half_even (sint (AREG e s) * sint (BREG e s)) (2 ^ 31)"
proof -
  let ?a = "sint (AREG e s)" and ?b = "sint (BREG e s)"
  have tmp: "(scast (AREG e s) :: UDWORD) * scast (BREG e s) = word_of_int (?a * ?b)"
    by (simp only: scast_eq of_int_mult)
  have fmul: "ins_fmul e s = STACK2_RET e (word_of_int (round_half_even (?a * ?b) (2 ^ 31))) (CREG e s) s"
    using product_rounds [of "?a * ?b"] unfolding ins_fmul_def tmp by (simp only: Let_def)
  have "in_range (round_half_even (?a * ?b) (2 ^ 31))"
  proof -
    have r: "- 2147483648 \<le> ?a" "?a \<le> 2147483647" "- 2147483648 \<le> ?b" "?b \<le> 2147483647"
      using sint_range32 [of "AREG e s"] sint_range32 [of "BREG e s"] by simp_all
    have ne: "\<not> (?a = - 2147483648 \<and> ?b = - 2147483648)"
      using assms by (auto simp: sint_eq_iff)
    have "- (2147483648 * 2147483648) \<le> ?a * ?b \<and> ?a * ?b \<le> 2147483647 * 2147483648"
    proof (cases "?a = - 2147483648")
      case True
      then show ?thesis using r ne by simp
    next
      case False
      then have "\<bar>?a\<bar> * \<bar>?b\<bar> \<le> 2147483647 * 2147483648" using r by (intro mult_mono) auto
      then show ?thesis by (simp only: flip: abs_mult) linarith
    qed
    then show ?thesis
      using round_half_even_bounds [of "2 ^ 31" "- 2147483648" "?a * ?b" 2147483647] by (simp add: in_range_def)
  qed
  then show ?thesis
    by (simp add: fmul step_defs sint_of_int_exact)
qed

section \<open>Rounding\<close>

lemma round_40_digits:
  fixes a u q :: int
  assumes "0 \<le> a" "a < 2 ^ 32" "0 \<le> u" "u < 256"
  shows "round_half_even (q * 2 ^ 40 + (u * 2 ^ 32 + a)) (2 ^ 40) =
    (if u < 128 then q else if u = 128 \<and> a = 0 \<and> even q then q else q + 1)"
proof -
  let ?r = "u * 2 ^ 32 + a"
  have r: "0 \<le> ?r" "?r < 2 ^ 40" using assms by simp_all
  then have "(q * 2 ^ 40 + ?r) div 2 ^ 40 = q" "(q * 2 ^ 40 + ?r) mod 2 ^ 40 = ?r" by simp_all
  moreover have "2 * ?r < 2 ^ 40 \<longleftrightarrow> u < 128" using assms by (simp; linarith)
  moreover have "2 * ?r = 2 ^ 40 \<longleftrightarrow> u = 128 \<and> a = 0"
    using assms by (cases u "128 :: int" rule: linorder_cases) auto
  ultimately show ?thesis by (simp only: round_half_even_def Let_def) auto
qed

lemma half_of_byte:
  "(b :: int) mod 256 < 128 \<longleftrightarrow> even (b div 128)" "b mod 256 = 128 \<longleftrightarrow> odd (b div 128) \<and> b mod 128 = 0"
proof -
  have b: "b mod 256 = 128 * (b div 128 mod 2) + b mod 128"
    using mod_mult2_eq' [of b 128 2] by simp
  have m: "0 \<le> b mod 128" "b mod 128 < 128" by simp_all
  show "b mod 256 < 128 \<longleftrightarrow> even (b div 128)"
    unfolding b using m by (cases "even (b div 128)") (simp_all only: even_iff_mod_2_eq_zero odd_iff_mod_2_eq_one, simp_all)
  show "b mod 256 = 128 \<longleftrightarrow> odd (b div 128) \<and> b mod 128 = 0"
    unfolding b using m by (cases "even (b div 128)") (simp_all only: even_iff_mod_2_eq_zero odd_iff_mod_2_eq_one, simp_all)
qed

lemma round_40:
  fixes a b :: int
  assumes "0 \<le> a" "a < 2 ^ 32"
  shows "round_half_even (b mod 2 ^ 31 * 2 ^ 32 + a) (2 ^ 40) =
    (let q = b div 256 mod 2 ^ 23 in
     if even (b div 128) then q else if a = 0 \<and> b mod 128 = 0 \<and> even q then q else q + 1)"
proof -
  let ?q = "b div 256 mod 2 ^ 23"
  have "b mod 2 ^ 31 = ?q * 256 + b mod 256"
    using mod_mult2_eq' [of b 256 "2 ^ 23"] by simp
  then have n: "b mod 2 ^ 31 * 2 ^ 32 + a = ?q * 2 ^ 40 + (b mod 256 * 2 ^ 32 + a)"
    by (simp add: algebra_simps)
  have u: "0 \<le> b mod 256" "b mod 256 < 256" by simp_all
  show ?thesis
    unfolding n round_40_digits [OF assms u] half_of_byte Let_def
    by (cases "even (b div 128)") (simp_all only: simp_thms not_True_eq_False not_False_eq_True if_True if_False conj_ac)
qed

lemma and_masks:
  fixes w :: WORD
  shows "uint (w AND 0xFF) = uint w mod 256" "uint (w AND 0x7FFFFF) = uint w mod 2 ^ 23" "uint (w AND 0x7F) = uint w mod 128"
proof -
  have "(0xFF :: WORD) = mask 8" "(0x7FFFFF :: WORD) = mask 23" "(0x7F :: WORD) = mask 7"
    by (simp_all add: mask_eq_exp_minus_1)
  then have "w AND 0xFF = take_bit 8 w" "w AND 0x7FFFFF = take_bit 23 w" "w AND 0x7F = take_bit 7 w"
    by (simp_all only: take_bit_eq_mask)
  then show "uint (w AND 0xFF) = uint w mod 256" "uint (w AND 0x7FFFFF) = uint w mod 2 ^ 23"
    "uint (w AND 0x7F) = uint w mod 128"
    by (simp_all only: unsigned_take_bit_eq) (simp_all add: take_bit_eq_mod)
qed

lemma signed_drop_mask: "n + k \<le> 32 \<Longrightarrow> signed_drop_bit n (w :: WORD) AND mask k = drop_bit n w AND mask k"
  by (rule bit_word_eqI) (auto simp only: bit_and_iff bit_drop_bit_eq bit_signed_drop_bit_iff bit_mask_iff o_apply split: if_splits; simp)

lemma field_bits:
  fixes w :: WORD
  shows "signed_drop_bit 8 w AND 0x7FFFFF = drop_bit 8 w AND 0x7FFFFF"
    "signed_drop_bit 23 w AND 0xFF = drop_bit 23 w AND 0xFF"
proof -
  have m: "(0x7FFFFF :: WORD) = mask 23" "(0xFF :: WORD) = mask 8" by (simp_all add: mask_eq_exp_minus_1)
  show "signed_drop_bit 8 w AND 0x7FFFFF = drop_bit 8 w AND 0x7FFFFF" unfolding m by (rule signed_drop_mask) simp
  show "signed_drop_bit 23 w AND 0xFF = drop_bit 23 w AND 0xFF" unfolding m by (rule signed_drop_mask) simp
qed

lemma bit_7: "(w :: WORD) AND 0x80 = 0 \<longleftrightarrow> even (uint w div 128)"
proof -
  have "(0x80 :: WORD) = push_bit 7 1" by simp
  then have b: "bit (0x80 :: WORD) n \<longleftrightarrow> n = 7" for n
    by (simp only: bit_push_bit_iff bit_1_iff) auto
  have "bit w 7 \<longleftrightarrow> odd (uint w div 128)"
    using bit_unsigned_iff [of w 7, where 'a = int] bit_iff_odd [of "uint w" 7] by auto
  then show ?thesis
    unfolding bit_eq_iff [of _ "0 :: WORD"] bit_and_iff b by (auto dest!: spec [of _ "7 :: nat"])
qed

lemma or_zero: "x OR y = 0 \<longleftrightarrow> x = 0 \<and> (y :: WORD) = 0"
  by (auto simp: bit_eq_iff bit_simps)

lemma pack_fields:
  assumes "uint c < 2 ^ 9" "uint m < 2 ^ 23"
  shows "uint (push_bit 23 c OR m :: WORD) = uint c * 2 ^ 23 + uint m"
proof -
  have "\<not> bit m n" if "23 \<le> n" for n
  proof -
    have "uint m div 2 ^ n = 0"
      using assms(2) that power_increasing [of 23 n "2 :: int"] by (intro div_pos_pos_trivial) simp_all
    then have "\<not> bit (uint m) n" by (simp add: bit_iff_odd)
    then show ?thesis using bit_unsigned_iff [of m n, where 'a = int] bit_imp_le_length [of m n] by auto
  qed
  then have "push_bit 23 c OR m = push_bit 23 c + m"
    by (intro disjunctive_add [symmetric]) (auto simp: bit_push_bit_iff)
  moreover have "uint (push_bit 23 c) = uint c * 2 ^ 23"
    unfolding uint_push_bit using assms(1) by simp
  ultimately show ?thesis using assms by (simp add: uint_word_ariths)
qed

text \<open>What the instruction computes, as numbers.\<close>

lemma roundsn_number:
  assumes "0 \<le> sint (CREG e s)" "sint (CREG e s) < 255"
  shows "\<exists>f. ins_roundsn e s = STACK1_RET e f s \<and> uint f =
    sint (CREG e s) * 2 ^ 23 + round_half_even (uint (BREG e s) mod 2 ^ 31 * 2 ^ 32 + uint (AREG e s)) (2 ^ 40)"
proof -
  let ?A = "AREG e s" and ?B = "BREG e s" and ?C = "CREG e s"
  define f where "f = push_bit 23 (?C AND 0xFF) OR (signed_drop_bit 8 ?B AND 0x7FFFFF)"
  let ?q = "uint ?B div 256 mod 2 ^ 23"
  have C: "uint ?C = sint ?C" using assms(1) sint_uint_diff [of ?C] by (auto split: if_splits)
  have small: "\<not> 0xFF \<le>s ?C" using assms(2) by (simp add: word_sle_eq)
  have m: "uint (signed_drop_bit 8 ?B AND 0x7FFFFF) = ?q"
    unfolding field_bits and_masks uint_drop_bit by simp
  have c: "uint (?C AND 0xFF) = sint ?C" unfolding and_masks C using assms by simp
  have f: "uint f = sint ?C * 2 ^ 23 + ?q"
    using pack_fields [of "?C AND 0xFF" "signed_drop_bit 8 ?B AND 0x7FFFFF"] assms(2) unfolding f_def m c by simp
  have odd_f: "f AND 1 = 0 \<longleftrightarrow> even ?q"
  proof -
    have "even (uint f) \<longleftrightarrow> even ?q" unfolding f by simp
    moreover have "f AND 1 = 0 \<longleftrightarrow> even (uint f)" using word_odd [of "uint f"] by simp
    ultimately show ?thesis by simp
  qed
  have zero: "?A OR (?B AND 0x7F) OR (f AND 1) = 0 \<longleftrightarrow> uint ?A = 0 \<and> uint ?B mod 128 = 0 \<and> even ?q"
    unfolding or_zero odd_f by (simp add: word_uint_eq_iff [of "?B AND 0x7F"] and_masks uint_0_iff)
  have up: "uint (f + 1) = uint f + 1"
  proof -
    have "sint ?C * 2 ^ 23 \<le> 254 * 2 ^ 23" using assms(2) by simp
    moreover have "?q < 2 ^ 23" by simp
    ultimately have "uint f + 1 < 4294967296" unfolding f by (simp; linarith)
    then show ?thesis using uint_range32(1) [of f] by (simp add: uint_word_ariths)
  qed
  let ?r = "if even (uint ?B div 128) then f
     else if uint ?A = 0 \<and> uint ?B mod 128 = 0 \<and> even ?q then f else f + 1"
  have "ins_roundsn e s = STACK1_RET e ?r s"
    using small unfolding ins_roundsn_def Let_def bit_7 f_def [symmetric] zero by (simp only: if_False)
  moreover have "uint ?r = sint ?C * 2 ^ 23 + round_half_even (uint ?B mod 2 ^ 31 * 2 ^ 32 + uint ?A) (2 ^ 40)"
    using uint_range32 [of ?A] round_40 [of "uint ?A" "uint ?B"] by (simp add: f up Let_def)
  ultimately show ?thesis by blast
qed

lemma round_half_even_add:
  assumes "0 < d" "even k"
  shows "round_half_even (n + k * d) d = round_half_even n d + k"
  using assms by (simp add: round_half_even_def Let_def)

lemma bitlen_unique:
  assumes "2 ^ k \<le> n" "n < 2 ^ Suc k"
  shows "bitlen n = Suc k"
proof -
  have n: "0 < n" using assms(1) by (cases n) simp_all
  have "(2 :: nat) ^ k < 2 ^ bitlen n" "(2 :: nat) ^ (bitlen n - 1) < 2 ^ Suc k"
    using bitlen_bounds [of n] n assms by linarith+
  then have "k < bitlen n" "bitlen n - 1 < Suc k" by (simp_all only: power_strict_increasing_iff one_less_numeral_iff semiring_norm)
  then show ?thesis using bitlen_bounds(3) [OF n] by linarith
qed

lemma bitlen_le: "n < 2 ^ k \<Longrightarrow> bitlen n \<le> k"
proof (cases "n = 0")
  case False
  assume "n < 2 ^ k"
  then have "(2 :: nat) ^ (bitlen n - 1) < 2 ^ k" using bitlen_bounds(2) [of n] False by linarith
  then have "bitlen n - 1 < k" by (simp only: power_strict_increasing_iff one_less_numeral_iff semiring_norm)
  then show ?thesis by linarith
qed (simp add: bitlen.simps [of 0])

text \<open>
  A fraction of 64 bits at \<open>2 ^ (x - 190)\<close>, with \<open>x\<close> the biased exponent or one when that is
  zero: a normalised one has its top bit set, one with the biased exponent zero has not.
\<close>

lemma emax_single: "emax single = 104"
  by (simp add: emax_def single_def)

lemma single_bits:
  fixes N E :: nat
  defines "x \<equiv> max E 1"
  assumes "E \<le> 254" and N: "1 \<le> E \<and> 2 ^ 63 \<le> N \<and> N < 2 ^ 64 \<or> E = 0 \<and> N < 2 ^ 63"
  shows "int (bits_of_fp single nan (fp_round single FE_TONEAREST False N 1 (int x - 190))) =
    int E * 2 ^ 23 + round_half_even (int N mod 2 ^ 63) (2 ^ 40)"
proof -
  let ?R = "round_half_even (int N) (2 ^ 40)"
  have n: "int N < 2 ^ 24 * 2 ^ 40" "1 \<le> E \<Longrightarrow> 2 ^ 23 * 2 ^ 40 \<le> int N" "E = 0 \<Longrightarrow> int N < 2 ^ 23 * 2 ^ 40"
    using N by auto
  have bounds: "1 \<le> E \<Longrightarrow> 2 ^ 23 \<le> ?R" "?R \<le> 2 ^ 24" "E = 0 \<Longrightarrow> ?R \<le> 2 ^ 23" "0 \<le> ?R"
  proof -
    show "2 ^ 23 \<le> ?R" if "1 \<le> E"
      using n that by (intro round_half_even_bounds(1) [where b = "2 ^ 24"]) (simp_all add: less_imp_le)
    show "?R \<le> 2 ^ 24" using n by (intro round_half_even_bounds(2) [where a = 0]) (simp_all add: less_imp_le)
    show "?R \<le> 2 ^ 23" if "E = 0"
      using n that by (intro round_half_even_bounds(2) [where a = 0]) (simp_all add: less_imp_le)
    show "0 \<le> ?R" by (rule round_half_even_nonneg) simp_all
  qed
  have div: "int N div 2 ^ 63 = (if E = 0 then 0 else 1)"
  proof (cases "E = 0")
    case False
    have "int N div 2 ^ 63 = 1"
      by (rule int_div_pos_eq [of _ _ _ "int N - 2 ^ 63"]) (use n False in simp_all)
    then show ?thesis using False by simp
  qed (use n in simp)
  have R: "?R = round_half_even (int N mod 2 ^ 63) (2 ^ 40) + 2 ^ 23 * (int N div 2 ^ 63)"
  proof -
    have "int N = int N mod 2 ^ 63 + 2 ^ 23 * (int N div 2 ^ 63) * 2 ^ 40"
      using mult_div_mod_eq [of "2 ^ 63" "int N"] by simp
    then show ?thesis by (subst (1) \<open>int N = _\<close>) (rule round_half_even_add, simp_all)
  qed
  have one: "bitlen (Suc 0) = 1" using bitlen_unique [of 0 1] by simp
  have q: "fp_quantum single (N * 2) 1 (int x - 191) = int x - 150"
  proof (cases "E = 0")
    case True
    then have "bitlen (N * 2) \<le> 64" using N by (intro bitlen_le) simp
    then show ?thesis using True by (simp add: fp_quantum_def single_def x_def)
  next
    case False
    then have "bitlen (N * 2) = Suc 64" using N by (intro bitlen_unique) auto
    then show ?thesis using False by (simp add: fp_quantum_def single_def x_def)
  qed
  have m: "fp_significand FE_TONEAREST (N * 2) 1 (int x - 191) (int x - 150) = nat ?R"
    using round_half_even_mult [of "2 ^ 40" 2 "int N"] by (simp add: fp_significand_def round_div_def mult.commute)
  show ?thesis
  proof (cases "N = 0")
    case True
    then show ?thesis using N by (simp add: fp_round_def single_def round_half_even_def)
  next
    case False
    have carry: "fp_carry single (nat ?R) (int x - 150) =
        (if ?R = 2 ^ 24 then (2 ^ 23, int x - 149) else (nat ?R, int x - 150))"
      using bounds(4) by (simp add: fp_carry_def single_def nat_eq_iff)
    have "fp_round single FE_TONEAREST False N 1 (int x - 190) =
        (let (m, q) = fp_carry single (nat ?R) (int x - 150) in if 104 < q then Infinity False else Fin False m q)"
      using False q m by (simp add: fp_round_def one Let_def emax_single split: prod.split)
    note round = this [unfolded carry]
    have R': "round_half_even (int N mod 2 ^ 63) (2 ^ 40) = ?R - 2 ^ 23 * of_bool (E \<noteq> 0)"
      using R div by simp
    consider "?R = 2 ^ 24" "1 \<le> E" | "?R < 2 ^ 23" "E = 0" | "?R < 2 ^ 24" "2 ^ 23 \<le> ?R"
      using bounds by fastforce
    then show ?thesis
    proof cases
      case 1
      then show ?thesis unfolding round R' using assms(2) by (auto simp: single_def x_def)
    next
      case 2
      then show ?thesis unfolding round R' using bounds(4) by (simp add: single_def x_def nat_less_iff)
    next
      case 3
      then show ?thesis unfolding round R' using assms(2) bounds(3)
        by (cases "E = 0") (auto simp: single_def x_def nat_less_iff of_nat_diff)
    qed
  qed
qed

text \<open>\<^verbatim>\<open>roundsn\<close> computes the single length number nearest to the fraction in
  registers B and A with the biased exponent in C, ties to even: the pattern is that of rounding the
  exact value to the format \<^verbatim>\<open>float\<close>. The fraction is normalised, or the exponent is zero.\<close>

lemma ins_roundsn_rounds:
  assumes "0 \<le> sint (CREG e s)" "sint (CREG e s) < 255" "CREG e s = 0 \<longleftrightarrow> 0 \<le> sint (BREG e s)"
  shows "\<exists>f. ins_roundsn e s = STACK1_RET e f s \<and>
    unat f = bits_of_fp single nan (fp_round single FE_TONEAREST False
      (unat (BREG e s) * 2 ^ 32 + unat (AREG e s)) 1 (int (max (unat (CREG e s)) 1) - 190))"
proof -
  let ?a = "uint (AREG e s)" and ?b = "uint (BREG e s)" and ?E = "unat (CREG e s)"
  let ?N = "unat (BREG e s) * 2 ^ 32 + unat (AREG e s)"
  have C: "int ?E = sint (CREG e s)"
  proof -
    have "uint (CREG e s) = sint (CREG e s)"
      using assms(1) sint_uint_diff [of "CREG e s"] by (auto split: if_splits)
    then show ?thesis by simp
  qed
  have ab: "0 \<le> ?a" "?a < 4294967296" "0 \<le> ?b" "?b < 4294967296" using uint_range32 by blast+
  have N: "int ?N = ?b * 2 ^ 32 + ?a" by simp
  have "sint (BREG e s) < 0 \<longleftrightarrow> 2147483648 \<le> ?b"
    using bit31_iff [of "BREG e s"] bit31_uint [of "BREG e s"] by simp
  moreover have "?E = 0 \<longleftrightarrow> CREG e s = 0" by (simp add: unat_eq_zero)
  ultimately have E0: "?E = 0 \<longleftrightarrow> ?b < 2147483648" using assms(3) by linarith
  have N': "int ?N = ?b * 4294967296 + ?a" using N by simp
  have low: "?b < 2147483648 \<Longrightarrow> int ?N < 9223372036854775808"
    "2147483648 \<le> ?b \<Longrightarrow> 9223372036854775808 \<le> int ?N" "int ?N < 18446744073709551616"
    using ab unfolding N' by linarith+
  have N1: "1 \<le> ?E \<and> 2 ^ 63 \<le> ?N \<and> ?N < 2 ^ 64 \<or> ?E = 0 \<and> ?N < 2 ^ 63"
  proof (cases "?E = 0")
    case True
    then have "int ?N < int (2 ^ 63)" using E0 low(1) by simp
    then have "?N < 2 ^ 63" by (simp only: of_nat_less_iff)
    then show ?thesis using True by blast
  next
    case False
    then have "int (2 ^ 63) \<le> int ?N" "int ?N < int (2 ^ 64)" using E0 low(2,3) by simp_all
    then have "2 ^ 63 \<le> ?N" "?N < 2 ^ 64" by (simp_all only: of_nat_less_iff of_nat_le_iff)
    moreover have "1 \<le> ?E" using False by linarith
    ultimately show ?thesis by blast
  qed
  have N2: "int ?N mod 2 ^ 63 = ?b mod 2 ^ 31 * 2 ^ 32 + ?a"
  proof -
    have "?b mod 2 ^ 31 * 2 ^ 32 + ?a = int ?N - 2 ^ 63 * (?b div 2 ^ 31)"
      unfolding N by (simp add: minus_div_mult_eq_mod [symmetric])
    moreover have "?b mod 2 ^ 31 * 2 ^ 32 + ?a < 2 ^ 63" using ab pos_mod_bound [of "2 ^ 31" ?b] by simp
    ultimately show ?thesis using ab by (intro int_mod_pos_eq [of _ _ "?b div 2 ^ 31"]) simp_all
  qed
  obtain f where f: "ins_roundsn e s = STACK1_RET e f s"
    "uint f = int ?E * 2 ^ 23 + round_half_even (?b mod 2 ^ 31 * 2 ^ 32 + ?a) (2 ^ 40)"
    using roundsn_number [OF assms(1,2)] unfolding C by blast
  have "?E \<le> 254" using assms(2) C by linarith
  from single_bits [OF this N1, of nan] have "int (unat f) = int (bits_of_fp single nan
      (fp_round single FE_TONEAREST False ?N 1 (int (max ?E 1) - 190)))"
    unfolding N2 f(2) [symmetric] by simp
  then show ?thesis using f(1) by (simp only: of_nat_eq_iff) blast
qed

text \<open>C40: \<^verbatim>\<open>roundsn\<close> packs a fraction of 64 bits in the registers B and A with the biased exponent in C. The pattern it leaves is
  that of the single length number nearest to the exact value, ties to even, also for denormalised numbers and when rounding
  carries into the exponent, up to infinity; for an exponent of 255 or more it is that of infinity. The exponent is not negative,
  and the fraction has its highest bit set unless the exponent is zero.\<close>

theorem roundsn_packs_nearest:
  assumes "0 \<le> sint (CREG e s)" "CREG e s = 0 \<longleftrightarrow> 0 \<le> sint (BREG e s)"
  shows "\<exists>f. ins_roundsn e s = STACK1_RET e f s \<and>
    unat f = bits_of_fp single nan (if 255 \<le> sint (CREG e s) then Infinity False
      else fp_round single FE_TONEAREST False (unat (BREG e s) * 2 ^ 32 + unat (AREG e s)) 1 (int (max (unat (CREG e s)) 1) - 190))"
proof (cases "255 \<le> sint (CREG e s)")
  case True
  then have "ins_roundsn e s = STACK1_RET e FP_INFINITY s" by (simp add: ins_roundsn_def word_sle_eq)
  moreover have "unat FP_INFINITY = bits_of_fp single nan (Infinity False)" by (simp add: single_def)
  ultimately show ?thesis using True by auto
next
  case False
  then show ?thesis using ins_roundsn_rounds [OF assms(1) _ assms(2), of nan] by simp
qed

section \<open>Denormalising\<close>

lemma postnorm_dword:
  fixes a b :: WORD
  shows "push_bit 32 (scast b) OR scast a = dword (if sint a < 0 then - 1 else b) a"
  unfolding dword_def bit31_iff [symmetric]
proof (rule bit_word_eqI)
  fix n assume "n < LENGTH(64)"
  then have "n < 31 \<or> n = 31 \<or> 32 \<le> n \<and> n < 63 \<or> n = 63" by simp arith
  then consider "n < 31" | "n = 31" | i where "n = 32 + i" "i < 31" | "n = 63"
    using le_Suc_ex [of 32 n] by force
  moreover have "\<not> bit a (32 + i)" for i using bit_imp_le_length [of a "32 + i"] by auto
  moreover have "\<not> bit a 63" using bit_imp_le_length [of a 63] by auto
  ultimately show "bit (push_bit 32 (scast b) OR scast a :: UDWORD) n \<longleftrightarrow>
      bit (push_bit 32 (ucast (if bit a 31 then - 1 else b)) OR ucast a :: UDWORD) n"
    by cases (auto simp: bit_simps)
qed

lemma split_dword:
  fixes x :: UDWORD
  shows "dword_value (ucast (drop_bit 32 x)) (ucast (x AND 0xFFFFFFFF)) = uint x"
  unfolding dword_value_def low_word
  by (subst ucast_of_dword(2)) (simp only: ucast_of_dword(1) div_mult_mod_eq)

lemma ins_postnormsn_number:
  assumes "- 32 < sint (WORKSPACE_GET s (WPTR e s) WS_TEMP - CREG e s)"
    "sint (WORKSPACE_GET s (WPTR e s) WS_TEMP - CREG e s) \<le> 0"
  defines "shift \<equiv> nat (1 - sint (WORKSPACE_GET s (WPTR e s) WS_TEMP - CREG e s))"
  shows "\<exists>s'. ins_postnormsn e s = Some (ECTX_CONTINUE, s') \<and> CREG e s' = 0 \<and> mem s' = mem s \<and>
    dword_value (BREG e s') (AREG e s') =
      dword_value (if sint (AREG e s) < 0 then - 1 else BREG e s) (AREG e s) div 2 ^ shift"
proof -
  let ?x = "WORKSPACE_GET s (WPTR e s) WS_TEMP - CREG e s"
  let ?d = "drop_bit shift (dword (if sint (AREG e s) < 0 then - 1 else BREG e s) (AREG e s))"
  have "sint (1 - ?x) = 1 - sint ?x"
    using assms(1,2) by (simp add: sint_sub_exact in_range_def)
  then have "ins_postnormsn e s = STACK_RET e (ucast (?d AND 0xFFFFFFFF)) (ucast (drop_bit 32 ?d)) 0 s"
    using assms(1,2) unfolding ins_postnormsn_def Let_def postnorm_dword
    by (simp add: word_sle_eq shift_def)
  then show ?thesis
    using split_dword [of ?d] by (simp add: step_defs uint_drop_bit uint_dword)
qed

text \<open>\<^verbatim>\<open>postnormsn\<close> on a number too small to be normalised shifts the fraction right until
  its exponent is that of the denormalised numbers. The guard word is signed in the code and widened
  with its sign: when its top bit is set, the upper word of the fraction is lost and ones take its
  place.\<close>

lemma ins_postnormsn_denormal:
  assumes "- 32 < sint (WORKSPACE_GET s (WPTR e s) WS_TEMP - CREG e s)"
    "sint (WORKSPACE_GET s (WPTR e s) WS_TEMP - CREG e s) \<le> 0"
  defines "shift \<equiv> nat (1 - sint (WORKSPACE_GET s (WPTR e s) WS_TEMP - CREG e s))"
  shows "\<exists>s'. ins_postnormsn e s = Some (ECTX_CONTINUE, s') \<and> CREG e s' = 0 \<and> mem s' = mem s \<and>
    dword_value (BREG e s') (AREG e s') =
      dword_value (if sint (AREG e s) < 0 then - 1 else BREG e s) (AREG e s) div 2 ^ shift"
  unfolding shift_def by (rule ins_postnormsn_number) (use assms in simp_all)

section \<open>Unpacking and rounding back\<close>

text \<open>
  What a program does to a number it unpacks: \<^verbatim>\<open>unpacksn\<close>, the exponent into the slot
  \<^verbatim>\<open>postnormsn\<close> reads, an empty guard word below the fraction, \<^verbatim>\<open>norm\<close>,
  \<^verbatim>\<open>postnormsn\<close>, \<^verbatim>\<open>roundsn\<close>.
\<close>

definition unpack_and_round :: "WORD \<Rightarrow> tvm \<Rightarrow> result" where
  "unpack_and_round e s =
     then_ins (ins_unpacksn e s) (\<lambda>s.
       let s = WORKSPACE_SET (WPTR e s) WS_TEMP (BREG e s) s;
           s = STACK e 0 (AREG e s) (CREG e s) s
       in then_ins (ins_norm e s) (\<lambda>s. then_ins (ins_postnormsn e s) (ins_roundsn e)))"

text \<open>The three steps after unpacking, on a fraction \<open>m\<close> with exponent \<open>x\<close>.\<close>

lemma norm_fraction:
  assumes "m \<noteq> 0"
  shows "\<exists>k b. ins_norm e (STACK e 0 m c s) = Some (ECTX_CONTINUE, STACK e 0 b (of_nat k) s) \<and> k \<le> 31 \<and>
    uint b = uint m * 2 ^ k \<and> 2 ^ 31 \<le> uint b"
proof -
  have m: "0 < uint m" using assms by (simp add: word_uint_eq_iff order_less_le)
  have v: "dword_value m 0 = uint m * 2 ^ 32" by (simp add: dword_value_def)
  have "2 ^ 63 \<le> dword_value m 0 * 2 ^ 31" using m unfolding v by simp
  then obtain a b k where n: "norm_loop 0 m 0 = Some (a, b, of_nat k)" "k \<le> 31"
    "2 ^ 63 \<le> dword_value b a" "dword_value b a = uint m * 2 ^ 32 * 2 ^ k"
    using norm_loop_normalises [of m 0 31 0] unfolding v by auto
  have "uint a = (uint b * 2 ^ 32 + uint a) mod 2 ^ 32" using uint_range32 [of a] by simp
  also have "uint b * 2 ^ 32 + uint a = uint m * 2 ^ k * 2 ^ 32" using n(4) by (simp add: dword_value_def)
  finally have a: "a = 0" by (simp add: word_uint_eq_iff)
  then have b: "uint b = uint m * 2 ^ k" "2 ^ 31 \<le> uint b" using n(3,4) by (simp_all add: dword_value_def)
  have order: "x\<lparr>breg := b, areg := 0, creg := c\<rparr> = x\<lparr>areg := 0, breg := b, creg := c\<rparr>" for x :: ectx and c
    by (cases x) simp
  have "ins_norm e (STACK e 0 m c s) = Some (ECTX_CONTINUE, STACK e 0 b (of_nat k) s)"
    using assms n(1) a by (simp add: order ins_norm_def Let_def step_defs upd_ectx_def)
  then show ?thesis using n(2) b by blast
qed

lemma unpacksn_fields:
  fixes s :: tvm and e :: WORD
  defines "ex \<equiv> uint (AREG e s) div 2 ^ 23 mod 256" and "fr \<equiv> uint (AREG e s) mod 2 ^ 23"
  assumes "ex \<noteq> 255"
  shows "\<exists>m x c. ins_unpacksn e s = Some (ECTX_CONTINUE, STACK e m x c s) \<and>
    uint m = fr * 256 + (if ex = 0 then 0 else 2 ^ 31) \<and>
    x = (if ex = 0 \<and> fr \<noteq> 0 then 1 else word_of_int ex)"
proof -
  let ?A = "AREG e s"
  define x where "x = signed_drop_bit 23 ?A AND 0xFF"
  define m where "m = push_bit 8 (?A AND 0x7FFFFF)"
  have x: "uint x = ex"
    unfolding x_def field_bits and_masks uint_drop_bit ex_def by simp
  have m: "uint m = fr * 256" unfolding m_def uint_push_bit and_masks fr_def by simp
  have "m OR 0x80000000 = m + 0x80000000"
  proof (rule disjunctive_add [symmetric])
    fix n
    have "\<not> bit m 31" using m pos_mod_bound [of "2 ^ 23" "uint ?A"] by (simp add: bit31_uint fr_def)
    then show "\<not> bit m n \<or> \<not> bit (0x80000000 :: WORD) n" unfolding bit_min_int by auto
  qed
  then have "uint (m OR 0x80000000) = uint m + 2 ^ 31"
    using m pos_mod_bound [of "2 ^ 23" "uint ?A"] by (simp add: uint_word_ariths fr_def)
  moreover have "x = word_of_int ex" using x by (simp add: word_uint_eq_iff flip: x)
  moreover have "x = 0 \<longleftrightarrow> ex = 0" "x \<noteq> 0xFF" "m = 0 \<longleftrightarrow> fr = 0"
    using x m assms(3) by (auto simp: word_uint_eq_iff)
  ultimately show ?thesis
    using m unfolding ins_unpacksn_def Let_def x_def [symmetric] m_def [symmetric]
    by (auto simp: step_defs)
qed

lemma roundsn_packs:
  assumes "AREG e t = 0" "sint (CREG e t) = x" "0 \<le> x" "x < 255" "uint (BREG e t) mod 2 ^ 31 = fr * 256"
  shows "\<exists>f. ins_roundsn e t = STACK1_RET e f t \<and> uint f = x * 2 ^ 23 + fr"
proof -
  have "round_half_even (fr * 256 * 2 ^ 32) (2 ^ 40) = fr"
    using round_half_even_of_mult [of "2 ^ 40" fr] by (simp add: mult.commute)
  then show ?thesis using roundsn_number [of t e] assms by simp
qed

lemma sint_small: "0 \<le> x \<Longrightarrow> x < 2147483648 \<Longrightarrow> sint (word_of_int x :: WORD) = x"
  by (simp add: sint_of_int_exact in_range_def)

text \<open>A fraction and its exponent, as \<^verbatim>\<open>unpacksn\<close> gives them, go through the three steps to
  the exponent of the number and a fraction with the same low bits.\<close>

lemma norm_postnorm:
  assumes "0 \<le> ex" "ex < 255" "0 \<le> fr" "fr < 2 ^ 23"
    "uint m = fr * 256 + (if ex = 0 then 0 else 2 ^ 31)"
    "WORKSPACE_GET s (WPTR e s) WS_TEMP = (if ex = 0 \<and> fr \<noteq> 0 then 1 else word_of_int ex)"
  shows "\<exists>t. then_ins (ins_norm e (STACK e 0 m c s)) (ins_postnormsn e) = Some (ECTX_CONTINUE, t) \<and>
    AREG e t = 0 \<and> sint (CREG e t) = ex \<and> uint (BREG e t) mod 2 ^ 31 = fr * 256"
proof (cases "m = 0")
  case True
  then have "ex = 0" "fr = 0" using assms(1,3,5) by (auto split: if_splits)
  then show ?thesis
    using True assms(6)
    by (simp add: ins_norm_def ins_postnormsn_def Let_def step_defs word_sle_eq sint_sub32 WORKSPACE_GET_def)
next
  case False
  then obtain k b where n: "ins_norm e (STACK e 0 m c s) = Some (ECTX_CONTINUE, STACK e 0 b (of_nat k) s)"
    "k \<le> 31" "uint b = uint m * 2 ^ k" "2 ^ 31 \<le> uint b"
    using norm_fraction by blast
  let ?t = "STACK e 0 b (of_nat k) s"
  have t: "AREG e ?t = 0" "BREG e ?t = b" "CREG e ?t = of_nat k" "WPTR e ?t = WPTR e s"
    "WORKSPACE_GET ?t (WPTR e s) WS_TEMP = WORKSPACE_GET s (WPTR e s) WS_TEMP"
    by (simp_all add: STACK_def)
  show ?thesis
  proof (cases "ex = 0")
    case True
    then have fr: "0 < fr" "uint m = fr * 256" using False assms(3,5) by (auto simp: word_uint_eq_iff)
    have x: "WORKSPACE_GET ?t (WPTR e ?t) WS_TEMP - CREG e ?t = word_of_int (1 - int k)"
      using True fr(1) assms(6) t by simp
    have k: "1 \<le> k" "k \<le> 23"
    proof -
      show "1 \<le> k" using n(3,4) fr(2) assms(4) by (cases "k = 0") simp_all
      show "k \<le> 23"
      proof (rule ccontr)
        assume "\<not> k \<le> 23"
        then have "(2 :: int) ^ 24 \<le> 2 ^ k" by (intro power_increasing) simp_all
        then have "1 * 256 * 2 ^ 24 \<le> uint m * 2 ^ k"
          using fr unfolding fr(2) by (intro mult_mono) simp_all
        then show False using uint_range32 [of b] n(3) by simp
      qed
    qed
    have "sint (word_of_int (1 - int k) :: WORD) = 1 - int k"
      using k by (intro sint_of_int_exact) (simp add: in_range_def)
    then obtain u where u: "ins_postnormsn e ?t = Some (ECTX_CONTINUE, u)" "CREG e u = 0"
      "dword_value (BREG e u) (AREG e u) = dword_value b 0 div 2 ^ k"
      using ins_postnormsn_number [of ?t e] k t unfolding x by auto
    have "dword_value b 0 = uint m * 2 ^ 32 * 2 ^ k" unfolding dword_value_def n(3) by simp
    then have "uint (BREG e u) * 2 ^ 32 + uint (AREG e u) = uint m * 2 ^ 32"
      using u(3) unfolding dword_value_def [of "BREG e u"] by simp
    then have "uint (BREG e u) = uint m" "uint (AREG e u) = 0"
      using multiple_of_range [of "uint m - uint (BREG e u)" "uint (AREG e u)" 0] uint_range32 [of "AREG e u"]
      by (simp_all add: algebra_simps)
    moreover from this have "AREG e u = 0" by (simp add: word_uint_eq_iff)
    moreover have "fr * 256 mod 2 ^ 31 = fr * 256" using assms(3,4) by simp
    ultimately show ?thesis using n(1) u(1,2) True fr by auto
  next
    case False
    then have m: "uint m = fr * 256 + 2 ^ 31" using assms(5) by simp
    have "k = 0"
    proof (rule ccontr)
      assume "k \<noteq> 0"
      then have "(2 :: int) ^ 1 \<le> 2 ^ k" by (intro power_increasing) simp_all
      then have "2 ^ 31 * 2 \<le> uint m * 2 ^ k" using assms(3) unfolding m by (intro mult_mono) simp_all
      then show False using uint_range32 [of b] n(3) by simp
    qed
    then have b: "b = m" using n(3) by (simp add: word_uint_eq_iff)
    have "sint (word_of_int ex :: WORD) = ex" using assms(1,2) by (intro sint_small) simp_all
    then have "ins_postnormsn e ?t = Some (ECTX_CONTINUE, STACK e 0 b (word_of_int ex) ?t)"
      using False assms(1,6) \<open>k = 0\<close> t by (simp add: ins_postnormsn_def Let_def word_sle_eq continue_def)
    moreover have "uint m mod 2 ^ 31 = fr * 256" using assms(3,4) by (simp add: m)
    ultimately show ?thesis
      using n(1) b \<open>sint (word_of_int ex :: WORD) = ex\<close> by (simp add: STACK_def)
  qed
qed

text \<open>Unpacking a finite single length number and rounding it back gives the number without
  its sign, zeros and denormalised numbers included.\<close>

lemma unpack_round_trip:
  assumes "uint (AREG e s) div 2 ^ 23 mod 256 \<noteq> 255"
  shows "\<exists>s'. unpack_and_round e s = Some (ECTX_CONTINUE, s') \<and> AREG e s' = AREG e s AND 0x7FFFFFFF"
proof -
  let ?ex = "uint (AREG e s) div 2 ^ 23 mod 256" and ?fr = "uint (AREG e s) mod 2 ^ 23"
  have ex: "0 \<le> ?ex" "?ex < 255" and fr: "0 \<le> ?fr" "?fr < 2 ^ 23"
    using assms pos_mod_bound [of 256 "uint (AREG e s) div 2 ^ 23"] by simp_all
  obtain m x c where u: "ins_unpacksn e s = Some (ECTX_CONTINUE, STACK e m x c s)"
    "uint m = ?fr * 256 + (if ?ex = 0 then 0 else 2 ^ 31)" "x = (if ?ex = 0 \<and> ?fr \<noteq> 0 then 1 else word_of_int ?ex)"
    using unpacksn_fields [OF assms] by blast
  let ?t = "WORKSPACE_SET (WPTR e s) WS_TEMP x (STACK e m x c s)"
  have "WORKSPACE_GET ?t (WPTR e ?t) WS_TEMP = x"
    by (simp add: WORKSPACE_GET_def WORKSPACE_SET_def STACK_def)
  then obtain t where t: "then_ins (ins_norm e (STACK e 0 m c ?t)) (ins_postnormsn e) = Some (ECTX_CONTINUE, t)"
    "AREG e t = 0" "sint (CREG e t) = ?ex" "uint (BREG e t) mod 2 ^ 31 = ?fr * 256"
    using norm_postnorm [OF ex fr u(2), of ?t e c] u(3) by auto
  obtain f where f: "ins_roundsn e t = STACK1_RET e f t" "uint f = ?ex * 2 ^ 23 + ?fr"
    using roundsn_packs [OF t(2,3) ex t(4)] by blast
  have "f = AREG e s AND 0x7FFFFFFF"
  proof -
    have "(0x7FFFFFFF :: WORD) = mask 31" by (simp add: mask_eq_exp_minus_1)
    then have "AREG e s AND 0x7FFFFFFF = take_bit 31 (AREG e s)" by (simp only: take_bit_eq_mask)
    then have "uint (AREG e s AND 0x7FFFFFFF) = uint (AREG e s) mod 2 ^ 31"
      by (simp only: unsigned_take_bit_eq) (simp add: take_bit_eq_mod)
    also have "\<dots> = uint f" unfolding f(2) using mod_mult2_eq' [of "uint (AREG e s)" "2 ^ 23" 256] by simp
    finally show ?thesis by (simp add: word_uint_eq_iff)
  qed
  moreover have "unpack_and_round e s = ins_roundsn e t"
    using u(1) t(1) by (auto simp: unpack_and_round_def then_ins_def STACK_def split: option.splits prod.splits if_splits)
  ultimately show ?thesis using f(1) by (simp add: step_defs)
qed

section \<open>Examples\<close>

definition three_words :: "WORD \<Rightarrow> WORD \<Rightarrow> WORD \<Rightarrow> tvm" where
  "three_words a b c = STACK 1 a b c blank"

lemma three_words_simps [simp]:
  "AREG 1 (three_words a b c) = a" "BREG 1 (three_words a b c) = b" "CREG 1 (three_words a b c) = c"
  "WPTR 1 (three_words a b c) = 0" "WORKSPACE_GET (three_words a b c) p k = 0"
  by (simp_all add: three_words_def STACK_def WORKSPACE_GET_def)

lemma ins_fmul_rounds_witness:
  "\<exists>s'. ins_fmul 1 (three_words 0x40000000 0x60000000 7) = Some (ECTX_CONTINUE, s') \<and> sint (AREG 1 s') = 0x30000000"
  using ins_fmul_rounds [of "three_words 0x40000000 0x60000000 7" 1] by (auto simp: round_half_even_def)

theorem roundsn_packs_nearest_witness:
  "\<exists>f. ins_roundsn 1 (three_words 0 0x80000080 127) = STACK1_RET 1 f (three_words 0 0x80000080 127) \<and>
     unat f = bits_of_fp single 0 (fp_round single FE_TONEAREST False (0x80000080 * 2 ^ 32) 1 (- 63))"
  using roundsn_packs_nearest [of "three_words 0 0x80000080 127" 1 0] by simp

lemma ins_postnormsn_denormal_witness:
  "\<exists>s'. ins_postnormsn 1 (three_words 0x80000000 0x90000000 3) = Some (ECTX_CONTINUE, s') \<and>
     dword_value (BREG 1 s') (AREG 1 s') = 0xFFFFFFFF80000000 div 16"
  using ins_postnormsn_denormal [of "three_words 0x80000000 0x90000000 3" 1] by (auto simp: dword_value_def unsigned_minus_1_eq_mask mask_eq_exp_minus_1)

lemma unpack_round_trip_witness:
  "\<exists>s'. unpack_and_round 1 (three_words 0x80000003 0 0) = Some (ECTX_CONTINUE, s') \<and> AREG 1 s' = 3"
  using unpack_round_trip [of "three_words 0x80000003 0 0" 1] by simp

end
