(* ===== verification/Tvm_Mem_Variants.thy ===== *)
theory Tvm_Mem_Variants
  imports Tvm_Memory Tvm_Ieee
begin

text \<open>
  Two more implementations of the accessors of \<^verbatim>\<open>tvm_mem_intf.h\<close>: over an array, with a check of
  the address (\<^verbatim>\<open>mem_array.c\<close>), and over the program and data memories of the AVR, which are 16
  bits wide (\<^verbatim>\<open>mem_avr.c\<close>).
\<close>

section \<open>An array\<close>

text \<open>
  The host's address of \<^verbatim>\<open>memory_array\<close> and the variable \<^verbatim>\<open>mem_size\<close>. \<open>None\<close> is the call of
  \<^verbatim>\<open>exit_runloop\<close> for a bad address.
\<close>

record mem_array =
  memory_array :: WORD
  mem_size :: WORD

definition setup_mem :: "WORD \<Rightarrow> WORD \<Rightarrow> mem_array" where
  "setup_mem ptr sz = \<lparr>memory_array = ptr, mem_size = sz\<rparr>"

definition check_addr :: "mem_array \<Rightarrow> WORD \<Rightarrow> 'r \<Rightarrow> 'r option" where
  "check_addr a ptr r = (if ptr <s 0 \<or> mem_size a \<le>s ptr then None else Some r)"

definition array_read_word :: "mem_array \<Rightarrow> memory \<Rightarrow> WORD \<Rightarrow> WORD option" where
  "array_read_word a m ptr = check_addr a ptr (read_word m (memory_array a + ptr))"

definition array_write_word :: "mem_array \<Rightarrow> memory \<Rightarrow> WORD \<Rightarrow> WORD \<Rightarrow> memory option" where
  "array_write_word a m ptr v = check_addr a ptr (write_word m (memory_array a + ptr) v)"

definition array_read_byte :: "mem_array \<Rightarrow> memory \<Rightarrow> WORD \<Rightarrow> BYTE option" where
  "array_read_byte a m ptr = check_addr a ptr (m (memory_array a + ptr))"

definition array_write_byte :: "mem_array \<Rightarrow> memory \<Rightarrow> WORD \<Rightarrow> BYTE \<Rightarrow> memory option" where
  "array_write_byte a m ptr v = check_addr a ptr (m(memory_array a + ptr := v))"

definition array_real_address :: "mem_array \<Rightarrow> WORD \<Rightarrow> WORD option" where
  "array_real_address a ptr = check_addr a ptr (memory_array a + ptr)"

text \<open>Numbers: \<^verbatim>\<open>float\<close> in a word, \<^verbatim>\<open>double\<close> in two.\<close>

definition array_read_wordf :: "mem_array \<Rightarrow> memory \<Rightarrow> WORD \<Rightarrow> fp option" where
  "array_read_wordf a m ptr = check_addr a ptr (fp_of_bits single (unat (read_word m (memory_array a + ptr))))"

definition array_write_wordf :: "nat \<Rightarrow> mem_array \<Rightarrow> memory \<Rightarrow> WORD \<Rightarrow> fp \<Rightarrow> memory option" where
  "array_write_wordf nan a m ptr v =
     check_addr a ptr (write_word m (memory_array a + ptr) (word_of_nat (bits_of_fp single nan v)))"

definition array_read_wordd :: "mem_array \<Rightarrow> memory \<Rightarrow> WORD \<Rightarrow> fp option" where
  "array_read_wordd a m ptr =
     (let p = memory_array a + ptr
      in check_addr a ptr (fp_of_bits double (unat (read_word m p) + 2 ^ 32 * unat (read_word m (p + 4)))))"

definition array_write_wordd :: "nat \<Rightarrow> mem_array \<Rightarrow> memory \<Rightarrow> WORD \<Rightarrow> fp \<Rightarrow> memory option" where
  "array_write_wordd nan a m ptr v =
     (let p = memory_array a + ptr; bits = bits_of_fp double nan v
      in check_addr a ptr (write_word (write_word m p (word_of_nat bits)) (p + 4) (word_of_nat (bits div 2 ^ 32))))"

text \<open>The address of a word is good when its first byte is in the array.\<close>

definition in_array :: "mem_array \<Rightarrow> WORD \<Rightarrow> bool" where
  "in_array a ptr \<longleftrightarrow> 0 \<le> sint ptr \<and> sint ptr < sint (mem_size a)"

lemma check_addr_in_array: "check_addr a ptr r = (if in_array a ptr then Some r else None)"
  by (auto simp: check_addr_def in_array_def word_sless_alt word_sle_eq)

text \<open>Words that lie in the array read back, and writing them changes nothing outside it.\<close>

lemma array_word_inside:
  assumes "0 \<le> sint ptr" "sint ptr + 4 \<le> sint (mem_size a)"
  shows "\<exists>m'. array_write_word a m ptr v = Some m' \<and> array_read_word a m' ptr = Some v \<and>
    (\<forall>x. uint (mem_size a) \<le> uint (x - memory_array a) \<longrightarrow> m' x = m x)"
proof -
  have ok: "in_array a ptr" using assms by (simp add: in_array_def)
  have u: "uint ptr = sint ptr" "uint (mem_size a) = sint (mem_size a)"
    using assms sint_uint_diff [of ptr] sint_uint_diff [of "mem_size a"] by (auto split: if_splits)
  have "write_word m (memory_array a + ptr) v x = m x" if x: "uint (mem_size a) \<le> uint (x - memory_array a)" for x
  proof (rule write_word_outside)
    have "uint (x - memory_array a - ptr) = uint (x - memory_array a) - uint ptr"
      using x assms u by (simp add: uint_sub_if')
    then have "4 \<le> uint (x - memory_array a - ptr)" using x assms u by linarith
    then show "4 \<le> x - (memory_array a + ptr)" by (simp add: word_le_def diff_diff_eq)
  qed
  then show ?thesis using ok by (simp add: array_write_word_def array_read_word_def check_addr_in_array)
qed

text \<open>Only the first byte of a word is checked: writing one at the last address of the array is
  accepted and changes the byte after the array.\<close>

lemma array_word_beyond:
  assumes "sint ptr = sint (mem_size a) - 1" "0 < sint (mem_size a)"
  shows "array_write_word a m ptr 0xFFFF = Some (write_word m (memory_array a + ptr) 0xFFFF) \<and>
    write_word m (memory_array a + ptr) 0xFFFF (memory_array a + mem_size a) = 0xFF"
proof -
  have "sint (ptr + 1) = sint (mem_size a)"
    using assms sint_range32 [of "mem_size a"] by (subst sint_add_exact) (simp_all add: in_range_def)
  then have "mem_size a = ptr + 1" by (simp add: sint_eq_iff)
  moreover have "in_array a ptr" using assms by (simp add: in_array_def)
  ultimately show ?thesis by (simp add: array_write_word_def check_addr_in_array write_word_def add.assoc)
qed

section \<open>The AVR\<close>

type_synonym AVR_WORD = "16 word"
type_synonym avr_memory = "AVR_WORD \<Rightarrow> BYTE"

text \<open>The program memory \<open>pgm\<close> appears above \<^verbatim>\<open>progmem_base\<close>, the data memory \<open>ram\<close> below.\<close>

abbreviation (input) progmem_base :: AVR_WORD where "progmem_base \<equiv> 0x8000"

definition is_progmem :: "AVR_WORD \<Rightarrow> bool" where
  "is_progmem ptr \<longleftrightarrow> ptr \<ge> progmem_base"

definition addr_to_progmem :: "AVR_WORD \<Rightarrow> AVR_WORD" where
  "addr_to_progmem ptr = ptr - progmem_base"

definition tvm_addr_from_progmem :: "AVR_WORD \<Rightarrow> AVR_WORD" where
  "tvm_addr_from_progmem ptr = ptr + progmem_base"

definition avr_word :: "avr_memory \<Rightarrow> AVR_WORD \<Rightarrow> AVR_WORD" where
  "avr_word m p = ucast (m p) OR push_bit 8 (ucast (m (p + 1)))"

definition avr_dword :: "avr_memory \<Rightarrow> AVR_WORD \<Rightarrow> nat" where
  "avr_dword m p = unat (avr_word m p) + 2 ^ 16 * unat (avr_word m (p + 2))"

definition avr_read_word :: "avr_memory \<Rightarrow> avr_memory \<Rightarrow> AVR_WORD \<Rightarrow> AVR_WORD" where
  "avr_read_word pgm ram ptr = (if is_progmem ptr then avr_word pgm (addr_to_progmem ptr) else avr_word ram ptr)"

definition avr_read_int16 :: "avr_memory \<Rightarrow> avr_memory \<Rightarrow> AVR_WORD \<Rightarrow> AVR_WORD" where
  "avr_read_int16 pgm ram ptr = avr_read_word pgm ram ptr"

definition avr_read_byte :: "avr_memory \<Rightarrow> avr_memory \<Rightarrow> AVR_WORD \<Rightarrow> BYTE" where
  "avr_read_byte pgm ram ptr = (if is_progmem ptr then pgm (addr_to_progmem ptr) else ram ptr)"

text \<open>Numbers in program memory are read by their patterns. In data memory the word at the address
  is converted: its pointer has type \<^verbatim>\<open>WORDPTR\<close>.\<close>

definition avr_read_wordf :: "avr_memory \<Rightarrow> avr_memory \<Rightarrow> AVR_WORD \<Rightarrow> fp" where
  "avr_read_wordf pgm ram ptr =
     (if is_progmem ptr then fp_of_bits single (avr_dword pgm (addr_to_progmem ptr))
      else fp_of_int single FE_TONEAREST (sint (avr_word ram ptr)))"

definition avr_read_wordd :: "avr_memory \<Rightarrow> avr_memory \<Rightarrow> AVR_WORD \<Rightarrow> fp" where
  "avr_read_wordd pgm ram ptr =
     (if is_progmem ptr
      then fp_of_bits double (avr_dword pgm (addr_to_progmem ptr) + 2 ^ 32 * avr_dword pgm (addr_to_progmem (ptr + 4)))
      else fp_of_int double FE_TONEAREST (sint (avr_word ram ptr)))"

lemma progmem_round_trip:
  assumes "\<not> is_progmem p"
  shows "is_progmem (tvm_addr_from_progmem p)" "addr_to_progmem (tvm_addr_from_progmem p) = p"
proof -
  have "unat p < 32768" using assms by (simp add: is_progmem_def word_le_nat_alt not_le)
  then show "is_progmem (tvm_addr_from_progmem p)"
    by (simp add: is_progmem_def tvm_addr_from_progmem_def word_le_nat_alt unat_word_ariths)
qed (simp add: addr_to_progmem_def tvm_addr_from_progmem_def)

text \<open>A word of program memory is read through the interface at its address in the machine.\<close>

lemma avr_reads_progmem: "\<not> is_progmem p \<Longrightarrow> avr_read_word pgm ram (tvm_addr_from_progmem p) = avr_word pgm p"
  by (simp add: avr_read_word_def progmem_round_trip)

text \<open>The pattern of one, 0x3F800000, in data memory is read as zero.\<close>

lemma avr_float_in_ram:
  assumes "avr_word ram p = 0" "avr_word ram (p + 2) = 0x3F80" "\<not> is_progmem p"
  shows "avr_read_wordf pgm ram p = Fin False 0 (- 149)" "fp_of_bits single (avr_dword ram p) = Fin False (2 ^ 23) (- 23)"
  using assms by (simp_all add: avr_read_wordf_def avr_dword_def fp_of_int_def fp_of_bits_def single_def fp_round_def)

end
