(* ===== verification/Tvm_Ffi.thy ===== *)
theory Tvm_Ffi
  imports Tvm_Interp Tvm_Tencode
begin

text \<open>
  The state of the POSIX host (\<^verbatim>\<open>src/tvm/posix/tvm_posix.h\<close>), and the tables of foreign
  functions it builds for a bytecode file (\<^verbatim>\<open>src/tvm/posix/ffi.c\<close>). The dynamic linker is an
  argument of the model.
\<close>

section \<open>The state of the host\<close>

record ffi_entry =
  ffi_func :: WORD
  ffi_name :: string

text \<open>
  A \<^verbatim>\<open>bytecode_t\<close>; a context's \<^verbatim>\<open>priv\<close>; the machine with both by address. \<open>None\<close> is a null
  table of foreign functions, and \<open>dll_handles\<close> holds the handles before the null that ends them.
  Blocks given to \<^verbatim>\<open>free\<close> and handles of libraries that are unloaded are listed, the last first;
  the tables and names of foreign functions are not listed. \<open>open_files\<close> counts the files that are
  open.
\<close>

record bytecode =
  refcount :: int
  bc_source :: WORD
  bc_data :: WORD
  bc_length :: WORD
  bc_tbc :: WORD
  bc_ffi :: "ffi_entry list option"
  bc_ffi_length :: int
  dll_handles :: "WORD list"

record priv =
  priv_bytecode :: WORD
  priv_memory :: WORD
  priv_memory_length :: WORD

record posix =
  machine :: tvm
  bytecodes :: "WORD \<Rightarrow> bytecode"
  privs :: "WORD \<Rightarrow> priv"
  freed :: "WORD list"
  unloaded :: "WORD list"
  open_files :: nat

definition free :: "WORD \<Rightarrow> posix \<Rightarrow> posix" where
  "free p h = (if p = 0 then h else h\<lparr>freed := p # freed h\<rparr>)"

definition upd_bytecode :: "WORD \<Rightarrow> (bytecode \<Rightarrow> bytecode) \<Rightarrow> posix \<Rightarrow> posix" where
  "upd_bytecode b f h = h\<lparr>bytecodes := (bytecodes h)(b := f (bytecodes h b))\<rparr>"

lemma upd_bytecode_simps [simp]:
  "bytecodes (upd_bytecode b f h) c = (if c = b then f (bytecodes h b) else bytecodes h c)"
  "machine (upd_bytecode b f h) = machine h" "privs (upd_bytecode b f h) = privs h"
  "freed (upd_bytecode b f h) = freed h" "unloaded (upd_bytecode b f h) = unloaded h"
  "open_files (upd_bytecode b f h) = open_files h"
  by (simp_all add: upd_bytecode_def)

lemma free_simps [simp]:
  "machine (free p h) = machine h" "bytecodes (free p h) = bytecodes h" "privs (free p h) = privs h"
  "freed (free p h) = (if p = 0 then freed h else p # freed h)" "unloaded (free p h) = unloaded h"
  "open_files (free p h) = open_files h"
  by (simp_all add: free_def)

section \<open>Strings in memory\<close>

text \<open>A string up to its zero byte; \<open>None\<close> when there is none.\<close>

partial_function (option) c_string :: "memory \<Rightarrow> WORD \<Rightarrow> string option" where
  "c_string m p =
     (if m p = 0 then Some []
      else do { cs \<leftarrow> c_string m (p + 1); Some (char_of (unat (m p)) # cs) })"

text \<open>The names on a list of \<^verbatim>\<open>tenc_str_t\<close>, up to a null one.\<close>

partial_function (option) str_list :: "memory \<Rightarrow> WORD \<Rightarrow> string list option" where
  "str_list m str =
     (if str = 0 then Some []
      else if read_word m (str + 4) = 0 then Some []
      else do {
        name \<leftarrow> c_string m (read_word m (str + 4));
        names \<leftarrow> str_list m (read_word m str);
        Some (name # names)
      })"

section \<open>Libraries\<close>

text \<open>\<^verbatim>\<open>dlopen\<close> and \<^verbatim>\<open>dlsym\<close>, which give null on failure, and the directory the build sets.\<close>

record linker =
  dl_open :: "string \<Rightarrow> WORD"
  dl_sym :: "WORD \<Rightarrow> string \<Rightarrow> WORD"
  library_path :: string

definition load_library :: "linker \<Rightarrow> string \<Rightarrow> WORD" where
  "load_library dl name =
     (let handle = dl_open dl (take 4094 (''lib'' @ name @ ''.so''))
      in if handle = 0 then dl_open dl (take 4095 (library_path dl @ ''lib'' @ name @ ''.so'')) else handle)"

text \<open>The first loop: the handles of the libraries up to the first that does not open, and whether
  all did.\<close>

fun open_libraries :: "linker \<Rightarrow> string list \<Rightarrow> WORD list \<times> bool" where
  "open_libraries dl [] = ([], True)"
| "open_libraries dl (name # names) =
     (let lib = load_library dl name
      in if lib = 0 then ([], False)
         else case open_libraries dl names of (libs, ok) \<Rightarrow> (lib # libs, ok))"

text \<open>One symbol: its address, or null, and the number of its library.\<close>

fun search_libraries :: "linker \<Rightarrow> string \<Rightarrow> nat \<Rightarrow> WORD list \<Rightarrow> WORD \<times> nat" where
  "search_libraries dl name i [] = (0, i)"
| "search_libraries dl name i (lib # libs) =
     (let s = dl_sym dl lib name in if s \<noteq> 0 then (s, i) else search_libraries dl name (Suc i) libs)"

definition find_symbol :: "linker \<Rightarrow> WORD list \<Rightarrow> string \<Rightarrow> WORD \<Rightarrow> WORD \<times> nat" where
  "find_symbol dl libs name lib_n =
     (if 0 \<le> sint lib_n \<and> sint lib_n < int (length libs)
      then (dl_sym dl (libs ! nat (sint lib_n)) name, nat (sint lib_n))
      else search_libraries dl name 0 libs)"

text \<open>The entries from number \<open>i\<close> on; \<open>None\<close> inside when a symbol is not found.\<close>

fun resolve_symbols ::
    "linker \<Rightarrow> memory \<Rightarrow> WORD \<Rightarrow> string list \<Rightarrow> WORD list \<Rightarrow> nat \<Rightarrow> nat \<Rightarrow> ffi_entry list option option" where
  "resolve_symbols dl m entries names libs i 0 = Some (Some [])"
| "resolve_symbols dl m entries names libs i (Suc n) = do {
     name \<leftarrow> c_string m (read_word m (entries + 8 * word_of_nat i));
     (let (s, lib_n) = find_symbol dl libs name (read_word m (entries + 8 * word_of_nat i + 4))
      in if s = 0 then Some None
         else do {
           rest \<leftarrow> resolve_symbols dl m entries names libs (Suc i) n;
           Some (map_option (Cons \<lparr>ffi_func = s, ffi_name = names ! lib_n @ '':'' @ name\<rparr>) rest)
         })
   }"

definition unload_libraries :: "WORD list \<Rightarrow> posix \<Rightarrow> posix" where
  "unload_libraries libs h = h\<lparr>unloaded := rev libs @ unloaded h\<rparr>"

text \<open>
  The result, zero on failure. \<open>undef\<close> are the handles a new array of \<open>n_libs + 1\<close> holds before it
  is filled: on failure every handle in it that is not null is unloaded.
\<close>

definition build_ffi_table :: "linker \<Rightarrow> (nat \<Rightarrow> WORD) \<Rightarrow> WORD \<Rightarrow> posix \<Rightarrow> (int \<times> posix) option" where
  "build_ffi_table dl undef b h =
     (let m = mem (machine h);
          ffi = read_word m (tbc_ffi (bc_tbc (bytecodes h b)));
          h = upd_bytecode b (\<lambda>c. c\<lparr>bc_ffi := None, bc_ffi_length := 0, dll_handles := []\<rparr>) h;
          n_symbols = sint (read_word m (ffi + 4))
      in if ffi = 0 then Some (1, h)
         else if n_symbols \<le> 0 then Some (1, h)
         else do {
           names \<leftarrow> str_list m (read_word m ffi);
           (case open_libraries dl names of (libs, ok) \<Rightarrow>
              if \<not> ok then
                Some (0, unload_libraries (filter (\<lambda>lib. lib \<noteq> 0)
                  (libs @ map undef [length libs..<length names])) h)
              else do {
                table \<leftarrow> resolve_symbols dl m (read_word m (ffi + 12)) names libs 0 (nat n_symbols);
                Some (case table of
                        None \<Rightarrow> (0, unload_libraries (filter (\<lambda>lib. lib \<noteq> 0) libs) h)
                      | Some entries \<Rightarrow> (n_symbols, upd_bytecode b (\<lambda>c. c\<lparr>bc_ffi := Some entries,
                          bc_ffi_length := n_symbols, dll_handles := libs\<rparr>) h))
              })
         })"

definition release_ffi_table :: "WORD \<Rightarrow> posix \<Rightarrow> posix" where
  "release_ffi_table b h =
     (if bc_ffi (bytecodes h b) \<noteq> None then unload_libraries (dll_handles (bytecodes h b)) h else h)"

section \<open>What the table holds\<close>

text \<open>The address of a symbol: from the library of the given number, or the first that has it when
  there is none of that number; null when it is not found.\<close>

definition symbol_of :: "linker \<Rightarrow> WORD list \<Rightarrow> string \<Rightarrow> WORD \<Rightarrow> WORD" where
  "symbol_of dl libs name lib_n =
     (if sint lib_n \<in> {0..<int (length libs)} then dl_sym dl (libs ! nat (sint lib_n)) name
      else case find (\<lambda>lib. dl_sym dl lib name \<noteq> 0) libs of None \<Rightarrow> 0 | Some lib \<Rightarrow> dl_sym dl lib name)"

lemma search_libraries_find:
  "fst (search_libraries dl name i libs) =
    (case find (\<lambda>lib. dl_sym dl lib name \<noteq> 0) libs of None \<Rightarrow> 0 | Some lib \<Rightarrow> dl_sym dl lib name)"
  by (induction libs arbitrary: i) (simp_all add: Let_def)

lemma find_symbol_symbol_of: "fst (find_symbol dl libs name k) = symbol_of dl libs name k"
  by (simp add: find_symbol_def symbol_of_def search_libraries_find)

lemma open_libraries_all:
  "snd (open_libraries dl names) \<longleftrightarrow> (\<forall>name \<in> set names. load_library dl name \<noteq> 0)"
  "\<forall>name \<in> set names. load_library dl name \<noteq> 0 \<Longrightarrow> fst (open_libraries dl names) = map (load_library dl) names"
  "0 \<notin> set (fst (open_libraries dl names))"
  by (induction names) (auto simp: Let_def split: prod.splits)

lemma resolve_symbols_all:
  fixes entries :: WORD and libs :: "WORD list" and dl :: linker and m :: memory and syms :: "string list"
  assumes "\<forall>j < n. c_string m (read_word m (entries + 8 * word_of_nat (i + j))) = Some (syms ! (i + j))"
  defines "addr \<equiv> \<lambda>j. symbol_of dl libs (syms ! j) (read_word m (entries + 8 * word_of_nat j + 4))"
  shows "\<exists>t. resolve_symbols dl m entries names libs i n = Some t \<and>
    (t = None \<longleftrightarrow> (\<exists>j < n. addr (i + j) = 0)) \<and> (\<forall>es. t = Some es \<longrightarrow> map ffi_func es = map addr [i..<i + n])"
  using assms(1)
proof (induction n arbitrary: i)
  case (Suc n)
  let ?name = "syms ! i" and ?k = "read_word m (entries + 8 * word_of_nat i + 4)"
  obtain a k where f: "find_symbol dl libs ?name ?k = (a, k)" by (cases "find_symbol dl libs ?name ?k")
  then have a: "addr i = a" using find_symbol_symbol_of [of dl libs ?name ?k] by (simp add: addr_def)
  have name: "c_string m (read_word m (entries + 8 * word_of_nat i)) = Some ?name" using Suc.prems by force
  show ?case
  proof (cases "a = 0")
    case True
    then have "resolve_symbols dl m entries names libs i (Suc n) = Some None" using f by (simp add: name)
    moreover have "addr (i + 0) = 0" using a True by simp
    ultimately show ?thesis by blast
  next
    case False
    have step: "c_string m (read_word m (entries + 8 * word_of_nat (Suc i + j))) = Some (syms ! (Suc i + j))"
      if "j < n" for j
      using Suc.prems [rule_format, of "Suc j"] that by (simp only: add_Suc_right add_Suc Suc_less_eq)
    then obtain t where t: "resolve_symbols dl m entries names libs (Suc i) n = Some t"
      "t = None \<longleftrightarrow> (\<exists>j < n. addr (Suc i + j) = 0)" "\<forall>es. t = Some es \<longrightarrow> map ffi_func es = map addr [Suc i..<Suc i + n]"
      using Suc.IH [of "Suc i"] by blast
    have "(\<exists>j < Suc n. addr (i + j) = 0) \<longleftrightarrow> (\<exists>j < n. addr (Suc i + j) = 0)"
      using a False by (simp add: Ex_less_Suc2)
    moreover have "[i..<i + Suc n] = i # [Suc i..<Suc i + n]" by (simp add: upt_conv_Cons)
    moreover have "resolve_symbols dl m entries names libs i (Suc n) =
        Some (map_option (Cons \<lparr>ffi_func = a, ffi_name = names ! k @ '':'' @ ?name\<rparr>) t)"
      using f False by (simp add: name t(1))
    ultimately show ?thesis using t(2,3) a by (cases t) simp_all
  qed
qed simp

text \<open>C33: the table of foreign functions, when all libraries open. Every symbol gets its address from
  the library the file names, or from the first that has it when the number is out of range; the
  handles are kept, and releasing the table unloads each once. When a symbol is missing there is no
  table and all libraries are unloaded again.\<close>

theorem ffi_table_resolves:
  fixes b :: WORD and h :: posix and libs :: "WORD list" and dl :: linker and syms :: "string list"
  defines "m \<equiv> mem (machine h)"
  defines "ffi \<equiv> read_word m (tbc_ffi (bc_tbc (bytecodes h b)))"
  defines "entry \<equiv> \<lambda>i. read_word m (ffi + 12) + 8 * word_of_nat i"
  defines "addr \<equiv> \<lambda>i. symbol_of dl libs (syms ! i) (read_word m (entry i + 4))"
  assumes "ffi \<noteq> 0" "read_word m (ffi + 4) = word_of_nat n" "0 < n" "n < 2147483648"
    and "str_list m (read_word m ffi) = Some names" "map (load_library dl) names = libs" "0 \<notin> set libs"
    and "\<forall>i < n. c_string m (read_word m (entry i)) = Some (syms ! i)"
  shows "\<exists>ret h'. build_ffi_table dl undef b h = Some (ret, h') \<and>
    (if \<forall>i < n. addr i \<noteq> 0
     then ret = int n \<and> unloaded h' = unloaded h \<and> unloaded (release_ffi_table b h') = rev libs @ unloaded h \<and>
       (\<exists>t. bc_ffi (bytecodes h' b) = Some t \<and> map ffi_func t = map addr [0..<n])
     else ret = 0 \<and> bc_ffi (bytecodes h' b) = None \<and> unloaded h' = rev libs @ unloaded h)"
proof -
  have n: "sint (word_of_nat n :: WORD) = int n" using sint_of_int_exact [of "int n"] assms(8) by (simp add: in_range_def)
  have "\<forall>name \<in> set names. load_library dl name \<noteq> 0" using assms(10,11) by force
  then have "open_libraries dl names = (libs, True)"
    using open_libraries_all(1,2) [where dl = dl and names = names] assms(10) by (metis prod.collapse)
  moreover have "filter (\<lambda>lib. lib \<noteq> 0) libs = libs" using assms(11) by (induction libs) auto
  moreover obtain t where t: "resolve_symbols dl m (read_word m (ffi + 12)) names libs 0 n = Some t"
    "t = None \<longleftrightarrow> (\<exists>i < n. addr i = 0)" "\<forall>es. t = Some es \<longrightarrow> map ffi_func es = map addr [0..<n]"
    using resolve_symbols_all [of n m "read_word m (ffi + 12)" 0 syms dl names libs] assms(12)
    unfolding addr_def entry_def by auto
  ultimately show ?thesis
    using assms(5-9) n unfolding m_def [symmetric]
    by (cases t) (auto simp: build_ffi_table_def m_def [symmetric] ffi_def [symmetric] unload_libraries_def
        release_ffi_table_def Let_def)
qed

text \<open>When a library does not open, the handles that were never filled in are unloaded as well as
  those of the libraries before it: the array is as \<^verbatim>\<open>malloc\<close> gave it.\<close>

lemma ffi_failure_unloads_garbage:
  fixes b :: WORD and h :: posix
  defines "m \<equiv> mem (machine h)"
  defines "ffi \<equiv> read_word m (tbc_ffi (bc_tbc (bytecodes h b)))"
  assumes "ffi \<noteq> 0" "0 < sint (read_word m (ffi + 4))"
    and "str_list m (read_word m ffi) = Some (names @ name # rest)"
    and "0 \<notin> load_library dl ` set names" "load_library dl name = 0" "\<forall>i. undef i \<noteq> 0"
  shows "\<exists>h'. build_ffi_table dl undef b h = Some (0, h') \<and>
    unloaded h' = rev (map (load_library dl) names @ map undef [length names..<length names + Suc (length rest)]) @ unloaded h"
proof -
  have "open_libraries dl (names @ name # rest) = (map (load_library dl) names, False)"
    using assms(6,7) by (induction names) (auto simp: Let_def)
  moreover have "filter (\<lambda>lib. lib \<noteq> 0) (map (load_library dl) names) = map (load_library dl) names"
    using assms(6) by (induction names) auto
  moreover have "filter (\<lambda>lib. lib \<noteq> 0) (map undef xs) = map undef xs" for xs
    using assms(8) by (induction xs) auto
  ultimately show ?thesis
    using assms(3-5) unfolding m_def [symmetric]
    by (simp add: build_ffi_table_def m_def [symmetric] ffi_def [symmetric] unload_libraries_def Let_def del: upt_Suc)
qed

section \<open>Examples\<close>

text \<open>A file at 256 that uses the function \<open>f\<close> of the library \<open>m\<close>, the only one there is.\<close>

definition ffi_memory :: tvm where
  "ffi_memory = put_word 280 512 (put_word 512 600 (put_word 516 1 (put_word 524 640
     (put_word 604 620 (put_word 620 109 (put_word 640 660 (put_word 660 102 blank)))))))"

definition ffi_example :: posix where
  "ffi_example = \<lparr>machine = ffi_memory,
     bytecodes = \<lambda>_. \<lparr>refcount = 1, bc_source = 64, bc_data = 128, bc_length = 8, bc_tbc = 256, bc_ffi = None,
       bc_ffi_length = 0, dll_handles = []\<rparr>,
     privs = \<lambda>_. \<lparr>priv_bytecode = 0, priv_memory = 0, priv_memory_length = 0\<rparr>, freed = [], unloaded = [],
     open_files = 0\<rparr>"

definition linker_example :: linker where
  "linker_example = \<lparr>dl_open = \<lambda>name. if name = ''libm.so'' then 9 else 0,
     dl_sym = \<lambda>lib name. if name = ''f'' then 77 else 0, library_path = ''/lib/''\<rparr>"

lemma ffi_memory_words:
  "get_word ffi_memory 280 = 512" "get_word ffi_memory 512 = 600" "get_word ffi_memory 516 = 1"
  "get_word ffi_memory 524 = 640" "get_word ffi_memory 600 = 0" "get_word ffi_memory 604 = 620"
  "get_word ffi_memory 640 = 660" "get_word ffi_memory 644 = 0"
  by (simp_all add: ffi_memory_def read_write_word_other apart_def)

lemma ffi_memory_strings:
  "c_string (mem ffi_memory) 620 = Some ''m''" "c_string (mem ffi_memory) 660 = Some ''f''"
proof -
  have "mem ffi_memory 620 = 109" "mem ffi_memory 621 = 0" "mem ffi_memory 660 = 102" "mem ffi_memory 661 = 0"
    by (simp_all add: ffi_memory_def write_word_def byte_of_def)
  then show "c_string (mem ffi_memory) 620 = Some ''m''" "c_string (mem ffi_memory) 660 = Some ''f''"
    by (subst c_string.simps, subst c_string.simps, simp add: char_of_def bit_Suc_0_iff bit_0)+
qed

theorem ffi_table_resolves_witness:
  "\<exists>h' t. build_ffi_table linker_example (\<lambda>_. 5) 1 ffi_example = Some (1, h') \<and> bc_ffi (bytecodes h' 1) = Some t \<and>
     map ffi_func t = [77] \<and> unloaded (release_ffi_table 1 h') = [9]"
proof -
  have m: "mem (machine ffi_example) = mem ffi_memory" "bc_tbc (bytecodes ffi_example 1) = 256" "unloaded ffi_example = []"
    by (simp_all add: ffi_example_def)
  have "str_list (mem ffi_memory) 600 = Some [''m'']"
    by (subst str_list.simps, subst str_list.simps) (simp add: ffi_memory_words ffi_memory_strings)
  moreover have "map (load_library linker_example) [''m''] = [9]" by (simp add: load_library_def linker_example_def)
  moreover have "symbol_of linker_example [9] ''f'' 0 = 77" by (simp add: symbol_of_def linker_example_def)
  ultimately show ?thesis
    using ffi_table_resolves [where b = 1 and h = ffi_example and libs = "[9]" and dl = linker_example and
        syms = "[''f'']" and n = 1 and names = "[''m'']" and undef = "\<lambda>_. 5"]
    unfolding m by (auto simp: ffi_memory_words ffi_memory_strings)
qed

lemma ffi_failure_unloads_garbage_witness:
  "\<exists>h'. build_ffi_table (linker_example\<lparr>dl_open := \<lambda>_. 0\<rparr>) (\<lambda>_. 5) 1 ffi_example = Some (0, h') \<and> unloaded h' = [5]"
proof -
  have m: "mem (machine ffi_example) = mem ffi_memory" "bc_tbc (bytecodes ffi_example 1) = 256" "unloaded ffi_example = []"
    by (simp_all add: ffi_example_def)
  have "str_list (mem ffi_memory) 600 = Some ([] @ ''m'' # [])"
    by (subst str_list.simps, subst str_list.simps) (simp add: ffi_memory_words ffi_memory_strings)
  moreover have "load_library (linker_example\<lparr>dl_open := \<lambda>_. 0\<rparr>) ''m'' = 0" by (simp add: load_library_def)
  ultimately show ?thesis
    using ffi_failure_unloads_garbage [where b = 1 and h = ffi_example and dl = "linker_example\<lparr>dl_open := \<lambda>_. 0\<rparr>" and
        names = "[]" and name = "''m''" and rest = "[]" and undef = "\<lambda>_. 5"]
    unfolding m by (simp add: ffi_memory_words)
qed

end
