(* ===== verification/Tvm_Host.thy ===== *)
theory Tvm_Host
  imports Tvm_Ffi Tvm_Proc Tvm_Tencode_Laws
begin

text \<open>
  The POSIX host of the virtual machine: its alarm, its contexts and the bytecode they run
  (\<^verbatim>\<open>src/tvm/posix/vm.c\<close> and \<^verbatim>\<open>tbc.c\<close>). What \<^verbatim>\<open>malloc\<close>, \<^verbatim>\<open>setitimer\<close> and the
  functions of \<^verbatim>\<open>stdio\<close> return are arguments; blocks given to \<^verbatim>\<open>free\<close> are recorded.
\<close>

section \<open>The alarm\<close>

text \<open>The variables \<^verbatim>\<open>alarm_set\<close> and \<^verbatim>\<open>alarm_time\<close>, and the interval timer of the process: the
  seconds and microseconds to its signal, both zero when it is off.\<close>

record alarm =
  alarm_set :: bool
  alarm_time :: WORD
  itimer :: "nat \<times> nat"

definition tvm_get_time :: "int \<Rightarrow> int \<Rightarrow> WORD" where
  "tvm_get_time tv_sec tv_usec = word_of_int (tv_sec * 1000000 + tv_usec)"

text \<open>\<open>fails\<close>: \<^verbatim>\<open>setitimer\<close> does not return zero.\<close>

definition tvm_set_alarm :: "bool \<Rightarrow> WORD \<Rightarrow> alarm \<Rightarrow> tvm \<Rightarrow> alarm \<times> tvm" where
  "tvm_set_alarm fails e a s =
     (if alarm_set a \<and> TIME_AFTER (TNEXT e s) (alarm_time a) then (a, s)
      else
        let (now, s) = get_time e s;
            t = TNEXT e s - now;
            (a, s) = (if TIME_AFTER now (TNEXT e s) \<or> t = 0
                      then (a\<lparr>alarm_set := False\<rparr>, modify_sync_flags e SFLAG_TQ 0 s) else (a, s));
            timeout = (unat t div 1000000, unat t mod 1000000);
            a = a\<lparr>alarm_set := True, alarm_time := TNEXT e s\<rparr>
        in if fails then (a\<lparr>alarm_set := False\<rparr>, modify_sync_flags e SFLAG_TQ 0 s)
           else (a\<lparr>itimer := timeout\<rparr>, s))"

text \<open>The handler walks the machine's list of contexts; \<open>None\<close> when that is a cycle that misses the
  last context.\<close>

partial_function (option) set_timer_flags :: "WORD \<Rightarrow> tvm \<Rightarrow> tvm option" where
  "set_timer_flags p s =
     (if p \<noteq> 0 then
        let s = upd_ectx p (\<lambda>c. c\<lparr>sflags := sflags c OR SFLAG_TQ\<rparr>) s
        in if p = tail s then Some s else set_timer_flags (next_ectx (ectxs s p)) s
      else Some s)"

definition sigalrm_handler :: "alarm \<Rightarrow> tvm \<Rightarrow> (alarm \<times> tvm) option" where
  "sigalrm_handler a s = map_option (\<lambda>s. (a\<lparr>alarm_set := False\<rparr>, s)) (set_timer_flags (head s) s)"

section \<open>What the alarm promises\<close>

lemma tnext_modify [simp]: "tnext (ectxs (modify_sync_flags e k c s) d) = tnext (ectxs s d)"
  by (simp add: modify_sync_flags_def)

text \<open>
  A context is sure to look at its timer queue by its next timeout: its flag is set, or a signal
  that sets it is on its way for a time not after it. An alarm that is set is to come within half
  the range of the clock.
\<close>

definition will_wake :: "WORD \<Rightarrow> alarm \<Rightarrow> tvm \<Rightarrow> bool" where
  "will_wake e a s \<longleftrightarrow> sflags (ectxs s e) AND SFLAG_TQ \<noteq> 0 \<or>
     alarm_set a \<and> itimer a \<noteq> (0, 0) \<and> \<not> TIME_AFTER (alarm_time a) (TNEXT e s)"

definition micros :: "nat \<times> nat \<Rightarrow> nat" where
  "micros t = fst t * 1000000 + snd t"

definition alarm_ahead :: "alarm \<Rightarrow> bool" where
  "alarm_ahead a \<longleftrightarrow> (alarm_set a \<longrightarrow> 0 < micros (itimer a) \<and> micros (itimer a) \<le> 2147483648)"

lemma micros_zero: "t = (0, 0) \<longleftrightarrow> micros t = 0"
  by (cases t) (simp add: micros_def)

lemma micros_split [simp]: "micros (n div 1000000, n mod 1000000) = n"
  by (simp add: micros_def)

lemma flag_set [simp]: "sflags (ectxs (modify_sync_flags e 1 k s) e) AND 1 \<noteq> 0"
proof -
  have "bit ((w OR 1) AND 1 :: WORD) 0" for w by (simp add: bit_simps)
  then have "(w OR 1) AND 1 \<noteq> (0 :: WORD)" for w by (metis bit_0_eq bot_apply bot_bool_def)
  then show ?thesis by (simp add: modify_sync_flags_def del: and_one_eq)
qed

lemma TIME_AFTER_other: "A \<and> TIME_AFTER t u \<Longrightarrow> \<not> TIME_AFTER u t"
  using sint_sub_exact [of 0 "t - u"] sint_range32 [of "t - u"] by (simp add: TIME_AFTER_def in_range_def)

lemma ahead_range:
  assumes "\<not> TIME_AFTER now t" "t - now \<noteq> 0"
  shows "unat (t - now) \<le> 2147483648"
proof -
  have "now - t = - (t - now)" by simp
  then have "sint (- (t - now)) \<le> 0" using assms(1) by (simp only: TIME_AFTER_def not_less)
  moreover have "sint (- (t - now)) \<noteq> 0" using assms(2) by (simp only: signed_eq_0_iff neg_equal_0_iff_equal not_False_eq_True)
  ultimately have "2147483648 \<le> unat (- (t - now))"
    using bit31_iff [of "- (t - now)"] bit31_uint [of "- (t - now)"] by (simp only: uint_nat) linarith
  then show ?thesis using unat_sub_if' [of 0 "t - now"] unat_less32 [of "t - now"] assms(2) by (simp split: if_splits)
qed

text \<open>After \<^verbatim>\<open>tvm_set_alarm\<close> the context is sure to look at its timers by its next timeout,
  whether the alarm was set before, \<^verbatim>\<open>setitimer\<close> fails or the timeout has passed. An alarm set for
  a timeout that lies ahead comes exactly then.\<close>

lemma set_alarm_wakes:
  fixes e :: WORD and s :: tvm
  assumes "alarm_ahead a"
  defines "now \<equiv> clock s (ticks s)"
  shows "case tvm_set_alarm fails e a s of (a', s') \<Rightarrow> will_wake e a' s' \<and>
    (\<not> TIME_AFTER now (TNEXT e s) \<and> now \<noteq> TNEXT e s \<longrightarrow> alarm_ahead a' \<and>
       (a' = a \<or> \<not> alarm_set a' \<or> alarm_time a' = TNEXT e s \<and> micros (itimer a') = unat (TNEXT e s - now)))"
proof (cases "alarm_set a \<and> TIME_AFTER (TNEXT e s) (alarm_time a)")
  case True
  then have "\<not> TIME_AFTER (alarm_time a) (TNEXT e s)"
    by (rule TIME_AFTER_other)
  then show ?thesis using True assms(1) by (simp add: tvm_set_alarm_def will_wake_def alarm_ahead_def micros_zero)
next
  case False
  have late: "TNEXT e s - now = 0 \<longleftrightarrow> now = TNEXT e s" by auto
  have self: "\<not> TIME_AFTER t t" for t by (simp add: TIME_AFTER_def)
  have "0 < unat (TNEXT e s - now)" "unat (TNEXT e s - now) \<le> 2147483648"
    if "\<not> TIME_AFTER now (TNEXT e s)" "now \<noteq> TNEXT e s"
    using that ahead_range [of now "TNEXT e s"] late unat_gt_0 [of "TNEXT e s - now"] by auto
  then show ?thesis using False late self
    by (auto simp: tvm_set_alarm_def get_time_def Let_def now_def will_wake_def alarm_ahead_def micros_zero)
qed

text \<open>A timeout that has passed when \<^verbatim>\<open>tvm_set_alarm\<close> is called blocks the alarm. The code sets
  the flag of the context and goes on to set the alarm for the time gone by, with the interval timer
  off or more than half an hour away. Until that signal comes, a call for any later timeout, of this
  context or another, changes nothing.\<close>

lemma late_alarm_blocks:
  fixes e :: WORD and s :: tvm
  assumes "\<not> (alarm_set a \<and> TIME_AFTER (TNEXT e s) (alarm_time a))"
    and "TIME_AFTER (clock s (ticks s)) (TNEXT e s) \<or> clock s (ticks s) = TNEXT e s"
  shows "\<exists>a' s'. tvm_set_alarm False e a s = (a', s') \<and> alarm_set a' \<and>
    (itimer a' = (0, 0) \<or> 2147483648 < micros (itimer a')) \<and>
    (\<forall>fails d u. TIME_AFTER (TNEXT d u) (TNEXT e s) \<longrightarrow> tvm_set_alarm fails d a' u = (a', u))"
proof -
  let ?now = "clock s (ticks s)"
  let ?n = "unat (TNEXT e s - ?now)"
  have "TNEXT e s - ?now = 0 \<or> 2147483648 < ?n"
  proof (cases "TIME_AFTER ?now (TNEXT e s)")
    case True
    have "sint (TNEXT e s - ?now) = - sint (?now - TNEXT e s)"
      using sint_sub_exact [of 0 "?now - TNEXT e s"] sint_range32 [of "?now - TNEXT e s"] True
      by (simp add: TIME_AFTER_def in_range_def)
    then have "sint (TNEXT e s - ?now) < 0" "- 2147483648 < sint (TNEXT e s - ?now)"
      using True sint_range32 [of "?now - TNEXT e s"] by (simp_all add: TIME_AFTER_def)
    then have "2147483648 < uint (TNEXT e s - ?now)" using sint_uint_diff [of "TNEXT e s - ?now"] by simp
    then show ?thesis by (simp only: uint_nat) linarith
  qed (use assms(2) in simp)
  then have "(?n div 1000000, ?n mod 1000000) = (0, 0) \<or> 2147483648 < micros (?n div 1000000, ?n mod 1000000)"
    by (auto simp: micros_zero)
  moreover define a' where "a' = a\<lparr>alarm_set := True, alarm_time := TNEXT e s, itimer := (?n div 1000000, ?n mod 1000000)\<rparr>"
  moreover have "\<exists>s'. tvm_set_alarm False e a s = (a', s')"
    using assms by (auto simp: tvm_set_alarm_def get_time_def Let_def a'_def)
  moreover have "tvm_set_alarm fails d a' u = (a', u)" if "TIME_AFTER (TNEXT d u) (TNEXT e s)" for fails d u
    using that by (simp add: tvm_set_alarm_def a'_def)
  ultimately show ?thesis by (intro exI [of _ a']) auto
qed

section \<open>The signal\<close>

lemma set_timer_flags_list:
  assumes "ctx_list s p es" "distinct es" "0 \<notin> set es" "es \<noteq> [] \<longrightarrow> tail s = last es"
  shows "set_timer_flags p s = Some (s\<lparr>ectxs := \<lambda>e.
    if e \<in> set es then ectxs s e\<lparr>sflags := sflags (ectxs s e) OR SFLAG_TQ\<rparr> else ectxs s e\<rparr>)"
  using assms
proof (induction es arbitrary: p s)
  case Nil
  then show ?case by (subst set_timer_flags.simps) simp
next
  case (Cons e es)
  let ?s = "upd_ectx e (\<lambda>c. c\<lparr>sflags := sflags c OR SFLAG_TQ\<rparr>) s"
  have p: "p = e" "e \<noteq> 0" "e \<notin> set es" using Cons.prems by auto
  have step: "set_timer_flags p s = (if e = tail s then Some ?s else set_timer_flags (next_ectx (ectxs s e)) ?s)"
    using p by (subst set_timer_flags.simps) simp
  show ?case
  proof (cases "es = []")
    case True
    then show ?thesis using Cons.prems(4) unfolding step by (auto simp: upd_ectx_def fun_eq_iff)
  next
    case False
    then have t: "tail s = last es" "e \<noteq> tail s" using Cons.prems(4) p(3) last_in_set [OF False] by auto
    have "ctx_list ?s (next_ectx (ectxs s e)) es"
      using Cons.prems(1) ctx_list_cong [of es s ?s "next_ectx (ectxs s e)"] p by simp
    then have "set_timer_flags (next_ectx (ectxs s e)) ?s = Some (?s\<lparr>ectxs := \<lambda>c.
        if c \<in> set es then ectxs ?s c\<lparr>sflags := sflags (ectxs ?s c) OR SFLAG_TQ\<rparr> else ectxs ?s c\<rparr>)"
      using Cons.IH [of ?s "next_ectx (ectxs s e)"] Cons.prems t(1) by simp
    then show ?thesis using t(2) p(3) unfolding step by (auto simp: upd_ectx_def fun_eq_iff)
  qed
qed

text \<open>The signal handler sets the timer flag of every context of the machine and changes nothing
  else; the list of contexts stays as it was.\<close>

lemma sigalrm_wakes_all:
  assumes "contexts s es"
  shows "\<exists>s'. sigalrm_handler a s = Some (a\<lparr>alarm_set := False\<rparr>, s') \<and> contexts s' es \<and> mem s' = mem s \<and>
    (\<forall>e. ectxs s' e =
      (if e \<in> set es then ectxs s e\<lparr>sflags := sflags (ectxs s e) OR SFLAG_TQ\<rparr> else ectxs s e))"
proof -
  let ?s = "s\<lparr>ectxs := \<lambda>e.
    if e \<in> set es then ectxs s e\<lparr>sflags := sflags (ectxs s e) OR SFLAG_TQ\<rparr> else ectxs s e\<rparr>"
  have "set_timer_flags (head s) s = Some ?s"
    using assms by (intro set_timer_flags_list) (auto simp: contexts_def)
  moreover have "ctx_list ?s (head s) es = ctx_list s (head s) es"
    by (intro ctx_list_cong) simp
  ultimately show ?thesis using assms by (simp add: sigalrm_handler_def contexts_def)
qed

section \<open>Bytecode files\<close>

text \<open>What the functions of \<^verbatim>\<open>stdio\<close> return for a file, and its bytes.\<close>

record file_io =
  fopen :: bool
  fseek_end :: int
  ftell :: int
  fseek_set :: int
  file_bytes :: "BYTE list"

fun put_bytes :: "WORD \<Rightarrow> BYTE list \<Rightarrow> tvm \<Rightarrow> tvm" where
  "put_bytes p [] s = s"
| "put_bytes p (b # bs) s = put_bytes (p + 1) bs (put_byte p b s)"

text \<open>The result, and the values for \<^verbatim>\<open>*data_p\<close> and \<^verbatim>\<open>*length_p\<close>. \<open>data\<close> is what
  \<^verbatim>\<open>malloc\<close> returns.\<close>

definition read_tbc_file :: "file_io \<Rightarrow> WORD \<Rightarrow> posix \<Rightarrow> int \<times> (WORD \<times> WORD) \<times> posix" where
  "read_tbc_file io data h =
     (if \<not> fopen io then (-1, (0, 0), h)
      else
        let h = h\<lparr>open_files := open_files h + 1\<rparr>
        in if fseek_end io < 0 then (-1, (0, 0), h)
           else
             let len = ftell io
             in if data = 0 then (-1, (0, 0), h)
                else if fseek_set io < 0 then (-1, (0, 0), (free data h)\<lparr>open_files := open_files h - 1\<rparr>)
                else
                  let bytes = take (nat len) (file_bytes io);
                      h = h\<lparr>machine := put_bytes data bytes (machine h)\<rparr>
                  in if int (length bytes) \<noteq> len then (-1, (0, 0), (free data h)\<lparr>open_files := open_files h - 1\<rparr>)
                     else (0, (data, word_of_int len), h\<lparr>open_files := open_files h - 1\<rparr>))"

text \<open>The pointer to the decoded structure, null on failure, and the memory.\<close>

definition decode_tbc :: "WORD \<Rightarrow> WORD \<Rightarrow> memory \<Rightarrow> (WORD \<times> memory) option" where
  "decode_tbc data len m =
     (case tenc_decode_element m data len no_element of
        (ret, len, element) \<Rightarrow>
          if ret \<noteq> 0 then Some (0, m)
          else if \<not> ids_match (el_id element) ''TEnc'' then Some (0, m)
          else
            let data = el_data element;
                len = el_length element
            in do {
              (ret, len, element) \<leftarrow> tenc_walk_to_element m data len ''tbcL'' element;
              (if ret < 0 then Some (0, m)
               else do {
                 (ret, tbc, m) \<leftarrow> tbc_decode (el_data element) (el_length element) 0 m;
                 Some (if ret \<noteq> 0 then 0 else tbc, m)
               })
            })"

definition free_bytecode :: "WORD \<Rightarrow> posix \<Rightarrow> posix" where
  "free_bytecode b h =
     (let h = upd_bytecode b (\<lambda>c. c\<lparr>refcount := refcount c - 1\<rparr>) h;
          c = bytecodes h b
      in if refcount c \<noteq> 0 then h
         else
           let h = (if bc_ffi c \<noteq> None then release_ffi_table b h else h)
           in free b (free (bc_data c) (free (bc_source c) h)))"

text \<open>\<open>b\<close>, \<open>source\<close> and \<open>data\<close> are what \<^verbatim>\<open>malloc\<close>, \<^verbatim>\<open>strdup\<close> and the \<^verbatim>\<open>malloc\<close> of
  \<^verbatim>\<open>read_tbc_file\<close> return.\<close>

definition load_bytecode ::
    "linker \<Rightarrow> (nat \<Rightarrow> WORD) \<Rightarrow> file_io \<Rightarrow> WORD \<Rightarrow> WORD \<Rightarrow> WORD \<Rightarrow> posix \<Rightarrow> (WORD \<times> posix) option" where
  "load_bytecode dl undef io b source data h =
     (let h = upd_bytecode b (\<lambda>c. c\<lparr>refcount := 1, bc_source := source, bc_data := 0, bc_ffi := None\<rparr>) h;
          (ret, (data, len), h) = read_tbc_file io data h
      in if ret \<noteq> 0 then Some (0, free_bytecode b h)
         else
           let h = upd_bytecode b (\<lambda>c. c\<lparr>bc_data := data, bc_length := len\<rparr>) h in do {
             (tbc, m) \<leftarrow> decode_tbc data len (mem (machine h));
             let h = upd_bytecode b (\<lambda>c. c\<lparr>bc_tbc := tbc\<rparr>) (h\<lparr>machine := (machine h)\<lparr>mem := m\<rparr>\<rparr>);
             (if tbc = 0 then Some (0, free_bytecode b h)
              else do {
                (ret, h) \<leftarrow> build_ffi_table dl undef b h;
                Some (if ret = 0 then (0, free_bytecode b h) else (b, h))
              })
           })"

section \<open>Contexts\<close>

text \<open>\<open>vm\<close> and \<open>block\<close>: what \<^verbatim>\<open>malloc\<close> returns for the context and for its memory.\<close>

definition allocate_ectx ::
    "heap \<Rightarrow> WORD \<Rightarrow> WORD \<Rightarrow> WORD \<Rightarrow> string \<Rightarrow> WORD list \<Rightarrow> posix \<Rightarrow> WORD \<times> posix" where
  "allocate_ectx hp vm block b tlp argv h =
     (if vm = 0 then (0, h)
      else
        let s = tvm_ectx_init vm (machine h);
            tbc = bc_tbc (bytecodes h b);
            argc = word_of_nat (length tlp);
            ws_size = get_word s (tbc_ws tbc);
            vs_size = get_word s (tbc_vs tbc);
            mem_len = tvm_ectx_memory_size argc ws_size vs_size
        in if block = 0 then (0, free vm (h\<lparr>machine := s\<rparr>))
           else
             let (size, ws, vs) = tvm_ectx_layout block argc ws_size vs_size;
                 (ret, s) = tvm_ectx_install_tlp hp vm (get_word s (tbc_bytecode tbc)) ws vs tlp (int (length tlp)) argv s;
                 h = h\<lparr>machine := s\<rparr>
             in if ret \<noteq> 0 then (0, free vm (free block h))
                else (vm, upd_bytecode b (\<lambda>c. c\<lparr>refcount := refcount c + 1\<rparr>) (h\<lparr>privs := (privs h)(vm :=
                  \<lparr>priv_bytecode = b, priv_memory = block, priv_memory_length = mem_len\<rparr>)\<rparr>)))"

definition free_ectx :: "WORD \<Rightarrow> posix \<Rightarrow> posix option" where
  "free_ectx vm h = do {
     s \<leftarrow> tvm_ectx_release vm (machine h);
     let h = h\<lparr>machine := s\<rparr>;
     Some (free vm (free (priv_memory (privs h vm)) (free_bytecode (priv_bytecode (privs h vm)) h)))
   }"

section \<open>Decoding a file\<close>

lemma stored_part: "stored m p (a @ b @ c) \<Longrightarrow> stored m (p + word_of_nat (length a)) b"
  by (simp add: stored_append)

lemma no_wrap_nonzero:
  assumes "0 < k" "unat (p :: WORD) + k < 4294967296"
  shows "p + word_of_nat k \<noteq> 0"
proof
  assume "p + word_of_nat k = 0"
  moreover have "unat (p + word_of_nat k) = unat p + k"
    using assms(2) by (simp add: unat_word_ariths unat_of_nat)
  ultimately show False using assms(1) by simp
qed

text \<open>C30: loading a bytecode file that encodes a program: an element \<^verbatim>\<open>TEnc\<close> with, anywhere in it, an
  element \<^verbatim>\<open>tbcL\<close> that holds the byte order, the sizes, some padding, the bytecode and parts the
  decoder does not know. The structure, decoded in the place of the file, has the sizes and the
  bytecode of the program.\<close>

theorem decode_tbc_file:
  assumes "file = Number ''endU'' e # Number ''ws U'' w # Number ''vs U'' v # pads @ Bytes ''bc B'' code # rest"
    and "body = before @ Bytes ''tbcL'' (enc_items file) # after"
    and "stored m p (enc_item (Bytes ''TEnc'' (enc_items body)))"
    and "\<forall>it \<in> set file. valid_item it" "\<forall>it \<in> set before \<union> set after. valid_item it"
    and "unat p + length (enc_item (Bytes ''TEnc'' (enc_items body))) < 2147483648"
    and "\<forall>it \<in> set before. item_name it \<noteq> ''tbcL''"
    and "\<forall>it \<in> set pads. item_name it \<noteq> ''bc B''" "12 \<le> length (enc_items pads)"
    and "\<forall>it \<in> set rest. item_name it \<notin> {''tlpL'', ''ffiL'', ''stbL'', ''dbgL''}"
  shows "\<exists>t m'. decode_tbc p (word_of_nat (length (enc_item (Bytes ''TEnc'' (enc_items body))))) m = Some (t, m') \<and> t \<noteq> 0 \<and>
    read_word m' (tbc_ws t) = w \<and> read_word m' (tbc_vs t) = v \<and>
    read_word m' (tbc_bytecode_len t) = word_of_nat (length code) \<and> stored m' (read_word m' (tbc_bytecode t)) code"
proof -
  let ?tenc = "Bytes ''TEnc'' (enc_items body)" and ?tbc = "Bytes ''tbcL'' (enc_items file)"
  let ?q = "p + 8 + word_of_nat (length (enc_items before))"
  have lens: "length (enc_items body) + 8 \<le> length (enc_item ?tenc)"
    "length (enc_items before) + 8 + length (enc_items file) \<le> length (enc_items body)"
    by (simp_all add: assms(2))
  have len: "unat p + length (enc_item ?tenc) < 2147483648" by (rule assms(6))
  have valid: "valid_item ?tenc" "\<forall>it \<in> set body. valid_item it"
    using assms(5) lens len by (auto simp: assms(2))
  have "length (enc_item ?tenc) \<le> unat (word_of_nat (length (enc_item ?tenc)) :: WORD)"
    using len by (simp add: unat_of_nat del: enc_item.simps)
  from decode_element_correct [OF assms(3) valid(1) this, of no_element]
  have dec: "tenc_decode_element m p (word_of_nat (length (enc_item ?tenc))) no_element = (0, 0, element_of ?tenc p)"
    by (simp del: enc_item.simps)
  have id: "ids_match (el_id (element_of ?tenc p)) ''TEnc''" using ids_match_iff [OF valid(1), of "''TEnc''" p] by simp
  have st: "stored m (p + 8) (enc_items body)" using stored_Bytes [OF assms(3)] by simp
  have split: "dropWhile (\<lambda>it. item_name it \<noteq> ''tbcL'') body = ?tbc # after"
    "takeWhile (\<lambda>it. item_name it \<noteq> ''tbcL'') body = before"
    using assms(7) by (simp_all add: assms(2) dropWhile_append2 takeWhile_append2)
  have walk: "tenc_walk_to_element m (p + 8) (word_of_nat (length (enc_items body))) ''tbcL'' el =
      Some (0, word_of_nat (length (enc_items after)), element_of ?tbc ?q)" for el
    using walk_first [OF st valid(2), of "''tbcL''" el] lens len unfolding split by (simp add: add.assoc del: enc_items_simps)
  have "stored m ?q (enc_item ?tbc)"
    using stored_part [of m "p + 8" "enc_items before" "enc_item ?tbc" "enc_items after"] st by (simp add: assms(2))
  then have sf: "stored m (?q + 8) (enc_items file)" by (rule stored_Bytes) simp
  have q: "?q + 8 = p + word_of_nat (16 + length (enc_items before))" by (simp add: algebra_simps)
  have nz: "?q + 8 \<noteq> 0" unfolding q by (rule no_wrap_nonzero) (use lens len in simp_all)
  obtain m' where m': "tbc_decode (?q + 8) (word_of_nat (length (enc_items file))) 0 m = Some (0, ?q + 8, m')"
    "read_word m' (tbc_ws (?q + 8)) = w" "read_word m' (tbc_vs (?q + 8)) = v"
    "read_word m' (tbc_bytecode_len (?q + 8)) = word_of_nat (length code)"
    "stored m' (read_word m' (tbc_bytecode (?q + 8))) code"
    using tbc_decode_in_place [OF assms(1) sf assms(4) _ assms(8-10) nz] lens len by auto
  have "decode_tbc p (word_of_nat (length (enc_item ?tenc))) m = Some (?q + 8, m')"
    using id walk m'(1) unfolding decode_tbc_def dec by (simp add: Let_def)
  then show ?thesis using m'(2-) nz by blast
qed

section \<open>Contexts and their memory\<close>

text \<open>The words the memory of a context has for \<open>n\<close> arguments: the frame, the shutdown
  instruction, workspace, vectorspace and the padding.\<close>

definition frame_words :: "nat \<Rightarrow> nat \<Rightarrow> nat" where
  "frame_words n vs = max 4 (1 + n + (if vs \<noteq> 0 then 1 else 0))"

definition context_words :: "nat \<Rightarrow> nat \<Rightarrow> nat \<Rightarrow> nat" where
  "context_words n ws vs = frame_words n vs + 1 + ws + vs + 5"

lemma calc_frame_words:
  assumes "n \<le> 8"
  shows "calc_frame_size (word_of_nat n) vs True = word_of_nat (frame_words n (unat vs))"
proof -
  define k where "k = 1 + n + (if vs \<noteq> 0 then 1 else 0)"
  have "sint (word_of_nat k :: WORD) = int k"
    using sint_of_int_exact [of "int k"] assms by (simp add: k_def in_range_def)
  then have "(word_of_nat k :: WORD) <s 4 \<longleftrightarrow> k < 4" by (simp add: word_sless_alt)
  moreover have "calc_frame_size (word_of_nat n) vs True = (if (word_of_nat k :: WORD) <s 4 then 4 else word_of_nat k)"
    by (simp add: calc_frame_size_def k_def Let_def)
  moreover have "frame_words n (unat vs) = (if k < 4 then 4 else k)"
    by (simp add: frame_words_def k_def max_def unat_eq_zero)
  ultimately show ?thesis by simp
qed

lemma memory_size_words:
  "n \<le> 8 \<Longrightarrow> tvm_ectx_memory_size (word_of_nat n) ws vs = word_of_nat (context_words n (unat ws) (unat vs))"
  by (simp add: tvm_ectx_memory_size_def calc_frame_words context_words_def Let_def)

lemma beyond_block:
  fixes block x :: WORD
  assumes "word_of_nat (k + n) \<le> x - block" "k + n < 4294967296"
  shows "word_of_nat n \<le> x - (block + word_of_nat k)"
proof -
  have "k + n \<le> unat (x - block)" using assms by (simp add: word_le_nat_alt unat_of_nat del: of_nat_add)
  then have "unat (x - block - word_of_nat k) = unat (x - block) - k"
    using assms(2) by (subst unat_sub) (simp_all add: word_le_nat_alt unat_of_nat)
  then show ?thesis using assms(2) \<open>k + n \<le> unat (x - block)\<close> by (simp add: word_le_nat_alt unat_of_nat diff_diff_eq)
qed

text \<open>Allocating a context. It joins the machine's list, ready to run the first instruction of
  the bytecode, with its workspace of the size the file asks for below a frame with the arguments,
  all of it inside the block for its memory; memory outside stays as it was, and the bytecode has
  one more user.\<close>

lemma allocate_ectx_starts:
  fixes h :: posix and b vm block :: WORD
  defines "s \<equiv> machine h" and "tbc \<equiv> bc_tbc (bytecodes h b)"
  defines "ws \<equiv> unat (get_word s (tbc_ws tbc))" and "vs \<equiv> unat (get_word s (tbc_vs tbc))"
  assumes "contexts s es" "vm \<notin> set es" "vm \<noteq> 0" "block \<noteq> 0"
    and "length tlp = length argv" "length argv \<le> 8" "CHR ''F'' \<notin> set tlp"
    and "unat block + 4 * context_words (length argv) ws vs < 4294967296"
  shows "\<exists>h'. allocate_ectx hp vm block b tlp argv h = (vm, h') \<and> contexts (machine h') (es @ [vm]) \<and>
    IPTR vm (machine h') = get_word s (tbc_bytecode tbc) \<and> WPTR vm (machine h') = block + word_of_nat (4 * (ws + 4)) \<and>
    (\<forall>i < length argv. get_word (machine h') (WPTR vm (machine h') + word_of_nat (4 * (i + 1))) = argv ! i) \<and>
    (\<forall>x. word_of_nat (4 * context_words (length argv) ws vs) \<le> x - block \<longrightarrow> mem (machine h') x = mem s x) \<and>
    refcount (bytecodes h' b) = refcount (bytecodes h b) + 1 \<and> freed h' = freed h"
proof -
  let ?n = "length argv" and ?s = "tvm_ectx_init vm s"
  define k where "k = frame_words ?n vs"
  define top where "top = block + word_of_nat (4 * (k + ws + 5))"
  have total: "context_words ?n ws vs = k + ws + vs + 6" by (simp add: context_words_def k_def)
  have "unat top = unat block + 4 * (k + ws + 5)"
    using assms(12) unfolding top_def total by (simp add: unat_word_ariths unat_of_nat)
  then have top_nz: "top \<noteq> 0" by auto
  define v where "v = (if get_word s (tbc_vs tbc) \<noteq> 0 then top else 0)"
  have v: "v \<noteq> 0 \<longleftrightarrow> vs \<noteq> 0" using top_nz by (simp add: v_def vs_def unat_eq_zero)
  obtain x where layout: "tvm_ectx_layout block (word_of_nat ?n) (get_word s (tbc_ws tbc)) (get_word s (tbc_vs tbc)) = (x, top, v)"
    by (simp add: tvm_ectx_layout_def calc_frame_words [OF assms(10)] Let_def v_def top_def k_def vs_def ws_def
        wordptr_plus_def algebra_simps)
  have w: "block + word_of_nat (4 * (ws + 4)) = top - word_of_nat (4 * (k + 1))" by (simp add: top_def)
  have k: "k = max 4 (1 + ?n + (if v \<noteq> 0 then 1 else 0))" unfolding k_def frame_words_def v by simp
  from install_tlp_frame [OF assms(9-11) k w, of hp vm "get_word s (tbc_bytecode tbc)" ?s]
  obtain s' where s': "tvm_ectx_install_tlp hp vm (get_word s (tbc_bytecode tbc)) top v tlp (int ?n) argv ?s = (0, s')"
    "WPTR vm s' = block + word_of_nat (4 * (ws + 4))" "IPTR vm s' = get_word s (tbc_bytecode tbc)"
    "\<And>i. i < ?n \<Longrightarrow> get_word s' (WPTR vm s' + word_of_nat (4 * (i + 1))) = argv ! i"
    "\<And>x. word_of_nat (4 * (k + 1)) \<le> x - WPTR vm s' \<Longrightarrow> mem s' x = mem s x"
    "\<And>d. next_ectx (ectxs s' d) = next_ectx (ectxs ?s d)" "head s' = head ?s" "tail s' = tail ?s"
    by (metis (no_types, lifting) tvm_ectx_init_simps(6))
  have "contexts s' (es @ [vm])"
    using contexts_init [OF assms(5-7)] s'(6-8) ctx_list_cong [of "es @ [vm]" ?s s' "head ?s"] by (simp add: contexts_def)
  moreover have "mem s' x = mem s x" if x: "word_of_nat (4 * context_words ?n ws vs) \<le> x - block" for x
  proof -
    have "word_of_nat (4 * (ws + 4) + 4 * (k + 1)) \<le> x - block"
      using x assms(12) unfolding total by (simp add: word_le_nat_alt unat_of_nat del: of_nat_add of_nat_mult)
    then show ?thesis
      using beyond_block [of "4 * (ws + 4)" "4 * (k + 1)" x block] assms(12) unfolding total s'(2) [symmetric]
      by (intro s'(5)) simp
  qed
  moreover have "length tlp = ?n" by (rule assms(9))
  ultimately show ?thesis
    using assms(7,8) layout s'(1-4)
    by (simp add: allocate_ectx_def s_def [symmetric] tbc_def [symmetric] Let_def free_def)
qed

text \<open>A context whose memory or whose first frame cannot be had is freed but stays on the
  machine's list, as its last.\<close>

lemma allocate_ectx_failure_dangles:
  fixes h :: posix and b vm block :: WORD
  assumes "contexts (machine h) es" "vm \<notin> set es" "vm \<noteq> 0" "block = 0 \<or> 8 < length tlp"
  shows "\<exists>h'. allocate_ectx hp vm block b tlp argv h = (0, h') \<and> vm \<in> set (freed h') \<and>
    contexts (machine h') (es @ [vm])"
proof -
  have c: "contexts (tvm_ectx_init vm (machine h)) (es @ [vm])" by (rule contexts_init [OF assms(1-3)])
  have "tvm_ectx_install_tlp hp vm code ws vs tlp (int (length tlp)) argv s = (-1, s)" if "8 < length tlp" for code ws vs s
    using that by (simp add: tvm_ectx_install_tlp_def)
  then show ?thesis
    using assms(3,4) c by (cases "block = 0") (auto simp: allocate_ectx_def Let_def split: prod.splits)
qed

text \<open>Freeing a context and then the bytecode it was loaded from, with no other user, gives back
  the memory and the context, then the name, the contents and the structure of the file, each once,
  and unloads its libraries; the context leaves the machine's list.\<close>

lemma freed_once:
  fixes h :: posix and b vm :: WORD
  defines "c \<equiv> bytecodes h b"
  assumes "contexts (machine h) es" "vm \<in> set es"
    and "privs h vm = \<lparr>priv_bytecode = b, priv_memory = block, priv_memory_length = n\<rparr>" "refcount c = 2"
    and "bc_source c \<noteq> 0" "bc_data c \<noteq> 0" "b \<noteq> 0" "block \<noteq> 0" "bc_ffi c = Some t"
  shows "\<exists>h'. free_ectx vm h = Some h' \<and> ctx_list (machine h') (head (machine h')) (remove1 vm es) \<and>
    freed (free_bytecode b h') = [b, bc_data c, bc_source c, vm, block] @ freed h \<and>
    unloaded (free_bytecode b h') = rev (dll_handles c) @ unloaded h"
proof -
  obtain s where s: "tvm_ectx_release vm (machine h) = Some s" "ctx_list s (head s) (remove1 vm es)"
    using ectx_release_removes [OF assms(2,3)] by blast
  have "vm \<noteq> 0" using assms(2,3) by (auto simp: contexts_def)
  then show ?thesis
    using s assms(4-) unfolding c_def
    by (simp add: free_ectx_def free_bytecode_def Let_def release_ffi_table_def unload_libraries_def)
qed

text \<open>Reading a file closes it again, except when it cannot be sought or memory runs out.\<close>

lemma read_tbc_file_leaks:
  "open_files (snd (snd (read_tbc_file io data h))) =
     open_files h + (if fopen io \<and> (fseek_end io < 0 \<or> data = 0) then 1 else 0)"
  by (simp add: read_tbc_file_def Let_def)

section \<open>Examples\<close>

definition alarm_off :: alarm where
  "alarm_off = \<lparr>alarm_set = False, alarm_time = 0, itimer = (0, 0)\<rparr>"

definition tbc_file_example :: "item list" where
  "tbc_file_example = [Bytes ''tbcL'' (enc_items file_example)]"

definition posix_example :: posix where
  "posix_example = \<lparr>machine = blank\<lparr>head := 1, tail := 1\<rparr>,
     bytecodes = \<lambda>_. \<lparr>refcount = 2, bc_source = 64, bc_data = 128, bc_length = 8, bc_tbc = 256, bc_ffi = Some [],
       bc_ffi_length = 0, dll_handles = [9]\<rparr>,
     privs = \<lambda>_. \<lparr>priv_bytecode = 32, priv_memory = 1024, priv_memory_length = 10\<rparr>, freed = [], unloaded = [],
     open_files = 0\<rparr>"

lemma set_alarm_wakes_witness:
  "case tvm_set_alarm False 1 alarm_off (set_TNEXT 1 2500000 blank) of (a', s') \<Rightarrow>
     will_wake 1 a' s' \<and> alarm_ahead a'"
  using set_alarm_wakes [where a = alarm_off and s = "set_TNEXT 1 2500000 blank" and e = 1 and fails = False]
  by (auto simp: alarm_ahead_def alarm_off_def TIME_AFTER_def)

lemma late_alarm_blocks_witness:
  "\<exists>a' s'. tvm_set_alarm False 1 alarm_off blank = (a', s') \<and> alarm_set a' \<and> tvm_set_alarm False 2 a' (set_TNEXT 2 5 blank) =
     (a', set_TNEXT 2 5 blank)"
proof -
  have "TIME_AFTER (TNEXT 2 (set_TNEXT 2 5 blank)) (TNEXT 1 blank)" by (simp add: TIME_AFTER_def blank_ectx_def)
  moreover have "clock blank (ticks blank) = TNEXT 1 blank" "\<not> alarm_set alarm_off"
    by (simp_all add: blank_ectx_def alarm_off_def)
  ultimately show ?thesis using late_alarm_blocks [where a = alarm_off and e = 1 and s = blank] by blast
qed

lemma sigalrm_wakes_all_witness:
  "\<exists>s'. sigalrm_handler alarm_off (blank\<lparr>head := 1, tail := 1\<rparr>) = Some (alarm_off, s') \<and>
     sflags (ectxs s' 1) = 1 \<and> sflags (ectxs s' 2) = 0"
proof -
  have "contexts (blank\<lparr>head := 1, tail := 1\<rparr>) [1]" by (simp add: contexts_def)
  from sigalrm_wakes_all [OF this, of alarm_off] show ?thesis by (auto simp: alarm_off_def)
qed

lemma allocate_ectx_failure_dangles_witness:
  "\<exists>h'. allocate_ectx no_heap 7 0 32 ''?!!'' [1, 2, 3] posix_example = (0, h') \<and> 7 \<in> set (freed h') \<and>
     contexts (machine h') [1, 7]"
  using allocate_ectx_failure_dangles [of posix_example "[1]" 7 0 "''?!!''" no_heap 32 "[1, 2, 3]"]
  by (simp add: posix_example_def contexts_def)

lemma freed_once_witness:
  "\<exists>h'. free_ectx 1 posix_example = Some h' \<and> freed (free_bytecode 32 h') = [32, 128, 64, 1, 1024] \<and>
     unloaded (free_bytecode 32 h') = [9]"
  using freed_once [of posix_example "[1]" 1 32 1024 10 "[]"]
  by (auto simp: posix_example_def contexts_def)

lemma tbc_file_example:
  "\<forall>it \<in> set file_example. valid_item it" "length (enc_item (Bytes ''TEnc'' (enc_items tbc_file_example))) = 64"
  using file_example_valid by (simp_all add: tbc_file_example_def padding_def)

theorem decode_tbc_file_witness:
  "\<exists>t m'. decode_tbc 4096 64 (memory_of 4096 (enc_item (Bytes ''TEnc'' (enc_items tbc_file_example)))) = Some (t, m') \<and>
     t \<noteq> 0 \<and> read_word m' (tbc_ws t) = 16 \<and> stored m' (read_word m' (tbc_bytecode t)) [0x2F, 0xFE]"
proof -
  let ?item = "Bytes ''TEnc'' (enc_items tbc_file_example)"
  have f: "file_example = Number ''endU'' 0 # Number ''ws U'' 16 # Number ''vs U'' 32 # [Bytes ''padB'' [0, 0, 0, 0]] @
      Bytes ''bc B'' [0x2F, 0xFE] # []"
    by (simp add: file_example_def)
  have b: "tbc_file_example = [] @ Bytes ''tbcL'' (enc_items file_example) # []" by (simp add: tbc_file_example_def)
  have "stored (memory_of 4096 (enc_item ?item)) 4096 (enc_item ?item)"
    by (rule stored_memory_of) (use tbc_file_example(2) in linarith)
  from decode_tbc_file [OF f b this tbc_file_example(1)] show ?thesis
    unfolding tbc_file_example(2) by (auto simp: padding_def)
qed

lemma allocate_ectx_starts_witness:
  "\<exists>h'. allocate_ectx no_heap 7 4096 32 ''?!!'' [1, 2, 3] posix_example = (7, h') \<and> contexts (machine h') [1, 7] \<and>
     WPTR 7 (machine h') = 4112"
  using allocate_ectx_starts [where h = posix_example and es = "[1]" and vm = 7 and block = 4096 and tlp = "''?!!''" and
      hp = no_heap and b = 32 and argv = "[1, 2, 3]"]
  by (auto simp: posix_example_def contexts_def context_words_def frame_words_def)

end
