(* ===== verification/Tvm_Posix.thy ===== *)
theory Tvm_Posix
  imports Tvm_Host
begin

text \<open>
  The POSIX program around the virtual machine, \<^verbatim>\<open>src/tvm/posix/main.c\<close>: two contexts, one for the
  firmware and one for the user's program, that talk over the channels of a top-level process; the
  loop that runs them in turn; and what it reports when the program fails. Messages are not
  modelled, and the machine is one whose host has no \<^verbatim>\<open>setitimer\<close>, so that its contexts have the
  alarm of the scheduler.
\<close>

section \<open>Sleeping\<close>

definition TIME_BEFORE :: "WORD \<Rightarrow> WORD \<Rightarrow> bool" where
  "TIME_BEFORE t1 t2 \<longleftrightarrow> TIME_AFTER t2 t1"

text \<open>The seconds and nanoseconds given to \<^verbatim>\<open>nanosleep\<close>, if it is called.\<close>

definition tvm_sleep :: "WORD \<Rightarrow> WORD \<Rightarrow> tvm \<Rightarrow> (nat \<times> nat) option \<times> tvm" where
  "tvm_sleep firmware user s =
     (let (now, s) = get_time firmware s;
          (timeout, set) = (if TPTR firmware s \<noteq> NOT_PROCESS_P then (TNEXT firmware s, True) else (0, False));
          (timeout, set) =
            (if TPTR user s \<noteq> NOT_PROCESS_P then
               if \<not> set \<or> TIME_BEFORE (TNEXT user s) timeout then (TNEXT user s, True) else (timeout, set)
             else (timeout, set))
      in if set \<and> TIME_AFTER timeout now then
           let period = timeout - now
           in if period > 0 then (Some (unat period div 1000000, (unat period mod 1000000) * 1000), s) else (None, s)
         else (None, s))"

section \<open>The user's program\<close>

definition TLP_MT_CB_TYPE :: WORD where
  "TLP_MT_CB_TYPE = MT_SIMPLE OR MT_MAKE_TYPE MT_CB OR MT_CB_SHARED OR push_bit 8 1"

text \<open>The scan of the format of the top-level process from number \<open>i\<close> on: whether it is valid, its
  length as far as it was scanned, and the positions of the arguments for keyboard, screen and error
  channel, negative for one that is missing, with the bit 0x100 for a channel bundle.\<close>

primrec scan_tlp :: "string \<Rightarrow> nat \<Rightarrow> int \<Rightarrow> int \<Rightarrow> int \<Rightarrow> bool \<times> nat \<times> int \<times> int \<times> int" where
  "scan_tlp [] i kyb_p scr_p err_p = (True, i, kyb_p, scr_p, err_p)"
| "scan_tlp (arg # tlp) i kyb_p scr_p err_p =
     (if arg = CHR ''.'' \<or> arg = CHR ''F'' then scan_tlp tlp (Suc i) kyb_p scr_p err_p
      else if kyb_p < 0 \<and> (arg = CHR ''?'' \<or> arg = CHR ''S'') then
        scan_tlp tlp (Suc i) (if arg = CHR ''S'' then int i OR 0x100 else int i) scr_p err_p
      else if scr_p < 0 \<and> (arg = CHR ''!'' \<or> arg = CHR ''C'') then
        scan_tlp tlp (Suc i) kyb_p (if arg = CHR ''C'' then int i OR 0x100 else int i) err_p
      else if err_p < 0 \<and> (arg = CHR ''!'' \<or> arg = CHR ''C'') then
        scan_tlp tlp (Suc i) kyb_p scr_p (if arg = CHR ''C'' then int i OR 0x100 else int i)
      else (False, Suc i, kyb_p, scr_p, err_p))"

text \<open>The length and the positions of a format that is supported. Without dynamic memory, \<open>dynamic\<close>
  false, there are no channel bundles.\<close>

definition check_tlp :: "bool \<Rightarrow> string \<Rightarrow> (nat \<times> int \<times> int \<times> int) option" where
  "check_tlp dynamic tlp =
     (case scan_tlp tlp 0 (-1) (-1) (-1) of
        (valid_tlp, tlp_len, kyb_p, scr_p, err_p) \<Rightarrow>
          let valid_tlp = (if int tlp_len > TVM_ECTX_TLP_ARGS then False else valid_tlp);
              valid_tlp = (if \<not> dynamic \<and> (kyb_p OR scr_p OR err_p) AND 0x100 \<noteq> 0 then False else valid_tlp)
          in if valid_tlp then Some (tlp_len, kyb_p, scr_p, err_p) else None)"

text \<open>A new channel bundle in the place of a channel; there is no context yet, so none is given.\<close>

definition bundle_if :: "heap \<Rightarrow> int \<Rightarrow> WORD \<Rightarrow> tvm \<Rightarrow> WORD \<times> tvm" where
  "bundle_if hp pos chan s =
     (if pos AND 0x100 \<noteq> 0 then tvm_mt_alloc hp 0 TLP_MT_CB_TYPE 1 s else (chan, s))"

definition tlp_arguments :: "nat \<Rightarrow> int \<Rightarrow> int \<Rightarrow> int \<Rightarrow> WORD \<Rightarrow> WORD \<Rightarrow> WORD \<Rightarrow> WORD list" where
  "tlp_arguments tlp_len kyb_p scr_p err_p kyb scr err =
     map (\<lambda>i. if int i = kyb_p then kyb else if int i = scr_p then scr else if int i = err_p then err else MIN_INT)
       [0..<tlp_len]"

text \<open>
  \<open>chans\<close> are the addresses of the variables \<^verbatim>\<open>kyb_channel\<close>, \<^verbatim>\<open>scr_channel\<close> and
  \<^verbatim>\<open>err_channel\<close>, \<open>us_bc\<close> the bytecode that was loaded. The result, the array \<^verbatim>\<open>tlp_argv\<close> and the
  context. \<^verbatim>\<open>vm\<close> and \<^verbatim>\<open>block\<close> are what \<^verbatim>\<open>malloc\<close> returns for the context and its memory.
\<close>

definition install_user_ctx ::
    "heap \<Rightarrow> WORD \<Rightarrow> WORD \<Rightarrow> WORD \<times> WORD \<times> WORD \<Rightarrow> WORD \<Rightarrow> posix \<Rightarrow> (int \<times> WORD list \<times> WORD \<times> posix) option" where
  "install_user_ctx hp vm block chans us_bc h =
     (if us_bc = 0 then Some (-1, [], 0, h)
      else
        let s = machine h;
            tlp = get_word s (tbc_tlp (bc_tbc (bytecodes h us_bc)));
            (kyb, scr, err) = chans
        in do {
          fmt \<leftarrow> (if tlp \<noteq> 0 then c_string (mem s) (get_word s tlp) else Some ''?!!'');
          Some (case check_tlp True fmt of
            None \<Rightarrow> (-1, [kyb, scr, err], 0, h)
          | Some (tlp_len, kyb_p, scr_p, err_p) \<Rightarrow>
              let (kyb, s) = bundle_if hp kyb_p kyb s;
                  (scr, s) = bundle_if hp scr_p scr s;
                  (err, s) = bundle_if hp err_p err s;
                  argv = tlp_arguments tlp_len (kyb_p AND 0xff) (scr_p AND 0xff) (err_p AND 0xff) kyb scr err;
                  (user, h) = allocate_ectx hp vm block us_bc fmt argv (h\<lparr>machine := s\<rparr>)
              in (if user = 0 then -1 else 0, [kyb, scr, err], user, h))
        })"

definition install_firmware_ctx ::
    "heap \<Rightarrow> WORD \<Rightarrow> WORD \<Rightarrow> WORD list \<Rightarrow> WORD \<Rightarrow> posix \<Rightarrow> int \<times> WORD \<times> posix" where
  "install_firmware_ctx hp vm block argv fw_bc h =
     (if fw_bc = 0 then (-1, 0, h)
      else case allocate_ectx hp vm block fw_bc ''!??'' argv h of
             (firmware, h) \<Rightarrow> (if firmware = 0 then -1 else 0, firmware, h))"

section \<open>Running\<close>

definition run_firmware :: "jump_table \<Rightarrow> hook option \<Rightarrow> WORD \<Rightarrow> tvm \<Rightarrow> result" where
  "run_firmware primaries hook firmware s = do {
     (ret, s) \<leftarrow> tvm_run primaries hook firmware s;
     Some (if ret = ECTX_SLEEP then ret else if ret = ECTX_EMPTY then ret else ECTX_ERROR, s)
   }"

text \<open>\<open>base\<close> and \<open>len\<close>: the memory of the user's context.\<close>

definition run_user :: "jump_table \<Rightarrow> hook option \<Rightarrow> WORD \<Rightarrow> WORD \<Rightarrow> WORD \<Rightarrow> tvm \<Rightarrow> result" where
  "run_user primaries hook user base len s = do {
     (ret, s) \<leftarrow> tvm_run_count primaries hook user 10000 s;
     Some (if ret \<in> {ECTX_PREEMPT, ECTX_SHUTDOWN, ECTX_SLEEP, ECTX_TIME_SLICE} then ret
           else if ret = ECTX_EMPTY \<and> tvm_ectx_waiting_on user base len s \<noteq> 0 then ret
           else ECTX_ERROR, s)
   }"

text \<open>What the loop of \<^verbatim>\<open>main\<close> works with: the jump table, the hook, the two contexts, and the memory
  of the user's.\<close>

record program =
  jumps :: jump_table
  prog_hook :: "hook option"
  fw_ctx :: WORD
  us_ctx :: WORD
  us_memory :: WORD
  us_length :: WORD

text \<open>One turn of the loop: \<open>Inr\<close> when it goes on, \<open>Inl u_ret\<close> when it is left.\<close>

definition main_step :: "program \<Rightarrow> tvm \<Rightarrow> ((int + unit) \<times> tvm) option" where
  "main_step p s = do {
     (f_ret, s) \<leftarrow> run_firmware (jumps p) (prog_hook p) (fw_ctx p) s;
     (u_ret, s) \<leftarrow> run_user (jumps p) (prog_hook p) (us_ctx p) (us_memory p) (us_length p) s;
     (if f_ret \<in> {ECTX_EMPTY, ECTX_SLEEP} \<and> u_ret \<in> {ECTX_EMPTY, ECTX_SLEEP} then
        Some (Inr (), if FPTR (fw_ctx p) s = NOT_PROCESS_P \<and> FPTR (us_ctx p) s = NOT_PROCESS_P
                      then snd (tvm_sleep (fw_ctx p) (us_ctx p) s) else s)
      else if f_ret = ECTX_ERROR \<or> u_ret = ECTX_ERROR then Some (Inl u_ret, s)
      else if u_ret = ECTX_SHUTDOWN then do {
        (ret, s) \<leftarrow> run_firmware (jumps p) (prog_hook p) (fw_ctx p) s;
        Some (Inl u_ret, s)
      }
      else Some (Inr (), s))
   }"

text \<open>The loop, from a state to the one in which it is left, with the last result of the user's
  program; and the exit status of the program then.\<close>

inductive main_loop :: "program \<Rightarrow> tvm \<Rightarrow> int \<Rightarrow> tvm \<Rightarrow> bool" for p where
  leave: "main_step p s = Some (Inl u, s') \<Longrightarrow> main_loop p s u s'"
| again: "main_step p s = Some (Inr (), s1) \<Longrightarrow> main_loop p s1 u s' \<Longrightarrow> main_loop p s u s'"

definition exit_status :: "int \<Rightarrow> int" where
  "exit_status u_ret = (if u_ret = ECTX_ERROR then 1 else 0)"

section \<open>Reporting an error\<close>

text \<open>The number of line entries before the first past the offset.\<close>

fun find_lnd :: "memory \<Rightarrow> WORD \<Rightarrow> WORD \<Rightarrow> nat \<Rightarrow> nat \<Rightarrow> nat" where
  "find_lnd m lnd offset i 0 = i"
| "find_lnd m lnd offset i (Suc n) =
     (if read_word m (lnd + 12 * word_of_nat i) > offset then i else find_lnd m lnd offset (Suc i) n)"

fun nth_file :: "memory \<Rightarrow> WORD \<Rightarrow> nat \<Rightarrow> WORD option" where
  "nth_file m file 0 = Some file"
| "nth_file m file (Suc n) = (if file = 0 then None else nth_file m (read_word m file) n)"

text \<open>The file and the line reported for the instruction pointer, given a file with debugging
  information.\<close>

definition error_location :: "memory \<Rightarrow> WORD \<Rightarrow> WORD \<Rightarrow> (string \<times> WORD) option" where
  "error_location m tbc ip =
     (let dbg = read_word m (tbc_debug tbc);
          offset = ip - read_word m (tbc_bytecode tbc);
          lnd = read_word m (dbg + 8);
          i = find_lnd m lnd offset 0 (nat (sint (read_word m (dbg + 4))));
          ln = lnd + 12 * (word_of_nat i - 1)
      in do {
        file \<leftarrow> nth_file m (read_word m dbg) (unat (read_word m (ln + 4)));
        (if file = 0 then None else do {
           name \<leftarrow> c_string m (read_word m (file + 4));
           Some (name, read_word m (ln + 8))
         })
      })"

section \<open>How long the program sleeps\<close>

text \<open>The timeouts of the two contexts, as distances from the time \<open>now\<close>.\<close>

definition distances :: "WORD \<Rightarrow> WORD \<Rightarrow> tvm \<Rightarrow> int set" where
  "distances firmware user s =
     (\<lambda>e. sint (TNEXT e s - clock s (ticks s))) ` {e \<in> {firmware, user}. TPTR e s \<noteq> NOT_PROCESS_P}"

lemma near_time_before:
  assumes "\<bar>sint (t - now)\<bar> < 1073741824" "\<bar>sint (u - now)\<bar> < 1073741824"
  shows "TIME_BEFORE t u \<longleftrightarrow> sint (t - now) < sint (u - now)"
proof -
  have "sint ((u - now) - (t - now)) = sint (u - now) - sint (t - now)"
    using assms unfolding abs_less_iff by (intro sint_sub_exact) (simp only: in_range_def, linarith)
  then show ?thesis by (simp add: TIME_BEFORE_def TIME_AFTER_def)
qed

lemma sleep_for:
  assumes "TIME_AFTER t now"
  shows "t - now > 0" "int (unat (t - now)) = sint (t - now)"
proof -
  have p: "0 < sint (t - now)" using assms by (simp add: TIME_AFTER_def)
  then have "t - now \<noteq> 0" by auto
  then show "t - now > 0" by (simp only: word_gt_0 not_False_eq_True)
  show "int (unat (t - now)) = sint (t - now)" using sint_uint_diff [of "t - now"] p by simp
qed

text \<open>The program sleeps exactly to the earlier of the timeouts of the two contexts, and not at
  all when there is none or one has passed.\<close>

lemma sleeps_until_next:
  assumes "\<forall>d \<in> distances firmware user s. \<bar>d\<bar> < 1073741824"
  shows "case fst (tvm_sleep firmware user s) of
      None \<Rightarrow> distances firmware user s = {} \<or> Min (distances firmware user s) \<le> 0
    | Some (sec, nsec) \<Rightarrow> distances firmware user s \<noteq> {} \<and> 0 < Min (distances firmware user s) \<and>
        int (sec * 1000000000 + nsec) = 1000 * Min (distances firmware user s) \<and> nsec < 1000000000"
proof -
  let ?now = "clock s (ticks s)" and ?f = "TPTR firmware s \<noteq> NOT_PROCESS_P" and ?u = "TPTR user s \<noteq> NOT_PROCESS_P"
  let ?df = "sint (TNEXT firmware s - ?now)" and ?du = "sint (TNEXT user s - ?now)"
  have d: "distances firmware user s = (if ?f then {?df} else {}) \<union> (if ?u then {?du} else {})"
    by (auto simp: distances_def)
  have near: "?f \<Longrightarrow> \<bar>?df\<bar> < 1073741824" "?u \<Longrightarrow> \<bar>?du\<bar> < 1073741824" using assms unfolding d by auto
  define t where "t = (if ?u \<and> (\<not> ?f \<or> TIME_BEFORE (TNEXT user s) (TNEXT firmware s)) then TNEXT user s else TNEXT firmware s)"
  have sleep: "fst (tvm_sleep firmware user s) = (if (?f \<or> ?u) \<and> TIME_AFTER t ?now \<and> t - ?now > 0
      then Some (unat (t - ?now) div 1000000, (unat (t - ?now) mod 1000000) * 1000) else None)"
    by (auto simp: tvm_sleep_def get_time_def t_def Let_def)
  have min: "Min (distances firmware user s) = sint (t - ?now)" if "?f \<or> ?u"
    using that near near_time_before [of "TNEXT user s" ?now "TNEXT firmware s"] unfolding d by (auto simp: t_def)
  have empty: "distances firmware user s = {} \<longleftrightarrow> \<not> (?f \<or> ?u)" unfolding d by simp
  show ?thesis
  proof (cases "(?f \<or> ?u) \<and> TIME_AFTER t ?now")
    case True
    then have "int (unat (t - ?now)) = Min (distances firmware user s)" "t - ?now > 0"
      using sleep_for [of t ?now] min by simp_all
    moreover have "n div 1000000 * 1000000000 + n mod 1000000 * 1000 = 1000 * n" for n :: nat
      using div_mult_mod_eq [of n 1000000] by linarith
    ultimately show ?thesis using True empty min sleep by (simp add: TIME_AFTER_def del: of_nat_add of_nat_mult) (simp only: of_nat_mult of_nat_numeral, simp)
  next
    case False
    then have "fst (tvm_sleep firmware user s) = None" using sleep by auto
    then show ?thesis using False empty min by (auto simp: TIME_AFTER_def)
  qed
qed

section \<open>Formats of the top-level process\<close>

text \<open>The arguments that may stand for the keyboard, and for the screen and the error channel.\<close>

definition is_in :: "char \<Rightarrow> bool" where
  "is_in a \<longleftrightarrow> a = CHR ''?'' \<or> a = CHR ''S''"

definition is_out :: "char \<Rightarrow> bool" where
  "is_out a \<longleftrightarrow> a = CHR ''!'' \<or> a = CHR ''C''"

definition supported :: "string \<Rightarrow> bool" where
  "supported fmt \<longleftrightarrow> length fmt \<le> 8 \<and> (\<forall>a \<in> set fmt. is_in a \<or> is_out a \<or> a = CHR ''.'' \<or> a = CHR ''F'') \<and>
     length (filter is_in fmt) \<le> 1 \<and> length (filter is_out fmt) \<le> 2"

text \<open>A position as the scan records it, and those of the arguments of one kind.\<close>

definition mark :: "char \<Rightarrow> nat \<Rightarrow> int" where
  "mark a i = (if a = CHR ''S'' \<or> a = CHR ''C'' then int i OR 0x100 else int i)"

definition marks :: "(char \<Rightarrow> bool) \<Rightarrow> string \<Rightarrow> nat \<Rightarrow> int list" where
  "marks P fmt i = map (\<lambda>j. mark (fmt ! j) (i + j)) (filter (\<lambda>j. P (fmt ! j)) [0..<length fmt])"

lemma marks_simps [simp]:
  "marks P [] i = []" "marks P (a # fmt) i = (if P a then mark a i # marks P fmt (Suc i) else marks P fmt (Suc i))"
proof -
  have "[0..<length (a # fmt)] = 0 # map Suc [0..<length fmt]" by (simp add: map_Suc_upt upt_conv_Cons del: upt_Suc)
  then show "marks P (a # fmt) i = (if P a then mark a i # marks P fmt (Suc i) else marks P fmt (Suc i))"
    by (simp add: marks_def filter_map comp_def)
qed (simp add: marks_def)

lemma length_marks: "length (marks P fmt i) = length (filter P fmt)"
  by (induction fmt arbitrary: i) simp_all

lemma mark_nonneg [simp]: "0 \<le> mark a i"
  by (simp add: mark_def)

lemma scan_tlp_marks:
  assumes "e < 0 \<or> 0 \<le> s"
  shows "scan_tlp fmt i k s e = (v, n, k', s', e') \<Longrightarrow>
    (v \<longleftrightarrow> (\<forall>a \<in> set fmt. is_in a \<or> is_out a \<or> a = CHR ''.'' \<or> a = CHR ''F'') \<and>
      length (marks is_in fmt i) \<le> (if k < 0 then 1 else 0) \<and>
      length (marks is_out fmt i) \<le> (if s < 0 then 1 else 0) + (if e < 0 then 1 else 0)) \<and>
    (v \<longrightarrow> n = i + length fmt \<and> k' = hd (marks is_in fmt i @ [k]) \<and>
      (s', e') = (if s < 0 then (hd (marks is_out fmt i @ [s]), hd (tl (marks is_out fmt i) @ [e]))
        else (s, hd (marks is_out fmt i @ [e]))))"
  using assms
proof (induction fmt arbitrary: i k s e)
  case (Cons a fmt)
  consider "a = CHR ''.'' \<or> a = CHR ''F''" | "is_in a" | "is_out a" | "a \<noteq> CHR ''.''" "a \<noteq> CHR ''F''" "\<not> is_in a" "\<not> is_out a"
    by blast
  then show ?case
  proof cases
    case 1
    then have "\<not> is_in a" "\<not> is_out a" by (auto simp: is_in_def is_out_def)
    then show ?thesis using Cons.IH [of "Suc i" k s e] Cons.prems 1 by simp
  next
    case 2
    then have n: "a \<noteq> CHR ''.''" "a \<noteq> CHR ''F''" "\<not> is_out a" and a: "a = CHR ''?'' \<or> a = CHR ''S''"
      by (auto simp: is_in_def is_out_def)
    then have o: "a \<noteq> CHR ''!''" "a \<noteq> CHR ''C''" by (auto simp: is_out_def)
    then have m: "mark a i = (if a = CHR ''S'' then int i OR 0x100 else int i)" by (simp add: mark_def)
    show ?thesis
    proof (cases "k < 0")
      case True
      then show ?thesis using Cons.IH [of "Suc i" "mark a i" s e] Cons.prems 2 n a o m
        by (auto simp: not_less)
    next
      case False
      then show ?thesis using Cons.prems 2 n o by auto
    qed
  next
    case 3
    then have n: "a \<noteq> CHR ''.''" "a \<noteq> CHR ''F''" "a \<noteq> CHR ''?''" "a \<noteq> CHR ''S''" "\<not> is_in a"
      and a: "a = CHR ''!'' \<or> a = CHR ''C''"
      by (auto simp: is_in_def is_out_def)
    then have m: "mark a i = (if a = CHR ''C'' then int i OR 0x100 else int i)" by (simp add: mark_def)
    consider "s < 0" | "0 \<le> s" "e < 0" | "0 \<le> s" "0 \<le> e" by linarith
    then show ?thesis
    proof cases
      case 1
      then show ?thesis using Cons.IH [of "Suc i" k "mark a i" e] Cons.prems 3 n a m by (auto simp: not_less)
    next
      case 2
      then show ?thesis using Cons.IH [of "Suc i" k s "mark a i"] Cons.prems 3 n a m by (auto simp: not_less)
    next
      case 3
      then show ?thesis using Cons.prems \<open>is_out a\<close> n by auto
    qed
  next
    case 4
    then show ?thesis using Cons.prems by (auto simp: is_in_def is_out_def)
  qed
qed auto

lemma unmark:
  assumes "i < 8"
  shows "mark a i AND 0xff = int i" "mark a i AND 0x100 \<noteq> 0 \<longleftrightarrow> a = CHR ''S'' \<or> a = CHR ''C''"
proof -
  have "i = 0 \<or> i = 1 \<or> i = 2 \<or> i = 3 \<or> i = 4 \<or> i = 5 \<or> i = 6 \<or> i = 7" using assms by linarith
  then show "mark a i AND 0xff = int i" "mark a i AND 0x100 \<noteq> 0 \<longleftrightarrow> a = CHR ''S'' \<or> a = CHR ''C''"
    by (auto simp: mark_def)
qed

lemma check_tlp_marks:
  "check_tlp True fmt = (if supported fmt then Some (length fmt, hd (marks is_in fmt 0 @ [-1]),
     hd (marks is_out fmt 0 @ [-1]), hd (tl (marks is_out fmt 0) @ [-1])) else None)"
proof -
  obtain v n k s e where scan: "scan_tlp fmt 0 (-1) (-1) (-1) = (v, n, k, s, e)"
    by (metis prod_cases5)
  from scan_tlp_marks [OF _ this]
  have v: "v \<longleftrightarrow> (\<forall>a \<in> set fmt. is_in a \<or> is_out a \<or> a = CHR ''.'' \<or> a = CHR ''F'') \<and>
      length (filter is_in fmt) \<le> 1 \<and> length (filter is_out fmt) \<le> 2"
    and r: "v \<Longrightarrow> n = length fmt \<and> k = hd (marks is_in fmt 0 @ [-1]) \<and> s = hd (marks is_out fmt 0 @ [-1]) \<and>
      e = hd (tl (marks is_out fmt 0) @ [-1])"
    by (auto simp: length_marks)
  have "supported fmt \<longleftrightarrow> v \<and> length fmt \<le> 8" by (auto simp: v supported_def)
  then show ?thesis using r by (auto simp: check_tlp_def scan Let_def)
qed

text \<open>The positions of one kind of argument, in order.\<close>

lemma positions:
  fixes fmt :: string and P :: "char \<Rightarrow> bool"
  defines "F \<equiv> filter (\<lambda>j. P (fmt ! j)) [0..<length fmt]"
  shows "marks P fmt 0 = map (\<lambda>j. mark (fmt ! j) j) F" "j \<in> set F \<longleftrightarrow> j < length fmt \<and> P (fmt ! j)"
    "sorted_wrt (<) F" "length F = length (filter P fmt)"
  using length_marks [of P fmt 0] by (auto simp: marks_def F_def intro: sorted_wrt_filter)

text \<open>A format of up to eight arguments is supported exactly when it has only arguments the
  program knows, at most one input and at most two outputs, channels or bundles. The program is then
  given the keyboard for its input, the screen and the error channel for its first and its second
  output, and a null value for the rest.\<close>

lemma tlp_arguments_connected:
  "if supported fmt
   then \<exists>k s e. check_tlp True fmt = Some (length fmt, k, s, e) \<and>
     (\<forall>j < length fmt. tlp_arguments (length fmt) (k AND 0xff) (s AND 0xff) (e AND 0xff) kyb scr err ! j =
       (if is_in (fmt ! j) then kyb
        else if is_out (fmt ! j) then (if \<exists>i < j. is_out (fmt ! i) then err else scr)
        else MIN_INT))
   else check_tlp True fmt = None"
proof (cases "supported fmt")
  case True
  define I where "I = filter (\<lambda>j. is_in (fmt ! j)) [0..<length fmt]"
  define Q where "Q = filter (\<lambda>j. is_out (fmt ! j)) [0..<length fmt]"
  have len: "length fmt \<le> 8" "length I \<le> 1" "length Q \<le> 2"
    using True positions(4) [of is_in fmt] positions(4) [of is_out fmt] by (simp_all add: supported_def I_def Q_def)
  have I: "j \<in> set I \<longleftrightarrow> j < length fmt \<and> is_in (fmt ! j)" and Q: "j \<in> set Q \<longleftrightarrow> j < length fmt \<and> is_out (fmt ! j)" for j
    by (auto simp: I_def Q_def)
  have sorted: "sorted_wrt (<) Q" unfolding Q_def by (rule positions(3))
  define k where "k = hd (marks is_in fmt 0 @ [-1])"
  define s where "s = hd (marks is_out fmt 0 @ [-1])"
  define e where "e = hd (tl (marks is_out fmt 0) @ [-1])"
  have m: "marks is_in fmt 0 = map (\<lambda>j. mark (fmt ! j) j) I" "marks is_out fmt 0 = map (\<lambda>j. mark (fmt ! j) j) Q"
    unfolding I_def Q_def by (rule positions(1))+
  have k: "int j = k AND 0xff \<longleftrightarrow> is_in (fmt ! j)" if j: "j < length fmt" for j
  proof (cases I)
    case Nil
    then show ?thesis using I [of j] j len(1) by (simp add: k_def m)
  next
    case (Cons p ps)
    then have "I = [p]" "p < 8" using len I [of p] by auto
    then show ?thesis using I [of j] j unmark(1) [of p "fmt ! p"] by (simp add: k_def m)
  qed
  have out: "(int j = s AND 0xff \<longleftrightarrow> is_out (fmt ! j) \<and> (\<forall>i < j. \<not> is_out (fmt ! i))) \<and>
      (int j = e AND 0xff \<longleftrightarrow> is_out (fmt ! j) \<and> (\<exists>i < j. is_out (fmt ! i)))" if j: "j < length fmt" for j
  proof -
    consider "Q = []" | p where "Q = [p]" | p q where "Q = [p, q]" using len(3) by (cases Q; cases "tl Q") auto
    then show ?thesis
    proof cases
      case 1
      then show ?thesis using Q [of j] j len(1) by (simp add: s_def e_def m)
    next
      case 2
      then have "p < 8" "i < length fmt \<Longrightarrow> is_out (fmt ! i) \<longleftrightarrow> i = p" for i using Q [of p] Q [of i] len(1) by auto
      then show ?thesis using 2 j len(1) unmark(1) [of p "fmt ! p"] by (auto simp: s_def e_def m)
    next
      case 3
      then have "p < 8" "q < 8" "p < q" "i < length fmt \<Longrightarrow> is_out (fmt ! i) \<longleftrightarrow> i = p \<or> i = q" for i
        using Q [of p] Q [of q] Q [of i] len(1) sorted by auto
      then show ?thesis using 3 j len(1) unmark(1) [of p "fmt ! p"] unmark(1) [of q "fmt ! q"]
        by (auto simp: s_def e_def m)
    qed
  qed
  have "check_tlp True fmt = Some (length fmt, k, s, e)"
    using True by (simp add: check_tlp_marks k_def s_def e_def)
  moreover have "\<not> (is_in a \<and> is_out a)" for a by (auto simp: is_in_def is_out_def)
  ultimately show ?thesis using True k out by (auto simp: tlp_arguments_def)
qed (simp add: check_tlp_marks)

lemma check_tlp_static:
  "check_tlp False fmt = (case check_tlp True fmt of None \<Rightarrow> None
    | Some (n, k, s, e) \<Rightarrow> if k AND 0x100 = 0 \<and> s AND 0x100 = 0 \<and> e AND 0x100 = 0 then Some (n, k, s, e) else None)"
proof -
  have "(k OR s OR e) AND 0x100 = 0 \<longleftrightarrow> k AND 0x100 = 0 \<and> s AND 0x100 = 0 \<and> e AND 0x100 = 0" for k s e :: int
    by (auto simp: bit_eq_iff bit_simps)
  then show ?thesis by (simp add: check_tlp_def Let_def split: prod.split)
qed

text \<open>Without dynamic memory only formats with no bundle should be refused. The positions of missing
  channels, still negative, count as bundles too: the format needs a keyboard, a screen and an error
  channel, all three.\<close>

lemma static_formats:
  "check_tlp False fmt \<noteq> None \<longleftrightarrow> supported fmt \<and> CHR ''S'' \<notin> set fmt \<and> CHR ''C'' \<notin> set fmt \<and>
     length (filter is_in fmt) = 1 \<and> length (filter is_out fmt) = 2"
proof (cases "supported fmt")
  case True
  define I where "I = filter (\<lambda>j. is_in (fmt ! j)) [0..<length fmt]"
  define Q where "Q = filter (\<lambda>j. is_out (fmt ! j)) [0..<length fmt]"
  have len: "length fmt \<le> 8" "length I \<le> 1" "length Q \<le> 2"
    and counts: "length (filter is_in fmt) = length I" "length (filter is_out fmt) = length Q"
    using True positions(4) [of is_in fmt] positions(4) [of is_out fmt] by (simp_all add: supported_def I_def Q_def)
  have m: "marks is_in fmt 0 = map (\<lambda>j. mark (fmt ! j) j) I" "marks is_out fmt 0 = map (\<lambda>j. mark (fmt ! j) j) Q"
    unfolding I_def Q_def by (rule positions(1))+
  have p8: "p \<in> set I \<union> set Q \<Longrightarrow> p < 8" for p using len(1) by (auto simp: I_def Q_def)
  have S: "CHR ''S'' \<in> set fmt \<longleftrightarrow> (\<exists>p \<in> set I. fmt ! p = CHR ''S'')"
    by (auto simp: I_def is_in_def in_set_conv_nth)
  have C: "CHR ''C'' \<in> set fmt \<longleftrightarrow> (\<exists>p \<in> set Q. fmt ! p = CHR ''C'')"
    by (auto simp: Q_def is_out_def in_set_conv_nth)
  have one: "p \<in> set I \<Longrightarrow> mark (fmt ! p) p AND 0x100 = 0 \<longleftrightarrow> fmt ! p \<noteq> CHR ''S''"
    "p \<in> set Q \<Longrightarrow> mark (fmt ! p) p AND 0x100 = 0 \<longleftrightarrow> fmt ! p \<noteq> CHR ''C''" for p
    using unmark(2) [of p "fmt ! p"] p8 [of p] by (auto simp: I_def Q_def is_in_def is_out_def)
  have "hd (marks is_in fmt 0 @ [-1]) AND 0x100 = 0 \<longleftrightarrow> length I = 1 \<and> CHR ''S'' \<notin> set fmt"
    using len(2) one(1) unfolding m S by (cases I) auto
  moreover have "hd (marks is_out fmt 0 @ [-1]) AND 0x100 = 0 \<and> hd (tl (marks is_out fmt 0) @ [-1]) AND 0x100 = 0 \<longleftrightarrow>
      length Q = 2 \<and> CHR ''C'' \<notin> set fmt"
    using len(3) one(2) unfolding m C by (cases Q; cases "tl Q") auto
  ultimately show ?thesis using True by (auto simp: check_tlp_static check_tlp_marks counts)
qed (simp add: check_tlp_static check_tlp_marks)

text \<open>C31: the context of the user's program, for a format with a keyboard, a screen and an error channel,
  and no bundles or forking barriers; \<^verbatim>\<open>?!!\<close> when the file has none. It is the last of the machine's list, starts at the
  bytecode of the file with the workspace the file asks for, and finds the keyboard, the screen and the
  error channel in its frame at the places the format gives them.\<close>

theorem user_ctx_starts:
  fixes h :: posix and b vm block kyb scr err :: WORD and fmt :: string
  defines "s \<equiv> machine h" and "tbc \<equiv> bc_tbc (bytecodes h b)"
  defines "ws \<equiv> unat (get_word s (tbc_ws tbc))" and "vs \<equiv> unat (get_word s (tbc_vs tbc))"
  assumes "contexts s es" "vm \<notin> set es" "vm \<noteq> 0" "block \<noteq> 0" "b \<noteq> 0"
    and "(if get_word s (tbc_tlp tbc) = 0 then Some ''?!!'' else c_string (mem s) (get_word s (get_word s (tbc_tlp tbc)))) = Some fmt"
    and "check_tlp False fmt \<noteq> None" "CHR ''F'' \<notin> set fmt"
    and "unat block + 4 * context_words (length fmt) ws vs < 4294967296"
  shows "\<exists>h'. install_user_ctx hp vm block (kyb, scr, err) b h = Some (0, [kyb, scr, err], vm, h') \<and>
    contexts (machine h') (es @ [vm]) \<and> IPTR vm (machine h') = get_word s (tbc_bytecode tbc) \<and>
    WPTR vm (machine h') = block + word_of_nat (4 * (ws + 4)) \<and>
    (\<forall>i < length fmt. get_word (machine h') (WPTR vm (machine h') + word_of_nat (4 * (i + 1))) =
      (if is_in (fmt ! i) then kyb
       else if is_out (fmt ! i) then (if \<exists>j < i. is_out (fmt ! j) then err else scr)
       else MIN_INT))"
proof -
  obtain n k p e where st: "check_tlp False fmt = Some (n, k, p, e)" using assms(11) by auto
  then have bits: "k AND 0x100 = 0" "p AND 0x100 = 0" "e AND 0x100 = 0" and c: "check_tlp True fmt = Some (n, k, p, e)"
    by (auto simp: check_tlp_static split: option.splits if_splits)
  then have sup: "supported fmt" "n = length fmt" by (auto simp: check_tlp_marks split: if_splits)
  let ?argv = "tlp_arguments (length fmt) (k AND 0xff) (p AND 0xff) (e AND 0xff) kyb scr err"
  have roles: "i < length fmt \<Longrightarrow> ?argv ! i =
      (if is_in (fmt ! i) then kyb else if is_out (fmt ! i) then (if \<exists>j < i. is_out (fmt ! j) then err else scr) else MIN_INT)" for i
    using tlp_arguments_connected [of fmt kyb scr err] sup c by auto
  have args: "length fmt = length ?argv" "length ?argv \<le> 8"
    using sup(1) by (simp_all add: tlp_arguments_def supported_def)
  obtain h' where h': "allocate_ectx hp vm block b fmt ?argv h = (vm, h')" "contexts (machine h') (es @ [vm])"
    "IPTR vm (machine h') = get_word s (tbc_bytecode tbc)" "WPTR vm (machine h') = block + word_of_nat (4 * (ws + 4))"
    "\<forall>i < length ?argv. get_word (machine h') (WPTR vm (machine h') + word_of_nat (4 * (i + 1))) = ?argv ! i"
    using allocate_ectx_starts [where h = h and b = b and hp = hp, OF _ assms(6-8) args assms(12)] assms(5,13) args(1)
    unfolding s_def tbc_def ws_def vs_def by (metis (no_types, lifting))
  have "install_user_ctx hp vm block (kyb, scr, err) b h = Some (0, [kyb, scr, err], vm, h')"
    using assms(7,9,10) bits c h'(1) sup(2)
    by (simp add: install_user_ctx_def bundle_if_def s_def [symmetric] tbc_def [symmetric] Let_def split: if_splits)
      (simp_all add: s_def)
  then show ?thesis using h'(2-) roles args(1) by auto
qed

section \<open>The main loop\<close>

text \<open>Turns of the loop that go on.\<close>

definition goes_on :: "program \<Rightarrow> tvm \<Rightarrow> tvm \<Rightarrow> bool" where
  "goes_on p s s' \<longleftrightarrow> main_step p s = Some (Inr (), s')"

lemma main_step_leaves:
  assumes "main_step p s = Some (Inl u, s')"
  shows "\<exists>f s1 s2. run_firmware (jumps p) (prog_hook p) (fw_ctx p) s = Some (f, s1) \<and>
    run_user (jumps p) (prog_hook p) (us_ctx p) (us_memory p) (us_length p) s1 = Some (u, s2) \<and>
    (f = ECTX_ERROR \<or> u = ECTX_ERROR \<or> u = ECTX_SHUTDOWN)"
  using assms by (auto simp: main_step_def bind_eq_Some_conv split: if_splits)

text \<open>The program ends only after a turn in which the firmware failed, or the user's program failed
  or asked to shut down; its exit status tells whether the user's program failed, so a failure of the
  firmware alone ends it with status zero.\<close>

lemma main_loop_ends:
  assumes "main_loop p s u s'"
  shows "\<exists>t f s1 s2. (goes_on p)\<^sup>*\<^sup>* s t \<and>
    run_firmware (jumps p) (prog_hook p) (fw_ctx p) t = Some (f, s1) \<and>
    run_user (jumps p) (prog_hook p) (us_ctx p) (us_memory p) (us_length p) s1 = Some (u, s2) \<and>
    (f = ECTX_ERROR \<or> u = ECTX_ERROR \<or> u = ECTX_SHUTDOWN) \<and> (exit_status u = 1 \<longleftrightarrow> u = ECTX_ERROR)"
  using assms
proof (induction rule: main_loop.induct)
  case (leave s u s')
  then show ?case using main_step_leaves by (fastforce simp: exit_status_def)
next
  case (again s s1 u s')
  then have "goes_on p s s1" by (simp add: goes_on_def)
  then show ?case using again.IH converse_rtranclp_into_rtranclp [of "goes_on p" s s1] by blast
qed

text \<open>Two contexts with nothing to run and nothing to wait for.\<close>

definition idle_ctx :: "WORD \<Rightarrow> tvm \<Rightarrow> bool" where
  "idle_ctx e s \<longleftrightarrow> WPTR e s = NOT_PROCESS_P \<and> FPTR e s = NOT_PROCESS_P \<and> TPTR e s = NOT_PROCESS_P \<and> sflags (ectxs s e) = 0"

lemma run_idle:
  assumes "idle_ctx e s"
  shows "\<exists>s'. tvm_run primaries None e s = Some (ECTX_EMPTY, s') \<and> tvm_run_count primaries None e n s = Some (ECTX_EMPTY, s') \<and>
    mem s' = mem s \<and> (\<forall>d. idle_ctx d s \<longrightarrow> idle_ctx d s') \<and> (\<forall>d. tlp_args d s' = tlp_args d s)"
proof -
  let ?s = "set_state e ECTX_EMPTY (set_WPTR e 0 (set_state e ECTX_RUNNING s))"
  have "run_pre_init None e s = Some (ECTX_EMPTY, ?s)"
    using assms by (simp add: idle_ctx_def run_pre_init_def Let_def run_next_on_queue_def take_next_def set_state_def)
  moreover have "\<forall>d. idle_ctx d s \<longrightarrow> idle_ctx d ?s" by (simp add: idle_ctx_def set_state_def)
  ultimately show ?thesis
    by (intro exI [of _ ?s]) (simp add: tvm_run_def tvm_run_count_def tlp_args_def set_state_def)
qed

lemma waiting_on_cong:
  "mem s' = mem s \<Longrightarrow> tlp_args e s' = tlp_args e s \<Longrightarrow> tvm_ectx_waiting_on e base len s' = tvm_ectx_waiting_on e base len s"
proof -
  assume m: "mem s' = mem s" and a: "tlp_args e s' = tlp_args e s"
  have "waits_in_range lo hi s' args = waits_in_range lo hi s args" for lo hi args
  proof (induction args)
    case (Cons a args)
    then show ?case by (cases a) (simp add: m read_mt_type_def Let_def)
  qed simp
  then show ?thesis by (simp add: tvm_ectx_waiting_on_def a)
qed

lemma idle_step:
  assumes "idle_ctx (fw_ctx p) t" "idle_ctx (us_ctx p) t" "prog_hook p = None"
  shows "if tvm_ectx_waiting_on (us_ctx p) (us_memory p) (us_length p) t = 0 then \<exists>s'. main_step p t = Some (Inl ECTX_ERROR, s')
    else \<exists>s'. main_step p t = Some (Inr (), s') \<and> idle_ctx (fw_ctx p) s' \<and> idle_ctx (us_ctx p) s' \<and>
      tvm_ectx_waiting_on (us_ctx p) (us_memory p) (us_length p) s' \<noteq> 0"
proof -
  obtain s1 where s1: "tvm_run (jumps p) None (fw_ctx p) t = Some (ECTX_EMPTY, s1)" "mem s1 = mem t"
    "idle_ctx (fw_ctx p) s1" "idle_ctx (us_ctx p) s1" "\<And>d. tlp_args d s1 = tlp_args d t"
    using run_idle [OF assms(1), of "jumps p"] assms(1,2) by blast
  obtain s2 where s2: "tvm_run_count (jumps p) None (us_ctx p) 10000 s1 = Some (ECTX_EMPTY, s2)" "mem s2 = mem s1"
    "idle_ctx (fw_ctx p) s2" "idle_ctx (us_ctx p) s2" "\<And>d. tlp_args d s2 = tlp_args d s1"
    using run_idle [OF s1(4), of "jumps p" 10000] s1(3,4) by blast
  define s3 where "s3 = snd (tvm_sleep (fw_ctx p) (us_ctx p) s2)"
  have s3: "s3 = s2\<lparr>ticks := Suc (ticks s2)\<rparr>"
    using s2(3,4) by (simp add: s3_def tvm_sleep_def get_time_def idle_ctx_def)
  let ?w = "\<lambda>t. tvm_ectx_waiting_on (us_ctx p) (us_memory p) (us_length p) t"
  have w: "?w s2 = ?w t" "?w s3 = ?w t"
    using s1(2,5) s2(2,5) by (auto intro!: waiting_on_cong simp: s3 tlp_args_def)
  have "main_step p t = (if ?w t = 0 then Some (Inl ECTX_ERROR, s2) else Some (Inr (), s3))"
    using s1(1) s2(1,3,4) w(1) assms(3)
    by (simp add: main_step_def run_firmware_def run_user_def s3_def [symmetric]) (simp add: idle_ctx_def)
  then show ?thesis using w s2(3,4) by (auto simp: s3 idle_ctx_def)
qed

text \<open>C32: when neither context has a process or a timeout left, the program depends on what its
  channels hold. If none holds a process of the user's program, the program has stopped by itself and
  the loop ends at once with status one. If one does, the program is deadlocked with the firmware:
  the loop never ends, and never sleeps.\<close>

theorem idle_program:
  assumes "idle_ctx (fw_ctx p) s" "idle_ctx (us_ctx p) s" "prog_hook p = None"
  shows "if tvm_ectx_waiting_on (us_ctx p) (us_memory p) (us_length p) s = 0
    then (\<exists>s'. main_loop p s ECTX_ERROR s') \<and> exit_status ECTX_ERROR = 1
    else \<not> (\<exists>u s'. main_loop p s u s') \<and> fst (tvm_sleep (fw_ctx p) (us_ctx p) s) = None"
proof -
  show ?thesis
  proof (cases "tvm_ectx_waiting_on (us_ctx p) (us_memory p) (us_length p) s = 0")
    case True
    then show ?thesis using idle_step [OF assms] by (auto simp: exit_status_def intro: main_loop.leave)
  next
    case False
    have "\<not> main_loop p s u s'" for u s'
    proof
      assume "main_loop p s u s'"
      then show False using assms(1,2) False
        by (induction rule: main_loop.induct) (use idle_step [OF _ _ assms(3)] in \<open>force+\<close>)
    qed
    then show ?thesis using False assms(1,2) by (simp add: tvm_sleep_def get_time_def idle_ctx_def)
  qed
qed

section \<open>The line of an error\<close>

lemma find_lnd_takeWhile:
  "find_lnd m lnd offset i n = i + length (takeWhile (\<lambda>j. read_word m (lnd + 12 * word_of_nat j) \<le> offset) [i..<i + n])"
proof (induction n arbitrary: i)
  case (Suc n)
  have "[i..<i + Suc n] = i # [Suc i..<Suc i + n]" by (simp add: upt_conv_Cons)
  then show ?case using Suc by (simp add: not_less)
qed simp

text \<open>The entry reported for an error, in a table of lines in the order of their offsets, is the
  last whose offset is not past that of the instruction. When the first is past it already, the
  entry read is the one before the start of the table.\<close>

lemma error_entry:
  fixes lnd offset :: WORD and m :: memory
  defines "off \<equiv> \<lambda>i. read_word m (lnd + 12 * word_of_nat i)"
  assumes "0 < n" "\<forall>i j. i < j \<and> j < n \<longrightarrow> off i \<le> off j"
  defines "k \<equiv> find_lnd m lnd offset 0 n"
  shows "if offset < off 0 then lnd + 12 * (word_of_nat k - 1) = lnd - 12
    else 0 < k \<and> k \<le> n \<and> (\<forall>i < n. off i \<le> offset \<longleftrightarrow> i < k)"
proof -
  have k: "k = length (takeWhile (\<lambda>j. off j \<le> offset) [0..<n])"
    unfolding k_def off_def find_lnd_takeWhile by simp
  let ?T = "takeWhile (\<lambda>j. off j \<le> offset) [0..<n]"
  have n: "[0..<n] = 0 # [1..<n]" using assms(2) by (simp add: upt_conv_Cons)
  have le: "k \<le> n" unfolding k using length_takeWhile_le [of _ "[0..<n]"] by (metis length_upt minus_nat.diff_0)
  show ?thesis
  proof (cases "offset < off 0")
    case True
    then have "k = 0" unfolding k n by (simp add: not_le)
    then show ?thesis using True by simp
  next
    case False
    then have pos: "0 < k" unfolding k n by (simp add: not_less)
    have "k - 1 < length ?T" using pos k by linarith
    then have "?T ! (k - 1) \<in> set ?T" "?T ! (k - 1) = [0..<n] ! (k - 1)" by (rule nth_mem, rule takeWhile_nth)
    moreover have "[0..<n] ! (k - 1) = k - 1" using pos le by simp
    ultimately have before: "off (k - 1) \<le> offset" using set_takeWhileD by fastforce
    have after: "offset < off k" if "k < n"
      using nth_length_takeWhile [of "\<lambda>j. off j \<le> offset" "[0..<n]"] that le unfolding k [symmetric] by (simp add: not_le)
    have "off i \<le> offset \<longleftrightarrow> i < k" if "i < n" for i
    proof (cases "i < k")
      case True
      then have "i = k - 1 \<or> off i \<le> off (k - 1)" using assms(3) [rule_format, of i "k - 1"] le pos by linarith
      then show ?thesis using True before by (auto intro: order_trans)
    next
      case False
      then have "i = k \<or> off k \<le> off i" using assms(3) [rule_format, of k i] that by linarith
      then show ?thesis using False after that by (auto simp: not_le intro: less_le_trans)
    qed
    then show ?thesis using False pos le by simp
  qed
qed

section \<open>Examples\<close>

definition program_example :: program where
  "program_example = \<lparr>jumps = [], prog_hook = None, fw_ctx = 1, us_ctx = 2, us_memory = 1024, us_length = 16\<rparr>"

lemma program_example_simps [simp]:
  "fw_ctx program_example = 1" "us_ctx program_example = 2" "prog_hook program_example = None"
  "us_memory program_example = 1024" "us_length program_example = 16"
  by (simp_all add: program_example_def)

lemma example_stopped: "idle_ctx e blank" "tvm_ectx_waiting_on 2 1024 16 blank = 0"
  by (simp_all add: idle_ctx_def tvm_ectx_waiting_on_def tlp_args_def Let_def blank_ectx_def)

definition two_timeouts :: tvm where
  "two_timeouts = set_TNEXT 2 2500000 (set_TPTR 2 8 (set_TNEXT 1 3000000 (set_TPTR 1 8 blank)))"

lemma sleeps_until_next_witness:
  "case fst (tvm_sleep 1 2 two_timeouts) of None \<Rightarrow> False
    | Some (sec, nsec) \<Rightarrow> int (sec * 1000000000 + nsec) = 2500000000 \<and> nsec < 1000000000"
proof -
  have "{e \<in> {1, 2}. TPTR e two_timeouts \<noteq> NOT_PROCESS_P} = {1, 2}" by (auto simp: two_timeouts_def)
  then have d: "distances 1 2 two_timeouts = {3000000, 2500000}" by (simp add: distances_def two_timeouts_def)
  then show ?thesis using sleeps_until_next [of 1 2 two_timeouts] by (auto split: option.splits)
qed

lemma main_loop_ends_witness:
  "\<exists>t f s1 s2. (goes_on program_example)\<^sup>*\<^sup>* blank t \<and>
     run_firmware (jumps program_example) None 1 t = Some (f, s1) \<and> run_user (jumps program_example) None 2 1024 16 s1 = Some (ECTX_ERROR, s2)"
proof -
  obtain s' where "main_step program_example blank = Some (Inl ECTX_ERROR, s')"
    using idle_step [of program_example blank] example_stopped by auto
  from main_loop_ends [OF main_loop.leave [OF this]] show ?thesis by auto
qed

theorem idle_program_witness:
  "(\<exists>s'. main_loop program_example blank ECTX_ERROR s') \<and> exit_status ECTX_ERROR = 1"
  using idle_program [of program_example blank] example_stopped by simp

lemma tlp_arguments_connected_witness:
  "\<exists>k s e. check_tlp True ''!.?!'' = Some (4, k, s, e) \<and>
     tlp_arguments 4 (k AND 0xff) (s AND 0xff) (e AND 0xff) 10 11 12 = [11, MIN_INT, 10, 12]"
proof -
  have "supported ''!.?!''" by (simp add: supported_def is_in_def is_out_def)
  moreover have len: "length ''!.?!'' = 4" by simp
  ultimately obtain k s e where c: "check_tlp True ''!.?!'' = Some (4, k, s, e)"
    and a: "\<And>j. j < 4 \<Longrightarrow> tlp_arguments 4 (k AND 0xff) (s AND 0xff) (e AND 0xff) 10 11 12 ! j =
      (if is_in (''!.?!'' ! j) then 10 else if is_out (''!.?!'' ! j) then (if \<exists>i < j. is_out (''!.?!'' ! i) then 12 else 11)
       else MIN_INT)"
    using tlp_arguments_connected [of "''!.?!''" 10 11 12] unfolding len by (simp only: if_True) blast
  let ?xs = "tlp_arguments 4 (k AND 0xff) (s AND 0xff) (e AND 0xff) 10 11 12"
  have "?xs = [?xs ! 0, ?xs ! 1, ?xs ! 2, ?xs ! 3]" by (rule length_4_list) (simp add: tlp_arguments_def)
  also have "\<dots> = [11, MIN_INT, 10, 12]"
    using a [of 0] a [of 1] a [of 2] a [of 3] by (auto simp: is_in_def is_out_def intro: exI [of _ "0 :: nat"])
  finally have "?xs = [11, MIN_INT, 10, 12]" .
  then show ?thesis using c by blast
qed

lemma error_entry_witness:
  "find_lnd (mem (put_word 128 20 (put_word 116 10 blank))) 104 15 0 3 = 2"
proof -
  let ?m = "mem (put_word 128 20 (put_word 116 10 blank))"
  have off: "read_word ?m (104 + 12 * word_of_nat i) = of_nat (10 * i)" if "i < 3" for i
  proof -
    have "i = 0 \<or> i = 1 \<or> i = 2" using that by linarith
    then show ?thesis by (auto simp: read_write_word_other apart_def)
  qed
  have "\<forall>i j. i < j \<and> j < 3 \<longrightarrow> read_word ?m (104 + 12 * word_of_nat i) \<le> read_word ?m (104 + 12 * word_of_nat j)"
  proof (intro allI impI)
    fix i j :: nat assume ij: "i < j \<and> j < 3"
    then have "i = 0 \<or> i = 1" "j = 1 \<or> j = 2" by linarith+
    then show "read_word ?m (104 + 12 * word_of_nat i) \<le> read_word ?m (104 + 12 * word_of_nat j)"
      using ij off [of i] off [of j] by auto
  qed
  from error_entry [OF _ this, of 15] off [of 0] have "0 < find_lnd ?m 104 15 0 3 \<and> find_lnd ?m 104 15 0 3 \<le> 3 \<and>
      (\<forall>i < 3. read_word ?m (104 + 12 * word_of_nat i) \<le> 15 \<longleftrightarrow> i < find_lnd ?m 104 15 0 3)"
    by simp
  then have k: "\<And>i. i < 3 \<Longrightarrow> i < find_lnd ?m 104 15 0 3 \<longleftrightarrow> (of_nat (10 * i) :: WORD) \<le> 15" using off by metis
  have "1 < find_lnd ?m 104 15 0 3" "\<not> 2 < find_lnd ?m 104 15 0 3"
    by (subst k; simp)+
  then show ?thesis by linarith
qed

theorem user_ctx_starts_witness:
  "\<exists>h'. install_user_ctx no_heap 7 4096 (100, 104, 108) 32 posix_example = Some (0, [100, 104, 108], 7, h') \<and>
     contexts (machine h') [1, 7] \<and> WPTR 7 (machine h') = 4112 \<and> get_word (machine h') 4116 = 100"
proof -
  have "check_tlp False ''?!!'' \<noteq> None" by (simp add: check_tlp_def)
  then show ?thesis
    using user_ctx_starts [where h = posix_example and es = "[1]" and vm = 7 and block = 4096 and fmt = "''?!!''" and
        hp = no_heap and b = 32 and kyb = 100 and scr = 104 and err = 108]
    by (auto simp: posix_example_def contexts_def context_words_def frame_words_def is_in_def)
qed

end
