(* ===== verification/Tvm_Extchan.thy ===== *)
theory Tvm_Extchan
  imports Tvm_Pi Tvm_Mobile
begin

text \<open>
  External channel bundles, the code of \<^verbatim>\<open>ins_chan.c\<close>, \<^verbatim>\<open>ins_pi.c\<close> and \<^verbatim>\<open>ins_mobile.c\<close> under
  \<^verbatim>\<open>TVM_EXTERNAL_CHANNEL_BUNDLES\<close>: a channel word with bit 1 set refers to the base of a bundle that
  the host serves, which holds a table of the host's functions and a pointer to its data.
\<close>

section \<open>The host's side\<close>

text \<open>
  The host has a state of its own, of type \<open>'h\<close>, around that of the machine. Its functions take
  the context, the data of the bundle, the channel, and the address (and length) of the message. The
  function \<^verbatim>\<open>free\<close> of the table is called on release, where the allocator is an argument of the model.
\<close>

type_synonym 'h outcome = "(int \<times> 'h) option"
type_synonym 'h cb_io = "WORD \<Rightarrow> WORD \<Rightarrow> WORD \<Rightarrow> WORD \<Rightarrow> WORD \<Rightarrow> 'h \<Rightarrow> 'h outcome"
type_synonym 'h cb_mt = "WORD \<Rightarrow> WORD \<Rightarrow> WORD \<Rightarrow> WORD \<Rightarrow> 'h \<Rightarrow> 'h outcome"
type_synonym 'h cb_able = "WORD \<Rightarrow> WORD \<Rightarrow> WORD \<Rightarrow> 'h \<Rightarrow> 'h outcome"

record 'h ext_interface =
  cb_in :: "'h cb_io option"
  cb_out :: "'h cb_io option"
  cb_swap :: "'h cb_io option"
  cb_mt_in :: "'h cb_mt option"
  cb_mt_out :: "'h cb_mt option"
  cb_xable :: "'h cb_able option"
  cb_xin :: "'h cb_io option"
  cb_mt_xin :: "'h cb_mt option"

text \<open>Where the machine is in the state of the host, and the tables of functions by their addresses.\<close>

record 'h embedding =
  machine_of :: "'h \<Rightarrow> tvm"
  with_machine :: "tvm \<Rightarrow> 'h \<Rightarrow> 'h"
  interface_at :: "WORD \<Rightarrow> 'h ext_interface"

definition on_machine :: "'h embedding \<Rightarrow> (tvm \<Rightarrow> result) \<Rightarrow> 'h \<Rightarrow> 'h outcome" where
  "on_machine E f h = do { (ret, s) \<leftarrow> f (machine_of E h); Some (ret, with_machine E s h) }"

definition ext_error :: "'h embedding \<Rightarrow> WORD \<Rightarrow> 'h \<Rightarrow> 'h outcome" where
  "ext_error E e h = on_machine E (SET_ERROR_FLAG_RET e EFLAG_EXTCHAN) h"

section \<open>Data movement\<close>

type_synonym 'h io_external = "WORD \<Rightarrow> 'h ext_interface \<Rightarrow> WORD \<Rightarrow> WORD \<Rightarrow> WORD \<Rightarrow> WORD \<Rightarrow> 'h \<Rightarrow> 'h outcome"

definition channel_ext_input :: "'h embedding \<Rightarrow> 'h io_external" where
  "channel_ext_input E e intf ext_data chan_ptr data_ptr data_len h =
     (case cb_in intf of Some func \<Rightarrow> func e ext_data chan_ptr data_ptr data_len h | None \<Rightarrow> ext_error E e h)"

definition channel_ext_output :: "'h embedding \<Rightarrow> 'h io_external" where
  "channel_ext_output E e intf ext_data chan_ptr data_ptr data_len h =
     (case cb_out intf of Some func \<Rightarrow> func e ext_data chan_ptr data_ptr (- data_len) h | None \<Rightarrow> ext_error E e h)"

definition channel_ext_swap :: "'h embedding \<Rightarrow> 'h io_external" where
  "channel_ext_swap E e intf ext_data chan_ptr data_ptr data_len h =
     (case cb_swap intf of Some func \<Rightarrow> func e ext_data chan_ptr data_ptr data_len h | None \<Rightarrow> ext_error E e h)"

definition channel_ext_xin :: "'h embedding \<Rightarrow> 'h io_external" where
  "channel_ext_xin E e intf ext_data chan_ptr data_ptr data_len h =
     (case cb_xin intf of Some func \<Rightarrow> func e ext_data chan_ptr data_ptr data_len h | None \<Rightarrow> ext_error E e h)"

definition mt_chan_ext_in :: "'h embedding \<Rightarrow> 'h io_external" where
  "mt_chan_ext_in E e intf ext_data chan_ptr data_ptr data_len h =
     (case cb_mt_in intf of Some func \<Rightarrow> func e ext_data chan_ptr data_ptr h | None \<Rightarrow> ext_error E e h)"

definition mt_chan_ext_out :: "'h embedding \<Rightarrow> 'h io_external" where
  "mt_chan_ext_out E e intf ext_data chan_ptr data_ptr data_len h =
     (case cb_mt_out intf of Some func \<Rightarrow> func e ext_data chan_ptr data_ptr h | None \<Rightarrow> ext_error E e h)"

definition mt_chan_ext_xin :: "'h embedding \<Rightarrow> 'h io_external" where
  "mt_chan_ext_xin E e intf ext_data chan_ptr data_ptr data_len h =
     (case cb_mt_xin intf of Some func \<Rightarrow> func e ext_data chan_ptr data_ptr h | None \<Rightarrow> ext_error E e h)"

section \<open>Channel words\<close>

text \<open>A channel word that refers to a bundle: its functions' address and its data.\<close>

abbreviation cb_interface_of :: "tvm \<Rightarrow> WORD \<Rightarrow> WORD" where
  "cb_interface_of s chan_value \<equiv> get_word s (chan_value AND NOT 3)"
abbreviation cb_data_of :: "tvm \<Rightarrow> WORD \<Rightarrow> WORD" where
  "cb_data_of s chan_value \<equiv> get_word s (wordptr_plus (chan_value AND NOT 3) 1)"

definition chan_io_ext :: "'h embedding \<Rightarrow> WORD \<Rightarrow> WORD \<Rightarrow> WORD \<Rightarrow> WORD \<Rightarrow> io_data \<Rightarrow> io_disconnected \<Rightarrow>
    'h io_external \<Rightarrow> 'h \<Rightarrow> (int \<times> WORD \<times> 'h) option" where
  "chan_io_ext E e chan_ptr data_ptr data_len data dc ext h =
     (let s = machine_of E h;
          chan_value = get_word s chan_ptr
      in if chan_value \<noteq> NOT_PROCESS_P \<and> chan_value AND 2 \<noteq> 0 then
           let intf = cb_interface_of s chan_value;
               ext_data = cb_data_of s chan_value
           in if intf \<noteq> 0 then do {
                (ret, h) \<leftarrow> ext e (interface_at E intf) ext_data chan_ptr data_ptr data_len h;
                Some (if ret = ECTX_CONTINUE then ECTX_BYPASS else ret, NOT_PROCESS_P, h)
              }
              else do { (ret, h) \<leftarrow> ext_error E e h; Some (ret, NOT_PROCESS_P, h) }
         else do {
           (ret, requeue, s) \<leftarrow> chan_io e chan_ptr data_ptr data_len data dc s;
           Some (ret, requeue, with_machine E s h)
         })"

definition chan_std_io_ext :: "'h embedding \<Rightarrow> WORD \<Rightarrow> WORD \<Rightarrow> WORD \<Rightarrow> WORD \<Rightarrow> io_data \<Rightarrow> io_disconnected \<Rightarrow>
    'h io_external \<Rightarrow> 'h \<Rightarrow> 'h outcome" where
  "chan_std_io_ext E e chan_ptr data_ptr data_len data dc ext h = do {
     (ret, requeue, h) \<leftarrow> chan_io_ext E e chan_ptr data_ptr data_len data dc ext
       (with_machine E (UNDEFINE_STACK e (machine_of E h)) h);
     (let proceed = (\<lambda>s.
            let requeue = requeue AND NOT 1
            in if requeue \<noteq> NOT_PROCESS_P then LOAD_PROCESS_RET e requeue s
               else run_next_on_queue e s)
      in if ret = ECTX_CONTINUE \<and> requeue \<noteq> NOT_PROCESS_P then on_machine E (\<lambda>s. proceed (DESCHEDULE_CURRENT e s)) h
         else if 0 < ret then Some (ret, h)
         else if ret = ECTX_BYPASS then Some (ECTX_CONTINUE, h)
         else on_machine E proceed h)}"

section \<open>Instructions\<close>

definition chan_in_ext :: "'h embedding \<Rightarrow> WORD \<Rightarrow> WORD \<Rightarrow> WORD \<Rightarrow> WORD \<Rightarrow> 'h \<Rightarrow> 'h outcome" where
  "chan_in_ext E e num_bytes chan_ptr write_start h =
     chan_std_io_ext E e chan_ptr write_start num_bytes channel_input channel_dc_input (channel_ext_input E) h"

definition chan_out_ext :: "'h embedding \<Rightarrow> WORD \<Rightarrow> WORD \<Rightarrow> WORD \<Rightarrow> WORD \<Rightarrow> 'h \<Rightarrow> 'h outcome" where
  "chan_out_ext E e num_bytes chan_ptr read_start h =
     chan_std_io_ext E e chan_ptr read_start (- num_bytes) channel_output channel_dc_nop (channel_ext_output E) h"

definition chan_swap_ext :: "'h embedding \<Rightarrow> WORD \<Rightarrow> WORD \<Rightarrow> WORD \<Rightarrow> 'h \<Rightarrow> 'h outcome" where
  "chan_swap_ext E e chan_ptr data_ptr h =
     chan_std_io_ext E e chan_ptr data_ptr 0 channel_swap channel_dc_nop (channel_ext_swap E) h"

definition ins_in_ext :: "'h embedding \<Rightarrow> WORD \<Rightarrow> 'h \<Rightarrow> 'h outcome" where
  "ins_in_ext E e h =
     (let s = machine_of E h; data_ptr = CREG e s; chan_ptr = BREG e s; bytes = AREG e s
      in chan_in_ext E e bytes chan_ptr data_ptr h)"

definition ins_out_ext :: "'h embedding \<Rightarrow> WORD \<Rightarrow> 'h \<Rightarrow> 'h outcome" where
  "ins_out_ext E e h =
     (let s = machine_of E h; data_ptr = CREG e s; chan_ptr = BREG e s; bytes = AREG e s
      in chan_out_ext E e bytes chan_ptr data_ptr h)"

definition ins_outbyte_ext :: "'h embedding \<Rightarrow> WORD \<Rightarrow> 'h \<Rightarrow> 'h outcome" where
  "ins_outbyte_ext E e h =
     (let s = machine_of E h; data_ptr = WPTR e s; chan_ptr = BREG e s; data = ucast (AREG e s)
      in chan_out_ext E e 1 chan_ptr data_ptr (with_machine E (put_byte data_ptr data s) h))"

definition ins_outword_ext :: "'h embedding \<Rightarrow> WORD \<Rightarrow> 'h \<Rightarrow> 'h outcome" where
  "ins_outword_ext E e h =
     (let s = machine_of E h; data_ptr = WPTR e s; chan_ptr = BREG e s; data = AREG e s
      in chan_out_ext E e 4 chan_ptr data_ptr (with_machine E (put_word data_ptr data s) h))"

text \<open>\<open>frame\<close> is the address of the local variable \<^verbatim>\<open>ptr\<close> of the functions that move mobiles.\<close>

definition ins_mt_in_ext :: "'h embedding \<Rightarrow> WORD \<Rightarrow> WORD \<Rightarrow> 'h \<Rightarrow> 'h outcome" where
  "ins_mt_in_ext E frame e h =
     (let s = machine_of E h; chan_ptr = AREG e s; dst = BREG e s
      in chan_std_io_ext E e chan_ptr dst MIN_INT (mt_chan_in frame) mt_chan_dc_in (mt_chan_ext_in E) h)"

definition ins_mt_out_ext :: "'h embedding \<Rightarrow> heap \<Rightarrow> WORD \<Rightarrow> WORD \<Rightarrow> 'h \<Rightarrow> 'h outcome" where
  "ins_mt_out_ext E hp frame e h =
     (let s = machine_of E h; chan_ptr = AREG e s; src = BREG e s
      in chan_std_io_ext E e chan_ptr src (MIN_INT + 1) (mt_chan_out frame) (mt_chan_dc_out hp frame)
           (mt_chan_ext_out E) h)"

text \<open>The two extended inputs share what follows \<^verbatim>\<open>chan_io\<close>.\<close>

definition extended_input :: "'h embedding \<Rightarrow> WORD \<Rightarrow> WORD \<Rightarrow> int \<times> WORD \<times> 'h \<Rightarrow> 'h outcome" where
  "extended_input E e chan_ptr = (\<lambda>(ret, requeue, h).
     if 0 < ret then Some (ret, h)
     else if ret \<noteq> 0 then on_machine E (SET_ERROR_FLAG_RET e EFLAG_CHAN) h
     else if requeue = NOT_PROCESS_P OR 1 then
       on_machine E (\<lambda>s. run_next_on_queue e (DESCHEDULE_CURRENT e s)) h
     else on_machine E (\<lambda>s. continue (put_word chan_ptr requeue s)) h)"

definition ins_xin_ext :: "'h embedding \<Rightarrow> WORD \<Rightarrow> 'h \<Rightarrow> 'h outcome" where
  "ins_xin_ext E e h =
     (let s = machine_of E h; data_ptr = CREG e s; chan_ptr = BREG e s; data_len = AREG e s
      in do {
        r \<leftarrow> chan_io_ext E e chan_ptr data_ptr data_len channel_input channel_dc_input (channel_ext_xin E)
          (with_machine E (UNDEFINE_STACK e s) h);
        extended_input E e chan_ptr r
      })"

definition ins_mt_xin_ext :: "'h embedding \<Rightarrow> WORD \<Rightarrow> WORD \<Rightarrow> 'h \<Rightarrow> 'h outcome" where
  "ins_mt_xin_ext E frame e h =
     (let s = machine_of E h; chan_ptr = AREG e s; data_ptr = BREG e s
      in do {
        r \<leftarrow> chan_io_ext E e chan_ptr data_ptr MIN_INT (mt_chan_in frame) mt_chan_dc_in (mt_chan_ext_xin E)
          (with_machine E (UNDEFINE_STACK e s) h);
        extended_input E e chan_ptr r
      })"

definition ins_xable_ext :: "'h embedding \<Rightarrow> WORD \<Rightarrow> 'h \<Rightarrow> 'h outcome" where
  "ins_xable_ext E e h =
     (let s = machine_of E h; chan_ptr = AREG e s; chan_value = get_word s chan_ptr
      in if chan_value AND 2 \<noteq> 0 then
           let intf = cb_interface_of s chan_value;
               ext_data = cb_data_of s chan_value
           in case (if intf \<noteq> 0 then cb_xable (interface_at E intf) else None) of
                Some func \<Rightarrow> func e ext_data chan_ptr h
              | None \<Rightarrow> ext_error E e h
         else on_machine E (ins_xable e) h)"

section \<open>Both builds agree on other channels\<close>

text \<open>What an embedding promises: the machine it holds can be read and written.\<close>

definition embeds :: "'h embedding \<Rightarrow> bool" where
  "embeds E \<longleftrightarrow>
     (\<forall>s h. machine_of E (with_machine E s h) = s) \<and> (\<forall>h. with_machine E (machine_of E h) h = h) \<and>
     (\<forall>s t h. with_machine E s (with_machine E t h) = with_machine E s h)"

lemma embedsD:
  assumes "embeds E"
  shows "machine_of E (with_machine E s h) = s" "with_machine E (machine_of E h) h = h"
    "with_machine E s (with_machine E t h) = with_machine E s h"
  using assms by (auto simp: embeds_def)

definition external :: "WORD \<Rightarrow> bool" where
  "external chan_value \<longleftrightarrow> chan_value AND 2 \<noteq> 0"

lemma chan_std_io_internal:
  assumes "embeds E" "\<not> external (get_word (machine_of E h) chan)"
  shows "chan_std_io_ext E e chan ptr len data dc ext h = on_machine E (chan_std_io e chan ptr len data dc) h"
proof (cases "chan_io e chan ptr len data dc (machine_of E h)")
  case None
  then show ?thesis using assms
    by (simp add: chan_std_io_ext_def chan_io_ext_def on_machine_def chan_std_io_def external_def UNDEFINE_STACK_def
        embedsD Let_def)
next
  case (Some r)
  then show ?thesis using assms
    by (cases r) (simp add: chan_std_io_ext_def chan_io_ext_def on_machine_def chan_std_io_def external_def
        UNDEFINE_STACK_def embedsD Let_def)
qed

lemma extended_input_internal:
  assumes "embeds E" "\<not> external (get_word (machine_of E h) (BREG e (machine_of E h)))"
  shows "ins_xin_ext E e h = on_machine E (ins_xin e) h"
proof (cases "chan_io e (BREG e (machine_of E h)) (CREG e (machine_of E h)) (AREG e (machine_of E h))
    channel_input channel_dc_input (machine_of E h)")
  case None
  then show ?thesis using assms
    by (simp add: ins_xin_ext_def ins_xin_def chan_io_ext_def on_machine_def external_def UNDEFINE_STACK_def
        embedsD Let_def)
next
  case (Some r)
  then show ?thesis using assms
    by (cases r) (simp add: ins_xin_ext_def ins_xin_def extended_input_def chan_io_ext_def on_machine_def external_def
        UNDEFINE_STACK_def embedsD Let_def)
qed

section \<open>Communication with the host\<close>

text \<open>A channel of a bundle that has functions: what an instruction on it does is what the host's
  function does, and the process goes on when that says so.\<close>

definition served_by :: "'h embedding \<Rightarrow> 'h \<Rightarrow> WORD \<Rightarrow> WORD \<Rightarrow> WORD \<Rightarrow> bool" where
  "served_by E h chan intf data \<longleftrightarrow>
     (let s = machine_of E h; chan_value = get_word s chan
      in external chan_value \<and> cb_interface_of s chan_value = intf \<and> cb_data_of s chan_value = data \<and> intf \<noteq> 0)"

lemma chan_std_io_served:
  assumes "embeds E" "served_by E h chan intf data"
    and "ext e (interface_at E intf) data chan ptr len h = Some (ret, h')"
  shows "chan_std_io_ext E e chan ptr len io dc ext h =
    (if ret = ECTX_CONTINUE then Some (ECTX_CONTINUE, h') else if 0 < ret then Some (ret, h')
     else if ret = ECTX_BYPASS then Some (ECTX_CONTINUE, h') else on_machine E (run_next_on_queue e) h')"
  using assms
  by (auto simp: chan_std_io_ext_def chan_io_ext_def served_by_def external_def UNDEFINE_STACK_def embedsD Let_def)

text \<open>C38: the extended input of a message that the host has ready does not succeed: \<^verbatim>\<open>chan_io\<close> reports
  it as \<^verbatim>\<open>_ECTX_BYPASS\<close>, which \<^verbatim>\<open>ins_xin\<close> takes for a failure. The same input without extension goes on.\<close>

theorem extended_input_fails:
  assumes "embeds E" "served_by E h (BREG e (machine_of E h)) intf data"
    and "cb_xin (interface_at E intf) = Some func" "cb_in (interface_at E intf) = Some func"
    and "func e data (BREG e (machine_of E h)) (CREG e (machine_of E h)) (AREG e (machine_of E h)) h = Some (ECTX_CONTINUE, h')"
  shows "ins_in_ext E e h = Some (ECTX_CONTINUE, h') \<and>
    ins_xin_ext E e h = Some (ECTX_ERROR, with_machine E (snd (set_error_flag e EFLAG_CHAN (machine_of E h'))) h')"
proof
  have "channel_ext_input E e (interface_at E intf) data (BREG e (machine_of E h)) (CREG e (machine_of E h))
      (AREG e (machine_of E h)) h = Some (ECTX_CONTINUE, h')"
    using assms(4,5) by (simp add: channel_ext_input_def)
  from chan_std_io_served [where ext = "channel_ext_input E", OF assms(1,2) this]
  show "ins_in_ext E e h = Some (ECTX_CONTINUE, h')" by (simp add: ins_in_ext_def chan_in_ext_def Let_def)
  show "ins_xin_ext E e h = Some (ECTX_ERROR, with_machine E (snd (set_error_flag e EFLAG_CHAN (machine_of E h'))) h')"
    using assms(1-3,5)
    by (auto simp: ins_xin_ext_def extended_input_def chan_io_ext_def served_by_def external_def UNDEFINE_STACK_def embedsD
        channel_ext_xin_def on_machine_def SET_ERROR_FLAG_RET_def set_error_flag_def Let_def)
qed

section \<open>Examples\<close>

text \<open>A host whose state is the machine, and which is always ready.\<close>

definition ready :: "tvm cb_io" where
  "ready e data chan address count s = Some (ECTX_CONTINUE, s)"

definition plain_host :: "tvm embedding" where
  "plain_host = \<lparr>machine_of = \<lambda>s. s, with_machine = \<lambda>s _. s,
     interface_at = \<lambda>_. \<lparr>cb_in = Some ready, cb_out = None, cb_swap = None, cb_mt_in = None, cb_mt_out = None,
       cb_xable = None, cb_xin = Some ready, cb_mt_xin = None\<rparr>\<rparr>"

definition served_example :: tvm where
  "served_example = set_BREG 1 64 (put_word 64 130 (put_word 128 4 blank))"

theorem extended_input_fails_witness:
  "ins_in_ext plain_host 1 served_example = Some (ECTX_CONTINUE, served_example) \<and>
   (\<exists>s. ins_xin_ext plain_host 1 served_example = Some (ECTX_ERROR, s))"
proof -
  have "embeds plain_host" by (simp add: embeds_def plain_host_def)
  moreover have "served_by plain_host served_example 64 4 0"
    by (simp add: served_by_def plain_host_def served_example_def external_def put_word_def Let_def read_write_word_other
        apart_def wordptr_plus_def)
  moreover have "machine_of plain_host served_example = served_example" "BREG 1 served_example = 64"
    by (simp_all add: plain_host_def served_example_def)
  ultimately show ?thesis
    using extended_input_fails [where E = plain_host and h = served_example and e = 1 and intf = 4 and data = 0 and func = ready
        and h' = served_example]
    by (auto simp: plain_host_def ready_def)
qed

end
