(* ===== verification/Tvm_Introspect.thy ===== *)
theory Tvm_Introspect
  imports Tvm_Extchan Tvm_Host
begin

text \<open>
  Introspection, \<^verbatim>\<open>src/tvm/posix/introspect.c\<close>: a program that runs on the virtual machine loads
  bytecode, makes contexts and runs and examines them through three types of external channel
  bundle. A client outputs a request, a byte and its arguments, and inputs a response of the same
  form. Each bundle has a state on the host that decodes requests and encodes responses.
\<close>

section \<open>The state of a channel\<close>

text \<open>The functions that requests are dispatched to, named by the entries of the tables of requests.\<close>

datatype request =
    VM_CTL_RUN | VM_CTL_STEP | VM_CTL_DISPATCH | VM_CTL_SET_BP | VM_CTL_CLEAR_BP | VM_CTL_GET_CLOCK
  | VM_CTL_SET_CLOCK | VM_CTL_TRACE | VM_CTL_GET_STATE | VM_CTL_SET_STATE | VM_CTL_READ_WORD
  | VM_CTL_READ_BYTE | VM_CTL_READ_INT16 | VM_CTL_READ_TYPE | VM_CTL_RETURN_PARAM | VM_CTL_SET_PARAM_CHAN
  | BYTECODE_CREATE_VM | BYTECODE_GET_SYMBOL | BYTECODE_GET_FILE | BYTECODE_GET_LINE_INFO
  | BYTECODE_GET_DETAILS | BYTECODE_GET_TLP | VM_RQ_DECODE_BYTECODE | VM_RQ_LOAD_BYTECODE

text \<open>
  An argument: its type is a character of the format; the union of its data, a pointer, a byte, four
  bytes, or a word, is one word. An entry of a protocol; the last of a table has no format. Its
  arguments with the last one first, as they are encoded.
\<close>

record p_arg =
  arg_type :: char
  arg_length :: int
  arg_data :: WORD

record p_sym =
  sym_entry :: int
  sym_symbols :: "string option"
  sym_dispatch :: "request option"

datatype channel_state = C_S_IDLE | C_S_ENCODE_ENTRY | C_S_ENCODE | C_S_DECODE
datatype channel_type = C_T_UNKNOWN | C_T_BYTECODE | C_T_VM | C_T_VM_CTL

record c_state =
  c_status :: channel_state
  c_waiting :: WORD
  c_in :: "p_sym list"
  c_decode :: "p_sym option"
  c_symbol :: p_sym
  c_argc :: int
  c_argv :: "nat \<Rightarrow> p_arg"
  c_type :: channel_type
  c_data :: WORD
  c_buffer :: WORD

text \<open>The host with the states of its channels.\<close>

record inspect =
  posix_of :: posix
  chans :: "WORD \<Rightarrow> c_state"

abbreviation mach :: "inspect \<Rightarrow> tvm" where "mach h \<equiv> machine (posix_of h)"

definition put_mach :: "tvm \<Rightarrow> inspect \<Rightarrow> inspect" where
  "put_mach s h = h\<lparr>posix_of := (posix_of h)\<lparr>machine := s\<rparr>\<rparr>"

definition upd_chan :: "WORD \<Rightarrow> (c_state \<Rightarrow> c_state) \<Rightarrow> inspect \<Rightarrow> inspect" where
  "upd_chan c f h = h\<lparr>chans := (chans h)(c := f (chans h c))\<rparr>"

lemma put_mach_simps [simp]:
  "mach (put_mach s h) = s" "chans (put_mach s h) = chans h" "put_mach (mach h) h = h"
  "put_mach s (put_mach t h) = put_mach s h"
  by (simp_all add: put_mach_def)

lemma upd_chan_simps [simp]:
  "chans (upd_chan c f h) d = (if d = c then f (chans h c) else chans h d)" "posix_of (upd_chan c f h) = posix_of h"
  by (simp_all add: upd_chan_def)

text \<open>
  What the host's functions depend on: the allocator of mobile types, the jump table and the hook of
  the interpreter, the dynamic linker, the files by their names, and what the calls of \<^verbatim>\<open>malloc\<close> of
  one function return, by their number. \<open>e_undef\<close> is the contents of uninitialised handles,
  \<open>e_interface\<close> the address of the table \<^verbatim>\<open>cb_interface\<close>.
\<close>

record env =
  e_heap :: heap
  e_primaries :: jump_table
  e_hook :: "hook option"
  e_linker :: linker
  e_undef :: "nat \<Rightarrow> WORD"
  e_file :: "string \<Rightarrow> file_io"
  e_interface :: WORD
  e_malloc :: "nat \<Rightarrow> inspect \<Rightarrow> WORD"

type_synonym handler = "WORD \<Rightarrow> WORD \<Rightarrow> inspect \<Rightarrow> inspect outcome"

definition channel_error :: "WORD \<Rightarrow> inspect \<Rightarrow> inspect outcome" where
  "channel_error e h = (case set_error_flag e EFLAG_EXTCHAN (mach h) of (ret, s) \<Rightarrow> Some (ret, put_mach s h))"

section \<open>Messages to the client\<close>

text \<open>Copies of bytes, in ascending order.\<close>

fun move_bytes :: "nat \<Rightarrow> WORD \<Rightarrow> WORD \<Rightarrow> tvm \<Rightarrow> tvm" where
  "move_bytes 0 dst src s = s"
| "move_bytes (Suc n) dst src s = move_bytes n (dst + 1) (src + 1) (put_byte dst (mem s src) s)"

text \<open>Byte \<open>i\<close> of the union of an argument.\<close>

definition data_byte :: "WORD \<Rightarrow> nat \<Rightarrow> BYTE" where
  "data_byte d i = ucast (drop_bit (8 * i) d)"

text \<open>The transfer of one argument of a response; \<open>None\<close> when it is not of the length the client asked for.\<close>

definition encode_arg :: "p_arg \<Rightarrow> WORD \<Rightarrow> WORD \<Rightarrow> c_state \<Rightarrow> inspect \<Rightarrow> inspect option" where
  "encode_arg arg address count c h =
     (if arg_type arg = CHR ''w'' \<and> count = 4 then Some (put_mach (put_word address (arg_data arg) (mach h)) h)
      else if arg_type arg = CHR ''b'' \<and> count = 1 then
        Some (put_mach (put_byte address (data_byte (arg_data arg) 0) (mach h)) h)
      else if arg_type arg = CHR ''B'' \<and> sint count = arg_length arg then
        Some (put_mach (put_bytes address (map (data_byte (arg_data arg)) [0..<nat (arg_length arg)]) (mach h)) h)
      else if arg_type arg = CHR ''A'' \<and> sint count = arg_length arg then
        let h = put_mach (move_bytes (nat (arg_length arg)) address (arg_data arg) (mach h)) h
        in Some (if arg_data arg \<noteq> c_buffer c then h\<lparr>posix_of := free (arg_data arg) (posix_of h)\<rparr> else h)
      else None)"

text \<open>After the last argument; \<open>disp\<close> performs a request.\<close>

definition encoded :: "(request \<Rightarrow> handler) \<Rightarrow> handler" where
  "encoded disp e c h =
     (let h = upd_chan c (\<lambda>x. x\<lparr>c_status := C_S_IDLE\<rparr>) h
      in case sym_dispatch (c_symbol (chans h c)) of
           Some f \<Rightarrow> disp f e c h
         | None \<Rightarrow> Some (ECTX_CONTINUE, h))"

definition handle_in :: "(request \<Rightarrow> handler) \<Rightarrow> inspect cb_io" where
  "handle_in disp e c chan address count h =
     (case c_status (chans h c) of
        C_S_ENCODE_ENTRY \<Rightarrow>
          if count = 1 then
            let h = put_mach (put_byte address (word_of_int (sym_entry (c_symbol (chans h c)))) (mach h)) h
            in if 0 < c_argc (chans h c) then Some (ECTX_CONTINUE, upd_chan c (\<lambda>x. x\<lparr>c_status := C_S_ENCODE\<rparr>) h)
               else encoded disp e c h
          else channel_error e h
      | C_S_ENCODE \<Rightarrow>
          let h = upd_chan c (\<lambda>x. x\<lparr>c_argc := c_argc x - 1\<rparr>) h;
              n = c_argc (chans h c);
              arg = c_argv (chans h c) (nat n)
          in if n < 0 \<or> 8 \<le> n then None
             else (case encode_arg arg address count (chans h c) h of
                 None \<Rightarrow> channel_error e h
               | Some h \<Rightarrow> if n = 0 then encoded disp e c h else Some (ECTX_CONTINUE, h))
      | _ \<Rightarrow>
          let s = mach h;
              s = WORKSPACE_SET (WPTR e s) WS_POINTER address s;
              s = WORKSPACE_SET (WPTR e s) WS_ECTX e s;
              s = WORKSPACE_SET (WPTR e s) WS_PENDING count s;
              s = WORKSPACE_SET (WPTR e s) WS_IPTR (IPTR e s) s
          in Some (ECTX_DESCHEDULE, upd_chan c (\<lambda>x. x\<lparr>c_waiting := WPTR e s\<rparr>) (put_mach s h)))"

definition handle_mt_in :: "(request \<Rightarrow> handler) \<Rightarrow> inspect cb_mt" where
  "handle_mt_in disp e c chan address h =
     (if c_status (chans h c) = C_S_ENCODE then
        let h = upd_chan c (\<lambda>x. x\<lparr>c_argc := c_argc x - 1\<rparr>) h;
            n = c_argc (chans h c);
            arg = c_argv (chans h c) (nat n)
        in if n < 0 \<or> 8 \<le> n then None
           else if arg_type arg = CHR ''M'' then
             let h = put_mach (put_word address (arg_data arg) (mach h)) h
             in if n = 0 then encoded disp e c h else Some (ECTX_CONTINUE, h)
           else channel_error e h
      else channel_error e h)"

text \<open>
  The arguments of \<^verbatim>\<open>send_message\<close>, stored with the last one first; an array or a string of bytes
  takes a pointer and a length. \<open>None\<close> when there are too few, or more bytes than the union has.
\<close>

definition join_bytes :: "memory \<Rightarrow> WORD \<Rightarrow> nat \<Rightarrow> WORD \<Rightarrow> WORD" where
  "join_bytes m p n d =
     foldl (\<lambda>d j. (d AND NOT (push_bit (8 * j) 0xFF)) OR push_bit (8 * j) (ucast (m (p + word_of_nat j)))) d [0..<n]"

fun encode_args :: "memory \<Rightarrow> string \<Rightarrow> WORD list \<Rightarrow> (nat \<Rightarrow> p_arg) \<Rightarrow> (nat \<Rightarrow> p_arg) option" where
  "encode_args m [] args argv = Some argv"
| "encode_args m (t # fmt) args argv =
     (let i = length fmt
      in if t = CHR ''A'' then
           (case args of
              p # n # args \<Rightarrow>
                encode_args m fmt args (argv(i := (argv i)\<lparr>arg_type := t, arg_length := sint n, arg_data := p\<rparr>))
            | _ \<Rightarrow> None)
         else if t = CHR ''B'' then
           (case args of
              p # n # args \<Rightarrow>
                if 4 < sint n then None
                else encode_args m fmt args (argv(i := (argv i)\<lparr>arg_type := t, arg_length := sint n,
                       arg_data := join_bytes m p (nat (sint n)) (arg_data (argv i))\<rparr>))
            | _ \<Rightarrow> None)
         else
           (case args of
              w # args \<Rightarrow> encode_args m fmt args (argv(i := (argv i)\<lparr>arg_type := t, arg_length := 0, arg_data := w\<rparr>))
            | _ \<Rightarrow> None))"

definition send_message :: "(request \<Rightarrow> handler) \<Rightarrow> p_sym \<Rightarrow> WORD list \<Rightarrow> handler" where
  "send_message disp entry_p args e c h =
     (case sym_symbols entry_p of
        None \<Rightarrow> None
      | Some fmt \<Rightarrow> do {
          argv \<leftarrow> encode_args (mem (mach h)) fmt args (c_argv (chans h c));
          let h = upd_chan c (\<lambda>x. x\<lparr>c_status := C_S_ENCODE_ENTRY, c_symbol := entry_p, c_argc := int (length fmt),
                     c_argv := argv\<rparr>) h;
          (if c_waiting (chans h c) \<noteq> NOT_PROCESS_P then
             let wptr = c_waiting (chans h c);
                 address = WORKSPACE_GET (mach h) wptr WS_POINTER;
                 count = WORKSPACE_GET (mach h) wptr WS_PENDING;
                 h = upd_chan c (\<lambda>x. x\<lparr>c_waiting := NOT_PROCESS_P\<rparr>) h;
                 h = put_mach (snd (add_to_queue_external e e wptr (mach h))) h
             in handle_in disp e c NULL_P address count h
           else Some (ECTX_CONTINUE, h))
        })"

section \<open>Messages from the client\<close>

text \<open>The entry of a request; \<open>Some None\<close> when the table ends without it.\<close>

fun find_entry :: "p_sym list \<Rightarrow> int \<Rightarrow> p_sym option option" where
  "find_entry [] entry = None"
| "find_entry (p # ps) entry =
     (if sym_entry p = entry then Some (Some p)
      else if sym_symbols p = None then Some None
      else find_entry ps entry)"

text \<open>Character \<open>n\<close> of a format, with its zero at the end.\<close>

definition symbol_at :: "string \<Rightarrow> nat \<Rightarrow> char" where
  "symbol_at fmt n = (if n < length fmt then fmt ! n else CHR 0x00)"

text \<open>The type and the length that a character of a format stands for.\<close>

definition decode_type :: "char \<Rightarrow> char \<times> int" where
  "decode_type t =
     (if t = CHR ''4'' then (CHR ''B'', 4) else if t = CHR ''3'' then (CHR ''B'', 3)
      else if t = CHR ''2'' then (CHR ''B'', 2) else if t = CHR ''1'' then (CHR ''B'', 1)
      else if t = CHR ''0'' then (CHR ''B'', 0) else (t, 0))"

text \<open>One argument of a request; \<open>block\<close> is what \<^verbatim>\<open>malloc\<close> returns. \<open>Inl\<close> is a message of the wrong length.\<close>

definition decode_arg :: "WORD \<Rightarrow> p_arg \<Rightarrow> WORD \<Rightarrow> WORD \<Rightarrow> tvm \<Rightarrow> (unit + p_arg \<times> tvm) option" where
  "decode_arg block arg address count s =
     (if arg_type arg = CHR ''w'' \<and> count = 4 then Some (Inr (arg\<lparr>arg_data := get_word s address\<rparr>, s))
      else if arg_type arg = CHR ''b'' \<and> count = 1 then
        Some (Inr (arg\<lparr>arg_data := (arg_data arg AND NOT 0xFF) OR ucast (mem s address)\<rparr>, s))
      else if arg_type arg = CHR ''B'' \<and> sint count = arg_length arg then
        Some (Inr (arg\<lparr>arg_data := join_bytes (mem s) address (nat (arg_length arg)) (arg_data arg)\<rparr>, s))
      else if arg_type arg = CHR ''A'' then
        (if block = 0 \<and> 0 < sint count then None
         else Some (Inr (arg\<lparr>arg_length := sint count, arg_data := block\<rparr>,
                move_bytes (nat (sint count)) block address s)))
      else Some (Inl ()))"

text \<open>After argument \<open>n\<close>.\<close>

definition decoded :: "(request \<Rightarrow> handler) \<Rightarrow> p_sym \<Rightarrow> string \<Rightarrow> nat \<Rightarrow> handler" where
  "decoded disp entry_p fmt n e c h =
     (if symbol_at fmt (n + 1) = CHR 0x00 then
        let h = upd_chan c (\<lambda>x. x\<lparr>c_status := C_S_IDLE\<rparr>) h
        in (case sym_dispatch entry_p of Some f \<Rightarrow> disp f e c h | None \<Rightarrow> None)
      else Some (ECTX_CONTINUE, h))"

definition decode_format :: "c_state \<Rightarrow> (p_sym \<times> string) option" where
  "decode_format c = do { entry_p \<leftarrow> c_decode c; fmt \<leftarrow> sym_symbols entry_p; Some (entry_p, fmt) }"

definition handle_out :: "env \<Rightarrow> (request \<Rightarrow> handler) \<Rightarrow> inspect cb_io" where
  "handle_out V disp e c chan address count h =
     (if c_status (chans h c) = C_S_IDLE \<and> count = 1 then do {
        found \<leftarrow> find_entry (c_in (chans h c)) (uint (mem (mach h) address));
        (case found of
           None \<Rightarrow> channel_error e h
         | Some entry_p \<Rightarrow>
             let h = upd_chan c (\<lambda>x. x\<lparr>c_symbol := entry_p, c_argc := 0\<rparr>) h
             in (case sym_symbols entry_p of
                   None \<Rightarrow> None
                 | Some fmt \<Rightarrow>
                     if symbol_at fmt 0 = CHR 0x00 then
                       (case sym_dispatch entry_p of Some f \<Rightarrow> disp f e c h | None \<Rightarrow> None)
                     else Some (ECTX_CONTINUE, upd_chan c (\<lambda>x. x\<lparr>c_status := C_S_DECODE, c_decode := Some entry_p\<rparr>) h)))
      }
      else if c_status (chans h c) = C_S_DECODE then do {
        let n = nat (c_argc (chans h c));
        let h = upd_chan c (\<lambda>x. x\<lparr>c_argc := c_argc x + 1\<rparr>) h;
        (entry_p, fmt) \<leftarrow> decode_format (chans h c);
        (if 8 \<le> n \<or> length fmt < n then None
         else
           let (type, len) = decode_type (symbol_at fmt n);
               arg = (c_argv (chans h c) n)\<lparr>arg_type := type, arg_length := len\<rparr>;
               put = (\<lambda>arg. upd_chan c (\<lambda>x. x\<lparr>c_argv := (c_argv x)(n := arg)\<rparr>))
           in do {
             r \<leftarrow> decode_arg (e_malloc V 0 h) arg address count (mach h);
             (case r of
                Inl _ \<Rightarrow> channel_error e (put arg h)
              | Inr (arg, s) \<Rightarrow> decoded disp entry_p fmt n e c (put arg (put_mach s h)))
           })
      }
      else channel_error e h)"

definition handle_mt_out :: "(request \<Rightarrow> handler) \<Rightarrow> inspect cb_mt" where
  "handle_mt_out disp e c chan address h =
     (if c_status (chans h c) = C_S_DECODE then do {
        let n = nat (c_argc (chans h c));
        let h = upd_chan c (\<lambda>x. x\<lparr>c_argc := c_argc x + 1\<rparr>) h;
        (entry_p, fmt) \<leftarrow> decode_format (chans h c);
        (if 8 \<le> n \<or> length fmt < n then None
         else
           let arg = (c_argv (chans h c) n)\<lparr>arg_type := symbol_at fmt n, arg_length := 0\<rparr>;
               put = (\<lambda>arg. upd_chan c (\<lambda>x. x\<lparr>c_argv := (c_argv x)(n := arg)\<rparr>))
           in if arg_type arg = CHR ''M'' then
                decoded disp entry_p fmt n e c (put (arg\<lparr>arg_data := get_word (mach h) address\<rparr>) h)
              else channel_error e (put arg h))
      }
      else channel_error e h)"

section \<open>Making and freeing bundles\<close>

definition handle_free :: "WORD \<Rightarrow> inspect \<Rightarrow> inspect option" where
  "handle_free c h =
     (let x = chans h c
      in do {
        p \<leftarrow> (case c_type x of
           C_T_BYTECODE \<Rightarrow> Some (free_bytecode (c_data x) (posix_of h))
         | C_T_VM_CTL \<Rightarrow> free_ectx (c_data x) (posix_of h)
         | _ \<Rightarrow> Some (posix_of h));
        Some (h\<lparr>posix_of := free c (if c_buffer x \<noteq> 0 then free (c_buffer x) p else p)\<rparr>)
      })"

definition MT_CB_CONFIG :: WORD where
  "MT_CB_CONFIG = MT_SIMPLE OR MT_MAKE_TYPE MT_CB OR MT_CB_EXTERNAL OR push_bit 8 2"

text \<open>\<open>c\<close> is what \<^verbatim>\<open>malloc\<close> returns for the state.
  The result is the bundle; its type and data are set by the caller.\<close>

definition allocate_cb :: "env \<Rightarrow> WORD \<Rightarrow> p_sym list \<Rightarrow> WORD \<Rightarrow> inspect \<Rightarrow> (WORD \<times> inspect) option" where
  "allocate_cb V e ins c h =
     (let (cb, s) = tvm_mt_alloc (e_heap V) e MT_CB_CONFIG 2 (mach h);
          h = put_mach s h
      in if cb = NULL_P then Some (NULL_P, h\<lparr>posix_of := free c (posix_of h)\<rparr>)
         else if c = 0 then None
         else
           let h = upd_chan c (\<lambda>x. x\<lparr>c_status := C_S_IDLE, c_waiting := NOT_PROCESS_P, c_in := ins, c_decode := None,
                      c_argc := 0, c_buffer := 0\<rparr>) h;
               cb_base = wordptr_minus cb (MT_CB_PTR_OFFSET + 2);
               s = put_word (wordptr_plus cb_base 1) c (put_word cb_base (e_interface V) (mach h))
           in Some (cb, put_mach s h))"

text \<open>A mobile array of bytes with a copy of a string; null for a null string.\<close>

definition str_to_mt :: "env \<Rightarrow> WORD \<Rightarrow> WORD \<Rightarrow> inspect \<Rightarrow> (WORD \<times> inspect) option" where
  "str_to_mt V e str h =
     (if str = 0 then Some (NULL_P, h)
      else do {
        cs \<leftarrow> c_string (mem (mach h)) str;
        (let (mt, s) = tvm_mt_alloc (e_heap V) e (MT_MAKE_ARRAY_TYPE 1 0) (word_of_nat (length cs)) (mach h);
             s = move_bytes (length cs) (get_word s mt) str s;
             s = put_word (wordptr_plus mt 1) (word_of_nat (length cs)) s
         in Some (mt, put_mach s h))
      })"

end
