(* ===== verification/Tvm_Requests.thy ===== *)
theory Tvm_Requests
  imports Tvm_Introspect Tvm_Short
begin

text \<open>
  The requests of introspection, \<^verbatim>\<open>src/tvm/posix/introspect.c\<close>: the tables of the three protocols
  and the functions they are dispatched to. Each ends with a response to the client.
\<close>

section \<open>The protocols\<close>

text \<open>A request; a response, which is dispatched to nothing; and the end of a table.\<close>

definition rq_sym :: "int \<Rightarrow> string \<Rightarrow> request \<Rightarrow> p_sym" where
  "rq_sym entry symbols f = \<lparr>sym_entry = entry, sym_symbols = Some symbols, sym_dispatch = Some f\<rparr>"

definition re_sym :: "int \<Rightarrow> string \<Rightarrow> p_sym" where
  "re_sym entry symbols = \<lparr>sym_entry = entry, sym_symbols = Some symbols, sym_dispatch = None\<rparr>"

definition table_end :: p_sym where
  "table_end = \<lparr>sym_entry = 0, sym_symbols = None, sym_dispatch = None\<rparr>"

definition vm_ctl_rq :: "p_sym list" where
  "vm_ctl_rq =
     [rq_sym 0 ''w'' VM_CTL_RUN, rq_sym 1 '''' VM_CTL_STEP, rq_sym 2 ''ww'' VM_CTL_DISPATCH, rq_sym 3 ''w'' VM_CTL_SET_BP,
      rq_sym 4 ''w'' VM_CTL_CLEAR_BP, rq_sym 5 '''' VM_CTL_GET_CLOCK, rq_sym 6 ''ww'' VM_CTL_SET_CLOCK, rq_sym 7 ''wb'' VM_CTL_TRACE,
      rq_sym 8 '''' VM_CTL_GET_STATE, rq_sym 9 ''A'' VM_CTL_SET_STATE, rq_sym 10 ''w'' VM_CTL_READ_WORD,
      rq_sym 11 ''w'' VM_CTL_READ_BYTE, rq_sym 12 ''w'' VM_CTL_READ_INT16, rq_sym 13 ''w'' VM_CTL_READ_TYPE,
      rq_sym 14 ''w'' VM_CTL_RETURN_PARAM, rq_sym 15 ''wM'' VM_CTL_SET_PARAM_CHAN, table_end]"

definition vm_ctl_re :: "p_sym list" where
  "vm_ctl_re =
     [re_sym 0 ''www'', re_sym 1 ''ww'', re_sym 2 ''w'', re_sym 3 ''ww'', re_sym 4 '''', re_sym 5 ''w'', re_sym 6 ''A'', re_sym 7 ''w'', re_sym 8 ''b'',
      re_sym 9 ''2'', re_sym 10 ''w'', re_sym 11 ''M'', table_end]"

definition bytecode_rq :: "p_sym list" where
  "bytecode_rq =
     [rq_sym 0 '''' BYTECODE_CREATE_VM, rq_sym 1 ''M'' BYTECODE_GET_SYMBOL, rq_sym 2 ''w'' BYTECODE_GET_SYMBOL,
      rq_sym 3 ''w'' BYTECODE_GET_FILE, rq_sym 4 ''w'' BYTECODE_GET_LINE_INFO, rq_sym 5 '''' BYTECODE_GET_DETAILS,
      rq_sym 6 '''' BYTECODE_GET_TLP, table_end]"

definition bytecode_re :: "p_sym list" where
  "bytecode_re = [re_sym 0 ''M'', re_sym 1 ''w'', re_sym 2 ''M'', re_sym 3 ''ww'', re_sym 4 ''wMMww'', re_sym 5 ''www'', re_sym 6 ''MM'', table_end]"

definition vm_rq :: "p_sym list" where
  "vm_rq = [rq_sym 0 ''M'' VM_RQ_DECODE_BYTECODE, rq_sym 1 ''M'' VM_RQ_LOAD_BYTECODE, table_end]"

definition vm_re :: "p_sym list" where
  "vm_re = [re_sym 0 ''M'', re_sym 1 ''w'', table_end]"

text \<open>The places of the responses in their tables.\<close>

abbreviation (input) VM_CTL_RE_DECODED :: nat where "VM_CTL_RE_DECODED \<equiv> 0"
abbreviation (input) VM_CTL_RE_DISPATCHED :: nat where "VM_CTL_RE_DISPATCHED \<equiv> 1"
abbreviation (input) VM_CTL_RE_OK :: nat where "VM_CTL_RE_OK \<equiv> 4"
abbreviation (input) VM_CTL_RE_ERROR :: nat where "VM_CTL_RE_ERROR \<equiv> 5"
abbreviation (input) VM_CTL_RE_STATE :: nat where "VM_CTL_RE_STATE \<equiv> 6"
abbreviation (input) VM_CTL_RE_WORD :: nat where "VM_CTL_RE_WORD \<equiv> 7"
abbreviation (input) VM_CTL_RE_BYTE :: nat where "VM_CTL_RE_BYTE \<equiv> 8"
abbreviation (input) VM_CTL_RE_INT16 :: nat where "VM_CTL_RE_INT16 \<equiv> 9"
abbreviation (input) VM_CTL_RE_TYPE :: nat where "VM_CTL_RE_TYPE \<equiv> 10"
abbreviation (input) VM_CTL_RE_CHANNEL :: nat where "VM_CTL_RE_CHANNEL \<equiv> 11"
abbreviation (input) BYTECODE_RE_VM :: nat where "BYTECODE_RE_VM \<equiv> 0"
abbreviation (input) BYTECODE_RE_ERROR :: nat where "BYTECODE_RE_ERROR \<equiv> 1"
abbreviation (input) BYTECODE_RE_FILE :: nat where "BYTECODE_RE_FILE \<equiv> 2"
abbreviation (input) BYTECODE_RE_LINE_INFO :: nat where "BYTECODE_RE_LINE_INFO \<equiv> 3"
abbreviation (input) BYTECODE_RE_SYMBOL :: nat where "BYTECODE_RE_SYMBOL \<equiv> 4"
abbreviation (input) BYTECODE_RE_DETAILS :: nat where "BYTECODE_RE_DETAILS \<equiv> 5"
abbreviation (input) BYTECODE_RE_TLP :: nat where "BYTECODE_RE_TLP \<equiv> 6"
abbreviation (input) VM_RE_BYTECODE :: nat where "VM_RE_BYTECODE \<equiv> 0"
abbreviation (input) VM_RE_ERROR :: nat where "VM_RE_ERROR \<equiv> 1"

abbreviation (input) STYPE_UNDEF :: WORD where "STYPE_UNDEF \<equiv> 0"

text \<open>A handler on top of \<open>disp\<close>, which \<^verbatim>\<open>send_message\<close> needs when the client waits for the response already.\<close>

type_synonym service = "(request \<Rightarrow> handler) \<Rightarrow> handler"

text \<open>Argument \<open>n\<close> of a request.\<close>

abbreviation arg_of :: "inspect \<Rightarrow> WORD \<Rightarrow> nat \<Rightarrow> WORD" where
  "arg_of h c n \<equiv> arg_data (c_argv (chans h c) n)"

section \<open>Controlling a context\<close>

definition ctl_error :: "WORD \<Rightarrow> service" where
  "ctl_error w disp e c h = send_message disp (vm_ctl_re ! VM_CTL_RE_ERROR) [w] e c h"

abbreviation state_word :: "inspect \<Rightarrow> WORD \<Rightarrow> WORD" where
  "state_word h vm \<equiv> word_of_int (state (ectxs (mach h) vm))"

definition vm_ctl_run :: "env \<Rightarrow> service" where
  "vm_ctl_run V disp e c h =
     (let vm = c_data (chans h c)
      in do {
        (ret, s) \<leftarrow> tvm_run_count (e_primaries V) (e_hook V) vm (arg_of h c 0) (mach h);
        let h = put_mach s h;
        (if ret = ECTX_TIME_SLICE then send_message disp (vm_ctl_re ! VM_CTL_RE_OK) [] e c h
         else ctl_error (state_word h vm) disp e c h)
      })"

definition vm_ctl_step :: service where
  "vm_ctl_step disp e c h =
     (let vm = c_data (chans h c);
          (instr, s) = tvm_decode_instruction vm (set_state vm ECTX_RUNNING (mach h))
      in send_message disp (vm_ctl_re ! VM_CTL_RE_DECODED) [IPTR vm s, ucast (drop_bit 4 instr), OREG vm s] e c
           (put_mach s h))"

definition vm_ctl_dispatch :: "env \<Rightarrow> service" where
  "vm_ctl_dispatch V disp e c h =
     (let vm = c_data (chans h c);
          s = mach h;
          (s, instr) =
            (if c_argc (chans h c) = 2 then
               (set_OREG vm (arg_of h c 1) (set_state vm ECTX_RUNNING s), push_bit 4 (ucast (arg_of h c 0) :: BYTE))
             else (s, push_bit 4 (ucast (arg_of h c 1) :: BYTE)))
      in do {
        (ret, s) \<leftarrow> tvm_dispatch_instruction (e_primaries V) vm instr s;
        let s = set_state vm ret s;
        let h = put_mach s h;
        (if ret \<in> {ECTX_INS_INVALID, ECTX_INS_UNSUPPORTED, ECTX_ERROR, ECTX_EMPTY, ECTX_SHUTDOWN} then
           ctl_error (state_word h vm) disp e c h
         else send_message disp (vm_ctl_re ! VM_CTL_RE_DISPATCHED) [IPTR vm s, WPTR vm s] e c h)
      })"

definition vm_ctl_set_bp :: service where "vm_ctl_set_bp = ctl_error 0"
definition vm_ctl_clear_bp :: service where "vm_ctl_clear_bp = ctl_error 0"
definition vm_ctl_get_clock :: service where "vm_ctl_get_clock = ctl_error 0"
definition vm_ctl_set_clock :: service where "vm_ctl_set_clock = ctl_error 0"
definition vm_ctl_trace :: service where "vm_ctl_trace = ctl_error 0"

text \<open>A \<^verbatim>\<open>vm_state_t\<close> is ten words: the state, the stack, four bytes of types, and five more
  registers, of which the count of instructions is not used.\<close>

definition encode_state :: "WORD \<Rightarrow> WORD \<Rightarrow> tvm \<Rightarrow> tvm" where
  "encode_state vm p s =
     (let r = ectxs s vm;
          s = put_word p (word_of_int (state r)) s;
          s = put_word (p + 4) (areg r) s;
          s = put_word (p + 8) (breg r) s;
          s = put_word (p + 12) (creg r) s;
          s = put_word (p + 20) (oreg r) s;
          s = put_word (p + 24) (wptr r) s;
          s = put_word (p + 28) (iptr r) s
      in put_word (p + 36) (eflags r) s)"

definition decode_state :: "WORD \<Rightarrow> WORD \<Rightarrow> tvm \<Rightarrow> tvm" where
  "decode_state vm p s =
     upd_ectx vm (\<lambda>r. r\<lparr>state := sint (get_word s p), areg := get_word s (p + 4), breg := get_word s (p + 8),
       creg := get_word s (p + 12), oreg := get_word s (p + 20), wptr := get_word s (p + 24),
       iptr := get_word s (p + 28), eflags := get_word s (p + 36)\<rparr>) s"

definition vm_ctl_get_state :: service where
  "vm_ctl_get_state disp e c h =
     (let vm = c_data (chans h c); p = c_buffer (chans h c)
      in if p = 0 then None else send_message disp (vm_ctl_re ! VM_CTL_RE_STATE) [p, 40] e c (put_mach (encode_state vm p (mach h)) h))"

definition vm_ctl_set_state :: service where
  "vm_ctl_set_state disp e c h =
     (let vm = c_data (chans h c); p = arg_of h c 0
      in send_message disp (vm_ctl_re ! VM_CTL_RE_OK) [] e c (put_mach (decode_state vm p (mach h)) h))"

definition vm_ctl_read_word :: service where
  "vm_ctl_read_word disp e c h =
     send_message disp (vm_ctl_re ! VM_CTL_RE_WORD) [get_word (mach h) (arg_of h c 0)] e c h"

definition vm_ctl_read_byte :: service where
  "vm_ctl_read_byte disp e c h =
     send_message disp (vm_ctl_re ! VM_CTL_RE_BYTE) [ucast (mem (mach h) (arg_of h c 0))] e c h"

text \<open>\<open>frame\<close> is the address of the local variable \<^verbatim>\<open>s\<close>, which is passed by reference.\<close>

definition vm_ctl_read_int16 :: "WORD \<Rightarrow> service" where
  "vm_ctl_read_int16 frame disp e c h =
     (let v = read_int16 (mem (mach h)) (arg_of h c 0);
          h = put_mach ((mach h)\<lparr>mem := write_int16 (mem (mach h)) frame v\<rparr>) h
      in send_message disp (vm_ctl_re ! VM_CTL_RE_INT16) [frame, 2] e c h)"

text \<open>Without type shadows every type is \<^verbatim>\<open>STYPE_UNDEF\<close>.\<close>

definition vm_ctl_read_type :: service where
  "vm_ctl_read_type disp e c h = send_message disp (vm_ctl_re ! VM_CTL_RE_TYPE) [STYPE_UNDEF] e c h"

definition channel_param :: "WORD \<Rightarrow> WORD \<Rightarrow> tvm \<Rightarrow> bool" where
  "channel_param vm param s \<longleftrightarrow>
     0 \<le> sint param \<and> sint param < tlp_argc (ectxs s vm) \<and>
     tlp_fmt (ectxs s vm) ! nat (sint param) \<in> {CHR ''?'', CHR ''!'', CHR ''C'', CHR ''S''}"

definition vm_ctl_return_param :: service where
  "vm_ctl_return_param disp e c h =
     (let vm = c_data (chans h c); param = arg_of h c 0; s = mach h
      in if \<not> channel_param vm param s then ctl_error 0 disp e c h
         else
           let mt = tlp_argv (ectxs s vm) ! nat (sint param)
           in if mt = NULL_P then ctl_error 0 disp e c h
              else send_message disp (vm_ctl_re ! VM_CTL_RE_CHANNEL) [mt] e c
                (put_mach (upd_ectx vm (\<lambda>r. r\<lparr>tlp_argv := (tlp_argv r)[nat (sint param) := NULL_P]\<rparr>) s) h))"

definition vm_ctl_set_param_chan :: service where
  "vm_ctl_set_param_chan disp e c h =
     (let mt = arg_of h c 1; param = arg_of h c 0; vm = c_data (chans h c); s = mach h;
          old_mt = tlp_argv (ectxs s vm) ! nat (sint param)
      in if state (ectxs s vm) \<noteq> ECTX_INIT \<or> \<not> channel_param vm param s then ctl_error 0 disp e c h
         else
           let s = put_word (wordptr_plus (WPTR vm s) (param + 1)) mt s;
               s = upd_ectx vm (\<lambda>r. r\<lparr>tlp_argv := (tlp_argv r)[nat (sint param) := mt]\<rparr>) s;
               h = put_mach s h
           in if old_mt = NULL_P then send_message disp (vm_ctl_re ! VM_CTL_RE_OK) [0] e c h
              else send_message disp (vm_ctl_re ! VM_CTL_RE_CHANNEL) [old_mt] e c h)"

section \<open>Bytecode\<close>

definition bytecode_error :: service where
  "bytecode_error disp e c h = send_message disp (bytecode_re ! BYTECODE_RE_ERROR) [0] e c h"

text \<open>The fields of a bundle that its maker sets; \<open>None\<close> when there is no bundle and so no state.\<close>

definition set_bundle :: "WORD \<Rightarrow> channel_type \<Rightarrow> WORD \<Rightarrow> WORD \<times> inspect \<Rightarrow> (WORD \<times> inspect) option" where
  "set_bundle c type data r =
     (let (cb, h) = r
      in if cb = NULL_P then None else Some (cb, upd_chan c (\<lambda>x. x\<lparr>c_type := type, c_data := data\<rparr>) h))"

abbreviation tbc_of :: "inspect \<Rightarrow> WORD \<Rightarrow> WORD" where
  "tbc_of h c \<equiv> bc_tbc (bytecodes (posix_of h) (c_data (chans h c)))"

definition bytecode_create_vm :: "env \<Rightarrow> service" where
  "bytecode_create_vm V disp e c h =
     (let bc = c_data (chans h c);
          tlp = get_word (mach h) (tbc_tlp (tbc_of h c));
          argv = replicate 8 NULL_P;
          allocate = (\<lambda>fmt h. case allocate_ectx (e_heap V) (e_malloc V 0 h) (e_malloc V 1 h) bc fmt argv (posix_of h) of
              (vm, p) \<Rightarrow> (vm, h\<lparr>posix_of := p\<rparr>))
      in do {
        (vm, h) \<leftarrow> (if tlp \<noteq> 0 then
             if get_word (mach h) tlp \<noteq> 0 then
               do { fmt \<leftarrow> c_string (mem (mach h)) (get_word (mach h) tlp); Some (allocate fmt h) }
             else Some (0, h)
           else Some (allocate ''?!!'' h));
        (if vm = 0 then bytecode_error disp e c h
         else do {
           let cb_c = e_malloc V 2 h;
           r \<leftarrow> allocate_cb V e vm_ctl_rq cb_c h;
           (cb, h) \<leftarrow> set_bundle cb_c C_T_VM_CTL vm r;
           send_message disp (bytecode_re ! BYTECODE_RE_VM) [cb] e c
             (upd_chan cb_c (\<lambda>x. x\<lparr>c_buffer := e_malloc V 3 h\<rparr>) h)
         })
      })"

text \<open>A symbol's offset, workspace, vectorspace, name, definition, and the next one. The list of
  symbols is searched for a name of \<open>len\<close> bytes, or for the last symbol up to an offset.\<close>

definition name_matches :: "memory \<Rightarrow> WORD \<Rightarrow> WORD \<Rightarrow> WORD \<Rightarrow> bool" where
  "name_matches m name str len \<longleftrightarrow>
     list_all (\<lambda>i. m (name + word_of_nat i) = m (str + word_of_nat i)) [0..<unat len] \<and> m (name + len) = 0"

partial_function (option) symbol_by_name :: "memory \<Rightarrow> WORD \<Rightarrow> WORD \<Rightarrow> WORD \<Rightarrow> WORD option" where
  "symbol_by_name m str len p =
     (if p = 0 then Some 0
      else if name_matches m (read_word m (p + 12)) str len then Some p
      else symbol_by_name m str len (read_word m (p + 20)))"

partial_function (option) symbol_by_offset :: "memory \<Rightarrow> WORD \<Rightarrow> WORD \<Rightarrow> WORD \<Rightarrow> WORD option" where
  "symbol_by_offset m ip prev p =
     (if p = 0 then Some prev
      else if read_word m p > ip then Some prev
      else symbol_by_offset m ip p (read_word m (p + 20)))"

text \<open>An address in the bytecode as an offset.\<close>

definition code_offset :: "memory \<Rightarrow> WORD \<Rightarrow> WORD \<Rightarrow> WORD" where
  "code_offset m tbc ip = (let code = read_word m (tbc_bytecode tbc) in if ip \<ge> code then ip - code else ip)"

text \<open>The two strings are made in the order in which they are written, which C leaves open.\<close>

definition bytecode_get_symbol :: "env \<Rightarrow> service" where
  "bytecode_get_symbol V disp e c h =
     (let m = mem (mach h); tbc = tbc_of h c; first = read_word m (tbc_symbols tbc)
      in do {
        (p, h) \<leftarrow> (if arg_type (c_argv (chans h c) 0) = CHR ''M'' then
             let mt = arg_of h c 0
             in do {
               p \<leftarrow> symbol_by_name m (read_word m mt) (read_word m (wordptr_plus mt 1)) first;
               s \<leftarrow> tvm_mt_release (e_heap V) e mt (mach h);
               Some (p, put_mach s h)
             }
           else
             let ip = code_offset m tbc (arg_of h c 0)
             in if ip < read_word m (tbc_bytecode_len tbc) then
                  do { p \<leftarrow> symbol_by_offset m ip 0 first; Some (p, h) }
                else Some (first, h));
        (if p \<noteq> 0 then do {
           let field = (\<lambda>i. get_word (mach h) (p + i));
           (name, h) \<leftarrow> str_to_mt V e (field 12) h;
           (def, h) \<leftarrow> str_to_mt V e (field 16) h;
           send_message disp (bytecode_re ! BYTECODE_RE_SYMBOL) [field 0, name, def, field 4, field 8] e c h
         }
         else bytecode_error disp e c h)
      })"

text \<open>File number \<open>n\<close> on the list, or null.\<close>

partial_function (option) file_number :: "memory \<Rightarrow> WORD \<Rightarrow> WORD \<Rightarrow> WORD option" where
  "file_number m n p =
     (if p = 0 then Some 0 else if n = 0 then Some p else file_number m (n - 1) (read_word m p))"

definition bytecode_get_file :: "env \<Rightarrow> service" where
  "bytecode_get_file V disp e c h =
     (let m = mem (mach h); dbg = read_word m (tbc_debug (tbc_of h c))
      in if dbg \<noteq> 0 then do {
           p \<leftarrow> file_number m (arg_of h c 0) (read_word m dbg);
           (if p \<noteq> 0 then do {
              (mt, h) \<leftarrow> str_to_mt V e (read_word m (p + 4)) h;
              send_message disp (bytecode_re ! BYTECODE_RE_FILE) [mt] e c h
            }
            else bytecode_error disp e c h)
         }
         else bytecode_error disp e c h)"

text \<open>The search of the table of \<open>n\<close> lines, entries of three words, for the one that holds an
  offset; the index where it ends. The sums do not leave the range of an \<^verbatim>\<open>int\<close>.\<close>

partial_function (option) search_lines :: "memory \<Rightarrow> WORD \<Rightarrow> int \<Rightarrow> WORD \<Rightarrow> int \<Rightarrow> int \<Rightarrow> int option" where
  "search_lines m lnd n ip shift i =
     (if 0 \<le> i \<and> i < n then
        if read_word m (lnd + 12 * word_of_int i) \<le> ip then
          if i + 1 < n \<and> read_word m (lnd + 12 * word_of_int (i + 1)) > ip then Some i
          else search_lines m lnd n ip (if 1 < shift then shift div 2 else shift)
                 (i + (if 1 < shift then shift div 2 else shift))
        else search_lines m lnd n ip (if 1 < shift then shift div 2 else shift)
               (i - (if 1 < shift then shift div 2 else shift))
      else Some i)"

definition bytecode_get_line_info :: service where
  "bytecode_get_line_info disp e c h =
     (let m = mem (mach h); tbc = tbc_of h c; dbg = read_word m (tbc_debug tbc);
          ip = code_offset m tbc (arg_of h c 0)
      in if dbg \<noteq> 0 \<and> ip < read_word m (tbc_bytecode_len tbc) then
           let n = sint (read_word m (dbg + 4)); lnd = read_word m (dbg + 8)
           in do {
             i \<leftarrow> search_lines m lnd n ip (n div 2) (n div 2);
             (if 0 \<le> i \<and> i < n then
                let p = lnd + 12 * word_of_int i
                in send_message disp (bytecode_re ! BYTECODE_RE_LINE_INFO) [read_word m (p + 4), read_word m (p + 8)] e c h
              else bytecode_error disp e c h)
           }
         else bytecode_error disp e c h)"

definition bytecode_get_details :: service where
  "bytecode_get_details disp e c h =
     (let field = (\<lambda>p. get_word (mach h) p); tbc = tbc_of h c
      in send_message disp (bytecode_re ! BYTECODE_RE_DETAILS)
           [field (tbc_ws tbc), field (tbc_vs tbc), field (tbc_bytecode_len tbc)] e c h)"

definition bytecode_get_tlp :: "env \<Rightarrow> service" where
  "bytecode_get_tlp V disp e c h =
     (let tlp = get_word (mach h) (tbc_tlp (tbc_of h c))
      in if tlp \<noteq> 0 then do {
           let fmt = get_word (mach h) tlp;
           let symbol = get_word (mach h) (tlp + 4);
           (fmt, h) \<leftarrow> str_to_mt V e fmt h;
           (symbol, h) \<leftarrow> str_to_mt V e symbol h;
           send_message disp (bytecode_re ! BYTECODE_RE_TLP) [fmt, symbol] e c h
         }
         else bytecode_error disp e c h)"

section \<open>Loading bytecode\<close>

definition vm_error :: service where
  "vm_error disp e c h = send_message disp (vm_re ! VM_RE_ERROR) [0] e c h"

text \<open>The bundle for a bytecode, \<open>k\<close> being the number of the \<^verbatim>\<open>malloc\<close> of its state.\<close>

definition send_bytecode :: "env \<Rightarrow> nat \<Rightarrow> WORD \<Rightarrow> service" where
  "send_bytecode V k bc disp e c h =
     (let cb_c = e_malloc V k h
      in do {
        r \<leftarrow> allocate_cb V e bytecode_rq cb_c h;
        (cb, h) \<leftarrow> set_bundle cb_c C_T_BYTECODE bc r;
        send_message disp (vm_re ! VM_RE_BYTECODE) [cb] e c h
      })"

definition vm_rq_decode_bytecode :: "env \<Rightarrow> service" where
  "vm_rq_decode_bytecode V disp e c h =
     (let mt = arg_of h c 0;
          bc = e_malloc V 0 h;
          len = get_word (mach h) (wordptr_plus mt 1);
          data = e_malloc V 1 h;
          h = h\<lparr>posix_of := upd_bytecode bc
                (\<lambda>b. b\<lparr>refcount := 1, bc_source := 0, bc_length := len, bc_data := data\<rparr>) (posix_of h)\<rparr>;
          h = put_mach (move_bytes (unat len) data (get_word (mach h) mt) (mach h)) h
      in if bc = 0 \<or> data = 0 \<and> len \<noteq> 0 then None else do {
        s \<leftarrow> tvm_mt_release (e_heap V) e mt (mach h);
        (tbc, m) \<leftarrow> decode_tbc data len (mem s);
        let h = put_mach (s\<lparr>mem := m\<rparr>) h;
        let h = h\<lparr>posix_of := upd_bytecode bc (\<lambda>b. b\<lparr>bc_tbc := tbc\<rparr>) (posix_of h)\<rparr>;
        (if tbc = 0 then vm_error disp e c (h\<lparr>posix_of := free_bytecode bc (posix_of h)\<rparr>)
         else send_bytecode V 2 bc disp e c h)
      })"

definition vm_rq_load_bytecode :: "env \<Rightarrow> service" where
  "vm_rq_load_bytecode V disp e c h =
     (let mt = arg_of h c 0;
          len = get_word (mach h) (wordptr_plus mt 1);
          name = e_malloc V 0 h;
          s = move_bytes (unat len) name (get_word (mach h) mt) (mach h);
          s = put_byte (name + len) 0 s
      in if name = 0 then None else do {
        s \<leftarrow> tvm_mt_release (e_heap V) e mt s;
        file_name \<leftarrow> c_string (mem s) name;
        let h = put_mach s h;
        (bc, p) \<leftarrow> load_bytecode (e_linker V) (e_undef V) (e_file V file_name) (e_malloc V 1 h) (e_malloc V 2 h)
          (e_malloc V 3 h) (posix_of h);
        let h = h\<lparr>posix_of := free name p\<rparr>;
        (if bc = 0 then vm_error disp e c h else send_bytecode V 4 bc disp e c h)
      })"

section \<open>Dispatch\<close>

text \<open>
  A handler reaches another one through \<^verbatim>\<open>send_message\<close> and \<^verbatim>\<open>handle_in\<close> when the entry of its response names
  one; \<open>n\<close> bounds how deep. No response does, so that one level is enough.
\<close>

fun dispatch :: "nat \<Rightarrow> env \<Rightarrow> WORD \<Rightarrow> request \<Rightarrow> handler" where
  "dispatch 0 V frame f e c h = None"
| "dispatch (Suc n) V frame f e c h =
     (let disp = dispatch n V frame
      in case f of
           VM_CTL_RUN \<Rightarrow> vm_ctl_run V disp e c h
         | VM_CTL_STEP \<Rightarrow> vm_ctl_step disp e c h
         | VM_CTL_DISPATCH \<Rightarrow> vm_ctl_dispatch V disp e c h
         | VM_CTL_SET_BP \<Rightarrow> vm_ctl_set_bp disp e c h
         | VM_CTL_CLEAR_BP \<Rightarrow> vm_ctl_clear_bp disp e c h
         | VM_CTL_GET_CLOCK \<Rightarrow> vm_ctl_get_clock disp e c h
         | VM_CTL_SET_CLOCK \<Rightarrow> vm_ctl_set_clock disp e c h
         | VM_CTL_TRACE \<Rightarrow> vm_ctl_trace disp e c h
         | VM_CTL_GET_STATE \<Rightarrow> vm_ctl_get_state disp e c h
         | VM_CTL_SET_STATE \<Rightarrow> vm_ctl_set_state disp e c h
         | VM_CTL_READ_WORD \<Rightarrow> vm_ctl_read_word disp e c h
         | VM_CTL_READ_BYTE \<Rightarrow> vm_ctl_read_byte disp e c h
         | VM_CTL_READ_INT16 \<Rightarrow> vm_ctl_read_int16 frame disp e c h
         | VM_CTL_READ_TYPE \<Rightarrow> vm_ctl_read_type disp e c h
         | VM_CTL_RETURN_PARAM \<Rightarrow> vm_ctl_return_param disp e c h
         | VM_CTL_SET_PARAM_CHAN \<Rightarrow> vm_ctl_set_param_chan disp e c h
         | BYTECODE_CREATE_VM \<Rightarrow> bytecode_create_vm V disp e c h
         | BYTECODE_GET_SYMBOL \<Rightarrow> bytecode_get_symbol V disp e c h
         | BYTECODE_GET_FILE \<Rightarrow> bytecode_get_file V disp e c h
         | BYTECODE_GET_LINE_INFO \<Rightarrow> bytecode_get_line_info disp e c h
         | BYTECODE_GET_DETAILS \<Rightarrow> bytecode_get_details disp e c h
         | BYTECODE_GET_TLP \<Rightarrow> bytecode_get_tlp V disp e c h
         | VM_RQ_DECODE_BYTECODE \<Rightarrow> vm_rq_decode_bytecode V disp e c h
         | VM_RQ_LOAD_BYTECODE \<Rightarrow> vm_rq_load_bytecode V disp e c h)"

text \<open>The table \<^verbatim>\<open>cb_interface\<close>, and the virtual channel through which a client gets its first bundle;
  \<open>vc0_mt_in\<close> is a function of the host's table of external channels.\<close>

definition cb_interface :: "env \<Rightarrow> WORD \<Rightarrow> inspect ext_interface" where
  "cb_interface V frame =
     (let disp = dispatch 1 V frame
      in \<lparr>cb_in = Some (handle_in disp), cb_out = Some (handle_out V disp), cb_swap = None,
          cb_mt_in = Some (handle_mt_in disp), cb_mt_out = Some (handle_mt_out disp), cb_xable = None,
          cb_xin = None, cb_mt_xin = None\<rparr>)"

definition vc0_mt_in :: "env \<Rightarrow> WORD \<Rightarrow> WORD \<Rightarrow> inspect \<Rightarrow> inspect outcome" where
  "vc0_mt_in V e address h =
     (let c = e_malloc V 0 h
      in do {
        (cb, h) \<leftarrow> allocate_cb V e vm_rq c h;
        (if cb = NULL_P then
           (case set_error_flag e EFLAG_MT (mach h) of (ret, s) \<Rightarrow> Some (ret, put_mach s h))
         else do {
           let h = upd_chan c (\<lambda>x. x\<lparr>c_type := C_T_VM, c_data := e\<rparr>) h;
           s \<leftarrow> tvm_mt_release (e_heap V) e cb (mach h);
           Some (ECTX_CONTINUE, put_mach (put_word address cb s) h)
         })
      })"

end
