(* ===== verification/Tvm_Requests_Laws.thy ===== *)
theory Tvm_Requests_Laws
  imports Tvm_Requests
begin

text \<open>
  What introspection (\<^verbatim>\<open>src/tvm/posix/introspect.c\<close>) promises its clients: a request reaches its
  function with the arguments that were output; a request to control a context is answered with the number and the values its
  protocol promises; a request to a bytecode or to the loader, if it comes back, with one of the responses to it; and the client
  reads a response back.
\<close>

section \<open>A response is read back\<close>

text \<open>Formats of words, bytes and mobiles. What the input of the arguments of a response stores.\<close>

definition plain :: "char \<Rightarrow> bool" where
  "plain t \<longleftrightarrow> t \<in> {CHR ''w'', CHR ''b'', CHR ''M''}"

fun store_args :: "string \<Rightarrow> WORD list \<Rightarrow> WORD list \<Rightarrow> tvm \<Rightarrow> tvm" where
  "store_args (t # fmt) (a # addrs) (w # args) s =
     store_args fmt addrs args (if t = CHR ''b'' then put_byte a (ucast w) s else put_word a w s)"
| "store_args _ _ _ s = s"

text \<open>A client inputs or outputs one argument after the other, as long as it is not stopped.\<close>

definition input_arg :: "(request \<Rightarrow> handler) \<Rightarrow> char \<Rightarrow> WORD \<Rightarrow> handler" where
  "input_arg disp t a e c h =
     (if t = CHR ''w'' then handle_in disp e c 0 a 4 h
      else if t = CHR ''b'' then handle_in disp e c 0 a 1 h
      else handle_mt_in disp e c 0 a h)"

fun input_args :: "(request \<Rightarrow> handler) \<Rightarrow> string \<Rightarrow> WORD list \<Rightarrow> handler" where
  "input_args disp (t # fmt) (a # addrs) e c h = do {
     (ret, h) \<leftarrow> input_arg disp t a e c h;
     (if ret = ECTX_CONTINUE then input_args disp fmt addrs e c h else Some (ret, h))
   }"
| "input_args disp _ _ e c h = Some (ECTX_CONTINUE, h)"

definition input_message :: "(request \<Rightarrow> handler) \<Rightarrow> WORD \<Rightarrow> string \<Rightarrow> WORD list \<Rightarrow> handler" where
  "input_message disp a fmt addrs e c h = do {
     (ret, h) \<leftarrow> handle_in disp e c 0 a 1 h;
     (if ret = ECTX_CONTINUE then input_args disp fmt addrs e c h else Some (ret, h))
   }"

fun holds_args :: "(nat \<Rightarrow> p_arg) \<Rightarrow> string \<Rightarrow> WORD list \<Rightarrow> bool" where
  "holds_args argv (t # fmt) (w # args) \<longleftrightarrow>
     arg_type (argv (length fmt)) = t \<and> arg_data (argv (length fmt)) = w \<and> holds_args argv fmt args"
| "holds_args argv fmt args \<longleftrightarrow> fmt = [] \<and> args = []"

lemma holds_args_cong:
  "\<lbrakk>\<And>i. i < length fmt \<Longrightarrow> argv i = argv' i\<rbrakk> \<Longrightarrow> holds_args argv fmt args = holds_args argv' fmt args"
  by (induction argv fmt args rule: holds_args.induct) auto

lemma plain_not_sized: "plain t \<Longrightarrow> t \<noteq> CHR ''A'' \<and> t \<noteq> CHR ''B''"
  by (auto simp: plain_def)

lemma encode_args_plain:
  assumes "list_all plain fmt" "length args = length fmt"
  shows "\<exists>argv'. encode_args m fmt args argv = Some argv' \<and> holds_args argv' fmt args \<and> (\<forall>i\<ge>length fmt. argv' i = argv i)"
  using assms
proof (induction fmt arbitrary: args argv)
  case (Cons t fmt)
  then obtain w ws where args: "args = w # ws" by (cases args) auto
  let ?argv = "argv(length fmt := (argv (length fmt))\<lparr>arg_type := t, arg_length := 0, arg_data := w\<rparr>)"
  have "\<exists>argv'. encode_args m fmt ws ?argv = Some argv' \<and> holds_args argv' fmt ws \<and> (\<forall>i\<ge>length fmt. argv' i = ?argv i)"
    by (rule Cons.IH) (use Cons.prems args in auto)
  then obtain argv' where "encode_args m fmt ws ?argv = Some argv'" "holds_args argv' fmt ws"
    "\<forall>i\<ge>length fmt. argv' i = ?argv i"
    by blast
  then show ?case using Cons.prems plain_not_sized [of t] args by (auto simp: Let_def)
qed simp

lemma data_byte_0 [simp]: "data_byte w 0 = ucast w"
  by (simp add: data_byte_def)

lemma upd_chan_upd_chan [simp]: "upd_chan c f (upd_chan c g h) = upd_chan c (\<lambda>x. f (g x)) h"
  by (simp add: upd_chan_def)

lemma same_status [simp]: "c_status x = v \<Longrightarrow> x\<lparr>c_status := v\<rparr> = x"
  by (cases x) simp

text \<open>One argument, the last of the format or not.\<close>

lemma input_arg_encoding:
  assumes "c_status (chans h c) = C_S_ENCODE" "c_argc (chans h c) = int (Suc n)" "n < 8"
    and "plain (arg_type (c_argv (chans h c) n))" "sym_dispatch (c_symbol (chans h c)) = None"
  shows "input_arg disp (arg_type (c_argv (chans h c) n)) a e c h =
    Some (ECTX_CONTINUE, upd_chan c (\<lambda>x. x\<lparr>c_argc := int n, c_status := if n = 0 then C_S_IDLE else C_S_ENCODE\<rparr>)
      (put_mach (if arg_type (c_argv (chans h c) n) = CHR ''b'' then put_byte a (ucast (arg_of h c n)) (mach h)
        else put_word a (arg_of h c n) (mach h)) h))"
  using assms
  by (auto simp: plain_def input_arg_def handle_in_def handle_mt_in_def encode_arg_def encoded_def Let_def
      put_mach_def upd_chan_def)


lemma holds_args_upd [simp]: "length fmt \<le> n \<Longrightarrow> holds_args (argv(n := x)) fmt args = holds_args argv fmt args"
  by (rule holds_args_cong) simp

lemma input_args_encoded:
  assumes "list_all plain fmt" "holds_args (c_argv (chans h c)) fmt args" "length addrs = length fmt" "length fmt \<le> 8"
    and "c_status (chans h c) = C_S_ENCODE" "c_argc (chans h c) = int (length fmt)"
    and "sym_dispatch (c_symbol (chans h c)) = None"
  shows "input_args disp fmt addrs e c h = Some (ECTX_CONTINUE,
    if fmt = [] then h
    else upd_chan c (\<lambda>x. x\<lparr>c_argc := 0, c_status := C_S_IDLE\<rparr>) (put_mach (store_args fmt addrs args (mach h)) h))"
  using assms
proof (induction fmt arbitrary: addrs args h)
  case (Cons t fmt)
  obtain a as w ws where eqs: "addrs = a # as" "args = w # ws"
    using Cons.prems by (cases addrs; cases args) auto
  have arg: "arg_type (c_argv (chans h c) (length fmt)) = t" "arg_of h c (length fmt) = w"
    using Cons.prems eqs by auto
  define h1 where "h1 = upd_chan c (\<lambda>x. x\<lparr>c_argc := int (length fmt), c_status := if fmt = [] then C_S_IDLE else C_S_ENCODE\<rparr>)
      (put_mach (if t = CHR ''b'' then put_byte a (ucast w) (mach h) else put_word a w (mach h)) h)"
  have "input_arg disp t a e c h = Some (ECTX_CONTINUE, h1)"
    using input_arg_encoding [where h = h and c = c and n = "length fmt" and disp = disp and a = a and e = e]
      Cons.prems arg by (simp add: h1_def)
  moreover have "input_args disp fmt as e c h1 = Some (ECTX_CONTINUE,
    if fmt = [] then h1
    else upd_chan c (\<lambda>x. x\<lparr>c_argc := 0, c_status := C_S_IDLE\<rparr>) (put_mach (store_args fmt as ws (mach h1)) h1))"
    if "fmt \<noteq> []"
    by (rule Cons.IH) (use Cons.prems eqs that in \<open>auto simp: h1_def\<close>)
  ultimately show ?case
    by (cases "fmt = []") (auto simp: eqs h1_def put_mach_def upd_chan_def)
qed simp

lemma message_read_back:
  assumes "sym_symbols p = Some fmt" "sym_dispatch p = None" "list_all plain fmt" "length fmt \<le> 8"
    and "length args = length fmt" "length addrs = length fmt" "c_waiting (chans h c) = NOT_PROCESS_P"
  shows "\<exists>h1 h2. send_message disp' p args e c h = Some (ECTX_CONTINUE, h1) \<and> mach h1 = mach h \<and>
    input_message disp a fmt addrs e c h1 = Some (ECTX_CONTINUE, h2) \<and>
    mach h2 = store_args fmt addrs args (put_byte a (word_of_int (sym_entry p)) (mach h)) \<and>
    c_status (chans h2 c) = C_S_IDLE"
proof -
  obtain argv where argv: "encode_args (mem (mach h)) fmt args (c_argv (chans h c)) = Some argv" "holds_args argv fmt args"
    using encode_args_plain assms by blast
  define h1 where "h1 = upd_chan c (\<lambda>x. x\<lparr>c_status := C_S_ENCODE_ENTRY, c_symbol := p, c_argc := int (length fmt),
    c_argv := argv\<rparr>) h"
  have send: "send_message disp' p args e c h = Some (ECTX_CONTINUE, h1)"
    using assms argv by (simp add: send_message_def h1_def Let_def)
  define h2 where "h2 = upd_chan c (\<lambda>x. x\<lparr>c_status := if fmt = [] then C_S_IDLE else C_S_ENCODE\<rparr>)
    (put_mach (put_byte a (word_of_int (sym_entry p)) (mach h1)) h1)"
  have entry: "handle_in disp e c 0 a 1 h1 = Some (ECTX_CONTINUE, h2)"
    using assms by (auto simp: handle_in_def encoded_def h1_def h2_def Let_def put_mach_def)
  show ?thesis
  proof (cases "fmt = []")
    case True
    then show ?thesis using send entry by (auto simp: input_message_def h1_def h2_def)
  next
    case False
    have "input_args disp fmt addrs e c h2 = Some (ECTX_CONTINUE,
      if fmt = [] then h2
      else upd_chan c (\<lambda>x. x\<lparr>c_argc := 0, c_status := C_S_IDLE\<rparr>) (put_mach (store_args fmt addrs args (mach h2)) h2))"
      by (rule input_args_encoded) (use assms argv False in \<open>auto simp: h1_def h2_def\<close>)
    then show ?thesis using send entry False by (auto simp: input_message_def h1_def h2_def)
  qed
qed

section \<open>A request reaches its function\<close>







lemma low_byte_or [simp]: "ucast ((w AND - 256) OR ucast b :: WORD) = (b :: BYTE)"
proof -
  have eq: "(- 256 :: WORD) = NOT (mask 8)" by (simp add: mask_eq_exp_minus_1)
  show ?thesis unfolding eq by (rule bit_word_eqI) (auto simp: bit_simps)
qed


lemma put_mach_upd_chan [simp]: "put_mach (mach h) (upd_chan c f h) = upd_chan c f h"
  by (simp add: put_mach_def upd_chan_def)






section \<open>Requests to a bytecode and to the loader\<close>

text \<open>The entries a request to a bytecode or to the loader may be answered with. When no process waits for the response: if the
  function comes back, it leaves the channel with one of these to be read. What a request to control a context is
  answered with follows below.\<close>

definition responses :: "request \<Rightarrow> p_sym set" where
  "responses f =
     (case f of
        BYTECODE_CREATE_VM \<Rightarrow> {re_sym 0 ''M'', re_sym 1 ''w''}
      | BYTECODE_GET_SYMBOL \<Rightarrow> {re_sym 4 ''wMMww'', re_sym 1 ''w''}
      | BYTECODE_GET_FILE \<Rightarrow> {re_sym 2 ''M'', re_sym 1 ''w''}
      | BYTECODE_GET_LINE_INFO \<Rightarrow> {re_sym 3 ''ww'', re_sym 1 ''w''}
      | BYTECODE_GET_DETAILS \<Rightarrow> {re_sym 5 ''www''}
      | BYTECODE_GET_TLP \<Rightarrow> {re_sym 6 ''MM'', re_sym 1 ''w''}
      | VM_RQ_DECODE_BYTECODE \<Rightarrow> {re_sym 0 ''M'', re_sym 1 ''w''}
      | VM_RQ_LOAD_BYTECODE \<Rightarrow> {re_sym 0 ''M'', re_sym 1 ''w''}
      | _ \<Rightarrow> {})"

definition answered :: "p_sym set \<Rightarrow> WORD \<Rightarrow> inspect outcome \<Rightarrow> bool" where
  "answered R c r \<longleftrightarrow> (\<forall>ret h. r = Some (ret, h) \<longrightarrow>
     ret = ECTX_CONTINUE \<and> c_status (chans h c) = C_S_ENCODE_ENTRY \<and> c_symbol (chans h c) \<in> R)"

lemma answered_None [simp]: "answered R c None"
  by (simp add: answered_def)

lemma answered_bind: "(\<And>x. m = Some x \<Longrightarrow> answered R c (f x)) \<Longrightarrow> answered R c (m \<bind> f)"
  by (cases m) auto

lemma send_message_answers:
  assumes "c_waiting (chans h c) = NOT_PROCESS_P" "p \<in> R"
  shows "answered R c (send_message disp p args e c h)"
  using assms by (auto simp: send_message_def Let_def answered_def split: option.splits Option.bind_splits)

lemmas tables = vm_ctl_re_def bytecode_re_def vm_re_def

lemma error_answers [simp]:
  "c_waiting (chans h c) = NOT_PROCESS_P \<Longrightarrow> re_sym 1 ''w'' \<in> R \<Longrightarrow> answered R c (bytecode_error disp e c h)"
  "c_waiting (chans h c) = NOT_PROCESS_P \<Longrightarrow> re_sym 1 ''w'' \<in> R \<Longrightarrow> answered R c (vm_error disp e c h)"
  by (simp_all add: bytecode_error_def vm_error_def send_message_answers tables)

text \<open>What a function does before it answers keeps the channel without a waiting process. A new bundle's
  state may even take the place of \<open>c\<close>: nobody waits in it.\<close>

lemma str_to_mt_chans: "str_to_mt V e p h = Some (mt, h') \<Longrightarrow> chans h' = chans h"
  by (auto simp: str_to_mt_def Let_def split: if_splits prod.splits Option.bind_splits)


lemma bundle_answers:
  assumes "c_waiting (chans h c) = NOT_PROCESS_P"
    and "\<And>cb h'. c_waiting (chans h' c) = NOT_PROCESS_P \<Longrightarrow> answered R c (k cb h')"
  shows "answered R c (do { r \<leftarrow> allocate_cb V e ins d h; (cb, h') \<leftarrow> set_bundle d t w r; k cb h' })"
proof (rule answered_bind)
  fix r assume r: "allocate_cb V e ins d h = Some r"
  show "answered R c (do { (cb, h') \<leftarrow> set_bundle d t w r; k cb h' })"
  proof (rule answered_bind)
    fix q assume q: "set_bundle d t w r = Some q"
    obtain cb h' where "q = (cb, h')" by (cases q)
    moreover from this q r assms(1) have "c_waiting (chans h' c) = NOT_PROCESS_P"
      by (auto simp: allocate_cb_def set_bundle_def Let_def split: if_splits prod.splits)
    ultimately show "answered R c (case q of (cb, h') \<Rightarrow> k cb h')" using assms(2) by simp
  qed
qed



lemma create_vm_answers:
  assumes "c_waiting (chans h c) = NOT_PROCESS_P"
  shows "answered (responses BYTECODE_CREATE_VM) c (bytecode_create_vm V disp e c h)"
  unfolding bytecode_create_vm_def Let_def
proof (rule answered_bind)
  fix r
  assume r: "(if get_word (mach h) (tbc_tlp (tbc_of h c)) \<noteq> 0 then
      if get_word (mach h) (get_word (mach h) (tbc_tlp (tbc_of h c))) \<noteq> 0 then
        do { fmt \<leftarrow> c_string (mem (mach h)) (get_word (mach h) (get_word (mach h) (tbc_tlp (tbc_of h c))));
             Some (case allocate_ectx (e_heap V) (e_malloc V 0 h) (e_malloc V 1 h) (c_data (chans h c)) fmt
               (replicate 8 NULL_P) (posix_of h) of (vm, p) \<Rightarrow> (vm, h\<lparr>posix_of := p\<rparr>)) }
      else Some (0, h)
    else Some (case allocate_ectx (e_heap V) (e_malloc V 0 h) (e_malloc V 1 h) (c_data (chans h c)) ''?!!''
      (replicate 8 NULL_P) (posix_of h) of (vm, p) \<Rightarrow> (vm, h\<lparr>posix_of := p\<rparr>))) = Some r" (is "?m = _")
  obtain vm h' where x: "r = (vm, h')" by (cases r)
  from r have "chans h' = chans h" unfolding x
    by (auto split: if_splits prod.splits Option.bind_splits)
  then have "c_waiting (chans h' c) = NOT_PROCESS_P" using assms by simp
  then show "answered (responses BYTECODE_CREATE_VM) c (case r of (vm, h) \<Rightarrow> if vm = 0 then bytecode_error disp e c h
      else do {
        r \<leftarrow> allocate_cb V e vm_ctl_rq (e_malloc V 2 h) h;
        (cb, ha) \<leftarrow> set_bundle (e_malloc V 2 h) C_T_VM_CTL vm r;
        send_message disp (bytecode_re ! BYTECODE_RE_VM) [cb] e c
          (upd_chan (e_malloc V 2 h) (\<lambda>x. x\<lparr>c_buffer := e_malloc V 3 ha\<rparr>) ha)
      })"
    by (auto simp: x responses_def tables intro!: bundle_answers send_message_answers)
qed

lemma get_symbol_answers:
  assumes "c_waiting (chans h c) = NOT_PROCESS_P"
  shows "answered (responses BYTECODE_GET_SYMBOL) c (bytecode_get_symbol V disp e c h)"
  unfolding bytecode_get_symbol_def Let_def
  by (rule answered_bind) (auto intro!: answered_bind send_message_answers simp: assms responses_def tables
      split: if_splits Option.bind_splits dest!: str_to_mt_chans)

lemma send_bytecode_answers:
  "c_waiting (chans h c) = NOT_PROCESS_P \<Longrightarrow> re_sym 0 ''M'' \<in> R \<Longrightarrow> answered R c (send_bytecode V k bc disp e c h)"
  unfolding send_bytecode_def Let_def
  by (intro bundle_answers send_message_answers) (simp_all add: tables)

lemma loader_request_answered:
  assumes "c_waiting (chans h c) = NOT_PROCESS_P" "responses f \<noteq> {}"
  shows "answered (responses f) c (dispatch n V frame f e c h)"
proof (cases n)
  case (Suc k)
  note simps = Suc assms(1) Let_def create_vm_answers get_symbol_answers responses_def tables
  show ?thesis
  proof (cases f)
    case BYTECODE_CREATE_VM
    then show ?thesis using create_vm_answers [OF assms(1)] by (simp add: Suc)
  next
    case BYTECODE_GET_SYMBOL
    then show ?thesis using get_symbol_answers [OF assms(1)] by (simp add: Suc)
  next
    case BYTECODE_GET_FILE
    then show ?thesis
      by (auto simp: simps bytecode_get_file_def intro!: answered_bind send_message_answers dest!: str_to_mt_chans)
  next
    case BYTECODE_GET_TLP
    then show ?thesis
      by (auto simp: simps bytecode_get_tlp_def intro!: answered_bind send_message_answers dest!: str_to_mt_chans)
  next
    case VM_RQ_DECODE_BYTECODE
    then show ?thesis
      by (auto simp: simps vm_rq_decode_bytecode_def intro!: answered_bind send_bytecode_answers)
  next
    case VM_RQ_LOAD_BYTECODE
    then show ?thesis
      by (auto simp: simps vm_rq_load_bytecode_def intro!: answered_bind send_bytecode_answers)
  qed (use assms(2) in \<open>auto simp: simps bytecode_get_line_info_def bytecode_get_details_def
      intro!: answered_bind send_message_answers\<close>)
qed simp

section \<open>The search for a line\<close>

text \<open>The offset of entry \<open>i\<close>; the table is in the order of its offsets; what the search is to find.\<close>

definition line_at :: "memory \<Rightarrow> WORD \<Rightarrow> int \<Rightarrow> WORD" where
  "line_at m lnd i = read_word m (lnd + 12 * word_of_int i)"

definition lines_sorted :: "memory \<Rightarrow> WORD \<Rightarrow> int \<Rightarrow> bool" where
  "lines_sorted m lnd n \<longleftrightarrow> (\<forall>i j. 0 \<le> i \<longrightarrow> i \<le> j \<longrightarrow> j < n \<longrightarrow> line_at m lnd i \<le> line_at m lnd j)"

definition line_found :: "memory \<Rightarrow> WORD \<Rightarrow> int \<Rightarrow> WORD \<Rightarrow> int \<Rightarrow> bool" where
  "line_found m lnd n ip i \<longleftrightarrow>
     (if line_at m lnd 0 \<le> ip \<and> ip < line_at m lnd (n - 1)
      then 0 \<le> i \<and> i + 1 < n \<and> line_at m lnd i \<le> ip \<and> ip < line_at m lnd (i + 1)
      else i < 0 \<or> n \<le> i)"

lemma search_up:
  assumes "lines_sorted m lnd n" "0 \<le> i" "i < n" "line_at m lnd i \<le> ip"
  shows "\<exists>j. search_lines m lnd n ip 1 i = Some j \<and> line_found m lnd n ip j"
  using assms(2-)
proof (induction "nat (n - i)" arbitrary: i)
  case (Suc k)
  have first: "line_at m lnd 0 \<le> ip"
    using assms(1) Suc.prems order_trans unfolding lines_sorted_def by blast
  consider "i + 1 < n" "ip < line_at m lnd (i + 1)" | "i + 1 < n" "\<not> ip < line_at m lnd (i + 1)" | "i + 1 = n"
    using Suc.prems by linarith
  then show ?case
  proof cases
    case 1
    then have "line_at m lnd (i + 1) \<le> line_at m lnd (n - 1)" using assms(1) Suc.prems by (simp add: lines_sorted_def)
    then have "ip < line_at m lnd (n - 1)" using 1 by simp
    then show ?thesis using 1 Suc.prems first
      by (subst search_lines.simps) (simp add: line_found_def line_at_def)
  next
    case 2
    have "\<exists>j. search_lines m lnd n ip 1 (i + 1) = Some j \<and> line_found m lnd n ip j"
      by (rule Suc.hyps(1)) (use Suc.hyps(2) Suc.prems 2 in auto)
    then show ?thesis using 2 Suc.prems by (subst search_lines.simps) (simp add: line_at_def)
  next
    case 3
    then have "search_lines m lnd n ip 1 i = search_lines m lnd n ip 1 n"
      using Suc.prems by (subst search_lines.simps) (simp add: line_at_def)
    moreover have "search_lines m lnd n ip 1 n = Some n" by (subst search_lines.simps) simp
    ultimately show ?thesis using 3 Suc.prems by (auto simp: line_found_def)
  qed
qed simp

lemma search_down:
  assumes "lines_sorted m lnd n" "0 \<le> i" "i < n" "ip < line_at m lnd i"
  shows "\<exists>j. search_lines m lnd n ip 1 i = Some j \<and> line_found m lnd n ip j"
  using assms(2-)
proof (induction "nat i" arbitrary: i)
  case 0
  then have "search_lines m lnd n ip 1 i = search_lines m lnd n ip 1 (- 1)"
    by (subst search_lines.simps) (auto simp: line_at_def dest: leD)
  moreover have "search_lines m lnd n ip 1 (- 1) = Some (- 1)" by (subst search_lines.simps) simp
  ultimately show ?case using 0 by (auto simp: line_found_def)
next
  case (Suc k)
  have step: "search_lines m lnd n ip 1 i = search_lines m lnd n ip 1 (i - 1)"
    using Suc.prems by (subst search_lines.simps) (auto simp: line_at_def dest: leD)
  show ?case
  proof (cases "line_at m lnd (i - 1) \<le> ip")
    case True
    then show ?thesis unfolding step using Suc.hyps(2) Suc.prems by (intro search_up [OF assms(1)]) auto
  next
    case False
    then show ?thesis unfolding step using Suc.hyps(2) Suc.prems by (intro Suc.hyps(1)) auto
  qed
qed

text \<open>The first steps halve the distance and stay in the table.\<close>

lemma search_halving:
  assumes "lines_sorted m lnd n" "1 \<le> shift" "0 \<le> i - (shift - 1)" "i + shift - 1 \<le> n - 1"
  shows "\<exists>j. search_lines m lnd n ip shift i = Some j \<and> line_found m lnd n ip j"
  using assms(2-)
proof (induction "nat shift" arbitrary: shift i rule: less_induct)
  case less
  have range: "0 \<le> i" "i < n" using less.prems by linarith+
  show ?case
  proof (cases "shift = 1")
    case True
    then show ?thesis using search_up [OF assms(1) range] search_down [OF assms(1) range] by (cases "line_at m lnd i \<le> ip") auto
  next
    case False
    define half where "half = shift div 2"
    have half: "1 \<le> half" "half < shift" "2 * half \<le> shift" using False less.prems by (auto simp: half_def)
    have up: "\<exists>j. search_lines m lnd n ip half (i + half) = Some j \<and> line_found m lnd n ip j"
      by (rule less.hyps) (use half less.prems in auto)
    have down: "\<exists>j. search_lines m lnd n ip half (i - half) = Some j \<and> line_found m lnd n ip j"
      by (rule less.hyps) (use half less.prems in auto)
    have unfold: "search_lines m lnd n ip shift i =
      (if line_at m lnd i \<le> ip then
         if i + 1 < n \<and> ip < line_at m lnd (i + 1) then Some i else search_lines m lnd n ip half (i + half)
       else search_lines m lnd n ip half (i - half))"
      using False less.prems range by (subst search_lines.simps) (simp add: line_at_def half_def)
    show ?thesis
    proof (cases "line_at m lnd i \<le> ip \<and> i + 1 < n \<and> ip < line_at m lnd (i + 1)")
      case True
      then obtain j where "search_lines m lnd n ip 1 i = Some j" "line_found m lnd n ip j"
        using search_up [OF assms(1) range] by blast
      moreover have "search_lines m lnd n ip 1 i = Some i"
        using True range by (subst search_lines.simps) (simp add: line_at_def)
      ultimately show ?thesis using True unfold by simp
    next
      case False
      then show ?thesis using up down unfold by auto
    qed
  qed
qed

lemma search_finds_line:
  assumes "lines_sorted m lnd n" "2 \<le> n"
  shows "\<exists>i. search_lines m lnd n ip (n div 2) (n div 2) = Some i \<and> line_found m lnd n ip i"
  by (rule search_halving [OF assms(1)]) (use assms(2) in linarith)+

text \<open>In a table of one line the search does not end.\<close>

lemma search_one_line: "search_lines m lnd 1 ip 0 0 = None"
proof (rule ccontr)
  assume "search_lines m lnd 1 ip 0 0 \<noteq> None"
  then obtain x where "search_lines m lnd 1 ip 0 0 = Some x" by auto
  then have "\<not> ((1 :: int) = 1 \<and> (0 :: int) = 0 \<and> (0 :: int) = 0)"
    by (rule search_lines.raw_induct [where P = "\<lambda>m lnd n ip shift i x. \<not> (n = 1 \<and> shift = 0 \<and> i = 0)", rotated])
      (auto split: if_splits; fastforce)
  then show False by simp
qed

text \<open>The response to a request for the line of an address: the entry that holds it, or an error for an
  address before the first or in the last entry.\<close>

definition line_response :: "memory \<Rightarrow> WORD \<Rightarrow> int \<Rightarrow> WORD \<Rightarrow> p_sym \<Rightarrow> WORD list \<Rightarrow> bool" where
  "line_response m lnd n ip p args \<longleftrightarrow>
     (if line_at m lnd 0 \<le> ip \<and> ip < line_at m lnd (n - 1)
      then \<exists>i. 0 \<le> i \<and> i + 1 < n \<and> line_at m lnd i \<le> ip \<and> ip < line_at m lnd (i + 1) \<and> p = bytecode_re ! 3 \<and>
        args = [read_word m (lnd + 12 * word_of_int i + 4), read_word m (lnd + 12 * word_of_int i + 8)]
      else p = bytecode_re ! 1 \<and> args = [0])"

lemma line_info_response:
  fixes h c
  defines "m \<equiv> mem (mach h)" and "dbg \<equiv> read_word (mem (mach h)) (tbc_debug (tbc_of h c))"
    and "ip \<equiv> code_offset (mem (mach h)) (tbc_of h c) (arg_of h c 0)"
  assumes "dbg \<noteq> 0" "ip < read_word m (tbc_bytecode_len (tbc_of h c))"
    and "2 \<le> sint (read_word m (dbg + 4))" "lines_sorted m (read_word m (dbg + 8)) (sint (read_word m (dbg + 4)))"
  shows "\<exists>p args. bytecode_get_line_info disp e c h = send_message disp p args e c h \<and>
    line_response m (read_word m (dbg + 8)) (sint (read_word m (dbg + 4))) ip p args"
proof -
  obtain i where i: "search_lines m (read_word m (dbg + 8)) (sint (read_word m (dbg + 4))) ip
      (sint (read_word m (dbg + 4)) div 2) (sint (read_word m (dbg + 4)) div 2) = Some i"
    "line_found m (read_word m (dbg + 8)) (sint (read_word m (dbg + 4))) ip i"
    using search_finds_line [OF assms(7,6)] by blast
  then show ?thesis
    using assms(4,5) unfolding line_found_def line_response_def
    by (auto simp: bytecode_get_line_info_def bytecode_error_def Let_def m_def dbg_def ip_def split: if_splits)
qed

section \<open>Requests that go wrong\<close>

text \<open>
  The format of the response to a read of 16 bits is a length, which \<^verbatim>\<open>send_message\<close> does not know: it stores the
  address of the value with the character as its type. The client gets the entry, and then an error
  for any input.
\<close>

lemma int16_response_fails:
  assumes "c_waiting (chans h c) = NOT_PROCESS_P"
  shows "\<exists>h1 h2. dispatch (Suc n) V frame VM_CTL_READ_INT16 e c h = Some (ECTX_CONTINUE, h1) \<and>
    handle_in disp e c 0 a 1 h1 = Some (ECTX_CONTINUE, h2) \<and>
    (\<forall>b count. \<exists>h3. handle_in disp e c 0 b count h2 = Some (ECTX_ERROR, h3)) \<and>
    (\<forall>b. \<exists>h3. handle_mt_in disp e c 0 b h2 = Some (ECTX_ERROR, h3))"
  using assms
  by (simp add: vm_ctl_read_int16_def send_message_def vm_ctl_re_def re_sym_def Let_def handle_in_def handle_mt_in_def
      encode_arg_def channel_error_def set_error_flag_def)

text \<open>The symbol of an address beyond the bytecode is the first one.\<close>

lemma symbol_beyond_code:
  fixes h c
  defines "first \<equiv> get_word (mach h) (tbc_symbols (tbc_of h c))"
  assumes "arg_type (c_argv (chans h c) 0) = CHR ''w''" "first \<noteq> 0"
    and "get_word (mach h) (tbc_bytecode_len (tbc_of h c)) \<le> code_offset (mem (mach h)) (tbc_of h c) (arg_of h c 0)"
  shows "bytecode_get_symbol V disp e c h = do {
    (name, h') \<leftarrow> str_to_mt V e (get_word (mach h) (first + 12)) h;
    (def, h') \<leftarrow> str_to_mt V e (get_word (mach h) (first + 16)) h';
    send_message disp (bytecode_re ! 4)
      [get_word (mach h) first, name, def, get_word (mach h) (first + 4), get_word (mach h) (first + 8)] e c h' }"
  using assms by (simp add: bytecode_get_symbol_def Let_def not_less [symmetric] cong: if_cong)

section \<open>A client that waits\<close>

lemma handle_in_waits:
  assumes "c_status (chans h c) = C_S_IDLE"
  shows "\<exists>h'. handle_in disp e c chan a count h = Some (ECTX_DESCHEDULE, h') \<and> c_waiting (chans h' c) = WPTR e (mach h) \<and>
    WORKSPACE_GET (mach h') (WPTR e (mach h)) WS_POINTER = a \<and> WORKSPACE_GET (mach h') (WPTR e (mach h)) WS_PENDING = count"
  using assms by (simp add: handle_in_def Let_def)

text \<open>The response comes: the entry is stored where the client wants it, and the client joins the
  run queue.\<close>

lemma waiting_client_gets_entry:
  fixes h c w
  defines "a \<equiv> WORKSPACE_GET (mach h) w WS_POINTER"
  assumes "sym_symbols p = Some fmt" "sym_dispatch p = None" "list_all plain fmt" "length args = length fmt"
    and "c_waiting (chans h c) = w" "WORKSPACE_GET (mach h) w WS_PENDING = 1"
    and "run_queue e (mach h) rq" "ws_list (rq @ [w])" "clear_of (set (rq @ [w])) a 1"
  shows "\<exists>h'. send_message disp p args e c h = Some (ECTX_CONTINUE, h') \<and> run_queue e (mach h') (rq @ [w]) \<and>
    mem (mach h') a = word_of_int (sym_entry p) \<and> c_waiting (chans h' c) = NOT_PROCESS_P \<and>
    c_status (chans h' c) = (if fmt = [] then C_S_IDLE else C_S_ENCODE) \<and> c_argc (chans h' c) = int (length fmt)"
proof -
  obtain argv where argv: "encode_args (mem (mach h)) fmt args (c_argv (chans h c)) = Some argv"
    using encode_args_plain assms(4,5) by blast
  let ?q = "add_to_queue e w (mach h)"
  have w: "w \<noteq> NOT_PROCESS_P" using assms(9) by (auto simp: ws_list_iff ws_set_def)
  have "run_queue e ?q (rq @ [w])" by (rule add_to_queue_run_queue [OF assms(8,9)])
  moreover have "run_queue e (put_byte a b s) (rq @ [w]) = run_queue e s (rq @ [w])" for b s
  proof -
    have "WORKSPACE_GET (put_byte a b s) q WS_LINK = WORKSPACE_GET s q WS_LINK" if "q \<in> set (rq @ [w])" for q
    proof (rule WORKSPACE_GET_cong)
      fix x assume "\<not> outside {q} x"
      moreover have "outside {q} (a + 0)"
        using outside_mono [OF clear_of_outside [OF assms(10), of 0], of "{q}"] that by simp
      ultimately show "mem (put_byte a b s) x = mem s x" by (auto simp: put_byte_def write_byte_def)
    qed simp
    then show ?thesis
      using run_queue_cong [of e s "rq @ [w]" "put_byte a b s"] run_queue_cong [of e "put_byte a b s" "rq @ [w]" s]
      by (auto simp: put_byte_def)
  qed
  ultimately show ?thesis
    using assms(2,3,6,7) argv w
    by (auto simp: send_message_def handle_in_def encoded_def Let_def add_to_queue_external_def a_def put_byte_def
        write_byte_def)
qed

section \<open>Requests that control a context\<close>





lemma plain_formats [simp]: "plain CHR ''w''" "plain CHR ''b''" "plain CHR ''M''"
  by (simp_all add: plain_def)

















section \<open>The instructions of the client\<close>

text \<open>Input and output on a channel of a bundle are the functions of its table.\<close>

definition introspection :: "env \<Rightarrow> WORD \<Rightarrow> inspect embedding" where
  "introspection V frame = \<lparr>machine_of = mach, with_machine = put_mach, interface_at = \<lambda>_. cb_interface V frame\<rparr>"

lemma introspection_embeds: "embeds (introspection V frame)"
  by (simp add: embeds_def introspection_def)

lemma output_reaches_host:
  assumes "served_by (introspection V frame) h chan intf c"
    and "handle_out V (dispatch 1 V frame) e c chan ptr len h = Some (ECTX_CONTINUE, h')"
  shows "chan_out_ext (introspection V frame) e len chan ptr h = Some (ECTX_CONTINUE, h')"
proof -
  have "channel_ext_output (introspection V frame) e (interface_at (introspection V frame) intf) c chan ptr (- len) h =
      Some (ECTX_CONTINUE, h')"
    using assms(2) by (simp add: channel_ext_output_def introspection_def cb_interface_def Let_def)
  from chan_std_io_served [where ext = "channel_ext_output (introspection V frame)", OF introspection_embeds assms(1) this]
  show ?thesis by (simp add: chan_out_ext_def)
qed

lemma input_reaches_host:
  assumes "served_by (introspection V frame) h chan intf c"
    and "handle_in (dispatch 1 V frame) e c chan ptr len h = Some (ret, h')" "ret = ECTX_CONTINUE \<or> ret = ECTX_DESCHEDULE"
  shows "chan_in_ext (introspection V frame) e len chan ptr h =
    (if ret = ECTX_CONTINUE then Some (ECTX_CONTINUE, h') else on_machine (introspection V frame) (run_next_on_queue e) h')"
proof -
  have "channel_ext_input (introspection V frame) e (interface_at (introspection V frame) intf) c chan ptr len h = Some (ret, h')"
    using assms(2) by (simp add: channel_ext_input_def introspection_def cb_interface_def Let_def)
  from chan_std_io_served [where ext = "channel_ext_input (introspection V frame)", OF introspection_embeds assms(1) this]
    assms(3) show ?thesis by (auto simp: chan_in_ext_def)
qed

section \<open>The properties\<close>


text \<open>C35: a response of words, bytes and mobiles that is sent is read back by the client: the number of its entry,
  then its arguments in order, and the channel is idle again.\<close>

theorem message_round_trip:
  assumes "sym_symbols p = Some fmt" "sym_dispatch p = None" "list_all plain fmt" "length fmt \<le> 8"
    and "length args = length fmt" "length addrs = length fmt" "c_waiting (chans h c) = NOT_PROCESS_P"
  shows "\<exists>h1 h2. send_message disp' p args e c h = Some (ECTX_CONTINUE, h1) \<and> mach h1 = mach h \<and>
    input_message disp a fmt addrs e c h1 = Some (ECTX_CONTINUE, h2) \<and>
    mach h2 = store_args fmt addrs args (put_byte a (word_of_int (sym_entry p)) (mach h)) \<and>
    c_status (chans h2 c) = C_S_IDLE"
  using assms by (rule message_read_back)

text \<open>C36: a client that waits for a response when it is sent gets the number of its entry and joins
  the run queue behind the others, and the rest of the response is ready for it.\<close>

theorem waiting_client_served:
  fixes h c w
  defines "a \<equiv> WORKSPACE_GET (mach h) w WS_POINTER"
  assumes "sym_symbols p = Some fmt" "sym_dispatch p = None" "list_all plain fmt" "length args = length fmt"
    and "c_waiting (chans h c) = w" "WORKSPACE_GET (mach h) w WS_PENDING = 1"
    and "run_queue e (mach h) rq" "ws_list (rq @ [w])" "clear_of (set (rq @ [w])) a 1"
  shows "\<exists>h'. send_message disp p args e c h = Some (ECTX_CONTINUE, h') \<and> run_queue e (mach h') (rq @ [w]) \<and>
    mem (mach h') a = word_of_int (sym_entry p) \<and> c_waiting (chans h' c) = NOT_PROCESS_P \<and>
    c_status (chans h' c) = (if fmt = [] then C_S_IDLE else C_S_ENCODE) \<and> c_argc (chans h' c) = int (length fmt)"
  using assms(2-) unfolding a_def by (rule waiting_client_gets_entry)

text \<open>The search for the line of an address ends for a sorted table of two lines or more, with the
  entry that holds the address, or with an error for an address before the first or in the last entry. For a table of one line
  it does not end.\<close>

lemma line_search_total:
  fixes h c
  defines "m \<equiv> mem (mach h)" and "dbg \<equiv> read_word (mem (mach h)) (tbc_debug (tbc_of h c))"
    and "ip \<equiv> code_offset (mem (mach h)) (tbc_of h c) (arg_of h c 0)"
    and "n \<equiv> sint (read_word (mem (mach h)) (read_word (mem (mach h)) (tbc_debug (tbc_of h c)) + 4))"
  assumes "dbg \<noteq> 0" "ip < read_word m (tbc_bytecode_len (tbc_of h c))"
    and "lines_sorted m (read_word m (dbg + 8)) n"
  shows "(2 \<le> n \<longrightarrow> (\<exists>p args. bytecode_get_line_info disp e c h = send_message disp p args e c h \<and>
      line_response m (read_word m (dbg + 8)) n ip p args)) \<and>
    (n = 1 \<longrightarrow> bytecode_get_line_info disp e c h = None)"
proof (intro conjI impI)
  assume "2 \<le> n"
  then show "\<exists>p args. bytecode_get_line_info disp e c h = send_message disp p args e c h \<and>
      line_response m (read_word m (dbg + 8)) n ip p args"
    using line_info_response [of h c disp e] assms by (simp add: m_def dbg_def ip_def n_def)
next
  assume "n = 1"
  then show "bytecode_get_line_info disp e c h = None"
    using assms search_one_line by (simp add: bytecode_get_line_info_def Let_def)
qed

text \<open>C37: the response to a read of sixteen bits cannot be read: the client gets its number, and then
  an error for any input.\<close>

theorem int16_never_read:
  assumes "c_waiting (chans h c) = NOT_PROCESS_P"
  shows "\<exists>h1 h2. dispatch (Suc n) V frame VM_CTL_READ_INT16 e c h = Some (ECTX_CONTINUE, h1) \<and>
    handle_in disp e c 0 a 1 h1 = Some (ECTX_CONTINUE, h2) \<and>
    (\<forall>b count. \<exists>h3. handle_in disp e c 0 b count h2 = Some (ECTX_ERROR, h3)) \<and>
    (\<forall>b. \<exists>h3. handle_mt_in disp e c 0 b h2 = Some (ECTX_ERROR, h3))"
  using assms by (rule int16_response_fails)

section \<open>Examples\<close>

definition env_example :: env where
  "env_example = \<lparr>e_heap = no_heap, e_primaries = [], e_hook = None, e_linker = linker_example, e_undef = \<lambda>_. 0,
     e_file = \<lambda>_. \<lparr>fopen = False, fseek_end = 0, ftell = 0, fseek_set = 0, file_bytes = []\<rparr>, e_interface = 4,
     e_malloc = \<lambda>_ _. 0\<rparr>"

definition no_dispatch :: "request \<Rightarrow> handler" where
  "no_dispatch f e c h = None"

definition channel_example :: "p_sym list \<Rightarrow> WORD \<Rightarrow> c_state" where
  "channel_example ins waiting = \<lparr>c_status = C_S_IDLE, c_waiting = waiting, c_in = ins, c_decode = None,
     c_symbol = table_end, c_argc = 0, c_argv = \<lambda>_. \<lparr>arg_type = CHR ''w'', arg_length = 0, arg_data = 5\<rparr>,
     c_type = C_T_VM_CTL, c_data = 0, c_buffer = 0\<rparr>"

definition inspect_example :: "tvm \<Rightarrow> c_state \<Rightarrow> inspect" where
  "inspect_example s x = \<lparr>posix_of = posix_example\<lparr>machine := s\<rparr>, chans = \<lambda>_. x\<rparr>"

lemma inspect_example_simps [simp]:
  "mach (inspect_example s x) = s" "chans (inspect_example s x) c = x"
  by (simp_all add: inspect_example_def)



theorem message_round_trip_witness:
  "\<exists>h1 h2. send_message no_dispatch (re_sym 1 ''ww'') [3, 4] 1 8 (inspect_example blank (channel_example vm_ctl_rq 0)) =
      Some (ECTX_CONTINUE, h1) \<and>
    input_message no_dispatch 32 ''ww'' [36, 40] 1 8 h1 = Some (ECTX_CONTINUE, h2) \<and> c_status (chans h2 8) = C_S_IDLE"
  using message_round_trip [where p = "re_sym 1 ''ww''" and fmt = "''ww''" and args = "[3, 4]" and addrs = "[36, 40]"
      and h = "inspect_example blank (channel_example vm_ctl_rq 0)" and c = 8 and e = 1 and disp = no_dispatch
      and disp' = no_dispatch and a = 32]
  by (auto simp: re_sym_def plain_def channel_example_def)

theorem waiting_client_served_witness:
  "\<exists>h'. send_message no_dispatch (re_sym 4 '''') [] 1 8 (inspect_example
      (WORKSPACE_SET 400 WS_POINTER 64 (WORKSPACE_SET 400 WS_PENDING 1 blank)) (channel_example vm_ctl_rq 400)) =
    Some (ECTX_CONTINUE, h') \<and> run_queue 1 (mach h') [400]"
proof -
  let ?s = "WORKSPACE_SET 400 WS_POINTER 64 (WORKSPACE_SET 400 WS_PENDING 1 blank)"
  have "WORKSPACE_GET ?s 400 WS_POINTER = 64" "WORKSPACE_GET ?s 400 WS_PENDING = 1" by simp_all
  moreover have "run_queue 1 ?s []" by (simp add: run_queue_empty)
  moreover have "ws_list [400]" by (simp add: ws_list_def)
  moreover have "clear_of {400} 64 1" by (simp add: clear_of_def disjoint_blocks_def)
  ultimately show ?thesis
    using waiting_client_served [where h = "inspect_example ?s (channel_example vm_ctl_rq 400)" and c = 8 and w = 400
      and p = "re_sym 4 ''''" and fmt = "''''" and args = "[]" and e = 1 and rq = "[]" and disp = no_dispatch]
    by (auto simp: re_sym_def channel_example_def)
qed

text \<open>A table of two lines, at the addresses 64 and 80, and a file of 16 bytes.\<close>

definition lines_example :: tvm where
  "lines_example = put_word 288 32 (put_word 32 64 (put_word 268 16 (put_word 36 2 (put_word 40 512
     (put_word 524 8 (put_word 528 1 (put_word 532 7 (put_word 516 0 (put_word 520 3 blank)))))))))"

lemma line_search_total_witness:
  "\<exists>p args. bytecode_get_line_info no_dispatch 1 8 (inspect_example lines_example (channel_example bytecode_rq 0)) =
      send_message no_dispatch p args 1 8 (inspect_example lines_example (channel_example bytecode_rq 0)) \<and>
    line_response (mem lines_example) 512 2 5 p args"
proof -
  let ?h = "inspect_example lines_example (channel_example bytecode_rq 0)"
  have tbc: "tbc_of ?h 8 = 256" "arg_of ?h 8 0 = 5"
    by (simp_all add: inspect_example_def posix_example_def channel_example_def)
  have words: "get_word lines_example 288 = 32" "get_word lines_example 36 = 2" "get_word lines_example 40 = 512"
    "get_word lines_example 268 = 16" "get_word lines_example 272 = 0" "get_word lines_example 512 = 0" "get_word lines_example 524 = 8"
    by (simp_all add: lines_example_def put_word_def read_write_word_other apart_def)
  have "lines_sorted (mem lines_example) 512 2"
  proof -
    have "i = 0 \<and> j = 0 \<or> i = 0 \<and> j = 1 \<or> i = 1 \<and> j = (1 :: int)" if "0 \<le> i" "i \<le> j" "j < 2" for i j
      using that by linarith
    then show ?thesis using words by (fastforce simp: lines_sorted_def line_at_def)
  qed
  then show ?thesis
    using line_search_total [where h = ?h and c = 8 and disp = no_dispatch and e = 1] tbc words
    by (simp add: code_offset_def Let_def)
qed

theorem int16_never_read_witness:
  "\<exists>h1. dispatch 1 env_example 64 VM_CTL_READ_INT16 1 8 (inspect_example blank (channel_example vm_ctl_rq 0)) =
    Some (ECTX_CONTINUE, h1)"
  using int16_never_read [where h = "inspect_example blank (channel_example vm_ctl_rq 0)" and c = 8 and n = 0 and V = env_example
      and frame = 64 and e = 1 and disp = no_dispatch and a = 32]
  by (auto simp: channel_example_def simp del: dispatch.simps)

end
