(* ===== verification/Ccsp_State.thy ===== *)
theory Ccsp_State
  imports Tvm_Prelude "HOL-Library.Monad_Syntax"
begin

text \<open>
  The state of the native run time kernel CCSP (\<^verbatim>\<open>src/runtime/ccsp\<close>): the structures of
  \<^verbatim>\<open>sched_types.h\<close>, the constants of \<^verbatim>\<open>sched_consts.h\<close> and \<^verbatim>\<open>ccsp_consts.h\<close>, the atomic operations and bit
  scans of the i386 port. The build read here has one run time thread (\<^verbatim>\<open>--disable-mp\<close>), in which the
  atomic operations are plain reads and writes, no checking mode, and the timers of the host.

  Memory is a map from an object's address and the number of a word in it to that word: slot -2 of a
  workspace is its link, word 3 of a batch the next batch. Objects do not overlap; a batch that
  is used as a timer queue node, or as the head of a barrier, is the same object, so its words are
  shared as in the C code. The bytes of messages are a map of their own.
\<close>

named_theorems ccsp_defs \<open>definitions of the kernel that a proof unfolds\<close>

section \<open>Constants\<close>

abbreviation (input) NotProcess_p :: WORD where "NotProcess_p \<equiv> 0"
abbreviation (input) TimeSet_p :: WORD where "TimeSet_p \<equiv> 1"
abbreviation (input) TimeNotSet_p :: WORD where "TimeNotSet_p \<equiv> 2"
abbreviation (input) NoneSelected_o :: WORD where "NoneSelected_o \<equiv> 0x80000000"

abbreviation (input) ALT_ENABLING_BIT :: nat where "ALT_ENABLING_BIT \<equiv> 30"
abbreviation (input) ALT_ENABLING :: WORD where "ALT_ENABLING \<equiv> 0x40000000"
abbreviation (input) ALT_WAITING :: WORD where "ALT_WAITING \<equiv> 0x20000000"
abbreviation (input) ALT_NOT_READY :: WORD where "ALT_NOT_READY \<equiv> 0x10000000"

text \<open>Slots of a workspace.\<close>

abbreviation (input) SavedPriority :: int where "SavedPriority \<equiv> 2"
abbreviation (input) Count :: int where "Count \<equiv> 1"
abbreviation (input) IptrSucc :: int where "IptrSucc \<equiv> 0"
abbreviation (input) Temp :: int where "Temp \<equiv> 0"
abbreviation (input) Iptr :: int where "Iptr \<equiv> - 1"
abbreviation (input) Link :: int where "Link \<equiv> - 2"
abbreviation (input) Priofinity :: int where "Priofinity \<equiv> - 3"
abbreviation (input) Pointer :: int where "Pointer \<equiv> - 4"
abbreviation (input) State :: int where "State \<equiv> - 4"
abbreviation (input) TLink :: int where "TLink \<equiv> - 5"
abbreviation (input) Time_f :: int where "Time_f \<equiv> - 6"

text \<open>Words of a batch, of a timer queue node and of a semaphore.\<close>

abbreviation (input) B_Fptr :: int where "B_Fptr \<equiv> 0"
abbreviation (input) B_Bptr :: int where "B_Bptr \<equiv> 1"
abbreviation (input) B_size :: int where "B_size \<equiv> 2"
abbreviation (input) B_next :: int where "B_next \<equiv> 3"
abbreviation (input) B_state :: int where "B_state \<equiv> 4"
abbreviation (input) B_priofinity :: int where "B_priofinity \<equiv> 5"
abbreviation (input) TN_time :: int where "TN_time \<equiv> 0"
abbreviation (input) TN_next :: int where "TN_next \<equiv> 1"
abbreviation (input) TN_prev :: int where "TN_prev \<equiv> 2"
abbreviation (input) TN_scheduler :: int where "TN_scheduler \<equiv> 5"
abbreviation (input) TN_wptr :: int where "TN_wptr \<equiv> 6"
abbreviation (input) S_fptr :: int where "S_fptr \<equiv> 0"
abbreviation (input) S_bptr :: int where "S_bptr \<equiv> 1"

abbreviation (input) BATCH_EMPTIED :: WORD where "BATCH_EMPTIED \<equiv> 0x40000000"
abbreviation (input) BATCH_PPD :: WORD where "BATCH_PPD \<equiv> 8"
abbreviation (input) BATCH_PPD_SHIFT :: nat where "BATCH_PPD_SHIFT \<equiv> 3"
abbreviation (input) BATCH_MD_MASK :: WORD where "BATCH_MD_MASK \<equiv> 0x7f"
abbreviation (input) BATCH_DIRTY_BIT :: nat where "BATCH_DIRTY_BIT \<equiv> 31"
abbreviation (input) BATCH_DIRTY :: WORD where "BATCH_DIRTY \<equiv> 0x80000000"
abbreviation (input) MAX_PRIORITY_LEVELS :: nat where "MAX_PRIORITY_LEVELS \<equiv> 32"
abbreviation (input) MWINDOW_STATE :: nat where "MWINDOW_STATE \<equiv> 0"
abbreviation (input) MWINDOW_BM_OFFSET :: nat where "MWINDOW_BM_OFFSET \<equiv> 8"
abbreviation (input) SYNC_TIME_BIT :: nat where "SYNC_TIME_BIT \<equiv> 2"
abbreviation (input) SYNC_BMAIL_BIT :: nat where "SYNC_BMAIL_BIT \<equiv> 4"
abbreviation (input) SYNC_PMAIL_BIT :: nat where "SYNC_PMAIL_BIT \<equiv> 5"
abbreviation (input) SYNC_WORK_BIT :: nat where "SYNC_WORK_BIT \<equiv> 6"
abbreviation (input) SYNC_TQ_BIT :: nat where "SYNC_TQ_BIT \<equiv> 7"

section \<open>The scheduler and the global data\<close>

record runqueue_t =
  rq_Fptr :: WORD
  rq_Bptr :: WORD
  rq_priofinity :: WORD
  rq_pending :: WORD

definition init_runqueue_t :: runqueue_t where
  "init_runqueue_t = \<lparr>rq_Fptr = 0, rq_Bptr = 0, rq_priofinity = 0, rq_pending = 0\<rparr>"

text \<open>
  The one scheduler (\<^verbatim>\<open>sched_t\<close>; \<open>curb\<close> is the address of its current batch), the masks of
  \<^verbatim>\<open>ccsp_global_t\<close>, memory, and what the host provides: the values its clock will show, the last
  alarm it was asked for, the blocks \<^verbatim>\<open>malloc\<close> will give, and those given back; last the
  global table of schedulers.
\<close>

record kern =
  kmem :: "WORD \<Rightarrow> int \<Rightarrow> WORD"
  kbytes :: "WORD \<Rightarrow> BYTE"
  sched_index :: WORD
  sched_id :: WORD
  spin :: WORD
  dispatches :: WORD
  priofinity :: WORD
  sched_loop :: WORD
  rqstate :: WORD
  free_list :: WORD
  laundry :: WORD
  tq_fptr :: WORD
  tq_bptr :: WORD
  curb :: WORD
  rq :: "nat \<Rightarrow> runqueue_t"
  stats_startp :: WORD
  stats_endp :: WORD
  stats_proc_start :: WORD
  stats_proc_end :: WORD
  sync :: WORD
  bmail :: runqueue_t
  pmail :: runqueue_t
  mwstate :: WORD
  mw :: "nat \<Rightarrow> nat \<Rightarrow> WORD"
  enabled_threads :: WORD
  idle_threads :: WORD
  sleeping_threads :: WORD
  kclock :: "nat \<Rightarrow> WORD"
  kticks :: nat
  alarm :: WORD
  blocks :: "nat \<Rightarrow> WORD"
  allocs :: nat
  released :: "WORD list"
  schedulers :: "nat \<Rightarrow> WORD"

section \<open>Memory\<close>

text \<open>Following a null pointer stops the program; \<open>None\<close> also stands for \<^verbatim>\<open>ccsp_kernel_exit\<close>.\<close>

definition put :: "WORD \<Rightarrow> int \<Rightarrow> WORD \<Rightarrow> kern \<Rightarrow> kern" where
  "put p k v s = s\<lparr>kmem := (kmem s)(p := (kmem s p)(k := v))\<rparr>"

definition ld :: "WORD \<Rightarrow> int \<Rightarrow> kern \<Rightarrow> WORD option" where
  "ld p k s = (if p = 0 then None else Some (kmem s p k))"

definition st :: "WORD \<Rightarrow> int \<Rightarrow> WORD \<Rightarrow> kern \<Rightarrow> kern option" where
  "st p k v s = (if p = 0 then None else Some (put p k v s))"

lemma ld_Some [simp]: "p \<noteq> 0 \<Longrightarrow> ld p k s = Some (kmem s p k)"
  by (simp add: ld_def)

lemma st_Some [simp]: "p \<noteq> 0 \<Longrightarrow> st p k v s = Some (put p k v s)"
  by (simp add: st_def)

lemma ld_null [simp]: "ld 0 k s = None"
  by (simp add: ld_def)

lemma st_null [simp]: "st 0 k v s = None"
  by (simp add: st_def)

lemma kmem_put [simp]: "kmem (put p k v s) q j = (if q = p \<and> j = k then v else kmem s q j)"
  by (simp add: put_def)

text \<open>The pointers of the kernel's queues and its masks are not in this memory.\<close>

lemma put_fields [simp]:
  "kbytes (put p k v s) = kbytes s" "sched_index (put p k v s) = sched_index s"
  "sched_id (put p k v s) = sched_id s" "spin (put p k v s) = spin s"
  "dispatches (put p k v s) = dispatches s" "priofinity (put p k v s) = priofinity s"
  "sched_loop (put p k v s) = sched_loop s" "rqstate (put p k v s) = rqstate s"
  "free_list (put p k v s) = free_list s" "laundry (put p k v s) = laundry s"
  "tq_fptr (put p k v s) = tq_fptr s" "tq_bptr (put p k v s) = tq_bptr s"
  "curb (put p k v s) = curb s" "rq (put p k v s) = rq s" "sync (put p k v s) = sync s"
  "bmail (put p k v s) = bmail s" "pmail (put p k v s) = pmail s"
  "mwstate (put p k v s) = mwstate s" "mw (put p k v s) = mw s"
  "enabled_threads (put p k v s) = enabled_threads s" "idle_threads (put p k v s) = idle_threads s"
  "sleeping_threads (put p k v s) = sleeping_threads s" "kclock (put p k v s) = kclock s"
  "kticks (put p k v s) = kticks s" "alarm (put p k v s) = alarm s"
  "blocks (put p k v s) = blocks s" "allocs (put p k v s) = allocs s"
  "released (put p k v s) = released s" "schedulers (put p k v s) = schedulers s"
  "stats_startp (put p k v s) = stats_startp s" "stats_endp (put p k v s) = stats_endp s"
  "stats_proc_start (put p k v s) = stats_proc_start s" "stats_proc_end (put p k v s) = stats_proc_end s"
  by (simp_all add: put_def)

section \<open>Bits of words\<close>

text \<open>\<^verbatim>\<open>bsf\<close> and \<^verbatim>\<open>bsr\<close> leave the 32 their result starts with when there is no bit.\<close>

definition bsf :: "WORD \<Rightarrow> nat" where
  "bsf v = (case find (bit v) [0..<32] of Some i \<Rightarrow> i | None \<Rightarrow> 32)"

definition bsr :: "WORD \<Rightarrow> nat" where
  "bsr v = (case find (bit v) (rev [0..<32]) of Some i \<Rightarrow> i | None \<Rightarrow> 32)"

definition one_if_z :: "WORD \<Rightarrow> WORD \<Rightarrow> WORD" where
  "one_if_z v m = (if v AND m = 0 then 1 else 0)"

definition pick_random_bit :: "WORD \<Rightarrow> nat" where
  "pick_random_bit m = bsf m"

text \<open>The bit found is set and none below it is; there is one unless the word is zero.\<close>

lemma bsf_cases:
  obtains "v = 0" "bsf v = 32"
  | "v \<noteq> 0" "bit v (bsf v)" "bsf v < 32" "\<forall>i < bsf v. \<not> bit v i"
proof (cases "find (bit v) [0..<32]")
  case None
  then have "\<forall>i < 32. \<not> bit v i" by (auto simp: find_None_iff)
  then have "v = 0" by (intro bit_word_eqI) simp
  with None that(1) show ?thesis by (simp add: bsf_def)
next
  case (Some i)
  then have i: "i < 32" "bit v i" "\<forall>j < i. \<not> bit v j" by (auto simp: find_Some_iff)
  then have "v \<noteq> 0" by auto
  with Some i that(2) show ?thesis by (simp add: bsf_def)
qed

lemma bit_bsf: "v \<noteq> 0 \<Longrightarrow> bit v (bsf v) \<and> bsf v < 32"
  by (cases v rule: bsf_cases) auto

lemma below_bsf: "i < bsf v \<Longrightarrow> i < 32 \<Longrightarrow> \<not> bit v i"
  by (cases v rule: bsf_cases) auto

lemma bsf_one [simp]: "bsf 1 = 0"
  using bit_bsf [of 1] by (auto simp: bit_1_iff)

text \<open>\<^verbatim>\<open>btsl\<close> and \<^verbatim>\<open>btrl\<close>.\<close>

lemma bit_set_bit32: "n < 32 \<Longrightarrow> bit (set_bit n (w :: WORD)) i \<longleftrightarrow> i = n \<or> bit w i"
  by (auto simp: bit_set_bit_iff)

lemma bit_unset_bit32: "bit (unset_bit n (w :: WORD)) i \<longleftrightarrow> i \<noteq> n \<and> bit w i"
  by (auto simp: bit_unset_bit_iff)

section \<open>Priorities and affinities\<close>

definition PHasAffinity :: "WORD \<Rightarrow> bool" where
  "PHasAffinity x \<longleftrightarrow> x AND 0xffffffe0 \<noteq> 0"

definition PAffinity :: "WORD \<Rightarrow> WORD" where
  "PAffinity x = drop_bit 5 (x AND 0xffffffe0)"

definition PPriority :: "WORD \<Rightarrow> WORD" where
  "PPriority x = x AND 0x1f"

definition BuildPriofinity :: "WORD \<Rightarrow> WORD \<Rightarrow> WORD" where
  "BuildPriofinity a p = (push_bit 5 a AND 0xffffffe0) OR (p AND 0x1f)"

definition prio :: "WORD \<Rightarrow> nat" where
  "prio x = unat (PPriority x)"

section \<open>The clock of the host\<close>

definition Time_GetTime :: "kern \<Rightarrow> WORD \<times> kern" where
  "Time_GetTime s = (kclock s (kticks s), s\<lparr>kticks := Suc (kticks s)\<rparr>)"

definition Time_AFTER :: "WORD \<Rightarrow> WORD \<Rightarrow> bool" where
  "Time_AFTER t1 t2 \<longleftrightarrow> (t2 - t1) AND 0x80000000 \<noteq> 0"

text \<open>
  The interval timer of the host has one alarm, zero when none is set. The loop of the C function sets it when
  the new one is earlier; a second round would put back an alarm that rang in between.
\<close>

definition ccsp_set_next_alarm :: "WORD \<Rightarrow> kern \<Rightarrow> kern" where
  "ccsp_set_next_alarm usecs s =
     (if usecs \<noteq> 0 \<and> (alarm s = 0 \<or> alarm s > usecs) then s\<lparr>alarm := usecs\<rparr> else s)"

definition Time_SetTimeoutN :: "WORD \<Rightarrow> WORD \<Rightarrow> kern \<Rightarrow> kern" where
  "Time_SetTimeoutN now timeout s = ccsp_set_next_alarm (timeout - now) s"

definition Time_SetTimeout :: "WORD \<Rightarrow> kern \<Rightarrow> kern" where
  "Time_SetTimeout timeout s =
     (let (now, s) = Time_GetTime s in
      if Time_AFTER timeout now then Time_SetTimeoutN now timeout s
      else Time_SetTimeoutN now (now + 1) s)"

text \<open>A new block from \<^verbatim>\<open>malloc\<close>.\<close>

definition dmem_thread_alloc :: "kern \<Rightarrow> WORD \<times> kern" where
  "dmem_thread_alloc s = (blocks s (allocs s), s\<lparr>allocs := Suc (allocs s)\<rparr>)"

definition dmem_thread_release :: "WORD \<Rightarrow> kern \<Rightarrow> kern" where
  "dmem_thread_release p s = s\<lparr>released := p # released s\<rparr>"

end
