(* ===== verification/Ccsp_Batch.thy ===== *)
theory Ccsp_Batch
  imports Ccsp_State
begin

text \<open>
  Batches: queues of processes linked through their workspaces, the unit the kernel schedules.
  The functions of \<^verbatim>\<open>sched.c\<close> on one batch, the list of processes a batch stands for, and the
  locale that states what the kernel's queues promise.
\<close>

section \<open>The functions\<close>

definition save_priofinity :: "WORD \<Rightarrow> kern \<Rightarrow> kern option" where
  "save_priofinity Wptr s = st Wptr Priofinity (priofinity s) s"

definition save_return :: "WORD \<Rightarrow> WORD \<Rightarrow> kern \<Rightarrow> kern option" where
  "save_return Wptr return_address s = st Wptr Iptr return_address s"

definition init_batch_t :: "WORD \<Rightarrow> kern \<Rightarrow> kern option" where
  "init_batch_t b s = do {
     s \<leftarrow> st b B_Fptr NotProcess_p s;
     s \<leftarrow> st b B_Bptr NotProcess_p s;
     s \<leftarrow> st b B_size 0 s;
     s \<leftarrow> st b B_next 0 s;
     s \<leftarrow> st b B_state 0 s;
     st b B_priofinity 0 s }"

definition reinit_batch_t :: "WORD \<Rightarrow> kern \<Rightarrow> kern option" where
  "reinit_batch_t b s = do {
     s \<leftarrow> st b B_Fptr NotProcess_p s;
     st b B_size 0 s }"

definition clean_batch :: "WORD \<Rightarrow> kern \<Rightarrow> bool option" where
  "clean_batch b s = do { v \<leftarrow> ld b B_state s; Some (v AND BATCH_DIRTY = 0) }"

definition dirty_batch :: "WORD \<Rightarrow> kern \<Rightarrow> bool option" where
  "dirty_batch b s = do { v \<leftarrow> ld b B_state s; Some (v AND BATCH_DIRTY \<noteq> 0) }"

definition mark_batch_clean :: "WORD \<Rightarrow> kern \<Rightarrow> kern option" where
  "mark_batch_clean b s = do { v \<leftarrow> ld b B_state s; st b B_state (unset_bit BATCH_DIRTY_BIT v) s }"

definition set_batch_clean :: "WORD \<Rightarrow> kern \<Rightarrow> kern option" where
  "set_batch_clean b s = st b B_state 0 s"

definition set_batch_dirty_value :: "WORD \<Rightarrow> bool \<Rightarrow> kern \<Rightarrow> kern option" where
  "set_batch_dirty_value b v s = st b B_state (push_bit BATCH_DIRTY_BIT (of_bool v)) s"

definition batch_window :: "WORD \<Rightarrow> kern \<Rightarrow> WORD option" where
  "batch_window b s = do { v \<leftarrow> ld b B_state s; Some (v AND 0xff) }"

definition set_batch_window :: "WORD \<Rightarrow> WORD \<Rightarrow> kern \<Rightarrow> kern option" where
  "set_batch_window b w s = st b B_state (BATCH_DIRTY OR w) s"

definition empty_batch :: "WORD \<Rightarrow> kern \<Rightarrow> bool option" where
  "empty_batch b s = do { f \<leftarrow> ld b B_Fptr s; Some (f = NotProcess_p) }"

definition enqueue_to_batch_with_hint :: "WORD \<Rightarrow> WORD \<Rightarrow> bool \<Rightarrow> kern \<Rightarrow> kern option" where
  "enqueue_to_batch_with_hint b Wptr front s = do {
     s \<leftarrow> st Wptr Link NotProcess_p s;
     if front then do {
       s \<leftarrow> st b B_Fptr Wptr s;
       s \<leftarrow> st b B_Bptr Wptr s;
       st b B_size 1 s }
     else do {
       back \<leftarrow> ld b B_Bptr s;
       s \<leftarrow> st back Link Wptr s;
       s \<leftarrow> st b B_Bptr Wptr s;
       n \<leftarrow> ld b B_size s;
       st b B_size (n + 1) s } }"

definition enqueue_to_batch :: "WORD \<Rightarrow> WORD \<Rightarrow> kern \<Rightarrow> kern option" where
  "enqueue_to_batch b Wptr s = do {
     s \<leftarrow> st Wptr Link NotProcess_p s;
     f \<leftarrow> ld b B_Fptr s;
     s \<leftarrow> (if f = NotProcess_p then st b B_Fptr Wptr s
           else do { back \<leftarrow> ld b B_Bptr s; st back Link Wptr s });
     s \<leftarrow> st b B_Bptr Wptr s;
     n \<leftarrow> ld b B_size s;
     st b B_size (n + 1) s }"

definition enqueue_to_batch_front :: "WORD \<Rightarrow> WORD \<Rightarrow> kern \<Rightarrow> kern option" where
  "enqueue_to_batch_front b Wptr s = do {
     f \<leftarrow> ld b B_Fptr s;
     s \<leftarrow> st Wptr Link f s;
     s \<leftarrow> (if f = NotProcess_p then do { s \<leftarrow> st b B_Fptr Wptr s; st b B_Bptr Wptr s }
           else st b B_Fptr Wptr s);
     n \<leftarrow> ld b B_size s;
     st b B_size (n + 1) s }"

definition dequeue_from_batch :: "WORD \<Rightarrow> kern \<Rightarrow> (WORD \<times> kern) option" where
  "dequeue_from_batch b s = do {
     Wptr \<leftarrow> ld b B_Fptr s;
     n \<leftarrow> ld b B_size s;
     nxt \<leftarrow> ld Wptr Link s;
     s \<leftarrow> st b B_Fptr nxt s;
     s \<leftarrow> st b B_size (((n - 2) AND BATCH_EMPTIED) OR (n - 1)) s;
     Some (Wptr, s) }"

definition calculate_dispatches :: "WORD \<Rightarrow> WORD" where
  "calculate_dispatches n =
     (let n = push_bit BATCH_PPD_SHIFT n;
          n = n OR (one_if_z n (NOT BATCH_MD_MASK) - 1)
      in n AND BATCH_MD_MASK)"

text \<open>The search of a batch for a process in a range of addresses, which it may remove.\<close>

partial_function (option) find_remove_walk ::
    "WORD \<Rightarrow> WORD \<Rightarrow> WORD \<Rightarrow> bool \<Rightarrow> WORD \<Rightarrow> WORD \<Rightarrow> kern \<Rightarrow> (bool \<times> kern) option" where
  "find_remove_walk b prev wptr remove ws_base ws_limit s =
     (if wptr = NotProcess_p then Some (False, s)
      else if ws_base \<le> wptr \<and> wptr < ws_limit then
        if remove then do {
          nxt \<leftarrow> ld wptr Link s;
          s \<leftarrow> (if prev = NotProcess_p then st b B_Fptr nxt s else st prev Link nxt s);
          Some (True, s) }
        else Some (True, s)
      else do {
        nxt \<leftarrow> ld wptr Link s;
        find_remove_walk b wptr nxt remove ws_base ws_limit s })"

definition find_remove_from_batch ::
    "WORD \<Rightarrow> bool \<Rightarrow> WORD \<Rightarrow> WORD \<Rightarrow> kern \<Rightarrow> (bool \<times> kern) option" where
  "find_remove_from_batch b remove ws_base ws_limit s = do {
     f \<leftarrow> ld b B_Fptr s;
     find_remove_walk b NotProcess_p f remove ws_base ws_limit s }"

section \<open>What a queue promises\<close>

text \<open>
  A queue in the state of the kernel: entries leave in the order they came. Its users never
  take from an empty one, so nothing is said of that.
\<close>

locale fifo_queue =
  fixes enq :: "'x \<Rightarrow> 's \<Rightarrow> 's option"
    and deq :: "'s \<Rightarrow> ('x \<times> 's) option"
    and holds :: "'s \<Rightarrow> 'x list \<Rightarrow> bool"
    and valid :: "'x list \<Rightarrow> bool"
  assumes enq_last: "holds s q \<Longrightarrow> valid (q @ [x]) \<Longrightarrow> \<exists>s'. enq x s = Some s' \<and> holds s' (q @ [x])"
    and deq_first: "holds s (x # q) \<Longrightarrow> \<exists>s'. deq s = Some (x, s') \<and> holds s' q"
    and valid_front: "valid (q @ r) \<Longrightarrow> valid q"
begin

fun enq_all :: "'x list \<Rightarrow> 's \<Rightarrow> 's option" where
  "enq_all [] s = Some s"
| "enq_all (x # xs) s = Option.bind (enq x s) (enq_all xs)"

fun deq_all :: "nat \<Rightarrow> 's \<Rightarrow> ('x list \<times> 's) option" where
  "deq_all 0 s = Some ([], s)"
| "deq_all (Suc n) s =
     Option.bind (deq s) (\<lambda>(x, s). Option.bind (deq_all n s) (\<lambda>(xs, s). Some (x # xs, s)))"

lemma enq_all_last:
  "holds s q \<Longrightarrow> valid (q @ xs) \<Longrightarrow> \<exists>s'. enq_all xs s = Some s' \<and> holds s' (q @ xs)"
proof (induction xs arbitrary: s q)
  case (Cons x xs)
  have "valid (q @ [x])" using Cons.prems(2) valid_front [of "q @ [x]" xs] by simp
  with Cons.prems(1) obtain s' where s': "enq x s = Some s'" "holds s' (q @ [x])"
    using enq_last by blast
  with Cons.IH [of s' "q @ [x]"] Cons.prems(2) show ?case by simp
qed simp

lemma deq_all_front: "holds s (xs @ q) \<Longrightarrow> \<exists>s'. deq_all (length xs) s = Some (xs, s') \<and> holds s' q"
proof (induction xs arbitrary: s)
  case (Cons x xs)
  then obtain s' where "deq s = Some (x, s')" "holds s' (xs @ q)" using deq_first by fastforce
  with Cons.IH [of s'] show ?case by auto
qed simp

lemma first_in_first_out:
  assumes "holds s []" "valid xs"
  shows "\<exists>s' s''. enq_all xs s = Some s' \<and> deq_all (length xs) s' = Some (xs, s'') \<and> holds s'' []"
proof -
  from enq_all_last [of s "[]" xs] assms
  obtain s' where s': "enq_all xs s = Some s'" "holds s' xs" by auto
  with deq_all_front [of s' xs "[]"] show ?thesis by auto
qed

end

section \<open>Lists linked through memory\<close>

fun chain :: "(WORD \<Rightarrow> WORD) \<Rightarrow> WORD \<Rightarrow> WORD list \<Rightarrow> bool" where
  "chain nx p [] \<longleftrightarrow> p = 0"
| "chain nx p (x # xs) \<longleftrightarrow> p = x \<and> x \<noteq> 0 \<and> chain nx (nx x) xs"

lemma chain_zero [simp]: "chain nx 0 xs \<longleftrightarrow> xs = []"
  by (cases xs) auto

lemma chain_nonzero: "p \<noteq> 0 \<Longrightarrow> chain nx p xs \<longleftrightarrow> (\<exists>ys. xs = p # ys \<and> chain nx (nx p) ys)"
  by (cases xs) auto

lemma chain_unique: "chain nx p xs \<Longrightarrow> chain nx p ys \<Longrightarrow> xs = ys"
proof (induction xs arbitrary: p ys)
  case (Cons x xs) then show ?case by (cases ys) auto
qed auto

lemma chain_cong: "chain nx p xs \<Longrightarrow> \<forall>x \<in> set xs. nx' x = nx x \<Longrightarrow> chain nx' p xs"
  by (induction xs arbitrary: p) auto

lemma chain_upd [simp]: "a \<notin> set xs \<Longrightarrow> chain (nx(a := v)) p xs \<longleftrightarrow> chain nx p xs"
  by (induction xs arbitrary: p) auto

lemma chain_if [simp]:
  "a \<notin> set xs \<Longrightarrow> chain (\<lambda>x. if x = a then v else nx x) p xs \<longleftrightarrow> chain nx p xs"
  by (induction xs arbitrary: p) auto

lemma chain_appendD: "chain nx p (xs @ ys) \<Longrightarrow> \<exists>q. chain nx q ys"
  by (induction xs arbitrary: p) auto

lemma chain_suffix: "chain nx p (xs @ y # ys) \<Longrightarrow> chain nx y (y # ys)"
  by (induction xs arbitrary: p) auto

lemma chain_distinct: "chain nx p xs \<Longrightarrow> distinct xs"
proof (induction xs arbitrary: p)
  case (Cons x xs)
  have "x \<notin> set xs"
  proof
    assume "x \<in> set xs"
    then obtain as bs where xs: "xs = as @ x # bs" by (auto simp: in_set_conv_decomp)
    with Cons.prems have "chain nx (nx x) (as @ x # bs)" by simp
    then have "chain nx (nx x) bs" using chain_suffix by fastforce
    with Cons.prems xs have "bs = as @ x # bs" using chain_unique by fastforce
    then show False by (metis append_assoc append_Cons append_self_conv2 append_same_eq list.distinct(1) not_Cons_self2 self_append_conv2)
  qed
  with Cons show ?case by auto
qed simp

lemma chain_nz: "chain nx p xs \<Longrightarrow> x \<in> set xs \<Longrightarrow> x \<noteq> 0"
  by (induction xs arbitrary: p) auto

text \<open>Appending an element whose link is null, with the link of the last one set to it.\<close>

lemma chain_snoc:
  assumes "chain nx p xs" "xs \<noteq> []" "x \<noteq> 0" "x \<notin> set xs" "nx' (last xs) = x" "nx' x = 0"
    "\<forall>y \<in> set (butlast xs). nx' y = nx y"
  shows "chain nx' p (xs @ [x])"
  using assms
proof (induction xs arbitrary: p)
  case (Cons y ys)
  show ?case
  proof (cases "ys = []")
    case True with Cons.prems show ?thesis by auto
  next
    case False
    have "chain nx' (nx y) (ys @ [x])" using Cons.prems False by (intro Cons.IH) auto
    with Cons.prems False show ?thesis by auto
  qed
qed simp

section \<open>The processes in a batch\<close>

text \<open>
  Processes linked from the front of the batch, the last of them at its back. The size is their number, plus a
  flag once the batch has been emptied.
\<close>

definition flagged :: "bool \<Rightarrow> nat \<Rightarrow> WORD" where
  "flagged e n = (if e then BATCH_EMPTIED else 0) + of_nat n"

definition batch_procs :: "kern \<Rightarrow> WORD \<Rightarrow> bool \<Rightarrow> WORD list \<Rightarrow> bool" where
  "batch_procs s b e ps \<longleftrightarrow> b \<noteq> 0 \<and> length ps < 2 ^ 30 \<and>
     chain (\<lambda>w. kmem s w Link) (kmem s b B_Fptr) ps \<and>
     (ps \<noteq> [] \<longrightarrow> kmem s b B_Bptr = last ps) \<and> kmem s b B_size = flagged e (length ps)"

definition procs_ok :: "WORD list \<Rightarrow> bool" where
  "procs_ok ps \<longleftrightarrow> distinct ps \<and> 0 \<notin> set ps \<and> length ps < 2 ^ 30"

lemma flagged_Suc: "flagged e n + 1 = flagged e (Suc n)"
  by (simp add: flagged_def)

lemma flagged_0 [simp]: "flagged False 0 = 0" "flagged True 0 = BATCH_EMPTIED" "flagged False (Suc 0) = 1"
  by (simp_all add: flagged_def)


section \<open>What an operation may change\<close>

text \<open>Only these words of memory, and nothing else of the state.\<close>

definition changes :: "(WORD \<times> int) set \<Rightarrow> kern \<Rightarrow> kern \<Rightarrow> bool" where
  "changes A s s' \<longleftrightarrow> (\<exists>m. s' = s\<lparr>kmem := m\<rparr>) \<and>
     (\<forall>p k. (p, k) \<notin> A \<longrightarrow> kmem s' p k = kmem s p k)"

lemma changes_refl [simp]: "changes A s s"
  unfolding changes_def by (auto intro: exI [of _ "kmem s"])

lemma changes_put: "(p, k) \<in> A \<Longrightarrow> changes A s s' \<Longrightarrow> changes A s (put p k v s')"
  unfolding changes_def put_def by auto

lemma changes_trans: "changes A s s' \<Longrightarrow> changes A s' s'' \<Longrightarrow> changes A s s''"
  unfolding changes_def by auto

lemma changes_mono: "changes A s s' \<Longrightarrow> A \<subseteq> B \<Longrightarrow> changes B s s'"
  unfolding changes_def by blast

lemma changes_kmem: "changes A s s' \<Longrightarrow> (p, k) \<notin> A \<Longrightarrow> kmem s' p k = kmem s p k"
  unfolding changes_def by simp

lemma changes_rest: "changes A s s' \<Longrightarrow> s' = s\<lparr>kmem := kmem s'\<rparr>"
  unfolding changes_def by auto

lemma batch_procs_frame:
  assumes "batch_procs s b e ps" "changes A s s'" "(b, B_Fptr) \<notin> A" "(b, B_Bptr) \<notin> A" "(b, B_size) \<notin> A"
    "\<forall>p \<in> set ps. (p, Link) \<notin> A"
  shows "batch_procs s' b e ps"
proof -
  have "chain (\<lambda>w. kmem s' w Link) (kmem s b B_Fptr) ps"
    using assms by (auto simp: batch_procs_def changes_kmem intro: chain_cong)
  with assms show ?thesis by (simp add: batch_procs_def changes_kmem)
qed

lemma batch_procs_ok: "batch_procs s b e ps \<Longrightarrow> procs_ok ps"
  unfolding batch_procs_def procs_ok_def by (auto dest: chain_distinct chain_nz)

lemma batch_procs_empty: "batch_procs s b e ps \<Longrightarrow> kmem s b B_Fptr = 0 \<longleftrightarrow> ps = []"
  unfolding batch_procs_def by (cases ps) auto

lemma batch_procs_nz: "batch_procs s b e ps \<Longrightarrow> b \<noteq> 0"
  unfolding batch_procs_def by simp

section \<open>Putting a process into a batch\<close>

lemma enqueue_to_batch_appends:
  assumes "batch_procs s b e ps" "procs_ok (ps @ [w])"
  shows "\<exists>s'. enqueue_to_batch b w s = Some s' \<and> batch_procs s' b e (ps @ [w]) \<and>
    changes ({(b, B_Fptr), (b, B_Bptr), (b, B_size)} \<union> {(p, Link) | p. p \<in> set (ps @ [w])}) s s'"
proof (cases "ps = []")
  case True
  with assms show ?thesis
    by (auto simp: enqueue_to_batch_def batch_procs_def procs_ok_def flagged_Suc intro!: changes_put)
next
  case False
  let ?s = "put (last ps) Link w (put w Link 0 s)"
  have "last ps \<noteq> 0"
    using last_in_set [OF False] assms(2) by (auto simp: procs_ok_def)
  with False assms have last: "last ps \<noteq> 0" "kmem s b B_Bptr = last ps" "kmem s b B_Fptr \<noteq> 0" "last ps \<noteq> w"
    "last ps \<in> set ps"
    using last_in_set [OF False] by (auto simp: batch_procs_def procs_ok_def)
  have run: "enqueue_to_batch b w s =
      Some (put b B_size (kmem s b B_size + 1) (put b B_Bptr w ?s))"
    using assms last by (simp add: enqueue_to_batch_def batch_procs_def procs_ok_def)
  have "distinct ps" using assms(2) by (simp add: procs_ok_def)
  then have "last ps \<notin> set (butlast ps)" using False by (metis append_butlast_last_id distinct_append distinct.simps(2) disjoint_insert(1) list.set(2))
  then have "chain (\<lambda>x. kmem ?s x Link) (kmem s b B_Fptr) (ps @ [w])"
    using assms False last
    by (intro chain_snoc [of "\<lambda>x. kmem s x Link"]) (auto simp: batch_procs_def procs_ok_def dest: in_set_butlastD)
  moreover have "changes ({(b, B_Fptr), (b, B_Bptr), (b, B_size)} \<union> {(p, Link) | p. p \<in> set (ps @ [w])}) s
      (put b B_size (kmem s b B_size + 1) (put b B_Bptr w ?s))"
    using last by (intro changes_put) auto
  ultimately show ?thesis
    unfolding run using assms by (simp add: batch_procs_def procs_ok_def flagged_Suc)
qed

lemma enqueue_to_batch_front_prepends:
  assumes "batch_procs s b e ps" "procs_ok (w # ps)"
  shows "\<exists>s'. enqueue_to_batch_front b w s = Some s' \<and> batch_procs s' b e (w # ps) \<and>
    changes {(b, B_Fptr), (b, B_Bptr), (b, B_size), (w, Link)} s s'"
proof (cases "ps = []")
  case True
  with assms show ?thesis
    by (auto simp: enqueue_to_batch_front_def batch_procs_def procs_ok_def flagged_Suc intro!: changes_put)
next
  case False
  let ?s = "put b B_size (kmem s b B_size + 1) (put b B_Fptr w (put w Link (kmem s b B_Fptr) s))"
  from False assms have "kmem s b B_Fptr \<noteq> 0" by (simp add: batch_procs_empty)
  with assms have run: "enqueue_to_batch_front b w s = Some ?s"
    by (simp add: enqueue_to_batch_front_def batch_procs_def procs_ok_def)
  have "chain (\<lambda>x. kmem ?s x Link) (kmem s b B_Fptr) ps"
    using assms by (auto simp: batch_procs_def procs_ok_def intro: chain_cong)
  moreover have "changes {(b, B_Fptr), (b, B_Bptr), (b, B_size), (w, Link)} s ?s"
    by (intro changes_put) auto
  ultimately show ?thesis
    unfolding run using assms False by (simp add: batch_procs_def procs_ok_def flagged_Suc)
qed

text \<open>With the hint that it is the first, the old contents do not matter.\<close>

lemma enqueue_with_hint_first:
  assumes "b \<noteq> 0" "w \<noteq> 0"
  shows "\<exists>s'. enqueue_to_batch_with_hint b w True s = Some s' \<and> batch_procs s' b False [w] \<and>
    changes {(b, B_Fptr), (b, B_Bptr), (b, B_size), (w, Link)} s s'"
  using assms by (auto simp: enqueue_to_batch_with_hint_def batch_procs_def intro!: changes_put)

lemma enqueue_with_hint_other:
  assumes "batch_procs s b e ps" "ps \<noteq> []" "w \<noteq> 0"
  shows "enqueue_to_batch_with_hint b w False s = enqueue_to_batch b w s"
proof -
  have "kmem s b B_Fptr \<noteq> 0" using assms by (simp add: batch_procs_empty)
  with assms show ?thesis
    by (simp add: enqueue_to_batch_with_hint_def enqueue_to_batch_def batch_procs_def)
qed

section \<open>Taking a process from a batch\<close>

text \<open>The size word after a process is taken: one less, and flagged once no process is left.\<close>

lemma emptied_bits:
  fixes x :: WORD
  assumes "x < 0x40000000"
  shows "BATCH_EMPTIED + x = BATCH_EMPTIED OR x" "x AND BATCH_EMPTIED = 0"
proof -
  have low: "take_bit 30 (unat x) = unat x"
    using assms by (simp add: take_bit_nat_eq_self_iff word_less_nat_alt)
  have hi: "\<not> bit x i" if "30 \<le> i" for i
  proof
    assume "bit x i"
    then have "bit (unat x) i" by (simp add: bit_unsigned_iff bit_imp_possible_bit)
    then have "bit (take_bit 30 (unat x)) i" using low by simp
    with that show False by (simp add: bit_take_bit_iff)
  qed
  have one: "bit BATCH_EMPTIED i \<longleftrightarrow> i = 30" for i
    using bit_exp_iff [of 30 i, where 'a = "32 word"] by auto
  show a: "x AND BATCH_EMPTIED = 0"
    by (rule bit_word_eqI) (simp only: bit_and_iff one bit_0_eq bot_apply, use hi in \<open>auto\<close>)
  show "BATCH_EMPTIED + x = BATCH_EMPTIED OR x"
    using a by (simp add: disjunctive_add_eq_or and.commute)
qed


lemma flagged_Suc_bits:
  assumes "n < 2 ^ 30 - 1"
  shows "((flagged e (Suc n) - 2) AND BATCH_EMPTIED) OR (flagged e (Suc n) - 1) = flagged (e \<or> n = 0) n"
proof -
  have small: "of_nat k < (0x40000000 :: WORD)" if "k < 2 ^ 30" for k
    using that by (simp add: word_less_nat_alt unat_of_nat)
  have red: "flagged e (Suc n) - 1 = flagged e n" by (simp add: flagged_def)
  show ?thesis
  proof (cases n)
    case 0
    then show ?thesis by (cases e) (simp_all add: flagged_def)
  next
    case (Suc m)
    have "flagged e (Suc n) - 2 = flagged e m" by (simp add: flagged_def Suc)
    moreover have "of_nat m < (0x40000000 :: WORD)" "of_nat n < (0x40000000 :: WORD)"
      using assms Suc small [of m] small [of n] by simp_all
    note emptied_bits [OF this(1)] emptied_bits [OF this(2)]
    ultimately show ?thesis
      using Suc unfolding red
      by (cases e) (simp_all add: flagged_def bit.conj_disj_distrib2 and.commute or.assoc [symmetric] del: of_nat_Suc)
  qed
qed

lemma dequeue_from_batch_first:
  assumes "batch_procs s b e (p # ps)"
  shows "\<exists>s'. dequeue_from_batch b s = Some (p, s') \<and> batch_procs s' b (e \<or> ps = []) ps \<and>
    changes {(b, B_Fptr), (b, B_size)} s s'"
proof -
  let ?n = "flagged e (Suc (length ps))"
  let ?s = "put b B_size (((?n - 2) AND BATCH_EMPTIED) OR (?n - 1)) (put b B_Fptr (kmem s p Link) s)"
  have run: "dequeue_from_batch b s = Some (p, ?s)"
    using assms by (simp add: dequeue_from_batch_def batch_procs_def)
  have "length ps < 2 ^ 30 - 1" using assms by (simp add: batch_procs_def)
  then have "kmem ?s b B_size = flagged (e \<or> ps = []) (length ps)"
    using flagged_Suc_bits [of "length ps" e] by simp
  moreover have "changes {(b, B_Fptr), (b, B_size)} s ?s" by (intro changes_put) auto
  ultimately show ?thesis
    unfolding run using assms by (auto simp: batch_procs_def simp del: length_0_conv)
qed

interpretation batch: fifo_queue "enqueue_to_batch b" "dequeue_from_batch b"
    "\<lambda>s ps. \<exists>e. batch_procs s b e ps" procs_ok for b
proof
  fix s q x assume "\<exists>e. batch_procs s b e q" "procs_ok (q @ [x])"
  then show "\<exists>s'. enqueue_to_batch b x s = Some s' \<and> (\<exists>e. batch_procs s' b e (q @ [x]))"
    using enqueue_to_batch_appends by blast
next
  fix s x q assume "\<exists>e. batch_procs s b e (x # q)"
  then show "\<exists>s'. dequeue_from_batch b s = Some (x, s') \<and> (\<exists>e. batch_procs s' b e q)"
    using dequeue_from_batch_first by blast
qed (auto simp: procs_ok_def)

section \<open>Dispatches\<close>

lemma high_part_zero: "(v :: WORD) AND NOT 0x7f = 0 \<longleftrightarrow> unat v < 128"
proof -
  have m: "(0x7f :: WORD) = mask 7" by (simp add: mask_eq_exp_minus_1)
  have "v AND NOT (mask 7) = 0 \<longleftrightarrow> take_bit 7 v = v"
  proof
    assume "v AND NOT (mask 7) = 0"
    moreover have "(v AND mask 7) OR (v AND NOT (mask 7)) = v"
      by (simp flip: bit.conj_disj_distrib)
    ultimately show "take_bit 7 v = v" by (simp add: take_bit_eq_mask)
  next
    assume "take_bit 7 v = v"
    then have "v AND NOT (mask 7) = (v AND mask 7) AND NOT (mask 7)" by (simp add: take_bit_eq_mask)
    then show "v AND NOT (mask 7) = 0" by (simp add: and.assoc)
  qed
  also have "\<dots> \<longleftrightarrow> unat v < 2 ^ 7"
    by (simp only: word_unat_eq_iff unsigned_take_bit_eq take_bit_nat_eq_self_iff)
  finally show ?thesis unfolding m by simp
qed

text \<open>Eight dispatches for each process, at most 127.\<close>

lemma calculate_dispatches_value:
  "unat (calculate_dispatches n) = min (8 * unat n mod 2 ^ 32) 127"
proof -
  have m: "(0x7f :: WORD) = mask 7" by (simp add: mask_eq_exp_minus_1)
  have size: "unat (push_bit 3 n) = 8 * unat n mod 2 ^ 32"
    by (simp only: unsigned_push_bit_eq) (simp add: take_bit_eq_mod push_bit_eq_mult mult.commute)
  show ?thesis
  proof (cases "unat (push_bit 3 n) < 128")
    case True
    then have "calculate_dispatches n = push_bit 3 n AND 0x7f"
      unfolding calculate_dispatches_def one_if_z_def high_part_zero Let_def by simp
    also have "\<dots> = take_bit 7 (push_bit 3 n)" by (simp only: m take_bit_eq_mask)
    finally show ?thesis
      using True size by (simp add: unsigned_take_bit_eq take_bit_nat_eq_self)
  next
    case False
    then have "calculate_dispatches n = 0x7f"
      unfolding calculate_dispatches_def one_if_z_def high_part_zero Let_def by simp
    with False size show ?thesis by simp
  qed
qed

section \<open>Searching a batch\<close>

lemma chain_cut_last:
  "chain nx p (ps @ [x]) \<Longrightarrow> ps \<noteq> [] \<Longrightarrow> nx' (last ps) = 0 \<Longrightarrow>
     (\<forall>y \<in> set (butlast ps). nx' y = nx y) \<Longrightarrow> chain nx' p ps"
proof (induction ps arbitrary: p)
  case (Cons y ys) then show ?case by (cases "ys = []") auto
qed simp

lemma butlast_last_distinct: "ps \<noteq> [] \<Longrightarrow> distinct (ps @ [x]) \<Longrightarrow> last ps \<notin> set (butlast ps)"
  by (cases ps rule: rev_cases) auto


lemma find_remove_walk_finds:
  assumes "chain (\<lambda>w. kmem s w Link) p ps"
  shows "find_remove_walk b prev p False lo hi s =
    Some (\<exists>x \<in> set ps. lo \<le> x \<and> x < hi, s)"
  using assms
proof (induction ps arbitrary: prev p)
  case Nil then show ?case by (subst find_remove_walk.simps) simp
next
  case (Cons x xs)
  then show ?case by (subst find_remove_walk.simps) auto
qed

lemma find_remove_from_batch_finds:
  "batch_procs s b e ps \<Longrightarrow>
     find_remove_from_batch b False lo hi s = Some (\<exists>x \<in> set ps. lo \<le> x \<and> x < hi, s)"
  by (simp add: find_remove_from_batch_def batch_procs_def find_remove_walk_finds)

text \<open>
  Removal unlinks the first process in the range, and does no more: the back of the batch and its size are as
  they were.
\<close>

lemma find_remove_walk_removes:
  assumes "chain (\<lambda>w. kmem s w Link) p (ps @ x # qs)" "lo \<le> x" "x < hi"
    "\<forall>y \<in> set ps. \<not> (lo \<le> y \<and> y < hi)" "b \<noteq> 0"
  shows "find_remove_walk b prev p True lo hi s =
    Some (True, case (if ps = [] then prev else last ps) of q \<Rightarrow>
      if q = 0 then put b B_Fptr (kmem s x Link) s else put q Link (kmem s x Link) s)"
  using assms
proof (induction ps arbitrary: prev p)
  case Nil then show ?case by (subst find_remove_walk.simps) auto
next
  case (Cons y ys)
  then have "find_remove_walk b y (kmem s y Link) True lo hi s = Some (True,
      case (if ys = [] then y else last ys) of q \<Rightarrow>
      if q = 0 then put b B_Fptr (kmem s x Link) s else put q Link (kmem s x Link) s)"
    by auto
  with Cons.prems show ?case by (subst find_remove_walk.simps) auto
qed

text \<open>When the last of several processes is removed, the next one to be queued is lost: it is not among those the front of the batch leads to.\<close>

lemma removed_last_loses_next:
  assumes "batch_procs s b e (ps @ [x])" "ps \<noteq> []" "lo \<le> x" "x < hi"
    "\<forall>y \<in> set ps. \<not> (lo \<le> y \<and> y < hi)" "w \<noteq> 0" "w \<notin> set (ps @ [x])"
  shows "\<exists>s1 s2. find_remove_from_batch b True lo hi s = Some (True, s1) \<and>
    enqueue_to_batch b w s1 = Some s2 \<and>
    chain (\<lambda>w. kmem s2 w Link) (kmem s2 b B_Fptr) ps \<and>
    kmem s2 b B_size = flagged e (length ps + 2)"
proof -
  have c: "chain (\<lambda>w. kmem s w Link) (kmem s b B_Fptr) (ps @ [x])" and b: "b \<noteq> 0"
    and bk: "kmem s b B_Bptr = x" and n: "kmem s b B_size = flagged e (Suc (length ps))"
    using assms(1) by (simp_all add: batch_procs_def)
  have x: "kmem s x Link = 0" "x \<noteq> 0" and front: "kmem s b B_Fptr \<noteq> 0"
    using chain_suffix [OF c] chain_nz [OF c, of x] c assms(2) by (auto simp: neq_Nil_conv)
  have dist: "distinct (ps @ [x])" using c by (rule chain_distinct)
  have "last ps \<in> set ps" using assms(2) by simp
  then have l: "last ps \<noteq> 0" "last ps \<noteq> w" "last ps \<noteq> x"
    using chain_nz [OF c] assms(7) dist by auto
  let ?s1 = "put (last ps) Link 0 s"
  let ?s2 = "put b B_size (flagged e (Suc (length ps)) + 1)
      (put b B_Bptr w (put x Link w (put w Link 0 ?s1)))"
  have "find_remove_from_batch b True lo hi s = Some (True, ?s1)"
    using find_remove_walk_removes [OF c assms(3,4,5) b] assms(2) l(1) x b
    by (simp add: find_remove_from_batch_def)
  moreover have "enqueue_to_batch b w ?s1 = Some ?s2"
    using b front bk n x l assms(6) by (simp add: enqueue_to_batch_def)
  moreover have "chain (\<lambda>w. kmem ?s2 w Link) (kmem s b B_Fptr) ps"
    using l dist assms(7) butlast_last_distinct [OF assms(2), of x]
    by (intro chain_cut_last [OF c assms(2)]) (auto dest: in_set_butlastD)
  ultimately show ?thesis by (auto simp: flagged_Suc)
qed
end
