(* ===== verification/Ccsp_Runqueue.thy ===== *)
theory Ccsp_Runqueue
  imports Ccsp_Batch
begin

text \<open>
  The run queues of the kernel (\<^verbatim>\<open>sched.c\<close>): the free list of batches and the laundry of those
  still referred to, a queue of batches for each of 32 priorities with a pending batch at its end, the
  migration windows through which other run time threads may take batches, mail, and the current batch.
\<close>

section \<open>Free batches and the laundry\<close>

definition release_clean_batch :: "WORD \<Rightarrow> kern \<Rightarrow> kern option" where
  "release_clean_batch b s = do {
     s \<leftarrow> st b B_next (free_list s) s;
     Some (s\<lparr>free_list := b\<rparr>) }"

definition release_dirty_batch :: "WORD \<Rightarrow> kern \<Rightarrow> kern option" where
  "release_dirty_batch b s = do {
     s \<leftarrow> st b B_next (laundry s) s;
     Some (s\<lparr>laundry := b\<rparr>) }"

partial_function (option) laundry_loop :: "WORD \<Rightarrow> WORD \<Rightarrow> kern \<Rightarrow> kern option" where
  "laundry_loop b p s =
     (if b \<noteq> 0 then do {
        c \<leftarrow> clean_batch b s;
        if c then do {
          n \<leftarrow> ld b B_next s;
          s \<leftarrow> reinit_batch_t b s;
          s \<leftarrow> release_clean_batch b s;
          s \<leftarrow> (if p = 0 then Some (s\<lparr>laundry := n\<rparr>) else st p B_next n s);
          laundry_loop n p s }
        else do {
          n \<leftarrow> ld b B_next s;
          laundry_loop n b s } }
      else Some s)"

definition do_laundry :: "kern \<Rightarrow> kern option" where
  "do_laundry s = laundry_loop (laundry s) 0 s"

fun skip_batches :: "nat \<Rightarrow> WORD \<Rightarrow> kern \<Rightarrow> WORD option" where
  "skip_batches 0 b s = Some b"
| "skip_batches (Suc n) b s =
     (if b \<noteq> 0 then do { nxt \<leftarrow> ld b B_next s; skip_batches n nxt s } else Some b)"

partial_function (option) release_rest :: "WORD \<Rightarrow> kern \<Rightarrow> kern option" where
  "release_rest b s =
     (if b \<noteq> 0 then do {
        n \<leftarrow> ld b B_next s;
        release_rest n (dmem_thread_release b s) }
      else Some s)"

definition release_excess_memory :: "kern \<Rightarrow> kern option" where
  "release_excess_memory s = do {
     b \<leftarrow> skip_batches 32 (free_list s) s;
     if b \<noteq> 0 then do {
       n \<leftarrow> ld b B_next s;
       s \<leftarrow> st b B_next 0 s;
       release_rest n s }
     else Some s }"

definition release_batch :: "WORD \<Rightarrow> kern \<Rightarrow> kern option" where
  "release_batch b s = do {
     c \<leftarrow> clean_batch b s;
     if c then do {
       s \<leftarrow> reinit_batch_t b s;
       release_clean_batch b s }
     else release_dirty_batch b s }"

fun allocate_to_free_list :: "nat \<Rightarrow> kern \<Rightarrow> kern option" where
  "allocate_to_free_list 0 s = Some s"
| "allocate_to_free_list (Suc n) s =
     (let (b, s) = dmem_thread_alloc s in do {
        s \<leftarrow> init_batch_t b s;
        s \<leftarrow> release_clean_batch b s;
        allocate_to_free_list n s })"

definition allocate_batch :: "kern \<Rightarrow> (WORD \<times> kern) option" where
  "allocate_batch s = do {
     s \<leftarrow> (if free_list s = 0 then do {
             s \<leftarrow> allocate_to_free_list 16 s;
             do_laundry s }
           else Some s);
     nxt \<leftarrow> ld (free_list s) B_next s;
     Some (free_list s, s\<lparr>free_list := nxt\<rparr>) }"

section \<open>The queue of one priority and its window\<close>

definition upd_rq :: "nat \<Rightarrow> (runqueue_t \<Rightarrow> runqueue_t) \<Rightarrow> kern \<Rightarrow> kern" where
  "upd_rq n f s = s\<lparr>rq := (rq s)(n := f (rq s n))\<rparr>"

definition set_mw :: "nat \<Rightarrow> nat \<Rightarrow> WORD \<Rightarrow> kern \<Rightarrow> kern" where
  "set_mw n w v s = s\<lparr>mw := (mw s)(n := (mw s n)(w := v))\<rparr>"

definition add_to_local_runqueue :: "nat \<Rightarrow> WORD \<Rightarrow> kern \<Rightarrow> kern option" where
  "add_to_local_runqueue n b s = do {
     s \<leftarrow> st b B_next 0 s;
     if rq_Fptr (rq s n) = 0 then Some (upd_rq n (\<lambda>q. q\<lparr>rq_Fptr := b, rq_Bptr := b\<rparr>) s)
     else do {
       s \<leftarrow> st (rq_Bptr (rq s n)) B_next b s;
       Some (upd_rq n (\<lambda>q. q\<lparr>rq_Bptr := b\<rparr>) s) } }"

definition increment_mwindow_head :: "WORD \<Rightarrow> WORD" where
  "increment_mwindow_head head = (let head = head + 1 in (head OR drop_bit 4 head) AND 15)"

definition MWINDOW_HEAD :: "WORD \<Rightarrow> WORD" where
  "MWINDOW_HEAD v = v AND 0xff"

definition MWINDOW_NEW_STATE :: "WORD \<Rightarrow> WORD \<Rightarrow> WORD" where
  "MWINDOW_NEW_STATE v h = ((v OR push_bit (unat h) 0x100) AND NOT 0xff) OR h"

definition add_to_visible_runqueue :: "nat \<Rightarrow> WORD \<Rightarrow> kern \<Rightarrow> kern option" where
  "add_to_visible_runqueue n b s =
     (let state = mw s n MWINDOW_STATE;
          w = increment_mwindow_head (MWINDOW_HEAD state)
      in do {
        s \<leftarrow> set_batch_window b w s;
        s \<leftarrow> (let old = mw s n (unat w); s = set_mw n (unat w) b s in
              if old \<noteq> 0 then set_batch_clean old s else Some s);
        add_to_local_runqueue n b (set_mw n MWINDOW_STATE (MWINDOW_NEW_STATE state w) s) })"

definition add_affine_batch_to_runqueue :: "nat \<Rightarrow> WORD \<Rightarrow> kern \<Rightarrow> kern option" where
  "add_affine_batch_to_runqueue n b s = do {
     s \<leftarrow> set_batch_clean b s;
     add_to_local_runqueue n b s }"

definition add_to_runqueue :: "WORD \<Rightarrow> nat \<Rightarrow> WORD \<Rightarrow> kern \<Rightarrow> kern option" where
  "add_to_runqueue priof n b s =
     (if PHasAffinity priof then add_affine_batch_to_runqueue n b s
      else do {
        s \<leftarrow> add_to_visible_runqueue n b s;
        Some (s\<lparr>mwstate := set_bit n (mwstate s)\<rparr>) })"

text \<open>A null result is the null batch, as in the code.\<close>

definition try_pull_from_runqueue :: "nat \<Rightarrow> kern \<Rightarrow> (WORD \<times> kern) option" where
  "try_pull_from_runqueue n s =
     (let b = rq_Fptr (rq s n) in
      if b \<noteq> 0 then do {
        nxt \<leftarrow> ld b B_next s;
        s \<leftarrow> Some (upd_rq n (\<lambda>q. q\<lparr>rq_Fptr := nxt\<rparr>) s);
        window \<leftarrow> batch_window b s;
        if window \<noteq> 0 then
          if mw s n (unat window) = b then do {
            s \<leftarrow> Some (set_mw n (unat window) 0 s);
            s \<leftarrow> Some (set_mw n MWINDOW_STATE
                   (unset_bit (unat window + MWINDOW_BM_OFFSET) (mw s n MWINDOW_STATE)) s);
            s \<leftarrow> set_batch_clean b s;
            Some (b, s) }
          else do {
            s \<leftarrow> release_dirty_batch b s;
            Some (0, s) }
        else Some (b, s) }
      else if rq_priofinity (rq s n) \<noteq> 0 then do {
        b \<leftarrow> Some (rq_pending (rq s n));
        s \<leftarrow> Some (upd_rq n (\<lambda>q. q\<lparr>rq_priofinity := 0\<rparr>) s);
        (new, s) \<leftarrow> allocate_batch s;
        Some (b, upd_rq n (\<lambda>q. q\<lparr>rq_pending := new\<rparr>) s) }
      else Some (0, s))"

section \<open>Mail\<close>

text \<open>
  The queues through which other threads hand over batches and processes, linked through the
  batches' next words and the processes' links. These are the functions without interference of other threads.
\<close>

datatype mailbox = BMAIL | PMAIL

fun mail_of :: "mailbox \<Rightarrow> kern \<Rightarrow> runqueue_t" where
  "mail_of BMAIL s = bmail s"
| "mail_of PMAIL s = pmail s"

fun set_mail :: "mailbox \<Rightarrow> runqueue_t \<Rightarrow> kern \<Rightarrow> kern" where
  "set_mail BMAIL q s = s\<lparr>bmail := q\<rparr>"
| "set_mail PMAIL q s = s\<lparr>pmail := q\<rparr>"

fun mail_link :: "mailbox \<Rightarrow> int" where
  "mail_link BMAIL = B_next"
| "mail_link PMAIL = Link"

definition atomic_enqueue_to_runqueue :: "mailbox \<Rightarrow> WORD \<Rightarrow> kern \<Rightarrow> kern option" where
  "atomic_enqueue_to_runqueue q p s = do {
     s \<leftarrow> st p (mail_link q) 0 s;
     old \<leftarrow> Some (rq_Bptr (mail_of q s));
     s \<leftarrow> Some (set_mail q ((mail_of q s)\<lparr>rq_Bptr := p\<rparr>) s);
     if old = 0 then Some (set_mail q ((mail_of q s)\<lparr>rq_Fptr := p\<rparr>) s)
     else st old (mail_link q) p s }"

definition atomic_dequeue_from_runqueue :: "mailbox \<Rightarrow> kern \<Rightarrow> (WORD \<times> kern) option" where
  "atomic_dequeue_from_runqueue q s =
     (let p = rq_Fptr (mail_of q s) in
      if p \<noteq> 0 then
        if p = rq_Bptr (mail_of q s) then
          Some (p, set_mail q ((mail_of q s)\<lparr>rq_Bptr := 0, rq_Fptr := 0\<rparr>) s)
        else do {
          nxt \<leftarrow> ld p (mail_link q) s;
          if nxt \<noteq> 0 then Some (p, set_mail q ((mail_of q s)\<lparr>rq_Fptr := nxt\<rparr>) s)
          else Some (0, s) }
      else Some (0, s))"

definition ccsp_wake_thread :: "nat \<Rightarrow> kern \<Rightarrow> kern" where
  "ccsp_wake_thread sync_bit s =
     s\<lparr>sleeping_threads := unset_bit (unat (sched_index s)) (sleeping_threads s),
       sync := set_bit sync_bit (sync s)\<rparr>"

text \<open>Mail for no thread that is enabled ends the program.\<close>

definition mail_target :: "WORD \<Rightarrow> kern \<Rightarrow> nat option" where
  "mail_target affinity s =
     (let targets = (if affinity = 0 then enabled_threads s else affinity AND enabled_threads s) in
      if affinity \<noteq> 0 \<and> targets = 0 then None else Some (pick_random_bit targets))"

definition mail_to :: "mailbox \<Rightarrow> nat \<Rightarrow> WORD \<Rightarrow> WORD \<Rightarrow> kern \<Rightarrow> kern option" where
  "mail_to q sync_bit affinity p s = do {
     n \<leftarrow> mail_target affinity s;
     s \<leftarrow> atomic_enqueue_to_runqueue q p s;
     s \<leftarrow> Some (s\<lparr>sync := set_bit sync_bit (sync s)\<rparr>);
     Some (if sleeping_threads s AND sched_id s \<noteq> 0 then ccsp_wake_thread sync_bit s else s) }"

definition mail_batch :: "WORD \<Rightarrow> WORD \<Rightarrow> kern \<Rightarrow> kern option" where
  "mail_batch affinity b s = mail_to BMAIL SYNC_BMAIL_BIT affinity b s"

definition schedule_batch :: "WORD \<Rightarrow> kern \<Rightarrow> kern option" where
  "schedule_batch b s = do {
     p \<leftarrow> ld b B_priofinity s;
     mail_batch (PAffinity p) b s }"

definition mail_process :: "WORD \<Rightarrow> WORD \<Rightarrow> kern \<Rightarrow> kern option" where
  "mail_process affinity Wptr s = mail_to PMAIL SYNC_PMAIL_BIT affinity Wptr s"

section \<open>Making a process ready\<close>

definition enqueue_process_nopri :: "WORD \<Rightarrow> kern \<Rightarrow> kern option" where
  "enqueue_process_nopri Wptr s = enqueue_to_batch (curb s) Wptr s"

definition more_urgent :: "nat \<Rightarrow> kern \<Rightarrow> kern" where
  "more_urgent n s =
     (let s = s\<lparr>rqstate := set_bit n (rqstate s)\<rparr> in
      if n < prio (priofinity s) then s\<lparr>dispatches := 0\<rparr> else s)"

definition enqueue_far_process :: "WORD \<Rightarrow> WORD \<Rightarrow> kern \<Rightarrow> kern option" where
  "enqueue_far_process priof Wptr s =
     (let n = prio priof in
      if \<not> PHasAffinity priof then do {
        s \<leftarrow> (if PHasAffinity (rq_priofinity (rq s n)) then do {
                s \<leftarrow> add_affine_batch_to_runqueue n (rq_pending (rq s n)) s;
                (new, s) \<leftarrow> allocate_batch s;
                Some (upd_rq n (\<lambda>q. q\<lparr>rq_pending := new\<rparr>) s) }
              else Some s);
        s \<leftarrow> Some (upd_rq n (\<lambda>q. q\<lparr>rq_priofinity := BuildPriofinity 0 1\<rparr>) s);
        s \<leftarrow> enqueue_to_batch (rq_pending (rq s n)) Wptr s;
        Some (more_urgent n s) }
      else if PAffinity priof AND sched_id s \<noteq> 0 then do {
        s \<leftarrow> (if rq_priofinity (rq s n) \<noteq> 0 \<and>
                 PAffinity (rq_priofinity (rq s n)) \<noteq> PAffinity priof then do {
                s \<leftarrow> add_to_runqueue (rq_priofinity (rq s n)) n (rq_pending (rq s n)) s;
                (new, s) \<leftarrow> allocate_batch s;
                Some (upd_rq n (\<lambda>q. q\<lparr>rq_pending := new\<rparr>) s) }
              else Some s);
        s \<leftarrow> Some (upd_rq n (\<lambda>q. q\<lparr>rq_priofinity := priof\<rparr>) s);
        s \<leftarrow> enqueue_to_batch (rq_pending (rq s n)) Wptr s;
        Some (more_urgent n s) }
      else mail_process (PAffinity priof) Wptr s)"

definition enqueue_process :: "WORD \<Rightarrow> kern \<Rightarrow> kern option" where
  "enqueue_process Wptr s = do {
     priof \<leftarrow> ld Wptr Priofinity s;
     if priofinity s = priof then enqueue_to_batch (curb s) Wptr s
     else enqueue_far_process priof Wptr s }"

section \<open>The current batch\<close>

definition end_of_curb :: "kern \<Rightarrow> bool option" where
  "end_of_curb s = do {
     f \<leftarrow> ld (curb s) B_Fptr s;
     Some (sint (dispatches s) \<le> 0 \<or> f = NotProcess_p) }"

definition load_curb :: "WORD \<Rightarrow> bool \<Rightarrow> kern \<Rightarrow> kern option" where
  "load_curb b remote s = do {
     f \<leftarrow> ld b B_Fptr s;
     s \<leftarrow> st (curb s) B_Fptr f s;
     back \<leftarrow> ld b B_Bptr s;
     s \<leftarrow> st (curb s) B_Bptr back s;
     n \<leftarrow> ld b B_size s;
     s \<leftarrow> st (curb s) B_size (n AND NOT BATCH_EMPTIED) s;
     n \<leftarrow> ld (curb s) B_size s;
     s \<leftarrow> Some (s\<lparr>dispatches := calculate_dispatches n\<rparr>);
     p \<leftarrow> ld f Priofinity s;
     s \<leftarrow> Some (s\<lparr>priofinity := p\<rparr>);
     if \<not> remote then do {
       s \<leftarrow> reinit_batch_t b s;
       release_clean_batch b s }
     else mark_batch_clean b s }"

definition save_curb :: "kern \<Rightarrow> (WORD \<times> kern) option" where
  "save_curb s = do {
     (b, s) \<leftarrow> allocate_batch s;
     f \<leftarrow> ld (curb s) B_Fptr s;
     s \<leftarrow> st b B_Fptr f s;
     back \<leftarrow> ld (curb s) B_Bptr s;
     s \<leftarrow> st b B_Bptr back s;
     n \<leftarrow> ld (curb s) B_size s;
     s \<leftarrow> st b B_size (n AND NOT BATCH_EMPTIED) s;
     Some (b, s) }"

definition dequeue_from_curb :: "kern \<Rightarrow> (WORD \<times> kern) option" where
  "dequeue_from_curb s = dequeue_from_batch (curb s) s"

text \<open>The default policy: the other process waits, the one that runs goes on.\<close>

definition schedule_point :: "WORD \<Rightarrow> WORD \<Rightarrow> kern \<Rightarrow> (WORD \<times> kern) option" where
  "schedule_point Wptr other s = do {
     s \<leftarrow> enqueue_process_nopri other s;
     Some (Wptr, s) }"

partial_function (option) pick_batch :: "nat \<Rightarrow> kern \<Rightarrow> (WORD \<times> kern) option" where
  "pick_batch n s = do {
     (b, s) \<leftarrow> try_pull_from_runqueue n s;
     if b \<noteq> 0 then Some (b, s)
     else if rq_Fptr (rq s n) = 0 \<and> rq_priofinity (rq s n) = 0 then
       Some (0, s\<lparr>rqstate := unset_bit n (rqstate s), mwstate := unset_bit n (mwstate s)\<rparr>)
     else pick_batch n s }"

definition push_batch :: "WORD \<Rightarrow> WORD \<Rightarrow> kern \<Rightarrow> kern option" where
  "push_batch priof b s =
     (let n = prio priof; q = rq s n in
      if rq_priofinity q \<noteq> 0 then
        (let s = upd_rq n (\<lambda>q. q\<lparr>rq_priofinity := priof OR BuildPriofinity 0 1, rq_pending := b\<rparr>) s in
         add_to_runqueue (rq_priofinity q) n (rq_pending q) s)
      else do {
        s \<leftarrow> release_clean_batch (rq_pending q) s;
        s \<leftarrow> Some (upd_rq n (\<lambda>q. q\<lparr>rq_priofinity := priof OR BuildPriofinity 0 1, rq_pending := b\<rparr>) s);
        Some (s\<lparr>rqstate := set_bit n (rqstate s)\<rparr>) })"

definition new_curb :: "kern \<Rightarrow> kern option" where
  "new_curb s = do {
     s \<leftarrow> Some (s\<lparr>dispatches := BATCH_PPD\<rparr>);
     s \<leftarrow> st (curb s) B_Fptr NotProcess_p s;
     st (curb s) B_size BATCH_EMPTIED s }"

definition push_curb :: "kern \<Rightarrow> kern option" where
  "push_curb s = do {
     n \<leftarrow> ld (curb s) B_size s;
     s \<leftarrow> (if sint (dispatches s) \<le> 0 \<and> (n XOR BATCH_EMPTIED) > BATCH_EMPTIED + 1 then do {
             (b, s) \<leftarrow> allocate_batch s;
             (w, s) \<leftarrow> dequeue_from_curb s;
             s \<leftarrow> enqueue_to_batch_with_hint b w True s;
             push_batch (priofinity s) b s }
           else Some s);
     (b, s) \<leftarrow> save_curb s;
     push_batch (priofinity s) b s }"

definition switch_priofinity :: "WORD \<Rightarrow> kern \<Rightarrow> kern option" where
  "switch_priofinity priof s =
     (if priofinity s \<noteq> priof then do {
        e \<leftarrow> empty_batch (curb s) s;
        s \<leftarrow> (if \<not> e then push_curb s else Some s);
        s \<leftarrow> new_curb s;
        Some (s\<lparr>priofinity := priof\<rparr>) }
      else Some s)"

section \<open>Migration\<close>

partial_function (option) migrate_scan ::
    "nat \<Rightarrow> WORD \<Rightarrow> WORD \<Rightarrow> WORD \<Rightarrow> kern \<Rightarrow> (WORD \<times> WORD \<times> kern) option" where
  "migrate_scan n head bm b s =
     (if bm \<noteq> 0 \<and> b = 0 then
        (let v = bm AND push_bit (unat head) 0xffff;
             w = (if v \<noteq> 0 then bsr v else bsr (bm AND drop_bit (unat (16 - head)) 0xffff));
             s = set_mw n MWINDOW_STATE (unset_bit (w + MWINDOW_BM_OFFSET) (mw s n MWINDOW_STATE)) s;
             b = mw s n w;
             s = set_mw n w 0 s
         in migrate_scan n head (bm AND NOT (push_bit w 1)) b s)
      else Some (bm, b, s))"

definition try_migrate_from_scheduler :: "nat \<Rightarrow> kern \<Rightarrow> (WORD \<times> kern) option" where
  "try_migrate_from_scheduler n s =
     (let state = mw s n MWINDOW_STATE; head = MWINDOW_HEAD state in do {
        (bm, b, s) \<leftarrow> migrate_scan n head (drop_bit MWINDOW_BM_OFFSET state) 0 s;
        Some (b, if bm = 0 \<and> head = mw s n MWINDOW_STATE
                 then s\<lparr>mwstate := unset_bit n (mwstate s)\<rparr> else s) })"

text \<open>With one run time thread the only scheduler to take work from is this one.\<close>

partial_function (option) migrate_loop :: "WORD \<Rightarrow> WORD \<Rightarrow> kern \<Rightarrow> (WORD \<times> kern) option" where
  "migrate_loop active b s =
     (if active \<noteq> 0 \<and> b = 0 then
        if bit active 0 then
          if mwstate s \<noteq> 0 then do {
            (b, s) \<leftarrow> try_migrate_from_scheduler (bsf (mwstate s)) s;
            migrate_loop active b s }
          else migrate_loop (active AND NOT 1) b s
        else migrate_loop active b s
      else Some (b, s))"

definition migrate_some_work :: "kern \<Rightarrow> (WORD \<times> kern) option" where
  "migrate_some_work s = migrate_loop (enabled_threads s AND NOT (sleeping_threads s)) 0 s"

end
