(* ===== verification/Ccsp_Wf.thy ===== *)
theory Ccsp_Wf
  imports Ccsp_Runqueue
begin

text \<open>
  What holds of the scheduler's queues between the operations of the kernel. A ghost state says where
  each batch is, which processes it holds, and in which batch a process is; from this no two
  queues can share a batch and no two batches a process. The abstraction is the current batch and, for each
  priority, the list of the processes that are ready at it, in the order in which they are taken.
\<close>

section \<open>Ghost state\<close>

datatype place = InCurb | Pending nat | Queued nat | Free | Detached | Elsewhere

record ghost =
  own :: "WORD \<Rightarrow> place"
  cont :: "WORD \<Rightarrow> WORD list"
  holder :: "WORD \<Rightarrow> WORD"
  emptied :: bool
  queue :: "nat \<Rightarrow> WORD list"
  frees :: "WORD list"
  limit :: nat

definition flag_of :: "ghost \<Rightarrow> WORD \<Rightarrow> bool" where
  "flag_of g b \<longleftrightarrow> own g b = InCurb \<and> emptied g"

section \<open>The invariant\<close>

text \<open>
  The parts of the invariant (\<open>X\<close> are priorities whose pending batch is being replaced): batches hold their processes; the current batch; the pending batch of each priority,
  whose priofinity is zero exactly when it is empty; the queues; the free list; batches off the
  queues have no window; windows and the states of batches refer to each other; processes
  are where their priority belongs; the masks; the blocks of the allocator, and an empty laundry.
\<close>

definition conts_ok :: "ghost \<Rightarrow> kern \<Rightarrow> bool" where
  "conts_ok g s \<longleftrightarrow> (\<forall>b. own g b \<noteq> Elsewhere \<longrightarrow>
     batch_procs s b (flag_of g b) (cont g b) \<and> (\<forall>p \<in> set (cont g b). holder g p = b \<and> 4 dvd unat p))"

definition curb_ok :: "ghost \<Rightarrow> kern \<Rightarrow> bool" where
  "curb_ok g s \<longleftrightarrow> curb s \<noteq> 0 \<and> (\<forall>b. own g b = InCurb \<longrightarrow> b = curb s) \<and>
     (own g (curb s) = InCurb \<or> own g (curb s) = Elsewhere)"

definition pend_ok :: "nat set \<Rightarrow> ghost \<Rightarrow> kern \<Rightarrow> bool" where
  "pend_ok X g s \<longleftrightarrow> (\<forall>n b. own g b = Pending n \<longleftrightarrow> n < 32 \<and> n \<notin> X \<and> b = rq_pending (rq s n))"

definition queue_ok :: "ghost \<Rightarrow> kern \<Rightarrow> bool" where
  "queue_ok g s \<longleftrightarrow> (\<forall>n b. own g b = Queued n \<longleftrightarrow> n < 32 \<and> b \<in> set (queue g n)) \<and>
     (\<forall>n < 32. chain (\<lambda>b. kmem s b B_next) (rq_Fptr (rq s n)) (queue g n) \<and>
        (queue g n \<noteq> [] \<longrightarrow> rq_Bptr (rq s n) = last (queue g n)) \<and>
        (\<forall>b \<in> set (queue g n). cont g b \<noteq> []))"

definition free_ok :: "ghost \<Rightarrow> kern \<Rightarrow> bool" where
  "free_ok g s \<longleftrightarrow> chain (\<lambda>b. kmem s b B_next) (free_list s) (frees g) \<and>
     (\<forall>b. own g b = Free \<longleftrightarrow> b \<in> set (frees g)) \<and> (\<forall>b \<in> set (frees g). cont g b = [])"

definition off_queue :: "place \<Rightarrow> bool" where
  "off_queue p \<longleftrightarrow> p = Free \<or> p = Detached \<or> (\<exists>n. p = Pending n)"

definition state_ok :: "ghost \<Rightarrow> kern \<Rightarrow> bool" where
  "state_ok g s \<longleftrightarrow> (\<forall>b. off_queue (own g b) \<longrightarrow> kmem s b B_state = 0)"

definition win_ok :: "ghost \<Rightarrow> kern \<Rightarrow> bool" where
  "win_ok g s \<longleftrightarrow> (\<forall>n < 32. MWINDOW_HEAD (mw s n 0) \<le> 15 \<and>
     (\<forall>b \<in> set (queue g n). kmem s b B_state = 0 \<or>
        (\<exists>w. 1 \<le> w \<and> w \<le> 15 \<and> kmem s b B_state = BATCH_DIRTY OR w \<and> mw s n (unat w) = b)) \<and>
     (\<forall>w. 1 \<le> w \<and> w \<le> 15 \<and> mw s n w \<noteq> 0 \<longrightarrow>
        mw s n w \<in> set (queue g n) \<and> kmem s (mw s n w) B_state = BATCH_DIRTY OR of_nat w))"

text \<open>A process may be in a batch at this place.\<close>

definition fits :: "place \<Rightarrow> WORD \<Rightarrow> kern \<Rightarrow> bool" where
  "fits l p s \<longleftrightarrow> (case l of
     InCurb \<Rightarrow> kmem s p Priofinity = priofinity s
   | Pending n \<Rightarrow> prio (kmem s p Priofinity) = n
   | Queued n \<Rightarrow> prio (kmem s p Priofinity) = n
   | _ \<Rightarrow> True)"

definition prio_ok :: "ghost \<Rightarrow> kern \<Rightarrow> bool" where
  "prio_ok g s \<longleftrightarrow> (\<forall>b. \<forall>p \<in> set (cont g b). fits (own g b) p s)"

text \<open>The allocator has new blocks up to a limit.\<close>

definition supply_ok :: "ghost \<Rightarrow> kern \<Rightarrow> bool" where
  "supply_ok g s \<longleftrightarrow> laundry s = 0 \<and> inj_on (blocks s) {allocs s..<limit g} \<and>
     (\<forall>i \<in> {allocs s..<limit g}. blocks s i \<noteq> 0 \<and> blocks s i \<noteq> curb s \<and> own g (blocks s i) = Elsewhere)"

definition core :: "nat set \<Rightarrow> ghost \<Rightarrow> kern \<Rightarrow> bool" where
  "core X g s \<longleftrightarrow> conts_ok g s \<and> curb_ok g s \<and> pend_ok X g s \<and> queue_ok g s \<and> free_ok g s \<and>
     state_ok g s \<and> win_ok g s \<and> prio_ok g s \<and> supply_ok g s"

text \<open>
  The masks, and what the priofinity of a queue says of its pending batch. All processes of a batch
  have the same priority and affinity: \<open>load_curb\<close> takes those of the first for all.
\<close>

definition mark_ok :: "ghost \<Rightarrow> kern \<Rightarrow> nat \<Rightarrow> bool" where
  "mark_ok g s n \<longleftrightarrow> (rq_priofinity (rq s n) = 0 \<longleftrightarrow> cont g (rq_pending (rq s n)) = []) \<and>
     (\<forall>p \<in> set (cont g (rq_pending (rq s n))).
        PAffinity (kmem s p Priofinity) = PAffinity (rq_priofinity (rq s n))) \<and>
     (queue g n \<noteq> [] \<or> cont g (rq_pending (rq s n)) \<noteq> [] \<longrightarrow> bit (rqstate s) n)"

definition marks_ok :: "ghost \<Rightarrow> kern \<Rightarrow> bool" where
  "marks_ok g s \<longleftrightarrow> (\<forall>n < 32. mark_ok g s n) \<and> (\<forall>n. bit (mwstate s) n \<longrightarrow> bit (rqstate s) n)"

definition uniform :: "ghost \<Rightarrow> kern \<Rightarrow> bool" where
  "uniform g s \<longleftrightarrow> (\<forall>b. own g b \<noteq> Elsewhere \<longrightarrow>
     (\<forall>p \<in> set (cont g b). \<forall>q \<in> set (cont g b). kmem s p Priofinity = kmem s q Priofinity))"

text \<open>Between the steps of the scheduler the current batch may be out of use, as its contents have been saved.\<close>

definition steady :: "ghost \<Rightarrow> kern \<Rightarrow> bool" where
  "steady g s \<longleftrightarrow> core {} g s \<and> uniform g s \<and> marks_ok g s"

definition kwf :: "ghost \<Rightarrow> kern \<Rightarrow> bool" where
  "kwf g s \<longleftrightarrow> steady g s \<and> own g (curb s) = InCurb"

lemmas core_parts = conts_ok_def curb_ok_def pend_ok_def queue_ok_def free_ok_def state_ok_def
  win_ok_def prio_ok_def supply_ok_def

lemma coreI:
  "conts_ok g s \<Longrightarrow> curb_ok g s \<Longrightarrow> pend_ok X g s \<Longrightarrow> queue_ok g s \<Longrightarrow> free_ok g s \<Longrightarrow> state_ok g s \<Longrightarrow>
     win_ok g s \<Longrightarrow> prio_ok g s \<Longrightarrow> supply_ok g s \<Longrightarrow> core X g s"
  by (simp add: core_def)

lemma coreD:
  assumes "core X g s"
  shows "conts_ok g s" "curb_ok g s" "pend_ok X g s" "queue_ok g s" "free_ok g s" "state_ok g s"
    "win_ok g s" "prio_ok g s" "supply_ok g s"
  using assms by (simp_all add: core_def)

section \<open>The abstraction\<close>

text \<open>The processes ready at a priority, first the queued batches, then the pending one.\<close>

definition runnable :: "ghost \<Rightarrow> kern \<Rightarrow> nat \<Rightarrow> WORD list" where
  "runnable g s n = concat (map (cont g) (queue g n)) @ cont g (rq_pending (rq s n))"

definition current :: "ghost \<Rightarrow> kern \<Rightarrow> WORD list" where
  "current g s = (if own g (curb s) = InCurb then cont g (curb s) else [])"

section \<open>Consequences\<close>

lemma core_batch: "core X g s \<Longrightarrow> own g b \<noteq> Elsewhere \<Longrightarrow> batch_procs s b (flag_of g b) (cont g b)"
  by (simp add: core_def conts_ok_def)

lemma core_batch_off: "core X g s \<Longrightarrow> own g b \<noteq> Elsewhere \<Longrightarrow> own g b \<noteq> InCurb \<Longrightarrow> batch_procs s b False (cont g b)"
  using core_batch [of X g s b] by (simp add: flag_of_def)

lemma core_nz: "core X g s \<Longrightarrow> own g b \<noteq> Elsewhere \<Longrightarrow> b \<noteq> 0"
  by (auto dest: core_batch batch_procs_nz)

lemma core_pending: "core X g s \<Longrightarrow> n < 32 \<Longrightarrow> n \<notin> X \<Longrightarrow> own g (rq_pending (rq s n)) = Pending n"
  by (simp add: core_def pend_ok_def)

lemma core_held: "core X g s \<Longrightarrow> own g b \<noteq> Elsewhere \<Longrightarrow> p \<in> set (cont g b) \<Longrightarrow> holder g p = b"
  by (simp add: core_def conts_ok_def)

lemma core_aligned: "core X g s \<Longrightarrow> own g b \<noteq> Elsewhere \<Longrightarrow> p \<in> set (cont g b) \<Longrightarrow> 4 dvd unat p \<and> p \<noteq> 0"
  using core_batch [of X g s b] batch_procs_ok [of s b "flag_of g b" "cont g b"]
  by (auto simp: core_def conts_ok_def procs_ok_def)

text \<open>There are fewer than $2^{30}$ workspaces, because workspaces are aligned to words.\<close>

lemma aligned_length:
  fixes ps :: "WORD list"
  assumes "distinct ps" "\<forall>p \<in> set ps. 4 dvd unat p \<and> p \<noteq> 0"
  shows "length ps < 2 ^ 30"
proof -
  let ?f = "\<lambda>p :: WORD. unat p div 4"
  have "inj_on ?f (set ps)"
  proof (rule inj_onI)
    fix p q assume "p \<in> set ps" "q \<in> set ps" "unat p div 4 = unat q div 4"
    with assms(2) have "unat p = unat q" by (metis dvd_div_eq_iff)
    then show "p = q" by (simp add: word_unat_eq_iff)
  qed
  moreover have "?f ` set ps \<subseteq> {0 <..< 2 ^ 30}"
  proof
    fix k assume "k \<in> ?f ` set ps"
    then obtain p where p: "p \<in> set ps" "k = unat p div 4" by auto
    have "unat p < 2 ^ 32" using unsigned_less [of p, where 'a = nat] by simp
    moreover have "4 dvd unat p" "0 < unat p"
      using assms(2) p(1) by (auto simp: unat_gt_0)
    then have "0 < unat p div 4" by (auto elim: dvdE)
    ultimately show "k \<in> {0 <..< 2 ^ 30}" using p(2) by simp
  qed
  ultimately have "card (set ps) \<le> card {0 :: nat <..< 2 ^ 30}"
    by (metis card_image card_mono finite_greaterThanLessThan)
  with assms(1) show ?thesis by (simp add: distinct_card)
qed

lemma core_room:
  assumes "core X g s" "own g b \<noteq> Elsewhere" "w \<noteq> 0" "4 dvd unat w" "w \<notin> set (cont g b)"
  shows "procs_ok (cont g b @ [w])" "procs_ok (w # cont g b)"
proof -
  have ok: "procs_ok (cont g b)" using core_batch [OF assms(1,2)] by (rule batch_procs_ok)
  have "length (cont g b @ [w]) < 2 ^ 30"
    using ok assms core_aligned [OF assms(1,2)] by (intro aligned_length) (auto simp: procs_ok_def)
  with ok assms show "procs_ok (cont g b @ [w])" "procs_ok (w # cont g b)"
    by (auto simp: procs_ok_def)
qed


section \<open>Changes to the links of processes\<close>

text \<open>Operations on the processes of a batch write its first three words and links of processes.\<close>

definition list_words :: "int set" where
  "list_words = {B_Fptr, B_Bptr, B_size, Link}"

lemma changes_words:
  assumes "changes A s s'" "A \<subseteq> UNIV \<times> list_words"
  shows "kmem s' p B_next = kmem s p B_next" "kmem s' p B_state = kmem s p B_state"
    "kmem s' p Priofinity = kmem s p Priofinity"
  using assms by (auto intro!: changes_kmem simp: list_words_def)

lemma changes_fields:
  assumes "changes A s s'"
  shows "curb s' = curb s" "rq s' = rq s" "free_list s' = free_list s" "laundry s' = laundry s"
    "mw s' = mw s" "blocks s' = blocks s" "allocs s' = allocs s" "priofinity s' = priofinity s"
    "rqstate s' = rqstate s" "mwstate s' = mwstate s" "dispatches s' = dispatches s"
    "sched_id s' = sched_id s" "sync s' = sync s"
  by (subst changes_rest [OF assms], simp)+

lemma fits_same:
  "kmem s' p Priofinity = kmem s p Priofinity \<Longrightarrow> priofinity s' = priofinity s \<Longrightarrow> fits l p s' = fits l p s"
  by (cases l) (simp_all add: fits_def)

text \<open>When batch \<open>b\<close> gets the processes \<open>ps\<close> and all else that matters is left alone.\<close>

definition set_cont :: "WORD \<Rightarrow> WORD list \<Rightarrow> ghost \<Rightarrow> ghost" where
  "set_cont b ps g = g\<lparr>cont := (cont g)(b := ps),
     holder := (\<lambda>p. if p \<in> set ps then b else if p \<in> set (cont g b) then 0 else holder g p)\<rparr>"

lemma set_cont_simps [simp]:
  "own (set_cont b ps g) = own g" "queue (set_cont b ps g) = queue g" "frees (set_cont b ps g) = frees g"
  "emptied (set_cont b ps g) = emptied g" "limit (set_cont b ps g) = limit g" "cont (set_cont b ps g) c = (if c = b then ps else cont g c)"
  by (simp_all add: set_cont_def)

text \<open>A process that no batch of the kernel holds.\<close>

definition unqueued :: "ghost \<Rightarrow> WORD \<Rightarrow> bool" where
  "unqueued g w \<longleftrightarrow> w \<noteq> 0 \<and> 4 dvd unat w \<and> (\<forall>b. own g b \<noteq> Elsewhere \<longrightarrow> w \<notin> set (cont g b))"

lemma core_set_cont:
  assumes core: "core X g s" and ch: "changes A s s'"
    and A: "A \<subseteq> {(b, B_Fptr), (b, B_Bptr), (b, B_size)} \<union> {(p, Link) | p. p \<in> set (cont g b) \<union> set ps}"
    and b: "own g b \<noteq> Elsewhere" "own g b \<noteq> Free"
    and bp: "batch_procs s' b (flag_of (g\<lparr>emptied := e\<rparr>) b) ps"
    and e: "own g b = InCurb \<or> e = emptied g"
    and ps: "\<forall>p \<in> set ps. (p \<in> set (cont g b) \<or> unqueued g p) \<and> fits (own g b) p s"
    and q: "\<forall>n. own g b = Queued n \<longrightarrow> ps \<noteq> []"
  shows "core X (set_cont b ps (g\<lparr>emptied := e\<rparr>)) s'"
proof -
  note D = coreD [OF core]
  note F = changes_fields [OF ch]
  have "A \<subseteq> UNIV \<times> list_words" using A by (auto simp: list_words_def)
  note W = changes_words [OF ch this]
  let ?g = "set_cont b ps (g\<lparr>emptied := e\<rparr>)"
  have other: "set (cont g c) \<inter> (set (cont g b) \<union> set ps) = {}" if c: "own g c \<noteq> Elsewhere" "c \<noteq> b" for c
    using ps core_held [OF core c(1)] core_held [OF core b(1)] c unfolding unqueued_def by blast
  have "conts_ok ?g s'"
    unfolding conts_ok_def
  proof (intro allI impI conjI)
    fix c assume c: "own ?g c \<noteq> Elsewhere"
    show "batch_procs s' c (flag_of ?g c) (cont ?g c)"
    proof (cases "c = b")
      case True with bp show ?thesis by (simp add: flag_of_def)
    next
      case False
      have "flag_of ?g c = flag_of g c"
        using e False D(2) by (cases "own g c = InCurb") (auto simp: flag_of_def curb_ok_def)
      moreover have "batch_procs s' c (flag_of g c) (cont g c)"
        using c False other [of c] A
        by (intro batch_procs_frame [OF core_batch [OF core] ch]) auto
      ultimately show ?thesis using False by simp
    qed
    show "\<forall>p \<in> set (cont ?g c). holder ?g p = c \<and> 4 dvd unat p"
    proof
      fix p assume p: "p \<in> set (cont ?g c)"
      show "holder ?g p = c \<and> 4 dvd unat p"
      proof (cases "c = b")
        case True with p ps core_aligned [OF core b(1)] show ?thesis by (auto simp: set_cont_def unqueued_def)
      next
        case False
        with p c have "p \<in> set (cont g c)" "own g c \<noteq> Elsewhere" by simp_all
        with other [of c] False core_held [OF core] core_aligned [OF core] show ?thesis
          by (auto simp: set_cont_def)
      qed
    qed
  qed
  moreover have "queue_ok ?g s'"
    using D(4) q by (auto simp: queue_ok_def F W)
  moreover have "free_ok ?g s'"
    using D(5) b(2) by (auto simp: free_ok_def F W)
  moreover have "prio_ok ?g s'"
    using D(8) ps by (auto simp: prio_ok_def fits_same [OF W(3) F(8)])
  moreover have "curb_ok ?g s'" "pend_ok X ?g s'" "state_ok ?g s'" "win_ok ?g s'" "supply_ok ?g s'"
    using D by (auto simp: curb_ok_def pend_ok_def state_ok_def win_ok_def supply_ok_def F W)
  ultimately show ?thesis by (intro coreI)
qed

lemma enqueue_to_batch_core:
  assumes core: "core X g s" and b: "own g b \<noteq> Elsewhere" "own g b \<noteq> Free"
    and w: "unqueued g w" "fits (own g b) w s"
  shows "\<exists>s' A. enqueue_to_batch b w s = Some s' \<and> core X (set_cont b (cont g b @ [w]) g) s' \<and>
    changes A s s' \<and> A \<subseteq> UNIV \<times> list_words \<and> A \<subseteq> {b} \<times> UNIV \<union> UNIV \<times> {Link} \<and>
    (\<forall>p. (p, Link) \<in> A \<longrightarrow> p \<in> set (cont g b @ [w]))"
proof -
  have "procs_ok (cont g b @ [w])"
    using w b(1) by (intro core_room [OF core]) (auto simp: unqueued_def)
  from enqueue_to_batch_appends [OF core_batch [OF core b(1)] this]
  obtain s' where s': "enqueue_to_batch b w s = Some s'" "batch_procs s' b (flag_of g b) (cont g b @ [w])"
    "changes ({(b, B_Fptr), (b, B_Bptr), (b, B_size)} \<union> {(p, Link) | p. p \<in> set (cont g b @ [w])}) s s'"
    (is "changes ?A s s'")
    by blast
  have "\<forall>p \<in> set (cont g b). fits (own g b) p s"
    using coreD(8) [OF core] by (simp add: prio_ok_def)
  then have "core X (set_cont b (cont g b @ [w]) (g\<lparr>emptied := emptied g\<rparr>)) s'"
    using s' w by (intro core_set_cont [OF core s'(3) _ b]) auto
  moreover have "?A \<subseteq> UNIV \<times> list_words" "?A \<subseteq> {b} \<times> UNIV \<union> UNIV \<times> {Link}"
    "\<forall>p. (p, Link) \<in> ?A \<longrightarrow> p \<in> set (cont g b @ [w])" by (auto simp: list_words_def)
  ultimately show ?thesis using s'(1,3) by (intro exI [of _ s'] exI [of _ ?A]) simp
qed

end
