(* ===== verification/Ccsp_Queue_Laws.thy ===== *)
theory Ccsp_Queue_Laws
  imports Ccsp_Wf
begin

text \<open>
  What the operations of the run queues do to the invariant: batches are taken from the free list and given
  back, leave and join the queues, with or without a window.
\<close>

section \<open>Other ghost states of the same batches\<close>

text \<open>A batch moves to another place; its processes, and all other batches, stay.\<close>

definition move :: "WORD \<Rightarrow> place \<Rightarrow> ghost \<Rightarrow> ghost" where
  "move b l g = g\<lparr>own := (own g)(b := l)\<rparr>"

definition set_queue :: "nat \<Rightarrow> WORD list \<Rightarrow> ghost \<Rightarrow> ghost" where
  "set_queue n bs g = g\<lparr>queue := (queue g)(n := bs)\<rparr>"

lemma move_simps [simp]:
  "own (move b l g) = (own g)(b := l)" "cont (move b l g) = cont g" "holder (move b l g) = holder g"
  "queue (move b l g) = queue g" "frees (move b l g) = frees g" "emptied (move b l g) = emptied g"
  "limit (move b l g) = limit g"
  by (simp_all add: move_def)

lemma set_queue_simps [simp]:
  "own (set_queue n bs g) = own g" "cont (set_queue n bs g) = cont g" "holder (set_queue n bs g) = holder g"
  "queue (set_queue n bs g) = (queue g)(n := bs)" "frees (set_queue n bs g) = frees g"
  "emptied (set_queue n bs g) = emptied g" "limit (set_queue n bs g) = limit g"
  by (simp_all add: set_queue_def)

lemma flag_of_off: "own g b \<noteq> InCurb \<Longrightarrow> flag_of g b = False"
  by (simp add: flag_of_def)

lemma conts_move:
  assumes "conts_ok g s" "own g b \<noteq> Elsewhere" "own g b \<noteq> InCurb" "l \<noteq> InCurb"
  shows "conts_ok (move b l g) s"
proof -
  have "batch_procs s b False (cont g b)" "\<forall>p \<in> set (cont g b). holder g p = b \<and> 4 dvd unat p"
    using assms by (auto simp: conts_ok_def flag_of_def)
  with assms show ?thesis by (simp add: conts_ok_def flag_of_def)
qed

lemma conts_set_queue [simp]: "conts_ok (set_queue n bs g) s = conts_ok g s"
  by (simp add: conts_ok_def flag_of_def)

lemma conts_same:
  assumes "conts_ok g s" "\<And>p k. k \<in> list_words \<Longrightarrow> kmem s' p k = kmem s p k"
  shows "conts_ok g s'"
  using assms by (simp add: conts_ok_def batch_procs_def list_words_def)

lemma core_apart:
  assumes "core X g s"
  shows "n < 32 \<Longrightarrow> own g b \<noteq> Queued n \<Longrightarrow> b \<notin> set (queue g n)"
    and "own g b \<noteq> Free \<Longrightarrow> b \<notin> set (frees g)"
    and "own g b \<noteq> InCurb \<Longrightarrow> own g b \<noteq> Elsewhere \<Longrightarrow> b \<noteq> curb s"
  using coreD [OF assms] by (auto simp: queue_ok_def free_ok_def curb_ok_def)

lemma fits_simps [simp]:
  "fits InCurb p s \<longleftrightarrow> kmem s p Priofinity = priofinity s"
  "fits (Pending n) p s \<longleftrightarrow> prio (kmem s p Priofinity) = n"
  "fits (Queued n) p s \<longleftrightarrow> prio (kmem s p Priofinity) = n"
  "fits Free p s" "fits Detached p s" "fits Elsewhere p s"
  by (simp_all add: fits_def)

text \<open>Moves between places that are no queue.\<close>

definition unlinked :: "place \<Rightarrow> bool" where
  "unlinked l \<longleftrightarrow> l \<noteq> InCurb \<and> l \<noteq> Free \<and> l \<noteq> Elsewhere \<and> (\<forall>n. l \<noteq> Queued n)"

lemma plain_simps [simp]:
  "unlinked (Pending n)" "unlinked Detached" "\<not> unlinked Elsewhere" "\<not> unlinked InCurb" "\<not> unlinked Free" "\<not> unlinked (Queued n)"
  by (simp_all add: unlinked_def)

lemma plain_move:
  assumes core: "core X g s" and b: "unlinked (own g b)" "unlinked l"
  shows "curb_ok (move b l g) s" "queue_ok (move b l g) s" "free_ok (move b l g) s" "win_ok (move b l g) s"
proof -
  note D = coreD [OF core]
  show "curb_ok (move b l g) s"
    using D(2) b by (auto simp: curb_ok_def unlinked_def)
  show "free_ok (move b l g) s"
    using D(5) b core_apart(2) [OF core, of b] by (simp add: free_ok_def unlinked_def)
  show "queue_ok (move b l g) s"
    using D(4) b core_apart(1) [OF core, of _ b] by (simp add: queue_ok_def unlinked_def)
  show "win_ok (move b l g) s"
    using D(7) by (simp add: win_ok_def)
qed

lemma prio_move:
  "prio_ok g s \<Longrightarrow> \<forall>p \<in> set (cont g b). fits l p s \<Longrightarrow> prio_ok (move b l g) s"
  by (simp add: prio_ok_def)

lemma state_move: "state_ok g s \<Longrightarrow> off_queue l \<Longrightarrow> off_queue (own g b) \<Longrightarrow> state_ok (move b l g) s"
  by (simp add: state_ok_def)

lemma off_queue_simps [simp]:
  "off_queue Free" "off_queue Detached" "off_queue (Pending n)" "\<not> off_queue (Queued n)"
  "\<not> off_queue InCurb" "\<not> off_queue Elsewhere"
  by (simp_all add: off_queue_def)

lemma supply_move: "supply_ok g s \<Longrightarrow> own g b \<noteq> Elsewhere \<Longrightarrow> supply_ok (move b l g) s"
  by (auto simp: supply_ok_def)

section \<open>The pending batch\<close>

lemma detach_pending:
  assumes core: "core X g s" and n: "n < 32" "n \<notin> X"
  shows "core (insert n X) (move (rq_pending (rq s n)) Detached g) s"
proof -
  note D = coreD [OF core]
  have b: "own g (rq_pending (rq s n)) = Pending n" using n by (rule core_pending [OF core])
  have "pend_ok (insert n X) (move (rq_pending (rq s n)) Detached g) s"
    using D(3) b n core_pending [OF core] unfolding pend_ok_def by (auto, metis place.inject(1))
  with b D show ?thesis
    by (intro coreI conts_move plain_move [OF core] state_move prio_move supply_move) auto
qed

text \<open>Parts of the invariant that do not look at the pointers of the pending batches.\<close>

lemma upd_rq_simps [simp]:
  "kmem (upd_rq n f s) = kmem s" "curb (upd_rq n f s) = curb s" "free_list (upd_rq n f s) = free_list s"
  "mw (upd_rq n f s) = mw s" "laundry (upd_rq n f s) = laundry s" "blocks (upd_rq n f s) = blocks s"
  "allocs (upd_rq n f s) = allocs s" "priofinity (upd_rq n f s) = priofinity s"
  "rq (upd_rq n f s) = (rq s)(n := f (rq s n))" "rqstate (upd_rq n f s) = rqstate s"
  "mwstate (upd_rq n f s) = mwstate s" "dispatches (upd_rq n f s) = dispatches s"
  "sched_id (upd_rq n f s) = sched_id s" "sync (upd_rq n f s) = sync s"
  "enabled_threads (upd_rq n f s) = enabled_threads s"
  by (simp_all add: upd_rq_def)

lemma upd_rq_parts:
  "conts_ok g (upd_rq n f s) = conts_ok g s" "curb_ok g (upd_rq n f s) = curb_ok g s"
  "free_ok g (upd_rq n f s) = free_ok g s" "state_ok g (upd_rq n f s) = state_ok g s"
  "win_ok g (upd_rq n f s) = win_ok g s" "prio_ok g (upd_rq n f s) = prio_ok g s"
  "supply_ok g (upd_rq n f s) = supply_ok g s"
  by (simp_all add: core_parts batch_procs_def fits_same [of "upd_rq n f s" _ s])

lemma attach_pending:
  assumes core: "core X g s" and n: "n < 32" "n \<in> X" and b: "own g b = Detached"
    and p: "\<forall>p \<in> set (cont g b). prio (kmem s p Priofinity) = n"
  shows "core (X - {n}) (move b (Pending n) g) (upd_rq n (\<lambda>q. q\<lparr>rq_priofinity := v, rq_pending := b\<rparr>) s)"
proof -
  note D = coreD [OF core]
  let ?g = "move b (Pending n) g" and ?f = "\<lambda>q. q\<lparr>rq_priofinity := v, rq_pending := b\<rparr>"
  have "pend_ok (X - {n}) ?g (upd_rq n ?f s)"
    using D(3) b n core_pending [OF core] unfolding pend_ok_def by (auto, metis place.distinct)
  moreover have "queue_ok ?g s" using b by (intro plain_move [OF core]) auto
  then have "queue_ok ?g (upd_rq n ?f s)" by (simp add: queue_ok_def)
  moreover have "conts_ok ?g s" "curb_ok ?g s" "free_ok ?g s" "state_ok ?g s" "win_ok ?g s" "prio_ok ?g s"
      "supply_ok ?g s"
    using b D p by (intro conts_move plain_move [OF core] state_move prio_move supply_move; simp)+
  ultimately show ?thesis by (intro coreI) (simp_all add: upd_rq_parts)
qed

section \<open>Free batches\<close>

text \<open>
  Only batches' links, the free list and the allocator change: no queue, and no word of a workspace
  that is below its pointer.
\<close>

definition rest :: "kern \<Rightarrow> kern" where
  "rest s = s\<lparr>kmem := (\<lambda>_ _. 0), free_list := 0, allocs := 0\<rparr>"

definition frees_only :: "kern \<Rightarrow> kern \<Rightarrow> bool" where
  "frees_only s s' \<longleftrightarrow> rest s' = rest s \<and> (\<forall>p k. k < 0 \<longrightarrow> kmem s' p k = kmem s p k)"

lemma frees_only_refl [simp]: "frees_only s s"
  by (simp add: frees_only_def)

lemma frees_only_trans: "frees_only s s' \<Longrightarrow> frees_only s' s'' \<Longrightarrow> frees_only s s''"
  by (simp add: frees_only_def)

lemma rest_simps:
  "curb (rest s) = curb s" "rq (rest s) = rq s" "mw (rest s) = mw s" "priofinity (rest s) = priofinity s"
  "rqstate (rest s) = rqstate s" "mwstate (rest s) = mwstate s" "dispatches (rest s) = dispatches s"
  "sched_id (rest s) = sched_id s" "sync (rest s) = sync s" "enabled_threads (rest s) = enabled_threads s"
  by (simp_all add: rest_def)

lemma frees_only_simps:
  assumes "frees_only s s'"
  shows "curb s' = curb s" "rq s' = rq s" "mw s' = mw s" "priofinity s' = priofinity s"
    "rqstate s' = rqstate s" "mwstate s' = mwstate s" "dispatches s' = dispatches s" "sched_id s' = sched_id s"
    "sync s' = sync s" "enabled_threads s' = enabled_threads s" "kmem s' p Priofinity = kmem s p Priofinity"
proof -
  have "rest s' = rest s" using assms by (simp add: frees_only_def)
  then show "curb s' = curb s" "rq s' = rq s" "mw s' = mw s" "priofinity s' = priofinity s"
    "rqstate s' = rqstate s" "mwstate s' = mwstate s" "dispatches s' = dispatches s" "sched_id s' = sched_id s"
    "sync s' = sync s" "enabled_threads s' = enabled_threads s"
    by (metis rest_simps)+
  show "kmem s' p Priofinity = kmem s p Priofinity" using assms by (simp add: frees_only_def)
qed

text \<open>Batches in use stay where they are, and so do their processes.\<close>

definition in_use :: "place \<Rightarrow> bool" where
  "in_use l \<longleftrightarrow> l \<noteq> Free \<and> l \<noteq> Elsewhere"

definition keeps :: "ghost \<Rightarrow> ghost \<Rightarrow> bool" where
  "keeps g g' \<longleftrightarrow> queue g' = queue g \<and> emptied g' = emptied g \<and> limit g' = limit g \<and>
     (\<forall>b. in_use (own g b) \<longrightarrow> own g' b = own g b \<and> cont g' b = cont g b) \<and>
     (\<forall>b. own g b \<noteq> Elsewhere \<longrightarrow> own g' b \<noteq> Elsewhere) \<and> (\<forall>b. own g b \<noteq> InCurb \<longrightarrow> own g' b \<noteq> InCurb) \<and>
     (\<forall>b. \<not> in_use (own g b) \<longrightarrow> own g' b \<noteq> Elsewhere \<longrightarrow> cont g' b = [])"

lemma keepsD:
  assumes "keeps g g'"
  shows "queue g' = queue g" "emptied g' = emptied g"
    "in_use (own g b) \<Longrightarrow> own g' b = own g b \<and> cont g' b = cont g b"
    "own g b \<noteq> Elsewhere \<Longrightarrow> own g' b \<noteq> Elsewhere"
    "\<not> in_use (own g b) \<Longrightarrow> own g' b \<noteq> Elsewhere \<Longrightarrow> cont g' b = []"
    "own g b \<noteq> InCurb \<Longrightarrow> own g' b \<noteq> InCurb" "limit g' = limit g"
  using assms by (simp_all add: keeps_def)

lemma keeps_refl: "free_ok g s \<Longrightarrow> keeps g g"
  by (auto simp: keeps_def in_use_def free_ok_def)

lemma keeps_idle: "keeps g g' \<Longrightarrow> unqueued g w \<Longrightarrow> unqueued g' w"
  unfolding keeps_def unqueued_def in_use_def by (metis empty_iff list.set(1))

lemma release_clean_batch_core:
  assumes core: "core X g s" and b: "own g b = Detached" "cont g b = []"
  shows "\<exists>s'. release_clean_batch b s = Some s' \<and> frees_only s s' \<and>
    core X (move b Free g\<lparr>frees := b # frees g\<rparr>) s'"
proof -
  note D = coreD [OF core]
  have nz: "b \<noteq> 0" using core_nz [OF core] b by simp
  let ?s = "put b B_next (free_list s) s\<lparr>free_list := b\<rparr>" and ?g = "move b Free g\<lparr>frees := b # frees g\<rparr>"
  have run: "release_clean_batch b s = Some ?s" using nz by (simp add: release_clean_batch_def)
  have nf: "b \<notin> set (frees g)" "b \<noteq> curb s" using core_apart(2,3) [OF core, of b] b by simp_all
  have np: "\<forall>n. n < 32 \<longrightarrow> n \<notin> X \<longrightarrow> b \<noteq> rq_pending (rq s n)"
    using core_pending [OF core] b by auto
  have nq: "b \<notin> set (queue g n)" if "n < 32" for n using core_apart(1) [OF core that, of b] b by simp
  have "curb_ok ?g ?s" using D(2) nf(2) by (simp add: curb_ok_def)
  moreover have "conts_ok (move b Free g) s" using b by (intro conts_move D) auto
  then have "conts_ok ?g ?s"
    by (auto simp: conts_ok_def batch_procs_def flag_of_def)
  moreover have "free_ok ?g ?s"
    using D(5) b nf nz by (auto simp: free_ok_def intro: chain_cong)
  moreover have "queue_ok ?g ?s"
    using D(4) b nq by (auto simp: queue_ok_def intro: chain_cong)
  moreover have "pend_ok X ?g ?s" "state_ok ?g ?s" "win_ok ?g ?s" "supply_ok ?g ?s"
    using D(3,6,7,9) b nf np by (auto simp: pend_ok_def state_ok_def win_ok_def supply_ok_def)
  moreover have "prio_ok ?g ?s"
    using D(8) b by (auto simp: prio_ok_def fits_same [of ?s _ s])
  ultimately have "core X ?g ?s" by (intro coreI)
  moreover have "frees_only s ?s"
    by (auto simp: frees_only_def rest_def put_def)
  ultimately show ?thesis using run by blast
qed

lemma new_batch_run:
  assumes "blocks s (allocs s) = b" "b \<noteq> 0"
  obtains m where "allocate_to_free_list (Suc 0) s =
      Some (s\<lparr>kmem := m, free_list := b, allocs := Suc (allocs s)\<rparr>)"
    "m b B_Fptr = 0" "m b B_size = 0" "m b B_next = free_list s" "m b B_state = 0"
    "\<And>p k. p \<noteq> b \<Longrightarrow> m p k = kmem s p k" "\<And>p k. k < 0 \<Longrightarrow> m p k = kmem s p k"
proof -
  let ?s = "put b B_next (free_list s) (put b B_priofinity 0 (put b B_state 0 (put b B_next 0 (put b B_size 0
    (put b B_Bptr 0 (put b B_Fptr 0 (s\<lparr>allocs := Suc (allocs s)\<rparr>)))))))"
  have "allocate_to_free_list (Suc 0) s = Some (?s\<lparr>free_list := b\<rparr>)"
    using assms by (simp add: dmem_thread_alloc_def init_batch_t_def release_clean_batch_def)
  also have "?s\<lparr>free_list := b\<rparr> = s\<lparr>kmem := kmem ?s, free_list := b, allocs := Suc (allocs s)\<rparr>"
    by (simp add: put_def)
  finally show thesis by (rule that) auto
qed

text \<open>There are so many free batches, or the allocator can provide 16.\<close>

definition room :: "nat \<Rightarrow> ghost \<Rightarrow> kern \<Rightarrow> bool" where
  "room k g s \<longleftrightarrow> k \<le> length (frees g) \<or> k \<le> 16 \<and> allocs s + 16 \<le> limit g"

lemma room_less: "room k g s \<Longrightarrow> j \<le> k \<Longrightarrow> room j g s"
  by (auto simp: room_def)

lemma room_same:
  "room k g s \<Longrightarrow> length (frees g) \<le> length (frees g') \<Longrightarrow> limit g' = limit g \<Longrightarrow> allocs s' = allocs s \<Longrightarrow> room k g' s'"
  by (auto simp: room_def)

text \<open>
  An object that is not the kernel's: a workspace, a channel, a semaphore. It stays one, and its words but for the
  links of workspaces stay the same.
\<close>

definition foreign :: "ghost \<Rightarrow> kern \<Rightarrow> WORD \<Rightarrow> bool" where
  "foreign g s c \<longleftrightarrow> own g c = Elsewhere \<and> c \<noteq> curb s \<and> (\<forall>i \<in> {allocs s..<limit g}. blocks s i \<noteq> c)"

definition stays :: "ghost \<Rightarrow> kern \<Rightarrow> ghost \<Rightarrow> kern \<Rightarrow> bool" where
  "stays g s g' s' \<longleftrightarrow> (\<forall>c. foreign g s c \<longrightarrow> foreign g' s' c \<and> (\<forall>k. k \<ge> 0 \<longrightarrow> kmem s' c k = kmem s c k))"

lemma staysD: "stays g s g' s' \<Longrightarrow> foreign g s c \<Longrightarrow> foreign g' s' c" "stays g s g' s' \<Longrightarrow> foreign g s c \<Longrightarrow> k \<ge> 0 \<Longrightarrow> kmem s' c k = kmem s c k"
  by (simp_all add: stays_def)

lemma stays_refl [simp]: "stays g s g s"
  by (simp add: stays_def)

lemma stays_trans: "stays g s g' s' \<Longrightarrow> stays g' s' g'' s'' \<Longrightarrow> stays g s g'' s''"
  by (simp add: stays_def)

lemma staysI:
  assumes "\<And>c. own g c = Elsewhere \<Longrightarrow> own g' c = Elsewhere" "curb s' = curb s" "allocs s' = allocs s" "blocks s' = blocks s"
    "limit g' = limit g" "\<And>c k. foreign g s c \<Longrightarrow> k \<ge> 0 \<Longrightarrow> kmem s' c k = kmem s c k"
  shows "stays g s g' s'"
  using assms by (simp add: stays_def foreign_def)

lemma stays_changes:
  assumes "changes A s s'" "A \<subseteq> {b} \<times> UNIV \<union> UNIV \<times> {Link}" "own g b \<noteq> Elsewhere"
  shows "stays g s (set_cont b ps g) s'"
proof (rule staysI)
  fix c k assume "foreign g s c" "(0 :: int) \<le> k"
  then have "(c, k) \<notin> A" using assms(2,3) by (auto simp: foreign_def)
  then show "kmem s' c k = kmem s c k" by (rule changes_kmem [OF assms(1)])
qed (simp_all add: changes_fields [OF assms(1)])

lemma new_batch_core:
  assumes core: "core X g s" and more: "allocs s < limit g"
  shows "\<exists>s'. allocate_to_free_list (Suc 0) s = Some s' \<and> frees_only s s' \<and>
    (\<exists>g'. core X g' s' \<and> keeps g g' \<and> length (frees g') = Suc (length (frees g)) \<and> stays g s g' s') \<and> allocs s' = Suc (allocs s)"
proof -
  note D = coreD [OF core]
  define b where "b = blocks s (allocs s)"
  have b: "b \<noteq> 0" "own g b = Elsewhere" using D(9) more by (auto simp: supply_ok_def b_def)
  obtain m where m: "allocate_to_free_list (Suc 0) s =
      Some (s\<lparr>kmem := m, free_list := b, allocs := Suc (allocs s)\<rparr>)"
    and at: "m b B_Fptr = 0" "m b B_size = 0" "m b B_next = free_list s" "m b B_state = 0"
    and off: "\<And>p k. p \<noteq> b \<Longrightarrow> m p k = kmem s p k" and neg: "\<And>p k. k < 0 \<Longrightarrow> m p k = kmem s p k"
    using new_batch_run [of s b] b b_def by metis
  let ?s = "s\<lparr>kmem := m, free_list := b, allocs := Suc (allocs s)\<rparr>"
  let ?g = "g\<lparr>own := (own g)(b := Free), cont := (cont g)(b := []), frees := b # frees g\<rparr>"
  have "b \<noteq> curb s" using D(9) more by (auto simp: supply_ok_def b_def)
  then have nf: "b \<notin> set (frees g)" "b \<noteq> curb s"
    using core_apart(2) [OF core, of b] b by simp_all
  have nq: "b \<notin> set (queue g n)" if "n < 32" for n using core_apart(1) [OF core that, of b] b by simp
  have np: "\<forall>n. n < 32 \<longrightarrow> n \<notin> X \<longrightarrow> b \<noteq> rq_pending (rq s n)"
    using core_pending [OF core] b by auto
  have "conts_ok ?g ?s"
    using D(1) b by (auto simp: conts_ok_def batch_procs_def flag_of_def at off neg)
  moreover have chain: "chain (\<lambda>b. m b B_next) p xs" if "chain (\<lambda>b. kmem s b B_next) p xs" "b \<notin> set xs" for p xs
    using that by (auto intro!: chain_cong [of "\<lambda>b. kmem s b B_next"] off)
  have "free_ok ?g ?s"
    using D(5) b nf chain by (simp add: free_ok_def at)
  moreover have "queue_ok ?g ?s"
    using D(4) b nq chain by (auto simp: queue_ok_def)
  moreover have "curb_ok ?g ?s" "pend_ok X ?g ?s"
    using D(2,3) b nf np by (auto simp: curb_ok_def pend_ok_def)
  moreover have "state_ok ?g ?s"
    using D(6) by (auto simp: state_ok_def at off)
  moreover have "win_ok ?g ?s"
    unfolding win_ok_def
  proof (intro allI impI)
    fix n :: nat assume n: "n < 32"
    have "kmem ?s c B_state = kmem s c B_state" if "c \<in> set (queue g n)" for c
      using nq [OF n] that off [of c] by auto
    with D(7) n show "MWINDOW_HEAD (mw ?s n 0) \<le> 15 \<and>
       (\<forall>b \<in> set (queue ?g n). kmem ?s b B_state = 0 \<or>
        (\<exists>w. 1 \<le> w \<and> w \<le> 15 \<and> kmem ?s b B_state = BATCH_DIRTY OR w \<and> mw ?s n (unat w) = b)) \<and>
       (\<forall>w. 1 \<le> w \<and> w \<le> 15 \<and> mw ?s n w \<noteq> 0 \<longrightarrow>
        mw ?s n w \<in> set (queue ?g n) \<and> kmem ?s (mw ?s n w) B_state = BATCH_DIRTY OR of_nat w)"
      unfolding win_ok_def by simp
  qed
  moreover have "prio_ok ?g ?s"
    using D(8) by (auto simp: prio_ok_def fits_same [of ?s _ s] neg)
  moreover have "supply_ok ?g ?s"
    unfolding supply_ok_def
  proof (intro conjI ballI)
    show "laundry ?s = 0" using D(9) by (simp add: supply_ok_def)
    have inj: "inj_on (blocks s) {allocs s..<limit g}" using D(9) by (simp add: supply_ok_def)
    then show "inj_on (blocks ?s) {allocs ?s..<limit ?g}" by (auto elim!: inj_on_subset)
    fix i assume i: "i \<in> {allocs ?s..<limit ?g}"
    then have "blocks s i \<noteq> b" using inj_onD [OF inj, of i "allocs s"] more by (auto simp: b_def)
    then show "blocks ?s i \<noteq> 0" "blocks ?s i \<noteq> curb ?s" "own ?g (blocks ?s i) = Elsewhere"
      using D(9) i by (simp_all add: supply_ok_def)
  qed
  ultimately have "core X ?g ?s" by (intro coreI)
  moreover have "frees_only s ?s"
    using neg by (auto simp: frees_only_def rest_def)
  moreover have "\<forall>c. own g c = Free \<longrightarrow> cont g c = []" using D(5) by (simp add: free_ok_def)
  then have "keeps g ?g"
    by (simp add: keeps_def in_use_def b)
  moreover have "stays g s ?g ?s" using more by (auto simp: stays_def foreign_def b_def off)
  ultimately show ?thesis using m by (intro exI [of _ ?s] conjI exI [of _ ?g]) auto
qed


lemma keeps_trans:
  assumes a: "keeps g g'" and b: "keeps g' g''"
  shows "keeps g g''"
proof -
  have "own g'' c = own g c \<and> cont g'' c = cont g c" if "in_use (own g c)" for c
    using that keepsD(3) [OF a that] keepsD(3) [OF b, of c] by simp
  moreover have "cont g'' c = []" if "\<not> in_use (own g c)" "own g'' c \<noteq> Elsewhere" for c
  proof (cases "own g' c = Elsewhere")
    case True
    then show ?thesis using keepsD(5) [OF b, of c] that by (simp add: in_use_def)
  next
    case False
    then have "cont g' c = []" using keepsD(5) [OF a that(1)] by simp
    then show ?thesis using keepsD(3,5) [OF b, of c] that(2) by (cases "in_use (own g' c)") simp_all
  qed
  ultimately show ?thesis
    using keepsD(1,2,4,6,7) [OF a] keepsD(1,2,4,6,7) [OF b] by (simp add: keeps_def)
qed

lemma allocate_to_free_list_core:
  "core X g s \<Longrightarrow> allocs s + n \<le> limit g \<Longrightarrow> \<exists>s' g'. allocate_to_free_list n s = Some s' \<and> frees_only s s' \<and>
     core X g' s' \<and> keeps g g' \<and> length (frees g') = length (frees g) + n \<and> stays g s g' s'"
proof (induction n arbitrary: s g)
  case 0
  then show ?case using coreD(5) [OF 0(1)] by (auto intro!: exI [of _ g] keeps_refl)
next
  case (Suc n)
  have "allocs s < limit g" using Suc.prems(2) by simp
  then obtain s1 g1 where 1: "allocate_to_free_list (Suc 0) s = Some s1" "frees_only s s1" "core X g1 s1"
      "keeps g g1" "length (frees g1) = Suc (length (frees g))" "allocs s1 = Suc (allocs s)" "stays g s g1 s1"
    using new_batch_core [OF Suc.prems(1)] by blast
  have more: "allocs s1 + n \<le> limit g1" using Suc.prems(2) 1(6) keepsD(7) [OF 1(4)] by simp
  obtain s2 g2 where 2: "allocate_to_free_list n s1 = Some s2" "frees_only s1 s2" "core X g2 s2"
      "keeps g1 g2" "length (frees g2) = length (frees g1) + n" "stays g1 s1 g2 s2"
    using Suc.IH [OF 1(3) more] by blast
  have "allocate_to_free_list (Suc n) s = Option.bind (allocate_to_free_list (Suc 0) s) (allocate_to_free_list n)"
    by (simp add: split_beta Option.bind_assoc)
  with 1 2 show ?case
    by (auto intro!: exI [of _ g2] intro: frees_only_trans keeps_trans stays_trans)
qed

lemma do_laundry_empty: "laundry s = 0 \<Longrightarrow> do_laundry s = Some s"
  by (simp add: do_laundry_def laundry_loop.simps)

text \<open>A batch is always found: it is empty, clean, and in no queue.\<close>

lemma allocate_batch_core:
  assumes core: "core X g s" and r: "room (Suc k) g s"
  obtains b s' g' where "allocate_batch s = Some (b, s')" "frees_only s s'" "core X g' s'" "keeps g g'"
    "own g' b = Detached" "cont g' b = []" "\<not> in_use (own g b)" "room k g' s'" "stays g s g' s'"
proof -
  obtain s1 g1 where 1: "(if free_list s = 0 then do { s \<leftarrow> allocate_to_free_list 16 s; do_laundry s } else Some s) = Some s1"
      "frees_only s s1" "core X g1 s1" "keeps g g1" "frees g1 \<noteq> []"
      "Suc k \<le> length (frees g1) \<or> Suc k \<le> 16 \<and> allocs s1 + 16 \<le> limit g1" "stays g s g1 s1"
  proof (cases "free_list s = 0")
    case True
    then have "frees g = []" using coreD(5) [OF core] by (cases "frees g") (auto simp: free_ok_def)
    then have "Suc k \<le> 16" "allocs s + 16 \<le> limit g" using r by (simp_all add: room_def)
    then obtain s1 g1 where 1: "allocate_to_free_list 16 s = Some s1" "frees_only s s1" "core X g1 s1"
        "keeps g g1" "length (frees g1) = length (frees g) + 16" "stays g s g1 s1"
      using allocate_to_free_list_core [OF core] by blast
    moreover have "laundry s1 = 0" using coreD(9) [OF 1(3)] by (simp add: supply_ok_def)
    ultimately show ?thesis using True \<open>Suc k \<le> 16\<close> by (intro that) (auto simp: do_laundry_empty)
  next
    case False
    then have "frees g \<noteq> []" using coreD(5) [OF core] by (auto simp: free_ok_def)
    with False core keeps_refl [OF coreD(5) [OF core]] r show ?thesis by (intro that) (auto simp: room_def)
  qed
  note D = coreD [OF 1(3)]
  obtain b fs where fs: "frees g1 = b # fs" using 1(5) by (cases "frees g1") auto
  have b: "free_list s1 = b" "b \<noteq> 0" "chain (\<lambda>b. kmem s1 b B_next) (kmem s1 b B_next) fs"
    "own g1 b = Free" "cont g1 b = []" "b \<notin> set fs" "\<forall>c. own g1 c = Free \<longleftrightarrow> c = b \<or> c \<in> set fs"
    using D(5) chain_distinct [of _ "free_list s1" "b # fs"] by (auto simp: free_ok_def fs)
  let ?s = "s1\<lparr>free_list := kmem s1 b B_next\<rparr>" and ?g = "move b Detached g1\<lparr>frees := fs\<rparr>"
  have np: "\<forall>n. n < 32 \<longrightarrow> n \<notin> X \<longrightarrow> b \<noteq> rq_pending (rq s1 n)"
    using core_pending [OF 1(3)] b(4) by auto
  have run: "allocate_batch s = Some (b, ?s)"
    using 1(1) b by (simp add: allocate_batch_def)
  have "conts_ok (move b Detached g1) s1" using b(4) by (intro conts_move D) auto
  then have "conts_ok ?g ?s" by (simp add: conts_ok_def batch_procs_def flag_of_def)
  moreover have "free_ok ?g ?s"
    using b D(5) by (auto simp: free_ok_def fs)
  moreover have "queue_ok ?g ?s"
    using D(4) b(4) core_apart(1) [OF 1(3), of _ b] by (simp add: queue_ok_def)
  moreover have "b \<noteq> curb s1" using core_apart(3) [OF 1(3), of b] b(4) by simp
  then have "curb_ok ?g ?s" using D(2) by (simp add: curb_ok_def)
  moreover have "pend_ok X ?g ?s" "state_ok ?g ?s" "win_ok ?g ?s" "supply_ok ?g ?s"
    using D(3,6,7,9) b(1,2,4,5) np
    by (auto simp: pend_ok_def state_ok_def win_ok_def supply_ok_def)
  moreover have "prio_ok ?g ?s"
    using D(8) b by (auto simp: prio_ok_def fits_same [of ?s _ s1])
  ultimately have "core X ?g ?s" by (intro coreI)
  moreover have "frees_only s ?s"
    using 1(2) by (simp add: frees_only_def rest_def)
  moreover have nu: "\<not> in_use (own g b)"
    using keepsD(3) [OF 1(4), of b] b(4) unfolding in_use_def by metis
  moreover have "keeps g ?g"
    using 1(4) b(5) nu by (auto simp: keeps_def in_use_def)
  moreover have "room k ?g ?s" using 1(6) by (auto simp: room_def fs)
  moreover have "stays g1 s1 ?g ?s" using b(4) by (intro staysI) auto
  then have "stays g s ?g ?s" by (rule stays_trans [OF 1(7)])
  ultimately show thesis using run b by (intro that [of b ?s ?g]) auto
qed

section \<open>Windows\<close>

lemma window_cases:
  "(w :: WORD) \<le> 15 \<Longrightarrow> w = 0 \<or> w = 1 \<or> w = 2 \<or> w = 3 \<or> w = 4 \<or> w = 5 \<or> w = 6 \<or> w = 7 \<or> w = 8 \<or>
     w = 9 \<or> w = 10 \<or> w = 11 \<or> w = 12 \<or> w = 13 \<or> w = 14 \<or> w = 15"
  by unat_arith

lemma next_window: "h \<le> 15 \<Longrightarrow> 1 \<le> increment_mwindow_head h \<and> increment_mwindow_head h \<le> 15"
  by (drule window_cases) (auto simp: increment_mwindow_head_def)

lemma window_of_state: "w \<le> 15 \<Longrightarrow> (BATCH_DIRTY OR w) AND 0xff = w"
  by (drule window_cases) auto

lemma dirty_nonzero: "BATCH_DIRTY OR w \<noteq> (0 :: WORD)"
proof
  assume "BATCH_DIRTY OR w = (0 :: WORD)"
  then have "BATCH_DIRTY AND (BATCH_DIRTY OR w) = BATCH_DIRTY AND (0 :: WORD)" by simp
  then show False by simp
qed

lemma head_of_new_state: "w \<le> 15 \<Longrightarrow> MWINDOW_HEAD (MWINDOW_NEW_STATE v w) = w"
proof -
  assume "w \<le> 15"
  then have "w AND 0xff = w" by (auto dest: window_cases)
  moreover have "(x AND NOT 0xff) AND 0xff = (0 :: WORD)" for x
    by (metis and.assoc and.commute bit.conj_cancel_right bit.conj_zero_right)
  ultimately show ?thesis
    unfolding MWINDOW_HEAD_def MWINDOW_NEW_STATE_def bit.conj_disj_distrib2 by simp
qed

lemma head_unset: "MWINDOW_HEAD (unset_bit (u + 8) v) = MWINDOW_HEAD v"
proof -
  have m: "(0xff :: WORD) = mask 8" by (simp add: mask_eq_exp_minus_1)
  show ?thesis
    unfolding MWINDOW_HEAD_def m
    by (intro bit_word_eqI) (auto simp: bit_and_iff bit_unset_bit_iff bit_mask_iff)
qed

section \<open>Joining a queue\<close>

lemma add_to_local_runqueue_run:
  assumes qo: "queue_ok g s" and nz: "b \<noteq> 0" and nb: "b \<notin> set (queue g n)" and n: "n < 32"
  obtains m f where "add_to_local_runqueue n b s = Some (upd_rq n f (s\<lparr>kmem := m\<rparr>))"
    "\<forall>q. rq_priofinity (f q) = rq_priofinity q \<and> rq_pending (f q) = rq_pending q"
    "chain (\<lambda>b. m b B_next) (rq_Fptr (f (rq s n))) (queue g n @ [b])" "rq_Bptr (f (rq s n)) = b"
    "\<forall>p k. k \<noteq> B_next \<longrightarrow> m p k = kmem s p k"
    "\<forall>p. p \<noteq> b \<longrightarrow> p \<notin> set (queue g n) \<longrightarrow> m p B_next = kmem s p B_next"
proof (cases "queue g n = []")
  case True
  have "rq_Fptr (rq s n) = 0" using qo n True by (auto simp: queue_ok_def)
  then have "add_to_local_runqueue n b s =
      Some (upd_rq n (\<lambda>q. q\<lparr>rq_Fptr := b, rq_Bptr := b\<rparr>) (s\<lparr>kmem := kmem (put b B_next 0 s)\<rparr>))"
    using nz by (simp add: add_to_local_runqueue_def put_def)
  from that [OF this] nz True show thesis by simp
next
  case False
  have q: "chain (\<lambda>b. kmem s b B_next) (rq_Fptr (rq s n)) (queue g n)" "rq_Bptr (rq s n) = last (queue g n)"
    using qo n False by (auto simp: queue_ok_def)
  have front: "rq_Fptr (rq s n) \<noteq> 0" using q False by (metis chain_zero)
  have last: "last (queue g n) \<in> set (queue g n)" "last (queue g n) \<noteq> 0"
    using False chain_nz [OF q(1)] by simp_all
  let ?m = "kmem (put (last (queue g n)) B_next b (put b B_next 0 s))"
  have run: "add_to_local_runqueue n b s = Some (upd_rq n (\<lambda>q. q\<lparr>rq_Bptr := b\<rparr>) (s\<lparr>kmem := ?m\<rparr>))"
    using nz front q(2) last by (simp add: add_to_local_runqueue_def put_def upd_rq_def)
  have "last (queue g n) \<notin> set (butlast (queue g n))"
    using butlast_last_distinct [OF False, of b] chain_distinct [OF q(1)] nb by simp
  then have "chain (\<lambda>c. ?m c B_next) (rq_Fptr (rq s n)) (queue g n @ [b])"
    using nz nb last False
    by (intro chain_snoc [OF q(1)]) (auto dest: in_set_butlastD)
  then show thesis using last by (intro that [OF run]) auto
qed

definition window_inv :: "kern \<Rightarrow> nat \<Rightarrow> WORD list \<Rightarrow> bool" where
  "window_inv s n bs \<longleftrightarrow> MWINDOW_HEAD (mw s n 0) \<le> 15 \<and>
     (\<forall>b \<in> set bs. kmem s b B_state = 0 \<or>
        (\<exists>w. 1 \<le> w \<and> w \<le> 15 \<and> kmem s b B_state = BATCH_DIRTY OR w \<and> mw s n (unat w) = b)) \<and>
     (\<forall>w. 1 \<le> w \<and> w \<le> 15 \<and> mw s n w \<noteq> 0 \<longrightarrow>
        mw s n w \<in> set bs \<and> kmem s (mw s n w) B_state = BATCH_DIRTY OR of_nat w)"

lemma win_ok_iff: "win_ok g s \<longleftrightarrow> (\<forall>n < 32. window_inv s n (queue g n))"
  by (simp add: win_ok_def window_inv_def)

lemma window_inv_cong:
  assumes "window_inv s n bs" "mw s' n = mw s n" "\<And>b. b \<in> set bs \<Longrightarrow> kmem s' b B_state = kmem s b B_state"
  shows "window_inv s' n bs"
  using assms by (simp add: window_inv_def)

lemma join_queue_core:
  assumes core: "core X g s" and b: "own g b = Detached" "cont g b \<noteq> []" and n: "n < 32"
    and p: "\<forall>p \<in> set (cont g b). prio (kmem s p Priofinity) = n"
    and s1: "s1 = s\<lparr>kmem := m1, mw := w1\<rparr>" "\<And>p k. k \<noteq> B_state \<Longrightarrow> m1 p k = kmem s p k"
      "\<And>c. c \<noteq> b \<Longrightarrow> c \<notin> set (queue g n) \<Longrightarrow> m1 c B_state = kmem s c B_state"
      "\<And>k. k \<noteq> n \<Longrightarrow> w1 k = mw s k" "window_inv s1 n (queue g n @ [b])"
  shows "\<exists>s2 m f. add_to_local_runqueue n b s1 = Some s2 \<and>
    core X (set_queue n (queue g n @ [b]) (move b (Queued n) g)) s2 \<and>
    s2 = upd_rq n f (s1\<lparr>kmem := m\<rparr>) \<and> (\<forall>p k. k < 0 \<longrightarrow> m p k = kmem s p k) \<and>
    (\<forall>q. rq_priofinity (f q) = rq_priofinity q \<and> rq_pending (f q) = rq_pending q)"
proof -
  note D = coreD [OF core]
  have nz: "b \<noteq> 0" using core_nz [OF core] b by simp
  have nb: "b \<notin> set (queue g k)" if "k < 32" for k using core_apart(1) [OF core that, of b] b by simp
  have "queue_ok g s1" using D(4) s1(1,2) by (simp add: queue_ok_def)
  then obtain m f where run: "add_to_local_runqueue n b s1 = Some (upd_rq n f (s1\<lparr>kmem := m\<rparr>))"
    and f: "\<forall>q. rq_priofinity (f q) = rq_priofinity q \<and> rq_pending (f q) = rq_pending q"
    and ch: "chain (\<lambda>b. m b B_next) (rq_Fptr (f (rq s1 n))) (queue g n @ [b])" "rq_Bptr (f (rq s1 n)) = b"
    and m: "\<forall>p k. k \<noteq> B_next \<longrightarrow> m p k = kmem s1 p k"
      "\<forall>p. p \<noteq> b \<longrightarrow> p \<notin> set (queue g n) \<longrightarrow> m p B_next = kmem s1 p B_next"
    by (rule add_to_local_runqueue_run [OF _ nz nb [OF n] n])
  let ?s = "upd_rq n f (s1\<lparr>kmem := m\<rparr>)" and ?g = "set_queue n (queue g n @ [b]) (move b (Queued n) g)"
  have M: "m p k = kmem s p k" if "k \<noteq> B_next" "k \<noteq> B_state" for p k using that m s1 by simp
  have other: "c \<notin> set (queue g n)" if "own g c \<noteq> Queued n" for c using core_apart(1) [OF core n] that by blast
  have "conts_ok (move b (Queued n) g) s" using b by (intro conts_move D) auto
  then have "conts_ok ?g s" by simp
  then have "conts_ok ?g ?s"
    by (rule conts_same) (auto simp: M list_words_def)
  moreover have "b \<noteq> curb s" using core_apart(3) [OF core, of b] b by simp
  then have "curb_ok ?g ?s" using D(2) b s1(1) by (auto simp: curb_ok_def)
  moreover have "\<forall>k. k < 32 \<longrightarrow> k \<notin> X \<longrightarrow> b \<noteq> rq_pending (rq s k)"
    using core_pending [OF core] b by auto
  then have "pend_ok X ?g ?s" using D(3) b s1(1) f by (auto simp: pend_ok_def)
  moreover have chain: "chain (\<lambda>c. m c B_next) p xs"
    if "chain (\<lambda>c. kmem s c B_next) p xs" "\<forall>c \<in> set xs. c \<noteq> b \<and> c \<notin> set (queue g n)" for p xs
    by (rule chain_cong [OF that(1)]) (use that(2) m(2) s1(1,2) in simp)
  have apart: "\<forall>c \<in> set (queue g k). c \<noteq> b \<and> c \<notin> set (queue g n)" if "k < 32" "k \<noteq> n" for k
    using D(4) that n nb [OF that(1)] unfolding queue_ok_def by (metis place.inject(2))
  have "queue_ok ?g ?s"
    unfolding queue_ok_def
  proof (intro conjI allI impI)
    fix k c show "own ?g c = Queued k \<longleftrightarrow> k < 32 \<and> c \<in> set (queue ?g k)"
      using D(4) n nb by (auto simp: queue_ok_def)
  next
    fix k :: nat assume k: "k < 32"
    show "chain (\<lambda>b. kmem ?s b B_next) (rq_Fptr (rq ?s k)) (queue ?g k)"
      using D(4) ch(1) k chain [OF _ apart [OF k]] s1(1) by (auto simp: queue_ok_def)
    show "\<forall>c \<in> set (queue ?g k). cont ?g c \<noteq> []"
      using D(4) b k by (auto simp: queue_ok_def)
    assume "queue ?g k \<noteq> []"
    then show "rq_Bptr (rq ?s k) = last (queue ?g k)"
      using D(4) ch(2) k s1(1) by (auto simp: queue_ok_def)
  qed
  moreover have "\<forall>c \<in> set (frees g). c \<noteq> b \<and> c \<notin> set (queue g n)"
  proof
    fix c assume "c \<in> set (frees g)"
    then have "own g c = Free" using D(5) by (simp add: free_ok_def)
    with other [of c] b(1) show "c \<noteq> b \<and> c \<notin> set (queue g n)" by auto
  qed
  then have "free_ok ?g ?s"
    using D(5) b s1(1) chain [of "free_list s" "frees g"] by (auto simp: free_ok_def)
  moreover have "state_ok ?g ?s"
    unfolding state_ok_def
  proof (intro allI impI)
    fix c assume "off_queue (own ?g c)"
    then have c: "c \<noteq> b" "off_queue (own g c)" by (auto split: if_splits)
    then have "c \<notin> set (queue g n)" using other [of c] by (cases "own g c") auto
    with c D(6) s1 m(1) show "kmem ?s c B_state = 0" by (simp add: state_ok_def)
  qed
  moreover have "win_ok ?g ?s"
    unfolding win_ok_iff
  proof (intro allI impI)
    fix k :: nat assume k: "k < 32"
    show "window_inv ?s k (queue ?g k)"
    proof (cases "k = n")
      case True
      then show ?thesis using m(1) by (auto intro: window_inv_cong [OF s1(5)])
    next
      case False
      have "window_inv ?s k (queue g k)"
      proof (rule window_inv_cong)
        show "window_inv s k (queue g k)" using D(7) k by (simp add: win_ok_iff)
        show "mw ?s k = mw s k" using False s1(1,4) by simp
        fix c assume "c \<in> set (queue g k)"
        then have "c \<noteq> b" "c \<notin> set (queue g n)" using apart [OF k False] by simp_all
        then show "kmem ?s c B_state = kmem s c B_state" using s1(1,3) m(1) by simp
      qed
      then show ?thesis using False by simp
    qed
  qed
  moreover have F: "fits l p ?s = fits l p s" for l p
    by (rule fits_same) (simp_all add: M s1(1))
  have "prio_ok ?g ?s"
    using D(8) p by (auto simp: prio_ok_def F)
  moreover have "supply_ok ?g ?s" using D(9) b s1(1) by (auto simp: supply_ok_def)
  ultimately have "core X ?g ?s" by (intro coreI)
  with run M f show ?thesis by (intro exI [of _ ?s] exI [of _ m] exI [of _ f]) auto
qed

end
