(* ===== verification/Ccsp_Queue_Ops.thy ===== *)
theory Ccsp_Queue_Ops
  imports Ccsp_Queue_Laws
begin

text \<open>
  The run queues: a batch is added at the back with or without a window, the first one is taken, and the pending
  batch is taken or replaced. The lists of ready processes change as a queue's do.
\<close>

section \<open>What the operations leave alone\<close>

text \<open>All of the state but the queues, their masks and batches, and what is left of the current batch.\<close>

definition others :: "kern \<Rightarrow> kern" where
  "others s = s\<lparr>kmem := (\<lambda>_ _. 0), dispatches := 0, rqstate := 0, free_list := 0, rq := (\<lambda>_. init_runqueue_t),
     mwstate := 0, mw := (\<lambda>_ _. 0), allocs := 0\<rparr>"

lemma others_of:
  "curb (others s) = curb s" "priofinity (others s) = priofinity s" "sched_id (others s) = sched_id s"
  "enabled_threads (others s) = enabled_threads s" "sync (others s) = sync s" "kbytes (others s) = kbytes s"
  "tq_fptr (others s) = tq_fptr s" "tq_bptr (others s) = tq_bptr s" "schedulers (others s) = schedulers s"
  "stats_startp (others s) = stats_startp s" "sched_index (others s) = sched_index s"
  "laundry (others s) = laundry s" "blocks (others s) = blocks s"
  by (simp_all add: others_def)

lemma others_simps [simp]:
  "others (put p k v s) = others s" "others (upd_rq n f s) = others s" "others (s\<lparr>kmem := m\<rparr>) = others s"
  "others (s\<lparr>dispatches := d\<rparr>) = others s" "others (s\<lparr>rqstate := w\<rparr>) = others s"
  "others (s\<lparr>free_list := w\<rparr>) = others s" "others (s\<lparr>mwstate := w\<rparr>) = others s" "others (s\<lparr>mw := ws\<rparr>) = others s"
  "others (s\<lparr>rq := q\<rparr>) = others s" "others (s\<lparr>allocs := n\<rparr>) = others s" "others (rest s) = others s"
  by (simp_all add: others_def put_def upd_rq_def rest_def)

definition alike :: "kern \<Rightarrow> kern \<Rightarrow> bool" where
  "alike s s' \<longleftrightarrow> others s' = others s"

lemma alike_simps [simp]:
  "alike s s" "alike s (put p k v s') = alike s s'" "alike s (upd_rq n f s') = alike s s'"
  "alike s (s'\<lparr>kmem := m\<rparr>) = alike s s'" "alike s (s'\<lparr>dispatches := d\<rparr>) = alike s s'"
  "alike s (s'\<lparr>rqstate := w\<rparr>) = alike s s'" "alike s (s'\<lparr>free_list := w\<rparr>) = alike s s'"
  "alike s (s'\<lparr>mwstate := w\<rparr>) = alike s s'" "alike s (s'\<lparr>mw := ws\<rparr>) = alike s s'"
  "alike s (s'\<lparr>rq := q\<rparr>) = alike s s'" "alike s (s'\<lparr>allocs := n\<rparr>) = alike s s'"
  by (simp_all only: alike_def others_simps)

lemma alike_simps' [simp]:
  "alike (put p k v s) s' = alike s s'" "alike (upd_rq n f s) s' = alike s s'" "alike (s\<lparr>kmem := m\<rparr>) s' = alike s s'"
  "alike (s\<lparr>dispatches := d\<rparr>) s' = alike s s'" "alike (s\<lparr>rqstate := w\<rparr>) s' = alike s s'"
  "alike (s\<lparr>free_list := w\<rparr>) s' = alike s s'" "alike (s\<lparr>mwstate := w\<rparr>) s' = alike s s'"
  "alike (s\<lparr>mw := ws\<rparr>) s' = alike s s'" "alike (s\<lparr>rq := q\<rparr>) s' = alike s s'" "alike (s\<lparr>allocs := j\<rparr>) s' = alike s s'"
  by (simp_all only: alike_def others_simps)

lemma alike_trans: "alike s s' \<Longrightarrow> alike s' s'' \<Longrightarrow> alike s s''"
  unfolding alike_def by (rule trans)

lemma alike_rest: "rest s' = rest s \<Longrightarrow> alike s s'"
  by (drule arg_cong [of _ _ others]) (simp only: alike_def others_simps)

lemma changes_alike: "changes A s s' \<Longrightarrow> alike s s'"
  by (auto simp: changes_def)

lemma alike_eq: "alike s s' \<Longrightarrow> (\<And>s. f (others s) = f s) \<Longrightarrow> f s' = f s"
  unfolding alike_def by metis

definition calm :: "kern \<Rightarrow> kern \<Rightarrow> bool" where
  "calm s s' \<longleftrightarrow> alike s s' \<and> (\<forall>p k. k < 0 \<longrightarrow> k \<noteq> Link \<longrightarrow> kmem s' p k = kmem s p k)"

lemma calm_refl [simp]: "calm s s"
  by (simp add: calm_def)

lemma calm_trans: "calm s s' \<Longrightarrow> calm s' s'' \<Longrightarrow> calm s s''"
  using alike_trans [of s s' s''] by (simp add: calm_def)

lemma calm_frees: "frees_only s s' \<Longrightarrow> calm s s'"
  by (simp add: calm_def frees_only_def alike_rest)

lemma calm_alike: "calm s s' \<Longrightarrow> alike s s'"
  by (simp add: calm_def)

lemma calm_simps:
  assumes "calm s s'"
  shows "curb s' = curb s" "priofinity s' = priofinity s" "sched_id s' = sched_id s"
    "enabled_threads s' = enabled_threads s" "sync s' = sync s" "kmem s' p Priofinity = kmem s p Priofinity"
    "kbytes s' = kbytes s" "tq_fptr s' = tq_fptr s" "tq_bptr s' = tq_bptr s" "schedulers s' = schedulers s"
    "stats_startp s' = stats_startp s" "sched_index s' = sched_index s"
    "k < 0 \<Longrightarrow> k \<noteq> Link \<Longrightarrow> kmem s' p k = kmem s p k" "blocks s' = blocks s"
proof -
  show "kmem s' p k = kmem s p k" if "k < 0" "k \<noteq> Link" for p k using assms that by (simp add: calm_def)
  then show "kmem s' p Priofinity = kmem s p Priofinity" by simp
qed (rule alike_eq [OF calm_alike [OF assms]], rule others_of)+

text \<open>The invariant looks at the memory and the pointers, not at the masks.\<close>

lemma core_same:
  assumes "core X g s" "kmem s' = kmem s" "curb s' = curb s" "rq s' = rq s" "free_list s' = free_list s"
    "laundry s' = laundry s" "mw s' = mw s" "blocks s' = blocks s" "allocs s' = allocs s"
    "priofinity s' = priofinity s"
  shows "core X g s'"
proof -
  note D = coreD [OF assms(1)] and E = assms(2-)
  have "conts_ok g s'" using D(1) by (simp add: conts_ok_def batch_procs_def E)
  moreover have "curb_ok g s'" using D(2) by (simp add: curb_ok_def E)
  moreover have "pend_ok X g s'" using D(3) by (simp add: pend_ok_def E)
  moreover have "queue_ok g s'" using D(4) by (simp add: queue_ok_def E)
  moreover have "free_ok g s'" using D(5) by (simp add: free_ok_def E)
  moreover have "state_ok g s'" using D(6) by (simp add: state_ok_def E)
  moreover have "win_ok g s'" using D(7) by (simp add: win_ok_def E)
  moreover have "prio_ok g s'" using D(8) by (simp add: prio_ok_def fits_same [of s' _ s] E)
  moreover have "supply_ok g s'" using D(9) by (simp add: supply_ok_def E)
  ultimately show ?thesis by (rule coreI)
qed

section \<open>Adding a batch\<close>

definition joins :: "nat \<Rightarrow> kern \<Rightarrow> kern \<Rightarrow> bool" where
  "joins n s s' \<longleftrightarrow> calm s s' \<and> dispatches s' = dispatches s \<and> rqstate s' = rqstate s \<and> allocs s' = allocs s \<and>
     (\<forall>k. rq_priofinity (rq s' k) = rq_priofinity (rq s k) \<and> rq_pending (rq s' k) = rq_pending (rq s k))"

lemma set_batch_clean_run: "b \<noteq> 0 \<Longrightarrow> set_batch_clean b s = Some (put b B_state 0 s)"
  by (simp add: set_batch_clean_def)

lemma put_as_update: "put p k v s = s\<lparr>kmem := kmem (put p k v s), mw := mw s\<rparr>"
  by (simp add: put_def)

lemma add_affine_core:
  assumes core: "core X g s" and b: "own g b = Detached" "cont g b \<noteq> []" and n: "n < 32"
    and p: "\<forall>p \<in> set (cont g b). prio (kmem s p Priofinity) = n"
  shows "\<exists>s'. add_affine_batch_to_runqueue n b s = Some s' \<and>
    core X (set_queue n (queue g n @ [b]) (move b (Queued n) g)) s' \<and> joins n s s' \<and> mwstate s' = mwstate s"
proof -
  have nz: "b \<noteq> 0" using core_nz [OF core] b by simp
  have nb: "b \<notin> set (queue g n)" using core_apart(1) [OF core n, of b] b by simp
  let ?s1 = "s\<lparr>kmem := kmem (put b B_state 0 s), mw := mw s\<rparr>"
  have w: "window_inv s n (queue g n)" using coreD(7) [OF core] n by (simp add: win_ok_iff)
  then have "window_inv ?s1 n (queue g n @ [b])"
    using nb by (auto simp: window_inv_def)
  from join_queue_core [OF core b n p refl _ _ _ this]
  obtain s2 m f where "add_to_local_runqueue n b ?s1 = Some s2"
    "core X (set_queue n (queue g n @ [b]) (move b (Queued n) g)) s2"
    "s2 = upd_rq n f (?s1\<lparr>kmem := m\<rparr>)" "\<forall>p k. k < 0 \<longrightarrow> m p k = kmem s p k"
    "\<forall>q. rq_priofinity (f q) = rq_priofinity q \<and> rq_pending (f q) = rq_pending q"
    using nz nb by auto
  moreover have "add_affine_batch_to_runqueue n b s = add_to_local_runqueue n b ?s1"
    using nz by (simp add: add_affine_batch_to_runqueue_def set_batch_clean_run put_def)
  ultimately show ?thesis
    by (intro exI [of _ s2]) (simp add: joins_def calm_def upd_rq_def)
qed

text \<open>
  A window is given to the batch. The batch that had this window, if any, is still in the queue and is
  no longer visible to other threads.
\<close>

lemma give_window:
  assumes w: "window_inv s n bs" and b: "b \<notin> set bs" "0 \<notin> set bs" "b \<noteq> 0"
  defines "h \<equiv> increment_mwindow_head (MWINDOW_HEAD (mw s n 0))"
  defines "old \<equiv> mw s n (unat h)"
  defines "m1 \<equiv> kmem (put b B_state (BATCH_DIRTY OR h) s)"
  defines "m2 \<equiv> (if old = 0 then m1 else m1(old := (m1 old)(B_state := 0)))"
  shows "window_inv (s\<lparr>kmem := m2, mw := (mw s)(n := (mw s n)(unat h := b, 0 := MWINDOW_NEW_STATE (mw s n 0) h))\<rparr>)
      n (bs @ [b])"
    and "old \<noteq> 0 \<Longrightarrow> old \<in> set bs" "1 \<le> h" "h \<le> 15"
proof -
  show h: "1 \<le> h" "h \<le> 15" using w next_window by (auto simp: window_inv_def h_def)
  have hn: "1 \<le> unat h" "unat h \<le> 15" using h by (simp_all add: word_le_nat_alt)
  show old: "old \<in> set bs" if "old \<noteq> 0" using w hn that by (simp add: window_inv_def old_def)
  have ostate: "kmem s old B_state = BATCH_DIRTY OR h" if "old \<noteq> 0"
    using w hn that by (simp add: window_inv_def old_def)
  have at_b: "m2 b B_state = BATCH_DIRTY OR h" using old b by (auto simp: m2_def m1_def)
  have at_old: "old \<noteq> 0 \<Longrightarrow> m2 old B_state = 0" by (simp add: m2_def)
  have other: "c \<noteq> b \<Longrightarrow> c \<noteq> old \<Longrightarrow> m2 c B_state = kmem s c B_state" for c
    by (simp add: m2_def m1_def)
  let ?s = "s\<lparr>kmem := m2, mw := (mw s)(n := (mw s n)(unat h := b, 0 := MWINDOW_NEW_STATE (mw s n 0) h))\<rparr>"
  have "MWINDOW_HEAD (mw ?s n 0) \<le> 15" using h by (simp add: head_of_new_state)
  moreover have "kmem ?s c B_state = 0 \<or>
      (\<exists>w. 1 \<le> w \<and> w \<le> 15 \<and> kmem ?s c B_state = BATCH_DIRTY OR w \<and> mw ?s n (unat w) = c)"
    if c: "c \<in> set (bs @ [b])" for c
  proof (cases "c = b")
    case True
    then show ?thesis using at_b h hn by (intro disjI2 exI [of _ h]) simp
  next
    case False
    then have cb: "c \<in> set bs" "c \<noteq> 0" using c b by auto
    show ?thesis
    proof (cases "c = old")
      case True
      then show ?thesis using at_old cb by simp
    next
      case co: False
      consider "kmem s c B_state = 0"
        | v where "1 \<le> v" "v \<le> 15" "kmem s c B_state = BATCH_DIRTY OR v" "mw s n (unat v) = c"
        using w cb(1) unfolding window_inv_def by blast
      then show ?thesis
      proof cases
        case 1
        then show ?thesis using other [OF False co] by simp
      next
        case 2
        have "v \<noteq> h" using 2(4) co by (auto simp: old_def)
        then have "unat v \<noteq> unat h" "unat v \<noteq> 0"
          using 2(1) by (auto simp: word_unat_eq_iff word_le_nat_alt)
        with 2 other [OF False co] show ?thesis by (intro disjI2 exI [of _ v]) simp
      qed
    qed
  qed
  moreover have "mw ?s n v \<in> set (bs @ [b]) \<and> kmem ?s (mw ?s n v) B_state = BATCH_DIRTY OR of_nat v"
    if v: "1 \<le> v" "v \<le> 15" "mw ?s n v \<noteq> 0" for v
  proof (cases "v = unat h")
    case True
    then show ?thesis using at_b v by simp
  next
    case False
    then have mv: "mw ?s n v = mw s n v" using v by simp
    with v w have s: "mw s n v \<in> set bs" "kmem s (mw s n v) B_state = BATCH_DIRTY OR of_nat v"
      by (auto simp: window_inv_def)
    have "mw s n v \<noteq> old"
    proof
      assume e: "mw s n v = old"
      then have "BATCH_DIRTY OR h = BATCH_DIRTY OR (of_nat v :: WORD)" using s ostate v mv by simp
      moreover have "(of_nat v :: WORD) \<le> 15" using v by (simp add: word_le_nat_alt unat_of_nat)
      ultimately have "h = of_nat v" using window_of_state h(2) by metis
      with False v show False by (simp add: unat_of_nat)
    qed
    moreover have "mw s n v \<noteq> b" using s b by auto
    ultimately show ?thesis using s mv other by simp
  qed
  ultimately show "window_inv ?s n (bs @ [b])" unfolding window_inv_def by blast
qed

lemma add_to_visible_runqueue_run:
  fixes s :: kern and n :: nat
  assumes nz: "b \<noteq> 0"
  defines "h \<equiv> increment_mwindow_head (MWINDOW_HEAD (mw s n 0))"
  defines "old \<equiv> mw s n (unat h)"
  defines "m1 \<equiv> kmem (put b B_state (BATCH_DIRTY OR h) s)"
  defines "m2 \<equiv> (if old = 0 then m1 else m1(old := (m1 old)(B_state := 0)))"
  shows "add_to_visible_runqueue n b s = add_to_local_runqueue n b
    (s\<lparr>kmem := m2, mw := (mw s)(n := (mw s n)(unat h := b, 0 := MWINDOW_NEW_STATE (mw s n 0) h))\<rparr>)"
proof -
  have "set_batch_window b h s = Some (put b B_state (BATCH_DIRTY OR h) s)"
    using nz by (simp add: set_batch_window_def)
  then have "add_to_visible_runqueue n b s = do {
      s' \<leftarrow> (let s = set_mw n (unat h) b (put b B_state (BATCH_DIRTY OR h) s) in
        if old \<noteq> 0 then set_batch_clean old s else Some s);
      add_to_local_runqueue n b (set_mw n MWINDOW_STATE (MWINDOW_NEW_STATE (mw s n 0) h) s') }"
    unfolding add_to_visible_runqueue_def Let_def h_def [symmetric] by (simp add: old_def)
  then show ?thesis
    by (cases "old = 0") (simp_all add: set_batch_clean_def Let_def set_mw_def put_def m2_def m1_def)
qed

lemma add_visible_core:
  assumes core: "core X g s" and b: "own g b = Detached" "cont g b \<noteq> []" and n: "n < 32"
    and p: "\<forall>p \<in> set (cont g b). prio (kmem s p Priofinity) = n"
  shows "\<exists>s'. add_to_visible_runqueue n b s = Some s' \<and>
    core X (set_queue n (queue g n @ [b]) (move b (Queued n) g)) s' \<and> joins n s s' \<and> mwstate s' = mwstate s"
proof -
  note D = coreD [OF core]
  have nz: "b \<noteq> 0" using core_nz [OF core] b by simp
  have nb: "b \<notin> set (queue g n)" using core_apart(1) [OF core n, of b] b by simp
  have q0: "0 \<notin> set (queue g n)"
    using D(4) n chain_nz unfolding queue_ok_def by blast
  define h where "h = increment_mwindow_head (MWINDOW_HEAD (mw s n 0))"
  define old where "old = mw s n (unat h)"
  define m1 where "m1 = kmem (put b B_state (BATCH_DIRTY OR h) s)"
  define m2 where "m2 = (if old = 0 then m1 else m1(old := (m1 old)(B_state := 0)))"
  define w2 where "w2 = (mw s)(n := (mw s n)(unat h := b, 0 := MWINDOW_NEW_STATE (mw s n 0) h))"
  have w: "window_inv s n (queue g n)" using D(7) n by (simp add: win_ok_iff)
  note W = give_window [OF w nb q0 nz, folded h_def, folded old_def, folded m1_def, folded m2_def, folded w2_def]
  let ?s1 = "s\<lparr>kmem := m2, mw := w2\<rparr>"
  have 1: "m2 p k = kmem s p k" if "k \<noteq> B_state" for p k
    using that by (simp add: m2_def m1_def)
  have 2: "m2 c B_state = kmem s c B_state" if "c \<noteq> b" "c \<notin> set (queue g n)" for c
    using that W(2) by (auto simp: m2_def m1_def)
  have 3: "w2 k = mw s k" if "k \<noteq> n" for k using that by (simp add: w2_def)
  from join_queue_core [OF core b n p refl 1 2 3 W(1)]
  obtain s2 m f where s2: "add_to_local_runqueue n b ?s1 = Some s2"
    "core X (set_queue n (queue g n @ [b]) (move b (Queued n) g)) s2"
    "s2 = upd_rq n f (?s1\<lparr>kmem := m\<rparr>)" "\<forall>p k. k < 0 \<longrightarrow> m p k = kmem s p k"
    "\<forall>q. rq_priofinity (f q) = rq_priofinity q \<and> rq_pending (f q) = rq_pending q"
    by auto
  moreover have "add_to_visible_runqueue n b s = add_to_local_runqueue n b ?s1"
    unfolding add_to_visible_runqueue_run [OF nz] h_def old_def m1_def m2_def w2_def ..
  ultimately show ?thesis
    by (intro exI [of _ s2]) (simp add: joins_def calm_def upd_rq_def)
qed

text \<open>What joining a queue does to the invariant of all but one priority's pending batch, and to the masks.\<close>

lemma add_to_runqueue_core:
  assumes core: "core X g s" and b: "own g b = Detached" "cont g b \<noteq> []" and n: "n < 32"
    and p: "\<forall>p \<in> set (cont g b). prio (kmem s p Priofinity) = n"
  shows "\<exists>s'. add_to_runqueue v n b s = Some s' \<and>
    core X (set_queue n (queue g n @ [b]) (move b (Queued n) g)) s' \<and> joins n s s' \<and>
    (mwstate s' = mwstate s \<or> mwstate s' = set_bit n (mwstate s))"
proof (cases "PHasAffinity v")
  case True
  with add_affine_core [OF assms] show ?thesis by (auto simp: add_to_runqueue_def)
next
  case False
  from add_visible_core [OF assms] obtain s1 where s1: "add_to_visible_runqueue n b s = Some s1"
    "core X (set_queue n (queue g n @ [b]) (move b (Queued n) g)) s1" "joins n s s1" "mwstate s1 = mwstate s"
    by blast
  let ?s = "s1\<lparr>mwstate := set_bit n (mwstate s1)\<rparr>"
  have "core X (set_queue n (queue g n @ [b]) (move b (Queued n) g)) ?s"
    by (rule core_same [OF s1(2)]) simp_all
  moreover have "add_to_runqueue v n b s = Some ?s" using s1(1) False by (simp add: add_to_runqueue_def)
  moreover have "joins n s ?s" using s1(3) by (simp add: joins_def calm_def)
  ultimately show ?thesis using s1(4) by (intro exI [of _ ?s]) simp
qed

section \<open>Taking the first batch of a queue\<close>

lemma window_gone:
  assumes "window_inv s n (b # bs)" "kmem s b B_state = 0"
  shows "window_inv s n bs"
proof -
  have "mw s n w \<noteq> b" if "1 \<le> w" "w \<le> 15" "mw s n w \<noteq> 0" for w
  proof
    assume "mw s n w = b"
    then have "kmem s b B_state = BATCH_DIRTY OR of_nat w" using assms(1) that by (auto simp: window_inv_def)
    with assms(2) dirty_nonzero [of "of_nat w"] show False by simp
  qed
  with assms(1) show ?thesis by (fastforce simp: window_inv_def)
qed

lemma window_closed:
  assumes w: "window_inv s n (b # bs)" and b: "b \<notin> set bs" "b \<noteq> 0"
    and h: "1 \<le> h" "h \<le> 15" "kmem s b B_state = BATCH_DIRTY OR h" "mw s n (unat h) = b"
    and s': "kmem s' = kmem (put b B_state 0 s)"
      "mw s' n = (mw s n)(unat h := 0, 0 := unset_bit (unat h + 8) (mw s n 0))"
  shows "window_inv s' n bs"
proof -
  have hn: "1 \<le> unat h" "unat h \<le> 15" using h by (simp_all add: word_le_nat_alt)
  have "MWINDOW_HEAD (mw s' n 0) \<le> 15"
    using w by (simp add: s'(2) head_unset window_inv_def)
  moreover have "kmem s' c B_state = 0 \<or>
      (\<exists>w. 1 \<le> w \<and> w \<le> 15 \<and> kmem s' c B_state = BATCH_DIRTY OR w \<and> mw s' n (unat w) = c)"
    if c: "c \<in> set bs" for c
  proof -
    have cb: "c \<noteq> b" using c b by auto
    consider "kmem s c B_state = 0"
      | v where "1 \<le> v" "v \<le> 15" "kmem s c B_state = BATCH_DIRTY OR v" "mw s n (unat v) = c"
      using w c unfolding window_inv_def by fastforce
    then show ?thesis
    proof cases
      case 1
      then show ?thesis using cb by (simp add: s'(1))
    next
      case 2
      have "unat v \<noteq> unat h" "unat v \<noteq> 0" using 2(1,4) h(4) cb by (auto simp: word_le_nat_alt)
      with 2 cb show ?thesis by (intro disjI2 exI [of _ v]) (simp add: s')
    qed
  qed
  moreover have "mw s' n v \<in> set bs \<and> kmem s' (mw s' n v) B_state = BATCH_DIRTY OR of_nat v"
    if v: "1 \<le> v" "v \<le> 15" "mw s' n v \<noteq> 0" for v
  proof -
    have vh: "v \<noteq> unat h" "mw s' n v = mw s n v" using v by (auto simp: s'(2) split: if_splits)
    then have q: "mw s n v \<in> set (b # bs)" "kmem s (mw s n v) B_state = BATCH_DIRTY OR of_nat v"
      using w v unfolding window_inv_def by auto
    have "mw s n v \<noteq> b"
    proof
      assume "mw s n v = b"
      then have "BATCH_DIRTY OR h = BATCH_DIRTY OR (of_nat v :: WORD)" using q h(3) by simp
      moreover have "(of_nat v :: WORD) \<le> 15" using v by (simp add: word_le_nat_alt unat_of_nat)
      ultimately have "h = of_nat v" using window_of_state h(2) by metis
      with vh v show False by (simp add: unat_of_nat)
    qed
    with q vh show ?thesis by (simp add: s'(1))
  qed
  ultimately show ?thesis unfolding window_inv_def by blast
qed

lemma leave_queue_core:
  assumes core: "core X g s" and n: "n < 32" and q: "queue g n = b # bs"
    and s': "s' = upd_rq n (\<lambda>q. q\<lparr>rq_Fptr := kmem s b B_next\<rparr>) (s\<lparr>kmem := m, mw := w\<rparr>)"
      "\<And>p k. k \<noteq> B_state \<or> p \<noteq> b \<Longrightarrow> m p k = kmem s p k" "m b B_state = 0"
      "\<And>k. k \<noteq> n \<Longrightarrow> w k = mw s k" "window_inv s' n bs"
  shows "core X (set_queue n bs (move b Detached g)) s'"
proof -
  note D = coreD [OF core]
  let ?g = "set_queue n bs (move b Detached g)"
  have Q: "own g c = Queued k \<longleftrightarrow> k < 32 \<and> c \<in> set (queue g k)" for k c
    using D(4) by (simp add: queue_ok_def)
  have ch: "chain (\<lambda>b. kmem s b B_next) (rq_Fptr (rq s k)) (queue g k)" if "k < 32" for k
    using D(4) that by (simp add: queue_ok_def)
  have b: "own g b = Queued n" using Q n q by simp
  have db: "b \<notin> set bs" using chain_distinct [OF ch [OF n]] q by simp
  have np: "\<forall>k. k < 32 \<longrightarrow> k \<notin> X \<longrightarrow> b \<noteq> rq_pending (rq s k)"
    using core_pending [OF core] b by auto
  have bc: "b \<noteq> curb s" using core_apart(3) [OF core, of b] b by simp
  have nx: "m p B_next = kmem s p B_next" for p using s'(2) by simp
  have "conts_ok (move b Detached g) s" using b by (intro conts_move D) auto
  then have "conts_ok ?g s" by simp
  then have "conts_ok ?g s'"
    by (rule conts_same) (auto simp: s'(1,2) list_words_def)
  moreover have "curb_ok ?g s'" using D(2) bc by (simp add: curb_ok_def s'(1))
  moreover have "pend_ok X ?g s'"
    using D(3) b np unfolding pend_ok_def by (auto simp: s'(1))
  moreover have "queue_ok ?g s'"
    unfolding queue_ok_def
  proof (intro conjI allI impI)
    fix k c show "own ?g c = Queued k \<longleftrightarrow> k < 32 \<and> c \<in> set (queue ?g k)"
      using Q [of c k] b q db n Q [of b k] by auto
  next
    fix k :: nat assume k: "k < 32"
    show "chain (\<lambda>b. kmem s' b B_next) (rq_Fptr (rq s' k)) (queue ?g k)"
      using ch [OF k] q by (auto simp: s'(1) nx)
    show "\<forall>c \<in> set (queue ?g k). cont ?g c \<noteq> []"
      using D(4) k q by (auto simp: queue_ok_def)
    assume "queue ?g k \<noteq> []"
    then show "rq_Bptr (rq s' k) = last (queue ?g k)"
      using D(4) k q by (auto simp: queue_ok_def s'(1))
  qed
  moreover have "free_ok ?g s'"
    using D(5) core_apart(2) [OF core, of b] b by (simp add: free_ok_def s'(1) nx)
  moreover have "state_ok ?g s'"
    unfolding state_ok_def
  proof (intro allI impI)
    fix c assume "off_queue (own ?g c)"
    with D(6) s'(2,3) show "kmem s' c B_state = 0"
      by (cases "c = b") (auto simp: state_ok_def s'(1))
  qed
  moreover have "win_ok ?g s'"
    unfolding win_ok_iff
  proof (intro allI impI)
    fix k :: nat assume k: "k < 32"
    show "window_inv s' k (queue ?g k)"
    proof (cases "k = n")
      case True then show ?thesis using s'(5) by simp
    next
      case False
      have "window_inv s' k (queue g k)"
      proof (rule window_inv_cong)
        show "window_inv s k (queue g k)" using D(7) k by (simp add: win_ok_iff)
        show "mw s' k = mw s k" using False by (simp add: s'(1,4))
        fix c assume "c \<in> set (queue g k)"
        then have "c \<noteq> b" using Q [of c k] b k False by auto
        then show "kmem s' c B_state = kmem s c B_state" by (simp add: s'(1,2))
      qed
      then show ?thesis using False by simp
    qed
  qed
  moreover have F: "fits l p s' = fits l p s" for l p
    by (rule fits_same) (simp_all add: s'(1,2))
  have "prio_ok ?g s'" using D(8) by (auto simp: prio_ok_def F)
  moreover have "supply_ok ?g s'" using D(9) b by (auto simp: supply_ok_def s'(1))
  ultimately show ?thesis by (rule coreI)
qed

lemma try_pull_queued_core:
  assumes core: "core X g s" and n: "n < 32" and q: "queue g n = b # bs"
  shows "\<exists>s'. try_pull_from_runqueue n s = Some (b, s') \<and>
    core X (set_queue n bs (move b Detached g)) s' \<and> joins n s s' \<and> mwstate s' = mwstate s"
proof -
  note D = coreD [OF core]
  have ch: "chain (\<lambda>b. kmem s b B_next) (rq_Fptr (rq s n)) (b # bs)"
    using D(4) n unfolding queue_ok_def by (metis q)
  have b: "rq_Fptr (rq s n) = b" "b \<noteq> 0" "b \<notin> set bs"
    using ch chain_distinct [OF ch] by simp_all
  have w: "window_inv s n (b # bs)" using D(7) n q unfolding win_ok_iff by metis
  have off: "\<exists>s'. r = Some (b, s') \<and> core X (set_queue n bs (move b Detached g)) s' \<and> joins n s s' \<and>
      mwstate s' = mwstate s"
    if "r = Some (b, s')" "s' = upd_rq n (\<lambda>q. q\<lparr>rq_Fptr := kmem s b B_next\<rparr>) (s\<lparr>kmem := m, mw := w\<rparr>)"
      "\<And>p k. k \<noteq> B_state \<or> p \<noteq> b \<Longrightarrow> m p k = kmem s p k" "m b B_state = 0"
      "\<And>k. k \<noteq> n \<Longrightarrow> w k = mw s k" "window_inv s' n bs" for r s' m w
    using leave_queue_core [OF core n q that(2-)] that
    by (intro exI [of _ s']) (simp add: joins_def calm_def)
  consider "kmem s b B_state = 0"
    | h where "1 \<le> h" "h \<le> 15" "kmem s b B_state = BATCH_DIRTY OR h" "mw s n (unat h) = b"
    using w unfolding window_inv_def by auto
  then show ?thesis
  proof cases
    case 1
    let ?s = "upd_rq n (\<lambda>q. q\<lparr>rq_Fptr := kmem s b B_next\<rparr>) (s\<lparr>kmem := kmem s, mw := mw s\<rparr>)"
    have "try_pull_from_runqueue n s = Some (b, ?s)"
      using b 1 by (simp add: try_pull_from_runqueue_def batch_window_def upd_rq_def)
    moreover have "window_inv ?s n bs"
      using window_gone [OF w 1] by (simp add: window_inv_def)
    ultimately show ?thesis using 1 by (intro off [where m = "kmem s" and w = "mw s" and s' = ?s]) simp_all
  next
    case 2
    have u: "unat h \<noteq> 0" "h \<noteq> 0" using 2(1) by (auto simp: word_le_nat_alt)
    let ?w = "(mw s)(n := (mw s n)(unat h := 0, 0 := unset_bit (unat h + 8) (mw s n 0)))"
    let ?s = "upd_rq n (\<lambda>q. q\<lparr>rq_Fptr := kmem s b B_next\<rparr>) (s\<lparr>kmem := kmem (put b B_state 0 s), mw := ?w\<rparr>)"
    have "batch_window b s' = Some h" if "kmem s' = kmem s" for s'
      using b(2) 2 window_of_state by (simp add: batch_window_def that)
    then have "try_pull_from_runqueue n s = Some (b, ?s)"
      using b 2(4) u
      by (simp add: try_pull_from_runqueue_def upd_rq_def set_mw_def set_batch_clean_def put_def)
    moreover have "window_inv ?s n bs"
      using window_closed [OF w b(3,2) 2, of ?s] by simp
    ultimately show ?thesis by (intro off [where m = "kmem (put b B_state 0 s)" and w = ?w and s' = ?s]) auto
  qed
qed

end
