(* ===== verification/Ccsp_Ready.thy ===== *)
theory Ccsp_Ready
  imports Ccsp_Queue_Ops
begin

text \<open>
  What the kernel's scheduler promises: for each of 32 priorities a list of ready processes, to which
  processes are added at the end and from whose front they are taken, and the current batch. Each
  operation of the run queues is shown to do this to the lists, and to keep the invariant.
\<close>

section \<open>The abstract scheduler\<close>

record run_view =
  v_ready :: "nat \<Rightarrow> WORD list"
  v_current :: "WORD list"

definition view :: "ghost \<Rightarrow> kern \<Rightarrow> run_view" where
  "view g s = \<lparr>v_ready = (\<lambda>n. if n < 32 then runnable g s n else []), v_current = current g s\<rparr>"

definition set_ready :: "nat \<Rightarrow> WORD list \<Rightarrow> run_view \<Rightarrow> run_view" where
  "set_ready n ps v = v\<lparr>v_ready := (v_ready v)(n := ps)\<rparr>"

definition push :: "nat \<Rightarrow> WORD list \<Rightarrow> run_view \<Rightarrow> run_view" where
  "push n ps v = set_ready n (v_ready v n @ ps) v"

lemma view_eqI:
  assumes "\<And>n. n < 32 \<Longrightarrow> runnable g' s' n = v_ready v n" "\<And>n. \<not> n < 32 \<Longrightarrow> v_ready v n = []"
    "current g' s' = v_current v"
  shows "view g' s' = v"
  using assms by (cases v) (auto simp: view_def fun_eq_iff)

lemma view_simps [simp]:
  "v_current (view g s) = current g s" "n < 32 \<Longrightarrow> v_ready (view g s) n = runnable g s n"
  "\<not> n < 32 \<Longrightarrow> v_ready (view g s) n = []"
  by (simp_all add: view_def)

lemma set_ready_simps [simp]:
  "v_current (set_ready n ps v) = v_current v"
  "v_ready (set_ready n ps v) k = (if k = n then ps else v_ready v k)"
  by (simp_all add: set_ready_def)

lemma push_simps [simp]:
  "v_current (push n ps v) = v_current v"
  "v_ready (push n ps v) k = (if k = n then v_ready v n @ ps else v_ready v k)"
  by (simp_all add: push_def)

section \<open>Priorities not concerned\<close>

definition same_at :: "nat \<Rightarrow> ghost \<Rightarrow> kern \<Rightarrow> ghost \<Rightarrow> kern \<Rightarrow> bool" where
  "same_at k g s g' s' \<longleftrightarrow> queue g' k = queue g k \<and> rq_pending (rq s' k) = rq_pending (rq s k) \<and>
     rq_priofinity (rq s' k) = rq_priofinity (rq s k) \<and>
     (\<forall>b \<in> set (queue g k). cont g' b = cont g b) \<and>
     cont g' (rq_pending (rq s k)) = cont g (rq_pending (rq s k))"

lemma ready_same: "same_at k g s g' s' \<Longrightarrow> runnable g' s' k = runnable g s k"
  by (auto simp: same_at_def runnable_def intro!: arg_cong [of _ _ concat])

lemma mark_same:
  assumes "mark_ok g s k" "same_at k g s g' s'" "calm s s'" "bit (rqstate s) k \<longrightarrow> bit (rqstate s') k"
  shows "mark_ok g' s' k"
  using assms by (simp add: mark_ok_def same_at_def calm_simps)

lemma uniform_same:
  assumes "uniform g s" "calm s s'" "\<And>b. own g' b \<noteq> Elsewhere \<Longrightarrow> own g b \<noteq> Elsewhere \<and> cont g' b = cont g b"
  shows "uniform g' s'"
  using assms by (auto simp: uniform_def calm_simps)

lemma keeps_cont: "keeps g g' \<Longrightarrow> own g' b \<noteq> Elsewhere \<Longrightarrow> cont g' b = [] \<or> own g b \<noteq> Elsewhere \<and> cont g' b = cont g b"
  using keepsD(3,5) [of g g' b] by (auto simp: in_use_def)

lemma uniform_keeps:
  assumes u: "uniform g s" and c: "calm s s'" and k: "keeps g g'"
  shows "uniform g' s'"
  unfolding uniform_def
proof (intro allI impI)
  fix b assume "own g' b \<noteq> Elsewhere"
  from keeps_cont [OF k this]
  show "\<forall>p \<in> set (cont g' b). \<forall>q \<in> set (cont g' b). kmem s' p Priofinity = kmem s' q Priofinity"
  proof
    assume b: "own g b \<noteq> Elsewhere \<and> cont g' b = cont g b"
    then have U: "\<forall>p \<in> set (cont g b). \<forall>q \<in> set (cont g b). kmem s p Priofinity = kmem s q Priofinity"
      using u unfolding uniform_def by blast
    show ?thesis unfolding calm_simps(6) [OF c] conjunct2 [OF b] by (rule U)
  qed simp
qed

lemma core_prio:
  assumes "core X g s" "own g b = Pending n \<or> own g b = Queued n" "p \<in> set (cont g b)"
  shows "prio (kmem s p Priofinity) = n"
  using coreD(8) [OF assms(1)] assms(2,3) unfolding prio_ok_def by (metis fits_simps(2,3))

lemma prio_less [simp]: "prio v < 32"
proof -
  have "(0x1f :: WORD) = mask 5" by (simp add: mask_eq_exp_minus_1)
  then have "prio v = take_bit 5 (unat v)"
    by (simp only: prio_def PPriority_def take_bit_eq_mask [symmetric] unsigned_take_bit_eq)
  also have "\<dots> < 2 ^ 5" by (rule take_bit_nat_less_exp)
  finally show ?thesis by simp
qed

lemma default_affinity [simp]:
  "PAffinity (v OR BuildPriofinity 0 1) = PAffinity v" "v OR BuildPriofinity 0 1 \<noteq> 0"
proof -
  have b: "BuildPriofinity 0 1 = 1" by (simp add: BuildPriofinity_def)
  have "(v OR 1) AND 0xffffffe0 = (v AND 0xffffffe0) OR (1 AND 0xffffffe0)"
    by (rule bit.conj_disj_distrib2)
  then show "PAffinity (v OR BuildPriofinity 0 1) = PAffinity v"
    by (simp add: b PAffinity_def)
  have "bit (v OR BuildPriofinity 0 1) 0" by (simp add: b bit_or_iff)
  then show "v OR BuildPriofinity 0 1 \<noteq> 0" by (metis bit_0_eq bot_apply bot_bool_def)
qed

text \<open>It is enough to look at the priority concerned.\<close>

lemma marks_update:
  assumes "marks_ok g s" "calm s s'" "\<forall>k. k < 32 \<longrightarrow> k \<noteq> n \<longrightarrow> same_at k g s g' s'" "mark_ok g' s' n"
    "\<And>k. k \<noteq> n \<Longrightarrow> bit (rqstate s) k \<Longrightarrow> bit (rqstate s') k"
    "\<And>k. bit (mwstate s') k \<Longrightarrow> k \<noteq> n \<and> bit (mwstate s) k \<or> bit (rqstate s') k"
  shows "marks_ok g' s'"
  unfolding marks_ok_def
proof (intro conjI allI impI)
  fix k :: nat assume k: "k < 32"
  show "mark_ok g' s' k"
  proof (cases "k = n")
    case False
    have "mark_ok g s k" using assms(1) k by (simp add: marks_ok_def)
    moreover have "same_at k g s g' s'" using assms(3) k False by blast
    ultimately show ?thesis using assms(2,5) False by (blast intro: mark_same)
  qed (use assms(4) in simp)
next
  fix k assume "bit (mwstate s') k"
  with assms(1,5,6) show "bit (rqstate s') k" unfolding marks_ok_def by blast
qed

lemma view_at:
  assumes "n < 32" "\<forall>k. k < 32 \<longrightarrow> k \<noteq> n \<longrightarrow> same_at k g s g' s'" "current g' s' = current g s"
  shows "view g' s' = set_ready n (runnable g' s' n) (view g s)"
proof (rule view_eqI)
  fix k :: nat assume k: "k < 32"
  show "runnable g' s' k = v_ready (set_ready n (runnable g' s' n) (view g s)) k"
    using k assms(2) by (cases "k = n") (simp_all add: ready_same)
qed (use assms(1,3) in simp_all)

lemma view_push:
  assumes "n < 32" "\<forall>k. k < 32 \<longrightarrow> k \<noteq> n \<longrightarrow> same_at k g s g' s'" "runnable g' s' n = runnable g s n @ ps"
    "current g' s' = current g s"
  shows "view g' s' = push n ps (view g s)"
  using view_at [OF assms(1,2,4)] assms(1,3) by (simp add: push_def)

section \<open>Pushing a batch\<close>

text \<open>The current batch keeps its processes, and no process that was idle is queued.\<close>

definition keeps_curb :: "ghost \<Rightarrow> kern \<Rightarrow> ghost \<Rightarrow> kern \<Rightarrow> bool" where
  "keeps_curb g s g' s' \<longleftrightarrow> calm s s' \<and> (own g' (curb s) = InCurb \<longleftrightarrow> own g (curb s) = InCurb) \<and>
     (own g (curb s) = InCurb \<longrightarrow> cont g' (curb s) = cont g (curb s)) \<and> emptied g' = emptied g \<and> (\<forall>w. unqueued g w \<longrightarrow> unqueued g' w)"

lemma apart_trans: "keeps_curb g s g' s' \<Longrightarrow> keeps_curb g' s' g'' s'' \<Longrightarrow> keeps_curb g s g'' s''"
  unfolding keeps_curb_def by (auto intro: calm_trans simp: calm_simps)

lemma apart_current: "keeps_curb g s g' s' \<Longrightarrow> current g' s' = current g s"
  unfolding keeps_curb_def current_def by (auto simp: calm_simps)

lemma joins_simps:
  assumes "joins n s s'"
  shows "calm s s'" "dispatches s' = dispatches s" "rqstate s' = rqstate s"
    "rq_priofinity (rq s' k) = rq_priofinity (rq s k)" "rq_pending (rq s' k) = rq_pending (rq s k)"
    "allocs s' = allocs s"
  using assms by (simp_all add: joins_def)

text \<open>There is as much room for new batches as before.\<close>

definition spares :: "ghost \<Rightarrow> kern \<Rightarrow> ghost \<Rightarrow> kern \<Rightarrow> bool" where
  "spares g s g' s' \<longleftrightarrow> (\<forall>k. room k g s \<longrightarrow> room k g' s')"

lemma sparesI:
  "length (frees g) \<le> length (frees g') \<Longrightarrow> limit g' = limit g \<Longrightarrow> allocs s' = allocs s \<Longrightarrow> spares g s g' s'"
  unfolding spares_def by (blast intro: room_same)

lemma sparesD: "spares g s g' s' \<Longrightarrow> room k g s \<Longrightarrow> room k g' s'"
  by (simp add: spares_def)

lemma push_batch_full:
  assumes st: "steady g s" and b: "own g b = Detached" "cont g b \<noteq> []"
    and pr: "\<forall>p \<in> set (cont g b). kmem s p Priofinity = v"
    and full: "rq_priofinity (rq s (prio v)) \<noteq> 0"
  shows "\<exists>s' g'. push_batch v b s = Some s' \<and> steady g' s' \<and> keeps_curb g s g' s' \<and> spares g s g' s' \<and>
    view g' s' = push (prio v) (cont g b) (view g s)"
proof -
  have core: "core {} g s" and u: "uniform g s" and m: "marks_ok g s" using st by (simp_all add: steady_def)
  define n where "n = prio v"
  have n: "n < 32" by (simp add: n_def)
  define old where "old = rq_pending (rq s n)"
  have old: "own g old = Pending n" using core_pending [OF core n] by (simp add: old_def)
  have mk: "mark_ok g s n" using m n by (simp add: marks_ok_def)
  have oc: "cont g old \<noteq> []" using full mk by (simp add: mark_ok_def old_def n_def)
  have bo: "b \<noteq> old" using old b by auto
  have bc: "b \<noteq> curb s" using core_apart(3) [OF core, of b] b by simp
  have oc2: "old \<noteq> curb s" using core_apart(3) [OF core, of old] old by simp
  let ?g1 = "move old Detached g"
  have c1: "core (insert n {}) ?g1 s" unfolding old_def by (rule detach_pending [OF core n]) simp
  let ?g2 = "move b (Pending n) ?g1"
  let ?s2 = "upd_rq n (\<lambda>q. q\<lparr>rq_priofinity := v OR BuildPriofinity 0 1, rq_pending := b\<rparr>) s"
  have "core ({n} - {n}) ?g2 ?s2"
    using c1 b bo pr by (intro attach_pending n) (auto simp: n_def)
  then have c2: "core {} ?g2 ?s2" by simp
  have pold: "\<forall>p \<in> set (cont ?g2 old). prio (kmem ?s2 p Priofinity) = n"
    using core_prio [OF core disjI1 [OF old]] by simp
  obtain s3 where s3: "add_to_runqueue (rq_priofinity (rq s n)) n old ?s2 = Some s3"
    "core {} (set_queue n (queue ?g2 n @ [old]) (move old (Queued n) ?g2)) s3" "joins n ?s2 s3"
    "mwstate s3 = mwstate ?s2 \<or> mwstate s3 = set_bit n (mwstate ?s2)"
    using add_to_runqueue_core [OF c2 _ _ n pold, of "rq_priofinity (rq s n)"] bo oc by auto
  let ?g3 = "set_queue n (queue ?g2 n @ [old]) (move old (Queued n) ?g2)"
  note J = joins_simps [OF s3(3)]
  have calm: "calm s s3" using J(1) by (simp add: calm_def)
  have run: "push_batch v b s = Some s3"
    using full s3(1) by (simp add: push_batch_def Let_def n_def old_def)
  have rq3: "rq_priofinity (rq s3 k) = (if k = n then v OR BuildPriofinity 0 1 else rq_priofinity (rq s k))"
    "rq_pending (rq s3 k) = (if k = n then b else rq_pending (rq s k))" for k
    using J(4,5) [of k] by simp_all
  have same: "\<forall>k. k < 32 \<longrightarrow> k \<noteq> n \<longrightarrow> same_at k g s ?g3 s3"
    by (simp add: same_at_def rq3)
  have bit: "bit (rqstate s) n" using mk oc by (simp add: mark_ok_def old_def)
  then have "mark_ok ?g3 s3 n" using b pr J(3) by (simp add: mark_ok_def rq3 calm_simps [OF calm])
  then have "marks_ok ?g3 s3"
  proof (rule marks_update [OF m calm same])
    fix k assume "bit (mwstate s3) k"
    then show "k \<noteq> n \<and> bit (mwstate s) k \<or> bit (rqstate s3) k"
      using s3(4) bit J(3) n by (auto simp: bit_set_bit32)
  qed (simp_all add: J(3))
  moreover have "uniform ?g3 s3"
    by (rule uniform_same [OF u calm]) (use b old in \<open>auto split: if_splits\<close>)
  ultimately have "steady ?g3 s3" using s3(2) by (simp add: steady_def)
  moreover have ap: "keeps_curb g s ?g3 s3"
    using calm bc oc2 b old bo by (auto simp: keeps_curb_def unqueued_def)
  moreover have "view ?g3 s3 = push n (cont g b) (view g s)"
    by (rule view_push [OF n same _ apart_current [OF ap]]) (simp add: runnable_def rq3 old_def)
  moreover have "spares g s ?g3 s3" by (rule sparesI) (simp_all add: J(6))
  ultimately show ?thesis using run n_def by blast
qed

lemma push_batch_empty:
  assumes st: "steady g s" and b: "own g b = Detached" "cont g b \<noteq> []"
    and pr: "\<forall>p \<in> set (cont g b). kmem s p Priofinity = v"
    and empty: "rq_priofinity (rq s (prio v)) = 0"
  shows "\<exists>s' g'. push_batch v b s = Some s' \<and> steady g' s' \<and> keeps_curb g s g' s' \<and> spares g s g' s' \<and>
    view g' s' = push (prio v) (cont g b) (view g s)"
proof -
  have core: "core {} g s" and u: "uniform g s" and m: "marks_ok g s" using st by (simp_all add: steady_def)
  define n where "n = prio v"
  have n: "n < 32" by (simp add: n_def)
  define old where "old = rq_pending (rq s n)"
  have old: "own g old = Pending n" using core_pending [OF core n] by (simp add: old_def)
  have mk: "mark_ok g s n" using m n by (simp add: marks_ok_def)
  have oc: "cont g old = []" using empty mk by (simp add: mark_ok_def old_def n_def)
  have bo: "b \<noteq> old" using old b by auto
  have bc: "b \<noteq> curb s" using core_apart(3) [OF core, of b] b by simp
  have oc2: "old \<noteq> curb s" using core_apart(3) [OF core, of old] old by simp
  let ?g1 = "move old Detached g"
  have c1: "core (insert n {}) ?g1 s" unfolding old_def by (rule detach_pending [OF core n]) simp
  let ?g2 = "move old Free ?g1\<lparr>frees := old # frees ?g1\<rparr>"
  obtain s2 where s2: "release_clean_batch old s = Some s2" "frees_only s s2" "core {n} ?g2 s2"
    using release_clean_batch_core [OF c1, of old] oc by auto
  note F = frees_only_simps [OF s2(2)]
  let ?s3 = "upd_rq n (\<lambda>q. q\<lparr>rq_priofinity := v OR BuildPriofinity 0 1, rq_pending := b\<rparr>) s2"
  let ?g3 = "move b (Pending n) ?g2"
  have "core ({n} - {n}) ?g3 ?s3"
    using s2(3) b bo pr F(11) by (intro attach_pending n) (auto simp: n_def)
  then have c3: "core {} ?g3 ?s3" by simp
  let ?s4 = "?s3\<lparr>rqstate := set_bit n (rqstate ?s3)\<rparr>"
  have c4: "core {} ?g3 ?s4" by (rule core_same [OF c3]) simp_all
  have "calm s s2" using s2(2) by (rule calm_frees)
  then have calm: "calm s ?s4" by (simp add: calm_def)
  have run: "push_batch v b s = Some ?s4"
    using empty s2(1) by (simp add: push_batch_def Let_def n_def old_def)
  have rq4: "rq_priofinity (rq ?s4 k) = (if k = n then v OR BuildPriofinity 0 1 else rq_priofinity (rq s k))"
    "rq_pending (rq ?s4 k) = (if k = n then b else rq_pending (rq s k))" for k
    by (simp_all add: F)
  have same: "\<forall>k. k < 32 \<longrightarrow> k \<noteq> n \<longrightarrow> same_at k g s ?g3 ?s4"
    by (simp add: same_at_def F)
  have "mark_ok ?g3 ?s4 n"
    using b pr n by (simp add: mark_ok_def F bit_set_bit32)
  then have "marks_ok ?g3 ?s4"
  proof (rule marks_update [OF m calm same])
    fix k assume "bit (mwstate ?s4) k"
    then show "k \<noteq> n \<and> bit (mwstate s) k \<or> bit (rqstate ?s4) k"
      using n by (auto simp: bit_set_bit32 F)
  qed (use n in \<open>simp_all add: bit_set_bit32 F\<close>)
  moreover have "uniform ?g3 ?s4"
    by (rule uniform_same [OF u calm]) (use b old in \<open>auto split: if_splits\<close>)
  ultimately have "steady ?g3 ?s4" using c4 by (simp add: steady_def)
  moreover have ap: "keeps_curb g s ?g3 ?s4"
    using calm bc oc2 b old bo by (auto simp: keeps_curb_def unqueued_def)
  moreover have "view ?g3 ?s4 = push n (cont g b) (view g s)"
    using oc by (intro view_push [OF n same _ apart_current [OF ap]]) (simp add: runnable_def F old_def)
  moreover have "allocs s2 = allocs s" using s2(1) by (auto simp: release_clean_batch_def st_def split: if_splits)
  then have "spares g s ?g3 ?s4" by (intro sparesI) simp_all
  ultimately show ?thesis using run n_def by blast
qed

lemma push_batch_steady:
  assumes "steady g s" "own g b = Detached" "cont g b \<noteq> []"
    "\<forall>p \<in> set (cont g b). kmem s p Priofinity = v"
  obtains s' g' where "push_batch v b s = Some s'" "steady g' s'" "keeps_curb g s g' s'" "spares g s g' s'"
    "view g' s' = push (prio v) (cont g b) (view g s)"
  using push_batch_full [OF assms] push_batch_empty [OF assms] by blast

section \<open>A new pending batch\<close>

lemma core_upd_priofinity:
  assumes "core X g s"
  shows "core X g (upd_rq n (\<lambda>q. q\<lparr>rq_priofinity := v\<rparr>) s)"
proof -
  note D = coreD [OF assms]
  have "pend_ok X g (upd_rq n (\<lambda>q. q\<lparr>rq_priofinity := v\<rparr>) s)"
    using D(3) by (auto simp: pend_ok_def)
  moreover have "queue_ok g (upd_rq n (\<lambda>q. q\<lparr>rq_priofinity := v\<rparr>) s)"
    using D(4) by (auto simp: queue_ok_def)
  ultimately show ?thesis using D by (intro coreI) (simp_all add: upd_rq_parts)
qed

definition renews :: "nat \<Rightarrow> ghost \<Rightarrow> kern \<Rightarrow> ghost \<Rightarrow> kern \<Rightarrow> bool" where
  "renews n g s g' s' \<longleftrightarrow> calm s s' \<and> rqstate s' = rqstate s \<and> mwstate s' = mwstate s \<and> dispatches s' = dispatches s \<and>
     queue g' = queue g \<and> emptied g' = emptied g \<and>
     (\<forall>k. rq_priofinity (rq s' k) = rq_priofinity (rq s k)) \<and>
     (\<forall>k. k \<noteq> n \<longrightarrow> rq_pending (rq s' k) = rq_pending (rq s k)) \<and>
     cont g' (rq_pending (rq s' n)) = [] \<and>
     (\<forall>b. in_use (own g b) \<longrightarrow> own g' b = own g b \<and> cont g' b = cont g b) \<and>
     (\<forall>b. own g' b \<noteq> Elsewhere \<longrightarrow> cont g' b = [] \<or> own g b \<noteq> Elsewhere \<and> cont g' b = cont g b) \<and>
     (\<forall>b. own g b \<noteq> InCurb \<longrightarrow> own g' b \<noteq> InCurb) \<and> stays g s g' s'"

lemma renewsD:
  assumes "renews n g s g' s'"
  shows "calm s s'" "rqstate s' = rqstate s" "mwstate s' = mwstate s" "dispatches s' = dispatches s"
    "queue g' = queue g" "emptied g' = emptied g" "rq_priofinity (rq s' k) = rq_priofinity (rq s k)"
    "k \<noteq> n \<Longrightarrow> rq_pending (rq s' k) = rq_pending (rq s k)" "cont g' (rq_pending (rq s' n)) = []"
    "in_use (own g b) \<Longrightarrow> own g' b = own g b" "in_use (own g b) \<Longrightarrow> cont g' b = cont g b"
    "own g' b \<noteq> Elsewhere \<Longrightarrow> cont g' b = [] \<or> own g b \<noteq> Elsewhere \<and> cont g' b = cont g b"
    "own g b \<noteq> InCurb \<Longrightarrow> own g' b \<noteq> InCurb" "stays g s g' s'"
  using assms unfolding renews_def by blast+

lemma in_use_simps [simp]:
  "in_use InCurb" "in_use Detached" "in_use (Pending n)" "in_use (Queued n)" "\<not> in_use Free" "\<not> in_use Elsewhere"
  by (simp_all add: in_use_def)

lemma renews_apart: "renews n g s g' s' \<Longrightarrow> keeps_curb g s g' s'"
proof -
  assume r: "renews n g s g' s'"
  note R = renewsD [OF r]
  have "unqueued g' w" if "unqueued g w" for w
    using that R(12) unfolding unqueued_def by (metis empty_iff list.set(1))
  then show "keeps_curb g s g' s'"
    using R(1,6,13) R(10,11) [of "curb s"] by (auto simp: keeps_curb_def)
qed

lemma renews_uniform:
  assumes u: "uniform g s" and r: "renews n g s g' s'"
  shows "uniform g' s'"
  unfolding uniform_def
proof (intro allI impI)
  fix b assume "own g' b \<noteq> Elsewhere"
  from renewsD(12) [OF r this]
  show "\<forall>p \<in> set (cont g' b). \<forall>q \<in> set (cont g' b). kmem s' p Priofinity = kmem s' q Priofinity"
  proof
    assume b: "own g b \<noteq> Elsewhere \<and> cont g' b = cont g b"
    then have U: "\<forall>p \<in> set (cont g b). \<forall>q \<in> set (cont g b). kmem s p Priofinity = kmem s q Priofinity"
      using u unfolding uniform_def by blast
    show ?thesis unfolding calm_simps(6) [OF renewsD(1) [OF r]] conjunct2 [OF b] by (rule U)
  qed simp
qed

lemma renews_queued:
  assumes "core X g s" "renews n g s g' s'" "k < 32"
  shows "\<forall>b \<in> set (queue g k). cont g' b = cont g b"
proof
  fix b assume "b \<in> set (queue g k)"
  then have "own g b = Queued k" using coreD(4) [OF assms(1)] assms(3) by (simp add: queue_ok_def)
  then show "cont g' b = cont g b" by (intro renewsD(11) [OF assms(2)]) simp
qed

lemma renews_same:
  assumes "core X g s" "renews n g s g' s'" "k < 32" "k \<noteq> n" "k \<notin> X"
  shows "same_at k g s g' s'"
proof -
  have "own g (rq_pending (rq s k)) = Pending k" using assms by (intro core_pending [OF assms(1)])
  then have "cont g' (rq_pending (rq s k)) = cont g (rq_pending (rq s k))"
    by (intro renewsD(11) [OF assms(2)]) simp
  with renews_queued [OF assms(1-3)] assms(4) show ?thesis
    by (simp add: same_at_def renewsD [OF assms(2)])
qed

lemma renew_pending:
  assumes core: "core X g s" and n: "n < 32" "n \<in> X" and m: "room (Suc k) g s"
  obtains b s1 g' where "allocate_batch s = Some (b, s1)"
    "core (X - {n}) g' (upd_rq n (\<lambda>q. q\<lparr>rq_pending := b\<rparr>) s1)"
    "renews n g s g' (upd_rq n (\<lambda>q. q\<lparr>rq_pending := b\<rparr>) s1)" "room k g' (upd_rq n (\<lambda>q. q\<lparr>rq_pending := b\<rparr>) s1)"
proof -
  obtain b s1 g1 where a: "allocate_batch s = Some (b, s1)" "frees_only s s1" "core X g1 s1" "keeps g g1"
    "own g1 b = Detached" "cont g1 b = []" "\<not> in_use (own g b)" "room k g1 s1" "stays g s g1 s1"
    using allocate_batch_core [OF core m] .
  note F = frees_only_simps [OF a(2)]
  let ?s = "upd_rq n (\<lambda>q. q\<lparr>rq_pending := b\<rparr>) s1" and ?g = "move b (Pending n) g1"
  have e: "?s = upd_rq n (\<lambda>q. q\<lparr>rq_priofinity := rq_priofinity (rq s1 n), rq_pending := b\<rparr>) s1"
    by (simp add: upd_rq_def)
  have "core (X - {n}) ?g ?s" unfolding e by (rule attach_pending [OF a(3) n a(5)]) (simp add: a(6))
  moreover have calm: "calm s ?s" using calm_frees [OF a(2)] by (simp add: calm_def)
  have "stays g1 s1 ?g ?s" using a(5) by (intro staysI) (auto simp: upd_rq_def)
  then have "stays g s ?g ?s" by (rule stays_trans [OF a(9)])
  with calm have "renews n g s ?g ?s"
    using a(6,7) keepsD [OF a(4)] keeps_cont [OF a(4)] by (auto simp: renews_def F in_use_def) 
  moreover have "room k ?g ?s" using a(8) by (simp add: room_def)
  ultimately show thesis using that a(1) by blast
qed

section \<open>Picking a batch\<close>

text \<open>
  The batch picked holds the first processes that are ready; null when none is, and then the priority
  is taken from the masks.
\<close>

lemma pick_queued:
  assumes st: "steady g s" and n: "n < 32" and q: "queue g n = b # bs" and room: "room (Suc k) g s"
  shows "\<exists>s' g'. pick_batch n s = Some (b, s') \<and> own g' b = Detached \<and> cont g' b \<noteq> [] \<and>
    steady g' s' \<and> keeps_curb g s g' s' \<and> room k g' s' \<and> runnable g s n = cont g' b @ runnable g' s' n \<and>
    view g' s' = set_ready n (runnable g' s' n) (view g s)"
proof -
  have core: "core {} g s" and u: "uniform g s" and m: "marks_ok g s" using st by (simp_all add: steady_def)
  let ?g = "set_queue n bs (move b Detached g)"
  obtain s' where s': "try_pull_from_runqueue n s = Some (b, s')" "core {} ?g s'" "joins n s s'"
    "mwstate s' = mwstate s"
    using try_pull_queued_core [OF core n q] by blast
  note J = joins_simps [OF s'(3)]
  have b: "own g b = Queued n" "cont g b \<noteq> []"
    using coreD(4) [OF core] n q by (simp_all add: queue_ok_def)
  have nz: "b \<noteq> 0" using core_nz [OF core] b(1) by simp
  have bc: "b \<noteq> curb s" using core_apart(3) [OF core, of b] b(1) by simp
  have run: "pick_batch n s = Some (b, s')" using s'(1) nz by (subst pick_batch.simps) simp
  have same: "\<forall>k. k < 32 \<longrightarrow> k \<noteq> n \<longrightarrow> same_at k g s ?g s'" by (simp add: same_at_def J)
  have mk: "mark_ok g s n" using m n by (simp add: marks_ok_def)
  have mk': "mark_ok ?g s' n" using mk by (simp add: mark_ok_def J q calm_simps [OF J(1)])
  have "marks_ok ?g s'"
    by (rule marks_update [OF m J(1) same mk']) (use m in \<open>auto simp: J s'(4) marks_ok_def\<close>)
  moreover have "uniform ?g s'"
    by (rule uniform_same [OF u J(1)]) (use b(1) in \<open>auto split: if_splits\<close>)
  ultimately have "steady ?g s'" using s'(2) by (simp add: steady_def)
  moreover have ap: "keeps_curb g s ?g s'" using J(1) bc b(1) by (auto simp: keeps_curb_def unqueued_def)
  moreover have "runnable g s n = cont ?g b @ runnable ?g s' n" by (simp add: runnable_def q J)
  moreover have "room k ?g s'" using room J(6) by (auto simp: room_def)
  ultimately show ?thesis
    using run b(2) view_at [OF n same apart_current [OF ap]] by (intro exI [of _ s'] exI [of _ ?g]) simp
qed

lemma pick_pending:
  assumes st: "steady g s" and n: "n < 32" and q: "queue g n = []" "rq_priofinity (rq s n) \<noteq> 0" and room: "room (Suc k) g s"
  defines "b \<equiv> rq_pending (rq s n)"
  shows "\<exists>s' g'. pick_batch n s = Some (b, s') \<and> own g' b = Detached \<and> cont g' b \<noteq> [] \<and>
    steady g' s' \<and> keeps_curb g s g' s' \<and> room k g' s' \<and> runnable g s n = cont g' b @ runnable g' s' n \<and>
    view g' s' = set_ready n (runnable g' s' n) (view g s)"
proof -
  have core: "core {} g s" and u: "uniform g s" and m: "marks_ok g s" using st by (simp_all add: steady_def)
  have mk: "mark_ok g s n" using m n by (simp add: marks_ok_def)
  have b: "own g b = Pending n" "cont g b \<noteq> []"
    using core_pending [OF core n] q(2) mk by (simp_all add: b_def mark_ok_def)
  have nz: "b \<noteq> 0" using core_nz [OF core] b(1) by simp
  have bc: "b \<noteq> curb s" using core_apart(3) [OF core, of b] b(1) by simp
  have front: "rq_Fptr (rq s n) = 0" using coreD(4) [OF core] n q(1) unfolding queue_ok_def by (metis chain.simps(1))
  let ?g1 = "move b Detached g" and ?s1 = "upd_rq n (\<lambda>q. q\<lparr>rq_priofinity := 0\<rparr>) s"
  have "core (insert n {}) ?g1 s" unfolding b_def by (rule detach_pending [OF core n]) simp
  then have c1: "core {n} ?g1 ?s1" by (intro core_upd_priofinity) simp
  have "room (Suc k) ?g1 ?s1" using room by (simp add: room_def)
  from renew_pending [OF c1 n _ this] obtain c s2 g' where r: "allocate_batch ?s1 = Some (c, s2)"
    "core {} g' (upd_rq n (\<lambda>q. q\<lparr>rq_pending := c\<rparr>) s2)"
    "renews n ?g1 ?s1 g' (upd_rq n (\<lambda>q. q\<lparr>rq_pending := c\<rparr>) s2)" (is "renews n _ _ _ ?s")
    "room k g' (upd_rq n (\<lambda>q. q\<lparr>rq_pending := c\<rparr>) s2)"
    by auto
  have run: "pick_batch n s = Some (b, ?s)"
    using nz front q(2) r(1) by (subst pick_batch.simps) (simp add: try_pull_from_runqueue_def b_def)
  note R = renewsD [OF r(3)]
  have g': "own g' b = Detached" "cont g' b = cont g b" using R(10,11) [of b] by simp_all
  have calm: "calm s ?s" using R(1) by (simp add: calm_def)
  have same: "\<forall>k. k < 32 \<longrightarrow> k \<noteq> n \<longrightarrow> same_at k g s g' ?s"
    using renews_same [OF c1 r(3)] by (simp add: same_at_def)
  have mk': "mark_ok g' ?s n" using R(5,9) R(7) [of n] by (simp add: mark_ok_def q)
  have "marks_ok g' ?s"
    by (rule marks_update [OF m calm same mk']) (use m R(2,3) in \<open>auto simp: marks_ok_def\<close>)
  moreover have "uniform g' ?s"
  proof (rule renews_uniform [OF _ r(3)])
    show "uniform ?g1 ?s1"
      by (rule uniform_same [OF u]) (use b(1) in \<open>auto simp: calm_def split: if_splits\<close>)
  qed
  ultimately have "steady g' ?s" using r(2) by (simp add: steady_def)
  moreover have "keeps_curb g s ?g1 ?s1" using bc b(1) by (auto simp: keeps_curb_def unqueued_def calm_def)
  then have ap: "keeps_curb g s g' ?s" by (rule apart_trans [OF _ renews_apart [OF r(3)]])
  moreover have "runnable g s n = cont g' b" "runnable g' ?s n = []"
    using R(5,9) g'(2) by (simp_all add: runnable_def q flip: b_def)
  ultimately show ?thesis
    using run b(2) g' r(4) view_at [OF n same apart_current [OF ap]] by (intro exI [of _ ?s] exI [of _ g']) simp
qed

lemma pick_nothing:
  assumes st: "steady g s" and n: "n < 32" and q: "queue g n = []" "rq_priofinity (rq s n) = 0"
  shows "\<exists>s'. pick_batch n s = Some (0, s') \<and> steady g s' \<and> keeps_curb g s g s' \<and> runnable g s n = [] \<and>
    view g s' = view g s \<and> rqstate s' = unset_bit n (rqstate s) \<and> allocs s' = allocs s"
proof -
  have core: "core {} g s" and u: "uniform g s" and m: "marks_ok g s" using st by (simp_all add: steady_def)
  have front: "rq_Fptr (rq s n) = 0" using coreD(4) [OF core] n q(1) unfolding queue_ok_def by (metis chain.simps(1))
  let ?s = "s\<lparr>rqstate := unset_bit n (rqstate s), mwstate := unset_bit n (mwstate s)\<rparr>"
  have run: "pick_batch n s = Some (0, ?s)"
    using front q(2) by (subst pick_batch.simps) (simp add: try_pull_from_runqueue_def)
  have c: "core {} g ?s" by (rule core_same [OF core]) simp_all
  have calm: "calm s ?s" by (simp add: calm_def)
  have same: "\<forall>k. k < 32 \<longrightarrow> k \<noteq> n \<longrightarrow> same_at k g s g ?s" by (simp add: same_at_def)
  have mk: "mark_ok g s n" using m n by (simp add: marks_ok_def)
  have mk': "mark_ok g ?s n" using mk q by (simp add: mark_ok_def)
  have "marks_ok g ?s"
    by (rule marks_update [OF m calm same mk']) (use m in \<open>auto simp: marks_ok_def bit_unset_bit32\<close>)
  moreover have "uniform g ?s" by (rule uniform_same [OF u calm]) simp
  ultimately have "steady g ?s" using c by (simp add: steady_def)
  moreover have "keeps_curb g s g ?s" using calm by (simp add: keeps_curb_def)
  moreover have "runnable g ?s k = runnable g s k" "current g ?s = current g s" for k
    by (simp_all add: runnable_def current_def)
  then have "view g ?s = view g s" unfolding view_def by presburger
  moreover have "runnable g s n = []" using q mk by (simp add: runnable_def mark_ok_def)
  ultimately show ?thesis using run by (intro exI [of _ ?s]) simp
qed

lemma pick_batch_steady:
  assumes st: "steady g s" and n: "n < 32" and room: "room (Suc k) g s"
  obtains (Nothing) s' where "pick_batch n s = Some (0, s')" "steady g s'" "keeps_curb g s g s'" "runnable g s n = []"
      "view g s' = view g s" "rqstate s' = unset_bit n (rqstate s)" "room (Suc k) g s'"
    | (Batch) b s' g' where "pick_batch n s = Some (b, s')" "b \<noteq> 0" "own g' b = Detached" "cont g' b \<noteq> []"
      "steady g' s'" "keeps_curb g s g' s'" "runnable g s n = cont g' b @ runnable g' s' n"
      "view g' s' = set_ready n (runnable g' s' n) (view g s)" "room k g' s'"
proof -
  have nz: "b \<noteq> 0" if "steady g' s'" "own g' b = Detached" for b g' s'
    using that core_nz [of "{}" g' s' b] by (simp add: steady_def)
  consider b bs where "queue g n = b # bs" | "queue g n = []" "rq_priofinity (rq s n) \<noteq> 0"
    | "queue g n = []" "rq_priofinity (rq s n) = 0"
    by (cases "queue g n") auto
  then show thesis
  proof cases
    case 1 from pick_queued [OF st n 1 room] Batch nz show thesis by blast
  next
    case 2 from pick_pending [OF st n 2 room] Batch nz show thesis by blast
  next
    case 3
    from pick_nothing [OF st n 3] obtain s' where s': "pick_batch n s = Some (0, s')" "steady g s'" "keeps_curb g s g s'"
      "runnable g s n = []" "view g s' = view g s" "rqstate s' = unset_bit n (rqstate s)" "allocs s' = allocs s" by blast
    moreover have "room (Suc k) g s'" using room s'(7) by (simp add: room_def)
    ultimately show thesis by (intro Nothing)
  qed
qed

section \<open>Making a process ready\<close>

lemma affinity_bits: "push_bit 5 (PAffinity x) = x AND 0xffffffe0"
proof -
  have m: "(0xffffffe0 :: WORD) = NOT (mask 5)" by (simp add: mask_eq_exp_minus_1)
  show ?thesis
    unfolding PAffinity_def m
    by (rule bit_word_eqI) (auto simp: bit_push_bit_iff bit_drop_bit_eq bit_and_iff bit_not_iff bit_mask_iff)
qed

lemma priofinity_parts:
  assumes "PAffinity x = PAffinity y" "prio x = prio y"
  shows "x = y"
proof -
  have m: "(0x1f :: WORD) = NOT 0xffffffe0" by simp
  have "x AND 0xffffffe0 = y AND 0xffffffe0"
    using assms(1) affinity_bits [of x] affinity_bits [of y] by simp
  moreover have "x AND NOT 0xffffffe0 = y AND NOT 0xffffffe0"
    using assms(2) unfolding prio_def PPriority_def m [symmetric] by (simp add: word_unat_eq_iff)
  moreover have "z = (z AND 0xffffffe0) OR (z AND NOT 0xffffffe0)" for z :: WORD
    by (simp only: bit.conj_disj_distrib [symmetric] bit.disj_cancel_right bit.conj_one_right)
  ultimately show ?thesis by metis
qed

lemma PHasAffinity_iff: "PHasAffinity x \<longleftrightarrow> PAffinity x \<noteq> 0"
proof
  assume "PHasAffinity x"
  then show "PAffinity x \<noteq> 0" using affinity_bits [of x] by (auto simp: PHasAffinity_def)
next
  assume "PAffinity x \<noteq> 0"
  moreover have "PAffinity x = 0" if "x AND 0xffffffe0 = 0" unfolding PAffinity_def that by simp
  ultimately show "PHasAffinity x" unfolding PHasAffinity_def by blast
qed

text \<open>Only batches change when one is queued.\<close>

lemma add_to_runqueue_foreign:
  assumes run: "add_to_runqueue v n b s = Some s'" and core: "core X g s" and n: "n < 32"
    and b: "own g b \<noteq> Elsewhere" and c: "own g c = Elsewhere"
  shows "kmem s' c k = kmem s c k"
proof -
  have last: "c \<noteq> rq_Bptr (rq s n)" if "rq_Fptr (rq s n) \<noteq> 0"
  proof -
    have "queue g n \<noteq> []" using coreD(4) [OF core] n that by (auto simp: queue_ok_def)
    then have "rq_Bptr (rq s n) \<in> set (queue g n)" using coreD(4) [OF core] n by (simp add: queue_ok_def)
    then show ?thesis using core_apart(1) [OF core n] c by auto
  qed
  define w where "w = unat (increment_mwindow_head (MWINDOW_HEAD (mw s n 0)))"
  have old: "c \<noteq> mw s n w" if "mw s n w \<noteq> 0"
  proof -
    have "window_inv s n (queue g n)" using coreD(7) [OF core] n by (simp add: win_ok_iff)
    moreover from this have "1 \<le> w" "w \<le> 15"
      using next_window [of "MWINDOW_HEAD (mw s n 0)"] by (simp_all add: w_def window_inv_def word_le_nat_alt)
    ultimately have "mw s n w \<in> set (queue g n)" using that by (simp add: window_inv_def)
    then show ?thesis using core_apart(1) [OF core n] c by auto
  qed
  have "c \<noteq> b" using b c by auto
  with last old [unfolded w_def] run show ?thesis
    by (auto simp: add_to_runqueue_def add_affine_batch_to_runqueue_def add_to_visible_runqueue_def add_to_local_runqueue_def
        set_batch_clean_def set_batch_window_def set_mw_def upd_rq_def st_def Let_def bind_eq_Some_conv split: if_splits)
qed

lemma add_to_runqueue_links: "add_to_runqueue v n b s = Some s' \<Longrightarrow> kmem s' x Link = kmem s x Link"
  by (auto simp: add_to_runqueue_def add_affine_batch_to_runqueue_def add_to_visible_runqueue_def add_to_local_runqueue_def
      set_batch_clean_def set_batch_window_def set_mw_def upd_rq_def st_def Let_def bind_eq_Some_conv split: if_splits)

lemma frees_only_links: "allocate_batch s = Some (b, s') \<Longrightarrow> core X g s \<Longrightarrow> room (Suc k) g s \<Longrightarrow> kmem s' x Link = kmem s x Link"
  by (erule (1) allocate_batch_core) (simp add: frees_only_def)

text \<open>The pending batch is queued, and an empty one takes its place.\<close>

lemma flush_pending:
  assumes st: "steady g s" and n: "n < 32" and full: "rq_priofinity (rq s n) \<noteq> 0" and room: "room (Suc k) g s"
  obtains s1 c s2 g' where
    "add_to_runqueue (rq_priofinity (rq s n)) n (rq_pending (rq s n)) s = Some s1"
    "allocate_batch s1 = Some (c, s2)"
    "core {} g' (upd_rq n (\<lambda>q. q\<lparr>rq_pending := c\<rparr>) s2)"
    "uniform g' (upd_rq n (\<lambda>q. q\<lparr>rq_pending := c\<rparr>) s2)"
    "keeps_curb g s g' (upd_rq n (\<lambda>q. q\<lparr>rq_pending := c\<rparr>) s2)"
    "\<forall>k. k < 32 \<longrightarrow> k \<noteq> n \<longrightarrow> same_at k g s g' (upd_rq n (\<lambda>q. q\<lparr>rq_pending := c\<rparr>) s2)"
    "runnable g' (upd_rq n (\<lambda>q. q\<lparr>rq_pending := c\<rparr>) s2) n = runnable g s n" "cont g' c = []"
    "rqstate s2 = rqstate s" "dispatches s2 = dispatches s"
    "mwstate s2 = mwstate s \<or> mwstate s2 = set_bit n (mwstate s)" "bit (rqstate s) n"
    "room k g' (upd_rq n (\<lambda>q. q\<lparr>rq_pending := c\<rparr>) s2)" "stays g s g' (upd_rq n (\<lambda>q. q\<lparr>rq_pending := c\<rparr>) s2)"
    "\<forall>x. kmem (upd_rq n (\<lambda>q. q\<lparr>rq_pending := c\<rparr>) s2) x Link = kmem s x Link"
proof -
  have core: "core {} g s" and u: "uniform g s" and m: "marks_ok g s" using st by (simp_all add: steady_def)
  have mk: "mark_ok g s n" using m n by (simp add: marks_ok_def)
  define b where "b = rq_pending (rq s n)"
  have b: "own g b = Pending n" "cont g b \<noteq> []"
    using core_pending [OF core n] full mk by (simp_all add: b_def mark_ok_def)
  have bc: "b \<noteq> curb s" using core_apart(3) [OF core, of b] b(1) by simp
  let ?g1 = "move b Detached g"
  have c1: "core {n} ?g1 s" using detach_pending [OF core n] by (simp add: b_def)
  have "\<forall>p \<in> set (cont ?g1 b). prio (kmem s p Priofinity) = n"
    using core_prio [OF core disjI1 [OF b(1)]] by simp
  from add_to_runqueue_core [OF c1 _ _ n this, of "rq_priofinity (rq s n)"] b(2)
  obtain s1 where s1: "add_to_runqueue (rq_priofinity (rq s n)) n b s = Some s1"
    "core {n} (set_queue n (queue g n @ [b]) (move b (Queued n) ?g1)) s1" (is "core _ ?g2 _")
    "joins n s s1" "mwstate s1 = mwstate s \<or> mwstate s1 = set_bit n (mwstate s)"
    by auto
  note J = joins_simps [OF s1(3)]
  have "room (Suc k) ?g2 s1" using room J(6) by (simp add: room_def)
  from renew_pending [OF s1(2) n _ this] obtain c s2 g' where r: "allocate_batch s1 = Some (c, s2)"
    "core {} g' (upd_rq n (\<lambda>q. q\<lparr>rq_pending := c\<rparr>) s2)"
    "renews n ?g2 s1 g' (upd_rq n (\<lambda>q. q\<lparr>rq_pending := c\<rparr>) s2)" (is "renews n _ _ _ ?s")
    "room k g' (upd_rq n (\<lambda>q. q\<lparr>rq_pending := c\<rparr>) s2)"
    by auto
  note R = renewsD [OF r(3)]
  have "uniform ?g2 s1" by (rule uniform_same [OF u J(1)]) (use b(1) in \<open>auto split: if_splits\<close>)
  then have "uniform g' ?s" by (rule renews_uniform [OF _ r(3)])
  moreover have "stays g s ?g2 s1"
  proof (rule staysI)
    fix c k assume "foreign g s c"
    then show "kmem s1 c k = kmem s c k" using add_to_runqueue_foreign [OF s1(1) core n] b(1) by (metis foreign_def place.distinct(17))
  qed (use J b(1) calm_simps(1,14) [OF J(1)] in auto)
  then have "stays g s g' ?s" by (rule stays_trans [OF _ R(14)])
  moreover have "keeps_curb g s ?g2 s1" using bc b(1) J(1) by (auto simp: keeps_curb_def unqueued_def)
  then have "keeps_curb g s g' ?s" by (rule apart_trans [OF _ renews_apart [OF r(3)]])
  moreover have "\<forall>k. k < 32 \<longrightarrow> k \<noteq> n \<longrightarrow> same_at k g s g' ?s"
    using renews_same [OF s1(2) r(3)] by (auto simp: same_at_def J)
  moreover have "runnable g' ?s n = runnable g s n"
    using renews_queued [OF s1(2) r(3) n] R(5,9)
    by (simp add: runnable_def b_def cong: map_cong)
  ultimately show thesis
    using s1(1,4) r R(2,3,4,9) J b mk frees_only_links [OF r(1) s1(2)] add_to_runqueue_links [OF s1(1)] \<open>room (Suc k) ?g2 s1\<close> by (intro that [of s1 c s2 g']) (simp_all add: b_def mark_ok_def)
qed

text \<open>The process at \<open>w\<close> has been queued; other idle processes are idle still.\<close>

definition queues :: "WORD \<Rightarrow> ghost \<Rightarrow> kern \<Rightarrow> ghost \<Rightarrow> kern \<Rightarrow> bool" where
  "queues w g s g' s' \<longleftrightarrow> calm s s' \<and> (own g' (curb s) = InCurb \<longleftrightarrow> own g (curb s) = InCurb) \<and>
     (\<forall>x. x \<noteq> w \<longrightarrow> unqueued g x \<longrightarrow> unqueued g' x \<and> kmem s' x Link = kmem s x Link) \<and> stays g s g' s'"

lemma apart_queues:
  assumes "keeps_curb g s g1 s1" "stays g s g1 s1" "\<forall>x. kmem s1 x Link = kmem s x Link" "queues w g1 s1 g' s'"
  shows "queues w g s g' s'"
proof -
  have "calm s s1" using assms(1) by (simp add: keeps_curb_def)
  from calm_simps(1) [OF this] assms show ?thesis
    unfolding queues_def keeps_curb_def by (metis calm_trans stays_trans)
qed

lemma idle_set_cont: "set ps \<subseteq> insert w (set (cont g b)) \<Longrightarrow> x \<noteq> w \<Longrightarrow> own g b \<noteq> Elsewhere \<Longrightarrow> unqueued g x \<Longrightarrow> unqueued (set_cont b ps g) x"
  by (auto simp: unqueued_def)

lemma uniform_add:
  assumes u: "uniform g s" and c: "calm s s'" and b: "\<forall>p \<in> set (cont g b). kmem s p Priofinity = kmem s w Priofinity"
  shows "uniform (set_cont b (cont g b @ [w]) g) s'"
  unfolding uniform_def calm_simps(6) [OF c]
proof (intro allI impI)
  fix d assume d: "own (set_cont b (cont g b @ [w]) g) d \<noteq> Elsewhere"
  show "\<forall>p \<in> set (cont (set_cont b (cont g b @ [w]) g) d).
      \<forall>q \<in> set (cont (set_cont b (cont g b @ [w]) g) d). kmem s p Priofinity = kmem s q Priofinity"
  proof (cases "d = b")
    case True
    then show ?thesis using b by auto
  next
    case False
    then have e: "cont (set_cont b (cont g b @ [w]) g) d = cont g d" by simp
    have "own g d \<noteq> Elsewhere" using d by simp
    then show ?thesis using u unfolding e uniform_def by blast
  qed
qed

lemma enqueue_pending:
  assumes core: "core {} g s" and u: "uniform g s"
    and m: "\<forall>k. k < 32 \<longrightarrow> k \<noteq> n \<longrightarrow> mark_ok g s k" "\<forall>k. bit (mwstate s) k \<longrightarrow> k = n \<or> bit (rqstate s) k"
    and w: "unqueued g w" "prio (kmem s w Priofinity) = n"
    and b: "\<forall>p \<in> set (cont g (rq_pending (rq s n))). kmem s p Priofinity = kmem s w Priofinity"
    and v: "v \<noteq> 0" "PAffinity v = PAffinity (kmem s w Priofinity)"
  shows "\<exists>s' g'. do {
      s \<leftarrow> Some (upd_rq n (\<lambda>q. q\<lparr>rq_priofinity := v\<rparr>) s);
      s \<leftarrow> enqueue_to_batch (rq_pending (rq s n)) w s;
      Some (more_urgent n s) } = Some s' \<and> steady g' s' \<and> queues w g s g' s' \<and>
    view g' s' = push n [w] (view g s) \<and> spares g s g' s' \<and>
    dispatches s' = (if n < prio (priofinity s) then 0 else dispatches s)"
proof -
  have n: "n < 32" using w(2) by auto
  define c where "c = rq_pending (rq s n)"
  have c: "own g c = Pending n" using core_pending [OF core n] by (simp add: c_def)
  have cc: "c \<noteq> curb s" using core_apart(3) [OF core, of c] c by simp
  let ?s1 = "upd_rq n (\<lambda>q. q\<lparr>rq_priofinity := v\<rparr>) s"
  have c1: "core {} g ?s1" by (rule core_upd_priofinity [OF core])
  obtain s2 A where s2: "enqueue_to_batch c w ?s1 = Some s2"
    "core {} (set_cont c (cont g c @ [w]) g) s2" "changes A ?s1 s2" "A \<subseteq> UNIV \<times> list_words"
    "A \<subseteq> {c} \<times> UNIV \<union> UNIV \<times> {Link}" "\<forall>p. (p, Link) \<in> A \<longrightarrow> p \<in> set (cont g c @ [w])"
    using enqueue_to_batch_core [OF c1, of c w] c w by auto
  let ?g = "set_cont c (cont g c @ [w]) g" and ?s3 = "more_urgent n s2"
  note F = changes_fields [OF s2(3)]
  have same_q: "kmem ?s3 = kmem s2" "curb ?s3 = curb s2" "rq ?s3 = rq s2" "free_list ?s3 = free_list s2"
    "laundry ?s3 = laundry s2" "mw ?s3 = mw s2" "blocks ?s3 = blocks s2" "allocs ?s3 = allocs s2"
    "priofinity ?s3 = priofinity s2" "rqstate ?s3 = set_bit n (rqstate s2)" "mwstate ?s3 = mwstate s2"
    "sched_id ?s3 = sched_id s2" "sync ?s3 = sync s2" "enabled_threads ?s3 = enabled_threads s2"
    "dispatches ?s3 = (if n < prio (priofinity s2) then 0 else dispatches s2)"
    by (simp_all add: more_urgent_def Let_def)
  have c3: "core {} ?g ?s3" by (rule core_same [OF s2(2)]) (simp_all add: same_q)
  have "kmem s2 p k = kmem s p k" if "k < 0" "k \<noteq> Link" for p k
    using changes_kmem [OF s2(3), of p k] subsetD [OF s2(4), of "(p, k)"] that by (auto simp: list_words_def)
  moreover have "alike s s2" using changes_alike [OF s2(3)] by simp
  then have "alike s ?s3" by (simp add: more_urgent_def Let_def)
  ultimately have calm: "calm s ?s3" by (simp add: calm_def same_q)
  have same: "\<forall>k. k < 32 \<longrightarrow> k \<noteq> n \<longrightarrow> same_at k g s ?g ?s3"
  proof (intro allI impI)
    fix k :: nat assume k: "k < 32" "k \<noteq> n"
    have "rq_pending (rq s k) \<noteq> c" using core_pending [OF core k(1)] c k by auto
    moreover have "c \<notin> set (queue g k)" using core_apart(1) [OF core k(1), of c] c by simp
    ultimately show "same_at k g s ?g ?s3" using k by (auto simp: same_at_def same_q F)
  qed
  have "mark_ok ?g ?s3 k" if k: "k < 32" for k
  proof (cases "k = n")
    case True
    have "\<forall>p \<in> set (cont g c @ [w]). kmem s p Priofinity = kmem s w Priofinity" using b by (simp add: c_def)
    then show ?thesis
      using True n v by (simp add: mark_ok_def same_q(3,10) F calm_simps [OF calm] bit_set_bit32 flip: c_def)
  next
    case False
    have "mark_ok g s k" "same_at k g s ?g ?s3" using m(1) same k False by blast+
    then show ?thesis by (rule mark_same [OF _ _ calm]) (simp add: same_q F bit_set_bit32 n)
  qed
  moreover have "bit (rqstate ?s3) k" if "bit (mwstate ?s3) k" for k
    using m(2) that n by (auto simp: same_q F bit_set_bit32)
  ultimately have "marks_ok ?g ?s3" by (simp add: marks_ok_def)
  moreover have "uniform ?g ?s3" by (rule uniform_add [OF u calm]) (use b in \<open>simp add: c_def\<close>)
  ultimately have "steady ?g ?s3" using c3 by (simp add: steady_def)
  moreover have "stays g ?s1 ?g s2" by (rule stays_changes [OF s2(3,5)]) (simp add: c)
  then have stay: "stays g s ?g ?s3" by (simp add: stays_def foreign_def same_q)
  have links: "kmem ?s3 x Link = kmem s x Link" if "x \<noteq> w" "unqueued g x" for x
  proof -
    have "x \<notin> set (cont g c @ [w])" using that c by (simp add: unqueued_def)
    then have "(x, Link) \<notin> A" using s2(6) by auto
    then show ?thesis using changes_kmem [OF s2(3)] by (simp add: same_q)
  qed
  have "queues w g s ?g ?s3"
    using stay links calm idle_set_cont [of "cont g c @ [w]" w g c] c by (simp add: queues_def)
  moreover have "c \<notin> set (queue g n)" using core_apart(1) [OF core n, of c] c by simp
  then have e: "map (cont ?g) (queue g n) = map (cont g) (queue g n)" by auto
  have "runnable ?g ?s3 n = runnable g s n @ [w]"
    unfolding runnable_def set_cont_simps(2) e by (simp add: same_q F flip: c_def)
  then have "view ?g ?s3 = push n [w] (view g s)"
    by (rule view_push [OF n same]) (use cc in \<open>simp add: current_def calm_simps [OF calm]\<close>)
  moreover have "spares g s ?g ?s3" by (rule sparesI) (simp_all add: same_q F set_cont_def)
  ultimately show ?thesis
    using s2(1) by (intro exI [of _ ?s3] exI [of _ ?g]) (simp add: c_def same_q F)
qed

text \<open>The common end of both cases, with or without a new pending batch.\<close>

definition flush :: "bool \<Rightarrow> nat \<Rightarrow> kern \<Rightarrow> kern option" where
  "flush full n s = (if full then do {
     s1 \<leftarrow> add_to_runqueue (rq_priofinity (rq s n)) n (rq_pending (rq s n)) s;
     (new, s) \<leftarrow> allocate_batch s1;
     Some (upd_rq n (\<lambda>q. q\<lparr>rq_pending := new\<rparr>) s) }
   else Some s)"

lemma flush_enqueue:
  assumes st: "steady g s" and w: "unqueued g w" "prio (kmem s w Priofinity) = n" and room: "room (Suc k) g s"
    and full: "full \<Longrightarrow> rq_priofinity (rq s n) \<noteq> 0"
    and same: "\<not> full \<Longrightarrow> rq_priofinity (rq s n) \<noteq> 0 \<Longrightarrow> PAffinity (rq_priofinity (rq s n)) = PAffinity (kmem s w Priofinity)"
    and v: "v \<noteq> 0" "PAffinity v = PAffinity (kmem s w Priofinity)"
  shows "\<exists>s' g'. do {
      s \<leftarrow> flush full n s;
      s \<leftarrow> Some (upd_rq n (\<lambda>q. q\<lparr>rq_priofinity := v\<rparr>) s);
      s \<leftarrow> enqueue_to_batch (rq_pending (rq s n)) w s;
      Some (more_urgent n s) } = Some s' \<and> steady g' s' \<and> queues w g s g' s' \<and>
    view g' s' = push n [w] (view g s) \<and> room k g' s' \<and>
    dispatches s' = (if n < prio (priofinity s) then 0 else dispatches s)"
proof -
  have core: "core {} g s" and u: "uniform g s" and m: "marks_ok g s" using st by (simp_all add: steady_def)
  have n: "n < 32" using w(2) by auto
  show ?thesis
  proof (cases full)
    case True
    from flush_pending [OF st n full [OF True] room] obtain s1 c s2 g1 where
      f: "add_to_runqueue (rq_priofinity (rq s n)) n (rq_pending (rq s n)) s = Some s1" "allocate_batch s1 = Some (c, s2)"
      and c: "core {} g1 (upd_rq n (\<lambda>q. q\<lparr>rq_pending := c\<rparr>) s2)" (is "core _ _ ?s")
        "uniform g1 (upd_rq n (\<lambda>q. q\<lparr>rq_pending := c\<rparr>) s2)"
      and ap: "keeps_curb g s g1 (upd_rq n (\<lambda>q. q\<lparr>rq_pending := c\<rparr>) s2)"
      and sm: "\<forall>k. k < 32 \<longrightarrow> k \<noteq> n \<longrightarrow> same_at k g s g1 (upd_rq n (\<lambda>q. q\<lparr>rq_pending := c\<rparr>) s2)"
      and r: "runnable g1 (upd_rq n (\<lambda>q. q\<lparr>rq_pending := c\<rparr>) s2) n = runnable g s n" "cont g1 c = []"
      and masks: "rqstate s2 = rqstate s" "dispatches s2 = dispatches s"
        "mwstate s2 = mwstate s \<or> mwstate s2 = set_bit n (mwstate s)" "bit (rqstate s) n"
      and room': "room k g1 (upd_rq n (\<lambda>q. q\<lparr>rq_pending := c\<rparr>) s2)"
      and sy: "stays g s g1 (upd_rq n (\<lambda>q. q\<lparr>rq_pending := c\<rparr>) s2)"
      and lk: "\<forall>x. kmem (upd_rq n (\<lambda>q. q\<lparr>rq_pending := c\<rparr>) s2) x Link = kmem s x Link" .
    have calm: "calm s ?s" using ap by (simp add: keeps_curb_def)
    have "mark_ok g1 ?s k" if k: "k < 32" "k \<noteq> n" for k
    proof (rule mark_same [OF _ _ calm])
      show "mark_ok g s k" using m k by (simp add: marks_ok_def)
      show "same_at k g s g1 ?s" using sm k by blast
    qed (simp add: masks)
    then have marks: "\<forall>k. k < 32 \<longrightarrow> k \<noteq> n \<longrightarrow> mark_ok g1 ?s k" by blast
    have bits: "\<forall>k. bit (mwstate ?s) k \<longrightarrow> k = n \<or> bit (rqstate ?s) k"
      using m n masks by (auto simp: marks_ok_def bit_set_bit32)
    have i: "unqueued g1 w" using ap w(1) by (simp add: keeps_curb_def)
    note P = calm_simps(6) [OF calm]
    have pr: "prio (kmem ?s w Priofinity) = n" "PAffinity v = PAffinity (kmem ?s w Priofinity)"
      unfolding P by (rule w(2) v(2))+
    have none: "\<forall>p \<in> set (cont g1 (rq_pending (rq ?s n))). kmem ?s p Priofinity = kmem ?s w Priofinity"
      using r(2) by simp
    obtain s' g' where e: "do {
        s \<leftarrow> Some (upd_rq n (\<lambda>q. q\<lparr>rq_priofinity := v\<rparr>) ?s);
        s \<leftarrow> enqueue_to_batch (rq_pending (rq s n)) w s;
        Some (more_urgent n s) } = Some s'" "steady g' s'" "queues w g1 ?s g' s'"
      "view g' s' = push n [w] (view g1 ?s)" "spares g1 ?s g' s'"
      "dispatches s' = (if n < prio (priofinity ?s) then 0 else dispatches ?s)"
      using enqueue_pending [OF c marks bits i pr(1) none v(1) pr(2)] by blast
    have "flush full n s = Some ?s" using True f by (simp add: flush_def)
    moreover have "queues w g s g' s'"
      by (rule apart_queues [OF ap sy lk e(3)])
    moreover have "view g1 ?s = view g s"
      using view_push [OF n sm, of "[]"] r(1) apart_current [OF ap] by (simp add: push_def set_ready_def)
    ultimately show ?thesis
      using e(1,2,4,6) sparesD [OF e(5) room'] masks(2) calm_simps(2) [OF calm] by auto
  next
    case False
    have mk: "mark_ok g s n" using m n by (simp add: marks_ok_def)
    have "kmem s p Priofinity = kmem s w Priofinity" if p: "p \<in> set (cont g (rq_pending (rq s n)))" for p
    proof (rule priofinity_parts)
      have "cont g (rq_pending (rq s n)) \<noteq> []" using p by auto
      then have "rq_priofinity (rq s n) \<noteq> 0" using mk by (simp add: mark_ok_def)
      with same [OF False] p mk show "PAffinity (kmem s p Priofinity) = PAffinity (kmem s w Priofinity)"
        by (simp add: mark_ok_def)
      have "own g (rq_pending (rq s n)) = Pending n" by (rule core_pending [OF core n]) simp
      with core_prio [OF core disjI1 p] w(2) show "prio (kmem s p Priofinity) = prio (kmem s w Priofinity)" by simp
    qed
    then obtain s' g' where "do {
        s \<leftarrow> Some (upd_rq n (\<lambda>q. q\<lparr>rq_priofinity := v\<rparr>) s);
        s \<leftarrow> enqueue_to_batch (rq_pending (rq s n)) w s;
        Some (more_urgent n s) } = Some s'" "steady g' s'" "queues w g s g' s'"
      "view g' s' = push n [w] (view g s)" "spares g s g' s'"
      "dispatches s' = (if n < prio (priofinity s) then 0 else dispatches s)"
      using enqueue_pending [OF core u _ _ w _ v] m by (auto simp: marks_ok_def)
    moreover from this(5) room have "room k g' s'" by (rule sparesD [OF _ room_less]) simp
    ultimately show ?thesis using False by (auto simp: flush_def)
  qed
qed

text \<open>
  A process of another priority or affinity that this thread may run becomes the last one ready at its
  priority; a more urgent one than the current ends the current batch.
\<close>

lemma enqueue_far_process_steady:
  assumes st: "steady g s" and w: "unqueued g w" "kmem s w Priofinity = priof"
    and here: "\<not> PHasAffinity priof \<or> PAffinity priof AND sched_id s \<noteq> 0" and room: "room (Suc k) g s"
  shows "\<exists>s' g'. enqueue_far_process priof w s = Some s' \<and> steady g' s' \<and> queues w g s g' s' \<and>
    view g' s' = push (prio priof) [w] (view g s) \<and> room k g' s' \<and>
    dispatches s' = (if prio priof < prio (priofinity s) then 0 else dispatches s)"
proof (cases "PHasAffinity priof")
  case False
  define n where "n = prio priof"
  have v: "BuildPriofinity 0 1 \<noteq> 0" "PAffinity (BuildPriofinity 0 1) = PAffinity priof"
    using False by (simp_all add: PHasAffinity_iff) (simp_all add: BuildPriofinity_def PAffinity_def)
  let ?full = "PHasAffinity (rq_priofinity (rq s n))"
  have f1: "rq_priofinity (rq s n) \<noteq> 0" if ?full using that by (auto simp: PHasAffinity_def)
  have f2: "PAffinity (rq_priofinity (rq s n)) = PAffinity (kmem s w Priofinity)" if "\<not> ?full"
    using that False w(2) by (simp add: PHasAffinity_iff)
  have "enqueue_far_process priof w s = do {
      s \<leftarrow> flush ?full n s;
      s \<leftarrow> Some (upd_rq n (\<lambda>q. q\<lparr>rq_priofinity := BuildPriofinity 0 1\<rparr>) s);
      s \<leftarrow> enqueue_to_batch (rq_pending (rq s n)) w s;
      Some (more_urgent n s) }"
    using False by (simp add: enqueue_far_process_def flush_def add_to_runqueue_def n_def Let_def)
  with flush_enqueue [OF st w(1) _ room f1 f2 v(1)] v(2) w(2) show ?thesis by (simp add: n_def)
next
  case True
  define n where "n = prio priof"
  let ?full = "rq_priofinity (rq s n) \<noteq> 0 \<and> PAffinity (rq_priofinity (rq s n)) \<noteq> PAffinity priof"
  have f2: "PAffinity (rq_priofinity (rq s n)) = PAffinity (kmem s w Priofinity)"
    if "\<not> ?full" "rq_priofinity (rq s n) \<noteq> 0" using that w(2) by simp
  have "enqueue_far_process priof w s = do {
      s \<leftarrow> flush ?full n s;
      s \<leftarrow> Some (upd_rq n (\<lambda>q. q\<lparr>rq_priofinity := priof\<rparr>) s);
      s \<leftarrow> enqueue_to_batch (rq_pending (rq s n)) w s;
      Some (more_urgent n s) }"
    using True here by (simp add: enqueue_far_process_def flush_def n_def Let_def)
  then have run: "enqueue_far_process priof w s = do {
      s \<leftarrow> flush ?full n s;
      s \<leftarrow> Some (upd_rq n (\<lambda>q. q\<lparr>rq_priofinity := priof\<rparr>) s);
      s \<leftarrow> enqueue_to_batch (rq_pending (rq s n)) w s;
      Some (more_urgent n s) }" .
  have f1: "rq_priofinity (rq s n) \<noteq> 0" if ?full using that ..
  have "prio (kmem s w Priofinity) = n" "priof \<noteq> 0" "PAffinity priof = PAffinity (kmem s w Priofinity)"
    using True w(2) by (auto simp: PHasAffinity_def n_def)
  then show ?thesis
    unfolding run n_def [symmetric] by (intro flush_enqueue [OF st w(1) _ room f1 f2])
qed

end
