(* ===== verification/Ccsp_Curb.thy ===== *)
theory Ccsp_Curb
  imports Ccsp_Ready
begin

text \<open>
  The current batch: processes are added to it and taken from it, it is saved into a new batch, which is
  pushed, and loaded from a batch that was picked. Together with the run queues this is the abstract
  scheduler of \<open>Ccsp_Ready\<close>.
\<close>

section \<open>Batches go out of use and come back\<close>

lemma core_forget:
  assumes core: "core X g s" and c: "own g c = InCurb \<or> own g c = Detached"
  shows "core X (move c Elsewhere g) s"
proof -
  note D = coreD [OF core]
  have "conts_ok (move c Elsewhere g) s" using D(1) by (simp add: conts_ok_def flag_of_def)
  moreover have "curb_ok (move c Elsewhere g) s" using D(2) by (auto simp: curb_ok_def)
  moreover have "\<forall>n. n < 32 \<longrightarrow> n \<notin> X \<longrightarrow> c \<noteq> rq_pending (rq s n)"
    using core_pending [OF core] c by auto
  then have "pend_ok X (move c Elsewhere g) s" using D(3) c by (auto simp: pend_ok_def)
  moreover have "\<forall>n. n < 32 \<longrightarrow> c \<notin> set (queue g n)" using core_apart(1) [OF core, of _ c] c by auto
  then have "queue_ok (move c Elsewhere g) s" using D(4) c by (simp add: queue_ok_def)
  moreover have "c \<notin> set (frees g)" using core_apart(2) [OF core, of c] c by auto
  then have "free_ok (move c Elsewhere g) s" using D(5) by (simp add: free_ok_def)
  moreover have "state_ok (move c Elsewhere g) s" "win_ok (move c Elsewhere g) s"
      "prio_ok (move c Elsewhere g) s" "supply_ok (move c Elsewhere g) s"
    using D(6-9) by (simp_all add: state_ok_def win_ok_def prio_ok_def supply_ok_def)
  ultimately show ?thesis by (rule coreI)
qed

lemma idle_forget: "unqueued g w \<Longrightarrow> unqueued (move c Elsewhere g) w"
  by (simp add: unqueued_def)

lemma idle_forgotten:
  assumes "core X g s" "own g c \<noteq> Elsewhere" "p \<in> set (cont g c)"
  shows "unqueued (move c Elsewhere g) p"
  using core_aligned [OF assms] core_held [OF assms] core_held [OF assms(1)] by (auto simp: unqueued_def)

text \<open>A batch out of use is given processes that no batch holds.\<close>

definition adopt :: "WORD \<Rightarrow> place \<Rightarrow> WORD list \<Rightarrow> bool \<Rightarrow> ghost \<Rightarrow> ghost" where
  "adopt c l ps e g = g\<lparr>own := (own g)(c := l), cont := (cont g)(c := ps),
     holder := (\<lambda>p. if p \<in> set ps then c else holder g p), emptied := e\<rparr>"

lemma adopt_simps [simp]:
  "own (adopt c l ps e g) = (own g)(c := l)" "cont (adopt c l ps e g) = (cont g)(c := ps)"
  "holder (adopt c l ps e g) p = (if p \<in> set ps then c else holder g p)"
  "queue (adopt c l ps e g) = queue g" "frees (adopt c l ps e g) = frees g" "emptied (adopt c l ps e g) = e"
  "limit (adopt c l ps e g) = limit g"
  by (simp_all add: adopt_def)

lemma core_adopt:
  assumes core: "core X g s" and c: "own g c = Elsewhere" and ch: "changes A s s'"
    and A: "A \<subseteq> {(c, B_Fptr), (c, B_Bptr), (c, B_size)} \<union> {(p, Link) | p. p \<in> set ps}"
    and l: "l = InCurb \<and> c = curb s \<or>
      l = Detached \<and> c \<noteq> curb s \<and> kmem s c B_state = 0 \<and> e = emptied g"
    and sp: "\<forall>i \<in> {allocs s..<limit g}. blocks s i \<noteq> c"
    and bp: "batch_procs s' c (l = InCurb \<and> e) ps" and ps: "\<forall>p \<in> set ps. unqueued g p \<and> fits l p s"
  shows "core X (adopt c l ps e g) s'"
proof -
  note D = coreD [OF core]
  note F = changes_fields [OF ch]
  have "A \<subseteq> UNIV \<times> list_words" using A by (auto simp: list_words_def)
  note W = changes_words [OF ch this]
  let ?g = "adopt c l ps e g"
  have apart: "set (cont g d) \<inter> set ps = {}" if "own g d \<noteq> Elsewhere" for d
    using ps that unfolding unqueued_def by blast
  have curb: "own g d \<noteq> InCurb" if "l = InCurb" for d
    using D(2) l that c unfolding curb_ok_def by auto
  have "conts_ok ?g s'"
    unfolding conts_ok_def
  proof (intro allI impI conjI)
    fix d assume d: "own ?g d \<noteq> Elsewhere"
    show "batch_procs s' d (flag_of ?g d) (cont ?g d)"
    proof (cases "d = c")
      case True with bp show ?thesis by (simp add: flag_of_def)
    next
      case False
      with d have dg: "own g d \<noteq> Elsewhere" by simp
      have "batch_procs s' d (flag_of g d) (cont g d)"
        using False apart [OF dg] A by (intro batch_procs_frame [OF core_batch [OF core dg] ch]) auto
      moreover have "flag_of ?g d = flag_of g d"
        using False l curb [of d] by (auto simp: flag_of_def)
      ultimately show ?thesis using False by simp
    qed
    show "\<forall>p \<in> set (cont ?g d). holder ?g p = d \<and> 4 dvd unat p"
    proof (cases "d = c")
      case True with ps show ?thesis by (simp add: unqueued_def)
    next
      case False
      with d have dg: "own g d \<noteq> Elsewhere" by simp
      with False apart [OF dg] core_held [OF core dg] core_aligned [OF core dg] show ?thesis by auto
    qed
  qed
  moreover have "curb_ok ?g s'" using D(2) l by (auto simp: curb_ok_def F)
  moreover have "\<forall>n. n < 32 \<longrightarrow> n \<notin> X \<longrightarrow> c \<noteq> rq_pending (rq s n)"
    using core_pending [OF core] c by auto
  then have "pend_ok X ?g s'" using D(3) c l by (auto simp: pend_ok_def F)
  moreover have "\<forall>n. n < 32 \<longrightarrow> c \<notin> set (queue g n)" using core_apart(1) [OF core, of _ c] c by auto
  then have "queue_ok ?g s'" using D(4) c l by (auto simp: queue_ok_def F W)
  moreover have "c \<notin> set (frees g)" using core_apart(2) [OF core, of c] c by simp
  then have "free_ok ?g s'" using D(5) l by (auto simp: free_ok_def F W)
  moreover have "state_ok ?g s'" using D(6) l by (auto simp: state_ok_def W)
  moreover have "win_ok ?g s'" using D(7) by (simp add: win_ok_def F W)
  moreover have "prio_ok ?g s'" using D(8) ps by (simp add: prio_ok_def fits_same [OF W(3) F(8)])
  moreover have "supply_ok ?g s'" using D(9) sp by (auto simp: supply_ok_def F)
  ultimately show ?thesis by (rule coreI)
qed

section \<open>Queues not concerned\<close>

definition same_pri :: "kern \<Rightarrow> kern \<Rightarrow> bool" where
  "same_pri s s' \<longleftrightarrow> (\<forall>p. kmem s' p Priofinity = kmem s p Priofinity)"

lemma calm_pri: "calm s s' \<Longrightarrow> same_pri s s'"
  by (simp add: same_pri_def calm_simps)

lemma marks_all_same:
  assumes m: "marks_ok g s" and p: "same_pri s s'" and same: "\<forall>k < 32. same_at k g s g' s'"
    and bits: "rqstate s' = rqstate s" "mwstate s' = mwstate s"
  shows "marks_ok g' s'"
  using assms by (simp add: marks_ok_def mark_ok_def same_at_def same_pri_def)

lemma ready_all_same:
  assumes "\<forall>k < 32. same_at k g s g' s'"
  shows "view g' s' = (view g s)\<lparr>v_current := current g' s'\<rparr>"
  using ready_same [of _ g s g' s'] assms by (auto simp: view_def fun_eq_iff)

lemma same_at_off:
  assumes core: "core {} g s" and c: "\<forall>c \<in> C. \<forall>n. own g c \<noteq> Pending n \<and> own g c \<noteq> Queued n"
    and g': "queue g' = queue g" "\<And>d. d \<notin> C \<Longrightarrow> cont g' d = cont g d" and s': "rq s' = rq s"
  shows "\<forall>k < 32. same_at k g s g' s'"
proof (intro allI impI)
  fix k :: nat assume k: "k < 32"
  have "own g (rq_pending (rq s k)) = Pending k" using core_pending [OF core k] by simp
  then have "rq_pending (rq s k) \<notin> C" using c by auto
  moreover have "d \<notin> C" if "d \<in> set (queue g k)" for d
    using c core_apart(1) [OF core k, of d] that by blast
  then have "\<forall>b \<in> set (queue g k). cont g' b = cont g b" using g'(2) by metis
  ultimately show "same_at k g s g' s'" using g' s' by (simp add: same_at_def)
qed

lemma same_at_apart:
  assumes "core {} g s" "\<forall>n. own g c \<noteq> Pending n \<and> own g c \<noteq> Queued n"
    "queue g' = queue g" "\<And>d. d \<noteq> c \<Longrightarrow> cont g' d = cont g d" "rq s' = rq s"
  shows "\<forall>k < 32. same_at k g s g' s'"
  by (rule same_at_off [OF assms(1), of "{c}"]) (use assms(2-) in simp_all)

lemma uniform_pri:
  assumes u: "uniform g s" and p: "same_pri s s'"
  shows "uniform g s'"
proof -
  have P: "kmem s' p Priofinity = kmem s p Priofinity" for p using p by (simp add: same_pri_def)
  show ?thesis unfolding uniform_def P by (rule u [unfolded uniform_def])
qed

lemma uniform_cont:
  assumes u: "uniform g s" and p: "same_pri s s'"
    and c: "\<forall>p \<in> set (cont g' c). kmem s p Priofinity = v"
    and d: "\<And>d. d \<noteq> c \<Longrightarrow> own g' d \<noteq> Elsewhere \<Longrightarrow>
      cont g' d = [] \<or> own g d \<noteq> Elsewhere \<and> cont g' d = cont g d"
  shows "uniform g' s'"
  unfolding uniform_def
proof (intro allI impI)
  fix b assume b: "own g' b \<noteq> Elsewhere"
  have P: "kmem s' p Priofinity = kmem s p Priofinity" for p using p by (simp add: same_pri_def)
  show "\<forall>p \<in> set (cont g' b). \<forall>q \<in> set (cont g' b). kmem s' p Priofinity = kmem s' q Priofinity"
  proof (cases "b = c")
    case True
    then show ?thesis unfolding P using c by simp
  next
    case False
    from d [OF False b] show ?thesis
    proof
      assume e: "own g b \<noteq> Elsewhere \<and> cont g' b = cont g b"
      show ?thesis unfolding P conjunct2 [OF e] using u conjunct1 [OF e] unfolding uniform_def by blast
    qed simp
  qed
qed

section \<open>Processes of the current batch\<close>

lemma kwf_parts:
  assumes "kwf g s"
  shows "core {} g s" "uniform g s" "marks_ok g s" "own g (curb s) = InCurb"
    "current g s = cont g (curb s)" "batch_procs s (curb s) (emptied g) (current g s)"
    "\<forall>p \<in> set (current g s). kmem s p Priofinity = priofinity s"
proof -
  show core: "core {} g s" "uniform g s" "marks_ok g s" "own g (curb s) = InCurb"
    using assms by (simp_all add: kwf_def steady_def)
  then show c: "current g s = cont g (curb s)" by (simp add: current_def)
  then show "batch_procs s (curb s) (emptied g) (current g s)"
    using core_batch [OF core(1), of "curb s"] core(4) by (simp add: flag_of_def)
  show "\<forall>p \<in> set (current g s). kmem s p Priofinity = priofinity s"
    using coreD(8) [OF core(1)] core(4) unfolding prio_ok_def c by (metis fits_simps(1))
qed

lemma current_set_cont: "own g (curb s') = InCurb \<Longrightarrow> current (set_cont (curb s') ps g) s' = ps"
  by (simp add: current_def)

text \<open>What the operations on the processes of the current batch have in common.\<close>

lemma curb_set_cont:
  assumes wf: "kwf g s" and ch: "changes A s s'" and A: "A \<subseteq> UNIV \<times> list_words"
    and core: "core {} (set_cont (curb s) ps (g\<lparr>emptied := e\<rparr>)) s'" (is "core {} ?g s'")
    and ps: "\<forall>p \<in> set ps. kmem s p Priofinity = priofinity s"
  shows "kwf ?g s'" "view ?g s' = (view g s)\<lparr>v_current := ps\<rparr>" "calm s s'" "spares g s ?g s'"
proof -
  note K = kwf_parts [OF wf]
  note F = changes_fields [OF ch]
  have "kmem s' p k = kmem s p k" if "k < 0" "k \<noteq> Link" for p k
    using changes_kmem [OF ch, of p k] subsetD [OF A, of "(p, k)"] that by (auto simp: list_words_def)
  then show calm: "calm s s'" by (simp add: calm_def changes_alike [OF ch])
  have same: "\<forall>k < 32. same_at k g s ?g s'"
    using K(4) F by (intro same_at_apart [OF K(1), of "curb s"]) simp_all
  have "marks_ok ?g s'" by (rule marks_all_same [OF K(3) calm_pri [OF calm] same]) (simp_all add: F)
  moreover have "uniform ?g s'"
    by (rule uniform_cont [OF K(2) calm_pri [OF calm], of _ "curb s" "priofinity s"]) (use ps in simp_all)
  ultimately show "kwf ?g s'" using core K(4) by (simp add: kwf_def steady_def F)
  have "current ?g s' = ps" using K(4) by (simp add: current_def F)
  with ready_all_same [OF same] show "view ?g s' = (view g s)\<lparr>v_current := ps\<rparr>" by simp
  show "spares g s ?g s'" by (rule sparesI) (simp_all add: F)
qed

lemma enqueue_current:
  assumes wf: "kwf g s" and w: "unqueued g w" "kmem s w Priofinity = priofinity s"
  shows "\<exists>s' g'. enqueue_to_batch (curb s) w s = Some s' \<and> kwf g' s' \<and> queues w g s g' s' \<and>
    view g' s' = (view g s)\<lparr>v_current := current g s @ [w]\<rparr> \<and> dispatches s' = dispatches s \<and>
    spares g s g' s'"
proof -
  note K = kwf_parts [OF wf]
  obtain s' A where s': "enqueue_to_batch (curb s) w s = Some s'"
    "core {} (set_cont (curb s) (cont g (curb s) @ [w]) g) s'" "changes A s s'" "A \<subseteq> UNIV \<times> list_words"
    "A \<subseteq> {curb s} \<times> UNIV \<union> UNIV \<times> {Link}" "\<forall>p. (p, Link) \<in> A \<longrightarrow> p \<in> set (cont g (curb s) @ [w])"
    using enqueue_to_batch_core [OF K(1), of "curb s" w] K(4) w by auto
  let ?ps = "cont g (curb s) @ [w]" and ?g = "set_cont (curb s) (cont g (curb s) @ [w]) g"
  have e: "g\<lparr>emptied := emptied g\<rparr> = g" by simp
  have "\<forall>p \<in> set ?ps. kmem s p Priofinity = priofinity s" using K(5,7) w(2) by simp
  note C = curb_set_cont [OF wf s'(3,4), of ?ps "emptied g", unfolded e, OF s'(2) this]
  have "stays g s ?g s'" by (rule stays_changes [OF s'(3,5)]) (simp add: K(4))
  moreover have "kmem s' x Link = kmem s x Link" if "x \<noteq> w" "unqueued g x" for x
  proof -
    have "x \<notin> set (cont g (curb s) @ [w])" using that K(4) by (simp add: unqueued_def)
    then have "(x, Link) \<notin> A" using s'(6) by auto
    then show ?thesis by (rule changes_kmem [OF s'(3)])
  qed
  ultimately have "queues w g s ?g s'"
    using C(3) K(4) idle_set_cont [of ?ps w g "curb s"] by (simp add: queues_def)
  with C s'(1) K(5) changes_fields(11) [OF s'(3)] show ?thesis by (intro exI [of _ s'] exI [of _ ?g]) simp
qed

lemma dequeue_current:
  assumes wf: "kwf g s" and c: "current g s = w # ps"
  shows "\<exists>s' g'. dequeue_from_curb s = Some (w, s') \<and> kwf g' s' \<and> calm s s' \<and>
    view g' s' = (view g s)\<lparr>v_current := ps\<rparr> \<and> unqueued g' w \<and> (\<forall>x. unqueued g x \<longrightarrow> unqueued g' x) \<and>
    dispatches s' = dispatches s \<and> rqstate s' = rqstate s \<and>
    own g' = own g \<and> (\<forall>c. c \<noteq> curb s \<longrightarrow> cont g' c = cont g c) \<and> spares g s g' s'"
proof -
  note K = kwf_parts [OF wf]
  have cc: "cont g (curb s) = w # ps" using K(5) c by simp
  obtain s' where s': "dequeue_from_batch (curb s) s = Some (w, s')"
    "batch_procs s' (curb s) (emptied g \<or> ps = []) ps" "changes {(curb s, B_Fptr), (curb s, B_size)} s s'"
    (is "changes ?A s s'")
    using dequeue_from_batch_first K(6) c by metis
  have A: "?A \<subseteq> UNIV \<times> list_words" by (auto simp: list_words_def)
  let ?g = "set_cont (curb s) ps (g\<lparr>emptied := emptied g \<or> ps = []\<rparr>)"
  have d: "w \<notin> set ps" using batch_procs_ok [OF K(6)] c by (simp add: procs_ok_def)
  have pr: "\<forall>p \<in> set ps. kmem s p Priofinity = priofinity s" using K(7) c by simp
  have core: "core {} ?g s'"
    using s'(2) K(4) pr cc by (intro core_set_cont [OF K(1) s'(3)]) (auto simp: flag_of_def)
  note C = curb_set_cont [OF wf s'(3) A core pr]
  have "b = curb s" if "own g b \<noteq> Elsewhere" "w \<in> set (cont g b)" for b
    using core_held [OF K(1) that] core_held [OF K(1), of "curb s" w] K(4) cc by simp
  then have "unqueued ?g w"
    using core_aligned [OF K(1), of "curb s" w] K(4) cc d by (auto simp: unqueued_def)
  moreover have "unqueued ?g x" if "unqueued g x" for x
  proof -
    have "x \<notin> set (cont g (curb s))" using that K(4) by (simp add: unqueued_def)
    with that cc show ?thesis by (auto simp: unqueued_def)
  qed
  ultimately show ?thesis
    using C s'(1) changes_fields(9,11) [OF s'(3)]
    by (intro exI [of _ s'] exI [of _ ?g]) (simp add: dequeue_from_curb_def)
qed

section \<open>Saving the current batch\<close>

lemma flagged_clear:
  assumes "n < 2 ^ 30"
  shows "flagged e n AND NOT BATCH_EMPTIED = flagged False n"
proof -
  have small: "of_nat n < (0x40000000 :: WORD)" using assms by (simp add: word_less_nat_alt unat_of_nat)
  note B = emptied_bits [OF small]
  have "(of_nat n :: WORD) = (of_nat n AND BATCH_EMPTIED) OR (of_nat n AND NOT BATCH_EMPTIED)"
    by (simp only: bit.conj_disj_distrib [symmetric] bit.disj_cancel_right bit.conj_one_right)
  then have n: "(of_nat n :: WORD) AND NOT BATCH_EMPTIED = of_nat n" by (simp only: B(2) or.left_neutral)
  have "(BATCH_EMPTIED OR of_nat n) AND NOT BATCH_EMPTIED = (of_nat n :: WORD)"
    by (simp only: bit.conj_disj_distrib2 bit.conj_cancel_right or.left_neutral n)
  with n show ?thesis unfolding flagged_def B(1) [symmetric] by (cases e) simp_all
qed

lemma allocate_batch_steady:
  assumes st: "steady g s" and room: "room (Suc k) g s"
  obtains b s' g' where "allocate_batch s = Some (b, s')" "frees_only s s'" "steady g' s'" "keeps g g'"
    "own g' b = Detached" "cont g' b = []" "\<not> in_use (own g b)" "view g' s' = view g s" "keeps_curb g s g' s'"
    "room k g' s'"
proof -
  have core: "core {} g s" and u: "uniform g s" and m: "marks_ok g s" using st by (simp_all add: steady_def)
  obtain b s' g' where a: "allocate_batch s = Some (b, s')" "frees_only s s'" "core {} g' s'" "keeps g g'"
    "own g' b = Detached" "cont g' b = []" "\<not> in_use (own g b)" "room k g' s'" "stays g s g' s'"
    using allocate_batch_core [OF core room] .
  note F = frees_only_simps [OF a(2)] and L = keepsD [OF a(4)]
  have calm: "calm s s'" by (rule calm_frees [OF a(2)])
  have same: "\<forall>k < 32. same_at k g s g' s'"
  proof (intro allI impI)
    fix k :: nat assume k: "k < 32"
    have "own g (rq_pending (rq s k)) = Pending k" using core_pending [OF core k] by simp
    then have "cont g' (rq_pending (rq s k)) = cont g (rq_pending (rq s k))" using L(3) by simp
    moreover have "cont g' d = cont g d" if "d \<in> set (queue g k)" for d
    proof -
      have "own g d = Queued k" using coreD(4) [OF core] that k by (simp add: queue_ok_def)
      then show ?thesis using L(3) [of d] by simp
    qed
    ultimately show "same_at k g s g' s'" by (simp add: same_at_def F L(1))
  qed
  have "marks_ok g' s'" by (rule marks_all_same [OF m calm_pri [OF calm] same]) (simp_all add: F)
  with uniform_keeps [OF u calm a(4)] a(3) have st': "steady g' s'" by (simp add: steady_def)
  have ap: "keeps_curb g s g' s'"
    using calm L(2) L(3,6) [of "curb s"] keeps_idle [OF a(4)] by (auto simp: keeps_curb_def)
  have "view g' s' = view g s"
    using ready_all_same [OF same] apart_current [OF ap] by (simp add: view_def)
  with that a st' ap show thesis by blast
qed

text \<open>
  After the current batch has been saved it is out of use, until \<open>new_curb\<close> or \<open>load_curb\<close>.
\<close>

lemma save_curb_steady:
  assumes wf: "kwf g s" and room: "room (Suc k) g s"
  shows "\<exists>b s' g'. save_curb s = Some (b, s') \<and> steady g' s' \<and> own g' b = Detached \<and>
    cont g' b = current g s \<and> own g' (curb s) = Elsewhere \<and>
    view g' s' = (view g s)\<lparr>v_current := []\<rparr> \<and> calm s s' \<and> (\<forall>x. unqueued g x \<longrightarrow> unqueued g' x) \<and> room k g' s'"
proof -
  have st: "steady g s" using wf by (simp add: kwf_def)
  obtain b s1 g1 where a: "allocate_batch s = Some (b, s1)" "frees_only s s1" "steady g1 s1" "keeps g g1"
    "own g1 b = Detached" "cont g1 b = []" "\<not> in_use (own g b)" "view g1 s1 = view g s" "keeps_curb g s g1 s1"
    "room k g1 s1"
    using allocate_batch_steady [OF st room] .
  have cs: "curb s1 = curb s" using frees_only_simps(1) [OF a(2)] .
  have wf1: "kwf g1 s1" using a(3,9) kwf_parts(4) [OF wf] cs by (simp add: kwf_def keeps_curb_def)
  note K = kwf_parts [OF wf1]
  define c where "c = curb s1"
  define ps where "ps = current g1 s1"
  have ps: "ps = cont g1 c" "ps = current g s" using K(5) apart_current [OF a(9)] by (simp_all add: ps_def c_def)
  have cb: "batch_procs s1 c (emptied g1) ps" using K(6) by (simp add: c_def ps_def)
  have nz: "c \<noteq> 0" "b \<noteq> 0" using batch_procs_nz [OF cb] core_nz [OF K(1), of b] a(5) by simp_all
  have bc: "b \<noteq> c" using core_apart(3) [OF K(1), of b] a(5) by (simp add: c_def)
  let ?s = "put b B_size (kmem s1 c B_size AND NOT BATCH_EMPTIED)
    (put b B_Bptr (kmem s1 c B_Bptr) (put b B_Fptr (kmem s1 c B_Fptr) s1))"
  have run: "save_curb s = Some (b, ?s)"
    using a(1) nz bc by (simp add: save_curb_def c_def)
  let ?g2 = "move c Elsewhere g1" and ?g = "set_cont b ps (move c Elsewhere g1)"
  have c2: "core {} ?g2 s1" using K(4) by (intro core_forget [OF K(1)]) (simp add: c_def)
  let ?A = "{(b, B_Fptr), (b, B_Bptr), (b, B_size)} :: (WORD \<times> int) set"
  have ch: "changes ?A s1 ?s" by (intro changes_put) auto
  have A: "?A \<subseteq> UNIV \<times> list_words" by (auto simp: list_words_def)
  have idle: "unqueued ?g2 p" if "p \<in> set ps" for p
    using idle_forgotten [OF K(1), of c p] that K(4) by (simp add: ps c_def)
  have "length ps < 2 ^ 30" using cb by (simp add: batch_procs_def)
  then have bp: "batch_procs ?s b False ps"
    using cb nz bc flagged_clear [of "length ps" "emptied g1"] by (simp add: batch_procs_def)
  have e: "?g2\<lparr>emptied := emptied ?g2\<rparr> = ?g2" by simp
  have "core {} (set_cont b ps (?g2\<lparr>emptied := emptied ?g2\<rparr>)) ?s"
    using bp a(5) bc idle by (intro core_set_cont [OF c2 ch]) (auto simp: flag_of_def)
  then have c3: "core {} ?g ?s" unfolding e .
  note F = changes_fields [OF ch]
  have calm1: "calm s1 ?s" by (simp add: calm_def)
  have same: "\<forall>k < 32. same_at k g1 s1 ?g ?s"
  proof -
    have "\<forall>k < 32. same_at k g1 s1 ?g2 s1"
      using K(4) by (intro same_at_apart [OF K(1), of c]) (simp_all add: c_def)
    moreover have "\<forall>k < 32. same_at k ?g2 s1 ?g ?s"
      using a(5) bc by (intro same_at_apart [OF c2, of b]) simp_all
    ultimately show ?thesis by (simp add: same_at_def)
  qed
  have "marks_ok ?g ?s" by (rule marks_all_same [OF K(3) calm_pri [OF calm1] same]) simp_all
  moreover have "uniform ?g ?s"
  proof (rule uniform_cont [OF K(2) calm_pri [OF calm1], of _ b "priofinity s1"])
    show "\<forall>p \<in> set (cont ?g b). kmem s1 p Priofinity = priofinity s1" using K(7) by (simp add: ps_def)
  qed (auto split: if_splits)
  ultimately have "steady ?g ?s" using c3 by (simp add: steady_def)
  moreover have "current ?g ?s = []" using bc by (simp add: current_def c_def)
  then have "view ?g ?s = (view g s)\<lparr>v_current := []\<rparr>" using ready_all_same [OF same] a(8) by simp
  moreover have "calm s ?s" using calm_trans [OF calm_frees [OF a(2)] calm1] .
  moreover have "unqueued ?g x" if x: "unqueued g x" for x
  proof -
    have i: "unqueued g1 x" using a(9) x by (simp add: keeps_curb_def)
    then have "x \<notin> set ps" using K(4) by (simp add: unqueued_def ps c_def)
    then show ?thesis using i by (auto simp: unqueued_def)
  qed
  moreover have "room k ?g ?s" using a(10) by (simp add: room_def)
  ultimately show ?thesis
    using run a(5) bc ps(2) cs by (intro exI [of _ b] exI [of _ ?s] exI [of _ ?g]) (auto simp: c_def)
qed

section \<open>A new or a loaded current batch\<close>

lemma core_set_priofinity:
  assumes core: "core X g s" and e: "\<forall>b. own g b = InCurb \<longrightarrow> cont g b = []"
  shows "core X g (s\<lparr>dispatches := d, priofinity := v\<rparr>)" (is "core X g ?s")
proof -
  note D = coreD [OF core]
  have "conts_ok g ?s" using D(1) by (simp add: conts_ok_def batch_procs_def)
  moreover have "curb_ok g ?s" using D(2) by (simp add: curb_ok_def)
  moreover have "pend_ok X g ?s" using D(3) by (simp add: pend_ok_def)
  moreover have "queue_ok g ?s" using D(4) by (simp add: queue_ok_def)
  moreover have "free_ok g ?s" using D(5) by (simp add: free_ok_def)
  moreover have "state_ok g ?s" using D(6) by (simp add: state_ok_def)
  moreover have "win_ok g ?s" using D(7) by (simp add: win_ok_def)
  moreover have "prio_ok g ?s"
    unfolding prio_ok_def
  proof (intro allI ballI)
    fix b p assume p: "p \<in> set (cont g b)"
    then have "fits (own g b) p s" using D(8) by (simp add: prio_ok_def)
    moreover have "own g b \<noteq> InCurb" using e p by auto
    ultimately show "fits (own g b) p ?s" by (cases "own g b") simp_all
  qed
  moreover have "supply_ok g ?s" using D(9) by (simp add: supply_ok_def)
  ultimately show ?thesis by (rule coreI)
qed

lemma forget_curb:
  assumes wf: "kwf g s" and e: "current g s = []"
  shows "steady (move (curb s) Elsewhere g) s" "own (move (curb s) Elsewhere g) (curb s) = Elsewhere"
    "view (move (curb s) Elsewhere g) s = view g s" "\<forall>x. unqueued g x \<longrightarrow> unqueued (move (curb s) Elsewhere g) x"
proof -
  note K = kwf_parts [OF wf]
  let ?g = "move (curb s) Elsewhere g"
  have same: "\<forall>k < 32. same_at k g s ?g s"
    using K(4) by (intro same_at_apart [OF K(1), of "curb s"]) simp_all
  have "core {} ?g s" using K(4) by (intro core_forget [OF K(1)]) simp
  moreover have "marks_ok ?g s" by (rule marks_all_same [OF K(3) _ same]) (simp_all add: same_pri_def)
  moreover have "uniform ?g s" by (rule uniform_same [OF K(2)]) (auto split: if_splits)
  ultimately show "steady ?g s" by (simp add: steady_def)
  show "view ?g s = view g s" using ready_all_same [OF same] e by (simp add: view_def current_def)
qed (auto intro: idle_forget)

lemma supply_blocks:
  assumes "core X g s"
  shows "\<forall>i \<in> {allocs s..<limit g}. blocks s i \<noteq> curb s"
    "own g b \<noteq> Elsewhere \<Longrightarrow> \<forall>i \<in> {allocs s..<limit g}. blocks s i \<noteq> b"
  using coreD(9) [OF assms] by (auto simp: supply_ok_def)

lemma new_curb_kwf:
  assumes st: "steady g s" and c: "own g (curb s) = Elsewhere"
  shows "\<exists>s' g'. new_curb s = Some s' \<and> kwf g' s' \<and> view g' s' = view g s \<and> current g' s' = [] \<and> calm s s' \<and>
    (\<forall>x. unqueued g x \<longrightarrow> unqueued g' x) \<and> rqstate s' = rqstate s \<and> spares g s g' s' \<and> stays g s g' s'"
proof -
  have core: "core {} g s" and u: "uniform g s" and m: "marks_ok g s" using st by (simp_all add: steady_def)
  have nz: "curb s \<noteq> 0" using coreD(2) [OF core] by (simp add: curb_ok_def)
  let ?s1 = "s\<lparr>dispatches := BATCH_PPD\<rparr>"
  have c1: "core {} g ?s1" by (rule core_same [OF core]) simp_all
  let ?s = "put (curb s) B_size BATCH_EMPTIED (put (curb s) B_Fptr 0 ?s1)"
  let ?g = "adopt (curb s) InCurb [] True g"
  have run: "new_curb s = Some ?s" using nz by (simp add: new_curb_def)
  have "changes {(curb s, B_Fptr), (curb s, B_size)} ?s1 ?s" by (intro changes_put) auto
  then have c2: "core {} ?g ?s"
    using c nz supply_blocks(1) [OF core]
    by (intro core_adopt [OF c1]) (auto simp: batch_procs_def)
  have calm: "calm s ?s" by (simp add: calm_def)
  have same: "\<forall>k < 32. same_at k g s ?g ?s" using c by (intro same_at_apart [OF core, of "curb s"]) simp_all
  have "marks_ok ?g ?s" by (rule marks_all_same [OF m calm_pri [OF calm] same]) simp_all
  moreover have "uniform ?g ?s"
    by (rule uniform_cont [OF u calm_pri [OF calm], of _ "curb s" 0]) (auto split: if_splits)
  ultimately have "kwf ?g ?s" using c2 by (simp add: kwf_def steady_def)
  moreover have cur: "current ?g ?s = []" by (simp add: current_def)
  moreover have "view ?g ?s = view g s" using ready_all_same [OF same] cur c by (simp add: view_def current_def)
  moreover have "\<forall>x. unqueued g x \<longrightarrow> unqueued ?g x" by (auto simp: unqueued_def)
  moreover have "spares g s ?g ?s" by (rule sparesI) simp_all
  moreover have "stays g s ?g ?s" by (simp add: stays_def foreign_def)
  ultimately show ?thesis using run calm by (intro exI [of _ ?s] exI [of _ ?g]) simp
qed

lemma put_sched [simp]:
  "put p k v (s\<lparr>dispatches := d\<rparr>) = put p k v s\<lparr>dispatches := d\<rparr>"
  "put p k v (s\<lparr>priofinity := d\<rparr>) = put p k v s\<lparr>priofinity := d\<rparr>"
  by (simp_all add: put_def)

text \<open>All processes of the batch become the current ones, in their order, and the batch is free again.\<close>

lemma load_curb_kwf:
  assumes st: "steady g s" and c: "own g (curb s) = Elsewhere" and b: "own g b = Detached" "cont g b = ps" "ps \<noteq> []"
  shows "\<exists>s' g'. load_curb b False s = Some s' \<and> kwf g' s' \<and> view g' s' = (view g s)\<lparr>v_current := ps\<rparr> \<and>
    curb s' = curb s \<and> sched_id s' = sched_id s \<and> same_pri s s' \<and> priofinity s' = kmem s (hd ps) Priofinity \<and>
    dispatches s' = calculate_dispatches (of_nat (length ps)) \<and> (\<forall>x. unqueued g x \<longrightarrow> unqueued g' x) \<and> rqstate s' = rqstate s \<and>
    spares g s g' s'"
proof -
  have core: "core {} g s" and u: "uniform g s" and m: "marks_ok g s" using st by (simp_all add: steady_def)
  define k where "k = curb s"
  have nz: "k \<noteq> 0" "b \<noteq> 0" using coreD(2) [OF core] core_nz [OF core, of b] b(1) by (simp_all add: curb_ok_def k_def)
  have bk: "b \<noteq> k" using b(1) c by (auto simp: k_def)
  have bp: "batch_procs s b False ps" using core_batch_off [OF core, of b] b by simp
  define f where "f = hd ps"
  have f: "kmem s b B_Fptr = f" "f \<noteq> 0" "f \<in> set ps"
    using bp b(3) by (auto simp: f_def batch_procs_def neq_Nil_conv)
  define v where "v = kmem s f Priofinity"
  have pv: "\<forall>p \<in> set ps. kmem s p Priofinity = v"
    using u b f(3) unfolding uniform_def v_def by (metis place.distinct(29))
  define d where "d = calculate_dispatches (of_nat (length ps))"
  let ?s0 = "s\<lparr>dispatches := d, priofinity := v\<rparr>"
  have "\<forall>x. own g x \<noteq> InCurb" using coreD(2) [OF core] c unfolding curb_ok_def by (metis place.distinct(9))
  then have c0: "core {} g ?s0" by (intro core_set_priofinity [OF core]) simp
  let ?g1 = "move b Elsewhere g"
  have c1: "core {} ?g1 ?s0" using b(1) by (intro core_forget [OF c0]) simp
  have idle: "\<forall>p \<in> set ps. unqueued ?g1 p" using idle_forgotten [OF core, of b] b by simp
  let ?sz = "kmem s b B_size AND NOT BATCH_EMPTIED"
  let ?s2 = "put k B_size ?sz (put k B_Bptr (kmem s b B_Bptr) (put k B_Fptr f ?s0))"
  let ?g2 = "adopt k InCurb ps False ?g1"
  have ch2: "changes {(k, B_Fptr), (k, B_Bptr), (k, B_size)} ?s0 ?s2" by (intro changes_put) auto
  have len: "length ps < 2 ^ 30" using bp by (simp add: batch_procs_def)
  have sz: "?sz = of_nat (length ps)"
    using bp flagged_clear [OF len, of False] by (simp add: batch_procs_def flagged_def)
  have bp2: "batch_procs ?s2 k False ps"
    using bp nz f unfolding sz by (simp add: batch_procs_def flagged_def)
  have c2: "core {} ?g2 ?s2"
    using c bk bp2 idle pv supply_blocks(1) [OF core]
    by (intro core_adopt [OF c1 _ ch2]) (auto simp: k_def)
  let ?s3 = "put b B_size 0 (put b B_Fptr 0 ?s2)"
  let ?g3 = "adopt b Detached [] False ?g2"
  have ch3: "changes {(b, B_Fptr), (b, B_size)} ?s2 ?s3"
    by (rule changes_put [OF _ changes_put [OF _ changes_refl]]) auto
  have "kmem s b B_state = 0" using coreD(6) [OF core] b(1) by (simp add: state_ok_def)
  then have c3: "core {} ?g3 ?s3"
    using b(1) bk bk [symmetric] nz supply_blocks(2) [OF core, of b]
    by (intro core_adopt [OF c2 _ ch3]) (auto simp: batch_procs_def k_def)
  obtain s4 where s4: "release_clean_batch b ?s3 = Some s4" "frees_only ?s3 s4"
    "core {} (move b Free ?g3\<lparr>frees := b # frees ?g3\<rparr>) s4" (is "core {} ?g4 s4")
    using release_clean_batch_core [OF c3, of b] by auto
  note F = frees_only_simps [OF s4(2)]
  have load: "load_curb b False s = Option.bind (reinit_batch_t b ?s2) (release_clean_batch b)"
    using nz bk bk [symmetric] f(1,2) sz len
    by (simp add: load_curb_def d_def v_def flip: k_def)
  have run: "load_curb b False s = Some s4"
    using s4(1) nz unfolding load by (simp add: reinit_batch_t_def)
  have cs: "curb s4 = k" "rq s4 = rq s" "rqstate s4 = rqstate s" "mwstate s4 = mwstate s" "sched_id s4 = sched_id s"
    "priofinity s4 = v" "dispatches s4 = d"
    by (simp_all add: F k_def)
  have sp: "same_pri s s4" by (simp add: same_pri_def F)
  have same: "\<forall>n < 32. same_at n g s ?g4 s4"
    using b(1) c by (intro same_at_off [OF core, of "{b, k}"]) (auto simp: k_def cs)
  have "marks_ok ?g4 s4" by (rule marks_all_same [OF m sp same]) (simp_all add: cs)
  moreover have "uniform ?g4 s4"
    by (rule uniform_cont [OF u sp, of _ k v]) (use pv bk in \<open>auto split: if_splits\<close>)
  ultimately have "kwf ?g4 s4" using s4(3) bk by (simp add: kwf_def steady_def cs)
  moreover have "current ?g4 s4 = ps" using bk by (simp add: current_def cs)
  then have "view ?g4 s4 = (view g s)\<lparr>v_current := ps\<rparr>" using ready_all_same [OF same] by simp
  moreover have "unqueued ?g4 x" if x: "unqueued g x" for x
  proof -
    have "x \<notin> set ps" using x b by (auto simp: unqueued_def)
    with x show ?thesis by (auto simp: unqueued_def)
  qed
  moreover have "allocs s4 = allocs s"
    using s4(1) by (auto simp: release_clean_batch_def st_def split: if_splits)
  then have "spares g s ?g4 s4" by (intro sparesI) simp_all
  ultimately show ?thesis
    using run sp by (intro exI [of _ s4] exI [of _ ?g4]) (simp add: cs k_def v_def f_def d_def)
qed

section \<open>Pushing the current batch\<close>

lemma save_and_push:
  assumes wf: "kwf g s" and c: "current g s \<noteq> []" and room: "room (Suc k) g s"
  shows "\<exists>s' g'. do { (b, s) \<leftarrow> save_curb s; push_batch (priofinity s) b s } = Some s' \<and> steady g' s' \<and>
    own g' (curb s) = Elsewhere \<and> calm s s' \<and> (\<forall>x. unqueued g x \<longrightarrow> unqueued g' x) \<and> room k g' s' \<and>
    view g' s' = (push (prio (priofinity s)) (current g s) (view g s))\<lparr>v_current := []\<rparr>"
proof -
  obtain b s1 g1 where 1: "save_curb s = Some (b, s1)" "steady g1 s1" "own g1 b = Detached"
    "cont g1 b = current g s" "own g1 (curb s) = Elsewhere" "view g1 s1 = (view g s)\<lparr>v_current := []\<rparr>"
    "calm s s1" "\<forall>x. unqueued g x \<longrightarrow> unqueued g1 x" "room k g1 s1"
    using save_curb_steady [OF wf room] by blast
  note P = calm_simps [OF 1(7)]
  have pr: "\<forall>p \<in> set (cont g1 b). kmem s1 p Priofinity = priofinity s"
    using kwf_parts(7) [OF wf] by (simp add: 1(4) P)
  have ne: "cont g1 b \<noteq> []" using c 1(4) by simp
  obtain s2 g2 where 2: "push_batch (priofinity s) b s1 = Some s2" "steady g2 s2" "keeps_curb g1 s1 g2 s2"
    "spares g1 s1 g2 s2" "view g2 s2 = push (prio (priofinity s)) (cont g1 b) (view g1 s1)"
    using push_batch_steady [OF 1(2,3) ne pr] .
  have calm: "calm s s2" using 2(3) 1(7) by (auto simp: keeps_curb_def intro: calm_trans)
  have "curb_ok g2 s2" using 2(2) by (simp add: steady_def core_def)
  moreover have "curb s2 = curb s" using calm by (simp add: calm_simps)
  moreover have "own g2 (curb s) \<noteq> InCurb" using 2(3) 1(5) P(1) by (simp add: keeps_curb_def)
  ultimately have "own g2 (curb s) = Elsewhere" by (simp add: curb_ok_def)
  moreover have "\<forall>x. unqueued g x \<longrightarrow> unqueued g2 x" using 1(8) 2(3) by (simp add: keeps_curb_def)
  moreover have "view g2 s2 = (push (prio (priofinity s)) (current g s) (view g s))\<lparr>v_current := []\<rparr>"
    by (simp add: 2(5) 1(4,6) push_def set_ready_def)
  moreover have "do { (b, s) \<leftarrow> save_curb s; push_batch (priofinity s) b s } = Some s2"
    using 1(1) 2(1) P(2) by simp
  ultimately show ?thesis using 2(2) sparesD [OF 2(4) 1(9)] calm by blast
qed

lemma flagged_xor:
  assumes "n < 2 ^ 30"
  shows "flagged e n XOR BATCH_EMPTIED = flagged (\<not> e) n"
proof -
  have small: "of_nat n < (0x40000000 :: WORD)" using assms by (simp add: word_less_nat_alt unat_of_nat)
  note B = emptied_bits [OF small]
  have "(of_nat n :: WORD) XOR BATCH_EMPTIED = of_nat n OR BATCH_EMPTIED"
    by (rule disjunctive_xor_eq_or [OF B(2)])
  then have x: "(of_nat n :: WORD) XOR BATCH_EMPTIED = BATCH_EMPTIED OR of_nat n"
    by (simp only: or.commute)
  have y: "(BATCH_EMPTIED OR of_nat n) XOR BATCH_EMPTIED = (of_nat n :: WORD)"
    unfolding x [symmetric] xor.assoc xor_self_eq by (rule xor.right_neutral)
  show ?thesis
  proof (cases e)
    case True
    then show ?thesis using y by (simp add: flagged_def B(1))
  next
    case False
    then show ?thesis using x by (simp add: flagged_def B(1))
  qed
qed

lemma more_than_one:
  assumes "n < 2 ^ 30" "(flagged e n XOR BATCH_EMPTIED) > BATCH_EMPTIED + 1"
  shows "1 < n"
proof (rule ccontr)
  assume "\<not> 1 < n"
  then consider "n = 0" | "n = 1" by linarith
  then show False using assms(2) unfolding flagged_xor [OF assms(1)]
    by cases (auto simp: flagged_def split: if_splits)
qed

text \<open>The first process of the current batch gets a batch of its own, which is pushed.\<close>

lemma push_first:
  assumes wf: "kwf g s" and wp: "current g s = w # ps" and room: "room (Suc k) g s"
  shows "\<exists>s' g'. do {
      (b, s) \<leftarrow> allocate_batch s;
      (w, s) \<leftarrow> dequeue_from_curb s;
      s \<leftarrow> enqueue_to_batch_with_hint b w True s;
      push_batch (priofinity s) b s } = Some s' \<and>
    kwf g' s' \<and> calm s s' \<and> (\<forall>x. unqueued g x \<longrightarrow> unqueued g' x) \<and> room k g' s' \<and>
    view g' s' = (push (prio (priofinity s)) [w] (view g s))\<lparr>v_current := ps\<rparr>"
proof -
  note K = kwf_parts [OF wf]
  obtain b s1 g1 where 1: "allocate_batch s = Some (b, s1)" "steady g1 s1" "own g1 b = Detached" "cont g1 b = []"
    "view g1 s1 = view g s" "keeps_curb g s g1 s1" "room k g1 s1"
    using allocate_batch_steady [OF _ room] wf unfolding kwf_def by metis
  have cs: "curb s1 = curb s" "dispatches s1 = dispatches s1" and P1: "priofinity s1 = priofinity s" "calm s s1"
    using 1(6) by (simp_all add: keeps_curb_def calm_simps)
  have wf1: "kwf g1 s1" using 1(2,6) K(4) by (simp add: kwf_def keeps_curb_def cs)
  note K1 = kwf_parts [OF wf1]
  have bc: "b \<noteq> curb s" using core_apart(3) [OF K1(1), of b] 1(3) cs(1) by simp
  have bz: "b \<noteq> 0" using core_nz [OF K1(1), of b] 1(3) by simp
  have cur1: "current g1 s1 = w # ps" using apart_current [OF 1(6)] wp by simp
  obtain s2 g2 where 2: "dequeue_from_curb s1 = Some (w, s2)" "kwf g2 s2" "calm s1 s2"
    "view g2 s2 = (view g1 s1)\<lparr>v_current := ps\<rparr>" "unqueued g2 w" "\<forall>x. unqueued g1 x \<longrightarrow> unqueued g2 x" "own g2 = own g1"
    "\<forall>c. c \<noteq> curb s1 \<longrightarrow> cont g2 c = cont g1 c" "spares g1 s1 g2 s2"
    using dequeue_current [OF wf1 cur1] by blast
  note K2 = kwf_parts [OF 2(2)]
  have w: "w \<noteq> 0" "kmem s2 w Priofinity = priofinity s"
    using 2(5) K1(7) cur1 P1(1) calm_simps(6) [OF 2(3)] by (simp_all add: unqueued_def)
  obtain s3 where 3: "enqueue_to_batch_with_hint b w True s2 = Some s3" "batch_procs s3 b False [w]"
    "changes {(b, B_Fptr), (b, B_Bptr), (b, B_size), (w, Link)} s2 s3" (is "changes ?A _ _")
    using enqueue_with_hint_first [OF bz w(1)] by blast
  let ?g3 = "set_cont b [w] g2"
  have b2: "own g2 b = Detached" "cont g2 b = []" using 1(3,4) 2(7,8) bc cs(1) by simp_all
  have e: "g2\<lparr>emptied := emptied g2\<rparr> = g2" by simp
  have "core {} (set_cont b [w] (g2\<lparr>emptied := emptied g2\<rparr>)) s3"
    using 3(2) b2 2(5) by (intro core_set_cont [OF K2(1) 3(3)]) (auto simp: flag_of_def)
  then have c3: "core {} ?g3 s3" unfolding e .
  note F = changes_fields [OF 3(3)]
  have "kmem s3 p k = kmem s2 p k" if "k < 0" "k \<noteq> Link" for p k
    using changes_kmem [OF 3(3), of p k] that by auto
  then have calm3: "calm s2 s3" by (simp add: calm_def changes_alike [OF 3(3)])
  have same: "\<forall>k < 32. same_at k g2 s2 ?g3 s3"
    using b2 F by (intro same_at_apart [OF K2(1), of b]) simp_all
  have "marks_ok ?g3 s3" by (rule marks_all_same [OF K2(3) calm_pri [OF calm3] same]) (simp_all add: F)
  moreover have "uniform ?g3 s3"
    by (rule uniform_cont [OF K2(2) calm_pri [OF calm3], of _ b "priofinity s"]) (use w in auto)
  ultimately have st3: "steady ?g3 s3" using c3 by (simp add: steady_def)
  have cs3: "curb s3 = curb s" using cs(1) calm_simps(1) [OF 2(3)] F(1) by simp
  have v3: "view ?g3 s3 = (view g s)\<lparr>v_current := ps\<rparr>"
  proof -
    have "current ?g3 s3 = current g2 s2" using bc cs3 F(1) by (simp add: current_def)
    also have "\<dots> = ps" using arg_cong [OF 2(4), of v_current] by simp
    finally show ?thesis using ready_all_same [OF same] 2(4) 1(5) by simp
  qed
  have pr3: "\<forall>p \<in> set (cont ?g3 b). kmem s3 p Priofinity = priofinity s"
    using w(2) calm_simps(6) [OF calm3] by simp
  have b3: "own ?g3 b = Detached" "cont ?g3 b = [w]" using b2 by simp_all
  have ne: "cont ?g3 b \<noteq> []" using b3 by simp
  obtain s4 g4 where 4: "push_batch (priofinity s) b s3 = Some s4" "steady g4 s4" "keeps_curb ?g3 s3 g4 s4"
    "spares ?g3 s3 g4 s4" "view g4 s4 = push (prio (priofinity s)) (cont ?g3 b) (view ?g3 s3)"
    using push_batch_steady [OF st3 b3(1) ne pr3] .
  have calm: "calm s s4"
    using calm_trans [OF calm_trans [OF P1(2) 2(3)] calm_trans [OF calm3]] 4(3) by (simp add: keeps_curb_def)
  have P: "priofinity s2 = priofinity s" "priofinity s3 = priofinity s" "priofinity s4 = priofinity s" "curb s4 = curb s"
    using calm_simps(2) [OF 2(3)] P1 F(8) calm_simps(1,2) [OF calm] by simp_all
  have wf4: "kwf g4 s4"
    using 4(2,3) K2(4) P(4) cs3 F(1) by (simp add: kwf_def keeps_curb_def)
  have "unqueued g4 x" if x: "unqueued g x" for x
  proof -
    have "x \<notin> set (current g s)" using x K(4,5) by (simp add: unqueued_def)
    then have "x \<noteq> w" using wp by auto
    moreover have "unqueued g2 x" using x 1(6) 2(6) by (simp add: keeps_curb_def)
    ultimately have "unqueued ?g3 x" using b2 by (intro idle_set_cont) auto
    then show ?thesis using 4(3) by (simp add: keeps_curb_def)
  qed
  moreover have "view g4 s4 = (push (prio (priofinity s)) [w] (view g s))\<lparr>v_current := ps\<rparr>"
    using 4(5) v3 b3(2) by (simp add: push_def set_ready_def)
  moreover have "spares g2 s2 ?g3 s3" by (rule sparesI) (simp_all add: F)
  then have "room k g4 s4" using sparesD [OF 4(4)] sparesD [OF 2(9) 1(7)] by (blast dest: sparesD)
  ultimately show ?thesis
    using wf4 calm 1(1) 2(1) 3(1) 4(1) P by (intro exI [of _ s4] exI [of _ g4]) simp
qed

text \<open>
  All processes of the current batch become the last ones ready at its priority. When its dispatches are used
  up and it was never emptied, its first process is put into a batch of its own; their order is the same.
\<close>

lemma push_curb_steady:
  assumes wf: "kwf g s" and c: "current g s \<noteq> []" and room: "room (Suc (Suc k)) g s"
  shows "\<exists>s' g'. push_curb s = Some s' \<and> steady g' s' \<and>
    own g' (curb s) = Elsewhere \<and> calm s s' \<and> (\<forall>x. unqueued g x \<longrightarrow> unqueued g' x) \<and> room k g' s' \<and>
    view g' s' = (push (prio (priofinity s)) (current g s) (view g s))\<lparr>v_current := []\<rparr>"
proof -
  note K = kwf_parts [OF wf]
  have nz: "curb s \<noteq> 0" using batch_procs_nz [OF K(6)] .
  have len: "length (current g s) < 2 ^ 30" "kmem s (curb s) B_size = flagged (emptied g) (length (current g s))"
    using K(6) by (simp_all add: batch_procs_def)
  show ?thesis
  proof (cases "sint (dispatches s) \<le> 0 \<and> (kmem s (curb s) B_size XOR BATCH_EMPTIED) > BATCH_EMPTIED + 1")
    case False
    then have "push_curb s = do { (b, s) \<leftarrow> save_curb s; push_batch (priofinity s) b s }"
      using nz by (auto simp: push_curb_def)
    moreover have "room (Suc k) g s" by (rule room_less [OF room]) simp
    ultimately show ?thesis using save_and_push [OF wf c, of k] by simp
  next
    case True
    then have "1 < length (current g s)" using more_than_one [OF len(1)] unfolding len(2) by blast
    then obtain w ps where wp: "current g s = w # ps" "ps \<noteq> []" by (cases "current g s") auto
    obtain s4 g4 where 4: "do {
        (b, s) \<leftarrow> allocate_batch s;
        (w, s) \<leftarrow> dequeue_from_curb s;
        s \<leftarrow> enqueue_to_batch_with_hint b w True s;
        push_batch (priofinity s) b s } = Some s4"
      "kwf g4 s4" "calm s s4" "\<forall>x. unqueued g x \<longrightarrow> unqueued g4 x" "room (Suc k) g4 s4"
      "view g4 s4 = (push (prio (priofinity s)) [w] (view g s))\<lparr>v_current := ps\<rparr>"
      using push_first [OF wf wp(1) room] by blast
    note P = calm_simps [OF 4(3)]
    have cur4: "current g4 s4 = ps" using arg_cong [OF 4(6), of v_current] by simp
    obtain s5 g5 where 5: "do { (b, s) \<leftarrow> save_curb s4; push_batch (priofinity s) b s } = Some s5" "steady g5 s5"
      "own g5 (curb s4) = Elsewhere" "calm s4 s5" "\<forall>x. unqueued g4 x \<longrightarrow> unqueued g5 x" "room k g5 s5"
      "view g5 s5 = (push (prio (priofinity s4)) (current g4 s4) (view g4 s4))\<lparr>v_current := []\<rparr>"
      using save_and_push [OF 4(2) _ 4(5)] cur4 wp(2) by blast
    have "push_curb s = Option.bind (do {
        (b, s) \<leftarrow> allocate_batch s;
        (w, s) \<leftarrow> dequeue_from_curb s;
        s \<leftarrow> enqueue_to_batch_with_hint b w True s;
        push_batch (priofinity s) b s }) (\<lambda>s. do { (b, s) \<leftarrow> save_curb s; push_batch (priofinity s) b s })"
      using True nz by (simp add: push_curb_def)
    then have run: "push_curb s = Some s5" by (simp only: 4(1) 5(1) bind.bind_lunit)
    moreover have "view g5 s5 = (push (prio (priofinity s)) (current g s) (view g s))\<lparr>v_current := []\<rparr>"
      using 5(7) 4(6) wp(1) P(2) by (simp add: push_def set_ready_def cur4)
    ultimately show ?thesis
      using 5(2,3,5,6) 4(4) P(1) calm_trans [OF 4(3) 5(4)] by auto
  qed
qed

section \<open>The operations of the kernel calls\<close>

text \<open>This thread may run a process of this priofinity.\<close>

definition local_to :: "kern \<Rightarrow> WORD \<Rightarrow> bool" where
  "local_to s v \<longleftrightarrow> v = priofinity s \<or> \<not> PHasAffinity v \<or> PAffinity v AND sched_id s \<noteq> 0"

lemma enqueue_process_kwf:
  assumes wf: "kwf g s" and w: "unqueued g w" and v: "v = kmem s w Priofinity" "local_to s v"
    and room: "room (Suc k) g s"
  shows "\<exists>s' g'. enqueue_process w s = Some s' \<and> kwf g' s' \<and> queues w g s g' s' \<and> room k g' s' \<and>
    view g' s' = (if v = priofinity s then (view g s)\<lparr>v_current := current g s @ [w]\<rparr>
      else push (prio v) [w] (view g s))"
proof (cases "v = priofinity s")
  case True
  have "enqueue_process w s = enqueue_to_batch (curb s) w s"
    using w v True by (simp add: enqueue_process_def unqueued_def)
  moreover have "room k g s" by (rule room_less [OF room]) simp
  ultimately show ?thesis using enqueue_current [OF wf w] v True by (auto intro: sparesD)
next
  case False
  have run: "enqueue_process w s = enqueue_far_process v w s"
    using w v False by (simp add: enqueue_process_def unqueued_def)
  obtain s' g' where s': "enqueue_far_process v w s = Some s'" "steady g' s'" "queues w g s g' s'"
    "view g' s' = push (prio v) [w] (view g s)" "room k g' s'"
    using enqueue_far_process_steady [of g s w v k] room wf w v False unfolding kwf_def local_to_def by metis
  have "kwf g' s'" using s'(2,3) kwf_parts(4) [OF wf] by (auto simp: kwf_def queues_def calm_simps(1))
  with s' False run show ?thesis by auto
qed

lemma push_nothing [simp]: "push n [] v = v"
  by (simp add: push_def set_ready_def)

text \<open>What is left of the current batch is put away.\<close>

lemma put_away_curb:
  assumes wf: "kwf g s" and room: "room (Suc (Suc k)) g s"
  obtains s' g' where "(if kmem s (curb s) B_Fptr \<noteq> 0 then push_curb s else Some s) = Some s'" "steady g' s'"
    "own g' (curb s) = Elsewhere" "calm s s'" "\<forall>x. unqueued g x \<longrightarrow> unqueued g' x" "room k g' s'"
    "view g' s' = (push (prio (priofinity s)) (current g s) (view g s))\<lparr>v_current := []\<rparr>"
proof -
  note K = kwf_parts [OF wf]
  have empty: "kmem s (curb s) B_Fptr = 0 \<longleftrightarrow> current g s = []" by (rule batch_procs_empty [OF K(6)])
  show thesis
  proof (cases "current g s = []")
    case True
    then have "view g s = (view g s)\<lparr>v_current := []\<rparr>" by (simp add: view_def)
    moreover have "room k g s" by (rule room_less [OF room]) simp
    then have "room k (move (curb s) Elsewhere g) s" by (simp add: room_def)
    ultimately show thesis using forget_curb [OF wf True] True empty
      by (intro that [of s "move (curb s) Elsewhere g"]) simp_all
  next
    case False
    with push_curb_steady [OF wf False room] empty show thesis by (auto intro: that)
  qed
qed

text \<open>
  A process that goes to another priority or affinity leaves the current batch to those that wait for it: they
  are pushed, and the new current batch is empty.
\<close>

lemma switch_priofinity_kwf:
  assumes wf: "kwf g s" and room: "room (Suc (Suc k)) g s"
  shows "\<exists>s' g'. switch_priofinity v s = Some s' \<and> kwf g' s' \<and> priofinity s' = v \<and> curb s' = curb s \<and>
    same_pri s s' \<and> (\<forall>x. unqueued g x \<longrightarrow> unqueued g' x) \<and> room k g' s' \<and>
    view g' s' = (if v = priofinity s then view g s
      else (push (prio (priofinity s)) (current g s) (view g s))\<lparr>v_current := []\<rparr>)"
proof (cases "priofinity s = v")
  case True
  then have "switch_priofinity v s = Some s" by (simp add: switch_priofinity_def)
  moreover have "room k g s" by (rule room_less [OF room]) simp
  ultimately show ?thesis using wf True by (intro exI [of _ s] exI [of _ g]) (simp add: same_pri_def)
next
  case False
  note K = kwf_parts [OF wf]
  have nz: "curb s \<noteq> 0" using batch_procs_nz [OF K(6)] .
  obtain s1 g1 where 1: "(if kmem s (curb s) B_Fptr \<noteq> 0 then push_curb s else Some s) = Some s1" "steady g1 s1"
    "own g1 (curb s) = Elsewhere" "calm s s1" "\<forall>x. unqueued g x \<longrightarrow> unqueued g1 x" "room k g1 s1"
    "view g1 s1 = (push (prio (priofinity s)) (current g s) (view g s))\<lparr>v_current := []\<rparr>"
    using put_away_curb [OF wf room] .
  have cs: "curb s1 = curb s" using 1(4) by (simp add: calm_simps)
  obtain s2 g2 where 2: "new_curb s1 = Some s2" "kwf g2 s2" "view g2 s2 = view g1 s1" "current g2 s2 = []" "calm s1 s2"
    "\<forall>x. unqueued g1 x \<longrightarrow> unqueued g2 x" "spares g1 s1 g2 s2"
    using new_curb_kwf [OF 1(2)] 1(3) cs by auto
  let ?s = "s2\<lparr>priofinity := v\<rparr>"
  note K2 = kwf_parts [OF 2(2)]
  have run: "switch_priofinity v s = Some ?s"
    using False nz 1(1) 2(1) by (simp add: switch_priofinity_def empty_batch_def)
  have "\<forall>b. own g2 b = InCurb \<longrightarrow> cont g2 b = []"
    using coreD(2) [OF K2(1)] K2(5) 2(4) unfolding curb_ok_def by metis
  then have "core {} g2 (s2\<lparr>dispatches := dispatches s2, priofinity := v\<rparr>)"
    by (rule core_set_priofinity [OF K2(1)])
  then have c: "core {} g2 ?s" by simp
  have same: "\<forall>k < 32. same_at k g2 s2 g2 ?s" by (simp add: same_at_def)
  have sp: "same_pri s2 ?s" by (simp add: same_pri_def)
  have "marks_ok g2 ?s" by (rule marks_all_same [OF K2(3) sp same]) simp_all
  moreover have "uniform g2 ?s" by (rule uniform_pri [OF K2(2) sp])
  ultimately have "kwf g2 ?s" using c K2(4) by (simp add: kwf_def steady_def)
  moreover have "same_pri s ?s"
    using calm_simps(6) [OF 1(4)] calm_simps(6) [OF 2(5)] by (simp add: same_pri_def)
  moreover have "current g2 ?s = current g2 s2" by (simp only: current_def) simp
  then have "current g2 ?s = []" using 2(4) by simp
  then have "view g2 ?s = (view g2 s2)\<lparr>v_current := []\<rparr>" using ready_all_same [OF same] by simp
  then have "view g2 ?s = (push (prio (priofinity s)) (current g s) (view g s))\<lparr>v_current := []\<rparr>"
    by (simp add: 2(3) 1(7))
  moreover have "room k g2 ?s" using sparesD [OF 2(7) 1(6)] by (simp add: room_def)
  ultimately show ?thesis
    using run False 1(5) 2(6) cs calm_simps(1) [OF 2(5)] by (intro exI [of _ ?s] exI [of _ g2]) auto
qed

end
