(* ===== verification/Ccsp_Timer.thy ===== *)
theory Ccsp_Timer
  imports Ccsp_Runqueue
begin

text \<open>
  The timer queue of the kernel (\<^verbatim>\<open>sched.c\<close>): a list of nodes linked both ways in the order of their
  times, each with the workspace that waits, marked in its lowest bit when it waits in an alternation. A
  node is a batch, taken from the free list; a dead one (no workspace, and clean) is used again.
\<close>

section \<open>Nodes\<close>

definition setup_tqnode :: "WORD \<Rightarrow> WORD \<Rightarrow> WORD \<Rightarrow> bool \<Rightarrow> kern \<Rightarrow> kern option" where
  "setup_tqnode tn wptr time alt s = do {
     s \<leftarrow> st tn TN_wptr (wptr OR of_bool alt) s;
     s \<leftarrow> st tn TN_time time s;
     set_batch_dirty_value tn alt s }"

text \<open>The address of the current batch stands for that of the scheduler it is in.\<close>

definition init_tqnode :: "WORD \<Rightarrow> WORD \<Rightarrow> bool \<Rightarrow> kern \<Rightarrow> (WORD \<times> kern) option" where
  "init_tqnode wptr time alt s = do {
     (tn, s) \<leftarrow> allocate_batch s;
     s \<leftarrow> setup_tqnode tn wptr time alt s;
     s \<leftarrow> st tn TN_scheduler (curb s) s;
     Some (tn, s) }"

definition release_tqnode :: "WORD \<Rightarrow> kern \<Rightarrow> kern option" where
  "release_tqnode tn s = release_batch tn s"

definition insert_tqnode :: "WORD \<Rightarrow> bool \<Rightarrow> WORD \<Rightarrow> WORD \<Rightarrow> bool \<Rightarrow> kern \<Rightarrow> (WORD \<times> kern) option" where
  "insert_tqnode node before wptr time alt s = do {
     w \<leftarrow> ld node TN_wptr s;
     d \<leftarrow> dirty_batch node s;
     if w \<noteq> NotProcess_p \<or> d then do {
       (tn, s) \<leftarrow> init_tqnode wptr time alt s;
       if before then do {
         s \<leftarrow> st tn TN_next node s;
         prev \<leftarrow> ld node TN_prev s;
         s \<leftarrow> st tn TN_prev prev s;
         s \<leftarrow> (if prev = 0 then do {
                 s \<leftarrow> Some (s\<lparr>tq_fptr := tn\<rparr>);
                 t \<leftarrow> ld tn TN_time s;
                 Some (Time_SetTimeout t s) }
               else st prev TN_next tn s);
         s \<leftarrow> st node TN_prev tn s;
         Some (tn, s) }
       else do {
         nxt \<leftarrow> ld node TN_next s;
         s \<leftarrow> st tn TN_next nxt s;
         s \<leftarrow> (if nxt = 0 then Some (s\<lparr>tq_bptr := tn\<rparr>) else st nxt TN_prev tn s);
         s \<leftarrow> st node TN_next tn s;
         s \<leftarrow> st tn TN_prev node s;
         Some (tn, s) } }
     else do {
       s \<leftarrow> setup_tqnode node wptr time alt s;
       prev \<leftarrow> ld node TN_prev s;
       s \<leftarrow> (if prev = 0 then do { t \<leftarrow> ld node TN_time s; Some (Time_SetTimeout t s) } else Some s);
       Some (node, s) } }"

definition delete_tqnode :: "WORD \<Rightarrow> kern \<Rightarrow> kern option" where
  "delete_tqnode node s = do {
     prev \<leftarrow> ld node TN_prev s;
     nxt \<leftarrow> ld node TN_next s;
     if prev = 0 then do {
       s \<leftarrow> Some (s\<lparr>tq_fptr := nxt\<rparr>);
       if nxt = 0 then Some (s\<lparr>tq_bptr := 0\<rparr>)
       else do {
         s \<leftarrow> st nxt TN_prev 0 s;
         t \<leftarrow> ld nxt TN_time s;
         Some (Time_SetTimeout t s) } }
     else do {
       s \<leftarrow> st prev TN_next nxt s;
       if nxt = 0 then Some (s\<lparr>tq_bptr := prev\<rparr>) else st nxt TN_prev prev s } }"

section \<open>The queue\<close>

partial_function (option) clean_tqnodes :: "WORD \<Rightarrow> kern \<Rightarrow> kern option" where
  "clean_tqnodes tn s =
     (if tn \<noteq> 0 then do {
        w \<leftarrow> ld tn TN_wptr s;
        nxt \<leftarrow> ld tn TN_next s;
        if w = NotProcess_p then do {
          s \<leftarrow> delete_tqnode tn s;
          s \<leftarrow> set_batch_clean tn s;
          clean_tqnodes nxt s }
        else clean_tqnodes nxt s }
      else Some s)"

definition clean_timer_queue :: "kern \<Rightarrow> kern option" where
  "clean_timer_queue s = clean_tqnodes (tq_fptr s) s"

text \<open>With one thread nothing comes between the read of the state and the exchange.\<close>

definition trigger_alt_guard :: "WORD \<Rightarrow> kern \<Rightarrow> kern option" where
  "trigger_alt_guard ptr s = do {
     wptr \<leftarrow> Some (ptr AND NOT 1);
     state \<leftarrow> ld wptr State s;
     nstate \<leftarrow> Some ((state - 1) AND NOT (ALT_NOT_READY OR ALT_WAITING));
     s \<leftarrow> st wptr State nstate s;
     if state AND ALT_WAITING \<noteq> 0 \<or> nstate = 0 then enqueue_process wptr s else Some s }"

text \<open>A node whose time has come, or that is dead.\<close>

definition expire_tqnode :: "WORD \<Rightarrow> WORD \<Rightarrow> kern \<Rightarrow> kern option" where
  "expire_tqnode now tn s = do {
     ptr \<leftarrow> ld tn TN_wptr s;
     if ptr \<noteq> NotProcess_p \<and> ptr AND 1 = 0 then do {
       s \<leftarrow> st ptr Time_f now s;
       s \<leftarrow> enqueue_process ptr s;
       release_tqnode tn s }
     else do {
       s \<leftarrow> (if ptr \<noteq> NotProcess_p then do {
               s \<leftarrow> st tn TN_time now s;
               s \<leftarrow> st tn TN_wptr NotProcess_p s;
               trigger_alt_guard ptr s }
             else Some s);
       set_batch_clean tn s } }"

partial_function (option) walk_tqnodes :: "WORD \<Rightarrow> WORD \<Rightarrow> kern \<Rightarrow> kern option" where
  "walk_tqnodes now tn s = do {
     w \<leftarrow> ld tn TN_wptr s;
     t \<leftarrow> ld tn TN_time s;
     if w = NotProcess_p \<or> \<not> Time_AFTER t now then do {
       nxt \<leftarrow> ld tn TN_next s;
       s \<leftarrow> expire_tqnode now tn s;
       if nxt \<noteq> 0 then walk_tqnodes now nxt s
       else Some (s\<lparr>tq_fptr := 0, tq_bptr := 0\<rparr>) }
     else do {
       s \<leftarrow> st tn TN_prev 0 s;
       Some (Time_SetTimeoutN now t (s\<lparr>tq_fptr := tn\<rparr>)) } }"

definition ccsp_walk_timer_queue :: "kern \<Rightarrow> kern option" where
  "ccsp_walk_timer_queue s = (let tn = tq_fptr s; (now, s) = Time_GetTime s in walk_tqnodes now tn s)"

definition check_timer_queue :: "kern \<Rightarrow> kern option" where
  "check_timer_queue s = (if tq_fptr s \<noteq> 0 then ccsp_walk_timer_queue s else Some s)"

text \<open>The place is sought from both ends at once.\<close>

partial_function (option) seek_tqnode ::
    "WORD \<Rightarrow> WORD \<Rightarrow> WORD \<Rightarrow> WORD \<Rightarrow> bool \<Rightarrow> kern \<Rightarrow> (WORD \<times> kern) option" where
  "seek_tqnode fptr bptr wptr time alt s = do {
     ft \<leftarrow> ld fptr TN_time s;
     if Time_AFTER ft time then insert_tqnode fptr True wptr time alt s
     else do {
       bt \<leftarrow> ld bptr TN_time s;
       if \<not> Time_AFTER bt time then insert_tqnode bptr False wptr time alt s
       else do {
         nxt \<leftarrow> ld fptr TN_next s;
         prev \<leftarrow> ld bptr TN_prev s;
         seek_tqnode nxt prev wptr time alt s } } }"

definition add_to_timer_queue :: "WORD \<Rightarrow> WORD \<Rightarrow> bool \<Rightarrow> kern \<Rightarrow> (WORD \<times> kern) option" where
  "add_to_timer_queue wptr time alt s =
     (if tq_fptr s = 0 then do {
        (tn, s) \<leftarrow> init_tqnode wptr time alt s;
        s \<leftarrow> st tn TN_next 0 s;
        s \<leftarrow> st tn TN_prev 0 s;
        s \<leftarrow> Some (s\<lparr>tq_fptr := tn, tq_bptr := tn\<rparr>);
        t \<leftarrow> ld tn TN_time s;
        Some (tn, Time_SetTimeout t s) }
      else seek_tqnode (tq_fptr s) (tq_bptr s) wptr time alt s)"

text \<open>The result says that the timer had fired.\<close>

definition remove_from_timer_queue :: "WORD \<Rightarrow> WORD \<Rightarrow> kern \<Rightarrow> (bool \<times> kern) option" where
  "remove_from_timer_queue tn wptr s = do {
     owner \<leftarrow> ld tn TN_scheduler s;
     w \<leftarrow> ld tn TN_wptr s;
     if owner = curb s then
       if w \<noteq> NotProcess_p then do {
         s \<leftarrow> delete_tqnode tn s;
         s \<leftarrow> set_batch_clean tn s;
         Some (False, s) }
       else Some (True, s)
     else if w \<noteq> NotProcess_p then do {
       s \<leftarrow> st tn TN_wptr NotProcess_p s;
       Some (False, s\<lparr>sync := set_bit SYNC_TQ_BIT (sync s)\<rparr>) }
     else Some (True, s) }"

end
