(* ===== verification/Ccsp_Sched.thy ===== *)
theory Ccsp_Sched
  imports Ccsp_Curb Ccsp_Timer
begin

text \<open>
  The scheduler proper (\<^verbatim>\<open>kernel_scheduler\<close> of \<^verbatim>\<open>sched.c\<close>): a pass of its loop serves the events
  of other threads and of the clock, then takes the next process, or goes to sleep, or finds that nothing can
  ever run again. Its laws: the processes are those of the abstract scheduler, the most urgent first, and none is lost.
\<close>

section \<open>A pass\<close>

text \<open>
  What the host does is a parameter: \<open>pause\<close> returns when a signal has set an event (\<^verbatim>\<open>ccsp_safe_pause\<close>, which
  only waits when there is none), \<open>external\<close> says whether a process waits for an event outside the program, \<open>spin_us\<close> is
  \<^verbatim>\<open>ccsp_spin_us\<close> and \<open>spin_of\<close> the spin count of another run time thread.
\<close>

record host_events =
  pause :: "kern \<Rightarrow> kern"
  external :: "kern \<Rightarrow> bool"
  spin_us :: WORD
  spin_of :: "nat \<Rightarrow> WORD"

datatype pass = Dispatch WORD | Again | Deadlock

definition ccsp_safe_pause :: "host_events \<Rightarrow> kern \<Rightarrow> kern" where
  "ccsp_safe_pause h s = (if sync s = 0 then pause h s else s)"

partial_function (option) sync_bmail :: "kern \<Rightarrow> kern option" where
  "sync_bmail s = do {
     (b, s) \<leftarrow> atomic_dequeue_from_runqueue BMAIL s;
     if b \<noteq> 0 then do {
       p \<leftarrow> ld b B_priofinity s;
       s \<leftarrow> push_batch p b s;
       sync_bmail s }
     else Some s }"

partial_function (option) sync_pmail :: "kern \<Rightarrow> kern option" where
  "sync_pmail s = do {
     (p, s) \<leftarrow> atomic_dequeue_from_runqueue PMAIL s;
     if p \<noteq> 0 then do {
       s \<leftarrow> enqueue_process p s;
       sync_pmail s }
     else Some s }"

text \<open>The events of \<^verbatim>\<open>sched->sync\<close>.\<close>

definition serve_sync :: "kern \<Rightarrow> kern option" where
  "serve_sync s =
     (if sync s \<noteq> 0 then
        (let ev = sync s; s = s\<lparr>sync := 0\<rparr> in do {
           s \<leftarrow> (if bit ev SYNC_TIME_BIT then check_timer_queue s else Some s);
           s \<leftarrow> (if bit ev SYNC_BMAIL_BIT then sync_bmail s else Some s);
           s \<leftarrow> (if bit ev SYNC_PMAIL_BIT then sync_pmail s else Some s);
           if bit ev SYNC_TQ_BIT then do { s \<leftarrow> clean_timer_queue s; check_timer_queue s }
           else Some s })
      else Some s)"

text \<open>The most urgent priority that has a batch; the bits of those that turn out to have none are cleared.\<close>

partial_function (option) pick_urgent :: "kern \<Rightarrow> (WORD \<times> kern) option" where
  "pick_urgent s =
     (if rqstate s \<noteq> 0 then do {
        (b, s) \<leftarrow> pick_batch (bsf (rqstate s)) s;
        if b \<noteq> 0 then Some (b, s) else pick_urgent s }
      else Some (0, s))"

definition take_curb :: "kern \<Rightarrow> (pass \<times> kern) option" where
  "take_curb s = do { (w, s) \<leftarrow> dequeue_from_curb s; Some (if w = 0 then Again else Dispatch w, s) }"

text \<open>
  Nothing to run: house-keeping, then sleep unless the loop count says to try again. Only one thread can be enabled, so all
  threads are idle when it is.
\<close>

definition go_idle :: "host_events \<Rightarrow> kern \<Rightarrow> (pass \<times> kern) option" where
  "go_idle h s = do {
     s \<leftarrow> new_curb s;
     s \<leftarrow> (if sched_loop s AND 0xf = 0 then do {
             s \<leftarrow> clean_timer_queue s;
             s \<leftarrow> do_laundry s;
             release_excess_memory s }
           else Some s);
     if sched_loop s > 0 then Some (Again, s\<lparr>sched_loop := sched_loop s - 1\<rparr>)
     else do {
       s \<leftarrow> Some (s\<lparr>sleeping_threads := set_bit (unat (sched_index s)) (sleeping_threads s)\<rparr>);
       if tq_fptr s \<noteq> 0 then do {
         s \<leftarrow> check_timer_queue (ccsp_safe_pause h s);
         Some (Again, s\<lparr>sched_loop := spin s\<rparr>) }
       else if sync s = 0 then do {
         s \<leftarrow> Some (s\<lparr>idle_threads := set_bit (unat (sched_index s)) (idle_threads s)\<rparr>);
         if external h s \<or> idle_threads s AND sleeping_threads s \<noteq> enabled_threads s then do {
           s \<leftarrow> Some (ccsp_safe_pause h s);
           Some (Again, s\<lparr>idle_threads := unset_bit (unat (sched_index s)) (idle_threads s), sched_loop := spin s\<rparr>) }
         else Some (Deadlock, s) }
       else Some (Again, s\<lparr>sleeping_threads := unset_bit (unat (sched_index s)) (sleeping_threads s),
         sched_loop := spin s\<rparr>) } }"

definition end_of_curb_pass :: "host_events \<Rightarrow> kern \<Rightarrow> (pass \<times> kern) option" where
  "end_of_curb_pass h s = do {
     n \<leftarrow> ld (curb s) B_size s;
     if n > BATCH_EMPTIED \<and> rqstate s = 0 then do {
       n \<leftarrow> Some (n AND NOT BATCH_EMPTIED);
       s \<leftarrow> Some (s\<lparr>dispatches := calculate_dispatches n\<rparr>);
       s \<leftarrow> st (curb s) B_size n s;
       take_curb s }
     else do {
       e \<leftarrow> empty_batch (curb s) s;
       s \<leftarrow> (if \<not> e then push_curb s else Some s);
       (b, s) \<leftarrow> pick_urgent s;
       if b \<noteq> 0 then do {
         s \<leftarrow> Some (if mwstate s \<noteq> 0 \<and> sleeping_threads s \<noteq> 0 then ccsp_wake_thread SYNC_WORK_BIT s else s);
         s \<leftarrow> load_curb b False s;
         take_curb s }
       else do {
         (b, s) \<leftarrow> migrate_some_work s;
         if b \<noteq> 0 then do {
           s \<leftarrow> load_curb b True (s\<lparr>sched_loop := spin s\<rparr>);
           take_curb s }
         else go_idle h s } } }"

definition scheduler_pass :: "host_events \<Rightarrow> kern \<Rightarrow> (pass \<times> kern) option" where
  "scheduler_pass h s = do {
     s \<leftarrow> serve_sync s;
     e \<leftarrow> end_of_curb s;
     if e then end_of_curb_pass h s
     else take_curb (s\<lparr>dispatches := dispatches s - 1\<rparr>) }"

partial_function (option) kernel_scheduler :: "host_events \<Rightarrow> kern \<Rightarrow> (pass \<times> kern) option" where
  "kernel_scheduler h s = do {
     (r, s) \<leftarrow> scheduler_pass h s;
     if r = Again then kernel_scheduler h s else Some (r, s) }"

section \<open>The most urgent batch\<close>

lemma marks_ready: "marks_ok g s \<Longrightarrow> n < 32 \<Longrightarrow> runnable g s n \<noteq> [] \<Longrightarrow> bit (rqstate s) n"
  by (auto simp: marks_ok_def mark_ok_def runnable_def)

lemma ready_view: "view g s' = view g s \<Longrightarrow> n < 32 \<Longrightarrow> runnable g s' n = runnable g s n"
  by (metis view_simps(2))

definition bits :: "WORD \<Rightarrow> nat" where
  "bits w = card {i. i < 32 \<and> bit w i}"

lemma bits_unset:
  assumes "w \<noteq> 0"
  shows "bits (unset_bit (bsf w) w) < bits w"
proof -
  have "{i. i < 32 \<and> bit (unset_bit (bsf w) w) i} \<subset> {i. i < 32 \<and> bit w i}"
    using bit_bsf [OF assms] by (auto simp: bit_unset_bit32)
  then show ?thesis unfolding bits_def by (rule psubset_card_mono [rotated]) simp
qed

text \<open>
  Every batch found is the front of the most urgent priority's ready processes; when no process is ready the mask ends up
  empty.
\<close>

lemma pick_urgent_some:
  assumes "steady g s" "n < 32" "runnable g s n \<noteq> []" "\<forall>k < n. runnable g s k = []" "room (Suc k) g s"
  shows "\<exists>b s' g'. pick_urgent s = Some (b, s') \<and> b \<noteq> 0 \<and> own g' b = Detached \<and> cont g' b \<noteq> [] \<and> steady g' s' \<and>
    room k g' s' \<and> keeps_curb g s g' s' \<and> runnable g s n = cont g' b @ runnable g' s' n \<and> view g' s' = set_ready n (runnable g' s' n) (view g s)"
  using assms
proof (induction "bits (rqstate s)" arbitrary: s rule: less_induct)
  case less
  have "bit (rqstate s) n" using less.prems marks_ready unfolding steady_def by blast
  then have nz: "rqstate s \<noteq> 0" by auto
  define j where "j = bsf (rqstate s)"
  have j: "j < 32" "j \<le> n"
    using bit_bsf [OF nz] below_bsf [of n "rqstate s"] \<open>bit (rqstate s) n\<close> less.prems(2)
    by (auto simp: j_def not_less [symmetric])
  show ?case
    using less.prems(1) j(1) less.prems(5)
  proof (cases rule: pick_batch_steady)
    case (Nothing s')
    have st: "steady g s'" "view g s' = view g s" "keeps_curb g s g s'" by fact+
    have r: "runnable g s' i = runnable g s i" if "i < 32" for i by (rule ready_view [OF st(2) that])
    have "bits (rqstate s') < bits (rqstate s)"
      unfolding Nothing(6) j_def by (rule bits_unset [OF nz])
    from less.hyps [OF this st(1) less.prems(2) _ _ Nothing(7)] r less.prems(2-4)
    obtain b s2 g' where 2: "pick_urgent s' = Some (b, s2)" "b \<noteq> 0" "own g' b = Detached" "cont g' b \<noteq> []"
      "steady g' s2" "keeps_curb g s' g' s2" "runnable g s' n = cont g' b @ runnable g' s2 n"
      "view g' s2 = set_ready n (runnable g' s2 n) (view g s')" "room k g' s2"
      by fastforce
    have "pick_urgent s = Some (b, s2)"
      using nz Nothing(1) 2(1) by (subst pick_urgent.simps) (simp add: j_def)
    then show ?thesis
      using 2 apart_trans [OF st(3) 2(6)] r [OF less.prems(2)] st(2) by auto
  next
    case (Batch b s' g')
    have "runnable g s j \<noteq> []" using Batch(4,7) by simp
    then have "j = n" using less.prems(4) j(2) by (metis le_neq_implies_less)
    moreover have "pick_urgent s = Some (b, s')"
      using nz Batch(1,2) by (subst pick_urgent.simps) (simp add: j_def)
    ultimately show ?thesis using Batch by (intro exI [of _ b] exI [of _ s'] exI [of _ g']) simp
  qed
qed

lemma pick_urgent_none:
  assumes "steady g s" "\<forall>k < 32. runnable g s k = []" "room (Suc 0) g s"
  shows "\<exists>s'. pick_urgent s = Some (0, s') \<and> steady g s' \<and> keeps_curb g s g s' \<and> view g s' = view g s \<and> rqstate s' = 0"
  using assms
proof (induction "bits (rqstate s)" arbitrary: s rule: less_induct)
  case less
  show ?case
  proof (cases "rqstate s = 0")
    case True
    then have "pick_urgent s = Some (0, s)" by (subst pick_urgent.simps) simp
    with less.prems True show ?thesis by (simp add: keeps_curb_def)
  next
    case False
    define k where "k = bsf (rqstate s)"
    have k: "k < 32" using bit_bsf [OF False] by (simp add: k_def)
    show ?thesis
      using less.prems(1) k less.prems(3)
    proof (cases rule: pick_batch_steady)
      case (Nothing s')
      have st: "steady g s'" "view g s' = view g s" "keeps_curb g s g s'" by fact+
      have "bits (rqstate s') < bits (rqstate s)"
        unfolding Nothing(6) k_def by (rule bits_unset [OF False])
      from less.hyps [OF this st(1) _ Nothing(7)] less.prems(2) ready_view [OF st(2)]
      obtain s2 where 2: "pick_urgent s' = Some (0, s2)" "steady g s2" "keeps_curb g s' g s2" "view g s2 = view g s'"
        "rqstate s2 = 0" by auto
      have "pick_urgent s = Some (0, s2)"
        using False Nothing(1) 2(1) by (subst pick_urgent.simps) (simp add: k_def)
      then show ?thesis using 2 apart_trans [OF st(3) 2(3)] st(2) by auto
    next
      case (Batch b s' g')
      then show ?thesis using less.prems(2) k by simp
    qed
  qed
qed

section \<open>What a pass dispatches\<close>

text \<open>Masks of events and of sleeping threads do not matter to the queues.\<close>

lemma steady_masks:
  assumes st: "steady g s" and s': "kmem s' = kmem s" "curb s' = curb s" "rq s' = rq s" "free_list s' = free_list s"
    "laundry s' = laundry s" "mw s' = mw s" "blocks s' = blocks s" "allocs s' = allocs s" "priofinity s' = priofinity s"
    "rqstate s' = rqstate s" "mwstate s' = mwstate s"
  shows "steady g s'" "view g s' = view g s" "same_pri s s'" "room k g s' = room k g s"
proof -
  show "room k g s' = room k g s" by (simp add: room_def s')
  have "core {} g s'" by (rule core_same) (use st s' in \<open>simp_all add: steady_def\<close>)
  moreover show sp: "same_pri s s'" by (simp add: same_pri_def s')
  have same: "\<forall>k < 32. same_at k g s g s'" by (simp add: same_at_def s')
  have "marks_ok g s'" using st by (intro marks_all_same [OF _ sp same]) (simp_all add: steady_def s')
  moreover have "uniform g s'" using st by (intro uniform_pri [OF _ sp]) (simp add: steady_def)
  ultimately show "steady g s'" by (simp add: steady_def)
  show "view g s' = view g s" using ready_all_same [OF same] by (simp add: view_def current_def s')
qed

lemma spares_trans: "spares g s g' s' \<Longrightarrow> spares g' s' g'' s'' \<Longrightarrow> spares g s g'' s''"
  by (simp add: spares_def)

lemma take_curb_kwf:
  assumes "kwf g s" "current g s = w # ps"
  shows "\<exists>s' g'. take_curb s = Some (Dispatch w, s') \<and> kwf g' s' \<and> calm s s' \<and> unqueued g' w \<and> spares g s g' s' \<and>
    view g' s' = (view g s)\<lparr>v_current := ps\<rparr>"
proof -
  obtain s' g' where 1: "dequeue_from_curb s = Some (w, s')" "kwf g' s'" "calm s s'"
    "view g' s' = (view g s)\<lparr>v_current := ps\<rparr>" "unqueued g' w" "spares g s g' s'"
    using dequeue_current [OF assms] by blast
  moreover from 1(5) have "w \<noteq> 0" by (simp add: unqueued_def)
  ultimately show ?thesis by (intro exI [of _ s'] exI [of _ g']) (simp add: take_curb_def)
qed

text \<open>While its dispatches last the processes of the current batch run in turn.\<close>

lemma pass_continues:
  assumes wf: "kwf g s" and c: "current g s = w # ps" and d: "sint (dispatches s) > 0" "sync s = 0"
  shows "\<exists>s' g'. scheduler_pass h s = Some (Dispatch w, s') \<and> kwf g' s' \<and> unqueued g' w \<and> spares g s g' s' \<and>
    view g' s' = (view g s)\<lparr>v_current := ps\<rparr>"
proof -
  note K = kwf_parts [OF wf]
  have nz: "curb s \<noteq> 0" "kmem s (curb s) B_Fptr \<noteq> 0"
    using batch_procs_nz [OF K(6)] batch_procs_empty [OF K(6)] c by simp_all
  let ?s = "s\<lparr>dispatches := dispatches s - 1\<rparr>"
  have st: "steady g ?s" "view g ?s = view g s"
    by (rule steady_masks [of g s]; use wf in \<open>simp add: kwf_def\<close>)+
  then have wf': "kwf g ?s" using K(4) by (simp add: kwf_def)
  have sp: "spares g s g ?s" by (rule sparesI) simp_all
  have c': "current g ?s = w # ps" using arg_cong [OF st(2), of v_current] c by simp
  have "scheduler_pass h s = take_curb ?s"
    using nz d by (simp add: scheduler_pass_def serve_sync_def end_of_curb_def)
  with take_curb_kwf [OF wf' c'] st(2) show ?thesis by (auto intro: spares_trans [OF sp])
qed

text \<open>Nothing else is ready: the batch, emptied before, starts again.\<close>

lemma pass_reloads:
  assumes wf: "kwf g s" and c: "current g s = w # ps" and d: "kmem s (curb s) B_size > BATCH_EMPTIED" "rqstate s = 0"
  shows "\<exists>s' g'. end_of_curb_pass h s = Some (Dispatch w, s') \<and> kwf g' s' \<and> unqueued g' w \<and> spares g s g' s' \<and>
    view g' s' = (view g s)\<lparr>v_current := ps\<rparr>"
proof -
  note K = kwf_parts [OF wf]
  have bp: "batch_procs s (curb s) (emptied g) (w # ps)" using K(6) c by simp
  have nz: "curb s \<noteq> 0" using batch_procs_nz [OF bp] .
  let ?n = "kmem s (curb s) B_size AND NOT BATCH_EMPTIED"
  have n: "?n = flagged False (length (w # ps))"
    using bp flagged_clear [of "length (w # ps)" "emptied g"] by (simp add: batch_procs_def)
  let ?s0 = "s\<lparr>dispatches := calculate_dispatches ?n\<rparr>"
  have st: "steady g ?s0" "view g ?s0 = view g s"
    by (rule steady_masks [of g s]; use wf in \<open>simp add: kwf_def\<close>)+
  then have wf0: "kwf g ?s0" using K(4) by (simp add: kwf_def)
  let ?s1 = "put (curb s) B_size ?n ?s0"
  let ?g = "set_cont (curb s) (w # ps) (g\<lparr>emptied := False\<rparr>)"
  have ch: "changes {(curb s, B_size)} ?s0 ?s1" by (intro changes_put) auto
  have A: "{(curb s, B_size)} \<subseteq> UNIV \<times> list_words" by (auto simp: list_words_def)
  have pr: "\<forall>p \<in> set (w # ps). kmem s p Priofinity = priofinity s" using K(7) c by simp
  have "batch_procs ?s1 (curb s) False (w # ps)"
    using bp n by (simp add: batch_procs_def del: of_nat_Suc)
  then have core: "core {} ?g ?s1"
    using K(4,5) pr c by (intro core_set_cont [OF kwf_parts(1) [OF wf0] ch]) (auto simp: flag_of_def)
  note C = curb_set_cont [OF wf0 ch A, of "w # ps" False]
  have wf1: "kwf ?g ?s1" "view ?g ?s1 = (view g s)\<lparr>v_current := w # ps\<rparr>"
    using C core pr st(2) by simp_all
  have c1: "current ?g ?s1 = w # ps" using arg_cong [OF wf1(2), of v_current] by simp
  have "end_of_curb_pass h s = take_curb ?s1"
    using nz d by (simp add: end_of_curb_pass_def)
  moreover have "spares g s ?g ?s1" by (rule sparesI) simp_all
  ultimately show ?thesis using take_curb_kwf [OF wf1(1) c1] wf1(2) by (auto intro: spares_trans)
qed

text \<open>The abstract scheduler puts what is left of the current batch behind the others of its priority.\<close>

definition put_away :: "ghost \<Rightarrow> kern \<Rightarrow> run_view" where
  "put_away g s = push (prio (priofinity s)) (current g s) (view g s)"

lemma pass_loads:
  assumes wf: "kwf g s" and d: "\<not> (kmem s (curb s) B_size > BATCH_EMPTIED \<and> rqstate s = 0)"
    and n: "n < 32" "v_ready (put_away g s) n \<noteq> []" "\<forall>k < n. v_ready (put_away g s) k = []"
    and room: "room (Suc (Suc (Suc k))) g s"
  shows "\<exists>w ps rest s' g'. end_of_curb_pass h s = Some (Dispatch w, s') \<and> kwf g' s' \<and> unqueued g' w \<and> room k g' s' \<and>
    v_ready (put_away g s) n = w # ps @ rest \<and>
    view g' s' = (set_ready n rest (put_away g s))\<lparr>v_current := ps\<rparr>"
proof -
  note K = kwf_parts [OF wf]
  have nz: "curb s \<noteq> 0" using batch_procs_nz [OF K(6)] .
  obtain s1 g1 where 1: "(if kmem s (curb s) B_Fptr \<noteq> 0 then push_curb s else Some s) = Some s1" "steady g1 s1"
    "own g1 (curb s) = Elsewhere" "calm s s1" "\<forall>x. unqueued g x \<longrightarrow> unqueued g1 x" "room (Suc k) g1 s1"
    "view g1 s1 = (put_away g s)\<lparr>v_current := []\<rparr>"
    using put_away_curb [OF wf room] unfolding put_away_def .
  have r1: "runnable g1 s1 k = v_ready (put_away g s) k" if "k < 32" for k
    using that arg_cong [OF 1(7), of v_ready] by (metis run_view.ext_inject run_view.simps(4) run_view.surjective run_view.update_convs(2) view_simps(2))
  obtain b s2 g2 where 2: "pick_urgent s1 = Some (b, s2)" "b \<noteq> 0" "own g2 b = Detached" "cont g2 b \<noteq> []"
    "steady g2 s2" "keeps_curb g1 s1 g2 s2" "runnable g1 s1 n = cont g2 b @ runnable g2 s2 n"
    "view g2 s2 = set_ready n (runnable g2 s2 n) (view g1 s1)" "room k g2 s2"
    using pick_urgent_some [OF 1(2) n(1) _ _ 1(6)] n r1 by fastforce
  have cs1: "curb s1 = curb s" using calm_simps(1) [OF 1(4)] .
  have "calm s1 s2" using 2(6) by (simp add: keeps_curb_def)
  then have cs: "curb s2 = curb s" using calm_simps(1) cs1 by metis
  have "own g2 (curb s) \<noteq> InCurb" using 1(3) 2(6) cs1 by (simp add: keeps_curb_def)
  then have e2: "own g2 (curb s2) = Elsewhere"
    using coreD(2) [of "{}" g2 s2] 2(5) cs by (simp add: steady_def curb_ok_def)
  let ?s3 = "if mwstate s2 \<noteq> 0 \<and> sleeping_threads s2 \<noteq> 0 then ccsp_wake_thread SYNC_WORK_BIT s2 else s2"
  have cs3: "curb ?s3 = curb s2" by (simp add: ccsp_wake_thread_def)
  have st3: "steady g2 ?s3" "view g2 ?s3 = view g2 s2" "room k g2 ?s3 = room k g2 s2"
    by (rule steady_masks [OF 2(5)]; simp add: ccsp_wake_thread_def)+
  obtain w ps where wp: "cont g2 b = w # ps" using 2(4) by (cases "cont g2 b") auto
  obtain s4 g4 where 4: "load_curb b False ?s3 = Some s4" "kwf g4 s4"
    "view g4 s4 = (view g2 ?s3)\<lparr>v_current := w # ps\<rparr>" "spares g2 ?s3 g4 s4"
    using load_curb_kwf [OF st3(1) _ 2(3) wp] e2 cs3 by fastforce
  have c4: "current g4 s4 = w # ps" using arg_cong [OF 4(3), of v_current] by simp
  obtain s5 g5 where 5: "take_curb s4 = Some (Dispatch w, s5)" "kwf g5 s5" "unqueued g5 w"
    "view g5 s5 = (view g4 s4)\<lparr>v_current := ps\<rparr>" "spares g4 s4 g5 s5"
    using take_curb_kwf [OF 4(2) c4] by blast
  have c: "(kmem s (curb s) B_size > BATCH_EMPTIED \<and> rqstate s = 0) = False" using d by blast
  have "end_of_curb_pass h s = Some (Dispatch w, s5)"
    using nz 1(1) 2(1,2) 4(1) 5(1) by (simp add: end_of_curb_pass_def empty_batch_def c)
  moreover have "v_ready (put_away g s) n = w # ps @ runnable g2 s2 n" using 2(7) wp r1 [OF n(1)] by simp
  moreover have "view g5 s5 = (set_ready n (runnable g2 s2 n) (put_away g s))\<lparr>v_current := ps\<rparr>"
    by (simp add: 5(4) 4(3) st3(2) 2(8) 1(7) set_ready_def)
  moreover have "room k g5 s5"
    using 2(9) st3(3) by (blast intro: sparesD [OF 5(5)] sparesD [OF 4(4)])
  ultimately show ?thesis using 5(2,3) by blast
qed

lemma pass_takes_urgent:
  assumes wf: "kwf g s" and d: "sint (dispatches s) \<le> 0 \<or> current g s = []" and sy: "sync s = 0"
    and n: "n < 32" "v_ready (put_away g s) n \<noteq> []" "\<forall>k < n. v_ready (put_away g s) k = []"
    and room: "room (Suc (Suc (Suc k))) g s"
  shows "\<exists>w ps rest s' g'. scheduler_pass h s = Some (Dispatch w, s') \<and> kwf g' s' \<and> unqueued g' w \<and> room k g' s' \<and>
    v_ready (put_away g s) n = w # ps @ rest \<and>
    view g' s' = (set_ready n rest (put_away g s))\<lparr>v_current := ps\<rparr>"
proof -
  note K = kwf_parts [OF wf]
  have nz: "curb s \<noteq> 0" using batch_procs_nz [OF K(6)] .
  have "kmem s (curb s) B_Fptr = 0 \<longleftrightarrow> current g s = []" by (rule batch_procs_empty [OF K(6)])
  then have pass: "scheduler_pass h s = end_of_curb_pass h s"
    using nz d sy by (auto simp: scheduler_pass_def serve_sync_def end_of_curb_def)
  show ?thesis
  proof (cases "kmem s (curb s) B_size > BATCH_EMPTIED \<and> rqstate s = 0")
    case False
    then show ?thesis using pass_loads [OF wf False n room] pass by simp
  next
    case True
    have r: "runnable g s k = []" if "k < 32" for k using marks_ready [OF K(3) that] True by auto
    have pn: "n = prio (priofinity s)" "v_ready (put_away g s) n = current g s"
      using n r by (auto simp: put_away_def split: if_splits)
    then obtain w ps where wp: "current g s = w # ps" using n(2) by (cases "current g s") auto
    have "(v_ready (view g s))(n := []) = v_ready (view g s)" using r n(1) by (auto simp: fun_eq_iff)
    then have "view g s = set_ready n [] (put_away g s)"
      by (simp add: put_away_def push_def set_ready_def pn(1) [symmetric])
    then have "(view g s)\<lparr>v_current := ps\<rparr> = (set_ready n [] (put_away g s))\<lparr>v_current := ps\<rparr>" by simp
    moreover obtain s' g' where "end_of_curb_pass h s = Some (Dispatch w, s')" "kwf g' s'" "unqueued g' w"
      "view g' s' = (view g s)\<lparr>v_current := ps\<rparr>" and sp: "spares g s g' s'"
      using pass_reloads [OF wf wp] True by blast
    moreover have "room k g' s'" by (rule sparesD [OF sp room_less [OF room]]) simp
    ultimately show ?thesis
      using pass pn(2) wp
      by (intro exI [of _ w] exI [of _ ps] exI [of _ "[]"] exI [of _ s'] exI [of _ g']) simp
  qed
qed

lemma least_ready:
  assumes "k < 32" "v_ready v k \<noteq> []"
  obtains n where "n < 32" "v_ready v n \<noteq> []" "\<forall>k < n. v_ready v k = []"
proof -
  obtain n where n: "v_ready v n \<noteq> []" "\<forall>k < n. v_ready v k = []"
    using exists_least_iff [of "\<lambda>k. v_ready v k \<noteq> []"] assms(2) by blast
  then have "\<not> k < n" using assms(2) by blast
  then have "n < 32" using assms(1) by simp
  then show thesis by (rule that [OF _ n])
qed

text \<open>A pass that does not dispatch found no process to run.\<close>

lemma idle_pass:
  assumes wf: "kwf g s" and sy: "sync s = 0" and r: "scheduler_pass h s = Some (r, s')" "\<forall>w. r \<noteq> Dispatch w"
    and room: "room 3 g s"
  shows "current g s = []" "\<forall>k < 32. runnable g s k = []"
proof -
  have room': "room (Suc (Suc (Suc 0))) g s" using room by (simp add: numeral_3_eq_3)
  have no: "\<nexists>w s'. scheduler_pass h s = Some (Dispatch w, s')" using r by auto
  have none: "v_ready (put_away g s) k = []" if "sint (dispatches s) \<le> 0 \<or> current g s = []" "k < 32" for k
  proof (rule ccontr)
    assume "v_ready (put_away g s) k \<noteq> []"
    from least_ready [OF that(2) this] obtain n where "n < 32" "v_ready (put_away g s) n \<noteq> []"
      "\<forall>k < n. v_ready (put_away g s) k = []" .
    from pass_takes_urgent [OF wf that(1) sy this room', of h] no show False by blast
  qed
  have d: "sint (dispatches s) \<le> 0 \<or> current g s = []"
  proof (rule ccontr)
    assume "\<not> ?thesis"
    then obtain w ps where "current g s = w # ps" "sint (dispatches s) > 0" by (cases "current g s") auto
    from pass_continues [OF wf this sy, of h] no show False by blast
  qed
  show c: "current g s = []"
    using none [OF d prio_less, of "priofinity s"] by (simp add: put_away_def)
  show "\<forall>k < 32. runnable g s k = []"
    using none [OF d] by (simp add: put_away_def c)
qed

section \<open>Deadlock\<close>

lemma pick_batch_nothing:
  "rq_Fptr (rq s n) = 0 \<Longrightarrow> rq_priofinity (rq s n) = 0 \<Longrightarrow>
     pick_batch n s = Some (0, s\<lparr>rqstate := unset_bit n (rqstate s), mwstate := unset_bit n (mwstate s)\<rparr>)"
  by (subst pick_batch.simps) (simp add: try_pull_from_runqueue_def)

lemma pick_urgent_nothing:
  assumes "\<forall>k < 32. rq_Fptr (rq s k) = 0 \<and> rq_priofinity (rq s k) = 0" "\<forall>k. bit (mwstate s) k \<longrightarrow> bit (rqstate s) k"
  shows "pick_urgent s = Some (0, s\<lparr>rqstate := 0, mwstate := 0\<rparr>)"
  using assms
proof (induction "bits (rqstate s)" arbitrary: s rule: less_induct)
  case less
  show ?case
  proof (cases "rqstate s = 0")
    case True
    then have "\<forall>k. \<not> bit (mwstate s) k" using less.prems(2) by simp
    then have "mwstate s = 0" by (intro bit_word_eqI) simp
    then have "s = s\<lparr>rqstate := 0, mwstate := 0\<rparr>" using True by simp
    then show ?thesis using True by (subst pick_urgent.simps) simp
  next
    case False
    define k where "k = bsf (rqstate s)"
    have k: "k < 32" using bit_bsf [OF False] by (simp add: k_def)
    let ?s = "s\<lparr>rqstate := unset_bit k (rqstate s), mwstate := unset_bit k (mwstate s)\<rparr>"
    have "pick_urgent ?s = Some (0, ?s\<lparr>rqstate := 0, mwstate := 0\<rparr>)"
      using less.prems bits_unset [OF False]
      by (intro less.hyps) (auto simp: k_def bit_unset_bit32)
    then show ?thesis
      using False pick_batch_nothing [of s k] less.prems(1) k
      by (subst pick_urgent.simps) (simp add: k_def [symmetric])
  qed
qed

lemma skip_batches_chain:
  "chain (\<lambda>b. kmem s b B_next) p bs \<Longrightarrow> \<exists>q. skip_batches n p s = Some q \<and> (\<exists>cs. chain (\<lambda>b. kmem s b B_next) q cs)"
proof (induction n arbitrary: p bs)
  case 0
  then show ?case by auto
next
  case (Suc n)
  show ?case
  proof (cases "p = 0")
    case True
    then show ?thesis by (auto intro: exI [of _ "[]"])
  next
    case False
    then obtain cs where "chain (\<lambda>b. kmem s b B_next) (kmem s p B_next) cs"
      using Suc.prems by (auto simp: chain_nonzero)
    from Suc.IH [OF this] False show ?thesis by simp
  qed
qed

lemma release_rest_chain:
  "chain (\<lambda>b. kmem s b B_next) p bs \<Longrightarrow> \<exists>x. release_rest p s = Some (s\<lparr>released := x\<rparr>)"
proof (induction bs arbitrary: p s)
  case Nil
  then show ?case by (subst release_rest.simps) (auto intro!: exI [of _ "released s"])
next
  case (Cons b bs)
  let ?s = "dmem_thread_release b s"
  have "chain (\<lambda>b. kmem ?s b B_next) (kmem s b B_next) bs" using Cons.prems by (simp add: dmem_thread_release_def)
  from Cons.IH [OF this] Cons.prems show ?case
    by (subst release_rest.simps) (auto simp: dmem_thread_release_def)
qed

lemma release_excess_memory_some:
  assumes "chain (\<lambda>b. kmem s b B_next) (free_list s) bs"
  shows "\<exists>m x. release_excess_memory s = Some (s\<lparr>kmem := m, released := x\<rparr>)"
proof -
  obtain q cs where q: "skip_batches 32 (free_list s) s = Some q" "chain (\<lambda>b. kmem s b B_next) q cs"
    using skip_batches_chain [OF assms] by blast
  show ?thesis
  proof (cases cs)
    case Nil
    then have "release_excess_memory s = Some (s\<lparr>kmem := kmem s, released := released s\<rparr>)"
      using q by (simp add: release_excess_memory_def)
    then show ?thesis by blast
  next
    case (Cons d ds)
    let ?s = "put q B_next 0 s"
    have d: "q = d" "q \<noteq> 0" "d \<notin> set ds" "chain (\<lambda>b. kmem s b B_next) (kmem s q B_next) ds"
      using q(2) chain_distinct [OF q(2)] Cons by auto
    then have "chain (\<lambda>b. kmem ?s b B_next) (kmem s q B_next) ds"
      by (auto intro: chain_cong)
    from release_rest_chain [OF this] obtain x where "release_rest (kmem s q B_next) ?s = Some (?s\<lparr>released := x\<rparr>)" ..
    then have "release_excess_memory s = Some (s\<lparr>kmem := kmem ?s, released := x\<rparr>)"
      using q(1) d(2) by (simp add: release_excess_memory_def put_def)
    then show ?thesis by blast
  qed
qed

lemma migrate_nothing:
  assumes "mwstate s = 0" "active = 0 \<or> active = 1"
  shows "migrate_loop active 0 s = Some (0, s)"
proof -
  have z: "migrate_loop 0 0 s = Some (0, s)" by (subst migrate_loop.simps) simp
  then have "migrate_loop 1 0 s = Some (0, s)"
    using assms(1) by (subst migrate_loop.simps) simp
  with z assms(2) show ?thesis by auto
qed

lemma nothing_ready:
  assumes wf: "kwf g s" and r: "\<forall>k < 32. runnable g s k = []" and k: "k < 32"
  shows "rq_Fptr (rq s k) = 0" "rq_priofinity (rq s k) = 0"
proof -
  note K = kwf_parts [OF wf]
  have "cont g b \<noteq> []" if "b \<in> set (queue g k)" for b
    using coreD(4) [OF K(1)] that k by (simp add: queue_ok_def)
  moreover have e: "runnable g s k = []" using r k by simp
  ultimately have q: "queue g k = []" by (cases "queue g k") (auto simp: runnable_def)
  have "chain (\<lambda>b. kmem s b B_next) (rq_Fptr (rq s k)) (queue g k)"
    using coreD(4) [OF K(1)] k by (simp add: queue_ok_def)
  then show "rq_Fptr (rq s k) = 0" using q by simp
  have "mark_ok g s k" using K(3) k by (simp add: marks_ok_def)
  then show "rq_priofinity (rq s k) = 0" using e by (simp add: mark_ok_def runnable_def)
qed

lemma empty_pass:
  assumes wf: "kwf g s" and c: "current g s = []" and r: "\<forall>k < 32. runnable g s k = []" and sy: "sync s = 0"
    and act: "enabled_threads s AND NOT (sleeping_threads s) = 0 \<or> enabled_threads s AND NOT (sleeping_threads s) = 1"
  shows "scheduler_pass h s = go_idle h (s\<lparr>rqstate := 0, mwstate := 0\<rparr>)"
proof -
  note K = kwf_parts [OF wf]
  have cb: "curb s \<noteq> 0" "kmem s (curb s) B_Fptr = 0" "kmem s (curb s) B_size = flagged (emptied g) 0"
    using K(6) c by (simp_all add: batch_procs_def)
  then have sz: "(kmem s (curb s) B_size > BATCH_EMPTIED \<and> rqstate s = 0) = False"
    by (cases "emptied g") simp_all
  have "pick_urgent s = Some (0, s\<lparr>rqstate := 0, mwstate := 0\<rparr>)"
    using nothing_ready [OF wf r] K(3) by (intro pick_urgent_nothing) (auto simp: marks_ok_def)
  moreover have "migrate_some_work (s\<lparr>rqstate := 0, mwstate := 0\<rparr>) = Some (0, s\<lparr>rqstate := 0, mwstate := 0\<rparr>)"
    unfolding migrate_some_work_def by (rule migrate_nothing) (use act in simp_all)
  moreover have "scheduler_pass h s = end_of_curb_pass h s"
    using cb sy by (simp add: scheduler_pass_def serve_sync_def end_of_curb_def)
  ultimately show ?thesis
    using cb(1,2) by (simp add: end_of_curb_pass_def empty_batch_def sz)
qed

text \<open>
  When the only thread has no process, no timer and no event to wait for, it says so at once if its loop count is used up.
\<close>

lemma deadlock_pass:
  assumes wf: "kwf g s" and c: "current g s = []" and r: "\<forall>k < 32. runnable g s k = []" and sy: "sync s = 0"
    and idle: "tq_fptr s = 0" "sched_loop s = 0" "\<And>s. \<not> external h s"
    and one: "enabled_threads s = 1" "sched_index s = 0" "sleeping_threads s = 0 \<or> sleeping_threads s = 1"
      "idle_threads s = 0 \<or> idle_threads s = 1"
  shows "\<exists>s'. scheduler_pass h s = Some (Deadlock, s')"
proof -
  note K = kwf_parts [OF wf]
  have act: "enabled_threads s AND NOT (sleeping_threads s) = 0 \<or> enabled_threads s AND NOT (sleeping_threads s) = 1"
    using one by auto
  let ?s1 = "s\<lparr>rqstate := 0, mwstate := 0\<rparr>"
  let ?s2 = "put (curb s) B_size BATCH_EMPTIED (put (curb s) B_Fptr 0 (?s1\<lparr>dispatches := BATCH_PPD\<rparr>))"
  have nz: "curb s \<noteq> 0" using batch_procs_nz [OF K(6)] .
  have new: "new_curb ?s1 = Some ?s2" using nz by (simp add: new_curb_def)
  have cl: "clean_timer_queue ?s2 = Some ?s2"
    using idle(1) by (simp add: clean_timer_queue_def clean_tqnodes.simps)
  have la: "do_laundry ?s2 = Some ?s2"
    using coreD(9) [OF K(1)] by (intro do_laundry_empty) (simp add: supply_ok_def)
  have "chain (\<lambda>b. kmem ?s2 b B_next) (free_list ?s2) (frees g)"
    using coreD(5) [OF K(1)] by (simp add: free_ok_def)
  from release_excess_memory_some [OF this] obtain m x where
    ex: "release_excess_memory ?s2 = Some (?s2\<lparr>kmem := m, released := x\<rparr>)" by blast
  have "set_bit 0 (w :: WORD) = 1" if "w = 0 \<or> w = 1" for w
    using that by (auto intro!: bit_word_eqI simp: bit_set_bit32 bit_1_iff)
  then have "\<exists>s'. go_idle h ?s1 = Some (Deadlock, s')"
    using new cl la ex idle one sy by (simp add: go_idle_def)
  then show ?thesis unfolding empty_pass [OF wf c r sy act] .
qed

end
