(* ===== verification/Ccsp_Boot.thy ===== *)
theory Ccsp_Boot
  imports Ccsp_Sched
begin

text \<open>
  How a run time thread starts (\<^verbatim>\<open>Y_rtthreadinit\<close> of \<^verbatim>\<open>sched.c\<close>, \<^verbatim>\<open>init_sched_t\<close> of \<^verbatim>\<open>sched_types.h\<close>), and which
  writes to memory do not concern the scheduler. The start establishes the invariant of \<open>Ccsp_Wf\<close>.
\<close>

section \<open>The start of a thread\<close>

text \<open>
  The debugging words, the table of calls, the CPU timer's calibration and the signal pipe are left out. The
  memory of the queues is the allocator's.
\<close>

definition init_sched_t :: "kern \<Rightarrow> kern option" where
  "init_sched_t s = do {
     s \<leftarrow> Some (s\<lparr>sched_index := - 1, sched_id := 0, spin := 0, dispatches := 0, priofinity := 0, sched_loop := 0,
       rqstate := 0, free_list := 0, laundry := 0, tq_fptr := 0, tq_bptr := 0\<rparr>);
     s \<leftarrow> init_batch_t (curb s) s;
     s \<leftarrow> Some (s\<lparr>rq := (\<lambda>i. if i < MAX_PRIORITY_LEVELS then init_runqueue_t else rq s i)\<rparr>);
     Some (s\<lparr>stats_proc_start := 0, stats_proc_end := 0, stats_startp := 0, stats_endp := 0, sync := 0,
       bmail := init_runqueue_t, pmail := init_runqueue_t, mwstate := 0,
       mw := (\<lambda>i. if i < MAX_PRIORITY_LEVELS then (\<lambda>_. 0) else mw s i)\<rparr>) }"

text \<open>Every priority from the one given on gets its pending batch.\<close>

fun fill_pending :: "nat list \<Rightarrow> kern \<Rightarrow> kern option" where
  "fill_pending [] s = Some s"
| "fill_pending (i # is) s = do {
     (b, s) \<leftarrow> allocate_batch s;
     fill_pending is (upd_rq i (\<lambda>q. q\<lparr>rq_pending := b\<rparr>) s) }"

partial_function (option) start_processes :: "WORD \<Rightarrow> kern \<Rightarrow> kern option" where
  "start_processes fptr s =
     (if fptr \<noteq> NotProcess_p then do {
        nxt \<leftarrow> ld fptr Link s;
        s \<leftarrow> st fptr Priofinity (priofinity s) s;
        s \<leftarrow> enqueue_process_nopri fptr s;
        start_processes nxt (s\<lparr>stats_startp := stats_startp s + 1\<rparr>) }
      else Some s)"

partial_function (option) claim_index :: "WORD \<Rightarrow> WORD \<Rightarrow> kern \<Rightarrow> kern option" where
  "claim_index sched tried s =
     (let available = NOT (enabled_threads s) AND NOT tried; n = bsf available in
      if available = 0 then None
      else (let s = s\<lparr>sched_index := of_nat n, sched_id := push_bit n 1\<rparr> in
        if schedulers s n = 0 then Some (s\<lparr>schedulers := (schedulers s)(n := sched)\<rparr>)
        else claim_index sched (tried OR push_bit n 1) s))"

definition setup_spin :: "host_events \<Rightarrow> kern \<Rightarrow> kern" where
  "setup_spin h s =
     (let (start, s) = Time_GetTime s; (stop, s) = Time_GetTime s; ns = (stop - start) div 10 in
      s\<lparr>spin := (1000 * spin_us h) div (if ns \<noteq> 0 then ns else 1)\<rparr>)"

definition setup_timing :: "host_events \<Rightarrow> kern \<Rightarrow> kern" where
  "setup_timing h s =
     (let s = (if enabled_threads s AND NOT (sched_id s) = 0 then setup_spin h s
               else s\<lparr>spin := spin_of h (bsf (enabled_threads s))\<rparr>) in
      s\<lparr>enabled_threads := set_bit (unat (sched_index s)) (enabled_threads s)\<rparr>)"

text \<open>
  The first thread would start the others here, but there is only one. The result is that of the call: it returns to the
  process that made it, or, without one, goes to the scheduler.
\<close>

definition Y_rtthreadinit :: "host_events \<Rightarrow> WORD \<Rightarrow> WORD \<Rightarrow> WORD \<Rightarrow> kern \<Rightarrow> (pass \<times> kern) option" where
  "Y_rtthreadinit h fptr stack Wptr s = do {
     s \<leftarrow> init_sched_t s;
     s \<leftarrow> Some (s\<lparr>priofinity := BuildPriofinity 0 (of_nat MAX_PRIORITY_LEVELS div 2)\<rparr>);
     s \<leftarrow> allocate_to_free_list (MAX_PRIORITY_LEVELS * 2) s;
     s \<leftarrow> fill_pending [0..<MAX_PRIORITY_LEVELS] s;
     s \<leftarrow> new_curb s;
     s \<leftarrow> start_processes fptr s;
     s \<leftarrow> claim_index stack 0 s;
     s \<leftarrow> Some (setup_timing h s);
     if Wptr \<noteq> NotProcess_p then Some (Dispatch Wptr, s\<lparr>stats_startp := stats_startp s + 1\<rparr>)
     else kernel_scheduler h s }"

section \<open>Writes that do not concern the scheduler\<close>

text \<open>The slots of a workspace but its link, that and the priority of a process in no batch, words of what is no batch.\<close>

definition unconcerned :: "ghost \<Rightarrow> WORD \<Rightarrow> int \<Rightarrow> bool" where
  "unconcerned g p k \<longleftrightarrow> (if k < 0 then k \<noteq> Link \<and> k \<noteq> Priofinity \<or> unqueued g p else own g p = Elsewhere)"

lemma core_write:
  assumes core: "core X g s" and out: "unconcerned g p k"
  shows "core X g (put p k v s)"
proof -
  note D = coreD [OF core]
  let ?s = "put p k v s"
  have ch: "changes {(p, k)} s ?s" by (intro changes_put) auto
  have word: "kmem ?s b j = kmem s b j" if "own g b \<noteq> Elsewhere" "0 \<le> j" for b j
    using out that by (auto simp: unconcerned_def split: if_splits)
  have pri: "kmem ?s q Priofinity = kmem s q Priofinity" if "own g b \<noteq> Elsewhere" "q \<in> set (cont g b)" for b q
    using out that by (auto simp: unconcerned_def unqueued_def split: if_splits)
  have "conts_ok g ?s"
    unfolding conts_ok_def
  proof (intro allI impI conjI)
    fix b assume b: "own g b \<noteq> Elsewhere"
    have "\<forall>q \<in> set (cont g b). (q, Link) \<notin> {(p, k)}"
      using out b by (auto simp: unconcerned_def unqueued_def split: if_splits)
    moreover have "(b, B_Fptr) \<notin> {(p, k)}" "(b, B_Bptr) \<notin> {(p, k)}" "(b, B_size) \<notin> {(p, k)}"
      using out b by (auto simp: unconcerned_def split: if_splits)
    ultimately show "batch_procs ?s b (flag_of g b) (cont g b)"
      by (intro batch_procs_frame [OF core_batch [OF core b] ch]) auto
    show "\<forall>q \<in> set (cont g b). holder g q = b \<and> 4 dvd unat q"
      using core_held [OF core b] core_aligned [OF core b] by blast
  qed
  moreover have "curb_ok g ?s" using D(2) by (simp add: curb_ok_def)
  moreover have "pend_ok X g ?s" using D(3) by (simp add: pend_ok_def)
  moreover have queued: "own g b = Queued n" if "n < 32" "b \<in> set (queue g n)" for n b
    using D(4) that by (simp add: queue_ok_def)
  have chain: "chain (\<lambda>b. kmem ?s b B_next) q bs"
    if "chain (\<lambda>b. kmem s b B_next) q bs" "\<forall>b \<in> set bs. own g b \<noteq> Elsewhere" for q bs
    using that word [of _ B_next] by (auto intro: chain_cong)
  have "chain (\<lambda>b. kmem ?s b B_next) (rq_Fptr (rq s n)) (queue g n)" if n: "n < 32" for n
  proof (rule chain)
    show "chain (\<lambda>b. kmem s b B_next) (rq_Fptr (rq s n)) (queue g n)" using D(4) n by (simp add: queue_ok_def)
    show "\<forall>b \<in> set (queue g n). own g b \<noteq> Elsewhere" using queued [OF n] by simp
  qed
  then have "queue_ok g ?s" using D(4) by (simp add: queue_ok_def)
  moreover have free: "own g b = Free" if "b \<in> set (frees g)" for b using D(5) that by (simp add: free_ok_def)
  have "chain (\<lambda>b. kmem ?s b B_next) (free_list s) (frees g)"
  proof (rule chain)
    show "chain (\<lambda>b. kmem s b B_next) (free_list s) (frees g)" using D(5) by (simp add: free_ok_def)
    show "\<forall>b \<in> set (frees g). own g b \<noteq> Elsewhere" by (simp add: free)
  qed
  then have "free_ok g ?s" using D(5) by (simp add: free_ok_def)
  moreover have "state_ok g ?s"
    using D(6) word [of _ B_state] by (auto simp: state_ok_def off_queue_def simp del: kmem_put)
  moreover have "win_ok g ?s"
    unfolding win_ok_iff
  proof (intro allI impI)
    fix n :: nat assume n: "n < 32"
    have "window_inv s n (queue g n)" using D(7) n by (simp add: win_ok_iff)
    then show "window_inv ?s n (queue g n)"
      by (rule window_inv_cong) (use queued [OF n] word [of _ B_state] in \<open>simp_all del: kmem_put\<close>)
  qed
  moreover have "prio_ok g ?s"
    unfolding prio_ok_def
  proof (intro allI ballI)
    fix b q assume q: "q \<in> set (cont g b)"
    then have "fits (own g b) q s" using D(8) by (simp add: prio_ok_def)
    then show "fits (own g b) q ?s"
      using fits_same [of ?s q s] pri [OF _ q] by (cases "own g b = Elsewhere") (simp_all del: kmem_put)
  qed
  moreover have "supply_ok g ?s" using D(9) by (simp add: supply_ok_def)
  ultimately show ?thesis by (intro coreI)
qed

text \<open>Priorities of processes in no batch, and the scheduler's own words, may change.\<close>

lemma kwf_write:
  assumes wf: "kwf g s" and out: "unconcerned g p k"
  shows "kwf g (put p k v s)" "view g (put p k v s) = view g s" "spares g s g (put p k v s)"
proof -
  note K = kwf_parts [OF wf]
  let ?s = "put p k v s"
  have pri: "kmem ?s q Priofinity = kmem s q Priofinity" if "own g b \<noteq> Elsewhere" "q \<in> set (cont g b)" for b q
    using out that by (auto simp: unconcerned_def unqueued_def split: if_splits)
  have c: "core {} g ?s" by (rule core_write [OF K(1) out])
  have "uniform g ?s"
    unfolding uniform_def
  proof (intro allI impI)
    fix b assume b: "own g b \<noteq> Elsewhere"
    then have "\<forall>q \<in> set (cont g b). \<forall>r \<in> set (cont g b). kmem s q Priofinity = kmem s r Priofinity"
      using K(2) unfolding uniform_def by blast
    with pri [OF b] show "\<forall>q \<in> set (cont g b). \<forall>r \<in> set (cont g b). kmem ?s q Priofinity = kmem ?s r Priofinity"
      by metis
  qed
  moreover have "mark_ok g ?s n" if n: "n < 32" for n
  proof -
    have "own g (rq_pending (rq s n)) \<noteq> Elsewhere" using core_pending [OF K(1) n] by simp
    from pri [OF this] have "\<forall>q \<in> set (cont g (rq_pending (rq s n))). kmem ?s q Priofinity = kmem s q Priofinity"
      by blast
    moreover have "mark_ok g s n" using K(3) n by (simp add: marks_ok_def)
    ultimately show ?thesis by (simp add: mark_ok_def del: kmem_put)
  qed
  then have "marks_ok g ?s" using K(3) by (simp add: marks_ok_def)
  ultimately show "kwf g ?s" using c K(4) by (simp add: kwf_def steady_def)
  show "view g ?s = view g s" by (auto simp: view_def runnable_def current_def fun_eq_iff)
  show "spares g s g ?s" by (rule sparesI) simp_all
qed

lemma kwf_masks:
  assumes "kwf g s" "kmem s' = kmem s" "curb s' = curb s" "rq s' = rq s" "free_list s' = free_list s"
    "laundry s' = laundry s" "mw s' = mw s" "blocks s' = blocks s" "allocs s' = allocs s" "priofinity s' = priofinity s"
    "rqstate s' = rqstate s" "mwstate s' = mwstate s"
  shows "kwf g s'" "view g s' = view g s" "spares g s g s'"
proof -
  have st: "steady g s" using assms(1) by (simp add: kwf_def)
  note M = steady_masks [OF st assms(2-)]
  show "kwf g s'" using M(1) assms(1,3) by (simp add: kwf_def)
  show "view g s' = view g s" by (rule M(2))
  show "spares g s g s'" by (rule sparesI) (simp_all add: assms)
qed

section \<open>The invariant is established\<close>

text \<open>Before the start no batch is in use; the allocator has new blocks up to a limit.\<close>

definition no_batches :: "nat \<Rightarrow> ghost" where
  "no_batches l = \<lparr>own = (\<lambda>_. Elsewhere), cont = (\<lambda>_. []), holder = (\<lambda>_. 0), emptied = False,
     queue = (\<lambda>_. []), frees = [], limit = l\<rparr>"

lemma no_batches_simps [simp]:
  "own (no_batches l) b = Elsewhere" "cont (no_batches l) b = []" "queue (no_batches l) n = []"
  "frees (no_batches l) = []" "limit (no_batches l) = l" "unqueued (no_batches l) w \<longleftrightarrow> w \<noteq> 0 \<and> 4 dvd unat w"
  by (simp_all add: no_batches_def unqueued_def)

definition provides :: "nat \<Rightarrow> kern \<Rightarrow> bool" where
  "provides l s \<longleftrightarrow> curb s \<noteq> 0 \<and> inj_on (blocks s) {allocs s..<l} \<and>
     (\<forall>i \<in> {allocs s..<l}. blocks s i \<noteq> 0 \<and> blocks s i \<noteq> curb s)"

text \<open>What is left of the state as it was: memory but for the words of the current batch, and what the host provides.\<close>

lemma init_sched_t_core:
  assumes "provides l s"
  shows "\<exists>s'. init_sched_t s = Some s' \<and> core {..<32} (no_batches l) s' \<and> rqstate s' = 0 \<and> mwstate s' = 0 \<and>
    (\<forall>n < 32. rq_priofinity (rq s' n) = 0) \<and> (\<forall>p k. k < 0 \<longrightarrow> kmem s' p k = kmem s p k) \<and>
    allocs s' = allocs s \<and> curb s' = curb s \<and> blocks s' = blocks s \<and> sync s' = 0 \<and> stats_startp s' = 0 \<and>
    enabled_threads s' = enabled_threads s \<and> schedulers s' = schedulers s \<and> tq_fptr s' = 0 \<and> sched_loop s' = 0 \<and>
    sleeping_threads s' = sleeping_threads s \<and> idle_threads s' = idle_threads s"
proof -
  have nz: "curb s \<noteq> 0" using assms by (simp add: provides_def)
  obtain s' where s': "init_sched_t s = Some s'" by (simp add: init_sched_t_def init_batch_t_def nz)
  then have F: "curb s' = curb s" "laundry s' = 0" "free_list s' = 0" "blocks s' = blocks s" "allocs s' = allocs s"
    "mw s' n w = (if n < 32 then 0 else mw s n w)" "n < 32 \<Longrightarrow> rq s' n = init_runqueue_t" for n w
    using s' by (auto simp: init_sched_t_def init_batch_t_def nz)
  have "core {..<32} (no_batches l) s'"
    using assms
    by (auto simp: core_def core_parts provides_def F init_runqueue_t_def off_queue_def MWINDOW_HEAD_def no_batches_def)
  with s' show ?thesis
    by (auto simp: init_sched_t_def init_batch_t_def nz init_runqueue_t_def)
qed

definition empties :: "ghost \<Rightarrow> bool" where
  "empties g \<longleftrightarrow> (\<forall>b. own g b \<noteq> Elsewhere \<longrightarrow> cont g b = [])"

lemma empties_idle: "empties g \<Longrightarrow> unqueued g w \<longleftrightarrow> w \<noteq> 0 \<and> 4 dvd unat w"
  by (auto simp: empties_def unqueued_def)

lemma fill_pending_core:
  assumes "core (set is) g s" "distinct is" "set is \<subseteq> {..<32}" "room (length is + k) g s" "empties g"
  shows "\<exists>s' g'. fill_pending is s = Some s' \<and> core {} g' s' \<and> room k g' s' \<and> empties g' \<and> calm s s' \<and>
    rqstate s' = rqstate s \<and> mwstate s' = mwstate s \<and> (\<forall>n. rq_priofinity (rq s' n) = rq_priofinity (rq s n)) \<and>
    queue g' = queue g \<and> (\<forall>b. own g b \<noteq> InCurb \<longrightarrow> own g' b \<noteq> InCurb) \<and>
    (\<forall>p k. k < 0 \<longrightarrow> kmem s' p k = kmem s p k) \<and> stays g s g' s'"
  using assms
proof (induction "is" arbitrary: g s)
  case Nil
  then show ?case by (intro exI [of _ s] exI [of _ g]) simp
next
  case (Cons i "is")
  have i: "i < 32" "i \<in> set (i # is)" "room (Suc (length is + k)) g s" using Cons.prems by simp_all
  obtain b s1 g1 where 1: "allocate_batch s = Some (b, s1)"
    "core (set (i # is) - {i}) g1 (upd_rq i (\<lambda>q. q\<lparr>rq_pending := b\<rparr>) s1)" (is "core _ _ ?s")
    "renews i g s g1 (upd_rq i (\<lambda>q. q\<lparr>rq_pending := b\<rparr>) s1)"
    "room (length is + k) g1 (upd_rq i (\<lambda>q. q\<lparr>rq_pending := b\<rparr>) s1)"
    using renew_pending [OF Cons.prems(1) i] .
  note R = renewsD [OF 1(3)]
  have "set (i # is) - {i} = set is" using Cons.prems(2) by auto
  then have core: "core (set is) g1 ?s" using 1(2) by simp
  have "empties g1"
    unfolding empties_def
  proof (intro allI impI)
    fix c assume "own g1 c \<noteq> Elsewhere"
    from R(12) [OF this] show "cont g1 c = []" using Cons.prems(5) by (auto simp: empties_def)
  qed
  from Cons.IH [OF core _ _ 1(4) this] Cons.prems(2,3)
  obtain s2 g2 where 2: "fill_pending is ?s = Some s2" "core {} g2 s2" "room k g2 s2" "empties g2" "calm ?s s2"
    "rqstate s2 = rqstate ?s" "mwstate s2 = mwstate ?s" "\<forall>n. rq_priofinity (rq s2 n) = rq_priofinity (rq ?s n)"
    "queue g2 = queue g1" "\<forall>b. own g1 b \<noteq> InCurb \<longrightarrow> own g2 b \<noteq> InCurb"
    "\<forall>p k. k < 0 \<longrightarrow> kmem s2 p k = kmem ?s p k" "stays g1 ?s g2 s2"
    by auto
  have "frees_only s s1" using allocate_batch_core [OF Cons.prems(1) i(3)] 1(1) by (metis option.inject prod.inject)
  then have "\<forall>p k. k < 0 \<longrightarrow> kmem s2 p k = kmem s p k" using 2(11) by (simp add: frees_only_def)
  have "fill_pending (i # is) s = Some s2" using 1(1) 2(1) by simp
  moreover have "rqstate s2 = rqstate s" "mwstate s2 = mwstate s" "queue g2 = queue g"
    using 2(6,7,9) R(2,3,5) by simp_all
  moreover have "\<forall>n. rq_priofinity (rq s2 n) = rq_priofinity (rq s n)" using 2(8) R(7) by simp
  moreover have "\<forall>b. own g b \<noteq> InCurb \<longrightarrow> own g2 b \<noteq> InCurb" using 2(10) R(13) by blast
  moreover have "stays g s g2 s2" by (rule stays_trans [OF R(14) 2(12)])
  ultimately show ?case using \<open>\<forall>p k. k < 0 \<longrightarrow> kmem s2 p k = kmem s p k\<close> 2(2,3,4) calm_trans [OF R(1) 2(5)] by blast
qed

text \<open>A scheduler with nothing to run.\<close>

definition quiet :: run_view where
  "quiet = \<lparr>v_ready = (\<lambda>_. []), v_current = []\<rparr>"

lemma empties_steady:
  assumes core: "core {} g s" and e: "empties g" and c: "own g (curb s) \<noteq> InCurb"
    and q: "\<forall>n < 32. queue g n = [] \<and> rq_priofinity (rq s n) = 0" and m: "mwstate s = 0"
  shows "steady g s" "own g (curb s) = Elsewhere" "view g s = quiet"
proof -
  have p: "cont g (rq_pending (rq s n)) = []" if "n < 32" for n
    using core_pending [OF core that] e by (simp add: empties_def)
  have "marks_ok g s" using p q m by (simp add: marks_ok_def mark_ok_def)
  moreover have "uniform g s" using e by (simp add: uniform_def empties_def)
  ultimately show "steady g s" using core by (simp add: steady_def)
  show "own g (curb s) = Elsewhere" using coreD(2) [OF core] c by (simp add: curb_ok_def)
  show "view g s = quiet" using c p q by (auto simp: view_def quiet_def runnable_def current_def)
qed

text \<open>The links of the processes still to be started do not change.\<close>

lemma enqueue_links:
  assumes "enqueue_to_batch b w s = Some s'" "q \<noteq> w" "kmem s b B_Fptr = 0 \<or> q \<noteq> kmem s b B_Bptr"
  shows "kmem s' q Link = kmem s q Link"
  using assms by (auto simp: enqueue_to_batch_def st_def ld_def split: if_splits)

lemma start_processes_kwf:
  assumes "kwf g s" "chain (\<lambda>w. kmem s w Link) fptr ps" "\<forall>p \<in> set ps. unqueued g p"
  shows "\<exists>s' g'. start_processes fptr s = Some s' \<and> kwf g' s' \<and> spares g s g' s' \<and>
    view g' s' = (view g s)\<lparr>v_current := current g s @ ps\<rparr> \<and> stats_startp s' = stats_startp s + of_nat (length ps) \<and>
    curb s' = curb s \<and> priofinity s' = priofinity s \<and> enabled_threads s' = enabled_threads s \<and> sync s' = sync s \<and>
    schedulers s' = schedulers s \<and> dispatches s' = dispatches s \<and> (\<forall>x. unqueued g x \<longrightarrow> x \<notin> set ps \<longrightarrow> unqueued g' x) \<and>
    (\<forall>c. foreign g s c \<longrightarrow> foreign g' s' c)"
  using assms
proof (induction ps arbitrary: fptr s g)
  case Nil
  then have "start_processes fptr s = Some s" by (subst start_processes.simps) simp
  with Nil show ?case by (intro exI [of _ s] exI [of _ g]) (simp add: spares_def view_def)
next
  case (Cons p ps)
  note K = kwf_parts [OF Cons.prems(1)]
  have f: "fptr = p" "p \<noteq> 0" "p \<notin> set ps" "chain (\<lambda>w. kmem s w Link) (kmem s p Link) ps"
    using Cons.prems(2) chain_distinct [OF Cons.prems(2)] by auto
  let ?s1 = "put p Priofinity (priofinity s) s"
  have out: "unconcerned g p Priofinity" using Cons.prems(3) by (simp add: unconcerned_def)
  note W = kwf_write [OF Cons.prems(1) out, of "priofinity s"]
  obtain s2 g2 where 2: "enqueue_to_batch (curb ?s1) p ?s1 = Some s2" "kwf g2 s2" "queues p g ?s1 g2 s2"
    "view g2 s2 = (view g ?s1)\<lparr>v_current := current g ?s1 @ [p]\<rparr>" "dispatches s2 = dispatches ?s1"
    "spares g ?s1 g2 s2"
    using enqueue_current [OF W(1), of p] Cons.prems(3) by auto
  have c: "calm ?s1 s2" using 2(3) by (simp add: queues_def)
  note C = calm_simps [OF c]
  let ?s3 = "s2\<lparr>stats_startp := stats_startp s2 + 1\<rparr>"
  note M = kwf_masks [OF 2(2), of ?s3, simplified]
  have cur: "current g2 s2 = current g s @ [p]"
    using arg_cong [OF 2(4), of v_current] arg_cong [OF W(2), of v_current] by simp
  have last: "kmem ?s1 (curb ?s1) B_Fptr = 0 \<or> kmem ?s1 (curb ?s1) B_Bptr \<in> set (current g s)"
    using K(6) batch_procs_empty [OF K(6)] last_in_set by (fastforce simp: batch_procs_def)
  have links: "kmem ?s3 q Link = kmem s q Link" if "q \<in> set ps" for q
  proof -
    have "q \<notin> set (current g s)" using Cons.prems(3) that K(4,5) by (auto simp: unqueued_def)
    then have "kmem s2 q Link = kmem ?s1 q Link"
      using enqueue_links [OF 2(1), of q] last that f(3) by metis
    then show ?thesis by simp
  qed
  have ch: "chain (\<lambda>w. kmem ?s3 w Link) (kmem s p Link) ps"
    using f(4) links by (auto intro: chain_cong)
  have idle: "\<forall>q \<in> set ps. unqueued g2 q" using Cons.prems(3) 2(3) f(3) by (auto simp: queues_def)
  from Cons.IH [OF M(1) ch idle] obtain s' g' where 3: "start_processes (kmem s p Link) ?s3 = Some s'" "kwf g' s'"
    "spares g2 ?s3 g' s'" "view g' s' = (view g2 ?s3)\<lparr>v_current := current g2 ?s3 @ ps\<rparr>"
    "stats_startp s' = stats_startp ?s3 + of_nat (length ps)" "curb s' = curb ?s3" "priofinity s' = priofinity ?s3"
    "enabled_threads s' = enabled_threads ?s3" "sync s' = sync ?s3" "schedulers s' = schedulers ?s3"
    "dispatches s' = dispatches ?s3" "\<forall>x. unqueued g2 x \<longrightarrow> x \<notin> set ps \<longrightarrow> unqueued g' x"
    "\<forall>c. foreign g2 ?s3 c \<longrightarrow> foreign g' s' c"
    by blast
  have run: "start_processes fptr s = Some s'"
    using f(1,2) 2(1) 3(1) by (subst start_processes.simps) (simp add: enqueue_process_nopri_def)
  have "current g2 ?s3 = current g2 s2" by (simp add: current_def)
  then have "view g' s' = (view g s)\<lparr>v_current := current g s @ p # ps\<rparr>"
    using 3(4) cur unfolding M(2) 2(4) W(2) by simp
  moreover have "spares g s g' s'"
    using spares_trans [OF W(3) spares_trans [OF 2(6) spares_trans [OF M(3) 3(3)]]] .
  moreover have "\<forall>c. foreign g s c \<longrightarrow> foreign g' s' c"
  proof (intro allI impI)
    fix c assume "foreign g s c"
    then have "foreign g ?s1 c" by (simp add: foreign_def)
    moreover have "stays g ?s1 g2 s2" using 2(3) by (simp add: queues_def)
    ultimately have "foreign g2 s2 c" by (metis staysD(1))
    then have "foreign g2 ?s3 c" by (simp add: foreign_def)
    with 3(13) show "foreign g' s' c" by blast
  qed
  moreover have "\<forall>x. unqueued g x \<longrightarrow> x \<notin> set (p # ps) \<longrightarrow> unqueued g' x" using 2(3) 3(12) by (auto simp: queues_def)
  ultimately show ?case
    using run 3(2,5-11) C 2(5) by (intro exI [of _ s'] exI [of _ g']) (simp add: algebra_simps)
qed

text \<open>The first thread has number zero.\<close>

lemma bsf_ones [simp]: "bsf (- 1) = 0"
  using below_bsf [of 0 "- 1"] by auto

lemma claim_first:
  "enabled_threads s = 0 \<Longrightarrow> schedulers s 0 = 0 \<Longrightarrow>
     claim_index a 0 s = Some (s\<lparr>sched_index := 0, sched_id := 1, schedulers := (schedulers s)(0 := a)\<rparr>)"
  by (subst claim_index.simps) (simp add: Let_def)

text \<open>
  The start of the first thread: the processes in the list it is given are the current batch, in their order, at the
  middle priority, nothing else is ready, and 32 free batches are left.
\<close>

lemma Y_rtthreadinit_kwf:
  assumes p: "provides l s" "allocs s + 64 \<le> l"
    and ps: "chain (\<lambda>w. kmem s w Link) fptr ps" "\<forall>p \<in> set ps. p \<noteq> 0 \<and> 4 dvd unat p"
    and one: "enabled_threads s = 0" "schedulers s 0 = 0" and w: "Wptr \<noteq> 0"
  shows "\<exists>s' g'. Y_rtthreadinit h fptr stack Wptr s = Some (Dispatch Wptr, s') \<and> kwf g' s' \<and> room 32 g' s' \<and>
    view g' s' = \<lparr>v_ready = (\<lambda>_. []), v_current = ps\<rparr> \<and> priofinity s' = 16 \<and> dispatches s' = BATCH_PPD \<and>
    enabled_threads s' = 1 \<and> sync s' = 0 \<and> stats_startp s' = of_nat (length ps) + 1 \<and>
    (\<forall>x. x \<noteq> 0 \<and> 4 dvd unat x \<and> x \<notin> set ps \<longrightarrow> unqueued g' x) \<and>
    (\<forall>c. c \<noteq> curb s \<longrightarrow> (\<forall>i \<in> {allocs s..<l}. blocks s i \<noteq> c) \<longrightarrow> foreign g' s' c)"
proof -
  obtain s1 where 1: "init_sched_t s = Some s1" "core {..<32} (no_batches l) s1" "rqstate s1 = 0" "mwstate s1 = 0"
    "\<forall>n < 32. rq_priofinity (rq s1 n) = 0" "\<forall>p k. k < 0 \<longrightarrow> kmem s1 p k = kmem s p k" "allocs s1 = allocs s"
    "curb s1 = curb s" "sync s1 = 0" "stats_startp s1 = 0" "enabled_threads s1 = enabled_threads s"
    "schedulers s1 = schedulers s" "blocks s1 = blocks s"
    using init_sched_t_core [OF p(1)] by blast
  let ?s1 = "s1\<lparr>priofinity := BuildPriofinity 0 16\<rparr>"
  have "core {..<32} (no_batches l) (s1\<lparr>dispatches := dispatches s1, priofinity := BuildPriofinity 0 16\<rparr>)"
    by (rule core_set_priofinity [OF 1(2)]) simp
  then have c1: "core {..<32} (no_batches l) ?s1" by simp
  obtain s2 g2 where 2: "allocate_to_free_list 64 ?s1 = Some s2" "frees_only ?s1 s2" "core {..<32} g2 s2"
    "keeps (no_batches l) g2" "length (frees g2) = 64" "stays (no_batches l) ?s1 g2 s2"
    using allocate_to_free_list_core [OF c1, of 64] p(2) 1(7) by auto
  note F2 = frees_only_simps [OF 2(2)]
  have e2: "empties g2"
    using keepsD(5) [OF 2(4)] by (simp add: empties_def in_use_def)
  have set: "set [0..<32] = {..<32 :: nat}" by auto
  have c2: "core (set [0..<32]) g2 s2" using 2(3) unfolding set .
  have r2: "room (length [0..<32] + 32) g2 s2" using 2(5) by (simp add: room_def)
  obtain s3 g3 where 3: "fill_pending [0..<32] s2 = Some s3" "core {} g3 s3" "room 32 g3 s3" "empties g3" "calm s2 s3"
    "rqstate s3 = rqstate s2" "mwstate s3 = mwstate s2" "\<forall>n. rq_priofinity (rq s3 n) = rq_priofinity (rq s2 n)"
    "queue g3 = queue g2" "\<forall>b. own g2 b \<noteq> InCurb \<longrightarrow> own g3 b \<noteq> InCurb"
    "\<forall>p k. k < 0 \<longrightarrow> kmem s3 p k = kmem s2 p k" "stays g2 s2 g3 s3"
    using fill_pending_core [OF c2 _ _ r2 e2] unfolding set by auto
  have "own g3 b \<noteq> InCurb" for b using 3(10) keepsD(6) [OF 2(4), of b] by simp
  then have S: "steady g3 s3" "own g3 (curb s3) = Elsewhere" "view g3 s3 = quiet"
    using empties_steady [OF 3(2,4)] 3(7,8,9) keepsD(1) [OF 2(4)] F2 1(4,5) by simp_all
  obtain s4 g4 where 4: "new_curb s3 = Some s4" "kwf g4 s4" "view g4 s4 = view g3 s3" "current g4 s4 = []" "calm s3 s4"
    "\<forall>x. unqueued g3 x \<longrightarrow> unqueued g4 x" "spares g3 s3 g4 s4" "stays g3 s3 g4 s4"
    using new_curb_kwf [OF S(1,2)] by blast
  have st4: "schedulers s4 = schedulers s" "stats_startp s4 = 0" "enabled_threads s4 = 0" "sync s4 = 0" "priofinity s4 = 16"
    using calm_simps [OF calm_trans [OF calm_trans [OF calm_frees [OF 2(2)] 3(5)] 4(5)]] 1(9-12) one
    by (simp_all add: BuildPriofinity_def)
  have "kmem s4 w Link = kmem s w Link" for w
    using 4(1) 3(11) 2(2) 1(6) by (auto simp: new_curb_def st_def frees_only_def split: if_splits)
  then have ch: "chain (\<lambda>w. kmem s4 w Link) fptr ps" using ps(1) by (auto intro: chain_cong)
  have free: "unqueued g4 x" if "x \<noteq> 0 \<and> 4 dvd unat x" for x using that empties_idle [OF 3(4)] 4(6) by blast
  then have idle: "\<forall>p \<in> set ps. unqueued g4 p" using ps(2) by blast
  obtain s5 g5 where 5: "start_processes fptr s4 = Some s5" "kwf g5 s5" "spares g4 s4 g5 s5"
    "view g5 s5 = (view g4 s4)\<lparr>v_current := current g4 s4 @ ps\<rparr>"
    "stats_startp s5 = stats_startp s4 + of_nat (length ps)" "priofinity s5 = priofinity s4"
    "enabled_threads s5 = enabled_threads s4" "sync s5 = sync s4" "schedulers s5 = schedulers s4"
    "dispatches s5 = dispatches s4" "\<forall>x. unqueued g4 x \<longrightarrow> x \<notin> set ps \<longrightarrow> unqueued g5 x"
    "\<forall>c. foreign g4 s4 c \<longrightarrow> foreign g5 s5 c"
    using start_processes_kwf [OF 4(2) ch idle] by blast
  let ?s6 = "s5\<lparr>sched_index := 0, sched_id := 1, schedulers := (schedulers s5)(0 := stack)\<rparr>"
  have 6: "claim_index stack 0 s5 = Some ?s6" using 5(7,9) st4 one by (intro claim_first) simp_all
  have "set_bit 0 0 = (1 :: WORD)" by (rule bit_word_eqI) (simp add: bit_set_bit32 bit_1_iff)
  then obtain x t where 7: "setup_timing h ?s6 = ?s6\<lparr>kticks := t, spin := x, enabled_threads := 1\<rparr>"
    using 5(7) st4(3) by (auto simp: setup_timing_def setup_spin_def Time_GetTime_def Let_def)
  let ?s8 = "?s6\<lparr>kticks := t, spin := x, enabled_threads := 1, stats_startp := stats_startp s5 + 1\<rparr>"
  note M = kwf_masks [OF 5(2), of ?s8, simplified]
  have "Y_rtthreadinit h fptr stack Wptr s = Some (Dispatch Wptr, ?s8)"
    using w 1(1) 2(1) 3(1) 4(1) 5(1) 6 7 by (simp add: Y_rtthreadinit_def)
  moreover have "room 32 g5 ?s8" using sparesD [OF M(3) sparesD [OF 5(3) sparesD [OF 4(7) 3(3)]]] .
  moreover have "view g5 ?s8 = \<lparr>v_ready = (\<lambda>_. []), v_current = ps\<rparr>"
    using M(2) 5(4) 4(3,4) S(3) by (simp add: quiet_def)
  moreover have "foreign g5 ?s8 c" if c: "c \<noteq> curb s" "\<forall>i \<in> {allocs s..<l}. blocks s i \<noteq> c" for c
  proof -
    have "foreign (no_batches l) ?s1 c" using c 1(7,8,13) by (simp add: foreign_def)
    then have "foreign g4 s4 c" by (rule staysD(1) [OF stays_trans [OF stays_trans [OF 2(6) 3(12)] 4(8)]])
    then have "foreign g5 s5 c" using 5(12) by blast
    then show ?thesis by (simp add: foreign_def)
  qed
  moreover have "dispatches s4 = BATCH_PPD" using 4(1) by (auto simp: new_curb_def st_def split: if_splits)
  ultimately show ?thesis
    using M(1) 5(5-10) st4 free 5(11) by (intro exI [of _ ?s8] exI [of _ g5]) simp
qed

end
