(* ===== verification/Ccsp_Laws.thy ===== *)
theory Ccsp_Laws
  imports Ccsp_Boot
begin

text \<open>
  What the kernel promises, over the abstract scheduler of \<open>Ccsp_Ready\<close>: ready processes by priority in the order they
  became ready, and the current batch.
\<close>

section \<open>A kernel that has started\<close>

text \<open>The first thread is started with two processes.\<close>

definition host_example :: host_events where
  "host_example = \<lparr>pause = (\<lambda>s. s), external = (\<lambda>_. False), spin_us = 16, spin_of = (\<lambda>_. 0)\<rparr>"

definition kern_example :: kern where
  "kern_example = \<lparr>kmem = (\<lambda>p k. if p = 0x100 \<and> k = Link then 0x200 else 0), kbytes = (\<lambda>_. 0), sched_index = 0,
     sched_id = 0, spin = 0, dispatches = 0, priofinity = 0, sched_loop = 0, rqstate = 0, free_list = 0, laundry = 0,
     tq_fptr = 0, tq_bptr = 0, curb = 0x1000, rq = (\<lambda>_. init_runqueue_t), stats_startp = 0, stats_endp = 0,
     stats_proc_start = 0, stats_proc_end = 0, sync = 0, bmail = init_runqueue_t, pmail = init_runqueue_t,
     mwstate = 0, mw = (\<lambda>_ _. 0), enabled_threads = 0, idle_threads = 0, sleeping_threads = 0, kclock = of_nat,
     kticks = 0, alarm = 0, blocks = (\<lambda>i. of_nat (0x2000 + i)), allocs = 0, released = [], schedulers = (\<lambda>_. 0)\<rparr>"

lemma kern_example_provides: "provides 1000 kern_example"
proof -
  have "inj_on (\<lambda>i. of_nat (0x2000 + i) :: WORD) {0..<1000}"
    by (rule inj_onI) (simp add: word_unat_eq_iff unat_of_nat del: of_nat_add)
  moreover have "of_nat (0x2000 + i) \<noteq> (0 :: WORD)" "of_nat (0x2000 + i) \<noteq> (0x1000 :: WORD)" if "i < 1000" for i
    using that by (simp_all add: word_unat_eq_iff unat_of_nat del: of_nat_add)
  ultimately show ?thesis by (simp add: provides_def kern_example_def)
qed

lemma started:
  assumes "chain (\<lambda>w. kmem kern_example w Link) fptr ps" "\<forall>p \<in> set ps. p \<noteq> 0 \<and> 4 dvd unat p"
  obtains s g where "kwf g s" "room 32 g s" "view g s = \<lparr>v_ready = (\<lambda>_. []), v_current = ps\<rparr>"
    "priofinity s = 16" "enabled_threads s = 1" "sync s = 0"
    "\<forall>x. x \<noteq> 0 \<and> 4 dvd unat x \<and> x \<notin> set ps \<longrightarrow> unqueued g x" "\<And>c. c < 0x1000 \<Longrightarrow> foreign g s c"
proof -
  have off: "c \<noteq> curb kern_example" "\<forall>i \<in> {allocs kern_example..<1000}. blocks kern_example i \<noteq> c" if "c < 0x1000" for c
  proof -
    show "c \<noteq> curb kern_example" using that by (auto simp: kern_example_def)
    show "\<forall>i \<in> {allocs kern_example..<1000}. blocks kern_example i \<noteq> c"
    proof
      fix i assume "i \<in> {allocs kern_example..<1000}"
      then have "unat (of_nat (0x2000 + i) :: WORD) = 0x2000 + i" by (simp add: unat_of_nat del: of_nat_add)
      moreover have "blocks kern_example i = of_nat (0x2000 + i)" by (simp add: kern_example_def)
      moreover have "unat c < 0x1000" using that by (simp add: word_less_nat_alt)
      ultimately show "blocks kern_example i \<noteq> c" by auto
    qed
  qed
  have "enabled_threads kern_example = 0" "schedulers kern_example 0 = 0" "allocs kern_example + 64 \<le> 1000"
    by (simp_all add: kern_example_def)
  note E = Y_rtthreadinit_kwf [OF kern_example_provides this(3) assms this(1,2), of "0x300" host_example "0x4000"]
  obtain s g where 1: "kwf g s" "room 32 g s" "view g s = \<lparr>v_ready = (\<lambda>_. []), v_current = ps\<rparr>"
    "priofinity s = 16" "enabled_threads s = 1" "sync s = 0"
    "\<forall>x. x \<noteq> 0 \<and> 4 dvd unat x \<and> x \<notin> set ps \<longrightarrow> unqueued g x"
    and f: "\<forall>c. c \<noteq> curb kern_example \<longrightarrow> (\<forall>i \<in> {allocs kern_example..<1000}. blocks kern_example i \<noteq> c) \<longrightarrow> foreign g s c"
    using E by auto
  show thesis by (rule that [OF 1]) (use f off in blast)
qed

lemma started_example:
  obtains s g where "kwf g s" "room 32 g s" "view g s = \<lparr>v_ready = (\<lambda>_. []), v_current = [0x100, 0x200]\<rparr>"
    "priofinity s = 16" "enabled_threads s = 1" "sync s = 0"
    "\<forall>x. x \<noteq> 0 \<and> 4 dvd unat x \<and> x \<notin> set [0x100, 0x200] \<longrightarrow> unqueued g x" "\<And>c. c < 0x1000 \<Longrightarrow> foreign g s c"
proof (rule started [of "0x100" "[0x100, 0x200]"])
  show "chain (\<lambda>w. kmem kern_example w Link) 0x100 [0x100, 0x200]" by (simp add: kern_example_def)
qed simp_all

lemma started_empty:
  obtains s g where "kwf g s" "room 32 g s" "view g s = \<lparr>v_ready = (\<lambda>_. []), v_current = []\<rparr>"
    "priofinity s = 16" "enabled_threads s = 1" "sync s = 0"
  by (rule started [of 0 "[]"]) simp_all

section \<open>The scheduler\<close>

text \<open>C3: The start of the first run time thread establishes the invariant of the kernel: the processes of
  the list it is given are the current batch in their order, at the middle priority and with one batch's dispatches, nothing
  else is ready, 32 batches are free, and the process that started the thread goes on.\<close>

theorem first_thread_starts:
  assumes "provides l s" "allocs s + 64 \<le> l" "chain (\<lambda>w. kmem s w Link) fptr ps" "\<forall>p \<in> set ps. p \<noteq> 0 \<and> 4 dvd unat p"
    "enabled_threads s = 0" "schedulers s 0 = 0" "Wptr \<noteq> 0"
  shows "\<exists>s' g'. Y_rtthreadinit h fptr stack Wptr s = Some (Dispatch Wptr, s') \<and> kwf g' s' \<and> room 32 g' s' \<and>
    view g' s' = \<lparr>v_ready = (\<lambda>_. []), v_current = ps\<rparr> \<and> priofinity s' = 16 \<and> dispatches s' = BATCH_PPD \<and>
    enabled_threads s' = 1 \<and> sync s' = 0 \<and> stats_startp s' = of_nat (length ps) + 1 \<and>
    (\<forall>x. x \<noteq> 0 \<and> 4 dvd unat x \<and> x \<notin> set ps \<longrightarrow> unqueued g' x)"
  using Y_rtthreadinit_kwf [OF assms, of h stack] by blast

theorem first_thread_starts_witness:
  "\<exists>s' g'. Y_rtthreadinit host_example 0x100 0x4000 0x300 kern_example = Some (Dispatch 0x300, s') \<and> kwf g' s' \<and>
     view g' s' = \<lparr>v_ready = (\<lambda>_. []), v_current = [0x100, 0x200]\<rparr> \<and> priofinity s' = 16"
proof -
  have "chain (\<lambda>w. kmem kern_example w Link) 0x100 [0x100, 0x200]" by (simp add: kern_example_def)
  moreover have "enabled_threads kern_example = 0" "schedulers kern_example 0 = 0" "allocs kern_example + 64 \<le> 1000"
    by (simp_all add: kern_example_def)
  ultimately show ?thesis
    using first_thread_starts [OF kern_example_provides, where fptr = "0x100" and ps = "[0x100, 0x200]" and Wptr = "0x300" and h = host_example and stack = "0x4000"] by auto
qed

lemma scheduler_dispatches:
  "scheduler_pass h s = Some (Dispatch w, s') \<Longrightarrow> kernel_scheduler h s = Some (Dispatch w, s')"
  by (subst kernel_scheduler.simps) simp

text \<open>C1: When the dispatches of the current batch are used up, or it is empty, the scheduler runs the first of the
  ready processes of the most urgent priority that has any, where what was left of the current batch counts as the last of its
  priority; a batch of those behind it becomes current and all others stay ready in their order.\<close>

theorem scheduler_takes_most_urgent:
  assumes "kwf g s" "sint (dispatches s) \<le> 0 \<or> current g s = []" "sync s = 0" "n < 32"
    "v_ready (put_away g s) n \<noteq> []" "\<forall>k < n. v_ready (put_away g s) k = []" "room (Suc (Suc (Suc j))) g s"
  shows "\<exists>w ps rest s' g'. kernel_scheduler h s = Some (Dispatch w, s') \<and> kwf g' s' \<and> room j g' s' \<and>
    unqueued g' w \<and> v_ready (put_away g s) n = w # ps @ rest \<and>
    view g' s' = (set_ready n rest (put_away g s))\<lparr>v_current := ps\<rparr>"
  using pass_takes_urgent [OF assms, of h] scheduler_dispatches by blast

theorem scheduler_takes_most_urgent_witness:
  "\<exists>s g s' g'. kwf g s \<and> current g s = [0x100, 0x200] \<and> kernel_scheduler host_example s = Some (Dispatch 0x100, s') \<and>
     kwf g' s'"
proof -
  obtain s g where s: "kwf g s" "room 32 g s" "view g s = \<lparr>v_ready = (\<lambda>_. []), v_current = [0x100, 0x200]\<rparr>"
    "priofinity s = 16" "sync s = 0"
    by (rule started_example)
  let ?s = "s\<lparr>dispatches := 0\<rparr>"
  note M = kwf_masks [OF s(1), of ?s, simplified]
  have r: "room (Suc (Suc (Suc 29))) g ?s" using sparesD [OF M(3) s(2)] by simp
  have c: "current g ?s = [0x100, 0x200]" using arg_cong [OF M(2), of v_current] arg_cong [OF s(3), of v_current] by simp
  have p: "v_ready (put_away g ?s) k = (if k = 16 then [0x100, 0x200] else [])" for k
    using M(2) s(3,4) c by (simp add: put_away_def prio_def PPriority_def)
  have "\<exists>w ps rest s' g'. kernel_scheduler host_example ?s = Some (Dispatch w, s') \<and> kwf g' s' \<and> room 29 g' s' \<and>
      unqueued g' w \<and> v_ready (put_away g ?s) 16 = w # ps @ rest \<and>
      view g' s' = (set_ready 16 rest (put_away g ?s))\<lparr>v_current := ps\<rparr>"
    using s(5) p by (intro scheduler_takes_most_urgent [OF M(1) _ _ _ _ _ r]) simp_all
  then show ?thesis using M(1) c p by (metis list.inject)
qed

text \<open>C4: With no timer set, no event waited for and the loop count used up, a pass of the only thread finds a
  deadlock exactly when no process is ready.\<close>

theorem deadlock_found_exactly:
  assumes "kwf g s" "room 3 g s" "sync s = 0" "tq_fptr s = 0" "sched_loop s = 0" "\<And>s. \<not> external h s"
    "enabled_threads s = 1" "sched_index s = 0" "sleeping_threads s = 0 \<or> sleeping_threads s = 1"
    "idle_threads s = 0 \<or> idle_threads s = 1"
  shows "(\<exists>s'. scheduler_pass h s = Some (Deadlock, s')) \<longleftrightarrow> current g s = [] \<and> (\<forall>k < 32. runnable g s k = [])"
proof
  assume "\<exists>s'. scheduler_pass h s = Some (Deadlock, s')"
  then show "current g s = [] \<and> (\<forall>k < 32. runnable g s k = [])"
    using idle_pass [OF assms(1,3)] assms(2) by blast
next
  assume "current g s = [] \<and> (\<forall>k < 32. runnable g s k = [])"
  with deadlock_pass [OF assms(1) _ _ assms(3-10)] show "\<exists>s'. scheduler_pass h s = Some (Deadlock, s')" by blast
qed

theorem deadlock_found_exactly_witness:
  "\<exists>g s s'. kwf g s \<and> current g s = [] \<and> scheduler_pass host_example s = Some (Deadlock, s')"
proof -
  obtain s g where s: "kwf g s" "room 32 g s" "view g s = \<lparr>v_ready = (\<lambda>_. []), v_current = []\<rparr>"
    "enabled_threads s = 1" "sync s = 0"
    by (rule started_empty)
  let ?s = "s\<lparr>tq_fptr := 0, sched_loop := 0, sched_index := 0, sleeping_threads := 0, idle_threads := 0\<rparr>"
  note M = kwf_masks [OF s(1), of ?s, simplified]
  have r: "room 3 g ?s" using sparesD [OF M(3) room_less [OF s(2)]] by simp
  have c: "current g ?s = []" using arg_cong [OF M(2), of v_current] arg_cong [OF s(3), of v_current] by simp
  have q: "runnable g ?s k = []" if "k < 32" for k
    using arg_cong [OF M(2), of "\<lambda>v. v_ready v k"] arg_cong [OF s(3), of "\<lambda>v. v_ready v k"] that by simp
  have "(\<exists>s'. scheduler_pass host_example ?s = Some (Deadlock, s')) \<longleftrightarrow>
      current g ?s = [] \<and> (\<forall>k < 32. runnable g ?s k = [])"
    using s(4,5) by (intro deadlock_found_exactly [OF M(1) r]) (simp_all add: host_example_def)
  then show ?thesis using M(1) c q by blast
qed

section \<open>Making a process ready\<close>

text \<open>C2: A process that is made ready on a thread it may run on joins the end of the current batch if it has
  the priority and affinity of the processes there, else it becomes the last of those ready at its
  priority. Nothing else moves, and the invariant is kept.\<close>

theorem enqueue_process_refines:
  assumes "kwf g s" "unqueued g w" "v = kmem s w Priofinity" "local_to s v" "room (Suc k) g s"
  shows "\<exists>s' g'. enqueue_process w s = Some s' \<and> kwf g' s' \<and> (\<forall>x. x \<noteq> w \<longrightarrow> unqueued g x \<longrightarrow> unqueued g' x) \<and>
    view g' s' = (if v = priofinity s then (view g s)\<lparr>v_current := current g s @ [w]\<rparr> else push (prio v) [w] (view g s)) \<and>
    room k g' s'"
  using enqueue_process_kwf [OF assms] unfolding queues_def by blast

theorem enqueue_process_refines_witness:
  "\<exists>g s s' g'. kwf g s \<and> enqueue_process 0x300 s = Some s' \<and> kwf g' s' \<and> v_ready (view g' s') 3 = [0x300] \<and>
     v_current (view g' s') = [0x100, 0x200]"
proof -
  obtain s g where s: "kwf g s" "room 32 g s" "view g s = \<lparr>v_ready = (\<lambda>_. []), v_current = [0x100, 0x200]\<rparr>"
    "priofinity s = 16" "\<forall>x. x \<noteq> 0 \<and> 4 dvd unat x \<and> x \<notin> set [0x100, 0x200] \<longrightarrow> unqueued g x"
    by (rule started_example)
  have un: "unqueued g 0x300" using s(5) by simp
  let ?s = "put 0x300 Priofinity 3 s"
  note W = kwf_write [OF s(1), of "0x300" Priofinity 3]
  have W: "kwf g ?s" "view g ?s = view g s" "room (Suc 31) g ?s"
    using W un sparesD [OF W(3) s(2)] by (simp_all add: unconcerned_def)
  have "local_to ?s 3" by (simp add: local_to_def PHasAffinity_def)
  then obtain s' g' where 1: "enqueue_process 0x300 ?s = Some s'" "kwf g' s'" "view g' s' = push 3 [0x300] (view g s)"
    using enqueue_process_refines [OF W(1) un, where v = 3 and k = 31] W s(4) by (auto simp: prio_def PPriority_def)
  have "v_ready (view g' s') 3 = [0x300]" "v_current (view g' s') = [0x100, 0x200]"
    unfolding 1(3) s(3) by simp_all
  with 1 W(1) show ?thesis by blast
qed

text \<open>C5: A thread that takes another priority or affinity puts the current batch behind the processes ready at
  the old priority, in its order, even when its dispatches are used up and the batch is taken apart; its new current
  batch is empty.\<close>

theorem switch_priofinity_refines:
  assumes "kwf g s" "room (Suc (Suc k)) g s"
  shows "\<exists>s' g'. switch_priofinity v s = Some s' \<and> kwf g' s' \<and> priofinity s' = v \<and> room k g' s' \<and>
    (\<forall>x. unqueued g x \<longrightarrow> unqueued g' x) \<and>
    view g' s' = (if v = priofinity s then view g s
      else (push (prio (priofinity s)) (current g s) (view g s))\<lparr>v_current := []\<rparr>)"
  using switch_priofinity_kwf [OF assms] by blast

theorem switch_priofinity_refines_witness:
  "\<exists>g s s' g'. kwf g s \<and> switch_priofinity 3 s = Some s' \<and> kwf g' s' \<and> v_ready (view g' s') 16 = [0x100, 0x200] \<and>
     v_current (view g' s') = []"
proof -
  obtain s g where s: "kwf g s" "room 32 g s" "view g s = \<lparr>v_ready = (\<lambda>_. []), v_current = [0x100, 0x200]\<rparr>"
    "priofinity s = 16"
    by (rule started_example)
  have r: "room (Suc (Suc 30)) g s" using s(2) by simp
  have c: "current g s = [0x100, 0x200]" using arg_cong [OF s(3), of v_current] by simp
  obtain s' g' where "switch_priofinity 3 s = Some s'" "kwf g' s'"
    "view g' s' = (push (prio 16) [0x100, 0x200] (view g s))\<lparr>v_current := []\<rparr>"
    using switch_priofinity_refines [OF s(1) r, of 3] s(4) c by auto
  moreover from this(3) have "v_ready (view g' s') 16 = [0x100, 0x200]" "v_current (view g' s') = []"
    unfolding s(3) by (simp_all add: prio_def PPriority_def push_def set_ready_def)
  ultimately show ?thesis using s(1) by blast
qed

section \<open>Batches\<close>

text \<open>A batch is given eight dispatches for each process and at most 127, but the sizes at which
  eight times the size wraps round get few or none.\<close>

lemma dispatches_of_a_batch:
  "unat (calculate_dispatches n) = min (8 * unat n mod 2 ^ 32) 127"
  by (rule calculate_dispatches_value)

text \<open>C13: Removing the last process of a batch by its address leaves the batch's back pointer and size: the next
  process to join is linked behind the one removed, cannot be reached from the front, and the size counts both.\<close>

theorem removal_loses_next:
  assumes "batch_procs s b e (ps @ [x])" "ps \<noteq> []" "lo \<le> x" "x < hi"
    "\<forall>y \<in> set ps. \<not> (lo \<le> y \<and> y < hi)" "w \<noteq> 0" "w \<notin> set (ps @ [x])"
  shows "\<exists>s1 s2. find_remove_from_batch b True lo hi s = Some (True, s1) \<and> enqueue_to_batch b w s1 = Some s2 \<and>
    chain (\<lambda>w. kmem s2 w Link) (kmem s2 b B_Fptr) ps \<and> kmem s2 b B_size = flagged e (length ps + 2)"
  by (rule removed_last_loses_next [OF assms])

theorem removal_loses_next_witness:
  "\<exists>s s1 s2. batch_procs s 0x1000 True [0x100, 0x200] \<and> find_remove_from_batch 0x1000 True 0x200 0x204 s = Some (True, s1) \<and>
     enqueue_to_batch 0x1000 0x300 s1 = Some s2 \<and> chain (\<lambda>w. kmem s2 w Link) (kmem s2 0x1000 B_Fptr) [0x100]"
proof -
  let ?s = "put 0x1000 B_Fptr 0x100 (put 0x1000 B_Bptr 0x200 (put 0x1000 B_size (BATCH_EMPTIED OR 2) kern_example))"
  have b: "batch_procs ?s 0x1000 True ([0x100] @ [0x200])"
    by (simp add: batch_procs_def kern_example_def flagged_def)
  from removal_loses_next [OF b, of "0x200" "0x204" "0x300"] b show ?thesis by auto
qed

end
