(* ===== verification/Ccsp_Calls.thy ===== *)
theory Ccsp_Calls
  imports Ccsp_Sched
begin

text \<open>
  The kernel calls of \<^verbatim>\<open>sched.c\<close> that compiled programs make most: starting, pausing and ending processes, priorities
  and affinities, channel communication, timers, semaphores, and the barriers of mobile processes. A call has
  the workspace of the process that makes it, the address it returns to and its parameters. A swap, or a
  comparison and exchange, finds what the call has just read, as there is one thread.
\<close>

section \<open>How a call ends\<close>

text \<open>
  It returns to its caller, with a result, or elsewhere (\<^verbatim>\<open>K_ZERO_OUT\<close>, \<^verbatim>\<open>K_ONE_OUT\<close>, \<^verbatim>\<open>K_ZERO_OUT_JUMP\<close>, \<^verbatim>\<open>K_ONE_OUT_JUMP\<close>), lets a process go on
  where it last stopped (\<^verbatim>\<open>K_ZERO_OUT_JRET\<close>), or enters the scheduler, which never returns.
\<close>

datatype outcome = Return | Value WORD | Goto WORD | GotoValue WORD WORD | Resume WORD | Schedule

definition reschedule_point :: "WORD \<Rightarrow> WORD \<Rightarrow> kern \<Rightarrow> (outcome \<times> kern) option" where
  "reschedule_point Wptr other s = do {
     v \<leftarrow> ld other Priofinity s;
     if priofinity s \<noteq> v then
       if PPriority v < PPriority (priofinity s) then do {
         s \<leftarrow> enqueue_process other s;
         s \<leftarrow> save_priofinity Wptr s;
         s \<leftarrow> enqueue_process_nopri Wptr s;
         Some (Schedule, s) }
       else do {
         s \<leftarrow> enqueue_process other s;
         Some (Resume Wptr, s) }
     else do {
       (w, s) \<leftarrow> schedule_point Wptr other s;
       Some (Resume w, s) } }"

definition get_process_or_reschedule :: "kern \<Rightarrow> (outcome \<times> kern) option" where
  "get_process_or_reschedule s = do {
     e \<leftarrow> end_of_curb s;
     if e then Some (Schedule, s)
     else do { (w, s) \<leftarrow> dequeue_from_curb s; Some (Resume w, s) } }"

section \<open>Processes\<close>

definition Y_fastscheduler :: "kern \<Rightarrow> (outcome \<times> kern) option" where
  "Y_fastscheduler s = get_process_or_reschedule s"

definition Y_occscheduler :: "kern \<Rightarrow> (outcome \<times> kern) option" where
  "Y_occscheduler s = Some (Schedule, s)"

text \<open>A new process costs a dispatch; when that was the last one, its parent goes to the front of the batch.\<close>

definition pay_dispatch :: "WORD \<Rightarrow> WORD \<Rightarrow> kern \<Rightarrow> (outcome \<times> kern) option" where
  "pay_dispatch Wptr return_address s =
     (let s = s\<lparr>dispatches := dispatches s - 1\<rparr> in
      if sint (dispatches s) \<le> 0 then do {
        s \<leftarrow> save_priofinity Wptr s;
        s \<leftarrow> save_return Wptr return_address s;
        s \<leftarrow> enqueue_to_batch_front (curb s) Wptr s;
        Some (Schedule, s) }
      else Some (Return, s))"

definition Y_startp :: "WORD \<Rightarrow> WORD \<Rightarrow> WORD \<Rightarrow> WORD \<Rightarrow> kern \<Rightarrow> (outcome \<times> kern) option" where
  "Y_startp Wptr return_address workspace start_offset s = do {
     s \<leftarrow> save_priofinity workspace s;
     s \<leftarrow> save_return workspace (return_address + start_offset) s;
     s \<leftarrow> enqueue_process_nopri workspace s;
     pay_dispatch Wptr return_address (s\<lparr>stats_startp := stats_startp s + 1\<rparr>) }"

definition X_runp :: "WORD \<Rightarrow> kern \<Rightarrow> (outcome \<times> kern) option" where
  "X_runp other_workspace s = do {
     s \<leftarrow> enqueue_process (other_workspace AND NOT 3) s;
     Some (Return, s) }"

definition Y_pause :: "WORD \<Rightarrow> WORD \<Rightarrow> kern \<Rightarrow> (outcome \<times> kern) option" where
  "Y_pause Wptr return_address s = do {
     s \<leftarrow> save_priofinity Wptr s;
     s \<leftarrow> save_return Wptr return_address s;
     s \<leftarrow> enqueue_process_nopri Wptr s;
     Some (Schedule, s) }"

definition Y_stopp :: "WORD \<Rightarrow> WORD \<Rightarrow> kern \<Rightarrow> (outcome \<times> kern) option" where
  "Y_stopp Wptr return_address s = do {
     s \<leftarrow> save_priofinity Wptr s;
     s \<leftarrow> save_return Wptr return_address s;
     Some (Schedule, s) }"

text \<open>The last process of a parallel construct makes its parent ready, at the priority and the address saved there.\<close>

definition Y_endp :: "WORD \<Rightarrow> WORD \<Rightarrow> WORD \<Rightarrow> kern \<Rightarrow> (outcome \<times> kern) option" where
  "Y_endp Wptr return_address ptr s = do {
     s \<leftarrow> save_return Wptr return_address s;
     n \<leftarrow> ld ptr Count s;
     s \<leftarrow> st ptr Count (n - 1) s;
     s \<leftarrow> (if n - 1 = 0 then do {
             v \<leftarrow> ld ptr SavedPriority s;
             s \<leftarrow> st ptr Priofinity v s;
             i \<leftarrow> ld ptr IptrSucc s;
             s \<leftarrow> st ptr Iptr i s;
             enqueue_process ptr s }
           else Some (s\<lparr>stats_endp := stats_endp s + 1\<rparr>));
     Some (Schedule, s) }"

definition X_par_enroll :: "WORD \<Rightarrow> WORD \<Rightarrow> kern \<Rightarrow> (outcome \<times> kern) option" where
  "X_par_enroll count ptr s = do {
     n \<leftarrow> ld ptr Count s;
     s \<leftarrow> st ptr Count (n + count) s;
     Some (Return, s) }"

definition Y_proc_start :: "WORD \<Rightarrow> WORD \<Rightarrow> WORD \<Rightarrow> WORD \<Rightarrow> WORD \<Rightarrow> kern \<Rightarrow> (outcome \<times> kern) option" where
  "Y_proc_start Wptr return_address offset ws code s = (let ws = ws + 4 * offset in do {
     s \<leftarrow> save_priofinity ws s;
     s \<leftarrow> save_return ws code s;
     s \<leftarrow> enqueue_process_nopri ws s;
     pay_dispatch Wptr return_address (s\<lparr>stats_proc_start := stats_proc_start s + 1\<rparr>) })"

section \<open>Priority and affinity\<close>

definition X_getaff :: "kern \<Rightarrow> (outcome \<times> kern) option" where
  "X_getaff s = Some (Value (PAffinity (priofinity s)), s)"

definition X_getpas :: "kern \<Rightarrow> (outcome \<times> kern) option" where
  "X_getpas s = Some (Value (priofinity s), s)"

definition X_getpri :: "kern \<Rightarrow> (outcome \<times> kern) option" where
  "X_getpri s = Some (Value (PPriority (priofinity s)), s)"

definition take_priofinity :: "WORD \<Rightarrow> WORD \<Rightarrow> WORD \<Rightarrow> kern \<Rightarrow> (outcome \<times> kern) option" where
  "take_priofinity Wptr return_address v s = do {
     s \<leftarrow> st Wptr Priofinity v s;
     s \<leftarrow> save_return Wptr return_address s;
     s \<leftarrow> enqueue_process Wptr s;
     get_process_or_reschedule s }"

definition Y_setaff :: "WORD \<Rightarrow> WORD \<Rightarrow> WORD \<Rightarrow> kern \<Rightarrow> (outcome \<times> kern) option" where
  "Y_setaff Wptr return_address affinity s =
     (let affinity = (if affinity \<noteq> 0 \<and> affinity AND enabled_threads s = 0 then 0 else affinity) in
      if affinity \<noteq> PAffinity (priofinity s) then
        take_priofinity Wptr return_address (BuildPriofinity affinity (PPriority (priofinity s))) s
      else Some (Return, s))"

definition Y_setpri :: "WORD \<Rightarrow> WORD \<Rightarrow> WORD \<Rightarrow> kern \<Rightarrow> (outcome \<times> kern) option" where
  "Y_setpri Wptr return_address priority s =
     (let priority = (if sint priority < 0 then 0 else if sint priority \<ge> int MAX_PRIORITY_LEVELS then 31 else priority) in
      if priority \<noteq> PPriority (priofinity s) then
        take_priofinity Wptr return_address (BuildPriofinity (PAffinity (priofinity s)) priority) s
      else Some (Return, s))"

section \<open>Channels\<close>

text \<open>
  A message of one, four or eight bytes is read as a whole before it is written; others are copied byte by
  byte upwards (\<^verbatim>\<open>rep movsb\<close>).
\<close>

definition move_scalar :: "nat \<Rightarrow> WORD \<Rightarrow> WORD \<Rightarrow> (WORD \<Rightarrow> BYTE) \<Rightarrow> WORD \<Rightarrow> BYTE" where
  "move_scalar n src dst m = (\<lambda>a. if unat (a - dst) < n then m (src + (a - dst)) else m a)"

fun xmemcpy :: "nat \<Rightarrow> WORD \<Rightarrow> WORD \<Rightarrow> (WORD \<Rightarrow> BYTE) \<Rightarrow> WORD \<Rightarrow> BYTE" where
  "xmemcpy 0 src dst m = m"
| "xmemcpy (Suc n) src dst m = xmemcpy n (src + 1) (dst + 1) (m(dst := m src))"

definition kernel_chan_io_static :: "WORD \<Rightarrow> WORD \<Rightarrow> WORD \<Rightarrow> kern \<Rightarrow> kern" where
  "kernel_chan_io_static src dst count s =
     s\<lparr>kbytes := (if count = 1 \<or> count = 4 \<or> count = 8 then move_scalar (unat count) src dst (kbytes s)
       else xmemcpy (unat count) src dst (kbytes s))\<rparr>"

abbreviation (input) CIO_INPUT :: WORD where "CIO_INPUT \<equiv> 1"
abbreviation (input) CIO_OUTPUT :: WORD where "CIO_OUTPUT \<equiv> 2"
abbreviation (input) CIO_EXTENDED :: WORD where "CIO_EXTENDED \<equiv> 0x10"

text \<open>
  The first process at a channel leaves its workspace there, the second does the copying. A channel that a
  process waits for in an alternation holds its workspace with the lowest bit set. Calls that move mobiles are not in
  the model, so no flag \<^verbatim>\<open>CIO_MOBILE\<close>.
\<close>

definition kernel_chan_io ::
    "WORD \<Rightarrow> WORD \<Rightarrow> WORD \<Rightarrow> WORD \<Rightarrow> WORD \<Rightarrow> kern \<Rightarrow> (outcome \<times> kern) option" where
  "kernel_chan_io flags Wptr channel_address pointer count s = do {
     temp \<leftarrow> ld channel_address 0 s;
     if temp = NotProcess_p \<or> temp AND 1 \<noteq> 0 then do {
       s \<leftarrow> st Wptr Pointer pointer s;
       s \<leftarrow> save_priofinity Wptr s;
       s \<leftarrow> st channel_address 0 Wptr s;
       s \<leftarrow> (if temp = NotProcess_p then Some s else trigger_alt_guard temp s);
       Some (Schedule, s) }
     else do {
       s \<leftarrow> (if flags AND CIO_EXTENDED = 0 then st channel_address 0 NotProcess_p s else Some s);
       other \<leftarrow> ld temp Pointer s;
       s \<leftarrow> Some (if flags AND CIO_INPUT \<noteq> 0 then kernel_chan_io_static other pointer count s
         else kernel_chan_io_static pointer other count s);
       if flags AND CIO_EXTENDED = 0 then reschedule_point Wptr temp s
       else Some (Resume Wptr, s) } }"

text \<open>The calls the macros \<^verbatim>\<open>BUILD_CHANNEL_IO\<close> and \<^verbatim>\<open>BUILD_CHANNEL_COUNTED_IO\<close> make.\<close>

definition channel_io ::
    "WORD \<Rightarrow> WORD \<Rightarrow> WORD \<Rightarrow> WORD \<Rightarrow> WORD \<Rightarrow> WORD \<Rightarrow> kern \<Rightarrow> (outcome \<times> kern) option" where
  "channel_io flags count Wptr return_address channel_address pointer s = do {
     s \<leftarrow> save_return Wptr return_address s;
     kernel_chan_io flags Wptr channel_address pointer count s }"

definition Y_in8 :: "WORD \<Rightarrow> WORD \<Rightarrow> WORD \<Rightarrow> WORD \<Rightarrow> kern \<Rightarrow> (outcome \<times> kern) option" where
  "Y_in8 = channel_io CIO_INPUT 1"

definition Y_in32 :: "WORD \<Rightarrow> WORD \<Rightarrow> WORD \<Rightarrow> WORD \<Rightarrow> kern \<Rightarrow> (outcome \<times> kern) option" where
  "Y_in32 = channel_io CIO_INPUT 4"

definition Y_out8 :: "WORD \<Rightarrow> WORD \<Rightarrow> WORD \<Rightarrow> WORD \<Rightarrow> kern \<Rightarrow> (outcome \<times> kern) option" where
  "Y_out8 = channel_io CIO_OUTPUT 1"

definition Y_out32 :: "WORD \<Rightarrow> WORD \<Rightarrow> WORD \<Rightarrow> WORD \<Rightarrow> kern \<Rightarrow> (outcome \<times> kern) option" where
  "Y_out32 = channel_io CIO_OUTPUT 4"

definition Y_in :: "WORD \<Rightarrow> WORD \<Rightarrow> WORD \<Rightarrow> WORD \<Rightarrow> WORD \<Rightarrow> kern \<Rightarrow> (outcome \<times> kern) option" where
  "Y_in Wptr return_address count = channel_io CIO_INPUT count Wptr return_address"

definition Y_out :: "WORD \<Rightarrow> WORD \<Rightarrow> WORD \<Rightarrow> WORD \<Rightarrow> WORD \<Rightarrow> kern \<Rightarrow> (outcome \<times> kern) option" where
  "Y_out Wptr return_address count = channel_io CIO_OUTPUT count Wptr return_address"

definition Y_xin :: "WORD \<Rightarrow> WORD \<Rightarrow> WORD \<Rightarrow> WORD \<Rightarrow> WORD \<Rightarrow> kern \<Rightarrow> (outcome \<times> kern) option" where
  "Y_xin Wptr return_address count = channel_io (CIO_EXTENDED OR CIO_INPUT) count Wptr return_address"

text \<open>The value goes out from the word at the workspace pointer, as a word of the workspace and as bytes.\<close>

definition Y_outbyte :: "WORD \<Rightarrow> WORD \<Rightarrow> WORD \<Rightarrow> WORD \<Rightarrow> kern \<Rightarrow> (outcome \<times> kern) option" where
  "Y_outbyte Wptr return_address val channel_address s = do {
     s \<leftarrow> save_return Wptr return_address s;
     w \<leftarrow> ld Wptr Temp s;
     s \<leftarrow> st Wptr Temp (w AND NOT 0xff OR val AND 0xff) s;
     kernel_chan_io CIO_OUTPUT Wptr channel_address Wptr 1 (s\<lparr>kbytes := (kbytes s)(Wptr := ucast val)\<rparr>) }"

definition Y_outword :: "WORD \<Rightarrow> WORD \<Rightarrow> WORD \<Rightarrow> WORD \<Rightarrow> kern \<Rightarrow> (outcome \<times> kern) option" where
  "Y_outword Wptr return_address val channel_address s = do {
     s \<leftarrow> save_return Wptr return_address s;
     s \<leftarrow> st Wptr Temp val s;
     kernel_chan_io CIO_OUTPUT Wptr channel_address Wptr 4 (s\<lparr>kbytes := (\<lambda>a.
       if unat (a - Wptr) < 4 then ucast (drop_bit (8 * unat (a - Wptr)) val) else kbytes s a)\<rparr>) }"

text \<open>Extended input: the partner stays in the channel until \<open>X_xend\<close>.\<close>

definition Y_xable :: "WORD \<Rightarrow> WORD \<Rightarrow> WORD \<Rightarrow> kern \<Rightarrow> (outcome \<times> kern) option" where
  "Y_xable Wptr return_address channel_address s = do {
     temp \<leftarrow> ld channel_address 0 s;
     if temp = NotProcess_p \<or> temp AND 1 \<noteq> 0 then do {
       s \<leftarrow> st Wptr State (ALT_WAITING OR 1) s;
       s \<leftarrow> save_priofinity Wptr s;
       s \<leftarrow> save_return Wptr return_address s;
       s \<leftarrow> st channel_address 0 (Wptr OR 1) s;
       s \<leftarrow> (if temp = NotProcess_p then Some s else trigger_alt_guard temp s);
       Some (Schedule, s) }
     else Some (Return, s) }"

definition X_xend :: "WORD \<Rightarrow> kern \<Rightarrow> (outcome \<times> kern) option" where
  "X_xend channel_address s = do {
     ptr \<leftarrow> ld channel_address 0 s;
     s \<leftarrow> st channel_address 0 NotProcess_p s;
     s \<leftarrow> enqueue_process ptr s;
     Some (Return, s) }"

section \<open>Timers\<close>

definition X_ldtimer :: "kern \<Rightarrow> (outcome \<times> kern) option" where
  "X_ldtimer s = (let (now, s) = Time_GetTime s in Some (Value now, s))"

definition Y_tin :: "WORD \<Rightarrow> WORD \<Rightarrow> WORD \<Rightarrow> kern \<Rightarrow> (outcome \<times> kern) option" where
  "Y_tin Wptr return_address wait_time s = (let (now, s) = Time_GetTime s in
     if \<not> Time_AFTER now wait_time then do {
       s \<leftarrow> save_priofinity Wptr s;
       s \<leftarrow> save_return Wptr return_address s;
       s \<leftarrow> st Wptr Time_f (wait_time + 1) s;
       (_, s) \<leftarrow> add_to_timer_queue Wptr (wait_time + 1) False s;
       Some (Schedule, s) }
     else Some (Return, s))"

definition Y_fasttin :: "WORD \<Rightarrow> WORD \<Rightarrow> WORD \<Rightarrow> kern \<Rightarrow> (outcome \<times> kern) option" where
  "Y_fasttin Wptr return_address wait_time s = do {
     s \<leftarrow> save_priofinity Wptr s;
     s \<leftarrow> save_return Wptr return_address s;
     (_, s) \<leftarrow> add_to_timer_queue Wptr wait_time False s;
     Some (Schedule, s) }"

section \<open>Semaphores\<close>

text \<open>
  A semaphore is free when its back pointer is one; else it holds the queue of those that wait. When the queue cannot
  be taken from, the lock is given up, and the retry finds what was just read.
\<close>

definition sem_init :: "WORD \<Rightarrow> kern \<Rightarrow> kern option" where
  "sem_init sem s = do {
     s \<leftarrow> st sem S_fptr NotProcess_p s;
     st sem S_bptr (NotProcess_p OR 1) s }"

definition sem_dequeue :: "WORD \<Rightarrow> kern \<Rightarrow> (WORD \<times> kern) option" where
  "sem_dequeue sem s = do {
     fptr \<leftarrow> ld sem S_fptr s;
     bptr \<leftarrow> ld sem S_bptr s;
     if fptr \<noteq> NotProcess_p then do {
       link \<leftarrow> ld fptr Link s;
       if bptr = fptr then do {
         s \<leftarrow> st sem S_fptr NotProcess_p s;
         s \<leftarrow> st sem S_bptr NotProcess_p s;
         Some (fptr, s) }
       else if link \<noteq> NotProcess_p then do {
         s \<leftarrow> st sem S_fptr link s;
         Some (fptr, s) }
       else do {
         s \<leftarrow> st sem S_bptr (bptr OR 1) s;
         Some (NotProcess_p, s) } }
     else do {
       s \<leftarrow> st sem S_bptr (bptr OR 1) s;
       Some (NotProcess_p, s) } }"

definition wake_next :: "WORD \<Rightarrow> kern \<Rightarrow> kern option" where
  "wake_next sem s = do {
     (ptr, s) \<leftarrow> sem_dequeue sem s;
     if ptr \<noteq> NotProcess_p then enqueue_process ptr s else Some s }"

definition sem_claim :: "WORD \<Rightarrow> WORD \<Rightarrow> WORD \<Rightarrow> kern \<Rightarrow> (outcome \<times> kern) option" where
  "sem_claim Wptr return_address sem s = do {
     val \<leftarrow> ld sem S_bptr s;
     if val = NotProcess_p OR 1 then do {
       s \<leftarrow> st sem S_bptr NotProcess_p s;
       Some (Return, s) }
     else do {
       s \<leftarrow> save_priofinity Wptr s;
       s \<leftarrow> st Wptr Link NotProcess_p s;
       s \<leftarrow> save_return Wptr return_address s;
       s \<leftarrow> st sem S_bptr Wptr s;
       s \<leftarrow> (if val AND NOT 1 = NotProcess_p then st sem S_fptr Wptr s
             else st (val AND NOT 1) Link Wptr s);
       back \<leftarrow> ld sem S_bptr s;
       s \<leftarrow> (if val AND 1 \<noteq> 0 then wake_next sem s
             else if back AND 1 \<noteq> 0 then do {
               s \<leftarrow> st sem S_bptr (back AND NOT 1) s;
               wake_next sem s }
             else Some s);
       Some (Schedule, s) } }"

definition sem_release :: "WORD \<Rightarrow> kern \<Rightarrow> kern option" where
  "sem_release sem s = do {
     back \<leftarrow> ld sem S_bptr s;
     if back = NotProcess_p then st sem S_bptr (NotProcess_p OR 1) s
     else wake_next sem s }"

definition Y_sem_claim :: "WORD \<Rightarrow> WORD \<Rightarrow> WORD \<Rightarrow> kern \<Rightarrow> (outcome \<times> kern) option" where
  "Y_sem_claim Wptr return_address sem s = sem_claim Wptr return_address sem s"

definition X_sem_release :: "WORD \<Rightarrow> kern \<Rightarrow> (outcome \<times> kern) option" where
  "X_sem_release sem s = do { s \<leftarrow> sem_release sem s; Some (Return, s) }"

definition X_sem_init :: "WORD \<Rightarrow> kern \<Rightarrow> (outcome \<times> kern) option" where
  "X_sem_init sem s = do { s \<leftarrow> sem_init sem s; Some (Return, s) }"

section \<open>Barriers of mobile processes\<close>

abbreviation (input) MB_enrolled :: int where "MB_enrolled \<equiv> 0"
abbreviation (input) MB_state :: int where "MB_state \<equiv> 1"
abbreviation (input) MB_fptr :: int where "MB_fptr \<equiv> 2"
abbreviation (input) MB_bptr :: int where "MB_bptr \<equiv> 3"
abbreviation (input) MPROC_BAR_PHASE :: WORD where "MPROC_BAR_PHASE \<equiv> 0x80000000"
abbreviation (input) MPROC_BAR_COUNT :: WORD where "MPROC_BAR_COUNT \<equiv> 0x7fffffff"

definition mproc_bar_init :: "WORD \<Rightarrow> WORD \<Rightarrow> kern \<Rightarrow> kern option" where
  "mproc_bar_init bar initial_count s = do {
     s \<leftarrow> st bar MB_enrolled initial_count s;
     s \<leftarrow> st bar MB_state (initial_count - 1) s;
     s \<leftarrow> st bar MB_fptr NotProcess_p s;
     st bar MB_bptr NotProcess_p s }"

partial_function (option) wake_all :: "WORD \<Rightarrow> kern \<Rightarrow> kern option" where
  "wake_all ws s =
     (if ws \<noteq> NotProcess_p then do {
        nxt \<leftarrow> ld ws Link s;
        s \<leftarrow> enqueue_process ws s;
        wake_all nxt s }
      else Some s)"

definition mproc_bar_complete :: "WORD \<Rightarrow> kern \<Rightarrow> kern option" where
  "mproc_bar_complete bar s = do {
     enrolled \<leftarrow> ld bar MB_enrolled s;
     ws \<leftarrow> ld bar MB_fptr s;
     s \<leftarrow> st bar MB_state (enrolled - 1) s;
     s \<leftarrow> st bar MB_fptr NotProcess_p s;
     s \<leftarrow> st bar MB_bptr NotProcess_p s;
     wake_all ws s }"

definition mproc_bar_enroll :: "WORD \<Rightarrow> WORD \<Rightarrow> kern \<Rightarrow> kern option" where
  "mproc_bar_enroll bar count s = do {
     n \<leftarrow> ld bar MB_enrolled s;
     s \<leftarrow> st bar MB_enrolled (n + count) s;
     n \<leftarrow> ld bar MB_state s;
     st bar MB_state (n + count) s }"

text \<open>A resignation that finds the barrier inconsistent ends the program.\<close>

definition mproc_bar_resign :: "WORD \<Rightarrow> WORD \<Rightarrow> kern \<Rightarrow> kern option" where
  "mproc_bar_resign bar count s = do {
     n \<leftarrow> ld bar MB_enrolled s;
     s \<leftarrow> st bar MB_enrolled (n - count) s;
     state \<leftarrow> ld bar MB_state s;
     if state AND MPROC_BAR_COUNT < count then do {
       Wptr \<leftarrow> ld bar MB_fptr s;
       if state AND MPROC_BAR_PHASE \<noteq> 0 \<or> Wptr = NotProcess_p then None
       else do {
         s \<leftarrow> st bar MB_state MPROC_BAR_PHASE s;
         s \<leftarrow> st Wptr Temp 1 s;
         enqueue_process Wptr s } }
     else st bar MB_state (state - count) s }"

definition mproc_bar_sync :: "WORD \<Rightarrow> WORD \<Rightarrow> kern \<Rightarrow> (outcome \<times> kern) option" where
  "mproc_bar_sync bar Wptr s = do {
     state \<leftarrow> ld bar MB_state s;
     if state AND MPROC_BAR_COUNT = 0 then do {
       s \<leftarrow> (if state AND MPROC_BAR_PHASE = 0 then do {
               s \<leftarrow> st bar MB_state MPROC_BAR_PHASE s;
               st Wptr Temp 1 s }
             else mproc_bar_complete bar s);
       Some (Resume Wptr, s) }
     else do {
       s \<leftarrow> save_priofinity Wptr s;
       s \<leftarrow> st Wptr Link NotProcess_p s;
       s \<leftarrow> st Wptr Temp 0 s;
       bptr \<leftarrow> ld bar MB_bptr s;
       s \<leftarrow> st bar MB_bptr Wptr s;
       s \<leftarrow> (if bptr = NotProcess_p then st bar MB_fptr Wptr s else st bptr Link Wptr s);
       s \<leftarrow> st bar MB_state (state - 1) s;
       Some (Schedule, s) } }"

end
