(* ===== verification/Ccsp_Alt.thy ===== *)
theory Ccsp_Alt
  imports Ccsp_Calls
begin

text \<open>
  Alternation in the native kernel: the calls of \<^verbatim>\<open>sched.c\<close> that start an alternation, enable its guards, wait,
  disable the guards and end it. The state word of the process has three flags above a count: one for
  the process itself and one for each guard that still refers to it.
\<close>

section \<open>Start, wait and end\<close>

definition X_alt :: "WORD \<Rightarrow> kern \<Rightarrow> (outcome \<times> kern) option" where
  "X_alt Wptr s = do {
     s \<leftarrow> st Wptr State (ALT_ENABLING OR ALT_NOT_READY OR 1) s;
     Some (Return, s) }"

definition X_talt :: "WORD \<Rightarrow> kern \<Rightarrow> (outcome \<times> kern) option" where
  "X_talt Wptr s = do {
     s \<leftarrow> st Wptr State (ALT_ENABLING OR ALT_NOT_READY OR 1) s;
     s \<leftarrow> st Wptr TLink TimeNotSet_p s;
     Some (Return, s) }"

definition kernel_altend :: "WORD \<Rightarrow> WORD \<Rightarrow> bool \<Rightarrow> kern \<Rightarrow> (outcome \<times> kern) option" where
  "kernel_altend Wptr return_address jump s = do {
     state \<leftarrow> ld Wptr State s;
     temp \<leftarrow> ld Wptr Temp s;
     s \<leftarrow> save_return Wptr (if jump then return_address + temp else return_address) s;
     if state \<noteq> 1 then do {
       s \<leftarrow> save_priofinity Wptr s;
       s \<leftarrow> st Wptr State (state - 1) s;
       Some (if state - 1 \<noteq> 0 then Schedule else Resume Wptr, s) }
     else Some (Resume Wptr, s) }"

definition Y_altend :: "WORD \<Rightarrow> WORD \<Rightarrow> kern \<Rightarrow> (outcome \<times> kern) option" where
  "Y_altend Wptr return_address s = kernel_altend Wptr return_address True s"

definition Y_caltend :: "WORD \<Rightarrow> WORD \<Rightarrow> kern \<Rightarrow> (outcome \<times> kern) option" where
  "Y_caltend Wptr return_address s = kernel_altend Wptr return_address False s"

definition Y_altwt :: "WORD \<Rightarrow> WORD \<Rightarrow> kern \<Rightarrow> (outcome \<times> kern) option" where
  "Y_altwt Wptr return_address s = do {
     s \<leftarrow> st Wptr Temp NoneSelected_o s;
     state \<leftarrow> ld Wptr State s;
     if state AND ALT_NOT_READY \<noteq> 0 then do {
       s \<leftarrow> save_priofinity Wptr s;
       s \<leftarrow> save_return Wptr return_address s;
       s \<leftarrow> st Wptr State ((state OR ALT_WAITING) AND NOT (ALT_ENABLING OR ALT_NOT_READY)) s;
       Some (Schedule, s) }
     else do {
       s \<leftarrow> st Wptr State (unset_bit ALT_ENABLING_BIT state) s;
       Some (Return, s) } }"

definition Y_taltwt :: "WORD \<Rightarrow> WORD \<Rightarrow> kern \<Rightarrow> (outcome \<times> kern) option" where
  "Y_taltwt Wptr return_address s = do {
     s \<leftarrow> st Wptr Temp NoneSelected_o s;
     (now, s) \<leftarrow> Some (Time_GetTime s);
     state \<leftarrow> ld Wptr State s;
     tlink \<leftarrow> ld Wptr TLink s;
     t \<leftarrow> ld Wptr Time_f s;
     if state AND ALT_NOT_READY \<noteq> 0 \<and> \<not> (tlink = TimeSet_p \<and> \<not> Time_AFTER t now) then do {
       nstate \<leftarrow> Some ((state OR ALT_WAITING) AND NOT (ALT_ENABLING OR ALT_NOT_READY));
       s \<leftarrow> save_priofinity Wptr s;
       s \<leftarrow> save_return Wptr return_address s;
       if tlink = TimeSet_p then do {
         (tn, s) \<leftarrow> add_to_timer_queue Wptr t True s;
         s \<leftarrow> st Wptr TLink tn s;
         s \<leftarrow> st Wptr State (nstate + 1) s;
         Some (Schedule, s) }
       else do {
         s \<leftarrow> st Wptr State nstate s;
         Some (Schedule, s) } }
     else do {
       s \<leftarrow> st Wptr Time_f now s;
       s \<leftarrow> st Wptr State (state AND NOT (ALT_NOT_READY OR ALT_ENABLING)) s;
       Some (Return, s) } }"

section \<open>Enabling guards\<close>

text \<open>
  A guard that is ready either sends the process on at once (\<open>jump\<close>: \<open>Inl\<close>), or is noted in the state, and the
  result says that it was ready.
\<close>

definition note_ready :: "WORD \<Rightarrow> WORD \<Rightarrow> bool \<Rightarrow> bool \<Rightarrow> kern \<Rightarrow> ((outcome + bool) \<times> kern) option" where
  "note_ready Wptr return_address jump set_address s = do {
     state \<leftarrow> ld Wptr State s;
     if jump then do {
       s \<leftarrow> st Wptr State (state AND NOT (ALT_NOT_READY OR ALT_ENABLING)) s;
       s \<leftarrow> save_return Wptr return_address s;
       Some (Inl (Resume Wptr), s) }
     else if state AND ALT_NOT_READY \<noteq> 0 then do {
       s \<leftarrow> st Wptr State (state AND NOT (ALT_NOT_READY OR ALT_ENABLING)) s;
       s \<leftarrow> (if set_address then st Wptr Temp return_address s else Some s);
       Some (Inr True, s) }
     else Some (Inr True, s) }"

definition kernel_enbc :: "WORD \<Rightarrow> WORD \<Rightarrow> WORD \<Rightarrow> bool \<Rightarrow> bool \<Rightarrow> kern \<Rightarrow> ((outcome + bool) \<times> kern) option" where
  "kernel_enbc Wptr return_address channel_address jump set_address s = do {
     temp \<leftarrow> ld channel_address 0 s;
     if temp = NotProcess_p then do {
       s \<leftarrow> st channel_address 0 (Wptr OR 1) s;
       state \<leftarrow> ld Wptr State s;
       s \<leftarrow> st Wptr State (state + 1) s;
       Some (Inr False, s) }
     else if temp \<noteq> Wptr OR 1 then note_ready Wptr return_address jump set_address s
     else Some (Inr False, s) }"

definition leave_or :: "outcome \<Rightarrow> (outcome + bool) \<times> kern \<Rightarrow> (outcome \<times> kern) option" where
  "leave_or r x = (case x of (Inl r', s) \<Rightarrow> Some (r', s) | (Inr _, s) \<Rightarrow> Some (r, s))"

definition answer :: "(outcome + bool) \<times> kern \<Rightarrow> (outcome \<times> kern) option" where
  "answer x = (case x of (Inl r', s) \<Rightarrow> Some (r', s) | (Inr b, s) \<Rightarrow> Some (Value (of_bool b), s))"

definition X_enbc :: "WORD \<Rightarrow> WORD \<Rightarrow> WORD \<Rightarrow> WORD \<Rightarrow> kern \<Rightarrow> (outcome \<times> kern) option" where
  "X_enbc Wptr return_address guard channel_address s =
     (if guard = 0 then Some (Value 0, s)
      else Option.bind (kernel_enbc Wptr return_address channel_address False False s) (leave_or (Value 1)))"

definition Y_enbc2 :: "WORD \<Rightarrow> WORD \<Rightarrow> WORD \<Rightarrow> kern \<Rightarrow> (outcome \<times> kern) option" where
  "Y_enbc2 Wptr process_address channel_address s =
     Option.bind (kernel_enbc Wptr process_address channel_address True False s) (leave_or Return)"

definition Y_enbc3 :: "WORD \<Rightarrow> WORD \<Rightarrow> WORD \<Rightarrow> WORD \<Rightarrow> kern \<Rightarrow> (outcome \<times> kern) option" where
  "Y_enbc3 Wptr process_address guard channel_address s =
     (if guard = 0 then Some (Value 0, s)
      else Option.bind (kernel_enbc Wptr process_address channel_address True False s) (leave_or (Value 1)))"

definition X_cenbc :: "WORD \<Rightarrow> WORD \<Rightarrow> WORD \<Rightarrow> kern \<Rightarrow> (outcome \<times> kern) option" where
  "X_cenbc Wptr ident channel_address s = Option.bind (kernel_enbc Wptr ident channel_address False True s) answer"

definition kernel_enbs :: "WORD \<Rightarrow> WORD \<Rightarrow> bool \<Rightarrow> bool \<Rightarrow> kern \<Rightarrow> kern option" where
  "kernel_enbs Wptr return_address jump set_address s = do {
     state \<leftarrow> ld Wptr State s;
     if jump then st Wptr State (state AND NOT (ALT_NOT_READY OR ALT_ENABLING)) s
     else if state AND ALT_NOT_READY \<noteq> 0 then do {
       s \<leftarrow> st Wptr State (state AND NOT (ALT_NOT_READY OR ALT_ENABLING)) s;
       if set_address then st Wptr Temp return_address s else Some s }
     else Some s }"

definition X_enbs :: "WORD \<Rightarrow> WORD \<Rightarrow> kern \<Rightarrow> (outcome \<times> kern) option" where
  "X_enbs Wptr guard s =
     (if guard = 0 then Some (Value 0, s)
      else do { s \<leftarrow> kernel_enbs Wptr 0 False False s; Some (Value 1, s) })"

definition Y_enbs2 :: "WORD \<Rightarrow> WORD \<Rightarrow> kern \<Rightarrow> (outcome \<times> kern) option" where
  "Y_enbs2 Wptr process_address s = do { s \<leftarrow> kernel_enbs Wptr 0 True False s; Some (Goto process_address, s) }"

definition Y_enbs3 :: "WORD \<Rightarrow> WORD \<Rightarrow> WORD \<Rightarrow> kern \<Rightarrow> (outcome \<times> kern) option" where
  "Y_enbs3 Wptr process_address guard s =
     (if guard = 0 then Some (Value 0, s)
      else do { s \<leftarrow> kernel_enbs Wptr 0 True False s; Some (GotoValue process_address 1, s) })"

definition X_cenbs :: "WORD \<Rightarrow> WORD \<Rightarrow> kern \<Rightarrow> (outcome \<times> kern) option" where
  "X_cenbs Wptr ident s = do { s \<leftarrow> kernel_enbs Wptr ident False True s; Some (Value 1, s) }"

definition kernel_enbt :: "WORD \<Rightarrow> WORD \<Rightarrow> WORD \<Rightarrow> bool \<Rightarrow> bool \<Rightarrow> bool \<Rightarrow> kern \<Rightarrow> ((outcome + bool) \<times> kern) option" where
  "kernel_enbt Wptr return_address timeout jump check set_address s = do {
     (now, s) \<leftarrow> Some (if jump \<or> check then Time_GetTime s else (0, s));
     if (jump \<or> check) \<and> \<not> Time_AFTER timeout now then do {
       s \<leftarrow> st Wptr TLink TimeSet_p s;
       s \<leftarrow> st Wptr Time_f now s;
       note_ready Wptr return_address jump set_address s }
     else do {
       tlink \<leftarrow> ld Wptr TLink s;
       t \<leftarrow> ld Wptr Time_f s;
       s \<leftarrow> (if tlink = TimeNotSet_p then do {
               s \<leftarrow> st Wptr Time_f timeout s;
               st Wptr TLink TimeSet_p s }
             else if Time_AFTER t timeout then st Wptr Time_f timeout s
             else Some s);
       Some (Inr False, s) } }"

definition X_enbt :: "WORD \<Rightarrow> WORD \<Rightarrow> WORD \<Rightarrow> kern \<Rightarrow> (outcome \<times> kern) option" where
  "X_enbt Wptr guard timeout s =
     (if guard = 0 then Some (Value 0, s)
      else Option.bind (kernel_enbt Wptr 0 timeout False False False s) (leave_or (Value 1)))"

definition Y_enbt2 :: "WORD \<Rightarrow> WORD \<Rightarrow> WORD \<Rightarrow> kern \<Rightarrow> (outcome \<times> kern) option" where
  "Y_enbt2 Wptr process_address timeout s =
     Option.bind (kernel_enbt Wptr process_address timeout True False False s) (leave_or Return)"

definition Y_enbt3 :: "WORD \<Rightarrow> WORD \<Rightarrow> WORD \<Rightarrow> WORD \<Rightarrow> kern \<Rightarrow> (outcome \<times> kern) option" where
  "Y_enbt3 Wptr process_address guard timeout s =
     (if guard = 0 then Some (Value 0, s)
      else Option.bind (kernel_enbt Wptr process_address timeout True False False s) (leave_or (Value 1)))"

definition X_cenbt :: "WORD \<Rightarrow> WORD \<Rightarrow> WORD \<Rightarrow> kern \<Rightarrow> (outcome \<times> kern) option" where
  "X_cenbt Wptr ident timeout s = Option.bind (kernel_enbt Wptr ident timeout False True True s) answer"

section \<open>Disabling guards\<close>

text \<open>The result says that the guard is ready; the address of the branch to take is put into the first word of the workspace.\<close>

definition none_selected :: "WORD \<Rightarrow> kern \<Rightarrow> bool option" where
  "none_selected Wptr s = do { temp \<leftarrow> ld Wptr Temp s; Some (temp = NoneSelected_o) }"

definition kernel_disc :: "WORD \<Rightarrow> WORD \<Rightarrow> WORD \<Rightarrow> bool \<Rightarrow> kern \<Rightarrow> (outcome \<times> kern) option" where
  "kernel_disc Wptr process_address channel_address set_jump s = do {
     temp \<leftarrow> ld channel_address 0 s;
     if temp = Wptr OR 1 then do {
       s \<leftarrow> st channel_address 0 NotProcess_p s;
       state \<leftarrow> ld Wptr State s;
       s \<leftarrow> st Wptr State (state - 1) s;
       Some (Value 0, s) }
     else if temp = NotProcess_p then Some (Value 0, s)
     else do {
       s \<leftarrow> (if set_jump then st Wptr Temp process_address s else Some s);
       Some (Value 1, s) } }"

definition X_disc :: "WORD \<Rightarrow> WORD \<Rightarrow> WORD \<Rightarrow> WORD \<Rightarrow> kern \<Rightarrow> (outcome \<times> kern) option" where
  "X_disc Wptr process_address guard channel_address s =
     (if guard = 0 then Some (Value 0, s)
      else do { none \<leftarrow> none_selected Wptr s; kernel_disc Wptr process_address channel_address none s })"

definition X_cdisc :: "WORD \<Rightarrow> WORD \<Rightarrow> WORD \<Rightarrow> kern \<Rightarrow> (outcome \<times> kern) option" where
  "X_cdisc Wptr ident channel_address s = do { none \<leftarrow> none_selected Wptr s; kernel_disc Wptr ident channel_address none s }"

definition X_ndisc :: "WORD \<Rightarrow> WORD \<Rightarrow> WORD \<Rightarrow> WORD \<Rightarrow> kern \<Rightarrow> (outcome \<times> kern) option" where
  "X_ndisc Wptr process_address guard channel_address s =
     (if guard = 0 then Some (Value 0, s) else kernel_disc Wptr process_address channel_address True s)"

definition X_diss :: "WORD \<Rightarrow> WORD \<Rightarrow> WORD \<Rightarrow> kern \<Rightarrow> (outcome \<times> kern) option" where
  "X_diss Wptr process_address guard s =
     (if guard = 0 then Some (Value 0, s)
      else do {
        none \<leftarrow> none_selected Wptr s;
        if none then do { s \<leftarrow> st Wptr Temp process_address s; Some (Value guard, s) }
        else Some (Value 0, s) })"

definition X_cdiss :: "WORD \<Rightarrow> WORD \<Rightarrow> kern \<Rightarrow> (outcome \<times> kern) option" where
  "X_cdiss Wptr ident s = do {
     none \<leftarrow> none_selected Wptr s;
     if none then do { s \<leftarrow> st Wptr Temp ident s; Some (Value 1, s) }
     else Some (Value 0, s) }"

definition X_ndiss :: "WORD \<Rightarrow> WORD \<Rightarrow> WORD \<Rightarrow> kern \<Rightarrow> (outcome \<times> kern) option" where
  "X_ndiss Wptr process_address guard s = do {
     s \<leftarrow> (if guard \<noteq> 0 then st Wptr Temp process_address s else Some s);
     Some (Value guard, s) }"

definition kernel_dist :: "WORD \<Rightarrow> WORD \<Rightarrow> WORD \<Rightarrow> bool \<Rightarrow> kern \<Rightarrow> (outcome \<times> kern) option" where
  "kernel_dist Wptr process_address timeout set_jump s = do {
     tlink \<leftarrow> ld Wptr TLink s;
     if tlink = TimeSet_p then do {
       t \<leftarrow> ld Wptr Time_f s;
       if \<not> Time_AFTER timeout t then do {
         s \<leftarrow> (if set_jump then st Wptr Temp process_address s else Some s);
         Some (Value 1, s) }
       else Some (Value 0, s) }
     else if tlink \<noteq> TimeNotSet_p then do {
       s \<leftarrow> st Wptr TLink TimeNotSet_p s;
       (fired, s) \<leftarrow> remove_from_timer_queue tlink Wptr s;
       (fired, s) \<leftarrow> (if fired then do {
           now \<leftarrow> ld tlink TN_time s;
           s \<leftarrow> st Wptr Time_f now s;
           if Time_AFTER timeout now then do {
             s \<leftarrow> st Wptr TLink TimeSet_p s;
             Some (False, s) }
           else do {
             s \<leftarrow> (if set_jump then st Wptr Temp process_address s else Some s);
             Some (True, s) } }
         else do {
           state \<leftarrow> ld Wptr State s;
           s \<leftarrow> st Wptr State (state - 1) s;
           Some (False, s) });
       s \<leftarrow> release_tqnode tlink s;
       Some (Value (of_bool fired), s) }
     else Some (Value 0, s) }"

definition X_dist :: "WORD \<Rightarrow> WORD \<Rightarrow> WORD \<Rightarrow> WORD \<Rightarrow> kern \<Rightarrow> (outcome \<times> kern) option" where
  "X_dist Wptr process_address guard timeout s =
     (if guard = 0 then Some (Value 0, s)
      else do { none \<leftarrow> none_selected Wptr s; kernel_dist Wptr process_address timeout none s })"

definition X_cdist :: "WORD \<Rightarrow> WORD \<Rightarrow> WORD \<Rightarrow> kern \<Rightarrow> (outcome \<times> kern) option" where
  "X_cdist Wptr ident timeout s = do { none \<leftarrow> none_selected Wptr s; kernel_dist Wptr ident timeout none s }"

definition X_ndist :: "WORD \<Rightarrow> WORD \<Rightarrow> WORD \<Rightarrow> WORD \<Rightarrow> kern \<Rightarrow> (outcome \<times> kern) option" where
  "X_ndist Wptr process_address guard timeout s =
     (if guard = 0 then Some (Value 0, s) else kernel_dist Wptr process_address timeout True s)"

end
