(* ===== verification/Ccsp_Comm.thy ===== *)
theory Ccsp_Comm
  imports Ccsp_Boot Ccsp_Calls
begin

text \<open>
  What the kernel calls do, over the abstraction of the run queues: a message gets from the process that outputs to the
  one that inputs whichever comes first, a semaphore is a queue, and the last process of a parallel construct
  wakes its parent. Channels, semaphores and workspaces are objects that are not the kernel's.
\<close>

section \<open>Writing words of processes and channels\<close>

text \<open>Words that belong to no queue do not matter to it.\<close>

definition harmless :: "ghost \<Rightarrow> kern \<Rightarrow> kern \<Rightarrow> bool" where
  "harmless g s s' \<longleftrightarrow> kwf g s' \<and> view g s' = view g s \<and> spares g s g s' \<and> curb s' = curb s \<and>
     priofinity s' = priofinity s \<and> sched_id s' = sched_id s \<and> dispatches s' = dispatches s \<and>
     (\<forall>c. foreign g s c \<longrightarrow> foreign g s' c)"

lemma harmless_refl: "kwf g s \<Longrightarrow> harmless g s s"
  by (simp add: harmless_def spares_def)

lemma foreign_put [simp]: "foreign g (put p k v s) c \<longleftrightarrow> foreign g s c"
  by (simp add: foreign_def)

lemma harmless_put: "harmless g s s' \<Longrightarrow> unconcerned g p k \<Longrightarrow> harmless g s (put p k v s')"
  using kwf_write [of g s' p k v] by (auto simp: harmless_def intro: spares_trans)

lemma unconcerned_simps [simp]:
  "unqueued g w \<Longrightarrow> k < 0 \<Longrightarrow> unconcerned g w k" "foreign g s c \<Longrightarrow> k \<ge> 0 \<Longrightarrow> unconcerned g c k"
  by (simp_all add: unconcerned_def foreign_def)

lemma harmlessD:
  assumes "harmless g s s'"
  shows "kwf g s'" "view g s' = view g s" "room k g s \<Longrightarrow> room k g s'" "curb s' = curb s" "priofinity s' = priofinity s"
    "sched_id s' = sched_id s" "foreign g s c \<Longrightarrow> foreign g s' c" "current g s' = current g s"
proof -
  show v: "view g s' = view g s" using assms by (simp add: harmless_def)
  from arg_cong [OF v, of v_current] show "current g s' = current g s" by simp
qed (use assms in \<open>auto simp: harmless_def intro: sparesD\<close>)

lemma local_to_same: "priofinity s' = priofinity s \<Longrightarrow> sched_id s' = sched_id s \<Longrightarrow> local_to s' v = local_to s v"
  by (simp add: local_to_def)

section \<open>Making two processes ready\<close>

text \<open>
  The process that was waited for goes on, unless the other one is more urgent: then that one will, and this one has
  joined those of its priority.
\<close>

definition added :: "kern \<Rightarrow> WORD \<Rightarrow> WORD \<Rightarrow> run_view \<Rightarrow> run_view" where
  "added s v w x = (if v = priofinity s then x\<lparr>v_current := v_current x @ [w]\<rparr> else push (prio v) [w] x)"

lemma enqueue_added:
  assumes h: "harmless g s s1" and w: "unqueued g w" and v: "v = kmem s1 w Priofinity" "local_to s v" and room: "room (Suc k) g s"
  obtains s' g' where "enqueue_process w s1 = Some s'" "kwf g' s'" "queues w g s1 g' s'" "room k g' s'"
    "view g' s' = added s v w (view g s)"
proof -
  note H = harmlessD [OF h]
  have "local_to s1 v" using v(2) by (simp add: local_to_def H(5,6))
  from enqueue_process_kwf [OF H(1) w v(1) this H(3) [OF room]] obtain s' g' where
    1: "enqueue_process w s1 = Some s'" "kwf g' s'" "queues w g s1 g' s'" "room k g' s'"
      "view g' s' = added s1 v w (view g s1)"
    by (auto simp: added_def)
  have "added s1 v w (view g s1) = added s v w (view g s)" by (simp only: added_def H(2,5))
  with 1 that show thesis by metis
qed

lemma reschedule_point_kwf:
  assumes wf: "kwf g s" and q: "unqueued g q" and w: "unqueued g w" "q \<noteq> w"
    and v: "v = kmem s q Priofinity" "local_to s v" and room: "room (Suc k) g s"
  defines "urgent \<equiv> PPriority v < PPriority (priofinity s)"
  shows "\<exists>s' g'. reschedule_point w q s = Some (if urgent then Schedule else Resume w, s') \<and> kwf g' s' \<and> room k g' s' \<and>
    stays g s g' s' \<and> kbytes s' = kbytes s \<and> kmem s' w Iptr = kmem s w Iptr \<and> kmem s' q Iptr = kmem s q Iptr \<and>
    (\<forall>x. x \<noteq> q \<longrightarrow> x \<noteq> w \<or> \<not> urgent \<longrightarrow> unqueued g x \<longrightarrow> unqueued g' x) \<and>
    view g' s' = (if urgent then (added s v q (view g s))\<lparr>v_current := current g s @ [w]\<rparr> else added s v q (view g s))"
proof -
  have nz: "q \<noteq> 0" "w \<noteq> 0" using q w by (simp_all add: unqueued_def)
  have fast: "reschedule_point w q s = do { s \<leftarrow> enqueue_process q s; Some (Resume w, s) }" if "\<not> urgent"
    using that nz v(1) by (auto simp: reschedule_point_def schedule_point_def enqueue_process_def enqueue_process_nopri_def urgent_def)
  obtain s1 g1 where 1: "enqueue_process q s = Some s1" "kwf g1 s1" "queues q g s g1 s1" "room k g1 s1"
    "view g1 s1 = added s v q (view g s)"
    using enqueue_process_kwf [OF wf q v room] by (auto simp: added_def)
  have c1: "calm s s1" "stays g s g1 s1" and u1: "\<forall>x. x \<noteq> q \<longrightarrow> unqueued g x \<longrightarrow> unqueued g1 x"
    using 1(3) by (auto simp: queues_def)
  show ?thesis
  proof (cases urgent)
    case False
    then show ?thesis using fast 1 c1 u1 calm_simps(7,13) [OF c1(1)] by (intro exI [of _ s1] exI [of _ g1]) auto
  next
    case True
    then have ne: "v \<noteq> priofinity s" by (auto simp: urgent_def)
    let ?s = "put w Priofinity (priofinity s1) s1"
    have w1: "unqueued g1 w" using u1 w by simp
    note W = kwf_write [OF 1(2), of w Priofinity "priofinity s1"]
    have W: "kwf g1 ?s" "view g1 ?s = view g1 s1" "room k g1 ?s"
      using W w1 sparesD [OF W(3) 1(4)] by simp_all
    obtain s2 g2 where 2: "enqueue_to_batch (curb ?s) w ?s = Some s2" "kwf g2 s2" "queues w g1 ?s g2 s2"
      "view g2 s2 = (view g1 ?s)\<lparr>v_current := current g1 ?s @ [w]\<rparr>" "spares g1 ?s g2 s2"
      using enqueue_current [OF W(1) w1] by auto
    have c2: "calm ?s s2" "stays g1 ?s g2 s2" and u2: "\<forall>x. x \<noteq> w \<longrightarrow> unqueued g1 x \<longrightarrow> unqueued g2 x"
      using 2(3) by (auto simp: queues_def)
    have cur: "current g1 ?s = current g s"
      using arg_cong [OF W(2), of v_current] arg_cong [OF 1(5), of v_current] ne by (simp add: added_def)
    have "reschedule_point w q s = Some (Schedule, s2)"
      using True ne nz v(1) 1(1) 2(1)
      by (simp add: reschedule_point_def urgent_def save_priofinity_def enqueue_process_nopri_def)
    moreover have "stays g1 s1 g1 ?s" by (simp add: stays_def foreign_def)
    then have "stays g s g2 s2" by (rule stays_trans [OF c1(2) stays_trans [OF _ c2(2)]])
    moreover have "room k g2 s2" by (rule sparesD [OF 2(5) W(3)])
    ultimately show ?thesis
      using True 2(2,4) u1 u2 W(2) 1(5) cur calm_simps(7,13) [OF c1(1)] calm_simps(7,13) [OF c2(1)]
      by (intro exI [of _ s2] exI [of _ g2]) auto
  qed
qed

section \<open>Channels\<close>

lemma and_one_iff_bit: "(v :: WORD) AND 1 = 0 \<longleftrightarrow> \<not> bit v 0"
  by (simp add: and_one_eq bit_0 even_iff_mod_2_eq_zero)

text \<open>The first process at an empty channel.\<close>

lemma chan_first:
  assumes wf: "kwf g s" and c: "foreign g s c" "c \<noteq> 0" "kmem s c 0 = 0" and w: "unqueued g w"
  obtains s' where "channel_io flags n w ra c p s = Some (Schedule, s')" "harmless g s s'"
    "kmem s' c 0 = w" "kmem s' w Pointer = p" "kmem s' w Iptr = ra" "kmem s' w Priofinity = priofinity s"
    "kbytes s' = kbytes s" "\<And>q j. q \<noteq> w \<Longrightarrow> (q, j) \<noteq> (c, 0) \<Longrightarrow> kmem s' q j = kmem s q j"
proof -
  let ?s = "put c 0 w (put w Priofinity (priofinity s) (put w Pointer p (put w Iptr ra s)))"
  have nz: "w \<noteq> 0" using w by (simp add: unqueued_def)
  have "channel_io flags n w ra c p s = Some (Schedule, ?s)"
    using nz c by (simp add: channel_io_def kernel_chan_io_def save_return_def save_priofinity_def)
  moreover have "unconcerned g c 0" using c(1) by simp
  then have "harmless g s ?s" using w by (intro harmless_put harmless_refl wf) simp_all
  ultimately show thesis by (rule that) (use c(3) in auto)
qed

lemma aligned_even:
  assumes "4 dvd unat (q :: WORD)"
  shows "\<not> bit q 0"
proof -
  have "even (unat q)" using assms by (auto elim: dvdE)
  then have "\<not> bit (unat q) 0" by (simp add: bit_0)
  then show ?thesis by (simp add: bit_unsigned_iff)
qed

lemma unqueued_even: "unqueued g q \<Longrightarrow> q AND 1 = 0"
  using aligned_even [of q] by (simp add: unqueued_def and_one_iff_bit)

text \<open>The second: the message is copied, the channel is empty again, and the partner is ready.\<close>

definition copied :: "WORD \<Rightarrow> WORD \<Rightarrow> WORD \<Rightarrow> (WORD \<Rightarrow> BYTE) \<Rightarrow> WORD \<Rightarrow> BYTE" where
  "copied n src dst m = (if n = 1 \<or> n = 4 \<or> n = 8 then move_scalar (unat n) src dst m else xmemcpy (unat n) src dst m)"

lemma kernel_chan_io_static_copied: "kernel_chan_io_static src dst n s = s\<lparr>kbytes := copied n src dst (kbytes s)\<rparr>"
  by (simp add: kernel_chan_io_static_def copied_def)

lemma kwf_bytes:
  assumes "kwf g s"
  shows "harmless g s (s\<lparr>kbytes := m\<rparr>)"
proof -
  note M = kwf_masks [OF assms, of "s\<lparr>kbytes := m\<rparr>", simplified]
  show ?thesis using M by (simp add: harmless_def foreign_def)
qed

lemma harmless_trans: "harmless g s s' \<Longrightarrow> harmless g s' s'' \<Longrightarrow> harmless g s s''"
  by (auto simp: harmless_def intro: spares_trans)

lemma chan_second:
  assumes wf: "kwf g s" and c: "foreign g s c" "c \<noteq> 0" "kmem s c 0 = q" and q: "unqueued g q"
    and w: "unqueued g w" "q \<noteq> w" and v: "v = kmem s q Priofinity" "local_to s v" and room: "room (Suc k) g s"
    and flags: "flags = CIO_INPUT \<or> flags = CIO_OUTPUT"
  defines "urgent \<equiv> PPriority v < PPriority (priofinity s)" and "other \<equiv> kmem s q Pointer"
  shows "\<exists>s' g'. channel_io flags n w ra c p s = Some (if urgent then Schedule else Resume w, s') \<and> kwf g' s' \<and> room k g' s' \<and>
    foreign g' s' c \<and> kmem s' c 0 = 0 \<and> kmem s' w Iptr = ra \<and> kmem s' q Iptr = kmem s q Iptr \<and>
    kbytes s' = (if flags = CIO_INPUT then copied n other p (kbytes s) else copied n p other (kbytes s)) \<and>
    (\<forall>x. x \<noteq> q \<longrightarrow> x \<noteq> w \<or> \<not> urgent \<longrightarrow> unqueued g x \<longrightarrow> unqueued g' x) \<and>
    view g' s' = (if urgent then (added s v q (view g s))\<lparr>v_current := current g s @ [w]\<rparr> else added s v q (view g s))"
proof -
  have nz: "q \<noteq> 0" "w \<noteq> 0" using q w by (simp_all add: unqueued_def)
  let ?s1 = "put c 0 0 (put w Iptr ra s)"
  let ?m = "if flags = CIO_INPUT then copied n other p (kbytes s) else copied n p other (kbytes s)"
  let ?s2 = "?s1\<lparr>kbytes := ?m\<rparr>"
  have "harmless g s ?s1" using c w by (intro harmless_put harmless_refl wf) simp_all
  from harmless_trans [OF this kwf_bytes] have h: "harmless g s ?s2" using harmlessD(1) [OF \<open>harmless g s ?s1\<close>] by blast
  note H = harmlessD [OF h]
  have run: "channel_io flags n w ra c p s = reschedule_point w q ?s2"
    using flags nz w(2) c unqueued_even [OF q]
    by (auto simp: channel_io_def kernel_chan_io_def save_return_def kernel_chan_io_static_copied other_def)
  have "local_to ?s2 v" using v(2) by (simp add: local_to_def)
  from reschedule_point_kwf [OF H(1) q w _ this H(3) [OF room]] v(1)
  obtain s' g' where 1: "reschedule_point w q ?s2 = Some (if urgent then Schedule else Resume w, s')" "kwf g' s'" "room k g' s'"
    "stays g ?s2 g' s'" "kbytes s' = ?m" "kmem s' w Iptr = ra" "kmem s' q Iptr = kmem s q Iptr"
    "\<forall>x. x \<noteq> q \<longrightarrow> x \<noteq> w \<or> \<not> urgent \<longrightarrow> unqueued g x \<longrightarrow> unqueued g' x"
    "view g' s' = (if urgent then (added ?s2 v q (view g ?s2))\<lparr>v_current := current g ?s2 @ [w]\<rparr> else added ?s2 v q (view g ?s2))"
    using w(2) by (auto simp: urgent_def)
  have "added ?s2 v q x = added s v q x" for x by (simp add: added_def)
  moreover have "foreign g ?s2 c" by (rule H(7) [OF c(1)])
  then have "foreign g' s' c" "kmem s' c 0 = 0" using staysD(1) [OF 1(4)] staysD(2) [OF 1(4), of c 0] by simp_all
  ultimately show ?thesis using run 1 H(2,8) by (intro exI [of _ s'] exI [of _ g']) auto
qed

section \<open>Semaphores\<close>

text \<open>
  A semaphore that is held and the processes that wait for it in the order in which they came: it meets the same contract
  as a batch, a claim that has to wait being the entry of the queue.
\<close>

definition sem_held :: "kern \<Rightarrow> WORD \<Rightarrow> WORD list \<Rightarrow> bool" where
  "sem_held s sem ws \<longleftrightarrow> sem \<noteq> 0 \<and> kmem s sem S_bptr = (if ws = [] then 0 else last ws) \<and>
     chain (\<lambda>w. kmem s w Link) (kmem s sem S_fptr) ws \<and> (\<forall>w \<in> set ws. 4 dvd unat w)"

definition sem_free :: "kern \<Rightarrow> WORD \<Rightarrow> bool" where
  "sem_free s sem \<longleftrightarrow> sem \<noteq> 0 \<and> kmem s sem S_bptr = 1 \<and> kmem s sem S_fptr = 0"

definition waiters :: "WORD list \<Rightarrow> bool" where
  "waiters ws \<longleftrightarrow> distinct ws \<and> (\<forall>w \<in> set ws. w \<noteq> 0 \<and> 4 dvd unat w)"

definition enter :: "WORD \<Rightarrow> WORD \<Rightarrow> WORD \<Rightarrow> WORD list \<Rightarrow> kern \<Rightarrow> kern" where
  "enter w ra sem ws s = (let s = put sem S_bptr w (put w Iptr ra (put w Link 0 (put w Priofinity (priofinity s) s))) in
     if ws = [] then put sem S_fptr w s else put (last ws) Link w s)"

lemma even_parts: "4 dvd unat (v :: WORD) \<Longrightarrow> v AND 1 = 0 \<and> v AND NOT 1 = v \<and> v \<noteq> 1"
proof -
  assume a: "4 dvd unat v"
  then have b: "\<not> bit v 0" by (rule aligned_even)
  then have "v AND NOT 1 = v" by (intro bit_word_eqI) (auto simp: bit_and_iff bit_not_iff bit_1_iff intro: gr0I)
  moreover have "v \<noteq> 1" using b by (auto simp: bit_1_iff)
  ultimately show ?thesis using b by (simp add: and_one_iff_bit)
qed

lemma claim_held:
  assumes s: "sem_held s sem ws" and w: "waiters (ws @ [w])"
  shows "sem_claim w ra sem s = Some (Schedule, enter w ra sem ws s)" "sem_held (enter w ra sem ws s) sem (ws @ [w])"
proof -
  have sem: "sem \<noteq> 0" and b: "kmem s sem S_bptr = (if ws = [] then 0 else last ws)"
    and ch: "chain (\<lambda>w. kmem s w Link) (kmem s sem S_fptr) ws" and al: "\<forall>w \<in> set ws. 4 dvd unat w"
    using s by (simp_all add: sem_held_def)
  have wn: "w \<noteq> 0" "4 dvd unat w" "w \<notin> set ws" "distinct ws" using w by (auto simp: waiters_def)
  note W = even_parts [OF wn(2)]
  have nz: "last ws \<noteq> 0" "last ws \<in> set ws" if "ws \<noteq> []" using that w by (auto simp: waiters_def)
  have "4 dvd unat (kmem s sem S_bptr)" using b al by (cases "ws = []") simp_all
  note V = even_parts [OF this]
  show "sem_claim w ra sem s = Some (Schedule, enter w ra sem ws s)"
    using sem wn V W b nz
    by (cases "ws = []") (simp_all add: sem_claim_def save_priofinity_def save_return_def enter_def Let_def)
  have "chain (\<lambda>w'. kmem (enter w ra sem ws s) w' Link) (kmem (enter w ra sem ws s) sem S_fptr) (ws @ [w])"
  proof (cases "ws = []")
    case True then show ?thesis using wn by (simp add: enter_def Let_def)
  next
    case False
    have "distinct (butlast ws @ [last ws])" using wn(4) False by simp
    then have "last ws \<notin> set (butlast ws)" by simp
    moreover have "w \<noteq> last ws" using nz(2) [OF False] wn(3) by auto
    ultimately have "chain (\<lambda>w'. kmem (enter w ra sem ws s) w' Link) (kmem s sem S_fptr) (ws @ [w])"
      using wn(3) False by (intro chain_snoc [OF ch False wn(1,3)]) (auto simp: enter_def Let_def dest: in_set_butlastD)
    then show ?thesis using False by (simp add: enter_def Let_def)
  qed
  then show "sem_held (enter w ra sem ws s) sem (ws @ [w])"
    using sem al wn by (simp add: sem_held_def) (simp add: enter_def Let_def)
qed

definition leave :: "WORD \<Rightarrow> WORD list \<Rightarrow> kern \<Rightarrow> kern" where
  "leave sem ws s = (if ws = [] then put sem S_bptr 0 (put sem S_fptr 0 s) else put sem S_fptr (hd ws) s)"

lemma dequeue_held:
  assumes s: "sem_held s sem (w # ws)"
  shows "sem_dequeue sem s = Some (w, leave sem ws s)" "sem_held (leave sem ws s) sem ws"
proof -
  have sem: "sem \<noteq> 0" and b: "kmem s sem S_bptr = last (w # ws)" and f: "kmem s sem S_fptr = w" "w \<noteq> 0"
    and ch: "chain (\<lambda>w. kmem s w Link) (kmem s w Link) ws" and d: "distinct (w # ws)" and al: "\<forall>w \<in> set ws. 4 dvd unat w"
    using s chain_distinct [of _ _ "w # ws"] by (auto simp: sem_held_def)
  have "kmem s sem S_bptr = w \<longleftrightarrow> ws = []" using b d by (metis distinct.simps(2) last.simps last_in_set)
  moreover have "kmem s w Link = (if ws = [] then 0 else hd ws)" "ws \<noteq> [] \<Longrightarrow> hd ws \<noteq> 0"
    using ch by (cases ws; simp)+
  ultimately show "sem_dequeue sem s = Some (w, leave sem ws s)"
    using sem f by (auto simp: sem_dequeue_def leave_def)
  show "sem_held (leave sem ws s) sem ws"
    using sem b al ch by (cases ws) (simp_all add: sem_held_def leave_def)
qed

interpretation semaphore: fifo_queue "\<lambda>w s. map_option snd (sem_claim w ra sem s)" "sem_dequeue sem"
    "\<lambda>s ws. sem_held s sem ws" waiters for ra sem
proof
  fix s ws w assume "sem_held s sem ws" "waiters (ws @ [w])"
  from claim_held [OF this] show "\<exists>s'. map_option snd (sem_claim w ra sem s) = Some s' \<and> sem_held s' sem (ws @ [w])" by simp
next
  fix s w ws assume "sem_held s sem (w # ws)"
  from dequeue_held [OF this] show "\<exists>s'. sem_dequeue sem s = Some (w, s') \<and> sem_held s' sem ws" by blast
qed (simp add: waiters_def)

text \<open>In a state of the kernel: a semaphore that is not the kernel's, and processes that no batch holds.\<close>

definition sem_at :: "ghost \<Rightarrow> kern \<Rightarrow> WORD \<Rightarrow> WORD list option \<Rightarrow> bool" where
  "sem_at g s sem q \<longleftrightarrow> foreign g s sem \<and> (case q of None \<Rightarrow> sem_free s sem
     | Some ws \<Rightarrow> sem_held s sem ws \<and> (\<forall>w \<in> set ws. unqueued g w))"

lemma sem_at_waiters: "sem_at g s sem (Some ws) \<Longrightarrow> unqueued g w \<Longrightarrow> w \<notin> set ws \<Longrightarrow> waiters (ws @ [w])"
  using chain_distinct [of _ "kmem s sem S_fptr" ws] by (auto simp: sem_at_def sem_held_def waiters_def unqueued_def)

lemma claim_free:
  assumes wf: "kwf g s" and s: "sem_at g s sem None"
  shows "\<exists>s'. sem_claim w ra sem s = Some (Return, s') \<and> harmless g s s' \<and> sem_at g s' sem (Some [])"
proof -
  let ?s = "put sem S_bptr 0 s"
  have f: "foreign g s sem" "sem \<noteq> 0" "kmem s sem S_bptr = 1" "kmem s sem S_fptr = 0"
    using s by (simp_all add: sem_at_def sem_free_def)
  then have "sem_claim w ra sem s = Some (Return, ?s)" by (simp add: sem_claim_def)
  moreover have "harmless g s ?s" using f(1) by (intro harmless_put harmless_refl wf) simp
  moreover have "sem_at g ?s sem (Some [])" using f by (simp add: sem_at_def sem_held_def)
  ultimately show ?thesis by blast
qed

lemma claim_waits:
  assumes wf: "kwf g s" and s: "sem_at g s sem (Some ws)" and w: "unqueued g w" "w \<notin> set ws"
  shows "\<exists>s'. sem_claim w ra sem s = Some (Schedule, s') \<and> harmless g s s' \<and> sem_at g s' sem (Some (ws @ [w])) \<and>
    kmem s' w Iptr = ra \<and> kmem s' w Priofinity = priofinity s"
proof -
  have f: "foreign g s sem" "sem_held s sem ws" "\<forall>w \<in> set ws. unqueued g w" using s by (simp_all add: sem_at_def)
  note C = claim_held [OF f(2) sem_at_waiters [OF s w]]
  have "ws \<noteq> [] \<Longrightarrow> unqueued g (last ws)" using f(3) by simp
  then have "harmless g s (enter w ra sem ws s)"
    using f(1) w(1) by (auto simp: enter_def Let_def intro!: harmless_put harmless_refl wf)
  with C f w(1) show ?thesis
    by (intro exI [of _ "enter w ra sem ws s"]) (auto simp: sem_at_def dest: harmlessD(7), auto simp: enter_def Let_def)
qed

lemma release_empty:
  assumes wf: "kwf g s" and s: "sem_at g s sem (Some [])"
  shows "\<exists>s'. sem_release sem s = Some s' \<and> harmless g s s' \<and> sem_at g s' sem None"
proof -
  let ?s = "put sem S_bptr 1 s"
  have f: "foreign g s sem" "sem \<noteq> 0" "kmem s sem S_bptr = 0" "kmem s sem S_fptr = 0"
    using s by (simp_all add: sem_at_def sem_held_def)
  then have "sem_release sem s = Some ?s" by (simp add: sem_release_def)
  moreover have "harmless g s ?s" using f(1) by (intro harmless_put harmless_refl wf) simp
  moreover have "sem_at g ?s sem None" using f by (simp add: sem_at_def sem_free_def)
  ultimately show ?thesis by blast
qed

lemma release_wakes:
  assumes wf: "kwf g s" and s: "sem_at g s sem (Some (w # ws))" and v: "v = kmem s w Priofinity" "local_to s v"
    and room: "room (Suc k) g s"
  shows "\<exists>s' g'. sem_release sem s = Some s' \<and> kwf g' s' \<and> room k g' s' \<and> sem_at g' s' sem (Some ws) \<and>
    view g' s' = added s v w (view g s) \<and> (\<forall>x. x \<noteq> w \<longrightarrow> unqueued g x \<longrightarrow> unqueued g' x) \<and> kmem s' w Iptr = kmem s w Iptr"
proof -
  have f: "foreign g s sem" "sem_held s sem (w # ws)" "unqueued g w" "\<forall>x \<in> set ws. unqueued g x"
    using s by (simp_all add: sem_at_def)
  have d: "w \<notin> set ws" "w \<noteq> 0" using f(2) chain_distinct [of _ _ "w # ws"] by (auto simp: sem_held_def)
  have b: "kmem s sem S_bptr \<noteq> 0" "sem \<noteq> 0"
    using f(2,4) d(2) by (auto simp: sem_held_def unqueued_def split: if_splits)
  let ?s1 = "leave sem ws s"
  note D = dequeue_held [OF f(2)]
  have h: "harmless g s ?s1" using f(1) by (auto simp: leave_def intro!: harmless_put harmless_refl wf)
  note H = harmlessD [OF h]
  have P: "kmem ?s1 w Priofinity = v" "kmem ?s1 w Iptr = kmem s w Iptr" using v(1) by (simp_all add: leave_def)
  obtain s' g' where 1: "enqueue_process w ?s1 = Some s'" "kwf g' s'" "queues w g ?s1 g' s'" "room k g' s'"
    "view g' s' = added s v w (view g s)"
    using enqueue_added [OF h f(3) _ v(2) room] P(1) by metis
  have q: "calm ?s1 s'" "stays g ?s1 g' s'" "\<And>x. x \<noteq> w \<Longrightarrow> unqueued g x \<Longrightarrow> unqueued g' x \<and> kmem s' x Link = kmem ?s1 x Link"
    using 1(3) by (auto simp: queues_def)
  have f1: "foreign g ?s1 sem" by (rule H(7) [OF f(1)])
  have fr: "foreign g' s' sem" "kmem s' sem S_fptr = kmem ?s1 sem S_fptr" "kmem s' sem S_bptr = kmem ?s1 sem S_bptr"
    using staysD(1) [OF q(2) f1] staysD(2) [OF q(2) f1] by simp_all
  have un: "unqueued g' x" "kmem s' x Link = kmem ?s1 x Link" if "x \<in> set ws" for x
    using q(3) [of x] f(4) d(1) that by auto
  have "chain (\<lambda>w. kmem ?s1 w Link) (kmem ?s1 sem S_fptr) ws" using D(2) by (simp add: sem_held_def)
  then have "chain (\<lambda>w. kmem s' w Link) (kmem ?s1 sem S_fptr) ws" by (rule chain_cong) (simp add: un(2))
  then have "sem_held s' sem ws" using D(2) fr by (simp add: sem_held_def)
  then have "sem_at g' s' sem (Some ws)" using fr(1) un(1) by (simp add: sem_at_def)
  moreover have "sem_release sem s = Some s'" using b d(2) D(1) 1(1) by (simp add: sem_release_def wake_next_def)
  ultimately show ?thesis using 1(2,4,5) q(3) P(2) calm_simps(13) [OF q(1)] by (intro exI [of _ s'] exI [of _ g']) auto
qed

section \<open>Parallel constructs\<close>

text \<open>Processes of a parallel construct end one after the other.\<close>

fun end_all :: "WORD list \<Rightarrow> WORD \<Rightarrow> WORD \<Rightarrow> kern \<Rightarrow> kern option" where
  "end_all [] return_address ptr s = Some s"
| "end_all (w # ws) return_address ptr s = do {
     (_, s) \<leftarrow> Y_endp w return_address ptr s;
     end_all ws return_address ptr s }"

text \<open>All but the last only count down.\<close>

lemma Y_endp_counts:
  assumes wf: "kwf g s" and p: "foreign g s ptr" "ptr \<noteq> 0" "kmem s ptr Count \<noteq> 1" and w: "unqueued g w" "w \<noteq> ptr"
  shows "\<exists>s'. Y_endp w ra ptr s = Some (Schedule, s') \<and> harmless g s s' \<and> kmem s' ptr Count = kmem s ptr Count - 1 \<and>
    stats_endp s' = stats_endp s + 1 \<and> (\<forall>k. k \<noteq> Count \<longrightarrow> kmem s' ptr k = kmem s ptr k)"
proof -
  let ?s1 = "put ptr Count (kmem s ptr Count - 1) (put w Iptr ra s)"
  let ?s2 = "?s1\<lparr>stats_endp := stats_endp s + 1\<rparr>"
  have "w \<noteq> 0" using w by (simp add: unqueued_def)
  then have "Y_endp w ra ptr s = Some (Schedule, ?s2)"
    using p w by (simp add: Y_endp_def save_return_def)
  moreover have h: "harmless g s ?s1" using p(1) w(1) by (intro harmless_put harmless_refl wf) simp_all
  note M = kwf_masks [OF harmlessD(1) [OF h], of ?s2, simplified]
  have "harmless g ?s1 ?s2" using M by (simp add: harmless_def foreign_def)
  then have "harmless g s ?s2" by (rule harmless_trans [OF h])
  ultimately show ?thesis using w(2) by (intro exI [of _ ?s2]) simp
qed

text \<open>The last makes the parent ready.\<close>

lemma Y_endp_last:
  assumes wf: "kwf g s" and p: "foreign g s ptr" "unqueued g ptr" "kmem s ptr Count = 1" and w: "unqueued g w" "w \<noteq> ptr"
    and v: "v = kmem s ptr SavedPriority" "local_to s v" and room: "room (Suc k) g s"
  shows "\<exists>s' g'. Y_endp w ra ptr s = Some (Schedule, s') \<and> kwf g' s' \<and> room k g' s' \<and> view g' s' = added s v ptr (view g s) \<and>
    kmem s' ptr Iptr = kmem s ptr IptrSucc \<and> kmem s' ptr Priofinity = v"
proof -
  let ?s = "put ptr Iptr (kmem s ptr IptrSucc) (put ptr Priofinity v (put ptr Count 0 (put w Iptr ra s)))"
  have h: "harmless g s ?s" using p(1,2) w(1) by (intro harmless_put harmless_refl wf) simp_all
  obtain s' g' where 1: "enqueue_process ptr ?s = Some s'" "kwf g' s'" "queues ptr g ?s g' s'" "room k g' s'"
    "view g' s' = added s v ptr (view g s)"
    by (rule enqueue_added [OF h p(2) _ v(2) room]) simp_all
  have "w \<noteq> 0" "ptr \<noteq> 0" using w p by (simp_all add: unqueued_def)
  then have "Y_endp w ra ptr s = Some (Schedule, s')"
    using p(3) v(1) w(2) 1(1) by (simp add: Y_endp_def save_return_def)
  moreover have "calm ?s s'" using 1(3) by (simp add: queues_def)
  from calm_simps(13) [OF this] have "kmem s' ptr Iptr = kmem s ptr IptrSucc" "kmem s' ptr Priofinity = v" by simp_all
  ultimately show ?thesis using 1 by blast
qed

lemma end_all_joins:
  assumes "kwf g s" "foreign g s ptr" "unqueued g ptr" "ws \<noteq> []" "kmem s ptr Count = of_nat (length ws)" "length ws < 2 ^ 32"
    "\<forall>w \<in> set ws. unqueued g w \<and> w \<noteq> ptr" "v = kmem s ptr SavedPriority" "local_to s v" "room (Suc k) g s"
  shows "\<exists>s' g'. end_all ws ra ptr s = Some s' \<and> kwf g' s' \<and> room k g' s' \<and> view g' s' = added s v ptr (view g s) \<and>
    kmem s' ptr Iptr = kmem s ptr IptrSucc \<and> kmem s' ptr Priofinity = v"
  using assms
proof (induction ws arbitrary: s)
  case (Cons w ws)
  have nz: "ptr \<noteq> 0" using Cons.prems(3) by (simp add: unqueued_def)
  show ?case
  proof (cases "ws = []")
    case True
    with Y_endp_last [OF Cons.prems(1-3) _ _ _ Cons.prems(8-10), of w ra] Cons.prems(5,7) show ?thesis by auto
  next
    case False
    have "of_nat (Suc (length ws)) \<noteq> (1 :: WORD)"
      using False Cons.prems(6) by (simp add: word_unat_eq_iff unat_of_nat del: of_nat_Suc)
    then have c: "kmem s ptr Count \<noteq> 1" using Cons.prems(5) by simp
    obtain s1 where 1: "Y_endp w ra ptr s = Some (Schedule, s1)" "harmless g s s1" "kmem s1 ptr Count = kmem s ptr Count - 1"
      "\<forall>k. k \<noteq> Count \<longrightarrow> kmem s1 ptr k = kmem s ptr k"
      using Y_endp_counts [OF Cons.prems(1,2) nz c, of w ra] Cons.prems(7) by auto
    note H = harmlessD [OF 1(2)]
    have "added s1 v ptr (view g s1) = added s v ptr (view g s)" using H(2,5) by (simp add: added_def)
    then show ?thesis
      using Cons.IH [OF H(1) H(7) [OF Cons.prems(2)] Cons.prems(3) False _ _ _ _ _ H(3) [OF Cons.prems(10)]]
        Cons.prems(5-9) 1(1,3,4) H(5,6) by (simp add: local_to_def)
  qed
qed simp

end
