(* ===== verification/Ccsp_Alt_Laws.thy ===== *)
theory Ccsp_Alt_Laws
  imports Ccsp_Comm Ccsp_Alt
begin

text \<open>
  Alternation in the native kernel, from its start to the branch that is taken: the guards are enabled in turn, the process
  goes on when one is ready and waits otherwise, the first partner wakes it and the others do not, and the
  first ready guard that is disabled is the one selected.
\<close>

section \<open>The state of an alternation\<close>

text \<open>Flags (not ready 1, waiting 2, enabling 4) above the number of those that may still refer to the process.\<close>

definition alt_word :: "WORD \<Rightarrow> nat \<Rightarrow> WORD" where
  "alt_word f n = push_bit 28 f + of_nat n"

lemma bit_alt_word:
  assumes "n < 2 ^ 28"
  shows "bit (alt_word f n) i \<longleftrightarrow> (if i < 28 then bit n i else i < 32 \<and> bit f (i - 28))"
proof -
  have n: "bit (of_nat n :: WORD) j \<longleftrightarrow> j < 28 \<and> bit n j" for j
  proof -
    have "take_bit 28 n = n" using assms by (simp add: take_bit_nat_eq_self)
    then have "bit n j \<Longrightarrow> j < 28" by (metis bit_take_bit_iff)
    then show ?thesis by (auto simp: bit_of_nat_iff)
  qed
  then have "alt_word f n = push_bit 28 f OR of_nat n"
    unfolding alt_word_def by (intro disjunctive_add_eq_or) (auto simp: bit_eq_iff bit_and_iff bit_push_bit_iff)
  then show ?thesis by (auto simp: bit_or_iff bit_push_bit_iff n dest: bit_imp_le_length)
qed

lemma alt_word_parts:
  assumes "n < 2 ^ 28"
  shows "alt_word f n AND push_bit 28 m = push_bit 28 (f AND m)"
    "alt_word f n AND NOT (push_bit 28 m) = alt_word (f AND NOT m) n"
    "alt_word f n OR push_bit 28 m = alt_word (f OR m) n"
  by (rule bit_word_eqI; auto simp: bit_and_iff bit_or_iff bit_not_iff bit_push_bit_iff bit_alt_word [OF assms])+

lemma alt_word_simps:
  "alt_word f n + 1 = alt_word f (Suc n)" "alt_word f (Suc n) - 1 = alt_word f n" "alt_word 0 1 = 1" "alt_word 0 n = of_nat n"
  by (simp_all add: alt_word_def)

lemma alt_flags:
  "ALT_NOT_READY = push_bit 28 1" "ALT_WAITING = push_bit 28 2" "ALT_ENABLING = push_bit 28 4"
  "ALT_ENABLING OR ALT_NOT_READY = push_bit 28 5" "ALT_NOT_READY OR ALT_ENABLING = push_bit 28 5"
  "ALT_NOT_READY OR ALT_WAITING = push_bit 28 3"
  by simp_all

lemma alt_word_cases:
  assumes "n < 2 ^ 28"
  shows "alt_word 5 n AND ALT_NOT_READY \<noteq> 0" "alt_word 0 n AND ALT_NOT_READY = 0"
    "alt_word 2 n AND ALT_WAITING \<noteq> 0" "alt_word 0 n AND ALT_WAITING = 0"
    "alt_word 5 n AND NOT (ALT_NOT_READY OR ALT_ENABLING) = alt_word 0 n"
    "(alt_word 5 n OR ALT_WAITING) AND NOT (ALT_ENABLING OR ALT_NOT_READY) = alt_word 2 n"
    "alt_word 2 n AND NOT (ALT_NOT_READY OR ALT_WAITING) = alt_word 0 n"
    "alt_word 0 n AND NOT (ALT_NOT_READY OR ALT_WAITING) = alt_word 0 n"
    "unset_bit ALT_ENABLING_BIT (alt_word 0 n) = alt_word 0 n"
proof -
  note P = alt_word_parts [OF assms]
  show "alt_word 5 n AND ALT_NOT_READY \<noteq> 0" "alt_word 0 n AND ALT_NOT_READY = 0"
    unfolding alt_flags(1) P by simp_all
  show "alt_word 2 n AND ALT_WAITING \<noteq> 0" "alt_word 0 n AND ALT_WAITING = 0"
    unfolding alt_flags(2) P by simp_all
  show "alt_word 5 n AND NOT (ALT_NOT_READY OR ALT_ENABLING) = alt_word 0 n"
    unfolding alt_flags(5) P by simp
  have "(alt_word 5 n OR push_bit 28 2) AND NOT (push_bit 28 5) = alt_word 2 n" unfolding P by simp
  then show "(alt_word 5 n OR ALT_WAITING) AND NOT (ALT_ENABLING OR ALT_NOT_READY) = alt_word 2 n" by simp
  show "alt_word 2 n AND NOT (ALT_NOT_READY OR ALT_WAITING) = alt_word 0 n"
    "alt_word 0 n AND NOT (ALT_NOT_READY OR ALT_WAITING) = alt_word 0 n"
    unfolding alt_flags(6) P by simp_all
  show "unset_bit ALT_ENABLING_BIT (alt_word 0 n) = alt_word 0 n"
    by (rule bit_word_eqI) (auto simp: bit_unset_bit32 bit_alt_word [OF assms])
qed

section \<open>Enabling and waiting\<close>

text \<open>The address of a process with the lowest bit set is that of no process and is not null.\<close>

lemma marked:
  assumes "unqueued g w"
  shows "w OR 1 \<noteq> 0" "(w OR 1) AND 1 \<noteq> 0" "(w OR 1) AND NOT 1 = w" "w \<noteq> 0"
proof -
  have b: "\<not> bit w 0" using assms aligned_even [of w] by (simp add: unqueued_def)
  have o: "bit (w OR 1) 0" by (simp add: bit_or_iff)
  then show "w OR 1 \<noteq> 0" by (metis bit_0_eq bot_apply bot_bool_def)
  show "(w OR 1) AND 1 \<noteq> 0" using o by (simp add: and_one_iff_bit)
  show "(w OR 1) AND NOT 1 = w"
    using b by (intro bit_word_eqI) (auto simp: bit_and_iff bit_or_iff bit_not_iff bit_1_iff intro: gr0I)
  show "w \<noteq> 0" using assms by (simp add: unqueued_def)
qed

text \<open>A process that is not marked at its channel when the alternation starts; its channels are not the kernel's.\<close>

definition guards :: "ghost \<Rightarrow> kern \<Rightarrow> WORD list \<Rightarrow> bool" where
  "guards g s cs \<longleftrightarrow> distinct cs \<and> (\<forall>c \<in> set cs. foreign g s c \<and> c \<noteq> 0)"

definition idle_guards :: "kern \<Rightarrow> WORD list \<Rightarrow> nat" where
  "idle_guards s cs = length (filter (\<lambda>c. kmem s c 0 = 0) cs)"

fun enable_guards :: "WORD \<Rightarrow> WORD \<Rightarrow> WORD list \<Rightarrow> kern \<Rightarrow> kern option" where
  "enable_guards w ra [] s = Some s"
| "enable_guards w ra (c # cs) s = do {
     (_, s) \<leftarrow> X_enbc w ra 1 c s;
     enable_guards w ra cs s }"

lemma enable_idle:
  assumes wf: "kwf g s" and w: "unqueued g w" and c: "foreign g s c" "c \<noteq> 0" "kmem s c 0 = 0"
    and st: "kmem s w State = alt_word f n"
  defines "s' \<equiv> put w State (alt_word f (Suc n)) (put c 0 (w OR 1) s)"
  shows "X_enbc w ra 1 c s = Some (Value 1, s')" "harmless g s s'"
  using marked [OF w] c w st
  by (simp_all add: s'_def X_enbc_def kernel_enbc_def leave_or_def alt_word_simps harmless_put harmless_refl wf)

lemma enable_ready:
  assumes wf: "kwf g s" and w: "unqueued g w" and c: "c \<noteq> 0" "kmem s c 0 \<noteq> 0" "kmem s c 0 \<noteq> w OR 1"
    and st: "kmem s w State = alt_word (if r then 0 else 5) n" "n < 2 ^ 28"
  defines "s' \<equiv> (if r then s else put w State (alt_word 0 n) s)"
  shows "X_enbc w ra 1 c s = Some (Value 1, s')" "harmless g s s'"
proof -
  note A = alt_word_cases [OF st(2)]
  show "X_enbc w ra 1 c s = Some (Value 1, s')"
    using marked(4) [OF w] c st A by (simp add: s'_def X_enbc_def kernel_enbc_def note_ready_def leave_or_def)
  show "harmless g s s'" using w by (simp add: s'_def harmless_put harmless_refl wf)
qed

lemma enable_guards_state:
  assumes "kwf g s" "unqueued g w" "guards g s cs" "\<forall>c \<in> set cs. kmem s c 0 \<noteq> w OR 1"
    "kmem s w State = alt_word (if r then 0 else 5) n" "n + length cs < 2 ^ 28"
  defines "r' \<equiv> r \<or> (\<exists>c \<in> set cs. kmem s c 0 \<noteq> 0)"
  shows "\<exists>s'. enable_guards w ra cs s = Some s' \<and> harmless g s s' \<and>
    kmem s' w State = alt_word (if r' then 0 else 5) (n + idle_guards s cs) \<and>
    (\<forall>c \<in> set cs. kmem s' c 0 = (if kmem s c 0 = 0 then w OR 1 else kmem s c 0)) \<and>
    (\<forall>c k. (c, k) \<noteq> (w, State) \<longrightarrow> k \<noteq> 0 \<or> c \<notin> set cs \<longrightarrow> kmem s' c k = kmem s c k)"
  using assms(1-6) unfolding r'_def
proof (induction cs arbitrary: s n r)
  case Nil
  then show ?case by (intro exI [of _ s]) (simp add: harmless_refl idle_guards_def)
next
  case (Cons c cs)
  have c: "foreign g s c" "c \<noteq> 0" "c \<notin> set cs" "distinct cs" using Cons.prems(3) by (simp_all add: guards_def)
  have step: ?case
    if 1: "X_enbc w ra 1 c s = Some (Value 1, s1)" "harmless g s s1"
      and st: "kmem s1 w State = alt_word (if r1 then 0 else 5) n1" "n1 + length cs < 2 ^ 28"
      and r1: "r1 \<longleftrightarrow> r \<or> kmem s c 0 \<noteq> 0" and n1: "n1 = (if kmem s c 0 = 0 then Suc n else n)"
      and at: "kmem s1 c 0 = (if kmem s c 0 = 0 then w OR 1 else kmem s c 0)"
      and off: "\<And>d k. (d, k) \<noteq> (w, State) \<Longrightarrow> (d, k) \<noteq> (c, 0) \<Longrightarrow> kmem s1 d k = kmem s d k" for s1 r1 n1
  proof -
    note H = harmlessD [OF 1(2)]
    have same: "kmem s1 d 0 = kmem s d 0" if "d \<in> set cs" for d using off [of d 0] that c(3) by auto
    have g: "guards g s1 cs" using Cons.prems(3) H(7) by (auto simp: guards_def)
    have "\<forall>d \<in> set cs. kmem s1 d 0 \<noteq> w OR 1" using Cons.prems(4) same by simp
    from Cons.IH [OF H(1) Cons.prems(2) g this st] obtain s2 where
      2: "enable_guards w ra cs s1 = Some s2" "harmless g s1 s2"
        "kmem s2 w State = alt_word (if r1 \<or> (\<exists>d \<in> set cs. kmem s1 d 0 \<noteq> 0) then 0 else 5) (n1 + idle_guards s1 cs)"
        "\<forall>d \<in> set cs. kmem s2 d 0 = (if kmem s1 d 0 = 0 then w OR 1 else kmem s1 d 0)"
        "\<forall>d k. (d, k) \<noteq> (w, State) \<longrightarrow> k \<noteq> 0 \<or> d \<notin> set cs \<longrightarrow> kmem s2 d k = kmem s1 d k"
      by blast
    have i: "idle_guards s1 cs = idle_guards s cs" using same by (simp add: idle_guards_def cong: filter_cong)
    have e: "(\<exists>d \<in> set cs. kmem s1 d 0 \<noteq> 0) \<longleftrightarrow> (\<exists>d \<in> set cs. kmem s d 0 \<noteq> 0)" using same by simp
    show ?case
    proof (intro exI conjI)
      show "enable_guards w ra (c # cs) s = Some s2" using 1(1) 2(1) by simp
      show "harmless g s s2" by (rule harmless_trans [OF 1(2) 2(2)])
      show "kmem s2 w State = alt_word (if r \<or> (\<exists>d \<in> set (c # cs). kmem s d 0 \<noteq> 0) then 0 else 5)
          (n + idle_guards s (c # cs))"
        using 2(3) unfolding i e by (auto simp: r1 n1 idle_guards_def)
      show "\<forall>d \<in> set (c # cs). kmem s2 d 0 = (if kmem s d 0 = 0 then w OR 1 else kmem s d 0)"
        using 2(4,5) at same c(3) by auto
      show "\<forall>d k. (d, k) \<noteq> (w, State) \<longrightarrow> k \<noteq> 0 \<or> d \<notin> set (c # cs) \<longrightarrow> kmem s2 d k = kmem s d k"
        using 2(5) off by auto
    qed
  qed
  show ?case
  proof (cases "kmem s c 0 = 0")
    case True
    note E = enable_idle [OF Cons.prems(1,2) c(1,2) True Cons.prems(5)]
    show ?thesis by (rule step [OF E, of r "Suc n"]) (use True Cons.prems(6) in auto)
  next
    case False
    have "kmem s c 0 \<noteq> w OR 1" "n < 2 ^ 28" using Cons.prems(4,6) by simp_all
    note E = enable_ready [OF Cons.prems(1,2) c(2) False this(1) Cons.prems(5) this(2)]
    show ?thesis by (rule step [OF E, of True n]) (use False Cons.prems(5,6) in auto)
  qed
qed

definition begin_alt :: "WORD \<Rightarrow> WORD \<Rightarrow> WORD list \<Rightarrow> kern \<Rightarrow> (outcome \<times> kern) option" where
  "begin_alt w ra cs s = do {
     (_, s) \<leftarrow> X_alt w s;
     s \<leftarrow> enable_guards w ra cs s;
     Y_altwt w ra s }"

lemma begin_alt_state:
  assumes wf: "kwf g s" and w: "unqueued g w" "foreign g s w" "w \<notin> set cs" and cs: "guards g s cs"
    and fresh: "\<forall>c \<in> set cs. kmem s c 0 \<noteq> w OR 1" and n: "length cs < 2 ^ 28 - 1"
  defines "ready \<equiv> \<exists>c \<in> set cs. kmem s c 0 \<noteq> 0"
  shows "\<exists>s'. begin_alt w ra cs s = Some (if ready then Return else Schedule, s') \<and> harmless g s s' \<and>
    kmem s' w State = alt_word (if ready then 0 else 2) (Suc (idle_guards s cs)) \<and> kmem s' w Temp = NoneSelected_o \<and>
    (\<not> ready \<longrightarrow> kmem s' w Iptr = ra \<and> kmem s' w Priofinity = priofinity s) \<and>
    (\<forall>c \<in> set cs. kmem s' c 0 = (if kmem s c 0 = 0 then w OR 1 else kmem s c 0))"
proof -
  have nz: "w \<noteq> 0" by (rule marked(4) [OF w(1)])
  let ?s1 = "put w State (alt_word 5 (Suc 0)) s"
  have a: "X_alt w s = Some (Return, ?s1)" using nz by (simp add: X_alt_def alt_word_def)
  have h1: "harmless g s ?s1" using w(1) by (intro harmless_put harmless_refl wf) simp
  note H1 = harmlessD [OF h1]
  have i: "idle_guards ?s1 cs = idle_guards s cs" by (simp add: idle_guards_def)
  have le: "Suc (idle_guards s cs) < 2 ^ 28"
    using n le_less_trans [OF length_filter_le [of "\<lambda>c. kmem s c 0 = 0" cs]] by (simp add: idle_guards_def)
  have at: "\<And>c. kmem ?s1 c 0 = kmem s c 0" by simp
  have gs: "guards g ?s1 cs" using cs by (simp add: guards_def)
  have fr: "\<forall>c \<in> set cs. kmem ?s1 c 0 \<noteq> w OR 1" "Suc 0 + length cs < 2 ^ 28" using fresh n by simp_all
  have "kmem ?s1 w State = alt_word (if False then 0 else 5) (Suc 0)" by simp
  from enable_guards_state [OF H1(1) w(1) gs fr(1) this fr(2), of ra, unfolded i at]
  obtain s2 where 2: "enable_guards w ra cs ?s1 = Some s2" "harmless g ?s1 s2"
    "kmem s2 w State = alt_word (if ready then 0 else 5) (Suc (idle_guards s cs))"
    "\<forall>c \<in> set cs. kmem s2 c 0 = (if kmem s c 0 = 0 then w OR 1 else kmem s c 0)"
    by (auto simp: ready_def)
  note H2 = harmlessD [OF harmless_trans [OF h1 2(2)]]
  note A = alt_word_cases [OF le]
  let ?t = "put w Temp NoneSelected_o s2"
  let ?s3 = "if ready then put w State (alt_word 0 (Suc (idle_guards s cs))) ?t
    else put w State (alt_word 2 (Suc (idle_guards s cs))) (put w Iptr ra (put w Priofinity (priofinity s2) ?t))"
  have "Y_altwt w ra s2 = Some (if ready then Return else Schedule, ?s3)"
    using nz 2(3) A by (simp add: Y_altwt_def save_priofinity_def save_return_def)
  then have "begin_alt w ra cs s = Some (if ready then Return else Schedule, ?s3)" using a 2(1) by (simp add: begin_alt_def)
  moreover have "foreign g s2 w" by (rule H2(7) [OF w(2)])
  then have "harmless g s2 ?s3" using w(1) H2(1) by (auto intro!: harmless_put harmless_refl)
  then have "harmless g s ?s3" by (rule harmless_trans [OF harmless_trans [OF h1 2(2)]])
  ultimately show ?thesis using 2(4) w(3) H2(5) by (intro exI [of _ ?s3]) auto
qed

section \<open>Partners\<close>

text \<open>The first partner wakes the process, the others only count.\<close>

lemma chan_fires:
  assumes wf: "kwf g s" and c: "foreign g s c" "c \<noteq> 0" "kmem s c 0 = w OR 1" and w: "unqueued g w"
    and q: "unqueued g q" "q \<noteq> w" and st: "kmem s w State = alt_word 2 (Suc m)" "Suc m < 2 ^ 28"
    and v: "v = kmem s w Priofinity" "local_to s v" and room: "room (Suc k) g s"
  shows "\<exists>s' g'. channel_io flags n q ra c p s = Some (Schedule, s') \<and> kwf g' s' \<and> room k g' s' \<and>
    stays g (put c 0 q s) g' s' \<and> kmem s' c 0 = q \<and> kmem s' w State = alt_word 0 m \<and>
    (\<forall>x. x \<noteq> w \<longrightarrow> unqueued g x \<longrightarrow> unqueued g' x) \<and> view g' s' = added s v w (view g s)"
proof -
  note M = marked [OF w]
  have m: "m < 2 ^ 28" using st(2) by simp
  have nz: "q \<noteq> 0" using q by (simp add: unqueued_def)
  let ?s1 = "put c 0 q (put q Priofinity (priofinity s) (put q Pointer p (put q Iptr ra s)))"
  let ?s2 = "put w State (alt_word 0 m) ?s1"
  have h: "harmless g s ?s2" using c(1) q(1) w by (intro harmless_put harmless_refl wf) simp_all
  have s1: "kmem ?s1 w State = alt_word 2 (Suc m)" using st(1) q(2) by simp
  obtain s' g' where 1: "enqueue_process w ?s2 = Some s'" "kwf g' s'" "queues w g ?s2 g' s'" "room k g' s'"
    "view g' s' = added s v w (view g s)"
    by (rule enqueue_added [OF h w _ v(2) room]) (use v(1) q(2) in auto)
  have "alt_word 2 (Suc m) AND ALT_WAITING \<noteq> 0" by (rule alt_word_cases(3) [OF st(2)])
  moreover have "(alt_word 2 (Suc m) - 1) AND NOT (ALT_NOT_READY OR ALT_WAITING) = alt_word 0 m"
    unfolding alt_word_simps(2) by (rule alt_word_cases(7) [OF m])
  ultimately have "trigger_alt_guard (w OR 1) ?s1 = Some s'"
    using M s1 1(1) by (simp add: trigger_alt_guard_def del: kmem_put)
  then have "channel_io flags n q ra c p s = Some (Schedule, s')"
    using c M nz by (simp add: channel_io_def kernel_chan_io_def save_return_def save_priofinity_def)
  moreover have q2: "calm ?s2 s'" "stays g ?s2 g' s'" "\<forall>x. x \<noteq> w \<longrightarrow> unqueued g x \<longrightarrow> unqueued g' x"
    using 1(3) by (auto simp: queues_def)
  have "kmem s' w State = alt_word 0 m" using calm_simps(13) [OF q2(1), of State w] by simp
  moreover have "stays g (put c 0 q s) g ?s2" by (auto simp: stays_def foreign_def)
  then have sy: "stays g (put c 0 q s) g' s'" by (rule stays_trans [OF _ q2(2)])
  moreover from staysD(2) [OF sy, of c 0] c(1) have "kmem s' c 0 = q" by simp
  ultimately show ?thesis using 1(2,4,5) q2(3) by blast
qed

lemma chan_fires_again:
  assumes wf: "kwf g s" and c: "foreign g s c" "c \<noteq> 0" "kmem s c 0 = w OR 1" and w: "4 dvd unat w" "w \<noteq> 0"
    and q: "unqueued g q" "q \<noteq> w" and st: "kmem s w State = alt_word 0 (Suc m)" "Suc m < 2 ^ 28" "m \<noteq> 0"
  shows "\<exists>s'. channel_io flags n q ra c p s = Some (Schedule, s') \<and> harmless g s s' \<and> kmem s' c 0 = q \<and>
    kmem s' w State = alt_word 0 m \<and> (\<forall>d. d \<noteq> c \<longrightarrow> kmem s' d 0 = kmem s d 0)"
proof -
  have "unqueued (no_batches 0) w" using w by simp
  note M = marked [OF this]
  have m: "m < 2 ^ 28" using st(2) by simp
  have nz: "q \<noteq> 0" using q by (simp add: unqueued_def)
  let ?s1 = "put c 0 q (put q Priofinity (priofinity s) (put q Pointer p (put q Iptr ra s)))"
  let ?s2 = "put w State (alt_word 0 m) ?s1"
  have "unconcerned g w State" by (simp add: unconcerned_def)
  then have h: "harmless g s ?s2" using c(1) q(1) by (intro harmless_put harmless_refl wf) simp_all
  have s1: "kmem ?s1 w State = alt_word 0 (Suc m)" using st(1) q(2) by simp
  have "alt_word 0 m \<noteq> 0" using st(3) m by (simp add: alt_word_simps word_unat_eq_iff unat_of_nat)
  moreover have "(alt_word 0 (Suc m) - 1) AND NOT (ALT_NOT_READY OR ALT_WAITING) = alt_word 0 m"
    unfolding alt_word_simps(2) by (rule alt_word_cases(8) [OF m])
  ultimately have "trigger_alt_guard (w OR 1) ?s1 = Some ?s2"
    using M s1 alt_word_cases(4) [OF st(2)] by (simp add: trigger_alt_guard_def del: kmem_put)
  then have "channel_io flags n q ra c p s = Some (Schedule, ?s2)"
    using c M nz by (simp add: channel_io_def kernel_chan_io_def save_return_def save_priofinity_def)
  with h show ?thesis by (intro exI [of _ ?s2]) simp
qed

text \<open>Partners that come to guards of a waiting process, one after the other.\<close>

fun all_arrive :: "WORD \<Rightarrow> WORD \<Rightarrow> WORD \<Rightarrow> (WORD \<times> WORD \<times> WORD) list \<Rightarrow> kern \<Rightarrow> kern option" where
  "all_arrive flags n ra [] s = Some s"
| "all_arrive flags n ra ((q, c, p) # xs) s = do {
     (_, s) \<leftarrow> channel_io flags n q ra c p s;
     all_arrive flags n ra xs s }"

lemma all_arrive_again:
  assumes "kwf g s" "4 dvd unat w" "w \<noteq> 0" "guards g s (map (fst \<circ> snd) xs)" "\<forall>(q, c, p) \<in> set xs. kmem s c 0 = w OR 1 \<and> unqueued g q \<and> q \<noteq> w"
    "kmem s w State = alt_word 0 (length xs + m)" "length xs + m < 2 ^ 28" "m \<noteq> 0"
  shows "\<exists>s'. all_arrive flags n ra xs s = Some s' \<and> harmless g s s' \<and> kmem s' w State = alt_word 0 m \<and>
    (\<forall>(q, c, p) \<in> set xs. kmem s' c 0 = q) \<and> (\<forall>d. d \<notin> (fst \<circ> snd) ` set xs \<longrightarrow> kmem s' d 0 = kmem s d 0)"
  using assms
proof (induction xs arbitrary: s)
  case Nil
  then show ?case by (intro exI [of _ s]) (simp add: harmless_refl)
next
  case (Cons x xs)
  obtain q c p where x: "x = (q, c, p)" by (cases x) auto
  have c: "foreign g s c" "c \<noteq> 0" "c \<notin> (fst \<circ> snd) ` set xs" using Cons.prems(4) by (simp_all add: guards_def x)
  have q: "kmem s c 0 = w OR 1" "unqueued g q" "q \<noteq> w" using Cons.prems(5) by (simp_all add: x)
  have st: "kmem s w State = alt_word 0 (Suc (length xs + m))" "Suc (length xs + m) < 2 ^ 28" "length xs + m \<noteq> 0"
    using Cons.prems(6-8) by simp_all
  obtain s1 where 1: "channel_io flags n q ra c p s = Some (Schedule, s1)" "harmless g s s1" "kmem s1 c 0 = q"
    "kmem s1 w State = alt_word 0 (length xs + m)" "\<forall>d. d \<noteq> c \<longrightarrow> kmem s1 d 0 = kmem s d 0"
    using chan_fires_again [OF Cons.prems(1) c(1,2) q(1) Cons.prems(2,3) q(2,3) st] by blast
  note H = harmlessD [OF 1(2)]
  have gs: "guards g s1 (map (fst \<circ> snd) xs)" using Cons.prems(4) H(7) by (auto simp: guards_def comp_def)
  have al: "\<forall>(q, c, p) \<in> set xs. kmem s1 c 0 = w OR 1 \<and> unqueued g q \<and> q \<noteq> w"
  proof
    fix y assume y: "y \<in> set xs"
    obtain r d t where e: "y = (r, d, t)" by (cases y) auto
    have "d \<noteq> c" using y c(3) by (force simp: e)
    then show "case y of (q, c, p) \<Rightarrow> kmem s1 c 0 = w OR 1 \<and> unqueued g q \<and> q \<noteq> w"
      using y Cons.prems(5) 1(5) by (auto simp: e)
  qed
  have "length xs + m < 2 ^ 28" using Cons.prems(7) by simp
  from Cons.IH [OF H(1) Cons.prems(2,3) gs al 1(4) this Cons.prems(8)] obtain s2 where 2: "all_arrive flags n ra xs s1 = Some s2" "harmless g s1 s2" "kmem s2 w State = alt_word 0 m"
    "\<forall>(q, c, p) \<in> set xs. kmem s2 c 0 = q" "\<forall>d. d \<notin> (fst \<circ> snd) ` set xs \<longrightarrow> kmem s2 d 0 = kmem s1 d 0"
    by blast
  have "harmless g s s2" by (rule harmless_trans [OF 1(2) 2(2)])
  with 1 2 c(3) show ?case by (intro exI [of _ s2]) (auto simp: x)
qed

lemma all_arrive_once:
  assumes wf: "kwf g s" and w: "unqueued g w" and xs: "guards g s (map (fst \<circ> snd) xs)" "xs \<noteq> []"
    "\<forall>(q, c, p) \<in> set xs. kmem s c 0 = w OR 1 \<and> unqueued g q \<and> q \<noteq> w"
    and st: "kmem s w State = alt_word 2 (length xs + m)" "length xs + m < 2 ^ 28" "m \<noteq> 0"
    and v: "v = kmem s w Priofinity" "local_to s v" and room: "room (Suc k) g s"
  shows "\<exists>s' g'. all_arrive flags n ra xs s = Some s' \<and> kwf g' s' \<and> room k g' s' \<and> kmem s' w State = alt_word 0 m \<and>
    (\<forall>(q, c, p) \<in> set xs. kmem s' c 0 = q) \<and> view g' s' = added s v w (view g s)"
proof -
  obtain q c p ys where x: "xs = (q, c, p) # ys" using xs(2) by (cases xs) auto
  have c: "foreign g s c" "c \<noteq> 0" "c \<notin> (fst \<circ> snd) ` set ys" using xs(1) by (simp_all add: guards_def x)
  have q: "kmem s c 0 = w OR 1" "unqueued g q" "q \<noteq> w" using xs(3) by (simp_all add: x)
  have st1: "kmem s w State = alt_word 2 (Suc (length ys + m))" "Suc (length ys + m) < 2 ^ 28" using st by (simp_all add: x)
  obtain s1 g1 where 1: "channel_io flags n q ra c p s = Some (Schedule, s1)" "kwf g1 s1" "room k g1 s1"
    "stays g (put c 0 q s) g1 s1" "kmem s1 c 0 = q" "kmem s1 w State = alt_word 0 (length ys + m)"
    "\<forall>x. x \<noteq> w \<longrightarrow> unqueued g x \<longrightarrow> unqueued g1 x" "view g1 s1 = added s v w (view g s)"
    using chan_fires [OF wf c(1,2) q(1) w q(2,3) st1 v room] by blast
  have same: "foreign g1 s1 d" "d \<noteq> c \<Longrightarrow> kmem s1 d 0 = kmem s d 0" if "foreign g s d" for d
    using staysD(1) [OF 1(4), of d] staysD(2) [OF 1(4), of d 0] that by simp_all
  have w4: "4 dvd unat w" "w \<noteq> 0" using w by (simp_all add: unqueued_def)
  have g1: "guards g1 s1 (map (fst \<circ> snd) ys)" using xs(1) same by (auto simp: guards_def comp_def x)
  have a1: "\<forall>(q, c, p) \<in> set ys. kmem s1 c 0 = w OR 1 \<and> unqueued g1 q \<and> q \<noteq> w"
  proof
    fix y assume y: "y \<in> set ys"
    obtain r d t where e: "y = (r, d, t)" by (cases y) auto
    have "d \<noteq> c" "foreign g s d" using y c(3) xs(1) by (force simp: e guards_def x)+
    moreover have "kmem s d 0 = w OR 1" "unqueued g r" "r \<noteq> w" using y xs(3) by (auto simp: e x)
    ultimately show "case y of (q, c, p) \<Rightarrow> kmem s1 c 0 = w OR 1 \<and> unqueued g1 q \<and> q \<noteq> w"
      using same 1(7) by (simp add: e)
  qed
  have "length ys + m < 2 ^ 28" using st1(2) by simp
  from all_arrive_again [OF 1(2) w4 g1 a1 1(6) this st(3), of flags n ra] obtain s2 where
    2: "all_arrive flags n ra ys s1 = Some s2" "harmless g1 s1 s2" "kmem s2 w State = alt_word 0 m"
      "\<forall>(q, c, p) \<in> set ys. kmem s2 c 0 = q" "\<forall>d. d \<notin> (fst \<circ> snd) ` set ys \<longrightarrow> kmem s2 d 0 = kmem s1 d 0"
    by blast
  note H = harmlessD [OF 2(2)]
  show ?thesis
    using 1(1,5,8) 2 H(1,2) H(3) [OF 1(3)] c(3) by (intro exI [of _ s2] exI [of _ g1]) (simp add: x)
qed

section \<open>Disabling and selecting\<close>

fun disable_guards :: "WORD \<Rightarrow> (WORD \<times> WORD) list \<Rightarrow> kern \<Rightarrow> kern option" where
  "disable_guards w [] s = Some s"
| "disable_guards w ((pa, c) # xs) s = do {
     (_, s) \<leftarrow> X_disc w pa 1 c s;
     disable_guards w xs s }"

text \<open>The branch of the first guard at which there is a partner, unless one is selected already.\<close>

definition selects :: "WORD \<Rightarrow> kern \<Rightarrow> WORD \<Rightarrow> (WORD \<times> WORD) list \<Rightarrow> WORD" where
  "selects w s t xs = (if t \<noteq> NoneSelected_o then t
     else case find (\<lambda>(pa, c). kmem s c 0 \<noteq> w OR 1) xs of Some (pa, c) \<Rightarrow> pa | None \<Rightarrow> NoneSelected_o)"

definition armed :: "WORD \<Rightarrow> kern \<Rightarrow> (WORD \<times> WORD) list \<Rightarrow> nat" where
  "armed w s xs = length (filter (\<lambda>(pa, c). kmem s c 0 = w OR 1) xs)"

lemma disable_one:
  assumes wf: "kwf g s" and w: "unqueued g w" "foreign g s w" "w \<noteq> c" and c: "foreign g s c" "c \<noteq> 0" "kmem s c 0 \<noteq> 0"
    and st: "kmem s w State = alt_word 0 (n + (if kmem s c 0 = w OR 1 then 1 else 0))"
  shows "\<exists>r s'. X_disc w pa 1 c s = Some (r, s') \<and> harmless g s s' \<and> kmem s' w State = alt_word 0 n \<and>
    kmem s' w Temp = (if kmem s c 0 \<noteq> w OR 1 \<and> kmem s w Temp = NoneSelected_o then pa else kmem s w Temp) \<and>
    kmem s' c 0 = (if kmem s c 0 = w OR 1 then 0 else kmem s c 0) \<and> (\<forall>d. d \<noteq> c \<longrightarrow> d \<noteq> w \<longrightarrow> kmem s' d 0 = kmem s d 0)"
proof -
  have nz: "w \<noteq> 0" by (rule marked(4) [OF w(1)])
  let ?s = "if kmem s c 0 = w OR 1 then put w State (alt_word 0 n) (put c 0 0 s)
    else if kmem s w Temp = NoneSelected_o then put w Temp pa s else s"
  have "X_disc w pa 1 c s = Some (Value (if kmem s c 0 = w OR 1 then 0 else 1), ?s)"
    using nz c w(3) st by (simp add: X_disc_def kernel_disc_def none_selected_def alt_word_simps(2))
  moreover have "harmless g s ?s" using w c by (simp add: harmless_put harmless_refl wf)
  ultimately show ?thesis using st w(3) by (intro exI [of _ ?s] exI conjI) auto
qed

lemma disable_guards_state:
  assumes "kwf g s" "unqueued g w" "foreign g s w" "guards g s (map snd xs)" "w \<notin> snd ` set xs"
    "\<forall>(pa, c) \<in> set xs. kmem s c 0 \<noteq> 0 \<and> pa \<noteq> NoneSelected_o" "kmem s w State = alt_word 0 (m + armed w s xs)"
  shows "\<exists>s'. disable_guards w xs s = Some s' \<and> harmless g s s' \<and> kmem s' w State = alt_word 0 m \<and>
    kmem s' w Temp = selects w s (kmem s w Temp) xs \<and>
    (\<forall>(pa, c) \<in> set xs. kmem s' c 0 = (if kmem s c 0 = w OR 1 then 0 else kmem s c 0)) \<and>
    (\<forall>d. d \<notin> snd ` set xs \<longrightarrow> d \<noteq> w \<longrightarrow> kmem s' d 0 = kmem s d 0)"
  using assms
proof (induction xs arbitrary: s)
  case Nil
  then show ?case by (intro exI [of _ s]) (simp add: harmless_refl armed_def selects_def)
next
  case (Cons x xs)
  obtain pa c where x: "x = (pa, c)" by (cases x) auto
  have c: "foreign g s c" "c \<noteq> 0" "c \<notin> snd ` set xs" "w \<noteq> c" "kmem s c 0 \<noteq> 0" "pa \<noteq> NoneSelected_o"
    using Cons.prems(4-6) by (auto simp: guards_def x)
  have "kmem s w State = alt_word 0 (m + armed w s xs + (if kmem s c 0 = w OR 1 then 1 else 0))"
    using Cons.prems(7) by (simp add: armed_def x)
  from disable_one [OF Cons.prems(1-3) c(4,1,2,5) this, of pa] obtain r s1 where
    1: "X_disc w pa 1 c s = Some (r, s1)" "harmless g s s1" "kmem s1 w State = alt_word 0 (m + armed w s xs)"
      "kmem s1 w Temp = (if kmem s c 0 \<noteq> w OR 1 \<and> kmem s w Temp = NoneSelected_o then pa else kmem s w Temp)"
      "kmem s1 c 0 = (if kmem s c 0 = w OR 1 then 0 else kmem s c 0)" "\<forall>d. d \<noteq> c \<longrightarrow> d \<noteq> w \<longrightarrow> kmem s1 d 0 = kmem s d 0"
    by blast
  note H = harmlessD [OF 1(2)]
  have same: "kmem s1 d 0 = kmem s d 0" if "(pb, d) \<in> set xs" for pb d
    using 1(6) that c(3) Cons.prems(5) by force
  have gs: "guards g s1 (map snd xs)" using Cons.prems(4) H(7) by (auto simp: guards_def)
  have al: "\<forall>(pa, c) \<in> set xs. kmem s1 c 0 \<noteq> 0 \<and> pa \<noteq> NoneSelected_o" using Cons.prems(6) same by fastforce
  have F: "filter (\<lambda>(pa, c). kmem s1 c 0 = w OR 1) xs = filter (\<lambda>(pa, c). kmem s c 0 = w OR 1) xs"
    using same by (intro filter_cong) auto
  have a: "armed w s1 xs = armed w s xs" by (simp add: armed_def F)
  have find: "find (\<lambda>(pa, c). kmem s1 c 0 \<noteq> w OR 1) xs = find (\<lambda>(pa, c). kmem s c 0 \<noteq> w OR 1) xs"
    using same by (intro find_cong) auto
  have w: "w \<notin> snd ` set xs" using Cons.prems(5) by simp
  have "kmem s1 w State = alt_word 0 (m + armed w s1 xs)" using 1(3) a by simp
  from Cons.IH [OF H(1) Cons.prems(2) H(7) [OF Cons.prems(3)] gs w al this] obtain s2 where
    2: "disable_guards w xs s1 = Some s2" "harmless g s1 s2" "kmem s2 w State = alt_word 0 m"
      "kmem s2 w Temp = selects w s1 (kmem s1 w Temp) xs"
      "\<forall>(pa, c) \<in> set xs. kmem s2 c 0 = (if kmem s1 c 0 = w OR 1 then 0 else kmem s1 c 0)"
      "\<forall>d. d \<notin> snd ` set xs \<longrightarrow> d \<noteq> w \<longrightarrow> kmem s2 d 0 = kmem s1 d 0"
    by blast
  show ?case
  proof (intro exI conjI)
    show "disable_guards w (x # xs) s = Some s2" using 1(1) 2(1) by (simp add: x)
    show "harmless g s s2" by (rule harmless_trans [OF 1(2) 2(2)])
    show "kmem s2 w State = alt_word 0 m" by (rule 2(3))
    show "kmem s2 w Temp = selects w s (kmem s w Temp) (x # xs)"
      using 2(4) 1(4) c(6) find by (auto simp: selects_def x)
    show "\<forall>(pa, c) \<in> set (x # xs). kmem s2 c 0 = (if kmem s c 0 = w OR 1 then 0 else kmem s c 0)"
      using 2(5,6) 1(5) c(3,4) same by (fastforce simp: x)
    show "\<forall>d. d \<notin> snd ` set (x # xs) \<longrightarrow> d \<noteq> w \<longrightarrow> kmem s2 d 0 = kmem s d 0"
      using 2(6) 1(6) by (simp add: x)
  qed
qed

definition end_alt :: "WORD \<Rightarrow> WORD \<Rightarrow> (WORD \<times> WORD) list \<Rightarrow> kern \<Rightarrow> (outcome \<times> kern) option" where
  "end_alt w ra xs s = do { s \<leftarrow> disable_guards w xs s; Y_altend w ra s }"

lemma end_alt_state:
  assumes wf: "kwf g s" and w: "unqueued g w" "foreign g s w" "w \<notin> snd ` set xs" and cs: "guards g s (map snd xs)"
    "\<forall>(pa, c) \<in> set xs. kmem s c 0 \<noteq> 0 \<and> pa \<noteq> NoneSelected_o"
    and st: "kmem s w State = alt_word 0 (Suc (armed w s xs))" "kmem s w Temp = NoneSelected_o"
    and sel: "find (\<lambda>(pa, c). kmem s c 0 \<noteq> w OR 1) xs = Some (pa, c)"
  shows "\<exists>s'. end_alt w ra xs s = Some (Resume w, s') \<and> harmless g s s' \<and> kmem s' w Iptr = ra + pa \<and>
    (\<forall>(pa, c) \<in> set xs. kmem s' c 0 = (if kmem s c 0 = w OR 1 then 0 else kmem s c 0))"
proof -
  have nz: "w \<noteq> 0" by (rule marked(4) [OF w(1)])
  have "kmem s w State = alt_word 0 (Suc 0 + armed w s xs)" using st(1) by simp
  from disable_guards_state [OF wf w(1,2) cs(1) w(3) cs(2) this] st(2) sel obtain s1 where
    1: "disable_guards w xs s = Some s1" "harmless g s s1" "kmem s1 w State = alt_word 0 (Suc 0)" "kmem s1 w Temp = pa"
      "\<forall>(pa, c) \<in> set xs. kmem s1 c 0 = (if kmem s c 0 = w OR 1 then 0 else kmem s c 0)"
    by (auto simp: selects_def)
  let ?s = "put w Iptr (ra + pa) s1"
  have "kmem s1 w State = 1" using 1(3) by (simp add: alt_word_def)
  then have "end_alt w ra xs s = Some (Resume w, ?s)"
    using nz 1(1,4) by (simp add: end_alt_def Y_altend_def kernel_altend_def save_return_def)
  moreover have "harmless g s ?s" using harmless_put [OF 1(2), of w Iptr] w(1) by simp
  ultimately show ?thesis using 1(5) by (intro exI [of _ ?s]) auto
qed

end
