(* ===== verification/Ccsp_Call_Laws.thy ===== *)
theory Ccsp_Call_Laws
  imports Ccsp_Alt_Laws Ccsp_Laws
begin

text \<open>
  The properties of the kernel calls: rendezvous over a channel, semaphores, parallel constructs and alternation. Each holds
  in every state that satisfies the kernel's invariant, for channels, semaphores and workspaces that are not
  the kernel's, and keeps the invariant.
\<close>

text \<open>Upwards or all at once, a message that does not overlap its destination is copied the same.\<close>

lemma move_scalar_Suc:
  assumes "\<forall>i < Suc n. src + of_nat i \<noteq> dst" "n < 2 ^ 32 - 1"
  shows "move_scalar (Suc n) src dst m = move_scalar n (src + 1) (dst + 1) (m(dst := m src))"
proof
  fix a :: WORD
  show "move_scalar (Suc n) src dst m a = move_scalar n (src + 1) (dst + 1) (m(dst := m src)) a"
  proof (cases "a = dst")
    case True
    have "unat (- 1 :: WORD) = 2 ^ 32 - 1" by (simp add: unsigned_minus_1_eq_mask mask_eq_exp_minus_1)
    with True assms(2) show ?thesis by (simp add: move_scalar_def)
  next
    case False
    then have e: "unat (a - dst) = Suc (unat (a - (dst + 1)))"
      using unat_minus_one [of "a - dst"] by (simp add: algebra_simps unat_gt_0)
    have s: "src + 1 + (a - (dst + 1)) = src + (a - dst)" by simp
    show ?thesis
    proof (cases "unat (a - dst) < Suc n")
      case True
      have "src + of_nat (unat (a - dst)) \<noteq> dst" using assms(1) True by blast
      then have "src + (a - dst) \<noteq> dst" by simp
      with True e False s show ?thesis by (simp add: move_scalar_def)
    next
      case n: False
      with e False show ?thesis by (simp add: move_scalar_def)
    qed
  qed
qed

lemma xmemcpy_apart:
  "\<forall>i < n. \<forall>j < n. src + of_nat i \<noteq> dst + of_nat j \<Longrightarrow> n < 2 ^ 32 \<Longrightarrow> xmemcpy n src dst m = move_scalar n src dst m"
proof (induction n arbitrary: src dst m)
  case 0
  then show ?case by (simp add: move_scalar_def fun_eq_iff)
next
  case (Suc n)
  have "\<forall>i < n. \<forall>j < n. src + 1 + of_nat i \<noteq> dst + 1 + of_nat j"
    using Suc.prems(1) by (auto simp: algebra_simps)
  then have "xmemcpy n (src + 1) (dst + 1) (m(dst := m src)) = move_scalar n (src + 1) (dst + 1) (m(dst := m src))"
    using Suc.prems(2) by (intro Suc.IH) simp_all
  moreover have "\<forall>i < Suc n. src + of_nat i \<noteq> dst"
  proof (intro allI impI)
    fix i assume "i < Suc n"
    then have "src + of_nat i \<noteq> dst + of_nat 0" using Suc.prems(1) zero_less_Suc by blast
    then show "src + of_nat i \<noteq> dst" by simp
  qed
  ultimately show ?case using Suc.prems(2) by (simp add: move_scalar_Suc)
qed

definition no_overlap :: "nat \<Rightarrow> WORD \<Rightarrow> WORD \<Rightarrow> bool" where
  "no_overlap n src dst \<longleftrightarrow> (\<forall>i < n. \<forall>j < n. src + of_nat i \<noteq> dst + of_nat j)"

lemma copied_apart: "no_overlap (unat n) src dst \<Longrightarrow> copied n src dst m = move_scalar (unat n) src dst m"
  using unsigned_less [of n, where 'a = nat] by (simp add: copied_def xmemcpy_apart no_overlap_def)

section \<open>States for the witnesses\<close>

lemma example_state:
  obtains s g where "kwf g s" "room 32 g s" "priofinity s = 16" "current g s = [0x100, 0x200]"
    "\<And>x. x \<noteq> 0 \<Longrightarrow> 4 dvd unat x \<Longrightarrow> x \<noteq> 0x100 \<Longrightarrow> x \<noteq> 0x200 \<Longrightarrow> unqueued g x" "\<And>c. c < 0x1000 \<Longrightarrow> foreign g s c"
proof (rule started_example)
  fix s g
  assume s: "kwf g s" "room 32 g s" "view g s = \<lparr>v_ready = (\<lambda>_. []), v_current = [0x100, 0x200]\<rparr>" "priofinity s = 16"
    "\<forall>x. x \<noteq> 0 \<and> 4 dvd unat x \<and> x \<notin> set [0x100, 0x200] \<longrightarrow> unqueued g x" "\<And>c. c < 0x1000 \<Longrightarrow> foreign g s c"
  have "current g s = [0x100, 0x200]" using arg_cong [OF s(3), of v_current] by simp
  then show thesis using s by (intro that [of g s]) simp_all
qed

text \<open>Words of such a state can be set, and its invariant holds.\<close>

lemma example_words:
  assumes "kwf g s" "\<And>x. x \<noteq> 0 \<Longrightarrow> 4 dvd unat x \<Longrightarrow> x \<noteq> 0x100 \<Longrightarrow> x \<noteq> 0x200 \<Longrightarrow> unqueued g x" "\<And>c. c < 0x1000 \<Longrightarrow> foreign g s c"
    "\<forall>(p, k, v) \<in> set ws. if k < 0 then p \<noteq> 0 \<and> 4 dvd unat p \<and> p \<noteq> 0x100 \<and> p \<noteq> 0x200 else p < 0x1000"
  shows "harmless g s (fold (\<lambda>(p, k, v). put p k v) ws s)"
  using assms(4)
proof (induction ws rule: rev_induct)
  case Nil
  then show ?case using assms(1) by (simp add: harmless_refl)
next
  case (snoc x ws)
  obtain p k v where x: "x = (p, k, v)" by (cases x) auto
  have "harmless g s (fold (\<lambda>(p, k, v). put p k v) ws s)" using snoc by simp
  moreover have "unconcerned g p k"
    using snoc.prems assms(2) [of p] assms(3) [of p] by (auto simp: x unconcerned_def foreign_def split: if_splits)
  ultimately show ?case by (simp add: x harmless_put)
qed

lemma all_less_4: "(\<forall>i < (4 :: nat). P i) \<longleftrightarrow> P 0 \<and> P 1 \<and> P 2 \<and> P 3"
  by (auto simp: eval_nat_numeral less_Suc_eq)

lemma no_overlap_example: "no_overlap 4 0x700 0x600"
  unfolding no_overlap_def all_less_4 by simp

section \<open>Channels\<close>

text \<open>C6: The second process at a channel, whether it inputs or outputs, copies the message from the buffer of the
  process that outputs to that of the one that inputs, leaves the channel empty, and makes its partner ready
  at the partner's priority, to go on after its own call. It goes on itself, unless the partner is more urgent: then it joins
  the current batch, and the scheduler is entered.\<close>

theorem channel_rendezvous:
  assumes "kwf g s" "foreign g s c" "c \<noteq> 0" "kmem s c 0 = q" "unqueued g q" "unqueued g w" "q \<noteq> w"
    "v = kmem s q Priofinity" "local_to s v" "room (Suc k) g s" "flags = CIO_INPUT \<or> flags = CIO_OUTPUT"
    "no_overlap (unat n) src dst" "(src, dst) = (if flags = CIO_INPUT then (kmem s q Pointer, p) else (p, kmem s q Pointer))"
  shows "\<exists>s' g' urgent. channel_io flags n w ra c p s = Some (if urgent then Schedule else Resume w, s') \<and>
    (urgent \<longleftrightarrow> PPriority v < PPriority (priofinity s)) \<and> kwf g' s' \<and> room k g' s' \<and> kmem s' c 0 = 0 \<and>
    kbytes s' = move_scalar (unat n) src dst (kbytes s) \<and> kmem s' w Iptr = ra \<and> kmem s' q Iptr = kmem s q Iptr \<and>
    view g' s' = (if urgent then (added s v q (view g s))\<lparr>v_current := current g s @ [w]\<rparr> else added s v q (view g s))"
proof -
  note C = chan_second [OF assms(1-11), of n ra p]
  have "(if flags = CIO_INPUT then copied n (kmem s q Pointer) p (kbytes s) else copied n p (kmem s q Pointer) (kbytes s)) =
      move_scalar (unat n) src dst (kbytes s)"
    using assms(12,13) by (auto simp: copied_apart split: if_splits)
  with C show ?thesis by metis
qed

theorem channel_rendezvous_witness:
  "\<exists>g s s' g'. kwf g s \<and> current g s = [0x100, 0x200] \<and> channel_io CIO_OUTPUT 4 0x400 0 0x800 0x700 s = Some (Schedule, s') \<and>
     kwf g' s' \<and> current g' s' = [0x100, 0x200, 0x400]"
proof -
  obtain s g where s: "kwf g s" "room 32 g s" "priofinity s = 16" "current g s = [0x100, 0x200]"
    "\<And>x. x \<noteq> 0 \<Longrightarrow> 4 dvd unat x \<Longrightarrow> x \<noteq> 0x100 \<Longrightarrow> x \<noteq> 0x200 \<Longrightarrow> unqueued g x" "\<And>c. c < 0x1000 \<Longrightarrow> foreign g s c"
    by (rule example_state) blast
  let ?ws = "[(0x300, Pointer, 0x600), (0x300, Priofinity, 3), (0x800, 0, 0x300)]"
  have "harmless g s (fold (\<lambda>(p, k, v). put p k v) ?ws s)" by (rule example_words [OF s(1,5,6)]) simp_all
  then have h: "harmless g s (put 0x800 0 0x300 (put 0x300 Priofinity 3 (put 0x300 Pointer 0x600 s)))" (is "harmless g s ?s") by simp
  note H = harmlessD [OF h]
  have "local_to ?s 3" by (simp add: local_to_def PHasAffinity_def)
  moreover have "room (Suc 31) g ?s" using H(3) s(2) by simp
  moreover have "foreign g ?s 0x800" using H(7) s(6) by simp
  moreover have "unqueued g 0x300" "unqueued g 0x400" by (rule s(5); simp)+
  ultimately obtain s' g' where "channel_io CIO_OUTPUT 4 0x400 0 0x800 0x700 ?s = Some (Schedule, s')" "kwf g' s'"
    "view g' s' = (added ?s 3 0x300 (view g ?s))\<lparr>v_current := current g ?s @ [0x400]\<rparr>"
    using channel_rendezvous [OF H(1), of "0x800" "0x300" "0x400" 3 31 CIO_OUTPUT 4 "0x700" "0x600" "0x700" 0] no_overlap_example s(3)
    by (auto simp: PPriority_def)
  moreover from arg_cong [OF this(3), of v_current] have "current g' s' = [0x100, 0x200, 0x400]" using H(8) s(4) by simp
  ultimately show ?thesis using H(1,8) s(4) by metis
qed

text \<open>C7: Whichever process comes first, the one that inputs or the one that outputs, the first waits, the second goes on, the
  message is copied once from the output's buffer to the input's, the channel is empty again, and the first is
  the last of the current batch.\<close>

theorem message_either_order:
  assumes "kwf g s" "foreign g s c" "c \<noteq> 0" "kmem s c 0 = 0" "unqueued g a" "unqueued g b" "a \<noteq> b" "room (Suc k) g s"
    "no_overlap (unat n) src dst"
  shows "(\<exists>s1 s2 g2. Y_in a ra n c dst s = Some (Schedule, s1) \<and> Y_out b rb n c src s1 = Some (Resume b, s2) \<and> kwf g2 s2 \<and>
      kmem s2 c 0 = 0 \<and> kbytes s2 = move_scalar (unat n) src dst (kbytes s) \<and> current g2 s2 = current g s @ [a]) \<and>
    (\<exists>s1 s2 g2. Y_out b rb n c src s = Some (Schedule, s1) \<and> Y_in a ra n c dst s1 = Some (Resume a, s2) \<and> kwf g2 s2 \<and>
      kmem s2 c 0 = 0 \<and> kbytes s2 = move_scalar (unat n) src dst (kbytes s) \<and> current g2 s2 = current g s @ [b])"
proof -
  have both: "\<exists>s1 s2 g2. channel_io f n x rx c p s = Some (Schedule, s1) \<and> channel_io f' n y ry c p' s1 = Some (Resume y, s2) \<and>
      kwf g2 s2 \<and> kmem s2 c 0 = 0 \<and> kbytes s2 = (if f' = CIO_INPUT then copied n p p' (kbytes s) else copied n p' p (kbytes s)) \<and>
      current g2 s2 = current g s @ [x]"
    if xy: "unqueued g x" "unqueued g y" "x \<noteq> y" "f' = CIO_INPUT \<or> f' = CIO_OUTPUT" for f f' x y p p' rx ry
  proof -
    obtain s1 where 1: "channel_io f n x rx c p s = Some (Schedule, s1)" "harmless g s s1" "kmem s1 c 0 = x"
      "kmem s1 x Pointer = p" "kmem s1 x Priofinity = priofinity s" "kbytes s1 = kbytes s"
      using chan_first [OF assms(1-4) xy(1)] by metis
    note H = harmlessD [OF 1(2)]
    have l: "local_to s1 (priofinity s1)" by (simp add: local_to_def)
    have v: "priofinity s1 = kmem s1 x Priofinity" using 1(5) H(5) by simp
    from chan_second [OF H(1) H(7) [OF assms(2)] assms(3) 1(3) xy(1,2,3) v l H(3) [OF assms(8)] xy(4), of n ry p']
    obtain s2 g2 where 2: "channel_io f' n y ry c p' s1 = Some (Resume y, s2)" "kwf g2 s2" "kmem s2 c 0 = 0"
      "kbytes s2 = (if f' = CIO_INPUT then copied n p p' (kbytes s) else copied n p' p (kbytes s))"
      "view g2 s2 = added s1 (priofinity s1) x (view g s1)"
      unfolding 1(4,6) by auto
    have "current g2 s2 = current g s @ [x]" using arg_cong [OF 2(5), of v_current] H(8) by (simp add: added_def)
    with 1(1) 2 show ?thesis by blast
  qed
  show ?thesis
    using both [OF assms(5,6,7), of CIO_OUTPUT CIO_INPUT ra dst rb src]
      both [OF assms(6,5) assms(7) [symmetric], of CIO_INPUT CIO_OUTPUT rb src ra dst] assms(9)
    by (simp add: Y_in_def Y_out_def copied_apart)
qed

theorem message_either_order_witness:
  "\<exists>g s s1 s2. kwf g s \<and> Y_in 0x300 0 4 0x800 0x600 s = Some (Schedule, s1) \<and>
     Y_out 0x400 0 4 0x800 0x700 s1 = Some (Resume 0x400, s2) \<and> kbytes s2 0x600 = kbytes s 0x700"
proof -
  obtain s g where s: "kwf g s" "room 32 g s" "priofinity s = 16" "current g s = [0x100, 0x200]"
    "\<And>x. x \<noteq> 0 \<Longrightarrow> 4 dvd unat x \<Longrightarrow> x \<noteq> 0x100 \<Longrightarrow> x \<noteq> 0x200 \<Longrightarrow> unqueued g x" "\<And>c. c < 0x1000 \<Longrightarrow> foreign g s c"
    by (rule example_state) blast
  have "harmless g s (fold (\<lambda>(p, k, v). put p k v) [(0x800, 0, 0)] s)" by (rule example_words [OF s(1,5,6)]) simp_all
  then have h: "harmless g s (put 0x800 0 0 s)" (is "harmless g s ?s") by simp
  note H = harmlessD [OF h]
  have "room (Suc 31) g ?s" "foreign g ?s 0x800" using H(3,7) s(2,6) by simp_all
  moreover have "unqueued g 0x300" "unqueued g 0x400" by (rule s(5); simp)+
  ultimately obtain s1 s2 where "Y_in 0x300 0 4 0x800 0x600 ?s = Some (Schedule, s1)"
    "Y_out 0x400 0 4 0x800 0x700 s1 = Some (Resume 0x400, s2)" "kbytes s2 = move_scalar 4 0x700 0x600 (kbytes ?s)"
    using message_either_order [OF H(1), of "0x800" "0x300" "0x400" 31 4 "0x700" "0x600" 0 0] no_overlap_example by auto
  moreover have "move_scalar 4 0x700 0x600 m 0x600 = m 0x700" for m by (simp add: move_scalar_def)
  ultimately show ?thesis using H(1) by metis
qed

section \<open>Semaphores\<close>

text \<open>C12: A semaphore that is held is passed on and never free in between: a process that claims it waits behind the
  others, and a release makes the first of those that wait ready, which then holds it, while the rest go on waiting.\<close>

theorem semaphore_passes_on:
  assumes "kwf g s" "sem_at g s sem (Some (w # ws))" "unqueued g x" "x \<notin> set (w # ws)" "v = kmem s w Priofinity"
    "local_to s v" "room (Suc k) g s"
  shows "(\<exists>s'. Y_sem_claim x ra sem s = Some (Schedule, s') \<and> kwf g s' \<and> sem_at g s' sem (Some (w # ws @ [x])) \<and>
      view g s' = view g s \<and> kmem s' x Iptr = ra) \<and>
    (\<exists>s' g'. X_sem_release sem s = Some (Return, s') \<and> kwf g' s' \<and> sem_at g' s' sem (Some ws) \<and>
      view g' s' = added s v w (view g s) \<and> kmem s' w Iptr = kmem s w Iptr)"
proof
  obtain s' where "sem_claim x ra sem s = Some (Schedule, s')" "harmless g s s'" "sem_at g s' sem (Some (w # ws @ [x]))"
    "kmem s' x Iptr = ra"
    using claim_waits [OF assms(1-4), of ra] by auto
  with harmlessD [OF this(2)] show "\<exists>s'. Y_sem_claim x ra sem s = Some (Schedule, s') \<and> kwf g s' \<and>
      sem_at g s' sem (Some (w # ws @ [x])) \<and> view g s' = view g s \<and> kmem s' x Iptr = ra"
    by (intro exI [of _ s']) (simp add: Y_sem_claim_def)
next
  obtain s' g' where "sem_release sem s = Some s'" "kwf g' s'" "sem_at g' s' sem (Some ws)" "view g' s' = added s v w (view g s)"
    "kmem s' w Iptr = kmem s w Iptr"
    using release_wakes [OF assms(1,2,5-7)] by blast
  then show "\<exists>s' g'. X_sem_release sem s = Some (Return, s') \<and> kwf g' s' \<and> sem_at g' s' sem (Some ws) \<and>
      view g' s' = added s v w (view g s) \<and> kmem s' w Iptr = kmem s w Iptr"
    by (intro exI [of _ s'] exI [of _ g']) (simp add: X_sem_release_def)
qed

theorem semaphore_passes_on_witness:
  "\<exists>g s s1 s2 g2. sem_at g s 0x900 (Some [0x300]) \<and> Y_sem_claim 0x400 0 0x900 s = Some (Schedule, s1) \<and>
     sem_at g s1 0x900 (Some [0x300, 0x400]) \<and> X_sem_release 0x900 s = Some (Return, s2) \<and> sem_at g2 s2 0x900 (Some [])"
proof -
  obtain s g where s: "kwf g s" "room 32 g s" "priofinity s = 16" "current g s = [0x100, 0x200]"
    "\<And>x. x \<noteq> 0 \<Longrightarrow> 4 dvd unat x \<Longrightarrow> x \<noteq> 0x100 \<Longrightarrow> x \<noteq> 0x200 \<Longrightarrow> unqueued g x" "\<And>c. c < 0x1000 \<Longrightarrow> foreign g s c"
    by (rule example_state) blast
  let ?ws = "[(0x300, Link, 0), (0x300, Priofinity, 16), (0x900, S_fptr, 0x300), (0x900, S_bptr, 0x300)]"
  have "harmless g s (fold (\<lambda>(p, k, v). put p k v) ?ws s)" by (rule example_words [OF s(1,5,6)]) simp_all
  then have h: "harmless g s (put 0x900 S_bptr 0x300 (put 0x900 S_fptr 0x300 (put 0x300 Priofinity 16 (put 0x300 Link 0 s))))"
    (is "harmless g s ?s") by simp
  note H = harmlessD [OF h]
  have un: "unqueued g 0x300" "unqueued g 0x400" by (rule s(5); simp)+
  have "foreign g ?s 0x900" using H(7) s(6) by simp
  then have sem: "sem_at g ?s 0x900 (Some [0x300])" using un by (simp add: sem_at_def sem_held_def)
  have "local_to ?s 16" "room (Suc 31) g ?s" using s(3) H(3) s(2) by (simp_all add: local_to_def)
  from semaphore_passes_on [OF H(1) sem un(2) _ _ this, of 0] obtain s1 s2 g2 where
    "Y_sem_claim 0x400 0 0x900 ?s = Some (Schedule, s1)" "sem_at g s1 0x900 (Some [0x300, 0x400])"
    "X_sem_release 0x900 ?s = Some (Return, s2)" "sem_at g2 s2 0x900 (Some [])"
    by auto
  with sem show ?thesis by blast
qed

section \<open>Parallel constructs\<close>

text \<open>C11: When as many processes of a parallel construct have ended as its parent counts, in any order, the parent has been
  made ready exactly once, at the priority and at the address it had saved.\<close>

theorem parallel_joins:
  assumes "kwf g s" "foreign g s ptr" "unqueued g ptr" "ws \<noteq> []" "kmem s ptr Count = of_nat (length ws)" "length ws < 2 ^ 32"
    "\<forall>w \<in> set ws. unqueued g w \<and> w \<noteq> ptr" "v = kmem s ptr SavedPriority" "local_to s v" "room (Suc k) g s"
  shows "\<exists>s' g'. end_all ws ra ptr s = Some s' \<and> kwf g' s' \<and> view g' s' = added s v ptr (view g s) \<and>
    kmem s' ptr Iptr = kmem s ptr IptrSucc \<and> kmem s' ptr Priofinity = v"
  using end_all_joins [OF assms, of ra] by blast

theorem parallel_joins_witness:
  "\<exists>g s s' g'. kwf g s \<and> current g s = [0x100, 0x200] \<and> end_all [0x300, 0x400] 0 0x500 s = Some s' \<and> kwf g' s' \<and>
     current g' s' = [0x100, 0x200, 0x500]"
proof -
  obtain s g where s: "kwf g s" "room 32 g s" "priofinity s = 16" "current g s = [0x100, 0x200]"
    "\<And>x. x \<noteq> 0 \<Longrightarrow> 4 dvd unat x \<Longrightarrow> x \<noteq> 0x100 \<Longrightarrow> x \<noteq> 0x200 \<Longrightarrow> unqueued g x" "\<And>c. c < 0x1000 \<Longrightarrow> foreign g s c"
    by (rule example_state) blast
  have "harmless g s (fold (\<lambda>(p, k, v). put p k v) [(0x500, Count, 2), (0x500, SavedPriority, 16)] s)"
    by (rule example_words [OF s(1,5,6)]) simp_all
  then have h: "harmless g s (put 0x500 SavedPriority 16 (put 0x500 Count 2 s))" (is "harmless g s ?s") by simp
  note H = harmlessD [OF h]
  have un: "unqueued g 0x300" "unqueued g 0x400" "unqueued g 0x500" by (rule s(5); simp)+
  have f: "foreign g ?s 0x500" using H(7) s(6) by simp
  have l: "local_to ?s 16" "room (Suc 31) g ?s" using s(3) H(3) s(2) by (simp_all add: local_to_def)
  obtain s' g' where 1: "end_all [0x300, 0x400] 0 0x500 ?s = Some s'" "kwf g' s'" "view g' s' = added ?s 16 0x500 (view g ?s)"
    using parallel_joins [OF H(1) f un(3), of "[0x300, 0x400]" 16 31 0] l un by auto
  have "current g' s' = [0x100, 0x200, 0x500]" using arg_cong [OF 1(3), of v_current] H(8) s(3,4) by (simp add: added_def)
  with 1 H(1,8) s(4) show ?thesis by metis
qed

section \<open>Alternation\<close>

text \<open>C8: An alternation over channels goes on at once when a partner is at one of them, and waits when there is
  none. In either case its workspace is left, marked, in the channels without a partner, and its state counts them.\<close>

theorem alternation_begins:
  assumes "kwf g s" "unqueued g w" "foreign g s w" "w \<notin> set cs" "guards g s cs" "\<forall>c \<in> set cs. kmem s c 0 \<noteq> w OR 1"
    "length cs < 2 ^ 28 - 1"
  shows "\<exists>s' ready. begin_alt w ra cs s = Some (if ready then Return else Schedule, s') \<and>
    (ready \<longleftrightarrow> (\<exists>c \<in> set cs. kmem s c 0 \<noteq> 0)) \<and> kwf g s' \<and> view g s' = view g s \<and>
    kmem s' w State = (if ready then 0 else ALT_WAITING) + 1 + of_nat (length (filter (\<lambda>c. kmem s c 0 = 0) cs)) \<and>
    (\<forall>c \<in> set cs. kmem s' c 0 = (if kmem s c 0 = 0 then w OR 1 else kmem s c 0))"
proof -
  obtain s' where 1: "begin_alt w ra cs s = Some (if \<exists>c \<in> set cs. kmem s c 0 \<noteq> 0 then Return else Schedule, s')" "harmless g s s'"
    "kmem s' w State = alt_word (if \<exists>c \<in> set cs. kmem s c 0 \<noteq> 0 then 0 else 2) (Suc (idle_guards s cs))"
    "\<forall>c \<in> set cs. kmem s' c 0 = (if kmem s c 0 = 0 then w OR 1 else kmem s c 0)"
    using begin_alt_state [OF assms, of ra] by blast
  have "alt_word (if r then 0 else 2) (Suc (idle_guards s cs)) =
      (if r then 0 else ALT_WAITING) + 1 + of_nat (length (filter (\<lambda>c. kmem s c 0 = 0) cs))" for r
    by (simp add: alt_word_def idle_guards_def)
  with 1 harmlessD(1,2) [OF 1(2)] show ?thesis
    by (intro exI [of _ s'] exI [of _ "\<exists>c \<in> set cs. kmem s c 0 \<noteq> 0"]) simp
qed

theorem alternation_begins_witness:
  "\<exists>g s s'. kwf g s \<and> begin_alt 0x300 0 [0x800, 0x900] s = Some (Return, s') \<and> kmem s' 0x300 State = 2 \<and>
     kmem s' 0x800 0 = 0x301 \<and> kmem s' 0x900 0 = 0x400"
proof -
  obtain s g where s: "kwf g s" "room 32 g s" "priofinity s = 16" "current g s = [0x100, 0x200]"
    "\<And>x. x \<noteq> 0 \<Longrightarrow> 4 dvd unat x \<Longrightarrow> x \<noteq> 0x100 \<Longrightarrow> x \<noteq> 0x200 \<Longrightarrow> unqueued g x" "\<And>c. c < 0x1000 \<Longrightarrow> foreign g s c"
    by (rule example_state) blast
  have "harmless g s (fold (\<lambda>(p, k, v). put p k v) [(0x800, 0, 0), (0x900, 0, 0x400)] s)"
    by (rule example_words [OF s(1,5,6)]) simp_all
  then have h: "harmless g s (put 0x900 0 0x400 (put 0x800 0 0 s))" (is "harmless g s ?s") by simp
  note H = harmlessD [OF h]
  have f: "foreign g ?s 0x300" "guards g ?s [0x800, 0x900]" using H(7) s(6) by (simp_all add: guards_def)
  have "unqueued g 0x300" by (rule s(5)) simp_all
  from alternation_begins [OF H(1) this f(1) _ f(2), of 0] obtain s' where
    "begin_alt 0x300 0 [0x800, 0x900] ?s = Some (Return, s')" "kmem s' 0x300 State = 2" "kmem s' 0x800 0 = 0x301"
    "kmem s' 0x900 0 = 0x400"
    by auto
  with H(1) show ?thesis by blast
qed

text \<open>C9: Of the partners that come to the channels of a waiting alternation, the first makes the process ready and the
  others do not: it is ready once, and its state counts the channels that are still without a partner. Each partner
  waits in its channel.\<close>

theorem alternation_woken_once:
  assumes "kwf g s" "unqueued g w" "guards g s (map (fst \<circ> snd) xs)" "xs \<noteq> []"
    "\<forall>(q, c, p) \<in> set xs. kmem s c 0 = w OR 1 \<and> unqueued g q \<and> q \<noteq> w"
    "kmem s w State = ALT_WAITING + of_nat (length xs + m)" "length xs + m < 2 ^ 28" "m \<noteq> 0"
    "v = kmem s w Priofinity" "local_to s v" "room (Suc k) g s"
  shows "\<exists>s' g'. all_arrive flags n ra xs s = Some s' \<and> kwf g' s' \<and> kmem s' w State = of_nat m \<and>
    (\<forall>(q, c, p) \<in> set xs. kmem s' c 0 = q) \<and> view g' s' = added s v w (view g s)"
proof -
  have "kmem s w State = alt_word 2 (length xs + m)" using assms(6) by (simp add: alt_word_def)
  from all_arrive_once [OF assms(1-5) this assms(7-11), of flags n ra] show ?thesis
    unfolding alt_word_simps(4) by blast
qed

theorem alternation_woken_once_witness:
  "\<exists>g s s' g'. kwf g s \<and> current g s = [0x100, 0x200] \<and>
     all_arrive CIO_OUTPUT 4 0 [(0x400, 0x800, 0x700), (0x500, 0x900, 0x700)] s = Some s' \<and> kwf g' s' \<and>
     current g' s' = [0x100, 0x200, 0x300] \<and> kmem s' 0x300 State = 1"
proof -
  obtain s g where s: "kwf g s" "room 32 g s" "priofinity s = 16" "current g s = [0x100, 0x200]"
    "\<And>x. x \<noteq> 0 \<Longrightarrow> 4 dvd unat x \<Longrightarrow> x \<noteq> 0x100 \<Longrightarrow> x \<noteq> 0x200 \<Longrightarrow> unqueued g x" "\<And>c. c < 0x1000 \<Longrightarrow> foreign g s c"
    by (rule example_state) blast
  let ?ws = "[(0x300, State, ALT_WAITING + 3), (0x300, Priofinity, 16), (0x800, 0, 0x301), (0x900, 0, 0x301)]"
  have "harmless g s (fold (\<lambda>(p, k, v). put p k v) ?ws s)" by (rule example_words [OF s(1,5,6)]) simp_all
  then have h: "harmless g s (put 0x900 0 0x301 (put 0x800 0 0x301 (put 0x300 Priofinity 16 (put 0x300 State (ALT_WAITING + 3) s))))"
    (is "harmless g s ?s") by simp
  note H = harmlessD [OF h]
  let ?xs = "[(0x400, 0x800, 0x700), (0x500, 0x900, 0x700)] :: (WORD \<times> WORD \<times> WORD) list"
  have un: "unqueued g 0x300" "unqueued g 0x400" "unqueued g 0x500" by (rule s(5); simp)+
  have f: "guards g ?s (map (fst \<circ> snd) ?xs)" using H(7) s(6) by (simp add: guards_def)
  have l: "local_to ?s 16" "room (Suc 31) g ?s" using s(3) H(3) s(2) by (simp_all add: local_to_def)
  obtain s' g' where 1: "all_arrive CIO_OUTPUT 4 0 ?xs ?s = Some s'" "kwf g' s'" "kmem s' 0x300 State = 1"
    "view g' s' = added ?s 16 0x300 (view g ?s)"
    using alternation_woken_once [OF H(1) un(1) f _ _ _ _ _ _ l, of 1 CIO_OUTPUT 4 0] un by auto
  have "current g' s' = [0x100, 0x200, 0x300]" using arg_cong [OF 1(4), of v_current] H(8) s(3,4) by (simp add: added_def)
  with 1 H(1,8) s(4) show ?thesis by metis
qed

text \<open>C10: When the guards of an alternation with a partner at one or more of them are disabled, the branch of the first of
  these is taken and the end of the alternation never waits. The channels without a partner are empty again, and
  the partners are still in theirs.\<close>

theorem alternation_selects:
  assumes "kwf g s" "unqueued g w" "foreign g s w" "w \<notin> snd ` set xs" "guards g s (map snd xs)"
    "\<forall>(pa, c) \<in> set xs. kmem s c 0 \<noteq> 0 \<and> pa \<noteq> NoneSelected_o"
    "kmem s w State = 1 + of_nat (length (filter (\<lambda>(pa, c). kmem s c 0 = w OR 1) xs))" "kmem s w Temp = NoneSelected_o"
    "find (\<lambda>(pa, c). kmem s c 0 \<noteq> w OR 1) xs = Some (pa, c)"
  shows "\<exists>s'. end_alt w ra xs s = Some (Resume w, s') \<and> kwf g s' \<and> view g s' = view g s \<and> kmem s' w Iptr = ra + pa \<and>
    (\<forall>(pa, c) \<in> set xs. kmem s' c 0 = (if kmem s c 0 = w OR 1 then 0 else kmem s c 0))"
proof -
  have "kmem s w State = alt_word 0 (Suc (armed w s xs))" using assms(7) by (simp add: alt_word_def armed_def)
  from end_alt_state [OF assms(1-6) this assms(8,9), of ra] show ?thesis using harmlessD(1,2) by blast
qed

theorem alternation_selects_witness:
  "\<exists>g s s'. kwf g s \<and> end_alt 0x300 0x40 [(0x10, 0x800), (0x20, 0x900)] s = Some (Resume 0x300, s') \<and>
     kmem s' 0x300 Iptr = 0x60 \<and> kmem s' 0x800 0 = 0 \<and> kmem s' 0x900 0 = 0x400"
proof -
  obtain s g where s: "kwf g s" "room 32 g s" "priofinity s = 16" "current g s = [0x100, 0x200]"
    "\<And>x. x \<noteq> 0 \<Longrightarrow> 4 dvd unat x \<Longrightarrow> x \<noteq> 0x100 \<Longrightarrow> x \<noteq> 0x200 \<Longrightarrow> unqueued g x" "\<And>c. c < 0x1000 \<Longrightarrow> foreign g s c"
    by (rule example_state) blast
  let ?ws = "[(0x300, State, 2), (0x300, Temp, NoneSelected_o), (0x800, 0, 0x301), (0x900, 0, 0x400)]"
  have "harmless g s (fold (\<lambda>(p, k, v). put p k v) ?ws s)" by (rule example_words [OF s(1,5,6)]) simp_all
  then have h: "harmless g s (put 0x900 0 0x400 (put 0x800 0 0x301 (put 0x300 Temp NoneSelected_o (put 0x300 State 2 s))))"
    (is "harmless g s ?s") by simp
  note H = harmlessD [OF h]
  let ?xs = "[(0x10, 0x800), (0x20, 0x900)] :: (WORD \<times> WORD) list"
  have f: "foreign g ?s 0x300" "guards g ?s (map snd ?xs)" using H(7) s(6) by (simp_all add: guards_def)
  have "unqueued g 0x300" by (rule s(5)) simp_all
  from alternation_selects [OF H(1) this f(1) _ f(2), of "0x20" "0x900" "0x40"] obtain s' where
    "end_alt 0x300 0x40 ?xs ?s = Some (Resume 0x300, s')" "kmem s' 0x300 Iptr = 0x60" "kmem s' 0x800 0 = 0"
    "kmem s' 0x900 0 = 0x400"
    by auto
  with H(1) show ?thesis by blast
qed

end
