(* ===== verification/Spec2Isabelle.thy ===== *)
theory Spec2Isabelle
  imports Tvm_Prelude Tvm_Memory Tvm_State Tvm_Queue Tvm_Scheduler Tvm_Primary Tvm_Secondary Tvm_Long
    Tvm_Divide Tvm_Footprint Tvm_Channel Tvm_Alt Tvm_Timer Tvm_Barrier Tvm_Pi Tvm_Semaphore Tvm_Short Tvm_Interp
    Tvm_Mobile Tvm_Mobile_Laws Tvm_Proc Tvm_Tencode Tvm_Tencode_Laws Tvm_Ieee Tvm_Fpu Tvm_Float
    Tvm_Mem_Variants Tvm_Ffi Tvm_Host Tvm_Posix Tvm_Extchan Tvm_Introspect Tvm_Requests Tvm_Requests_Laws
    Ccsp_State Ccsp_Batch Ccsp_Runqueue Ccsp_Wf Ccsp_Queue_Laws Ccsp_Queue_Ops Ccsp_Ready Ccsp_Curb Ccsp_Timer Ccsp_Sched
    Ccsp_Boot Ccsp_Laws Ccsp_Calls Ccsp_Alt Ccsp_Comm Ccsp_Alt_Laws Ccsp_Call_Laws
begin

text \<open>
  The two run time systems of KRoC for occam-pi programs: the Transterpreter, a virtual machine for Transputer byte code
  (the portable library \<^verbatim>\<open>src/runtime/libtvm\<close> and the program that hosts it on POSIX systems,
  \<^verbatim>\<open>src/tvm/posix\<close>), and the scheduler of CCSP (\<^verbatim>\<open>src/runtime/ccsp\<close>), the kernel that programs compiled to native code run on.

  \<^bold>\<open>The Transterpreter.\<close> A machine (\<^verbatim>\<open>tvm_t\<close>) is a list of execution contexts (\<^verbatim>\<open>ECTX\<close>). A context has the
  registers of a Transputer: the instruction pointer, a stack of three words, an operand register
  that the prefix instructions build up, the workspace pointer of the running process, and the
  front and back of its run queue and of its timer queue. Everything else is in memory, in
  words below the workspace of each process: where it is to go on, the link of the queue it is on,
  the buffer it offers to a channel, the state of its alternation. The interpreter fetches a byte,
  adds its low half to the operand and calls the function of its high half from a generated jump
  table; an instruction returns whether to go on. Channels, barriers, semaphores and mobile types are
  words of memory that the instructions change together with the queues of the scheduler. A host
  makes contexts, gives their first process a stack frame with the channels it is connected to, and runs them by
  turns; a timeout is kept by the host's alarm, which sets a flag the scheduler looks at.

  \<^bold>\<open>The kernel CCSP.\<close> A scheduler (\<^verbatim>\<open>sched_t\<close>) runs batches: queues of processes linked through their workspaces. The
  current batch is run for a number of dispatches; then, or when it is empty, it is pushed on the run queue of its priority, and the
  batch at the front of the most urgent queue is loaded. Processes that become ready at another priority collect in the
  pending batch of that priority. Queued batches without affinity are shown to other threads in a window of fifteen, processes and batches
  for other threads go by mail, and a list of timer nodes is walked when the host's alarm rings. A scheduler with nothing to do sleeps, or
  finds that the program is deadlocked.

  \<^bold>\<open>The parts of the model\<close>, each theory with the definitions of its source file under the names they
  have there (names of other layers of the same function have a suffix), then its laws:

  \<^item> \<open>Tvm_Memory\<close>: \<^verbatim>\<open>tvm_mem_intf.h\<close>, \<^verbatim>\<open>tvm_mem.h\<close>, \<^verbatim>\<open>mem.c\<close>, \<^verbatim>\<open>mem_bigendian.c\<close>. Memory is a function from
    addresses to bytes. The locale \<open>memory_interface\<close> states what a word accessor promises; the
    native and the big endian accessors interpret it. Block copies and fills of any length are exact.
    \<open>Tvm_Mem_Variants\<close> has the accessors of \<^verbatim>\<open>mem_array.c\<close> and \<^verbatim>\<open>mem_avr.c\<close>.
  \<^item> \<open>Tvm_State\<close>: \<^verbatim>\<open>transputer.h\<close>, \<^verbatim>\<open>tvm.h\<close>, \<^verbatim>\<open>instructions.h\<close>, \<^verbatim>\<open>tvm_time.h\<close>: the context and the machine as
    records, and the macros of the instructions.
  \<^item> \<open>Tvm_Queue\<close>, \<open>Tvm_Scheduler\<close>, \<open>Tvm_Timer\<close>: \<^verbatim>\<open>scheduler.c\<close>, \<^verbatim>\<open>scheduler.h\<close>. The abstraction of a queue is the list of
    workspaces linked through memory; the locale \<open>process_queue\<close> states what a first-in first-out
    queue promises, and is interpreted on the run queue here and on the queues of semaphores in
    \<open>Tvm_Semaphore\<close>. Inserting a timeout refines the insertion into a sorted list, expiry removes the prefix that is due.
  \<^item> \<open>Tvm_Primary\<close>, \<open>Tvm_Secondary\<close>, \<open>Tvm_Long\<close>, \<open>Tvm_Divide\<close>, \<open>Tvm_Short\<close>: \<^verbatim>\<open>ins_pri.c\<close>, \<^verbatim>\<open>ins_sec.c\<close>, \<^verbatim>\<open>ins_t800.c\<close>,
    \<^verbatim>\<open>ins_t9000.c\<close>. Checked arithmetic is exact or sets the error flag, and both bodies of the long instructions (with and
    without a type of 64 bits) compute the integers they stand for.
  \<^item> \<open>Tvm_Channel\<close>, \<open>Tvm_Alt\<close>: \<^verbatim>\<open>ins_chan.c\<close>, \<^verbatim>\<open>ins_alt.c\<close>, \<^verbatim>\<open>ins_timer.c\<close>. Two processes meet at a channel, in both orders;
    an alternation from \<^verbatim>\<open>alt\<close> to \<^verbatim>\<open>altend\<close> takes its first ready branch. \<open>Tvm_Footprint\<close> says which bytes are touched.
  \<^item> \<open>Tvm_Barrier\<close>, \<open>Tvm_Pi\<close>, \<open>Tvm_Semaphore\<close>: \<^verbatim>\<open>ins_barrier.c\<close>, \<^verbatim>\<open>ins_pi.c\<close>, and what barriers and semaphores promise.
  \<^item> \<open>Tvm_Mobile\<close>, \<open>Tvm_Mobile_Laws\<close>, \<open>Tvm_Proc\<close>: \<^verbatim>\<open>ins_mobile.c\<close>, \<^verbatim>\<open>mobile_types.h\<close>, \<^verbatim>\<open>ins_proc.c\<close>, and the first stack frame of a context
    and its disconnection (\<^verbatim>\<open>tvm_ectx_install_tlp\<close>, \<^verbatim>\<open>tvm_ectx_disconnect\<close> of \<^verbatim>\<open>interpreter.c\<close>).
  \<^item> \<open>Tvm_Interp\<close>: the rest of \<^verbatim>\<open>interpreter.c\<close>: the list of contexts, decoding, dispatch, and both ways of running.
  \<^item> \<open>Tvm_Ieee\<close>, \<open>Tvm_Fpu\<close>, \<open>Tvm_Float\<close>: \<^verbatim>\<open>ins_float.c\<close>. \<open>Tvm_Ieee\<close> defines the numbers of the C types \<^verbatim>\<open>float\<close> and \<^verbatim>\<open>double\<close>,
    their rounding and their bit patterns, and proves the rounding correct; the instructions of the T8's unit and
    those of the T4's software arithmetic are over it.
  \<^item> \<open>Tvm_Tencode\<close>, \<open>Tvm_Tencode_Laws\<close>: \<^verbatim>\<open>tencode.c\<close>, \<^verbatim>\<open>tvm_tbc.h\<close>: the reader of bytecode files, which writes the structures it
    decodes over the file itself, against an encoder of the documented format.
  \<^item> \<open>Tvm_Ffi\<close>, \<open>Tvm_Host\<close>, \<open>Tvm_Posix\<close>: \<^verbatim>\<open>ffi.c\<close>, \<^verbatim>\<open>tbc.c\<close>, \<^verbatim>\<open>vm.c\<close>, \<^verbatim>\<open>main.c\<close> of the host: tables of foreign functions, bytecode, contexts, the
    alarm, and the main loop as a step relation with its runs by rule induction.
  \<^item> \<open>Tvm_Extchan\<close>, \<open>Tvm_Introspect\<close>, \<open>Tvm_Requests\<close>, \<open>Tvm_Requests_Laws\<close>: external channel bundles, which the host serves in the place of a
    process, and the host's \<^verbatim>\<open>introspect.c\<close>, through which a program loads, runs and examines others: the state of a
    channel as a machine that decodes requests and encodes responses, every request, and what a client can
    rely on.
  \<^item> \<open>Ccsp_State\<close>, \<open>Ccsp_Batch\<close>, \<open>Ccsp_Runqueue\<close>, \<open>Ccsp_Timer\<close>, \<open>Ccsp_Sched\<close>, \<open>Ccsp_Boot\<close>: the kernel's \<^verbatim>\<open>sched.c\<close>,
    \<^verbatim>\<open>sched_types.h\<close> and \<^verbatim>\<open>ccsp_timer.h\<close>: state, batches (the locale \<open>fifo_queue\<close>), run queues and mail, timer queue, the
    scheduler's loop, and the start of a thread. \<open>Ccsp_Wf\<close> has the invariant, over a ghost state that says where each batch is
    and what it holds; \<open>Ccsp_Queue_Laws\<close>, \<open>Ccsp_Queue_Ops\<close>, \<open>Ccsp_Ready\<close> and \<open>Ccsp_Curb\<close> show that every operation keeps it and does to the
    abstract scheduler (the lists of ready processes by priority, and the current batch) what it promises; \<open>room\<close> counts the free batches and those
    the allocator can still provide, as an operation that finds none stops. \<open>Ccsp_Laws\<close> has the properties.
  \<^item> \<open>Ccsp_Calls\<close>, \<open>Ccsp_Alt\<close>: the kernel calls of \<^verbatim>\<open>sched.c\<close> for processes, priorities, channels, timers, semaphores, the
    barriers of mobile processes, and alternation. A call returns how it ends (\<open>outcome\<close>: to its caller, where a process last stopped, or in the scheduler) and the
    state. \<open>Ccsp_Comm\<close> shows what they do over the kernel's invariant, for words that are not the kernel's (\<open>foreign\<close>) and
    workspaces that are on no queue (\<open>unqueued\<close>); the queue of a semaphore is an interpretation of \<open>fifo_queue\<close>. \<open>Ccsp_Alt_Laws\<close> has the
    sequences of calls of an alternation over channels, and \<open>Ccsp_Call_Laws\<close> the properties.

  \<^bold>\<open>How the code is read.\<close> The build modelled has words of four bytes, little endian memory reached
  by the native accessors, the block operations of \<^verbatim>\<open>mem.c\<close>, dynamic memory for occam-pi from
  \<^verbatim>\<open>malloc\<close>, the T8's floating point unit, and no type shadow and no profiling; where a macro chooses between two
  bodies of an instruction, both are modelled, the other one under a name that ends in \<open>_portable\<close>.
  Pointers are words. Signed arithmetic is taken to wrap around (C leaves that open), and a
  shift by the width of a word or more gives zero. An operation is a function from a state to a
  result and a state. \<open>None\<close> stands for a call that does not come back to its caller with a state: a loop without end, a trap of the
  hardware, or a null pointer followed. Loops over words of memory are recursive on the count the code counts
  down; loops that follow links are \<^verbatim>\<open>partial_function\<close>s, so that \<open>None\<close> is a list that has no end, and every
  property that says such a loop returns proves that it does. The only fuel bounds how deep one request of
  introspection reaches another, where one level is enough because no response names a request. \<open>run_until_stop\<close> shows that
  the interpreter returns exactly when some instruction stops, \<open>run_count_steps\<close> that a counted run
  always ends.

  \<^bold>\<open>What is an argument of the model\<close>: the generated jump tables, the functions an embedding program
  provides (foreign functions, external channels, the hook before an instruction, the clock), the allocator, the
  dynamic linker, the results of file operations and of \<^verbatim>\<open>malloc\<close>, the address of a local variable whose
  address is taken, the value of a variable or of a cast that C leaves undefined (\<open>undef\<close>), and the bit pattern of a NaN. The
  scheduler's function pointers in a context are the functions of \<^verbatim>\<open>scheduler.c\<close>, which the library installs.

  \<^bold>\<open>Not modelled.\<close> The type shadow, profiling and messages (they do not change what a program
  computes); the instructions of \<^verbatim>\<open>ins_rmox.c\<close>, three memory barriers with empty bodies; \<^verbatim>\<open>tlsf.c\<close>, a third-party
  allocator; \<^verbatim>\<open>make-dispatch.py\<close>, which generates the jump tables; the foreign functions of \<^verbatim>\<open>sffi.c\<close>,
  \<^verbatim>\<open>unix_io.c\<close> and \<^verbatim>\<open>win32_io.c\<close>, which only call the operating system; the hosts for the Arduino, the SRV-1 and other boards, which drive
  hardware. Outside the Transterpreter the repository holds other programs: the occam compiler \<^verbatim>\<open>occ21\<close>, the
  translator to native code \<^verbatim>\<open>tranx86\<close>, libraries, bindings and tests; they are not part of this development. Of CCSP,
  the build modelled is that for the i386 with one run time thread (\<^verbatim>\<open>--disable-mp\<close>), where atomic operations are plain reads and writes and no other
  thread interferes, with \<^verbatim>\<open>malloc\<close>, no CPU timers and no checking mode; its mobile types and the calls that move them, full and fork barriers, dynamic processes,
  blocking system calls, arithmetic calls, traps and error reports are not modelled.
\<close>

end
